(* ===== verification/Prelude.thy ===== *)
theory Prelude
  imports Main "HOL-Library.Word"
begin

text \<open>
  Shared vocabulary of the development: the machine types of the C sources, fixed-size
  buffers as lists with the two memory operations the code performs on them (reading a
  range, copying a range), byte order conversions, and the search for the first slot of a
  table that satisfies a test.  The lemmas declared \<open>[simp]\<close> here carry the component
  proofs; \<open>op_defs\<close> collects the definitions of the straight-line operations that are
  unfolded in a proof by cases, \<open>frame_simps\<close> what an operation leaves unchanged.
\<close>

unbundle bit_operations_syntax

type_synonym u8 = "8 word"
type_synonym u16 = "16 word"
type_synonym u32 = "32 word"
type_synonym u64 = "64 word"
type_synonym bytes = "u8 list"

named_theorems op_defs "definitions of straight-line operations"
named_theorems frame_simps "what an operation leaves unchanged"

section \<open>Buffers\<close>

text \<open>\<open>sub_range\<close> reads \<open>n\<close> cells from an offset; \<open>blit\<close> is \<open>memcpy(xs + off, ys, length ys)\<close>.\<close>

definition sub_range :: "'a list \<Rightarrow> nat \<Rightarrow> nat \<Rightarrow> 'a list" where
  "sub_range xs off n = take n (drop off xs)"

definition blit :: "'a list \<Rightarrow> nat \<Rightarrow> 'a list \<Rightarrow> 'a list" where
  "blit xs off ys = take off xs @ ys @ drop (off + length ys) xs"

lemma length_sub_range [simp]: "length (sub_range xs off n) = min n (length xs - off)"
  by (simp add: sub_range_def min.commute)

lemma length_blit [simp]: "off + length ys \<le> length xs \<Longrightarrow> length (blit xs off ys) = length xs"
  by (simp add: blit_def)

lemma sub_range_0 [simp]: "sub_range xs 0 n = take n xs"
  by (simp add: sub_range_def)

lemma sub_range_all [simp]: "length xs = n \<Longrightarrow> sub_range xs 0 n = xs"
  by (simp add: sub_range_def)

lemma blit_nil [simp]: "blit xs off [] = xs"
  by (simp add: blit_def)

lemma sub_range_blit_same [simp]:
  "off + length ys \<le> length xs \<Longrightarrow> n = length ys \<Longrightarrow> sub_range (blit xs off ys) off n = ys"
  by (simp add: sub_range_def blit_def)

lemma nth_blit:
  assumes "off + length ys \<le> length xs" and "i < length xs"
  shows "blit xs off ys ! i = (if off \<le> i \<and> i < off + length ys then ys ! (i - off) else xs ! i)"
  using assms by (auto simp: blit_def nth_append min_def)

lemma sub_range_blit_disjoint:
  assumes "off + length ys \<le> length xs" and "o2 + n \<le> off \<or> off + length ys \<le> o2"
  shows "sub_range (blit xs off ys) o2 n = sub_range xs o2 n"
  using assms by (intro nth_equalityI) (auto simp: sub_range_def nth_blit)

lemma take_blit_0 [simp]: "length ys \<le> length xs \<Longrightarrow> take (length ys) (blit xs 0 ys) = ys"
  by (simp add: blit_def)

section \<open>First matching slot of a table\<close>

fun find_index :: "('a \<Rightarrow> bool) \<Rightarrow> 'a list \<Rightarrow> nat option" where
  "find_index P [] = None"
| "find_index P (x # xs) = (if P x then Some 0 else map_option Suc (find_index P xs))"

lemma find_index_None_iff: "find_index P xs = None \<longleftrightarrow> (\<forall>x \<in> set xs. \<not> P x)"
  by (induction xs) auto

lemma find_index_Some_iff:
  "find_index P xs = Some i \<longleftrightarrow> i < length xs \<and> P (xs ! i) \<and> (\<forall>j < i. \<not> P (xs ! j))"
proof (induction xs arbitrary: i)
  case Nil
  then show ?case by simp
next
  case (Cons x xs)
  then show ?case by (cases i) (auto simp: less_Suc_eq_0_disj)
qed

lemma find_index_SomeD:
  "find_index P xs = Some i \<Longrightarrow> i < length xs \<and> P (xs ! i)"
  by (simp add: find_index_Some_iff)

lemma find_index_cong [fundef_cong]:
  "xs = ys \<Longrightarrow> (\<And>x. x \<in> set ys \<Longrightarrow> P x = Q x) \<Longrightarrow> find_index P xs = find_index Q ys"
  by (induction xs arbitrary: ys) auto

lemma find_index_append:
  "find_index P (xs @ ys) =
     (case find_index P xs of Some i \<Rightarrow> Some i
      | None \<Rightarrow> map_option (\<lambda>j. length xs + j) (find_index P ys))"
  proof (induction xs)
  case Nil
  show ?case by (cases "find_index P ys") auto
next
  case (Cons x xs)
  then show ?case by (cases "find_index P xs"; cases "find_index P ys") auto
qed

lemma find_index_update_same:
  assumes "find_index P xs = Some i" and "P y"
  shows "find_index P (xs[i := y]) = Some i"
  using assms by (auto simp: find_index_Some_iff)

lemma find_index_update_keep:
  "i < length xs \<Longrightarrow> P y = P (xs ! i) \<Longrightarrow> find_index P (xs[i := y]) = find_index P xs"
proof (induction xs arbitrary: i)
  case (Cons x xs)
  then show ?case by (cases i) auto
qed simp

lemma find_index_update_other:
  assumes "i < length xs" and "\<not> P (xs ! i)" and "\<not> P y"
  shows "find_index P (xs[i := y]) = find_index P xs"
  using assms
proof (induction xs arbitrary: i)
  case Nil
  then show ?case by simp
next
  case (Cons x xs)
  then show ?case by (cases i) auto
qed

text \<open>A list split at one of its positions.\<close>

lemma split_at_nth:
  assumes "i < length xs"
  obtains us y vs where "xs = us @ y # vs" "take i xs = us" "drop (Suc i) xs = vs" "y = xs ! i"
  using id_take_nth_drop [OF assms] by blast

section \<open>Bytes and words\<close>

definition zeros :: "nat \<Rightarrow> bytes" where
  "zeros n = replicate n 0"

lemma length_zeros [simp]: "length (zeros n) = n"
  by (simp add: zeros_def)

lemma zeros_0 [simp]: "zeros 0 = []"
  by (simp add: zeros_def)

lemma nth_zeros [simp]: "i < n \<Longrightarrow> zeros n ! i = 0"
  by (simp add: zeros_def)

lemma take_zeros [simp]: "take m (zeros n) = zeros (min m n)"
  by (simp add: zeros_def)

lemma drop_zeros [simp]: "drop m (zeros n) = zeros (n - m)"
  by (simp add: zeros_def)

lemma zeros_add: "zeros m @ zeros n = zeros (m + n)"
  by (simp add: zeros_def replicate_add)

definition str_bytes :: "string \<Rightarrow> bytes" where
  "str_bytes s = map of_char s"

lemma length_str_bytes [simp]: "length (str_bytes s) = length s"
  by (simp add: str_bytes_def)

text \<open>The digits that \<open>%u\<close> prints.\<close>

fun dec_string :: "nat \<Rightarrow> bytes" where
  "dec_string n = (if n < 10 then [of_nat (48 + n)] else dec_string (n div 10) @ [of_nat (48 + n mod 10)])"

declare dec_string.simps [simp del]

text \<open>Big-endian and little-endian views of 16-, 32- and 64-bit words.\<close>

definition be32 :: "u8 \<Rightarrow> u8 \<Rightarrow> u8 \<Rightarrow> u8 \<Rightarrow> u32" where
  "be32 a b c d = push_bit 24 (ucast a) OR push_bit 16 (ucast b) OR push_bit 8 (ucast c) OR ucast d"

definition be32_bytes :: "u32 \<Rightarrow> bytes" where
  "be32_bytes w = [ucast (drop_bit 24 w), ucast (drop_bit 16 w), ucast (drop_bit 8 w), ucast w]"

definition be64_bytes :: "u64 \<Rightarrow> bytes" where
  "be64_bytes w = [ucast (drop_bit 56 w), ucast (drop_bit 48 w), ucast (drop_bit 40 w), ucast (drop_bit 32 w),
                   ucast (drop_bit 24 w), ucast (drop_bit 16 w), ucast (drop_bit 8 w), ucast w]"

definition le16 :: "u8 \<Rightarrow> u8 \<Rightarrow> u16" where
  "le16 a b = ucast a OR push_bit 8 (ucast b)"

definition le32 :: "u8 \<Rightarrow> u8 \<Rightarrow> u8 \<Rightarrow> u8 \<Rightarrow> u32" where
  "le32 a b c d = ucast a OR push_bit 8 (ucast b) OR push_bit 16 (ucast c) OR push_bit 24 (ucast d)"

definition le16_list :: "u16 \<Rightarrow> bytes" where
  "le16_list w = [ucast w, ucast (drop_bit 8 w)]"

definition le32_list :: "u32 \<Rightarrow> bytes" where
  "le32_list w = [ucast w, ucast (drop_bit 8 w), ucast (drop_bit 16 w), ucast (drop_bit 24 w)]"

definition le64_list :: "u64 \<Rightarrow> bytes" where
  "le64_list w = le32_list (ucast w) @ le32_list (ucast (drop_bit 32 w))"

lemma length_le_lists [simp]: "length (le16_list h) = 2" "length (le32_list v) = 4" "length (le64_list x) = 8"
  by (simp_all add: le16_list_def le32_list_def le64_list_def)

lemma length_be32_bytes [simp]: "length (be32_bytes w) = 4"
  by (simp add: be32_bytes_def)

lemma length_be64_bytes [simp]: "length (be64_bytes w) = 8"
  by (simp add: be64_bytes_def)

lemma be32_of_bytes [simp]:
  "be32 (ucast (drop_bit 24 w)) (ucast (drop_bit 16 w)) (ucast (drop_bit 8 w)) (ucast w) = w"
proof (rule bit_word_eqI)
  fix n
  assume "n < LENGTH(32)"
  then show "bit (be32 (ucast (drop_bit 24 w)) (ucast (drop_bit 16 w)) (ucast (drop_bit 8 w)) (ucast w)) n
    \<longleftrightarrow> bit w n"
    by (cases "n < 8"; cases "n < 16"; cases "n < 24") (auto simp: be32_def bit_simps)
qed

lemma le32_of_bytes [simp]:
  "le32 (ucast w) (ucast (drop_bit 8 w)) (ucast (drop_bit 16 w)) (ucast (drop_bit 24 w)) = w"
  using be32_of_bytes [of w] by (simp add: le32_def be32_def ac_simps)

lemma word_or_eq_0_iff [simp]: "(a OR b) = 0 \<longleftrightarrow> a = 0 \<and> b = (0 :: 'a::len word)"
  by (rule or_eq_0_iff)

section \<open>Processing a message in blocks of 64\<close>

text \<open>
  Folds a function over the complete 64-byte blocks of a message, in order; a shorter rest
  is left out.  Both hash implementations process their input this way.
\<close>

function blocks_fold :: "('s \<Rightarrow> 'a list \<Rightarrow> 's) \<Rightarrow> 's \<Rightarrow> 'a list \<Rightarrow> 's" where
  "blocks_fold f st m =
     (if length m < 64 then st else blocks_fold f (f st (take 64 m)) (drop 64 m))"
  by pat_completeness auto
termination
  by (relation "measure (\<lambda>(f, st, m). length m)") auto

declare blocks_fold.simps [simp del]

lemma blocks_fold_short [simp]: "length m < 64 \<Longrightarrow> blocks_fold f st m = st"
  by (simp add: blocks_fold.simps)

lemma blocks_fold_block: "length b = 64 \<Longrightarrow> blocks_fold f st (b @ m) = blocks_fold f (f st b) m"
  by (simp add: blocks_fold.simps [of f st "b @ m"])

lemma blocks_fold_append:
  "64 dvd length a \<Longrightarrow> blocks_fold f st (a @ b) = blocks_fold f (blocks_fold f st a) b"
proof (induction f st a rule: blocks_fold.induct)
  case (1 f st m)
  show ?case
  proof (cases "length m < 64")
    case True
    with "1.prems" have "m = []" using nat_dvd_not_less by auto
    then show ?thesis by simp
  next
    case False
    with 1 have IH: "blocks_fold f (f st (take 64 m)) (drop 64 m @ b)
        = blocks_fold f (blocks_fold f (f st (take 64 m)) (drop 64 m)) b"
      by (simp add: dvd_diff_nat)
    have "blocks_fold f st (m @ b) = blocks_fold f (f st (take 64 m)) (drop 64 m @ b)"
      using False by (simp add: blocks_fold.simps [of f st "m @ b"])
    moreover have "blocks_fold f (f st (take 64 m)) (drop 64 m) = blocks_fold f st m"
      using False by (simp add: blocks_fold.simps [of f st m])
    ultimately show ?thesis using IH by simp
  qed
qed

definition block_tail :: "'a list \<Rightarrow> 'a list" where
  "block_tail m = drop (64 * (length m div 64)) m"

lemma length_block_tail [simp]: "length (block_tail m) = length m mod 64"
  by (simp add: block_tail_def minus_mult_div_eq_mod)

lemma block_tail_eq_Nil: "block_tail m = [] \<longleftrightarrow> length m mod 64 = 0"
  by (simp only: length_0_conv [symmetric] length_block_tail)

lemma block_tail_dvd [simp]: "64 dvd length m \<Longrightarrow> block_tail m = []"
  by (simp add: block_tail_eq_Nil)

lemma blocks_fold_tail:
  "blocks_fold f st (m @ s) = blocks_fold f (blocks_fold f st m) (block_tail m @ s)"
proof -
  let ?a = "take (64 * (length m div 64)) m"
  have split: "m = ?a @ block_tail m" by (simp add: block_tail_def)
  have len: "length ?a = 64 * (length m div 64)" by simp
  have a: "64 dvd length ?a" by (simp only: len) simp
  have "blocks_fold f st m = blocks_fold f (blocks_fold f st ?a) (block_tail m)"
    using blocks_fold_append [OF a, of f st "block_tail m"] split by metis
  then have "blocks_fold f st m = blocks_fold f st ?a" by simp
  moreover have "blocks_fold f st (m @ s) = blocks_fold f (blocks_fold f st ?a) (block_tail m @ s)"
    using blocks_fold_append [OF a, of f st "block_tail m @ s"] split by (metis append.assoc)
  ultimately show ?thesis by simp
qed

lemma block_tail_prefix: "64 dvd length a \<Longrightarrow> block_tail (a @ b) = block_tail b"
  by (auto simp: block_tail_def elim!: dvdE)

lemma block_tail_append: "block_tail (m @ d) = block_tail (block_tail m @ d)"
proof -
  let ?a = "take (64 * (length m div 64)) m"
  have "m = ?a @ block_tail m" by (simp add: block_tail_def)
  moreover have "64 dvd length ?a" by simp
  ultimately show ?thesis by (metis append.assoc block_tail_prefix)
qed

lemma block_tail_short [simp]: "length m < 64 \<Longrightarrow> block_tail m = m"
  by (simp add: block_tail_def)

lemma block_tail_snoc:
  "block_tail (m @ [b]) = (if length m mod 64 = 63 then [] else block_tail m @ [b])"
proof (cases "length m mod 64 = 63")
  case True
  then have "length (block_tail (m @ [b])) = 0" by (simp add: mod_Suc)
  then have "block_tail (m @ [b]) = []" by (rule length_0_conv [THEN iffD1])
  with True show ?thesis by simp
next
  case False
  then have "Suc (length m) div 64 = length m div 64" by (simp add: div_Suc mod_Suc)
  then show ?thesis using False by (simp add: block_tail_def)
qed

lemma unat_suc: "unat w + 1 < 2 ^ LENGTH('a) \<Longrightarrow> unat (w + 1 :: 'a::len word) = Suc (unat w)"
  by (simp add: unat_word_ariths)

text \<open>Bounds of the value of a word at the widths of the code.\<close>

lemma unat_u32_bound: "unat (w :: u32) < 4294967296"
  using unsigned_less [of w, where ?'a = nat] by simp

lemma unat_u64_bound: "unat (w :: u64) < 18446744073709551616"
  using unsigned_less [of w, where ?'a = nat] by simp

lemma unat_u8_bound: "unat (w :: u8) < 256"
  using unsigned_less [of w, where ?'a = nat] by simp

lemma unat_u16_bound: "unat (w :: u16) < 65536"
  using unsigned_less [of w, where ?'a = nat] by simp

lemma unat_ucast_up [simp]:
  "unat (ucast (b :: u8) :: u32) = unat b" "unat (ucast (h :: u16) :: u32) = unat h"
  "unat (ucast (b :: u8) :: u16) = unat b" "unat (ucast (w :: u32) :: u64) = unat w"
  using unat_u8_bound [of b] unat_u16_bound [of h] unat_u32_bound [of w]
  by (simp_all add: unsigned_ucast_eq take_bit_eq_mod)

lemma unat_of_nat_u8: "n < 256 \<Longrightarrow> unat (of_nat n :: u8) = n"
  by (simp add: unat_of_nat)

lemma unat_of_nat_u32: "n < 4294967296 \<Longrightarrow> unat (of_nat n :: u32) = n"
  by (simp add: unat_of_nat)

text \<open>Sums and products that do not wrap.\<close>

lemma u32_add: "unat a + unat b < 4294967296 \<Longrightarrow> unat (a + b :: u32) = unat a + unat b"
  by (simp add: unat_word_ariths(1))

lemma u32_mult: "unat a * unat b < 4294967296 \<Longrightarrow> unat (a * b :: u32) = unat a * unat b"
  by (simp add: unat_word_ariths(2))

lemma le16_bytes:
  "(ucast (le16 a b) :: u8) = a" "(ucast (drop_bit 8 (le16 a b)) :: u8) = b"
  by (rule bit_word_eqI, auto simp: le16_def bit_simps dest: bit_imp_le_length)+

lemma le16_split: "le16 (ucast w) (ucast (drop_bit 8 w)) = w"
  by (rule bit_word_eqI) (auto simp: le16_def bit_simps)

text \<open>How an update changes the number of elements with a property.\<close>

lemma filter_active_set:
  "i < length xs \<Longrightarrow> \<not> P (xs ! i) \<Longrightarrow> P y \<Longrightarrow>
    length (filter P (xs[i := y])) = Suc (length (filter P xs))"
proof (induction xs arbitrary: i)
  case (Cons x xs)
  then show ?case by (cases i) auto
qed simp

lemma filter_active_clear:
  "i < length xs \<Longrightarrow> P (xs ! i) \<Longrightarrow> \<not> P y \<Longrightarrow>
    Suc (length (filter P (xs[i := y]))) = length (filter P xs)"
proof (induction xs arbitrary: i)
  case (Cons x xs)
  then show ?case by (cases i) auto
qed simp

lemma filter_active_keep:
  "i < length xs \<Longrightarrow> P y = P (xs ! i) \<Longrightarrow> length (filter P (xs[i := y])) = length (filter P xs)"
proof (induction xs arbitrary: i)
  case (Cons x xs)
  then show ?case by (cases i) auto
qed simp

lemma take_take_append: "take n (take n xs @ ys) = take n (xs @ ys)"
  by (cases "length xs \<le> n") auto

section \<open>Loads and results\<close>

text \<open>A 64-bit and a 32-bit load of a little-endian machine, the latter at an offset.\<close>

definition le64 :: "bytes \<Rightarrow> u64" where
  "le64 bs = foldr (\<lambda>b acc. push_bit 8 acc OR ucast b) (take 8 bs) 0"

definition le32_at :: "bytes \<Rightarrow> nat \<Rightarrow> u32" where
  "le32_at bs i = le32 (bs ! i) (bs ! (i + 1)) (bs ! (i + 2)) (bs ! (i + 3))"

text \<open>
  The result of an operation that can leave C's defined behaviour (\<open>Undefined\<close>: an access out
  of bounds, an oversized shift) or not return (\<open>Diverges\<close>).
\<close>

datatype 'a c_result = Returned 'a | Undefined | Diverges

end
