(* ===== verification/Sha256.thy ===== *)
theory Sha256
  imports Prelude
begin

text \<open>
  SHA-256 as \<open>mini-measured-boot/src/pcr_bank.c\<close> implements it: a context with a 64-byte
  buffer that is filled byte by byte, a compression function over the schedule of 64 words,
  and a finalisation that pads in the buffer.  The specification is the one-shot form of
  FIPS 180-4: pad the whole message, compress its blocks in order, serialise the state.
  \<open>sha256_hash_correct\<close> shows that the streaming code computes it.
  C types: \<open>uint32_t\<close> is \<open>u32\<close>, \<open>uint64_t\<close> is \<open>u64\<close>, \<open>uint8_t\<close> is \<open>u8\<close>; a buffer and its
  length argument are one list.  The update loop counts with a 32-bit index, so a buffer
  has fewer than \<open>2 ^ 32\<close> bytes.
\<close>

section \<open>The code\<close>

definition rot_right :: "u32 \<Rightarrow> nat \<Rightarrow> u32" where
  "rot_right a b = drop_bit b a OR push_bit (32 - b) a"

definition ch :: "u32 \<Rightarrow> u32 \<Rightarrow> u32 \<Rightarrow> u32" where
  "ch x y z = (x AND y) XOR (NOT x AND z)"

definition maj :: "u32 \<Rightarrow> u32 \<Rightarrow> u32 \<Rightarrow> u32" where
  "maj x y z = (x AND y) XOR (x AND z) XOR (y AND z)"

definition ep0 :: "u32 \<Rightarrow> u32" where
  "ep0 x = rot_right x 2 XOR rot_right x 13 XOR rot_right x 22"

definition ep1 :: "u32 \<Rightarrow> u32" where
  "ep1 x = rot_right x 6 XOR rot_right x 11 XOR rot_right x 25"

definition sig0 :: "u32 \<Rightarrow> u32" where
  "sig0 x = rot_right x 7 XOR rot_right x 18 XOR drop_bit 3 x"

definition sig1 :: "u32 \<Rightarrow> u32" where
  "sig1 x = rot_right x 17 XOR rot_right x 19 XOR drop_bit 10 x"

text \<open>The round constants, in decimal.\<close>

definition sha256_k :: "u32 list" where
  "sha256_k = [
    1116352408, 1899447441, 3049323471, 3921009573,
    961987163, 1508970993, 2453635748, 2870763221,
    3624381080, 310598401, 607225278, 1426881987,
    1925078388, 2162078206, 2614888103, 3248222580,
    3835390401, 4022224774, 264347078, 604807628,
    770255983, 1249150122, 1555081692, 1996064986,
    2554220882, 2821834349, 2952996808, 3210313671,
    3336571891, 3584528711, 113926993, 338241895,
    666307205, 773529912, 1294757372, 1396182291,
    1695183700, 1986661051, 2177026350, 2456956037,
    2730485921, 2820302411, 3259730800, 3345764771,
    3516065817, 3600352804, 4094571909, 275423344,
    430227734, 506948616, 659060556, 883997877,
    958139571, 1322822218, 1537002063, 1747873779,
    1955562222, 2024104815, 2227730452, 2361852424,
    2428436474, 2756734187, 3204031479, 3329325298]"

text \<open>
  \<open>SHA256_CTX\<close>.  The eight working variables \<open>a, ..., h\<close> of the compression are a tuple.
\<close>

record SHA256_CTX =
  ctx_data :: bytes
  ctx_datalen :: u32
  ctx_bitlen :: u64
  ctx_state :: "u32 list"

type_synonym sha_vars = "u32 \<times> u32 \<times> u32 \<times> u32 \<times> u32 \<times> u32 \<times> u32 \<times> u32"

definition sha256_h0 :: "u32 list" where
  "sha256_h0 = [0x6a09e667, 0xbb67ae85, 0x3c6ef372, 0xa54ff53a,
                0x510e527f, 0x9b05688c, 0x1f83d9ab, 0x5be0cd19]"

text \<open>\<open>sha256_init\<close> sets the lengths and the state; the buffer keeps what it held.\<close>

definition sha256_init :: "SHA256_CTX \<Rightarrow> SHA256_CTX" where
  "sha256_init ctx = ctx\<lparr>ctx_datalen := 0, ctx_bitlen := 0, ctx_state := sha256_h0\<rparr>"

definition sha256_load :: "bytes \<Rightarrow> u32 list" where
  "sha256_load d = map (\<lambda>i. be32 (d ! (4 * i)) (d ! (4 * i + 1)) (d ! (4 * i + 2)) (d ! (4 * i + 3))) [0..<16]"

definition sha256_extend_step :: "nat \<Rightarrow> u32 list \<Rightarrow> u32 list" where
  "sha256_extend_step i m =
     m @ [sig1 (m ! (i - 2)) + m ! (i - 7) + sig0 (m ! (i - 15)) + m ! (i - 16)]"

definition sha256_schedule :: "bytes \<Rightarrow> u32 list" where
  "sha256_schedule d = fold sha256_extend_step [16..<64] (sha256_load d)"

fun sha256_round :: "u32 list \<Rightarrow> nat \<Rightarrow> sha_vars \<Rightarrow> sha_vars" where
  "sha256_round m i (a, b, c, d, e, f, g, h) =
     (let t1 = h + ep1 e + ch e f g + sha256_k ! i + m ! i;
          t2 = ep0 a + maj a b c
      in (t1 + t2, a, b, c, d + t1, e, f, g))"

text \<open>\<open>sha256_transform\<close> reads the state words, runs 64 rounds, adds the result back.\<close>

definition sha256_compress :: "u32 list \<Rightarrow> bytes \<Rightarrow> u32 list" where
  "sha256_compress st blk =
     (let (a, b, c, d, e, f, g, h) =
        fold (sha256_round (sha256_schedule blk)) [0..<64]
          (st ! 0, st ! 1, st ! 2, st ! 3, st ! 4, st ! 5, st ! 6, st ! 7)
      in [st ! 0 + a, st ! 1 + b, st ! 2 + c, st ! 3 + d, st ! 4 + e, st ! 5 + f, st ! 6 + g, st ! 7 + h])"

definition sha256_transform :: "SHA256_CTX \<Rightarrow> bytes \<Rightarrow> SHA256_CTX" where
  "sha256_transform ctx blk = ctx\<lparr>ctx_state := sha256_compress (ctx_state ctx) blk\<rparr>"

definition sha256_update_byte :: "u8 \<Rightarrow> SHA256_CTX \<Rightarrow> SHA256_CTX" where
  "sha256_update_byte b ctx =
     (let ctx1 = ctx\<lparr>ctx_data := (ctx_data ctx)[unat (ctx_datalen ctx) := b],
                     ctx_datalen := ctx_datalen ctx + 1\<rparr>
      in if ctx_datalen ctx1 = 64
         then (sha256_transform ctx1 (ctx_data ctx1))\<lparr>ctx_bitlen := ctx_bitlen ctx1 + 512, ctx_datalen := 0\<rparr>
         else ctx1)"

definition sha256_update :: "SHA256_CTX \<Rightarrow> bytes \<Rightarrow> SHA256_CTX" where
  "sha256_update ctx data = fold sha256_update_byte data ctx"

definition sha256_serialize :: "u32 list \<Rightarrow> bytes" where
  "sha256_serialize st = concat (map be32_bytes st)"

text \<open>
  \<open>sha256_final\<close>: the padding loop writes \<open>0x80\<close> and zeros up to byte 56 (or 64, with one
  more compression and a cleared buffer), then the bit length, big-endian.
\<close>

definition sha256_pad_buffer :: "SHA256_CTX \<Rightarrow> SHA256_CTX" where
  "sha256_pad_buffer ctx =
     (let n = unat (ctx_datalen ctx)
      in if n < 56
         then ctx\<lparr>ctx_data := blit (ctx_data ctx) n (0x80 # zeros (55 - n))\<rparr>
         else let ctx1 = ctx\<lparr>ctx_data := blit (ctx_data ctx) n (0x80 # zeros (63 - n))\<rparr>;
                  ctx2 = sha256_transform ctx1 (ctx_data ctx1)
              in ctx2\<lparr>ctx_data := blit (ctx_data ctx2) 0 (zeros 56)\<rparr>)"

definition sha256_final :: "SHA256_CTX \<Rightarrow> SHA256_CTX \<times> bytes" where
  "sha256_final ctx =
     (let ctx1 = sha256_pad_buffer ctx;
          ctx2 = ctx1\<lparr>ctx_bitlen := ctx_bitlen ctx1 + ucast (ctx_datalen ctx1 * 8)\<rparr>;
          ctx3 = ctx2\<lparr>ctx_data := blit (ctx_data ctx2) 56 (be64_bytes (ctx_bitlen ctx2))\<rparr>;
          ctx4 = sha256_transform ctx3 (ctx_data ctx3)
      in (ctx4, sha256_serialize (ctx_state ctx4)))"

text \<open>\<open>sha256_hash\<close> runs the three phases on a fresh context; its uninitialised buffer is a parameter.\<close>

definition sha256_hash_from :: "bytes \<Rightarrow> bytes \<Rightarrow> bytes" where
  "sha256_hash_from junk data =
     snd (sha256_final (sha256_update
        (sha256_init \<lparr>ctx_data = junk, ctx_datalen = 0, ctx_bitlen = 0, ctx_state = []\<rparr>) data))"

definition sha256_hash :: "bytes \<Rightarrow> bytes" where
  "sha256_hash data = sha256_hash_from (zeros 64) data"

section \<open>The one-shot specification\<close>

text \<open>
  FIPS 180-4: append \<open>0x80\<close>, the least number of zeros that leaves room for the 64-bit
  length, and the length in bits; fold the compression over the blocks.
\<close>

definition sha256_padding :: "nat \<Rightarrow> bytes" where
  "sha256_padding len = 0x80 # zeros ((119 - len mod 64) mod 64) @ be64_bytes (of_nat (8 * len))"

definition sha256_spec :: "bytes \<Rightarrow> bytes" where
  "sha256_spec m =
     sha256_serialize (blocks_fold sha256_compress sha256_h0 (m @ sha256_padding (length m)))"

section \<open>Correctness of the streaming code\<close>

lemma length_sha256_compress [simp]: "length (sha256_compress st b) = 8"
  by (simp add: sha256_compress_def Let_def split: prod.splits)

lemma length_sha256_blocks [simp]:
  "length st = 8 \<Longrightarrow> length (blocks_fold sha256_compress st m) = 8"
proof (induction sha256_compress st m rule: blocks_fold.induct)
  case (1 st m)
  then show ?case by (cases "length m < 64") (simp_all add: blocks_fold.simps [of sha256_compress st m])
qed

lemma length_sha256_serialize [simp]: "length (sha256_serialize st) = 4 * length st"
  by (simp add: sha256_serialize_def length_concat comp_def sum_list_triv)

lemma length_sha256_spec [simp]: "length (sha256_spec m) = 32"
  by (simp add: sha256_spec_def sha256_h0_def)

text \<open>What the context stands for after the bytes \<open>m\<close> have been fed to it.\<close>

definition sha256_repr :: "SHA256_CTX \<Rightarrow> bytes \<Rightarrow> bool" where
  "sha256_repr ctx m \<longleftrightarrow>
     length (ctx_data ctx) = 64 \<and>
     unat (ctx_datalen ctx) = length m mod 64 \<and>
     ctx_bitlen ctx = of_nat (512 * (length m div 64)) \<and>
     ctx_state ctx = blocks_fold sha256_compress sha256_h0 m \<and>
     take (length m mod 64) (ctx_data ctx) = block_tail m"

lemma sha256_repr_init:
  "length (ctx_data ctx) = 64 \<Longrightarrow> sha256_repr (sha256_init ctx) []"
  by (simp add: sha256_repr_def sha256_init_def block_tail_def)

lemma sha256_repr_update_byte:
  assumes "sha256_repr ctx m"
  shows "sha256_repr (sha256_update_byte b ctx) (m @ [b])"
proof -
  let ?n = "length m mod 64" and ?d = "(ctx_data ctx)[length m mod 64 := b]"
  from assms have len: "length (ctx_data ctx) = 64" and dl: "unat (ctx_datalen ctx) = ?n"
    and st: "ctx_state ctx = blocks_fold sha256_compress sha256_h0 m"
    and bl: "ctx_bitlen ctx = of_nat (512 * (length m div 64))"
    and tl: "take ?n (ctx_data ctx) = block_tail m"
    by (auto simp: sha256_repr_def)
  have n: "?n < 64" by simp
  have dl1: "unat (ctx_datalen ctx + 1) = Suc ?n"
    using dl n by (subst unat_suc) auto
  have dl64: "ctx_datalen ctx + 1 = 64 \<longleftrightarrow> ?n = 63"
    unfolding word_unat_eq_iff dl1 by simp
  have tl1: "take (Suc ?n) ?d = block_tail m @ [b]"
    using len n tl by (simp add: take_Suc_conv_app_nth)
  have fold: "blocks_fold sha256_compress sha256_h0 (m @ [b]) =
      blocks_fold sha256_compress (blocks_fold sha256_compress sha256_h0 m) (block_tail m @ [b])"
    by (rule blocks_fold_tail)
  show ?thesis
  proof (cases "?n = 63")
    case True
    then have full: "?d = block_tail m @ [b]" using tl1 len by simp
    have "length (block_tail m @ [b]) = 64" using True by simp
    then have "blocks_fold sha256_compress sha256_h0 (m @ [b]) =
        sha256_compress (blocks_fold sha256_compress sha256_h0 m) ?d"
      unfolding full fold using blocks_fold_block [of "block_tail m @ [b]" _ _ "[]"] by simp
    moreover have "Suc (length m) div 64 = Suc (length m div 64)" and "Suc (length m) mod 64 = 0"
      using True by (simp_all add: div_Suc mod_Suc)
    ultimately show ?thesis
      using True dl dl64 len bl st
      by (simp add: sha256_repr_def sha256_update_byte_def sha256_transform_def Let_def block_tail_snoc algebra_simps)
  next
    case False
    then have "blocks_fold sha256_compress sha256_h0 (m @ [b]) = blocks_fold sha256_compress sha256_h0 m"
      unfolding fold using n by simp
    moreover have "Suc (length m) div 64 = length m div 64" and "Suc (length m) mod 64 = Suc ?n"
      using False by (simp_all add: div_Suc mod_Suc)
    ultimately show ?thesis
      using False dl dl1 dl64 len bl st tl1
      by (simp add: sha256_repr_def sha256_update_byte_def Let_def block_tail_snoc)
  qed
qed

lemma sha256_repr_update: "sha256_repr ctx m \<Longrightarrow> sha256_repr (sha256_update ctx d) (m @ d)"
proof (induction d arbitrary: ctx m)
  case Nil
  then show ?case by (simp add: sha256_update_def)
next
  case (Cons b d)
  from Cons.IH [OF sha256_repr_update_byte [OF Cons.prems, of b]]
  show ?case by (simp add: sha256_update_def)
qed

text \<open>
  Finalisation: whether the rest of the message leaves room for the length in its block
  (fewer than 56 bytes) or not, the one or two padded buffers are the padded tail.
\<close>

lemma blit_append:
  "length ys = length xs - off \<Longrightarrow> off \<le> length xs \<Longrightarrow> blit xs off ys = take off xs @ ys"
  by (simp add: blit_def)

lemma blocks_fold_one: "length b = 64 \<Longrightarrow> blocks_fold f st b = f st b"
  using blocks_fold_block [of b f st "[]"] by simp

lemma blocks_fold_two:
  "length b = 64 \<Longrightarrow> length c = 64 \<Longrightarrow> blocks_fold f st (b @ c) = f (f st b) c"
  by (simp add: blocks_fold_block blocks_fold_one)

lemma sha256_bitlen:
  assumes "unat dl = n mod 64"
  shows "of_nat (512 * (n div 64)) + ucast (dl * 8 :: u32) = (of_nat (8 * n) :: u64)"
proof -
  have "unat (dl * 8) = 8 * (n mod 64)"
    using assms by (simp add: unat_word_ariths)
  then have "ucast (dl * 8) = (of_nat (8 * (n mod 64)) :: u64)"
    by (metis of_nat_unat)
  moreover have "512 * (n div 64) + 8 * (n mod 64) = 8 * n"
    using div_mult_mod_eq [of n 64] by linarith
  ultimately show ?thesis by (metis of_nat_add)
qed

lemma pad_zeros_short: "n < 56 \<Longrightarrow> (119 - n) mod 64 = 55 - (n :: nat)"
proof -
  assume "n < 56"
  then have "119 - n = (55 - n) + 64" and "55 - n < 64" by auto
  then show ?thesis by (metis mod_add_self2 mod_less)
qed

lemma pad_zeros_long: "56 \<le> n \<Longrightarrow> n < 64 \<Longrightarrow> (119 - n) mod 64 = (63 - n) + (56 :: nat)"
  by simp

lemma sha256_final_correct:
  assumes r: "sha256_repr ctx m"
  shows "snd (sha256_final ctx) = sha256_spec m"
proof -
  let ?n = "length m mod 64" and ?st = "blocks_fold sha256_compress sha256_h0 m"
  let ?len = "be64_bytes (of_nat (8 * length m))"
  from r have len: "length (ctx_data ctx) = 64" and dl: "unat (ctx_datalen ctx) = ?n"
    and st: "ctx_state ctx = ?st" and bl: "ctx_bitlen ctx = of_nat (512 * (length m div 64))"
    and tl: "take ?n (ctx_data ctx) = block_tail m"
    by (auto simp: sha256_repr_def)
  have n: "?n < 64" by simp
  note bits = sha256_bitlen [OF dl]
  have spec: "sha256_spec m = sha256_serialize (blocks_fold sha256_compress ?st
      (block_tail m @ sha256_padding (length m)))"
    unfolding sha256_spec_def by (subst blocks_fold_tail) (rule refl)
  show ?thesis
  proof (cases "?n < 56")
    case True
    have z: "(119 - ?n) mod 64 = 55 - ?n" by (rule pad_zeros_short) (rule True)
    have buf: "blit (blit (ctx_data ctx) ?n (0x80 # zeros (55 - ?n))) 56 ?len
        = block_tail m @ 0x80 # zeros (55 - ?n) @ ?len" (is "_ = ?blk")
      using True len by (simp add: blit_def tl Suc_diff_le [of ?n 55, simplified])
    have "length ?blk = 64" using True by simp
    then have "blocks_fold sha256_compress ?st ?blk = sha256_compress ?st ?blk"
      by (rule blocks_fold_one)
    then show ?thesis
      unfolding spec using True dl st bl bits buf
      by (simp add: sha256_final_def sha256_pad_buffer_def sha256_transform_def sha256_padding_def Let_def z)
  next
    case False
    have z: "(119 - ?n) mod 64 = (63 - ?n) + 56" using False n by (intro pad_zeros_long) auto
    have buf1: "blit (ctx_data ctx) ?n (0x80 # zeros (63 - ?n)) = block_tail m @ 0x80 # zeros (63 - ?n)"
      (is "_ = ?b1")
      using False n len by (simp add: blit_def tl)
    have l1: "length ?b1 = 64" using n by simp
    have buf2: "blit (blit ?b1 0 (zeros 56)) 56 ?len = zeros 56 @ ?len" (is "_ = ?b2")
      using l1 by (simp add: blit_def)
    have l2: "length ?b2 = 64" by simp
    have "block_tail m @ sha256_padding (length m) = ?b1 @ ?b2"
      using zeros_add [of "63 - ?n" 56] unfolding sha256_padding_def z by simp
    then have "blocks_fold sha256_compress ?st (block_tail m @ sha256_padding (length m))
        = sha256_compress (sha256_compress ?st ?b1) ?b2"
      using blocks_fold_two [OF l1 l2] by simp
    then show ?thesis
      unfolding spec using False dl st bl bits buf1 buf2
      by (simp add: sha256_final_def sha256_pad_buffer_def sha256_transform_def Let_def)
  qed
qed

lemma sha256_hash_from_correct:
  "length junk = 64 \<Longrightarrow> sha256_hash_from junk data = sha256_spec data"
  unfolding sha256_hash_from_def
  using sha256_final_correct [OF sha256_repr_update [OF sha256_repr_init]]
  by simp

lemma sha256_hash_correct: "sha256_hash data = sha256_spec data"
  by (simp add: sha256_hash_def sha256_hash_from_correct)

lemma length_sha256_hash [simp]: "length (sha256_hash m) = 32"
  by (simp add: sha256_hash_correct)

lemma sha256_repr_updates:
  "sha256_repr c m \<Longrightarrow> sha256_repr (fold (\<lambda>chunk c. sha256_update c chunk) chunks c) (m @ concat chunks)"
proof (induction chunks arbitrary: c m)
  case (Cons d ds)
  show ?case using Cons.IH [OF sha256_repr_update [OF Cons.prems]] by simp
qed simp

end
