(* ===== verification/Boot_Sha256.thy ===== *)
theory Boot_Sha256
  imports Sha256
begin

text \<open>
  The second SHA-256 of the repository, in \<open>mini-bootloader/src/boot_secure.c\<close>: its context
  counts bytes, an update first completes a partly filled buffer and then compresses whole
  blocks straight from the input.  It is modelled from its own source; the theorem is that
  it computes the same function as the byte-wise implementation of \<open>Sha256\<close>.  The names
  carry the prefix \<open>boot_\<close> because both files declare \<open>sha256_init\<close> and so on.
\<close>

section \<open>The code\<close>

definition sha256_rotr :: "u32 \<Rightarrow> nat \<Rightarrow> u32" where
  "sha256_rotr x n = drop_bit n x OR push_bit (32 - n) x"

record BOOT_SHA256_CTX =
  bctx_state :: "u32 list"
  bctx_count :: u64
  bctx_buffer :: bytes

definition boot_sha256_init :: BOOT_SHA256_CTX where
  "boot_sha256_init =
     \<lparr>bctx_state = [0x6a09e667, 0xbb67ae85, 0x3c6ef372, 0xa54ff53a,
                    0x510e527f, 0x9b05688c, 0x1f83d9ab, 0x5be0cd19],
      bctx_count = 0, bctx_buffer = zeros 64\<rparr>"

definition boot_sha256_load :: "bytes \<Rightarrow> u32 list" where
  "boot_sha256_load blk =
     map (\<lambda>t. be32 (blk ! (t * 4)) (blk ! (t * 4 + 1)) (blk ! (t * 4 + 2)) (blk ! (t * 4 + 3))) [0..<16]"

definition boot_sha256_extend :: "nat \<Rightarrow> u32 list \<Rightarrow> u32 list" where
  "boot_sha256_extend t w =
     (let s0 = sha256_rotr (w ! (t - 15)) 7 XOR sha256_rotr (w ! (t - 15)) 18 XOR drop_bit 3 (w ! (t - 15));
          s1 = sha256_rotr (w ! (t - 2)) 17 XOR sha256_rotr (w ! (t - 2)) 19 XOR drop_bit 10 (w ! (t - 2))
      in w @ [w ! (t - 16) + s0 + w ! (t - 7) + s1])"

fun boot_sha256_round :: "u32 list \<Rightarrow> nat \<Rightarrow> sha_vars \<Rightarrow> sha_vars" where
  "boot_sha256_round w t (a, b, c, d, e, f, g, h) =
     (let S1 = sha256_rotr e 6 XOR sha256_rotr e 11 XOR sha256_rotr e 25;
          chv = (e AND f) XOR (NOT e AND g);
          temp1 = h + S1 + chv + sha256_k ! t + w ! t;
          S0 = sha256_rotr a 2 XOR sha256_rotr a 13 XOR sha256_rotr a 22;
          majv = (a AND b) XOR (a AND c) XOR (b AND c);
          temp2 = S0 + majv
      in (temp1 + temp2, a, b, c, d + temp1, e, f, g))"

definition boot_sha256_compress :: "u32 list \<Rightarrow> bytes \<Rightarrow> u32 list" where
  "boot_sha256_compress st blk =
     (let w = fold boot_sha256_extend [16..<64] (boot_sha256_load blk);
          (a, b, c, d, e, f, g, h) =
            fold (boot_sha256_round w) [0..<64]
              (st ! 0, st ! 1, st ! 2, st ! 3, st ! 4, st ! 5, st ! 6, st ! 7)
      in [st ! 0 + a, st ! 1 + b, st ! 2 + c, st ! 3 + d, st ! 4 + e, st ! 5 + f, st ! 6 + g, st ! 7 + h])"

definition boot_sha256_transform :: "BOOT_SHA256_CTX \<Rightarrow> bytes \<Rightarrow> BOOT_SHA256_CTX" where
  "boot_sha256_transform ctx blk = ctx\<lparr>bctx_state := boot_sha256_compress (bctx_state ctx) blk\<rparr>"

text \<open>The \<open>while (len >= 64)\<close> loop; the second component is the input that is left.\<close>

function boot_sha256_blocks :: "BOOT_SHA256_CTX \<Rightarrow> bytes \<Rightarrow> BOOT_SHA256_CTX \<times> bytes" where
  "boot_sha256_blocks ctx data =
     (if 64 \<le> length data
      then boot_sha256_blocks (boot_sha256_transform ctx (take 64 data)) (drop 64 data)
      else (ctx, data))"
  by pat_completeness auto
termination
  by (relation "measure (\<lambda>(ctx, data). length data)") auto

declare boot_sha256_blocks.simps [simp del]

definition boot_sha256_update_blocks :: "BOOT_SHA256_CTX \<Rightarrow> bytes \<Rightarrow> BOOT_SHA256_CTX" where
  "boot_sha256_update_blocks ctx data =
     (case boot_sha256_blocks ctx data of
        (ctx', rest) \<Rightarrow>
          if 0 < length rest then ctx'\<lparr>bctx_buffer := blit (bctx_buffer ctx') 0 rest\<rparr> else ctx')"

definition boot_sha256_update :: "BOOT_SHA256_CTX \<Rightarrow> bytes \<Rightarrow> BOOT_SHA256_CTX" where
  "boot_sha256_update ctx data =
     (let idx = unat (bctx_count ctx mod 64);
          ctx1 = ctx\<lparr>bctx_count := bctx_count ctx + of_nat (length data)\<rparr>
      in if 0 < idx
         then let space = 64 - idx
              in if length data < space
                 then ctx1\<lparr>bctx_buffer := blit (bctx_buffer ctx1) idx data\<rparr>
                 else let ctx2 = ctx1\<lparr>bctx_buffer := blit (bctx_buffer ctx1) idx (take space data)\<rparr>;
                          ctx3 = boot_sha256_transform ctx2 (bctx_buffer ctx2)
                      in boot_sha256_update_blocks ctx3 (drop space data)
         else boot_sha256_update_blocks ctx1 data)"

definition boot_sha256_final :: "BOOT_SHA256_CTX \<Rightarrow> BOOT_SHA256_CTX \<times> bytes" where
  "boot_sha256_final ctx =
     (let bit_count = bctx_count ctx * 8;
          idx = unat (bctx_count ctx mod 64);
          ctx1 = ctx\<lparr>bctx_buffer := (bctx_buffer ctx)[idx := 0x80]\<rparr>;
          idx1 = idx + 1;
          (ctx2, idx2) =
            (if idx1 > 56
             then (let c = ctx1\<lparr>bctx_buffer := blit (bctx_buffer ctx1) idx1 (zeros (64 - idx1))\<rparr>
                   in (boot_sha256_transform c (bctx_buffer c), 0))
             else (ctx1, idx1));
          ctx3 = ctx2\<lparr>bctx_buffer := blit (bctx_buffer ctx2) idx2 (zeros (56 - idx2))\<rparr>;
          ctx4 = ctx3\<lparr>bctx_buffer := blit (bctx_buffer ctx3) 56 (be64_bytes bit_count)\<rparr>;
          ctx5 = boot_sha256_transform ctx4 (bctx_buffer ctx4)
      in (ctx5, sha256_serialize (bctx_state ctx5)))"

definition boot_sha256_hash :: "bytes \<Rightarrow> bytes" where
  "boot_sha256_hash data = snd (boot_sha256_final (boot_sha256_update boot_sha256_init data))"

section \<open>Equivalence\<close>

lemma sha256_rotr_eq: "sha256_rotr x n = rot_right x n"
  by (simp add: sha256_rotr_def rot_right_def)

lemma boot_sha256_extend_eq: "boot_sha256_extend t w = sha256_extend_step t w"
  by (simp add: boot_sha256_extend_def sha256_extend_step_def sha256_rotr_eq sig0_def sig1_def
      Let_def algebra_simps)

lemma boot_sha256_round_eq: "boot_sha256_round w t v = sha256_round w t v"
  by (cases "(w, t, v)" rule: sha256_round.cases) (simp add: Let_def sha256_rotr_eq ep0_def ep1_def ch_def maj_def)

lemma boot_sha256_compress_eq: "boot_sha256_compress = sha256_compress"
proof (intro ext)
  fix st blk
  have "boot_sha256_load blk = sha256_load blk"
    by (simp add: boot_sha256_load_def sha256_load_def mult.commute)
  moreover have "boot_sha256_extend = sha256_extend_step" and "boot_sha256_round = sha256_round"
    by (intro ext, simp add: boot_sha256_extend_eq, intro ext, simp only: boot_sha256_round_eq)
  ultimately show "boot_sha256_compress st blk = sha256_compress st blk"
    by (simp add: boot_sha256_compress_def sha256_compress_def sha256_schedule_def)
qed

lemma boot_sha256_blocks_eq:
  "boot_sha256_blocks ctx data =
     (ctx\<lparr>bctx_state := blocks_fold sha256_compress (bctx_state ctx) data\<rparr>, block_tail data)"
proof (induction ctx data rule: boot_sha256_blocks.induct)
  case (1 ctx data)
  show ?case
  proof (cases "64 \<le> length data")
    case False
    then show ?thesis by (simp add: boot_sha256_blocks.simps [of ctx data])
  next
    case True
    have "block_tail data = block_tail (take 64 data @ drop 64 data)" by simp
    also have "\<dots> = block_tail (drop 64 data)" using True by (subst block_tail_prefix) auto
    finally have t: "block_tail (drop 64 data) = block_tail data" by simp
    show ?thesis
      using 1 [OF True] True
      by (simp add: boot_sha256_blocks.simps [of ctx data] boot_sha256_transform_def
          boot_sha256_compress_eq blocks_fold.simps [of sha256_compress _ data] t)
  qed
qed

definition boot_sha256_repr :: "BOOT_SHA256_CTX \<Rightarrow> bytes \<Rightarrow> bool" where
  "boot_sha256_repr ctx m \<longleftrightarrow>
     length (bctx_buffer ctx) = 64 \<and>
     bctx_count ctx = of_nat (length m) \<and>
     bctx_state ctx = blocks_fold sha256_compress sha256_h0 m \<and>
     take (length m mod 64) (bctx_buffer ctx) = block_tail m"

lemma boot_sha256_repr_init: "boot_sha256_repr boot_sha256_init []"
  by (simp add: boot_sha256_repr_def boot_sha256_init_def sha256_h0_def block_tail_def)

lemma count_index: "unat ((of_nat n :: u64) mod 64) = n mod 64"
proof -
  have "unat ((of_nat n :: u64) mod 64) = n mod 2 ^ 64 mod 64"
    by (simp add: unat_mod_distrib unat_of_nat)
  also have "\<dots> = n mod 64" by (rule mod_mod_cancel) simp
  finally show ?thesis .
qed

text \<open>The block loop of an update, from any state and with the buffer's content irrelevant.\<close>

lemma boot_sha256_update_blocks_eq:
  assumes "length (bctx_buffer ctx) = 64"
  shows "bctx_state (boot_sha256_update_blocks ctx d) = blocks_fold sha256_compress (bctx_state ctx) d"
    and "bctx_count (boot_sha256_update_blocks ctx d) = bctx_count ctx"
    and "length (bctx_buffer (boot_sha256_update_blocks ctx d)) = 64"
    and "take (length d mod 64) (bctx_buffer (boot_sha256_update_blocks ctx d)) = block_tail d"
  using assms less_imp_le [OF mod_less_divisor, of 64 "length d"]
  by (auto simp: boot_sha256_update_blocks_def boot_sha256_blocks_eq blit_def block_tail_eq_Nil)

lemma boot_sha256_repr_update:
  assumes r: "boot_sha256_repr ctx m"
  shows "boot_sha256_repr (boot_sha256_update ctx d) (m @ d)"
proof -
  let ?n = "length m mod 64" and ?st = "blocks_fold sha256_compress sha256_h0 m"
  from r have len: "length (bctx_buffer ctx) = 64" and cnt: "bctx_count ctx = of_nat (length m)"
    and st: "bctx_state ctx = ?st" and tl: "take ?n (bctx_buffer ctx) = block_tail m"
    by (auto simp: boot_sha256_repr_def)
  have n: "?n < 64" by simp
  have idx: "unat (bctx_count ctx mod 64) = ?n" by (simp add: cnt count_index)
  have fold: "blocks_fold sha256_compress sha256_h0 (m @ d) = blocks_fold sha256_compress ?st (block_tail m @ d)"
    by (rule blocks_fold_tail)
  have tail: "block_tail (m @ d) = block_tail (block_tail m @ d)" by (rule block_tail_append)
  consider (fresh) "?n = 0" | (short) "0 < ?n" "length d < 64 - ?n" | (full) "0 < ?n" "64 - ?n \<le> length d"
    by linarith
  then show ?thesis
  proof cases
    case fresh
    then have "block_tail m = []" by (simp flip: length_block_tail)
    moreover have "(length m + length d) mod 64 = length d mod 64" using fresh by (simp add: mod_add_eq [symmetric])
    ultimately show ?thesis
      using fresh len cnt st idx
      by (simp add: boot_sha256_repr_def boot_sha256_update_def Let_def fold tail boot_sha256_update_blocks_eq)
  next
    case short
    then have "(length m + length d) mod 64 = ?n + length d"
      by (metis add.commute less_diff_conv mod_add_left_eq mod_less)
    moreover have "length (block_tail m @ d) < 64" using short by simp
    ultimately show ?thesis
      using short len cnt st idx tl
      by (simp add: boot_sha256_repr_def boot_sha256_update_def Let_def fold tail blit_def)
  next
    case full
    let ?s = "64 - ?n" and ?b = "block_tail m @ take (64 - ?n) d"
    have b: "length ?b = 64" using full n by simp
    have split: "block_tail m @ d = ?b @ drop ?s d" by simp
    have f: "blocks_fold sha256_compress ?st (block_tail m @ d)
        = blocks_fold sha256_compress (sha256_compress ?st ?b) (drop ?s d)"
      unfolding split by (rule blocks_fold_block [OF b])
    have t: "block_tail (block_tail m @ d) = block_tail (drop ?s d)"
      unfolding split by (rule block_tail_prefix) (simp add: b del: length_append)
    have l: "(length m + length d) mod 64 = length (drop ?s d) mod 64"
      using arg_cong [OF t, of length] mod_add_left_eq [of "length m" 64 "length d"] by simp
    have buf: "blit (bctx_buffer ctx) ?n (take ?s d) = ?b"
      using full n len tl by (simp add: blit_def)
    show ?thesis
      using full len cnt st idx buf b
      by (simp add: boot_sha256_repr_def boot_sha256_update_def Let_def fold tail f t l
          boot_sha256_transform_def boot_sha256_compress_eq boot_sha256_update_blocks_eq del: length_drop)
  qed
qed

lemma boot_sha256_final_correct:
  assumes r: "boot_sha256_repr ctx m"
  shows "snd (boot_sha256_final ctx) = sha256_spec m"
proof -
  let ?n = "length m mod 64" and ?st = "blocks_fold sha256_compress sha256_h0 m"
  let ?len = "be64_bytes (of_nat (8 * length m))"
  from r have len: "length (bctx_buffer ctx) = 64" and cnt: "bctx_count ctx = of_nat (length m)"
    and st: "bctx_state ctx = ?st" and tl: "take ?n (bctx_buffer ctx) = block_tail m"
    by (auto simp: boot_sha256_repr_def)
  have n: "?n < 64" by simp
  have idx: "unat (bctx_count ctx mod 64) = ?n" by (simp add: cnt count_index)
  have bits: "bctx_count ctx * 8 = of_nat (8 * length m)" by (simp add: cnt mult.commute)
  have spec: "sha256_spec m = sha256_serialize (blocks_fold sha256_compress ?st
      (block_tail m @ sha256_padding (length m)))"
    unfolding sha256_spec_def by (subst blocks_fold_tail) (rule refl)
  have b80: "take (Suc ?n) ((bctx_buffer ctx)[?n := 0x80]) = block_tail m @ [0x80]"
    using len n tl by (simp add: take_Suc_conv_app_nth)
  show ?thesis
  proof (cases "?n < 56")
    case True
    have z: "(119 - ?n) mod 64 = 55 - ?n" by (rule pad_zeros_short) (rule True)
    have buf: "blit (blit ((bctx_buffer ctx)[?n := 0x80]) (Suc ?n) (zeros (55 - ?n))) 56 ?len
        = block_tail m @ 0x80 # zeros (55 - ?n) @ ?len" (is "_ = ?blk")
      using True len b80 by (simp add: blit_def Suc_diff_le [of ?n 55, simplified])
    have "length ?blk = 64" using True by simp
    then have "blocks_fold sha256_compress ?st ?blk = sha256_compress ?st ?blk"
      by (rule blocks_fold_one)
    then show ?thesis
      unfolding spec using True idx st bits buf
      by (simp add: boot_sha256_final_def boot_sha256_transform_def boot_sha256_compress_eq
          sha256_padding_def Let_def z)
  next
    case False
    have z: "(119 - ?n) mod 64 = (63 - ?n) + 56" using False n by (intro pad_zeros_long) auto
    have buf1: "blit ((bctx_buffer ctx)[?n := 0x80]) (Suc ?n) (zeros (63 - ?n))
        = block_tail m @ 0x80 # zeros (63 - ?n)" (is "_ = ?b1")
      using n len b80 by (simp add: blit_def)
    have l1: "length ?b1 = 64" using n by simp
    have buf2: "blit (blit ?b1 0 (zeros 56)) 56 ?len = zeros 56 @ ?len" (is "_ = ?b2")
      using l1 by (simp add: blit_def)
    have l2: "length ?b2 = 64" by simp
    have "block_tail m @ sha256_padding (length m) = ?b1 @ ?b2"
      using zeros_add [of "63 - ?n" 56] unfolding sha256_padding_def z by simp
    then have "blocks_fold sha256_compress ?st (block_tail m @ sha256_padding (length m))
        = sha256_compress (sha256_compress ?st ?b1) ?b2"
      using blocks_fold_two [OF l1 l2] by simp
    then show ?thesis
      unfolding spec using False idx st bits buf1 buf2
      by (simp add: boot_sha256_final_def boot_sha256_transform_def boot_sha256_compress_eq Let_def)
  qed
qed

lemma boot_sha256_hash_correct: "boot_sha256_hash data = sha256_spec data"
  unfolding boot_sha256_hash_def
  using boot_sha256_final_correct [OF boot_sha256_repr_update [OF boot_sha256_repr_init]] by simp

lemma boot_sha256_repr_updates:
  "boot_sha256_repr c m \<Longrightarrow>
    boot_sha256_repr (fold (\<lambda>chunk c. boot_sha256_update c chunk) chunks c) (m @ concat chunks)"
proof (induction chunks arbitrary: c m)
  case (Cons d ds)
  show ?case using Cons.IH [OF boot_sha256_repr_update [OF Cons.prems]] by simp
qed simp

end
