(* ===== verification/Digest.thy ===== *)
theory Digest
  imports Prelude
begin

text \<open>
  The interfaces between the hash functions and what is built on them.  \<open>digest_fn\<close>: a
  function with 32-byte results.  \<open>registers\<close>: a bank of registers each of which can only be
  changed by replacing its value \<open>v\<close> with \<open>hash (v @ d)\<close>.  Both measured-boot modules
  provide such a bank; what an event log proves about a register is shown here once.

  The binding result names its collision: two different sequences of the same length that
  lead to the same value contain, at one position, two different 64-byte inputs that the
  function maps to the same digest.
\<close>

section \<open>Hash chains\<close>

fun chain :: "(bytes \<Rightarrow> bytes) \<Rightarrow> bytes \<Rightarrow> bytes list \<Rightarrow> bytes" where
  "chain h v [] = v"
| "chain h v (d # ds) = chain h (h (v @ d)) ds"

fun chain_inputs :: "(bytes \<Rightarrow> bytes) \<Rightarrow> bytes \<Rightarrow> bytes list \<Rightarrow> bytes list" where
  "chain_inputs h v [] = []"
| "chain_inputs h v (d # ds) = (v @ d) # chain_inputs h (h (v @ d)) ds"

lemma chain_append [simp]: "chain h v (ds @ es) = chain h (chain h v ds) es"
  by (induction ds arbitrary: v) auto

lemma length_chain_inputs [simp]: "length (chain_inputs h v ds) = length ds"
  by (induction ds arbitrary: v) auto

lemma nth_chain_inputs:
  "i < length ds \<Longrightarrow> chain_inputs h v ds ! i = chain h v (take i ds) @ ds ! i"
proof (induction ds arbitrary: v i)
  case (Cons d ds)
  then show ?case by (cases i) auto
qed simp

text \<open>A collision at a position of two sequences of hash inputs.\<close>

definition collides :: "(bytes \<Rightarrow> bytes) \<Rightarrow> bytes list \<Rightarrow> bytes list \<Rightarrow> bool" where
  "collides h xs ys \<longleftrightarrow> (\<exists>i < min (length xs) (length ys). xs ! i \<noteq> ys ! i \<and> h (xs ! i) = h (ys ! i))"

lemma collides_Cons:
  "collides h (x # xs) (y # ys) \<longleftrightarrow> x \<noteq> y \<and> h x = h y \<or> collides h xs ys"
proof
  assume "collides h (x # xs) (y # ys)"
  then obtain i where "i < min (length (x # xs)) (length (y # ys))"
    and "(x # xs) ! i \<noteq> (y # ys) ! i" and "h ((x # xs) ! i) = h ((y # ys) ! i)"
    by (auto simp: collides_def)
  then show "x \<noteq> y \<and> h x = h y \<or> collides h xs ys"
    by (cases i) (auto simp: collides_def)
next
  assume "x \<noteq> y \<and> h x = h y \<or> collides h xs ys"
  then show "collides h (x # xs) (y # ys)"
    by (auto simp: collides_def intro: exI [of _ 0] exI [of _ "Suc _"])
qed

locale digest_fn =
  fixes hash :: "bytes \<Rightarrow> bytes"
  assumes digest_length: "length (hash m) = 32"
begin

lemma length_chain: "length v = 32 \<Longrightarrow> length (chain hash v ds) = 32"
  by (induction ds arbitrary: v) (auto simp: digest_length)

lemma chain_binding:
  assumes "length v = 32" and "length w = 32" and "length ds = length es"
    and "\<forall>d \<in> set ds. length d = 32" and "\<forall>d \<in> set es. length d = 32"
    and "chain hash v ds = chain hash w es"
  shows "v = w \<and> ds = es \<or> collides hash (chain_inputs hash v ds) (chain_inputs hash w es)"
  using assms
proof (induction ds arbitrary: v w es)
  case Nil
  then show ?case by simp
next
  case (Cons d ds)
  then obtain e es' where es: "es = e # es'" by (cases es) auto
  have IH: "hash (v @ d) = hash (w @ e) \<and> ds = es'
      \<or> collides hash (chain_inputs hash (hash (v @ d)) ds) (chain_inputs hash (hash (w @ e)) es')"
    by (rule Cons.IH) (use Cons.prems es digest_length in auto)
  show ?case
  proof (cases "v @ d = w @ e")
    case True
    then have "v = w" and "d = e" using Cons.prems es by auto
    then show ?thesis using IH es by (auto simp: collides_Cons)
  next
    case False
    then show ?thesis using IH es by (auto simp: collides_Cons)
  qed
qed

end

section \<open>Register banks\<close>

text \<open>
  \<open>prep\<close> is what the bank does to a measurement before it is chained (the bootloader takes
  a digest, the TPM model hashes the data itself); \<open>ok\<close> says which measurements it accepts.
\<close>

locale registers = digest_fn hash for hash :: "bytes \<Rightarrow> bytes" +
  fixes extend :: "'b \<Rightarrow> nat \<Rightarrow> bytes \<Rightarrow> 'b"
    and reg :: "'b \<Rightarrow> nat \<Rightarrow> bytes"
    and wf :: "'b \<Rightarrow> bool"
    and prep :: "bytes \<Rightarrow> bytes"
    and ok :: "bytes \<Rightarrow> bool"
  assumes wf_extend: "wf b \<Longrightarrow> wf (extend b i x)"
    and length_reg: "wf b \<Longrightarrow> i < 24 \<Longrightarrow> length (reg b i) = 32"
    and reg_extend_same: "wf b \<Longrightarrow> i < 24 \<Longrightarrow> ok x \<Longrightarrow> reg (extend b i x) i = hash (reg b i @ prep x)"
    and reg_extend_other: "wf b \<Longrightarrow> j < 24 \<Longrightarrow> i \<noteq> j \<Longrightarrow> reg (extend b i x) j = reg b j"
    and length_prep: "ok x \<Longrightarrow> length (prep x) = 32"
begin

lemma wf_replay: "wf b \<Longrightarrow> wf (fold (\<lambda>(i, x) b. extend b i x) evs b)"
  by (induction evs arbitrary: b) (auto intro: wf_extend)

lemma reg_replay:
  assumes "wf b" and "j < 24" and "\<forall>(i, x) \<in> set evs. ok x"
  shows "reg (fold (\<lambda>(i, x) b. extend b i x) evs b) j
    = chain hash (reg b j) (map (prep \<circ> snd) (filter (\<lambda>(i, x). i = j) evs))"
  using assms
proof (induction evs arbitrary: b)
  case Nil
  then show ?case by simp
next
  case (Cons e evs)
  obtain i x where e: "e = (i, x)" by (cases e)
  show ?case
    using Cons.prems Cons.IH [of "extend b i x"] e
    by (cases "i = j") (auto simp: wf_extend reg_extend_same reg_extend_other)
qed

text \<open>Two event lists with as many events for a register, and the register they lead to.\<close>

lemma replay_binding:
  assumes wf: "wf b" and j: "j < 24"
    and ok: "\<forall>(i, x) \<in> set evs. ok x" "\<forall>(i, x) \<in> set evs'. ok x"
    and len: "length (filter (\<lambda>(i, x). i = j) evs) = length (filter (\<lambda>(i, x). i = j) evs')"
    and eq: "reg (fold (\<lambda>(i, x) b. extend b i x) evs b) j = reg (fold (\<lambda>(i, x) b. extend b i x) evs' b) j"
  shows "map (prep \<circ> snd) (filter (\<lambda>(i, x). i = j) evs) = map (prep \<circ> snd) (filter (\<lambda>(i, x). i = j) evs')
    \<or> collides hash
        (chain_inputs hash (reg b j) (map (prep \<circ> snd) (filter (\<lambda>(i, x). i = j) evs)))
        (chain_inputs hash (reg b j) (map (prep \<circ> snd) (filter (\<lambda>(i, x). i = j) evs')))"
proof -
  let ?d = "map (prep \<circ> snd) (filter (\<lambda>(i, x). i = j) evs)"
  let ?e = "map (prep \<circ> snd) (filter (\<lambda>(i, x). i = j) evs')"
  have "chain hash (reg b j) ?d = chain hash (reg b j) ?e"
    using eq by (simp add: reg_replay [OF wf j ok(1)] reg_replay [OF wf j ok(2)])
  moreover have "\<forall>d \<in> set ?d. length d = 32" and "\<forall>d \<in> set ?e. length d = 32"
    using ok by (auto simp: length_prep)
  ultimately show ?thesis
    using chain_binding [of "reg b j" "reg b j" ?d ?e] length_reg [OF wf j] len by auto
qed

end

end
