(* ===== verification/Pcr_Bank.thy ===== *)
theory Pcr_Bank
  imports Sha256 Digest
begin

text \<open>
  The PCR bank of \<open>mini-measured-boot/src/pcr_bank.c\<close> and \<open>pcr_bank.h\<close>: 24 registers of 32
  bytes, extended with the SHA-256 of the measured data, read at any index, reset only in
  the DRTM range 17 to 22.  A pointer argument the code compares with \<open>NULL\<close> is an
  \<open>option\<close>; a buffer and its length are one list.  The bank itself is always present.
\<close>

definition PCR_COUNT :: nat where "PCR_COUNT = 24"

definition TPM_ALG_SHA256 :: u16 where "TPM_ALG_SHA256 = 0x000B"

record PCRBank =
  pb_hash_alg :: u16
  pb_pcr :: "bytes list"
  pb_valid :: "u8 list"

definition pcr_bank_init :: "u16 \<Rightarrow> PCRBank" where
  "pcr_bank_init alg =
     \<lparr>pb_hash_alg = alg, pb_pcr = replicate PCR_COUNT (zeros 32), pb_valid = replicate PCR_COUNT 1\<rparr>"

definition pcr_extend :: "PCRBank \<Rightarrow> u32 \<Rightarrow> bytes option \<Rightarrow> PCRBank \<times> bool" where
  "pcr_extend bank pcr_index data =
     (case data of
        None \<Rightarrow> (bank, False)
      | Some d \<Rightarrow>
          if pcr_index \<ge> of_nat PCR_COUNT \<or> length d = 0 then (bank, False)
          else if pb_hash_alg bank \<noteq> TPM_ALG_SHA256 then (bank, False)
          else let i = unat pcr_index;
                   combined = pb_pcr bank ! i @ sha256_hash d;
                   new_pcr = sha256_hash combined
               in (bank\<lparr>pb_pcr := (pb_pcr bank)[i := new_pcr]\<rparr>, True))"

definition pcr_read :: "PCRBank \<Rightarrow> u32 \<Rightarrow> bytes option" where
  "pcr_read bank pcr_index =
     (if pcr_index \<ge> of_nat PCR_COUNT then None else Some (pb_pcr bank ! unat pcr_index))"

definition pcr_reset :: "PCRBank \<Rightarrow> u32 \<Rightarrow> PCRBank \<times> bool" where
  "pcr_reset bank pcr_index =
     (if pcr_index < 17 \<or> pcr_index > 22 then (bank, False)
      else (bank\<lparr>pb_pcr := (pb_pcr bank)[unat pcr_index := zeros 32]\<rparr>, True))"

definition pcr_get_all :: "PCRBank \<Rightarrow> bytes list" where
  "pcr_get_all bank = map (\<lambda>i. pb_pcr bank ! i) [0..<PCR_COUNT]"

definition pcr_names :: "string list" where
  "pcr_names =
     [''CRTM (BIOS)'', ''Platform Config'', ''External ROM'', ''ROM Config'', ''Boot Manager'',
      ''Boot Manager Config'', ''Sleep State'', ''Secure Boot Policy'', ''OS Loader (SRTM)'',
      ''OS Loader (DRTM)'', ''(unused)'', ''Boot Manager Data'', ''Platform Data'', ''(unused)'',
      ''Authorities'', ''(unused)'', ''(unused)'', ''DRTM 17'', ''DRTM 18'', ''DRTM 19'',
      ''DRTM 20'', ''DRTM 21'', ''DRTM 22'', ''(unused)'']"

definition pcr_index_to_name :: "u32 \<Rightarrow> string" where
  "pcr_index_to_name i = (if i < 24 then pcr_names ! unat i else ''Unknown'')"

section \<open>Well-formed banks\<close>

definition pcr_bank_wf :: "PCRBank \<Rightarrow> bool" where
  "pcr_bank_wf bank \<longleftrightarrow> length (pb_pcr bank) = PCR_COUNT \<and> (\<forall>p \<in> set (pb_pcr bank). length p = 32)"

lemmas pcr_defs = pcr_extend_def pcr_read_def pcr_reset_def Let_def

lemma index_in_bank: "pcr_index < (24 :: u32) \<longleftrightarrow> unat pcr_index < 24"
  by (simp add: word_less_nat_alt)

lemma index_off_bank: "(24 :: u32) \<le> pcr_index \<longleftrightarrow> 24 \<le> unat pcr_index"
  by (simp add: word_le_nat_alt)

lemma pcr_bank_wf_init [simp]: "pcr_bank_wf (pcr_bank_init alg)"
  by (simp add: pcr_bank_wf_def pcr_bank_init_def)

lemma pcr_bank_wf_update:
  "pcr_bank_wf bank \<Longrightarrow> length v = 32 \<Longrightarrow> pcr_bank_wf (bank\<lparr>pb_pcr := (pb_pcr bank)[i := v]\<rparr>)"
  by (auto simp: pcr_bank_wf_def dest!: set_update_subset_insert [THEN subsetD])

lemma pcr_bank_wf_extend: "pcr_bank_wf bank \<Longrightarrow> pcr_bank_wf (fst (pcr_extend bank i d))"
  by (auto simp: pcr_defs pcr_bank_wf_update split: option.splits)

lemma pcr_bank_wf_reset: "pcr_bank_wf bank \<Longrightarrow> pcr_bank_wf (fst (pcr_reset bank i))"
  by (auto simp: pcr_defs pcr_bank_wf_update)

lemma pcr_read_wf: "pcr_bank_wf bank \<Longrightarrow> pcr_read bank i = Some v \<Longrightarrow> length v = 32"
  by (auto simp: pcr_defs pcr_bank_wf_def PCR_COUNT_def index_off_bank split: if_splits)

lemma hash_alg_frame [frame_simps]:
  "pb_hash_alg (fst (pcr_extend bank i d)) = pb_hash_alg bank"
  "pb_hash_alg (fst (pcr_reset bank i)) = pb_hash_alg bank"
  by (auto simp: pcr_defs split: option.splits)

section \<open>The bank provides extend-only registers\<close>

definition pcr_value :: "PCRBank \<Rightarrow> nat \<Rightarrow> bytes" where
  "pcr_value bank i = pb_pcr bank ! i"

definition pcr_measure :: "PCRBank \<Rightarrow> nat \<Rightarrow> bytes \<Rightarrow> PCRBank" where
  "pcr_measure bank i d = (if i < PCR_COUNT then fst (pcr_extend bank (of_nat i) (Some d)) else bank)"

definition pcr_bank_ready :: "PCRBank \<Rightarrow> bool" where
  "pcr_bank_ready bank \<longleftrightarrow> pcr_bank_wf bank \<and> pb_hash_alg bank = TPM_ALG_SHA256"

interpretation sha: digest_fn sha256_hash
  by unfold_locales simp

interpretation pcrs: registers sha256_hash pcr_measure pcr_value pcr_bank_ready sha256_hash "\<lambda>d. d \<noteq> []"
proof unfold_locales
  fix b i x j
  assume b: "pcr_bank_ready b"
  then show "pcr_bank_ready (pcr_measure b i x)"
    by (simp add: pcr_bank_ready_def pcr_measure_def pcr_bank_wf_extend frame_simps)
  show "i < 24 \<Longrightarrow> length (pcr_value b i) = 32"
    using b by (simp add: pcr_bank_ready_def pcr_bank_wf_def pcr_value_def PCR_COUNT_def)
  show "i < 24 \<Longrightarrow> x \<noteq> [] \<Longrightarrow> pcr_value (pcr_measure b i x) i = sha256_hash (pcr_value b i @ sha256_hash x)"
    using b by (simp add: pcr_bank_ready_def pcr_bank_wf_def pcr_value_def pcr_measure_def pcr_defs
        PCR_COUNT_def index_off_bank unat_of_nat)
  show "j < 24 \<Longrightarrow> i \<noteq> j \<Longrightarrow> pcr_value (pcr_measure b i x) j = pcr_value b j"
    using b by (simp add: pcr_value_def pcr_measure_def pcr_defs PCR_COUNT_def index_off_bank unat_of_nat)
qed simp

text \<open>The register of an index, before and after an extend, on every branch.\<close>

lemma pcr_extend_accepts:
  "snd (pcr_extend bank i d) \<longleftrightarrow>
     unat i < 24 \<and> (\<exists>x. d = Some x \<and> x \<noteq> []) \<and> pb_hash_alg bank = TPM_ALG_SHA256"
  by (auto simp: pcr_defs PCR_COUNT_def index_off_bank split: option.splits)

lemma pcr_extend_rejected: "\<not> snd (pcr_extend bank i d) \<Longrightarrow> fst (pcr_extend bank i d) = bank"
  by (auto simp: pcr_defs split: option.splits)

lemma pcr_extend_read:
  assumes "pcr_bank_wf bank" and "snd (pcr_extend bank i (Some d))"
  shows "pcr_read (fst (pcr_extend bank i (Some d))) j =
    (if j = i then map_option (\<lambda>old. sha256_hash (old @ sha256_hash d)) (pcr_read bank i) else pcr_read bank j)"
  using assms by (auto simp: pcr_defs pcr_bank_wf_def PCR_COUNT_def index_off_bank index_in_bank
      word_unat_eq_iff split: if_splits)

section \<open>Runs of the interface\<close>

datatype pcr_op = Pcr_Extend u32 "bytes option" | Pcr_Reset u32

fun pcr_exec :: "pcr_op \<Rightarrow> PCRBank \<Rightarrow> PCRBank" where
  "pcr_exec (Pcr_Extend i d) bank = fst (pcr_extend bank i d)"
| "pcr_exec (Pcr_Reset i) bank = fst (pcr_reset bank i)"

text \<open>The data a run extends into one register: the extends that are not refused.\<close>

fun pcr_extended :: "nat \<Rightarrow> pcr_op \<Rightarrow> bytes list" where
  "pcr_extended j (Pcr_Extend i d) = (case d of None \<Rightarrow> [] | Some x \<Rightarrow> if unat i = j \<and> x \<noteq> [] then [x] else [])"
| "pcr_extended j (Pcr_Reset i) = []"

lemma pcr_exec_ready: "pcr_bank_ready bank \<Longrightarrow> pcr_bank_ready (pcr_exec op bank)"
  by (cases op) (simp_all add: pcr_bank_ready_def frame_simps pcr_bank_wf_extend pcr_bank_wf_reset)

lemma pcr_exec_value:
  assumes "pcr_bank_ready bank" and "j < 24" and "j < 17 \<or> 22 < j"
  shows "pcr_value (pcr_exec op bank) j = chain sha256_hash (pcr_value bank j) (map sha256_hash (pcr_extended j op))"
proof (cases op)
  case (Pcr_Extend i d)
  show ?thesis
  proof (cases d)
    case (Some x)
    then show ?thesis
      using Pcr_Extend assms index_off_bank [of i]
      by (auto simp: pcr_extend_def pcr_value_def pcr_bank_ready_def pcr_bank_wf_def PCR_COUNT_def Let_def nth_list_update)
  qed (simp add: Pcr_Extend pcr_extend_def)
next
  case (Pcr_Reset i)
  then show ?thesis
    using assms by (auto simp: pcr_reset_def pcr_value_def word_less_nat_alt)
qed

lemma pcr_run_value:
  assumes "pcr_bank_ready bank" and "j < 24" and "j < 17 \<or> 22 < j"
  shows "pcr_value (fold pcr_exec ops bank) j
    = chain sha256_hash (pcr_value bank j) (map sha256_hash (concat (map (pcr_extended j) ops)))"
  using assms(1)
proof (induction ops arbitrary: bank)
  case (Cons op ops)
  show ?case using Cons.IH [OF pcr_exec_ready] pcr_exec_value [OF _ assms(2,3)] Cons.prems by simp
qed simp

lemma pcr_run_ready: "pcr_bank_ready bank \<Longrightarrow> pcr_bank_ready (fold pcr_exec ops bank)"
  by (induction ops arbitrary: bank) (simp_all add: pcr_exec_ready)

end
