(* ===== verification/Event_Log.thy ===== *)
theory Event_Log
  imports Pcr_Bank
begin

text \<open>
  The TCG event log of \<open>mini-measured-boot/src/event_log.c\<close>: an array of 128 event slots and
  a count, an append that refuses a full log or more than 512 bytes of event data, and the
  replay that rebuilds a PCR bank from the recorded digests.
\<close>

definition MAX_EVENTS :: nat where "MAX_EVENTS = 128"

definition MAX_EVENT_DATA_SIZE :: nat where "MAX_EVENT_DATA_SIZE = 512"

record TCGEvent =
  ev_pcr_index :: u32
  ev_event_type :: u32
  ev_digest :: bytes
  ev_header_data_size :: u32
  ev_event_data :: bytes
  ev_event_data_size :: u32

record TCGEventLog =
  el_events :: "TCGEvent list"
  el_event_count :: u32
  el_spec_version :: u16
  el_sha256_used :: bool

definition empty_event :: TCGEvent where
  "empty_event =
     \<lparr>ev_pcr_index = 0, ev_event_type = 0, ev_digest = zeros 32, ev_header_data_size = 0,
      ev_event_data = zeros 512, ev_event_data_size = 0\<rparr>"

definition event_log_init :: "u16 \<Rightarrow> TCGEventLog" where
  "event_log_init version =
     \<lparr>el_events = replicate MAX_EVENTS empty_event, el_event_count = 0,
      el_spec_version = version, el_sha256_used = True\<rparr>"

definition event_log_add ::
  "TCGEventLog \<Rightarrow> u32 \<Rightarrow> u32 \<Rightarrow> bytes \<Rightarrow> bytes option \<Rightarrow> u32 \<Rightarrow> TCGEventLog \<times> bool" where
  "event_log_add log pcr_index event_type digest event_data event_data_size =
     (if el_event_count log \<ge> of_nat MAX_EVENTS then (log, False)
      else if event_data_size > of_nat MAX_EVENT_DATA_SIZE then (log, False)
      else let n = unat (el_event_count log);
               evt = (el_events log ! n)
                 \<lparr>ev_pcr_index := pcr_index, ev_event_type := event_type, ev_digest := take 32 digest,
                  ev_header_data_size := event_data_size, ev_event_data_size := event_data_size\<rparr>;
               evt' = (case event_data of
                   None \<Rightarrow> evt
                 | Some d \<Rightarrow> if event_data_size > 0
                     then evt\<lparr>ev_event_data := blit (ev_event_data evt) 0 (take (unat event_data_size) d)\<rparr>
                     else evt)
           in (log\<lparr>el_events := (el_events log)[n := evt'], el_event_count := el_event_count log + 1\<rparr>, True))"

definition recorded_events :: "TCGEventLog \<Rightarrow> TCGEvent list" where
  "recorded_events log = take (unat (el_event_count log)) (el_events log)"

text \<open>\<open>event_log_replay\<close> initialises the bank it is given and ignores the result of each extend.\<close>

definition event_log_replay :: "TCGEventLog \<Rightarrow> PCRBank" where
  "event_log_replay log =
     fold (\<lambda>evt bank. fst (pcr_extend bank (ev_pcr_index evt) (Some (ev_digest evt))))
       (recorded_events log) (pcr_bank_init TPM_ALG_SHA256)"

definition event_log_verify_pcr :: "TCGEventLog \<Rightarrow> u32 \<Rightarrow> bytes \<Rightarrow> u16 \<Rightarrow> bool" where
  "event_log_verify_pcr log pcr_index expected_pcr alg =
     (if alg \<noteq> TPM_ALG_SHA256 then False
      else case pcr_read (event_log_replay log) pcr_index of
             None \<Rightarrow> False
           | Some replayed_digest \<Rightarrow> replayed_digest = take 32 expected_pcr)"

definition event_type_names :: "(u32 \<times> string) list" where
  "event_type_names =
     [(0x00000000, ''EV_PREBOOT_CERT''), (0x00000001, ''EV_POST_CODE''), (0x00000003, ''EV_NO_ACTION''),
      (0x00000004, ''EV_SEPARATOR''), (0x00000007, ''EV_S_CRTM_CONTENTS''), (0x00000008, ''EV_S_CRTM_VERSION''),
      (0x00000009, ''EV_CPU_MICROCODE''), (0x80000001, ''EV_EFI_BOOT_SERVICES_APP''),
      (0x80000002, ''EV_EFI_BOOT_SERVICES_DRIVER''), (0x80000003, ''EV_EFI_RUNTIME_SERVICES_DRIVER''),
      (0x80000004, ''EV_EFI_VARIABLE_BOOT''), (0x800000E0, ''EV_EFI_VARIABLE_AUTHORITY''),
      (0x800000E1, ''EV_EFI_ACTION''), (0x800000E2, ''EV_EFI_PLATFORM_FIRMWARE_BLOB'')]"

definition event_type_to_string :: "u32 \<Rightarrow> string" where
  "event_type_to_string t = (case map_of event_type_names t of None \<Rightarrow> ''UNKNOWN_EVENT'' | Some s \<Rightarrow> s)"

section \<open>Well-formed logs\<close>

definition event_log_wf :: "TCGEventLog \<Rightarrow> bool" where
  "event_log_wf log \<longleftrightarrow>
     length (el_events log) = MAX_EVENTS \<and> unat (el_event_count log) \<le> MAX_EVENTS \<and>
     (\<forall>e \<in> set (recorded_events log).
        length (ev_digest e) = 32 \<and> unat (ev_event_data_size e) \<le> MAX_EVENT_DATA_SIZE)"

lemma event_log_wf_init: "event_log_wf (event_log_init v)"
  by (simp add: event_log_wf_def event_log_init_def recorded_events_def MAX_EVENTS_def)

lemma event_count_suc:
  "unat (el_event_count log) < MAX_EVENTS \<Longrightarrow>
    unat (el_event_count log + 1) = Suc (unat (el_event_count log))"
  by (rule unat_suc) (simp add: MAX_EVENTS_def)

lemma event_log_add_full:
  "el_event_count log \<ge> of_nat MAX_EVENTS \<Longrightarrow> event_log_add log i t d x n = (log, False)"
  by (simp add: event_log_add_def)

lemma event_log_add_count:
  assumes "snd (event_log_add log i t d x n)"
  shows "unat (el_event_count log) < MAX_EVENTS"
    and "unat (el_event_count (fst (event_log_add log i t d x n))) = Suc (unat (el_event_count log))"
proof -
  show lt: "unat (el_event_count log) < MAX_EVENTS"
    using assms by (auto simp: event_log_add_def MAX_EVENTS_def word_le_nat_alt split: if_splits)
  show "unat (el_event_count (fst (event_log_add log i t d x n))) = Suc (unat (el_event_count log))"
    using assms event_count_suc [OF lt] by (auto simp: event_log_add_def Let_def split: if_splits)
qed

text \<open>An accepted event is appended; nothing recorded before it changes.\<close>

lemma event_log_add_recorded:
  assumes wf: "event_log_wf log" and acc: "snd (event_log_add log i t d x n)"
  obtains e where "recorded_events (fst (event_log_add log i t d x n)) = recorded_events log @ [e]"
    and "ev_pcr_index e = i" and "ev_event_type e = t" and "ev_digest e = take 32 d"
    and "ev_event_data_size e = n" and "unat n \<le> MAX_EVENT_DATA_SIZE"
proof -
  let ?n = "unat (el_event_count log)"
  let ?log = "fst (event_log_add log i t d x n)"
  note lt = event_log_add_count(1) [OF acc] and cnt = event_log_add_count(2) [OF acc]
  have sz: "unat n \<le> MAX_EVENT_DATA_SIZE"
    using acc by (auto simp: event_log_add_def MAX_EVENT_DATA_SIZE_def word_less_nat_alt split: if_splits)
  have len: "?n < length (el_events log)" using wf lt by (simp add: event_log_wf_def)
  have evs: "\<exists>e. el_events ?log = (el_events log)[?n := e] \<and> ev_pcr_index e = i \<and> ev_event_type e = t
      \<and> ev_digest e = take 32 d \<and> ev_event_data_size e = n"
    using acc by (auto simp: event_log_add_def Let_def split: if_splits option.splits)
  then obtain e where e: "el_events ?log = (el_events log)[?n := e]" "ev_pcr_index e = i"
    "ev_event_type e = t" "ev_digest e = take 32 d" "ev_event_data_size e = n" by blast
  have "recorded_events ?log = recorded_events log @ [e]"
    using len by (simp add: recorded_events_def cnt e(1) take_Suc_conv_app_nth)
  then show thesis using that e sz by blast
qed

lemma event_log_wf_add:
  assumes wf: "event_log_wf log" and d: "length d = 32"
  shows "event_log_wf (fst (event_log_add log i t d x n))"
proof (cases "snd (event_log_add log i t d x n)")
  case False
  then have "fst (event_log_add log i t d x n) = log"
    by (auto simp: event_log_add_def Let_def split: if_splits)
  with wf show ?thesis by simp
next
  case True
  from event_log_add_recorded [OF wf True] obtain e where
    r: "recorded_events (fst (event_log_add log i t d x n)) = recorded_events log @ [e]"
    and e: "ev_digest e = take 32 d" "ev_event_data_size e = n" "unat n \<le> MAX_EVENT_DATA_SIZE" by metis
  note lt = event_log_add_count [OF True]
  have "unat (el_event_count (fst (event_log_add log i t d x n))) \<le> MAX_EVENTS
      \<and> length (el_events (fst (event_log_add log i t d x n))) = MAX_EVENTS"
    using True wf lt
    by (auto simp: event_log_add_def event_log_wf_def Let_def split: if_splits)
  then show ?thesis using wf r e d by (auto simp: event_log_wf_def)
qed

section \<open>Replay\<close>

definition log_entries :: "TCGEventLog \<Rightarrow> (nat \<times> bytes) list" where
  "log_entries log = map (\<lambda>e. (unat (ev_pcr_index e), ev_digest e)) (recorded_events log)"

text \<open>The digests recorded for one register, in order.\<close>

definition log_digests :: "TCGEventLog \<Rightarrow> nat \<Rightarrow> bytes list" where
  "log_digests log j = map snd (filter (\<lambda>(i, d). i = j) (log_entries log))"

lemma pcr_bank_ready_init [simp]: "pcr_bank_ready (pcr_bank_init TPM_ALG_SHA256)"
  by (simp add: pcr_bank_ready_def) (simp add: pcr_bank_init_def)

lemma pcr_value_init [simp]: "j < 24 \<Longrightarrow> pcr_value (pcr_bank_init alg) j = zeros 32"
  by (simp add: pcr_value_def pcr_bank_init_def PCR_COUNT_def)

lemma pcr_extend_measure: "fst (pcr_extend b i (Some d)) = pcr_measure b (unat i) d"
  by (auto simp: pcr_measure_def pcr_defs PCR_COUNT_def index_off_bank)

lemma event_log_replay_fold:
  "event_log_replay log = fold (\<lambda>(i, d) b. pcr_measure b i d) (log_entries log) (pcr_bank_init TPM_ALG_SHA256)"
  by (simp add: event_log_replay_def log_entries_def fold_map comp_def pcr_extend_measure)

lemma log_entries_ok: "event_log_wf log \<Longrightarrow> \<forall>(i, d) \<in> set (log_entries log). d \<noteq> []"
  by (auto simp: event_log_wf_def log_entries_def)

lemma event_log_replay_ready: "pcr_bank_ready (event_log_replay log)"
  unfolding event_log_replay_fold by (rule pcrs.wf_replay) simp

lemma event_log_replay_value:
  assumes "event_log_wf log" and "j < 24"
  shows "pcr_value (event_log_replay log) j = chain sha256_hash (zeros 32) (map sha256_hash (log_digests log j))"
  using pcrs.reg_replay [OF pcr_bank_ready_init assms(2) log_entries_ok [OF assms(1)]] assms(2)
  by (simp add: event_log_replay_fold log_digests_def comp_def)

lemma event_log_verify_iff:
  assumes "event_log_wf log"
  shows "event_log_verify_pcr log i expected TPM_ALG_SHA256 \<longleftrightarrow>
    unat i < 24 \<and> take 32 expected = chain sha256_hash (zeros 32) (map sha256_hash (log_digests log (unat i)))"
  using event_log_replay_value [OF assms]
  by (auto simp: event_log_verify_pcr_def pcr_read_def PCR_COUNT_def pcr_value_def index_off_bank)

end
