(* ===== verification/Crtm_Drtm.thy ===== *)
theory Crtm_Drtm
  imports Event_Log
begin

text \<open>
  The static and dynamic measured-launch flows of \<open>mini-measured-boot/src/crtm_drtm.c\<close>.  A
  flow owns its PCR bank and event log (the C struct points to them).  Each measurement
  stores the digest, extends one or two registers and appends one event; the results of
  the extend and of the append are ignored, as in the source.  \<open>srtm_step\<close> and \<open>drtm_step\<close>
  name the calls, so that a boot is a list of them in any order.
\<close>

section \<open>State\<close>

record CRTM =
  crtm_bios_measurement :: bytes
  crtm_version :: bytes
  crtm_immutable :: bool
  crtm_reset_behavior :: u32

record SRTMFlow =
  sf_crtm :: CRTM
  sf_main_bios :: bytes
  sf_option_rom :: bytes
  sf_mbr :: bytes
  sf_bootloader :: bytes
  sf_target_os :: bytes
  sf_bank :: PCRBank
  sf_log :: TCGEventLog

record TXTInfo =
  txt_ac_module_id :: bytes
  txt_sinit_hash :: bytes
  txt_mle_hash :: bytes
  txt_bios_ac_base :: bytes
  txt_sinit_size :: u32
  txt_mle_size :: u32
  txt_launch_success :: bool

record DRTMFlow =
  df_txt_info :: TXTInfo
  df_mle :: bytes
  df_sinit :: bytes
  df_os :: bytes
  df_bank :: PCRBank
  df_log :: TCGEventLog
  df_measured_launch :: bool

section \<open>Initialisation\<close>

text \<open>The version is a C string: at most 15 characters and the terminating zero are stored.\<close>

definition crtm_init :: "string option \<Rightarrow> CRTM" where
  "crtm_init version =
     \<lparr>crtm_bios_measurement = sha256_hash (str_bytes ''CRTM-BOOT-BLOCK''),
      crtm_version = (case version of
          None \<Rightarrow> zeros 16
        | Some v \<Rightarrow> let len = min (length v) 15
                    in (blit (zeros 16) 0 (str_bytes (take len v)))[len := 0]),
      crtm_immutable = True, crtm_reset_behavior = 0\<rparr>"

definition srtm_flow_init :: "PCRBank \<Rightarrow> TCGEventLog \<Rightarrow> SRTMFlow" where
  "srtm_flow_init bank log =
     \<lparr>sf_crtm = crtm_init (Some ''CRTM v1.0.0''), sf_main_bios = zeros 32, sf_option_rom = zeros 32,
      sf_mbr = zeros 32, sf_bootloader = zeros 32, sf_target_os = zeros 32, sf_bank = bank, sf_log = log\<rparr>"

definition txt_info_init :: TXTInfo where
  "txt_info_init =
     \<lparr>txt_ac_module_id = take 8 (str_bytes ''ACM_SINIT''), txt_sinit_hash = zeros 32, txt_mle_hash = zeros 32,
      txt_bios_ac_base = zeros 8, txt_sinit_size = 0x8000, txt_mle_size = 0x40000, txt_launch_success = False\<rparr>"

definition drtm_flow_init :: "PCRBank \<Rightarrow> TCGEventLog \<Rightarrow> DRTMFlow" where
  "drtm_flow_init bank log =
     \<lparr>df_txt_info = txt_info_init, df_mle = zeros 32, df_sinit = zeros 32, df_os = zeros 32,
      df_bank = bank, df_log = log, df_measured_launch = False\<rparr>"

section \<open>Measurements\<close>

definition srtm_measure_bios :: "SRTMFlow \<Rightarrow> bytes option \<Rightarrow> SRTMFlow \<times> bool" where
  "srtm_measure_bios flow measurement =
     (case measurement of None \<Rightarrow> (flow, False)
      | Some m \<Rightarrow>
          (flow\<lparr>sf_main_bios := m,
                sf_bank := fst (pcr_extend (sf_bank flow) 0 (Some m)),
                sf_log := fst (event_log_add (sf_log flow) 0 0x00000007 m (Some (str_bytes ''BIOS'')) 4)\<rparr>, True))"

definition srtm_measure_option_rom :: "SRTMFlow \<Rightarrow> bytes option \<Rightarrow> SRTMFlow \<times> bool" where
  "srtm_measure_option_rom flow measurement =
     (case measurement of None \<Rightarrow> (flow, False)
      | Some m \<Rightarrow>
          (flow\<lparr>sf_option_rom := m,
                sf_bank := fst (pcr_extend (sf_bank flow) 2 (Some m)),
                sf_log := fst (event_log_add (sf_log flow) 2 0x80000002 m (Some (str_bytes ''OPTION-ROM'')) 10)\<rparr>, True))"

definition srtm_measure_mbr :: "SRTMFlow \<Rightarrow> bytes option \<Rightarrow> SRTMFlow \<times> bool" where
  "srtm_measure_mbr flow measurement =
     (case measurement of None \<Rightarrow> (flow, False)
      | Some m \<Rightarrow>
          (flow\<lparr>sf_mbr := m,
                sf_bank := fst (pcr_extend (fst (pcr_extend (sf_bank flow) 4 (Some m))) 8 (Some m)),
                sf_log := fst (event_log_add (sf_log flow) 4 0x80000001 m (Some (str_bytes ''MBR'')) 3)\<rparr>, True))"

definition srtm_measure_bootloader :: "SRTMFlow \<Rightarrow> bytes option \<Rightarrow> SRTMFlow \<times> bool" where
  "srtm_measure_bootloader flow measurement =
     (case measurement of None \<Rightarrow> (flow, False)
      | Some m \<Rightarrow>
          (flow\<lparr>sf_bootloader := m,
                sf_bank := fst (pcr_extend (fst (pcr_extend (sf_bank flow) 4 (Some m))) 8 (Some m)),
                sf_log := fst (event_log_add (sf_log flow) 4 0x80000001 m (Some (str_bytes ''BOOTLOADER'')) 10)\<rparr>, True))"

definition srtm_measure_os :: "SRTMFlow \<Rightarrow> bytes option \<Rightarrow> SRTMFlow \<times> bool" where
  "srtm_measure_os flow measurement =
     (case measurement of None \<Rightarrow> (flow, False)
      | Some m \<Rightarrow>
          (flow\<lparr>sf_target_os := m,
                sf_bank := fst (pcr_extend (sf_bank flow) 8 (Some m)),
                sf_log := fst (event_log_add (sf_log flow) 8 0x800000E1 m (Some (str_bytes ''OS-KERNEL'')) 9)\<rparr>, True))"

definition srtm_simulate :: "SRTMFlow \<Rightarrow> SRTMFlow" where
  "srtm_simulate flow =
     (let mock_bios = sha256_hash (str_bytes ''BIOS_IMAGE_V1.0'');
          mock_option_rom = sha256_hash (str_bytes ''OPTION_ROM_V2.1'');
          mock_mbr = sha256_hash (str_bytes ''MBR_SECTOR_0'');
          mock_bootloader = sha256_hash (str_bytes ''GRUB_BOOTLOADER'');
          mock_os = sha256_hash (str_bytes ''LINUX_KERNEL_5.15'');
          flow1 = fst (srtm_measure_bios flow (Some mock_bios));
          flow2 = fst (srtm_measure_option_rom flow1 (Some mock_option_rom));
          flow3 = fst (srtm_measure_mbr flow2 (Some mock_mbr));
          flow4 = fst (srtm_measure_bootloader flow3 (Some mock_bootloader))
      in fst (srtm_measure_os flow4 (Some mock_os)))"

definition drtm_measure_sinit :: "DRTMFlow \<Rightarrow> bytes option \<Rightarrow> DRTMFlow \<times> bool" where
  "drtm_measure_sinit flow measurement =
     (case measurement of None \<Rightarrow> (flow, False)
      | Some m \<Rightarrow>
          (flow\<lparr>df_sinit := m, df_txt_info := (df_txt_info flow)\<lparr>txt_sinit_hash := m\<rparr>,
                df_bank := fst (pcr_extend (df_bank flow) 17 (Some m)),
                df_log := fst (event_log_add (df_log flow) 17 0x00000007 m (Some (str_bytes ''SINIT-ACM'')) 9)\<rparr>, True))"

definition drtm_measure_mle :: "DRTMFlow \<Rightarrow> bytes option \<Rightarrow> DRTMFlow \<times> bool" where
  "drtm_measure_mle flow measurement =
     (case measurement of None \<Rightarrow> (flow, False)
      | Some m \<Rightarrow>
          (flow\<lparr>df_mle := m,
                df_txt_info := (df_txt_info flow)\<lparr>txt_mle_hash := m, txt_launch_success := True\<rparr>,
                df_bank := fst (pcr_extend (df_bank flow) 18 (Some m)),
                df_log := fst (event_log_add (df_log flow) 18 0x800000E1 m (Some (str_bytes ''MLE-HEADER'')) 10),
                df_measured_launch := True\<rparr>, True))"

definition drtm_measure_os :: "DRTMFlow \<Rightarrow> bytes option \<Rightarrow> DRTMFlow \<times> bool" where
  "drtm_measure_os flow measurement =
     (case measurement of None \<Rightarrow> (flow, False)
      | Some m \<Rightarrow>
          (flow\<lparr>df_os := m,
                df_bank := fst (pcr_extend (df_bank flow) 19 (Some m)),
                df_log := fst (event_log_add (df_log flow) 19 0x800000E1 m (Some (str_bytes ''OS-DRTM'')) 7)\<rparr>, True))"

definition txt_verify_launch :: "DRTMFlow \<Rightarrow> bool" where
  "txt_verify_launch flow \<longleftrightarrow> df_measured_launch flow \<and> txt_launch_success (df_txt_info flow)"

definition drtm_simulate :: "DRTMFlow \<Rightarrow> DRTMFlow" where
  "drtm_simulate flow =
     (let mock_sinit = sha256_hash (str_bytes ''SINIT_ACM_MODULE'');
          mock_mle = sha256_hash (str_bytes ''MLE_MEASURED_LAUNCH'');
          mock_os = sha256_hash (str_bytes ''TRUSTED_OS_KERNEL'');
          flow1 = fst (drtm_measure_sinit flow (Some mock_sinit));
          flow2 = fst (drtm_measure_mle flow1 (Some mock_mle))
      in fst (drtm_measure_os flow2 (Some mock_os)))"

section \<open>Boots as lists of measurements\<close>

datatype srtm_step = Bios bytes | Option_Rom bytes | Mbr bytes | Bootloader bytes | Os bytes

fun srtm_apply :: "srtm_step \<Rightarrow> SRTMFlow \<Rightarrow> SRTMFlow" where
  "srtm_apply (Bios m) flow = fst (srtm_measure_bios flow (Some m))"
| "srtm_apply (Option_Rom m) flow = fst (srtm_measure_option_rom flow (Some m))"
| "srtm_apply (Mbr m) flow = fst (srtm_measure_mbr flow (Some m))"
| "srtm_apply (Bootloader m) flow = fst (srtm_measure_bootloader flow (Some m))"
| "srtm_apply (Os m) flow = fst (srtm_measure_os flow (Some m))"

fun srtm_payload :: "srtm_step \<Rightarrow> bytes" where
  "srtm_payload (Bios m) = m"
| "srtm_payload (Option_Rom m) = m"
| "srtm_payload (Mbr m) = m"
| "srtm_payload (Bootloader m) = m"
| "srtm_payload (Os m) = m"

datatype drtm_step = Sinit bytes | Mle bytes | Drtm_Os bytes

fun drtm_apply :: "drtm_step \<Rightarrow> DRTMFlow \<Rightarrow> DRTMFlow" where
  "drtm_apply (Sinit m) flow = fst (drtm_measure_sinit flow (Some m))"
| "drtm_apply (Mle m) flow = fst (drtm_measure_mle flow (Some m))"
| "drtm_apply (Drtm_Os m) flow = fst (drtm_measure_os flow (Some m))"

fun drtm_payload :: "drtm_step \<Rightarrow> bytes" where
  "drtm_payload (Sinit m) = m"
| "drtm_payload (Mle m) = m"
| "drtm_payload (Drtm_Os m) = m"

lemmas srtm_defs = srtm_measure_bios_def srtm_measure_option_rom_def srtm_measure_mbr_def
  srtm_measure_bootloader_def srtm_measure_os_def

lemmas drtm_defs = drtm_measure_sinit_def drtm_measure_mle_def drtm_measure_os_def

section \<open>A bank that agrees with its log\<close>

definition agrees :: "PCRBank \<Rightarrow> TCGEventLog \<Rightarrow> nat \<Rightarrow> bool" where
  "agrees bank log j \<longleftrightarrow> pcr_value bank j = pcr_value (event_log_replay log) j"

text \<open>Fewer than \<open>n\<close> slots of the log are used, and log and bank are well formed.\<close>

definition flow_ready :: "PCRBank \<Rightarrow> TCGEventLog \<Rightarrow> nat \<Rightarrow> bool" where
  "flow_ready bank log n \<longleftrightarrow>
     pcr_bank_ready bank \<and> event_log_wf log \<and> unat (el_event_count log) + n \<le> MAX_EVENTS"

lemma flow_readyD: "flow_ready bank log n \<Longrightarrow> pcr_bank_ready bank"
  by (simp add: flow_ready_def)

lemma event_log_add_accepts:
  assumes "unat (el_event_count log) < MAX_EVENTS" and "unat n \<le> 512"
  shows "snd (event_log_add log i t d x n)"
  using assms by (simp add: event_log_add_def Let_def MAX_EVENTS_def MAX_EVENT_DATA_SIZE_def
      word_le_nat_alt word_less_nat_alt)

lemma event_log_add_replay:
  assumes wf: "event_log_wf log" and lt: "unat (el_event_count log) < MAX_EVENTS"
    and n: "unat n \<le> 512" and d: "length d = 32"
  shows "event_log_replay (fst (event_log_add log i t d x n)) = pcr_measure (event_log_replay log) (unat i) d"
proof -
  from event_log_add_recorded [OF wf event_log_add_accepts [OF lt n]] obtain e where
    "recorded_events (fst (event_log_add log i t d x n)) = recorded_events log @ [e]"
    and "ev_pcr_index e = i" and "ev_digest e = take 32 d" by metis
  then show ?thesis
    using d by (simp add: event_log_replay_def pcr_extend_measure)
qed

lemma flow_ready_measure:
  assumes "flow_ready bank log (Suc k)" and "unat n \<le> 512" and "length d = 32"
    and "pcr_bank_ready bank'"
  shows "flow_ready bank' (fst (event_log_add log ix t d x n)) k"
proof -
  from assms have wf: "event_log_wf log" and lt: "unat (el_event_count log) < MAX_EVENTS"
    by (auto simp: flow_ready_def)
  show ?thesis
    using event_log_add_count(2) [OF event_log_add_accepts [OF lt assms(2)]] assms event_log_wf_add [OF wf assms(3)] by (simp add: flow_ready_def pcrs.wf_extend)
qed

text \<open>Extending a register and logging it keeps the agreement; other extends touch their own register only.\<close>

lemma agrees_measure:
  assumes "flow_ready bank log (Suc k)" and "unat n \<le> 512" and "length d = 32" and "j < 24"
    and "agrees bank log j" and ix: "unat i = ix"
  shows "agrees (pcr_measure bank ix d) (fst (event_log_add log i t d x n)) j"
proof -
  from assms have wf: "event_log_wf log" and lt: "unat (el_event_count log) < MAX_EVENTS"
    and rd: "pcr_bank_ready bank" by (auto simp: flow_ready_def)
  have d: "d \<noteq> []" using assms(3) by auto
  show ?thesis
  proof (cases "unat i = j")
    case True
    then show ?thesis
      unfolding ix [symmetric] using assms(4,5) d by (simp add: agrees_def event_log_add_replay [OF wf lt assms(2,3)]
          pcrs.reg_extend_same [OF rd] pcrs.reg_extend_same [OF event_log_replay_ready])
  next
    case False
    then show ?thesis
      unfolding ix [symmetric] using assms(4,5) by (simp add: agrees_def event_log_add_replay [OF wf lt assms(2,3)]
          pcrs.reg_extend_other [OF rd] pcrs.reg_extend_other [OF event_log_replay_ready])
  qed
qed

lemma agrees_extra_extend:
  "pcr_bank_ready bank \<Longrightarrow> j < 24 \<Longrightarrow> i \<noteq> j \<Longrightarrow> agrees (pcr_measure bank i d) log j = agrees bank log j"
  by (simp add: agrees_def pcrs.reg_extend_other)

lemma srtm_apply_keeps:
  assumes "flow_ready (sf_bank flow) (sf_log flow) (Suc k)" and "length (srtm_payload s) = 32"
  shows "flow_ready (sf_bank (srtm_apply s flow)) (sf_log (srtm_apply s flow)) k \<and>
    (\<forall>j < 24. j \<noteq> 8 \<longrightarrow> agrees (sf_bank flow) (sf_log flow) j \<longrightarrow>
       agrees (sf_bank (srtm_apply s flow)) (sf_log (srtm_apply s flow)) j)"
proof -
  have ready: "pcr_bank_ready (pcr_measure (sf_bank flow) i d)" for i d
    using assms(1) by (simp add: flow_ready_def pcrs.wf_extend)
  note keep = pcrs.wf_extend flow_ready_measure [OF assms(1)] agrees_measure [OF assms(1)]
  show ?thesis
  proof (cases "\<exists>m. s = Os m")
    case True
    then show ?thesis
      using assms(2) flow_readyD [OF assms(1)]
      by (auto simp: srtm_defs pcr_extend_measure intro!: keep)
  next
    case False
    then show ?thesis
      using assms(2) ready flow_readyD [OF assms(1)]
      by (cases s) (auto simp: srtm_defs pcr_extend_measure agrees_extra_extend intro!: keep)
  qed
qed

lemma drtm_apply_keeps:
  assumes "flow_ready (df_bank flow) (df_log flow) (Suc k)" and "length (drtm_payload s) = 32"
  shows "flow_ready (df_bank (drtm_apply s flow)) (df_log (drtm_apply s flow)) k \<and>
    (\<forall>j < 24. agrees (df_bank flow) (df_log flow) j \<longrightarrow>
       agrees (df_bank (drtm_apply s flow)) (df_log (drtm_apply s flow)) j)"
  using assms(2) flow_readyD [OF assms(1)]
  by (cases s) (auto simp: drtm_defs pcr_extend_measure
      intro!: pcrs.wf_extend flow_ready_measure [OF assms(1)] agrees_measure [OF assms(1)])

lemma srtm_run_agrees:
  assumes "flow_ready (sf_bank flow) (sf_log flow) (length ss)"
    and "\<forall>s \<in> set ss. length (srtm_payload s) = 32"
    and "\<forall>j < 24. j \<noteq> 8 \<longrightarrow> agrees (sf_bank flow) (sf_log flow) j"
  shows "\<forall>j < 24. j \<noteq> 8 \<longrightarrow> agrees (sf_bank (fold srtm_apply ss flow)) (sf_log (fold srtm_apply ss flow)) j"
  using assms
proof (induction ss arbitrary: flow)
  case Nil
  then show ?case by simp
next
  case (Cons s ss)
  have "flow_ready (sf_bank flow) (sf_log flow) (Suc (length ss))" using Cons.prems(1) by simp
  note k = srtm_apply_keeps [OF this, of s]
  show ?case using Cons.IH [of "srtm_apply s flow"] k Cons.prems by simp
qed

lemma drtm_run_agrees:
  assumes "flow_ready (df_bank flow) (df_log flow) (length ss)"
    and "\<forall>s \<in> set ss. length (drtm_payload s) = 32"
    and "\<forall>j < 24. agrees (df_bank flow) (df_log flow) j"
  shows "\<forall>j < 24. agrees (df_bank (fold drtm_apply ss flow)) (df_log (fold drtm_apply ss flow)) j"
  using assms
proof (induction ss arbitrary: flow)
  case Nil
  then show ?case by simp
next
  case (Cons s ss)
  have "flow_ready (df_bank flow) (df_log flow) (Suc (length ss))" using Cons.prems(1) by simp
  note k = drtm_apply_keeps [OF this, of s]
  show ?case using Cons.IH [of "drtm_apply s flow"] k Cons.prems by simp
qed

text \<open>A fresh bank agrees with a fresh log, with room for 128 events.\<close>

lemma fresh_flow_ready: "n \<le> 128 \<Longrightarrow> flow_ready (pcr_bank_init TPM_ALG_SHA256) (event_log_init v) n"
  using event_log_wf_init [of v] by (simp add: flow_ready_def event_log_init_def MAX_EVENTS_def)

lemma fresh_agrees: "agrees (pcr_bank_init TPM_ALG_SHA256) (event_log_init v) j"
  by (simp add: agrees_def event_log_replay_def recorded_events_def event_log_init_def)

lemma txt_verify_launch_iff_mle:
  "txt_verify_launch (fold drtm_apply ss flow) \<longleftrightarrow> txt_verify_launch flow \<or> (\<exists>m. Mle m \<in> set ss)"
proof (induction ss arbitrary: flow)
  case Nil
  then show ?case by simp
next
  case (Cons s ss)
  then show ?case by (cases s) (auto simp: drtm_defs txt_verify_launch_def)
qed

section \<open>Verified boots\<close>

lemma agrees_verifies:
  assumes "event_log_wf log" and "unat i < 24" and "agrees bank log (unat i)"
  shows "event_log_verify_pcr log i (pcr_value bank (unat i)) TPM_ALG_SHA256"
proof -
  have "pcr_value bank (unat i) = chain sha256_hash (zeros 32) (map sha256_hash (log_digests log (unat i)))"
    using assms event_log_replay_value [OF assms(1,2)] by (simp add: agrees_def)
  moreover have "length (chain sha256_hash (zeros 32) ds) = 32" for ds
    by (rule sha.length_chain) (simp add: zeros_def)
  ultimately show ?thesis using assms(2) unfolding event_log_verify_iff [OF assms(1)] by simp
qed

lemma srtm_run_ready:
  "flow_ready (sf_bank flow) (sf_log flow) (length ss + k) \<Longrightarrow> \<forall>s \<in> set ss. length (srtm_payload s) = 32 \<Longrightarrow>
    flow_ready (sf_bank (fold srtm_apply ss flow)) (sf_log (fold srtm_apply ss flow)) k"
  by (induction ss arbitrary: flow) (use srtm_apply_keeps in auto)

lemma drtm_run_ready:
  "flow_ready (df_bank flow) (df_log flow) (length ss + k) \<Longrightarrow> \<forall>s \<in> set ss. length (drtm_payload s) = 32 \<Longrightarrow>
    flow_ready (df_bank (fold drtm_apply ss flow)) (df_log (fold drtm_apply ss flow)) k"
  by (induction ss arbitrary: flow) (use drtm_apply_keeps in auto)

lemma flow_ready_log: "flow_ready bank log n \<Longrightarrow> event_log_wf log"
  by (simp add: flow_ready_def)

text \<open>A boot on a fresh bank and a fresh log.\<close>

definition srtm_boot :: "u16 \<Rightarrow> srtm_step list \<Rightarrow> SRTMFlow" where
  "srtm_boot v ss = fold srtm_apply ss (srtm_flow_init (pcr_bank_init TPM_ALG_SHA256) (event_log_init v))"

definition drtm_boot :: "u16 \<Rightarrow> drtm_step list \<Rightarrow> DRTMFlow" where
  "drtm_boot v ss = fold drtm_apply ss (drtm_flow_init (pcr_bank_init TPM_ALG_SHA256) (event_log_init v))"

lemma flow_init_simps [simp]:
  "sf_bank (srtm_flow_init b l) = b" "sf_log (srtm_flow_init b l) = l"
  "df_bank (drtm_flow_init b l) = b" "df_log (drtm_flow_init b l) = l"
  by (simp_all add: srtm_flow_init_def drtm_flow_init_def)

lemma srtm_boot_verifies:
  assumes "length ss \<le> 128" and "\<forall>s \<in> set ss. length (srtm_payload s) = 32" and "unat i < 24" and "i \<noteq> 8"
  shows "event_log_verify_pcr (sf_log (srtm_boot v ss)) i (pcr_value (sf_bank (srtm_boot v ss)) (unat i)) TPM_ALG_SHA256"
proof (rule agrees_verifies)
  show "event_log_wf (sf_log (srtm_boot v ss))"
    unfolding srtm_boot_def using fresh_flow_ready [OF assms(1)] assms(2)
    by (intro flow_ready_log [OF srtm_run_ready [where k = 0]]) simp_all
  have "unat i \<noteq> 8" using assms(4) by (simp add: word_unat_eq_iff)
  then show "agrees (sf_bank (srtm_boot v ss)) (sf_log (srtm_boot v ss)) (unat i)"
    unfolding srtm_boot_def using srtm_run_agrees assms fresh_flow_ready fresh_agrees by simp
qed (rule assms(3))

lemma drtm_boot_verifies:
  assumes "length ss \<le> 128" and "\<forall>s \<in> set ss. length (drtm_payload s) = 32" and "unat i < 24"
  shows "event_log_verify_pcr (df_log (drtm_boot v ss)) i (pcr_value (df_bank (drtm_boot v ss)) (unat i)) TPM_ALG_SHA256"
proof (rule agrees_verifies)
  show "event_log_wf (df_log (drtm_boot v ss))"
    unfolding drtm_boot_def using fresh_flow_ready [OF assms(1)] assms(2)
    by (intro flow_ready_log [OF drtm_run_ready [where k = 0]]) simp_all
  show "agrees (df_bank (drtm_boot v ss)) (df_log (drtm_boot v ss)) (unat i)"
    unfolding drtm_boot_def using drtm_run_agrees assms fresh_flow_ready fresh_agrees by simp
qed (rule assms(3))

text \<open>The MBR is extended into register 8 and logged for register 4 only.\<close>

lemma srtm_mbr_gap:
  assumes "length m = 32"
  shows "pcr_value (sf_bank (srtm_boot v [Mbr m])) 8 = sha256_hash (zeros 32 @ sha256_hash m)"
    and "event_log_wf (sf_log (srtm_boot v [Mbr m]))"
    and "log_digests (sf_log (srtm_boot v [Mbr m])) 8 = []"
proof -
  let ?b = "pcr_bank_init TPM_ALG_SHA256"
  have ne: "m \<noteq> []" using assms by auto
  have r: "pcr_bank_ready (pcr_measure ?b 4 m)" by (rule pcrs.wf_extend) simp
  have b: "sf_bank (srtm_boot v [Mbr m]) = pcr_measure (pcr_measure ?b 4 m) 8 m"
    by (simp add: srtm_boot_def srtm_measure_mbr_def pcr_extend_measure)
  show "pcr_value (sf_bank (srtm_boot v [Mbr m])) 8 = sha256_hash (zeros 32 @ sha256_hash m)"
    unfolding b using pcrs.reg_extend_same [OF r, of 8 m] pcrs.reg_extend_other [of ?b 8 4 m] ne by simp
  have l: "sf_log (srtm_boot v [Mbr m])
      = fst (event_log_add (event_log_init v) 4 0x80000001 m (Some (str_bytes ''MBR'')) 3)"
    by (simp add: srtm_boot_def srtm_measure_mbr_def)
  show "event_log_wf (sf_log (srtm_boot v [Mbr m]))"
    unfolding l by (rule event_log_wf_add [OF event_log_wf_init assms])
  have "snd (event_log_add (event_log_init v) 4 0x80000001 m (Some (str_bytes ''MBR'')) 3)"
    by (rule event_log_add_accepts) (simp_all add: event_log_init_def MAX_EVENTS_def)
  then obtain e where "recorded_events (sf_log (srtm_boot v [Mbr m])) = recorded_events (event_log_init v) @ [e]"
      and "ev_pcr_index e = 4"
    unfolding l by (rule event_log_add_recorded [OF event_log_wf_init])
  then show "log_digests (sf_log (srtm_boot v [Mbr m])) 8 = []"
    by (simp add: log_digests_def log_entries_def recorded_events_def event_log_init_def)
qed

end
