(* ===== verification/Nv_Storage.thy ===== *)
theory Nv_Storage
  imports Sha256
begin

text \<open>
  TPM NV storage, \<open>mini-measured-boot/src/nv_storage.c\<close> and \<open>nv_storage.h\<close>: 32 index slots of
  which the first \<open>index_count\<close> are in use, found by handle; definition and removal, reads and
  writes under an access check, counters, extend and bit-field indices, locks.  Every
  operation returns the new storage and its result; \<open>None\<close> and \<open>False\<close> are the code's
  \<open>return false\<close>.  An authorisation value with its length is one list.

  The abstraction \<open>nv_map\<close> reads the slots as a partial map from handles to indices; the
  lemmas about it say what each operation does to that map.
\<close>

section \<open>State\<close>

definition NV_MAX_INDICES :: nat where "NV_MAX_INDICES = 32"

definition NV_MAX_DATA_SIZE :: nat where "NV_MAX_DATA_SIZE = 1024"

datatype NVType = NV_TYPE_ORDINARY | NV_TYPE_COUNTER | NV_TYPE_BITFIELD | NV_TYPE_EXTEND
  | NV_TYPE_PIN_PASS | NV_TYPE_PIN_FAIL

datatype NVAuthType = NV_AUTH_OWNER | NV_AUTH_PLATFORM | NV_AUTH_INDEX

definition NV_ATTR_OWNERREAD :: u32 where "NV_ATTR_OWNERREAD = 0x00000001"
definition NV_ATTR_OWNERWRITE :: u32 where "NV_ATTR_OWNERWRITE = 0x00000002"
definition NV_ATTR_AUTHREAD :: u32 where "NV_ATTR_AUTHREAD = 0x00000004"
definition NV_ATTR_AUTHWRITE :: u32 where "NV_ATTR_AUTHWRITE = 0x00000008"
definition NV_ATTR_POLICY_DELETE :: u32 where "NV_ATTR_POLICY_DELETE = 0x00000400"
definition NV_ATTR_WRITELOCKED :: u32 where "NV_ATTR_WRITELOCKED = 0x00000800"
definition NV_ATTR_WRITEALL :: u32 where "NV_ATTR_WRITEALL = 0x00001000"
definition NV_ATTR_WRITEDEFINE :: u32 where "NV_ATTR_WRITEDEFINE = 0x00002000"
definition NV_ATTR_GLOBALLOCK :: u32 where "NV_ATTR_GLOBALLOCK = 0x00008000"
definition NV_ATTR_PPREAD :: u32 where "NV_ATTR_PPREAD = 0x00010000"
definition NV_ATTR_PPWRITE :: u32 where "NV_ATTR_PPWRITE = 0x00020000"
definition NV_ATTR_PLATFORMCREATE :: u32 where "NV_ATTR_PLATFORMCREATE = 0x00040000"
definition NV_ATTR_READ_STCLEAR :: u32 where "NV_ATTR_READ_STCLEAR = 0x00080000"
definition NV_ATTR_READLOCKED :: u32 where "NV_ATTR_READLOCKED = 0x00100000"
definition NV_ATTR_ORDERLY :: u32 where "NV_ATTR_ORDERLY = 0x00200000"
definition NV_ATTR_WRITTEN :: u32 where "NV_ATTR_WRITTEN = 0x00800000"

record NVIndex =
  nvi_handle :: u32
  nvi_type :: NVType
  nvi_attributes :: u32
  nvi_data_size :: u16
  nvi_auth_value :: bytes
  nvi_auth_value_size :: u16
  nvi_policy_digest :: bytes
  nvi_policy_defined :: bool
  nvi_defined :: bool
  nvi_read_locked :: bool
  nvi_write_locked :: bool
  nvi_data :: bytes
  nvi_data_len :: u16
  nvi_write_count :: u32

record NVStorage =
  nv_indices :: "NVIndex list"
  nv_index_count :: u32
  nv_locked_globally :: bool
  nv_owner_auth_handle :: u32

text \<open>A slot cleared by \<open>memset\<close>.\<close>

definition nv_empty_index :: NVIndex where
  "nv_empty_index =
     \<lparr>nvi_handle = 0, nvi_type = NV_TYPE_ORDINARY, nvi_attributes = 0, nvi_data_size = 0,
      nvi_auth_value = zeros 32, nvi_auth_value_size = 0, nvi_policy_digest = zeros 32,
      nvi_policy_defined = False, nvi_defined = False, nvi_read_locked = False,
      nvi_write_locked = False, nvi_data = zeros 1024, nvi_data_len = 0, nvi_write_count = 0\<rparr>"

definition nv_attr :: "NVIndex \<Rightarrow> u32 \<Rightarrow> bool" where
  "nv_attr idx a \<longleftrightarrow> nvi_attributes idx AND a \<noteq> 0"

section \<open>Operations\<close>

definition nv_find_index :: "NVStorage \<Rightarrow> u32 \<Rightarrow> nat option" where
  "nv_find_index nv handle =
     find_index (\<lambda>idx. nvi_defined idx \<and> nvi_handle idx = handle)
       (take (unat (nv_index_count nv)) (nv_indices nv))"

definition nv_auth_matches :: "NVIndex \<Rightarrow> bytes option \<Rightarrow> bool" where
  "nv_auth_matches idx auth_value =
     (case auth_value of None \<Rightarrow> False
      | Some a \<Rightarrow> unat (nvi_auth_value_size idx) = length a \<and> take (length a) (nvi_auth_value idx) = a)"

definition nv_check_read_access :: "NVIndex \<Rightarrow> NVAuthType \<Rightarrow> bytes option \<Rightarrow> bool" where
  "nv_check_read_access idx auth auth_value =
     (if nvi_read_locked idx then False
      else if auth = NV_AUTH_OWNER \<and> nv_attr idx NV_ATTR_OWNERREAD then True
      else if auth = NV_AUTH_PLATFORM \<and> nv_attr idx NV_ATTR_PPREAD then True
      else auth = NV_AUTH_INDEX \<and> nv_attr idx NV_ATTR_AUTHREAD \<and> nv_auth_matches idx auth_value)"

definition nv_check_write_access :: "NVIndex \<Rightarrow> NVAuthType \<Rightarrow> bytes option \<Rightarrow> bool" where
  "nv_check_write_access idx auth auth_value =
     (if nvi_write_locked idx then False
      else if nv_attr idx NV_ATTR_WRITELOCKED then False
      else if auth = NV_AUTH_OWNER \<and> nv_attr idx NV_ATTR_OWNERWRITE then True
      else if auth = NV_AUTH_PLATFORM \<and> nv_attr idx NV_ATTR_PPWRITE then True
      else auth = NV_AUTH_INDEX \<and> nv_attr idx NV_ATTR_AUTHWRITE \<and> nv_auth_matches idx auth_value)"

definition nv_storage_init :: NVStorage where
  "nv_storage_init =
     \<lparr>nv_indices = replicate NV_MAX_INDICES nv_empty_index, nv_index_count = 0,
      nv_locked_globally = False, nv_owner_auth_handle = 0x40000001\<rparr>"

definition nv_define_space ::
  "NVStorage \<Rightarrow> u32 \<Rightarrow> NVType \<Rightarrow> u32 \<Rightarrow> u16 \<Rightarrow> bytes option \<Rightarrow> u16 \<Rightarrow> bytes option
     \<Rightarrow> NVStorage \<times> u32 option" where
  "nv_define_space nv handle nv_type attributes data_size auth_value auth_size policy =
     (if unat data_size > NV_MAX_DATA_SIZE then (nv, None)
      else if auth_size > 32 then (nv, None)
      else if unat (nv_index_count nv) \<ge> NV_MAX_INDICES then (nv, None)
      else if nv_find_index nv handle \<noteq> None then (nv, None)
      else if handle AND 0xFF000000 \<noteq> 0x01000000 then (nv, None)
      else let slot = nv_index_count nv;
               idx = nv_empty_index
                 \<lparr>nvi_handle := handle, nvi_type := nv_type, nvi_attributes := attributes,
                  nvi_data_size := data_size, nvi_defined := True\<rparr>;
               idx1 = (case auth_value of None \<Rightarrow> idx
                 | Some a \<Rightarrow> if auth_size > 0
                     then idx\<lparr>nvi_auth_value_size := auth_size,
                              nvi_auth_value := blit (nvi_auth_value idx) 0 (take (unat auth_size) a)\<rparr>
                     else idx);
               idx2 = (case policy of None \<Rightarrow> idx1
                 | Some p \<Rightarrow> idx1\<lparr>nvi_policy_digest := take 32 p, nvi_policy_defined := True\<rparr>)
           in (nv\<lparr>nv_indices := (nv_indices nv)[unat slot := idx2], nv_index_count := slot + 1\<rparr>, Some slot))"

definition nv_undefine_space :: "NVStorage \<Rightarrow> u32 \<Rightarrow> NVAuthType \<Rightarrow> NVStorage \<times> bool" where
  "nv_undefine_space nv handle auth =
     (case nv_find_index nv handle of None \<Rightarrow> (nv, False)
      | Some p \<Rightarrow>
          let idx = nv_indices nv ! p; count = unat (nv_index_count nv)
          in if nv_attr idx NV_ATTR_POLICY_DELETE then (nv, False)
             else if nv_attr idx NV_ATTR_PLATFORMCREATE \<and> auth \<noteq> NV_AUTH_PLATFORM then (nv, False)
             else let xs = (nv_indices nv)[p := nv_empty_index];
                      xs1 = fold (\<lambda>i xs. xs[i := xs ! (i + 1)]) [p..<count - 1] xs
                  in (nv\<lparr>nv_indices := xs1[count - 1 := nv_empty_index],
                         nv_index_count := nv_index_count nv - 1\<rparr>, True))"

text \<open>Replacing the index at a position, shared by the operations that change one index in place.\<close>

definition nv_put :: "NVStorage \<Rightarrow> nat \<Rightarrow> NVIndex \<Rightarrow> NVStorage" where
  "nv_put nv p idx = nv\<lparr>nv_indices := (nv_indices nv)[p := idx]\<rparr>"

definition nv_read :: "NVStorage \<Rightarrow> u32 \<Rightarrow> NVAuthType \<Rightarrow> bytes option \<Rightarrow> NVStorage \<times> bytes option" where
  "nv_read nv handle auth auth_value =
     (case nv_find_index nv handle of None \<Rightarrow> (nv, None)
      | Some p \<Rightarrow>
          let idx = nv_indices nv ! p
          in if \<not> nv_check_read_access idx auth auth_value then (nv, None)
             else if nv_attr idx NV_ATTR_READ_STCLEAR
             then (if nvi_read_locked idx then (nv, None)
                   else (nv_put nv p (idx\<lparr>nvi_read_locked := True\<rparr>),
                         Some (take (unat (nvi_data_len idx)) (nvi_data idx))))
             else (nv, Some (take (unat (nvi_data_len idx)) (nvi_data idx))))"

text \<open>The common end of the writing operations: new data, its length, the count, the WRITTEN flag.\<close>

definition nv_store :: "NVIndex \<Rightarrow> bytes \<Rightarrow> NVIndex" where
  "nv_store idx d =
     idx\<lparr>nvi_data := blit (nvi_data idx) 0 d, nvi_data_len := of_nat (length d),
         nvi_write_count := nvi_write_count idx + 1,
         nvi_attributes := nvi_attributes idx OR NV_ATTR_WRITTEN\<rparr>"

definition nv_write ::
  "NVStorage \<Rightarrow> u32 \<Rightarrow> bytes option \<Rightarrow> NVAuthType \<Rightarrow> bytes option \<Rightarrow> NVStorage \<times> bool" where
  "nv_write nv handle data auth auth_value =
     (case data of None \<Rightarrow> (nv, False)
      | Some d \<Rightarrow>
        (case nv_find_index nv handle of None \<Rightarrow> (nv, False)
         | Some p \<Rightarrow>
            let idx = nv_indices nv ! p
            in if nvi_type idx = NV_TYPE_COUNTER \<or> nvi_type idx = NV_TYPE_EXTEND
                  \<or> nvi_type idx = NV_TYPE_BITFIELD then (nv, False)
               else if nv_locked_globally nv \<and> nv_attr idx NV_ATTR_GLOBALLOCK then (nv, False)
               else if nv_attr idx NV_ATTR_WRITEALL \<and> length d \<noteq> unat (nvi_data_size idx) then (nv, False)
               else if length d > unat (nvi_data_size idx) then (nv, False)
               else if \<not> nv_check_write_access idx auth auth_value then (nv, False)
               else if nv_attr idx NV_ATTR_WRITEDEFINE \<and> nvi_write_count idx > 0 then (nv, False)
               else (nv_put nv p (nv_store idx d), True)))"

definition nv_counter_value :: "NVIndex \<Rightarrow> u32" where
  "nv_counter_value idx =
     (if nvi_data_len idx \<ge> 4
      then be32 (nvi_data idx ! 0) (nvi_data idx ! 1) (nvi_data idx ! 2) (nvi_data idx ! 3) else 0)"

definition nv_counter_increment :: "NVStorage \<Rightarrow> u32 \<Rightarrow> NVStorage \<times> u32 option" where
  "nv_counter_increment nv handle =
     (case nv_find_index nv handle of None \<Rightarrow> (nv, None)
      | Some p \<Rightarrow>
          let idx = nv_indices nv ! p
          in if nvi_type idx \<noteq> NV_TYPE_COUNTER then (nv, None)
             else if nvi_write_locked idx then (nv, None)
             else let old_val = nv_counter_value idx
                  in if old_val \<ge> 0xFFFFFFFF then (nv, None)
                     else (nv_put nv p (nv_store idx (be32_bytes (old_val + 1))), Some (old_val + 1)))"

definition nv_extend ::
  "NVStorage \<Rightarrow> u32 \<Rightarrow> bytes option \<Rightarrow> NVAuthType \<Rightarrow> bytes option \<Rightarrow> NVStorage \<times> bool" where
  "nv_extend nv handle data auth auth_value =
     (case data of None \<Rightarrow> (nv, False)
      | Some d \<Rightarrow>
        (case nv_find_index nv handle of None \<Rightarrow> (nv, False)
         | Some p \<Rightarrow>
            let idx = nv_indices nv ! p
            in if nvi_type idx \<noteq> NV_TYPE_EXTEND then (nv, False)
               else if \<not> nv_check_write_access idx auth auth_value then (nv, False)
               else if nv_locked_globally nv \<and> nv_attr idx NV_ATTR_GLOBALLOCK then (nv, False)
               else let combined = take 32 (nvi_data idx) @ sha256_hash d
                    in (nv_put nv p (nv_store idx (sha256_hash combined)), True)))"

definition nv_bits_value :: "NVIndex \<Rightarrow> u64" where
  "nv_bits_value idx =
     (if nvi_data_len idx \<ge> 8
      then fold (\<lambda>i cur. push_bit 8 cur OR ucast (nvi_data idx ! i)) [0..<8] 0 else 0)"

definition nv_setbits ::
  "NVStorage \<Rightarrow> u32 \<Rightarrow> u64 \<Rightarrow> NVAuthType \<Rightarrow> bytes option \<Rightarrow> NVStorage \<times> bool" where
  "nv_setbits nv handle bits auth auth_value =
     (case nv_find_index nv handle of None \<Rightarrow> (nv, False)
      | Some p \<Rightarrow>
          let idx = nv_indices nv ! p
          in if nvi_type idx \<noteq> NV_TYPE_BITFIELD then (nv, False)
             else if \<not> nv_check_write_access idx auth auth_value then (nv, False)
             else if nv_locked_globally nv \<and> nv_attr idx NV_ATTR_GLOBALLOCK then (nv, False)
             else (nv_put nv p (nv_store idx (be64_bytes (nv_bits_value idx OR bits))), True))"

definition nv_global_lock :: "NVStorage \<Rightarrow> NVStorage" where
  "nv_global_lock nv = nv\<lparr>nv_locked_globally := True\<rparr>"

definition nv_read_lock :: "NVStorage \<Rightarrow> u32 \<Rightarrow> NVStorage \<times> bool" where
  "nv_read_lock nv handle =
     (case nv_find_index nv handle of None \<Rightarrow> (nv, False)
      | Some p \<Rightarrow>
          let idx = nv_indices nv ! p
          in (nv_put nv p (idx\<lparr>nvi_read_locked := True,
                nvi_attributes := nvi_attributes idx OR NV_ATTR_READLOCKED\<rparr>), True))"

definition nv_write_lock :: "NVStorage \<Rightarrow> u32 \<Rightarrow> NVStorage \<times> bool" where
  "nv_write_lock nv handle =
     (case nv_find_index nv handle of None \<Rightarrow> (nv, False)
      | Some p \<Rightarrow>
          let idx = nv_indices nv ! p
          in (nv_put nv p (idx\<lparr>nvi_write_locked := True,
                nvi_attributes := nvi_attributes idx OR NV_ATTR_WRITELOCKED\<rparr>), True))"

definition nv_change_auth :: "NVStorage \<Rightarrow> u32 \<Rightarrow> bytes option \<Rightarrow> bytes option \<Rightarrow> NVStorage \<times> bool" where
  "nv_change_auth nv handle old_auth new_auth =
     (case (old_auth, new_auth) of
        (Some old, Some new) \<Rightarrow>
          if length new > 32 then (nv, False)
          else (case nv_find_index nv handle of None \<Rightarrow> (nv, False)
            | Some p \<Rightarrow>
                let idx = nv_indices nv ! p
                in if unat (nvi_auth_value_size idx) \<noteq> length old then (nv, False)
                   else if take (length old) (nvi_auth_value idx) \<noteq> old then (nv, False)
                   else (nv_put nv p (idx\<lparr>nvi_auth_value := blit (nvi_auth_value idx) 0 new,
                           nvi_auth_value_size := of_nat (length new)\<rparr>), True))
      | _ \<Rightarrow> (nv, False))"

definition nv_define_uefi_variable :: "NVStorage \<Rightarrow> u32 \<Rightarrow> bytes option \<Rightarrow> u16 \<Rightarrow> NVStorage \<times> bool" where
  "nv_define_uefi_variable nv handle name_hash data_size =
     (case name_hash of None \<Rightarrow> (nv, False)
      | Some h \<Rightarrow>
          let attrs = NV_ATTR_PPREAD OR NV_ATTR_AUTHWRITE OR NV_ATTR_WRITTEN OR NV_ATTR_GLOBALLOCK OR NV_ATTR_ORDERLY;
              (nv', slot) = nv_define_space nv handle NV_TYPE_ORDINARY attrs data_size (Some h) 32 None
          in (nv', slot \<noteq> None))"

definition nv_get_index_count :: "NVStorage \<Rightarrow> u32" where
  "nv_get_index_count nv = nv_index_count nv"

definition nv_get_index :: "NVStorage \<Rightarrow> u32 \<Rightarrow> NVIndex option" where
  "nv_get_index nv slot =
     (if slot \<ge> nv_index_count nv then None
      else if \<not> nvi_defined (nv_indices nv ! unat slot) then None
      else Some (nv_indices nv ! unat slot))"

fun nv_type_to_string :: "NVType \<Rightarrow> string" where
  "nv_type_to_string NV_TYPE_ORDINARY = ''ORDINARY''"
| "nv_type_to_string NV_TYPE_COUNTER = ''COUNTER''"
| "nv_type_to_string NV_TYPE_BITFIELD = ''BITFIELD''"
| "nv_type_to_string NV_TYPE_EXTEND = ''EXTEND''"
| "nv_type_to_string NV_TYPE_PIN_PASS = ''PIN_PASS''"
| "nv_type_to_string NV_TYPE_PIN_FAIL = ''PIN_FAIL''"

fun nv_auth_type_to_string :: "NVAuthType \<Rightarrow> string" where
  "nv_auth_type_to_string NV_AUTH_OWNER = ''OWNER''"
| "nv_auth_type_to_string NV_AUTH_PLATFORM = ''PLATFORM''"
| "nv_auth_type_to_string NV_AUTH_INDEX = ''INDEX''"

end
