(* ===== verification/Nv_Facts.thy ===== *)
theory Nv_Facts
  imports Nv_Storage
begin

text \<open>
  NV storage as a partial map from handles to indices: the well-formedness invariant, the
  map reading of the slot array, and the effect of every operation on both.
\<close>

section \<open>Well-formed storage and its abstraction\<close>

definition nv_index_ok :: "NVIndex \<Rightarrow> bool" where
  "nv_index_ok idx \<longleftrightarrow>
     nvi_defined idx \<and> nvi_handle idx AND 0xFF000000 = 0x01000000 \<and>
     length (nvi_data idx) = 1024 \<and> unat (nvi_data_len idx) \<le> 1024 \<and> unat (nvi_data_size idx) \<le> 1024 \<and>
     length (nvi_auth_value idx) = 32 \<and> unat (nvi_auth_value_size idx) \<le> 32"

definition nv_live :: "NVStorage \<Rightarrow> NVIndex list" where
  "nv_live nv = take (unat (nv_index_count nv)) (nv_indices nv)"

definition nv_wf :: "NVStorage \<Rightarrow> bool" where
  "nv_wf nv \<longleftrightarrow>
     length (nv_indices nv) = NV_MAX_INDICES \<and> unat (nv_index_count nv) \<le> NV_MAX_INDICES \<and>
     (\<forall>idx \<in> set (nv_live nv). nv_index_ok idx) \<and> distinct (map nvi_handle (nv_live nv)) \<and>
     (\<forall>i. unat (nv_index_count nv) \<le> i \<and> i < NV_MAX_INDICES \<longrightarrow> nv_indices nv ! i = nv_empty_index)"

definition nv_map :: "NVStorage \<Rightarrow> u32 \<Rightarrow> NVIndex option" where
  "nv_map nv handle = map_option (\<lambda>p. nv_indices nv ! p) (nv_find_index nv handle)"

lemma nv_wf_init: "nv_wf nv_storage_init"
  by (simp add: nv_wf_def nv_live_def nv_storage_init_def)

lemma length_nv_live: "nv_wf nv \<Longrightarrow> length (nv_live nv) = unat (nv_index_count nv)"
  by (simp add: nv_wf_def nv_live_def)

lemma nv_find_index_live:
  "nv_find_index nv h = find_index (\<lambda>idx. nvi_defined idx \<and> nvi_handle idx = h) (nv_live nv)"
  by (simp add: nv_find_index_def nv_live_def)

lemma nv_findD:
  assumes "nv_wf nv" and "nv_find_index nv h = Some p"
  shows "p < unat (nv_index_count nv)" and "p < length (nv_indices nv)"
    and "nv_live nv ! p = nv_indices nv ! p" and "nvi_handle (nv_indices nv ! p) = h"
    and "nv_index_ok (nv_indices nv ! p)"
proof -
  have "p < length (nv_live nv)" and h: "nvi_handle (nv_live nv ! p) = h"
    using assms(2) find_index_SomeD [of _ "nv_live nv" p] by (auto simp: nv_find_index_live)
  then show lt: "p < unat (nv_index_count nv)" and "p < length (nv_indices nv)"
    and eq: "nv_live nv ! p = nv_indices nv ! p"
    by (auto simp: nv_live_def)
  show "nvi_handle (nv_indices nv ! p) = h" using h eq by simp
  have "nv_live nv ! p \<in> set (nv_live nv)" using \<open>p < length (nv_live nv)\<close> by simp
  then show "nv_index_ok (nv_indices nv ! p)" using assms(1) eq by (simp add: nv_wf_def)
qed

lemma nv_map_SomeE:
  assumes "nv_wf nv" and "nv_map nv h = Some idx"
  obtains p where "nv_find_index nv h = Some p" and "idx = nv_indices nv ! p"
    and "nv_index_ok idx" and "nvi_handle idx = h"
  using assms nv_findD by (auto simp: nv_map_def)

lemma find_index_map_of:
  "(\<And>x. x \<in> set xs \<Longrightarrow> D x) \<Longrightarrow>
   map_option (\<lambda>p. xs ! p) (find_index (\<lambda>x. D x \<and> key x = k) xs) = map_of (map (\<lambda>x. (key x, x)) xs) k"
  by (induction xs) (auto simp: option.map_comp comp_def)

lemma nv_map_alist:
  assumes "nv_wf nv"
  shows "nv_map nv = map_of (map (\<lambda>x. (nvi_handle x, x)) (nv_live nv))"
proof
  fix h
  have "nv_map nv h = map_option (\<lambda>p. nv_live nv ! p) (nv_find_index nv h)"
    using nv_findD [OF assms] by (cases "nv_find_index nv h") (auto simp: nv_map_def)
  also have "\<dots> = map_of (map (\<lambda>x. (nvi_handle x, x)) (nv_live nv)) h"
    unfolding nv_find_index_live
    by (rule find_index_map_of) (use assms in \<open>auto simp: nv_wf_def nv_index_ok_def\<close>)
  finally show "nv_map nv h = map_of (map (\<lambda>x. (nvi_handle x, x)) (nv_live nv)) h" .
qed

section \<open>Changing one index in place\<close>

lemma nv_live_put: "p < unat (nv_index_count nv) \<Longrightarrow> nv_live (nv_put nv p idx) = (nv_live nv)[p := idx]"
  by (simp add: nv_live_def nv_put_def take_update_swap)

lemma nv_put_simps [simp]:
  "nv_index_count (nv_put nv p idx) = nv_index_count nv"
  "nv_locked_globally (nv_put nv p idx) = nv_locked_globally nv"
  "nv_indices (nv_put nv p idx) = (nv_indices nv)[p := idx]"
  by (simp_all add: nv_put_def)

lemma nv_put_wf:
  assumes wf: "nv_wf nv" and p: "nv_find_index nv h = Some p"
    and ok: "nv_index_ok idx" and h: "nvi_handle idx = h"
  shows "nv_wf (nv_put nv p idx)"
proof -
  note f = nv_findD [OF wf p]
  have "map nvi_handle ((nv_live nv)[p := idx]) = map nvi_handle (nv_live nv)"
    using f h by (metis list_update_id map_update)
  then show ?thesis
    using wf f ok by (auto simp: nv_wf_def nv_live_put dest!: set_update_subset_insert [THEN subsetD])
qed

lemma nv_put_map:
  assumes wf: "nv_wf nv" and p: "nv_find_index nv h = Some p"
    and ok: "nv_index_ok idx" and h: "nvi_handle idx = h"
  shows "nv_map (nv_put nv p idx) = (nv_map nv)(h \<mapsto> idx)"
proof
  fix h'
  note f = nv_findD [OF wf p] and f' = nv_findD [OF wf]
  show "nv_map (nv_put nv p idx) h' = ((nv_map nv)(h \<mapsto> idx)) h'"
  proof (cases "h' = h")
    case True
    have "nv_find_index (nv_put nv p idx) h = Some p"
      using p ok h f by (auto simp: nv_find_index_live nv_live_put nv_index_ok_def intro: find_index_update_same)
    then show ?thesis using True f by (simp add: nv_map_def)
  next
    case False
    have "p < length (nv_live nv)" using f(1) length_nv_live [OF wf] by simp
    then have "nv_find_index (nv_put nv p idx) h' = nv_find_index nv h'"
      unfolding nv_find_index_live nv_live_put [OF f(1)]
      by (rule find_index_update_other) (use False h f in auto)
    moreover have "q \<noteq> p" if "nv_find_index nv h' = Some q" for q
      using f'(4) [OF that] f(4) False by auto
    ultimately show ?thesis using False by (cases "nv_find_index nv h'") (auto simp: nv_map_def)
  qed
qed

section \<open>Definition and removal\<close>

lemma nv_define_cases:
  assumes "nv_wf nv"
  shows "(\<exists>idx. nv_define_space nv h t a ds av as pol =
      (nv\<lparr>nv_indices := (nv_indices nv)[unat (nv_index_count nv) := idx], nv_index_count := nv_index_count nv + 1\<rparr>,
       Some (nv_index_count nv))
      \<and> nv_index_ok idx \<and> nvi_handle idx = h \<and> nvi_type idx = t \<and> nvi_attributes idx = a
      \<and> nvi_data_size idx = ds \<and> nvi_data_len idx = 0 \<and> nvi_write_count idx = 0
      \<and> \<not> nvi_read_locked idx \<and> \<not> nvi_write_locked idx
      \<and> unat (nv_index_count nv) < NV_MAX_INDICES \<and> nv_map nv h = None)
    \<or> nv_define_space nv h t a ds av as pol = (nv, None)"
  by (auto simp: nv_define_space_def Let_def nv_index_ok_def nv_empty_index_def nv_map_def
      NV_MAX_INDICES_def NV_MAX_DATA_SIZE_def word_less_nat_alt split: option.splits)

lemma nv_add_slot:
  assumes wf: "nv_wf nv" and lt: "unat (nv_index_count nv) < NV_MAX_INDICES"
    and ok: "nv_index_ok idx" and new: "nv_map nv (nvi_handle idx) = None"
  defines "nv' \<equiv> nv\<lparr>nv_indices := (nv_indices nv)[unat (nv_index_count nv) := idx],
                     nv_index_count := nv_index_count nv + 1\<rparr>"
  shows "nv_wf nv'" and "nv_map nv' = (nv_map nv)(nvi_handle idx \<mapsto> idx)"
proof -
  have cnt: "unat (nv_index_count nv + 1) = Suc (unat (nv_index_count nv))"
    by (rule unat_suc) (use lt in \<open>simp add: NV_MAX_INDICES_def\<close>)
  have live: "nv_live nv' = nv_live nv @ [idx]"
    using wf lt by (simp add: nv'_def nv_live_def cnt nv_wf_def take_Suc_conv_app_nth)
  have "nvi_handle idx \<notin> set (map nvi_handle (nv_live nv))"
    using new unfolding nv_map_alist [OF wf] by (auto simp: map_of_eq_None_iff image_image)
  then show wf': "nv_wf nv'"
    using wf lt ok cnt by (auto simp: nv_wf_def live) (auto simp: nv'_def)
  show "nv_map nv' = (nv_map nv)(nvi_handle idx \<mapsto> idx)"
    using new unfolding nv_map_alist [OF wf] nv_map_alist [OF wf'] live
    by (auto simp: map_add_def fun_eq_iff split: option.splits)
qed

lemma nv_define_wf: "nv_wf nv \<Longrightarrow> nv_wf (fst (nv_define_space nv h t a ds av as pol))"
  using nv_define_cases [of nv h t a ds av as pol] nv_add_slot(1) by (metis fst_conv)

text \<open>The shift loop of the removal, cell by cell.\<close>

lemma shift_down_nth:
  assumes "p \<le> n" and "n < length xs"
  shows "length (fold (\<lambda>i xs. xs[i := xs ! (i + 1)]) [p..<n] xs) = length xs \<and>
    (\<forall>i < length xs. fold (\<lambda>i xs. xs[i := xs ! (i + 1)]) [p..<n] xs ! i
       = (if p \<le> i \<and> i < n then xs ! (i + 1) else xs ! i))"
  using assms by (induction n rule: dec_induct) (auto simp: nth_list_update)

definition nv_removed :: "NVStorage \<Rightarrow> nat \<Rightarrow> NVStorage" where
  "nv_removed nv p =
     (let count = unat (nv_index_count nv)
      in nv\<lparr>nv_indices := (fold (\<lambda>i xs. xs[i := xs ! (i + 1)]) [p..<count - 1]
              ((nv_indices nv)[p := nv_empty_index]))[count - 1 := nv_empty_index],
            nv_index_count := nv_index_count nv - 1\<rparr>)"

lemma nv_undefine_cases:
  "(\<exists>p. nv_find_index nv h = Some p \<and> nv_undefine_space nv h auth = (nv_removed nv p, True))
   \<or> nv_undefine_space nv h auth = (nv, False)"
  by (auto simp: nv_undefine_space_def nv_removed_def Let_def split: option.splits)

lemma nv_removed_count:
  "p < unat (nv_index_count nv) \<Longrightarrow>
    unat (nv_index_count (nv_removed nv p)) = unat (nv_index_count nv) - 1"
  by (simp add: nv_removed_def Let_def unat_sub_if')

lemma nv_removed_nth:
  assumes "nv_wf nv" and "p < unat (nv_index_count nv)" and "i < NV_MAX_INDICES"
  shows "nv_indices (nv_removed nv p) ! i =
    (if i < p then nv_indices nv ! i else if i < unat (nv_index_count nv) - 1 then nv_indices nv ! (i + 1)
     else nv_empty_index)"
proof -
  let ?c = "unat (nv_index_count nv)" and ?xs = "(nv_indices nv)[p := nv_empty_index]"
  have len: "length (nv_indices nv) = NV_MAX_INDICES" and c: "?c \<le> NV_MAX_INDICES"
    and rest: "\<forall>i. ?c \<le> i \<and> i < NV_MAX_INDICES \<longrightarrow> nv_indices nv ! i = nv_empty_index"
    using assms(1) by (auto simp: nv_wf_def)
  have "p \<le> ?c - 1" and "?c - 1 < length ?xs" using assms(2) c len by auto
  note shift = shift_down_nth [OF this]
  show ?thesis
    using shift assms c len rest
    by (auto simp: nv_removed_def Let_def nth_list_update)
qed

lemma nv_removed_live:
  assumes wf: "nv_wf nv" and p: "p < unat (nv_index_count nv)"
  shows "nv_live (nv_removed nv p) = take p (nv_live nv) @ drop (Suc p) (nv_live nv)"
    and "length (nv_indices (nv_removed nv p)) = NV_MAX_INDICES"
proof -
  let ?c = "unat (nv_index_count nv)" and ?xs = "(nv_indices nv)[p := nv_empty_index]"
  have len: "length (nv_indices nv) = NV_MAX_INDICES" and c: "?c \<le> NV_MAX_INDICES"
    using wf by (auto simp: nv_wf_def)
  have "p \<le> ?c - 1" and "?c - 1 < length ?xs" using p c len by auto
  note shift = shift_down_nth [OF this]
  then show l: "length (nv_indices (nv_removed nv p)) = NV_MAX_INDICES"
    using len by (simp add: nv_removed_def Let_def)
  show "nv_live (nv_removed nv p) = take p (nv_live nv) @ drop (Suc p) (nv_live nv)"
  proof (rule nth_equalityI)
    show "length (nv_live (nv_removed nv p)) = length (take p (nv_live nv) @ drop (Suc p) (nv_live nv))"
      using l len c p by (simp add: nv_live_def nv_removed_count)
    fix i
    assume "i < length (nv_live (nv_removed nv p))"
    then have i: "i < ?c - 1" by (simp add: nv_live_def nv_removed_count [OF p])
    with c have "i < NV_MAX_INDICES" by simp
    note nth = nv_removed_nth [OF wf p this]
    show "nv_live (nv_removed nv p) ! i = (take p (nv_live nv) @ drop (Suc p) (nv_live nv)) ! i"
      using i nth len c p by (simp add: nv_live_def nv_removed_count nth_append)
  qed
qed

lemma distinct_remove_nth:
  assumes "distinct ys" and "p < length ys"
  shows "distinct (take p ys @ drop (Suc p) ys)"
proof -
  have "distinct (take p ys @ ys ! p # drop (Suc p) ys)"
    using assms by (simp flip: id_take_nth_drop)
  then show ?thesis by auto
qed

lemma map_of_remove_nth:
  assumes "p < length xs" and "distinct (map fst xs)"
  shows "map_of (take p xs @ drop (Suc p) xs) = (map_of xs)(fst (xs ! p) := None)"
proof -
  have xs: "xs = take p xs @ xs ! p # drop (Suc p) xs" using assms(1) by (rule id_take_nth_drop)
  have d: "distinct (map fst (take p xs @ xs ! p # drop (Suc p) xs))" using assms(2) xs by simp
  have "map_of xs = map_of (take p xs @ xs ! p # drop (Suc p) xs)" using xs by simp
  moreover have "map_of (take p xs) (fst (xs ! p)) = None" and "map_of (drop (Suc p) xs) (fst (xs ! p)) = None"
    using d by (auto simp: map_of_eq_None_iff)
  ultimately show ?thesis
    by (auto simp: fun_eq_iff map_add_def split: option.splits)
qed

lemma nv_removed_facts:
  assumes wf: "nv_wf nv" and p: "nv_find_index nv h = Some p"
  shows "nv_wf (nv_removed nv p)" and "nv_map (nv_removed nv p) = (nv_map nv)(h := None)"
proof -
  note f = nv_findD [OF wf p]
  note live = nv_removed_live [OF wf f(1)]
  have pl: "p < length (nv_live nv)" using f(1) length_nv_live [OF wf] by simp
  have d: "distinct (map nvi_handle (nv_live nv))" using wf by (simp add: nv_wf_def)
  have "distinct (map nvi_handle (take p (nv_live nv) @ drop (Suc p) (nv_live nv)))"
    using distinct_remove_nth [OF d] pl by (simp add: take_map drop_map)
  moreover have "nv_indices (nv_removed nv p) ! i = nv_empty_index"
    if "unat (nv_index_count nv) - 1 \<le> i" "i < NV_MAX_INDICES" for i
    using nv_removed_nth [OF wf f(1) that(2)] that f(1) by auto
  ultimately show wf': "nv_wf (nv_removed nv p)"
    using wf live f(1) by (auto simp: nv_wf_def nv_removed_count dest: in_set_takeD in_set_dropD)
  show "nv_map (nv_removed nv p) = (nv_map nv)(h := None)"
    using map_of_remove_nth [of p "map (\<lambda>x. (nvi_handle x, x)) (nv_live nv)"] pl d f
    unfolding nv_map_alist [OF wf] nv_map_alist [OF wf'] live(1)
    by (simp add: take_map drop_map comp_def)
qed

section \<open>What can happen to one index\<close>

text \<open>
  The changes an operation can make to an index that stays defined.  Every successful
  operation in place is one of these steps (\<open>nv_exec_cases\<close>), so invariants of an index are
  proved by cases on this relation.
\<close>

inductive nv_change :: "NVIndex \<Rightarrow> NVIndex \<Rightarrow> bool" where
  lock_read: "a = nvi_attributes idx \<or> a = nvi_attributes idx OR NV_ATTR_READLOCKED \<Longrightarrow>
    nv_change idx (idx\<lparr>nvi_read_locked := True, nvi_attributes := a\<rparr>)"
| lock_write: "nv_change idx (idx\<lparr>nvi_write_locked := True,
    nvi_attributes := nvi_attributes idx OR NV_ATTR_WRITELOCKED\<rparr>)"
| put_data: "\<not> nvi_write_locked idx \<Longrightarrow>
    nvi_type idx \<notin> {NV_TYPE_COUNTER, NV_TYPE_EXTEND, NV_TYPE_BITFIELD} \<Longrightarrow>
    length d \<le> unat (nvi_data_size idx) \<Longrightarrow> nv_change idx (nv_store idx d)"
| count: "\<not> nvi_write_locked idx \<Longrightarrow> nvi_type idx = NV_TYPE_COUNTER \<Longrightarrow>
    nv_counter_value idx < 0xFFFFFFFF \<Longrightarrow>
    nv_change idx (nv_store idx (be32_bytes (nv_counter_value idx + 1)))"
| chain_in: "\<not> nvi_write_locked idx \<Longrightarrow> nvi_type idx = NV_TYPE_EXTEND \<Longrightarrow>
    nv_change idx (nv_store idx (sha256_hash (take 32 (nvi_data idx) @ sha256_hash d)))"
| set_bits: "\<not> nvi_write_locked idx \<Longrightarrow> nvi_type idx = NV_TYPE_BITFIELD \<Longrightarrow>
    nv_change idx (nv_store idx (be64_bytes (nv_bits_value idx OR bits)))"
| new_auth: "length a \<le> 32 \<Longrightarrow>
    nv_change idx (idx\<lparr>nvi_auth_value := blit (nvi_auth_value idx) 0 a, nvi_auth_value_size := of_nat (length a)\<rparr>)"

inductive_cases nv_changeE: "nv_change idx idx'"

lemma nv_store_simps [simp]:
  "nvi_handle (nv_store idx d) = nvi_handle idx"
  "nvi_type (nv_store idx d) = nvi_type idx"
  "nvi_defined (nv_store idx d) = nvi_defined idx"
  "nvi_write_locked (nv_store idx d) = nvi_write_locked idx"
  "nvi_read_locked (nv_store idx d) = nvi_read_locked idx"
  "nvi_data_size (nv_store idx d) = nvi_data_size idx"
  "nvi_auth_value (nv_store idx d) = nvi_auth_value idx"
  "nvi_auth_value_size (nv_store idx d) = nvi_auth_value_size idx"
  "nvi_data (nv_store idx d) = blit (nvi_data idx) 0 d"
  "nvi_data_len (nv_store idx d) = of_nat (length d)"
  by (simp_all add: nv_store_def)

lemma nv_change_frame:
  "nv_change idx idx' \<Longrightarrow>
    nvi_handle idx' = nvi_handle idx \<and> nvi_type idx' = nvi_type idx \<and> (nvi_write_locked idx \<longrightarrow>
      nvi_write_locked idx' \<and> nvi_data idx' = nvi_data idx \<and> nvi_data_len idx' = nvi_data_len idx)"
  by (erule nv_changeE) simp_all

lemma small_length_word: "n \<le> 1024 \<Longrightarrow> unat (of_nat n :: u16) = n"
  by (simp add: unat_of_nat)

lemma nv_change_ok: "nv_change idx idx' \<Longrightarrow> nv_index_ok idx \<Longrightarrow> nv_index_ok idx'"
  by (erule nv_changeE) (auto simp: nv_index_ok_def small_length_word)

lemma nv_counter_store [simp]:
  "length (nvi_data idx) = 1024 \<Longrightarrow> nv_counter_value (nv_store idx (be32_bytes w)) = w"
  by (simp add: nv_counter_value_def nth_blit) (simp add: be32_bytes_def)

lemma word_suc_le: "w < (0xFFFFFFFF :: u32) \<Longrightarrow> w \<le> w + 1"
  by (simp add: word_le_nat_alt word_less_nat_alt unat_word_ariths)

lemma nv_change_counter:
  assumes "nv_change idx idx'" and "nv_index_ok idx" and "nvi_type idx = NV_TYPE_COUNTER"
  shows "nv_counter_value idx \<le> nv_counter_value idx'"
  using assms
  by (cases rule: nv_change.cases) (auto simp: nv_index_ok_def word_suc_le, auto simp: nv_counter_value_def)

section \<open>Operations as transitions\<close>

datatype nv_op =
    Define_Space u32 NVType u32 u16 "bytes option" u16 "bytes option"
  | Undefine_Space u32 NVAuthType
  | Read u32 NVAuthType "bytes option"
  | Write u32 "bytes option" NVAuthType "bytes option"
  | Increment u32
  | Extend u32 "bytes option" NVAuthType "bytes option"
  | Set_Bits u32 u64 NVAuthType "bytes option"
  | Global_Lock
  | Read_Lock u32
  | Write_Lock u32
  | Change_Auth u32 "bytes option" "bytes option"
  | Define_Uefi_Variable u32 "bytes option" u16

fun nv_exec :: "nv_op \<Rightarrow> NVStorage \<Rightarrow> NVStorage" where
  "nv_exec (Define_Space h t a ds av as pol) nv = fst (nv_define_space nv h t a ds av as pol)"
| "nv_exec (Undefine_Space h auth) nv = fst (nv_undefine_space nv h auth)"
| "nv_exec (Read h auth av) nv = fst (nv_read nv h auth av)"
| "nv_exec (Write h d auth av) nv = fst (nv_write nv h d auth av)"
| "nv_exec (Increment h) nv = fst (nv_counter_increment nv h)"
| "nv_exec (Extend h d auth av) nv = fst (nv_extend nv h d auth av)"
| "nv_exec (Set_Bits h bits auth av) nv = fst (nv_setbits nv h bits auth av)"
| "nv_exec Global_Lock nv = nv_global_lock nv"
| "nv_exec (Read_Lock h) nv = fst (nv_read_lock nv h)"
| "nv_exec (Write_Lock h) nv = fst (nv_write_lock nv h)"
| "nv_exec (Change_Auth h old new) nv = fst (nv_change_auth nv h old new)"
| "nv_exec (Define_Uefi_Variable h name ds) nv = fst (nv_define_uefi_variable nv h name ds)"

fun nv_undefines :: "nv_op \<Rightarrow> u32 \<Rightarrow> bool" where
  "nv_undefines (Undefine_Space h auth) h' = (h = h')"
| "nv_undefines _ h' = False"

definition nv_changed_at :: "NVStorage \<Rightarrow> NVStorage \<Rightarrow> bool" where
  "nv_changed_at nv nv' \<longleftrightarrow>
     (\<exists>h p idx'. nv_find_index nv h = Some p \<and> nv' = nv_put nv p idx' \<and> nv_change (nv_indices nv ! p) idx')"

text \<open>Each operation in place leaves the storage alone or makes one change to the index it found.\<close>

lemma nv_write_access_open: "nv_check_write_access idx auth av \<Longrightarrow> \<not> nvi_write_locked idx"
  by (simp add: nv_check_write_access_def split: if_splits)

lemma nv_read_change: "fst (nv_read nv h auth av) = nv \<or> nv_changed_at nv (fst (nv_read nv h auth av))"
proof (cases "nv_find_index nv h")
  case (Some p)
  let ?i = "nv_indices nv ! p"
  have "?i\<lparr>nvi_read_locked := True\<rparr> = ?i\<lparr>nvi_read_locked := True, nvi_attributes := nvi_attributes ?i\<rparr>"
    by simp
  then have "nv_change ?i (?i\<lparr>nvi_read_locked := True\<rparr>)" by (metis nv_change.lock_read)
  then show ?thesis using Some by (auto simp: nv_read_def nv_changed_at_def Let_def)
qed (simp add: nv_read_def)

lemma nv_write_change: "fst (nv_write nv h d auth av) = nv \<or> nv_changed_at nv (fst (nv_write nv h d auth av))"
proof (cases "nv_find_index nv h")
  case (Some p)
  then show ?thesis
    by (cases d) (auto simp: nv_write_def nv_changed_at_def Let_def
        intro!: exI [of _ h] exI [of _ p] nv_change.put_data dest: nv_write_access_open)
qed (simp add: nv_write_def split: option.splits)

lemma nv_increment_change:
  "fst (nv_counter_increment nv h) = nv \<or> nv_changed_at nv (fst (nv_counter_increment nv h))"
proof (cases "nv_find_index nv h")
  case (Some p)
  then show ?thesis
    by (auto simp: nv_counter_increment_def nv_changed_at_def Let_def
        intro!: exI [of _ h] exI [of _ p] nv_change.count)
qed (simp add: nv_counter_increment_def)

lemma nv_extend_change: "fst (nv_extend nv h d auth av) = nv \<or> nv_changed_at nv (fst (nv_extend nv h d auth av))"
proof (cases "nv_find_index nv h")
  case (Some p)
  then show ?thesis
    by (cases d) (auto simp: nv_extend_def nv_changed_at_def Let_def
        intro!: exI [of _ h] exI [of _ p] nv_change.chain_in dest: nv_write_access_open)
qed (simp add: nv_extend_def split: option.splits)

lemma nv_setbits_change:
  "fst (nv_setbits nv h bits auth av) = nv \<or> nv_changed_at nv (fst (nv_setbits nv h bits auth av))"
proof (cases "nv_find_index nv h")
  case (Some p)
  then show ?thesis
    by (auto simp: nv_setbits_def nv_changed_at_def Let_def
        intro!: exI [of _ h] exI [of _ p] nv_change.set_bits dest: nv_write_access_open)
qed (simp add: nv_setbits_def)

lemma nv_lock_change:
  "fst (nv_read_lock nv h) = nv \<or> nv_changed_at nv (fst (nv_read_lock nv h))"
  "fst (nv_write_lock nv h) = nv \<or> nv_changed_at nv (fst (nv_write_lock nv h))"
  by (auto simp: nv_read_lock_def nv_write_lock_def nv_changed_at_def Let_def
      intro!: exI [of _ h] nv_change.lock_read nv_change.lock_write split: option.splits)

lemma nv_change_auth_change:
  "fst (nv_change_auth nv h old new) = nv \<or> nv_changed_at nv (fst (nv_change_auth nv h old new))"
proof (cases "nv_find_index nv h")
  case (Some p)
  then show ?thesis
    by (cases old; cases new) (auto simp: nv_change_auth_def nv_changed_at_def Let_def
        intro!: exI [of _ h] exI [of _ p] nv_change.new_auth)
qed (simp add: nv_change_auth_def split: option.splits)

lemmas nv_in_place = nv_read_change nv_write_change nv_increment_change nv_extend_change
  nv_setbits_change nv_lock_change nv_change_auth_change

section \<open>Runs\<close>

lemma nv_changed_at_facts:
  assumes wf: "nv_wf nv" and ch: "nv_changed_at nv nv'"
  shows "nv_wf nv'"
    and "\<exists>h idx idx'. nv_map nv h = Some idx \<and> nv_change idx idx' \<and> nv_map nv' = (nv_map nv)(h \<mapsto> idx')"
proof -
  from ch obtain h p idx' where p: "nv_find_index nv h = Some p" and nv': "nv' = nv_put nv p idx'"
    and c: "nv_change (nv_indices nv ! p) idx'" by (auto simp: nv_changed_at_def)
  note f = nv_findD [OF wf p]
  have ok: "nv_index_ok idx'" and h: "nvi_handle idx' = h"
    using nv_change_ok [OF c f(5)] nv_change_frame [OF c] f(4) by auto
  show "nv_wf nv'" unfolding nv' by (rule nv_put_wf [OF wf p ok h])
  have "nv_map nv h = Some (nv_indices nv ! p)" using p by (simp add: nv_map_def)
  then show "\<exists>h idx idx'. nv_map nv h = Some idx \<and> nv_change idx idx' \<and> nv_map nv' = (nv_map nv)(h \<mapsto> idx')"
    using c nv_put_map [OF wf p ok h] nv' by blast
qed

lemma nv_define_uefi_eq:
  "fst (nv_define_uefi_variable nv h name ds) = nv \<or>
   (\<exists>a av. fst (nv_define_uefi_variable nv h name ds) = fst (nv_define_space nv h NV_TYPE_ORDINARY a ds av 32 None))"
proof (cases name)
  case (Some n)
  let ?a = "NV_ATTR_PPREAD OR NV_ATTR_AUTHWRITE OR NV_ATTR_WRITTEN OR NV_ATTR_GLOBALLOCK OR NV_ATTR_ORDERLY"
  have "fst (nv_define_uefi_variable nv h name ds) = fst (nv_define_space nv h NV_TYPE_ORDINARY ?a ds (Some n) 32 None)"
    using Some by (simp add: nv_define_uefi_variable_def Let_def case_prod_beta)
  then show ?thesis by blast
qed (simp add: nv_define_uefi_variable_def)

text \<open>
  One operation: nothing, a change of one index, a new index, or the removal of one; the
  invariant is kept in every case.
\<close>

lemma nv_exec_cases:
  assumes wf: "nv_wf nv"
  shows "nv_wf (nv_exec op nv) \<and>
    (nv_map (nv_exec op nv) = nv_map nv
     \<or> (\<exists>h idx idx'. nv_map nv h = Some idx \<and> nv_change idx idx' \<and> nv_map (nv_exec op nv) = (nv_map nv)(h \<mapsto> idx'))
     \<or> (\<exists>h idx. nv_map nv h = None \<and> nv_map (nv_exec op nv) = (nv_map nv)(h \<mapsto> idx))
     \<or> (\<exists>h. nv_undefines op h \<and> nv_map (nv_exec op nv) = (nv_map nv)(h := None)))"
    (is "?wf op \<and> ?cases op")
proof -
  have in_place: "?wf op \<and> ?cases op" if "nv_exec op nv = nv \<or> nv_changed_at nv (nv_exec op nv)" for op
    using that nv_changed_at_facts [OF wf] wf by metis
  have def: "nv_wf (fst (nv_define_space nv h t a ds av as pol)) \<and>
      (nv_map (fst (nv_define_space nv h t a ds av as pol)) = nv_map nv \<or>
       (\<exists>idx. nv_map nv h = None \<and> nv_map (fst (nv_define_space nv h t a ds av as pol)) = (nv_map nv)(h \<mapsto> idx)))"
    for h t a ds av as pol
    using nv_define_cases [OF wf, of h t a ds av as pol] nv_add_slot [OF wf] wf by (metis fst_conv)
  show ?thesis
  proof (cases op)
    case (Define_Space h t a ds av as pol)
    then show ?thesis using def [of h t a ds av as pol] by auto
  next
    case (Define_Uefi_Variable h name ds)
    then show ?thesis
      using nv_define_uefi_eq [of nv h name ds] def wf by (metis nv_exec.simps(12))
  next
    case (Undefine_Space h auth)
    then show ?thesis
      using nv_undefine_cases [of nv h auth] nv_removed_facts [OF wf] wf
      by (metis fst_conv nv_exec.simps(2) nv_undefines.simps(1))
  next
    case Global_Lock
    have "nv_wf (nv_global_lock nv)" and "nv_map (nv_global_lock nv) = nv_map nv"
      using wf by (auto simp: nv_global_lock_def nv_wf_def nv_live_def nv_map_def nv_find_index_def)
    then show ?thesis using Global_Lock by simp
  qed (rule in_place, simp add: nv_in_place)+
qed

lemma nv_run_wf: "nv_wf nv \<Longrightarrow> nv_wf (fold nv_exec ops nv)"
  by (induction ops arbitrary: nv) (auto simp: nv_exec_cases)

lemma nv_exec_index:
  assumes "nv_wf nv" and "nv_map nv h = Some idx" and "\<not> nv_undefines op h"
  obtains idx' where "nv_map (nv_exec op nv) h = Some idx'" and "nv_change\<^sup>*\<^sup>* idx idx'"
  using nv_exec_cases [OF assms(1), of op] assms(2,3)
  by (metis fun_upd_apply option.distinct(1) option.inject r_into_rtranclp rtranclp.rtrancl_refl)

lemma nv_run_index:
  assumes "nv_wf nv" and "nv_map nv h = Some idx" and "\<forall>op \<in> set ops. \<not> nv_undefines op h"
  shows "\<exists>idx'. nv_map (fold nv_exec ops nv) h = Some idx' \<and> nv_change\<^sup>*\<^sup>* idx idx'"
  using assms
proof (induction ops arbitrary: nv idx)
  case Nil
  then show ?case by simp
next
  case (Cons op ops)
  obtain idx1 where i1: "nv_map (nv_exec op nv) h = Some idx1" and c: "nv_change\<^sup>*\<^sup>* idx idx1"
    by (rule nv_exec_index [OF Cons.prems(1,2), of op]) (use Cons.prems(3) in auto)
  have "nv_wf (nv_exec op nv)" using nv_exec_cases [OF Cons.prems(1)] by blast
  from Cons.IH [OF this i1] Cons.prems(3) c show ?case by (auto intro: rtranclp_trans)
qed

lemma nv_changes_locked:
  "nv_change\<^sup>*\<^sup>* idx idx' \<Longrightarrow> nvi_write_locked idx \<Longrightarrow>
    nvi_write_locked idx' \<and> nvi_data idx' = nvi_data idx \<and> nvi_data_len idx' = nvi_data_len idx"
  by (induction rule: rtranclp_induct) (auto dest: nv_change_frame)

lemma nv_changes_counter:
  "nv_change\<^sup>*\<^sup>* idx idx' \<Longrightarrow> nv_index_ok idx \<Longrightarrow> nvi_type idx = NV_TYPE_COUNTER \<Longrightarrow>
    nv_index_ok idx' \<and> nvi_type idx' = NV_TYPE_COUNTER \<and> nv_counter_value idx \<le> nv_counter_value idx'"
  by (induction rule: rtranclp_induct)
    (auto dest: nv_change_frame nv_change_ok intro: order_trans nv_change_counter)

section \<open>Results of single operations on the map\<close>

lemma nv_find_map: "nv_find_index nv h = Some p \<Longrightarrow> nv_map nv h = Some (nv_indices nv ! p)"
  by (simp add: nv_map_def)

lemma nv_write_map:
  assumes wf: "nv_wf nv" and w: "nv_write nv h (Some d) auth av = (nv', True)"
  obtains idx where "nv_map nv h = Some idx" and "nv_map nv' = (nv_map nv)(h \<mapsto> nv_store idx d)"
    and "length d \<le> unat (nvi_data_size idx)" and "nv_check_write_access idx auth av"
    and "nv_index_ok idx" and "nv_wf nv'"
proof -
  from w obtain p where p: "nv_find_index nv h = Some p"
    by (auto simp: nv_write_def split: option.splits)
  let ?idx = "nv_indices nv ! p"
  from w p have nv': "nv' = nv_put nv p (nv_store ?idx d)" and l: "length d \<le> unat (nvi_data_size ?idx)"
    and a: "nv_check_write_access ?idx auth av"
    by (auto simp: nv_write_def Let_def split: if_splits)
  note f = nv_findD [OF wf p]
  have ok: "nv_index_ok (nv_store ?idx d)"
    using f(5) l by (auto simp: nv_index_ok_def small_length_word)
  have h: "nvi_handle (nv_store ?idx d) = h" using f(4) by simp
  show thesis
    using that [OF nv_find_map [OF p]] nv' l a f(5) nv_put_map [OF wf p ok h] nv_put_wf [OF wf p ok h] by simp
qed

lemma nv_read_map:
  assumes wf: "nv_wf nv" and m: "nv_map nv h = Some idx"
  shows "snd (nv_read nv h auth av) =
    (if nv_check_read_access idx auth av then Some (take (unat (nvi_data_len idx)) (nvi_data idx)) else None)"
proof -
  from m obtain p where p: "nv_find_index nv h = Some p" and i: "idx = nv_indices nv ! p"
    by (rule nv_map_SomeE [OF wf])
  have "nv_check_read_access idx auth av \<Longrightarrow> \<not> nvi_read_locked idx"
    by (simp add: nv_check_read_access_def split: if_splits)
  then show ?thesis using p i by (auto simp: nv_read_def Let_def)
qed

lemma nv_increment_map:
  assumes wf: "nv_wf nv" and m: "nv_map nv h = Some idx"
  shows "snd (nv_counter_increment nv h) =
    (if nvi_type idx = NV_TYPE_COUNTER \<and> \<not> nvi_write_locked idx \<and> nv_counter_value idx < 0xFFFFFFFF
     then Some (nv_counter_value idx + 1) else None)"
proof -
  from m obtain p where "nv_find_index nv h = Some p" and "idx = nv_indices nv ! p"
    by (rule nv_map_SomeE [OF wf])
  then show ?thesis by (auto simp: nv_counter_increment_def Let_def)
qed

text \<open>The first index of an empty storage; closed examples start from it.\<close>

definition nv_first :: "u32 \<Rightarrow> NVType \<Rightarrow> u32 \<Rightarrow> u16 \<Rightarrow> NVStorage" where
  "nv_first h t a ds = fst (nv_define_space nv_storage_init h t a ds None 0 None)"

definition nv_first_index :: "u32 \<Rightarrow> NVType \<Rightarrow> u32 \<Rightarrow> u16 \<Rightarrow> NVIndex" where
  "nv_first_index h t a ds = nv_empty_index
     \<lparr>nvi_handle := h, nvi_type := t, nvi_attributes := a, nvi_data_size := ds, nvi_defined := True\<rparr>"

lemma nv_first_facts:
  assumes "ds \<le> 1024" and "h AND 0xFF000000 = 0x01000000"
  shows "nv_wf (nv_first h t a ds)" and "nv_map (nv_first h t a ds) = [h \<mapsto> nv_first_index h t a ds]"
    and "nv_index_ok (nv_first_index h t a ds)" and "nv_find_index (nv_first h t a ds) h = Some 0"
    and "nv_indices (nv_first h t a ds) ! 0 = nv_first_index h t a ds"
proof -
  let ?i = "nv_first_index h t a ds"
  have ds: "unat ds \<le> 1024" using assms(1) by (simp add: word_le_nat_alt)
  have f: "nv_find_index nv_storage_init h = None" for h by (simp add: nv_find_index_def nv_storage_init_def)
  have m: "nv_map nv_storage_init = Map.empty" by (simp add: nv_map_def f fun_eq_iff)
  have d: "nv_first h t a ds = nv_storage_init\<lparr>nv_indices := (nv_indices nv_storage_init)[unat (nv_index_count nv_storage_init) := ?i],
      nv_index_count := nv_index_count nv_storage_init + 1\<rparr>"
    using assms ds f by (simp add: nv_first_def nv_define_space_def nv_first_index_def Let_def NV_MAX_DATA_SIZE_def
        NV_MAX_INDICES_def) (simp add: nv_storage_init_def)
  show ok: "nv_index_ok ?i"
    using assms ds by (simp add: nv_index_ok_def nv_first_index_def nv_empty_index_def zeros_def)
  have lt: "unat (nv_index_count nv_storage_init) < NV_MAX_INDICES" by (simp add: nv_storage_init_def NV_MAX_INDICES_def)
  have n: "nv_map nv_storage_init (nvi_handle ?i) = None" by (simp add: m)
  show "nv_wf (nv_first h t a ds)" using nv_add_slot(1) [OF nv_wf_init lt ok n] d by simp
  have h: "nvi_handle ?i = h" by (simp add: nv_first_index_def)
  show "nv_map (nv_first h t a ds) = [h \<mapsto> ?i]"
    using nv_add_slot(2) [OF nv_wf_init lt ok n] d h m by simp
  show i0: "nv_indices (nv_first h t a ds) ! 0 = ?i" by (simp add: d nv_storage_init_def NV_MAX_INDICES_def)
  have "take (unat (nv_index_count (nv_first h t a ds))) (nv_indices (nv_first h t a ds)) = [?i]"
    by (simp add: d nv_storage_init_def NV_MAX_INDICES_def numeral_eq_Suc)
  then show "nv_find_index (nv_first h t a ds) h = Some 0"
    by (simp add: nv_find_index_def) (simp add: nv_first_index_def)
qed

end
