(* ===== verification/Tpm_Locality.thy ===== *)
theory Tpm_Locality
  imports Sha256
begin

text \<open>
  The TPM authorisation manager of \<open>mini-measured-boot/src/tpm_locality.c\<close>: eight session
  slots, policy digests that are extended by the policy commands, localities, and the
  dictionary-attack lockout.  \<open>tpm_policy_pcr\<close> and \<open>tpm_policy_or\<close> copy a caller-chosen
  number of digests into a stack buffer; a copy past its end is the result \<open>Overrun\<close>.
  The nonces come from \<open>rand()\<close> and are parameters.
\<close>

section \<open>State\<close>

definition MAX_SESSION_HANDLES :: nat where "MAX_SESSION_HANDLES = 8"

datatype TPMAuthType = TPM_AUTH_PASSWORD | TPM_AUTH_POLICY | TPM_AUTH_HMAC | TPM_AUTH_SESS

datatype TPM_SE = TPM_SE_HMAC | TPM_SE_POLICY | TPM_SE_TRIAL

record TPMSession =
  ts_session_handle :: u32
  ts_auth_type :: TPMAuthType
  ts_nonce_caller :: bytes
  ts_nonce_tpm :: bytes
  ts_bind_entity :: u32
  ts_session_key :: bytes
  ts_is_active :: bool
  ts_is_trial :: bool
  ts_policy_digest :: bytes
  ts_policy_approved :: bool

record TPMAuthCommand =
  tc_session_handle :: u32
  tc_nonce :: bytes
  tc_session_attributes :: u8
  tc_auth_value :: bytes
  tc_auth_value_size :: u16

record TPMAuthManager =
  am_current_locality :: u32
  am_sessions :: "TPMSession list"
  am_session_count :: u32
  am_policy :: bytes
  am_policy_is_set :: bool
  am_lockout_active :: bool
  am_lockout_counter :: u32
  am_max_auth_fail :: u32

datatype status = Refused | Accepted | Overrun

definition empty_session :: TPMSession where
  "empty_session =
     \<lparr>ts_session_handle = 0, ts_auth_type = TPM_AUTH_PASSWORD, ts_nonce_caller = zeros 32,
      ts_nonce_tpm = zeros 32, ts_bind_entity = 0, ts_session_key = zeros 32, ts_is_active = False,
      ts_is_trial = False, ts_policy_digest = zeros 32, ts_policy_approved = False\<rparr>"

section \<open>Operations\<close>

definition tpm_auth_manager_init :: TPMAuthManager where
  "tpm_auth_manager_init =
     \<lparr>am_current_locality = 0, am_sessions = replicate MAX_SESSION_HANDLES empty_session,
      am_session_count = 0, am_policy = zeros 32, am_policy_is_set = False,
      am_lockout_active = False, am_lockout_counter = 0, am_max_auth_fail = 5\<rparr>"

definition tpm_start_auth_session ::
  "TPMAuthManager \<Rightarrow> TPMAuthType \<Rightarrow> TPM_SE \<Rightarrow> bytes \<Rightarrow> bytes \<Rightarrow> TPMAuthManager \<times> u32 option" where
  "tpm_start_auth_session mgr auth_type session_type rnd_caller rnd_tpm =
     (if unat (am_session_count mgr) \<ge> MAX_SESSION_HANDLES then (mgr, None)
      else case find_index (\<lambda>s. \<not> ts_is_active s) (am_sessions mgr) of
          None \<Rightarrow> (mgr, None)
        | Some i \<Rightarrow>
            let handle = 0x03000000 + of_nat i;
                s = (am_sessions mgr ! i)
                  \<lparr>ts_session_handle := handle, ts_auth_type := auth_type, ts_is_active := True,
                   ts_is_trial := (session_type = TPM_SE_TRIAL), ts_policy_approved := False,
                   ts_bind_entity := 0, ts_nonce_caller := take 32 rnd_caller, ts_nonce_tpm := take 32 rnd_tpm\<rparr>
            in (mgr\<lparr>am_sessions := (am_sessions mgr)[i := s], am_session_count := am_session_count mgr + 1\<rparr>,
                Some handle))"

text \<open>The search every session command repeats: the first active slot with the handle.\<close>

definition tpm_find_session :: "TPMAuthManager \<Rightarrow> u32 \<Rightarrow> nat option" where
  "tpm_find_session mgr handle =
     find_index (\<lambda>s. ts_is_active s \<and> ts_session_handle s = handle) (am_sessions mgr)"

definition tpm_set_session :: "TPMAuthManager \<Rightarrow> nat \<Rightarrow> TPMSession \<Rightarrow> TPMAuthManager" where
  "tpm_set_session mgr i s = mgr\<lparr>am_sessions := (am_sessions mgr)[i := s]\<rparr>"

text \<open>
  \<open>tpm_policy_pcr\<close> hashes the digest with \<open>pcr_count\<close> PCR digests behind it, in a buffer of
  two digests; \<open>pcr_count * 32\<close> is 32-bit arithmetic.
\<close>

definition tpm_policy_pcr :: "TPMAuthManager \<Rightarrow> u32 \<Rightarrow> bytes option \<Rightarrow> u32 \<Rightarrow> TPMAuthManager \<times> status" where
  "tpm_policy_pcr mgr handle pcr_digest pcr_count =
     (case pcr_digest of None \<Rightarrow> (mgr, Refused)
      | Some d \<Rightarrow>
        (case tpm_find_session mgr handle of None \<Rightarrow> (mgr, Refused)
         | Some i \<Rightarrow>
            let s = am_sessions mgr ! i; n = unat (pcr_count * 32)
            in if 32 + n > 64 then (mgr, Overrun)
               else (tpm_set_session mgr i
                       (s\<lparr>ts_policy_digest := sha256_hash (ts_policy_digest s @ take n d)\<rparr>), Accepted)))"

definition tpm_policy_secret :: "TPMAuthManager \<Rightarrow> u32 \<Rightarrow> bytes option \<Rightarrow> TPMAuthManager \<times> bool" where
  "tpm_policy_secret mgr handle policy_ref =
     (case policy_ref of None \<Rightarrow> (mgr, False)
      | Some r \<Rightarrow>
        (case tpm_find_session mgr handle of None \<Rightarrow> (mgr, False)
         | Some i \<Rightarrow>
            let s = am_sessions mgr ! i
            in (tpm_set_session mgr i
                  (s\<lparr>ts_policy_digest := sha256_hash (ts_policy_digest s @ sha256_hash r)\<rparr>), True)))"

definition tpm_policy_password :: "TPMAuthManager \<Rightarrow> u32 \<Rightarrow> TPMAuthManager \<times> bool" where
  "tpm_policy_password mgr handle =
     (case tpm_find_session mgr handle of None \<Rightarrow> (mgr, False)
      | Some i \<Rightarrow> (tpm_set_session mgr i ((am_sessions mgr ! i)\<lparr>ts_policy_approved := True\<rparr>), True))"

text \<open>\<open>tpm_policy_or\<close> accepts up to eight digests; its buffer holds eight, its own included.\<close>

definition tpm_policy_or :: "TPMAuthManager \<Rightarrow> u32 \<Rightarrow> bytes option \<Rightarrow> u32 \<Rightarrow> TPMAuthManager \<times> status" where
  "tpm_policy_or mgr handle policy_digest count =
     (case policy_digest of None \<Rightarrow> (mgr, Refused)
      | Some d \<Rightarrow>
        if count = 0 then (mgr, Refused)
        else if count > 8 then (mgr, Refused)
        else (case tpm_find_session mgr handle of None \<Rightarrow> (mgr, Refused)
         | Some i \<Rightarrow>
            let s = am_sessions mgr ! i; n = unat (count * 32)
            in if 32 + n > 32 * 8 then (mgr, Overrun)
               else (tpm_set_session mgr i
                       (s\<lparr>ts_policy_digest := sha256_hash (ts_policy_digest s @ take n d)\<rparr>), Accepted)))"

definition tpm_flush_context :: "TPMAuthManager \<Rightarrow> u32 \<Rightarrow> TPMAuthManager \<times> bool" where
  "tpm_flush_context mgr handle =
     (case tpm_find_session mgr handle of None \<Rightarrow> (mgr, False)
      | Some i \<Rightarrow>
          ((tpm_set_session mgr i empty_session)\<lparr>am_session_count := am_session_count mgr - 1\<rparr>, True))"

definition tpm_check_auth_value :: "bytes option \<Rightarrow> bytes option \<Rightarrow> bool" where
  "tpm_check_auth_value expected provided =
     (case (expected, provided) of
        (Some e, Some p) \<Rightarrow> if length e \<noteq> length p then False else e = p
      | _ \<Rightarrow> False)"

definition tpm_set_locality :: "TPMAuthManager \<Rightarrow> u32 \<Rightarrow> TPMAuthManager \<times> bool" where
  "tpm_set_locality mgr locality =
     (if locality > 4 then (mgr, False) else (mgr\<lparr>am_current_locality := locality\<rparr>, True))"

definition tpm_get_locality :: "TPMAuthManager \<Rightarrow> u32" where
  "tpm_get_locality mgr = am_current_locality mgr"

definition tpm_authorize_command ::
  "TPMAuthManager \<Rightarrow> TPMAuthCommand option \<Rightarrow> bytes option \<Rightarrow> TPMAuthManager \<times> bool" where
  "tpm_authorize_command mgr cmd required_auth =
     (case (cmd, required_auth) of
        (Some c, Some r) \<Rightarrow>
          if am_lockout_active mgr then (mgr, False)
          else if \<not> tpm_check_auth_value (Some r) (Some (take (unat (tc_auth_value_size c)) (tc_auth_value c)))
          then let n = am_lockout_counter mgr + 1
               in (mgr\<lparr>am_lockout_counter := n,
                       am_lockout_active := (if n \<ge> am_max_auth_fail mgr then True else am_lockout_active mgr)\<rparr>, False)
          else (mgr\<lparr>am_lockout_counter := 0\<rparr>, True)
      | _ \<Rightarrow> (mgr, False))"

definition tpm_locality_to_string :: "u32 \<Rightarrow> string" where
  "tpm_locality_to_string locality =
     (if locality = 0 then ''Locality 0 (TPM access)''
      else if locality = 1 then ''Locality 1 (D-CRTM)''
      else if locality = 2 then ''Locality 2 (S-CRTM)''
      else if locality = 3 then ''Locality 3 (ACPI S3)''
      else if locality = 4 then ''Locality 4 (CPU TXT)''
      else ''Unknown Locality'')"

fun tpm_auth_type_to_string :: "TPMAuthType \<Rightarrow> string" where
  "tpm_auth_type_to_string TPM_AUTH_PASSWORD = ''Password''"
| "tpm_auth_type_to_string TPM_AUTH_POLICY = ''Policy''"
| "tpm_auth_type_to_string TPM_AUTH_HMAC = ''HMAC''"
| "tpm_auth_type_to_string TPM_AUTH_SESS = ''Session''"

section \<open>Sessions\<close>

text \<open>The session count is the number of active slots, and slot \<open>i\<close> has the handle \<open>0x03000000 + i\<close>.\<close>

definition auth_wf :: "TPMAuthManager \<Rightarrow> bool" where
  "auth_wf mgr \<longleftrightarrow>
     length (am_sessions mgr) = MAX_SESSION_HANDLES \<and>
     unat (am_session_count mgr) = length (filter ts_is_active (am_sessions mgr)) \<and>
     (\<forall>i < MAX_SESSION_HANDLES. ts_is_active (am_sessions mgr ! i) \<longrightarrow>
        ts_session_handle (am_sessions mgr ! i) = 0x03000000 + of_nat i) \<and>
     am_current_locality mgr \<le> 4"

lemma tpm_find_sessionD:
  "tpm_find_session mgr h = Some i \<Longrightarrow>
    i < length (am_sessions mgr) \<and> ts_is_active (am_sessions mgr ! i) \<and> ts_session_handle (am_sessions mgr ! i) = h"
  by (auto simp: tpm_find_session_def dest: find_index_SomeD)

lemma auth_wf_init: "auth_wf tpm_auth_manager_init"
  by (simp add: auth_wf_def tpm_auth_manager_init_def empty_session_def MAX_SESSION_HANDLES_def)

lemma auth_wf_set_session:
  assumes "auth_wf mgr" and "tpm_find_session mgr h = Some i"
    and "ts_is_active s" and "ts_session_handle s = ts_session_handle (am_sessions mgr ! i)"
  shows "auth_wf (tpm_set_session mgr i s)"
  using assms tpm_find_sessionD [OF assms(2)]
  by (auto simp: auth_wf_def tpm_set_session_def nth_list_update filter_active_keep)

lemma auth_wf_start: "auth_wf mgr \<Longrightarrow> auth_wf (fst (tpm_start_auth_session mgr a t r1 r2))"
proof (cases "snd (tpm_start_auth_session mgr a t r1 r2)")
  case None
  assume "auth_wf mgr"
  with None show ?thesis
    by (auto simp: tpm_start_auth_session_def Let_def split: option.splits if_splits)
next
  case (Some h)
  assume wf: "auth_wf mgr"
  from Some obtain i where i: "find_index (\<lambda>s. \<not> ts_is_active s) (am_sessions mgr) = Some i"
    and lt: "unat (am_session_count mgr) < MAX_SESSION_HANDLES"
    by (auto simp: tpm_start_auth_session_def Let_def split: option.splits if_splits)
  have "unat (am_session_count mgr + 1) = Suc (unat (am_session_count mgr))"
    by (rule unat_suc) (use lt in \<open>simp add: MAX_SESSION_HANDLES_def\<close>)
  then show ?thesis
    using wf i lt find_index_SomeD [OF i]
    by (auto simp: auth_wf_def tpm_start_auth_session_def Let_def nth_list_update filter_active_set)
qed

lemma auth_wf_flush: "auth_wf mgr \<Longrightarrow> auth_wf (fst (tpm_flush_context mgr h))"
proof (cases "tpm_find_session mgr h")
  case None
  assume "auth_wf mgr"
  with None show ?thesis by (simp add: tpm_flush_context_def)
next
  case (Some i)
  assume wf: "auth_wf mgr"
  note f = tpm_find_sessionD [OF Some]
  have c: "Suc (length (filter ts_is_active ((am_sessions mgr)[i := empty_session]))) = unat (am_session_count mgr)"
    using wf f filter_active_clear [of i "am_sessions mgr" ts_is_active empty_session]
    by (simp add: auth_wf_def empty_session_def)
  then have "unat (am_session_count mgr - 1) = unat (am_session_count mgr) - 1"
    by (simp add: unat_sub_if')
  then show ?thesis
    using wf f c Some
    by (auto simp: auth_wf_def tpm_flush_context_def tpm_set_session_def nth_list_update empty_session_def)
qed

lemma auth_wf_policy:
  assumes "auth_wf mgr"
  shows "auth_wf (fst (tpm_policy_pcr mgr h d n))" and "auth_wf (fst (tpm_policy_secret mgr h d))"
    and "auth_wf (fst (tpm_policy_password mgr h))" and "auth_wf (fst (tpm_policy_or mgr h d n))"
  using assms tpm_find_sessionD [of mgr h]
  by (auto simp: tpm_policy_pcr_def tpm_policy_secret_def tpm_policy_password_def tpm_policy_or_def Let_def
      intro!: auth_wf_set_session [OF assms, of h] split: option.splits)

lemma auth_wf_locality: "auth_wf mgr \<Longrightarrow> auth_wf (fst (tpm_set_locality mgr l))"
  by (auto simp: auth_wf_def tpm_set_locality_def)

lemma auth_wf_authorize: "auth_wf mgr \<Longrightarrow> auth_wf (fst (tpm_authorize_command mgr c r))"
  by (auto simp: auth_wf_def tpm_authorize_command_def Let_def split: option.splits)

section \<open>Lockout\<close>

definition wrong_attempt :: "TPMAuthCommand \<Rightarrow> bytes \<Rightarrow> bool" where
  "wrong_attempt c r \<longleftrightarrow> take (unat (tc_auth_value_size c)) (tc_auth_value c) \<noteq> r"

lemma tpm_check_auth_value_iff: "tpm_check_auth_value (Some e) (Some p) \<longleftrightarrow> e = p"
  by (auto simp: tpm_check_auth_value_def)

lemma tpm_authorize_cases:
  "tpm_authorize_command mgr (Some c) (Some r) =
     (if am_lockout_active mgr then (mgr, False)
      else if wrong_attempt c r
      then (mgr\<lparr>am_lockout_counter := am_lockout_counter mgr + 1,
                am_lockout_active := am_lockout_counter mgr + 1 \<ge> am_max_auth_fail mgr\<rparr>, False)
      else (mgr\<lparr>am_lockout_counter := 0\<rparr>, True))"
  by (auto simp: tpm_authorize_command_def tpm_check_auth_value_iff wrong_attempt_def Let_def)

definition attempt :: "TPMAuthCommand \<times> bytes \<Rightarrow> TPMAuthManager \<Rightarrow> TPMAuthManager" where
  "attempt cr mgr = fst (tpm_authorize_command mgr (Some (fst cr)) (Some (snd cr)))"

lemma attempts_locked: "am_lockout_active mgr \<Longrightarrow> fold attempt crs mgr = mgr"
  by (induction crs arbitrary: mgr) (auto simp: attempt_def tpm_authorize_cases)

text \<open>Consecutive wrong attempts count up and reach the lockout at the limit, not before.\<close>

lemma wrong_attempts_count:
  assumes "\<forall>(c, r) \<in> set crs. wrong_attempt c r" and "\<not> am_lockout_active mgr"
    and "unat (am_lockout_counter mgr) + length crs \<le> unat (am_max_auth_fail mgr)"
  shows "unat (am_lockout_counter (fold attempt crs mgr)) = unat (am_lockout_counter mgr) + length crs \<and>
    am_max_auth_fail (fold attempt crs mgr) = am_max_auth_fail mgr \<and>
    (am_lockout_active (fold attempt crs mgr) \<longleftrightarrow>
       crs \<noteq> [] \<and> unat (am_lockout_counter mgr) + length crs = unat (am_max_auth_fail mgr))"
  using assms
proof (induction crs arbitrary: mgr)
  case Nil
  then show ?case by simp
next
  case (Cons cr crs)
  obtain c r where cr: "cr = (c, r)" by (cases cr)
  let ?mgr = "attempt cr mgr"
  have "unat (am_max_auth_fail mgr) < 2 ^ 32" using unsigned_less [of "am_max_auth_fail mgr"] by simp
  then have suc: "unat (am_lockout_counter mgr + 1) = Suc (unat (am_lockout_counter mgr))"
    by (intro unat_suc) (use Cons.prems(3) in simp)
  have step: "?mgr = mgr\<lparr>am_lockout_counter := am_lockout_counter mgr + 1,
      am_lockout_active := am_lockout_counter mgr + 1 \<ge> am_max_auth_fail mgr\<rparr>"
    using Cons.prems cr by (simp add: attempt_def tpm_authorize_cases)
  show ?case
  proof (cases "am_lockout_active ?mgr")
    case True
    then have "unat (am_max_auth_fail mgr) \<le> Suc (unat (am_lockout_counter mgr))"
      using step suc by (simp add: word_le_nat_alt)
    then have "crs = []" and "unat (am_lockout_counter mgr) + 1 = unat (am_max_auth_fail mgr)"
      using Cons.prems(3) by (cases crs; simp)+
    then show ?thesis using True step suc by simp
  next
    case False
    have "\<not> unat (am_max_auth_fail mgr) \<le> Suc (unat (am_lockout_counter mgr))"
      using False step suc by (simp add: word_le_nat_alt)
    then show ?thesis
      using Cons.IH [of ?mgr] Cons.prems False step suc by auto
  qed
qed

section \<open>Runs of the interface\<close>

datatype auth_op =
    Start_Session TPMAuthType TPM_SE bytes bytes
  | Policy_Pcr u32 "bytes option" u32
  | Policy_Secret u32 "bytes option"
  | Policy_Password u32
  | Policy_Or u32 "bytes option" u32
  | Flush_Context u32
  | Set_Locality u32
  | Authorize "TPMAuthCommand option" "bytes option"

fun auth_exec :: "auth_op \<Rightarrow> TPMAuthManager \<Rightarrow> TPMAuthManager" where
  "auth_exec (Start_Session a t r1 r2) mgr = fst (tpm_start_auth_session mgr a t r1 r2)"
| "auth_exec (Policy_Pcr h d n) mgr = fst (tpm_policy_pcr mgr h d n)"
| "auth_exec (Policy_Secret h d) mgr = fst (tpm_policy_secret mgr h d)"
| "auth_exec (Policy_Password h) mgr = fst (tpm_policy_password mgr h)"
| "auth_exec (Policy_Or h d n) mgr = fst (tpm_policy_or mgr h d n)"
| "auth_exec (Flush_Context h) mgr = fst (tpm_flush_context mgr h)"
| "auth_exec (Set_Locality l) mgr = fst (tpm_set_locality mgr l)"
| "auth_exec (Authorize c r) mgr = fst (tpm_authorize_command mgr c r)"

lemma auth_run_wf: "auth_wf mgr \<Longrightarrow> auth_wf (fold auth_exec ops mgr)"
proof (induction ops arbitrary: mgr)
  case (Cons op ops)
  have "auth_wf (auth_exec op mgr)"
    using Cons.prems
    by (cases op) (simp_all add: auth_wf_start auth_wf_policy auth_wf_flush auth_wf_locality auth_wf_authorize)
  then show ?case using Cons.IH by simp
qed simp

lemma auth_exec_locked: "am_lockout_active mgr \<Longrightarrow> am_lockout_active (auth_exec op mgr)"
  by (cases op) (auto simp: tpm_start_auth_session_def tpm_policy_pcr_def tpm_policy_secret_def
      tpm_policy_password_def tpm_policy_or_def tpm_flush_context_def tpm_set_locality_def
      tpm_authorize_command_def tpm_set_session_def Let_def split: option.splits)

lemma auth_run_locked: "am_lockout_active mgr \<Longrightarrow> am_lockout_active (fold auth_exec ops mgr)"
  by (induction ops arbitrary: mgr) (simp_all add: auth_exec_locked)

text \<open>A session that starts can be found under the handle it was given.\<close>

lemma tpm_start_find:
  assumes "auth_wf mgr" and "tpm_start_auth_session mgr a t r1 r2 = (mgr', Some h)"
  shows "tpm_find_session mgr h = None" and "tpm_find_session mgr' h \<noteq> None"
proof -
  obtain i where i: "find_index (\<lambda>s. \<not> ts_is_active s) (am_sessions mgr) = Some i" "h = 0x03000000 + of_nat i"
    and m: "mgr' = fst (tpm_start_auth_session mgr a t r1 r2)"
    using assms(2) by (auto simp: tpm_start_auth_session_def Let_def split: option.splits if_splits)
  have il: "i < 8" "\<not> ts_is_active (am_sessions mgr ! i)"
    using find_index_SomeD [OF i(1)] assms(1) by (auto simp: auth_wf_def MAX_SESSION_HANDLES_def)
  have inj: "j = i" if "j < 8" "(0x03000000 :: u32) + of_nat j = 0x03000000 + of_nat i" for j
  proof -
    have "(of_nat j :: u32) = of_nat i" using that(2) by simp
    then have "unat (of_nat j :: u32) = unat (of_nat i :: u32)" by simp
    then show ?thesis using that(1) il(1) by (simp add: unat_of_nat)
  qed
  show "tpm_find_session mgr h = None"
  proof (rule ccontr)
    assume "tpm_find_session mgr h \<noteq> None"
    then obtain j where "j < 8" "ts_is_active (am_sessions mgr ! j)" "ts_session_handle (am_sessions mgr ! j) = h"
      using tpm_find_sessionD assms(1) by (metis MAX_SESSION_HANDLES_def auth_wf_def not_None_eq)
    then show False using assms(1) inj [of j] i(2) il(2) by (auto simp: auth_wf_def MAX_SESSION_HANDLES_def)
  qed
  have "am_sessions mgr' ! i \<in> set (am_sessions mgr')" "ts_is_active (am_sessions mgr' ! i)"
      "ts_session_handle (am_sessions mgr' ! i) = h"
    using assms il(1) i unfolding auth_wf_def MAX_SESSION_HANDLES_def
    by (auto simp: tpm_start_auth_session_def Let_def MAX_SESSION_HANDLES_def intro!: set_update_memI split: if_splits)
  then show "tpm_find_session mgr' h \<noteq> None"
    unfolding tpm_find_session_def find_index_None_iff by (auto simp: find_index_None_iff)
qed

end
