(* ===== verification/Boot_Memory.thy ===== *)
theory Boot_Memory
  imports Prelude "HOL-Library.Multiset"
begin

text \<open>
  The E820 memory map of \<open>mini-bootloader/src/boot_memory.c\<close>: regions with 64-bit base and
  length, sorted with \<open>qsort\<close>, merged, sanitised and queried.  The list \<open>bm_regions\<close> is the
  used part of the array of 128 (\<open>count\<close> is its length); the cells behind it are never read.
  No function of the file reads or writes the \<open>acpi_ext\<close> field, so the record leaves it out.

  C does not say in which order \<open>qsort\<close> leaves regions with equal bases, so the sort is a
  parameter \<open>srt\<close> and what the code relies on is the locale \<open>qsort_contract\<close>: a permutation,
  ordered by base.  \<open>covers\<close> reads a list of regions as the set of its addresses; the
  theorems say how the operations change that set.
\<close>

section \<open>State\<close>

definition MEMMAP_MAX_ENTRIES :: nat where "MEMMAP_MAX_ENTRIES = 128"

definition MEMTYPE_FREE :: u32 where "MEMTYPE_FREE = 1"

record MemoryRegion =
  mr_base :: u64
  mr_length :: u64
  mr_type :: u32

text \<open>The page allocator's fields are modelled in \<open>Boot_Alloc\<close>.\<close>

record BootMemoryMap =
  bm_regions :: "MemoryRegion list"
  bm_total_memory :: u64
  bm_free_memory :: u64
  bm_reserved_memory :: u64
  bm_largest_free_block :: u64

section \<open>Operations\<close>

definition bootmem_init :: BootMemoryMap where
  "bootmem_init = \<lparr>bm_regions = [], bm_total_memory = 0, bm_free_memory = 0,
     bm_reserved_memory = 0, bm_largest_free_block = 0\<rparr>"

definition bootmem_add_region :: "BootMemoryMap \<Rightarrow> u64 \<Rightarrow> u64 \<Rightarrow> u32 \<Rightarrow> BootMemoryMap \<times> bool" where
  "bootmem_add_region mm base len ty =
     (if length (bm_regions mm) \<ge> MEMMAP_MAX_ENTRIES then (mm, False)
      else if base + len < base \<and> len \<noteq> 0 then (mm, False)
      else (mm\<lparr>bm_regions := bm_regions mm @
              [\<lparr>mr_base = base, mr_length = len, mr_type = ty\<rparr>]\<rparr>, True))"

text \<open>The record is 24 bytes; the loads are those of a little-endian machine.\<close>

definition bootmem_add_e820_entry :: "BootMemoryMap \<Rightarrow> bytes option \<Rightarrow> BootMemoryMap \<times> bool" where
  "bootmem_add_e820_entry mm e820_record =
     (case e820_record of None \<Rightarrow> (mm, False)
      | Some rec \<Rightarrow> bootmem_add_region mm (le64 rec) (le64 (drop 8 rec)) (le32_at rec 16))"

definition bootmem_reserve_region :: "BootMemoryMap \<Rightarrow> u64 \<Rightarrow> u64 \<Rightarrow> u32 \<Rightarrow> BootMemoryMap \<times> bool" where
  "bootmem_reserve_region mm base sz ty = bootmem_add_region mm base sz ty"

type_synonym region_sort = "MemoryRegion list \<Rightarrow> MemoryRegion list"

definition memregion_cmp :: "MemoryRegion \<Rightarrow> MemoryRegion \<Rightarrow> int" where
  "memregion_cmp a b = (if mr_base a < mr_base b then -1 else if mr_base a > mr_base b then 1 else 0)"

definition bootmem_sort :: "region_sort \<Rightarrow> BootMemoryMap \<Rightarrow> BootMemoryMap" where
  "bootmem_sort srt mm =
     (if length (bm_regions mm) \<le> 1 then mm else mm\<lparr>bm_regions := srt (bm_regions mm)\<rparr>)"

text \<open>The merge pass: \<open>cur\<close> is \<open>regions[write_idx]\<close>, the list what is still to be read.\<close>

fun merge_scan :: "MemoryRegion \<Rightarrow> MemoryRegion list \<Rightarrow> MemoryRegion list" where
  "merge_scan cur [] = [cur]"
| "merge_scan cur (nxt # rest) =
     (if mr_type cur = mr_type nxt \<and> mr_base cur + mr_length cur = mr_base nxt
      then merge_scan (cur\<lparr>mr_length := mr_length cur + mr_length nxt\<rparr>) rest
      else cur # merge_scan nxt rest)"

definition bootmem_merge_adjacent :: "region_sort \<Rightarrow> BootMemoryMap \<Rightarrow> BootMemoryMap \<times> bool" where
  "bootmem_merge_adjacent srt mm =
     (if length (bm_regions mm) \<le> 1 then (mm, True)
      else let map1 = bootmem_sort srt mm
           in (case bm_regions map1 of
                 [] \<Rightarrow> (map1, True)
               | r # rs \<Rightarrow> (map1\<lparr>bm_regions := merge_scan r rs\<rparr>, True)))"

text \<open>One iteration of the sanitising loop; \<open>acc\<close> is \<open>regions[0 .. write_idx - 1]\<close>.\<close>

definition sanitize_step :: "MemoryRegion \<Rightarrow> MemoryRegion list \<Rightarrow> MemoryRegion list" where
  "sanitize_step cur acc =
     (if mr_length cur = 0 then acc
      else if acc = [] then acc @ [cur]
      else let prev = last acc; overlap_end = mr_base prev + mr_length prev
           in if mr_base cur < overlap_end
              then (if mr_base cur + mr_length cur > overlap_end
                    then let shift = overlap_end - mr_base cur
                         in acc @ [cur\<lparr>mr_base := mr_base cur + shift, mr_length := mr_length cur - shift\<rparr>]
                    else acc)
              else acc @ [cur])"

definition stat_step :: "MemoryRegion \<Rightarrow> BootMemoryMap \<Rightarrow> BootMemoryMap" where
  "stat_step r mm =
     (let map1 = mm\<lparr>bm_total_memory := bm_total_memory mm + mr_length r\<rparr>
      in if mr_type r = MEMTYPE_FREE
         then map1\<lparr>bm_free_memory := bm_free_memory map1 + mr_length r,
                   bm_largest_free_block :=
                     (if mr_length r > bm_largest_free_block map1 then mr_length r else bm_largest_free_block map1)\<rparr>
         else map1\<lparr>bm_reserved_memory := bm_reserved_memory map1 + mr_length r\<rparr>)"

definition bootmem_sanitize :: "region_sort \<Rightarrow> BootMemoryMap \<Rightarrow> BootMemoryMap \<times> bool" where
  "bootmem_sanitize srt mm =
     (if bm_regions mm = [] then (mm, False)
      else let map1 = bootmem_sort srt mm;
               rs = fold sanitize_step (bm_regions map1) [];
               map2 = map1\<lparr>bm_regions := rs, bm_total_memory := 0, bm_free_memory := 0,
                           bm_reserved_memory := 0, bm_largest_free_block := 0\<rparr>
           in (fold stat_step rs map2, True))"

text \<open>The loop keeps the first free region that is larger than all before it.\<close>

definition bootmem_find_largest_block :: "BootMemoryMap \<Rightarrow> (u64 \<times> u64) \<times> bool" where
  "bootmem_find_largest_block mm =
     fold (\<lambda>r ((base, sz), found).
        if mr_type r = MEMTYPE_FREE \<and> mr_length r > sz then ((mr_base r, mr_length r), True)
        else ((base, sz), found))
       (bm_regions mm) ((0, 0), False)"

definition bootmem_is_available :: "BootMemoryMap \<Rightarrow> u64 \<Rightarrow> u64 \<Rightarrow> bool" where
  "bootmem_is_available mm addr sz =
     (let e = addr + sz
      in if e < addr then False
         else find_index (\<lambda>r. mr_type r = MEMTYPE_FREE \<and> mr_base r \<le> addr \<and> mr_base r + mr_length r \<ge> e)
                (bm_regions mm) \<noteq> None)"

section \<open>Regions as sets of addresses\<close>

definition region_ok :: "MemoryRegion \<Rightarrow> bool" where
  "region_ok r \<longleftrightarrow> unat (mr_base r) + unat (mr_length r) < 2 ^ 64"

definition region_end :: "MemoryRegion \<Rightarrow> nat" where
  "region_end r = unat (mr_base r) + unat (mr_length r)"

definition covers :: "MemoryRegion list \<Rightarrow> nat set" where
  "covers rs = (\<Union>r \<in> set rs. {unat (mr_base r) ..< region_end r})"

definition covers_as :: "u32 \<Rightarrow> MemoryRegion list \<Rightarrow> nat set" where
  "covers_as t rs = covers (filter (\<lambda>r. mr_type r = t) rs)"

definition before :: "MemoryRegion \<Rightarrow> MemoryRegion \<Rightarrow> bool" where
  "before a b \<longleftrightarrow> region_end a \<le> unat (mr_base b)"

lemma covers_simps [simp]:
  "covers [] = {}" "covers (r # rs) = {unat (mr_base r) ..< region_end r} \<union> covers rs"
  "covers (rs @ rs') = covers rs \<union> covers rs'"
  by (auto simp: covers_def)

lemma covers_as_simps [simp]:
  "covers_as t [] = {}"
  "covers_as t (r # rs) = (if mr_type r = t then {unat (mr_base r) ..< region_end r} else {}) \<union> covers_as t rs"
  by (auto simp: covers_as_def)

lemma covers_mset: "mset xs = mset ys \<Longrightarrow> covers xs = covers ys"
  unfolding covers_def by (metis set_mset_mset)

lemma covers_as_mset: "mset xs = mset ys \<Longrightarrow> covers_as t xs = covers_as t ys"
  unfolding covers_as_def by (rule covers_mset) (simp add: mset_filter)

lemma unat_region_end: "region_ok r \<Longrightarrow> unat (mr_base r + mr_length r) = region_end r"
  by (simp add: region_ok_def region_end_def unat_word_ariths)

lemma region_end_bound: "region_ok r \<Longrightarrow> region_end r < 2 ^ 64"
  by (simp add: region_ok_def region_end_def)

lemma add_region_check:
  "\<not> (base + len < base \<and> len \<noteq> (0 :: u64)) \<Longrightarrow> unat base + unat len < 2 ^ 64"
proof (rule ccontr)
  assume a: "\<not> (base + len < base \<and> len \<noteq> 0)" and b: "\<not> unat base + unat len < 2 ^ 64"
  have bb: "unat base < 2 ^ 64" "unat len < 2 ^ 64"
    using unsigned_less [of base] unsigned_less [of len] by simp_all
  have "unat (base + len) = unat base + unat len - 2 ^ 64"
    using b bb by (simp add: unat_word_ariths mod_if)
  then have "base + len < base" using b bb unfolding word_less_nat_alt by linarith
  moreover have "len \<noteq> 0" using b bb by auto
  ultimately show False using a by simp
qed

lemma bootmem_add_region_ok:
  assumes "\<forall>r \<in> set (bm_regions mm). region_ok r"
  shows "\<forall>r \<in> set (bm_regions (fst (bootmem_add_region mm b l t))). region_ok r"
  using assms add_region_check [of b l] by (auto simp: bootmem_add_region_def region_ok_def)

section \<open>The sort contract\<close>

locale qsort_contract =
  fixes srt :: region_sort
  assumes mset_srt: "mset (srt rs) = mset rs"
    and sorted_srt: "sorted (map mr_base (srt rs))"
begin

lemma set_srt [simp]: "set (srt rs) = set rs"
  using mset_srt by (metis set_mset_mset)

lemma length_srt [simp]: "length (srt rs) = length rs"
  using mset_srt by (metis size_mset)

lemma sort_regions:
  "mset (bm_regions (bootmem_sort srt mm)) = mset (bm_regions mm)"
  "sorted (map mr_base (bm_regions (bootmem_sort srt mm)))"
proof -
  show "mset (bm_regions (bootmem_sort srt mm)) = mset (bm_regions mm)"
    by (simp add: bootmem_sort_def mset_srt)
  show "sorted (map mr_base (bm_regions (bootmem_sort srt mm)))"
  proof (cases "length (bm_regions mm) \<le> 1")
    case True
    then show ?thesis by (cases "bm_regions mm") (auto simp: bootmem_sort_def)
  next
    case False
    then show ?thesis by (simp add: bootmem_sort_def sorted_srt)
  qed
qed

end

text \<open>A stable sort by base satisfies the contract; closed examples use it.\<close>

definition memregion_qsort :: region_sort where
  "memregion_qsort rs = sort_key mr_base rs"

interpretation mq: qsort_contract memregion_qsort
  by unfold_locales (simp_all add: memregion_qsort_def)

section \<open>Merging\<close>

lemma merge_region:
  assumes "region_ok a" and "region_ok b" and "mr_base a + mr_length a = mr_base b"
  defines "m \<equiv> a\<lparr>mr_length := mr_length a + mr_length b\<rparr>"
  shows "region_ok m" and "region_end m = region_end b" and "region_end a = unat (mr_base b)"
proof -
  show e: "region_end a = unat (mr_base b)" using assms(1,3) unat_region_end by metis
  have "unat (mr_length a) + unat (mr_length b) < 2 ^ 64"
    using e assms(2) by (simp add: region_ok_def region_end_def)
  then have "unat (mr_length a + mr_length b) = unat (mr_length a) + unat (mr_length b)"
    by (simp add: unat_word_ariths)
  then show "region_end m = region_end b" and "region_ok m"
    using e assms(2) by (simp_all add: m_def region_end_def region_ok_def)
qed

lemma merge_span:
  assumes "region_ok a" and "region_ok b" and "mr_base a + mr_length a = mr_base b"
  defines "m \<equiv> a\<lparr>mr_length := mr_length a + mr_length b\<rparr>"
  shows "{unat (mr_base m)..<region_end m} = {unat (mr_base a)..<region_end a} \<union> {unat (mr_base b)..<region_end b}"
proof -
  have "mr_base m = mr_base a" by (simp add: m_def)
  moreover note merge_region [OF assms(1-3), folded m_def]
  moreover have "unat (mr_base a) \<le> region_end a" "unat (mr_base b) \<le> region_end b"
    by (simp_all add: region_end_def)
  ultimately show ?thesis by auto
qed

lemma merge_scan_covers:
  assumes "region_ok cur" and "\<forall>r \<in> set rest. region_ok r"
  shows "covers_as t (merge_scan cur rest) = covers_as t (cur # rest)
       \<and> (\<forall>r \<in> set (merge_scan cur rest). region_ok r)"
  using assms
proof (induction cur rest rule: merge_scan.induct)
  case (1 cur)
  then show ?case by simp
next
  case (2 cur nxt rest)
  then have ok: "region_ok cur" "region_ok nxt" by auto
  show ?case
  proof (cases "mr_type cur = mr_type nxt \<and> mr_base cur + mr_length cur = mr_base nxt")
    case True
    note adj = conjunct2 [OF True]
    note m = merge_span [OF ok adj] merge_region(1) [OF ok adj]
    have "\<forall>r \<in> set rest. region_ok r" using 2 by simp
    note ih = "2.IH"(1) [OF True m(2) this]
    show ?thesis using ih True unfolding merge_scan.simps(2) if_P [OF True] covers_as_simps m(1) by auto
  next
    case False
    have "\<forall>r \<in> set rest. region_ok r" using 2 by simp
    note ih = "2.IH"(2) [OF False ok(2) this]
    show ?thesis using ih ok unfolding merge_scan.simps(2) if_not_P [OF False] by simp
  qed
qed

text \<open>After the pass no two neighbours of one type touch.\<close>

definition touching :: "MemoryRegion \<Rightarrow> MemoryRegion \<Rightarrow> bool" where
  "touching a b \<longleftrightarrow> mr_type a = mr_type b \<and> mr_base a + mr_length a = mr_base b"

lemma merge_scan_hd: "\<exists>l rs. merge_scan cur rest = cur\<lparr>mr_length := l\<rparr> # rs"
proof (induction cur rest rule: merge_scan.induct)
  case (1 cur)
  then show ?case by (simp, metis MemoryRegion.surjective MemoryRegion.update_convs(2))
next
  case (2 cur nxt rest)
  show ?case
  proof (cases "mr_type cur = mr_type nxt \<and> mr_base cur + mr_length cur = mr_base nxt")
    case True
    then show ?thesis using "2.IH"(1) by simp
  next
    case False
    then have "merge_scan cur (nxt # rest) = cur\<lparr>mr_length := mr_length cur\<rparr> # merge_scan nxt rest" by auto
    then show ?thesis by blast
  qed
qed

lemma merge_scan_apart: "successively (\<lambda>a b. \<not> touching a b) (merge_scan cur rest)"
proof (induction cur rest rule: merge_scan.induct)
  case (1 cur)
  then show ?case by simp
next
  case (2 cur nxt rest)
  obtain l rs where m: "merge_scan nxt rest = nxt\<lparr>mr_length := l\<rparr> # rs" using merge_scan_hd by blast
  show ?case using 2 m by (auto simp: touching_def)
qed

section \<open>Sanitising\<close>

text \<open>
  The regions kept so far are non-empty, each ends before the next begins, and they cover
  what has been read.  A region whose base lies at or behind the base of the last one either
  starts behind its end, or sticks out and is trimmed, or is inside and dropped.
\<close>

definition laid_out :: "MemoryRegion list \<Rightarrow> bool" where
  "laid_out rs \<longleftrightarrow> (\<forall>r \<in> set rs. region_ok r \<and> mr_length r \<noteq> 0) \<and> sorted_wrt before rs"

lemma before_trans: "before a b \<Longrightarrow> before b c \<Longrightarrow> before a c"
  unfolding before_def region_end_def by linarith

lemma laid_out_snoc:
  assumes "laid_out acc" and "region_ok r" and "mr_length r \<noteq> 0" and "acc \<noteq> [] \<Longrightarrow> before (last acc) r"
  shows "laid_out (acc @ [r])"
proof -
  have "before a r" if "a \<in> set acc" for a
  proof (cases "a = last acc")
    case True
    then show ?thesis using assms(4) that by (metis empty_iff list.set(1))
  next
    case False
    have "acc = butlast acc @ [last acc]" using that by (metis append_butlast_last_id empty_iff list.set(1))
    then have "before a (last acc)" and "acc \<noteq> []"
      using assms(1) that False unfolding laid_out_def
      by (metis Un_iff empty_iff list.set(1) list.set(2) insert_iff set_append sorted_wrt_append, use that in auto)
    then show ?thesis using assms(4) before_trans by blast
  qed
  then show ?thesis using assms by (auto simp: laid_out_def sorted_wrt_append)
qed

lemma trimmed_region:
  assumes ok: "region_ok prev" "region_ok cur"
    and inside: "mr_base cur < mr_base prev + mr_length prev"
    and out: "mr_base cur + mr_length cur > mr_base prev + mr_length prev"
  defines "s \<equiv> mr_base prev + mr_length prev - mr_base cur"
  defines "r \<equiv> cur\<lparr>mr_base := mr_base cur + s, mr_length := mr_length cur - s\<rparr>"
  shows "unat (mr_base r) = region_end prev" and "region_end r = region_end cur"
    and "region_ok r" and "mr_length r \<noteq> 0"
proof -
  note e = unat_region_end [OF ok(1)] unat_region_end [OF ok(2)]
  have i: "unat (mr_base cur) < region_end prev" and o: "region_end prev < region_end cur"
    using inside out e by (simp_all add: word_less_nat_alt)
  have s: "unat s = region_end prev - unat (mr_base cur)"
    using i e(1) by (simp add: s_def unat_sub_if')
  have "s \<le> mr_length cur" using s o i by (simp add: word_le_nat_alt region_end_def)
  then have l: "unat (mr_length r) = region_end cur - region_end prev"
    using s o i by (simp add: r_def unat_sub region_end_def)
  show b: "unat (mr_base r) = region_end prev"
    by (simp add: r_def s_def e)
  show re: "region_end r = region_end cur" using b l o by (simp add: region_end_def [of r])
  show "region_ok r" using re region_end_bound [OF ok(2)] by (simp add: region_ok_def region_end_def)
  show "mr_length r \<noteq> 0" using l o by auto
qed

lemma sanitize_step_laid_out:
  assumes acc: "laid_out acc" and ok: "region_ok cur"
    and low: "acc \<noteq> [] \<Longrightarrow> {unat (mr_base cur)..<region_end (last acc)} \<subseteq> covers acc"
  defines "acc' \<equiv> sanitize_step cur acc"
  shows "laid_out acc' \<and> covers acc' = covers acc \<union> {unat (mr_base cur)..<region_end cur}
       \<and> (acc' \<noteq> [] \<longrightarrow> {unat (mr_base cur)..<region_end (last acc')} \<subseteq> covers acc')"
proof -
  let ?e = "mr_base (last acc) + mr_length (last acc)"
  consider (empty) "mr_length cur = 0" | (first) "mr_length cur \<noteq> 0" "acc = []"
    | (apart) "mr_length cur \<noteq> 0" "acc \<noteq> []" "\<not> mr_base cur < ?e"
    | (inside) "mr_length cur \<noteq> 0" "acc \<noteq> []" "mr_base cur < ?e" "\<not> mr_base cur + mr_length cur > ?e"
    | (out) "mr_length cur \<noteq> 0" "acc \<noteq> []" "mr_base cur < ?e" "mr_base cur + mr_length cur > ?e"
    by blast
  then show ?thesis
  proof cases
    case empty
    then show ?thesis using acc low by (simp add: acc'_def sanitize_step_def region_end_def)
  next
    case first
    then show ?thesis using ok by (simp add: acc'_def sanitize_step_def laid_out_def)
  next
    case apart
    have lok: "region_ok (last acc)" using acc apart(2) by (simp add: laid_out_def)
    have "before (last acc) cur"
      using apart(3) unat_region_end [OF lok] by (simp add: before_def word_less_nat_alt)
    then show ?thesis
      using apart laid_out_snoc [OF acc ok apart(1)] by (simp add: acc'_def sanitize_step_def Let_def)
  next
    case inside
    have lok: "region_ok (last acc)" using acc inside(2) by (simp add: laid_out_def)
    have "region_end cur \<le> region_end (last acc)"
      using inside(4) unat_region_end [OF lok] unat_region_end [OF ok] by (simp add: word_less_nat_alt)
    then have "{unat (mr_base cur)..<region_end cur} \<subseteq> covers acc" using low inside(2) by fastforce
    moreover have "acc' = acc" using inside by (simp add: acc'_def sanitize_step_def Let_def)
    ultimately show ?thesis using acc low by blast
  next
    case out
    have lok: "region_ok (last acc)" using acc out(2) by (simp add: laid_out_def)
    note t = trimmed_region [OF lok ok out(3,4)]
    have i: "unat (mr_base cur) < region_end (last acc)" "region_end (last acc) < region_end cur"
      using out(3,4) unat_region_end [OF lok] unat_region_end [OF ok] by (simp_all add: word_less_nat_alt)
    let ?r = "cur\<lparr>mr_base := mr_base cur + (?e - mr_base cur), mr_length := mr_length cur - (?e - mr_base cur)\<rparr>"
    have step: "acc' = acc @ [?r]"
      using out unfolding acc'_def sanitize_step_def Let_def by simp
    have lay: "laid_out (acc @ [?r])"
      using acc t(3,4) by (rule laid_out_snoc) (use t(1) in \<open>simp add: before_def\<close>)
    have cov: "covers (acc @ [?r]) = covers acc \<union> {region_end (last acc)..<region_end cur}"
      unfolding covers_simps t(1,2) by simp
    have split: "{unat (mr_base cur)..<region_end cur}
        = {unat (mr_base cur)..<region_end (last acc)} \<union> {region_end (last acc)..<region_end cur}"
      using i by (simp add: ivl_disj_un)
    have last: "region_end (last acc') = region_end cur" using t(2) by (simp add: step)
    show ?thesis
      using lay cov low [OF out(2)] unfolding last split unfolding step by blast
  qed
qed

lemma sanitize_fold:
  assumes "sorted (map mr_base rs)" and "\<forall>r \<in> set rs. region_ok r" and "laid_out acc"
    and "\<forall>r \<in> set rs. acc \<noteq> [] \<longrightarrow> {unat (mr_base r)..<region_end (last acc)} \<subseteq> covers acc"
  shows "laid_out (fold sanitize_step rs acc) \<and> covers (fold sanitize_step rs acc) = covers acc \<union> covers rs"
  using assms
proof (induction rs arbitrary: acc)
  case Nil
  then show ?case by simp
next
  case (Cons r rs)
  let ?a = "sanitize_step r acc"
  have st: "laid_out ?a \<and> covers ?a = covers acc \<union> {unat (mr_base r)..<region_end r}
       \<and> (?a \<noteq> [] \<longrightarrow> {unat (mr_base r)..<region_end (last ?a)} \<subseteq> covers ?a)"
    using Cons.prems by (intro sanitize_step_laid_out) auto
  have "{unat (mr_base q)..<region_end (last ?a)} \<subseteq> covers ?a" if "q \<in> set rs" "?a \<noteq> []" for q
  proof -
    have "mr_base r \<le> mr_base q" using Cons.prems(1) that(1) by auto
    then have "{unat (mr_base q)..<region_end (last ?a)} \<subseteq> {unat (mr_base r)..<region_end (last ?a)}"
      by (auto simp: word_le_nat_alt)
    then show ?thesis using st that(2) by blast
  qed
  then have "laid_out (fold sanitize_step rs ?a) \<and> covers (fold sanitize_step rs ?a) = covers ?a \<union> covers rs"
    using Cons.prems st by (intro Cons.IH) auto
  then show ?case using st by auto
qed

lemma fold_stat_step:
  "bm_regions (fold stat_step rs mm) = bm_regions mm"
  "bm_total_memory (fold stat_step rs mm) = bm_total_memory mm + sum_list (map mr_length rs)"
  "bm_free_memory (fold stat_step rs mm)
     = bm_free_memory mm + sum_list (map mr_length (filter (\<lambda>r. mr_type r = MEMTYPE_FREE) rs))"
  "bm_reserved_memory (fold stat_step rs mm)
     = bm_reserved_memory mm + sum_list (map mr_length (filter (\<lambda>r. mr_type r \<noteq> MEMTYPE_FREE) rs))"
  "bm_largest_free_block (fold stat_step rs mm)
     = fold max (map mr_length (filter (\<lambda>r. mr_type r = MEMTYPE_FREE) rs)) (bm_largest_free_block mm)"
  by (induction rs arbitrary: mm) (simp_all add: stat_step_def Let_def max_absorb1 max_absorb2)

lemma sum_list_type_split:
  "sum_list (map mr_length (filter P rs)) + sum_list (map mr_length (filter (\<lambda>r. \<not> P r) rs))
     = sum_list (map mr_length rs)"
  by (induction rs) (simp_all add: algebra_simps)

lemma laid_out_filter: "laid_out rs \<Longrightarrow> laid_out (filter P rs)"
  by (auto simp: laid_out_def sorted_wrt_filter)

lemma finite_covers [simp]: "finite (covers rs)"
  by (simp add: covers_def)

lemma covers_bound: "\<forall>r \<in> set rs. region_ok r \<Longrightarrow> covers rs \<subseteq> {..<2 ^ 64}"
  using region_end_bound unfolding covers_def by fastforce

lemma laid_out_card: "laid_out rs \<Longrightarrow> card (covers rs) = sum_list (map (\<lambda>r. unat (mr_length r)) rs)"
proof (induction rs)
  case Nil
  then show ?case by simp
next
  case (Cons r rs)
  have lo: "laid_out rs" and b: "\<forall>q \<in> set rs. before r q"
    using Cons.prems by (auto simp: laid_out_def)
  have "{unat (mr_base r)..<region_end r} \<inter> covers rs = {}"
    using b by (auto simp: covers_def before_def)
  then show ?case
    using Cons.IH [OF lo] by (simp add: card_Un_disjoint region_end_def)
qed

lemma laid_out_sum:
  assumes "laid_out rs"
  shows "unat (sum_list (map mr_length rs)) = card (covers rs)"
proof -
  have step: "unat (sum_list (map mr_length qs)) = sum_list (map (\<lambda>r. unat (mr_length r)) qs)"
    if "sum_list (map (\<lambda>r. unat (mr_length r)) qs) < 2 ^ 64" for qs
    using that by (induction qs) (simp_all add: unat_word_ariths)
  have "card (covers rs) \<le> 2 ^ 64 - 1"
  proof -
    have "covers rs \<subseteq> {..<2 ^ 64 - 1}"
      using assms unfolding laid_out_def covers_def region_ok_def region_end_def by fastforce
    then show ?thesis using card_mono [of "{..<2 ^ 64 - 1 :: nat}"] by fastforce
  qed
  then have "sum_list (map (\<lambda>r. unat (mr_length r)) rs) < 2 ^ 64"
    unfolding laid_out_card [OF assms, symmetric] by simp
  then show ?thesis using step laid_out_card [OF assms] by simp
qed

lemma fold_max_mem:
  fixes xs :: "u64 list"
  shows "\<forall>x \<in> set xs. x \<le> fold max xs a" and "a \<le> fold max xs a" and "fold max xs a = a \<or> fold max xs a \<in> set xs"
proof (induction xs arbitrary: a)
  case (Cons x xs)
  { case 1 show ?case using Cons(1,2) [of "max x a"] by auto }
  { case 2 show ?case using Cons(2) [of "max x a"] by auto }
  { case 3 show ?case using Cons(3) [of "max x a"] by (auto simp: max_def split: if_splits) }
qed simp_all

section \<open>The operations on the map\<close>

context qsort_contract
begin

lemma bootmem_sanitize_regions:
  assumes "\<forall>r \<in> set (bm_regions mm). region_ok r"
  shows "laid_out (bm_regions (fst (bootmem_sanitize srt mm)))"
    and "covers (bm_regions (fst (bootmem_sanitize srt mm))) = covers (bm_regions mm)"
proof -
  let ?rs = "bm_regions (bootmem_sort srt mm)"
  have "laid_out (fold sanitize_step ?rs []) \<and> covers (fold sanitize_step ?rs []) = covers [] \<union> covers ?rs"
  proof (rule sanitize_fold)
    show "sorted (map mr_base ?rs)" by (rule sort_regions)
    show "\<forall>r \<in> set ?rs. region_ok r" using assms sort_regions(1) [of mm] by (metis set_mset_mset)
  qed (simp_all add: laid_out_def)
  then show "laid_out (bm_regions (fst (bootmem_sanitize srt mm)))"
    and "covers (bm_regions (fst (bootmem_sanitize srt mm))) = covers (bm_regions mm)"
    using covers_mset [OF sort_regions(1) [of mm]]
    by (auto simp: bootmem_sanitize_def Let_def fold_stat_step laid_out_def)
qed

lemma bootmem_sanitize_stats:
  assumes "\<forall>r \<in> set (bm_regions mm). region_ok r" and "bm_regions mm \<noteq> []"
  defines "m' \<equiv> fst (bootmem_sanitize srt mm)"
  shows "unat (bm_total_memory m') = card (covers (bm_regions m'))"
    and "unat (bm_free_memory m') = card (covers_as MEMTYPE_FREE (bm_regions m'))"
    and "bm_free_memory m' + bm_reserved_memory m' = bm_total_memory m'"
proof -
  note lo = bootmem_sanitize_regions(1) [OF assms(1), folded m'_def]
  have st: "bm_total_memory m' = sum_list (map mr_length (bm_regions m'))"
    "bm_free_memory m' = sum_list (map mr_length (filter (\<lambda>r. mr_type r = MEMTYPE_FREE) (bm_regions m')))"
    "bm_reserved_memory m' = sum_list (map mr_length (filter (\<lambda>r. mr_type r \<noteq> MEMTYPE_FREE) (bm_regions m')))"
    using assms(2) by (simp_all add: m'_def bootmem_sanitize_def Let_def fold_stat_step)
  show "unat (bm_total_memory m') = card (covers (bm_regions m'))"
    unfolding st by (rule laid_out_sum [OF lo])
  show "unat (bm_free_memory m') = card (covers_as MEMTYPE_FREE (bm_regions m'))"
    unfolding st covers_as_def by (rule laid_out_sum [OF laid_out_filter [OF lo]])
  show "bm_free_memory m' + bm_reserved_memory m' = bm_total_memory m'"
    unfolding st by (rule sum_list_type_split)
qed

lemma bootmem_merge_regions:
  assumes "\<forall>r \<in> set (bm_regions mm). region_ok r"
  defines "m' \<equiv> fst (bootmem_merge_adjacent srt mm)"
  shows "covers_as t (bm_regions m') = covers_as t (bm_regions mm)"
    and "successively (\<lambda>a b. \<not> touching a b) (bm_regions m')"
    and "\<forall>r \<in> set (bm_regions m'). region_ok r"
proof -
  let ?rs = "bm_regions (bootmem_sort srt mm)"
  have ok: "\<forall>r \<in> set ?rs. region_ok r" using assms sort_regions(1) [of mm] by (metis set_mset_mset)
  have c: "covers_as t ?rs = covers_as t (bm_regions mm)" by (rule covers_as_mset [OF sort_regions(1)])
  have len: "length ?rs = length (bm_regions mm)" by (simp add: bootmem_sort_def)
  consider (short) "length (bm_regions mm) \<le> 1"
    | (long) r rs where "\<not> length (bm_regions mm) \<le> 1" "?rs = r # rs" "bm_regions m' = merge_scan r rs"
  proof (cases "length (bm_regions mm) \<le> 1")
    case False
    then obtain r rs where "?rs = r # rs" using len by (cases ?rs) auto
    then show ?thesis using False that(2) by (simp add: m'_def bootmem_merge_adjacent_def)
  qed (use that in blast)
  then have "covers_as t (bm_regions m') = covers_as t (bm_regions mm) \<and> successively (\<lambda>a b. \<not> touching a b) (bm_regions m') \<and> (\<forall>r \<in> set (bm_regions m'). region_ok r)"
  proof cases
    case short
    then have "m' = mm" by (simp add: m'_def bootmem_merge_adjacent_def)
    moreover have "successively (\<lambda>a b. \<not> touching a b) (bm_regions mm)"
      using short by (cases "bm_regions mm") auto
    ultimately show ?thesis using assms(1) by simp
  next
    case long
    have "region_ok r" and "\<forall>q \<in> set rs. region_ok q" using ok long(2) by auto
    from merge_scan_covers [OF this, of t] show ?thesis
      using merge_scan_apart long(2,3) c by simp
  qed
  then show "covers_as t (bm_regions m') = covers_as t (bm_regions mm)"
    and "successively (\<lambda>a b. \<not> touching a b) (bm_regions m')"
    and "\<forall>r \<in> set (bm_regions m'). region_ok r"
    by simp_all
qed

end

lemma bootmem_is_available_sound:
  assumes "\<forall>r \<in> set (bm_regions mm). region_ok r" and "bootmem_is_available mm addr n"
  shows "{unat addr ..< unat addr + unat n} \<subseteq> covers_as MEMTYPE_FREE (bm_regions mm)"
proof -
  have no: "\<not> addr + n < addr" using assms(2) by (simp add: bootmem_is_available_def Let_def split: if_splits)
  have e: "unat (addr + n) = unat addr + unat n"
    using add_region_check [of addr n] no by (simp add: unat_word_ariths)
  have "find_index (\<lambda>r. mr_type r = MEMTYPE_FREE \<and> mr_base r \<le> addr \<and> mr_base r + mr_length r \<ge> addr + n)
      (bm_regions mm) \<noteq> None"
    using assms(2) no by (simp add: bootmem_is_available_def Let_def)
  then obtain r where r: "r \<in> set (bm_regions mm)" "mr_type r = MEMTYPE_FREE" "mr_base r \<le> addr"
      "addr + n \<le> mr_base r + mr_length r"
    unfolding find_index_None_iff by blast
  have "unat addr + unat n \<le> region_end r"
    using r(4) e unat_region_end assms(1) r(1) by (metis word_le_nat_alt)
  then have "{unat addr ..< unat addr + unat n} \<subseteq> {unat (mr_base r)..<region_end r}"
    using r(3) by (auto simp: word_le_nat_alt)
  then show ?thesis using r(1,2) by (auto simp: covers_as_def covers_def)
qed

end
