(* ===== verification/Boot_Alloc.thy ===== *)
theory Boot_Alloc
  imports Prelude
begin

text \<open>
  The first-fit page allocator of \<open>mini-bootloader/src/boot_memory.c\<close>: the allocator fields of
  \<open>BootMemoryMap\<close>, one bit per 4096-byte page.  Page indices are natural numbers; the
  \<open>uint32_t\<close> arithmetic that can wrap (the loop bound \<open>total_pages - num_pages\<close>, the end of a
  range to free) is written on words.  An access outside the bitmap or an oversized shift is
  the result \<open>Undefined\<close>, a loop that does not end the result \<open>Diverges\<close>; an index runs out of
  the bitmap long before it could pass \<open>2 ^ 32\<close>.
\<close>

section \<open>State\<close>

definition BOOTMEM_PAGE_SIZE :: u64 where "BOOTMEM_PAGE_SIZE = 4096"
definition BOOTMEM_MIN_PAGES :: u64 where "BOOTMEM_MIN_PAGES = 64"
definition BOOTMEM_MAX_PAGES :: u32 where "BOOTMEM_MAX_PAGES = 65536"

record BootPages =
  bp_page_bitmap :: "bytes option"
  bp_page_bitmap_size :: u32
  bp_heap_base :: u64
  bp_heap_size :: u64
  bp_total_pages :: u32
  bp_free_pages :: u32

section \<open>Bitmap\<close>

definition bitmap_set :: "bytes \<Rightarrow> nat \<Rightarrow> bool \<Rightarrow> bytes" where
  "bitmap_set bitmap idx val =
     (if val then bitmap[idx div 8 := bitmap ! (idx div 8) OR push_bit (idx mod 8) 1]
      else bitmap[idx div 8 := bitmap ! (idx div 8) AND NOT (push_bit (idx mod 8) 1)])"

definition bitmap_test :: "bytes \<Rightarrow> nat \<Rightarrow> bool" where
  "bitmap_test bitmap idx \<longleftrightarrow> bitmap ! (idx div 8) AND push_bit (idx mod 8) 1 \<noteq> 0"

text \<open>The loops \<open>for (j = 0; j < num_pages; j++) bitmap_set(bitmap, i + j, val)\<close>.\<close>

definition bitmap_set_range :: "bytes \<Rightarrow> nat \<Rightarrow> nat \<Rightarrow> bool \<Rightarrow> bytes" where
  "bitmap_set_range bitmap i n val = fold (\<lambda>j bm. bitmap_set bm (i + j) val) [0..<n] bitmap"

section \<open>Operations\<close>

text \<open>\<open>calloc\<close> may fail: \<open>granted\<close> says whether it returned memory.\<close>

definition bootmem_init_allocator :: "bool \<Rightarrow> BootPages \<Rightarrow> u64 \<Rightarrow> u64 \<Rightarrow> BootPages \<times> bool" where
  "bootmem_init_allocator granted st heap_base heap_size =
     (if heap_size < BOOTMEM_PAGE_SIZE * BOOTMEM_MIN_PAGES then (st, False)
      else let total0 = ucast (heap_size div BOOTMEM_PAGE_SIZE);
               total = (if total0 > BOOTMEM_MAX_PAGES then BOOTMEM_MAX_PAGES else total0);
               bsize = (total + 7) div 8;
               st1 = st\<lparr>bp_heap_base := heap_base, bp_heap_size := heap_size, bp_total_pages := total,
                        bp_page_bitmap_size := bsize,
                        bp_page_bitmap := (if granted then Some (zeros (unat bsize)) else None)\<rparr>
           in if \<not> granted then (st1, False) else (st1\<lparr>bp_free_pages := total\<rparr>, True))"

text \<open>The inner loop: \<open>Run_Used j\<close> is the first used page, \<open>Run_Beyond\<close> a read outside the bitmap.\<close>

datatype run = Run_Free | Run_Used nat | Run_Beyond

fun page_run :: "bytes \<Rightarrow> nat \<Rightarrow> nat \<Rightarrow> nat \<Rightarrow> run" where
  "page_run bitmap i j 0 = Run_Free"
| "page_run bitmap i j (Suc k) =
     (if (i + j) div 8 \<ge> length bitmap then Run_Beyond
      else if bitmap_test bitmap (i + j) then Run_Used j
      else page_run bitmap i (j + 1) k)"

text \<open>The outer loop from \<open>i\<close>: the first fit, with the skip over the used page.\<close>

function alloc_scan :: "bytes \<Rightarrow> nat \<Rightarrow> nat \<Rightarrow> nat \<Rightarrow> nat option c_result" where
  "alloc_scan bitmap n bound i =
     (if i > bound then Returned None
      else (case page_run bitmap i 0 n of
              Run_Free \<Rightarrow> Returned (Some i)
            | Run_Used j \<Rightarrow> alloc_scan bitmap n bound (i + j + 1)
            | Run_Beyond \<Rightarrow> Undefined))"
  by pat_completeness auto
termination by (relation "measure (\<lambda>(bitmap, n, bound, i). bound + 1 - i)") auto

declare alloc_scan.simps [simp del]

definition page_addr :: "BootPages \<Rightarrow> nat \<Rightarrow> u64" where
  "page_addr st i = bp_heap_base st + of_nat i * BOOTMEM_PAGE_SIZE"

definition bootmem_alloc_pages :: "BootPages \<Rightarrow> u32 \<Rightarrow> BootPages \<times> u64 c_result" where
  "bootmem_alloc_pages st num_pages =
     (case bp_page_bitmap st of None \<Rightarrow> (st, Returned 0)
      | Some bm \<Rightarrow>
          if num_pages = 0 then (st, Returned 0)
          else if num_pages > bp_free_pages st then (st, Returned 0)
          else (case alloc_scan bm (unat num_pages) (unat (bp_total_pages st - num_pages)) 0 of
                  Returned None \<Rightarrow> (st, Returned 0)
                | Returned (Some i) \<Rightarrow>
                    (st\<lparr>bp_page_bitmap := Some (bitmap_set_range bm i (unat num_pages) True),
                        bp_free_pages := bp_free_pages st - num_pages\<rparr>, Returned (page_addr st i))
                | Undefined \<Rightarrow> (st, Undefined)
                | Diverges \<Rightarrow> (st, Diverges)))"

definition bootmem_free_pages :: "BootPages \<Rightarrow> u64 \<Rightarrow> u32 \<Rightarrow> BootPages \<times> bool c_result" where
  "bootmem_free_pages st addr num_pages =
     (case bp_page_bitmap st of None \<Rightarrow> (st, Returned False)
      | Some bm \<Rightarrow>
          if num_pages = 0 then (st, Returned False)
          else if addr < bp_heap_base st then (st, Returned False)
          else let page_idx = ucast ((addr - bp_heap_base st) div BOOTMEM_PAGE_SIZE) :: u32
               in if page_idx + num_pages > bp_total_pages st then (st, Returned False)
                  else if unat page_idx + unat num_pages > 8 * length bm then (st, Undefined)
                  else (st\<lparr>bp_page_bitmap := Some (bitmap_set_range bm (unat page_idx) (unat num_pages) False),
                           bp_free_pages := bp_free_pages st + num_pages\<rparr>, Returned True))"

text \<open>
  The aligned search has no skip.  With \<open>num_pages > total_pages\<close> its bound wraps; when it is
  the largest \<open>uint32_t\<close> the loop condition is always true.
\<close>

function aligned_scan :: "BootPages \<Rightarrow> bytes \<Rightarrow> u64 \<Rightarrow> nat \<Rightarrow> nat \<Rightarrow> nat \<Rightarrow> nat option c_result" where
  "aligned_scan st bitmap align_mask n bound i =
     (if i > bound then (if bound = 2 ^ 32 - 1 then Diverges else Returned None)
      else if page_addr st i AND align_mask \<noteq> 0 then aligned_scan st bitmap align_mask n bound (i + 1)
      else (case page_run bitmap i 0 n of
              Run_Free \<Rightarrow> Returned (Some i)
            | Run_Used j \<Rightarrow> aligned_scan st bitmap align_mask n bound (i + 1)
            | Run_Beyond \<Rightarrow> Undefined))"
  by pat_completeness auto
termination by (relation "measure (\<lambda>(st, bitmap, align_mask, n, bound, i). bound + 1 - i)") auto

declare aligned_scan.simps [simp del]

definition bootmem_alloc_aligned :: "BootPages \<Rightarrow> u32 \<Rightarrow> u32 \<Rightarrow> BootPages \<times> u64 c_result" where
  "bootmem_alloc_aligned st num_pages align_log2 =
     (case bp_page_bitmap st of None \<Rightarrow> (st, Returned 0)
      | Some bm \<Rightarrow>
          if num_pages = 0 then (st, Returned 0)
          else if align_log2 \<ge> 64 then (st, Undefined)
          else (case aligned_scan st bm (push_bit (unat align_log2) 1 - 1) (unat num_pages)
                       (unat (bp_total_pages st - num_pages)) 0 of
                  Returned None \<Rightarrow> (st, Returned 0)
                | Returned (Some i) \<Rightarrow>
                    (st\<lparr>bp_page_bitmap := Some (bitmap_set_range bm i (unat num_pages) True),
                        bp_free_pages := bp_free_pages st - num_pages\<rparr>, Returned (page_addr st i))
                | Undefined \<Rightarrow> (st, Undefined)
                | Diverges \<Rightarrow> (st, Diverges)))"

section \<open>Bitmaps as sets\<close>

locale bitmap =
  fixes setb :: "'m \<Rightarrow> nat \<Rightarrow> bool \<Rightarrow> 'm" and testb :: "'m \<Rightarrow> nat \<Rightarrow> bool" and capacity :: "'m \<Rightarrow> nat"
  assumes test_set: "i < capacity m \<Longrightarrow> j < capacity m \<Longrightarrow> testb (setb m i v) j = (if i = j then v else testb m j)"
    and capacity_set: "capacity (setb m i v) = capacity m"
begin

lemma set_range:
  assumes "i + n \<le> capacity m"
  shows "capacity (fold (\<lambda>j m. setb m (i + j) v) [0..<n] m) = capacity m \<and>
    (\<forall>q < capacity m. testb (fold (\<lambda>j m. setb m (i + j) v) [0..<n] m) q = (if i \<le> q \<and> q < i + n then v else testb m q))"
  using assms by (induction n) (auto simp: test_set capacity_set less_Suc_eq)

end

lemma bitmap_test_bit: "bitmap_test bm i \<longleftrightarrow> bit (bm ! (i div 8)) (i mod 8)"
  by (simp add: bitmap_test_def bit_iff_and_push_bit_not_eq_0)

lemma page_split: "i div 8 = j div 8 \<Longrightarrow> i mod 8 = j mod 8 \<Longrightarrow> i = (j :: nat)"
  by (metis div_mult_mod_eq)

lemma page_in_bitmap: "(i :: nat) < 8 * n \<longleftrightarrow> i div 8 < n"
  by (simp add: div_less_iff_less_mult mult.commute)

interpretation pages: bitmap bitmap_set bitmap_test "\<lambda>bm. 8 * length bm"
proof
  fix i j :: nat and m :: bytes and v
  assume i: "i < 8 * length m" and j: "j < 8 * length m"
  show "bitmap_test (bitmap_set m i v) j = (if i = j then v else bitmap_test m j)"
    using i j page_split [of i j]
    by (auto simp: bitmap_test_bit bitmap_set_def page_in_bitmap nth_list_update bit_simps
        simp flip: set_bit_eq_or unset_bit_eq_and_not)
qed (simp add: bitmap_set_def)

lemma bitmap_set_range_facts:
  assumes "i + n \<le> 8 * length bm"
  shows "length (bitmap_set_range bm i n v) = length bm"
    and "q < 8 * length bm \<Longrightarrow> bitmap_test (bitmap_set_range bm i n v) q = (if i \<le> q \<and> q < i + n then v else bitmap_test bm q)"
  using pages.set_range [OF assms, of v] by (simp_all add: bitmap_set_range_def)

section \<open>First fit\<close>

definition free_run :: "bytes \<Rightarrow> nat \<Rightarrow> nat \<Rightarrow> bool" where
  "free_run bm i n \<longleftrightarrow> (\<forall>p. i \<le> p \<and> p < i + n \<longrightarrow> \<not> bitmap_test bm p)"

text \<open>The answer a first-fit search from \<open>i\<close> up to \<open>bound\<close> has to give.\<close>

definition first_fit :: "bytes \<Rightarrow> nat \<Rightarrow> nat \<Rightarrow> nat \<Rightarrow> nat option \<Rightarrow> bool" where
  "first_fit bm n bound i res \<longleftrightarrow>
     (case res of
        None \<Rightarrow> \<forall>m. i \<le> m \<and> m \<le> bound \<longrightarrow> \<not> free_run bm m n
      | Some k \<Rightarrow> i \<le> k \<and> k \<le> bound \<and> free_run bm k n \<and> (\<forall>m. i \<le> m \<and> m < k \<longrightarrow> \<not> free_run bm m n))"

lemma page_run_cases:
  assumes "i + j + k \<le> 8 * length bm"
  shows "(page_run bm i j k = Run_Free \<and> free_run bm (i + j) k)
    \<or> (\<exists>m. page_run bm i j k = Run_Used m \<and> j \<le> m \<and> m < j + k \<and> bitmap_test bm (i + m))"
  using assms
proof (induction bm i j k rule: page_run.induct)
  case (1 bm i j)
  then show ?case by (auto simp: free_run_def)
next
  case (2 bm i j k)
  have "(i + j) div 8 < length bm" using 2(2) by (simp flip: page_in_bitmap)
  then have in_map: "\<not> length bm \<le> (i + j) div 8" by simp
  show ?case
  proof (cases "bitmap_test bm (i + j)")
    case True
    then show ?thesis using in_map by auto
  next
    case False
    have "free_run bm (i + j) (Suc k)" if "free_run bm (i + (j + 1)) k"
      using that False unfolding free_run_def by (metis Suc_leI add.assoc add_Suc_right le_neq_implies_less plus_1_eq_Suc add.commute)
    then show ?thesis using "2.IH" [OF in_map False] 2(2) in_map False by auto
  qed
qed

lemma used_blocks_runs:
  "bitmap_test bm (i + m) \<Longrightarrow> m < n \<Longrightarrow> i \<le> q \<Longrightarrow> q \<le> i + m \<Longrightarrow> \<not> free_run bm q n"
  unfolding free_run_def by (metis add_less_mono1 le_add_diff_inverse2 nat_add_left_cancel_less order.strict_trans1 add.commute add_mono_thms_linordered_field(3))

lemma alloc_scan_first_fit:
  assumes "bound + n \<le> 8 * length bm"
  shows "\<exists>res. alloc_scan bm n bound i = Returned res \<and> first_fit bm n bound i res"
  using assms
proof (induction bm n bound i rule: alloc_scan.induct)
  case (1 bm n bound i)
  show ?case
  proof (cases "bound < i")
    case True
    then show ?thesis by (auto simp: alloc_scan.simps first_fit_def)
  next
    case False
    then have "i + 0 + n \<le> 8 * length bm" using 1(2) by simp
    from page_run_cases [OF this] show ?thesis
    proof (elim disjE conjE exE)
      assume "page_run bm i 0 n = Run_Free" "free_run bm (i + 0) n"
      then show ?thesis using False by (auto simp: alloc_scan.simps [of bm n bound i] first_fit_def)
    next
      fix m assume r: "page_run bm i 0 n = Run_Used m" and m: "m < 0 + n" and t: "bitmap_test bm (i + m)"
      obtain res where res: "alloc_scan bm n bound (i + m + 1) = Returned res" "first_fit bm n bound (i + m + 1) res"
        using 1(1) [OF False r 1(2)] by auto
      have no: "\<not> free_run bm q n" if "i \<le> q" "q < i + m + 1" for q
        using used_blocks_runs [OF t _ that(1)] m that(2) by simp
      have "first_fit bm n bound i res"
        using res(2) no unfolding first_fit_def by (cases res) (force simp: not_le)+
      then show ?thesis using res(1) r False by (simp add: alloc_scan.simps [of bm n bound i])
    qed
  qed
qed

section \<open>The allocator as a set of pages\<close>

definition used_pages :: "BootPages \<Rightarrow> nat set" where
  "used_pages st =
     (case bp_page_bitmap st of None \<Rightarrow> {}
      | Some bm \<Rightarrow> {p. p < unat (bp_total_pages st) \<and> bitmap_test bm p})"

definition pages_wf :: "BootPages \<Rightarrow> bool" where
  "pages_wf st \<longleftrightarrow>
     (\<exists>bm. bp_page_bitmap st = Some bm \<and> unat (bp_total_pages st) \<le> 8 * length bm) \<and>
     unat (bp_free_pages st) + card (used_pages st) = unat (bp_total_pages st)"

lemma used_pages_bound: "used_pages st \<subseteq> {..<unat (bp_total_pages st)}"
  by (auto simp: used_pages_def split: option.splits)

lemma finite_used_pages [simp]: "finite (used_pages st)"
  using used_pages_bound finite_subset by blast

lemma zeros_bitmap_test: "p < 8 * n \<Longrightarrow> \<not> bitmap_test (zeros n) p"
  by (simp add: bitmap_test_bit zeros_def page_in_bitmap)

lemma pages_wf_init:
  assumes "bootmem_init_allocator True st b s = (st', True)"
  shows "pages_wf st'" and "used_pages st' = {}"
proof -
  define t :: u32 where "t = (if ucast (s div BOOTMEM_PAGE_SIZE) > BOOTMEM_MAX_PAGES then BOOTMEM_MAX_PAGES
      else ucast (s div BOOTMEM_PAGE_SIZE))"
  have le: "unat t \<le> 65536"
    by (simp add: t_def BOOTMEM_MAX_PAGES_def word_less_nat_alt not_less)
  have st: "bp_page_bitmap st' = Some (zeros (unat ((t + 7) div 8)))" "bp_total_pages st' = t" "bp_free_pages st' = t"
    using assms by (auto simp: bootmem_init_allocator_def Let_def t_def split: if_splits)
  have "unat ((t + 7) div 8) = (unat t + 7) div 8" using le by (simp add: unat_div unat_word_ariths)
  then have sz: "unat t \<le> 8 * unat ((t + 7) div 8)" by linarith
  show u: "used_pages st' = {}"
    using st zeros_bitmap_test sz by (auto simp: used_pages_def)
  show "pages_wf st'" using st sz u by (simp add: pages_wf_def zeros_def)
qed

lemma alloc_pages_cases:
  assumes wf: "pages_wf st" and n: "0 < unat n" "unat n \<le> unat (bp_free_pages st)"
  obtains bm res where "bp_page_bitmap st = Some bm"
    and "alloc_scan bm (unat n) (unat (bp_total_pages st - n)) 0 = Returned res"
    and "first_fit bm (unat n) (unat (bp_total_pages st) - unat n) 0 res"
    and "unat (bp_total_pages st) \<le> 8 * length bm" and "unat n \<le> unat (bp_total_pages st)"
proof -
  obtain bm where bm: "bp_page_bitmap st = Some bm" "unat (bp_total_pages st) \<le> 8 * length bm"
    using wf by (auto simp: pages_wf_def)
  have le: "unat n \<le> unat (bp_total_pages st)" using wf n by (simp add: pages_wf_def)
  then have b: "unat (bp_total_pages st - n) = unat (bp_total_pages st) - unat n"
    by (simp add: unat_sub word_le_nat_alt)
  then show ?thesis
    using that bm le alloc_scan_first_fit [of "unat (bp_total_pages st) - unat n" "unat n" bm 0] by auto
qed

lemma mark_pages:
  assumes bm: "bp_page_bitmap st = Some bm" "unat (bp_total_pages st) \<le> 8 * length bm"
    and i: "i + n \<le> unat (bp_total_pages st)"
  shows "used_pages (st\<lparr>bp_page_bitmap := Some (bitmap_set_range bm i n v), bp_free_pages := f\<rparr>)
    = (if v then used_pages st \<union> {i..<i + n} else used_pages st - {i..<i + n})"
proof -
  have r: "i + n \<le> 8 * length bm" using bm(2) i by simp
  show ?thesis using bitmap_set_range_facts(2) [OF r] bm i by (auto simp: used_pages_def split: if_splits)
qed

lemma alloc_pages_facts:
  assumes wf: "pages_wf st" and n: "0 < unat n" "unat n \<le> unat (bp_free_pages st)"
  shows "(\<exists>i. i + unat n \<le> unat (bp_total_pages st) \<and> {i..<i + unat n} \<inter> used_pages st = {}
      \<and> (\<forall>m < i. {m..<m + unat n} \<inter> used_pages st \<noteq> {})
      \<and> snd (bootmem_alloc_pages st n) = Returned (page_addr st i)
      \<and> used_pages (fst (bootmem_alloc_pages st n)) = used_pages st \<union> {i..<i + unat n})
    \<or> (\<forall>m. m + unat n \<le> unat (bp_total_pages st) \<longrightarrow> {m..<m + unat n} \<inter> used_pages st \<noteq> {})
      \<and> bootmem_alloc_pages st n = (st, Returned 0)"
proof -
  obtain bm res where c: "bp_page_bitmap st = Some bm"
      "alloc_scan bm (unat n) (unat (bp_total_pages st - n)) 0 = Returned res"
      "first_fit bm (unat n) (unat (bp_total_pages st) - unat n) 0 res"
      "unat (bp_total_pages st) \<le> 8 * length bm" "unat n \<le> unat (bp_total_pages st)"
    using alloc_pages_cases [OF assms] by metis
  have run: "free_run bm m (unat n) \<longleftrightarrow> {m..<m + unat n} \<inter> used_pages st = {}"
    if "m + unat n \<le> unat (bp_total_pages st)" for m
    using that c(1) by (auto simp: free_run_def used_pages_def)
  have nz: "n \<noteq> 0" "\<not> bp_free_pages st < n" using n by (auto simp: word_less_nat_alt)
  show ?thesis
  proof (cases res)
    case None
    have "{m..<m + unat n} \<inter> used_pages st \<noteq> {}" if "m + unat n \<le> unat (bp_total_pages st)" for m
      using that c(3) None run [OF that] by (auto simp: first_fit_def)
    then show ?thesis using None c nz by (auto simp: bootmem_alloc_pages_def)
  next
    case (Some i)
    have i: "i + unat n \<le> unat (bp_total_pages st)" using c(3,5) Some by (auto simp: first_fit_def)
    have al: "bootmem_alloc_pages st n =
        (st\<lparr>bp_page_bitmap := Some (bitmap_set_range bm i (unat n) True), bp_free_pages := bp_free_pages st - n\<rparr>,
         Returned (page_addr st i))"
      using c nz Some by (simp add: bootmem_alloc_pages_def)
    have "{m..<m + unat n} \<inter> used_pages st \<noteq> {}" if "m < i" for m
      using c(3) Some run [of m] that i by (auto simp: first_fit_def)
    moreover have "{i..<i + unat n} \<inter> used_pages st = {}"
      using c(3) Some run [OF i] by (simp add: first_fit_def)
    ultimately show ?thesis
      using i mark_pages [OF c(1,4) i, where v = True and f = "bp_free_pages st - n"] unfolding al by auto
  qed
qed

lemma alloc_pages_free_count:
  assumes "pages_wf st" and "0 < unat n" "unat n \<le> unat (bp_free_pages st)"
    and "used_pages (fst (bootmem_alloc_pages st n)) = used_pages st \<union> {i..<i + unat n}"
    and "{i..<i + unat n} \<inter> used_pages st = {}"
  shows "bp_free_pages (fst (bootmem_alloc_pages st n)) = bp_free_pages st - n"
proof -
  have "used_pages st \<noteq> used_pages st \<union> {i..<i + unat n}" using assms(2,5) by fastforce
  then have "fst (bootmem_alloc_pages st n) \<noteq> st" using assms(4) by metis
  then show ?thesis
    by (auto simp: bootmem_alloc_pages_def split: option.splits c_result.splits)
qed

lemma alloc_pages_static:
  "bp_total_pages (fst (bootmem_alloc_pages st n)) = bp_total_pages st"
  "bp_heap_base (fst (bootmem_alloc_pages st n)) = bp_heap_base st"
  by (auto simp: bootmem_alloc_pages_def split: option.splits c_result.splits)


lemma pages_wf_alloc:
  assumes wf: "pages_wf st"
  shows "pages_wf (fst (bootmem_alloc_pages st n))"
proof (cases "0 < unat n \<and> unat n \<le> unat (bp_free_pages st)")
  case True
  then have n: "0 < unat n" "unat n \<le> unat (bp_free_pages st)" by auto
  let ?st' = "fst (bootmem_alloc_pages st n)"
  from alloc_pages_facts [OF wf n] show ?thesis
  proof (elim disjE exE conjE)
    fix i
    assume i: "{i..<i + unat n} \<inter> used_pages st = {}" "used_pages ?st' = used_pages st \<union> {i..<i + unat n}"
      "i + unat n \<le> unat (bp_total_pages st)"
    have f: "unat (bp_free_pages ?st') = unat (bp_free_pages st) - unat n"
      using alloc_pages_free_count [OF wf n i(2,1)] n by (simp add: unat_sub word_le_nat_alt)
    have c: "card (used_pages ?st') = card (used_pages st) + unat n"
      using i(1,2) by (simp add: card_Un_disjoint Int_commute)
    obtain bm where bm: "bp_page_bitmap st = Some bm" "unat (bp_total_pages st) \<le> 8 * length bm"
      using wf by (auto simp: pages_wf_def)
    have "\<exists>bm'. bp_page_bitmap ?st' = Some bm' \<and> unat (bp_total_pages ?st') \<le> 8 * length bm'"
    proof -
      obtain b res where "bp_page_bitmap st = Some b"
          "alloc_scan b (unat n) (unat (bp_total_pages st - n)) 0 = Returned res"
          "first_fit b (unat n) (unat (bp_total_pages st) - unat n) 0 res"
          "unat (bp_total_pages st) \<le> 8 * length b" "unat n \<le> unat (bp_total_pages st)"
        using alloc_pages_cases [OF wf n] by metis
      moreover then have "length (bitmap_set_range b k (unat n) True) = length b" if "res = Some k" for k
        using that by (intro bitmap_set_range_facts(1)) (auto simp: first_fit_def)
      ultimately show ?thesis using bm by (cases res) (auto simp: bootmem_alloc_pages_def)
    qed
    then show ?thesis using wf f c n by (simp add: pages_wf_def alloc_pages_static)
  next
    assume "bootmem_alloc_pages st n = (st, Returned 0)"
    then show ?thesis using wf by simp
  qed
next
  case False
  then have "fst (bootmem_alloc_pages st n) = st"
    by (auto simp: bootmem_alloc_pages_def word_less_nat_alt unat_eq_0 split: option.splits)
  then show ?thesis using wf by simp
qed

section \<open>Freeing\<close>

lemma page_addr_index:
  assumes "unat (bp_heap_base st) + 4096 * unat (bp_total_pages st) < 2 ^ 64" and "i < unat (bp_total_pages st)"
  shows "bp_heap_base st \<le> page_addr st i"
    and "(ucast ((page_addr st i - bp_heap_base st) div BOOTMEM_PAGE_SIZE) :: u32) = of_nat i"
proof -
  have i: "i < 2 ^ 32" using assms(2) unat_u32_bound [of "bp_total_pages st"] by simp
  have m: "unat (of_nat i * BOOTMEM_PAGE_SIZE) = 4096 * i"
    using i by (simp add: BOOTMEM_PAGE_SIZE_def unat_word_ariths unat_of_nat)
  have a: "unat (page_addr st i) = unat (bp_heap_base st) + 4096 * i"
    using assms unfolding page_addr_def by (simp add: unat_word_ariths(1) m)
  show "bp_heap_base st \<le> page_addr st i" by (simp add: word_le_nat_alt a)
  have "page_addr st i - bp_heap_base st = of_nat i * BOOTMEM_PAGE_SIZE" by (simp add: page_addr_def)
  then have "unat ((page_addr st i - bp_heap_base st) div BOOTMEM_PAGE_SIZE) = i"
    using m by (simp add: unat_div BOOTMEM_PAGE_SIZE_def)
  then show "(ucast ((page_addr st i - bp_heap_base st) div BOOTMEM_PAGE_SIZE) :: u32) = of_nat i"
    using i by (simp add: word_unat_eq_iff unsigned_ucast_eq take_bit_eq_mod unat_of_nat)
qed

lemma free_pages_facts:
  assumes wf: "pages_wf st" and fits: "unat (bp_heap_base st) + 4096 * unat (bp_total_pages st) < 2 ^ 64"
    and n: "0 < unat n" and i: "i + unat n \<le> unat (bp_total_pages st)"
  shows "snd (bootmem_free_pages st (page_addr st i) n) = Returned True"
    and "used_pages (fst (bootmem_free_pages st (page_addr st i) n)) = used_pages st - {i..<i + unat n}"
    and "{i..<i + unat n} \<subseteq> used_pages st \<Longrightarrow> pages_wf (fst (bootmem_free_pages st (page_addr st i) n))"
    and "bp_free_pages (fst (bootmem_free_pages st (page_addr st i) n)) = bp_free_pages st + n"
proof -
  obtain bm where bm: "bp_page_bitmap st = Some bm" "unat (bp_total_pages st) \<le> 8 * length bm"
    using wf by (auto simp: pages_wf_def)
  have il: "i < unat (bp_total_pages st)" using n i by simp
  note pa = page_addr_index [OF fits il]
  have ui: "unat (of_nat i :: u32) = i"
    using il unat_u32_bound [of "bp_total_pages st"] by (simp add: unat_of_nat)
  have sum: "unat ((of_nat i :: u32) + n) = i + unat n"
    using i unat_u32_bound [of "bp_total_pages st"] by (simp add: unat_word_ariths(1) ui)
  have f: "bootmem_free_pages st (page_addr st i) n =
      (st\<lparr>bp_page_bitmap := Some (bitmap_set_range bm i (unat n) False), bp_free_pages := bp_free_pages st + n\<rparr>,
       Returned True)"
    using bm pa n i ui sum
    by (auto simp: bootmem_free_pages_def Let_def word_le_nat_alt word_less_nat_alt)
  show "snd (bootmem_free_pages st (page_addr st i) n) = Returned True"
    and "bp_free_pages (fst (bootmem_free_pages st (page_addr st i) n)) = bp_free_pages st + n"
    by (simp_all add: f)
  show u: "used_pages (fst (bootmem_free_pages st (page_addr st i) n)) = used_pages st - {i..<i + unat n}"
    unfolding f using mark_pages [OF bm i, where v = False] by simp
  show "pages_wf (fst (bootmem_free_pages st (page_addr st i) n))" if sub: "{i..<i + unat n} \<subseteq> used_pages st"
  proof -
    have c: "card (used_pages st - {i..<i + unat n}) + unat n = card (used_pages st)"
      using sub card_mono [OF _ sub] by (simp add: card_Diff_subset)
    have "length (bitmap_set_range bm i (unat n) False) = length bm"
      using bm(2) i by (intro bitmap_set_range_facts(1)) simp
    moreover have "unat (bp_free_pages st + n) = unat (bp_free_pages st) + unat n"
      using wf c unat_u32_bound [of "bp_total_pages st"] by (simp add: pages_wf_def unat_word_ariths(1))
    ultimately show ?thesis
      using wf u c bm unfolding pages_wf_def by (auto simp: f)
  qed
qed

text \<open>One block of 64 pages at 1 MB; closed examples use it.\<close>

definition example_pages :: BootPages where
  "example_pages = fst (bootmem_init_allocator True
     \<lparr>bp_page_bitmap = None, bp_page_bitmap_size = 0, bp_heap_base = 0, bp_heap_size = 0, bp_total_pages = 0,
      bp_free_pages = 0\<rparr> 0x100000 0x40000)"

lemma example_pages_facts:
  "pages_wf example_pages" "used_pages example_pages = {}" "bp_total_pages example_pages = 64"
  "bp_free_pages example_pages = 64" "bp_heap_base example_pages = 0x100000"
  "bp_page_bitmap example_pages = Some (zeros 8)"
proof -
  let ?st = "\<lparr>bp_page_bitmap = None, bp_page_bitmap_size = 0, bp_heap_base = 0, bp_heap_size = 0, bp_total_pages = 0,
      bp_free_pages = 0\<rparr>"
  have e: "bootmem_init_allocator True ?st 0x100000 0x40000 = (example_pages, True)"
    by (simp add: example_pages_def bootmem_init_allocator_def BOOTMEM_PAGE_SIZE_def BOOTMEM_MIN_PAGES_def Let_def)
  show "pages_wf example_pages" "used_pages example_pages = {}" using pages_wf_init [OF e] by simp_all
  show "bp_total_pages example_pages = 64" "bp_free_pages example_pages = 64" "bp_heap_base example_pages = 0x100000"
    "bp_page_bitmap example_pages = Some (zeros 8)"
    by (simp_all add: example_pages_def bootmem_init_allocator_def BOOTMEM_PAGE_SIZE_def BOOTMEM_MIN_PAGES_def
        BOOTMEM_MAX_PAGES_def Let_def)
qed

end
