(* ===== verification/Boot_Secure.thy ===== *)
theory Boot_Secure
  imports Boot_Sha256 Digest
begin

text \<open>
  Measured boot and certificate checks of \<open>mini-bootloader/src/boot_secure.c\<close>.  Its names clash
  with those of the measured-boot library, so the definitions here have the prefix \<open>boot_\<close>.
  C strings are HOL strings, \<open>NULL\<close> is \<open>None\<close>, a buffer with its length is one list.
\<close>

section \<open>State\<close>

definition BOOTSEC_MAX_PCR :: nat where "BOOTSEC_MAX_PCR = 24"

definition BOOTSEC_MAX_EVENTS :: nat where "BOOTSEC_MAX_EVENTS = 128"

record BootPCRBank =
  bp_pcrs :: "bytes list"
  bp_initialized :: "bool list"

record BootMeasureEvent =
  bme_pcr_index :: u32
  bme_digest :: bytes
  bme_event_desc :: string
  bme_event_type :: u32

record BootMeasureLog =
  bml_events :: "BootMeasureEvent list"
  bml_event_count :: u32
  bml_pcr_bank :: BootPCRBank

record BootSignature =
  bs_sig_r :: bytes
  bs_sig_s :: bytes
  bs_sig_len :: u32

record BootCertificate =
  bc_modulus :: bytes
  bc_exponent :: bytes
  bc_key_size :: u32
  bc_subject :: string
  bc_issuer :: string
  bc_trusted :: bool

section \<open>Operations\<close>

definition boot_sha256_verify :: "bytes \<Rightarrow> bytes \<Rightarrow> bool" where
  "boot_sha256_verify data expected \<longleftrightarrow> boot_sha256_hash data = take 32 expected"

definition boot_pcr_bank_init :: BootPCRBank where
  "boot_pcr_bank_init =
     \<lparr>bp_pcrs = replicate BOOTSEC_MAX_PCR (zeros 32), bp_initialized = replicate BOOTSEC_MAX_PCR False\<rparr>"

definition boot_pcr_extend :: "BootPCRBank \<Rightarrow> u32 \<Rightarrow> bytes option \<Rightarrow> BootPCRBank \<times> bool" where
  "boot_pcr_extend bank pcr_index digest =
     (case digest of None \<Rightarrow> (bank, False)
      | Some d \<Rightarrow>
          if pcr_index \<ge> of_nat BOOTSEC_MAX_PCR then (bank, False)
          else let i = unat pcr_index; cat = bp_pcrs bank ! i @ take 32 d
               in (bank\<lparr>bp_pcrs := (bp_pcrs bank)[i := boot_sha256_hash cat],
                        bp_initialized := (bp_initialized bank)[i := True]\<rparr>, True))"

definition boot_pcr_verify :: "BootPCRBank \<Rightarrow> u32 \<Rightarrow> bytes option \<Rightarrow> bool" where
  "boot_pcr_verify bank pcr_index expected =
     (case expected of None \<Rightarrow> False
      | Some e \<Rightarrow>
          if pcr_index \<ge> of_nat BOOTSEC_MAX_PCR \<or> \<not> bp_initialized bank ! unat pcr_index then False
          else bp_pcrs bank ! unat pcr_index = take 32 e)"

definition boot_empty_event :: BootMeasureEvent where
  "boot_empty_event = \<lparr>bme_pcr_index = 0, bme_digest = zeros 32, bme_event_desc = [], bme_event_type = 0\<rparr>"

definition boot_measure_init :: BootMeasureLog where
  "boot_measure_init =
     \<lparr>bml_events = replicate BOOTSEC_MAX_EVENTS boot_empty_event, bml_event_count = 0,
      bml_pcr_bank = boot_pcr_bank_init\<rparr>"

text \<open>The slot is written before the extend; when that fails the count stays, so it is not part of the log.\<close>

definition boot_measure_event ::
  "BootMeasureLog \<Rightarrow> u32 \<Rightarrow> bytes option \<Rightarrow> string option \<Rightarrow> u32 \<Rightarrow> BootMeasureLog \<times> bool" where
  "boot_measure_event log pcr_index data desc event_type =
     (case (data, desc) of
        (Some d, Some s) \<Rightarrow>
          if bml_event_count log \<ge> of_nat BOOTSEC_MAX_EVENTS then (log, False)
          else let evt = \<lparr>bme_pcr_index = pcr_index, bme_digest = boot_sha256_hash d,
                          bme_event_desc = take 127 s, bme_event_type = event_type\<rparr>;
                   log1 = log\<lparr>bml_events := (bml_events log)[unat (bml_event_count log) := evt]\<rparr>;
                   (bank, ok) = boot_pcr_extend (bml_pcr_bank log1) pcr_index (Some (bme_digest evt))
               in if \<not> ok then (log1, False)
                  else (log1\<lparr>bml_pcr_bank := bank, bml_event_count := bml_event_count log1 + 1\<rparr>, True)
      | _ \<Rightarrow> (log, False))"

definition boot_measure_verify :: "BootMeasureLog \<Rightarrow> u32 \<Rightarrow> bytes option \<Rightarrow> bool" where
  "boot_measure_verify log pcr_index expected = boot_pcr_verify (bml_pcr_bank log) pcr_index expected"

definition boot_cert_init :: BootCertificate where
  "boot_cert_init =
     \<lparr>bc_modulus = zeros 256, bc_exponent = zeros 4, bc_key_size = 0, bc_subject = [], bc_issuer = [],
      bc_trusted = False\<rparr>"

definition boot_cert_verify_signature ::
  "BootCertificate option \<Rightarrow> bytes option \<Rightarrow> BootSignature option \<Rightarrow> bool" where
  "boot_cert_verify_signature cert hash sig =
     (case (cert, hash, sig) of
        (Some c, Some h, Some s) \<Rightarrow>
          if \<not> bc_trusted c then False
          else if bc_key_size c < 256 then False
          else list_ex (\<lambda>i. bs_sig_r s ! i \<noteq> 0 \<or> bs_sig_s s ! i \<noteq> 0) [0..<min (unat (bs_sig_len s)) 256]
      | _ \<Rightarrow> False)"

definition boot_cert_check_chain :: "BootCertificate list option \<Rightarrow> bool" where
  "boot_cert_check_chain chn =
     (case chn of None \<Rightarrow> False
      | Some cs \<Rightarrow>
          if length cs = 0 then False
          else list_all (\<lambda>i. bc_trusted (cs ! i) \<and> (i > 0 \<longrightarrow> bc_issuer (cs ! (i - 1)) = bc_subject (cs ! i)))
                 [0..<length cs])"

definition boot_verify_memory_range :: "bytes option \<Rightarrow> bytes option \<Rightarrow> bool" where
  "boot_verify_memory_range data expected =
     (case (data, expected) of
        (Some d, Some e) \<Rightarrow> if length d = 0 then False else boot_sha256_verify d e
      | _ \<Rightarrow> False)"

text \<open>
  \<open>boot_verify_file\<close> sees the world through \<open>fopen\<close>, \<open>malloc\<close> and \<open>fread\<close>: \<open>None\<close> is a file
  that does not open, \<open>Some (contents, ok)\<close> one with these contents, where \<open>ok\<close> says that the
  buffer was allocated and the read delivered all of it.  The length is cast to 32 bits.
\<close>

definition boot_verify_file :: "(bytes \<times> bool) option \<Rightarrow> bytes option \<Rightarrow> bool" where
  "boot_verify_file file expected_hash =
     (case (file, expected_hash) of
        (Some (contents, ok), Some e) \<Rightarrow>
          if length contents = 0 then False
          else if \<not> ok then False
          else boot_sha256_verify (take (length contents mod 2 ^ 32) contents) e
      | _ \<Rightarrow> False)"

section \<open>The registers\<close>

definition boot_bank_wf :: "BootPCRBank \<Rightarrow> bool" where
  "boot_bank_wf bank \<longleftrightarrow>
     length (bp_pcrs bank) = 24 \<and> length (bp_initialized bank) = 24 \<and> (\<forall>p \<in> set (bp_pcrs bank). length p = 32)"

definition boot_pcr_measure :: "BootPCRBank \<Rightarrow> nat \<Rightarrow> bytes \<Rightarrow> BootPCRBank" where
  "boot_pcr_measure bank i d = (if i < 24 then fst (boot_pcr_extend bank (of_nat i) (Some d)) else bank)"

lemma length_boot_sha256 [simp]: "length (boot_sha256_hash d) = 32"
  by (simp add: boot_sha256_hash_correct)

lemma boot_pcr_measure_eq:
  "boot_pcr_measure bank i d =
    (if i < 24 then bank\<lparr>bp_pcrs := (bp_pcrs bank)[i := boot_sha256_hash (bp_pcrs bank ! i @ take 32 d)],
                         bp_initialized := (bp_initialized bank)[i := True]\<rparr> else bank)"
proof (cases "i < 24")
  case True
  then have "unat (of_nat i :: u32) = i" by (simp add: unat_of_nat)
  then show ?thesis
    using True by (simp add: boot_pcr_measure_def boot_pcr_extend_def BOOTSEC_MAX_PCR_def Let_def word_le_nat_alt)
qed (simp add: boot_pcr_measure_def)

interpretation bsha: digest_fn boot_sha256_hash
  by unfold_locales simp

interpretation bpcrs: registers boot_sha256_hash boot_pcr_measure "\<lambda>b i. bp_pcrs b ! i" boot_bank_wf
    "\<lambda>d. d" "\<lambda>d. length d = 32"
proof
  fix b i x assume "boot_bank_wf b"
  then show "boot_bank_wf (boot_pcr_measure b i x)"
    by (auto simp: boot_pcr_measure_eq boot_bank_wf_def dest: set_update_subset_insert [THEN subsetD])
next
  fix b and j i :: nat and x assume "boot_bank_wf b" "j < 24" "i \<noteq> j"
  then show "bp_pcrs (boot_pcr_measure b i x) ! j = bp_pcrs b ! j"
    by (simp add: boot_pcr_measure_eq)
qed (auto simp: boot_pcr_measure_eq boot_bank_wf_def)

lemma boot_extend_measure:
  "unat i < 24 \<Longrightarrow> boot_pcr_extend bank i (Some d) = (boot_pcr_measure bank (unat i) d, True)"
  by (simp add: boot_pcr_measure_eq boot_pcr_extend_def BOOTSEC_MAX_PCR_def Let_def word_le_nat_alt)

section \<open>The log explains the bank\<close>

definition boot_log_entries :: "BootMeasureLog \<Rightarrow> (nat \<times> bytes) list" where
  "boot_log_entries log =
     map (\<lambda>e. (unat (bme_pcr_index e), bme_digest e)) (take (unat (bml_event_count log)) (bml_events log))"

definition boot_log_digests :: "BootMeasureLog \<Rightarrow> nat \<Rightarrow> bytes list" where
  "boot_log_digests log j = map snd (filter (\<lambda>(i, d). i = j) (boot_log_entries log))"

definition boot_log_wf :: "BootMeasureLog \<Rightarrow> bool" where
  "boot_log_wf log \<longleftrightarrow>
     length (bml_events log) = 128 \<and> unat (bml_event_count log) \<le> 128 \<and>
     (\<forall>(i, d) \<in> set (boot_log_entries log). length d = 32) \<and>
     bml_pcr_bank log = fold (\<lambda>(i, d) b. boot_pcr_measure b i d) (boot_log_entries log) boot_pcr_bank_init \<and>
     (\<forall>j < 24. bp_initialized (bml_pcr_bank log) ! j \<longleftrightarrow> boot_log_digests log j \<noteq> [])"

lemma boot_log_wf_init: "boot_log_wf boot_measure_init"
  by (simp add: boot_log_wf_def boot_measure_init_def boot_log_entries_def boot_log_digests_def
      boot_pcr_bank_init_def BOOTSEC_MAX_EVENTS_def BOOTSEC_MAX_PCR_def)

lemma boot_bank_wf_init: "boot_bank_wf boot_pcr_bank_init"
  by (simp add: boot_bank_wf_def boot_pcr_bank_init_def BOOTSEC_MAX_PCR_def)

lemma boot_measure_event_cases:
  assumes "length (bml_events log) = 128" and "boot_measure_event log i d s t = (log', ok)"
  shows "if ok
    then \<exists>x y. d = Some x \<and> s = Some y \<and> unat i < 24 \<and> unat (bml_event_count log) < 128
      \<and> unat (bml_event_count log') = Suc (unat (bml_event_count log))
      \<and> boot_log_entries log' = boot_log_entries log @ [(unat i, boot_sha256_hash x)]
      \<and> bml_pcr_bank log' = boot_pcr_measure (bml_pcr_bank log) (unat i) (boot_sha256_hash x)
      \<and> length (bml_events log') = 128
    else boot_log_entries log' = boot_log_entries log \<and> bml_pcr_bank log' = bml_pcr_bank log
      \<and> bml_event_count log' = bml_event_count log \<and> length (bml_events log') = 128"
proof (cases "d = None \<or> s = None \<or> bml_event_count log \<ge> 128")
  case True
  then show ?thesis
    using assms by (auto simp: boot_measure_event_def BOOTSEC_MAX_EVENTS_def split: option.splits)
next
  case False
  then obtain x y where xy: "d = Some x" "s = Some y" by auto
  have lt: "unat (bml_event_count log) < 128" using False by (simp add: word_le_nat_alt)
  then have suc: "unat (bml_event_count log + 1) = Suc (unat (bml_event_count log))"
    by (intro unat_suc) simp
  show ?thesis
  proof (cases "unat i < 24")
    case True
    then show ?thesis
      using assms xy False lt suc
      by (auto simp: boot_measure_event_def BOOTSEC_MAX_EVENTS_def boot_extend_measure Let_def boot_log_entries_def
          take_Suc_conv_app_nth)
  next
    case off: False
    then have "boot_pcr_extend b i (Some z) = (b, False)" for b z
      by (simp add: boot_pcr_extend_def BOOTSEC_MAX_PCR_def word_le_nat_alt)
    then show ?thesis
      using assms xy False by (auto simp: boot_measure_event_def BOOTSEC_MAX_EVENTS_def Let_def boot_log_entries_def)
  qed
qed

lemma boot_log_wf_event:
  assumes wf: "boot_log_wf log"
  shows "boot_log_wf (fst (boot_measure_event log i d s t))"
proof -
  obtain log' ok where e: "boot_measure_event log i d s t = (log', ok)" by fastforce
  have len: "length (bml_events log) = 128" using wf by (simp add: boot_log_wf_def)
  note c = boot_measure_event_cases [OF len e]
  show ?thesis
  proof (cases ok)
    case True
    then obtain x where x: "boot_log_entries log' = boot_log_entries log @ [(unat i, boot_sha256_hash x)]"
        "bml_pcr_bank log' = boot_pcr_measure (bml_pcr_bank log) (unat i) (boot_sha256_hash x)"
        "unat i < 24" "unat (bml_event_count log') \<le> 128" "length (bml_events log') = 128"
      using c by auto
    have il: "length (bp_initialized (bml_pcr_bank log)) = 24"
      using wf bpcrs.wf_replay [OF boot_bank_wf_init, of "boot_log_entries log"]
      by (simp add: boot_log_wf_def boot_bank_wf_def)
    have ini: "bp_initialized (bml_pcr_bank log') ! j \<longleftrightarrow> boot_log_digests log' j \<noteq> []" if "j < 24" for j
      using that wf x il by (auto simp: boot_pcr_measure_eq boot_log_digests_def boot_log_wf_def nth_list_update)
    then show ?thesis using wf x by (simp add: boot_log_wf_def e)
  next
    case False
    then have "boot_log_entries log' = boot_log_entries log" "bml_pcr_bank log' = bml_pcr_bank log"
      "bml_event_count log' = bml_event_count log" "length (bml_events log') = 128"
      using c by simp_all
    then show ?thesis using wf unfolding boot_log_wf_def boot_log_digests_def e fst_conv by metis
  qed
qed

lemma boot_log_value:
  assumes "boot_log_wf log" and "j < 24"
  shows "bp_pcrs (bml_pcr_bank log) ! j = chain boot_sha256_hash (zeros 32) (boot_log_digests log j)"
  using bpcrs.reg_replay [OF boot_bank_wf_init assms(2), of "boot_log_entries log"] assms
  by (auto simp: boot_log_wf_def boot_log_digests_def boot_pcr_bank_init_def BOOTSEC_MAX_PCR_def comp_def)

lemma boot_measure_verify_iff:
  assumes "boot_log_wf log"
  shows "boot_measure_verify log i (Some e) \<longleftrightarrow> unat i < 24 \<and> boot_log_digests log (unat i) \<noteq> []
    \<and> take 32 e = chain boot_sha256_hash (zeros 32) (boot_log_digests log (unat i))"
proof (cases "unat i < 24")
  case True
  then show ?thesis
    using assms boot_log_value [OF assms True]
    by (auto simp: boot_measure_verify_def boot_pcr_verify_def BOOTSEC_MAX_PCR_def word_le_nat_alt boot_log_wf_def)
next
  case False
  then show ?thesis
    by (simp add: boot_measure_verify_def boot_pcr_verify_def BOOTSEC_MAX_PCR_def word_le_nat_alt)
qed

definition measure_all :: "(u32 \<times> bytes option \<times> string option \<times> u32) list \<Rightarrow> BootMeasureLog \<Rightarrow> BootMeasureLog" where
  "measure_all evs log = fold (\<lambda>(i, d, s, t) l. fst (boot_measure_event l i d s t)) evs log"

lemma boot_log_wf_run: "boot_log_wf log \<Longrightarrow> boot_log_wf (measure_all evs log)"
  unfolding measure_all_def by (induction evs arbitrary: log) (auto simp: boot_log_wf_event)

section \<open>Certificate chains\<close>

lemma boot_cert_check_chain_iff:
  "boot_cert_check_chain (Some cs) \<longleftrightarrow>
     cs \<noteq> [] \<and> (\<forall>c \<in> set cs. bc_trusted c) \<and> successively (\<lambda>a b. bc_issuer a = bc_subject b) cs"
proof -
  have "successively (\<lambda>a b. bc_issuer a = bc_subject b) cs
      \<longleftrightarrow> (\<forall>i < length cs. i > 0 \<longrightarrow> bc_issuer (cs ! (i - 1)) = bc_subject (cs ! i))"
    unfolding successively_conv_nth by (metis Suc_diff_1 diff_Suc_1 zero_less_Suc)
  then show ?thesis
    by (auto simp: boot_cert_check_chain_def list_all_iff all_set_conv_all_nth)
qed

end
