(* ===== verification/Boot_Compress.thy ===== *)
theory Boot_Compress
  imports Prelude
begin

text \<open>
  Decompression of \<open>mini-bootloader/src/boot_compress.c\<close>: LZ77 tokens, run-length pairs, the
  gzip header, the DEFLATE tables and stored blocks, and the bzImage driver.

  The two token decoders fill a buffer from its start, so the model's state is the list of
  bytes written so far; cells behind it keep what they held.  The DEFLATE context keeps its
  32-bit positions as words.  Its input buffer is a list of \<open>input_size\<close> bytes.
\<close>

section \<open>LZ77\<close>

record LZ77Token =
  lz_length :: u16
  lz_distance :: u16
  lz_literal :: u8
  lz_is_literal :: bool

fun lz77_copy :: "nat \<Rightarrow> nat \<Rightarrow> nat \<Rightarrow> bytes \<Rightarrow> bytes \<times> bool" where
  "lz77_copy distance max_out 0 out = (out, True)"
| "lz77_copy distance max_out (Suc n) out =
     (if length out \<ge> max_out then (out, False)
      else lz77_copy distance max_out n (out @ [out ! (length out - distance)]))"

fun lz77_loop :: "nat \<Rightarrow> LZ77Token list \<Rightarrow> bytes \<Rightarrow> bytes \<times> bool" where
  "lz77_loop max_out [] out = (out, True)"
| "lz77_loop max_out (t # ts) out =
     (if lz_is_literal t
      then if length out \<ge> max_out then (out, False) else lz77_loop max_out ts (out @ [lz_literal t])
      else let len = unat (lz_length t); distance = unat (lz_distance t)
           in if distance = 0 \<or> distance > length out then (out, False)
              else (case lz77_copy distance max_out len out of
                      (out', ok) \<Rightarrow> if ok then lz77_loop max_out ts out' else (out', False)))"

text \<open>The bytes written and, on success, the value stored in \<open>*output_size\<close>.\<close>

definition lz77_decompress :: "LZ77Token list option \<Rightarrow> u32 \<Rightarrow> bytes \<times> u32 option" where
  "lz77_decompress tokens max_out =
     (case tokens of None \<Rightarrow> ([], None)
      | Some ts \<Rightarrow>
          (case lz77_loop (unat max_out) ts [] of
             (out, ok) \<Rightarrow> (out, if ok then Some (of_nat (length out)) else None)))"

section \<open>Run-length encoding\<close>

fun rle_loop :: "nat \<Rightarrow> bytes \<Rightarrow> bytes \<Rightarrow> bytes \<times> bool" where
  "rle_loop max_out (n # v # rest) out =
     (if n = 0 then (out, True)
      else if length out + unat n > max_out then (out @ replicate (max_out - length out) v, False)
      else rle_loop max_out rest (out @ replicate (unat n) v))"
| "rle_loop max_out _ out = (out, True)"

definition rle_decompress :: "bytes option \<Rightarrow> u32 \<Rightarrow> bytes \<times> u32 option" where
  "rle_decompress input max_out =
     (case input of None \<Rightarrow> ([], None)
      | Some inp \<Rightarrow>
          (case rle_loop (unat max_out) inp [] of
             (out, ok) \<Rightarrow> (out, if ok then Some (of_nat (length out)) else None)))"

section \<open>gzip and DEFLATE state\<close>

definition GZIP_MAGIC1 :: u8 where "GZIP_MAGIC1 = 0x1F"
definition GZIP_MAGIC2 :: u8 where "GZIP_MAGIC2 = 0x8B"
definition GZIP_CM_DEFLATE :: u8 where "GZIP_CM_DEFLATE = 0x08"
definition GZIP_FLAG_FHCRC :: u8 where "GZIP_FLAG_FHCRC = 0x02"
definition GZIP_FLAG_FEXTRA :: u8 where "GZIP_FLAG_FEXTRA = 0x04"
definition GZIP_FLAG_FNAME :: u8 where "GZIP_FLAG_FNAME = 0x08"
definition GZIP_FLAG_FCOMM :: u8 where "GZIP_FLAG_FCOMM = 0x10"

record GzipHeader =
  gz_id1 :: u8
  gz_id2 :: u8
  gz_cm :: u8
  gz_flg :: u8
  gz_mtime :: u32
  gz_xfl :: u8
  gz_os :: u8
  gz_xlen :: u16
  gz_fextra :: "bytes option"
  gz_fname :: "bytes option"
  gz_fcomment :: "bytes option"
  gz_hcrc :: u16

record HuffmanCode =
  hc_symbol :: int
  hc_bits :: u16
  hc_code :: u16

record DecompressContext =
  dc_input :: "bytes option"
  dc_input_size :: u32
  dc_input_pos :: u32
  dc_bit_buf :: u32
  dc_bit_count :: int
  dc_output :: "bytes option"
  dc_output_size :: u32
  dc_output_pos :: u32
  dc_lit_table :: "HuffmanCode list"
  dc_lit_count :: u16
  dc_dist_table :: "HuffmanCode list"
  dc_dist_count :: u16
  dc_length_base :: "u16 list"
  dc_length_extra :: "u8 list"
  dc_dist_base :: "u16 list"
  dc_dist_extra :: "u8 list"

definition decompress_init :: DecompressContext where
  "decompress_init =
     \<lparr>dc_input = None, dc_input_size = 0, dc_input_pos = 0, dc_bit_buf = 0, dc_bit_count = 0,
      dc_output = None, dc_output_size = 0, dc_output_pos = 0,
      dc_lit_table = replicate 288 \<lparr>hc_symbol = 0, hc_bits = 0, hc_code = 0\<rparr>, dc_lit_count = 0,
      dc_dist_table = replicate 32 \<lparr>hc_symbol = 0, hc_bits = 0, hc_code = 0\<rparr>, dc_dist_count = 0,
      dc_length_base = replicate 29 0, dc_length_extra = zeros 29,
      dc_dist_base = replicate 30 0, dc_dist_extra = zeros 30\<rparr>"

section \<open>The gzip header\<close>

text \<open>The loop over a zero-terminated field: the position of the zero, or the end of the input.\<close>

fun skip_to_zero :: "bytes \<Rightarrow> nat" where
  "skip_to_zero [] = 0"
| "skip_to_zero (b # bs) = (if b = 0 then 0 else Suc (skip_to_zero bs))"

definition gzip_skip_string :: "bytes \<Rightarrow> u32 \<Rightarrow> u32" where
  "gzip_skip_string inp pos = pos + of_nat (skip_to_zero (drop (unat pos) inp)) + 1"

definition gzip_parse_header :: "DecompressContext \<Rightarrow> DecompressContext \<times> bool" where
  "gzip_parse_header ctx =
     (case dc_input ctx of None \<Rightarrow> (ctx, False)
      | Some p \<Rightarrow>
          if dc_input_size ctx < 10 then (ctx, False)
          else if p ! 0 \<noteq> GZIP_MAGIC1 \<or> p ! 1 \<noteq> GZIP_MAGIC2 then (ctx, False)
          else if p ! 2 \<noteq> GZIP_CM_DEFLATE then (ctx, False)
          else let flg = p ! 3; pos = 10
               in if flg AND GZIP_FLAG_FEXTRA \<noteq> 0 \<and> pos + 2 > dc_input_size ctx
                  then (ctx\<lparr>dc_input_pos := pos\<rparr>, False)
                  else let pos1 = (if flg AND GZIP_FLAG_FEXTRA \<noteq> 0
                                   then pos + (2 + ucast (le16 (p ! unat pos) (p ! (unat pos + 1)))) else pos);
                           pos2 = (if flg AND GZIP_FLAG_FNAME \<noteq> 0 then gzip_skip_string p pos1 else pos1);
                           pos3 = (if flg AND GZIP_FLAG_FCOMM \<noteq> 0 then gzip_skip_string p pos2 else pos2);
                           pos4 = (if flg AND GZIP_FLAG_FHCRC \<noteq> 0 then pos3 + 2 else pos3)
                       in (ctx\<lparr>dc_input_pos := pos4\<rparr>, \<not> pos4 > dc_input_size ctx))"

definition gzip_validate_header :: "GzipHeader option \<Rightarrow> bool" where
  "gzip_validate_header hdr =
     (case hdr of None \<Rightarrow> False
      | Some h \<Rightarrow> gz_id1 h = GZIP_MAGIC1 \<and> gz_id2 h = GZIP_MAGIC2 \<and> gz_cm h = GZIP_CM_DEFLATE)"

section \<open>DEFLATE\<close>

definition fixed_lit_code :: "nat \<Rightarrow> HuffmanCode" where
  "fixed_lit_code i =
     (if i \<le> 143 then \<lparr>hc_symbol = int i, hc_bits = 8, hc_code = 0x30 + of_nat i\<rparr>
      else if i \<le> 255 then \<lparr>hc_symbol = int i, hc_bits = 9, hc_code = 0x190 + of_nat (i - 144)\<rparr>
      else if i \<le> 279 then \<lparr>hc_symbol = int i, hc_bits = 7, hc_code = of_nat (i - 256)\<rparr>
      else \<lparr>hc_symbol = int i, hc_bits = 8, hc_code = 0xC0 + of_nat (i - 280)\<rparr>)"

definition deflate_build_fixed_tables :: "DecompressContext \<Rightarrow> DecompressContext" where
  "deflate_build_fixed_tables ctx =
     ctx\<lparr>dc_lit_count := 288, dc_lit_table := map fixed_lit_code [0..<288], dc_dist_count := 32,
         dc_dist_table := map (\<lambda>i. \<lparr>hc_symbol = int i, hc_bits = 5, hc_code = of_nat i\<rparr>) [0..<32]\<rparr>"

definition deflate_init_bases :: "DecompressContext \<Rightarrow> DecompressContext" where
  "deflate_init_bases ctx =
     ctx\<lparr>dc_length_base :=
           [3, 4, 5, 6, 7, 8, 9, 10, 11, 13, 15, 17, 19, 23, 27, 31,
            35, 43, 51, 59, 67, 83, 99, 115, 131, 163, 195, 227, 258],
         dc_length_extra :=
           [0, 0, 0, 0, 0, 0, 0, 0, 1, 1, 1, 1, 2, 2, 2, 2, 3, 3, 3, 3, 4, 4, 4, 4, 5, 5, 5, 5, 0],
         dc_dist_base :=
           [1, 2, 3, 4, 5, 7, 9, 13, 17, 25, 33, 49, 65, 97, 129, 193, 257, 385, 513, 769, 1025, 1537,
            2049, 3073, 4097, 6145, 8193, 12289, 16385, 24577],
         dc_dist_extra :=
           [0, 0, 0, 0, 1, 1, 2, 2, 3, 3, 4, 4, 5, 5, 6, 6, 7, 7, 8, 8, 9, 9, 10, 10, 11, 11, 12, 12, 13, 13]\<rparr>"

text \<open>
  One round of the block loop.  \<open>Next\<close> goes round again unless the block was the last one,
  \<open>Halt\<close> leaves the loop with the function's result.
\<close>

datatype block_step = Next bool DecompressContext | Halt bool DecompressContext

definition deflate_block :: "bytes \<Rightarrow> bytes \<Rightarrow> DecompressContext \<Rightarrow> block_step" where
  "deflate_block inp outp ctx =
     (let header = inp ! unat (dc_input_pos ctx);
          ctx1 = ctx\<lparr>dc_input_pos := dc_input_pos ctx + 1\<rparr>;
          bfinal = (header AND 0x01 \<noteq> 0);
          btype = drop_bit 1 header AND 0x03
      in if btype = 0
         then if dc_input_pos ctx1 + 4 > dc_input_size ctx1 then Halt False ctx1
              else let len = le16 (inp ! unat (dc_input_pos ctx1)) (inp ! (unat (dc_input_pos ctx1) + 1));
                       ctx2 = ctx1\<lparr>dc_input_pos := dc_input_pos ctx1 + 4\<rparr>
                   in if dc_input_pos ctx2 + ucast len > dc_input_size ctx2 then Halt False ctx2
                      else if dc_output_pos ctx2 + ucast len > dc_output_size ctx2 then Halt False ctx2
                      else Next bfinal
                        (ctx2\<lparr>dc_output := Some (blit outp (unat (dc_output_pos ctx2))
                                (sub_range inp (unat (dc_input_pos ctx2)) (unat len))),
                              dc_output_pos := dc_output_pos ctx2 + ucast len,
                              dc_input_pos := dc_input_pos ctx2 + ucast len\<rparr>)
         else if btype = 1 then Halt True ctx1
         else if btype = 2 then Halt True ctx1
         else Halt False ctx1)"

text \<open>The loop, with fuel: a position that wrapped could run for ever.\<close>

fun deflate_loop :: "nat \<Rightarrow> DecompressContext \<Rightarrow> DecompressContext \<times> bool c_result" where
  "deflate_loop 0 ctx = (ctx, Diverges)"
| "deflate_loop (Suc fuel) ctx =
     (case (dc_input ctx, dc_output ctx) of
        (Some inp, Some outp) \<Rightarrow>
          if dc_input_pos ctx \<ge> dc_input_size ctx then (ctx, Returned True)
          else (case deflate_block inp outp ctx of
                  Halt ok ctx' \<Rightarrow> (ctx', Returned ok)
                | Next bfinal ctx' \<Rightarrow> if bfinal then (ctx', Returned True) else deflate_loop fuel ctx')
      | _ \<Rightarrow> (ctx, Returned False))"

definition deflate_decompress :: "DecompressContext \<Rightarrow> DecompressContext \<times> bool c_result" where
  "deflate_decompress ctx =
     (if dc_input ctx = None \<or> dc_output ctx = None then (ctx, Returned False)
      else deflate_loop (Suc (unat (dc_input_size ctx)))
             (deflate_build_fixed_tables (deflate_init_bases ctx)))"

text \<open>The output buffer after the call and, on success, the new \<open>*output_size\<close>.\<close>

definition decompress_bzimage :: "bytes option \<Rightarrow> bytes option \<Rightarrow> u32 \<Rightarrow> bytes option \<times> u32 option c_result" where
  "decompress_bzimage compressed output output_size =
     (case (compressed, output) of
        (Some c, Some o1) \<Rightarrow>
          let ctx = decompress_init\<lparr>dc_input := Some c, dc_input_size := of_nat (length c),
                      dc_output := Some o1, dc_output_size := output_size\<rparr>;
              (ctx1, ok) = gzip_parse_header ctx
          in if \<not> ok then (dc_output ctx1, Returned None)
             else (case deflate_decompress ctx1 of
                     (ctx2, Returned True) \<Rightarrow> (dc_output ctx2, Returned (Some (dc_output_pos ctx2)))
                   | (ctx2, Returned False) \<Rightarrow> (dc_output ctx2, Returned None)
                   | (ctx2, Undefined) \<Rightarrow> (dc_output ctx2, Undefined)
                   | (ctx2, Diverges) \<Rightarrow> (dc_output ctx2, Diverges))
      | _ \<Rightarrow> (output, Returned None))"

section \<open>What the token decoders compute\<close>

text \<open>The copied bytes, overlapping copies included: the last \<open>d\<close> bytes, repeated.\<close>

definition repeat_tail :: "bytes \<Rightarrow> nat \<Rightarrow> nat \<Rightarrow> bytes" where
  "repeat_tail out d n = map (\<lambda>i. out ! (length out - d + i mod d)) [0..<n]"

lemma length_repeat_tail [simp]: "length (repeat_tail out d n) = n"
  by (simp add: repeat_tail_def)

lemma repeat_tail_Suc:
  assumes "0 < d" and "d \<le> length out"
  shows "out @ repeat_tail out d (Suc n)
    = (out @ [out ! (length out - d)]) @ repeat_tail (out @ [out ! (length out - d)]) d n"
proof -
  have "repeat_tail out d (Suc n) = out ! (length out - d) # repeat_tail (out @ [out ! (length out - d)]) d n"
  proof (rule nth_equalityI)
    fix i assume i: "i < length (repeat_tail out d (Suc n))"
    show "repeat_tail out d (Suc n) ! i
        = (out ! (length out - d) # repeat_tail (out @ [out ! (length out - d)]) d n) ! i"
    proof (cases i)
      case 0
      then show ?thesis by (simp add: repeat_tail_def del: upt_Suc)
    next
      case (Suc j)
      have j: "j < n" using i Suc by simp
      have "out ! (length out - d + Suc j mod d) = (out @ [out ! (length out - d)]) ! (Suc (length out) - d + j mod d)"
      proof (cases "Suc (j mod d) = d")
        case True
        then have "Suc j mod d = 0" by (simp add: mod_Suc)
        moreover have "Suc (length out) - d + j mod d = length out" using True assms(2) by simp
        ultimately show ?thesis by simp
      next
        case False
        have lt: "j mod d < d" using assms(1) by simp
        have "Suc j mod d = Suc (j mod d)" using False by (simp add: mod_Suc)
        moreover have "Suc (length out) - d + j mod d < length out" using False lt assms(2) by linarith
        moreover have "Suc (length out) - d + j mod d = length out - d + Suc (j mod d)" using assms(2) by simp
        ultimately show ?thesis by (simp add: nth_append)
      qed
      then show ?thesis using Suc j by (simp add: repeat_tail_def del: upt_Suc)
    qed
  qed simp
  then show ?thesis by simp
qed

lemma lz77_copy_eq:
  assumes "0 < d" and "d \<le> length out" and "length out \<le> mx"
  shows "lz77_copy d mx n out = (out @ repeat_tail out d (min n (mx - length out)), length out + n \<le> mx)"
  using assms
proof (induction n arbitrary: out)
  case 0
  then show ?case by (simp add: repeat_tail_def)
next
  case (Suc n)
  show ?case
  proof (cases "length out = mx")
    case True
    then show ?thesis by (simp add: repeat_tail_def)
  next
    case False
    then have lt: "length out < mx" using Suc.prems by simp
    let ?o = "out @ [out ! (length out - d)]"
    have "lz77_copy d mx n ?o = (?o @ repeat_tail ?o d (min n (mx - length ?o)), length ?o + n \<le> mx)"
      using Suc.prems lt by (intro Suc.IH) auto
    moreover have "min (Suc n) (mx - length out) = Suc (min n (mx - length ?o))" using lt by simp
    ultimately show ?thesis using lt repeat_tail_Suc [OF Suc.prems(1,2)] by simp
  qed
qed

fun lz77_token_len :: "LZ77Token \<Rightarrow> nat" where
  "lz77_token_len t = (if lz_is_literal t then 1 else unat (lz_length t))"

definition lz77_expand :: "LZ77Token \<Rightarrow> bytes \<Rightarrow> bytes" where
  "lz77_expand t out =
     out @ (if lz_is_literal t then [lz_literal t] else repeat_tail out (unat (lz_distance t)) (unat (lz_length t)))"

fun lz77_refs_ok :: "nat \<Rightarrow> LZ77Token list \<Rightarrow> bool" where
  "lz77_refs_ok n [] = True"
| "lz77_refs_ok n (t # ts) =
     ((lz_is_literal t \<or> 0 < unat (lz_distance t) \<and> unat (lz_distance t) \<le> n) \<and> lz77_refs_ok (n + lz77_token_len t) ts)"

lemma lz77_loop_bounded:
  "length out \<le> mx \<Longrightarrow> length (fst (lz77_loop mx ts out)) \<le> mx"
proof (induction ts arbitrary: out)
  case (Cons t ts)
  show ?case
  proof (cases "lz_is_literal t")
    case True
    then show ?thesis using Cons by simp
  next
    case False
    let ?d = "unat (lz_distance t)"
    show ?thesis
    proof (cases "0 < ?d \<and> ?d \<le> length out")
      case True
      then show ?thesis
        using False Cons.prems lz77_copy_eq [of ?d out mx "unat (lz_length t)"] Cons.IH
        by (auto simp: Let_def)
    next
      case False
      then show ?thesis using \<open>\<not> lz_is_literal t\<close> Cons.prems by (auto simp: Let_def)
    qed
  qed
qed simp

lemma lz77_loop_correct:
  assumes "length out \<le> mx"
  shows "(snd (lz77_loop mx ts out) \<longleftrightarrow>
      lz77_refs_ok (length out) ts \<and> length out + sum_list (map lz77_token_len ts) \<le> mx)
    \<and> (snd (lz77_loop mx ts out) \<longrightarrow> fst (lz77_loop mx ts out) = fold lz77_expand ts out)"
  using assms
proof (induction ts arbitrary: out)
  case (Cons t ts)
  show ?case
  proof (cases "lz_is_literal t")
    case True
    then show ?thesis using Cons.prems Cons.IH [of "out @ [lz_literal t]"] by (auto simp: lz77_expand_def)
  next
    case False
    let ?d = "unat (lz_distance t)" and ?n = "unat (lz_length t)"
    show ?thesis
    proof (cases "0 < ?d \<and> ?d \<le> length out")
      case True
      let ?o = "out @ repeat_tail out ?d ?n"
      have c: "lz77_copy ?d mx ?n out = (out @ repeat_tail out ?d (min ?n (mx - length out)), length out + ?n \<le> mx)"
        using True Cons.prems by (intro lz77_copy_eq) auto
      show ?thesis
      proof (cases "length out + ?n \<le> mx")
        case fits: True
        then have "min ?n (mx - length out) = ?n" by simp
        then show ?thesis
          using True False fits c Cons.IH [of ?o] by (auto simp: Let_def lz77_expand_def)
      next
        case False
        then show ?thesis using True \<open>\<not> lz_is_literal t\<close> c by (simp add: Let_def)
      qed
    next
      case False
      then show ?thesis using \<open>\<not> lz_is_literal t\<close> by (auto simp: Let_def)
    qed
  qed
qed simp

text \<open>Run-length pairs with their counts and values.\<close>

definition rle_pairs :: "(u8 \<times> u8) list \<Rightarrow> bytes" where
  "rle_pairs ps = concat (map (\<lambda>(n, v). [n, v]) ps)"

definition rle_meaning :: "(u8 \<times> u8) list \<Rightarrow> bytes" where
  "rle_meaning ps = concat (map (\<lambda>(n, v). replicate (unat n) v) ps)"

text \<open>What may follow the pairs: nothing, one odd byte, or a pair with count zero and anything.\<close>

definition rle_end :: "bytes \<Rightarrow> bool" where
  "rle_end rest \<longleftrightarrow> length rest < 2 \<or> hd rest = 0"

lemma rle_loop_end: "rle_end rest \<Longrightarrow> rle_loop mx rest out = (out, True)"
  by (cases "(mx, rest, out)" rule: rle_loop.cases) (auto simp: rle_end_def)

lemma rle_loop_correct:
  assumes "\<forall>(n, v) \<in> set ps. n \<noteq> 0" and "rle_end rest"
  shows "length out + length (rle_meaning ps) \<le> mx \<Longrightarrow>
      rle_loop mx (rle_pairs ps @ rest) out = (out @ rle_meaning ps, True)"
    and "length out \<le> mx \<Longrightarrow> mx < length out + length (rle_meaning ps) \<Longrightarrow>
      rle_loop mx (rle_pairs ps @ rest) out = (take mx (out @ rle_meaning ps), False)"
proof -
  have "(length out + length (rle_meaning ps) \<le> mx \<longrightarrow>
        rle_loop mx (rle_pairs ps @ rest) out = (out @ rle_meaning ps, True)) \<and>
      (length out \<le> mx \<longrightarrow> mx < length out + length (rle_meaning ps) \<longrightarrow>
        rle_loop mx (rle_pairs ps @ rest) out = (take mx (out @ rle_meaning ps), False))"
    using assms(1)
  proof (induction ps arbitrary: out)
    case Nil
    then show ?case using rle_loop_end [OF assms(2)] by (simp add: rle_pairs_def rle_meaning_def)
  next
    case (Cons p ps)
    obtain n v where p: "p = (n, v)" by fastforce
    then have n: "n \<noteq> 0" using Cons.prems by simp
    note ih = Cons.IH [of "out @ replicate (unat n) v"]
    show ?case
      using p n ih Cons.prems by (auto simp: rle_pairs_def rle_meaning_def take_Cons')
  qed
  then show "length out + length (rle_meaning ps) \<le> mx \<Longrightarrow>
      rle_loop mx (rle_pairs ps @ rest) out = (out @ rle_meaning ps, True)"
    and "length out \<le> mx \<Longrightarrow> mx < length out + length (rle_meaning ps) \<Longrightarrow>
      rle_loop mx (rle_pairs ps @ rest) out = (take mx (out @ rle_meaning ps), False)"
    by simp_all
qed

section \<open>Stored blocks\<close>

text \<open>A DEFLATE stream of stored blocks, and a gzip member with no optional field around it.\<close>

definition stored_block :: "bool \<Rightarrow> bytes \<Rightarrow> bytes" where
  "stored_block final d =
     (let len = of_nat (length d) :: u16
      in [if final then 1 else 0, ucast len, ucast (drop_bit 8 len), ucast (NOT len), ucast (drop_bit 8 (NOT len))] @ d)"

fun stored_stream :: "bytes list \<Rightarrow> bytes" where
  "stored_stream [] = []"
| "stored_stream [d] = stored_block True d"
| "stored_stream (d # e # ds) = stored_block False d @ stored_stream (e # ds)"

definition gzip_fixed :: "bytes \<Rightarrow> bytes" where
  "gzip_fixed mtime = [0x1F, 0x8B, 8, 0] @ take 6 (mtime @ zeros 6)"

definition gzip_member :: "bytes \<Rightarrow> bytes \<Rightarrow> bytes \<Rightarrow> bytes" where
  "gzip_member mtime stream trailer = gzip_fixed mtime @ stream @ trailer"

lemma length_gzip_fixed [simp]: "length (gzip_fixed mtime) = 10"
  by (simp add: gzip_fixed_def zeros_def)

lemma gzip_fixed_magic: "gzip_fixed mtime ! 0 = 0x1F" "gzip_fixed mtime ! 1 = 0x8B" "gzip_fixed mtime ! 2 = 8"
  "gzip_fixed mtime ! 3 = 0"
  by (simp_all add: gzip_fixed_def)

lemma length_stored_block [simp]: "length (stored_block f d) = 5 + length d"
  by (simp add: stored_block_def Let_def)

definition reading :: "DecompressContext \<Rightarrow> bytes \<Rightarrow> nat \<Rightarrow> bytes \<Rightarrow> nat \<Rightarrow> bool" where
  "reading ctx inp pos outp opos \<longleftrightarrow>
     dc_input ctx = Some inp \<and> dc_input_size ctx = of_nat (length inp) \<and> length inp < 2 ^ 31 \<and>
     unat (dc_input_pos ctx) = pos \<and> dc_output ctx = Some outp \<and> unat (dc_output_pos ctx) = opos \<and>
     unat (dc_output_size ctx) \<le> length outp \<and> unat (dc_output_size ctx) < 2 ^ 31"

lemma deflate_block_stored:
  assumes r: "reading ctx inp (length pre) outp k" and inp: "inp = pre @ stored_block f d @ rest"
    and d: "length d < 65536" and fit: "k + length d \<le> unat (dc_output_size ctx)"
  shows "\<exists>ctx'. deflate_block inp outp ctx = Next f ctx' \<and> dc_output_size ctx' = dc_output_size ctx
    \<and> reading ctx' inp (length pre + 5 + length d) (blit outp k d) (k + length d)"
proof -
  let ?p = "length pre" and ?len = "of_nat (length d) :: u16"
  have len: "unat ?len = length d" using d by (simp add: unat_of_nat)
  have n: "length inp < 2147483648" "?p + 5 + length d \<le> length inp" using r inp by (simp_all add: reading_def)
  have sz: "unat (dc_input_size ctx) = length inp" using r n by (simp add: reading_def unat_of_nat)
  have pos: "unat (dc_input_pos ctx) = ?p" using r by (simp add: reading_def)
  have p1: "unat (dc_input_pos ctx + 1) = ?p + 1" using pos n by (subst u32_add) simp_all
  have p5: "unat (dc_input_pos ctx + 1 + 4) = ?p + 5" using p1 n by (subst u32_add) simp_all
  have pe: "unat (dc_input_pos ctx + 1 + 4 + ucast ?len) = ?p + 5 + length d"
    using p5 n len by (subst u32_add) simp_all
  have ko: "unat (dc_output_pos ctx) = k" "unat (dc_output_size ctx) < 2147483648" using r by (simp_all add: reading_def)
  have oe: "unat (dc_output_pos ctx + ucast ?len) = k + length d"
    using ko fit len by (subst u32_add) simp_all
  have hd: "inp ! ?p = (if f then 1 else 0)" and l: "le16 (inp ! (?p + 1)) (inp ! (?p + 2)) = ?len"
    by (simp_all add: inp stored_block_def Let_def nth_append le16_split)
  have body: "sub_range inp (?p + 5) (length d) = d"
    by (simp add: inp stored_block_def Let_def sub_range_def)
  have h1: "((if f then 1 else 0 :: u8) AND 1 \<noteq> 0) = f" "drop_bit 1 (if f then 1 else 0 :: u8) AND 3 = 0"
    by (cases f; simp)+
  have g: "\<not> dc_input_pos ctx + 1 + 4 > dc_input_size ctx" "\<not> dc_input_pos ctx + 1 + 4 + ucast ?len > dc_input_size ctx"
    "\<not> dc_output_pos ctx + ucast ?len > dc_output_size ctx"
    using p5 pe oe sz n fit by (simp_all add: word_less_nat_alt)
  let ?ctx = "ctx\<lparr>dc_input_pos := dc_input_pos ctx + 1 + 4 + ucast ?len, dc_output := Some (blit outp k d),
      dc_output_pos := dc_output_pos ctx + ucast ?len\<rparr>"
  have "deflate_block inp outp ctx = Next f ?ctx"
    unfolding deflate_block_def Let_def pos hd h1
    using g p1 p5 l body ko(1) len by (simp add: add.assoc)
  moreover have "reading ?ctx inp (?p + 5 + length d) (blit outp k d) (k + length d)"
    using r pe oe fit by (simp add: reading_def)
  ultimately show ?thesis by (intro exI [of _ ?ctx]) simp
qed

lemma blit_blit_append:
  assumes "k + length xs \<le> length buf"
  shows "blit (blit buf k xs) (k + length xs) ys = blit buf k (xs @ ys)"
  using assms by (simp add: blit_def ac_simps)

lemma deflate_loop_stored:
  assumes "cs \<noteq> []" and "\<forall>d \<in> set cs. length d < 65536" and "inp = pre @ stored_stream cs @ trailer"
    and "reading ctx inp (length pre) outp k" and "k + length (concat cs) \<le> unat (dc_output_size ctx)"
    and "length cs \<le> fuel"
  shows "\<exists>ctx'. deflate_loop fuel ctx = (ctx', Returned True)
    \<and> dc_output ctx' = Some (blit outp k (concat cs)) \<and> unat (dc_output_pos ctx') = k + length (concat cs)"
  using assms
proof (induction cs arbitrary: pre ctx outp k fuel rule: stored_stream.induct)
  case 1
  then show ?case by simp
next
  case (2 d)
  obtain fl where fl: "fuel = Suc fl" using 2 by (cases fuel) auto
  obtain ctx' where c: "deflate_block inp outp ctx = Next True ctx'"
      "reading ctx' inp (length pre + 5 + length d) (blit outp k d) (k + length d)"
    using deflate_block_stored [of ctx inp pre outp k True d trailer] 2 by auto
  have "length pre < length inp" using 2(3) by simp
  then have "\<not> dc_input_pos ctx \<ge> dc_input_size ctx"
    using 2(4) by (simp add: reading_def word_le_nat_alt unat_of_nat)
  then show ?case using c 2(4) fl by (simp add: reading_def)
next
  case (3 d e ds)
  obtain fl where fl: "fuel = Suc fl" using 3 by (cases fuel) auto
  let ?pre = "pre @ stored_block False d"
  have inp: "inp = pre @ stored_block False d @ stored_stream (e # ds) @ trailer" using 3 by simp
  obtain ctx' where c: "deflate_block inp outp ctx = Next False ctx'" "dc_output_size ctx' = dc_output_size ctx"
      "reading ctx' inp (length pre + 5 + length d) (blit outp k d) (k + length d)"
    using deflate_block_stored [OF "3.prems"(4) inp] "3.prems"(2,5) by auto
  have "\<exists>ctx''. deflate_loop fl ctx' = (ctx'', Returned True)
      \<and> dc_output ctx'' = Some (blit (blit outp k d) (k + length d) (concat (e # ds)))
      \<and> unat (dc_output_pos ctx'') = k + length d + length (concat (e # ds))"
  proof (rule "3.IH")
    show "inp = ?pre @ stored_stream (e # ds) @ trailer" using inp by simp
    show "reading ctx' inp (length ?pre) (blit outp k d) (k + length d)" using c(3) by (simp add: add.assoc)
    show "k + length d + length (concat (e # ds)) \<le> unat (dc_output_size ctx')" using "3.prems"(5) c(2) by simp
    show "length (e # ds) \<le> fl" using "3.prems"(6) fl by simp
  qed (use "3.prems"(2) in simp_all)
  then obtain ctx'' where i: "deflate_loop fl ctx' = (ctx'', Returned True)"
      "dc_output ctx'' = Some (blit (blit outp k d) (k + length d) (concat (e # ds)))"
      "unat (dc_output_pos ctx'') = k + length d + length (concat (e # ds))" by blast
  have "length pre < length inp" using inp by simp
  then have "\<not> dc_input_pos ctx \<ge> dc_input_size ctx"
    using "3.prems"(4) by (simp add: reading_def word_le_nat_alt unat_of_nat)
  then have "deflate_loop fuel ctx = (ctx'', Returned True)"
    using c(1) "3.prems"(4) fl i(1) by (simp add: reading_def)
  moreover have "blit (blit outp k d) (k + length d) (concat (e # ds)) = blit outp k (concat (d # e # ds))"
    using "3.prems"(4,5) by (simp add: reading_def blit_blit_append)
  ultimately show ?case using i(2,3) by (intro exI [of _ ctx'']) simp
qed

lemma gzip_member_header:
  assumes "inp = gzip_member mtime s t" and "dc_input ctx = Some inp" and "dc_input_size ctx = of_nat (length inp)"
    and "length inp < 2 ^ 31"
  shows "gzip_parse_header ctx = (ctx\<lparr>dc_input_pos := 10\<rparr>, True)"
proof -
  have n: "unat (dc_input_size ctx) = length inp" using assms(3,4) by (simp add: unat_of_nat)
  have "10 \<le> length inp" by (simp add: assms(1) gzip_member_def)
  have b: "inp ! 0 = 0x1F" "inp ! 1 = 0x8B" "inp ! 2 = 8" "inp ! 3 = 0"
    using gzip_fixed_magic by (simp_all add: assms(1) gzip_member_def nth_append)
  have "\<not> dc_input_size ctx < 10" using n \<open>10 \<le> length inp\<close> by (simp add: word_less_nat_alt)
  then show ?thesis
    using assms(2) b
    by (simp add: gzip_parse_header_def Let_def GZIP_MAGIC1_def GZIP_MAGIC2_def GZIP_CM_DEFLATE_def not_less)
qed

lemma decompress_bzimage_stored:
  assumes "cs \<noteq> []" and "\<forall>d \<in> set cs. length d < 65536"
    and "length (gzip_member mtime (stored_stream cs) trailer) < 2 ^ 31"
    and "length (concat cs) \<le> unat output_size" and "unat output_size \<le> length outp" and "unat output_size < 2 ^ 31"
  shows "decompress_bzimage (Some (gzip_member mtime (stored_stream cs) trailer)) (Some outp) output_size
    = (Some (blit outp 0 (concat cs)), Returned (Some (of_nat (length (concat cs)))))"
proof -
  let ?inp = "gzip_member mtime (stored_stream cs) trailer"
  let ?ctx = "decompress_init\<lparr>dc_input := Some ?inp, dc_input_size := of_nat (length ?inp),
      dc_output := Some outp, dc_output_size := output_size\<rparr>"
  let ?c1 = "deflate_build_fixed_tables (deflate_init_bases (?ctx\<lparr>dc_input_pos := 10\<rparr>))"
  let ?pre = "gzip_fixed mtime"
  have g: "gzip_parse_header ?ctx = (?ctx\<lparr>dc_input_pos := 10\<rparr>, True)"
    by (rule gzip_member_header [OF refl]) (use assms(3) in simp_all)
  have p: "length ?pre = 10" by simp
  have len: "length cs \<le> length (stored_stream cs)"
    by (induction cs rule: stored_stream.induct) auto
  have "length ?inp < 4294967296" using assms(3) by simp
  then have sz: "unat (of_nat (length ?inp) :: u32) = length ?inp" by (simp add: unat_of_nat)
  have rd: "reading ?c1 ?inp (length ?pre) outp 0"
    using assms(3,5,6) p by (simp add: reading_def deflate_build_fixed_tables_def deflate_init_bases_def decompress_init_def)
  have "\<exists>ctx'. deflate_loop (Suc (length ?inp)) ?c1 = (ctx', Returned True)
      \<and> dc_output ctx' = Some (blit outp 0 (concat cs)) \<and> unat (dc_output_pos ctx') = 0 + length (concat cs)"
  proof (rule deflate_loop_stored [OF assms(1,2) _ rd])
    show "?inp = ?pre @ stored_stream cs @ trailer" by (simp add: gzip_member_def)
    show "0 + length (concat cs) \<le> unat (dc_output_size ?c1)"
      using assms(4) by (simp add: deflate_build_fixed_tables_def deflate_init_bases_def)
    show "length cs \<le> Suc (length ?inp)" using len by (simp add: gzip_member_def)
  qed
  then obtain ctx' where d: "deflate_loop (Suc (length ?inp)) ?c1 = (ctx', Returned True)"
      "dc_output ctx' = Some (blit outp 0 (concat cs))" "unat (dc_output_pos ctx') = length (concat cs)" by auto
  have "deflate_decompress (?ctx\<lparr>dc_input_pos := 10\<rparr>) = (ctx', Returned True)"
    using d(1) sz by (simp add: deflate_decompress_def)
  moreover have "dc_output_pos ctx' = of_nat (length (concat cs))" using d(3) by (metis of_nat_unat ucast_id unsigned_of_nat)
  ultimately show ?thesis using g d(2) by (simp add: decompress_bzimage_def Let_def)
qed

text \<open>A first block with Huffman codes ends the loop at once, with success and nothing written.\<close>

lemma decompress_bzimage_huffman:
  assumes "b AND 0x06 = 2 \<or> b AND 0x06 = (4 :: u8)" and "length (gzip_member mtime (b # s) trailer) < 2 ^ 31"
  shows "decompress_bzimage (Some (gzip_member mtime (b # s) trailer)) (Some outp) output_size
    = (Some outp, Returned (Some 0))"
proof -
  let ?inp = "gzip_member mtime (b # s) trailer"
  let ?ctx = "decompress_init\<lparr>dc_input := Some ?inp, dc_input_size := of_nat (length ?inp),
      dc_output := Some outp, dc_output_size := output_size\<rparr>"
  have g: "gzip_parse_header ?ctx = (?ctx\<lparr>dc_input_pos := 10\<rparr>, True)"
    by (rule gzip_member_header [OF refl]) (use assms(2) in simp_all)
  have hd: "?inp ! 10 = b" by (simp add: gzip_member_def nth_append)
  have "length ?inp < 4294967296" using assms(2) by simp
  then have sz: "unat (of_nat (length ?inp) :: u32) = length ?inp" by (simp add: unat_of_nat)
  have "10 < length ?inp" by (simp add: gzip_member_def)
  then have lt: "\<not> of_nat (length ?inp) \<le> (10 :: u32)" unfolding word_le_nat_alt sz by simp
  have bt: "drop_bit 1 b AND 3 = 1 \<or> drop_bit 1 b AND 3 = 2"
  proof -
    have e: "drop_bit 1 b AND 3 = drop_bit 1 (b AND 0x06)"
      by (rule bit_word_eqI) (auto simp: bit_simps bit_numeral_rec)
    show ?thesis unfolding e using assms(1) by (elim disjE) simp_all
  qed
  have "\<exists>c. deflate_block ?inp outp (deflate_build_fixed_tables (deflate_init_bases (?ctx\<lparr>dc_input_pos := 10\<rparr>))) = Halt True c
      \<and> dc_output c = Some outp \<and> dc_output_pos c = 0"
    using bt hd by (auto simp: deflate_block_def Let_def deflate_build_fixed_tables_def deflate_init_bases_def decompress_init_def)
  then obtain c where c: "deflate_block ?inp outp (deflate_build_fixed_tables (deflate_init_bases (?ctx\<lparr>dc_input_pos := 10\<rparr>))) = Halt True c"
      "dc_output c = Some outp" "dc_output_pos c = 0" by blast
  have "deflate_decompress (?ctx\<lparr>dc_input_pos := 10\<rparr>) = (c, Returned True)"
    using c lt by (simp add: deflate_decompress_def) (simp add: deflate_build_fixed_tables_def deflate_init_bases_def)
  then show ?thesis using g c by (simp add: decompress_bzimage_def Let_def)
qed

section \<open>Termination\<close>

text \<open>A block that goes round again has moved the input position, and not past the end.\<close>

lemma deflate_block_progress:
  assumes b: "deflate_block inp outp ctx = Next fin ctx'"
    and size: "unat (dc_input_size ctx) + 65536 \<le> 2 ^ 32"
    and pos: "unat (dc_input_pos ctx) < unat (dc_input_size ctx)"
  shows "unat (dc_input_pos ctx) < unat (dc_input_pos ctx')" and "dc_input_size ctx' = dc_input_size ctx"
proof -
  let ?p = "dc_input_pos ctx" and ?n = "dc_input_size ctx"
  let ?len = "le16 (inp ! unat (?p + 1)) (inp ! Suc (unat (?p + 1)))"
  have p1: "unat (?p + 1) = Suc (unat ?p)" using pos unat_u32_bound [of ?n] by (intro unat_suc) simp
  have p5: "unat (?p + 1 + 4) = unat ?p + 5" using pos size p1 by (subst u32_add) auto
  have c: "?p + 1 + 4 \<le> ?n" "dc_input_size ctx' = ?n" "dc_input_pos ctx' = ?p + 1 + 4 + ucast ?len"
    using b by (auto simp: deflate_block_def Let_def not_less split: if_splits)
  have "unat (ucast ?len :: u32) < 65536" using unat_u16_bound [of ?len] by simp
  moreover have "unat ?p + 5 \<le> unat ?n" using c(1) p5 by (simp add: word_le_nat_alt)
  ultimately have "unat (?p + 1 + 4 + ucast ?len) = unat ?p + 5 + unat (ucast ?len :: u32)"
    using size p5 by (subst u32_add) auto
  then show "unat (dc_input_pos ctx) < unat (dc_input_pos ctx')" and "dc_input_size ctx' = dc_input_size ctx"
    using c by auto
qed

lemma deflate_loop_returns:
  "unat (dc_input_size ctx) + 65536 \<le> 2 ^ 32 \<Longrightarrow> unat (dc_input_size ctx) - unat (dc_input_pos ctx) < fuel \<Longrightarrow>
    \<exists>ok. snd (deflate_loop fuel ctx) = Returned ok"
proof (induction fuel arbitrary: ctx)
  case (Suc fuel)
  show ?case
  proof (cases "dc_input ctx = None \<or> dc_output ctx = None \<or> dc_input_size ctx \<le> dc_input_pos ctx")
    case True
    then show ?thesis by (auto split: option.split)
  next
    case False
    then obtain inp outp where io: "dc_input ctx = Some inp" "dc_output ctx = Some outp" by auto
    have lt: "unat (dc_input_pos ctx) < unat (dc_input_size ctx)" using False by (simp add: word_le_nat_alt)
    show ?thesis
    proof (cases "deflate_block inp outp ctx")
      case (Next fin ctx')
      note pr = deflate_block_progress [OF Next Suc.prems(1) lt]
      have "\<exists>ok. snd (deflate_loop fuel ctx') = Returned ok"
        using Suc.IH [of ctx'] Suc.prems pr lt by simp
      then show ?thesis using False io Next by auto
    next
      case (Halt ok ctx')
      then show ?thesis using False io by auto
    qed
  qed
qed simp

lemma deflate_decompress_returns:
  assumes "unat (dc_input_size ctx) + 65536 \<le> 2 ^ 32"
  shows "\<exists>ok. snd (deflate_decompress ctx) = Returned ok"
proof (cases "dc_input ctx = None \<or> dc_output ctx = None")
  case True
  then show ?thesis by (auto simp: deflate_decompress_def)
next
  case False
  have "dc_input_size (deflate_build_fixed_tables (deflate_init_bases ctx)) = dc_input_size ctx"
    by (simp add: deflate_build_fixed_tables_def deflate_init_bases_def)
  then show ?thesis
    using False assms deflate_loop_returns [of "deflate_build_fixed_tables (deflate_init_bases ctx)"]
    by (auto simp: deflate_decompress_def simp del: deflate_loop.simps)
qed

lemma gzip_parse_header_size: "dc_input_size (fst (gzip_parse_header ctx)) = dc_input_size ctx"
  by (simp add: gzip_parse_header_def Let_def gzip_skip_string_def split: option.split)

lemma decompress_bzimage_returns_aux:
  assumes "length c + 65536 \<le> 2 ^ 32"
  shows "\<exists>r. snd (decompress_bzimage (Some c) out n) = Returned r"
proof (cases out)
  case None
  then show ?thesis by (simp add: decompress_bzimage_def)
next
  case (Some o1)
  let ?ctx = "decompress_init\<lparr>dc_input := Some c, dc_input_size := of_nat (length c),
                dc_output := Some o1, dc_output_size := n\<rparr>"
  obtain ctx1 ok where g: "gzip_parse_header ?ctx = (ctx1, ok)" by fastforce
  have "dc_input_size ctx1 = of_nat (length c)" using gzip_parse_header_size [of ?ctx] g by simp
  then have "unat (dc_input_size ctx1) = length c" using assms by (simp add: unat_of_nat)
  then obtain ok2 where "snd (deflate_decompress ctx1) = Returned ok2"
    using deflate_decompress_returns [of ctx1] assms by auto
  then obtain ctx2 where "deflate_decompress ctx1 = (ctx2, Returned ok2)" by (metis prod.collapse)
  then show ?thesis
    using Some g by (cases ok2) (auto simp: decompress_bzimage_def)
qed

end
