(* ===== verification/Boot_Chain.thy ===== *)
theory Boot_Chain
  imports Prelude
begin

text \<open>
  Chain loading of \<open>mini-bootloader/src/boot_chain.c\<close>: CHS and LBA addresses, sector I/O on a
  disk image in memory, the GPT header and partition search, and the boot-sector check.

  The image is the list \<open>sio_disk_image\<close> (\<open>None\<close> for \<open>NULL\<close>); byte offsets are \<open>uint32_t\<close>
  products and sums that wrap, as in the code, and an access that then falls outside the
  image is \<open>Undefined\<close>.  The locale \<open>block_device\<close> is what a loader expects of sector I/O.
\<close>

section \<open>State\<close>

definition CHAIN_SECTOR_SIZE :: u32 where "CHAIN_SECTOR_SIZE = 512"
definition CHAIN_GPT_SIGNATURE :: u64 where "CHAIN_GPT_SIGNATURE = 0x5452415020494645"

record CHSAddr =
  chs_cylinder :: u16
  chs_head :: u8
  chs_sector :: u8

record GPTPartEntry =
  gpe_type_guid :: bytes
  gpe_unique_guid :: bytes
  gpe_first_lba :: u64
  gpe_last_lba :: u64
  gpe_attributes :: u64
  gpe_name :: bytes

record GPTHeader =
  gh_signature :: u64
  gh_revision :: u32
  gh_header_size :: u32
  gh_header_crc32 :: u32
  gh_reserved :: u32
  gh_my_lba :: u64
  gh_alt_lba :: u64
  gh_first_usable :: u64
  gh_last_usable :: u64
  gh_disk_guid :: bytes
  gh_entries_lba :: u64
  gh_entry_count :: u32
  gh_entry_size :: u32
  gh_entries_crc32 :: u32

record ChainTarget =
  ct_start_lba :: u64
  ct_sector_count :: u64
  ct_partition_type :: u8
  ct_boot_code :: "bytes option"
  ct_code_size :: u32
  ct_load_addr :: u32
  ct_entry_point :: u32

record SectorIO =
  sio_disk_image :: "bytes option"
  sio_disk_size :: u32
  sio_current_lba :: u32

section \<open>CHS and LBA\<close>

definition chs_from_lba :: "u32 \<Rightarrow> u8 \<Rightarrow> u8 \<Rightarrow> CHSAddr" where
  "chs_from_lba lba heads sectors_per_track =
     (if heads = 0 \<or> sectors_per_track = 0
      then \<lparr>chs_cylinder = 0, chs_head = 0, chs_sector = 0\<rparr>
      else let hpc_x_spt = ucast heads * ucast sectors_per_track
           in \<lparr>chs_cylinder = ucast (lba div hpc_x_spt),
               chs_head = ucast ((lba div ucast sectors_per_track) mod ucast heads),
               chs_sector = ucast (lba mod ucast sectors_per_track + 1)\<rparr>)"

definition lba_from_chs :: "CHSAddr \<Rightarrow> u8 \<Rightarrow> u8 \<Rightarrow> u32" where
  "lba_from_chs chs heads sectors_per_track =
     (if heads = 0 \<or> sectors_per_track = 0 then 0
      else (ucast (chs_cylinder chs) * ucast heads + ucast (chs_head chs)) * ucast sectors_per_track
           + (ucast (chs_sector chs) - 1))"

section \<open>Sector I/O\<close>

definition sector_io_init :: "bytes option \<Rightarrow> u32 \<Rightarrow> SectorIO" where
  "sector_io_init disk_image disk_size =
     \<lparr>sio_disk_image = disk_image, sio_disk_size = disk_size, sio_current_lba = 0\<rparr>"

definition sector_read :: "SectorIO \<Rightarrow> u32 \<Rightarrow> SectorIO \<times> bytes option c_result" where
  "sector_read io lba =
     (case sio_disk_image io of None \<Rightarrow> (io, Returned None)
      | Some img \<Rightarrow>
          let offset = lba * CHAIN_SECTOR_SIZE
          in if offset + CHAIN_SECTOR_SIZE > sio_disk_size io then (io, Returned None)
             else if unat offset + 512 > length img then (io, Undefined)
             else (io\<lparr>sio_current_lba := lba\<rparr>, Returned (Some (sub_range img (unat offset) 512))))"

definition sector_write :: "SectorIO \<Rightarrow> u32 \<Rightarrow> bytes option \<Rightarrow> SectorIO \<times> bool c_result" where
  "sector_write io lba buffer =
     (case (sio_disk_image io, buffer) of
        (Some img, Some buf) \<Rightarrow>
          let offset = lba * CHAIN_SECTOR_SIZE
          in if offset + CHAIN_SECTOR_SIZE > sio_disk_size io then (io, Returned False)
             else if unat offset + 512 > length img then (io, Undefined)
             else (io\<lparr>sio_disk_image := Some (blit img (unat offset) (take 512 buf)), sio_current_lba := lba\<rparr>,
                   Returned True)
      | _ \<Rightarrow> (io, Returned False))"

text \<open>The loop of \<open>sector_read_multi\<close> over the sectors still to read; the buffer keeps what was read.\<close>

fun read_sectors :: "SectorIO \<Rightarrow> u32 \<Rightarrow> nat list \<Rightarrow> bytes \<Rightarrow> SectorIO \<times> bytes \<times> bool c_result" where
  "read_sectors io lba [] buffer = (io, buffer, Returned True)"
| "read_sectors io lba (i # is) buffer =
     (case sector_read io (lba + of_nat i) of
        (io', Returned (Some d)) \<Rightarrow> read_sectors io' lba is (blit buffer (i * 512) d)
      | (io', Returned None) \<Rightarrow> (io', buffer, Returned False)
      | (io', Undefined) \<Rightarrow> (io', buffer, Undefined)
      | (io', Diverges) \<Rightarrow> (io', buffer, Diverges))"

definition sector_read_multi :: "SectorIO \<Rightarrow> u32 \<Rightarrow> u8 \<Rightarrow> bytes \<Rightarrow> SectorIO \<times> bytes \<times> bool c_result" where
  "sector_read_multi io lba n buffer =
     (if n = 0 then (io, buffer, Returned False) else read_sectors io lba [0..<unat n] buffer)"

section \<open>GPT\<close>

text \<open>\<open>memcpy\<close> of the 96 bytes of the struct, read field by field at the offsets of its layout.\<close>

definition gpt_load_header :: "bytes \<Rightarrow> GPTHeader" where
  "gpt_load_header s =
     \<lparr>gh_signature = le64 s, gh_revision = le32_at s 8, gh_header_size = le32_at s 12,
      gh_header_crc32 = le32_at s 16, gh_reserved = le32_at s 20, gh_my_lba = le64 (drop 24 s),
      gh_alt_lba = le64 (drop 32 s), gh_first_usable = le64 (drop 40 s), gh_last_usable = le64 (drop 48 s),
      gh_disk_guid = sub_range s 56 16, gh_entries_lba = le64 (drop 72 s), gh_entry_count = le32_at s 80,
      gh_entry_size = le32_at s 84, gh_entries_crc32 = le32_at s 88\<rparr>"

definition gpt_parse_header :: "bytes option \<Rightarrow> GPTHeader option \<Rightarrow> GPTHeader option \<times> bool" where
  "gpt_parse_header sector header =
     (case (sector, header) of
        (Some s, Some h) \<Rightarrow>
          let h' = gpt_load_header s
          in if gh_signature h' \<noteq> CHAIN_GPT_SIGNATURE then (Some h', False) else (Some h', True)
      | _ \<Rightarrow> (header, False))"

definition gpt_validate_header :: "GPTHeader option \<Rightarrow> bool" where
  "gpt_validate_header header =
     (case header of None \<Rightarrow> False
      | Some h \<Rightarrow> gh_signature h = CHAIN_GPT_SIGNATURE \<and> gh_revision h \<ge> 0x00010000 \<and> gh_header_size h \<ge> 92)"

definition gpt_load_entry :: "bytes \<Rightarrow> GPTPartEntry" where
  "gpt_load_entry s =
     \<lparr>gpe_type_guid = take 16 s, gpe_unique_guid = sub_range s 16 16, gpe_first_lba = le64 (drop 32 s),
      gpe_last_lba = le64 (drop 40 s), gpe_attributes = le64 (drop 48 s), gpe_name = sub_range s 56 72\<rparr>"

text \<open>The search from entry \<open>i\<close> with \<open>k\<close> entries to go; entries are read whole (128 bytes).\<close>

fun gpt_scan :: "GPTHeader \<Rightarrow> bytes \<Rightarrow> bytes option \<Rightarrow> u32 \<Rightarrow> nat \<Rightarrow> nat \<Rightarrow> GPTPartEntry option c_result" where
  "gpt_scan header img type_guid part_off i 0 = Returned None"
| "gpt_scan header img type_guid part_off i (Suc k) =
     (let off = unat (part_off + of_nat i * gh_entry_size header)
      in if off + 128 > length img then Undefined
         else let pe = gpt_load_entry (drop off img)
              in if gpe_first_lba pe = 0 \<and> gpe_last_lba pe = 0
                 then gpt_scan header img type_guid part_off (i + 1) k
                 else if (case type_guid of None \<Rightarrow> True | Some g \<Rightarrow> gpe_type_guid pe = take 16 g)
                 then Returned (Some pe)
                 else gpt_scan header img type_guid part_off (i + 1) k)"

definition gpt_find_partition ::
  "GPTHeader option \<Rightarrow> bytes option \<Rightarrow> bytes option \<Rightarrow> GPTPartEntry option c_result" where
  "gpt_find_partition header disk_image type_guid =
     (case (header, disk_image) of
        (Some h, Some img) \<Rightarrow>
          let part_lba = ucast (gh_entries_lba h); part_off = part_lba * CHAIN_SECTOR_SIZE
          in gpt_scan h img type_guid part_off 0 (unat (gh_entry_count h))
      | _ \<Rightarrow> Returned None)"

section \<open>Chain loading\<close>

definition chain_target_init :: ChainTarget where
  "chain_target_init =
     \<lparr>ct_start_lba = 0, ct_sector_count = 0, ct_partition_type = 0, ct_boot_code = None, ct_code_size = 0,
      ct_load_addr = 0x7C00, ct_entry_point = 0x7C00\<rparr>"

definition chain_load_boot_sector :: "SectorIO \<Rightarrow> ChainTarget option \<Rightarrow> SectorIO \<times> bool c_result" where
  "chain_load_boot_sector io target =
     (case target of None \<Rightarrow> (io, Returned False)
      | Some t \<Rightarrow>
          (case sector_read io (ucast (ct_start_lba t)) of
             (io', Returned None) \<Rightarrow> (io', Returned False)
           | (io', Returned (Some sector)) \<Rightarrow>
               let sig = le16 (sector ! 510) (sector ! 511)
               in if sig \<noteq> 0xAA55 then (io', Returned False) else (io', Returned True)
           | (io', Undefined) \<Rightarrow> (io', Undefined)
           | (io', Diverges) \<Rightarrow> (io', Diverges)))"

section \<open>CHS facts\<close>

lemma chs_value:
  assumes "unat c < 65536" and "unat h < 256" and "unat s < 256" and "unat (hs :: u8) < 256" and "unat (spt :: u8) < 256"
  shows "(unat (c :: u16) * unat hs + unat (h :: u8)) * unat spt + unat (s :: u8) < 2 ^ 32"
proof -
  have "unat c * unat hs \<le> 65535 * 255" using assms by (intro mult_mono) simp_all
  then have "unat c * unat hs + unat h \<le> 65535 * 255 + 255" using assms by simp
  then have "(unat c * unat hs + unat h) * unat spt \<le> (65535 * 255 + 255) * 255"
    using assms by (intro mult_mono) simp_all
  then show ?thesis using assms by simp
qed

lemma lba_from_chs_value:
  assumes "heads \<noteq> 0" and "spt \<noteq> 0" and "chs_sector c \<noteq> 0"
  shows "unat (lba_from_chs c heads spt)
    = (unat (chs_cylinder c) * unat heads + unat (chs_head c)) * unat spt + (unat (chs_sector c) - 1)"
proof -
  note b = chs_value [OF unat_u16_bound unat_u8_bound unat_u8_bound unat_u8_bound unat_u8_bound,
      of "chs_cylinder c" heads "chs_head c" spt "chs_sector c"]
  have s: "1 \<le> unat (chs_sector c)" using assms(3) by (simp add: unat_gt_0 Suc_le_eq)
  have "unat (ucast (chs_sector c) - 1 :: u32) = unat (chs_sector c) - 1"
    using s by (simp add: unat_sub word_le_nat_alt)
  moreover have "unat (ucast (chs_cylinder c) * ucast heads :: u32) = unat (chs_cylinder c) * unat heads"
  proof -
    have "unat (chs_cylinder c) * unat heads \<le> 65535 * 255"
      using unat_u16_bound [of "chs_cylinder c"] unat_u8_bound [of heads] by (intro mult_mono) simp_all
    then show ?thesis by (simp add: unat_word_ariths(2))
  qed
  moreover have "unat (chs_cylinder c) * unat heads + unat (chs_head c)
      \<le> (unat (chs_cylinder c) * unat heads + unat (chs_head c)) * unat spt"
    using assms(2) by (metis One_nat_def Suc_le_eq mult.right_neutral mult_le_mono2 unat_gt_0)
  ultimately have sec: "unat (ucast (chs_sector c) - 1 :: u32) = unat (chs_sector c) - 1"
    and cyl: "unat (ucast (chs_cylinder c) * ucast heads :: u32) = unat (chs_cylinder c) * unat heads"
    and le: "unat (chs_cylinder c) * unat heads + unat (chs_head c)
      \<le> (unat (chs_cylinder c) * unat heads + unat (chs_head c)) * unat spt" .
  have track: "unat (ucast (chs_cylinder c) * ucast heads + ucast (chs_head c) :: u32)
      = unat (chs_cylinder c) * unat heads + unat (chs_head c)"
  proof -
    have "unat (chs_cylinder c) * unat heads + unat (chs_head c) < 2 ^ 32"
      by (rule le_less_trans [OF le le_less_trans [OF le_add1 b]])
    then show ?thesis by (subst u32_add) (simp_all add: cyl)
  qed
  have "unat ((ucast (chs_cylinder c) * ucast heads + ucast (chs_head c)) * ucast spt :: u32)
      = (unat (chs_cylinder c) * unat heads + unat (chs_head c)) * unat spt"
    using b by (subst u32_mult) (simp_all add: track)
  then show ?thesis
    using assms(1,2) b s u32_add [of "(ucast (chs_cylinder c) * ucast heads + ucast (chs_head c)) * ucast spt"
        "ucast (chs_sector c) - 1"] by (simp add: lba_from_chs_def sec)
qed

lemma chs_from_lba_fields:
  assumes "heads \<noteq> 0" and "spt \<noteq> 0" and "unat lba div (unat heads * unat spt) < 65536"
  shows "unat (chs_cylinder (chs_from_lba lba heads spt)) = unat lba div (unat heads * unat spt)"
    and "unat (chs_head (chs_from_lba lba heads spt)) = (unat lba div unat spt) mod unat heads"
    and "unat (chs_sector (chs_from_lba lba heads spt)) = unat lba mod unat spt + 1"
proof -
  have "unat heads * unat spt \<le> 255 * 255"
    using unat_u8_bound [of heads] unat_u8_bound [of spt] by (intro mult_mono) simp_all
  then have m: "unat (ucast heads * ucast spt :: u32) = unat heads * unat spt"
    by (simp add: unat_word_ariths(2))
  have pos: "0 < unat heads" "0 < unat spt" using assms(1,2) by (simp_all add: unat_gt_0)
  have "(unat lba div unat spt) mod unat heads < 256"
    using pos(1) unat_u8_bound [of heads] by (meson mod_less_divisor order.strict_trans)
  then show "unat (chs_head (chs_from_lba lba heads spt)) = (unat lba div unat spt) mod unat heads"
    using assms(1,2) by (simp add: chs_from_lba_def Let_def unsigned_ucast_eq take_bit_eq_mod unat_mod unat_div)
  show "unat (chs_cylinder (chs_from_lba lba heads spt)) = unat lba div (unat heads * unat spt)"
    using assms m by (simp add: chs_from_lba_def Let_def unsigned_ucast_eq take_bit_eq_mod unat_div)
  have "unat lba mod unat spt + 1 < 256"
    using pos(2) unat_u8_bound [of spt] by (metis Suc_eq_plus1 Suc_leI mod_less_divisor order.strict_trans1)
  then show "unat (chs_sector (chs_from_lba lba heads spt)) = unat lba mod unat spt + 1"
    using assms(1,2) by (simp add: chs_from_lba_def Let_def unsigned_ucast_eq take_bit_eq_mod unat_mod unat_word_ariths(1))
qed

lemma lba_chs_roundtrip:
  assumes "heads \<noteq> 0" and "spt \<noteq> 0" and "unat lba div (unat heads * unat spt) < 65536"
  shows "lba_from_chs (chs_from_lba lba heads spt) heads spt = lba"
proof -
  note f = chs_from_lba_fields [OF assms]
  let ?q = "unat lba div unat spt"
  have "chs_sector (chs_from_lba lba heads spt) \<noteq> 0" using f(3) by (metis Suc_eq_plus1 nat.distinct(1) unat_0)
  then have "unat (lba_from_chs (chs_from_lba lba heads spt) heads spt)
      = (unat lba div (unat heads * unat spt) * unat heads + ?q mod unat heads) * unat spt + unat lba mod unat spt"
    using lba_from_chs_value [OF assms(1,2)] f by simp
  also have "unat lba div (unat heads * unat spt) * unat heads + ?q mod unat heads = ?q"
    by (metis div_mult2_eq div_mult_mod_eq mult.commute)
  also have "?q * unat spt + unat lba mod unat spt = unat lba" by (rule div_mult_mod_eq)
  finally show ?thesis by (simp add: word_unat_eq_iff)
qed

lemma chs_lba_roundtrip:
  assumes "chs_head c < heads" and "1 \<le> chs_sector c" and "chs_sector c \<le> spt"
  shows "chs_from_lba (lba_from_chs c heads spt) heads spt = c"
proof -
  let ?C = "unat (chs_cylinder c)" and ?H = "unat (chs_head c)" and ?S = "unat (chs_sector c)"
  let ?h = "unat heads" and ?s = "unat spt"
  have h: "?H < ?h" and s: "1 \<le> ?S" "?S \<le> ?s" using assms by (simp_all add: word_less_nat_alt word_le_nat_alt)
  have nz: "heads \<noteq> 0" "spt \<noteq> 0" "chs_sector c \<noteq> 0"
    using h s by (metis not_less_zero unat_0, metis One_nat_def not_less_eq_eq le_trans unat_0 zero_le, metis One_nat_def not_less_eq_eq unat_0 zero_le)
  let ?l = "lba_from_chs c heads spt"
  have v: "unat ?l = (?C * ?h + ?H) * ?s + (?S - 1)" using lba_from_chs_value [OF nz] .
  have S1: "?S - 1 < ?s" using s by simp
  have q: "unat ?l div ?s = ?C * ?h + ?H" "unat ?l mod ?s = ?S - 1" using S1 by (simp_all add: v)
  have c: "unat ?l div (?h * ?s) = ?C"
    using q(1) h by (metis add.right_neutral div_less div_mult2_eq div_mult_self3 mult.commute not_less_zero)
  have f: "unat ?l div (?h * ?s) < 65536" using c unat_u16_bound [of "chs_cylinder c"] by simp
  note fs = chs_from_lba_fields [OF nz(1,2) f]
  have "(?C * ?h + ?H) mod ?h = ?H" using h by simp
  then have "chs_cylinder (chs_from_lba ?l heads spt) = chs_cylinder c" "chs_head (chs_from_lba ?l heads spt) = chs_head c"
    "chs_sector (chs_from_lba ?l heads spt) = chs_sector c"
    using fs q c s by (simp_all add: word_unat_eq_iff)
  then show ?thesis by simp
qed

section \<open>Block devices\<close>

locale block_device =
  fixes valid :: "'d \<Rightarrow> bool" and read_at :: "'d \<Rightarrow> 'k \<Rightarrow> bytes option" and write_at :: "'d \<Rightarrow> 'k \<Rightarrow> bytes \<Rightarrow> 'd"
    and in_reach :: "'d \<Rightarrow> 'k \<Rightarrow> bool"
  assumes valid_write: "valid d \<Longrightarrow> length b = 512 \<Longrightarrow> valid (write_at d k b)"
    and reach_write: "valid d \<Longrightarrow> length b = 512 \<Longrightarrow> in_reach (write_at d k b) k' = in_reach d k'"
    and read_write: "valid d \<Longrightarrow> length b = 512 \<Longrightarrow> in_reach d k \<Longrightarrow> in_reach d k' \<Longrightarrow>
      read_at (write_at d k b) k' = (if k = k' then Some b else read_at d k')"
begin

text \<open>After any writes, a sector reads as what was last written to it, or as before.\<close>

lemma read_writes:
  assumes "valid d" and "\<forall>(k, b) \<in> set ws. in_reach d k \<and> length b = 512" and "in_reach d k'"
  shows "read_at (fold (\<lambda>(k, b) d. write_at d k b) ws d) k'
    = (case map_of (rev ws) k' of Some b \<Rightarrow> Some b | None \<Rightarrow> read_at d k')"
  using assms
proof (induction ws arbitrary: d)
  case Nil
  then show ?case by simp
next
  case (Cons w ws)
  obtain k b where w: "w = (k, b)" by fastforce
  have b: "length b = 512" "in_reach d k" using Cons.prems w by auto
  have "read_at (fold (\<lambda>(k, b) d. write_at d k b) ws (write_at d k b)) k'
      = (case map_of (rev ws) k' of Some b' \<Rightarrow> Some b' | None \<Rightarrow> read_at (write_at d k b) k')"
    using Cons.prems b w by (intro Cons.IH) (auto simp: valid_write reach_write)
  then show ?case
    using read_write [OF Cons.prems(1) b Cons.prems(3)] w
    by (auto simp: map_add_def split: option.splits)
qed

end

definition disk_wf :: "SectorIO \<Rightarrow> bool" where
  "disk_wf io \<longleftrightarrow> (\<exists>img. sio_disk_image io = Some img \<and> length img = unat (sio_disk_size io))"

definition sector_data :: "SectorIO \<Rightarrow> u32 \<Rightarrow> bytes option" where
  "sector_data io lba = (case snd (sector_read io lba) of Returned d \<Rightarrow> d | _ \<Rightarrow> None)"

definition sector_put :: "SectorIO \<Rightarrow> u32 \<Rightarrow> bytes \<Rightarrow> SectorIO" where
  "sector_put io lba b = fst (sector_write io lba (Some b))"

text \<open>The sector lies inside the disk, in unbounded arithmetic.\<close>

definition on_disk :: "SectorIO \<Rightarrow> u32 \<Rightarrow> bool" where
  "on_disk io lba \<longleftrightarrow> 512 * (unat lba + 1) \<le> unat (sio_disk_size io)"

lemma on_disk_offset:
  assumes "on_disk io lba"
  shows "unat (lba * CHAIN_SECTOR_SIZE) = 512 * unat lba"
    and "\<not> lba * CHAIN_SECTOR_SIZE + CHAIN_SECTOR_SIZE > sio_disk_size io"
proof -
  have l: "512 * unat lba + 512 \<le> unat (sio_disk_size io)" using assms by (simp add: on_disk_def)
  then have b: "512 * unat lba + 512 < 4294967296" using unat_u32_bound [of "sio_disk_size io"] by linarith
  then show o: "unat (lba * CHAIN_SECTOR_SIZE) = 512 * unat lba"
    by (simp add: CHAIN_SECTOR_SIZE_def unat_word_ariths(2) mult.commute)
  have "unat (lba * CHAIN_SECTOR_SIZE + CHAIN_SECTOR_SIZE) = 512 * unat lba + 512"
    unfolding unat_word_ariths(1) o using b by (simp add: CHAIN_SECTOR_SIZE_def)
  then show "\<not> lba * CHAIN_SECTOR_SIZE + CHAIN_SECTOR_SIZE > sio_disk_size io"
    using l by (simp add: word_less_nat_alt not_less)
qed

lemma sector_read_on_disk:
  assumes "sio_disk_image io = Some img" and "length img = unat (sio_disk_size io)" and "on_disk io lba"
  shows "sector_read io lba = (io\<lparr>sio_current_lba := lba\<rparr>, Returned (Some (sub_range img (512 * unat lba) 512)))"
  using assms on_disk_offset [OF assms(3)] by (simp add: sector_read_def Let_def on_disk_def)

lemma sector_write_on_disk:
  assumes "sio_disk_image io = Some img" and "length img = unat (sio_disk_size io)" and "on_disk io lba" and "length b = 512"
  shows "sector_write io lba (Some b)
    = (io\<lparr>sio_disk_image := Some (blit img (512 * unat lba) b), sio_current_lba := lba\<rparr>, Returned True)"
  using assms on_disk_offset [OF assms(3)] by (simp add: sector_write_def Let_def on_disk_def)

lemma sector_write_size:
  "sio_disk_size (fst (sector_write io lba b)) = sio_disk_size io"
  by (simp add: sector_write_def Let_def split: option.splits)

lemma disk_wf_write:
  assumes "disk_wf io" and "length b = 512"
  shows "disk_wf (sector_put io lba b)"
  using assms by (auto simp: disk_wf_def sector_put_def sector_write_def Let_def)

interpretation sectors: block_device disk_wf sector_data sector_put on_disk
proof
  fix d :: SectorIO and b :: bytes and k k' :: u32
  assume d: "disk_wf d" and b: "length b = 512"
  show "disk_wf (sector_put d k b)" using d b by (rule disk_wf_write)
  show "on_disk (sector_put d k b) k' = on_disk d k'" by (simp add: on_disk_def sector_put_def sector_write_size)
  assume k: "on_disk d k" and k': "on_disk d k'"
  obtain img where img: "sio_disk_image d = Some img" "length img = unat (sio_disk_size d)"
    using d by (auto simp: disk_wf_def)
  let ?d = "d\<lparr>sio_disk_image := Some (blit img (512 * unat k) b), sio_current_lba := k\<rparr>"
  have put: "sector_put d k b = ?d" using sector_write_on_disk [OF img k b] by (simp add: sector_put_def)
  have fit: "512 * unat k + length b \<le> length img" using k img(2) b by (simp add: on_disk_def)
  have rd: "sector_data ?d k' = Some (sub_range (blit img (512 * unat k) b) (512 * unat k') 512)"
    unfolding sector_data_def using sector_read_on_disk [of ?d "blit img (512 * unat k) b" k'] k' fit img(2)
    by (simp add: on_disk_def)
  have old: "sector_data d k' = Some (sub_range img (512 * unat k') 512)"
    unfolding sector_data_def using sector_read_on_disk [OF img k'] by simp
  show "sector_data (sector_put d k b) k' = (if k = k' then Some b else sector_data d k')"
  proof (cases "k = k'")
    case True
    then show ?thesis using put rd fit b by simp
  next
    case False
    then have "unat k \<noteq> unat k'" by (simp add: word_unat_eq_iff)
    then have "512 * unat k' + 512 \<le> 512 * unat k \<or> 512 * unat k + length b \<le> 512 * unat k'" using b by linarith
    then show ?thesis using False put rd old sub_range_blit_disjoint [OF fit] by simp
  qed
qed

text \<open>The 32-bit byte offset wraps: LBA \<open>2 ^ 23 + n\<close> names the bytes of LBA \<open>n\<close>.\<close>

lemma sector_read_alias:
  "snd (sector_read io (lba + 0x800000)) = snd (sector_read io lba)"
proof -
  have "(lba + 0x800000) * CHAIN_SECTOR_SIZE = lba * CHAIN_SECTOR_SIZE"
    by (simp add: CHAIN_SECTOR_SIZE_def distrib_right)
  then show ?thesis by (simp add: sector_read_def Let_def split: option.splits)
qed

lemma le16_value: "le16 0x55 0xAA = 0xAA55"
  by (simp add: le16_def)

lemma chain_load_on_disk:
  assumes "disk_wf io" and "on_disk io (ucast (ct_start_lba t))"
    and "sector_data io (ucast (ct_start_lba t)) = Some s"
  shows "snd (chain_load_boot_sector io (Some t)) = Returned (s ! 510 = 0x55 \<and> s ! 511 = 0xAA)"
proof -
  obtain img where img: "sio_disk_image io = Some img" "length img = unat (sio_disk_size io)"
    using assms(1) by (auto simp: disk_wf_def)
  have s: "snd (sector_read io (ucast (ct_start_lba t))) = Returned (Some s)"
    using sector_read_on_disk [OF img assms(2)] assms(3) by (simp add: sector_data_def)
  have "le16 a b = 0xAA55 \<longleftrightarrow> a = 0x55 \<and> b = 0xAA" for a b :: u8
    by (rule iffI, metis (mono_tags) le16_bytes [of a b] le16_bytes [of "0x55" "0xAA"] le16_value)
       (simp add: le16_value)
  then show ?thesis using s by (cases "sector_read io (ucast (ct_start_lba t))") (simp add: chain_load_boot_sector_def Let_def)
qed

lemma gpt_scan_found:
  "gpt_scan h img g off i k = Returned (Some pe) \<Longrightarrow>
    \<exists>m. i \<le> m \<and> m < i + k \<and> pe = gpt_load_entry (drop (unat (off + of_nat m * gh_entry_size h)) img)
      \<and> unat (off + of_nat m * gh_entry_size h) + 128 \<le> length img
      \<and> \<not> (gpe_first_lba pe = 0 \<and> gpe_last_lba pe = 0) \<and> (\<forall>t. g = Some t \<longrightarrow> gpe_type_guid pe = take 16 t)"
proof (induction k arbitrary: i)
  case (Suc k)
  define p where "p = unat (off + of_nat i * gh_entry_size h)"
  let ?pe = "gpt_load_entry (drop p img)"
  have step: "gpt_scan h img g off i (Suc k) =
      (if p + 128 > length img then Undefined
       else if gpe_first_lba ?pe = 0 \<and> gpe_last_lba ?pe = 0 then gpt_scan h img g off (i + 1) k
       else if (case g of None \<Rightarrow> True | Some t \<Rightarrow> gpe_type_guid ?pe = take 16 t) then Returned (Some ?pe)
       else gpt_scan h img g off (i + 1) k)"
    unfolding gpt_scan.simps(2) Let_def p_def ..
  have r: "gpt_scan h img g off i (Suc k) = Returned (Some pe)" by (rule Suc.prems)
  have fit: "p + 128 \<le> length img" using r unfolding step by (rule contrapos_pp) simp
  consider (skip) "gpt_scan h img g off (i + 1) k = Returned (Some pe)"
    | (here) "pe = ?pe" "\<not> (gpe_first_lba ?pe = 0 \<and> gpe_last_lba ?pe = 0)"
      "case g of None \<Rightarrow> True | Some t \<Rightarrow> gpe_type_guid ?pe = take 16 t"
    using r fit unfolding step
    by (metis (no_types, lifting) c_result.inject not_less option.inject)
  then show ?case
  proof cases
    case skip
    from Suc.IH [OF this] obtain m where "i + 1 \<le> m" "m < i + 1 + k"
      "pe = gpt_load_entry (drop (unat (off + of_nat m * gh_entry_size h)) img)
      \<and> unat (off + of_nat m * gh_entry_size h) + 128 \<le> length img
      \<and> \<not> (gpe_first_lba pe = 0 \<and> gpe_last_lba pe = 0) \<and> (\<forall>t. g = Some t \<longrightarrow> gpe_type_guid pe = take 16 t)"
      by blast
    then show ?thesis by (intro exI [of _ m] conjI) (simp, simp, blast+)
  next
    case here
    then show ?thesis using fit unfolding p_def by (intro exI [of _ i]) (auto split: option.splits)
  qed
qed simp

end
