(* ===== verification/Psci.thy ===== *)
theory Psci
  imports Prelude
begin

text \<open>
  The PSCI firmware of \<open>mini-firmware/src/psci_fw.c\<close>: the power states of up to 256 CPUs and the
  calls that change them.  The firmware object is always given; \<open>int32_t\<close> results are integers.
  The power state argument of a suspend is decoded for a message only.
\<close>

section \<open>State\<close>

definition PSCI_MAX_CPUS :: nat where "PSCI_MAX_CPUS = 256"

definition PSCI_SUCCESS :: int where "PSCI_SUCCESS = 0"
definition PSCI_NOT_SUPPORTED :: int where "PSCI_NOT_SUPPORTED = -1"
definition PSCI_INVALID_PARAMS :: int where "PSCI_INVALID_PARAMS = -2"
definition PSCI_DENIED :: int where "PSCI_DENIED = -3"
definition PSCI_ALREADY_ON :: int where "PSCI_ALREADY_ON = -4"
definition PSCI_ON_PENDING :: int where "PSCI_ON_PENDING = -5"
definition PSCI_INVALID_ADDRESS :: int where "PSCI_INVALID_ADDRESS = -9"

lemmas psci_codes = PSCI_SUCCESS_def PSCI_NOT_SUPPORTED_def PSCI_INVALID_PARAMS_def PSCI_DENIED_def
  PSCI_ALREADY_ON_def PSCI_ON_PENDING_def PSCI_INVALID_ADDRESS_def

datatype AffinityState = AFFINITY_STATE_ON | AFFINITY_STATE_OFF | AFFINITY_STATE_ON_PENDING
  | AFFINITY_STATE_SUSPEND | AFFINITY_STATE_RECOVERING

text \<open>The enumeration's values; they order the states and are what \<open>AFFINITY_INFO\<close> returns.\<close>

fun affinity_code :: "AffinityState \<Rightarrow> int" where
  "affinity_code AFFINITY_STATE_ON = 0"
| "affinity_code AFFINITY_STATE_OFF = 1"
| "affinity_code AFFINITY_STATE_ON_PENDING = 2"
| "affinity_code AFFINITY_STATE_SUSPEND = 3"
| "affinity_code AFFINITY_STATE_RECOVERING = 4"

lemma affinity_code_inject: "affinity_code a = affinity_code b \<longleftrightarrow> a = b"
  by (cases a; cases b; simp)

instantiation AffinityState :: linorder
begin

definition less_eq_AffinityState :: "AffinityState \<Rightarrow> AffinityState \<Rightarrow> bool" where
  "less_eq_AffinityState a b \<longleftrightarrow> affinity_code a \<le> affinity_code b"

definition less_AffinityState :: "AffinityState \<Rightarrow> AffinityState \<Rightarrow> bool" where
  "less_AffinityState a b \<longleftrightarrow> affinity_code a < affinity_code b"

instance
  by standard (auto simp: less_eq_AffinityState_def less_AffinityState_def affinity_code_inject)

end

record PSCICPU =
  pc_mpidr :: u64
  pc_cpu_id :: u32
  pc_state :: AffinityState
  pc_entry_point :: u64
  pc_context_id :: u64
  pc_hotplug_capable :: bool
  pc_suspend_count :: u32

record PSCIFirmware =
  ps_version_major :: u32
  ps_version_minor :: u32
  ps_cpus :: "PSCICPU list"
  ps_num_cpus :: u32
  ps_system_suspended :: bool
  ps_total_suspend_count :: u32
  ps_total_cpu_on_count :: u32
  ps_total_cpu_off_count :: u32
  ps_reset_count :: u64

section \<open>Calls\<close>

definition psci_empty_cpu :: PSCICPU where
  "psci_empty_cpu =
     \<lparr>pc_mpidr = 0, pc_cpu_id = 0, pc_state = AFFINITY_STATE_ON, pc_entry_point = 0, pc_context_id = 0,
      pc_hotplug_capable = False, pc_suspend_count = 0\<rparr>"

definition psci_init :: "u32 \<Rightarrow> u32 \<Rightarrow> PSCIFirmware" where
  "psci_init version_major version_minor =
     \<lparr>ps_version_major = version_major, ps_version_minor = version_minor,
      ps_cpus = replicate PSCI_MAX_CPUS psci_empty_cpu, ps_num_cpus = 0, ps_system_suspended = False,
      ps_total_suspend_count = 0, ps_total_cpu_on_count = 0, ps_total_cpu_off_count = 0, ps_reset_count = 0\<rparr>"

definition psci_register_cpu :: "PSCIFirmware \<Rightarrow> u64 \<Rightarrow> u32 \<Rightarrow> u64 \<Rightarrow> PSCIFirmware \<times> bool" where
  "psci_register_cpu psci mpidr cpu_id entry_point =
     (if ps_num_cpus psci \<ge> of_nat PSCI_MAX_CPUS then (psci, False)
      else let cpu = \<lparr>pc_mpidr = mpidr, pc_cpu_id = cpu_id, pc_state = AFFINITY_STATE_OFF,
                      pc_entry_point = entry_point, pc_context_id = 0, pc_hotplug_capable = True,
                      pc_suspend_count = 0\<rparr>
           in (psci\<lparr>ps_cpus := (ps_cpus psci)[unat (ps_num_cpus psci) := cpu],
                    ps_num_cpus := ps_num_cpus psci + 1\<rparr>, True))"

definition psci_find_cpu :: "PSCIFirmware \<Rightarrow> u64 \<Rightarrow> nat option" where
  "psci_find_cpu psci mpidr =
     find_index (\<lambda>cpu. pc_mpidr cpu = mpidr) (take (unat (ps_num_cpus psci)) (ps_cpus psci))"

definition psci_call_version :: "PSCIFirmware \<Rightarrow> int" where
  "psci_call_version psci = sint (push_bit 16 (ps_version_major psci) OR ps_version_minor psci)"

definition psci_call_cpu_off :: "PSCIFirmware \<Rightarrow> u32 \<Rightarrow> PSCIFirmware \<times> int" where
  "psci_call_cpu_off psci cpu_id =
     (if cpu_id \<ge> ps_num_cpus psci then (psci, PSCI_INVALID_PARAMS)
      else let i = unat cpu_id; cpu = ps_cpus psci ! i
           in if pc_state cpu \<noteq> AFFINITY_STATE_ON then (psci, PSCI_ALREADY_ON)
              else (psci\<lparr>ps_cpus := (ps_cpus psci)[i := cpu\<lparr>pc_state := AFFINITY_STATE_OFF\<rparr>],
                         ps_total_cpu_off_count := ps_total_cpu_off_count psci + 1\<rparr>, PSCI_SUCCESS))"

definition psci_call_cpu_on :: "PSCIFirmware \<Rightarrow> u64 \<Rightarrow> u64 \<Rightarrow> u64 \<Rightarrow> PSCIFirmware \<times> int" where
  "psci_call_cpu_on psci mpidr entry_point context_id =
     (case psci_find_cpu psci mpidr of None \<Rightarrow> (psci, PSCI_INVALID_PARAMS)
      | Some i \<Rightarrow>
          let cpu = ps_cpus psci ! i
          in if pc_state cpu \<noteq> AFFINITY_STATE_OFF
             then (psci, if pc_state cpu = AFFINITY_STATE_ON then PSCI_ALREADY_ON
                         else if pc_state cpu = AFFINITY_STATE_ON_PENDING then PSCI_ON_PENDING
                         else PSCI_DENIED)
             else if entry_point = 0 then (psci, PSCI_INVALID_ADDRESS)
             else let cpu1 = cpu\<lparr>pc_state := AFFINITY_STATE_ON_PENDING, pc_entry_point := entry_point,
                                 pc_context_id := context_id\<rparr>;
                      cpu2 = cpu1\<lparr>pc_state := AFFINITY_STATE_ON\<rparr>
                  in (psci\<lparr>ps_cpus := (ps_cpus psci)[i := cpu2],
                           ps_total_cpu_on_count := ps_total_cpu_on_count psci + 1\<rparr>, PSCI_SUCCESS))"

definition psci_call_cpu_suspend :: "PSCIFirmware \<Rightarrow> u32 \<Rightarrow> u32 \<Rightarrow> u64 \<Rightarrow> u64 \<Rightarrow> PSCIFirmware \<times> int" where
  "psci_call_cpu_suspend psci cpu_id power_state entry_point context_id =
     (if cpu_id \<ge> ps_num_cpus psci then (psci, PSCI_INVALID_PARAMS)
      else let i = unat cpu_id; cpu = ps_cpus psci ! i
           in if pc_state cpu \<noteq> AFFINITY_STATE_ON then (psci, PSCI_DENIED)
              else let cpu1 = cpu\<lparr>pc_entry_point := entry_point, pc_context_id := context_id,
                                  pc_state := AFFINITY_STATE_SUSPEND, pc_suspend_count := pc_suspend_count cpu + 1\<rparr>;
                       cpu2 = cpu1\<lparr>pc_state := AFFINITY_STATE_ON\<rparr>
                   in (psci\<lparr>ps_cpus := (ps_cpus psci)[i := cpu2],
                            ps_total_suspend_count := ps_total_suspend_count psci + 1\<rparr>, PSCI_SUCCESS))"

definition psci_call_affinity_info :: "PSCIFirmware \<Rightarrow> u64 \<Rightarrow> int" where
  "psci_call_affinity_info psci mpidr =
     (case psci_find_cpu psci mpidr of None \<Rightarrow> PSCI_INVALID_PARAMS
      | Some i \<Rightarrow> affinity_code (pc_state (ps_cpus psci ! i)))"

text \<open>The loop that \<open>SYSTEM_OFF\<close> and \<open>SYSTEM_RESET\<close> share.\<close>

definition psci_halt_cpus :: "PSCIFirmware \<Rightarrow> PSCICPU list" where
  "psci_halt_cpus psci =
     fold (\<lambda>i cpus. cpus[i := (cpus ! i)\<lparr>pc_state := AFFINITY_STATE_OFF\<rparr>]) [0..<unat (ps_num_cpus psci)] (ps_cpus psci)"

definition psci_call_system_off :: "PSCIFirmware \<Rightarrow> PSCIFirmware \<times> int" where
  "psci_call_system_off psci = (psci\<lparr>ps_cpus := psci_halt_cpus psci\<rparr>, PSCI_SUCCESS)"

definition psci_call_system_reset :: "PSCIFirmware \<Rightarrow> PSCIFirmware \<times> int" where
  "psci_call_system_reset psci =
     (psci\<lparr>ps_cpus := psci_halt_cpus psci, ps_reset_count := ps_reset_count psci + 1,
           ps_system_suspended := False\<rparr>, PSCI_SUCCESS)"

definition psci_call_features :: "PSCIFirmware \<Rightarrow> u32 \<Rightarrow> int" where
  "psci_call_features psci func_id =
     (if func_id \<in> {0x84000000, 0x84000002, 0xC4000003, 0xC4000001, 0xC4000004, 0x84000008, 0x84000009, 0x8400000A}
      then 0
      else if func_id \<in> {0xC4000010, 0xC4000011}
      then (if ps_version_major psci \<ge> 1 \<and> ps_version_minor psci \<ge> 1 then 0 else PSCI_NOT_SUPPORTED)
      else if func_id = 0xC4000012
      then (if ps_version_major psci \<ge> 1 \<and> ps_version_minor psci \<ge> 1 then 0 else PSCI_NOT_SUPPORTED)
      else if func_id = 0x84000013
      then (if ps_version_major psci \<ge> 1 \<and> ps_version_minor psci \<ge> 2 then 0 else PSCI_NOT_SUPPORTED)
      else PSCI_NOT_SUPPORTED)"

section \<open>One CPU\<close>

text \<open>What a call can do to one CPU, and the moves that leave it where it is.\<close>

inductive cpu_step :: "PSCICPU \<Rightarrow> PSCICPU \<Rightarrow> bool" where
  turn_on: "pc_state c = AFFINITY_STATE_OFF \<Longrightarrow> entry \<noteq> 0 \<Longrightarrow>
    cpu_step c (c\<lparr>pc_entry_point := entry, pc_context_id := ctx, pc_state := AFFINITY_STATE_ON\<rparr>)"
| turn_off: "pc_state c = AFFINITY_STATE_ON \<Longrightarrow> cpu_step c (c\<lparr>pc_state := AFFINITY_STATE_OFF\<rparr>)"
| suspend: "pc_state c = AFFINITY_STATE_ON \<Longrightarrow>
    cpu_step c (c\<lparr>pc_entry_point := entry, pc_context_id := ctx, pc_suspend_count := pc_suspend_count c + 1,
      pc_state := AFFINITY_STATE_ON\<rparr>)"

inductive_cases cpu_stepE: "cpu_step c c'"

text \<open>Powered up or down: the only states between calls.\<close>

definition cpu_settled :: "PSCICPU \<Rightarrow> bool" where
  "cpu_settled c \<longleftrightarrow> pc_state c \<le> AFFINITY_STATE_OFF"

lemma cpu_settled_iff: "cpu_settled c \<longleftrightarrow> pc_state c = AFFINITY_STATE_ON \<or> pc_state c = AFFINITY_STATE_OFF"
  by (cases "pc_state c") (simp_all add: cpu_settled_def less_eq_AffinityState_def)

lemma cpu_step_keeps: "cpu_step c c' \<Longrightarrow> cpu_settled c' \<and> pc_mpidr c' = pc_mpidr c \<and> pc_cpu_id c' = pc_cpu_id c"
  by (erule cpu_stepE) (simp_all add: cpu_settled_iff)

section \<open>The firmware\<close>

definition psci_live :: "PSCIFirmware \<Rightarrow> PSCICPU list" where
  "psci_live psci = take (unat (ps_num_cpus psci)) (ps_cpus psci)"

definition psci_wf :: "PSCIFirmware \<Rightarrow> bool" where
  "psci_wf psci \<longleftrightarrow>
     length (ps_cpus psci) = PSCI_MAX_CPUS \<and> unat (ps_num_cpus psci) \<le> PSCI_MAX_CPUS \<and>
     (\<forall>c \<in> set (psci_live psci). cpu_settled c)"

definition cpus_on :: "PSCIFirmware \<Rightarrow> nat" where
  "cpus_on psci = length (filter (\<lambda>c. pc_state c = AFFINITY_STATE_ON) (psci_live psci))"

lemma psci_findD:
  assumes "psci_wf psci" and "psci_find_cpu psci mpidr = Some i"
  shows "i < unat (ps_num_cpus psci)" and "i < length (ps_cpus psci)" and "pc_mpidr (ps_cpus psci ! i) = mpidr"
    and "ps_cpus psci ! i = psci_live psci ! i" and "i < length (psci_live psci)"
  using find_index_SomeD [OF assms(2) [unfolded psci_find_cpu_def]] assms(1)
  by (auto simp: psci_wf_def psci_live_def)

definition psci_set :: "PSCIFirmware \<Rightarrow> nat \<Rightarrow> PSCICPU \<Rightarrow> PSCIFirmware" where
  "psci_set psci i c = psci\<lparr>ps_cpus := (ps_cpus psci)[i := c]\<rparr>"

lemma psci_live_set: "i < unat (ps_num_cpus psci) \<Longrightarrow>
    psci_live (psci\<lparr>ps_cpus := (ps_cpus psci)[i := c]\<rparr>) = (psci_live psci)[i := c]"
  by (simp add: psci_live_def take_update_swap)

lemma psci_find_set:
  assumes "i < unat (ps_num_cpus psci)" and "i < length (ps_cpus psci)" and "pc_mpidr c = pc_mpidr (ps_cpus psci ! i)"
  shows "psci_find_cpu (psci\<lparr>ps_cpus := (ps_cpus psci)[i := c]\<rparr>) m = psci_find_cpu psci m"
  unfolding psci_find_cpu_def using assms
  by (simp add: take_update_swap find_index_update_keep)

text \<open>A call on one CPU: either it changes nothing, or it takes one step of one registered CPU.\<close>

definition psci_stepped :: "PSCIFirmware \<Rightarrow> PSCIFirmware \<Rightarrow> nat \<Rightarrow> bool" where
  "psci_stepped psci psci' i \<longleftrightarrow>
     i < unat (ps_num_cpus psci) \<and> (\<exists>c'. cpu_step (ps_cpus psci ! i) c' \<and> ps_cpus psci' = (ps_cpus psci)[i := c'])
     \<and> ps_num_cpus psci' = ps_num_cpus psci"

lemma psci_cpu_off_step:
  "psci_call_cpu_off psci n = (psci', r) \<Longrightarrow>
    (r \<noteq> PSCI_SUCCESS \<and> psci' = psci) \<or> (r = PSCI_SUCCESS \<and> psci_stepped psci psci' (unat n))"
  by (auto simp: psci_call_cpu_off_def Let_def psci_stepped_def psci_codes word_le_nat_alt not_le
      intro: turn_off split: if_splits)

lemma psci_cpu_on_step:
  assumes "psci_wf psci" and "psci_call_cpu_on psci m e c = (psci', r)"
  shows "(r \<noteq> PSCI_SUCCESS \<and> psci' = psci)
    \<or> (r = PSCI_SUCCESS \<and> (\<exists>i. psci_find_cpu psci m = Some i \<and> psci_stepped psci psci' i))"
proof (cases "psci_find_cpu psci m")
  case None
  then show ?thesis using assms(2) by (auto simp: psci_call_cpu_on_def psci_codes)
next
  case (Some i)
  let ?c = "ps_cpus psci ! i"
  have i: "i < unat (ps_num_cpus psci)" using psci_findD(1) [OF assms(1) Some] .
  show ?thesis
  proof (cases "pc_state ?c = AFFINITY_STATE_OFF \<and> e \<noteq> 0")
    case True
    then have "cpu_step ?c (?c\<lparr>pc_entry_point := e, pc_context_id := c, pc_state := AFFINITY_STATE_ON\<rparr>)"
      by (intro turn_on) auto
    then show ?thesis using True Some i assms(2)
      by (auto simp: psci_call_cpu_on_def Let_def psci_stepped_def)
  next
    case False
    then show ?thesis using Some assms(2)
      by (auto simp: psci_call_cpu_on_def Let_def psci_codes split: if_splits)
  qed
qed

lemma psci_suspend_step:
  "psci_call_cpu_suspend psci n p e c = (psci', r) \<Longrightarrow>
    (r \<noteq> PSCI_SUCCESS \<and> psci' = psci) \<or> (r = PSCI_SUCCESS \<and> psci_stepped psci psci' (unat n))"
  by (auto simp: psci_call_cpu_suspend_def Let_def psci_stepped_def psci_codes word_le_nat_alt not_le
      split: if_splits intro!: exI [of _ "(ps_cpus psci ! unat n)\<lparr>pc_entry_point := e, pc_context_id := c,
        pc_suspend_count := pc_suspend_count (ps_cpus psci ! unat n) + 1, pc_state := AFFINITY_STATE_ON\<rparr>"] suspend)

lemma psci_stepped_wf:
  assumes "psci_wf psci" and "psci_stepped psci psci' i"
  shows "psci_wf psci'"
proof -
  obtain c' where c: "i < unat (ps_num_cpus psci)" "cpu_settled c'" "ps_cpus psci' = (ps_cpus psci)[i := c']"
      "ps_num_cpus psci' = ps_num_cpus psci"
    using assms(2) cpu_step_keeps by (auto simp: psci_stepped_def)
  have "psci_live psci' = (psci_live psci)[i := c']" using c by (simp add: psci_live_def take_update_swap)
  then show ?thesis
    using assms(1) c by (auto simp: psci_wf_def dest!: set_update_subset_insert [THEN subsetD])
qed

lemma halt_cpus:
  "n \<le> length cs \<Longrightarrow>
    fold (\<lambda>i cpus. cpus[i := (cpus ! i)\<lparr>pc_state := AFFINITY_STATE_OFF\<rparr>]) [0..<n] cs
      = map (\<lambda>c. c\<lparr>pc_state := AFFINITY_STATE_OFF\<rparr>) (take n cs) @ drop n cs"
proof (induction n)
  case (Suc n)
  then show ?case by (simp add: take_Suc_conv_app_nth list_update_append nth_append) (simp add: Cons_nth_drop_Suc [symmetric])
qed simp

lemma psci_halt:
  assumes "psci_wf psci" and "ps_cpus psci' = psci_halt_cpus psci" and "ps_num_cpus psci' = ps_num_cpus psci"
  shows "psci_live psci' = map (\<lambda>c. c\<lparr>pc_state := AFFINITY_STATE_OFF\<rparr>) (psci_live psci)" and "psci_wf psci'"
proof -
  have h: "psci_halt_cpus psci = map (\<lambda>c. c\<lparr>pc_state := AFFINITY_STATE_OFF\<rparr>) (psci_live psci)
      @ drop (unat (ps_num_cpus psci)) (ps_cpus psci)"
    using assms(1) halt_cpus [of "unat (ps_num_cpus psci)" "ps_cpus psci"]
    by (simp add: psci_halt_cpus_def psci_live_def psci_wf_def)
  have l: "length (psci_live psci) = unat (ps_num_cpus psci)" using assms(1) by (simp add: psci_live_def psci_wf_def)
  show m: "psci_live psci' = map (\<lambda>c. c\<lparr>pc_state := AFFINITY_STATE_OFF\<rparr>) (psci_live psci)"
    using assms(2,3) h l by (simp add: psci_live_def)
  show "psci_wf psci'"
    using assms m h l by (auto simp: psci_wf_def cpu_settled_iff)
qed

lemma psci_register_live:
  assumes "psci_wf psci" and "psci_register_cpu psci m n e = (psci', True)"
  shows "\<exists>c. pc_state c = AFFINITY_STATE_OFF \<and> pc_mpidr c = m \<and> psci_live psci' = psci_live psci @ [c]"
    and "psci_wf psci'"
proof -
  have lt: "unat (ps_num_cpus psci) < 256"
    using assms(2) by (simp add: psci_register_cpu_def PSCI_MAX_CPUS_def word_le_nat_alt not_le split: if_splits)
  then have suc: "unat (ps_num_cpus psci + 1) = Suc (unat (ps_num_cpus psci))" by (intro unat_suc) simp
  let ?c = "\<lparr>pc_mpidr = m, pc_cpu_id = n, pc_state = AFFINITY_STATE_OFF, pc_entry_point = e, pc_context_id = 0,
      pc_hotplug_capable = True, pc_suspend_count = 0\<rparr>"
  have p: "psci' = psci\<lparr>ps_cpus := (ps_cpus psci)[unat (ps_num_cpus psci) := ?c], ps_num_cpus := ps_num_cpus psci + 1\<rparr>"
    using assms(2) by (simp add: psci_register_cpu_def Let_def split: if_splits)
  have l: "psci_live psci' = psci_live psci @ [?c]"
    using lt assms(1) by (simp add: p psci_live_def suc take_Suc_conv_app_nth psci_wf_def PSCI_MAX_CPUS_def)
  then show "\<exists>c. pc_state c = AFFINITY_STATE_OFF \<and> pc_mpidr c = m \<and> psci_live psci' = psci_live psci @ [c]" by auto
  show "psci_wf psci'" using assms(1) l lt by (auto simp: psci_wf_def p suc PSCI_MAX_CPUS_def cpu_settled_iff)
qed

section \<open>Runs\<close>

datatype psci_op =
    Register u64 u32 u64
  | Cpu_On u64 u64 u64
  | Cpu_Off u32
  | Cpu_Suspend u32 u32 u64 u64
  | System_Off
  | System_Reset

fun psci_exec :: "psci_op \<Rightarrow> PSCIFirmware \<Rightarrow> PSCIFirmware" where
  "psci_exec (Register m n e) psci = fst (psci_register_cpu psci m n e)"
| "psci_exec (Cpu_On m e c) psci = fst (psci_call_cpu_on psci m e c)"
| "psci_exec (Cpu_Off n) psci = fst (psci_call_cpu_off psci n)"
| "psci_exec (Cpu_Suspend n p e c) psci = fst (psci_call_cpu_suspend psci n p e c)"
| "psci_exec System_Off psci = fst (psci_call_system_off psci)"
| "psci_exec System_Reset psci = fst (psci_call_system_reset psci)"

lemma psci_wf_init: "psci_wf (psci_init a b)"
  by (simp add: psci_wf_def psci_init_def psci_live_def)

lemma psci_exec_wf: "psci_wf psci \<Longrightarrow> psci_wf (psci_exec op psci)"
proof (cases op)
  case (Register m n e)
  assume wf: "psci_wf psci"
  show ?thesis
  proof (cases "snd (psci_register_cpu psci m n e)")
    case True
    then show ?thesis using psci_register_live(2) [OF wf] Register by (metis prod.collapse psci_exec.simps(1))
  next
    case False
    then show ?thesis using wf Register by (simp add: psci_register_cpu_def Let_def split: if_splits)
  qed
next
  case (Cpu_On m e c)
  assume wf: "psci_wf psci"
  then show ?thesis
    using Cpu_On psci_cpu_on_step [OF wf, of m e c] psci_stepped_wf [OF wf]
    by (cases "psci_call_cpu_on psci m e c") auto
next
  case (Cpu_Off n)
  assume wf: "psci_wf psci"
  then show ?thesis
    using Cpu_Off psci_cpu_off_step psci_stepped_wf [OF wf] by (cases "psci_call_cpu_off psci n") fastforce
next
  case (Cpu_Suspend n p e c)
  assume wf: "psci_wf psci"
  then show ?thesis
    using Cpu_Suspend psci_suspend_step psci_stepped_wf [OF wf]
    by (cases "psci_call_cpu_suspend psci n p e c") fastforce
next
  case System_Off
  assume "psci_wf psci"
  then show ?thesis using System_Off psci_halt(2) by (simp add: psci_call_system_off_def)
next
  case System_Reset
  assume "psci_wf psci"
  then show ?thesis using System_Reset psci_halt(2) by (simp add: psci_call_system_reset_def)
qed

lemma psci_run_wf: "psci_wf psci \<Longrightarrow> psci_wf (fold psci_exec ops psci)"
  by (induction ops arbitrary: psci) (simp_all add: psci_exec_wf)

section \<open>Accounting\<close>

definition psci_balanced :: "PSCIFirmware \<Rightarrow> bool" where
  "psci_balanced psci \<longleftrightarrow> ps_total_cpu_on_count psci = ps_total_cpu_off_count psci + of_nat (cpus_on psci)"

lemma cpus_on_set:
  assumes "psci_wf psci" and "i < unat (ps_num_cpus psci)" and "ps_cpus psci' = (ps_cpus psci)[i := c]"
    and "ps_num_cpus psci' = ps_num_cpus psci"
  shows "pc_state (ps_cpus psci ! i) \<noteq> AFFINITY_STATE_ON \<Longrightarrow> pc_state c = AFFINITY_STATE_ON \<Longrightarrow>
      cpus_on psci' = Suc (cpus_on psci)"
    and "pc_state (ps_cpus psci ! i) = AFFINITY_STATE_ON \<Longrightarrow> pc_state c \<noteq> AFFINITY_STATE_ON \<Longrightarrow>
      cpus_on psci = Suc (cpus_on psci')"
    and "pc_state (ps_cpus psci ! i) = AFFINITY_STATE_ON \<Longrightarrow> pc_state c = AFFINITY_STATE_ON \<Longrightarrow>
      cpus_on psci' = cpus_on psci"
proof -
  have l: "psci_live psci' = (psci_live psci)[i := c]" using assms(2-4) by (simp add: psci_live_def take_update_swap)
  have i: "i < length (psci_live psci)" "psci_live psci ! i = ps_cpus psci ! i"
    using assms(1,2) by (auto simp: psci_live_def psci_wf_def)
  let ?P = "\<lambda>c. pc_state c = AFFINITY_STATE_ON"
  note f = filter_active_set [OF i(1), of ?P c] filter_active_clear [OF i(1), of ?P c] filter_active_keep [OF i(1), of ?P c]
  show "pc_state (ps_cpus psci ! i) \<noteq> AFFINITY_STATE_ON \<Longrightarrow> pc_state c = AFFINITY_STATE_ON \<Longrightarrow>
      cpus_on psci' = Suc (cpus_on psci)"
    using f(1) i(2) by (simp add: cpus_on_def l)
  show "pc_state (ps_cpus psci ! i) = AFFINITY_STATE_ON \<Longrightarrow> pc_state c \<noteq> AFFINITY_STATE_ON \<Longrightarrow>
      cpus_on psci = Suc (cpus_on psci')"
    using f(2) i(2) by (simp add: cpus_on_def l)
  show "pc_state (ps_cpus psci ! i) = AFFINITY_STATE_ON \<Longrightarrow> pc_state c = AFFINITY_STATE_ON \<Longrightarrow>
      cpus_on psci' = cpus_on psci"
    using f(3) i(2) by (simp add: cpus_on_def l)
qed

lemma psci_on_balanced:
  assumes "psci_wf psci" and "psci_balanced psci"
  shows "psci_balanced (fst (psci_call_cpu_on psci m e c))"
proof (cases "psci_find_cpu psci m")
  case (Some i)
  let ?c = "ps_cpus psci ! i" and ?p = "fst (psci_call_cpu_on psci m e c)"
  show ?thesis
  proof (cases "pc_state ?c = AFFINITY_STATE_OFF \<and> e \<noteq> 0")
    case True
    then have p: "ps_cpus ?p = (ps_cpus psci)[i := ?c\<lparr>pc_entry_point := e, pc_context_id := c, pc_state := AFFINITY_STATE_ON\<rparr>]"
        "ps_num_cpus ?p = ps_num_cpus psci" "ps_total_cpu_on_count ?p = ps_total_cpu_on_count psci + 1"
        "ps_total_cpu_off_count ?p = ps_total_cpu_off_count psci"
      using Some by (simp_all add: psci_call_cpu_on_def Let_def)
    have "cpus_on ?p = Suc (cpus_on psci)"
      by (rule cpus_on_set(1) [OF assms(1) psci_findD(1) [OF assms(1) Some] p(1,2)]) (use True in simp_all)
    then show ?thesis using assms(2) p(3,4) by (simp add: psci_balanced_def)
  next
    case False
    then show ?thesis using Some assms(2) by (simp add: psci_call_cpu_on_def Let_def split: if_splits)
  qed
qed (use assms(2) in \<open>simp add: psci_call_cpu_on_def\<close>)

lemma psci_off_balanced:
  assumes "psci_wf psci" and "psci_balanced psci"
  shows "psci_balanced (fst (psci_call_cpu_off psci n))"
proof (cases "n < ps_num_cpus psci \<and> pc_state (ps_cpus psci ! unat n) = AFFINITY_STATE_ON")
  case True
  let ?c = "ps_cpus psci ! unat n" and ?p = "fst (psci_call_cpu_off psci n)"
  have p: "ps_cpus ?p = (ps_cpus psci)[unat n := ?c\<lparr>pc_state := AFFINITY_STATE_OFF\<rparr>]" "ps_num_cpus ?p = ps_num_cpus psci"
      "ps_total_cpu_off_count ?p = ps_total_cpu_off_count psci + 1" "ps_total_cpu_on_count ?p = ps_total_cpu_on_count psci"
    using True by (auto simp: psci_call_cpu_off_def Let_def not_le [symmetric])
  have n: "unat n < unat (ps_num_cpus psci)" using True by (simp add: word_less_nat_alt)
  have "cpus_on psci = Suc (cpus_on ?p)"
    by (rule cpus_on_set(2) [OF assms(1) n p(1,2)]) (use True in simp_all)
  then show ?thesis using assms(2) p(3,4) by (simp add: psci_balanced_def)
next
  case False
  then have "fst (psci_call_cpu_off psci n) = psci" by (auto simp: psci_call_cpu_off_def Let_def not_le)
  then show ?thesis using assms(2) by simp
qed

lemma psci_suspend_balanced:
  assumes "psci_wf psci" and "psci_balanced psci"
  shows "psci_balanced (fst (psci_call_cpu_suspend psci n pw e c))"
proof (cases "n < ps_num_cpus psci \<and> pc_state (ps_cpus psci ! unat n) = AFFINITY_STATE_ON")
  case True
  let ?c = "ps_cpus psci ! unat n" and ?p = "fst (psci_call_cpu_suspend psci n pw e c)"
  have p: "ps_cpus ?p = (ps_cpus psci)[unat n := ?c\<lparr>pc_entry_point := e, pc_context_id := c,
        pc_suspend_count := pc_suspend_count ?c + 1, pc_state := AFFINITY_STATE_ON\<rparr>]" "ps_num_cpus ?p = ps_num_cpus psci"
      "ps_total_cpu_off_count ?p = ps_total_cpu_off_count psci" "ps_total_cpu_on_count ?p = ps_total_cpu_on_count psci"
    using True by (auto simp: psci_call_cpu_suspend_def Let_def not_le [symmetric])
  have n: "unat n < unat (ps_num_cpus psci)" using True by (simp add: word_less_nat_alt)
  have "cpus_on ?p = cpus_on psci"
    by (rule cpus_on_set(3) [OF assms(1) n p(1,2)]) (use True in simp_all)
  then show ?thesis using assms(2) p(3,4) by (simp add: psci_balanced_def)
next
  case False
  then have "fst (psci_call_cpu_suspend psci n pw e c) = psci" by (auto simp: psci_call_cpu_suspend_def Let_def not_le)
  then show ?thesis using assms(2) by simp
qed

lemma psci_register_balanced:
  assumes "psci_wf psci" and "psci_balanced psci"
  shows "psci_balanced (fst (psci_register_cpu psci m n e))"
proof (cases "snd (psci_register_cpu psci m n e)")
  case True
  let ?p = "fst (psci_register_cpu psci m n e)"
  have r: "psci_register_cpu psci m n e = (?p, True)" using True by (metis prod.collapse)
  obtain c where "pc_state c = AFFINITY_STATE_OFF" "psci_live ?p = psci_live psci @ [c]"
    using psci_register_live(1) [OF assms(1) r] by blast
  then have "cpus_on ?p = cpus_on psci" by (simp add: cpus_on_def)
  moreover have "ps_total_cpu_on_count ?p = ps_total_cpu_on_count psci" "ps_total_cpu_off_count ?p = ps_total_cpu_off_count psci"
    by (simp_all add: psci_register_cpu_def Let_def)
  ultimately show ?thesis using assms(2) by (simp add: psci_balanced_def)
next
  case False
  then show ?thesis using assms(2) by (simp add: psci_register_cpu_def Let_def split: if_splits)
qed

fun psci_op_system :: "psci_op \<Rightarrow> bool" where
  "psci_op_system System_Off = True"
| "psci_op_system System_Reset = True"
| "psci_op_system _ = False"

lemma psci_run_balanced:
  "psci_wf psci \<Longrightarrow> psci_balanced psci \<Longrightarrow> \<forall>op \<in> set ops. \<not> psci_op_system op \<Longrightarrow> psci_balanced (fold psci_exec ops psci)"
proof (induction ops arbitrary: psci)
  case (Cons op ops)
  have "psci_balanced (psci_exec op psci)"
    using Cons.prems
    by (cases op) (simp_all add: psci_on_balanced psci_off_balanced psci_suspend_balanced psci_register_balanced)
  then show ?case using Cons.IH [OF psci_exec_wf [OF Cons.prems(1)]] Cons.prems(3) by simp
qed simp

section \<open>What a call means for a CPU\<close>

definition psci_state :: "PSCIFirmware \<Rightarrow> u64 \<Rightarrow> AffinityState option" where
  "psci_state psci mpidr = map_option (\<lambda>i. pc_state (ps_cpus psci ! i)) (psci_find_cpu psci mpidr)"

lemma psci_affinity_info_state:
  "psci_call_affinity_info psci m = (case psci_state psci m of None \<Rightarrow> PSCI_INVALID_PARAMS | Some s \<Rightarrow> affinity_code s)"
  by (simp add: psci_call_affinity_info_def psci_state_def split: option.splits)

lemma psci_state_settled:
  assumes "psci_wf psci" and "psci_state psci m = Some s"
  shows "s = AFFINITY_STATE_ON \<or> s = AFFINITY_STATE_OFF"
proof -
  obtain i where i: "psci_find_cpu psci m = Some i" "s = pc_state (ps_cpus psci ! i)"
    using assms(2) by (auto simp: psci_state_def)
  have "ps_cpus psci ! i \<in> set (psci_live psci)" using psci_findD(4,5) [OF assms(1) i(1)] by simp
  then show ?thesis using assms(1) i(2) by (auto simp: psci_wf_def cpu_settled_iff)
qed

lemma psci_state_set:
  assumes "psci_wf psci" and "psci_find_cpu psci m = Some i" and "pc_mpidr c = pc_mpidr (ps_cpus psci ! i)"
    and "ps_cpus psci' = (ps_cpus psci)[i := c]" and "ps_num_cpus psci' = ps_num_cpus psci"
  shows "psci_state psci' = (psci_state psci)(m \<mapsto> pc_state c)"
proof
  fix m'
  note f = psci_findD [OF assms(1,2)]
  have find: "psci_find_cpu psci' m' = psci_find_cpu psci m'"
    using psci_find_set [OF f(1,2) assms(3), of m'] assms(4,5) by (simp add: psci_find_cpu_def)
  show "psci_state psci' m' = ((psci_state psci)(m \<mapsto> pc_state c)) m'"
  proof (cases "psci_find_cpu psci m'")
    case None
    then show ?thesis using find assms(2) by (auto simp: psci_state_def)
  next
    case (Some j)
    then show ?thesis
      using find assms(2,4) f(2,3) psci_findD(3) [OF assms(1) Some]
      by (cases "j = i") (auto simp: psci_state_def)
  qed
qed

lemma psci_cpu_on_functional:
  assumes "psci_wf psci"
  shows "psci_call_cpu_on psci m e c = (psci', r) \<Longrightarrow>
    (case psci_state psci m of
       None \<Rightarrow> r = PSCI_INVALID_PARAMS \<and> psci' = psci
     | Some s \<Rightarrow>
         if s = AFFINITY_STATE_ON then r = PSCI_ALREADY_ON \<and> psci' = psci
         else if e = 0 then r = PSCI_INVALID_ADDRESS \<and> psci' = psci
         else r = PSCI_SUCCESS \<and> psci_state psci' = (psci_state psci)(m \<mapsto> AFFINITY_STATE_ON))"
proof (cases "psci_find_cpu psci m")
  case None
  assume "psci_call_cpu_on psci m e c = (psci', r)"
  then show ?thesis using None by (simp add: psci_call_cpu_on_def psci_state_def)
next
  case (Some i)
  assume p: "psci_call_cpu_on psci m e c = (psci', r)"
  let ?c = "ps_cpus psci ! i"
  have s: "psci_state psci m = Some (pc_state ?c)" using Some by (simp add: psci_state_def)
  have st: "pc_state ?c = AFFINITY_STATE_ON \<or> pc_state ?c = AFFINITY_STATE_OFF" using psci_state_settled [OF assms s] .
  show ?thesis
  proof (cases "pc_state ?c = AFFINITY_STATE_OFF \<and> e \<noteq> 0")
    case True
    let ?n = "?c\<lparr>pc_entry_point := e, pc_context_id := c, pc_state := AFFINITY_STATE_ON\<rparr>"
    have q: "ps_cpus psci' = (ps_cpus psci)[i := ?n]" "ps_num_cpus psci' = ps_num_cpus psci" "r = PSCI_SUCCESS"
      using p Some True by (auto simp: psci_call_cpu_on_def Let_def)
    have "psci_state psci' = (psci_state psci)(m \<mapsto> pc_state ?n)"
      by (rule psci_state_set [OF assms Some _ q(1,2)]) simp
    then show ?thesis using q(3) s True by simp
  next
    case False
    then show ?thesis using p Some s st by (auto simp: psci_call_cpu_on_def Let_def)
  qed
qed

text \<open>A second CPU with a registered MPIDR is never found by it.\<close>

lemma psci_register_duplicate:
  assumes "psci_wf psci" and "psci_find_cpu psci m = Some i"
  shows "psci_find_cpu (fst (psci_register_cpu psci m n e)) m = Some i"
proof (cases "snd (psci_register_cpu psci m n e)")
  case True
  let ?p = "fst (psci_register_cpu psci m n e)"
  have r: "psci_register_cpu psci m n e = (?p, True)" using True by (metis prod.collapse)
  obtain c where "psci_live ?p = psci_live psci @ [c]" using psci_register_live(1) [OF assms(1) r] by blast
  then show ?thesis using assms(2) by (simp add: psci_find_cpu_def psci_live_def find_index_append)
next
  case False
  then show ?thesis using assms(2) by (simp add: psci_register_cpu_def Let_def split: if_splits)
qed

text \<open>The first CPU of a fresh firmware; closed examples start from it.\<close>

lemma psci_first_cpu:
  "psci_state (fst (psci_register_cpu (psci_init a b) m n e)) m = Some AFFINITY_STATE_OFF"
proof -
  let ?p = "fst (psci_register_cpu (psci_init a b) m n e)"
  have "take 1 (ps_cpus ?p) = [ps_cpus ?p ! 0]" and "unat (ps_num_cpus ?p) = 1"
    and "pc_mpidr (ps_cpus ?p ! 0) = m \<and> pc_state (ps_cpus ?p ! 0) = AFFINITY_STATE_OFF"
    by (simp_all add: psci_register_cpu_def psci_init_def PSCI_MAX_CPUS_def Let_def take_Suc_conv_app_nth)
  then show ?thesis by (simp add: psci_state_def psci_find_cpu_def)
qed

end
