(* ===== verification/Boot_Block.thy ===== *)
theory Boot_Block
  imports Boot_Sha256 Digest
begin

text \<open>
  The verified-boot chain of \<open>mini-firmware/src/bootblock.c\<close>: the third SHA-256 of the
  repository (one-shot, with its own block buffer), the simulated signature check, the boot
  policy, the trusted keys, the hash chain of the boot stages with its verification walk,
  and the PCR log.  Arrays are lists of their fixed length, \<open>NULL\<close> is \<open>None\<close>, a buffer with
  its length is one list; the \<open>config\<close> union of a rule is its 32 bytes.
\<close>

section \<open>SHA-256\<close>

definition rotr32 :: "u32 \<Rightarrow> nat \<Rightarrow> u32" where
  "rotr32 x n = drop_bit n x OR push_bit (32 - n) x"

definition vb_sha256_load :: "bytes \<Rightarrow> u32 list" where
  "vb_sha256_load blk =
     map (\<lambda>i. be32 (blk ! (i * 4)) (blk ! (i * 4 + 1)) (blk ! (i * 4 + 2)) (blk ! (i * 4 + 3))) [0..<16]"

definition vb_sha256_extend :: "nat \<Rightarrow> u32 list \<Rightarrow> u32 list" where
  "vb_sha256_extend i w =
     (let s0 = rotr32 (w ! (i - 15)) 7 XOR rotr32 (w ! (i - 15)) 18 XOR drop_bit 3 (w ! (i - 15));
          s1 = rotr32 (w ! (i - 2)) 17 XOR rotr32 (w ! (i - 2)) 19 XOR drop_bit 10 (w ! (i - 2))
      in w @ [w ! (i - 16) + s0 + w ! (i - 7) + s1])"

fun vb_sha256_round :: "u32 list \<Rightarrow> nat \<Rightarrow> sha_vars \<Rightarrow> sha_vars" where
  "vb_sha256_round w i (a, b, c, d, e, f, g, h) =
     (let S1 = rotr32 e 6 XOR rotr32 e 11 XOR rotr32 e 25;
          chv = (e AND f) XOR (NOT e AND g);
          t1 = h + S1 + chv + sha256_k ! i + w ! i;
          S0 = rotr32 a 2 XOR rotr32 a 13 XOR rotr32 a 22;
          majv = (a AND b) XOR (a AND c) XOR (b AND c);
          t2 = S0 + majv
      in (t1 + t2, a, b, c, d + t1, e, f, g))"

definition vb_sha256_transform :: "u32 list \<Rightarrow> bytes \<Rightarrow> u32 list" where
  "vb_sha256_transform st blk =
     (let w = fold vb_sha256_extend [16..<64] (vb_sha256_load blk);
          (a, b, c, d, e, f, g, h) =
            fold (vb_sha256_round w) [0..<64]
              (st ! 0, st ! 1, st ! 2, st ! 3, st ! 4, st ! 5, st ! 6, st ! 7)
      in [st ! 0 + a, st ! 1 + b, st ! 2 + c, st ! 3 + d, st ! 4 + e, st ! 5 + f, st ! 6 + g, st ! 7 + h])"

text \<open>The locals of \<open>sha256_hash\<close>: chaining state, block buffer, fill index.\<close>

type_synonym vb_sha_state = "u32 list \<times> bytes \<times> nat"

fun vb_sha256_byte :: "u8 \<Rightarrow> vb_sha_state \<Rightarrow> vb_sha_state" where
  "vb_sha256_byte b (st, blk, idx) =
     (let blk' = blk[idx := b]; idx' = idx + 1
      in if idx' = 64 then (vb_sha256_transform st blk', blk', 0) else (st, blk', idx'))"

text \<open>The padding and the output after the loop; \<open>len\<close> is the 32-bit length.\<close>

fun vb_sha256_finish :: "u32 \<Rightarrow> vb_sha_state \<Rightarrow> bytes" where
  "vb_sha256_finish len (st, blk, idx) =
     (let bit_len = ucast len * 8 :: u64;
          blk1 = blk[idx := 0x80]; idx1 = idx + 1;
          (st2, blk2, idx2) =
            (if idx1 > 56
             then (let b = blit blk1 idx1 (zeros (64 - idx1)) in (vb_sha256_transform st b, b, 0))
             else (st, blk1, idx1));
          blk3 = blit blk2 idx2 (zeros (56 - idx2));
          blk4 = blit blk3 56 (be64_bytes bit_len)
      in sha256_serialize (vb_sha256_transform st2 blk4))"

definition vb_sha256_hash_from :: "bytes \<Rightarrow> bytes \<Rightarrow> bytes" where
  "vb_sha256_hash_from junk data =
     vb_sha256_finish (of_nat (length data))
       (fold vb_sha256_byte data
         ([0x6a09e667, 0xbb67ae85, 0x3c6ef372, 0xa54ff53a,
           0x510e527f, 0x9b05688c, 0x1f83d9ab, 0x5be0cd19], junk, 0))"

text \<open>The block buffer is not initialised; that its content is irrelevant is shown below.\<close>

definition vb_sha256_hash :: "bytes \<Rightarrow> bytes" where
  "vb_sha256_hash data = vb_sha256_hash_from (zeros 64) data"

subsection \<open>Correctness\<close>

lemma rotr32_eq: "rotr32 x n = rot_right x n"
  by (simp add: rotr32_def rot_right_def)

lemma vb_sha256_extend_eq: "vb_sha256_extend t w = sha256_extend_step t w"
  by (simp add: vb_sha256_extend_def sha256_extend_step_def rotr32_eq sig0_def sig1_def Let_def algebra_simps)

lemma vb_sha256_round_eq: "vb_sha256_round w t v = sha256_round w t v"
  by (cases "(w, t, v)" rule: sha256_round.cases) (simp add: Let_def rotr32_eq ep0_def ep1_def ch_def maj_def)

lemma vb_sha256_transform_eq: "vb_sha256_transform = sha256_compress"
proof (intro ext)
  fix st blk
  have "vb_sha256_load blk = sha256_load blk"
    by (simp add: vb_sha256_load_def sha256_load_def mult.commute)
  moreover have "vb_sha256_extend = sha256_extend_step" and "vb_sha256_round = sha256_round"
    by (intro ext, simp add: vb_sha256_extend_eq, intro ext, simp only: vb_sha256_round_eq)
  ultimately show "vb_sha256_transform st blk = sha256_compress st blk"
    by (simp add: vb_sha256_transform_def sha256_compress_def sha256_schedule_def)
qed

fun vb_sha256_repr :: "vb_sha_state \<Rightarrow> bytes \<Rightarrow> bool" where
  "vb_sha256_repr (st, blk, idx) m \<longleftrightarrow>
     length blk = 64 \<and> idx = length m mod 64 \<and> st = blocks_fold sha256_compress sha256_h0 m \<and>
     take idx blk = block_tail m"

lemma vb_sha256_repr_byte:
  assumes "vb_sha256_repr s m"
  shows "vb_sha256_repr (vb_sha256_byte b s) (m @ [b])"
proof -
  obtain st blk idx where s: "s = (st, blk, idx)" by (cases s)
  let ?n = "length m mod 64" and ?d = "blk[length m mod 64 := b]"
  from assms s have len: "length blk = 64" and idx: "idx = ?n"
    and st: "st = blocks_fold sha256_compress sha256_h0 m" and tl: "take ?n blk = block_tail m"
    by auto
  have n: "?n < 64" by simp
  have tl1: "take (Suc ?n) ?d = block_tail m @ [b]"
    using len n tl by (simp add: take_Suc_conv_app_nth)
  have fold: "blocks_fold sha256_compress sha256_h0 (m @ [b]) =
      blocks_fold sha256_compress st (block_tail m @ [b])"
    unfolding st by (rule blocks_fold_tail)
  show ?thesis
  proof (cases "?n = 63")
    case True
    then have full: "?d = block_tail m @ [b]" using tl1 len by simp
    have "length (block_tail m @ [b]) = 64" using True by simp
    then have "blocks_fold sha256_compress sha256_h0 (m @ [b]) = sha256_compress st ?d"
      unfolding full fold by (rule blocks_fold_one)
    then show ?thesis
      using True len idx s by (simp add: vb_sha256_transform_eq Let_def block_tail_snoc mod_Suc)
  next
    case False
    then have "blocks_fold sha256_compress sha256_h0 (m @ [b]) = st"
      unfolding fold using n by simp
    then show ?thesis
      using False len idx s tl1 n by (simp add: Let_def block_tail_snoc mod_Suc)
  qed
qed

lemma vb_sha256_repr_loop: "vb_sha256_repr s m \<Longrightarrow> vb_sha256_repr (fold vb_sha256_byte d s) (m @ d)"
proof (induction d arbitrary: s m)
  case (Cons b d)
  from Cons.IH [OF vb_sha256_repr_byte [OF Cons.prems, of b]] show ?case by simp
qed simp

lemma vb_sha256_finish_correct:
  assumes r: "vb_sha256_repr (st, blk, idx) m" and small: "length m < 2 ^ 32"
  shows "vb_sha256_finish (of_nat (length m)) (st, blk, idx) = sha256_spec m"
proof -
  let ?n = "length m mod 64" and ?len = "be64_bytes (of_nat (8 * length m))"
  from r have len: "length blk = 64" and idx: "idx = ?n"
    and st: "st = blocks_fold sha256_compress sha256_h0 m" and tl: "take ?n blk = block_tail m"
    by auto
  have n: "?n < 64" by simp
  have "unat (of_nat (length m) :: u32) = length m" using small by (simp add: unat_of_nat)
  then have "ucast (of_nat (length m) :: u32) = (of_nat (length m) :: u64)" by (metis of_nat_unat)
  then have bits: "ucast (of_nat (length m) :: u32) * 8 = (of_nat (8 * length m) :: u64)"
    by (simp add: mult.commute)
  have spec: "sha256_spec m = sha256_serialize (blocks_fold sha256_compress st
      (block_tail m @ sha256_padding (length m)))"
    unfolding sha256_spec_def st by (subst blocks_fold_tail) (rule refl)
  have b80: "take (Suc ?n) (blk[?n := 0x80]) = block_tail m @ [0x80]"
    using len n tl by (simp add: take_Suc_conv_app_nth)
  show ?thesis
  proof (cases "?n < 56")
    case True
    have z: "(119 - ?n) mod 64 = 55 - ?n" by (rule pad_zeros_short) (rule True)
    have buf: "blit (blit (blk[?n := 0x80]) (Suc ?n) (zeros (55 - ?n))) 56 ?len
        = block_tail m @ 0x80 # zeros (55 - ?n) @ ?len" (is "_ = ?blk")
      using True len b80 by (simp add: blit_def Suc_diff_le [of ?n 55, simplified])
    have "length ?blk = 64" using True by simp
    then have "blocks_fold sha256_compress st ?blk = sha256_compress st ?blk"
      by (rule blocks_fold_one)
    then show ?thesis
      unfolding spec using True idx bits buf
      by (simp add: vb_sha256_transform_eq sha256_padding_def Let_def z)
  next
    case False
    have z: "(119 - ?n) mod 64 = (63 - ?n) + 56" using False n by (intro pad_zeros_long) auto
    have buf1: "blit (blk[?n := 0x80]) (Suc ?n) (zeros (63 - ?n))
        = block_tail m @ 0x80 # zeros (63 - ?n)" (is "_ = ?b1")
      using n len b80 by (simp add: blit_def)
    have l1: "length ?b1 = 64" using n by simp
    have buf2: "blit (blit ?b1 0 (zeros 56)) 56 ?len = zeros 56 @ ?len" (is "_ = ?b2")
      using l1 by (simp add: blit_def)
    have "block_tail m @ sha256_padding (length m) = ?b1 @ ?b2"
      using zeros_add [of "63 - ?n" 56] unfolding sha256_padding_def z by simp
    then have "blocks_fold sha256_compress st (block_tail m @ sha256_padding (length m))
        = sha256_compress (sha256_compress st ?b1) ?b2"
      using blocks_fold_two [OF l1, of ?b2] by simp
    then show ?thesis
      unfolding spec using False idx bits buf1 buf2
      by (simp add: vb_sha256_transform_eq Let_def)
  qed
qed

lemma vb_sha256_hash_from_correct:
  assumes "length junk = 64" and "length data < 2 ^ 32"
  shows "vb_sha256_hash_from junk data = sha256_spec data"
proof -
  have "vb_sha256_repr (sha256_h0, junk, 0) []" using assms by (simp add: block_tail_def)
  from vb_sha256_repr_loop [OF this, of data] assms(2) show ?thesis
    unfolding vb_sha256_hash_from_def sha256_h0_def
    by (metis append_Nil prod_cases3 vb_sha256_finish_correct)
qed

lemma vb_sha256_hash_correct: "length data < 2 ^ 32 \<Longrightarrow> vb_sha256_hash data = sha256_spec data"
  by (simp add: vb_sha256_hash_def vb_sha256_hash_from_correct)

lemma length_vb_sha256_hash [simp]: "length (vb_sha256_hash data) = 32"
proof -
  obtain st blk idx where "fold vb_sha256_byte data (sha256_h0, zeros 64, 0) = (st, blk, idx)"
    by (rule prod_cases3)
  then show ?thesis
    by (simp add: vb_sha256_hash_def vb_sha256_hash_from_def flip: sha256_h0_def)
       (simp add: vb_sha256_transform_eq Let_def split: prod.split)
qed

section \<open>State\<close>

definition VBOOT_MAGIC :: u32 where "VBOOT_MAGIC = 0x56424F54"

definition BOOTBLOCK_MAX_STAGES :: nat where "BOOTBLOCK_MAX_STAGES = 8"

definition BOOTBLOCK_MAX_PCR :: nat where "BOOTBLOCK_MAX_PCR = 24"

definition BOOT_POLICY_MAX_RULES :: nat where "BOOT_POLICY_MAX_RULES = 16"

definition MAX_KEY_FINGERPRINT :: nat where "MAX_KEY_FINGERPRINT = 32"

datatype BootStage =
  BOOT_STAGE_RESET | BOOT_STAGE_BOOTROM | BOOT_STAGE_BOOTBLK | BOOT_STAGE_PEI
  | BOOT_STAGE_DXE | BOOT_STAGE_BDS | BOOT_STAGE_OSLOAD | BOOT_STAGE_OS

definition stage_code :: "BootStage \<Rightarrow> u32" where
  "stage_code s = (case s of BOOT_STAGE_RESET \<Rightarrow> 0 | BOOT_STAGE_BOOTROM \<Rightarrow> 1 | BOOT_STAGE_BOOTBLK \<Rightarrow> 2
     | BOOT_STAGE_PEI \<Rightarrow> 3 | BOOT_STAGE_DXE \<Rightarrow> 4 | BOOT_STAGE_BDS \<Rightarrow> 5 | BOOT_STAGE_OSLOAD \<Rightarrow> 6
     | BOOT_STAGE_OS \<Rightarrow> 7)"

datatype VerifyResult =
  VERIFY_OK | VERIFY_ERR_SIGNATURE | VERIFY_ERR_HASH | VERIFY_ERR_ROLLBACK | VERIFY_ERR_POLICY
  | VERIFY_ERR_KEY_REVOKED | VERIFY_ERR_NOT_FOUND | VERIFY_ERR_INTERNAL

text \<open>Codes read from a header or from zeroed memory need not be enumerators: they stay words.\<close>

definition HASH_ALG_SHA256 :: u32 where "HASH_ALG_SHA256 = 2"

definition HASH_ALG_SHA384 :: u32 where "HASH_ALG_SHA384 = 3"

definition BOOT_RULE_REQUIRE_SIGNATURE :: u32 where "BOOT_RULE_REQUIRE_SIGNATURE = 1"

definition BOOT_RULE_ANTI_ROLLBACK :: u32 where "BOOT_RULE_ANTI_ROLLBACK = 3"

record PublicKeyFingerprint =
  pk_fingerprint :: bytes
  pk_fingerprint_len :: u32
  pk_revoked :: bool
  pk_revocation_count :: u32

record VBootHeader =
  vh_magic :: u32
  vh_header_version :: u16
  vh_header_size :: u16
  vh_image_size :: u32
  vh_load_address :: u32
  vh_entry_point :: u32
  vh_version :: u32
  vh_hash_alg :: u32
  vh_sig_alg :: u32
  vh_image_hash :: bytes
  vh_signature :: bytes
  vh_key_fingerprint :: bytes
  vh_reserved :: bytes
  vh_header_checksum :: u32

text \<open>The size of the header: two 16-bit, eight 32-bit fields and the four byte arrays.\<close>

definition sizeof_VBootHeader :: nat where
  "sizeof_VBootHeader = 2 * 2 + 7 * 4 + 32 + 256 + 32 + 64 + 4"

record HashChainEntry =
  hc_stage :: BootStage
  hc_hash :: bytes
  hc_composite :: bytes
  hc_version :: u32
  hc_verify_status :: VerifyResult
  hc_pcr_index :: u32

record PCREvent =
  pe_pcr_index :: u32
  pe_digest :: bytes
  pe_event_type :: u32
  pe_event_description :: string

record PCRLog =
  pl_events :: "PCREvent list"
  pl_event_count :: u32
  pl_pcr_values :: "bytes list"

record BootPolicyRule =
  br_type :: u32
  br_applies_to :: BootStage
  br_config :: bytes

record BootPolicy =
  po_rules :: "BootPolicyRule list"
  po_rule_count :: u32
  po_verified_boot_enabled :: bool
  po_measured_boot_enabled :: bool
  po_min_rollback_version :: u32

record VerificationChain =
  vc_chain :: "HashChainEntry list"
  vc_chain_length :: u32
  vc_policy :: BootPolicy
  vc_pcr_log :: PCRLog
  vc_root_of_trust_hash :: bytes
  vc_trusted_keys :: "PublicKeyFingerprint list"
  vc_num_trusted_keys :: u32
  vc_chain_valid :: bool
  vc_last_good_version :: u32

section \<open>Operations\<close>

subsection \<open>Signatures, images and headers\<close>

definition vb_verify_signature ::
  "bytes option \<Rightarrow> bytes option \<Rightarrow> PublicKeyFingerprint option \<Rightarrow> VerifyResult" where
  "vb_verify_signature digest sig key =
     (case (digest, sig, key) of
        (Some d, Some s, Some k) \<Rightarrow>
          if pk_revoked k then VERIFY_ERR_KEY_REVOKED
          else let expected = d ! 0 XOR pk_fingerprint k ! 0 XOR 0x55
               in if s ! 0 \<noteq> expected then VERIFY_ERR_SIGNATURE else VERIFY_OK
      | _ \<Rightarrow> VERIFY_ERR_INTERNAL)"

definition vb_compute_image_hash :: "bytes option \<Rightarrow> bytes option" where
  "vb_compute_image_hash img =
     (case img of None \<Rightarrow> None
      | Some data \<Rightarrow> if length data = 0 then None else Some (vb_sha256_hash data))"

definition vb_validate_header :: "VBootHeader option \<Rightarrow> u32 \<Rightarrow> VerifyResult" where
  "vb_validate_header hdr min_version =
     (case hdr of None \<Rightarrow> VERIFY_ERR_INTERNAL
      | Some h \<Rightarrow>
          if vh_magic h \<noteq> VBOOT_MAGIC then VERIFY_ERR_NOT_FOUND
          else if unat (vh_header_size h) < sizeof_VBootHeader \<or> vh_image_size h = 0 then VERIFY_ERR_INTERNAL
          else if vh_version h < min_version then VERIFY_ERR_ROLLBACK
          else if vh_hash_alg h \<noteq> HASH_ALG_SHA256 \<and> vh_hash_alg h \<noteq> HASH_ALG_SHA384 then VERIFY_ERR_INTERNAL
          else VERIFY_OK)"

definition vb_check_anti_rollback :: "u32 \<Rightarrow> u32 \<Rightarrow> bool" where
  "vb_check_anti_rollback image_version stored_min_version \<longleftrightarrow> image_version \<ge> stored_min_version"

subsection \<open>Policy\<close>

definition zero_rule :: BootPolicyRule where
  "zero_rule = \<lparr>br_type = 0, br_applies_to = BOOT_STAGE_RESET, br_config = zeros 32\<rparr>"

definition vb_add_policy_rule :: "BootPolicy \<Rightarrow> BootPolicyRule option \<Rightarrow> BootPolicy \<times> bool" where
  "vb_add_policy_rule policy rule =
     (case rule of None \<Rightarrow> (policy, False)
      | Some r \<Rightarrow>
          if po_rule_count policy \<ge> of_nat BOOT_POLICY_MAX_RULES then (policy, False)
          else (policy\<lparr>po_rules := (po_rules policy)[unat (po_rule_count policy) := r],
                       po_rule_count := po_rule_count policy + 1\<rparr>, True))"

definition vb_init_policy :: "bool \<Rightarrow> bool \<Rightarrow> BootPolicy" where
  "vb_init_policy verified_enabled measured_enabled =
     fold (\<lambda>stage p. fst (vb_add_policy_rule p
             (Some (zero_rule\<lparr>br_type := BOOT_RULE_REQUIRE_SIGNATURE, br_applies_to := stage\<rparr>))))
       [BOOT_STAGE_BOOTBLK, BOOT_STAGE_PEI, BOOT_STAGE_DXE, BOOT_STAGE_BDS, BOOT_STAGE_OSLOAD, BOOT_STAGE_OS]
       \<lparr>po_rules = replicate BOOT_POLICY_MAX_RULES zero_rule, po_rule_count = 0,
        po_verified_boot_enabled = verified_enabled, po_measured_boot_enabled = measured_enabled,
        po_min_rollback_version = 0\<rparr>"

subsection \<open>PCR log\<close>

definition zero_event :: PCREvent where
  "zero_event = \<lparr>pe_pcr_index = 0, pe_digest = zeros 32, pe_event_type = 0, pe_event_description = []\<rparr>"

definition vb_init_pcr_log :: PCRLog where
  "vb_init_pcr_log =
     \<lparr>pl_events = replicate BOOTBLOCK_MAX_PCR zero_event, pl_event_count = 0,
      pl_pcr_values = replicate BOOTBLOCK_MAX_PCR (zeros 32)\<rparr>"

definition vb_extend_pcr ::
  "PCRLog \<Rightarrow> u32 \<Rightarrow> bytes option \<Rightarrow> u32 \<Rightarrow> string option \<Rightarrow> PCRLog \<times> bool" where
  "vb_extend_pcr log pcr_index measurement event_type description =
     (case measurement of None \<Rightarrow> (log, False)
      | Some m \<Rightarrow>
          if pcr_index \<ge> of_nat BOOTBLOCK_MAX_PCR then (log, False)
          else if pl_event_count log \<ge> of_nat BOOTBLOCK_MAX_PCR then (log, False)
          else let i = unat pcr_index; n = unat (pl_event_count log);
                   new_pcr = vb_sha256_hash (pl_pcr_values log ! i @ m);
                   evt = (pl_events log ! n)\<lparr>pe_pcr_index := pcr_index, pe_digest := m,
                                              pe_event_type := event_type\<rparr>;
                   evt' = (case description of None \<Rightarrow> evt
                           | Some d \<Rightarrow> evt\<lparr>pe_event_description := take 63 d\<rparr>)
               in (log\<lparr>pl_events := (pl_events log)[n := evt'],
                       pl_event_count := pl_event_count log + 1,
                       pl_pcr_values := (pl_pcr_values log)[i := new_pcr]\<rparr>, True))"

subsection \<open>Chain and keys\<close>

definition zero_entry :: HashChainEntry where
  "zero_entry = \<lparr>hc_stage = BOOT_STAGE_RESET, hc_hash = zeros 32, hc_composite = zeros 32, hc_version = 0,
     hc_verify_status = VERIFY_OK, hc_pcr_index = 0\<rparr>"

definition zero_key :: PublicKeyFingerprint where
  "zero_key = \<lparr>pk_fingerprint = zeros 32, pk_fingerprint_len = 0, pk_revoked = False, pk_revocation_count = 0\<rparr>"

definition vb_init_chain :: "VerificationChain \<Rightarrow> bytes option \<Rightarrow> VerificationChain \<times> bool" where
  "vb_init_chain vc rot_hash =
     (case rot_hash of None \<Rightarrow> (vc, False)
      | Some rot \<Rightarrow>
          (\<lparr>vc_chain = replicate BOOTBLOCK_MAX_STAGES zero_entry, vc_chain_length = 0,
            vc_policy = vb_init_policy True True, vc_pcr_log = vb_init_pcr_log,
            vc_root_of_trust_hash = rot, vc_trusted_keys = replicate 8 zero_key,
            vc_num_trusted_keys = 0, vc_chain_valid = True, vc_last_good_version = 0\<rparr>, True))"

definition vb_register_key :: "VerificationChain \<Rightarrow> bytes option \<Rightarrow> VerificationChain \<times> bool" where
  "vb_register_key vc fingerprint =
     (case fingerprint of None \<Rightarrow> (vc, False)
      | Some fp \<Rightarrow>
          if length fp = 0 then (vc, False)
          else let len = (if length fp > MAX_KEY_FINGERPRINT then MAX_KEY_FINGERPRINT else length fp)
               in if vc_num_trusted_keys vc \<ge> 8 then (vc, False)
                  else let n = unat (vc_num_trusted_keys vc); k = vc_trusted_keys vc ! n;
                           k' = k\<lparr>pk_fingerprint := blit (pk_fingerprint k) 0 (take len fp),
                                  pk_fingerprint_len := of_nat len, pk_revoked := False,
                                  pk_revocation_count := 0\<rparr>
                       in (vc\<lparr>vc_trusted_keys := (vc_trusted_keys vc)[n := k'],
                              vc_num_trusted_keys := vc_num_trusted_keys vc + 1\<rparr>, True))"

definition key_matches :: "bytes \<Rightarrow> PublicKeyFingerprint \<Rightarrow> bool" where
  "key_matches fp k \<longleftrightarrow>
     pk_fingerprint_len k = of_nat (length fp) \<and> take (length fp) (pk_fingerprint k) = fp"

definition vb_revoke_key :: "VerificationChain \<Rightarrow> bytes option \<Rightarrow> VerificationChain \<times> bool" where
  "vb_revoke_key vc fingerprint =
     (case fingerprint of None \<Rightarrow> (vc, False)
      | Some fp \<Rightarrow>
          (case find_index (key_matches fp) (take (unat (vc_num_trusted_keys vc)) (vc_trusted_keys vc)) of
             None \<Rightarrow> (vc, False)
           | Some i \<Rightarrow>
               let k = vc_trusted_keys vc ! i
               in (vc\<lparr>vc_trusted_keys := (vc_trusted_keys vc)
                        [i := k\<lparr>pk_revoked := True, pk_revocation_count := pk_revocation_count k + 1\<rparr>]\<rparr>, True)))"

definition vb_extend_chain ::
  "VerificationChain \<Rightarrow> BootStage \<Rightarrow> bytes option \<Rightarrow> u32 \<Rightarrow> VerificationChain \<times> bool" where
  "vb_extend_chain vc stage stage_hash version =
     (case stage_hash of None \<Rightarrow> (vc, False)
      | Some h \<Rightarrow>
          if vc_chain_length vc \<ge> of_nat BOOTBLOCK_MAX_STAGES then (vc, False)
          else let n = unat (vc_chain_length vc);
                   prev = (if n = 0 then vc_root_of_trust_hash vc else hc_composite (vc_chain vc ! (n - 1)));
                   composite = vb_sha256_hash (h @ prev)
               in (vc\<lparr>vc_chain := (vc_chain vc)
                        [n := \<lparr>hc_stage = stage, hc_hash = h, hc_composite = composite, hc_version = version,
                               hc_verify_status = VERIFY_OK, hc_pcr_index = stage_code stage\<rparr>],
                      vc_chain_length := vc_chain_length vc + 1\<rparr>, True))"

subsection \<open>The verification walk\<close>

text \<open>The rules for one entry: the error of the first rule it violates.\<close>

fun vb_check_rules :: "BootPolicyRule list \<Rightarrow> HashChainEntry \<Rightarrow> VerifyResult option" where
  "vb_check_rules [] entry = None"
| "vb_check_rules (rule # rules) entry =
     (if br_applies_to rule \<noteq> hc_stage entry then vb_check_rules rules entry
      else if br_type rule = BOOT_RULE_ANTI_ROLLBACK
        then if hc_version entry < le32_at (br_config rule) 0 then Some VERIFY_ERR_ROLLBACK
             else vb_check_rules rules entry
      else if br_type rule = BOOT_RULE_REQUIRE_SIGNATURE
        then if hc_verify_status entry \<noteq> VERIFY_OK then Some VERIFY_ERR_SIGNATURE
             else vb_check_rules rules entry
      else vb_check_rules rules entry)"

definition vb_check_entry :: "BootPolicy \<Rightarrow> bytes \<Rightarrow> HashChainEntry \<Rightarrow> VerifyResult option" where
  "vb_check_entry policy prev entry =
     (if vb_sha256_hash (hc_hash entry @ prev) \<noteq> hc_composite entry then Some VERIFY_ERR_HASH
      else if hc_version entry < po_min_rollback_version policy then Some VERIFY_ERR_ROLLBACK
      else vb_check_rules (take (unat (po_rule_count policy)) (po_rules policy)) entry)"

fun vb_walk :: "BootPolicy \<Rightarrow> bytes \<Rightarrow> HashChainEntry list \<Rightarrow> HashChainEntry list \<times> bool" where
  "vb_walk policy prev [] = ([], True)"
| "vb_walk policy prev (e # es) =
     (case vb_check_entry policy prev e of
        Some err \<Rightarrow> (e\<lparr>hc_verify_status := err\<rparr> # es, False)
      | None \<Rightarrow>
          (case vb_walk policy (hc_composite e) es of
             (es', ok) \<Rightarrow> (e\<lparr>hc_verify_status := VERIFY_OK\<rparr> # es', ok)))"

definition vb_verify_chain :: "VerificationChain \<Rightarrow> VerificationChain \<times> bool" where
  "vb_verify_chain vc =
     (let n = unat (vc_chain_length vc)
      in case vb_walk (vc_policy vc) (vc_root_of_trust_hash vc) (take n (vc_chain vc)) of
           (es, ok) \<Rightarrow>
             let vc1 = vc\<lparr>vc_chain := es @ drop n (vc_chain vc)\<rparr>
             in if \<not> ok then (vc1\<lparr>vc_chain_valid := False\<rparr>, False)
                else (vc1\<lparr>vc_chain_valid := True,
                          vc_last_good_version := (if n > 0 then hc_version (vc_chain vc1 ! (n - 1)) else 0)\<rparr>, True))"

section \<open>The PCR log\<close>

definition vb_pcrs_wf :: "bytes list \<Rightarrow> bool" where
  "vb_pcrs_wf vs \<longleftrightarrow> length vs = 24 \<and> (\<forall>v \<in> set vs. length v = 32)"

definition vb_pcr_update :: "bytes list \<Rightarrow> nat \<Rightarrow> bytes \<Rightarrow> bytes list" where
  "vb_pcr_update vs i m = (if i < 24 then vs[i := vb_sha256_hash (vs ! i @ m)] else vs)"

interpretation vbpcrs: registers vb_sha256_hash vb_pcr_update "(!)" vb_pcrs_wf "\<lambda>m. m" "\<lambda>m. length m = 32"
  by unfold_locales
    (auto simp: vb_pcr_update_def vb_pcrs_wf_def dest: set_update_subset_insert [THEN subsetD])

definition vb_log_entries :: "PCRLog \<Rightarrow> (nat \<times> bytes) list" where
  "vb_log_entries log =
     map (\<lambda>e. (unat (pe_pcr_index e), pe_digest e)) (take (unat (pl_event_count log)) (pl_events log))"

definition vb_log_digests :: "PCRLog \<Rightarrow> nat \<Rightarrow> bytes list" where
  "vb_log_digests log j = map snd (filter (\<lambda>(i, d). i = j) (vb_log_entries log))"

definition vb_log_wf :: "PCRLog \<Rightarrow> bool" where
  "vb_log_wf log \<longleftrightarrow>
     length (pl_events log) = 24 \<and> unat (pl_event_count log) \<le> 24 \<and>
     (\<forall>(i, d) \<in> set (vb_log_entries log). i < 24 \<and> length d = 32) \<and>
     pl_pcr_values log = fold (\<lambda>(i, d) vs. vb_pcr_update vs i d) (vb_log_entries log) (replicate 24 (zeros 32))"

lemma vb_pcrs_wf_init: "vb_pcrs_wf (replicate 24 (zeros 32))"
  by (simp add: vb_pcrs_wf_def)

lemma vb_log_wf_init: "vb_log_wf vb_init_pcr_log"
  by (simp add: vb_log_wf_def vb_init_pcr_log_def vb_log_entries_def BOOTBLOCK_MAX_PCR_def)

lemma vb_extend_pcr_eq:
  "vb_extend_pcr log i (Some m) t d =
     (if unat i < 24 \<and> unat (pl_event_count log) < 24
      then (let n = unat (pl_event_count log);
                evt = (pl_events log ! n)\<lparr>pe_pcr_index := i, pe_digest := m, pe_event_type := t\<rparr>
            in (log\<lparr>pl_events := (pl_events log)
                      [n := (case d of None \<Rightarrow> evt | Some s \<Rightarrow> evt\<lparr>pe_event_description := take 63 s\<rparr>)],
                    pl_event_count := pl_event_count log + 1,
                    pl_pcr_values := vb_pcr_update (pl_pcr_values log) (unat i) m\<rparr>, True))
      else (log, False))"
  by (simp add: vb_extend_pcr_def BOOTBLOCK_MAX_PCR_def word_le_nat_alt Let_def vb_pcr_update_def)

lemma vb_log_entries_extend:
  assumes "length (pl_events log) = 24" and "vb_extend_pcr log i (Some m) t d = (log', True)"
  shows "vb_log_entries log' = vb_log_entries log @ [(unat i, m)]"
proof -
  have lt: "unat (pl_event_count log) < 24"
    using assms by (simp add: vb_extend_pcr_eq split: if_splits)
  then have "unat (pl_event_count log + 1) = Suc (unat (pl_event_count log))"
    by (intro unat_suc) simp
  then show ?thesis
    using assms lt
    by (auto simp: vb_extend_pcr_eq vb_log_entries_def Let_def take_Suc_conv_app_nth
        split: if_splits option.splits)
qed

lemma vb_log_wf_extend:
  assumes wf: "vb_log_wf log" and m: "\<forall>x. m = Some x \<longrightarrow> length x = 32"
  shows "vb_log_wf (fst (vb_extend_pcr log i m t d))"
proof (cases "m \<noteq> None \<and> snd (vb_extend_pcr log i m t d)")
  case True
  then obtain x log' where x: "m = Some x" and e: "vb_extend_pcr log i (Some x) t d = (log', True)"
    by (cases m; cases "vb_extend_pcr log i m t d") auto
  have lt: "unat i < 24" "unat (pl_event_count log) < 24"
    using e by (auto simp: vb_extend_pcr_eq split: if_splits)
  have "unat (pl_event_count log + 1) = Suc (unat (pl_event_count log))"
    using lt by (intro unat_suc) simp
  then have "length (pl_events log') = 24" "unat (pl_event_count log') \<le> 24"
    "pl_pcr_values log' = vb_pcr_update (pl_pcr_values log) (unat i) x"
    using e lt wf by (auto simp: vb_extend_pcr_eq vb_log_wf_def Let_def)
  moreover have "vb_log_entries log' = vb_log_entries log @ [(unat i, x)]"
    using wf e by (intro vb_log_entries_extend) (auto simp: vb_log_wf_def)
  ultimately show ?thesis
    using wf lt m x e by (auto simp: vb_log_wf_def)
next
  case False
  then have "fst (vb_extend_pcr log i m t d) = log"
    by (cases m) (auto simp: vb_extend_pcr_eq vb_extend_pcr_def Let_def split: if_splits)
  then show ?thesis using wf by simp
qed

lemma vb_log_value:
  assumes "vb_log_wf log" and "j < 24"
  shows "pl_pcr_values log ! j = chain vb_sha256_hash (zeros 32) (vb_log_digests log j)"
  using vbpcrs.reg_replay [OF vb_pcrs_wf_init assms(2), of "vb_log_entries log"] assms
  by (auto simp: vb_log_wf_def vb_log_digests_def comp_def)

section \<open>The stage chain\<close>

text \<open>
  A composite is the hash of the stage's digest followed by the previous composite; \<open>Digest\<close>'s
  chains have the two in the other order, hence the hash below that swaps the halves.
\<close>

definition swap_halves :: "bytes \<Rightarrow> bytes" where
  "swap_halves x = drop 32 x @ take 32 x"

definition vb_composite :: "bytes \<Rightarrow> bytes" where
  "vb_composite x = vb_sha256_hash (swap_halves x)"

interpretation vbchain: digest_fn vb_composite
  by unfold_locales (simp add: vb_composite_def)

lemma swap_halves_append [simp]: "length prev = 32 \<Longrightarrow> swap_halves (prev @ h) = h @ prev"
  by (simp add: swap_halves_def)

lemma vb_composite_append [simp]: "length prev = 32 \<Longrightarrow> vb_composite (prev @ h) = vb_sha256_hash (h @ prev)"
  by (simp add: vb_composite_def)

definition policy_rules :: "BootPolicy \<Rightarrow> BootPolicyRule list" where
  "policy_rules p = take (unat (po_rule_count p)) (po_rules p)"

text \<open>The default policy, and adding a rule.\<close>

lemma vb_init_policy_rules:
  "policy_rules (vb_init_policy a b) = map (\<lambda>s. zero_rule\<lparr>br_type := BOOT_RULE_REQUIRE_SIGNATURE, br_applies_to := s\<rparr>)
     [BOOT_STAGE_BOOTBLK, BOOT_STAGE_PEI, BOOT_STAGE_DXE, BOOT_STAGE_BDS, BOOT_STAGE_OSLOAD, BOOT_STAGE_OS]"
  "po_min_rollback_version (vb_init_policy a b) = 0"
  "po_rule_count (vb_init_policy a b) = 6" "length (po_rules (vb_init_policy a b)) = 16"
  by (simp_all add: policy_rules_def vb_init_policy_def vb_add_policy_rule_def BOOT_POLICY_MAX_RULES_def word_le_nat_alt)
    (simp_all add: eval_nat_numeral)

lemma vb_add_policy_rule_rules:
  assumes "length (po_rules p) = 16"
  shows "policy_rules (fst (vb_add_policy_rule p (Some r))) =
    (if unat (po_rule_count p) < 16 then policy_rules p @ [r] else policy_rules p)"
    "po_min_rollback_version (fst (vb_add_policy_rule p x)) = po_min_rollback_version p"
  using assms
  by (auto simp: policy_rules_def vb_add_policy_rule_def BOOT_POLICY_MAX_RULES_def word_le_nat_alt
      unat_suc take_Suc_conv_app_nth split: option.split)
text \<open>What the policy demands of a stage entry.\<close>

definition rule_allows :: "HashChainEntry \<Rightarrow> BootPolicyRule \<Rightarrow> bool" where
  "rule_allows e r \<longleftrightarrow> br_applies_to r = hc_stage e \<longrightarrow>
     (br_type r = BOOT_RULE_ANTI_ROLLBACK \<longrightarrow> le32_at (br_config r) 0 \<le> hc_version e) \<and>
     (br_type r = BOOT_RULE_REQUIRE_SIGNATURE \<longrightarrow> hc_verify_status e = VERIFY_OK)"

definition policy_allows :: "BootPolicy \<Rightarrow> HashChainEntry \<Rightarrow> bool" where
  "policy_allows p e \<longleftrightarrow>
     po_min_rollback_version p \<le> hc_version e \<and> (\<forall>r \<in> set (policy_rules p). rule_allows e r)"

lemma vb_check_rules_None_iff: "vb_check_rules rs e = None \<longleftrightarrow> (\<forall>r \<in> set rs. rule_allows e r)"
  by (induction rs) (auto simp: rule_allows_def not_less BOOT_RULE_ANTI_ROLLBACK_def BOOT_RULE_REQUIRE_SIGNATURE_def)

lemma vb_check_entry_None_iff:
  "vb_check_entry p prev e = None \<longleftrightarrow>
     hc_composite e = vb_sha256_hash (hc_hash e @ prev) \<and> policy_allows p e"
  by (auto simp: vb_check_entry_def policy_allows_def vb_check_rules_None_iff policy_rules_def not_less)

lemma vb_walk_iff:
  assumes "length prev = 32" and "\<forall>e \<in> set es. length (hc_composite e) = 32"
  shows "snd (vb_walk p prev es) \<longleftrightarrow>
    (\<forall>i < length es. hc_composite (es ! i) = chain vb_composite prev (map hc_hash (take (Suc i) es))
                     \<and> policy_allows p (es ! i))"
  using assms
proof (induction p prev es rule: vb_walk.induct)
  case (2 p prev e es)
  show ?case
  proof (cases "vb_check_entry p prev e")
    case None
    then have ok: "hc_composite e = vb_sha256_hash (hc_hash e @ prev)" "policy_allows p e"
      by (auto simp: vb_check_entry_None_iff)
    have "snd (vb_walk p prev (e # es)) = snd (vb_walk p (hc_composite e) es)"
      using None by (simp split: prod.split)
    also have "\<dots> \<longleftrightarrow> (\<forall>i < length es. hc_composite (es ! i)
        = chain vb_composite (hc_composite e) (map hc_hash (take (Suc i) es)) \<and> policy_allows p (es ! i))"
      using "2.IH" [OF None] "2.prems" by simp
    finally show ?thesis
      using ok "2.prems"(1) by (auto simp: nth_Cons' less_Suc_eq_0_disj)
  next
    case (Some err)
    then have "\<not> (hc_composite e = vb_sha256_hash (hc_hash e @ prev) \<and> policy_allows p e)"
      by (simp flip: vb_check_entry_None_iff)
    then show ?thesis using Some "2.prems"(1) by (auto intro!: exI [of _ 0])
  qed
qed simp

lemma vb_walk_ok:
  "snd (vb_walk p prev es) \<Longrightarrow> fst (vb_walk p prev es) = map (hc_verify_status_update (\<lambda>_. VERIFY_OK)) es"
  by (induction p prev es rule: vb_walk.induct) (auto split: option.splits prod.splits)

lemma vb_walk_keeps:
  "length (fst (vb_walk p prev es)) = length es"
  "map hc_hash (fst (vb_walk p prev es)) = map hc_hash es"
  "map hc_composite (fst (vb_walk p prev es)) = map hc_composite es"
  "map hc_version (fst (vb_walk p prev es)) = map hc_version es"
  by (induction p prev es rule: vb_walk.induct) (auto split: option.splits prod.splits)

definition vb_stages :: "VerificationChain \<Rightarrow> HashChainEntry list" where
  "vb_stages vc = take (unat (vc_chain_length vc)) (vc_chain vc)"

definition vb_wf :: "VerificationChain \<Rightarrow> bool" where
  "vb_wf vc \<longleftrightarrow>
     length (vc_chain vc) = 8 \<and> unat (vc_chain_length vc) \<le> 8 \<and>
     (\<forall>e \<in> set (vc_chain vc). length (hc_hash e) = 32 \<and> length (hc_composite e) = 32) \<and>
     length (vc_root_of_trust_hash vc) = 32 \<and>
     length (po_rules (vc_policy vc)) = 16 \<and> unat (po_rule_count (vc_policy vc)) \<le> 16 \<and>
     length (vc_trusted_keys vc) = 8 \<and> unat (vc_num_trusted_keys vc) \<le> 8 \<and>
     (\<forall>k \<in> set (vc_trusted_keys vc). length (pk_fingerprint k) = 32 \<and> unat (pk_fingerprint_len k) \<le> 32) \<and>
     vb_log_wf (vc_pcr_log vc)"

definition vb_composites_ok :: "VerificationChain \<Rightarrow> bool" where
  "vb_composites_ok vc \<longleftrightarrow> (\<forall>i < length (vb_stages vc). hc_composite (vb_stages vc ! i) =
     chain vb_composite (vc_root_of_trust_hash vc) (map hc_hash (take (Suc i) (vb_stages vc))))"

lemma length_vb_stages: "vb_wf vc \<Longrightarrow> length (vb_stages vc) = unat (vc_chain_length vc)"
  by (simp add: vb_stages_def vb_wf_def)

lemma vb_stages_digests:
  "vb_wf vc \<Longrightarrow> e \<in> set (vb_stages vc) \<Longrightarrow> length (hc_hash e) = 32 \<and> length (hc_composite e) = 32"
  by (auto simp: vb_stages_def vb_wf_def dest: in_set_takeD)

lemma vb_verify_chain_iff:
  assumes "vb_wf vc"
  shows "snd (vb_verify_chain vc) \<longleftrightarrow>
    vb_composites_ok vc \<and> (\<forall>e \<in> set (vb_stages vc). policy_allows (vc_policy vc) e)"
proof -
  have "snd (vb_verify_chain vc) = snd (vb_walk (vc_policy vc) (vc_root_of_trust_hash vc) (vb_stages vc))"
    by (simp add: vb_verify_chain_def vb_stages_def Let_def split: prod.split)
  moreover have "length (vc_root_of_trust_hash vc) = 32" using assms by (simp add: vb_wf_def)
  moreover have "\<forall>e \<in> set (vb_stages vc). length (hc_composite e) = 32"
    using vb_stages_digests [OF assms] by blast
  ultimately show ?thesis
    by (auto simp: vb_walk_iff vb_composites_ok_def all_set_conv_all_nth)
qed

text \<open>What a walk changes: the statuses, the verdict and the last good version.\<close>

lemma vb_verify_chain_stages:
  assumes "vb_wf vc"
  shows "vb_stages (fst (vb_verify_chain vc))
    = fst (vb_walk (vc_policy vc) (vc_root_of_trust_hash vc) (vb_stages vc))"
proof -
  obtain es ok where w: "vb_walk (vc_policy vc) (vc_root_of_trust_hash vc) (vb_stages vc) = (es, ok)"
    by fastforce
  have "length es = unat (vc_chain_length vc)"
    using vb_walk_keeps(1) [of "vc_policy vc" "vc_root_of_trust_hash vc" "vb_stages vc"] w
    by (simp add: length_vb_stages [OF assms])
  then show ?thesis
    using w by (simp add: vb_verify_chain_def vb_stages_def Let_def)
qed

lemma vb_verify_chain_frame:
  "vc_chain_length (fst (vb_verify_chain vc)) = vc_chain_length vc"
  "vc_policy (fst (vb_verify_chain vc)) = vc_policy vc"
  "vc_pcr_log (fst (vb_verify_chain vc)) = vc_pcr_log vc"
  "vc_root_of_trust_hash (fst (vb_verify_chain vc)) = vc_root_of_trust_hash vc"
  "vc_trusted_keys (fst (vb_verify_chain vc)) = vc_trusted_keys vc"
  "vc_num_trusted_keys (fst (vb_verify_chain vc)) = vc_num_trusted_keys vc"
  "vc_chain_valid (fst (vb_verify_chain vc)) = snd (vb_verify_chain vc)"
  by (simp_all add: vb_verify_chain_def Let_def split: prod.split)

lemma map_comp_eq:
  assumes "map f xs = map f ys" and "\<forall>y \<in> set ys. P (f y)"
  shows "\<forall>x \<in> set xs. P (f x)"
proof -
  have "f ` set xs = f ` set ys" using assms(1) by (metis list.set_map)
  moreover have "\<forall>z \<in> f ` set ys. P z" using assms(2) by simp
  ultimately have "\<forall>z \<in> f ` set xs. P z" by simp
  then show ?thesis by simp
qed

lemma vb_verify_chain_wf:
  assumes wf: "vb_wf vc"
  shows "vb_wf (fst (vb_verify_chain vc))"
    and "vb_composites_ok (fst (vb_verify_chain vc)) = vb_composites_ok vc"
proof -
  let ?vc = "fst (vb_verify_chain vc)" and ?n = "unat (vc_chain_length vc)"
  let ?w = "fst (vb_walk (vc_policy vc) (vc_root_of_trust_hash vc) (vb_stages vc))"
  have c: "vc_chain ?vc = ?w @ drop ?n (vc_chain vc)"
    by (simp add: vb_verify_chain_def vb_stages_def Let_def split: prod.split)
  have len: "length (vc_chain ?vc) = 8"
    unfolding c by (simp add: vb_walk_keeps length_vb_stages [OF wf]) (use wf in \<open>simp add: vb_wf_def\<close>)
  have "\<forall>e \<in> set ?w. length (hc_hash e) = 32"
    using vb_stages_digests [OF wf] by (intro map_comp_eq [OF vb_walk_keeps(2)]) blast
  moreover have "\<forall>e \<in> set ?w. length (hc_composite e) = 32"
    using vb_stages_digests [OF wf] by (intro map_comp_eq [OF vb_walk_keeps(3)]) blast
  ultimately have "\<forall>e \<in> set (vc_chain ?vc). length (hc_hash e) = 32 \<and> length (hc_composite e) = 32"
    unfolding c using wf by (auto simp: vb_wf_def dest: in_set_dropD)
  then show "vb_wf ?vc"
    using len wf by (simp add: vb_wf_def vb_verify_chain_frame)
  have s: "vb_stages ?vc = ?w" by (rule vb_verify_chain_stages [OF wf])
  have l: "length ?w = length (vb_stages vc)" by (rule vb_walk_keeps)
  have "hc_composite (?w ! i) = hc_composite (vb_stages vc ! i)" if "i < length (vb_stages vc)" for i
    using that vb_walk_keeps(3) [of "vc_policy vc" "vc_root_of_trust_hash vc" "vb_stages vc"] l
    by (metis nth_map)
  then show "vb_composites_ok ?vc = vb_composites_ok vc"
    by (auto simp: vb_composites_ok_def s l vb_verify_chain_frame vb_walk_keeps(2) take_map [symmetric])
qed

lemma vb_extend_chain_eq:
  "vb_extend_chain vc s (Some h) v =
     (if unat (vc_chain_length vc) < 8
      then (let n = unat (vc_chain_length vc);
                prev = (if n = 0 then vc_root_of_trust_hash vc else hc_composite (vc_chain vc ! (n - 1)))
            in (vc\<lparr>vc_chain := (vc_chain vc)[n := \<lparr>hc_stage = s, hc_hash = h, hc_composite = vb_sha256_hash (h @ prev),
                      hc_version = v, hc_verify_status = VERIFY_OK, hc_pcr_index = stage_code s\<rparr>],
                   vc_chain_length := vc_chain_length vc + 1\<rparr>, True))
      else (vc, False))"
  by (simp add: vb_extend_chain_def BOOTBLOCK_MAX_STAGES_def word_le_nat_alt Let_def)

lemma vb_extend_chain_stages:
  assumes wf: "vb_wf vc" and c: "vb_composites_ok vc" and h: "length h = 32"
    and e: "vb_extend_chain vc s (Some h) v = (vc', True)"
  shows "\<exists>x. vb_stages vc' = vb_stages vc @ [x] \<and> hc_stage x = s \<and> hc_hash x = h \<and> hc_version x = v
      \<and> hc_verify_status x = VERIFY_OK \<and> vb_wf vc' \<and> vb_composites_ok vc'"
proof -
  let ?n = "unat (vc_chain_length vc)"
  let ?prev = "if ?n = 0 then vc_root_of_trust_hash vc else hc_composite (vc_chain vc ! (?n - 1))"
  let ?x = "\<lparr>hc_stage = s, hc_hash = h, hc_composite = vb_sha256_hash (h @ ?prev),
             hc_version = v, hc_verify_status = VERIFY_OK, hc_pcr_index = stage_code s\<rparr>"
  have lt: "?n < 8" using e by (simp add: vb_extend_chain_eq split: if_splits)
  have vc': "vc' = vc\<lparr>vc_chain := (vc_chain vc)[?n := ?x], vc_chain_length := vc_chain_length vc + 1\<rparr>"
    using e lt by (simp add: vb_extend_chain_eq Let_def)
  have suc: "unat (vc_chain_length vc + 1) = Suc ?n" using lt by (intro unat_suc) simp
  have len: "length (vc_chain vc) = 8" using wf by (simp add: vb_wf_def)
  have st: "vb_stages vc' = vb_stages vc @ [?x]"
    using lt len by (simp add: vb_stages_def vc' suc take_Suc_conv_app_nth)
  have root: "length (vc_root_of_trust_hash vc) = 32" using wf by (simp add: vb_wf_def)
  have ls: "length (vb_stages vc) = ?n" by (rule length_vb_stages [OF wf])
  have prev: "?prev = chain vb_composite (vc_root_of_trust_hash vc) (map hc_hash (vb_stages vc))"
  proof (cases ?n)
    case 0
    then show ?thesis by (simp add: vb_stages_def)
  next
    case (Suc m)
    then have "vc_chain vc ! m = vb_stages vc ! m" by (simp add: vb_stages_def)
    then show ?thesis using c Suc ls by (simp add: vb_composites_ok_def)
  qed
  have lp: "length ?prev = 32" unfolding prev by (rule vbchain.length_chain [OF root])
  have "hc_composite ?x = chain vb_composite (vc_root_of_trust_hash vc) (map hc_hash (vb_stages vc @ [?x]))"
    using lp by (simp flip: prev)
  then have co: "vb_composites_ok vc'"
    using c unfolding vb_composites_ok_def st by (auto simp: vc' less_Suc_eq nth_append)
  have "vb_wf vc'"
    using wf h suc lt by (auto simp: vb_wf_def vc' dest!: set_update_subset_insert [THEN subsetD])
  then show ?thesis using st co by auto
qed

lemma vb_extend_chain_wf:
  assumes "vb_wf vc" and "vb_composites_ok vc" and "\<forall>x. h = Some x \<longrightarrow> length x = 32"
  shows "vb_wf (fst (vb_extend_chain vc s h v)) \<and> vb_composites_ok (fst (vb_extend_chain vc s h v))"
proof (cases "h \<noteq> None \<and> snd (vb_extend_chain vc s h v)")
  case True
  then obtain x vc' where "h = Some x" and "vb_extend_chain vc s (Some x) v = (vc', True)"
    by (cases h; cases "vb_extend_chain vc s h v") auto
  then show ?thesis using vb_extend_chain_stages [OF assms(1,2)] assms(3) by fastforce
next
  case False
  then have "fst (vb_extend_chain vc s h v) = vc"
    by (cases h) (auto simp: vb_extend_chain_eq vb_extend_chain_def Let_def split: if_splits)
  then show ?thesis using assms by simp
qed

section \<open>Keys\<close>

definition vb_keys :: "VerificationChain \<Rightarrow> PublicKeyFingerprint list" where
  "vb_keys vc = take (unat (vc_num_trusted_keys vc)) (vc_trusted_keys vc)"

lemma vb_register_key_keys:
  assumes wf: "vb_wf vc" and fp: "fp \<noteq> []" and room: "unat (vc_num_trusted_keys vc) < 8"
  shows "snd (vb_register_key vc (Some fp))"
    and "\<exists>k. vb_keys (fst (vb_register_key vc (Some fp))) = vb_keys vc @ [k] \<and>
          pk_fingerprint_len k = of_nat (min (length fp) 32) \<and>
          take (min (length fp) 32) (pk_fingerprint k) = take 32 fp \<and> \<not> pk_revoked k"
    and "vb_wf (fst (vb_register_key vc (Some fp)))"
proof -
  let ?n = "unat (vc_num_trusted_keys vc)" and ?len = "min (length fp) 32"
  let ?k = "(vc_trusted_keys vc ! ?n)\<lparr>pk_fingerprint := blit (pk_fingerprint (vc_trusted_keys vc ! ?n)) 0 (take ?len fp),
              pk_fingerprint_len := of_nat ?len, pk_revoked := False, pk_revocation_count := 0\<rparr>"
  have "\<not> vc_num_trusted_keys vc \<ge> 8" using room by (simp add: word_le_nat_alt)
  then have r: "vb_register_key vc (Some fp) =
      (vc\<lparr>vc_trusted_keys := (vc_trusted_keys vc)[?n := ?k], vc_num_trusted_keys := vc_num_trusted_keys vc + 1\<rparr>, True)"
    using fp by (cases "length fp \<le> 32") (simp_all add: vb_register_key_def MAX_KEY_FINGERPRINT_def Let_def min_def)
  then show "snd (vb_register_key vc (Some fp))" by simp
  have suc: "unat (vc_num_trusted_keys vc + 1) = Suc ?n" using room by (intro unat_suc) simp
  have l8: "length (vc_trusted_keys vc) = 8" using wf by (simp add: vb_wf_def)
  have l32: "length (pk_fingerprint (vc_trusted_keys vc ! ?n)) = 32" using wf room l8 by (simp add: vb_wf_def)
  have ul: "unat (of_nat ?len :: u32) \<le> 32" by (simp add: unat_of_nat min_def)
  have "vb_keys (fst (vb_register_key vc (Some fp))) = vb_keys vc @ [?k]"
    using room l8 by (simp add: r vb_keys_def suc take_Suc_conv_app_nth)
  moreover have "take ?len (blit (pk_fingerprint (vc_trusted_keys vc ! ?n)) 0 (take ?len fp)) = take 32 fp"
    using l32 by (simp add: blit_def min_def)
  ultimately show "\<exists>k. vb_keys (fst (vb_register_key vc (Some fp))) = vb_keys vc @ [k] \<and>
      pk_fingerprint_len k = of_nat ?len \<and> take ?len (pk_fingerprint k) = take 32 fp \<and> \<not> pk_revoked k"
    by (intro exI [of _ ?k]) simp
  show "vb_wf (fst (vb_register_key vc (Some fp)))"
    using wf ul l32 room suc by (auto simp: vb_wf_def r dest!: set_update_subset_insert [THEN subsetD])
qed

lemma vb_register_key_full:
  "fp = None \<or> fp = Some [] \<or> 8 \<le> unat (vc_num_trusted_keys vc) \<Longrightarrow> vb_register_key vc fp = (vc, False)"
  by (auto simp: vb_register_key_def word_le_nat_alt Let_def split: option.split)

lemma vb_register_key_wf: "vb_wf vc \<Longrightarrow> vb_wf (fst (vb_register_key vc fp))"
  using vb_register_key_keys(3) [of vc] vb_register_key_full [of fp vc]
  by (cases fp) (auto simp: not_le [symmetric], metis fst_conv)

lemma vb_revoke_key_keys:
  assumes "vb_wf vc"
  shows "vb_revoke_key vc (Some fp) =
    (case find_index (key_matches fp) (vb_keys vc) of None \<Rightarrow> (vc, False)
     | Some i \<Rightarrow> (fst (vb_revoke_key vc (Some fp)), True))"
    and "find_index (key_matches fp) (vb_keys vc) = Some i \<Longrightarrow>
      vb_keys (fst (vb_revoke_key vc (Some fp)))
        = (vb_keys vc)[i := (vb_keys vc ! i)\<lparr>pk_revoked := True, pk_revocation_count := pk_revocation_count (vb_keys vc ! i) + 1\<rparr>]"
    and "vb_wf (fst (vb_revoke_key vc (Some fp)))"
proof -
  show "vb_revoke_key vc (Some fp) =
    (case find_index (key_matches fp) (vb_keys vc) of None \<Rightarrow> (vc, False)
     | Some i \<Rightarrow> (fst (vb_revoke_key vc (Some fp)), True))"
    by (simp add: vb_revoke_key_def vb_keys_def Let_def split: option.split)
next
  assume f: "find_index (key_matches fp) (vb_keys vc) = Some i"
  then have "i < length (vb_keys vc)" by (rule find_index_SomeD [THEN conjunct1])
  then show "vb_keys (fst (vb_revoke_key vc (Some fp)))
        = (vb_keys vc)[i := (vb_keys vc ! i)\<lparr>pk_revoked := True, pk_revocation_count := pk_revocation_count (vb_keys vc ! i) + 1\<rparr>]"
    using f by (simp add: vb_revoke_key_def vb_keys_def Let_def take_update_swap)
next
  show "vb_wf (fst (vb_revoke_key vc (Some fp)))"
  proof (cases "find_index (key_matches fp) (vb_keys vc)")
    case None
    then show ?thesis using assms by (simp add: vb_revoke_key_def vb_keys_def)
  next
    case (Some i)
    then have "i < length (vc_trusted_keys vc)"
      using find_index_SomeD [OF Some] by (simp add: vb_keys_def)
    then have "vc_trusted_keys vc ! i \<in> set (vc_trusted_keys vc)" by simp
    then show ?thesis using assms Some
      by (auto simp: vb_wf_def vb_revoke_key_def vb_keys_def Let_def dest!: set_update_subset_insert [THEN subsetD])
  qed
qed

lemma vb_revoke_key_wf: "vb_wf vc \<Longrightarrow> vb_wf (fst (vb_revoke_key vc fp))"
  by (cases fp) (auto simp: vb_revoke_key_keys(3), simp add: vb_revoke_key_def)

text \<open>The stages are untouched by the key operations.\<close>

lemma vb_key_ops_frame:
  "vc_chain (fst (vb_register_key vc fp)) = vc_chain vc" "vc_chain (fst (vb_revoke_key vc fp)) = vc_chain vc"
  "vc_chain_length (fst (vb_register_key vc fp)) = vc_chain_length vc"
  "vc_chain_length (fst (vb_revoke_key vc fp)) = vc_chain_length vc"
  "vc_root_of_trust_hash (fst (vb_register_key vc fp)) = vc_root_of_trust_hash vc"
  "vc_root_of_trust_hash (fst (vb_revoke_key vc fp)) = vc_root_of_trust_hash vc"
  by (simp_all add: vb_register_key_def vb_revoke_key_def Let_def split: option.split)

section \<open>Runs\<close>

datatype vb_op =
  Vb_Add_Rule "BootPolicyRule option"
  | Vb_Register_Key "bytes option"
  | Vb_Revoke_Key "bytes option"
  | Vb_Extend BootStage "bytes option" u32
  | Vb_Extend_Pcr u32 "bytes option" u32 "string option"
  | Vb_Verify

fun vb_step :: "vb_op \<Rightarrow> VerificationChain \<Rightarrow> VerificationChain" where
  "vb_step (Vb_Add_Rule r) vc = vc\<lparr>vc_policy := fst (vb_add_policy_rule (vc_policy vc) r)\<rparr>"
| "vb_step (Vb_Register_Key fp) vc = fst (vb_register_key vc fp)"
| "vb_step (Vb_Revoke_Key fp) vc = fst (vb_revoke_key vc fp)"
| "vb_step (Vb_Extend s h v) vc = fst (vb_extend_chain vc s h v)"
| "vb_step (Vb_Extend_Pcr i m t d) vc = vc\<lparr>vc_pcr_log := fst (vb_extend_pcr (vc_pcr_log vc) i m t d)\<rparr>"
| "vb_step Vb_Verify vc = fst (vb_verify_chain vc)"

text \<open>Digests are 32 bytes long by their C type.\<close>

fun vb_op_ok :: "vb_op \<Rightarrow> bool" where
  "vb_op_ok (Vb_Extend s h v) \<longleftrightarrow> (case h of None \<Rightarrow> True | Some x \<Rightarrow> length x = 32)"
| "vb_op_ok (Vb_Extend_Pcr i m t d) \<longleftrightarrow> (case m of None \<Rightarrow> True | Some x \<Rightarrow> length x = 32)"
| "vb_op_ok _ \<longleftrightarrow> True"

definition vb_run :: "vb_op list \<Rightarrow> VerificationChain \<Rightarrow> VerificationChain" where
  "vb_run ops vc = fold vb_step ops vc"

lemma vb_add_policy_rule_wf:
  "length (po_rules p) = 16 \<Longrightarrow> unat (po_rule_count p) \<le> 16 \<Longrightarrow>
    length (po_rules (fst (vb_add_policy_rule p r))) = 16 \<and> unat (po_rule_count (fst (vb_add_policy_rule p r))) \<le> 16"
  by (cases "unat (po_rule_count p) < 16")
    (auto simp: vb_add_policy_rule_def BOOT_POLICY_MAX_RULES_def word_le_nat_alt unat_suc split: option.split)

lemma vb_composites_frame:
  "vc_chain vc' = vc_chain vc \<Longrightarrow> vc_chain_length vc' = vc_chain_length vc \<Longrightarrow>
    vc_root_of_trust_hash vc' = vc_root_of_trust_hash vc \<Longrightarrow> vb_composites_ok vc' = vb_composites_ok vc"
  by (simp add: vb_composites_ok_def vb_stages_def)

lemma vb_step_inv:
  assumes "vb_wf vc" and "vb_composites_ok vc" and "vb_op_ok op"
  shows "vb_wf (vb_step op vc) \<and> vb_composites_ok (vb_step op vc)"
proof (cases op)
  case (Vb_Add_Rule r)
  then show ?thesis using assms vb_add_policy_rule_wf [of "vc_policy vc" r]
    by (simp add: vb_wf_def vb_composites_ok_def vb_stages_def)
next
  case (Vb_Register_Key fp)
  then show ?thesis using assms vb_composites_frame [of "fst (vb_register_key vc fp)" vc]
    by (simp add: vb_register_key_wf vb_key_ops_frame)
next
  case (Vb_Revoke_Key fp)
  then show ?thesis using assms vb_composites_frame [of "fst (vb_revoke_key vc fp)" vc]
    by (simp add: vb_revoke_key_wf vb_key_ops_frame)
next
  case (Vb_Extend s h v)
  then show ?thesis using assms vb_extend_chain_wf [of vc h s v] by (simp split: option.splits)
next
  case (Vb_Extend_Pcr i m t d)
  then show ?thesis using assms vb_log_wf_extend [of "vc_pcr_log vc" m i t d]
    by (simp add: vb_wf_def vb_composites_ok_def vb_stages_def split: option.splits)
next
  case Vb_Verify
  then show ?thesis using assms vb_verify_chain_wf [of vc] by simp
qed

lemma vb_run_inv:
  "vb_wf vc \<Longrightarrow> vb_composites_ok vc \<Longrightarrow> \<forall>op \<in> set ops. vb_op_ok op \<Longrightarrow>
    vb_wf (vb_run ops vc) \<and> vb_composites_ok (vb_run ops vc)"
  unfolding vb_run_def
proof (induction ops arbitrary: vc)
  case (Cons op ops)
  then show ?case using vb_step_inv [of vc op] by simp
qed simp

lemma vb_init_chain_inv:
  assumes "length rot = 32"
  shows "vb_wf (fst (vb_init_chain vc (Some rot)))" and "vb_composites_ok (fst (vb_init_chain vc (Some rot)))"
proof -
  show "vb_composites_ok (fst (vb_init_chain vc (Some rot)))"
    by (simp add: vb_composites_ok_def vb_stages_def vb_init_chain_def)
  have "length (po_rules (vb_init_policy True True)) = 16 \<and> unat (po_rule_count (vb_init_policy True True)) \<le> 16"
    by (simp add: vb_init_policy_def vb_add_policy_rule_def BOOT_POLICY_MAX_RULES_def)
  then show "vb_wf (fst (vb_init_chain vc (Some rot)))"
    using assms
    by (simp add: vb_wf_def vb_init_chain_def vb_log_wf_init BOOTBLOCK_MAX_STAGES_def zero_entry_def zero_key_def)
qed

lemma vb_step_root: "vc_root_of_trust_hash (vb_step op vc) = vc_root_of_trust_hash vc"
proof (cases op)
  case (Vb_Extend s h v)
  then show ?thesis by (cases h) (simp_all add: vb_extend_chain_def Let_def)
qed (simp_all add: vb_key_ops_frame vb_verify_chain_frame)

lemma vb_run_root: "vc_root_of_trust_hash (vb_run ops vc) = vc_root_of_trust_hash vc"
  unfolding vb_run_def by (induction ops arbitrary: vc) (simp_all add: vb_step_root)

text \<open>The measurements of a run that name a register; the log takes the first 24 of them.\<close>

fun vb_measurements :: "vb_op list \<Rightarrow> (nat \<times> bytes) list" where
  "vb_measurements [] = []"
| "vb_measurements (Vb_Extend_Pcr i (Some m) t d # ops) =
     (if unat i < 24 then (unat i, m) # vb_measurements ops else vb_measurements ops)"
| "vb_measurements (op # ops) = vb_measurements ops"

lemma vb_step_log:
  "vc_pcr_log (vb_step op vc) =
    (case op of Vb_Extend_Pcr i m t d \<Rightarrow> fst (vb_extend_pcr (vc_pcr_log vc) i m t d) | _ \<Rightarrow> vc_pcr_log vc)"
proof (cases op)
  case (Vb_Register_Key fp)
  then show ?thesis by (simp add: vb_register_key_def Let_def split: option.split)
next
  case (Vb_Revoke_Key fp)
  then show ?thesis by (simp add: vb_revoke_key_def Let_def split: option.split)
next
  case (Vb_Extend s h v)
  then show ?thesis by (simp add: vb_extend_chain_def Let_def split: option.split)
qed (simp_all add: vb_verify_chain_frame)

lemma vb_log_entries_len: "vb_log_wf log \<Longrightarrow> length (vb_log_entries log) = unat (pl_event_count log)"
  by (simp add: vb_log_entries_def vb_log_wf_def)

lemma vb_extend_pcr_entries:
  assumes wf: "vb_log_wf log"
  shows "vb_log_entries (fst (vb_extend_pcr log i (Some m) t d)) =
    (if unat i < 24 then take 24 (vb_log_entries log @ [(unat i, m)]) else vb_log_entries log)"
proof (cases "unat i < 24 \<and> unat (pl_event_count log) < 24")
  case True
  then obtain log' where e: "vb_extend_pcr log i (Some m) t d = (log', True)"
    by (simp add: vb_extend_pcr_eq Let_def)
  have "vb_log_entries log' = vb_log_entries log @ [(unat i, m)]"
    using wf e by (intro vb_log_entries_extend) (auto simp: vb_log_wf_def)
  then show ?thesis using True e vb_log_entries_len [OF wf] by (simp add: take_Cons')
next
  case False
  then have "vb_extend_pcr log i (Some m) t d = (log, False)" by (auto simp: vb_extend_pcr_eq)
  moreover have "unat i < 24 \<Longrightarrow> length (vb_log_entries log) = 24"
    using False wf vb_log_entries_len [OF wf] by (auto simp: vb_log_wf_def)
  ultimately show ?thesis by simp
qed

lemma vb_extend_pcr_none: "vb_extend_pcr log i None t d = (log, False)"
  by (simp add: vb_extend_pcr_def)

lemma vb_run_entries:
  "vb_wf vc \<Longrightarrow> vb_composites_ok vc \<Longrightarrow> \<forall>op \<in> set ops. vb_op_ok op \<Longrightarrow>
    vb_log_entries (vc_pcr_log (vb_run ops vc)) = take 24 (vb_log_entries (vc_pcr_log vc) @ vb_measurements ops)"
proof (induction ops arbitrary: vc)
  case Nil
  then have "length (vb_log_entries (vc_pcr_log vc)) \<le> 24"
    by (simp add: vb_wf_def vb_log_wf_def vb_log_entries_def)
  then show ?case by (simp add: vb_run_def)
next
  case (Cons op ops)
  have log: "vb_log_wf (vc_pcr_log vc)" using Cons.prems by (simp add: vb_wf_def)
  then have le: "length (vb_log_entries (vc_pcr_log vc)) \<le> 24"
    by (simp add: vb_log_entries_len) (simp add: vb_log_wf_def)
  have IH: "vb_log_entries (vc_pcr_log (vb_run (op # ops) vc))
      = take 24 (vb_log_entries (vc_pcr_log (vb_step op vc)) @ vb_measurements ops)"
    using Cons.IH [of "vb_step op vc"] vb_step_inv [of vc op] Cons.prems by (simp add: vb_run_def)
  show ?case
  proof (cases "\<exists>i m t d. op = Vb_Extend_Pcr i (Some m) t d")
    case True
    then obtain i m t d where op: "op = Vb_Extend_Pcr i (Some m) t d" by blast
    show ?thesis
      unfolding IH using le
      by (auto simp: op vb_step_log vb_extend_pcr_entries [OF log] take_take_append simp del: take_append)
  next
    case False
    then have "vc_pcr_log (vb_step op vc) = vc_pcr_log vc \<and> vb_measurements (op # ops) = vb_measurements ops"
    proof (cases op)
      case (Vb_Extend_Pcr i m t d)
      then have "m = None" using False by (cases m) auto
      then show ?thesis using Vb_Extend_Pcr by (simp add: vb_extend_pcr_none)
    qed (simp_all add: vb_step_log del: vb_step.simps)
    then show ?thesis unfolding IH by simp
  qed
qed

text \<open>What the composite of stage \<open>i\<close> is the hash of.\<close>

definition vb_hash_input :: "VerificationChain \<Rightarrow> nat \<Rightarrow> bytes" where
  "vb_hash_input vc i = hc_hash (vb_stages vc ! i) @
     (if i = 0 then vc_root_of_trust_hash vc else hc_composite (vb_stages vc ! (i - 1)))"

lemma vb_hash_input_chain:
  assumes "vb_wf vc" and "vb_composites_ok vc" and "i < length (vb_stages vc)"
  shows "swap_halves (chain_inputs vb_composite (vc_root_of_trust_hash vc) (map hc_hash (vb_stages vc)) ! i)
    = vb_hash_input vc i"
proof -
  let ?root = "vc_root_of_trust_hash vc" and ?ds = "map hc_hash (vb_stages vc)"
  have "length ?root = 32" using assms(1) by (simp add: vb_wf_def)
  then have "length (chain vb_composite ?root (take i ?ds)) = 32" by (rule vbchain.length_chain)
  moreover have "chain vb_composite ?root (take i ?ds) =
      (if i = 0 then ?root else hc_composite (vb_stages vc ! (i - 1)))"
    using assms by (cases i) (auto simp: vb_composites_ok_def take_map)
  ultimately show ?thesis
    using assms(3) by (simp add: nth_chain_inputs vb_hash_input_def del: take_map)
qed

lemma swap_halves_inject:
  assumes "length x = length y" and "swap_halves x = swap_halves y"
  shows "x = y"
proof -
  have "drop 32 x = drop 32 y \<and> take 32 x = take 32 y"
    using assms by (simp add: swap_halves_def)
  then show ?thesis by (metis append_take_drop_id)
qed

lemma vb_composite_swap: "vb_composite x = vb_sha256_hash (swap_halves x)"
  by (simp add: vb_composite_def)

lemma vb_chain_binding:
  assumes wf: "vb_wf vc" "vb_wf vc'" and ok: "vb_composites_ok vc" "vb_composites_ok vc'"
    and root: "vc_root_of_trust_hash vc = vc_root_of_trust_hash vc'"
    and len: "length (vb_stages vc) = length (vb_stages vc')" and ne: "vb_stages vc \<noteq> []"
    and last: "hc_composite (last (vb_stages vc)) = hc_composite (last (vb_stages vc'))"
  shows "map hc_hash (vb_stages vc) = map hc_hash (vb_stages vc') \<or>
    (\<exists>i < length (vb_stages vc). vb_hash_input vc i \<noteq> vb_hash_input vc' i \<and>
       vb_sha256_hash (vb_hash_input vc i) = vb_sha256_hash (vb_hash_input vc' i))"
proof -
  let ?root = "vc_root_of_trust_hash vc" and ?ds = "map hc_hash (vb_stages vc)" and ?es = "map hc_hash (vb_stages vc')"
  have c: "hc_composite (last (vb_stages v)) = chain vb_composite (vc_root_of_trust_hash v) (map hc_hash (vb_stages v))"
    if "vb_composites_ok v" "vb_stages v \<noteq> []" for v
    using that by (auto simp: vb_composites_ok_def last_conv_nth dest: spec [of _ "length (vb_stages v) - 1"])
  have "chain vb_composite ?root ?ds = chain vb_composite ?root ?es"
    using c [OF ok(1) ne] c [OF ok(2)] ne len last root by force
  moreover have "length ?root = 32" using wf by (simp add: vb_wf_def)
  moreover have "\<forall>d \<in> set ?ds. length d = 32" "\<forall>d \<in> set ?es. length d = 32"
    using vb_stages_digests [OF wf(1)] vb_stages_digests [OF wf(2)] by auto
  ultimately consider "?ds = ?es" | "collides vb_composite (chain_inputs vb_composite ?root ?ds) (chain_inputs vb_composite ?root ?es)"
    using vbchain.chain_binding [of ?root ?root ?ds ?es] len by auto
  then show ?thesis
  proof cases
    case 2
    then obtain i where i: "i < length (vb_stages vc)"
      and x: "chain_inputs vb_composite ?root ?ds ! i \<noteq> chain_inputs vb_composite ?root ?es ! i"
        "vb_composite (chain_inputs vb_composite ?root ?ds ! i) = vb_composite (chain_inputs vb_composite ?root ?es ! i)"
      using len by (auto simp: collides_def)
    note h = vb_hash_input_chain [OF wf(1) ok(1), of i] vb_hash_input_chain [OF wf(2) ok(2), of i, folded root]
    have "length (chain_inputs vb_composite ?root ?ds ! i) = 64" "length (chain_inputs vb_composite ?root ?es ! i) = 64"
      using i len vbchain.length_chain [of ?root] wf vb_stages_digests [OF wf(1)] vb_stages_digests [OF wf(2)]
      by (simp_all add: nth_chain_inputs vb_wf_def)
    then have "swap_halves (chain_inputs vb_composite ?root ?ds ! i) \<noteq> swap_halves (chain_inputs vb_composite ?root ?es ! i)"
      using x(1) swap_halves_inject [of "chain_inputs vb_composite ?root ?ds ! i" "chain_inputs vb_composite ?root ?es ! i"]
      by auto
    then have "vb_hash_input vc i \<noteq> vb_hash_input vc' i"
      unfolding h(1) [OF i] h(2) [OF i [unfolded len]] .
    moreover have "vb_sha256_hash (vb_hash_input vc i) = vb_sha256_hash (vb_hash_input vc' i)"
      using x(2) unfolding vb_composite_swap h(1) [OF i] h(2) [OF i [unfolded len]] .
    ultimately show ?thesis using i by blast
  qed simp
qed

end
