(* ===== verification/Fw_Update.thy ===== *)
theory Fw_Update
  imports Boot_Block
begin

text \<open>
  The capsule update and A/B slot manager of \<open>mini-firmware/src/firmware_update.c\<close>: validation
  of a capsule, its application to a slot, the boot success and failure reports with the
  failover between slots, and recovery.  The payload itself never reaches the code (only its
  hash does); the slot identifiers are a datatype, the 32-bit target of a capsule is a word.
\<close>

section \<open>State\<close>

definition FW_UPDATE_MAX_PAYLOAD :: u32 where "FW_UPDATE_MAX_PAYLOAD = 16 * 1024 * 1024"

definition MAX_UPDATE_HISTORY :: nat where "MAX_UPDATE_HISTORY = 8"

datatype FirmwareSlotID = FW_SLOT_A | FW_SLOT_B | FW_SLOT_RECOVERY

definition slot_index :: "FirmwareSlotID \<Rightarrow> nat" where
  "slot_index s = (case s of FW_SLOT_A \<Rightarrow> 0 | FW_SLOT_B \<Rightarrow> 1 | FW_SLOT_RECOVERY \<Rightarrow> 2)"

text \<open>The slot a 32-bit number denotes when it is used as an index of the three slots.\<close>

definition slot_of :: "u32 \<Rightarrow> FirmwareSlotID option" where
  "slot_of t = (if t = 0 then Some FW_SLOT_A else if t = 1 then Some FW_SLOT_B
     else if t = 2 then Some FW_SLOT_RECOVERY else None)"

datatype SlotStatus =
  SLOT_STATUS_ACTIVE | SLOT_STATUS_STANDBY | SLOT_STATUS_UPDATING | SLOT_STATUS_UNBOOTABLE | SLOT_STATUS_INVALID

record FirmwareSlot =
  fs_id :: FirmwareSlotID
  fs_name :: string
  fs_base_offset :: u64
  fs_size :: u64
  fs_status :: SlotStatus
  fs_version :: u32
  fs_boot_attempts :: u32
  fs_successful_boots :: u32
  fs_bootable :: bool
  fs_fw_hash :: bytes

record ABSlotManager =
  sm_slots :: "FirmwareSlot list"
  sm_active_slot :: FirmwareSlotID
  sm_max_boot_attempts :: u32
  sm_min_successful_boots :: u32
  sm_slot_a_priority :: bool

record CapsuleHeader =
  ch_guid :: bytes
  ch_header_size :: u32
  ch_flags :: u32
  ch_capsule_image_size :: u32

record FirmwareCapsule =
  fc_header :: CapsuleHeader
  fc_type :: u32
  fc_payload_size :: u32
  fc_target_slot :: u32
  fc_fw_version :: u32
  fc_payload_hash :: bytes
  fc_signature :: bytes

definition sizeof_CapsuleHeader :: u32 where "sizeof_CapsuleHeader = 16 + 3 * 4"

definition sizeof_FirmwareCapsule :: u32 where
  "sizeof_FirmwareCapsule = sizeof_CapsuleHeader + 4 * 4 + 32 + 256"

record UpdateHistoryEntry =
  uh_sequence :: u32
  uh_from_version :: u32
  uh_to_version :: u32
  uh_target_slot :: FirmwareSlotID
  uh_success :: bool
  uh_timestamp :: u32
  uh_reason :: string

record FwUpdateManager =
  fu_slot_mgr :: ABSlotManager
  fu_current_capsule :: FirmwareCapsule
  fu_history :: "UpdateHistoryEntry list"
  fu_history_count :: u32
  fu_update_in_progress :: bool
  fu_update_sequence :: u32
  fu_recovery_mode :: bool
  fu_golden_image_hash :: bytes

section \<open>Operations\<close>

definition zero_slot :: FirmwareSlot where
  "zero_slot = \<lparr>fs_id = FW_SLOT_A, fs_name = [], fs_base_offset = 0, fs_size = 0,
     fs_status = SLOT_STATUS_ACTIVE, fs_version = 0, fs_boot_attempts = 0, fs_successful_boots = 0,
     fs_bootable = False, fs_fw_hash = zeros 32\<rparr>"

definition zero_capsule :: FirmwareCapsule where
  "zero_capsule = \<lparr>fc_header = \<lparr>ch_guid = zeros 16, ch_header_size = 0, ch_flags = 0, ch_capsule_image_size = 0\<rparr>,
     fc_type = 0, fc_payload_size = 0, fc_target_slot = 0, fc_fw_version = 0,
     fc_payload_hash = zeros 32, fc_signature = zeros 256\<rparr>"

definition zero_history :: UpdateHistoryEntry where
  "zero_history = \<lparr>uh_sequence = 0, uh_from_version = 0, uh_to_version = 0, uh_target_slot = FW_SLOT_A,
     uh_success = False, uh_timestamp = 0, uh_reason = []\<rparr>"

definition fw_update_init :: FwUpdateManager where
  "fw_update_init =
     \<lparr>fu_slot_mgr = \<lparr>sm_slots = replicate 3 zero_slot, sm_active_slot = FW_SLOT_A, sm_max_boot_attempts = 7,
                    sm_min_successful_boots = 2, sm_slot_a_priority = True\<rparr>,
      fu_current_capsule = zero_capsule, fu_history = replicate MAX_UPDATE_HISTORY zero_history,
      fu_history_count = 0, fu_update_in_progress = False, fu_update_sequence = 0,
      fu_recovery_mode = False, fu_golden_image_hash = zeros 32\<rparr>"

text \<open>Access to the slot table.\<close>

definition get_slot :: "FwUpdateManager \<Rightarrow> FirmwareSlotID \<Rightarrow> FirmwareSlot" where
  "get_slot mgr s = sm_slots (fu_slot_mgr mgr) ! slot_index s"

definition set_slot :: "FirmwareSlotID \<Rightarrow> FirmwareSlot \<Rightarrow> FwUpdateManager \<Rightarrow> FwUpdateManager" where
  "set_slot s x mgr =
     mgr\<lparr>fu_slot_mgr := (fu_slot_mgr mgr)\<lparr>sm_slots := (sm_slots (fu_slot_mgr mgr))[slot_index s := x]\<rparr>\<rparr>"

definition active_slot :: "FwUpdateManager \<Rightarrow> FirmwareSlotID" where
  "active_slot mgr = sm_active_slot (fu_slot_mgr mgr)"

definition set_active :: "FirmwareSlotID \<Rightarrow> FwUpdateManager \<Rightarrow> FwUpdateManager" where
  "set_active s mgr = mgr\<lparr>fu_slot_mgr := (fu_slot_mgr mgr)\<lparr>sm_active_slot := s\<rparr>\<rparr>"

definition fw_update_setup_slots ::
  "FwUpdateManager \<Rightarrow> u64 \<Rightarrow> u64 \<Rightarrow> u64 \<Rightarrow> u64 \<Rightarrow> u64 \<Rightarrow> u64 \<Rightarrow> FwUpdateManager \<times> bool" where
  "fw_update_setup_slots mgr slot_a_offset slot_a_size slot_b_offset slot_b_size recovery_offset recovery_size =
     (let a = (get_slot mgr FW_SLOT_A)\<lparr>fs_id := FW_SLOT_A, fs_name := ''Slot A'', fs_base_offset := slot_a_offset,
                fs_size := slot_a_size, fs_status := SLOT_STATUS_ACTIVE, fs_version := 1, fs_bootable := True\<rparr>;
          m1 = set_slot FW_SLOT_A a mgr;
          b = (get_slot m1 FW_SLOT_B)\<lparr>fs_id := FW_SLOT_B, fs_name := ''Slot B'', fs_base_offset := slot_b_offset,
                fs_size := slot_b_size, fs_status := SLOT_STATUS_STANDBY, fs_version := 1, fs_bootable := True\<rparr>;
          m2 = set_slot FW_SLOT_B b m1;
          r = (get_slot m2 FW_SLOT_RECOVERY)\<lparr>fs_id := FW_SLOT_RECOVERY, fs_name := ''Recovery'',
                fs_base_offset := recovery_offset, fs_size := recovery_size, fs_status := SLOT_STATUS_STANDBY,
                fs_version := 0, fs_bootable := True\<rparr>;
          m3 = set_slot FW_SLOT_RECOVERY r m2
      in (set_active FW_SLOT_A m3, True))"

definition fw_update_validate_capsule ::
  "FwUpdateManager \<Rightarrow> FirmwareCapsule option \<Rightarrow> PublicKeyFingerprint option \<Rightarrow> FwUpdateManager \<times> bool" where
  "fw_update_validate_capsule mgr capsule key =
     (case (capsule, key) of
        (Some c, Some k) \<Rightarrow>
          if ch_header_size (fc_header c) < sizeof_CapsuleHeader then (mgr, False)
          else if ch_capsule_image_size (fc_header c) < sizeof_FirmwareCapsule then (mgr, False)
          else if fc_payload_size c = 0 \<or> fc_payload_size c > FW_UPDATE_MAX_PAYLOAD then (mgr, False)
          else if vb_verify_signature (Some (fc_payload_hash c)) (Some (fc_signature c)) (Some k) \<noteq> VERIFY_OK
            then (mgr, False)
          else if fc_fw_version c < fs_version (get_slot mgr (active_slot mgr)) then (mgr, False)
          else (case slot_of (fc_target_slot c) of
                  Some FW_SLOT_A \<Rightarrow>
                    if ucast (fc_payload_size c) > fs_size (get_slot mgr FW_SLOT_A) then (mgr, False)
                    else (mgr\<lparr>fu_current_capsule := c, fu_update_in_progress := True\<rparr>, True)
                | Some FW_SLOT_B \<Rightarrow>
                    if ucast (fc_payload_size c) > fs_size (get_slot mgr FW_SLOT_B) then (mgr, False)
                    else (mgr\<lparr>fu_current_capsule := c, fu_update_in_progress := True\<rparr>, True)
                | _ \<Rightarrow> (mgr, False))
      | _ \<Rightarrow> (mgr, False))"

text \<open>
  The search for the previous active slot: the first one that is not the target by its own
  identifier and is marked active.  A target outside the table is an access out of bounds.
\<close>

definition fw_record_history :: "FirmwareSlotID \<Rightarrow> FwUpdateManager \<Rightarrow> FwUpdateManager" where
  "fw_record_history t mgr =
     (if unat (fu_history_count mgr) < MAX_UPDATE_HISTORY
      then let h = (fu_history mgr ! unat (fu_history_count mgr))
                   \<lparr>uh_sequence := fu_update_sequence mgr,
                    uh_from_version := fs_version (get_slot mgr (active_slot mgr)),
                    uh_to_version := fc_fw_version (fu_current_capsule mgr),
                    uh_target_slot := t, uh_success := True, uh_timestamp := 0, uh_reason := ''Capsule update''\<rparr>
           in mgr\<lparr>fu_history := (fu_history mgr)[unat (fu_history_count mgr) := h],
                  fu_history_count := fu_history_count mgr + 1,
                  fu_update_sequence := fu_update_sequence mgr + 1\<rparr>
      else mgr)"

definition fw_demote_previous :: "FirmwareSlotID \<Rightarrow> FwUpdateManager \<Rightarrow> FwUpdateManager" where
  "fw_demote_previous t mgr =
     (case find_index (\<lambda>s. fs_id s \<noteq> t \<and> fs_status s = SLOT_STATUS_ACTIVE) (sm_slots (fu_slot_mgr mgr)) of
        None \<Rightarrow> mgr
      | Some i \<Rightarrow> mgr\<lparr>fu_slot_mgr := (fu_slot_mgr mgr)
                   \<lparr>sm_slots := (sm_slots (fu_slot_mgr mgr))
                      [i := (sm_slots (fu_slot_mgr mgr) ! i)\<lparr>fs_status := SLOT_STATUS_STANDBY\<rparr>]\<rparr>\<rparr>)"

definition fw_update_apply_capsule :: "FwUpdateManager \<Rightarrow> (FwUpdateManager \<times> bool) c_result" where
  "fw_update_apply_capsule mgr =
     (if \<not> fu_update_in_progress mgr then Returned (mgr, False)
      else let cap = fu_current_capsule mgr
           in case slot_of (fc_target_slot cap) of
                None \<Rightarrow> Undefined
              | Some t \<Rightarrow>
                  let target = (get_slot mgr t)\<lparr>fs_version := fc_fw_version cap, fs_fw_hash := fc_payload_hash cap,
                        fs_status := SLOT_STATUS_STANDBY, fs_boot_attempts := 0, fs_successful_boots := 0,
                        fs_bootable := True\<rparr>;
                      m1 = fw_record_history t (set_slot t target mgr);
                      m2 = set_active t m1;
                      m3 = set_slot t ((get_slot m2 t)\<lparr>fs_status := SLOT_STATUS_ACTIVE\<rparr>) m2;
                      m4 = fw_demote_previous t m3
                  in Returned (m4\<lparr>fu_update_in_progress := False\<rparr>, True))"

definition fw_update_mark_boot_success :: "FwUpdateManager \<Rightarrow> FwUpdateManager" where
  "fw_update_mark_boot_success mgr =
     (let a = active_slot mgr; s = get_slot mgr a;
          m1 = set_slot a (s\<lparr>fs_boot_attempts := 0, fs_successful_boots := fs_successful_boots s + 1\<rparr>) mgr
      in if fu_history_count m1 > 0
         then let i = unat (fu_history_count m1 - 1)
              in m1\<lparr>fu_history := (fu_history m1)[i := (fu_history m1 ! i)\<lparr>uh_success := True\<rparr>]\<rparr>
         else m1)"

definition fw_update_select_boot_slot :: "FwUpdateManager \<Rightarrow> FirmwareSlotID" where
  "fw_update_select_boot_slot mgr =
     (let act = get_slot mgr (active_slot mgr);
          alt = (if active_slot mgr = FW_SLOT_A then FW_SLOT_B else FW_SLOT_A);
          alt_slot = get_slot mgr alt;
          rec = get_slot mgr FW_SLOT_RECOVERY
      in if fs_bootable act \<and> fs_status act \<noteq> SLOT_STATUS_UNBOOTABLE then active_slot mgr
         else if fs_bootable alt_slot \<and> fs_status alt_slot \<noteq> SLOT_STATUS_UNBOOTABLE then alt
         else if fs_bootable rec then FW_SLOT_RECOVERY
         else FW_SLOT_A)"

definition fw_update_mark_boot_failed :: "FwUpdateManager \<Rightarrow> FwUpdateManager" where
  "fw_update_mark_boot_failed mgr =
     (let a = active_slot mgr; s = get_slot mgr a;
          s1 = s\<lparr>fs_boot_attempts := fs_boot_attempts s + 1\<rparr>;
          m1 = set_slot a s1 mgr
      in if fs_boot_attempts s1 \<ge> sm_max_boot_attempts (fu_slot_mgr m1)
         then let m2 = set_slot a (s1\<lparr>fs_status := SLOT_STATUS_UNBOOTABLE, fs_bootable := False\<rparr>) m1
              in set_active (fw_update_select_boot_slot m2) m2
         else m1)"

definition fw_update_enter_recovery :: "FwUpdateManager \<Rightarrow> FwUpdateManager" where
  "fw_update_enter_recovery mgr =
     (let m1 = set_active FW_SLOT_RECOVERY (mgr\<lparr>fu_recovery_mode := True\<rparr>)
      in set_slot FW_SLOT_RECOVERY ((get_slot m1 FW_SLOT_RECOVERY)\<lparr>fs_status := SLOT_STATUS_ACTIVE\<rparr>) m1)"

definition fw_update_verify_golden_image :: "FwUpdateManager \<Rightarrow> bool" where
  "fw_update_verify_golden_image mgr = True"

section \<open>The slot table\<close>

lemma slot_index_less [simp]: "slot_index s < 3"
  by (simp add: slot_index_def split: FirmwareSlotID.split)

lemma slot_index_inject [simp]: "slot_index s = slot_index t \<longleftrightarrow> s = t"
  by (simp add: slot_index_def split: FirmwareSlotID.split)

lemma slot_of_Some_iff: "slot_of t = Some s \<longleftrightarrow> unat t = slot_index s"
  by (auto simp: slot_of_def slot_index_def word_unat_eq_iff split: FirmwareSlotID.split)

abbreviation slots_ok :: "FwUpdateManager \<Rightarrow> bool" where
  "slots_ok mgr \<equiv> length (sm_slots (fu_slot_mgr mgr)) = 3"

lemma get_set_slot [simp]:
  "slots_ok mgr \<Longrightarrow> get_slot (set_slot s x mgr) t = (if s = t then x else get_slot mgr t)"
  by (auto simp: get_slot_def set_slot_def)

lemma set_slot_simps [simp]:
  "length (sm_slots (fu_slot_mgr (set_slot s x mgr))) = length (sm_slots (fu_slot_mgr mgr))"
  "active_slot (set_slot s x mgr) = active_slot mgr"
  "sm_max_boot_attempts (fu_slot_mgr (set_slot s x mgr)) = sm_max_boot_attempts (fu_slot_mgr mgr)"
  "fu_current_capsule (set_slot s x mgr) = fu_current_capsule mgr"
  "fu_history (set_slot s x mgr) = fu_history mgr"
  "fu_history_count (set_slot s x mgr) = fu_history_count mgr"
  "fu_update_in_progress (set_slot s x mgr) = fu_update_in_progress mgr"
  "fu_update_sequence (set_slot s x mgr) = fu_update_sequence mgr"
  by (simp_all add: set_slot_def active_slot_def)

lemma set_active_simps [simp]:
  "sm_slots (fu_slot_mgr (set_active s mgr)) = sm_slots (fu_slot_mgr mgr)"
  "get_slot (set_active s mgr) t = get_slot mgr t"
  "active_slot (set_active s mgr) = s"
  "sm_max_boot_attempts (fu_slot_mgr (set_active s mgr)) = sm_max_boot_attempts (fu_slot_mgr mgr)"
  "fu_current_capsule (set_active s mgr) = fu_current_capsule mgr"
  "fu_history (set_active s mgr) = fu_history mgr"
  "fu_history_count (set_active s mgr) = fu_history_count mgr"
  "fu_update_in_progress (set_active s mgr) = fu_update_in_progress mgr"
  "fu_update_sequence (set_active s mgr) = fu_update_sequence mgr"
  by (simp_all add: set_active_def active_slot_def get_slot_def)

lemma other_fields_simps [simp]:
  "get_slot (mgr\<lparr>fu_history := h\<rparr>) t = get_slot mgr t"
  "get_slot (mgr\<lparr>fu_history_count := n\<rparr>) t = get_slot mgr t"
  "get_slot (mgr\<lparr>fu_update_sequence := q\<rparr>) t = get_slot mgr t"
  "get_slot (mgr\<lparr>fu_update_in_progress := b\<rparr>) t = get_slot mgr t"
  "get_slot (mgr\<lparr>fu_current_capsule := c\<rparr>) t = get_slot mgr t"
  "get_slot (mgr\<lparr>fu_recovery_mode := b\<rparr>) t = get_slot mgr t"
  "active_slot (mgr\<lparr>fu_history := h\<rparr>) = active_slot mgr"
  "active_slot (mgr\<lparr>fu_history_count := n\<rparr>) = active_slot mgr"
  "active_slot (mgr\<lparr>fu_update_sequence := q\<rparr>) = active_slot mgr"
  "active_slot (mgr\<lparr>fu_update_in_progress := b\<rparr>) = active_slot mgr"
  "active_slot (mgr\<lparr>fu_current_capsule := c\<rparr>) = active_slot mgr"
  "active_slot (mgr\<lparr>fu_recovery_mode := b\<rparr>) = active_slot mgr"
  by (simp_all add: get_slot_def active_slot_def)

lemma fw_record_history_simps [simp]:
  "fu_slot_mgr (fw_record_history t mgr) = fu_slot_mgr mgr"
  "get_slot (fw_record_history t mgr) s = get_slot mgr s"
  "active_slot (fw_record_history t mgr) = active_slot mgr"
  "fu_current_capsule (fw_record_history t mgr) = fu_current_capsule mgr"
  "fu_update_in_progress (fw_record_history t mgr) = fu_update_in_progress mgr"
  by (simp_all add: fw_record_history_def Let_def get_slot_def active_slot_def)

lemma nth_slots: "slots_ok mgr \<Longrightarrow> i < 3 \<Longrightarrow> \<exists>s. i = slot_index s \<and> sm_slots (fu_slot_mgr mgr) ! i = get_slot mgr s"
proof -
  assume "i < 3"
  then have "i = slot_index FW_SLOT_A \<or> i = slot_index FW_SLOT_B \<or> i = slot_index FW_SLOT_RECOVERY"
    by (auto simp: slot_index_def)
  then show ?thesis by (auto simp: get_slot_def)
qed

section \<open>Invariant\<close>

definition fw_inv :: "FwUpdateManager \<Rightarrow> bool" where
  "fw_inv mgr \<longleftrightarrow>
     slots_ok mgr \<and> (\<forall>s. fs_id (get_slot mgr s) = s) \<and>
     (\<forall>s. fs_status (get_slot mgr s) = SLOT_STATUS_UNBOOTABLE \<longrightarrow> \<not> fs_bootable (get_slot mgr s)) \<and>
     length (fu_history mgr) = 8 \<and> unat (fu_history_count mgr) \<le> 8 \<and>
     (fu_update_in_progress mgr \<longrightarrow>
        slot_of (fc_target_slot (fu_current_capsule mgr)) \<in> {Some FW_SLOT_A, Some FW_SLOT_B})"

text \<open>The demotion clears the active mark of at most one slot, never of the target.\<close>

lemma fw_demote_previous_slots:
  assumes ok: "slots_ok mgr" and ids: "\<forall>s. fs_id (get_slot mgr s) = s"
  shows "\<exists>d. (\<forall>s. get_slot (fw_demote_previous t mgr) s =
      (if d = Some s then (get_slot mgr s)\<lparr>fs_status := SLOT_STATUS_STANDBY\<rparr> else get_slot mgr s))
    \<and> d \<noteq> Some t \<and> (\<forall>x. d = Some x \<longrightarrow> fs_status (get_slot mgr x) = SLOT_STATUS_ACTIVE)
    \<and> (d = None \<longrightarrow> (\<forall>x. x \<noteq> t \<longrightarrow> fs_status (get_slot mgr x) \<noteq> SLOT_STATUS_ACTIVE))"
proof (cases "find_index (\<lambda>s. fs_id s \<noteq> t \<and> fs_status s = SLOT_STATUS_ACTIVE) (sm_slots (fu_slot_mgr mgr))")
  case None
  then have "fs_id (get_slot mgr x) \<noteq> t \<longrightarrow> fs_status (get_slot mgr x) \<noteq> SLOT_STATUS_ACTIVE" for x
    using ok by (auto simp: find_index_None_iff get_slot_def)
  then show ?thesis using ids None by (intro exI [of _ None]) (simp add: fw_demote_previous_def)
next
  case (Some i)
  then have i: "i < 3" and a: "fs_id (sm_slots (fu_slot_mgr mgr) ! i) \<noteq> t"
      "fs_status (sm_slots (fu_slot_mgr mgr) ! i) = SLOT_STATUS_ACTIVE"
    using ok find_index_SomeD [OF Some] by auto
  obtain x where x: "i = slot_index x" and g: "sm_slots (fu_slot_mgr mgr) ! i = get_slot mgr x"
    using nth_slots [OF ok i] by blast
  have "fw_demote_previous t mgr = set_slot x ((get_slot mgr x)\<lparr>fs_status := SLOT_STATUS_STANDBY\<rparr>) mgr"
    using Some by (simp add: fw_demote_previous_def set_slot_def x get_slot_def)
  then show ?thesis using a ids ok by (intro exI [of _ "Some x"]) (auto simp: g)
qed

lemma fw_demote_previous_simps [simp]:
  "length (sm_slots (fu_slot_mgr (fw_demote_previous t mgr))) = length (sm_slots (fu_slot_mgr mgr))"
  "active_slot (fw_demote_previous t mgr) = active_slot mgr"
  "sm_max_boot_attempts (fu_slot_mgr (fw_demote_previous t mgr)) = sm_max_boot_attempts (fu_slot_mgr mgr)"
  "fu_current_capsule (fw_demote_previous t mgr) = fu_current_capsule mgr"
  "fu_history (fw_demote_previous t mgr) = fu_history mgr"
  "fu_history_count (fw_demote_previous t mgr) = fu_history_count mgr"
  "fu_update_in_progress (fw_demote_previous t mgr) = fu_update_in_progress mgr"
  "fu_update_sequence (fw_demote_previous t mgr) = fu_update_sequence mgr"
  by (simp_all add: fw_demote_previous_def active_slot_def split: option.split)

lemma fw_record_history_counts:
  assumes "length (fu_history mgr) = 8" and "unat (fu_history_count mgr) \<le> 8"
  shows "length (fu_history (fw_record_history t mgr)) = 8" "unat (fu_history_count (fw_record_history t mgr)) \<le> 8"
  using assms
  by (cases "unat (fu_history_count mgr) < 8";
      simp add: fw_record_history_def MAX_UPDATE_HISTORY_def Let_def unat_suc)+

text \<open>An applied capsule, slot by slot.\<close>

lemma fw_update_apply_slots:
  assumes inv: "fw_inv mgr" and p: "fu_update_in_progress mgr"
    and t: "slot_of (fc_target_slot (fu_current_capsule mgr)) = Some t"
  shows "\<exists>mgr' d. fw_update_apply_capsule mgr = Returned (mgr', True) \<and>
    active_slot mgr' = t \<and> \<not> fu_update_in_progress mgr' \<and>
    get_slot mgr' t = (get_slot mgr t)\<lparr>fs_version := fc_fw_version (fu_current_capsule mgr),
        fs_fw_hash := fc_payload_hash (fu_current_capsule mgr), fs_status := SLOT_STATUS_ACTIVE,
        fs_boot_attempts := 0, fs_successful_boots := 0, fs_bootable := True\<rparr> \<and>
    (\<forall>s. s \<noteq> t \<longrightarrow> get_slot mgr' s =
        (if d = Some s then (get_slot mgr s)\<lparr>fs_status := SLOT_STATUS_STANDBY\<rparr> else get_slot mgr s)) \<and>
    d \<noteq> Some t \<and> (\<forall>x. d = Some x \<longrightarrow> fs_status (get_slot mgr x) = SLOT_STATUS_ACTIVE) \<and>
    (d = None \<longrightarrow> (\<forall>x. x \<noteq> t \<longrightarrow> fs_status (get_slot mgr x) \<noteq> SLOT_STATUS_ACTIVE)) \<and>
    slots_ok mgr' \<and> length (fu_history mgr') = 8 \<and> unat (fu_history_count mgr') \<le> 8 \<and>
    sm_max_boot_attempts (fu_slot_mgr mgr') = sm_max_boot_attempts (fu_slot_mgr mgr)"
proof -
  let ?cap = "fu_current_capsule mgr"
  let ?tgt = "(get_slot mgr t)\<lparr>fs_version := fc_fw_version ?cap, fs_fw_hash := fc_payload_hash ?cap,
                 fs_status := SLOT_STATUS_STANDBY, fs_boot_attempts := 0, fs_successful_boots := 0, fs_bootable := True\<rparr>"
  let ?m1 = "fw_record_history t (set_slot t ?tgt mgr)"
  let ?m3 = "set_slot t ((get_slot (set_active t ?m1) t)\<lparr>fs_status := SLOT_STATUS_ACTIVE\<rparr>) (set_active t ?m1)"
  from inv have ok: "slots_ok mgr" and ids: "\<forall>s. fs_id (get_slot mgr s) = s"
    and h: "length (fu_history mgr) = 8" "unat (fu_history_count mgr) \<le> 8"
    by (auto simp: fw_inv_def)
  have app: "fw_update_apply_capsule mgr = Returned ((fw_demote_previous t ?m3)\<lparr>fu_update_in_progress := False\<rparr>, True)"
    using p t by (simp add: fw_update_apply_capsule_def Let_def)
  define m3 where "m3 = ?m3"
  have ok3: "slots_ok m3" using ok by (simp add: m3_def)
  have g3: "get_slot m3 s = (if s = t then ?tgt\<lparr>fs_status := SLOT_STATUS_ACTIVE\<rparr> else get_slot mgr s)" for s
    using ok by (auto simp: m3_def)
  have ids3: "\<forall>s. fs_id (get_slot m3 s) = s" using ids unfolding g3 by auto
  have hist: "length (fu_history m3) = 8" "unat (fu_history_count m3) \<le> 8"
    using fw_record_history_counts [of "set_slot t ?tgt mgr" t] h by (simp_all add: m3_def)
  have keep: "active_slot m3 = t" "sm_max_boot_attempts (fu_slot_mgr m3) = sm_max_boot_attempts (fu_slot_mgr mgr)"
    by (simp_all add: m3_def)
  note app' = app [folded m3_def]
  obtain d where d: "\<forall>s. get_slot (fw_demote_previous t m3) s =
      (if d = Some s then (get_slot m3 s)\<lparr>fs_status := SLOT_STATUS_STANDBY\<rparr> else get_slot m3 s)"
    "d \<noteq> Some t" "\<forall>x. d = Some x \<longrightarrow> fs_status (get_slot m3 x) = SLOT_STATUS_ACTIVE"
    "d = None \<longrightarrow> (\<forall>x. x \<noteq> t \<longrightarrow> fs_status (get_slot m3 x) \<noteq> SLOT_STATUS_ACTIVE)"
    using fw_demote_previous_slots [OF ok3 ids3, of t] by blast
  have gt: "get_slot (fw_demote_previous t m3) t = ?tgt\<lparr>fs_status := SLOT_STATUS_ACTIVE\<rparr>"
    using d(1,2) by (simp add: g3)
  have gs: "\<forall>s. s \<noteq> t \<longrightarrow> get_slot (fw_demote_previous t m3) s =
      (if d = Some s then (get_slot mgr s)\<lparr>fs_status := SLOT_STATUS_STANDBY\<rparr> else get_slot mgr s)"
    using d(1) by (simp add: g3)
  have d3: "\<forall>x. d = Some x \<longrightarrow> fs_status (get_slot mgr x) = SLOT_STATUS_ACTIVE"
    using d(2,3) by (auto simp: g3 split: if_splits)
  have d4: "d = None \<longrightarrow> (\<forall>x. x \<noteq> t \<longrightarrow> fs_status (get_slot mgr x) \<noteq> SLOT_STATUS_ACTIVE)"
    using d(4) by (auto simp: g3)
  show ?thesis
    by (rule exI, rule exI [of _ d], intro conjI, rule app')
      (use gt gs d(2) d3 d4 hist ok3 keep in simp_all)
qed

lemma fw_inv_apply:
  assumes "fw_inv mgr"
  shows "\<exists>mgr' ok. fw_update_apply_capsule mgr = Returned (mgr', ok) \<and> fw_inv mgr'"
proof (cases "fu_update_in_progress mgr")
  case False
  then show ?thesis using assms by (auto simp: fw_update_apply_capsule_def)
next
  case True
  then obtain t where t: "slot_of (fc_target_slot (fu_current_capsule mgr)) = Some t"
    using assms by (auto simp: fw_inv_def)
  obtain mgr' d where a: "fw_update_apply_capsule mgr = Returned (mgr', True)"
    and n: "\<not> fu_update_in_progress mgr'"
    and gt: "get_slot mgr' t = (get_slot mgr t)\<lparr>fs_version := fc_fw_version (fu_current_capsule mgr),
        fs_fw_hash := fc_payload_hash (fu_current_capsule mgr), fs_status := SLOT_STATUS_ACTIVE,
        fs_boot_attempts := 0, fs_successful_boots := 0, fs_bootable := True\<rparr>"
    and gs: "\<forall>s. s \<noteq> t \<longrightarrow> get_slot mgr' s =
        (if d = Some s then (get_slot mgr s)\<lparr>fs_status := SLOT_STATUS_STANDBY\<rparr> else get_slot mgr s)"
    and rest: "slots_ok mgr'" "length (fu_history mgr') = 8" "unat (fu_history_count mgr') \<le> 8"
    using fw_update_apply_slots [OF assms True t] by blast
  have "fs_id (get_slot mgr' s) = s \<and>
      (fs_status (get_slot mgr' s) = SLOT_STATUS_UNBOOTABLE \<longrightarrow> \<not> fs_bootable (get_slot mgr' s))" for s
    using assms gt gs by (cases "s = t") (auto simp: fw_inv_def)
  then show ?thesis using a n rest by (auto simp: fw_inv_def)
qed

lemma fw_inv_validate: "fw_inv mgr \<Longrightarrow> fw_inv (fst (fw_update_validate_capsule mgr c k))"
  by (auto simp: fw_update_validate_capsule_def fw_inv_def split: option.splits FirmwareSlotID.splits)

lemma fw_inv_success: "fw_inv mgr \<Longrightarrow> fw_inv (fw_update_mark_boot_success mgr)"
  by (auto simp: fw_update_mark_boot_success_def fw_inv_def Let_def)

lemma fw_inv_failed: "fw_inv mgr \<Longrightarrow> fw_inv (fw_update_mark_boot_failed mgr)"
  by (auto simp: fw_update_mark_boot_failed_def fw_inv_def Let_def)

lemma fw_inv_recovery: "fw_inv mgr \<Longrightarrow> fw_inv (fw_update_enter_recovery mgr)"
  by (auto simp: fw_update_enter_recovery_def fw_inv_def Let_def)

lemma all_slots: "(\<forall>s. P s) \<longleftrightarrow> P FW_SLOT_A \<and> P FW_SLOT_B \<and> P FW_SLOT_RECOVERY"
  by (metis FirmwareSlotID.exhaust)

lemma fw_setup_slots_ok: "fw_inv mgr \<or> mgr = fw_update_init \<Longrightarrow> slots_ok mgr"
  by (auto simp: fw_inv_def fw_update_init_def)

lemma fw_inv_setup:
  assumes "fw_inv mgr \<or> mgr = fw_update_init"
  shows "fw_inv (fst (fw_update_setup_slots mgr ao as bo bs ro rs))"
proof -
  have "length (fu_history mgr) = 8" "unat (fu_history_count mgr) \<le> 8"
    "fu_update_in_progress mgr \<longrightarrow>
       slot_of (fc_target_slot (fu_current_capsule mgr)) \<in> {Some FW_SLOT_A, Some FW_SLOT_B}"
    using assms by (auto simp: fw_inv_def fw_update_init_def MAX_UPDATE_HISTORY_def)
  then show ?thesis
    using fw_setup_slots_ok [OF assms] by (simp add: fw_update_setup_slots_def fw_inv_def Let_def all_slots)
qed

section \<open>Runs\<close>

datatype fw_op =
  Fw_Setup u64 u64 u64 u64 u64 u64
  | Fw_Validate "FirmwareCapsule option" "PublicKeyFingerprint option"
  | Fw_Apply
  | Fw_Success
  | Fw_Failed
  | Fw_Recovery

fun fw_step :: "fw_op \<Rightarrow> FwUpdateManager \<Rightarrow> FwUpdateManager c_result" where
  "fw_step (Fw_Setup ao as bo bs ro rs) mgr = Returned (fst (fw_update_setup_slots mgr ao as bo bs ro rs))"
| "fw_step (Fw_Validate c k) mgr = Returned (fst (fw_update_validate_capsule mgr c k))"
| "fw_step Fw_Apply mgr =
     (case fw_update_apply_capsule mgr of Returned r \<Rightarrow> Returned (fst r) | Undefined \<Rightarrow> Undefined | Diverges \<Rightarrow> Diverges)"
| "fw_step Fw_Success mgr = Returned (fw_update_mark_boot_success mgr)"
| "fw_step Fw_Failed mgr = Returned (fw_update_mark_boot_failed mgr)"
| "fw_step Fw_Recovery mgr = Returned (fw_update_enter_recovery mgr)"

fun fw_run :: "fw_op list \<Rightarrow> FwUpdateManager \<Rightarrow> FwUpdateManager c_result" where
  "fw_run [] mgr = Returned mgr"
| "fw_run (op # ops) mgr =
     (case fw_step op mgr of Returned m \<Rightarrow> fw_run ops m | Undefined \<Rightarrow> Undefined | Diverges \<Rightarrow> Diverges)"

lemma fw_step_inv: "fw_inv mgr \<Longrightarrow> \<exists>m. fw_step op mgr = Returned m \<and> fw_inv m"
  using fw_inv_apply [of mgr]
  by (cases op) (auto simp: fw_inv_validate fw_inv_success fw_inv_failed fw_inv_recovery fw_inv_setup)

lemma fw_run_inv: "fw_inv mgr \<Longrightarrow> \<exists>m. fw_run ops mgr = Returned m \<and> fw_inv m"
proof (induction ops arbitrary: mgr)
  case (Cons op ops)
  then show ?case using fw_step_inv [OF Cons.prems, of op] by auto
qed simp

section \<open>Failover\<close>

text \<open>
  The situations a series of failed boots goes through: the active slot with \<open>j\<close> failures,
  the slots in \<open>F\<close> untried and bootable, all others out of use.
\<close>

definition fw_phase :: "nat \<Rightarrow> FirmwareSlotID \<Rightarrow> nat \<Rightarrow> FirmwareSlotID set \<Rightarrow> FwUpdateManager \<Rightarrow> bool" where
  "fw_phase M a j F mgr \<longleftrightarrow>
     slots_ok mgr \<and> unat (sm_max_boot_attempts (fu_slot_mgr mgr)) = M \<and> active_slot mgr = a \<and> a \<notin> F \<and>
     unat (fs_boot_attempts (get_slot mgr a)) = j \<and> j < M \<and>
     fs_bootable (get_slot mgr a) \<and> fs_status (get_slot mgr a) \<noteq> SLOT_STATUS_UNBOOTABLE \<and>
     (\<forall>s \<in> F. fs_bootable (get_slot mgr s) \<and> fs_status (get_slot mgr s) \<noteq> SLOT_STATUS_UNBOOTABLE \<and>
              fs_boot_attempts (get_slot mgr s) = 0) \<and>
     (\<forall>s. s \<notin> F \<longrightarrow> s \<noteq> a \<longrightarrow> \<not> fs_bootable (get_slot mgr s))"

definition fw_dead :: "FwUpdateManager \<Rightarrow> bool" where
  "fw_dead mgr \<longleftrightarrow> slots_ok mgr \<and> active_slot mgr = FW_SLOT_A \<and> (\<forall>s. \<not> fs_bootable (get_slot mgr s))"

definition other_slot :: "FirmwareSlotID \<Rightarrow> FirmwareSlotID" where
  "other_slot s = (if s = FW_SLOT_A then FW_SLOT_B else FW_SLOT_A)"

definition fw_fails :: "nat \<Rightarrow> FwUpdateManager \<Rightarrow> FwUpdateManager" where
  "fw_fails n mgr = (fw_update_mark_boot_failed ^^ n) mgr"

lemma fw_fails_Suc: "fw_fails (Suc n) mgr = fw_update_mark_boot_failed (fw_fails n mgr)"
  by (simp add: fw_fails_def)

lemma attempts_suc: "unat (j :: u32) < unat (M :: u32) \<Longrightarrow> unat (j + 1) = Suc (unat j)"
  using unat_u32_bound [of M] by (intro unat_suc) simp

lemma fw_phase_retry:
  assumes "fw_phase M a j F mgr" and "Suc j < M"
  shows "fw_phase M a (Suc j) F (fw_update_mark_boot_failed mgr)"
proof -
  let ?max = "sm_max_boot_attempts (fu_slot_mgr mgr)" and ?j = "fs_boot_attempts (get_slot mgr a)"
  have s: "unat (?j + 1) = Suc j" and M: "unat ?max = M"
    using assms attempts_suc [of ?j ?max] by (auto simp: fw_phase_def)
  then have "\<not> ?max \<le> ?j + 1" using assms(2) by (simp add: word_le_nat_alt)
  then show ?thesis
    using assms s by (auto simp: fw_phase_def fw_update_mark_boot_failed_def Let_def)
qed

text \<open>The last failure of a slot: what is selected then.\<close>

lemma fw_phase_last:
  assumes "fw_phase M a j F mgr" and "Suc j = M"
  shows "slots_ok (fw_update_mark_boot_failed mgr)"
    and "sm_max_boot_attempts (fu_slot_mgr (fw_update_mark_boot_failed mgr)) = sm_max_boot_attempts (fu_slot_mgr mgr)"
    and "s \<noteq> a \<Longrightarrow> get_slot (fw_update_mark_boot_failed mgr) s = get_slot mgr s"
    and "\<not> fs_bootable (get_slot (fw_update_mark_boot_failed mgr) a)"
    and "active_slot (fw_update_mark_boot_failed mgr) =
      (if other_slot a \<in> F then other_slot a else if FW_SLOT_RECOVERY \<in> F then FW_SLOT_RECOVERY else FW_SLOT_A)"
proof -
  let ?max = "sm_max_boot_attempts (fu_slot_mgr mgr)" and ?j = "fs_boot_attempts (get_slot mgr a)"
  have "unat (?j + 1) = Suc j" and "unat ?max = M"
    using assms attempts_suc [of ?j ?max] by (auto simp: fw_phase_def)
  then have ge: "?max \<le> ?j + 1" using assms(2) by (simp add: word_le_nat_alt)
  have ok: "slots_ok mgr" and a: "active_slot mgr = a" "a \<notin> F" using assms by (auto simp: fw_phase_def)
  show "slots_ok (fw_update_mark_boot_failed mgr)"
    and "sm_max_boot_attempts (fu_slot_mgr (fw_update_mark_boot_failed mgr)) = ?max"
    and "s \<noteq> a \<Longrightarrow> get_slot (fw_update_mark_boot_failed mgr) s = get_slot mgr s"
    and "\<not> fs_bootable (get_slot (fw_update_mark_boot_failed mgr) a)"
    using ge ok a by (simp_all add: fw_update_mark_boot_failed_def Let_def)
  have "other_slot a \<noteq> a" by (simp add: other_slot_def split: if_splits)
  moreover have "fs_bootable (get_slot mgr s) \<and> fs_status (get_slot mgr s) \<noteq> SLOT_STATUS_UNBOOTABLE \<longleftrightarrow> s \<in> F"
    "fs_bootable (get_slot mgr s) \<longleftrightarrow> s \<in> F" if "s \<noteq> a" for s
    using assms(1) that by (auto simp: fw_phase_def)
  ultimately show "active_slot (fw_update_mark_boot_failed mgr) =
      (if other_slot a \<in> F then other_slot a else if FW_SLOT_RECOVERY \<in> F then FW_SLOT_RECOVERY else FW_SLOT_A)"
    using ge ok a
    by (cases "a = FW_SLOT_RECOVERY")
      (auto simp: fw_update_mark_boot_failed_def fw_update_select_boot_slot_def Let_def other_slot_def)
qed

lemma fw_phase_next:
  assumes ph: "fw_phase M a j F mgr" and last: "Suc j = M"
    and nxt: "active_slot (fw_update_mark_boot_failed mgr) = b" and b: "b \<in> F"
  shows "fw_phase M b 0 (F - {b}) (fw_update_mark_boot_failed mgr)"
proof -
  let ?m = "fw_update_mark_boot_failed mgr"
  note l = fw_phase_last [OF ph last]
  have a: "a \<notin> F" using ph by (simp add: fw_phase_def)
  have "\<forall>s \<in> F. get_slot ?m s = get_slot mgr s"
  proof
    fix s assume "s \<in> F"
    then have "s \<noteq> a" using a by auto
    then show "get_slot ?m s = get_slot mgr s" by (rule l(3))
  qed
  moreover have "\<not> fs_bootable (get_slot ?m s)" if "s \<notin> F" for s
    using that ph l(3,4) by (cases "s = a") (auto simp: fw_phase_def)
  ultimately show ?thesis
    using ph b l(1,2) nxt by (auto simp: fw_phase_def)
qed

lemma fw_phase_dead:
  assumes ph: "fw_phase M a j {} mgr" and last: "Suc j = M"
  shows "fw_dead (fw_update_mark_boot_failed mgr)"
proof -
  note l = fw_phase_last [OF ph last]
  have "\<not> fs_bootable (get_slot (fw_update_mark_boot_failed mgr) s)" for s
    using ph l(3,4) by (cases "s = a") (auto simp: fw_phase_def)
  then show ?thesis using l by (simp add: fw_dead_def)
qed

lemma fw_dead_stays: "fw_dead mgr \<Longrightarrow> fw_dead (fw_update_mark_boot_failed mgr)"
  by (auto simp: fw_dead_def fw_update_mark_boot_failed_def fw_update_select_boot_slot_def Let_def)

lemma fw_phase_fails: "fw_phase M a 0 F mgr \<Longrightarrow> k < M \<Longrightarrow> fw_phase M a k F (fw_fails k mgr)"
  by (induction k) (simp add: fw_fails_def, simp add: fw_fails_Suc fw_phase_retry)

lemma fw_fails_add: "fw_fails (m + n) mgr = fw_fails n (fw_fails m mgr)"
  unfolding fw_fails_def by (subst add.commute) (simp add: funpow_add)

lemma fw_phase_fails_next:
  assumes "fw_phase M a 0 F mgr" and "b \<in> F"
    and "b = (if other_slot a \<in> F then other_slot a else if FW_SLOT_RECOVERY \<in> F then FW_SLOT_RECOVERY else FW_SLOT_A)"
  shows "fw_phase M b 0 (F - {b}) (fw_fails M mgr)"
proof -
  obtain k where k: "M = Suc k" using assms(1) by (cases M) (auto simp: fw_phase_def)
  then have "fw_phase M a k F (fw_fails k mgr)" using assms(1) by (intro fw_phase_fails) auto
  from fw_phase_next [OF this, of b] fw_phase_last(5) [OF this] show ?thesis
    using assms(2,3) k by (simp add: fw_fails_Suc)
qed

lemma fw_phase_fails_dead: "fw_phase M a 0 {} mgr \<Longrightarrow> fw_dead (fw_fails (M + n) mgr)"
proof (induction n)
  case 0
  then obtain k where k: "M = Suc k" by (cases M) (auto simp: fw_phase_def)
  then have "fw_phase M a k {} (fw_fails k mgr)" using 0 by (intro fw_phase_fails) auto
  from fw_phase_dead [OF this] show ?case using k by (simp add: fw_fails_Suc)
next
  case (Suc n)
  then show ?case by (simp add: fw_fails_Suc fw_dead_stays)
qed

lemma fw_phase_active: "fw_phase M a j F mgr \<Longrightarrow> active_slot mgr = a"
  by (simp add: fw_phase_def)

lemma fw_failover:
  assumes ph: "fw_phase M a 0 {other_slot a, FW_SLOT_RECOVERY} mgr"
  shows "active_slot (fw_fails n mgr) =
    (if n < M then a else if n < 2 * M then other_slot a else if n < 3 * M then FW_SLOT_RECOVERY else FW_SLOT_A)"
proof -
  let ?b = "other_slot a" and ?R = FW_SLOT_RECOVERY
  have ne: "?b \<noteq> ?R" by (simp add: other_slot_def)
  have "other_slot ?b \<noteq> ?R" by (simp add: other_slot_def)
  then have p1: "fw_phase M ?b 0 {?R} (fw_fails M mgr)"
    using fw_phase_fails_next [OF ph, of ?b] ne by (simp add: insert_Diff_if)
  then have p2: "fw_phase M ?R 0 {} (fw_fails (M + M) mgr)"
    using fw_phase_fails_next [OF p1, of ?R] \<open>other_slot ?b \<noteq> ?R\<close> by (simp add: fw_fails_add)
  consider "n < M" | k where "n = M + k" "k < M" | k where "n = M + M + k" "k < M" | k where "n = M + M + (M + k)"
    by (metis add.assoc le_Suc_ex not_less)
  then show ?thesis
  proof cases
    case 1
    then show ?thesis using fw_phase_fails [OF ph 1] by (simp add: fw_phase_active)
  next
    case 2
    then show ?thesis using fw_phase_fails [OF p1, of k] by (simp add: fw_fails_add fw_phase_active)
  next
    case 3
    then show ?thesis using fw_phase_fails [OF p2, of k] by (simp add: fw_fails_add [of "M + M"] fw_phase_active)
  next
    case 4
    then show ?thesis using fw_phase_fails_dead [OF p2, of k] by (simp add: fw_fails_add [of "M + M"] fw_dead_def)
  qed
qed

section \<open>Acceptance and selection\<close>

lemma fw_validate_accepts:
  assumes "fw_update_validate_capsule mgr (Some c) (Some k) = (m1, True)"
  shows "m1 = mgr\<lparr>fu_current_capsule := c, fu_update_in_progress := True\<rparr>"
    and "vb_verify_signature (Some (fc_payload_hash c)) (Some (fc_signature c)) (Some k) = VERIFY_OK"
    and "fs_version (get_slot mgr (active_slot mgr)) \<le> fc_fw_version c"
    and "fc_payload_size c \<noteq> 0" and "fc_payload_size c \<le> FW_UPDATE_MAX_PAYLOAD"
    and "\<exists>t. slot_of (fc_target_slot c) = Some t \<and> t \<in> {FW_SLOT_A, FW_SLOT_B} \<and>
           unat (fc_payload_size c) \<le> unat (fs_size (get_slot mgr t))"
proof -
  let ?good = "m1 = mgr\<lparr>fu_current_capsule := c, fu_update_in_progress := True\<rparr> \<and>
    vb_verify_signature (Some (fc_payload_hash c)) (Some (fc_signature c)) (Some k) = VERIFY_OK \<and>
    fs_version (get_slot mgr (active_slot mgr)) \<le> fc_fw_version c \<and>
    fc_payload_size c \<noteq> 0 \<and> fc_payload_size c \<le> FW_UPDATE_MAX_PAYLOAD \<and>
    (\<exists>t. slot_of (fc_target_slot c) = Some t \<and> t \<in> {FW_SLOT_A, FW_SLOT_B} \<and>
       (ucast (fc_payload_size c) :: u64) \<le> fs_size (get_slot mgr t))"
  have ?good
    using assms
    by (auto simp: fw_update_validate_capsule_def not_less split: if_splits option.splits FirmwareSlotID.splits)
  then show "m1 = mgr\<lparr>fu_current_capsule := c, fu_update_in_progress := True\<rparr>"
    and "vb_verify_signature (Some (fc_payload_hash c)) (Some (fc_signature c)) (Some k) = VERIFY_OK"
    and "fs_version (get_slot mgr (active_slot mgr)) \<le> fc_fw_version c"
    and "fc_payload_size c \<noteq> 0" and "fc_payload_size c \<le> FW_UPDATE_MAX_PAYLOAD"
    and "\<exists>t. slot_of (fc_target_slot c) = Some t \<and> t \<in> {FW_SLOT_A, FW_SLOT_B} \<and>
           unat (fc_payload_size c) \<le> unat (fs_size (get_slot mgr t))"
    by (auto simp: word_le_nat_alt)
qed

lemma fw_select_eq:
  assumes "fw_inv mgr"
  shows "fw_update_select_boot_slot mgr =
    (if fs_bootable (get_slot mgr (active_slot mgr)) then active_slot mgr
     else if fs_bootable (get_slot mgr (other_slot (active_slot mgr))) then other_slot (active_slot mgr)
     else if fs_bootable (get_slot mgr FW_SLOT_RECOVERY) then FW_SLOT_RECOVERY
     else FW_SLOT_A)"
proof -
  have "fs_bootable (get_slot mgr s) \<and> fs_status (get_slot mgr s) \<noteq> SLOT_STATUS_UNBOOTABLE
      \<longleftrightarrow> fs_bootable (get_slot mgr s)" for s
    using assms by (auto simp: fw_inv_def)
  then show ?thesis by (simp add: fw_update_select_boot_slot_def other_slot_def Let_def)
qed

lemma fw_select_bootable:
  assumes inv: "fw_inv mgr" and a: "active_slot mgr \<noteq> FW_SLOT_RECOVERY" and s: "fs_bootable (get_slot mgr s)"
  shows "fs_bootable (get_slot mgr (fw_update_select_boot_slot mgr))"
proof -
  have "s = active_slot mgr \<or> s = other_slot (active_slot mgr) \<or> s = FW_SLOT_RECOVERY"
    using a by (cases s; cases "active_slot mgr") (auto simp: other_slot_def)
  then show ?thesis using s by (auto simp: fw_select_eq [OF inv])
qed

text \<open>Recovery entered by hand from a fresh slot \<open>b\<close>: the roles of the two are exchanged.\<close>

lemma fw_phase_recovery:
  assumes "fw_phase M b 0 {FW_SLOT_RECOVERY} mgr"
  shows "fw_phase M FW_SLOT_RECOVERY 0 {b} (fw_update_enter_recovery mgr)"
proof -
  have "slots_ok (mgr\<lparr>fu_recovery_mode := True\<rparr>)" using assms by (simp add: fw_phase_def)
  then show ?thesis
    using assms by (auto simp: fw_phase_def fw_update_enter_recovery_def Let_def word_unat_eq_iff)
qed

text \<open>The state after set-up, ready for a series of failures.\<close>

lemma fw_init_slot: "get_slot fw_update_init s = zero_slot" "slots_ok fw_update_init"
    "sm_max_boot_attempts (fu_slot_mgr fw_update_init) = 7"
  by (simp_all add: get_slot_def fw_update_init_def)

lemma fw_setup_phase:
  "fw_phase 7 FW_SLOT_A 0 {other_slot FW_SLOT_A, FW_SLOT_RECOVERY}
     (fst (fw_update_setup_slots fw_update_init ao as bo bs ro rs))"
  by (simp add: fw_phase_def fw_update_setup_slots_def Let_def other_slot_def all_slots fw_init_slot zero_slot_def)

end
