(* ===== verification/Merkle_Pcr.thy ===== *)
theory Merkle_Pcr
  imports Prelude
begin

text \<open>
  The Merkle tree over PCR values of \<open>mini-boot-attestation/src/merkle_pcr.c\<close>: a tree in an
  array (the children of \<open>j\<close> are \<open>2 j + 1\<close> and \<open>2 j + 2\<close>), inclusion proofs and their check.
  Return codes are integers as in the code; what a call writes through its out parameters is
  a component of the result.  The 8-bit counters stay below 64 for the sizes the code admits.
\<close>

section \<open>State\<close>

definition MERKLE_MAX_LEAVES :: nat where "MERKLE_MAX_LEAVES = 32"

definition MERKLE_TREE_NODES_MAX :: nat where "MERKLE_TREE_NODES_MAX = 63"

definition MERKLE_PROOF_DEPTH_MAX :: nat where "MERKLE_PROOF_DEPTH_MAX = 6"

definition TPM_MAX_PCRS :: nat where "TPM_MAX_PCRS = 24"

record MerkleSibling =
  ms_hash :: bytes
  ms_is_left :: bool

record MerkleProof =
  mp_siblings :: "MerkleSibling list"
  mp_sibling_count :: u8
  mp_leaf_index :: u8
  mp_leaf_value :: bytes
  mp_expected_root :: bytes

record MerkleTree =
  mt_nodes :: "bytes list"
  mt_node_count :: u8
  mt_leaf_count :: u8
  mt_depth :: u8
  mt_built :: bool

record TPMPcrSelection =
  sel_algorithm_id :: u16
  sel_size_of_select :: u8
  sel_pcr_select :: bytes

record TPMPcrComposite =
  pcmp_count :: u32
  pcmp_pcr_count :: u8
  pcmp_pcr_selections :: "TPMPcrSelection list"
  pcmp_pcr_digests :: "bytes list"

section \<open>Operations\<close>

definition node_hash_mix :: "bytes \<Rightarrow> nat \<Rightarrow> u32 \<Rightarrow> u32" where
  "node_hash_mix cat i seed =
     (let s = seed XOR push_bit ((i mod 4) * 8) (ucast (cat ! i)) in (s * 0x01000193) XOR drop_bit 16 s)"

fun node_hash_out :: "nat \<Rightarrow> nat \<Rightarrow> u32 \<Rightarrow> bytes" where
  "node_hash_out 0 i seed = []"
| "node_hash_out (Suc n) i seed =
     ucast (drop_bit ((i mod 4) * 8) seed) # node_hash_out n (Suc i) ((seed * 0x5BD1E995) XOR (drop_bit 13 seed + of_nat i))"

definition node_hash :: "bytes \<Rightarrow> bytes \<Rightarrow> bytes" where
  "node_hash left right =
     (let seed = fold (node_hash_mix (left @ right)) [0..<64] 0x6A09E667
      in node_hash_out 32 0 (seed XOR 64))"

text \<open>The doubling wraps at 256, so the loop need not end.\<close>

partial_function (option) next_power_loop :: "u8 \<Rightarrow> u8 \<Rightarrow> u8 option" where
  "next_power_loop p n = (if p < n then next_power_loop (p * 2) n else Some p)"

definition next_power_of_two :: "u8 \<Rightarrow> u8 option" where
  "next_power_of_two n = next_power_loop 1 n"

function log2_loop :: "nat \<Rightarrow> u8 \<Rightarrow> u8" where
  "log2_loop v d = (if v > 1 then log2_loop (v div 2) (d + 1) else d)"
  by pat_completeness auto
termination by (relation "measure fst") auto

declare log2_loop.simps [simp del]

definition log2_ceil :: "u8 \<Rightarrow> u8" where
  "log2_ceil n =
     (let d = log2_loop (unat n) 0
      in if (of_nat (2 ^ unat d) :: u8) < n then d + 1 else d)"

definition merkle_tree_init :: MerkleTree where
  "merkle_tree_init =
     \<lparr>mt_nodes = replicate MERKLE_TREE_NODES_MAX (zeros 32), mt_node_count = 0, mt_leaf_count = 0,
      mt_depth = 0, mt_built = False\<rparr>"

definition merkle_place_leaves :: "bytes list \<Rightarrow> nat \<Rightarrow> bytes list \<Rightarrow> bytes list" where
  "merkle_place_leaves padded total_nodes nodes =
     fold (\<lambda>i ns. ns[total_nodes - 1 - i := padded ! i]) [0..<length padded] nodes"

definition merkle_inner :: "nat \<Rightarrow> bytes list \<Rightarrow> bytes list" where
  "merkle_inner j ns = ns[j := node_hash (ns ! (2 * j + 1)) (ns ! (2 * j + 2))]"

definition merkle_tree_build :: "MerkleTree \<Rightarrow> bytes list option \<Rightarrow> (MerkleTree \<times> int) c_result" where
  "merkle_tree_build tree leaves =
     (case leaves of None \<Rightarrow> Returned (tree, -1)
      | Some ls \<Rightarrow>
          if length ls = 0 \<or> length ls > MERKLE_MAX_LEAVES then Returned (tree, -2)
          else (case next_power_of_two (of_nat (length ls)) of None \<Rightarrow> Diverges
                | Some pc \<Rightarrow>
                    let padded_count = unat pc;
                        padded = ls @ replicate (padded_count - length ls) (zeros 32);
                        total_nodes = 2 * padded_count - 1;
                        nodes0 = merkle_place_leaves padded total_nodes (mt_nodes merkle_tree_init);
                        nodes1 = fold merkle_inner (rev [0..<total_nodes - padded_count]) nodes0
                    in Returned (\<lparr>mt_nodes = nodes1, mt_node_count = of_nat total_nodes, mt_leaf_count = of_nat (length ls),
                                  mt_depth = log2_ceil pc, mt_built = True\<rparr>, 0)))"

definition merkle_tree_get_root :: "MerkleTree \<Rightarrow> bytes option \<times> int" where
  "merkle_tree_get_root tree = (if \<not> mt_built tree then (None, -2) else (Some (mt_nodes tree ! 0), 0))"

text \<open>The climb from a position: the sibling of each level, none where it lies outside the tree.\<close>

fun merkle_climb :: "bytes list \<Rightarrow> nat \<Rightarrow> nat \<Rightarrow> nat \<Rightarrow> MerkleSibling option list" where
  "merkle_climb nodes node_count 0 pos = []"
| "merkle_climb nodes node_count (Suc n) pos =
     (let parent = (pos - 1) div 2;
          (sibling_pos, is_left) = (if pos mod 2 = 1 then (pos + 1, False) else (if pos = 0 then 255 else pos - 1, True))
      in (if sibling_pos < node_count then Some \<lparr>ms_hash = nodes ! sibling_pos, ms_is_left = is_left\<rparr> else None)
           # merkle_climb nodes node_count n parent)"

definition zero_sibling :: MerkleSibling where
  "zero_sibling = \<lparr>ms_hash = zeros 32, ms_is_left = False\<rparr>"

text \<open>
  A tree whose counters do not fit its array sends the reads outside it.  A position is at
  level 5 at most, so at most six siblings are written, whatever the depth says.
\<close>

definition merkle_generate_proof :: "MerkleTree \<Rightarrow> u8 \<Rightarrow> (MerkleProof option \<times> int) c_result" where
  "merkle_generate_proof tree leaf_index =
     (if \<not> mt_built tree then Returned (None, -2)
      else if leaf_index \<ge> mt_leaf_count tree then Returned (None, -3)
      else if leaf_index \<ge> mt_node_count tree \<or> unat (mt_node_count tree) > MERKLE_TREE_NODES_MAX then Undefined
      else let pos = unat (mt_node_count tree) - 1 - unat leaf_index;
               sibs = merkle_climb (mt_nodes tree) (unat (mt_node_count tree)) (unat (mt_depth tree)) pos
           in Returned (Some \<lparr>mp_siblings = take MERKLE_PROOF_DEPTH_MAX
                   (map (\<lambda>s. case s of None \<Rightarrow> zero_sibling | Some x \<Rightarrow> x) sibs @ replicate MERKLE_PROOF_DEPTH_MAX zero_sibling),
                 mp_sibling_count = of_nat (length (filter (\<lambda>s. s \<noteq> None) sibs)), mp_leaf_index = leaf_index,
                 mp_leaf_value = mt_nodes tree ! pos, mp_expected_root = mt_nodes tree ! 0\<rparr>, 0))"

fun merkle_walk :: "bytes \<Rightarrow> MerkleSibling list \<Rightarrow> bytes" where
  "merkle_walk cur [] = cur"
| "merkle_walk cur (s # ss) =
     merkle_walk (if ms_is_left s then node_hash (ms_hash s) cur else node_hash cur (ms_hash s)) ss"

definition merkle_verify_proof :: "MerkleProof \<Rightarrow> bool c_result" where
  "merkle_verify_proof p =
     (if mp_sibling_count p = 0 then Returned (mp_leaf_value p = mp_expected_root p)
      else if unat (mp_sibling_count p) > length (mp_siblings p) then Undefined
      else Returned (merkle_walk (mp_leaf_value p) (take (unat (mp_sibling_count p)) (mp_siblings p)) = mp_expected_root p))"

definition merkle_selected :: "TPMPcrComposite \<Rightarrow> bytes list" where
  "merkle_selected bank =
     map (\<lambda>i. pcmp_pcr_digests bank ! i)
       (filter (\<lambda>i. bit (sel_pcr_select (pcmp_pcr_selections bank ! 0) ! (i div 8)) (i mod 8)) [0..<TPM_MAX_PCRS])"

definition merkle_root_from_pcr_bank :: "TPMPcrComposite option \<Rightarrow> (bytes option \<times> int) c_result" where
  "merkle_root_from_pcr_bank pcr_bank =
     (case pcr_bank of None \<Rightarrow> Returned (None, -1)
      | Some bank \<Rightarrow>
          let leaves = merkle_selected bank
          in if length leaves = 0 then Returned (Some (zeros 32), 0)
             else (case merkle_tree_build merkle_tree_init (Some leaves) of
                     Returned (tree, ret) \<Rightarrow>
                       if ret \<noteq> 0 then Returned (None, ret) else Returned (merkle_tree_get_root tree)
                   | Undefined \<Rightarrow> Undefined | Diverges \<Rightarrow> Diverges))"

definition merkle_compare_roots :: "bytes option \<Rightarrow> bytes option \<Rightarrow> bool option \<times> int" where
  "merkle_compare_roots root_a root_b =
     (case (root_a, root_b) of (Some a, Some b) \<Rightarrow> (Some (a = b), 0) | _ \<Rightarrow> (None, -1))"

section \<open>Sizes\<close>

lemma next_power_of_two_cases:
  assumes "1 \<le> n" and "n \<le> (32 :: u8)"
  shows "\<exists>d \<le> 5. next_power_of_two n = Some (of_nat (2 ^ d)) \<and> unat n \<le> 2 ^ d \<and> log2_ceil (of_nat (2 ^ d)) = of_nat d"
proof -
  have step: "next_power_loop p n = (if p < n then next_power_loop (p * 2) n else Some p)" for p
    by (rule next_power_loop.simps)
  have l: "log2_ceil (of_nat (2 ^ d)) = of_nat d" if "d \<le> 5" for d
  proof -
    have "d = 0 \<or> d = 1 \<or> d = 2 \<or> d = 3 \<or> d = 4 \<or> d = 5" using that by auto
    then show ?thesis by (elim disjE) (simp_all add: log2_ceil_def log2_loop.simps)
  qed
  consider "n \<le> 1" | "1 < n" "n \<le> 2" | "2 < n" "n \<le> 4" | "4 < n" "n \<le> 8" | "8 < n" "n \<le> 16" | "16 < n" "n \<le> 32"
    using assms by (metis not_le)
  then show ?thesis
  proof cases
    case 1
    then show ?thesis using l [of 0]
      by (intro exI [of _ 0]) (simp add: next_power_of_two_def step [of 1] not_less word_le_nat_alt word_less_nat_alt)
  next
    case 2
    then show ?thesis using l [of 1]
      by (intro exI [of _ 1]) (simp add: next_power_of_two_def step [of 1] step [of 2] not_less word_le_nat_alt word_less_nat_alt)
  next
    case 3
    then show ?thesis using l [of 2]
      by (intro exI [of _ 2])
        (simp add: next_power_of_two_def step [of 1] step [of 2] step [of 4] not_less word_le_nat_alt word_less_nat_alt)
  next
    case 4
    then show ?thesis using l [of 3]
      by (intro exI [of _ 3])
        (simp add: next_power_of_two_def step [of 1] step [of 2] step [of 4] step [of 8] not_less word_le_nat_alt word_less_nat_alt)
  next
    case 5
    then show ?thesis using l [of 4]
      by (intro exI [of _ 4])
        (simp add: next_power_of_two_def step [of 1] step [of 2] step [of 4] step [of 8] step [of 16]
          not_less word_le_nat_alt word_less_nat_alt)
  next
    case 6
    then show ?thesis using l [of 5]
      by (intro exI [of _ 5])
        (simp add: next_power_of_two_def step [of 1] step [of 2] step [of 4] step [of 8] step [of 16] step [of 32]
          not_less word_le_nat_alt word_less_nat_alt)
  qed
qed

section \<open>The array is a hash tree\<close>

lemma merkle_place_leaves_nth:
  assumes "n \<le> length padded" and "2 * length padded - 1 \<le> length ns"
  shows "length (fold (\<lambda>i ns. ns[2 * length padded - 1 - 1 - i := padded ! i]) [0..<n] ns) = length ns \<and>
    (\<forall>i < n. fold (\<lambda>i ns. ns[2 * length padded - 1 - 1 - i := padded ! i]) [0..<n] ns ! (2 * length padded - 2 - i) = padded ! i)"
  using assms
proof (induction n)
  case (Suc n)
  let ?r = "fold (\<lambda>i ns. ns[2 * length padded - 1 - 1 - i := padded ! i]) [0..<n] ns"
  have IH: "length ?r = length ns" "\<forall>i < n. ?r ! (2 * length padded - 2 - i) = padded ! i"
    using Suc by auto
  have "2 * length padded - 2 - n < length ?r" using Suc.prems IH by simp
  moreover have "2 * length padded - 2 - n \<noteq> 2 * length padded - 2 - i" if "i < n" for i
    using that Suc.prems by simp
  ultimately show ?case using IH by (auto simp: less_Suc_eq)
qed simp

lemma merkle_inner_nth:
  assumes "2 * m < length ns"
  shows "length (fold merkle_inner (rev [0..<m]) ns) = length ns \<and>
    (\<forall>k \<ge> m. fold merkle_inner (rev [0..<m]) ns ! k = ns ! k) \<and>
    (\<forall>j < m. fold merkle_inner (rev [0..<m]) ns ! j =
       node_hash (fold merkle_inner (rev [0..<m]) ns ! (2 * j + 1)) (fold merkle_inner (rev [0..<m]) ns ! (2 * j + 2)))"
  using assms
proof (induction m arbitrary: ns)
  case (Suc m)
  let ?ns = "merkle_inner m ns"
  let ?r = "fold merkle_inner (rev [0..<m]) ?ns"
  have len: "length ?ns = length ns" by (simp add: merkle_inner_def)
  have IH: "length ?r = length ns" "\<forall>k \<ge> m. ?r ! k = ?ns ! k"
    "\<forall>j < m. ?r ! j = node_hash (?r ! (2 * j + 1)) (?r ! (2 * j + 2))"
    using Suc.IH [of ?ns] Suc.prems len by auto
  have keep: "?ns ! k = ns ! k" if "k \<noteq> m" for k using that by (simp add: merkle_inner_def)
  have "?r ! m = node_hash (ns ! (2 * m + 1)) (ns ! (2 * m + 2))"
    using IH(2) Suc.prems by (simp add: merkle_inner_def)
  moreover have "?r ! (2 * m + 1) = ns ! (2 * m + 1)" "?r ! (2 * m + 2) = ns ! (2 * m + 2)"
    using IH(2) keep by auto
  ultimately have "?r ! m = node_hash (?r ! (2 * m + 1)) (?r ! (2 * m + 2))" by simp
  then show ?case using IH keep by (auto simp: less_Suc_eq)
qed simp

text \<open>A tree of depth \<open>d\<close> over the (padded) leaves; leaf \<open>0\<close> is at the end of the array.\<close>

definition merkle_wf :: "nat \<Rightarrow> bytes list \<Rightarrow> MerkleTree \<Rightarrow> bool" where
  "merkle_wf d padded t \<longleftrightarrow>
     mt_built t \<and> d \<le> 5 \<and> length padded = 2 ^ d \<and> unat (mt_depth t) = d \<and>
     unat (mt_node_count t) = 2 * 2 ^ d - 1 \<and> unat (mt_leaf_count t) \<le> 2 ^ d \<and>
     (\<forall>j < 2 ^ d - 1. mt_nodes t ! j = node_hash (mt_nodes t ! (2 * j + 1)) (mt_nodes t ! (2 * j + 2))) \<and>
     (\<forall>i < 2 ^ d. mt_nodes t ! (2 * 2 ^ d - 2 - i) = padded ! i)"

lemma merkle_tree_build_wf:
  assumes "0 < length ls" and "length ls \<le> 32"
  shows "\<exists>d t. merkle_tree_build tree (Some ls) = Returned (t, 0) \<and>
    length ls \<le> 2 ^ d \<and> unat (mt_leaf_count t) = length ls \<and>
    merkle_wf d (ls @ replicate (2 ^ d - length ls) (zeros 32)) t"
proof -
  have un: "unat (of_nat (length ls) :: u8) = length ls" using assms by (simp add: unat_of_nat)
  then have "1 \<le> (of_nat (length ls) :: u8)" "(of_nat (length ls) :: u8) \<le> 32"
    using assms by (simp_all add: word_le_nat_alt Suc_le_eq)
  from next_power_of_two_cases [OF this] obtain d where d: "d \<le> 5"
    "next_power_of_two (of_nat (length ls)) = Some (of_nat (2 ^ d))" "length ls \<le> 2 ^ d"
    "log2_ceil (of_nat (2 ^ d)) = of_nat d"
    using un by auto
  have p: "(2 :: nat) ^ d \<le> 32" "0 < (2 :: nat) ^ d"
    using power_increasing [OF d(1), of "2 :: nat"] by simp_all
  have up: "unat (of_nat (2 ^ d) :: u8) = 2 ^ d" using p by (simp add: unat_of_nat del: of_nat_power)
  let ?pad = "ls @ replicate (2 ^ d - length ls) (zeros 32)"
  let ?n0 = "merkle_place_leaves ?pad (2 * 2 ^ d - 1) (mt_nodes merkle_tree_init)"
  let ?n1 = "fold merkle_inner (rev [0..<2 ^ d - 1]) ?n0"
  let ?t = "\<lparr>mt_nodes = ?n1, mt_node_count = of_nat (2 * 2 ^ d - 1), mt_leaf_count = of_nat (length ls),
              mt_depth = of_nat d, mt_built = True\<rparr>"
  have lp: "length ?pad = 2 ^ d" using d(3) by simp
  have sub: "2 * 2 ^ d - 1 - 2 ^ d = 2 ^ d - (1 :: nat)" by simp
  have b: "merkle_tree_build tree (Some ls) = Returned (?t, 0)"
    using assms d(2,4)
    by (simp add: merkle_tree_build_def MERKLE_MAX_LEAVES_def up sub Let_def del: of_nat_power of_nat_mult)
  have l0: "length (mt_nodes merkle_tree_init) = 63" by (simp add: merkle_tree_init_def MERKLE_TREE_NODES_MAX_def)
  have n0: "length ?n0 = 63" "\<forall>i < 2 ^ d. ?n0 ! (2 * 2 ^ d - 2 - i) = ?pad ! i"
    using merkle_place_leaves_nth [of "length ?pad" ?pad "mt_nodes merkle_tree_init"] p l0
    unfolding merkle_place_leaves_def lp by auto
  have n1: "\<forall>k \<ge> 2 ^ d - 1. ?n1 ! k = ?n0 ! k"
    "\<forall>j < 2 ^ d - 1. ?n1 ! j = node_hash (?n1 ! (2 * j + 1)) (?n1 ! (2 * j + 2))"
    using merkle_inner_nth [of "2 ^ d - 1" ?n0] p n0(1) by auto
  have "\<forall>i < 2 ^ d. ?n1 ! (2 * 2 ^ d - 2 - i) = ?pad ! i"
  proof (intro allI impI)
    fix i :: nat assume i: "i < 2 ^ d"
    then have "2 ^ d - 1 \<le> 2 * 2 ^ d - 2 - i" by simp
    then show "?n1 ! (2 * 2 ^ d - 2 - i) = ?pad ! i" using n1(1) n0(2) i by simp
  qed
  moreover have "unat (of_nat (2 * 2 ^ d - 1) :: u8) = 2 * 2 ^ d - 1" using p by (intro unat_of_nat_u8) simp
  moreover have "unat (of_nat d :: u8) = d" using d(1) by (intro unat_of_nat_u8) simp
  ultimately have "merkle_wf d ?pad ?t"
    using n1(2) d(1,3) lp un unfolding merkle_wf_def MerkleTree.simps by simp
  then show ?thesis using b d(3) un by auto
qed

lemma nth_padded: "i < n \<Longrightarrow> (xs @ replicate (n - length xs) v) ! i = (if i < length xs then xs ! i else v)"
  by (simp add: nth_append)

section \<open>Proofs\<close>

definition merkle_level :: "nat \<Rightarrow> nat \<Rightarrow> bool" where
  "merkle_level l pos \<longleftrightarrow> 2 ^ l - 1 \<le> pos \<and> pos < 2 * 2 ^ l - 1"

lemma merkle_climb_walk:
  assumes wf: "merkle_wf d padded t" and "l \<le> d" and "merkle_level l pos"
  shows "\<exists>ss. merkle_climb (mt_nodes t) (2 * 2 ^ d - 1) l pos = map Some ss \<and> length ss = l \<and>
    merkle_walk (mt_nodes t ! pos) ss = mt_nodes t ! 0"
  using assms(2,3)
proof (induction l arbitrary: pos)
  case 0
  then show ?case by (simp add: merkle_level_def)
next
  case (Suc l)
  define q where "q = (pos - 1) div 2"
  have pw: "(2 :: nat) ^ Suc l \<le> 2 ^ d" using Suc.prems(1) by (intro power_increasing) auto
  have pos: "2 * 2 ^ l - 1 \<le> pos" "pos < 4 * 2 ^ l - 1" "0 < (2::nat) ^ l"
    using Suc.prems(2) by (auto simp: merkle_level_def)
  have p1: "1 \<le> pos" using pos by linarith
  have qp: "2 * q + 1 \<le> pos" "pos \<le> 2 * q + 2"
    using p1 unfolding q_def by presburger+
  have q: "merkle_level l q" "q < 2 ^ d - 1" using qp pos pw unfolding merkle_level_def power_Suc by linarith+
  have nq: "mt_nodes t ! q = node_hash (mt_nodes t ! (2 * q + 1)) (mt_nodes t ! (2 * q + 2))"
    using wf q(2) by (simp add: merkle_wf_def)
  obtain ss where ss: "merkle_climb (mt_nodes t) (2 * 2 ^ d - 1) l q = map Some ss" "length ss = l"
    "merkle_walk (mt_nodes t ! q) ss = mt_nodes t ! 0"
    using Suc.IH [OF _ q(1)] Suc.prems(1) by auto
  have "pos = 2 * q + 1 \<or> pos = 2 * q + 2" using qp by linarith
  then show ?case
  proof
    assume p: "pos = 2 * q + 1"
    have lt: "2 * q + 2 < 2 * 2 ^ d - 1" using q(2) by linarith
    then show ?thesis using p ss nq
      by (intro exI [of _ "\<lparr>ms_hash = mt_nodes t ! (2 * q + 2), ms_is_left = False\<rparr> # ss"]) simp
  next
    assume p: "pos = 2 * q + 2"
    have lt: "2 * q + 1 < 2 * 2 ^ d - 1" using q(2) by linarith
    have "(2 * q + 2 - 1) div 2 = q" by simp
    then show ?thesis using p ss nq lt
      by (intro exI [of _ "\<lparr>ms_hash = mt_nodes t ! (2 * q + 1), ms_is_left = True\<rparr> # ss"]) simp
  qed
qed

lemma merkle_proof_complete:
  assumes wf: "merkle_wf d padded t" and i: "unat i < unat (mt_leaf_count t)"
  shows "\<exists>p. merkle_generate_proof t i = Returned (Some p, 0) \<and> merkle_verify_proof p = Returned True \<and>
    mp_leaf_value p = padded ! unat i \<and> mp_expected_root p = mt_nodes t ! 0 \<and> unat (mp_sibling_count p) = d"
proof -
  let ?pos = "2 * 2 ^ d - 2 - unat i"
  have w: "mt_built t" "d \<le> 5" "unat (mt_depth t) = d" "unat (mt_node_count t) = 2 * 2 ^ d - 1"
    "unat (mt_leaf_count t) \<le> 2 ^ d" "\<forall>i < 2 ^ d. mt_nodes t ! (2 * 2 ^ d - 2 - i) = padded ! i"
    using wf by (auto simp: merkle_wf_def)
  have lvl: "merkle_level d ?pos" using i w(5) by (auto simp: merkle_level_def)
  obtain ss where ss: "merkle_climb (mt_nodes t) (2 * 2 ^ d - 1) d ?pos = map Some ss" "length ss = d"
    "merkle_walk (mt_nodes t ! ?pos) ss = mt_nodes t ! 0"
    using merkle_climb_walk [OF wf order_refl lvl] by auto
  have pos: "2 * 2 ^ d - 1 - 1 - unat i = ?pos" by simp
  have fl: "filter (\<lambda>s. s \<noteq> None) (map Some ss) = map Some ss" by (induction ss) auto
  have mp: "map (\<lambda>s. case s of None \<Rightarrow> zero_sibling | Some x \<Rightarrow> x) (map Some ss) = ss" by (simp add: comp_def)
  let ?p = "\<lparr>mp_siblings = ss @ replicate (MERKLE_PROOF_DEPTH_MAX - d) zero_sibling, mp_sibling_count = of_nat d,
      mp_leaf_index = i, mp_leaf_value = mt_nodes t ! ?pos, mp_expected_root = mt_nodes t ! 0\<rparr>"
  have p32: "(2 :: nat) ^ d \<le> 32" using power_increasing [OF w(2), of "2 :: nat"] by simp
  have "\<not> mt_leaf_count t \<le> i" "\<not> mt_node_count t \<le> i" "\<not> unat (mt_node_count t) > MERKLE_TREE_NODES_MAX"
    using i w(4,5) p32 by (simp_all add: word_le_nat_alt MERKLE_TREE_NODES_MAX_def)
  moreover have "take MERKLE_PROOF_DEPTH_MAX (ss @ replicate MERKLE_PROOF_DEPTH_MAX zero_sibling)
      = ss @ replicate (MERKLE_PROOF_DEPTH_MAX - d) zero_sibling"
    using w(2) ss(2) by (simp add: MERKLE_PROOF_DEPTH_MAX_def)
  ultimately have g: "merkle_generate_proof t i = Returned (Some ?p, 0)"
    unfolding merkle_generate_proof_def Let_def w(3,4) pos ss(1) fl mp using w(1) ss(2) by simp
  have ud: "unat (of_nat d :: u8) = d" using w(2) by (simp add: unat_of_nat)
  then have "(of_nat d :: u8) = 0 \<longleftrightarrow> d = 0" unfolding word_unat_eq_iff ud by simp
  then have "merkle_verify_proof ?p = Returned True"
    using ss by (auto simp: merkle_verify_proof_def ud)
  then show ?thesis using g w(5,6) i ud by auto
qed

text \<open>The position the flags of a proof stand for, read from the root down.\<close>

fun merkle_path_pos :: "MerkleSibling list \<Rightarrow> nat" where
  "merkle_path_pos [] = 0"
| "merkle_path_pos (s # ss) = 2 * merkle_path_pos ss + (if ms_is_left s then 2 else 1)"

text \<open>What level \<open>k\<close> of a proof hashes.\<close>

definition merkle_pair :: "bytes \<Rightarrow> MerkleSibling list \<Rightarrow> nat \<Rightarrow> bytes \<times> bytes" where
  "merkle_pair cur ss k =
     (let c = merkle_walk cur (take k ss); s = ss ! k in if ms_is_left s then (ms_hash s, c) else (c, ms_hash s))"

text \<open>Level \<open>k\<close> hashes another pair than the tree at its place, to the same digest.\<close>

definition merkle_collision :: "MerkleTree \<Rightarrow> bytes \<Rightarrow> MerkleSibling list \<Rightarrow> nat \<Rightarrow> bool" where
  "merkle_collision t cur ss k \<longleftrightarrow>
     (let q = merkle_path_pos (drop (Suc k) ss); (a, b) = merkle_pair cur ss k in
       (a, b) \<noteq> (mt_nodes t ! (2 * q + 1), mt_nodes t ! (2 * q + 2)) \<and>
       node_hash a b = node_hash (mt_nodes t ! (2 * q + 1)) (mt_nodes t ! (2 * q + 2)))"

lemma merkle_path_pos_bound: "merkle_path_pos ss + 2 \<le> 2 * 2 ^ length ss"
  by (induction ss) auto

lemma merkle_walk_binding:
  assumes wf: "merkle_wf d padded t" and "length ss \<le> d" and "merkle_walk cur ss = mt_nodes t ! 0"
  shows "cur = mt_nodes t ! merkle_path_pos ss \<or>
    (\<exists>k < length ss. merkle_collision t cur ss k)"
  using assms(2,3)
proof (induction ss arbitrary: cur)
  case (Cons s ss)
  define up where "up = (if ms_is_left s then node_hash (ms_hash s) cur else node_hash cur (ms_hash s))"
  define q where "q = merkle_path_pos ss"
  have pair0: "merkle_pair cur (s # ss) 0 = (if ms_is_left s then (ms_hash s, cur) else (cur, ms_hash s))"
    by (simp add: merkle_pair_def)
  have pairS: "merkle_pair cur (s # ss) (Suc k) = merkle_pair up ss k" for k
    by (simp add: merkle_pair_def up_def)
  have w: "merkle_walk up ss = mt_nodes t ! 0" using Cons.prems by (simp add: up_def)
  from Cons.IH [OF _ w] Cons.prems(1) consider (eq) "up = mt_nodes t ! q"
    | (coll) k where "k < length ss" "merkle_collision t up ss k"
    by (auto simp: q_def)
  then show ?case
  proof cases
    case coll
    then show ?thesis by (intro disjI2 exI [of _ "Suc k"]) (simp add: merkle_collision_def pairS)
  next
    case eq
    have "(2 :: nat) ^ Suc (length ss) \<le> 2 ^ d" using Cons.prems(1) by (intro power_increasing) auto
    then have "q < 2 ^ d - 1" using merkle_path_pos_bound [of ss] unfolding q_def power_Suc by linarith
    then have nq: "up = node_hash (mt_nodes t ! (2 * q + 1)) (mt_nodes t ! (2 * q + 2))"
      using wf eq by (simp add: merkle_wf_def)
    obtain a b where ab: "merkle_pair cur (s # ss) 0 = (a, b)" by fastforce
    have h: "node_hash a b = up" using ab pair0 by (auto simp: up_def split: if_splits)
    show ?thesis
    proof (cases "(a, b) = (mt_nodes t ! (2 * q + 1), mt_nodes t ! (2 * q + 2))")
      case True
      then show ?thesis using ab pair0 by (auto simp: q_def split: if_splits)
    next
      case False
      then show ?thesis using ab h nq
        by (intro disjI2 exI [of _ 0]) (auto simp: merkle_collision_def Let_def q_def)
    qed
  qed
qed simp

lemma merkle_path_pos_leaf: "2 ^ length ss \<le> merkle_path_pos ss + 1"
  by (induction ss) auto

lemma merkle_leaf_at:
  assumes wf: "merkle_wf d padded t" and len: "length ss = d"
  shows "mt_nodes t ! merkle_path_pos ss = padded ! (2 * 2 ^ d - 2 - merkle_path_pos ss)
    \<and> 2 * 2 ^ d - 2 - merkle_path_pos ss < 2 ^ d"
proof -
  let ?i = "2 * 2 ^ d - 2 - merkle_path_pos ss"
  have b: "2 ^ d \<le> merkle_path_pos ss + 1" "merkle_path_pos ss + 2 \<le> 2 * 2 ^ d"
    using merkle_path_pos_leaf [of ss] merkle_path_pos_bound [of ss] len by simp_all
  then have "?i < 2 ^ d" "2 * 2 ^ d - 2 - ?i = merkle_path_pos ss" by linarith+
  then show ?thesis using wf unfolding merkle_wf_def by metis
qed

text \<open>The root is the hash of a perfect tree over the padded leaves, last leaf first.\<close>

fun merkle_spec :: "nat \<Rightarrow> bytes list \<Rightarrow> bytes" where
  "merkle_spec 0 xs = hd xs"
| "merkle_spec (Suc h) xs = node_hash (merkle_spec h (take (2 ^ h) xs)) (merkle_spec h (drop (2 ^ h) xs))"

lemma merkle_subtree:
  assumes wf: "merkle_wf d padded t" and "l + h = d" and "k < 2 ^ l"
  shows "mt_nodes t ! (2 ^ l - 1 + k) = merkle_spec h (sub_range (rev padded) (k * 2 ^ h) (2 ^ h))"
  using assms(2,3)
proof (induction h arbitrary: l k)
  case 0
  have len: "length padded = 2 ^ d" using wf by (simp add: merkle_wf_def)
  have i: "2 ^ d - 1 - k < 2 ^ d" using 0 by simp
  have "2 * 2 ^ d - 2 - (2 ^ d - 1 - k) = 2 ^ l - 1 + k" using 0 by simp
  then have "mt_nodes t ! (2 ^ l - 1 + k) = padded ! (2 ^ d - 1 - k)"
    using wf i unfolding merkle_wf_def by metis
  also have "\<dots> = rev padded ! k" using 0 len by (simp add: rev_nth)
  also have "\<dots> = hd (sub_range (rev padded) k 1)"
    using 0 len by (simp add: sub_range_def hd_drop_conv_nth take_Suc)
  finally show ?case by simp
next
  case (Suc h)
  have p: "(2 :: nat) ^ Suc l \<le> 2 ^ d" using Suc.prems(1) by (intro power_increasing) auto
  have j: "2 ^ l - 1 + k < 2 ^ d - 1" using Suc.prems(2) p unfolding power_Suc by linarith
  obtain m where m: "(2 :: nat) ^ l = Suc m" by (metis gr0_implies_Suc zero_less_numeral zero_less_power)
  have c1: "2 * (2 ^ l - 1 + k) + 1 = 2 ^ Suc l - 1 + 2 * k" by (simp add: m)
  have c2: "2 * (2 ^ l - 1 + k) + 2 = 2 ^ Suc l - 1 + Suc (2 * k)" by (simp add: m)
  have "mt_nodes t ! (2 ^ l - 1 + k)
      = node_hash (mt_nodes t ! (2 ^ Suc l - 1 + 2 * k)) (mt_nodes t ! (2 ^ Suc l - 1 + Suc (2 * k)))"
    using wf j unfolding merkle_wf_def c1 [symmetric] c2 [symmetric] by blast
  moreover have "2 * k < 2 ^ Suc l" "Suc (2 * k) < 2 ^ Suc l" using Suc.prems(2) by auto
  moreover have "take (2 ^ h) (sub_range (rev padded) (k * 2 ^ Suc h) (2 ^ Suc h))
      = sub_range (rev padded) (2 * k * 2 ^ h) (2 ^ h)"
    "drop (2 ^ h) (sub_range (rev padded) (k * 2 ^ Suc h) (2 ^ Suc h))
      = sub_range (rev padded) (Suc (2 * k) * 2 ^ h) (2 ^ h)"
    by (simp_all add: sub_range_def drop_take min_def algebra_simps)
  ultimately show ?case
    using Suc.IH [of "Suc l" "2 * k"] Suc.IH [of "Suc l" "Suc (2 * k)"] Suc.prems(1) by simp
qed

lemma merkle_root_spec: "merkle_wf d padded t \<Longrightarrow> mt_nodes t ! 0 = merkle_spec d (rev padded)"
  using merkle_subtree [of d padded t 0 d 0] by (simp add: merkle_wf_def)

text \<open>
  The node hash squeezes its 64 bytes through one 32-bit word, so it has collisions, whatever
  the mixing does: there are more pairs of digests than words.
\<close>

lemma node_hash_seed: "node_hash a b = node_hash_out 32 0 (fold (node_hash_mix (a @ b)) [0..<64] 0x6A09E667 XOR 64)"
  by (simp add: node_hash_def Let_def)

lemma node_hash_collides:
  "\<exists>a b. length a = 32 \<and> length b = 32 \<and> a \<noteq> b \<and> node_hash a z = node_hash b z"
proof (rule ccontr)
  assume no: "\<not> ?thesis"
  let ?S = "{a :: bytes. length a = 32}" and ?f = "\<lambda>a. fold (node_hash_mix (a @ z)) [0..<64] 0x6A09E667"
  have "inj_on ?f ?S"
  proof (rule inj_onI)
    fix a b assume "a \<in> ?S" and "b \<in> ?S" and "?f a = ?f b"
    then have "length a = 32" "length b = 32" "node_hash a z = node_hash b z" by (simp_all add: node_hash_seed)
    then show "a = b" using no by blast
  qed
  then have "card ?S \<le> card (UNIV :: u32 set)" by (intro card_inj_on_le [of ?f]) auto
  moreover have "card ?S = 256 ^ 32"
    using card_lists_length_eq [of "UNIV :: u8 set" 32] by (simp add: card_word)
  moreover have "card (UNIV :: u32 set) = 2 ^ 32" by (simp add: card_word)
  ultimately show False by simp
qed

end
