(* ===== verification/Device_Tree.thy ===== *)
theory Device_Tree
  imports Prelude
begin

text \<open>
  The flattened device tree parser of \<open>mini-hardware-desc/src/device_tree.c\<close>.  The nodes that
  \<open>fdt_alloc_node\<close> takes from the heap are the list \<open>ft_nodes\<close> of the tree, in the order of
  their allocation; a pointer to a node is its index.  Names are the bytes before their NUL,
  counts are lengths of lists.  Whether an allocation succeeds is the parameter \<open>ok\<close>, asked
  with the number of allocations so far.  Every read of the blob is checked: one beyond its end
  is \<open>Undefined\<close>.
\<close>

section \<open>State\<close>

definition FDT_MAGIC :: u32 where "FDT_MAGIC = 0xD00DFEED"

definition FDT_BEGIN_NODE :: u32 where "FDT_BEGIN_NODE = 1"

definition FDT_END_NODE :: u32 where "FDT_END_NODE = 2"

definition FDT_PROP :: u32 where "FDT_PROP = 3"

definition FDT_NOP :: u32 where "FDT_NOP = 4"

definition FDT_END :: u32 where "FDT_END = 9"

definition FDT_MAX_NAME_LEN :: nat where "FDT_MAX_NAME_LEN = 256"

definition FDT_MAX_PATH_LEN :: nat where "FDT_MAX_PATH_LEN = 1024"

definition FDT_MAX_PROPS :: nat where "FDT_MAX_PROPS = 128"

definition FDT_MAX_CHILDREN :: nat where "FDT_MAX_CHILDREN = 64"

definition FDT_COMPAT_VERSION :: u32 where "FDT_COMPAT_VERSION = 16"

definition FDT_MAX_RESERVE_ENTRIES :: nat where "FDT_MAX_RESERVE_ENTRIES = 32"

definition FDT_MAX_PHANDLE_MAP :: nat where "FDT_MAX_PHANDLE_MAP = 128"

definition sizeof_FDTHeader :: nat where "sizeof_FDTHeader = 40"

record FDTReserveEntry =
  re_address :: u64
  re_size :: u64

record FDTInterrupt =
  in_irq_number :: u32
  in_flags :: u32
  in_phandle :: u32

record FDTPhandleEntry =
  ph_phandle :: u32
  ph_node :: nat

record FDTHeader =
  fh_magic :: u32
  fh_totalsize :: u32
  fh_off_dt_struct :: u32
  fh_off_dt_strings :: u32
  fh_off_mem_rsvmap :: u32
  fh_version :: u32
  fh_last_comp_version :: u32
  fh_boot_cpuid_phys :: u32
  fh_size_dt_strings :: u32
  fh_size_dt_struct :: u32

record FDTProperty =
  pr_name :: bytes
  pr_value :: "bytes option"
  pr_value_len :: nat

record FDTNode =
  nd_name :: bytes
  nd_properties :: "FDTProperty list"
  nd_children :: "nat list"
  nd_parent :: "nat option"
  nd_phandle :: u32

record FDTTree =
  ft_header :: FDTHeader
  ft_strings_block :: "nat option"
  ft_strings_size :: nat
  ft_root :: "nat option"
  ft_parsed :: bool
  ft_reserve_entries :: "FDTReserveEntry list"
  ft_phandle_map :: "FDTPhandleEntry list"
  ft_nodes :: "FDTNode list"
  ft_allocs :: nat

section \<open>Reading the blob\<close>

definition fdt_bswap32 :: "u32 \<Rightarrow> u32" where
  "fdt_bswap32 val =
     push_bit 24 (val AND 0x000000FF) OR push_bit 8 (val AND 0x0000FF00)
       OR drop_bit 8 (val AND 0x00FF0000) OR drop_bit 24 (val AND 0xFF000000)"

definition fdt_read_u32 :: "bytes \<Rightarrow> u32" where
  "fdt_read_u32 p = be32 (p ! 0) (p ! 1) (p ! 2) (p ! 3)"

definition fdt_read_u64 :: "bytes \<Rightarrow> u64" where
  "fdt_read_u64 p = push_bit 32 (ucast (fdt_read_u32 p)) OR ucast (fdt_read_u32 (drop 4 p))"

definition fdt_u32 :: "bytes \<Rightarrow> nat \<Rightarrow> u32 option" where
  "fdt_u32 dtb offset = (if offset + 4 \<le> length dtb then Some (fdt_read_u32 (drop offset dtb)) else None)"

text \<open>The C string at an offset, if it ends inside the blob.\<close>

definition cstring_at :: "bytes \<Rightarrow> nat \<Rightarrow> bytes option" where
  "cstring_at dtb off =
     (let s = takeWhile (\<lambda>b. b \<noteq> 0) (drop off dtb) in if off + length s < length dtb then Some s else None)"

definition cell_align :: "nat \<Rightarrow> nat" where
  "cell_align n = (n + 3) div 4 * 4"

definition fdt_string :: "bytes \<Rightarrow> FDTTree \<Rightarrow> u32 \<Rightarrow> bytes option" where
  "fdt_string dtb tree offset =
     (if unat offset \<ge> ft_strings_size tree then Some []
      else case ft_strings_block tree of None \<Rightarrow> None | Some base \<Rightarrow> cstring_at dtb (base + unat offset))"

section \<open>Nodes\<close>

definition empty_node :: "bytes \<Rightarrow> FDTNode" where
  "empty_node name =
     \<lparr>nd_name = take (FDT_MAX_NAME_LEN - 1) name, nd_properties = [], nd_children = [], nd_parent = None, nd_phandle = 0\<rparr>"

definition fdt_alloc_node :: "(nat \<Rightarrow> bool) \<Rightarrow> FDTTree \<Rightarrow> bytes \<Rightarrow> FDTTree \<times> nat option" where
  "fdt_alloc_node ok tree name =
     (let tree1 = tree\<lparr>ft_allocs := ft_allocs tree + 1\<rparr>
      in if \<not> ok (ft_allocs tree) then (tree1, None)
         else (tree1\<lparr>ft_nodes := ft_nodes tree @ [empty_node name]\<rparr>, Some (length (ft_nodes tree))))"

definition upd_node :: "nat \<Rightarrow> (FDTNode \<Rightarrow> FDTNode) \<Rightarrow> FDTTree \<Rightarrow> FDTTree" where
  "upd_node i f tree = tree\<lparr>ft_nodes := (ft_nodes tree)[i := f (ft_nodes tree ! i)]\<rparr>"

definition add_child :: "nat \<Rightarrow> nat \<Rightarrow> FDTTree \<Rightarrow> FDTTree" where
  "add_child p n tree =
     (if length (nd_children (ft_nodes tree ! p)) < FDT_MAX_CHILDREN
      then upd_node p (\<lambda>nd. nd\<lparr>nd_children := nd_children nd @ [n]\<rparr>) tree else tree)"

text \<open>The case \<open>FDT_BEGIN_NODE\<close> up to the recursive call; the node is \<open>None\<close> when allocation fails.\<close>

definition fdt_begin_node ::
    "(nat \<Rightarrow> bool) \<Rightarrow> bytes \<Rightarrow> FDTTree \<Rightarrow> nat \<Rightarrow> nat option \<Rightarrow> (FDTTree \<times> nat \<times> nat option) c_result" where
  "fdt_begin_node ok dtb tree pos parent =
     (case cstring_at dtb pos of None \<Rightarrow> Undefined
      | Some name \<Rightarrow>
          let pos1 = pos + cell_align (length name + 1)
          in case fdt_alloc_node ok tree name of
               (tree1, None) \<Rightarrow> Returned (tree1, pos1, None)
             | (tree1, Some n) \<Rightarrow>
                 let tree2 = upd_node n (\<lambda>nd. nd\<lparr>nd_parent := parent\<rparr>) tree1;
                     tree3 = (case parent of Some p \<Rightarrow> add_child p n tree2 | None \<Rightarrow> tree2\<lparr>ft_root := Some n\<rparr>)
                 in Returned (tree3, pos1, Some n))"

text \<open>The case \<open>FDT_END_NODE\<close>: the phandle of the closing node goes to the node and the map.\<close>

definition is_phandle_prop :: "FDTProperty \<Rightarrow> bool" where
  "is_phandle_prop p \<longleftrightarrow> pr_name p = str_bytes ''phandle'' \<and> pr_value_len p \<ge> 4"

definition fdt_close_node :: "FDTTree \<Rightarrow> nat option \<Rightarrow> FDTTree c_result" where
  "fdt_close_node tree closing =
     (case closing of None \<Rightarrow> Returned tree
      | Some c \<Rightarrow>
          (case find is_phandle_prop (nd_properties (ft_nodes tree ! c)) of None \<Rightarrow> Returned tree
           | Some p \<Rightarrow>
               (case pr_value p of None \<Rightarrow> Undefined
                | Some v \<Rightarrow>
                    let ph = fdt_read_u32 v;
                        tree1 = upd_node c (\<lambda>nd. nd\<lparr>nd_phandle := ph\<rparr>) tree
                    in Returned (if length (ft_phandle_map tree1) < FDT_MAX_PHANDLE_MAP
                         then tree1\<lparr>ft_phandle_map := ft_phandle_map tree1 @ [\<lparr>ph_phandle = ph, ph_node = c\<rparr>]\<rparr>
                         else tree1))))"

text \<open>
  The case \<open>FDT_PROP\<close>; the boolean is \<open>False\<close> when there is no node to attach to.  The size of
  the allocation and the padded length are computed in 32 bits.
\<close>

definition fdt_prop ::
    "(nat \<Rightarrow> bool) \<Rightarrow> bytes \<Rightarrow> FDTTree \<Rightarrow> nat \<Rightarrow> nat option \<Rightarrow> (FDTTree \<times> nat \<times> bool) c_result" where
  "fdt_prop ok dtb tree pos target =
     (case fdt_u32 dtb pos of None \<Rightarrow> Undefined
      | Some len \<Rightarrow>
     (case fdt_u32 dtb (pos + 4) of None \<Rightarrow> Undefined
      | Some nameoff \<Rightarrow>
     (case target of None \<Rightarrow> Returned (tree, pos + 8, False)
      | Some t \<Rightarrow>
          let pos1 = pos + 8;
              pos2 = pos1 + unat ((len + 3) AND NOT 3)
          in if length (nd_properties (ft_nodes tree ! t)) < FDT_MAX_PROPS
             then (case fdt_string dtb tree nameoff of None \<Rightarrow> Undefined
                   | Some prop_name \<Rightarrow>
                       let tree1 = tree\<lparr>ft_allocs := ft_allocs tree + 1\<rparr>;
                           attach = (\<lambda>v. upd_node t (\<lambda>nd. nd\<lparr>nd_properties := nd_properties nd
                             @ [\<lparr>pr_name = take (FDT_MAX_NAME_LEN - 1) prop_name, pr_value = v, pr_value_len = unat len\<rparr>]\<rparr>) tree1)
                       in if \<not> ok (ft_allocs tree) then Returned (attach None, pos2, True)
                          else if pos1 + unat len \<le> length dtb \<and> len + 1 \<noteq> 0
                               then Returned (attach (Some (sub_range dtb pos1 (unat len) @ [0])), pos2, True)
                               else Undefined)
             else Returned (tree, pos2, True))))"

section \<open>The parser\<close>

text \<open>
  One call of the code is a run of the loop with \<open>node\<close> the node it allocated last; the
  recursive call starts with none.  The fuel counts iterations, each of which moves the position.
\<close>

fun fdt_parse_struct ::
    "nat \<Rightarrow> (nat \<Rightarrow> bool) \<Rightarrow> bytes \<Rightarrow> nat option \<Rightarrow> nat option \<Rightarrow> FDTTree \<Rightarrow> nat \<Rightarrow> (FDTTree \<times> nat \<times> bool) c_result" where
  "fdt_parse_struct 0 ok dtb parent node tree pos = Diverges"
| "fdt_parse_struct (Suc fuel) ok dtb parent node tree pos =
     (if \<not> pos < length dtb then Returned (tree, pos, True)
      else (case fdt_u32 dtb pos of None \<Rightarrow> Undefined
        | Some token \<Rightarrow>
            let pos1 = pos + 4;
                current = (case node of Some n \<Rightarrow> Some n | None \<Rightarrow> parent)
            in if token = FDT_BEGIN_NODE
               then (case fdt_begin_node ok dtb tree pos1 parent of
                       Returned (tree1, pos2, Some n) \<Rightarrow>
                         (case fdt_parse_struct fuel ok dtb (Some n) None tree1 pos2 of
                            Returned (tree2, pos3, True) \<Rightarrow> fdt_parse_struct fuel ok dtb parent (Some n) tree2 pos3
                          | r \<Rightarrow> r)
                     | Returned (tree1, pos2, None) \<Rightarrow> Returned (tree1, pos2, False)
                     | Undefined \<Rightarrow> Undefined | Diverges \<Rightarrow> Diverges)
               else if token = FDT_END_NODE
               then (case fdt_close_node tree current of
                       Returned tree1 \<Rightarrow> Returned (tree1, pos1, True)
                     | Undefined \<Rightarrow> Undefined | Diverges \<Rightarrow> Diverges)
               else if token = FDT_PROP
               then (case fdt_prop ok dtb tree pos1 current of
                       Returned (tree1, pos2, True) \<Rightarrow> fdt_parse_struct fuel ok dtb parent node tree1 pos2
                     | r \<Rightarrow> r)
               else if token = FDT_NOP then fdt_parse_struct fuel ok dtb parent node tree pos1
               else if token = FDT_END then Returned (tree\<lparr>ft_parsed := True\<rparr>, pos1, True)
               else Returned (tree, pos1, False)))"

function fdt_parse_mem_rsvmap :: "bytes \<Rightarrow> nat \<Rightarrow> nat \<Rightarrow> FDTReserveEntry list \<Rightarrow> FDTReserveEntry list c_result" where
  "fdt_parse_mem_rsvmap dtb totalsize offset entries =
     (if length entries < FDT_MAX_RESERVE_ENTRIES \<and> offset < totalsize
      then if offset + 16 > length dtb then Undefined
           else let addr = fdt_read_u64 (drop offset dtb);
                    sz = fdt_read_u64 (drop (offset + 8) dtb)
                in if addr = 0 \<and> sz = 0 then Returned entries
                   else fdt_parse_mem_rsvmap dtb totalsize (offset + 16) (entries @ [\<lparr>re_address = addr, re_size = sz\<rparr>])
      else Returned entries)"
  by pat_completeness auto
termination
  by (relation "measure (\<lambda>(dtb, totalsize, offset, entries). FDT_MAX_RESERVE_ENTRIES - length entries)") auto

declare fdt_parse_mem_rsvmap.simps [simp del]

text \<open>The header as a little-endian machine loads it, fields swapped one by one.\<close>

definition fdt_header :: "bytes \<Rightarrow> FDTHeader" where
  "fdt_header dtb =
     (let field = (\<lambda>i. fdt_bswap32 (le32_at dtb (4 * i)))
      in \<lparr>fh_magic = field 0, fh_totalsize = field 1, fh_off_dt_struct = field 2, fh_off_dt_strings = field 3,
          fh_off_mem_rsvmap = field 4, fh_version = field 5, fh_last_comp_version = field 6, fh_boot_cpuid_phys = field 7,
          fh_size_dt_strings = field 8, fh_size_dt_struct = field 9\<rparr>)"

definition empty_tree :: "FDTHeader \<Rightarrow> FDTTree" where
  "empty_tree h =
     \<lparr>ft_header = h, ft_strings_block = None, ft_strings_size = 0, ft_root = None, ft_parsed = False,
      ft_reserve_entries = [], ft_phandle_map = [], ft_nodes = [], ft_allocs = 0\<rparr>"

text \<open>The tree is not touched when the blob is shorter than a header.\<close>

definition fdt_parse :: "(nat \<Rightarrow> bool) \<Rightarrow> FDTTree \<Rightarrow> bytes option \<Rightarrow> (FDTTree \<times> bool) c_result" where
  "fdt_parse ok tree dtb_opt =
     (case dtb_opt of None \<Rightarrow> Returned (tree, False)
      | Some dtb \<Rightarrow>
          if length dtb < sizeof_FDTHeader then Returned (tree, False)
          else let h = fdt_header dtb; tree1 = empty_tree h
               in if fh_magic h \<noteq> FDT_MAGIC then Returned (tree1, False)
                  else if fh_version h < FDT_COMPAT_VERSION then Returned (tree1, False)
                  else (case fdt_parse_mem_rsvmap dtb (unat (fh_totalsize h)) (unat (fh_off_mem_rsvmap h)) [] of
                          Returned entries \<Rightarrow>
                            let tree2 = tree1\<lparr>ft_strings_block := Some (unat (fh_off_dt_strings h)),
                                  ft_strings_size := unat (fh_size_dt_strings h), ft_reserve_entries := entries\<rparr>
                            in (case fdt_parse_struct (length dtb + 1) ok dtb None None tree2 (unat (fh_off_dt_struct h)) of
                                  Returned (tree3, pos, ret) \<Rightarrow> Returned (tree3, ret)
                                | Undefined \<Rightarrow> Undefined | Diverges \<Rightarrow> Diverges)
                        | Undefined \<Rightarrow> Undefined | Diverges \<Rightarrow> Diverges))"

section \<open>Navigation\<close>

text \<open>What \<open>strtok_r\<close> cuts a path into: the non-empty pieces between slashes.\<close>

fun path_tokens :: "bytes \<Rightarrow> bytes \<Rightarrow> bytes list" where
  "path_tokens acc [] = (if acc = [] then [] else [acc])"
| "path_tokens acc (c # cs) =
     (if c = of_char (CHR ''/'') then (if acc = [] then [] else [acc]) @ path_tokens [] cs
      else path_tokens (acc @ [c]) cs)"

definition fdt_find_child_by_name :: "FDTTree \<Rightarrow> nat option \<Rightarrow> bytes option \<Rightarrow> nat option" where
  "fdt_find_child_by_name tree parent name =
     (case (parent, name) of
        (Some p, Some nm) \<Rightarrow> find (\<lambda>c. nd_name (ft_nodes tree ! c) = nm) (nd_children (ft_nodes tree ! p))
      | _ \<Rightarrow> None)"

text \<open>The walk along the pieces; its inner loop is that of \<open>fdt_find_child_by_name\<close>.\<close>

fun walk_path :: "FDTTree \<Rightarrow> nat \<Rightarrow> bytes list \<Rightarrow> nat option" where
  "walk_path tree cur [] = Some cur"
| "walk_path tree cur (tok # toks) =
     (case find (\<lambda>c. nd_name (ft_nodes tree ! c) = tok) (nd_children (ft_nodes tree ! cur)) of
        None \<Rightarrow> None | Some c \<Rightarrow> walk_path tree c toks)"

definition fdt_find_node_by_path :: "FDTTree \<Rightarrow> bytes option \<Rightarrow> nat option" where
  "fdt_find_node_by_path tree path =
     (case (ft_root tree, path) of
        (Some root, Some p) \<Rightarrow> walk_path tree root (path_tokens [] (take (FDT_MAX_PATH_LEN - 1) p))
      | _ \<Rightarrow> None)"

definition fdt_find_node_by_phandle :: "FDTTree \<Rightarrow> u32 \<Rightarrow> nat option" where
  "fdt_find_node_by_phandle tree phandle =
     (if phandle = 0 then None
      else map_option ph_node (find (\<lambda>e. ph_phandle e = phandle) (ft_phandle_map tree)))"

definition fdt_get_parent :: "FDTTree \<Rightarrow> nat option \<Rightarrow> nat option" where
  "fdt_get_parent tree node = (case node of None \<Rightarrow> None | Some n \<Rightarrow> nd_parent (ft_nodes tree ! n))"

definition fdt_count_children :: "FDTTree \<Rightarrow> nat option \<Rightarrow> nat" where
  "fdt_count_children tree node = (case node of None \<Rightarrow> 0 | Some n \<Rightarrow> length (nd_children (ft_nodes tree ! n)))"

definition fdt_first_child :: "FDTTree \<Rightarrow> nat option \<Rightarrow> nat option" where
  "fdt_first_child tree node =
     (case node of None \<Rightarrow> None
      | Some n \<Rightarrow> (case nd_children (ft_nodes tree ! n) of [] \<Rightarrow> None | c # cs \<Rightarrow> Some c))"

definition fdt_next_sibling :: "FDTTree \<Rightarrow> nat option \<Rightarrow> nat option" where
  "fdt_next_sibling tree node =
     (case node of None \<Rightarrow> None
      | Some n \<Rightarrow>
          (case nd_parent (ft_nodes tree ! n) of None \<Rightarrow> None
           | Some p \<Rightarrow>
               let cs = nd_children (ft_nodes tree ! p)
               in map_option (\<lambda>i. cs ! (i + 1)) (find (\<lambda>i. cs ! i = n) [0..<length cs - 1])))"

text \<open>The NUL-terminated pieces of a value, the last one ended by the NUL the parser appends.\<close>

function string_list :: "bytes \<Rightarrow> bytes list" where
  "string_list v =
     (if v = [] then []
      else let s = takeWhile (\<lambda>b. b \<noteq> 0) v in s # string_list (drop (length s + 1) v))"
  by pat_completeness auto
termination by (relation "measure length") auto

declare string_list.simps [simp del]

definition is_compatible :: "FDTNode \<Rightarrow> bytes \<Rightarrow> bool" where
  "is_compatible nd compatible \<longleftrightarrow>
     (\<exists>p \<in> set (nd_properties nd). pr_name p = str_bytes ''compatible'' \<and>
        (case pr_value p of None \<Rightarrow> False | Some v \<Rightarrow> compatible \<in> set (string_list (take (pr_value_len p) v))))"

text \<open>The search visits a node before its children; the fuel bounds its depth.\<close>

fun search_compatible :: "nat \<Rightarrow> FDTTree \<Rightarrow> bytes \<Rightarrow> nat \<Rightarrow> nat option c_result"
  and search_children :: "nat \<Rightarrow> FDTTree \<Rightarrow> bytes \<Rightarrow> nat list \<Rightarrow> nat option c_result" where
  "search_compatible 0 tree compatible node = Diverges"
| "search_compatible (Suc fuel) tree compatible node =
     (if is_compatible (ft_nodes tree ! node) compatible then Returned (Some node)
      else search_children fuel tree compatible (nd_children (ft_nodes tree ! node)))"
| "search_children fuel tree compatible [] = Returned None"
| "search_children fuel tree compatible (c # cs) =
     (case search_compatible fuel tree compatible c of
        Returned None \<Rightarrow> search_children fuel tree compatible cs
      | r \<Rightarrow> r)"

definition fdt_find_compatible :: "FDTTree \<Rightarrow> nat option \<Rightarrow> bytes option \<Rightarrow> nat option c_result" where
  "fdt_find_compatible tree node compatible =
     (case (node, compatible) of
        (Some n, Some c) \<Rightarrow> search_compatible (length (ft_nodes tree)) tree c n
      | _ \<Rightarrow> Returned None)"

section \<open>Properties of nodes\<close>

text \<open>The value, if its allocation succeeded, and the length.\<close>

definition get_prop_value :: "FDTNode \<Rightarrow> bytes \<Rightarrow> bytes option \<times> nat" where
  "get_prop_value nd prop_name =
     (case find (\<lambda>p. pr_name p = prop_name) (nd_properties nd) of
        None \<Rightarrow> (None, 0) | Some p \<Rightarrow> (pr_value p, pr_value_len p))"

definition fdt_get_prop_value :: "FDTTree \<Rightarrow> nat option \<Rightarrow> bytes option \<Rightarrow> bytes option \<times> nat" where
  "fdt_get_prop_value tree node prop_name =
     (case (node, prop_name) of (Some n, Some nm) \<Rightarrow> get_prop_value (ft_nodes tree ! n) nm | _ \<Rightarrow> (None, 0))"

definition fdt_read_prop_u32 :: "FDTTree \<Rightarrow> nat option \<Rightarrow> bytes option \<Rightarrow> u32 option" where
  "fdt_read_prop_u32 tree node prop_name =
     (case fdt_get_prop_value tree node prop_name of
        (Some val, len) \<Rightarrow> if len < 4 then None else Some (fdt_read_u32 val)
      | (None, len) \<Rightarrow> None)"

definition fdt_read_prop_u64 :: "FDTTree \<Rightarrow> nat option \<Rightarrow> bytes option \<Rightarrow> u64 option" where
  "fdt_read_prop_u64 tree node prop_name =
     (case fdt_get_prop_value tree node prop_name of
        (Some val, len) \<Rightarrow> if len < 8 then None else Some (fdt_read_u64 val)
      | (None, len) \<Rightarrow> None)"

text \<open>What is written to the buffer, its terminator included.\<close>

definition fdt_read_prop_string :: "FDTTree \<Rightarrow> nat option \<Rightarrow> bytes option \<Rightarrow> nat \<Rightarrow> bytes option" where
  "fdt_read_prop_string tree node prop_name buf_size =
     (case fdt_get_prop_value tree node prop_name of
        (Some val, len) \<Rightarrow>
          if buf_size = 0 then None
          else Some (take (if len < buf_size - 1 then len else buf_size - 1) val @ [0])
      | (None, len) \<Rightarrow> None)"

definition fdt_get_phandle :: "FDTTree \<Rightarrow> nat option \<Rightarrow> u32" where
  "fdt_get_phandle tree node = (case node of None \<Rightarrow> 0 | Some n \<Rightarrow> nd_phandle (ft_nodes tree ! n))"

section \<open>Address translation\<close>

text \<open>The walk to the root for a cell count; the fuel bounds the depth of the node.\<close>

fun cells_up :: "nat \<Rightarrow> FDTTree \<Rightarrow> bytes \<Rightarrow> u32 \<Rightarrow> nat \<Rightarrow> u32 c_result" where
  "cells_up 0 tree prop dflt node = Diverges"
| "cells_up (Suc fuel) tree prop dflt node =
     (case fdt_read_prop_u32 tree (Some node) (Some prop) of
        Some val \<Rightarrow> Returned val
      | None \<Rightarrow> (case nd_parent (ft_nodes tree ! node) of
                   Some p \<Rightarrow> cells_up fuel tree prop dflt p
                 | None \<Rightarrow> Returned dflt))"

definition fdt_get_address_cells :: "FDTTree \<Rightarrow> nat option \<Rightarrow> u32 c_result" where
  "fdt_get_address_cells tree node =
     (case node of None \<Rightarrow> Returned 2
      | Some n \<Rightarrow> cells_up (length (ft_nodes tree)) tree (str_bytes ''#address-cells'') 2 n)"

definition fdt_get_size_cells :: "FDTTree \<Rightarrow> nat option \<Rightarrow> u32 c_result" where
  "fdt_get_size_cells tree node =
     (case node of None \<Rightarrow> Returned 1
      | Some n \<Rightarrow> cells_up (length (ft_nodes tree)) tree (str_bytes ''#size-cells'') 1 n)"

text \<open>The number in \<open>n\<close> cells: the last two of them, the others are shifted out.\<close>

definition read_cells :: "bytes \<Rightarrow> nat \<Rightarrow> nat \<Rightarrow> u64" where
  "read_cells entry first n =
     foldl (\<lambda>acc c. push_bit 32 acc OR ucast (fdt_read_u32 (drop ((first + c) * 4) entry))) 0 [0..<n]"

text \<open>The first range that holds the address; an address is moved by the difference of the bases.\<close>

fun match_range :: "bytes \<Rightarrow> nat \<Rightarrow> nat \<Rightarrow> nat \<Rightarrow> u64 \<Rightarrow> nat \<Rightarrow> nat \<Rightarrow> u64 option" where
  "match_range ranges cc pc sc addr i 0 = None"
| "match_range ranges cc pc sc addr i (Suc n) =
     (let entry = drop (i * ((cc + pc + sc) * 4)) ranges;
          child_base = read_cells entry 0 cc;
          parent_base = read_cells entry cc pc;
          range_size = read_cells entry (cc + pc) sc
      in if addr \<ge> child_base \<and> addr < child_base + range_size then Some (parent_base + (addr - child_base))
         else match_range ranges cc pc sc addr (i + 1) n)"

text \<open>
  The size of an entry is computed in 32 bits: a division by zero when it wraps to zero; when
  it wraps otherwise, reading the first entry already leaves the value.
\<close>

fun translate_up :: "nat \<Rightarrow> FDTTree \<Rightarrow> nat \<Rightarrow> u64 \<Rightarrow> u64 c_result" where
  "translate_up 0 tree node addr = Diverges"
| "translate_up (Suc fuel) tree node addr =
     (case nd_parent (ft_nodes tree ! node) of None \<Rightarrow> Returned addr
      | Some p \<Rightarrow>
     (case fdt_get_address_cells tree (Some node) of
        Returned child_cells \<Rightarrow>
     (case fdt_get_address_cells tree (Some p) of
        Returned parent_cells \<Rightarrow>
     (case fdt_get_size_cells tree (Some node) of
        Returned size_cells \<Rightarrow>
     (case fdt_get_prop_value tree (Some node) (Some (str_bytes ''ranges'')) of
        (None, ranges_len) \<Rightarrow> translate_up fuel tree p addr
      | (Some ranges, ranges_len) \<Rightarrow>
          if ranges_len = 0 then translate_up fuel tree p addr
          else let entry_size = (child_cells + parent_cells + size_cells) * 4;
                   cells = unat child_cells + unat parent_cells + unat size_cells;
                   num_entries = ranges_len div unat entry_size
               in if entry_size = 0 \<or> (num_entries \<noteq> 0 \<and> unat entry_size \<noteq> cells * 4) then Undefined
                  else (case match_range ranges (unat child_cells) (unat parent_cells) (unat size_cells) addr 0 num_entries of
                          Some a \<Rightarrow> translate_up fuel tree p a
                        | None \<Rightarrow> translate_up fuel tree p addr))
      | Undefined \<Rightarrow> Undefined | Diverges \<Rightarrow> Diverges)
      | Undefined \<Rightarrow> Undefined | Diverges \<Rightarrow> Diverges)
      | Undefined \<Rightarrow> Undefined | Diverges \<Rightarrow> Diverges))"

definition fdt_translate_address :: "FDTTree \<Rightarrow> nat option \<Rightarrow> u64 \<Rightarrow> u64 option c_result" where
  "fdt_translate_address tree node child_addr =
     (case node of None \<Rightarrow> Returned None
      | Some n \<Rightarrow> (case translate_up (length (ft_nodes tree)) tree n child_addr of
                     Returned a \<Rightarrow> Returned (Some a) | Undefined \<Rightarrow> Undefined | Diverges \<Rightarrow> Diverges))"

section \<open>Interrupts, reservations, validation\<close>

fun interrupt_parent_up :: "nat \<Rightarrow> FDTTree \<Rightarrow> nat option \<Rightarrow> nat option c_result" where
  "interrupt_parent_up fuel tree None = Returned None"
| "interrupt_parent_up 0 tree (Some cur) = Diverges"
| "interrupt_parent_up (Suc fuel) tree (Some cur) =
     (if fst (fdt_get_prop_value tree (Some cur) (Some (str_bytes ''interrupt-controller''))) \<noteq> None
      then Returned (Some cur)
      else case fdt_read_prop_u32 tree (Some cur) (Some (str_bytes ''interrupt-parent'')) of
             Some ph \<Rightarrow> if ph \<noteq> 0 then Returned (fdt_find_node_by_phandle tree ph)
                         else interrupt_parent_up fuel tree (nd_parent (ft_nodes tree ! cur))
           | None \<Rightarrow> interrupt_parent_up fuel tree (nd_parent (ft_nodes tree ! cur)))"

definition fdt_find_interrupt_parent :: "FDTTree \<Rightarrow> nat option \<Rightarrow> nat option c_result" where
  "fdt_find_interrupt_parent tree node =
     (case node of None \<Rightarrow> Returned None
      | Some n \<Rightarrow>
          (let up = interrupt_parent_up (length (ft_nodes tree)) tree (nd_parent (ft_nodes tree ! n))
           in case fdt_read_prop_u32 tree node (Some (str_bytes ''interrupt-parent'')) of
                Some ph \<Rightarrow> if ph \<noteq> 0 then Returned (fdt_find_node_by_phandle tree ph) else up
              | None \<Rightarrow> up))"

text \<open>
  The cell count of the parent, one where it has none; the size of a specifier is computed in
  32 bits for the division, in 64 bits for the place of an entry.
\<close>

definition interrupt_cells :: "FDTTree \<Rightarrow> nat \<Rightarrow> u32" where
  "interrupt_cells tree n =
     (case nd_parent (ft_nodes tree ! n) of None \<Rightarrow> 1
      | Some p \<Rightarrow>
          (case fdt_read_prop_u32 tree (Some p) (Some (str_bytes ''#interrupt-cells'')) of
             None \<Rightarrow> 1 | Some c \<Rightarrow> if c = 0 then 1 else c))"

definition fdt_parse_interrupts :: "FDTTree \<Rightarrow> nat option \<Rightarrow> nat \<Rightarrow> FDTInterrupt list c_result" where
  "fdt_parse_interrupts tree node max_count =
     (case node of None \<Rightarrow> Returned []
      | Some n \<Rightarrow>
          if max_count = 0 then Returned []
          else (case fdt_get_prop_value tree node (Some (str_bytes ''interrupts'')) of
                  (None, prop_len) \<Rightarrow> Returned []
                | (Some prop, prop_len) \<Rightarrow>
                    if prop_len = 0 then Returned []
                    else let int_cells = interrupt_cells tree n; stride = int_cells * 4
                         in if stride = 0 then Undefined
                            else let cnt = min (prop_len div unat stride) max_count;
                                     entry = (\<lambda>i. drop (i * unat int_cells * 4) prop)
                                 in if cnt \<noteq> 0 \<and> (cnt - 1) * unat int_cells * 4 + min 3 (unat int_cells) * 4 > prop_len + 1
                                    then Undefined
                                    else Returned (map (\<lambda>i. \<lparr>in_irq_number = fdt_read_u32 (entry i),
                                        in_flags = if int_cells \<ge> 2 then fdt_read_u32 (drop 4 (entry i)) else 0,
                                        in_phandle = if int_cells \<ge> 3 then fdt_read_u32 (drop 8 (entry i)) else 0\<rparr>) [0..<cnt])))"

definition fdt_get_reserved_memory :: "FDTTree \<Rightarrow> nat \<Rightarrow> FDTReserveEntry list" where
  "fdt_get_reserved_memory tree max_count = take max_count (ft_reserve_entries tree)"

definition fdt_validate :: "FDTTree \<Rightarrow> bool" where
  "fdt_validate tree =
     (if \<not> ft_parsed tree then False
      else if fh_magic (ft_header tree) \<noteq> FDT_MAGIC then False
      else if fh_version (ft_header tree) < FDT_COMPAT_VERSION then False
      else if unat (fh_totalsize (ft_header tree)) < sizeof_FDTHeader then False
      else if ft_root tree = None then False
      else if fh_off_dt_struct (ft_header tree) \<ge> fh_totalsize (ft_header tree) then False
      else if fh_off_dt_strings (ft_header tree) \<ge> fh_totalsize (ft_header tree) then False
      else True)"

text \<open>The nodes are freed with their values; only what the tree itself still says remains.\<close>

definition fdt_free_tree :: "FDTTree \<Rightarrow> FDTTree" where
  "fdt_free_tree tree =
     tree\<lparr>ft_root := None, ft_strings_block := None, ft_parsed := False, ft_phandle_map := [], ft_reserve_entries := [],
       ft_nodes := []\<rparr>"

end
