(* ===== verification/Fdt_Shape.thy ===== *)
theory Fdt_Shape
  imports Device_Tree
begin

text \<open>
  The shape of the node heap of \<open>Device_Tree\<close>: links between parents and children go up and down
  in the order of allocation, tables stay within their bounds.  The parser keeps it on every
  input, moves its position, and returns; the walks through a tree of this shape end.
\<close>

section \<open>Shape of the heap\<close>

definition prop_ok :: "FDTProperty \<Rightarrow> bool" where
  "prop_ok p \<longleftrightarrow>
     length (pr_name p) < FDT_MAX_NAME_LEN \<and> (\<forall>v. pr_value p = Some v \<longrightarrow> length v = pr_value_len p + 1)"

definition node_ok :: "FDTNode \<Rightarrow> bool" where
  "node_ok nd \<longleftrightarrow>
     length (nd_name nd) < FDT_MAX_NAME_LEN \<and> length (nd_properties nd) \<le> FDT_MAX_PROPS \<and>
     (\<forall>p \<in> set (nd_properties nd). prop_ok p) \<and> length (nd_children nd) \<le> FDT_MAX_CHILDREN"

definition linked :: "FDTNode list \<Rightarrow> nat \<Rightarrow> bool" where
  "linked nodes i \<longleftrightarrow>
     distinct (nd_children (nodes ! i)) \<and>
     (\<forall>c \<in> set (nd_children (nodes ! i)). i < c \<and> c < length nodes \<and> nd_parent (nodes ! c) = Some i) \<and>
     (\<forall>p. nd_parent (nodes ! i) = Some p \<longrightarrow> p < i)"

definition heap_ok :: "FDTNode list \<Rightarrow> bool" where
  "heap_ok nodes \<longleftrightarrow> (\<forall>i < length nodes. node_ok (nodes ! i) \<and> linked nodes i)"

definition fdt_wf :: "FDTTree \<Rightarrow> bool" where
  "fdt_wf tree \<longleftrightarrow>
     heap_ok (ft_nodes tree) \<and>
     (\<forall>r. ft_root tree = Some r \<longrightarrow> r < length (ft_nodes tree)) \<and>
     length (ft_phandle_map tree) \<le> FDT_MAX_PHANDLE_MAP \<and>
     (\<forall>e \<in> set (ft_phandle_map tree). ph_node e < length (ft_nodes tree)) \<and>
     length (ft_reserve_entries tree) \<le> FDT_MAX_RESERVE_ENTRIES"

definition node_in :: "FDTTree \<Rightarrow> nat option \<Rightarrow> bool" where
  "node_in tree node \<longleftrightarrow> (\<forall>n. node = Some n \<longrightarrow> n < length (ft_nodes tree))"

lemma upd_node_simps [simp]:
  "ft_nodes (upd_node i f tree) = (ft_nodes tree)[i := f (ft_nodes tree ! i)]"
  "ft_root (upd_node i f tree) = ft_root tree" "ft_phandle_map (upd_node i f tree) = ft_phandle_map tree"
  "ft_reserve_entries (upd_node i f tree) = ft_reserve_entries tree" "ft_parsed (upd_node i f tree) = ft_parsed tree"
  "ft_strings_block (upd_node i f tree) = ft_strings_block tree" "ft_strings_size (upd_node i f tree) = ft_strings_size tree"
  "ft_allocs (upd_node i f tree) = ft_allocs tree" "ft_header (upd_node i f tree) = ft_header tree"
  by (simp_all add: upd_node_def)

lemma heap_okD: "heap_ok nodes \<Longrightarrow> i < length nodes \<Longrightarrow> node_ok (nodes ! i) \<and> linked nodes i"
  by (simp add: heap_ok_def)

lemma linked_cong:
  assumes "length ns' = length ns" and "\<And>j. nd_children (ns' ! j) = nd_children (ns ! j)"
    and "\<And>j. nd_parent (ns' ! j) = nd_parent (ns ! j)"
  shows "linked ns' i = linked ns i"
  unfolding linked_def assms ..

lemma heap_ok_update:
  assumes "heap_ok nodes" and "nd_children nd = nd_children (nodes ! k)" and "nd_parent nd = nd_parent (nodes ! k)"
    and "node_ok nd"
  shows "heap_ok (nodes[k := nd])"
proof -
  have "nd_children (nodes[k := nd] ! j) = nd_children (nodes ! j)"
    "nd_parent (nodes[k := nd] ! j) = nd_parent (nodes ! j)" for j
    using assms(2,3) by (cases "k < length nodes"; simp add: nth_list_update list_update_beyond)+
  then have l: "linked (nodes[k := nd]) i = linked nodes i" for i by (intro linked_cong) simp_all
  show ?thesis unfolding heap_ok_def l
  proof (intro allI impI)
    fix i assume i: "i < length (nodes[k := nd])"
    then show "node_ok (nodes[k := nd] ! i) \<and> linked nodes i"
      using heap_okD [OF assms(1), of i] assms(4) by (cases "i = k") simp_all
  qed
qed

lemma linked_append: "linked nodes i \<Longrightarrow> i < length nodes \<Longrightarrow> linked (nodes @ ns) i"
  unfolding linked_def by (auto simp: nth_append)

lemma heap_ok_append:
  assumes "heap_ok nodes" and "node_ok nd" and "nd_children nd = []" and "\<And>p. nd_parent nd = Some p \<Longrightarrow> p < length nodes"
  shows "heap_ok (nodes @ [nd])"
  unfolding heap_ok_def
proof (intro allI impI)
  fix i assume "i < length (nodes @ [nd])"
  then consider "i < length nodes" | "i = length nodes" by force
  then show "node_ok ((nodes @ [nd]) ! i) \<and> linked (nodes @ [nd]) i"
  proof cases
    case 1
    then show ?thesis using heap_okD [OF assms(1) 1] linked_append by (simp add: nth_append)
  next
    case 2
    then show ?thesis using assms(2-4) by (simp add: linked_def)
  qed
qed

lemma heap_ok_child:
  assumes "heap_ok nodes" and "p < c" and "c < length nodes" and "nd_parent (nodes ! c) = Some p"
    and "c \<notin> set (nd_children (nodes ! p))" and "length (nd_children (nodes ! p)) < FDT_MAX_CHILDREN"
  shows "heap_ok (nodes[p := (nodes ! p)\<lparr>nd_children := nd_children (nodes ! p) @ [c]\<rparr>])" (is "heap_ok ?ns")
  unfolding heap_ok_def
proof (intro allI impI)
  have par: "nd_parent (?ns ! i) = nd_parent (nodes ! i)" for i
    using assms(2,3) by (cases "i = p") simp_all
  have ch: "nd_children (?ns ! i) = (if i = p then nd_children (nodes ! p) @ [c] else nd_children (nodes ! i))" for i
    using assms(2,3) by simp
  fix i assume "i < length ?ns"
  then have i: "i < length nodes" by simp
  note ok = heap_okD [OF assms(1) i]
  have "linked ?ns i"
    using ok assms(2-5) unfolding linked_def par ch length_list_update by (cases "i = p") auto
  moreover have "node_ok (?ns ! i)"
    using ok assms(6) i by (cases "i = p") (simp_all add: node_ok_def)
  ultimately show "node_ok (?ns ! i) \<and> linked ?ns i" by simp
qed

lemma fdt_wf_close:
  assumes "fdt_wf tree" and "node_in tree closing" and "fdt_close_node tree closing = Returned tree'"
  shows "fdt_wf tree' \<and> length (ft_nodes tree') = length (ft_nodes tree)"
proof (cases closing)
  case (Some c)
  have ok: "node_ok (ft_nodes tree ! c)" "heap_ok (ft_nodes tree)"
    using assms(1,2) Some heap_okD by (simp_all add: node_in_def fdt_wf_def)
  have "heap_ok ((ft_nodes tree)[c := (ft_nodes tree ! c)\<lparr>nd_phandle := ph\<rparr>])" for ph
    using ok by (intro heap_ok_update) (simp_all add: node_ok_def)
  then show ?thesis
    using assms Some by (auto simp: fdt_close_node_def Let_def node_in_def fdt_wf_def split: option.splits if_splits)
qed (use assms in \<open>simp add: fdt_close_node_def\<close>)

lemma fdt_wf_nodes:
  "fdt_wf tree \<Longrightarrow> heap_ok nodes \<Longrightarrow> length nodes = length (ft_nodes tree) \<Longrightarrow>
    fdt_wf (tree\<lparr>ft_nodes := nodes\<rparr>)"
  by (simp add: fdt_wf_def)

lemma fdt_wf_prop:
  assumes wf: "fdt_wf tree" and t: "node_in tree target" and r: "fdt_prop ok dtb tree pos target = Returned (tree', pos', b)"
  shows "fdt_wf tree' \<and> length (ft_nodes tree') = length (ft_nodes tree) \<and> pos \<le> pos'"
proof -
  have up: "heap_ok ((ft_nodes tree)[n := (ft_nodes tree ! n)\<lparr>nd_properties := nd_properties (ft_nodes tree ! n) @ [p]\<rparr>])"
    if "n < length (ft_nodes tree)" "length (nd_properties (ft_nodes tree ! n)) < FDT_MAX_PROPS" "prop_ok p" for n p
    using wf that heap_okD [of "ft_nodes tree" n] by (intro heap_ok_update) (auto simp: fdt_wf_def node_ok_def)
  have po: "prop_ok \<lparr>pr_name = take (FDT_MAX_NAME_LEN - 1) nm, pr_value = v, pr_value_len = l\<rparr>"
    if "\<And>x. v = Some x \<Longrightarrow> length x = l + 1" for nm v l
    using that by (simp add: prop_ok_def FDT_MAX_NAME_LEN_def)
  obtain len nameoff where l: "fdt_u32 dtb pos = Some len" "fdt_u32 dtb (pos + 4) = Some nameoff"
    using r by (auto simp: fdt_prop_def split: option.splits)
  show ?thesis
  proof (cases target)
    case None
    then show ?thesis using r l wf by (auto simp: fdt_prop_def)
  next
    case (Some n)
    then have n: "n < length (ft_nodes tree)" using t by (simp add: node_in_def)
    show ?thesis
    proof (cases "length (nd_properties (ft_nodes tree ! n)) < FDT_MAX_PROPS")
      case False
      then show ?thesis using r l wf Some by (auto simp: fdt_prop_def Let_def)
    next
      case True
      obtain nm where nm: "fdt_string dtb tree nameoff = Some nm"
        using r l Some True by (auto simp: fdt_prop_def Let_def split: option.splits)
      have "pos \<le> pos' \<and> (\<exists>v. (\<forall>x. v = Some x \<longrightarrow> length x = unat len + 1) \<and>
        tree' = upd_node n (\<lambda>nd. nd\<lparr>nd_properties := nd_properties nd
           @ [\<lparr>pr_name = take (FDT_MAX_NAME_LEN - 1) nm, pr_value = v, pr_value_len = unat len\<rparr>]\<rparr>) (tree\<lparr>ft_allocs := ft_allocs tree + 1\<rparr>))"
      proof (cases "ok (ft_allocs tree)")
        case False
        then show ?thesis using r l Some True nm by (intro conjI exI [of _ None]) (auto simp: fdt_prop_def Let_def)
      next
        case ok: True
        then show ?thesis using r l Some True nm
          by (intro conjI exI [of _ "Some (sub_range dtb (pos + 8) (unat len) @ [0])"])
            (auto simp: fdt_prop_def Let_def split: if_splits)
      qed
      then obtain v where v: "\<And>x. v = Some x \<Longrightarrow> length x = unat len + 1" "pos \<le> pos'"
        "tree' = upd_node n (\<lambda>nd. nd\<lparr>nd_properties := nd_properties nd
           @ [\<lparr>pr_name = take (FDT_MAX_NAME_LEN - 1) nm, pr_value = v, pr_value_len = unat len\<rparr>]\<rparr>) (tree\<lparr>ft_allocs := ft_allocs tree + 1\<rparr>)"
        by blast
      then show ?thesis using wf up [OF n True po [OF v(1)]] by (simp add: fdt_wf_def)
    qed
  qed
qed

lemma fdt_wf_alloc:
  assumes wf: "fdt_wf tree" and r: "fdt_alloc_node ok tree name = (tree', Some n)" and p: "node_in tree parent"
  shows "n = length (ft_nodes tree)" and "length (ft_nodes tree') = Suc n"
    and "fdt_wf (upd_node n (\<lambda>nd. nd\<lparr>nd_parent := parent\<rparr>) tree')"
    and "nd_parent (ft_nodes (upd_node n (\<lambda>nd. nd\<lparr>nd_parent := parent\<rparr>) tree') ! n) = parent"
proof -
  have n: "n = length (ft_nodes tree)" "ft_nodes tree' = ft_nodes tree @ [empty_node name]"
    and t: "tree' = tree\<lparr>ft_allocs := ft_allocs tree + 1, ft_nodes := ft_nodes tree @ [empty_node name]\<rparr>"
    using r by (auto simp: fdt_alloc_node_def Let_def split: if_splits)
  show "n = length (ft_nodes tree)" "length (ft_nodes tree') = Suc n" using n by simp_all
  have "heap_ok (ft_nodes tree @ [(empty_node name)\<lparr>nd_parent := parent\<rparr>])"
    using wf p by (intro heap_ok_append)
      (auto simp: fdt_wf_def node_ok_def empty_node_def node_in_def FDT_MAX_NAME_LEN_def)
  then show "fdt_wf (upd_node n (\<lambda>nd. nd\<lparr>nd_parent := parent\<rparr>) tree')"
    using wf n t by (auto simp: fdt_wf_def less_Suc_eq)
  show "nd_parent (ft_nodes (upd_node n (\<lambda>nd. nd\<lparr>nd_parent := parent\<rparr>) tree') ! n) = parent"
    using n by simp
qed

lemma fdt_wf_begin:
  assumes wf: "fdt_wf tree" and p: "node_in tree parent"
    and r: "fdt_begin_node ok dtb tree pos parent = Returned (tree', pos', node)"
  shows "fdt_wf tree' \<and> length (ft_nodes tree) \<le> length (ft_nodes tree') \<and> node_in tree' node \<and> pos \<le> pos'"
proof -
  obtain name where name: "cstring_at dtb pos = Some name" "pos' = pos + cell_align (length name + 1)"
    using r by (auto simp: fdt_begin_node_def Let_def split: option.splits prod.splits)
  obtain tree1 n where a: "fdt_alloc_node ok tree name = (tree1, n)" by fastforce
  show ?thesis
  proof (cases n)
    case None
    then have "tree1 = tree\<lparr>ft_allocs := ft_allocs tree + 1\<rparr>"
      using a by (auto simp: fdt_alloc_node_def Let_def split: if_splits)
    then show ?thesis using r name a None wf by (auto simp: fdt_begin_node_def fdt_wf_def node_in_def Let_def)
  next
    case (Some i)
    note a = a [unfolded Some]
    let ?t = "upd_node i (\<lambda>nd. nd\<lparr>nd_parent := parent\<rparr>) tree1"
    note i = fdt_wf_alloc [OF wf a p]
    show ?thesis
    proof (cases parent)
      case None
      then have "tree' = ?t\<lparr>ft_root := Some i\<rparr>" "node = Some i"
        using r name a by (auto simp: fdt_begin_node_def Let_def)
      then show ?thesis using i name by (auto simp: fdt_wf_def node_in_def)
    next
      case (Some q)
      then have t: "tree' = add_child q i ?t" "node = Some i"
        using r name a by (auto simp: fdt_begin_node_def Let_def)
      have q: "q < i" using p Some i(1) by (simp add: node_in_def)
      have ok: "heap_ok (ft_nodes ?t)" and len: "length (ft_nodes ?t) = Suc i" using i by (simp_all add: fdt_wf_def)
      have "linked (ft_nodes tree) q" using wf q i(1) heap_okD by (simp add: fdt_wf_def)
      then have "i \<notin> set (nd_children (ft_nodes tree ! q))" using i(1) by (auto simp: linked_def)
      moreover have "ft_nodes ?t ! q = ft_nodes tree ! q"
        using a q i(1) by (auto simp: fdt_alloc_node_def Let_def nth_append split: if_splits)
      ultimately have fresh: "i \<notin> set (nd_children (ft_nodes ?t ! q))" by simp
      have "heap_ok (ft_nodes tree')"
        using heap_ok_child [OF ok q _ _ fresh] i(4) Some len ok t(1) by (simp add: add_child_def)
      then show ?thesis using i t name len by (auto simp: fdt_wf_def node_in_def add_child_def)
    qed
  qed
qed

text \<open>The parser keeps the shape, only adds nodes and never moves backwards.\<close>

lemma fdt_parse_struct_shape:
  "fdt_wf tree \<Longrightarrow> node_in tree parent \<Longrightarrow> node_in tree node \<Longrightarrow>
    fdt_parse_struct fuel ok dtb parent node tree pos = Returned (tree', pos', b) \<Longrightarrow>
    fdt_wf tree' \<and> length (ft_nodes tree) \<le> length (ft_nodes tree') \<and> pos \<le> pos'"
proof (induction fuel arbitrary: parent node tree pos tree' pos' b)
  case 0
  then show ?case by simp
next
  case (Suc fuel)
  let ?cur = "case node of Some n \<Rightarrow> Some n | None \<Rightarrow> parent"
  have cur: "node_in tree ?cur" using Suc.prems(2,3) by (cases node) simp_all
  show ?case
  proof (cases "pos < length dtb")
    case False
    then show ?thesis using Suc.prems by simp
  next
    case pos: True
    then obtain token where tok: "fdt_u32 dtb pos = Some token" using Suc.prems(4) by (auto split: option.splits)
    consider (opens) "token = FDT_BEGIN_NODE" | (closes) "token = FDT_END_NODE" | (property) "token = FDT_PROP"
      | (nop) "token = FDT_NOP" | (other) "token \<notin> {FDT_BEGIN_NODE, FDT_END_NODE, FDT_PROP, FDT_NOP}" by blast
    then show ?thesis
    proof cases
      case opens
      obtain tree1 pos1 n where b: "fdt_begin_node ok dtb tree (pos + 4) parent = Returned (tree1, pos1, n)"
        using Suc.prems(4) pos tok opens by (cases "fdt_begin_node ok dtb tree (pos + 4) parent") auto
      note s1 = fdt_wf_begin [OF Suc.prems(1,2) b]
      show ?thesis
      proof (cases n)
        case None
        then show ?thesis using Suc.prems(4) pos tok opens b s1 by simp
      next
        case (Some i)
        obtain tree2 pos2 c where r: "fdt_parse_struct fuel ok dtb (Some i) None tree1 pos1 = Returned (tree2, pos2, c)"
          using Suc.prems(4) pos tok opens b Some
          by (cases "fdt_parse_struct fuel ok dtb (Some i) None tree1 pos1") auto
        have s2: "fdt_wf tree2 \<and> length (ft_nodes tree1) \<le> length (ft_nodes tree2) \<and> pos1 \<le> pos2"
          using s1 Some by (intro Suc.IH [OF _ _ _ r]) (simp_all add: node_in_def)
        show ?thesis
        proof (cases c)
          case False
          then show ?thesis using Suc.prems(4) pos tok opens b Some r s1 s2 by auto
        next
          case True
          then have l: "fdt_parse_struct fuel ok dtb parent (Some i) tree2 pos2 = Returned (tree', pos', b)"
            using Suc.prems(4) pos tok opens b Some r by simp
          have "node_in tree2 (Some i)" using s1 s2 Some by (auto simp: node_in_def)
          moreover have "node_in tree2 parent" using Suc.prems(2) s1 s2 by (auto simp: node_in_def)
          ultimately show ?thesis using Suc.IH [OF _ _ _ l] s1 s2 by auto
        qed
      qed
    next
      case closes
      obtain tree1 where c: "fdt_close_node tree ?cur = Returned tree1"
        using Suc.prems(4) pos tok closes
        by (cases "fdt_close_node tree ?cur") (auto simp: FDT_BEGIN_NODE_def FDT_END_NODE_def)
      then show ?thesis using Suc.prems(4) pos tok closes fdt_wf_close [OF Suc.prems(1) cur c]
        by (auto simp: FDT_BEGIN_NODE_def FDT_END_NODE_def)
    next
      case property
      obtain tree1 pos1 c where p: "fdt_prop ok dtb tree (pos + 4) ?cur = Returned (tree1, pos1, c)"
        using Suc.prems(4) pos tok property
        by (cases "fdt_prop ok dtb tree (pos + 4) ?cur") (auto simp: FDT_BEGIN_NODE_def FDT_END_NODE_def FDT_PROP_def)
      note s1 = fdt_wf_prop [OF Suc.prems(1) cur p]
      show ?thesis
      proof (cases c)
        case False
        then show ?thesis using Suc.prems(4) pos tok property p s1
          by (auto simp: FDT_BEGIN_NODE_def FDT_END_NODE_def FDT_PROP_def)
      next
        case True
        then have l: "fdt_parse_struct fuel ok dtb parent node tree1 pos1 = Returned (tree', pos', b)"
          using Suc.prems(4) pos tok property p by (simp add: FDT_BEGIN_NODE_def FDT_END_NODE_def FDT_PROP_def)
        show ?thesis using Suc.IH [OF _ _ _ l] s1 Suc.prems(2,3) by (auto simp: node_in_def)
      qed
    next
      case nop
      then have l: "fdt_parse_struct fuel ok dtb parent node tree (pos + 4) = Returned (tree', pos', b)"
        using Suc.prems(4) pos tok by (simp add: FDT_BEGIN_NODE_def FDT_END_NODE_def FDT_PROP_def FDT_NOP_def)
      show ?thesis using Suc.IH [OF Suc.prems(1-3) l] by simp
    next
      case other
      then show ?thesis using Suc.prems(1,4) pos tok by (auto simp: fdt_wf_def Let_def split: if_splits)
    qed
  qed
qed

text \<open>Every iteration consumes its token, so the rest of the blob bounds their number.\<close>

lemma fdt_close_not_diverges: "fdt_close_node tree closing \<noteq> Diverges"
  by (simp add: fdt_close_node_def Let_def split: option.splits)

lemma fdt_prop_not_diverges: "fdt_prop ok dtb tree pos target \<noteq> Diverges"
  by (simp add: fdt_prop_def Let_def split: option.splits)

lemma fdt_begin_not_diverges: "fdt_begin_node ok dtb tree pos parent \<noteq> Diverges"
  by (simp add: fdt_begin_node_def Let_def split: option.splits prod.splits)

lemma fdt_parse_struct_returns:
  "fdt_wf tree \<Longrightarrow> node_in tree parent \<Longrightarrow> node_in tree node \<Longrightarrow> length dtb - pos < fuel \<Longrightarrow>
    fdt_parse_struct fuel ok dtb parent node tree pos \<noteq> Diverges"
proof (induction fuel arbitrary: parent node tree pos)
  case 0
  then show ?case by simp
next
  case (Suc fuel)
  let ?cur = "case node of Some n \<Rightarrow> Some n | None \<Rightarrow> parent"
  have cur: "node_in tree ?cur" using Suc.prems(2,3) by (cases node) simp_all
  show ?case
  proof (cases "pos < length dtb")
    case False
    then show ?thesis by simp
  next
    case pos: True
    show ?thesis
    proof (cases "fdt_u32 dtb pos")
      case None
      then show ?thesis using pos by simp
    next
      case tok: (Some token)
      consider (opens) "token = FDT_BEGIN_NODE" | (closes) "token = FDT_END_NODE" | (property) "token = FDT_PROP"
        | (nop) "token = FDT_NOP" | (other) "token \<notin> {FDT_BEGIN_NODE, FDT_END_NODE, FDT_PROP, FDT_NOP}" by blast
      then show ?thesis
      proof cases
        case opens
        show ?thesis
        proof (cases "fdt_begin_node ok dtb tree (pos + 4) parent")
          case (Returned r)
          obtain tree1 pos1 n where [simp]: "r = (tree1, pos1, n)" by (cases r)
          note s1 = fdt_wf_begin [OF Suc.prems(1,2) Returned [simplified]]
          show ?thesis
          proof (cases n)
            case None
            then show ?thesis using pos tok opens Returned by simp
          next
            case (Some i)
            have "pos < pos1" using s1 by simp
            then have lt: "length dtb - pos1 < fuel" using Suc.prems(4) pos by linarith
            then have IH: "fdt_parse_struct fuel ok dtb (Some i) None tree1 pos1 \<noteq> Diverges"
              using Suc.IH [of tree1 "Some i" None pos1] s1 Some by (simp add: node_in_def)
            show ?thesis
            proof (cases "fdt_parse_struct fuel ok dtb (Some i) None tree1 pos1")
              case r: (Returned r2)
              obtain tree2 pos2 c where [simp]: "r2 = (tree2, pos2, c)" by (cases r2)
              have s2: "fdt_wf tree2 \<and> length (ft_nodes tree1) \<le> length (ft_nodes tree2) \<and> pos1 \<le> pos2"
                using s1 Some by (intro fdt_parse_struct_shape [OF _ _ _ r [simplified]]) (simp_all add: node_in_def)
              have "node_in tree2 parent" "node_in tree2 (Some i)"
                using Suc.prems(2) s1 s2 Some by (auto simp: node_in_def)
              moreover have "length dtb - pos2 < fuel" using lt s2 by linarith
              ultimately have "fdt_parse_struct fuel ok dtb parent (Some i) tree2 pos2 \<noteq> Diverges"
                using Suc.IH [of tree2 parent "Some i" pos2] s2 by simp
              then show ?thesis using pos tok opens Returned Some r by (cases c) simp_all
            qed (use pos tok opens Returned Some IH in simp_all)
          qed
        qed (use pos tok opens fdt_begin_not_diverges in simp_all)
      next
        case closes
        then show ?thesis using pos tok fdt_close_not_diverges [of tree ?cur]
          by (cases "fdt_close_node tree ?cur") (simp_all add: FDT_BEGIN_NODE_def FDT_END_NODE_def)
      next
        case property
        show ?thesis
        proof (cases "fdt_prop ok dtb tree (pos + 4) ?cur")
          case (Returned r)
          obtain tree1 pos1 c where [simp]: "r = (tree1, pos1, c)" by (cases r)
          note s1 = fdt_wf_prop [OF Suc.prems(1) cur Returned [simplified]]
          have "pos < pos1" using s1 by simp
          then have "length dtb - pos1 < fuel" using Suc.prems(4) pos by linarith
          then have "fdt_parse_struct fuel ok dtb parent node tree1 pos1 \<noteq> Diverges"
            using Suc.IH [of tree1 parent node pos1] s1 Suc.prems(2,3) by (simp add: node_in_def)
          then show ?thesis using pos tok property Returned
            by (cases c) (simp_all add: FDT_BEGIN_NODE_def FDT_END_NODE_def FDT_PROP_def)
        qed (use pos tok property fdt_prop_not_diverges [of ok dtb tree "pos + 4" ?cur] in
             \<open>simp_all add: FDT_BEGIN_NODE_def FDT_END_NODE_def FDT_PROP_def\<close>)
      next
        case nop
        have "fdt_parse_struct fuel ok dtb parent node tree (pos + 4) \<noteq> Diverges"
          using Suc.IH [of tree parent node "pos + 4"] Suc.prems pos by simp
        then show ?thesis using pos tok nop
          by (simp add: FDT_BEGIN_NODE_def FDT_END_NODE_def FDT_PROP_def FDT_NOP_def)
      next
        case other
        then show ?thesis using pos tok by (simp add: Let_def)
      qed
    qed
  qed
qed

lemma fdt_parse_mem_rsvmap_bound:
  "length entries \<le> FDT_MAX_RESERVE_ENTRIES \<Longrightarrow> fdt_parse_mem_rsvmap dtb totalsize offset entries \<noteq> Diverges \<and>
    (fdt_parse_mem_rsvmap dtb totalsize offset entries = Returned es \<longrightarrow> length es \<le> FDT_MAX_RESERVE_ENTRIES)"
proof (induction dtb totalsize offset entries rule: fdt_parse_mem_rsvmap.induct)
  case (1 dtb totalsize offset entries)
  show ?case
    using 1 by (subst (1 2) fdt_parse_mem_rsvmap.simps) (auto simp: Let_def)
qed

text \<open>Parsing returns on every blob, or leaves it; what it returns has the shape.\<close>

lemma fdt_parse_shape:
  assumes "fdt_wf tree"
  shows "fdt_parse ok tree dtb \<noteq> Diverges \<and> (fdt_parse ok tree dtb = Returned (tree', b) \<longrightarrow> fdt_wf tree')"
proof (cases dtb)
  case None
  then show ?thesis using assms by (auto simp: fdt_parse_def)
next
  case (Some d)
  let ?h = "fdt_header d"
  have e: "fdt_wf (empty_tree h)" for h by (simp add: empty_tree_def fdt_wf_def heap_ok_def)
  note m = fdt_parse_mem_rsvmap_bound [of "[]" d "unat (fh_totalsize ?h)" "unat (fh_off_mem_rsvmap ?h)"]
  show ?thesis
  proof (cases "length d < sizeof_FDTHeader \<or> fh_magic ?h \<noteq> FDT_MAGIC \<or> fh_version ?h < FDT_COMPAT_VERSION")
    case True
    then show ?thesis using Some assms e by (auto simp: fdt_parse_def Let_def)
  next
    case c: False
    show ?thesis
    proof (cases "fdt_parse_mem_rsvmap d (unat (fh_totalsize ?h)) (unat (fh_off_mem_rsvmap ?h)) []")
      case r: (Returned es)
      define t where "t = (empty_tree ?h)\<lparr>ft_strings_block := Some (unat (fh_off_dt_strings ?h)),
        ft_strings_size := unat (fh_size_dt_strings ?h), ft_reserve_entries := es\<rparr>"
      have t: "fdt_wf t" using e [of ?h] m r by (simp add: t_def fdt_wf_def)
      let ?s = "fdt_parse_struct (length d + 1) ok d None None t (unat (fh_off_dt_struct ?h))"
      have p: "fdt_parse ok tree dtb = (case ?s of Returned (t3, pos, ret) \<Rightarrow> Returned (t3, ret)
          | Undefined \<Rightarrow> Undefined | Diverges \<Rightarrow> Diverges)"
        using Some c r by (simp add: fdt_parse_def Let_def t_def)
      have nd: "?s \<noteq> Diverges" using t by (intro fdt_parse_struct_returns) (simp_all add: node_in_def)
      show ?thesis
      proof (cases ?s)
        case s: (Returned x)
        obtain t3 pos3 ret where x: "x = (t3, pos3, ret)" by (cases x)
        have "fdt_wf t3" using fdt_parse_struct_shape [OF t _ _ s [unfolded x]] by (simp add: node_in_def)
        moreover have "fdt_parse ok tree dtb = Returned (t3, ret)" unfolding p s x by simp
        ultimately show ?thesis by auto
      qed (use p nd in simp_all)
    next
      case Undefined
      then show ?thesis using Some c by (simp add: fdt_parse_def Let_def)
    next
      case Diverges
      then show ?thesis using m by simp
    qed
  qed
qed

end
