(* ===== verification/Fdt_Roundtrip.thy ===== *)
theory Fdt_Roundtrip
  imports Fdt_Shape
begin

text \<open>
  Device trees as a datatype, their encoding as a structure block, and the heap that parsing
  the encoding builds: nodes in preorder, and the phandles as the code caches them.
\<close>

section \<open>Trees and their encoding\<close>

text \<open>A property is the offset of its name among the strings, and a value.\<close>

datatype dtree = Dtree (dt_name: bytes) (dt_props: "(u32 \<times> bytes) list") (dt_kids: "dtree list")

definition cell_pad :: "bytes \<Rightarrow> bytes" where
  "cell_pad v = v @ zeros (cell_align (length v) - length v)"

definition enc_prop :: "u32 \<times> bytes \<Rightarrow> bytes" where
  "enc_prop p = be32_bytes FDT_PROP @ be32_bytes (of_nat (length (snd p))) @ be32_bytes (fst p) @ cell_pad (snd p)"

fun enc_tree :: "dtree \<Rightarrow> bytes" where
  "enc_tree (Dtree name props kids) =
     be32_bytes FDT_BEGIN_NODE @ cell_pad (name @ [0]) @ concat (map enc_prop props)
       @ concat (map enc_tree kids) @ be32_bytes FDT_END_NODE"

text \<open>What the tables of the code can hold; \<open>look\<close> gives the names of the properties.\<close>

fun dt_fits :: "(u32 \<Rightarrow> bytes option) \<Rightarrow> dtree \<Rightarrow> bool" where
  "dt_fits look (Dtree name props kids) \<longleftrightarrow>
     0 \<notin> set name \<and> length name < FDT_MAX_NAME_LEN \<and> length props \<le> FDT_MAX_PROPS \<and> length kids \<le> FDT_MAX_CHILDREN \<and>
     (\<forall>(off, v) \<in> set props. length v < 2 ^ 31 \<and> (case look off of None \<Rightarrow> False | Some s \<Rightarrow> length s < FDT_MAX_NAME_LEN)) \<and>
     (\<forall>k \<in> set kids. dt_fits look k)"

fun dt_size :: "dtree \<Rightarrow> nat" where
  "dt_size (Dtree name props kids) = Suc (sum_list (map dt_size kids))"

section \<open>The heap of a tree\<close>

definition mk_prop :: "(u32 \<Rightarrow> bytes option) \<Rightarrow> u32 \<times> bytes \<Rightarrow> FDTProperty" where
  "mk_prop look p = \<lparr>pr_name = the (look (fst p)), pr_value = Some (snd p @ [0]), pr_value_len = length (snd p)\<rparr>"

text \<open>The indices of siblings when the first is \<open>b\<close>.\<close>

fun kid_index :: "nat \<Rightarrow> dtree list \<Rightarrow> nat list" where
  "kid_index b [] = []"
| "kid_index b (k # ks) = b # kid_index (b + dt_size k) ks"

definition prop_phandle :: "FDTProperty list \<Rightarrow> u32 option" where
  "prop_phandle props = map_option (\<lambda>p. fdt_read_u32 (the (pr_value p))) (find is_phandle_prop props)"

definition closed_node :: "FDTNode \<Rightarrow> FDTNode" where
  "closed_node nd = (case prop_phandle (nd_properties nd) of None \<Rightarrow> nd | Some ph \<Rightarrow> nd\<lparr>nd_phandle := ph\<rparr>)"

definition phandle_entry :: "nat \<Rightarrow> FDTNode \<Rightarrow> FDTPhandleEntry list" where
  "phandle_entry i nd =
     (case prop_phandle (nd_properties nd) of None \<Rightarrow> [] | Some ph \<Rightarrow> [\<lparr>ph_phandle = ph, ph_node = i\<rparr>])"

text \<open>
  A tree from index \<open>b\<close> on.  The node that is closed at its end is the node itself only when it
  has no children, the last child otherwise.
\<close>

definition closes :: "nat \<Rightarrow> dtree list \<Rightarrow> nat" where
  "closes b kids = (if kids = [] then b else last (kid_index (b + 1) kids))"

definition dt_node :: "(u32 \<Rightarrow> bytes option) \<Rightarrow> nat \<Rightarrow> nat option \<Rightarrow> dtree \<Rightarrow> FDTNode" where
  "dt_node look b par t =
     \<lparr>nd_name = dt_name t, nd_properties = map (mk_prop look) (dt_props t), nd_children = kid_index (b + 1) (dt_kids t),
      nd_parent = par, nd_phandle = 0\<rparr>"

definition close_at :: "nat \<Rightarrow> FDTNode list \<Rightarrow> FDTNode list" where
  "close_at i nodes = nodes[i := closed_node (nodes ! i)]"

fun dt_heap :: "(u32 \<Rightarrow> bytes option) \<Rightarrow> nat \<Rightarrow> nat option \<Rightarrow> dtree \<Rightarrow> FDTNode list"
  and dt_heaps :: "(u32 \<Rightarrow> bytes option) \<Rightarrow> nat \<Rightarrow> nat \<Rightarrow> dtree list \<Rightarrow> FDTNode list" where
  "dt_heap look b par (Dtree name props kids) =
     close_at (closes b kids - b) (dt_node look b par (Dtree name props kids) # dt_heaps look (b + 1) b kids)"
| "dt_heaps look b p [] = []"
| "dt_heaps look b p (k # ks) = dt_heap look b (Some p) k @ dt_heaps look (b + dt_size k) p ks"

fun dt_phandles :: "(u32 \<Rightarrow> bytes option) \<Rightarrow> nat \<Rightarrow> dtree \<Rightarrow> FDTPhandleEntry list"
  and dt_phandless :: "(u32 \<Rightarrow> bytes option) \<Rightarrow> nat \<Rightarrow> dtree list \<Rightarrow> FDTPhandleEntry list" where
  "dt_phandles look b (Dtree name props kids) =
     dt_phandless look (b + 1) kids
       @ phandle_entry (closes b kids) (dt_node look 0 None (if kids = [] then Dtree name props kids else last kids))"
| "dt_phandless look b [] = []"
| "dt_phandless look b (k # ks) = dt_phandles look b k @ dt_phandless look (b + dt_size k) ks"

lemma dt_size_pos [simp]: "0 < dt_size t"
  by (cases t) simp

lemma length_close_at [simp]: "length (close_at i nodes) = length nodes"
  by (simp add: close_at_def)

lemma dt_heap_length [simp]:
  "length (dt_heap look b par t) = dt_size t"
  "length (dt_heaps look b p ks) = sum_list (map dt_size ks)"
  by (induction look b par t and look b p ks rule: dt_heap_dt_heaps.induct) simp_all

section \<open>Reading the encoding\<close>

lemma fdt_u32_at: "drop pos dtb = be32_bytes w @ r \<Longrightarrow> fdt_u32 dtb pos = Some w \<and> drop (pos + 4) dtb = r"
proof -
  assume d: "drop pos dtb = be32_bytes w @ r"
  then have "length dtb - pos = 4 + length r" by (metis length_append length_be32_bytes length_drop)
  moreover have "drop (pos + 4) dtb = drop 4 (drop pos dtb)" by (simp add: add.commute)
  ultimately show ?thesis using d by (simp add: fdt_u32_def fdt_read_u32_def be32_bytes_def)
qed

lemma cstring_at_at:
  assumes "drop pos dtb = name @ 0 # r" and "0 \<notin> set name"
  shows "cstring_at dtb pos = Some name"
proof -
  have "length dtb - pos = length name + 1 + length r" using arg_cong [OF assms(1), of length] by simp
  moreover have "takeWhile (\<lambda>b. b \<noteq> 0) (name @ 0 # r) = name"
    using assms(2) by (simp add: takeWhile_append)
  ultimately show ?thesis using assms(1) by (simp add: cstring_at_def)
qed

lemma cell_align_ge: "n \<le> cell_align n"
  unfolding cell_align_def by presburger

lemma length_cell_pad [simp]: "length (cell_pad v) = cell_align (length v)"
  using cell_align_ge [of "length v"] by (simp add: cell_pad_def)

lemma padded_length:
  assumes "n < 2 ^ 31"
  shows "unat ((of_nat n + 3 :: u32) AND NOT 3) = cell_align n"
proof -
  have m: "(3 :: u32) = mask 2" by (simp add: mask_eq_exp_minus_1)
  have w: "(w AND NOT 3) = push_bit 2 (drop_bit 2 w)" for w :: u32
  proof (rule bit_word_eqI)
    fix i
    have "Suc (Suc (i - 2)) = i" if "\<not> i < 2" using that by simp
    then show "bit (w AND NOT 3) i \<longleftrightarrow> bit (push_bit 2 (drop_bit 2 w)) i" if "i < LENGTH(32)"
      unfolding m using that by (cases "i < 2") (auto simp: bit_simps)
  qed
  define x where "x = drop_bit 2 (of_nat n + 3 :: u32)"
  have "unat (of_nat n + 3 :: u32) = n + 3" using assms by (simp add: unat_word_ariths unat_of_nat)
  then have ux: "unat x = (n + 3) div 4" by (simp add: x_def drop_bit_eq_div unat_div)
  then have "unat (x * 4) = (n + 3) div 4 * 4" using assms by (subst u32_mult) simp_all
  then show ?thesis unfolding w cell_align_def by (simp add: push_bit_eq_mult flip: x_def)
qed

definition fdt_strings :: "bytes \<Rightarrow> nat \<Rightarrow> nat \<Rightarrow> u32 \<Rightarrow> bytes option" where
  "fdt_strings dtb base sz off = (if unat off \<ge> sz then Some [] else cstring_at dtb (base + unat off))"

lemma fdt_string_eq:
  "ft_strings_block tree = Some base \<Longrightarrow> fdt_string dtb tree off = fdt_strings dtb base (ft_strings_size tree) off"
  by (simp add: fdt_string_def fdt_strings_def)

lemma drop_prefix: "drop pos dtb = xs @ r \<Longrightarrow> drop (pos + length xs) dtb = r"
  by (metis add.commute append_eq_conv_conj drop_drop)

lemma length_enc_prop [simp]: "length (enc_prop p) = 12 + cell_align (length (snd p))"
  by (simp add: enc_prop_def)

lemma parse_prop_at:
  assumes d: "drop pos dtb = enc_prop p @ r" and ok: "\<forall>k. ok k" and len: "length (snd p) < 2 ^ 31"
    and str: "ft_strings_block tree = Some base" "look = fdt_strings dtb base (ft_strings_size tree)"
    and nm: "look (fst p) = Some s" "length s < FDT_MAX_NAME_LEN"
    and room: "length (nd_properties (ft_nodes tree ! n)) < FDT_MAX_PROPS"
  shows "fdt_u32 dtb pos = Some FDT_PROP"
    and "fdt_prop ok dtb tree (pos + 4) (Some n)
      = Returned (upd_node n (\<lambda>nd. nd\<lparr>nd_properties := nd_properties nd @ [mk_prop look p]\<rparr>) (tree\<lparr>ft_allocs := ft_allocs tree + 1\<rparr>),
          pos + length (enc_prop p), True)"
proof -
  define v where "v = snd p"
  note d' = d [unfolded enc_prop_def append_assoc, folded v_def]
  note d0 = fdt_u32_at [OF d']
  note d1 = fdt_u32_at [OF conjunct2 [OF d0]]
  note d2 = fdt_u32_at [OF conjunct2 [OF d1]]
  show "fdt_u32 dtb pos = Some FDT_PROP" using d0 by simp
  have p8: "pos + 4 + 4 = pos + 8" "pos + 8 + 4 = pos + 12" by simp_all
  have d3: "drop (pos + 12) dtb = cell_pad v @ r" using d2 by (simp add: p8)
  have pos_le: "pos + 12 \<le> length dtb"
    using arg_cong [OF d', of length] by simp
  have "length dtb - (pos + 12) = cell_align (length v) + length r" using arg_cong [OF d3, of length] by simp
  then have inside: "pos + 12 + length v \<le> length dtb" using cell_align_ge [of "length v"] pos_le by linarith
  have fits: "unat (of_nat (length v) :: u32) = length v" using len by (simp add: unat_of_nat v_def)
  have "unat (of_nat (length v) + 1 :: u32) = length v + 1" using len by (simp add: unat_word_ariths unat_of_nat v_def)
  then have nz: "(of_nat (length v) + 1 :: u32) \<noteq> 0" by (metis unat_0 add_is_0 one_neq_zero)
  have val: "sub_range dtb (pos + 12) (length v) = v"
    "sub_range dtb (12 + pos) (length v) = v"
    using d3 by (simp_all add: sub_range_def cell_pad_def add.commute)
  have pl: "unat ((of_nat (length v) + 3 :: u32) AND NOT 3) = cell_align (length v)"
    using padded_length len by (simp add: v_def)
  have st: "fdt_string dtb tree (fst p) = Some s" using fdt_string_eq [OF str(1)] str(2) nm(1) by simp
  have tk: "take (FDT_MAX_NAME_LEN - 1) s = s" using nm(2) by simp
  have mk: "mk_prop look p = \<lparr>pr_name = s, pr_value = Some (v @ [0]), pr_value_len = length v\<rparr>"
    using nm(1) by (simp add: mk_prop_def v_def)
  have l: "fdt_u32 dtb (pos + 4) = Some (of_nat (length v))" "fdt_u32 dtb (pos + 8) = Some (fst p)"
    using d1 d2 by (simp_all add: p8)
  show "fdt_prop ok dtb tree (pos + 4) (Some n)
      = Returned (upd_node n (\<lambda>nd. nd\<lparr>nd_properties := nd_properties nd @ [mk_prop look p]\<rparr>) (tree\<lparr>ft_allocs := ft_allocs tree + 1\<rparr>),
          pos + length (enc_prop p), True)"
    using inside tk by (simp add: fdt_prop_def p8 l mk room st ok nz fits pl [simplified] val Let_def flip: v_def)
qed

section \<open>Parsing the encoding\<close>

text \<open>The state of the parser: everything but the nodes, the map and the counter stays.\<close>

definition fdt_state :: "FDTTree \<Rightarrow> FDTNode list \<Rightarrow> FDTPhandleEntry list \<Rightarrow> nat \<Rightarrow> FDTTree" where
  "fdt_state tree nodes phs a = tree\<lparr>ft_nodes := nodes, ft_phandle_map := phs, ft_allocs := a\<rparr>"

lemma fdt_state_simps [simp]:
  "ft_nodes (fdt_state tree nodes phs a) = nodes" "ft_phandle_map (fdt_state tree nodes phs a) = phs"
  "ft_allocs (fdt_state tree nodes phs a) = a" "ft_strings_block (fdt_state tree nodes phs a) = ft_strings_block tree"
  "ft_strings_size (fdt_state tree nodes phs a) = ft_strings_size tree"
  "(fdt_state tree nodes phs a)\<lparr>ft_allocs := b\<rparr> = fdt_state tree nodes phs b"
  "(fdt_state tree nodes phs a)\<lparr>ft_nodes := ns\<rparr> = fdt_state tree ns phs a"
  "(fdt_state tree nodes phs a)\<lparr>ft_phandle_map := ps\<rparr> = fdt_state tree nodes ps a"
  "upd_node i f (fdt_state tree nodes phs a) = fdt_state tree (nodes[i := f (nodes ! i)]) phs a"
  by (simp_all add: fdt_state_def upd_node_def)

lemma fdt_tokens [simp]:
  "FDT_PROP \<noteq> FDT_BEGIN_NODE" "FDT_PROP \<noteq> FDT_END_NODE" "FDT_END_NODE \<noteq> FDT_BEGIN_NODE"
  "FDT_END \<noteq> FDT_BEGIN_NODE" "FDT_END \<noteq> FDT_END_NODE" "FDT_END \<noteq> FDT_PROP" "FDT_END \<noteq> FDT_NOP"
  by (simp_all add: FDT_BEGIN_NODE_def FDT_END_NODE_def FDT_PROP_def FDT_NOP_def FDT_END_def)

lemma drop_longer: "drop pos dtb = xs @ r \<Longrightarrow> xs \<noteq> [] \<Longrightarrow> pos + length xs \<le> length dtb"
proof -
  assume "drop pos dtb = xs @ r" and "xs \<noteq> []"
  then have "length dtb - pos = length xs + length r" "0 < length xs"
    by (metis length_append length_drop, simp)
  then show ?thesis by linarith
qed

lemma parse_props_at:
  assumes ok: "\<forall>k. ok k" and str: "ft_strings_block tree = Some base" "look = fdt_strings dtb base (ft_strings_size tree)"
  shows "drop pos dtb = concat (map enc_prop ps) @ r \<Longrightarrow>
    \<forall>(off, v) \<in> set ps. length v < 2 ^ 31 \<and> (\<exists>s. look off = Some s \<and> length s < FDT_MAX_NAME_LEN) \<Longrightarrow>
    n < length nodes \<Longrightarrow> length (nd_properties (nodes ! n)) + length ps \<le> FDT_MAX_PROPS \<Longrightarrow> length dtb - pos < fuel \<Longrightarrow>
    \<exists>fuel' a'. length dtb - (pos + length (concat (map enc_prop ps))) < fuel' \<and>
      fdt_parse_struct fuel ok dtb (Some n) None (fdt_state tree nodes phs a) pos
        = fdt_parse_struct fuel' ok dtb (Some n) None
            (fdt_state tree (nodes[n := (nodes ! n)\<lparr>nd_properties := nd_properties (nodes ! n) @ map (mk_prop look) ps\<rparr>]) phs a')
            (pos + length (concat (map enc_prop ps)))"
proof (induction ps arbitrary: pos nodes fuel a)
  case Nil
  then show ?case by (intro exI [of _ fuel] exI [of _ a]) simp
next
  case (Cons p ps)
  obtain fl where fl: "fuel = Suc fl" using Cons.prems(5) by (cases fuel) auto
  let ?nd = "(nodes ! n)\<lparr>nd_properties := nd_properties (nodes ! n) @ [mk_prop look p]\<rparr>"
  have d: "drop pos dtb = enc_prop p @ (concat (map enc_prop ps) @ r)" using Cons.prems(1) by simp
  obtain s where s: "look (fst p) = Some s" "length s < FDT_MAX_NAME_LEN" and lv: "length (snd p) < 2 ^ 31"
    using Cons.prems(2) by (cases p) auto
  let ?st = "fdt_state tree nodes phs a"
  have st: "ft_strings_block ?st = Some base" "look = fdt_strings dtb base (ft_strings_size ?st)"
    using str by simp_all
  have room: "length (nd_properties (ft_nodes ?st ! n)) < FDT_MAX_PROPS" using Cons.prems(4) by simp
  note p = parse_prop_at [OF d ok lv st s room]
  have pos1: "pos + length (enc_prop p) \<le> length dtb" using drop_longer [OF d] by (simp add: enc_prop_def be32_bytes_def)
  then have pos0: "pos < length dtb" by simp
  have eq: "fdt_parse_struct fuel ok dtb (Some n) None ?st pos
      = fdt_parse_struct fl ok dtb (Some n) None (fdt_state tree (nodes[n := ?nd]) phs (a + 1)) (pos + length (enc_prop p))"
    using fl pos0 p by (simp del: length_enc_prop)
  have "length dtb - (pos + length (enc_prop p)) < fl"
    using Cons.prems(5) fl pos1 by (simp del: length_enc_prop) (simp; linarith)
  then have "\<exists>fuel' a'. length dtb - (pos + length (enc_prop p) + length (concat (map enc_prop ps))) < fuel' \<and>
      fdt_parse_struct fl ok dtb (Some n) None (fdt_state tree (nodes[n := ?nd]) phs (a + 1)) (pos + length (enc_prop p))
        = fdt_parse_struct fuel' ok dtb (Some n) None
            (fdt_state tree (nodes[n := ?nd, n := (nodes[n := ?nd] ! n)\<lparr>nd_properties := nd_properties (nodes[n := ?nd] ! n) @ map (mk_prop look) ps\<rparr>]) phs a')
            (pos + length (enc_prop p) + length (concat (map enc_prop ps)))"
    using Cons.prems by (intro Cons.IH drop_prefix [OF d]) auto
  then show ?case unfolding eq using Cons.prems(3) by (simp add: add.assoc)
qed

lemma fdt_begin_at:
  assumes d: "drop pos dtb = be32_bytes FDT_BEGIN_NODE @ cell_pad (name @ [0]) @ r" and ok: "\<forall>k. ok k"
    and nm: "0 \<notin> set name" "length name < FDT_MAX_NAME_LEN"
  shows "fdt_u32 dtb pos = Some FDT_BEGIN_NODE"
    and "drop (pos + 4 + cell_align (length name + 1)) dtb = r" and "pos + 4 + cell_align (length name + 1) \<le> length dtb"
    and "fdt_begin_node ok dtb (fdt_state tree nodes phs a) (pos + 4) None
      = Returned (fdt_state (tree\<lparr>ft_root := Some (length nodes)\<rparr>) (nodes @ [empty_node name]) phs (a + 1),
          pos + 4 + cell_align (length name + 1), Some (length nodes))"
    and "p < length nodes \<Longrightarrow> length (nd_children (nodes ! p)) < FDT_MAX_CHILDREN \<Longrightarrow>
      fdt_begin_node ok dtb (fdt_state tree nodes phs a) (pos + 4) (Some p)
      = Returned (fdt_state tree (nodes[p := (nodes ! p)\<lparr>nd_children := nd_children (nodes ! p) @ [length nodes]\<rparr>]
            @ [(empty_node name)\<lparr>nd_parent := Some p\<rparr>]) phs (a + 1),
          pos + 4 + cell_align (length name + 1), Some (length nodes))"
proof -
  note d0 = fdt_u32_at [OF d]
  show "fdt_u32 dtb pos = Some FDT_BEGIN_NODE" using d0 by simp
  have d1: "drop (pos + 4) dtb = cell_pad (name @ [0]) @ r" using d0 by simp
  show "drop (pos + 4 + cell_align (length name + 1)) dtb = r" using drop_prefix [OF d1] by simp
  show "pos + 4 + cell_align (length name + 1) \<le> length dtb"
    using drop_longer [OF d1] by (simp add: cell_pad_def)
  have c: "cstring_at dtb (pos + 4) = Some name"
    using d1 nm(1) by (intro cstring_at_at) (simp add: cell_pad_def, simp)
  have tk: "take (FDT_MAX_NAME_LEN - 1) name = name" using nm(2) by simp
  have al: "fdt_alloc_node ok (fdt_state tree nodes phs a) name
      = (fdt_state tree (nodes @ [empty_node name]) phs (a + 1), Some (length nodes))"
    using ok by (simp add: fdt_alloc_node_def)
  show "fdt_begin_node ok dtb (fdt_state tree nodes phs a) (pos + 4) None
      = Returned (fdt_state (tree\<lparr>ft_root := Some (length nodes)\<rparr>) (nodes @ [empty_node name]) phs (a + 1),
          pos + 4 + cell_align (length name + 1), Some (length nodes))"
    by (simp add: fdt_begin_node_def c al) (simp add: fdt_state_def empty_node_def)
  show "fdt_begin_node ok dtb (fdt_state tree nodes phs a) (pos + 4) (Some p)
      = Returned (fdt_state tree (nodes[p := (nodes ! p)\<lparr>nd_children := nd_children (nodes ! p) @ [length nodes]\<rparr>]
            @ [(empty_node name)\<lparr>nd_parent := Some p\<rparr>]) phs (a + 1),
          pos + 4 + cell_align (length name + 1), Some (length nodes))"
    if "p < length nodes" "length (nd_children (nodes ! p)) < FDT_MAX_CHILDREN"
    using that by (simp add: fdt_begin_node_def c al add_child_def nth_append list_update_append)
qed

lemma fdt_close_at:
  assumes "\<forall>p \<in> set (nd_properties (nodes ! c)). pr_value p \<noteq> None"
    and "length phs + length (phandle_entry c (nodes ! c)) \<le> FDT_MAX_PHANDLE_MAP"
  shows "fdt_close_node (fdt_state tree nodes phs a) (Some c)
    = Returned (fdt_state tree (close_at c nodes) (phs @ phandle_entry c (nodes ! c)) a)"
proof (cases "find is_phandle_prop (nd_properties (nodes ! c))")
  case None
  then show ?thesis
    by (simp add: fdt_close_node_def close_at_def closed_node_def phandle_entry_def prop_phandle_def)
next
  case (Some p)
  then have "p \<in> set (nd_properties (nodes ! c))" by (metis find_Some_iff nth_mem)
  then obtain v where "pr_value p = Some v" using assms(1) by auto
  then show ?thesis using Some assms(2)
    by (simp add: fdt_close_node_def close_at_def closed_node_def phandle_entry_def prop_phandle_def Let_def)
qed

lemma closed_node_simps [simp]:
  "nd_properties (closed_node nd) = nd_properties nd" "nd_children (closed_node nd) = nd_children nd"
  "nd_parent (closed_node nd) = nd_parent nd" "nd_name (closed_node nd) = nd_name nd"
  by (simp_all add: closed_node_def split: option.splits)

lemma close_at_simps [simp]:
  "nd_properties (close_at i ns ! j) = nd_properties (ns ! j)" "nd_children (close_at i ns ! j) = nd_children (ns ! j)"
  "nd_parent (close_at i ns ! j) = nd_parent (ns ! j)" "nd_name (close_at i ns ! j) = nd_name (ns ! j)"
  by (cases "i < length ns"; cases "i = j"; simp add: close_at_def list_update_beyond)+

lemma dt_heap_head:
  "nd_name (dt_heap look b par t ! 0) = dt_name t" "nd_properties (dt_heap look b par t ! 0) = map (mk_prop look) (dt_props t)"
  "nd_children (dt_heap look b par t ! 0) = kid_index (b + 1) (dt_kids t)" "nd_parent (dt_heap look b par t ! 0) = par"
  by (cases t; simp add: dt_node_def)+

lemma kid_index_ge: "i \<in> set (kid_index b ks) \<Longrightarrow> b \<le> i \<and> i < b + sum_list (map dt_size ks)"
  by (induction ks arbitrary: b) (auto, fastforce+)

lemma dt_heaps_last:
  "ks \<noteq> [] \<Longrightarrow> b \<le> last (kid_index b ks) \<and> last (kid_index b ks) - b < length (dt_heaps look b p ks) \<and>
    nd_properties (dt_heaps look b p ks ! (last (kid_index b ks) - b)) = map (mk_prop look) (dt_props (last ks))"
proof (induction ks arbitrary: b)
  case (Cons k ks)
  show ?case
  proof (cases ks)
    case Nil
    then show ?thesis using dt_size_pos [of k] by (simp add: nth_append dt_heap_head del: dt_size_pos)
  next
    case (Cons k' ks')
    then have ne: "ks \<noteq> []" and ki: "kid_index (b + dt_size k) ks \<noteq> []" by simp_all
    have l: "last (kid_index b (k # ks)) = last (kid_index (b + dt_size k) ks)" using ki by simp
    show ?thesis using Cons.IH [OF ne, of "b + dt_size k"] ne unfolding l by (auto simp: nth_append)
  qed
qed simp

text \<open>The body of a node, up to and including its end.\<close>

definition body_parses :: "(nat \<Rightarrow> bool) \<Rightarrow> bytes \<Rightarrow> FDTTree \<Rightarrow> (u32 \<Rightarrow> bytes option) \<Rightarrow> dtree \<Rightarrow> bool" where
  "body_parses ok dtb tree look t \<longleftrightarrow>
     (\<forall>nodes par phs a pos r fuel.
        let body = concat (map enc_prop (dt_props t)) @ concat (map enc_tree (dt_kids t)) @ be32_bytes FDT_END_NODE in
        drop pos dtb = body @ r \<and> length dtb - pos < fuel \<and>
        length phs + length (dt_phandles look (length nodes) t) \<le> FDT_MAX_PHANDLE_MAP \<longrightarrow>
        (\<exists>a'. fdt_parse_struct fuel ok dtb (Some (length nodes)) None
            (fdt_state tree (nodes @ [(empty_node (dt_name t))\<lparr>nd_parent := par\<rparr>]) phs a) pos
          = Returned (fdt_state tree (nodes @ dt_heap look (length nodes) par t) (phs @ dt_phandles look (length nodes) t) a',
              pos + length body, True)))"

lemma enc_tree_parts:
  "enc_tree t = be32_bytes FDT_BEGIN_NODE @ cell_pad (dt_name t @ [0])
     @ (concat (map enc_prop (dt_props t)) @ concat (map enc_tree (dt_kids t)) @ be32_bytes FDT_END_NODE)"
  by (cases t) simp

lemma dt_fits_parts:
  "dt_fits look t \<Longrightarrow> 0 \<notin> set (dt_name t) \<and> length (dt_name t) < FDT_MAX_NAME_LEN \<and> length (dt_props t) \<le> FDT_MAX_PROPS
     \<and> length (dt_kids t) \<le> FDT_MAX_CHILDREN
     \<and> (\<forall>(off, v) \<in> set (dt_props t). length v < 2 ^ 31 \<and> (\<exists>s. look off = Some s \<and> length s < FDT_MAX_NAME_LEN))
     \<and> (\<forall>k \<in> set (dt_kids t). dt_fits look k)"
  by (cases t) (auto split: option.splits)

lemma parse_begin_step:
  assumes "pos < length dtb" and "fdt_u32 dtb pos = Some FDT_BEGIN_NODE"
    and "fdt_begin_node ok dtb tree (pos + 4) parent = Returned (t1, p1, Some n)"
    and "fdt_parse_struct fuel ok dtb (Some n) None t1 p1 = Returned (t2, p2, True)"
  shows "fdt_parse_struct (Suc fuel) ok dtb parent node tree pos = fdt_parse_struct fuel ok dtb parent (Some n) t2 p2"
  using assms by simp

text \<open>One child: its tokens are read and the loop of the parent goes on behind it.\<close>

lemma parse_kid_at:
  assumes ok: "\<forall>k. ok k" and b: "body_parses ok dtb tree look t" and fits: "dt_fits look t"
    and d: "drop pos dtb = enc_tree t @ r" and fuel: "length dtb - pos < fuel" and p: "p < length nodes"
    and room: "length (nd_children (nodes ! p)) < FDT_MAX_CHILDREN"
    and phs: "length phs + length (dt_phandles look (length nodes) t) \<le> FDT_MAX_PHANDLE_MAP"
  shows "\<exists>fl a'. length dtb - (pos + length (enc_tree t)) < fl \<and>
    fdt_parse_struct fuel ok dtb (Some p) node (fdt_state tree nodes phs a) pos
      = fdt_parse_struct fl ok dtb (Some p) (Some (length nodes))
          (fdt_state tree (nodes[p := (nodes ! p)\<lparr>nd_children := nd_children (nodes ! p) @ [length nodes]\<rparr>]
             @ dt_heap look (length nodes) (Some p) t) (phs @ dt_phandles look (length nodes) t) a') (pos + length (enc_tree t))"
proof -
  define body where "body = concat (map enc_prop (dt_props t)) @ concat (map enc_tree (dt_kids t)) @ be32_bytes FDT_END_NODE"
  obtain fl where fl: "fuel = Suc fl" using fuel by (cases fuel) auto
  have d': "drop pos dtb = be32_bytes FDT_BEGIN_NODE @ cell_pad (dt_name t @ [0]) @ body @ r"
    using d by (simp add: enc_tree_parts body_def)
  note f = dt_fits_parts [OF fits]
  note g = fdt_begin_at [OF d' ok conjunct1 [OF f] conjunct1 [OF conjunct2 [OF f]]]
  let ?pos = "pos + 4 + cell_align (length (dt_name t) + 1)"
  let ?nodes = "nodes[p := (nodes ! p)\<lparr>nd_children := nd_children (nodes ! p) @ [length nodes]\<rparr>]"
  have pos0: "pos < length dtb" using g(3) by simp
  have le: "length (enc_tree t) = 4 + cell_align (length (dt_name t) + 1) + length body"
    by (simp add: enc_tree_parts body_def)
  have f1: "length dtb - ?pos < fl" using fuel fl pos0 by linarith
  obtain a' where r: "fdt_parse_struct fl ok dtb (Some (length nodes)) None
      (fdt_state tree (?nodes @ [(empty_node (dt_name t))\<lparr>nd_parent := Some p\<rparr>]) phs (a + 1)) ?pos
    = Returned (fdt_state tree (?nodes @ dt_heap look (length nodes) (Some p) t) (phs @ dt_phandles look (length nodes) t) a',
        ?pos + length body, True)"
    using b [unfolded body_parses_def Let_def, rule_format, of ?pos r fl phs ?nodes "Some p" "a + 1"] g(2) f1 phs
    by (auto simp: body_def)
  have pe: "?pos + length body = pos + length (enc_tree t)" using le by simp
  have "fdt_parse_struct fuel ok dtb (Some p) node (fdt_state tree nodes phs a) pos
    = fdt_parse_struct fl ok dtb (Some p) (Some (length nodes))
        (fdt_state tree (?nodes @ dt_heap look (length nodes) (Some p) t) (phs @ dt_phandles look (length nodes) t) a')
        (pos + length (enc_tree t))"
    unfolding fl by (rule parse_begin_step [OF pos0 g(1) g(5) [OF p room] r [unfolded pe]])
  moreover have "length dtb - (pos + length (enc_tree t)) < fl" using f1 le by linarith
  ultimately show ?thesis by blast
qed

lemma parse_kids_at:
  assumes ok: "\<forall>k. ok k"
  shows "\<forall>k \<in> set ks. body_parses ok dtb tree look k \<and> dt_fits look k \<Longrightarrow>
    drop pos dtb = concat (map enc_tree ks) @ r \<Longrightarrow> length dtb - pos < fuel \<Longrightarrow> p < length nodes \<Longrightarrow>
    length (nd_children (nodes ! p)) + length ks \<le> FDT_MAX_CHILDREN \<Longrightarrow>
    length phs + length (dt_phandless look (length nodes) ks) \<le> FDT_MAX_PHANDLE_MAP \<Longrightarrow>
    \<exists>fl a'. length dtb - (pos + length (concat (map enc_tree ks))) < fl \<and>
      fdt_parse_struct fuel ok dtb (Some p) node (fdt_state tree nodes phs a) pos
        = fdt_parse_struct fl ok dtb (Some p) (if ks = [] then node else Some (last (kid_index (length nodes) ks)))
            (fdt_state tree (nodes[p := (nodes ! p)\<lparr>nd_children := nd_children (nodes ! p) @ kid_index (length nodes) ks\<rparr>]
               @ dt_heaps look (length nodes) p ks) (phs @ dt_phandless look (length nodes) ks) a')
            (pos + length (concat (map enc_tree ks)))"
proof (induction ks arbitrary: pos fuel nodes phs node a)
  case Nil
  then show ?case by (intro exI [of _ fuel] exI [of _ a]) simp
next
  case (Cons k ks)
  have d: "drop pos dtb = enc_tree k @ (concat (map enc_tree ks) @ r)" using Cons.prems(2) by simp
  have k: "body_parses ok dtb tree look k" "dt_fits look k" using Cons.prems(1) by simp_all
  let ?nodes = "nodes[p := (nodes ! p)\<lparr>nd_children := nd_children (nodes ! p) @ [length nodes]\<rparr>]
    @ dt_heap look (length nodes) (Some p) k"
  let ?phs = "phs @ dt_phandles look (length nodes) k"
  have len: "length ?nodes = length nodes + dt_size k" by simp
  obtain fl a1 where r: "length dtb - (pos + length (enc_tree k)) < fl"
    "fdt_parse_struct fuel ok dtb (Some p) node (fdt_state tree nodes phs a) pos
      = fdt_parse_struct fl ok dtb (Some p) (Some (length nodes)) (fdt_state tree ?nodes ?phs a1) (pos + length (enc_tree k))"
    using parse_kid_at [OF ok k d Cons.prems(3,4), of phs node a] Cons.prems(5,6) by auto
  have nth: "?nodes ! p = (nodes ! p)\<lparr>nd_children := nd_children (nodes ! p) @ [length nodes]\<rparr>"
    using Cons.prems(4) by (simp add: nth_append)
  have "\<exists>fl2 a2. length dtb - (pos + length (enc_tree k) + length (concat (map enc_tree ks))) < fl2 \<and>
      fdt_parse_struct fl ok dtb (Some p) (Some (length nodes)) (fdt_state tree ?nodes ?phs a1) (pos + length (enc_tree k))
        = fdt_parse_struct fl2 ok dtb (Some p) (if ks = [] then Some (length nodes) else Some (last (kid_index (length ?nodes) ks)))
            (fdt_state tree (?nodes[p := (?nodes ! p)\<lparr>nd_children := nd_children (?nodes ! p) @ kid_index (length ?nodes) ks\<rparr>]
               @ dt_heaps look (length ?nodes) p ks) (?phs @ dt_phandless look (length ?nodes) ks) a2)
            (pos + length (enc_tree k) + length (concat (map enc_tree ks)))"
  proof (rule Cons.IH)
    show "drop (pos + length (enc_tree k)) dtb = concat (map enc_tree ks) @ r" using drop_prefix [OF d] .
    show "length (nd_children (?nodes ! p)) + length ks \<le> FDT_MAX_CHILDREN" unfolding nth using Cons.prems(5) by simp
    show "length ?phs + length (dt_phandless look (length ?nodes) ks) \<le> FDT_MAX_PHANDLE_MAP"
      unfolding len using Cons.prems(6) by simp
  qed (use Cons.prems r in auto)
  then obtain fl2 a2 where r2: "length dtb - (pos + length (enc_tree k) + length (concat (map enc_tree ks))) < fl2"
      "fdt_parse_struct fl ok dtb (Some p) (Some (length nodes)) (fdt_state tree ?nodes ?phs a1) (pos + length (enc_tree k))
        = fdt_parse_struct fl2 ok dtb (Some p) (if ks = [] then Some (length nodes) else Some (last (kid_index (length ?nodes) ks)))
            (fdt_state tree (?nodes[p := (?nodes ! p)\<lparr>nd_children := nd_children (?nodes ! p) @ kid_index (length ?nodes) ks\<rparr>]
               @ dt_heaps look (length ?nodes) p ks) (?phs @ dt_phandless look (length ?nodes) ks) a2)
            (pos + length (enc_tree k) + length (concat (map enc_tree ks)))" by blast
  have "?nodes[p := (?nodes ! p)\<lparr>nd_children := nd_children (?nodes ! p) @ kid_index (length ?nodes) ks\<rparr>]
      = nodes[p := (nodes ! p)\<lparr>nd_children := nd_children (nodes ! p) @ kid_index (length nodes) (k # ks)\<rparr>]
        @ dt_heap look (length nodes) (Some p) k"
    unfolding nth len using Cons.prems(4) by (simp add: list_update_append)
  moreover have "(if ks = [] then Some (length nodes) else Some (last (kid_index (length ?nodes) ks)))
      = (if k # ks = [] then node else Some (last (kid_index (length nodes) (k # ks))))"
    unfolding len by (cases ks) simp_all
  ultimately show ?case using r2 unfolding r(2) len by (intro exI [of _ fl2] exI [of _ a2]) (simp add: add.assoc)
qed

lemma body_parses_tree:
  assumes ok: "\<forall>k. ok k" and str: "ft_strings_block tree = Some base" "look = fdt_strings dtb base (ft_strings_size tree)"
  shows "dt_fits look t \<Longrightarrow> body_parses ok dtb tree look t"
proof (induction t)
  case (Dtree name props kids)
  note f = dt_fits_parts [OF Dtree.prems, simplified]
  have kids: "\<forall>k \<in> set kids. body_parses ok dtb tree look k \<and> dt_fits look k" using Dtree f by auto
  show ?case unfolding body_parses_def Let_def dtree.sel
  proof (intro allI impI, elim conjE)
    fix nodes :: "FDTNode list" and par :: "nat option" and phs :: "FDTPhandleEntry list" and a pos r fuel
    let ?n = "length nodes" and ?P = "concat (map enc_prop props)" and ?K = "concat (map enc_tree kids)"
    let ?nd0 = "(empty_node name)\<lparr>nd_parent := par\<rparr>"
    assume d: "drop pos dtb = (?P @ ?K @ be32_bytes FDT_END_NODE) @ r" and fuel: "length dtb - pos < fuel"
      and phs: "length phs + length (dt_phandles look ?n (Dtree name props kids)) \<le> FDT_MAX_PHANDLE_MAP"
    have d0: "drop pos dtb = ?P @ (?K @ be32_bytes FDT_END_NODE @ r)" using d by simp
    let ?nd1 = "?nd0\<lparr>nd_properties := map (mk_prop look) props\<rparr>"
    obtain f1 a1 where r1: "length dtb - (pos + length ?P) < f1"
      "fdt_parse_struct fuel ok dtb (Some ?n) None (fdt_state tree (nodes @ [?nd0]) phs a) pos
        = fdt_parse_struct f1 ok dtb (Some ?n) None (fdt_state tree (nodes @ [?nd1]) phs a1) (pos + length ?P)"
      using parse_props_at [OF ok str d0 _ _ _ fuel, of ?n "nodes @ [?nd0]" phs a] f by (auto simp: empty_node_def)
    have d1: "drop (pos + length ?P) dtb = ?K @ (be32_bytes FDT_END_NODE @ r)" using drop_prefix [OF d0] .
    let ?node = "if kids = [] then None else Some (last (kid_index (?n + 1) kids))"
    let ?nd2 = "dt_node look ?n par (Dtree name props kids)"
    let ?nodes = "nodes @ ?nd2 # dt_heaps look (?n + 1) ?n kids" and ?phs = "phs @ dt_phandless look (?n + 1) kids"
    let ?pos = "pos + length ?P + length ?K"
    have tk: "take (FDT_MAX_NAME_LEN - 1) name = name" using f by (simp add: FDT_MAX_NAME_LEN_def)
    have nd2: "?nd1\<lparr>nd_children := kid_index (?n + 1) kids\<rparr> = ?nd2"
      using tk by (simp add: dt_node_def empty_node_def)
    obtain f2 a2 where r2: "length dtb - ?pos < f2"
      "fdt_parse_struct f1 ok dtb (Some ?n) None (fdt_state tree (nodes @ [?nd1]) phs a1) (pos + length ?P)
        = fdt_parse_struct f2 ok dtb (Some ?n) ?node (fdt_state tree ?nodes ?phs a2) ?pos"
    proof -
      have len1: "length (nodes @ [?nd1]) = ?n + 1" by simp
      have upd: "(nodes @ [?nd1])[?n := ((nodes @ [?nd1]) ! ?n)\<lparr>nd_children := nd_children ((nodes @ [?nd1]) ! ?n) @ kid_index (?n + 1) kids\<rparr>]
          = nodes @ [?nd2]" unfolding nd2 [symmetric] by (simp add: empty_node_def)
      have app: "(nodes @ [?nd2]) @ dt_heaps look (?n + 1) ?n kids = ?nodes" by simp
      have room: "length (nd_children ((nodes @ [?nd1]) ! ?n)) + length kids \<le> FDT_MAX_CHILDREN" "?n < length (nodes @ [?nd1])"
        "length phs + length (dt_phandless look (length (nodes @ [?nd1])) kids) \<le> FDT_MAX_PHANDLE_MAP"
        using f phs by (simp_all add: empty_node_def)
      show thesis
        using parse_kids_at [OF ok kids d1 r1(1) room(2,1,3), of None a1] that unfolding len1 upd app by blast
    qed
    have d2: "drop ?pos dtb = be32_bytes FDT_END_NODE @ r" using drop_prefix [OF d1] .
    have pos0: "?pos < length dtb" using drop_longer [OF d2] by (simp add: be32_bytes_def)
    let ?c = "closes ?n kids"
    have c: "(case ?node of Some n \<Rightarrow> Some n | None \<Rightarrow> Some ?n) = Some ?c" by (simp add: closes_def)
    define last_kid where "last_kid = (if kids = [] then Dtree name props kids else last kids)"
    have pc: "nd_properties (?nodes ! ?c) = map (mk_prop look) (dt_props last_kid)" and cn: "?n \<le> ?c"
      using dt_heaps_last [of kids "?n + 1" look ?n]
      by (auto simp: closes_def nth_append last_kid_def dt_node_def nth_Cons')
    have pe: "phandle_entry ?c (?nodes ! ?c) = phandle_entry ?c (dt_node look 0 None last_kid)"
      unfolding phandle_entry_def pc by (simp add: dt_node_def)
    have cl: "fdt_close_node (fdt_state tree ?nodes ?phs a2) (Some ?c)
        = Returned (fdt_state tree (close_at ?c ?nodes) (?phs @ phandle_entry ?c (?nodes ! ?c)) a2)"
    proof (rule fdt_close_at)
      show "\<forall>p \<in> set (nd_properties (?nodes ! ?c)). pr_value p \<noteq> None" unfolding pc by (auto simp: mk_prop_def)
      show "length ?phs + length (phandle_entry ?c (?nodes ! ?c)) \<le> FDT_MAX_PHANDLE_MAP"
        unfolding pe using phs by (simp add: last_kid_def)
    qed
    have ca: "close_at ?c ?nodes = nodes @ dt_heap look ?n par (Dtree name props kids)"
      using cn by (simp add: close_at_def list_update_append nth_append)
    obtain f3 where f3: "f2 = Suc f3" using r2(1) by (cases f2) auto
    have e: "fdt_parse_struct f2 ok dtb (Some ?n) ?node (fdt_state tree ?nodes ?phs a2) ?pos
        = Returned (fdt_state tree (close_at ?c ?nodes) (?phs @ phandle_entry ?c (?nodes ! ?c)) a2, ?pos + 4, True)"
      unfolding f3 using pos0 fdt_u32_at [OF d2] cl c by (simp del: fdt_state_simps)
    then show "\<exists>a'. fdt_parse_struct fuel ok dtb (Some ?n) None (fdt_state tree (nodes @ [?nd0]) phs a) pos
        = Returned (fdt_state tree (nodes @ dt_heap look ?n par (Dtree name props kids))
            (phs @ dt_phandles look ?n (Dtree name props kids)) a', pos + length (?P @ ?K @ be32_bytes FDT_END_NODE), True)"
      unfolding r1(2) r2(2) e ca pe by (intro exI [of _ a2]) (simp add: last_kid_def add.assoc)
  qed
qed

section \<open>Whole blobs\<close>

definition enc_reserve :: "FDTReserveEntry \<Rightarrow> bytes" where
  "enc_reserve e = be64_bytes (re_address e) @ be64_bytes (re_size e)"

definition fdt_fields :: "FDTReserveEntry list \<Rightarrow> dtree \<Rightarrow> bytes \<Rightarrow> u32 list" where
  "fdt_fields rsv t strings =
     (let off_struct = 40 + 16 * (length rsv + 1); off_strings = off_struct + length (enc_tree t) + 4
      in [FDT_MAGIC, of_nat (off_strings + length strings), of_nat off_struct, of_nat off_strings, 40, 17, 16, 0,
          of_nat (length strings), of_nat (length (enc_tree t) + 4)])"

definition enc_blob :: "FDTReserveEntry list \<Rightarrow> dtree \<Rightarrow> bytes \<Rightarrow> bytes" where
  "enc_blob rsv t strings =
     concat (map be32_bytes (fdt_fields rsv t strings)) @ concat (map enc_reserve rsv) @ zeros 16
       @ enc_tree t @ be32_bytes FDT_END @ strings"

lemma fdt_bswap32_le32: "fdt_bswap32 (le32 a b c d) = be32 a b c d"
proof (rule bit_word_eqI)
  fix n :: nat
  assume n: "n < LENGTH(32)"
  have m: "(0xFF :: u32) = mask 8" "(0xFF00 :: u32) = push_bit 8 (mask 8)" "(0xFF0000 :: u32) = push_bit 16 (mask 8)"
    "(0xFF000000 :: u32) = push_bit 24 (mask 8)"
    by (simp_all add: mask_eq_exp_minus_1 push_bit_eq_mult)
  note bit_imp_le_length [of a, simp] bit_imp_le_length [of b, simp]
  consider "n < 8" | "8 \<le> n" "n < 16" | "16 \<le> n" "n < 24" | "24 \<le> n" by linarith
  then show "bit (fdt_bswap32 (le32 a b c d)) n \<longleftrightarrow> bit (be32 a b c d) n"
    using n by cases (auto simp: fdt_bswap32_def m le32_def be32_def bit_simps dest: bit_imp_le_length)
qed

lemma le32_at_append: "le32_at (xs @ ys) (length xs + i) = le32_at ys i"
  by (simp add: le32_at_def nth_append add.assoc)

lemma header_field:
  "i < length ws \<Longrightarrow> fdt_bswap32 (le32_at (concat (map be32_bytes ws) @ r) (4 * i)) = ws ! i"
proof (induction ws arbitrary: i)
  case (Cons w ws)
  show ?case
  proof (cases i)
    case 0
    then show ?thesis
      by (simp add: le32_at_def fdt_bswap32_le32 be32_bytes_def numeral_2_eq_2 numeral_3_eq_3)
  next
    case (Suc j)
    have "le32_at (concat (map be32_bytes (w # ws)) @ r) (4 * i) = le32_at (concat (map be32_bytes ws) @ r) (4 * j)"
      using le32_at_append [of "be32_bytes w" "concat (map be32_bytes ws) @ r" "4 * j"] by (simp add: Suc)
    then show ?thesis using Cons Suc by simp
  qed
qed simp

lemma fdt_header_enc:
  assumes "length ws = 10"
  shows "fdt_header (concat (map be32_bytes ws) @ r)
    = \<lparr>fh_magic = ws ! 0, fh_totalsize = ws ! 1, fh_off_dt_struct = ws ! 2, fh_off_dt_strings = ws ! 3,
       fh_off_mem_rsvmap = ws ! 4, fh_version = ws ! 5, fh_last_comp_version = ws ! 6, fh_boot_cpuid_phys = ws ! 7,
       fh_size_dt_strings = ws ! 8, fh_size_dt_struct = ws ! 9\<rparr>"
proof -
  have h: "fdt_bswap32 (le32_at (concat (map be32_bytes ws) @ r) (4 * i)) = ws ! i" if "i < 10" for i
    using that assms by (intro header_field) simp
  show ?thesis unfolding fdt_header_def Let_def by (simp only: h)
qed

lemma be64_bytes_halves: "be64_bytes w = be32_bytes (ucast (drop_bit 32 w)) @ be32_bytes (ucast w)"
proof -
  have "ucast (drop_bit i (ucast (drop_bit 32 w) :: u32)) = (ucast (drop_bit (i + 32) w) :: u8)" if "i \<le> 24" for i
    using that by (intro bit_word_eqI) (auto simp: bit_simps algebra_simps dest: bit_imp_le_length)
  note hi = this [of 24] this [of 16] this [of 8] this [of 0]
  have "ucast (drop_bit i (ucast w :: u32)) = (ucast (drop_bit i w) :: u8)" if "i \<le> 24" for i
    using that by (intro bit_word_eqI) (auto simp: bit_simps dest: bit_imp_le_length)
  note lo = this [of 24] this [of 16] this [of 8] this [of 0]
  show ?thesis using hi lo by (simp add: be64_bytes_def be32_bytes_def)
qed

lemma fdt_read_u32_bytes: "fdt_read_u32 (be32_bytes w @ r) = w"
  by (simp add: fdt_read_u32_def be32_bytes_def numeral_2_eq_2 numeral_3_eq_3)

lemma fdt_read_u64_bytes: "fdt_read_u64 (be64_bytes w @ r) = w"
  unfolding fdt_read_u64_def be64_bytes_halves
  by (simp add: fdt_read_u32_bytes) (intro bit_word_eqI, auto simp: bit_simps dest: bit_imp_le_length)

lemma parse_reserve_at:
  "drop off dtb = concat (map enc_reserve rsv) @ zeros 16 @ r \<Longrightarrow> off + 16 * length rsv < totalsize \<Longrightarrow>
    \<forall>e \<in> set rsv. re_address e \<noteq> 0 \<or> re_size e \<noteq> 0 \<Longrightarrow> length es + length rsv \<le> FDT_MAX_RESERVE_ENTRIES \<Longrightarrow>
    fdt_parse_mem_rsvmap dtb totalsize off es = Returned (es @ rsv)"
proof (induction rsv arbitrary: off es)
  case Nil
  show ?case
  proof (cases "length es < FDT_MAX_RESERVE_ENTRIES")
    case True
    have z: "zeros 16 = be64_bytes 0 @ be64_bytes 0" by code_simp
    have d: "drop off dtb = be64_bytes 0 @ be64_bytes 0 @ r" using Nil(1) z by simp
    have d8: "drop (off + 8) dtb = be64_bytes 0 @ r" using drop_prefix [OF d] by simp
    have "off + 16 \<le> length dtb" using arg_cong [OF d, of length] by simp
    then show ?thesis using True Nil(2) d d8
      by (simp add: fdt_parse_mem_rsvmap.simps [of dtb] fdt_read_u64_bytes Let_def)
  next
    case False
    then show ?thesis by (simp add: fdt_parse_mem_rsvmap.simps [of dtb])
  qed
next
  case (Cons e rsv)
  have d: "drop off dtb = be64_bytes (re_address e) @ (be64_bytes (re_size e) @ concat (map enc_reserve rsv) @ zeros 16 @ r)"
    using Cons.prems(1) by (simp add: enc_reserve_def [of e])
  note d8 = drop_prefix [OF d, simplified]
  have d16: "drop (off + 16) dtb = concat (map enc_reserve rsv) @ zeros 16 @ r"
    using drop_prefix [OF d8] by (simp add: add.assoc)
  have r: "fdt_read_u64 (drop off dtb) = re_address e" "fdt_read_u64 (drop (off + 8) dtb) = re_size e"
    unfolding d d8 by (simp_all add: fdt_read_u64_bytes)
  have "off + 16 \<le> length dtb" using arg_cong [OF d, of length] by simp
  moreover have "fdt_parse_mem_rsvmap dtb totalsize (off + 16) (es @ [e]) = Returned ((es @ [e]) @ rsv)"
    using Cons.prems by (intro Cons.IH [OF d16]) auto
  moreover have er: "\<lparr>re_address = re_address e, re_size = re_size e\<rparr> = e" by (cases e) simp
  ultimately show ?case using Cons.prems(2-4)
    by (simp add: fdt_parse_mem_rsvmap.simps [of dtb totalsize off] r er Let_def)
qed

lemma length_enc_parts [simp]:
  "length (concat (map be32_bytes ws)) = 4 * length ws" "length (concat (map enc_reserve rsv)) = 16 * length rsv"
  by (induction ws; simp) (induction rsv; simp add: enc_reserve_def)

text \<open>The names are in the last section of the blob.\<close>

definition name_table :: "bytes \<Rightarrow> u32 \<Rightarrow> bytes option" where
  "name_table strings off = (if unat off \<ge> length strings then Some [] else cstring_at strings (unat off))"

lemma fdt_strings_last: "fdt_strings (pre @ strings) (length pre) (length strings) = name_table strings"
  by (rule ext) (simp add: fdt_strings_def name_table_def cstring_at_def Let_def)

definition fdt_result :: "FDTReserveEntry list \<Rightarrow> dtree \<Rightarrow> bytes \<Rightarrow> nat \<Rightarrow> FDTTree" where
  "fdt_result rsv t strings a =
     \<lparr>ft_header = fdt_header (enc_blob rsv t strings),
      ft_strings_block = Some (length (enc_blob rsv t strings) - length strings), ft_strings_size = length strings,
      ft_root = Some 0, ft_parsed = True, ft_reserve_entries = rsv,
      ft_phandle_map = dt_phandles (name_table strings) 0 t, ft_nodes = dt_heap (name_table strings) 0 None t, ft_allocs = a\<rparr>"

lemma fdt_parse_enc:
  assumes ok: "\<forall>k. ok k" and fits: "dt_fits (name_table strings) t"
    and phs: "length (dt_phandles (name_table strings) 0 t) \<le> FDT_MAX_PHANDLE_MAP"
    and rsv: "length rsv \<le> FDT_MAX_RESERVE_ENTRIES" "\<forall>e \<in> set rsv. re_address e \<noteq> 0 \<or> re_size e \<noteq> 0"
    and small: "length (enc_blob rsv t strings) < 2 ^ 32"
  shows "\<exists>a. fdt_parse ok tree (Some (enc_blob rsv t strings)) = Returned (fdt_result rsv t strings a, True)"
proof -
  define dtb where "dtb = enc_blob rsv t strings"
  define ws where "ws = fdt_fields rsv t strings"
  define off where "off = 40 + 16 * (length rsv + 1)"
  define base where "base = off + length (enc_tree t) + 4"
  let ?look = "name_table strings"
  have ws: "length ws = 10" by (simp add: ws_def fdt_fields_def Let_def)
  have len: "length dtb = base + length strings"
    by (simp add: dtb_def enc_blob_def base_def off_def ws [unfolded ws_def])
  have hdr: "dtb = concat (map be32_bytes ws) @ (concat (map enc_reserve rsv) @ zeros 16 @ enc_tree t @ be32_bytes FDT_END @ strings)"
    by (simp add: dtb_def enc_blob_def ws_def)
  have d40: "drop 40 dtb = concat (map enc_reserve rsv) @ zeros 16 @ (enc_tree t @ be32_bytes FDT_END @ strings)"
    using drop_prefix [of 0 dtb "concat (map be32_bytes ws)"] hdr ws by simp
  have doff: "drop off dtb = enc_tree t @ (be32_bytes FDT_END @ strings)"
    using drop_prefix [of 40 dtb "concat (map enc_reserve rsv) @ zeros 16"] d40 by (simp add: off_def)
  have "drop base dtb = strings"
    using drop_prefix [of off dtb "enc_tree t @ be32_bytes FDT_END" strings] doff by (simp add: base_def add.assoc)
  then have "dtb = take base dtb @ strings" using append_take_drop_id [of base dtb] by simp
  then have lk: "fdt_strings dtb base (length strings) = ?look"
    using fdt_strings_last [of "take base dtb" strings] len by (metis le_add1 length_take min.absorb2)
  define h where "h = fdt_header dtb"
  have u: "unat (of_nat n :: u32) = n" if "n \<le> length dtb" for n
    using that small by (intro unat_of_nat_u32) (simp add: dtb_def)
  have le: "off \<le> length dtb" "base \<le> length dtb" "length strings \<le> length dtb" using len by (simp_all add: base_def)
  have wsx: "ws = [FDT_MAGIC, of_nat (length dtb), of_nat off, of_nat base, 40, 17, 16, 0, of_nat (length strings),
      of_nat (length (enc_tree t) + 4)]"
    unfolding ws_def fdt_fields_def Let_def len base_def off_def ..
  have hh: "h = \<lparr>fh_magic = FDT_MAGIC, fh_totalsize = of_nat (length dtb), fh_off_dt_struct = of_nat off,
      fh_off_dt_strings = of_nat base, fh_off_mem_rsvmap = 40, fh_version = 17, fh_last_comp_version = 16,
      fh_boot_cpuid_phys = 0, fh_size_dt_strings = of_nat (length strings), fh_size_dt_struct = of_nat (length (enc_tree t) + 4)\<rparr>"
    unfolding h_def by (subst hdr, subst fdt_header_enc [OF ws]) (simp add: wsx)
  have h: "fh_magic h = FDT_MAGIC" "unat (fh_totalsize h) = length dtb" "unat (fh_off_dt_struct h) = off"
    "unat (fh_off_dt_strings h) = base" "unat (fh_off_mem_rsvmap h) = 40" "\<not> fh_version h < FDT_COMPAT_VERSION"
    "unat (fh_size_dt_strings h) = length strings"
    unfolding hh using u le by (simp_all add: FDT_COMPAT_VERSION_def)
  have big: "\<not> length dtb < sizeof_FDTHeader" using len by (simp add: sizeof_FDTHeader_def base_def off_def)
  have rs: "fdt_parse_mem_rsvmap dtb (length dtb) 40 [] = Returned rsv"
    using parse_reserve_at [OF d40 _ rsv(2), of "length dtb" "[]"] rsv(1) len by (simp add: base_def off_def)
  define t0 where "t0 = (empty_tree h)\<lparr>ft_strings_block := Some base, ft_strings_size := length strings, ft_reserve_entries := rsv\<rparr>"
  have st0: "t0 = fdt_state t0 [] [] 0" by (simp add: t0_def fdt_state_def empty_tree_def)
  define t1 where "t1 = t0\<lparr>ft_root := Some 0\<rparr>"
  have str: "ft_strings_block t1 = Some base" "?look = fdt_strings dtb base (ft_strings_size t1)"
    using lk by (simp_all add: t1_def t0_def)
  note f = dt_fits_parts [OF fits]
  define body where "body = concat (map enc_prop (dt_props t)) @ concat (map enc_tree (dt_kids t)) @ be32_bytes FDT_END_NODE"
  have d: "drop off dtb = be32_bytes FDT_BEGIN_NODE @ cell_pad (dt_name t @ [0]) @ body @ be32_bytes FDT_END @ strings"
    using doff by (simp add: enc_tree_parts body_def)
  note g = fdt_begin_at [OF d ok conjunct1 [OF f] conjunct1 [OF conjunct2 [OF f]]]
  let ?pos = "off + 4 + cell_align (length (dt_name t) + 1)"
  have bp: "body_parses ok dtb t1 ?look t" using body_parses_tree [OF ok str fits] .
  have f1: "length dtb - ?pos < length dtb" using len by (simp add: base_def off_def)
  obtain a where a: "fdt_parse_struct (length dtb) ok dtb (Some 0) None (fdt_state t1 [empty_node (dt_name t)] [] 1) ?pos
      = Returned (fdt_state t1 (dt_heap ?look 0 None t) (dt_phandles ?look 0 t) a, ?pos + length body, True)"
    using bp [unfolded body_parses_def Let_def, rule_format, of ?pos "be32_bytes FDT_END @ strings" "length dtb" "[]" "[]" None 1]
      g(2) f1 phs by (auto simp: body_def empty_node_def)
  have dend: "drop (?pos + length body) dtb = be32_bytes FDT_END @ strings" using drop_prefix [OF g(2)] .
  have pend: "?pos + length body < length dtb" using drop_longer [OF dend] by (simp add: be32_bytes_def)
  then obtain fl where fl: "length dtb = Suc fl" by (cases "length dtb") auto
  let ?st = "fdt_state t1 (dt_heap ?look 0 None t) (dt_phandles ?look 0 t) a"
  have e: "fdt_parse_struct (Suc fl) ok dtb None (Some 0) ?st (?pos + length body)
      = Returned (?st\<lparr>ft_parsed := True\<rparr>, ?pos + length body + 4, True)"
    using pend fdt_u32_at [OF dend] by (simp add: Let_def)
  have pos0: "off < length dtb" using g(3) by simp
  have b: "fdt_begin_node ok dtb t0 (off + 4) None = Returned (fdt_state t1 [empty_node (dt_name t)] [] 1, ?pos, Some 0)"
    using g(4) [of t0 "[]" "[]" 0] unfolding st0 [symmetric] by (simp add: t1_def)
  have p: "fdt_parse_struct (length dtb + 1) ok dtb None None t0 off
      = Returned (?st\<lparr>ft_parsed := True\<rparr>, ?pos + length body + 4, True)"
    using parse_begin_step [OF pos0 conjunct1 [OF fdt_u32_at [OF d]] b a, of None] e unfolding fl [symmetric] by simp
  have "fdt_parse ok tree (Some dtb) = Returned (?st\<lparr>ft_parsed := True\<rparr>, True)"
    unfolding fdt_parse_def option.case Let_def h_def [symmetric] using big h rs p
    by (simp add: t0_def [symmetric] del: fdt_parse_struct.simps)
  moreover have "?st\<lparr>ft_parsed := True\<rparr> = fdt_result rsv t strings a"
    using len by (simp add: fdt_result_def fdt_state_def t1_def t0_def empty_tree_def h_def flip: dtb_def)
  ultimately show ?thesis unfolding dtb_def by auto
qed

end
