(* ===== verification/Fdt_Lookup.thy ===== *)
theory Fdt_Lookup
  imports Fdt_Roundtrip
begin

text \<open>
  What the functions on a parsed tree return: paths against lookups in the abstract tree, the
  search by compatible string against the nodes below, cell counts and address translation
  against the chain of parents.
\<close>

section \<open>Paths\<close>

fun dt_lookup :: "dtree \<Rightarrow> bytes list \<Rightarrow> dtree option" where
  "dt_lookup t [] = Some t"
| "dt_lookup t (tok # toks) =
     (case find (\<lambda>k. dt_name k = tok) (dt_kids t) of None \<Rightarrow> None | Some k \<Rightarrow> dt_lookup k toks)"

lemma kid_index_length [simp]: "length (kid_index b ks) = length ks"
  by (induction ks arbitrary: b) auto

text \<open>The nodes from \<open>b\<close> on are those of a tree, whatever their phandles.\<close>

fun holds :: "(u32 \<Rightarrow> bytes option) \<Rightarrow> FDTNode list \<Rightarrow> nat \<Rightarrow> dtree \<Rightarrow> bool"
  and holds_all :: "(u32 \<Rightarrow> bytes option) \<Rightarrow> FDTNode list \<Rightarrow> nat \<Rightarrow> dtree list \<Rightarrow> bool" where
  "holds look nodes b (Dtree name props kids) \<longleftrightarrow>
     nd_name (nodes ! b) = name \<and> nd_properties (nodes ! b) = map (mk_prop look) props \<and>
     nd_children (nodes ! b) = kid_index (b + 1) kids \<and> holds_all look nodes (b + 1) kids"
| "holds_all look nodes b [] \<longleftrightarrow> True"
| "holds_all look nodes b (k # ks) \<longleftrightarrow> holds look nodes b k \<and> holds_all look nodes (b + dt_size k) ks"

lemma holds_cong:
  "(\<And>i. b \<le> i \<Longrightarrow> nd_name (ns' ! i) = nd_name (ns ! i) \<and> nd_properties (ns' ! i) = nd_properties (ns ! i)
      \<and> nd_children (ns' ! i) = nd_children (ns ! i)) \<Longrightarrow> holds look ns b t \<Longrightarrow> holds look ns' b t"
  "(\<And>i. b \<le> i \<Longrightarrow> nd_name (ns' ! i) = nd_name (ns ! i) \<and> nd_properties (ns' ! i) = nd_properties (ns ! i)
      \<and> nd_children (ns' ! i) = nd_children (ns ! i)) \<Longrightarrow> holds_all look ns b ks \<Longrightarrow> holds_all look ns' b ks"
  by (induction look ns b t and look ns b ks rule: holds_holds_all.induct) auto

lemma holds_append:
  "holds look ns b t \<Longrightarrow> b + dt_size t \<le> length ns \<Longrightarrow> holds look (ns @ ns') b t"
  "holds_all look ns b ks \<Longrightarrow> b + sum_list (map dt_size ks) \<le> length ns \<Longrightarrow> holds_all look (ns @ ns') b ks"
  by (induction look ns b t and look ns b ks rule: holds_holds_all.induct) (auto simp: nth_append)

lemma dt_heap_holds:
  "length pre = b \<Longrightarrow> holds look (pre @ dt_heap look b par t) b t"
  "length pre = b \<Longrightarrow> holds_all look (pre @ dt_heaps look b p ks) b ks"
proof (induction look b par t and look b p ks arbitrary: pre and pre rule: dt_heap_dt_heaps.induct)
  case (1 look b par name props kids)
  let ?ns = "pre @ dt_node look b par (Dtree name props kids) # dt_heaps look (b + 1) b kids"
  have "holds_all look ((pre @ [dt_node look b par (Dtree name props kids)]) @ dt_heaps look (b + 1) b kids) (b + 1) kids"
    using "1.prems" by (intro "1.IH") simp
  moreover have nb: "?ns ! b = dt_node look b par (Dtree name props kids)" using "1.prems" by (simp add: nth_append)
  ultimately have "holds look ?ns b (Dtree name props kids)"
    unfolding holds.simps nb by (simp add: dt_node_def)
  moreover have "closes b kids - b < length (dt_node look b par (Dtree name props kids) # dt_heaps look (b + 1) b kids)"
    using dt_heaps_last [of kids "b + 1" look b] by (auto simp: closes_def)
  ultimately show ?case
    by (rule_tac holds_cong(1) [rotated]) (auto simp: nth_append)
next
  case (3 look b p k ks)
  have "holds look (pre @ dt_heap look b (Some p) k) b k" using "3.IH"(1) "3.prems" by simp
  then have "holds look (pre @ dt_heap look b (Some p) k @ dt_heaps look (b + dt_size k) p ks) b k"
    using holds_append(1) [of look "pre @ dt_heap look b (Some p) k" b k] "3.prems" by simp
  moreover have "holds_all look ((pre @ dt_heap look b (Some p) k) @ dt_heaps look (b + dt_size k) p ks) (b + dt_size k) ks"
    using "3.prems" by (intro "3.IH"(2)) simp
  ultimately show ?case by simp
qed simp

lemma find_kid:
  assumes "holds_all look nodes b ks"
  shows "case find (\<lambda>k. dt_name k = tok) ks of
      None \<Rightarrow> find (\<lambda>c. nd_name (nodes ! c) = tok) (kid_index b ks) = None
    | Some k \<Rightarrow> \<exists>c. find (\<lambda>c. nd_name (nodes ! c) = tok) (kid_index b ks) = Some c \<and> holds look nodes c k"
  using assms
proof (induction ks arbitrary: b)
  case (Cons k ks)
  have "nd_name (nodes ! b) = dt_name k" using Cons.prems by (cases k) simp
  then show ?case using Cons.IH [of "b + dt_size k"] Cons.prems
    by (cases "dt_name k = tok") (auto split: option.splits)
qed simp

lemma walk_path_lookup:
  "holds look (ft_nodes tree) b t \<Longrightarrow>
    (case dt_lookup t toks of None \<Rightarrow> walk_path tree b toks = None
     | Some s \<Rightarrow> \<exists>i. walk_path tree b toks = Some i \<and> holds look (ft_nodes tree) i s)"
proof (induction toks arbitrary: b t)
  case (Cons tok toks)
  obtain name props kids where t: "t = Dtree name props kids" by (cases t)
  have h: "holds_all look (ft_nodes tree) (b + 1) kids" "nd_children (ft_nodes tree ! b) = kid_index (b + 1) kids"
    using Cons.prems t by simp_all
  show ?case
  proof (cases "find (\<lambda>k. dt_name k = tok) kids")
    case None
    then show ?thesis using find_kid [OF h(1), of tok] h(2) t by simp
  next
    case (Some k)
    then obtain c where "find (\<lambda>c. nd_name (ft_nodes tree ! c) = tok) (kid_index (b + 1) kids) = Some c"
      "holds look (ft_nodes tree) c k" using find_kid [OF h(1), of tok] by auto
    then show ?thesis using Cons.IH [of c k] Some h(2) t by (cases "dt_lookup k toks") auto
  qed
qed simp

section \<open>Search by compatible string\<close>

text \<open>The nodes below a node, itself included.\<close>

inductive below :: "FDTNode list \<Rightarrow> nat \<Rightarrow> nat \<Rightarrow> bool" for nodes where
  below_refl: "below nodes n n"
| below_child: "c \<in> set (nd_children (nodes ! n)) \<Longrightarrow> below nodes c m \<Longrightarrow> below nodes n m"

inductive_simps below_iff: "below nodes n m"

lemma search_compatible_spec:
  "heap_ok (ft_nodes tree) \<Longrightarrow> n < length (ft_nodes tree) \<Longrightarrow> length (ft_nodes tree) - n \<le> fuel \<Longrightarrow>
    \<exists>r. search_compatible fuel tree cname n = Returned r \<and>
      (case r of None \<Rightarrow> \<forall>m. below (ft_nodes tree) n m \<longrightarrow> \<not> is_compatible (ft_nodes tree ! m) cname
       | Some m \<Rightarrow> below (ft_nodes tree) n m \<and> is_compatible (ft_nodes tree ! m) cname)"
  "heap_ok (ft_nodes tree) \<Longrightarrow> \<forall>c \<in> set cs. c < length (ft_nodes tree) \<and> length (ft_nodes tree) - c \<le> fuel \<Longrightarrow>
    \<exists>r. search_children fuel tree cname cs = Returned r \<and>
      (case r of None \<Rightarrow> \<forall>c \<in> set cs. \<forall>m. below (ft_nodes tree) c m \<longrightarrow> \<not> is_compatible (ft_nodes tree ! m) cname
       | Some m \<Rightarrow> \<exists>c \<in> set cs. below (ft_nodes tree) c m \<and> is_compatible (ft_nodes tree ! m) cname)"
proof (induction fuel tree cname n and fuel tree cname cs rule: search_compatible_search_children.induct)
  case (1 tree cname n)
  then show ?case by simp
next
  case (2 fuel tree cname n)
  let ?ns = "ft_nodes tree"
  show ?case
  proof (cases "is_compatible (?ns ! n) cname")
    case True
    then show ?thesis by (auto intro: below_refl)
  next
    case False
    have "\<forall>c \<in> set (nd_children (?ns ! n)). c < length ?ns \<and> length ?ns - c \<le> fuel"
    proof
      fix c assume "c \<in> set (nd_children (?ns ! n))"
      then have "n < c" "c < length ?ns" using heap_okD [OF "2.prems"(1,2)] by (auto simp: linked_def)
      then show "c < length ?ns \<and> length ?ns - c \<le> fuel" using "2.prems"(3) by linarith
    qed
    from "2.IH" [OF False "2.prems"(1) this] obtain r where
      r: "search_children fuel tree cname (nd_children (?ns ! n)) = Returned r"
      "case r of None \<Rightarrow> \<forall>c \<in> set (nd_children (?ns ! n)). \<forall>m. below ?ns c m \<longrightarrow> \<not> is_compatible (?ns ! m) cname
       | Some m \<Rightarrow> \<exists>c \<in> set (nd_children (?ns ! n)). below ?ns c m \<and> is_compatible (?ns ! m) cname" by blast
    then show ?thesis using False by (cases r) (auto simp: below_iff [of ?ns n])
  qed
next
  case (3 fuel tree cname)
  then show ?case by simp
next
  case (4 fuel tree cname c cs)
  let ?ns = "ft_nodes tree"
  obtain r where r: "search_compatible fuel tree cname c = Returned r"
    "case r of None \<Rightarrow> \<forall>m. below ?ns c m \<longrightarrow> \<not> is_compatible (?ns ! m) cname
     | Some m \<Rightarrow> below ?ns c m \<and> is_compatible (?ns ! m) cname"
    using 4 by auto
  show ?case
  proof (cases r)
    case None
    have prems: "\<forall>c \<in> set cs. c < length ?ns \<and> length ?ns - c \<le> fuel" using "4.prems"(2) by simp
    obtain r2 where r2: "search_children fuel tree cname cs = Returned r2"
      "case r2 of None \<Rightarrow> \<forall>c \<in> set cs. \<forall>m. below ?ns c m \<longrightarrow> \<not> is_compatible (?ns ! m) cname
       | Some m \<Rightarrow> \<exists>c \<in> set cs. below ?ns c m \<and> is_compatible (?ns ! m) cname"
      using "4.IH"(2) [OF r(1) None "4.prems"(1) prems] by blast
    then show ?thesis using r None by (cases r2) auto
  next
    case (Some m)
    then show ?thesis using r by auto
  qed
qed

section \<open>Walks to the root\<close>

text \<open>With the fuel the functions take they satisfy the recursion of the code.\<close>

lemma parent_less: "heap_ok (ft_nodes tree) \<Longrightarrow> n < length (ft_nodes tree) \<Longrightarrow> nd_parent (ft_nodes tree ! n) = Some p \<Longrightarrow>
    p < n \<and> p < length (ft_nodes tree)"
  using heap_okD [of "ft_nodes tree" n] by (auto simp: linked_def)

lemma cells_up_fuel:
  "heap_ok (ft_nodes tree) \<Longrightarrow> n < length (ft_nodes tree) \<Longrightarrow> n < f \<Longrightarrow> n < f' \<Longrightarrow>
    cells_up f tree prop dflt n = cells_up f' tree prop dflt n \<and> (\<exists>v. cells_up f tree prop dflt n = Returned v)"
proof (induction f arbitrary: n f')
  case (Suc f)
  obtain g where g: "f' = Suc g" using Suc.prems(4) by (cases f') auto
  show ?case
  proof (cases "fdt_read_prop_u32 tree (Some n) (Some prop)")
    case None
    then show ?thesis
    proof (cases "nd_parent (ft_nodes tree ! n)")
      case (Some p)
      have p: "p < n" "p < length (ft_nodes tree)" using parent_less [OF Suc.prems(1,2) Some] by simp_all
      then have "p < f" "p < g" using Suc.prems g by simp_all
      then obtain v where "cells_up f tree prop dflt p = Returned v" "cells_up g tree prop dflt p = Returned v"
        using Suc.IH [OF Suc.prems(1) p(2), of g] by metis
      then show ?thesis using None Some g by simp
    qed (simp add: g)
  qed (simp add: g)
qed simp

lemma fdt_cells_returns:
  assumes "heap_ok (ft_nodes tree)" and "n < length (ft_nodes tree)"
  shows "\<exists>v. fdt_get_address_cells tree (Some n) = Returned v" and "\<exists>v. fdt_get_size_cells tree (Some n) = Returned v"
  using cells_up_fuel [OF assms assms(2) assms(2)] by (simp_all add: fdt_get_address_cells_def fdt_get_size_cells_def)

lemma fdt_address_cells_rec:
  assumes "heap_ok (ft_nodes tree)" and n: "n < length (ft_nodes tree)"
  shows "fdt_get_address_cells tree (Some n) =
    (case fdt_read_prop_u32 tree (Some n) (Some (str_bytes ''#address-cells'')) of
       Some v \<Rightarrow> Returned v
     | None \<Rightarrow> (case nd_parent (ft_nodes tree ! n) of None \<Rightarrow> Returned 2 | Some p \<Rightarrow> fdt_get_address_cells tree (Some p)))"
proof -
  obtain f where f: "length (ft_nodes tree) = Suc f" using n by (cases "length (ft_nodes tree)") auto
  show ?thesis
  proof (cases "nd_parent (ft_nodes tree ! n)")
    case (Some p)
    have p: "p < n" "p < length (ft_nodes tree)" using parent_less [OF assms Some] by simp_all
    then have "cells_up f tree pn d p = cells_up (Suc f) tree pn d p" for pn d
      using cells_up_fuel [OF assms(1) p(2), of f "Suc f" pn d] n f by simp
    note eq = this [symmetric]
    show ?thesis unfolding fdt_get_address_cells_def option.case f Some eq
      by (subst cells_up.simps(2)) (simp only: Some option.case)
  next
    case None
    show ?thesis unfolding fdt_get_address_cells_def option.case f
      by (subst cells_up.simps(2)) (simp only: None option.case)
  qed
qed

lemma translate_up_fuel:
  "heap_ok (ft_nodes tree) \<Longrightarrow> n < length (ft_nodes tree) \<Longrightarrow> n < f \<Longrightarrow> n < f' \<Longrightarrow>
    translate_up f tree n a = translate_up f' tree n a \<and> translate_up f tree n a \<noteq> Diverges"
proof (induction f arbitrary: n f' a)
  case (Suc f)
  obtain g where g: "f' = Suc g" using Suc.prems(4) by (cases f') auto
  show ?case
  proof (cases "nd_parent (ft_nodes tree ! n)")
    case (Some p)
    have p: "p < n" "p < length (ft_nodes tree)" using parent_less [OF Suc.prems(1,2) Some] by simp_all
    then have pf: "p < f" "p < g" using Suc.prems g by simp_all
    note IH = Suc.IH [OF Suc.prems(1) p(2) pf]
    then have eq: "translate_up f tree p = translate_up g tree p" and nd: "\<And>x. translate_up g tree p x \<noteq> Diverges"
      by (rule_tac ext, blast) (metis IH)
    obtain cc where cc: "fdt_get_address_cells tree (Some n) = Returned cc" using fdt_cells_returns(1) Suc.prems by blast
    obtain sc where sc: "fdt_get_size_cells tree (Some n) = Returned sc" using fdt_cells_returns(2) Suc.prems by blast
    obtain pc where pc: "fdt_get_address_cells tree (Some p) = Returned pc" using fdt_cells_returns(1) Suc.prems p by blast
    obtain rv rl where rv: "fdt_get_prop_value tree (Some n) (Some (str_bytes ''ranges'')) = (rv, rl)" by fastforce
    have "translate_up (Suc f) tree n a = translate_up (Suc g) tree n a" by (simp only: translate_up.simps Some option.case eq)
    moreover have "translate_up (Suc g) tree n a \<noteq> Diverges"
    proof (cases rv)
      case None
      then show ?thesis using Some cc sc pc rv nd by simp
    next
      case v: (Some ranges)
      let ?k = "rl div unat ((cc + pc + sc) * 4)"
      show ?thesis
        using Some cc sc pc rv v nd
        by (cases "match_range ranges (unat cc) (unat pc) (unat sc) a 0 ?k") (simp_all add: Let_def)
    qed
    ultimately show ?thesis unfolding g by simp
  qed (simp add: g)
qed simp

section \<open>Translation through a bus\<close>

text \<open>A number in one or two cells, and ranges as a list of child base, parent base and size.\<close>

definition enc_cells :: "nat \<Rightarrow> u64 \<Rightarrow> bytes" where
  "enc_cells n v = (if n = 1 then be32_bytes (ucast v) else be64_bytes v)"

definition cells_fit :: "nat \<Rightarrow> u64 \<Rightarrow> bool" where
  "cells_fit n v \<longleftrightarrow> n = 1 \<and> unat v < 2 ^ 32 \<or> n = 2"

definition enc_range :: "nat \<Rightarrow> nat \<Rightarrow> nat \<Rightarrow> u64 \<times> u64 \<times> u64 \<Rightarrow> bytes" where
  "enc_range cc pc sc r = enc_cells cc (fst r) @ enc_cells pc (fst (snd r)) @ enc_cells sc (snd (snd r))"

lemma enc_range_eq: "enc_range cc pc sc (c, p, s) = enc_cells cc c @ enc_cells pc p @ enc_cells sc s"
  by (simp add: enc_range_def)

definition range_fits :: "nat \<Rightarrow> nat \<Rightarrow> nat \<Rightarrow> u64 \<times> u64 \<times> u64 \<Rightarrow> bool" where
  "range_fits cc pc sc r \<longleftrightarrow> cells_fit cc (fst r) \<and> cells_fit pc (fst (snd r)) \<and> cells_fit sc (snd (snd r))
     \<and> unat (fst r) + unat (snd (snd r)) < 2 ^ 64"

definition bus_address :: "(u64 \<times> u64 \<times> u64) list \<Rightarrow> u64 \<Rightarrow> u64" where
  "bus_address rs a =
     (case find (\<lambda>(c, p, s). unat c \<le> unat a \<and> unat a < unat c + unat s) rs of
        None \<Rightarrow> a | Some (c, p, s) \<Rightarrow> p + (a - c))"

lemma read_cells_at:
  assumes "drop (first * 4) entry = enc_cells n v @ r" and "cells_fit n v"
  shows "read_cells entry first n = v"
proof -
  consider "n = 1" "unat v < 2 ^ 32" | "n = 2" using assms(2) by (auto simp: cells_fit_def)
  then show ?thesis
  proof cases
    case 1
    have "(ucast (ucast v :: u32) :: u64) = v"
    proof -
      have "unat (ucast v :: u32) = unat v" using 1(2) by (simp add: unsigned_ucast_eq take_bit_nat_eq_self)
      then show ?thesis by (simp add: word_unat_eq_iff)
    qed
    then show ?thesis using assms(1) 1(1) by (simp add: read_cells_def enc_cells_def fdt_read_u32_bytes)
  next
    case 2
    have d: "drop (first * 4) entry = be32_bytes (ucast (drop_bit 32 v)) @ be32_bytes (ucast v) @ r"
      using assms(1) 2 by (simp add: enc_cells_def be64_bytes_halves)
    have "drop (first * 4 + 4) entry = be32_bytes (ucast v) @ r"
      using drop_prefix [OF d] by simp
    then have "read_cells entry first n = push_bit 32 (ucast (ucast (drop_bit 32 v) :: u32)) OR ucast (ucast v :: u32)"
      using d 2 by (simp add: read_cells_def upt_rec fdt_read_u32_bytes)
    also have "\<dots> = v" by (rule bit_word_eqI) (auto simp: bit_simps dest: bit_imp_le_length)
    finally show ?thesis .
  qed
qed

lemma length_enc_cells: "n = 1 \<or> n = 2 \<Longrightarrow> length (enc_cells n v) = n * 4"
  by (auto simp: enc_cells_def)

lemma match_range_at:
  assumes c: "cc \<in> {1, 2}" "pc \<in> {1, 2}" "sc \<in> {1, 2}"
  shows "\<forall>r \<in> set rs. range_fits cc pc sc r \<Longrightarrow>
    drop (i * ((cc + pc + sc) * 4)) ranges = concat (map (enc_range cc pc sc) rs) @ rest \<Longrightarrow>
    match_range ranges cc pc sc a i (length rs)
      = map_option (\<lambda>(c, p, s). p + (a - c)) (find (\<lambda>(c, p, s). unat c \<le> unat a \<and> unat a < unat c + unat s) rs)"
proof (induction rs arbitrary: i)
  case (Cons r rs)
  obtain cb pb sz where r: "r = (cb, pb, sz)" by (cases r)
  let ?entry = "drop (i * ((cc + pc + sc) * 4)) ranges"
  have len: "length (enc_cells cc v) = cc * 4" "length (enc_cells pc v) = pc * 4" "length (enc_cells sc v) = sc * 4" for v
    using c by (auto intro: length_enc_cells)
  have fits: "cells_fit cc cb" "cells_fit pc pb" "cells_fit sc sz" and nowrap: "unat cb + unat sz < 2 ^ 64"
    using Cons.prems(1) r by (simp_all add: range_fits_def)
  have e0: "?entry = enc_cells cc cb @ (enc_cells pc pb @ enc_cells sc sz @ concat (map (enc_range cc pc sc) rs) @ rest)"
    using Cons.prems(2) r by (simp add: enc_range_eq)
  have e1: "drop (cc * 4) ?entry = enc_cells pc pb @ (enc_cells sc sz @ concat (map (enc_range cc pc sc) rs) @ rest)"
    unfolding e0 by (simp add: len)
  have e2: "drop ((cc + pc) * 4) ?entry = enc_cells sc sz @ (concat (map (enc_range cc pc sc) rs) @ rest)"
    using drop_prefix [OF e1] len by (simp add: add_mult_distrib add.commute)
  have rd: "read_cells ?entry 0 cc = cb" "read_cells ?entry cc pc = pb" "read_cells ?entry (cc + pc) sc = sz"
    using read_cells_at [of 0 ?entry cc cb] e0 read_cells_at [OF e1 fits(2)] read_cells_at [OF e2 fits(3)] fits(1) by auto
  have "unat (cb + sz) = unat cb + unat sz" using nowrap by (simp add: unat_word_ariths)
  then have cond: "a \<ge> cb \<and> a < cb + sz \<longleftrightarrow> unat cb \<le> unat a \<and> unat a < unat cb + unat sz"
    by (simp add: word_le_nat_alt word_less_nat_alt)
  have "drop (Suc i * ((cc + pc + sc) * 4)) ranges = concat (map (enc_range cc pc sc) rs) @ rest"
    using drop_prefix [OF e2] len by (simp add: add_mult_distrib algebra_simps)
  then have "match_range ranges cc pc sc a (i + 1) (length rs)
      = map_option (\<lambda>(c, p, s). p + (a - c)) (find (\<lambda>(c, p, s). unat c \<le> unat a \<and> unat a < unat c + unat s) rs)"
    using Cons.prems(1) Cons.IH [of "Suc i"] by simp
  then show ?case using rd cond r by (simp add: Let_def)
qed simp

text \<open>One step towards the root: the address on the bus of the parent.\<close>

lemma translate_hop:
  assumes ok: "heap_ok (ft_nodes tree)" and n: "n < length (ft_nodes tree)" and p: "nd_parent (ft_nodes tree ! n) = Some p"
    and cells: "fdt_get_address_cells tree (Some n) = Returned cc" "fdt_get_address_cells tree (Some p) = Returned pc"
      "fdt_get_size_cells tree (Some n) = Returned sc" "{cc, pc, sc} \<subseteq> {1, 2}"
    and rs: "fdt_get_prop_value tree (Some n) (Some (str_bytes ''ranges''))
      = (Some (concat (map (enc_range (unat cc) (unat pc) (unat sc)) rs) @ [0]),
         length (concat (map (enc_range (unat cc) (unat pc) (unat sc)) rs)))"
      "\<forall>r \<in> set rs. range_fits (unat cc) (unat pc) (unat sc) r"
  shows "fdt_translate_address tree (Some n) a = fdt_translate_address tree (Some p) (bus_address rs a)"
proof -
  define v where "v = concat (map (enc_range (unat cc) (unat pc) (unat sc)) rs)"
  note rs = rs [folded v_def]
  obtain f where f: "length (ft_nodes tree) = Suc f" using n by (cases "length (ft_nodes tree)") auto
  have pl: "p < f" "p < length (ft_nodes tree)" using parent_less [OF ok n p] n f by simp_all
  then have fe: "translate_up f tree p x = translate_up (length (ft_nodes tree)) tree p x" for x
    using translate_up_fuel [OF ok pl(2), of f "length (ft_nodes tree)" x] by simp
  have cu: "unat cc \<in> {1, 2}" "unat pc \<in> {1, 2}" "unat sc \<in> {1, 2}" using cells(4) by auto
  let ?cells = "unat cc + unat pc + unat sc"
  have es: "unat ((cc + pc + sc) * 4) = ?cells * 4" using cells(4) by auto
  have len: "length v = length rs * (?cells * 4)"
  proof -
    have "length (enc_range (unat cc) (unat pc) (unat sc) r) = ?cells * 4" for r
      using cu by (auto simp: enc_range_def length_enc_cells)
    then show ?thesis unfolding v_def by (induction rs) simp_all
  qed
  have num: "length v div unat ((cc + pc + sc) * 4) = length rs" unfolding len es using cu by auto
  have nz: "(cc + pc + sc) * 4 \<noteq> 0" using es cu by (metis unat_0 mult_is_0 add_is_0 insertE singletonD zero_neq_numeral zero_neq_one)
  have m: "match_range (v @ [0]) (unat cc) (unat pc) (unat sc) a 0 (length rs)
      = map_option (\<lambda>(c, p, s). p + (a - c)) (find (\<lambda>(c, p, s). unat c \<le> unat a \<and> unat a < unat c + unat s) rs)"
    unfolding v_def by (rule match_range_at [OF cu rs(2)]) simp
  have "translate_up (Suc f) tree n a = translate_up f tree p (bus_address rs a)"
  proof (cases "rs = []")
    case True
    then show ?thesis using p cells rs(1) by (simp add: bus_address_def v_def)
  next
    case False
    then have ne: "v \<noteq> []" using len cu by auto
    show ?thesis
    proof (cases "find (\<lambda>(c, p, s). unat c \<le> unat a \<and> unat a < unat c + unat s) rs")
      case None
      then show ?thesis using p cells(1-3) rs(1) num nz es m ne by (simp add: bus_address_def Let_def)
    next
      case (Some r)
      then show ?thesis using p cells(1-3) rs(1) num nz es m ne by (cases r) (simp add: bus_address_def Let_def)
    qed
  qed
  then show ?thesis unfolding fdt_translate_address_def option.case by (simp add: f fe [unfolded f])
qed

end
