(* ===== verification/Uefi_Sb.thy ===== *)
theory Uefi_Sb
  imports Prelude
begin

text \<open>
  UEFI Secure Boot variables of \<open>mini-secure-boot/src/uefi_sb.c\<close>: the platform key, the key
  exchange keys, the signature databases and the verdict on an image.  A database is its array
  of 64 entries with a count.  A comparison of more than the 512 bytes of an entry is
  \<open>Undefined\<close>; \<open>NULL\<close> is \<open>None\<close>.
\<close>

section \<open>Data\<close>

definition SB_MAX_SIGNATURES_PER_DB :: nat where "SB_MAX_SIGNATURES_PER_DB = 64"
definition SB_MAX_SIG_SIZE :: nat where "SB_MAX_SIG_SIZE = 512"
definition SB_EFI_VARIABLE_NON_VOLATILE :: u32 where "SB_EFI_VARIABLE_NON_VOLATILE = 1"
definition SB_EFI_VARIABLE_BOOTSERVICE_ACCESS :: u32 where "SB_EFI_VARIABLE_BOOTSERVICE_ACCESS = 2"
definition SB_EFI_VARIABLE_RUNTIME_ACCESS :: u32 where "SB_EFI_VARIABLE_RUNTIME_ACCESS = 4"

datatype SignatureType = SB_SIG_TYPE_NONE | SB_SIG_TYPE_X509_CERT | SB_SIG_TYPE_SHA256_HASH
  | SB_SIG_TYPE_RSA2048 | SB_SIG_TYPE_SHA1 | SB_SIG_TYPE_COUNT

record EFI_GUID =
  guid_data1 :: u32
  guid_data2 :: u16
  guid_data3 :: u16
  guid_data4 :: bytes

record EFISignature =
  es_owner :: EFI_GUID
  es_type :: SignatureType
  es_data :: bytes
  es_size :: u32

record SignatureDB =
  db_entries :: "EFISignature list"
  db_count :: u32

record SecureBootVars =
  sb_setup_mode :: bool
  sb_secure_boot :: bool
  sb_variable_attributes :: u32
  sb_pk :: SignatureDB
  sb_kek :: SignatureDB
  sb_db :: SignatureDB
  sb_dbx :: SignatureDB
  sb_dbt :: SignatureDB
  sb_dbr :: SignatureDB
  sb_pktimestamp :: u64
  sb_kek_timestamp :: u64
  sb_db_timestamp :: u64
  sb_dbx_timestamp :: u64

definition zero_signature :: EFISignature where
  "zero_signature = \<lparr>es_owner = \<lparr>guid_data1 = 0, guid_data2 = 0, guid_data3 = 0, guid_data4 = zeros 8\<rparr>,
     es_type = SB_SIG_TYPE_NONE, es_data = zeros 512, es_size = 0\<rparr>"

definition zero_db :: SignatureDB where
  "zero_db = \<lparr>db_entries = replicate 64 zero_signature, db_count = 0\<rparr>"

section \<open>Databases\<close>

definition db_add_entry :: "SignatureDB \<Rightarrow> EFISignature \<Rightarrow> SignatureDB \<times> bool" where
  "db_add_entry db entry =
     (if db_count db \<ge> of_nat SB_MAX_SIGNATURES_PER_DB then (db, False)
      else (db\<lparr>db_entries := (db_entries db)[unat (db_count db) := entry], db_count := db_count db + 1\<rparr>, True))"

text \<open>The three conditions of a match; the bytes are only compared when the sizes agree.\<close>

definition entry_matches :: "EFISignature \<Rightarrow> EFISignature \<Rightarrow> bool c_result" where
  "entry_matches e entry =
     (if es_type e = es_type entry \<and> es_size e = es_size entry
      then if unat (es_size entry) > SB_MAX_SIG_SIZE then Undefined
           else Returned (take (unat (es_size entry)) (es_data e) = take (unat (es_size entry)) (es_data entry))
      else Returned False)"

fun find_match :: "EFISignature list \<Rightarrow> EFISignature \<Rightarrow> nat option c_result" where
  "find_match [] entry = Returned None"
| "find_match (e # es) entry =
     (case entry_matches e entry of
        Returned True \<Rightarrow> Returned (Some 0)
      | Returned False \<Rightarrow>
          (case find_match es entry of Returned r \<Rightarrow> Returned (map_option Suc r)
           | Undefined \<Rightarrow> Undefined | Diverges \<Rightarrow> Diverges)
      | Undefined \<Rightarrow> Undefined | Diverges \<Rightarrow> Diverges)"

definition db_remove_entry :: "SignatureDB \<Rightarrow> EFISignature \<Rightarrow> (SignatureDB \<times> bool) c_result" where
  "db_remove_entry db entry =
     (case find_match (take (unat (db_count db)) (db_entries db)) entry of
        Undefined \<Rightarrow> Undefined | Diverges \<Rightarrow> Diverges
      | Returned None \<Rightarrow> Returned (db, False)
      | Returned (Some target) \<Rightarrow>
          Returned (db\<lparr>db_entries := fold (\<lambda>i es. es[i := es ! (i + 1)]) [target..<unat (db_count db - 1)] (db_entries db),
                       db_count := db_count db - 1\<rparr>, True))"

definition db_find_entry :: "SignatureDB \<Rightarrow> EFISignature \<Rightarrow> bool c_result" where
  "db_find_entry db entry =
     (case find_match (take (unat (db_count db)) (db_entries db)) entry of
        Undefined \<Rightarrow> Undefined | Diverges \<Rightarrow> Diverges
      | Returned r \<Rightarrow> Returned (r \<noteq> None))"

section \<open>Variables\<close>

definition sb_init :: SecureBootVars where
  "sb_init = \<lparr>sb_setup_mode = True, sb_secure_boot = False,
     sb_variable_attributes = SB_EFI_VARIABLE_NON_VOLATILE OR SB_EFI_VARIABLE_BOOTSERVICE_ACCESS
       OR SB_EFI_VARIABLE_RUNTIME_ACCESS,
     sb_pk = zero_db, sb_kek = zero_db, sb_db = zero_db, sb_dbx = zero_db, sb_dbt = zero_db, sb_dbr = zero_db,
     sb_pktimestamp = 0, sb_kek_timestamp = 0, sb_db_timestamp = 0, sb_dbx_timestamp = 0\<rparr>"

definition sb_enroll_pk :: "SecureBootVars \<Rightarrow> EFISignature \<Rightarrow> SecureBootVars \<times> bool" where
  "sb_enroll_pk sb pk_entry =
     (if \<not> sb_setup_mode sb \<and> db_count (sb_pk sb) > 0 then (sb, False)
      else let sb1 = sb\<lparr>sb_pk := (sb_pk sb)\<lparr>db_count := 0\<rparr>\<rparr>
           in case db_add_entry (sb_pk sb1) pk_entry of
                (pk', False) \<Rightarrow> (sb1, False)
              | (pk', True) \<Rightarrow> (sb1\<lparr>sb_pk := pk', sb_setup_mode := False, sb_pktimestamp := sb_pktimestamp sb1 + 1\<rparr>, True))"

definition sb_enroll_kek :: "SecureBootVars \<Rightarrow> EFISignature \<Rightarrow> SecureBootVars \<times> bool" where
  "sb_enroll_kek sb entry =
     (if sb_setup_mode sb then (sb, True)
      else case db_add_entry (sb_kek sb) entry of
             (d, False) \<Rightarrow> (sb, False)
           | (d, True) \<Rightarrow> (sb\<lparr>sb_kek := d, sb_kek_timestamp := sb_kek_timestamp sb + 1\<rparr>, True))"

definition sb_enroll_db :: "SecureBootVars \<Rightarrow> EFISignature \<Rightarrow> SecureBootVars \<times> bool" where
  "sb_enroll_db sb entry =
     (if sb_setup_mode sb then (sb, True)
      else case db_add_entry (sb_db sb) entry of
             (d, False) \<Rightarrow> (sb, False)
           | (d, True) \<Rightarrow> (sb\<lparr>sb_db := d, sb_db_timestamp := sb_db_timestamp sb + 1\<rparr>, True))"

definition sb_enroll_dbx :: "SecureBootVars \<Rightarrow> EFISignature \<Rightarrow> SecureBootVars \<times> bool" where
  "sb_enroll_dbx sb entry =
     (if sb_setup_mode sb then (sb, True)
      else case db_add_entry (sb_dbx sb) entry of
             (d, False) \<Rightarrow> (sb, False)
           | (d, True) \<Rightarrow> (sb\<lparr>sb_dbx := d, sb_dbx_timestamp := sb_dbx_timestamp sb + 1\<rparr>, True))"

definition sb_enroll_dbt :: "SecureBootVars \<Rightarrow> EFISignature \<Rightarrow> SecureBootVars \<times> bool" where
  "sb_enroll_dbt sb entry =
     (case db_add_entry (sb_dbt sb) entry of (d, False) \<Rightarrow> (sb, False) | (d, True) \<Rightarrow> (sb\<lparr>sb_dbt := d\<rparr>, True))"

definition sb_enroll_dbr :: "SecureBootVars \<Rightarrow> EFISignature \<Rightarrow> SecureBootVars \<times> bool" where
  "sb_enroll_dbr sb entry =
     (case db_add_entry (sb_dbr sb) entry of (d, False) \<Rightarrow> (sb, False) | (d, True) \<Rightarrow> (sb\<lparr>sb_dbr := d\<rparr>, True))"

text \<open>The lookup entry of a hash or a signature; a buffer shorter than what is copied is read beyond its end.\<close>

definition sb_lookup :: "SignatureType \<Rightarrow> bytes \<Rightarrow> u32 \<Rightarrow> EFISignature option" where
  "sb_lookup ty buf n =
     (let m = (if unat n > SB_MAX_SIG_SIZE then SB_MAX_SIG_SIZE else unat n)
      in if m > length buf then None
         else Some (zero_signature\<lparr>es_type := ty, es_size := n, es_data := blit (zeros 512) 0 (take m buf)\<rparr>))"

text \<open>The first of two databases that has the entry decides.\<close>

definition find_either :: "SignatureDB \<Rightarrow> SignatureDB \<Rightarrow> EFISignature \<Rightarrow> bool c_result" where
  "find_either d1 d2 entry =
     (case db_find_entry d1 entry of
        Returned True \<Rightarrow> Returned True
      | Returned False \<Rightarrow> db_find_entry d2 entry
      | Undefined \<Rightarrow> Undefined | Diverges \<Rightarrow> Diverges)"

text \<open>The lookup is cleared to zero, so its type is \<open>SB_SIG_TYPE_NONE\<close>.\<close>

definition sb_is_in_dbx :: "SecureBootVars \<Rightarrow> bytes option \<Rightarrow> u32 \<Rightarrow> bool c_result" where
  "sb_is_in_dbx sb hash hash_size =
     (case hash of None \<Rightarrow> Returned False
      | Some h \<Rightarrow>
          (case sb_lookup SB_SIG_TYPE_NONE h hash_size of
             None \<Rightarrow> Undefined
           | Some lookup \<Rightarrow> find_either (sb_dbx sb) (sb_dbr sb) lookup))"

definition sb_verify_image ::
  "SecureBootVars \<Rightarrow> bytes option \<Rightarrow> u32 \<Rightarrow> bytes option \<Rightarrow> u32 \<Rightarrow> bool c_result" where
  "sb_verify_image sb image_hash hash_size sig sig_size =
     (case (image_hash, sig) of
        (Some h, Some s) \<Rightarrow>
          if sb_setup_mode sb then Returned True
          else if \<not> sb_secure_boot sb then Returned True
          else (case sb_is_in_dbx sb image_hash hash_size of
                  Returned True \<Rightarrow> Returned False
                | Returned False \<Rightarrow>
                    (case sb_is_in_dbx sb sig sig_size of
                       Returned True \<Rightarrow> Returned False
                     | Returned False \<Rightarrow>
                         (case sb_lookup SB_SIG_TYPE_SHA256_HASH h hash_size of
                            None \<Rightarrow> Undefined
                          | Some lookup \<Rightarrow> find_either (sb_db sb) (sb_dbt sb) lookup)
                     | Undefined \<Rightarrow> Undefined | Diverges \<Rightarrow> Diverges)
                | Undefined \<Rightarrow> Undefined | Diverges \<Rightarrow> Diverges)
      | _ \<Rightarrow> Returned False)"

definition sb_remove_db :: "SecureBootVars \<Rightarrow> EFISignature \<Rightarrow> (SecureBootVars \<times> bool) c_result" where
  "sb_remove_db sb entry =
     (if sb_setup_mode sb then Returned (sb, True)
      else case db_remove_entry (sb_db sb) entry of
             Returned (d, r) \<Rightarrow> Returned (sb\<lparr>sb_db := d\<rparr>, r) | Undefined \<Rightarrow> Undefined | Diverges \<Rightarrow> Diverges)"

definition sb_remove_dbx :: "SecureBootVars \<Rightarrow> EFISignature \<Rightarrow> (SecureBootVars \<times> bool) c_result" where
  "sb_remove_dbx sb entry =
     (if sb_setup_mode sb then Returned (sb, True)
      else case db_remove_entry (sb_dbx sb) entry of
             Returned (d, r) \<Rightarrow> Returned (sb\<lparr>sb_dbx := d\<rparr>, r) | Undefined \<Rightarrow> Undefined | Diverges \<Rightarrow> Diverges)"

definition sb_delete_pk :: "SecureBootVars \<Rightarrow> SecureBootVars \<times> bool" where
  "sb_delete_pk sb =
     (if sb_setup_mode sb then (sb\<lparr>sb_pk := zero_db\<rparr>, True)
      else if db_count (sb_pk sb) > 0
      then (sb\<lparr>sb_pk := zero_db, sb_setup_mode := True, sb_secure_boot := False\<rparr>, True)
      else (sb\<lparr>sb_setup_mode := True, sb_secure_boot := False\<rparr>, True))"

section \<open>Databases as lists\<close>

definition db_wf :: "SignatureDB \<Rightarrow> bool" where
  "db_wf d \<longleftrightarrow> length (db_entries d) = 64 \<and> unat (db_count d) \<le> 64 \<and> (\<forall>e \<in> set (db_entries d). length (es_data e) = 512)"

definition db_list :: "SignatureDB \<Rightarrow> EFISignature list" where
  "db_list d = take (unat (db_count d)) (db_entries d)"

text \<open>The entries that a lookup of the given type and bytes finds.\<close>

definition same_entry :: "SignatureType \<Rightarrow> nat \<Rightarrow> bytes \<Rightarrow> EFISignature \<Rightarrow> bool" where
  "same_entry ty n bs e \<longleftrightarrow> es_type e = ty \<and> unat (es_size e) = n \<and> take n (es_data e) = take n bs"

definition listed :: "SignatureType \<Rightarrow> nat \<Rightarrow> bytes \<Rightarrow> SignatureDB \<Rightarrow> bool" where
  "listed ty n bs d \<longleftrightarrow> (\<exists>e \<in> set (db_list d). same_entry ty n bs e)"

lemma find_match_index:
  assumes "unat (es_size entry) \<le> 512"
  shows "find_match es entry = Returned (find_index (same_entry (es_type entry) (unat (es_size entry)) (es_data entry)) es)"
proof (induction es)
  case (Cons e es)
  have "entry_matches e entry = Returned (same_entry (es_type entry) (unat (es_size entry)) (es_data entry) e)"
    using assms by (auto simp: entry_matches_def same_entry_def SB_MAX_SIG_SIZE_def word_unat_eq_iff)
  then show ?case using Cons by simp
qed simp

lemma listed_index: "listed ty n bs d \<longleftrightarrow> find_index (same_entry ty n bs) (db_list d) \<noteq> None"
  using find_index_None_iff [of "same_entry ty n bs" "db_list d"] by (simp add: listed_def)

lemma db_find_entry_listed:
  "unat (es_size entry) \<le> 512 \<Longrightarrow>
    db_find_entry d entry = Returned (listed (es_type entry) (unat (es_size entry)) (es_data entry) d)"
  by (simp add: db_find_entry_def find_match_index listed_index db_list_def)

lemma db_add_list:
  assumes "db_wf d"
  shows "snd (db_add_entry d e) \<longleftrightarrow> length (db_list d) < 64"
    and "db_list (fst (db_add_entry d e)) = (if length (db_list d) < 64 then db_list d @ [e] else db_list d)"
    and "length (es_data e) = 512 \<Longrightarrow> db_wf (fst (db_add_entry d e))"
proof -
  have len: "length (db_list d) = unat (db_count d)" using assms by (simp add: db_list_def db_wf_def)
  have full: "db_count d \<ge> of_nat SB_MAX_SIGNATURES_PER_DB \<longleftrightarrow> \<not> unat (db_count d) < 64"
    by (auto simp: SB_MAX_SIGNATURES_PER_DB_def word_le_nat_alt)
  have add: "db_add_entry d e = (if unat (db_count d) < 64
      then (d\<lparr>db_entries := (db_entries d)[unat (db_count d) := e], db_count := db_count d + 1\<rparr>, True) else (d, False))"
    by (simp only: db_add_entry_def full not_not if_not_P) simp
  show "snd (db_add_entry d e) \<longleftrightarrow> length (db_list d) < 64"
    by (simp add: add len)
  have s: "unat (db_count d + 1) = Suc (unat (db_count d))" if "unat (db_count d) < 64"
    using that by (intro unat_suc) simp
  show "db_list (fst (db_add_entry d e)) = (if length (db_list d) < 64 then db_list d @ [e] else db_list d)"
  proof (cases "unat (db_count d) < 64")
    case True
    then show ?thesis using assms s [OF True] len by (simp add: add db_list_def db_wf_def take_Suc_conv_app_nth)
  next
    case False
    then show ?thesis using len by (simp add: add)
  qed
  show "db_wf (fst (db_add_entry d e))" if "length (es_data e) = 512"
  proof (cases "unat (db_count d) < 64")
    case True
    have "set ((db_entries d)[unat (db_count d) := e]) \<subseteq> insert e (set (db_entries d))" by (rule set_update_subset_insert)
    then show ?thesis using assms s [OF True] True that by (auto simp: add db_wf_def)
  next
    case False
    then show ?thesis using assms by (simp add: add)
  qed
qed

text \<open>The shift of the removal: the entries behind the removed one move down by one place.\<close>

lemma shift_down:
  assumes "k < length es" and "t \<le> k"
  shows "fold (\<lambda>i es. es[i := es ! (i + 1)]) [t..<k] es = take t es @ sub_range es (t + 1) (k - t) @ drop k es"
  using assms
proof (induction k)
  case 0
  then show ?case by (simp add: sub_range_def)
next
  case (Suc k)
  show ?case
  proof (cases "t = Suc k")
    case True
    then show ?thesis by (simp add: sub_range_def)
  next
    case False
    let ?f = "take t es @ sub_range es (t + 1) (k - t) @ drop k es"
    have IH: "fold (\<lambda>i es. es[i := es ! (i + 1)]) [t..<k] es = ?f" using Suc False by simp
    have len: "length (take t es @ sub_range es (t + 1) (k - t)) = k" using Suc.prems False by simp
    have "?f[k := ?f ! (k + 1)] = take t es @ sub_range es (t + 1) (k - t) @ (drop k es)[0 := es ! (k + 1)]"
      using len Suc.prems by (simp add: list_update_append nth_append)
    also have "(drop k es)[0 := es ! (k + 1)] = es ! (k + 1) # drop (Suc k) es"
      using Suc.prems by (simp add: Cons_nth_drop_Suc [symmetric, of k])
    also have "sub_range es (t + 1) (k - t) @ es ! (k + 1) # drop (Suc k) es
        = sub_range es (t + 1) (Suc k - t) @ drop (Suc k) es"
      using Suc.prems False by (simp add: sub_range_def Suc_diff_le take_Suc_conv_app_nth)
    finally show ?thesis using IH False Suc.prems by simp
  qed
qed

lemma db_remove_list:
  assumes "db_wf d" and "unat (es_size e) \<le> 512"
  defines "P \<equiv> same_entry (es_type e) (unat (es_size e)) (es_data e)"
  shows "\<exists>d'. db_remove_entry d e = Returned (d', listed (es_type e) (unat (es_size e)) (es_data e) d) \<and> db_wf d'
    \<and> db_list d' = (case find_index P (db_list d) of None \<Rightarrow> db_list d
        | Some t \<Rightarrow> take t (db_list d) @ drop (t + 1) (db_list d))"
proof (cases "find_index P (db_list d)")
  case None
  then have "db_remove_entry d e = Returned (d, False)"
    using find_match_index [OF assms(2), of "db_list d"] by (simp add: db_remove_entry_def P_def db_list_def)
  then show ?thesis using None assms(1) by (simp add: listed_index P_def)
next
  case (Some t)
  let ?n = "unat (db_count d)" and ?es = "db_entries d"
  have t: "t < ?n" "t < length (db_list d)" and n: "?n \<le> 64" "length ?es = 64"
    using find_index_SomeD [OF Some] assms(1) by (auto simp: db_list_def db_wf_def)
  have n1: "unat (db_count d - 1) = ?n - 1" using t(1) by (simp add: unat_minus_one word_unat_eq_iff)
  define es where "es = fold (\<lambda>i es. es[i := es ! (i + 1)]) [t..<?n - 1] ?es"
  have es: "es = take t ?es @ sub_range ?es (t + 1) (?n - 1 - t) @ drop (?n - 1) ?es"
    unfolding es_def using t n by (intro shift_down) auto
  have r: "db_remove_entry d e = Returned (d\<lparr>db_entries := es, db_count := db_count d - 1\<rparr>, True)"
    using Some find_match_index [OF assms(2), of "db_list d"]
    by (simp add: db_remove_entry_def P_def db_list_def es_def n1)
  have "set es \<subseteq> set ?es"
    unfolding es sub_range_def by (auto dest: in_set_takeD in_set_dropD)
  then have wf: "db_wf (d\<lparr>db_entries := es, db_count := db_count d - 1\<rparr>)"
    using assms(1) n1 n t unfolding db_wf_def by (auto simp: es)
  have "take (?n - 1) es = take t ?es @ sub_range ?es (t + 1) (?n - 1 - t)"
    using t n by (simp add: es)
  then have l: "db_list (d\<lparr>db_entries := es, db_count := db_count d - 1\<rparr>) = take t (db_list d) @ drop (t + 1) (db_list d)"
    using t n n1 by (simp add: db_list_def sub_range_def drop_take min_def)
  have "listed (es_type e) (unat (es_size e)) (es_data e) d"
    using Some by (simp add: listed_index P_def)
  then show ?thesis using r wf l Some by simp
qed


section \<open>The verdict on an image\<close>

lemma sb_lookup_props:
  assumes "unat n \<le> 512" and "unat n \<le> length buf"
  shows "\<exists>l. sb_lookup ty buf n = Some l \<and> es_type l = ty \<and> unat (es_size l) = unat n \<and> take (unat n) (es_data l) = take (unat n) buf"
  using assms take_blit_0 [of "take (unat n) buf" "zeros 512"]
  by (auto simp: sb_lookup_def Let_def SB_MAX_SIG_SIZE_def)

lemma listed_cong: "take n bs = take n cs \<Longrightarrow> listed ty n bs d = listed ty n cs d"
  by (simp add: listed_def same_entry_def)

lemma find_either_listed:
  assumes "unat n \<le> 512" and "unat n \<le> length buf"
  shows "\<exists>l. sb_lookup ty buf n = Some l
    \<and> find_either d1 d2 l = Returned (listed ty (unat n) buf d1 \<or> listed ty (unat n) buf d2)"
proof -
  obtain l where l: "sb_lookup ty buf n = Some l" "es_type l = ty" "unat (es_size l) = unat n"
    "take (unat n) (es_data l) = take (unat n) buf" using sb_lookup_props [OF assms, of ty] by blast
  then show ?thesis
    using db_find_entry_listed [of l d1] db_find_entry_listed [of l d2] assms(1)
      listed_cong [of "unat n" "es_data l" buf]
    by (auto simp: find_either_def split: bool.split)
qed

definition sb_blacklisted :: "SecureBootVars \<Rightarrow> bytes \<Rightarrow> nat \<Rightarrow> bool" where
  "sb_blacklisted sb bs n \<longleftrightarrow> listed SB_SIG_TYPE_NONE n bs (sb_dbx sb) \<or> listed SB_SIG_TYPE_NONE n bs (sb_dbr sb)"

lemma sb_is_in_dbx_blacklisted:
  "unat n \<le> 512 \<Longrightarrow> unat n \<le> length h \<Longrightarrow> sb_is_in_dbx sb (Some h) n = Returned (sb_blacklisted sb h (unat n))"
  using find_either_listed [of n h SB_SIG_TYPE_NONE "sb_dbx sb" "sb_dbr sb"]
  by (auto simp: sb_is_in_dbx_def sb_blacklisted_def)

lemma sb_verify_image_verdict:
  assumes "unat hn \<le> 512" "unat hn \<le> length h" "unat sn \<le> 512" "unat sn \<le> length s"
  shows "sb_verify_image sb (Some h) hn (Some s) sn = Returned
    (sb_setup_mode sb \<or> \<not> sb_secure_boot sb
     \<or> \<not> sb_blacklisted sb h (unat hn) \<and> \<not> sb_blacklisted sb s (unat sn)
       \<and> (listed SB_SIG_TYPE_SHA256_HASH (unat hn) h (sb_db sb) \<or> listed SB_SIG_TYPE_SHA256_HASH (unat hn) h (sb_dbt sb)))"
  using find_either_listed [OF assms(1,2), of SB_SIG_TYPE_SHA256_HASH "sb_db sb" "sb_dbt sb"]
    sb_is_in_dbx_blacklisted [OF assms(1,2), of sb] sb_is_in_dbx_blacklisted [OF assms(3,4), of sb]
  by (auto simp: sb_verify_image_def split: bool.split)

section \<open>Runs\<close>

datatype sb_op = SbInit | SbEnrollPk EFISignature | SbEnrollKek EFISignature | SbEnrollDb EFISignature
  | SbEnrollDbx EFISignature | SbEnrollDbt EFISignature | SbEnrollDbr EFISignature
  | SbRemoveDb EFISignature | SbRemoveDbx EFISignature | SbDeletePk

fun sb_step :: "sb_op \<Rightarrow> SecureBootVars \<Rightarrow> SecureBootVars c_result" where
  "sb_step SbInit sb = Returned sb_init"
| "sb_step (SbEnrollPk e) sb = Returned (fst (sb_enroll_pk sb e))"
| "sb_step (SbEnrollKek e) sb = Returned (fst (sb_enroll_kek sb e))"
| "sb_step (SbEnrollDb e) sb = Returned (fst (sb_enroll_db sb e))"
| "sb_step (SbEnrollDbx e) sb = Returned (fst (sb_enroll_dbx sb e))"
| "sb_step (SbEnrollDbt e) sb = Returned (fst (sb_enroll_dbt sb e))"
| "sb_step (SbEnrollDbr e) sb = Returned (fst (sb_enroll_dbr sb e))"
| "sb_step (SbRemoveDb e) sb =
     (case sb_remove_db sb e of Returned (s, _) \<Rightarrow> Returned s | Undefined \<Rightarrow> Undefined | Diverges \<Rightarrow> Diverges)"
| "sb_step (SbRemoveDbx e) sb =
     (case sb_remove_dbx sb e of Returned (s, _) \<Rightarrow> Returned s | Undefined \<Rightarrow> Undefined | Diverges \<Rightarrow> Diverges)"
| "sb_step SbDeletePk sb = Returned (fst (sb_delete_pk sb))"

fun sb_run :: "sb_op list \<Rightarrow> SecureBootVars \<Rightarrow> SecureBootVars c_result" where
  "sb_run [] sb = Returned sb"
| "sb_run (p # ps) sb =
     (case sb_step p sb of Returned s \<Rightarrow> sb_run ps s | Undefined \<Rightarrow> Undefined | Diverges \<Rightarrow> Diverges)"

text \<open>The entry of an operation: the array of the struct, and a size that fits it.\<close>

fun sb_op_entry :: "sb_op \<Rightarrow> EFISignature option" where
  "sb_op_entry (SbEnrollPk e) = Some e"
| "sb_op_entry (SbEnrollKek e) = Some e"
| "sb_op_entry (SbEnrollDb e) = Some e"
| "sb_op_entry (SbEnrollDbx e) = Some e"
| "sb_op_entry (SbEnrollDbt e) = Some e"
| "sb_op_entry (SbEnrollDbr e) = Some e"
| "sb_op_entry (SbRemoveDb e) = Some e"
| "sb_op_entry (SbRemoveDbx e) = Some e"
| "sb_op_entry _ = None"

definition sb_op_ok :: "sb_op \<Rightarrow> bool" where
  "sb_op_ok p \<longleftrightarrow> (case sb_op_entry p of None \<Rightarrow> True | Some e \<Rightarrow> length (es_data e) = 512 \<and> unat (es_size e) \<le> 512)"

definition sb_inv :: "SecureBootVars \<Rightarrow> bool" where
  "sb_inv sb \<longleftrightarrow> db_wf (sb_pk sb) \<and> db_wf (sb_kek sb) \<and> db_wf (sb_db sb) \<and> db_wf (sb_dbx sb) \<and> db_wf (sb_dbt sb)
     \<and> db_wf (sb_dbr sb) \<and> \<not> sb_secure_boot sb \<and> length (db_list (sb_pk sb)) \<le> 1
     \<and> (\<not> sb_setup_mode sb \<longrightarrow> length (db_list (sb_pk sb)) = 1)"

lemma zero_db_wf [simp]: "db_wf zero_db" "db_list zero_db = []"
  by (simp_all add: zero_db_def db_wf_def db_list_def zero_signature_def)

lemma sb_inv_init: "sb_inv sb_init"
  by (simp add: sb_inv_def sb_init_def)

lemma db_clear: "db_wf d \<Longrightarrow> db_wf (d\<lparr>db_count := 0\<rparr>)" "db_list (d\<lparr>db_count := 0\<rparr>) = []"
  by (simp_all add: db_wf_def db_list_def)

lemma sb_inv_enroll_pk:
  assumes "sb_inv sb" and "length (es_data e) = 512"
  shows "sb_inv (fst (sb_enroll_pk sb e))"
proof (cases "\<not> sb_setup_mode sb \<and> db_count (sb_pk sb) > 0")
  case False
  let ?d = "(sb_pk sb)\<lparr>db_count := 0\<rparr>"
  have wf: "db_wf ?d" using assms(1) db_clear by (simp add: sb_inv_def)
  define pk' where "pk' = fst (db_add_entry ?d e)"
  have "snd (db_add_entry ?d e)" "db_list pk' = [e]" and w: "db_wf pk'"
    using db_add_list [OF wf, of e] assms(2) db_clear(2) [of "sb_pk sb"] by (simp_all add: pk'_def)
  moreover from this have "db_add_entry ?d e = (pk', True)" by (simp add: pk'_def prod_eq_iff)
  ultimately show ?thesis using False assms(1) by (simp add: sb_enroll_pk_def sb_inv_def Let_def)
qed (use assms in \<open>simp add: sb_enroll_pk_def\<close>)

lemma sb_step_inv:
  assumes "sb_inv sb" and "sb_op_ok p"
  shows "\<exists>sb'. sb_step p sb = Returned sb' \<and> sb_inv sb'"
proof (cases p)
  case SbInit
  then show ?thesis by (simp add: sb_inv_init)
next
  case (SbEnrollPk e)
  then show ?thesis using sb_inv_enroll_pk [OF assms(1), of e] assms(2) by (simp add: sb_op_ok_def)
next
  case (SbRemoveDb e)
  then show ?thesis
    using db_remove_list [of "sb_db sb" e] assms
    by (auto simp: sb_op_ok_def sb_remove_db_def sb_inv_def)
next
  case (SbRemoveDbx e)
  then show ?thesis
    using db_remove_list [of "sb_dbx sb" e] assms
    by (auto simp: sb_op_ok_def sb_remove_dbx_def sb_inv_def)
next
  case SbDeletePk
  then show ?thesis using assms(1) by (auto simp: sb_delete_pk_def sb_inv_def)
next
  case (SbEnrollKek e)
  then show ?thesis using db_add_list(3) [of "sb_kek sb" e] assms
    by (auto simp: sb_op_ok_def sb_enroll_kek_def sb_inv_def split: prod.split bool.split)
next
  case (SbEnrollDb e)
  then show ?thesis using db_add_list(3) [of "sb_db sb" e] assms
    by (auto simp: sb_op_ok_def sb_enroll_db_def sb_inv_def split: prod.split bool.split)
next
  case (SbEnrollDbx e)
  then show ?thesis using db_add_list(3) [of "sb_dbx sb" e] assms
    by (auto simp: sb_op_ok_def sb_enroll_dbx_def sb_inv_def split: prod.split bool.split)
next
  case (SbEnrollDbt e)
  then show ?thesis using db_add_list(3) [of "sb_dbt sb" e] assms
    by (auto simp: sb_op_ok_def sb_enroll_dbt_def sb_inv_def split: prod.split bool.split)
next
  case (SbEnrollDbr e)
  then show ?thesis using db_add_list(3) [of "sb_dbr sb" e] assms
    by (auto simp: sb_op_ok_def sb_enroll_dbr_def sb_inv_def split: prod.split bool.split)
qed

lemma sb_run_inv:
  "sb_inv sb \<Longrightarrow> \<forall>p \<in> set ps. sb_op_ok p \<Longrightarrow> \<exists>sb'. sb_run ps sb = Returned sb' \<and> sb_inv sb'"
proof (induction ps arbitrary: sb)
  case (Cons p ps)
  obtain s where "sb_step p sb = Returned s" "sb_inv s" using sb_step_inv [of sb p] Cons.prems by auto
  then show ?case using Cons.IH [of s] Cons.prems by simp
qed simp

end
