(* ===== verification/Sig_Bigint.thy ===== *)
theory Sig_Bigint
  imports Prelude "HOL-Library.While_Combinator"
begin

text \<open>
  The big integers of \<open>mini-secure-boot/src/signature_verify.c\<close>: 64 words of 32 bits, least
  significant first, and how many of them are used.  The functions take pointers, and the code
  passes the same object twice (\<open>bigint_add(r, r, r)\<close>, \<open>bigint_mod(&b, &b, &m)\<close>), so they are
  modelled on a store: a map from objects to values, whose objects are the ones of the caller
  and the locals of \<open>bigint_mod\<close> and \<open>bigint_mod_exp\<close>.  No function calls itself, so a local is
  one object.
\<close>

section \<open>Objects and words\<close>

definition SIGBIG_MAX_WORDS :: nat where "SIGBIG_MAX_WORDS = 64"

record BigInt =
  bi_words :: "u32 list"
  bi_num_words :: u32

datatype big_obj = Arg nat | Mod_q | Exp_r | Exp_b | Exp_e | Exp_m | Exp_tmp

type_synonym big_store = "big_obj \<Rightarrow> BigInt"

text \<open>Every object has its 64 words and uses no more than those.\<close>

definition big_ok :: "BigInt \<Rightarrow> bool" where
  "big_ok n \<longleftrightarrow> length (bi_words n) = 64 \<and> unat (bi_num_words n) \<le> 64"

definition word_at :: "big_store \<Rightarrow> big_obj \<Rightarrow> nat \<Rightarrow> u32" where
  "word_at st n i = bi_words (st n) ! i"

definition used :: "big_store \<Rightarrow> big_obj \<Rightarrow> nat" where
  "used st n = unat (bi_num_words (st n))"

definition put_word :: "big_obj \<Rightarrow> nat \<Rightarrow> u32 \<Rightarrow> big_store \<Rightarrow> big_store" where
  "put_word n i w st = st(n := (st n)\<lparr>bi_words := (bi_words (st n))[i := w]\<rparr>)"

definition put_used :: "big_obj \<Rightarrow> u32 \<Rightarrow> big_store \<Rightarrow> big_store" where
  "put_used n k st = st(n := (st n)\<lparr>bi_num_words := k\<rparr>)"

text \<open>The loop \<open>while (num_words > 1 && words[num_words - 1] == 0) num_words--\<close>.\<close>

fun trim_words :: "u32 list \<Rightarrow> nat \<Rightarrow> nat" where
  "trim_words ws 0 = 0"
| "trim_words ws (Suc n) = (if 0 < n \<and> ws ! n = 0 then trim_words ws n else Suc n)"

definition bigint_trim :: "big_obj \<Rightarrow> big_store \<Rightarrow> big_store" where
  "bigint_trim n st = put_used n (of_nat (trim_words (bi_words (st n)) (used st n))) st"

section \<open>The code\<close>

definition zero_bigint :: BigInt where
  "zero_bigint = \<lparr>bi_words = replicate 64 0, bi_num_words = 0\<rparr>"

definition bigint_init :: "big_obj \<Rightarrow> big_store \<Rightarrow> big_store" where
  "bigint_init n st = st(n := zero_bigint)"

definition bigint_from_bytes :: "big_obj \<Rightarrow> bytes \<Rightarrow> nat \<Rightarrow> big_store \<Rightarrow> big_store" where
  "bigint_from_bytes n bs len st =
     (let st1 = bigint_init n st;
          len = (if len > SIGBIG_MAX_WORDS * 4 then SIGBIG_MAX_WORDS * 4 else len);
          st2 = put_used n (of_nat ((len + 3) div 4)) st1;
          st3 = fold (\<lambda>i s. put_word n (i div 4)
                        (word_at s n (i div 4) OR push_bit (i mod 4 * 8) (ucast (bs ! (len - 1 - i)))) s)
                  [0..<len] st2
      in bigint_trim n st3)"

text \<open>The buffer is the one the caller passes; its first \<open>len\<close> bytes are written.\<close>

definition bigint_to_bytes :: "BigInt \<Rightarrow> nat \<Rightarrow> bytes \<Rightarrow> bytes" where
  "bigint_to_bytes n len buf =
     fold (\<lambda>i bs. if i * 4 < len
                  then fold (\<lambda>j bs. if i * 4 + j < len
                                    then bs[len - 1 - (i * 4 + j) := ucast (drop_bit (j * 8) (bi_words n ! i))]
                                    else bs) [0..<4] bs
                  else bs)
       [0..<unat (bi_num_words n)] (blit buf 0 (zeros len))"

definition bigint_is_zero :: "BigInt \<Rightarrow> bool" where
  "bigint_is_zero n \<longleftrightarrow> bi_num_words n = 0 \<or> (bi_num_words n = 1 \<and> bi_words n ! 0 = 0)"

definition bigint_equals :: "BigInt \<Rightarrow> BigInt \<Rightarrow> bool" where
  "bigint_equals a b \<longleftrightarrow> bi_num_words a = bi_num_words b
     \<and> (\<forall>i < unat (bi_num_words a). bi_words a ! i = bi_words b ! i)"

text \<open>The comparison loop runs down from the most significant word.\<close>

fun compare_words :: "u32 list \<Rightarrow> u32 list \<Rightarrow> nat \<Rightarrow> int" where
  "compare_words as bs 0 = 0"
| "compare_words as bs (Suc i) =
     (if as ! i > bs ! i then 1 else if as ! i < bs ! i then -1 else compare_words as bs i)"

definition bigint_compare :: "BigInt \<Rightarrow> BigInt \<Rightarrow> int" where
  "bigint_compare a b =
     (if bi_num_words a > bi_num_words b then 1
      else if bi_num_words a < bi_num_words b then -1
      else compare_words (bi_words a) (bi_words b) (unat (bi_num_words a)))"

text \<open>Operands are read before the result word of the same index is written.\<close>

definition add_word :: "big_obj \<Rightarrow> big_obj \<Rightarrow> big_obj \<Rightarrow> nat \<Rightarrow> u64 \<times> big_store \<Rightarrow> u64 \<times> big_store" where
  "add_word r a b i = (\<lambda>(carry, st).
     let s0 = (if i < used st a then carry + ucast (word_at st a i) else carry);
         sum = (if i < used st b then s0 + ucast (word_at st b i) else s0)
     in (drop_bit 32 sum, put_word r i (ucast sum) st))"

definition bigint_add :: "big_obj \<Rightarrow> big_obj \<Rightarrow> big_obj \<Rightarrow> big_store \<Rightarrow> big_store" where
  "bigint_add r a b st =
     (let max_w = (if used st a > used st b then used st a else used st b);
          max_w = (if max_w > SIGBIG_MAX_WORDS then SIGBIG_MAX_WORDS else max_w);
          (carry, st1) = fold (add_word r a b) [0..<max_w] (0, st);
          st2 = put_used r (of_nat max_w) st1
      in if carry \<noteq> 0 \<and> max_w < SIGBIG_MAX_WORDS
         then put_used r (of_nat (max_w + 1)) (put_word r max_w (ucast carry) st2)
         else st2)"

text \<open>The difference is an \<open>int64_t\<close> between \<open>- 2 ^ 32\<close> and \<open>2 ^ 32\<close>, so it does not overflow.\<close>

definition sub_word :: "big_obj \<Rightarrow> big_obj \<Rightarrow> big_obj \<Rightarrow> nat \<Rightarrow> int \<times> big_store \<Rightarrow> int \<times> big_store" where
  "sub_word r a b i = (\<lambda>(borrow, st).
     let d0 = uint (word_at st a i) - borrow;
         diff = (if i < used st b then d0 - uint (word_at st b i) else d0)
     in if diff < 0 then (1, put_word r i (of_int (diff + 0x100000000)) st)
        else (0, put_word r i (of_int diff) st))"

definition bigint_sub :: "big_obj \<Rightarrow> big_obj \<Rightarrow> big_obj \<Rightarrow> big_store \<Rightarrow> big_store" where
  "bigint_sub r a b st =
     (let st1 = bigint_init r st;
          st2 = put_used r (bi_num_words (st1 a)) st1;
          (borrow, st3) = fold (sub_word r a b) [0..<used st2 a] (0, st2)
      in bigint_trim r st3)"

definition mul_word :: "u32 \<Rightarrow> BigInt \<Rightarrow> nat \<Rightarrow> nat \<Rightarrow> u64 \<times> u64 list \<Rightarrow> u64 \<times> u64 list" where
  "mul_word aw b i j = (\<lambda>(carry, acc).
     let p = ucast aw * ucast (bi_words b ! j) + acc ! (i + j) + carry
     in (drop_bit 32 p, acc[i + j := p AND 0xFFFFFFFF]))"

definition mul_row :: "BigInt \<Rightarrow> BigInt \<Rightarrow> nat \<Rightarrow> u64 list \<Rightarrow> u64 list" where
  "mul_row a b i acc =
     (let (carry, acc') = fold (mul_word (bi_words a ! i) b i) [0..<unat (bi_num_words b)] (0, acc)
      in acc'[i + unat (bi_num_words b) := carry])"

definition bigint_mul :: "big_obj \<Rightarrow> big_obj \<Rightarrow> big_obj \<Rightarrow> big_store \<Rightarrow> big_store" where
  "bigint_mul result a b st =
     (let acc = fold (mul_row (st a) (st b)) [0..<used st a] (replicate (SIGBIG_MAX_WORDS * 2) 0);
          total = used st a + used st b;
          total = (if total > SIGBIG_MAX_WORDS then SIGBIG_MAX_WORDS else total);
          st1 = fold (\<lambda>i. put_word result i (ucast (acc ! i))) [0..<total] st
      in bigint_trim result (put_used result (of_nat total) st1))"

text \<open>One bit of the long division, most significant first.\<close>

definition divmod_bit :: "big_obj \<Rightarrow> big_obj \<Rightarrow> big_obj \<Rightarrow> big_obj \<Rightarrow> nat \<Rightarrow> nat \<Rightarrow> big_store \<Rightarrow> big_store" where
  "divmod_bit q r a b i j st =
     (let st1 = bigint_add r r r st;
          st2 = put_word r 0 (word_at st1 r 0 OR (drop_bit j (word_at st1 a i) AND 1)) st1;
          st3 = (if used st2 r = 0 \<and> word_at st2 r 0 > 0 then put_used r 1 st2 else st2);
          st4 = put_word q (i div 32) (push_bit 1 (word_at st3 q (i div 32))) st3
      in if 0 \<le> bigint_compare (st4 r) (st4 b)
         then let st5 = bigint_sub r r b st4 in put_word q (i div 32) (word_at st5 q (i div 32) OR 1) st5
         else st4)"

definition bigint_divmod :: "big_obj \<Rightarrow> big_obj \<Rightarrow> big_obj \<Rightarrow> big_obj \<Rightarrow> big_store \<Rightarrow> big_store" where
  "bigint_divmod q r a b st =
     (let st1 = bigint_init r (bigint_init q st)
      in if bigint_is_zero (st1 b) then st1
         else if bigint_compare (st1 a) (st1 b) < 0 then st1(r := st1 a)
         else (let st2 = fold (\<lambda>i s. fold (divmod_bit q r a b i) (rev [0..<32]) s) (rev [0..<used st1 a]) st1;
                   st3 = put_used q (bi_num_words (st2 a)) st2
               in bigint_trim r (bigint_trim q st3)))"

definition bigint_mod :: "big_obj \<Rightarrow> big_obj \<Rightarrow> big_obj \<Rightarrow> big_store \<Rightarrow> big_store" where
  "bigint_mod result a b st = bigint_divmod Mod_q result a b st"

text \<open>The shift of the exponent by one bit.\<close>

definition shift_word :: "nat \<Rightarrow> big_store \<Rightarrow> big_store" where
  "shift_word i st =
     (let st1 = put_word Exp_e i (drop_bit 1 (word_at st Exp_e i)) st
      in if 0 < i \<and> word_at st1 Exp_e (i - 1) AND 1 \<noteq> 0
         then put_word Exp_e i (word_at st1 Exp_e i OR 0x80000000) st1 else st1)"

definition exp_step :: "big_store \<Rightarrow> big_store" where
  "exp_step st =
     (let st1 = (if word_at st Exp_e 0 AND 1 \<noteq> 0
                 then bigint_mod Exp_r Exp_tmp Exp_m (bigint_mul Exp_tmp Exp_r Exp_b st) else st);
          st2 = bigint_mul Exp_tmp Exp_b Exp_b st1;
          st3 = bigint_mod Exp_b Exp_tmp Exp_m st2;
          st4 = fold shift_word (rev [0..<used st3 Exp_e]) st3
      in bigint_trim Exp_e st4)"

definition bigint_mod_exp :: "big_obj \<Rightarrow> big_obj \<Rightarrow> big_obj \<Rightarrow> big_obj \<Rightarrow> big_store \<Rightarrow> big_store c_result" where
  "bigint_mod_exp result base ex md st =
     (let st1 = put_used Exp_r 1 (put_word Exp_r 0 1 (bigint_init Exp_r st));
          st2 = st1(Exp_b := st1 base);
          st3 = st2(Exp_e := st2 ex);
          st4 = st3(Exp_m := st3 md);
          st5 = bigint_mod Exp_b Exp_b Exp_m st4
      in case while_option (\<lambda>s. \<not> bigint_is_zero (s Exp_e)) exp_step st5 of
           Some st6 \<Rightarrow> Returned (st6(result := st6 Exp_r))
         | None \<Rightarrow> Diverges)"

section \<open>Values\<close>

definition dig_sum :: "(nat \<Rightarrow> nat) \<Rightarrow> nat \<Rightarrow> nat" where
  "dig_sum f n = (\<Sum>i<n. f i * 4294967296 ^ i)"

definition big_val :: "BigInt \<Rightarrow> nat" where
  "big_val n = dig_sum (\<lambda>i. unat (bi_words n ! i)) (unat (bi_num_words n))"

lemma dig_sum_simps [simp]:
  "dig_sum f 0 = 0" "dig_sum f (Suc n) = dig_sum f n + f n * 4294967296 ^ n"
  by (simp_all add: dig_sum_def)

lemma dig_sum_cong: "(\<And>i. i < n \<Longrightarrow> f i = g i) \<Longrightarrow> dig_sum f n = dig_sum g n"
  by (simp add: dig_sum_def)

lemma dig_sum_less: "(\<And>i. i < n \<Longrightarrow> f i < 4294967296) \<Longrightarrow> dig_sum f n < 4294967296 ^ n"
proof (induction n)
  case (Suc n)
  have "f n < 4294967296" using Suc.prems [of n] by simp
  then have "Suc (f n) \<le> 4294967296" by simp
  moreover have "dig_sum f n < 4294967296 ^ n" using Suc by simp
  ultimately have "Suc (f n) * 4294967296 ^ n \<le> 4294967296 * 4294967296 ^ n" by (simp only: mult_le_mono1)
  then show ?case using \<open>dig_sum f n < _\<close> unfolding dig_sum_simps power_Suc mult_Suc by linarith
qed simp

lemma dig_sum_extend: "m \<le> n \<Longrightarrow> (\<And>i. m \<le> i \<Longrightarrow> i < n \<Longrightarrow> f i = 0) \<Longrightarrow> dig_sum f n = dig_sum f m"
proof (induction n)
  case (Suc n)
  then show ?case by (cases "m = Suc n") auto
qed simp

lemma dig_sum_if: "m \<le> n \<Longrightarrow> dig_sum (\<lambda>i. if i < m then f i else 0) n = dig_sum f m"
  using dig_sum_extend [of m n "\<lambda>i. if i < m then f i else 0"] dig_sum_cong [of m "\<lambda>i. if i < m then f i else 0" f] by simp

text \<open>The lower digits are the remainder.\<close>

lemma dig_sum_mod:
  assumes "\<And>i. i < m \<Longrightarrow> f i < 4294967296" and "m \<le> n"
  shows "dig_sum f m = dig_sum f n mod 4294967296 ^ m"
  using assms(2)
proof (induction n rule: dec_induct)
  case base
  then show ?case using dig_sum_less [of m f] assms(1) by simp
next
  case (step n)
  have "(4294967296 ^ m :: nat) dvd f n * 4294967296 ^ n" using step(1) by (simp add: le_imp_power_dvd)
  then have "(dig_sum f n + f n * 4294967296 ^ n) mod 4294967296 ^ m = dig_sum f n mod 4294967296 ^ m"
    by (metis add_0_right mod_0_imp_dvd dvd_imp_mod_0 mod_add_right_eq)
  then show ?case using step(3) by simp
qed

lemma dig_sum_eq_0: "dig_sum f n = 0 \<longleftrightarrow> (\<forall>i < n. f i = 0)"
  by (auto simp: dig_sum_def)

lemma trim_words_props:
  "trim_words ws n \<le> n"
  "dig_sum (\<lambda>i. unat (ws ! i)) (trim_words ws n) = dig_sum (\<lambda>i. unat (ws ! i)) n"
  "1 < trim_words ws n \<Longrightarrow> ws ! (trim_words ws n - 1) \<noteq> 0"
  "trim_words ws n = 0 \<longleftrightarrow> n = 0"
  by (induction n) auto

section \<open>Frames\<close>

lemma put_word_other [simp]: "m \<noteq> n \<Longrightarrow> put_word n i w st m = st m"
  and put_used_other [simp]: "m \<noteq> n \<Longrightarrow> put_used n k st m = st m"
  and init_other [simp]: "m \<noteq> n \<Longrightarrow> bigint_init n st m = st m"
  and trim_other [simp]: "m \<noteq> n \<Longrightarrow> bigint_trim n st m = st m"
  by (simp_all add: put_word_def put_used_def bigint_init_def bigint_trim_def)

lemma put_word_same [simp]:
  "bi_words (put_word n i w st n) = (bi_words (st n))[i := w]"
  "bi_num_words (put_word n i w st m) = bi_num_words (st m)"
  by (simp_all add: put_word_def)

lemma put_used_same [simp]:
  "bi_words (put_used n k st m) = bi_words (st m)"
  "bi_num_words (put_used n k st n) = k"
  by (simp_all add: put_used_def)

lemma used_put [simp]: "used (put_word n i w st) m = used st m"
  by (simp add: used_def)

lemma init_same [simp]: "bigint_init n st n = zero_bigint"
  by (simp add: bigint_init_def)

lemma big_ok_zero [simp]: "big_ok zero_bigint"
  by (simp add: big_ok_def zero_bigint_def)

text \<open>No leading zero words, except in a zero of one word.\<close>

definition big_trimmed :: "BigInt \<Rightarrow> bool" where
  "big_trimmed n \<longleftrightarrow> (1 < unat (bi_num_words n) \<longrightarrow> bi_words n ! (unat (bi_num_words n) - 1) \<noteq> 0)"

definition big_norm :: "BigInt \<Rightarrow> bool" where
  "big_norm n \<longleftrightarrow> big_ok n \<and> big_trimmed n \<and> bi_num_words n \<noteq> 0"

lemma trim_same:
  assumes "big_ok (st n)"
  shows "big_ok (bigint_trim n st n) \<and> big_trimmed (bigint_trim n st n) \<and> big_val (bigint_trim n st n) = big_val (st n)
    \<and> unat (bi_num_words (bigint_trim n st n)) = trim_words (bi_words (st n)) (used st n)"
proof -
  have "trim_words (bi_words (st n)) (used st n) \<le> 64"
    using trim_words_props(1) [of "bi_words (st n)" "used st n"] assms by (simp add: big_ok_def used_def)
  then have "unat (of_nat (trim_words (bi_words (st n)) (used st n)) :: u32) = trim_words (bi_words (st n)) (used st n)"
    by (intro unat_of_nat_u32) simp
  then show ?thesis
    using assms trim_words_props [of "bi_words (st n)" "used st n"]
    by (simp add: bigint_trim_def big_ok_def big_val_def used_def big_trimmed_def)
qed

section \<open>Addition\<close>

lemma nat_div_mod_dig: "(s mod 4294967296 + s div 4294967296 * 4294967296 :: nat) = s"
  by simp

definition dig :: "big_store \<Rightarrow> big_obj \<Rightarrow> nat \<Rightarrow> nat" where
  "dig st n i = (if i < used st n then unat (word_at st n i) else 0)"

lemma dig_eq: "st n = st' n \<Longrightarrow> dig st n = dig st' n"
  by (intro ext) (simp add: dig_def used_def word_at_def)

lemma dig_sum_dig: "used st n \<le> k \<Longrightarrow> dig_sum (dig st n) k = big_val (st n)"
  unfolding dig_def [abs_def] by (simp add: dig_sum_if big_val_def used_def word_at_def)

lemma dig_less: "dig st n i < 4294967296"
  using unat_u32_bound by (simp add: dig_def)

lemma add_carry:
  fixes c :: u64 and st :: big_store and a b :: big_obj and i :: nat
  assumes "c = 0 \<or> c = 1"
  defines "s0 \<equiv> (if i < used st a then c + ucast (word_at st a i) else c)"
  defines "s \<equiv> (if i < used st b then s0 + ucast (word_at st b i) else s0)"
  shows "unat s = unat c + dig st a i + dig st b i" "drop_bit 32 s = 0 \<or> drop_bit 32 s = 1"
    "unat (ucast s :: u32) + unat (drop_bit 32 s) * 4294967296 = unat c + dig st a i + dig st b i"
proof -
  have c: "unat c \<le> 1" using assms(1) by auto
  have da: "dig st a i < 4294967296" and db: "dig st b i < 4294967296" by (rule dig_less)+
  have s0: "unat s0 = unat c + dig st a i"
    using c da unfolding s0_def dig_def by (auto simp: unat_word_ariths(1))
  show s: "unat s = unat c + dig st a i + dig st b i"
    using c da db s0 unfolding s_def dig_def by (auto simp: unat_word_ariths(1))
  have d: "unat (drop_bit 32 s) = unat s div 4294967296"
    by (subst unat_drop_bit_eq) (simp add: drop_bit_eq_div)
  have "unat s div 4294967296 \<le> 1" using s c da db by linarith
  with d show "drop_bit 32 s = 0 \<or> drop_bit 32 s = 1"
    by (metis le_antisym less_one linorder_not_less unat_1 unat_eq_zero word_unat_eq_iff)
  have "unat (ucast s :: u32) = unat s mod 4294967296"
    by (simp add: unsigned_ucast_eq take_bit_eq_mod)
  then show "unat (ucast s :: u32) + unat (drop_bit 32 s) * 4294967296 = unat c + dig st a i + dig st b i"
    using d s by simp
qed

text \<open>After \<open>k\<close> words: the words above \<open>k\<close> and the other objects are as before.\<close>

lemma add_loop:
  assumes "length (bi_words (st r)) = 64" and "k \<le> 64"
  shows "\<exists>c st'. fold (add_word r a b) [0..<k] (0, st) = (c, st') \<and> (c = 0 \<or> c = 1)
    \<and> (\<forall>m. m \<noteq> r \<longrightarrow> st' m = st m) \<and> bi_num_words (st' r) = bi_num_words (st r)
    \<and> length (bi_words (st' r)) = 64 \<and> (\<forall>i. k \<le> i \<longrightarrow> bi_words (st' r) ! i = bi_words (st r) ! i)
    \<and> dig_sum (\<lambda>i. unat (bi_words (st' r) ! i)) k + unat c * 4294967296 ^ k
       = dig_sum (dig st a) k + dig_sum (dig st b) k"
  using assms(2)
proof (induction k)
  case 0
  then show ?case using assms(1) by simp
next
  case (Suc k)
  then obtain c st' where IH: "fold (add_word r a b) [0..<k] (0, st) = (c, st')" "c = 0 \<or> c = 1"
    "\<forall>m. m \<noteq> r \<longrightarrow> st' m = st m" "bi_num_words (st' r) = bi_num_words (st r)"
    "length (bi_words (st' r)) = 64" "\<forall>i. k \<le> i \<longrightarrow> bi_words (st' r) ! i = bi_words (st r) ! i"
    "dig_sum (\<lambda>i. unat (bi_words (st' r) ! i)) k + unat c * 4294967296 ^ k
       = dig_sum (dig st a) k + dig_sum (dig st b) k" by auto
  have w: "used st' m = used st m" "word_at st' m k = word_at st m k" for m
    using IH(3,4,6) by (cases "m = r"; simp add: used_def word_at_def)+
  define s where "s = (if k < used st b then (if k < used st a then c + ucast (word_at st a k) else c)
     + ucast (word_at st b k) else (if k < used st a then c + ucast (word_at st a k) else c))"
  have f: "fold (add_word r a b) [0..<Suc k] (0, st) = (drop_bit 32 s, put_word r k (ucast s) st')"
    using IH(1) by (simp add: add_word_def w s_def Let_def)
  note sc = add_carry [OF IH(2), where st=st and a=a and b=b and i=k, folded s_def]
  have "dig_sum (\<lambda>i. unat ((bi_words (st' r))[k := ucast s] ! i)) k = dig_sum (\<lambda>i. unat (bi_words (st' r) ! i)) k"
    by (rule dig_sum_cong) simp
  moreover have "unat (ucast s :: u32) * 4294967296 ^ k + unat (drop_bit 32 s) * 4294967296 ^ Suc k
      = (unat c + dig st a k + dig st b k) * 4294967296 ^ k"
    using arg_cong [OF sc(3), of "\<lambda>x. x * 4294967296 ^ k"] by (simp add: algebra_simps)
  ultimately have "dig_sum (\<lambda>i. unat (bi_words (put_word r k (ucast s) st' r) ! i)) (Suc k)
      + unat (drop_bit 32 s) * 4294967296 ^ Suc k = dig_sum (dig st a) (Suc k) + dig_sum (dig st b) (Suc k)"
    using IH(5,7) Suc.prems by (simp add: algebra_simps)
  then show ?case using f sc(2) IH(3-6) by auto
qed


lemma big_val_put_used_word:
  assumes "length ws = 64" and "k < 64" and "unat w = v"
  shows "dig_sum (\<lambda>i. unat (ws[k := w] ! i)) (Suc k) = dig_sum (\<lambda>i. unat (ws ! i)) k + v * 4294967296 ^ k"
  using assms dig_sum_cong [of k "\<lambda>i. unat (ws[k := w] ! i)" "\<lambda>i. unat (ws ! i)"] by simp

lemma bigint_add_correct:
  assumes ok: "big_ok (st r)" "big_ok (st a)" "big_ok (st b)"
  shows "big_val (bigint_add r a b st r) = (big_val (st a) + big_val (st b)) mod 4294967296 ^ 64"
    and "big_ok (bigint_add r a b st r)"
    and "m \<noteq> r \<Longrightarrow> bigint_add r a b st m = st m"
proof -
  define k where "k = max (used st a) (used st b)"
  have k: "k \<le> 64" "used st a \<le> k" "used st b \<le> k"
    using ok by (simp_all add: k_def used_def big_ok_def)
  have max: "(let max_w = (if used st a > used st b then used st a else used st b)
      in if max_w > SIGBIG_MAX_WORDS then SIGBIG_MAX_WORDS else max_w) = k"
    using k by (auto simp: k_def max_def SIGBIG_MAX_WORDS_def Let_def)
  have l: "length (bi_words (st r)) = 64" using ok(1) by (simp add: big_ok_def)
  obtain c st' where f: "fold (add_word r a b) [0..<k] (0, st) = (c, st')" and c: "c = 0 \<or> c = 1"
    and fr: "\<forall>m. m \<noteq> r \<longrightarrow> st' m = st m" and len: "length (bi_words (st' r)) = 64"
    and v: "dig_sum (\<lambda>i. unat (bi_words (st' r) ! i)) k + unat c * 4294967296 ^ k = big_val (st a) + big_val (st b)"
    using add_loop [of st r k a b, OF l k(1)] unfolding dig_sum_dig [OF k(2)] dig_sum_dig [OF k(3)] by blast
  have add: "bigint_add r a b st = (if c \<noteq> 0 \<and> k < 64
      then put_used r (of_nat (k + 1)) (put_word r k (ucast c) (put_used r (of_nat k) st'))
      else put_used r (of_nat k) st')"
    using f max unfolding bigint_add_def Let_def by (simp add: SIGBIG_MAX_WORDS_def)
  have ks: "unat (of_nat k :: u32) = k" "unat (of_nat (k + 1) :: u32) = k + 1"
    using k(1) by (intro unat_of_nat_u32, simp)+
  show "m \<noteq> r \<Longrightarrow> bigint_add r a b st m = st m" unfolding add using fr by simp
  show "big_ok (bigint_add r a b st r)"
    unfolding add using len ks k by (simp add: big_ok_def del: of_nat_Suc of_nat_add)
  let ?S = "dig_sum (\<lambda>i. unat (bi_words (st' r) ! i))"
  have S: "?S k < 4294967296 ^ k" by (rule dig_sum_less) (rule unat_u32_bound)
  have B: "(4294967296 ^ k :: nat) \<le> 4294967296 ^ 64" using k(1) by (intro power_increasing) simp_all
  have c1: "unat c * 4294967296 ^ k \<le> 4294967296 ^ k" using c by auto
  show "big_val (bigint_add r a b st r) = (big_val (st a) + big_val (st b)) mod 4294967296 ^ 64"
  proof (cases "k < 64")
    case True
    then have "(4294967296 ^ Suc k :: nat) \<le> 4294967296 ^ 64" by (intro power_increasing) simp_all
    moreover have "?S k + unat c * 4294967296 ^ k < 4294967296 ^ Suc k"
      using S c1 unfolding power_Suc by linarith
    ultimately have "(big_val (st a) + big_val (st b)) mod 4294967296 ^ 64 = ?S k + unat c * 4294967296 ^ k"
      using v by (simp only: mod_less less_le_trans)
    moreover have "unat (ucast c :: u32) = unat c" using c by auto
    ultimately show ?thesis
      using True big_val_put_used_word [of "bi_words (st' r)" k "ucast c" "unat c"] len ks
      unfolding add by (auto simp: big_val_def simp del: of_nat_Suc of_nat_add dig_sum_simps)
  next
    case False
    then have k64: "k = 64" using k(1) by linarith
    have "(big_val (st a) + big_val (st b)) mod 4294967296 ^ k = ?S k"
      unfolding v [symmetric] using S by (simp only: mod_mult_self1 mod_less)
    then show ?thesis using False ks unfolding add k64 by (simp add: big_val_def)
  qed
qed

section \<open>Comparison\<close>

lemma big_val_bounds:
  assumes "0 < unat (bi_num_words n)" and "bi_words n ! (unat (bi_num_words n) - 1) \<noteq> 0"
  shows "4294967296 ^ (unat (bi_num_words n) - 1) \<le> big_val n"
proof -
  obtain k where k: "unat (bi_num_words n) = Suc k" using assms(1) gr0_implies_Suc by blast
  then have "1 \<le> unat (bi_words n ! k)" using assms(2) by (simp add: Suc_leI unat_gt_0)
  then have "1 * 4294967296 ^ k \<le> unat (bi_words n ! k) * 4294967296 ^ k" by (rule mult_le_mono1)
  then show ?thesis unfolding big_val_def k dig_sum_simps diff_Suc_1 by linarith
qed

lemma big_val_less: "big_val n < 4294967296 ^ unat (bi_num_words n)"
  unfolding big_val_def by (rule dig_sum_less) (rule unat_u32_bound)

lemma sgn_less: "x < y \<Longrightarrow> sgn (int x - int y) = -1" "y < x \<Longrightarrow> sgn (int x - int y) = 1"
  by (simp_all add: sgn_if)

lemma compare_words_sound:
  "compare_words as bs n = sgn (int (dig_sum (\<lambda>i. unat (as ! i)) n) - int (dig_sum (\<lambda>i. unat (bs ! i)) n))"
proof (induction n)
  case (Suc n)
  have lt: "dig_sum (\<lambda>i. unat (xs ! i)) n + unat x * 4294967296 ^ n
      < dig_sum (\<lambda>i. unat (ys ! i)) n + unat y * 4294967296 ^ n" if "x < y" for xs ys :: "u32 list" and x y :: u32
  proof -
    have "Suc (unat x) * 4294967296 ^ n \<le> unat y * 4294967296 ^ n"
      using that by (intro mult_le_mono1) (simp add: word_less_nat_alt Suc_leI)
    moreover have "dig_sum (\<lambda>i. unat (xs ! i)) n < 4294967296 ^ n" by (rule dig_sum_less) (rule unat_u32_bound)
    ultimately show ?thesis unfolding mult_Suc by linarith
  qed
  show ?case
  proof (cases "as ! n" "bs ! n" rule: linorder_cases)
    case less
    then show ?thesis using sgn_less(1) [OF lt [OF less, of as bs]] by (simp del: of_nat_add of_nat_mult add: not_less_iff_gr_or_eq)
  next
    case equal
    then show ?thesis using Suc by simp
  next
    case greater
    then show ?thesis using sgn_less(2) [OF lt [OF greater, of bs as]] by (simp del: of_nat_add of_nat_mult)
  qed
qed simp

lemma bigint_compare_correct:
  assumes "big_norm a" and "big_norm b"
  shows "bigint_compare a b = sgn (int (big_val a) - int (big_val b))"
proof -
  have lt: "big_val x < big_val y" if "bi_num_words x < bi_num_words y" and "big_norm x" and "big_norm y" for x y
  proof -
    have u: "unat (bi_num_words x) < unat (bi_num_words y)" using that(1) by (simp add: word_less_nat_alt)
    have "0 < unat (bi_num_words x)" using that(2) by (simp add: big_norm_def unat_gt_0)
    then have "big_val y \<ge> 4294967296 ^ (unat (bi_num_words y) - 1)"
      using u that(3) by (intro big_val_bounds) (auto simp: big_norm_def big_trimmed_def)
    moreover have "(4294967296 :: nat) ^ unat (bi_num_words x) \<le> 4294967296 ^ (unat (bi_num_words y) - 1)"
      using u by (intro power_increasing) auto
    ultimately show ?thesis using big_val_less [of x] by linarith
  qed
  show ?thesis
    using lt [of a b] lt [of b a] assms compare_words_sound [of "bi_words a" "bi_words b" "unat (bi_num_words a)"]
    by (cases "bi_num_words a" "bi_num_words b" rule: linorder_cases) (auto simp: bigint_compare_def big_val_def)
qed


section \<open>Subtraction\<close>

lemma sub_borrow:
  fixes bo :: int and st :: big_store and a b :: big_obj and i :: nat
  assumes "bo = 0 \<or> bo = 1" and "i < used st a"
  defines "diff \<equiv> (if i < used st b then uint (word_at st a i) - bo - uint (word_at st b i) else uint (word_at st a i) - bo)"
  shows "uint (of_int (if diff < 0 then diff + 4294967296 else diff) :: u32) + int (dig st b i) + bo
    = int (dig st a i) + (if diff < 0 then 4294967296 else 0)"
proof -
  have db: "dig st b i < 4294967296" and da: "dig st a i < 4294967296" by (rule dig_less)+
  have d: "diff = int (dig st a i) - bo - int (dig st b i)"
    using assms(2) by (simp add: diff_def dig_def)
  let ?d = "if diff < 0 then diff + 4294967296 else diff"
  have "0 \<le> ?d" "?d < 4294967296" using assms(1) db da d by (auto split: if_splits)
  moreover have "uint (of_int x :: u32) = x" if "0 \<le> x" and "x < 4294967296" for x
    using that by (simp add: uint_word_of_int_eq take_bit_int_eq_self)
  ultimately have "uint (of_int ?d :: u32) = ?d" by blast
  then show ?thesis using d by simp
qed


lemma sub_loop:
  assumes "length (bi_words (st r)) = 64" and "k \<le> used st a" and "used st a \<le> 64" and "r \<noteq> a" and "r \<noteq> b"
  shows "\<exists>bo st'. fold (sub_word r a b) [0..<k] (0, st) = (bo, st') \<and> (bo = 0 \<or> bo = 1)
    \<and> (\<forall>m. m \<noteq> r \<longrightarrow> st' m = st m) \<and> bi_num_words (st' r) = bi_num_words (st r)
    \<and> length (bi_words (st' r)) = 64
    \<and> int (dig_sum (\<lambda>i. unat (bi_words (st' r) ! i)) k) + int (dig_sum (dig st b) k)
       = int (dig_sum (dig st a) k) + bo * 4294967296 ^ k"
  using assms(2)
proof (induction k)
  case 0
  then show ?case using assms(1) by simp
next
  case (Suc k)
  then obtain bo st' where IH: "fold (sub_word r a b) [0..<k] (0, st) = (bo, st')" "bo = 0 \<or> bo = 1"
    "\<forall>m. m \<noteq> r \<longrightarrow> st' m = st m" "bi_num_words (st' r) = bi_num_words (st r)" "length (bi_words (st' r)) = 64"
    "int (dig_sum (\<lambda>i. unat (bi_words (st' r) ! i)) k) + int (dig_sum (dig st b) k)
       = int (dig_sum (dig st a) k) + bo * 4294967296 ^ k" by auto
  have w: "used st' b = used st b" "word_at st' a k = word_at st a k" "word_at st' b k = word_at st b k"
    using IH(3) assms(4,5) by (simp_all add: used_def word_at_def)
  define diff where "diff = (if k < used st b then uint (word_at st a k) - bo - uint (word_at st b k)
     else uint (word_at st a k) - bo)"
  define w where "w = (of_int (if diff < 0 then diff + 4294967296 else diff) :: u32)"
  have f: "fold (sub_word r a b) [0..<Suc k] (0, st) = (if diff < 0 then 1 else 0, put_word r k w st')"
  proof -
    have "sub_word r a b k (bo, st') = (if diff < 0 then 1 else 0, put_word r k w st')"
      unfolding sub_word_def Let_def case_prod_conv w diff_def [symmetric] w_def
      by (cases "diff < 0") (simp_all only: if_True if_False)
    with IH(1) show ?thesis by simp
  qed
  have sc: "int (unat w) + int (dig st b k) + bo = int (dig st a k) + (if diff < 0 then 1 else 0) * 4294967296"
    using sub_borrow [OF IH(2), where st=st and a=a and b=b and i=k, folded diff_def] Suc.prems
    unfolding w_def by auto
  have "dig_sum (\<lambda>i. unat ((bi_words (st' r))[k := w] ! i)) (Suc k)
      = dig_sum (\<lambda>i. unat (bi_words (st' r) ! i)) k + unat w * 4294967296 ^ k"
    using IH(5) Suc.prems assms(3) by (intro big_val_put_used_word) auto
  moreover have "int (unat w) * 4294967296 ^ k + int (dig st b k) * 4294967296 ^ k + bo * 4294967296 ^ k
      = int (dig st a k) * 4294967296 ^ k + (if diff < 0 then 1 else 0) * 4294967296 ^ Suc k"
    using arg_cong [OF sc, of "\<lambda>x. x * 4294967296 ^ k"] by (simp add: algebra_simps)
  ultimately have "int (dig_sum (\<lambda>i. unat (bi_words (put_word r k w st' r) ! i)) (Suc k)) + int (dig_sum (dig st b) (Suc k))
      = int (dig_sum (dig st a) (Suc k)) + (if diff < 0 then 1 else 0) * 4294967296 ^ Suc k"
    using IH(6) unfolding put_word_same by (simp add: algebra_simps del: power_Suc)
  then show ?case using f IH(3-5) by (auto simp del: dig_sum_simps)
qed

lemma bigint_sub_correct:
  assumes ok: "big_ok (st a)" and le: "big_val (st b) \<le> big_val (st a)"
    and ne: "r \<noteq> a" "r \<noteq> b"
  shows "big_val (bigint_sub r a b st r) = big_val (st a) - big_val (st b)"
    and "big_ok (bigint_sub r a b st r)"
    and "big_trimmed (bigint_sub r a b st r)"
    and "m \<noteq> r \<Longrightarrow> bigint_sub r a b st m = st m"
proof -
  define st2 where "st2 = put_used r (bi_num_words (st a)) (bigint_init r st)"
  define k where "k = used st a"
  have k: "k \<le> 64" using ok by (simp add: big_ok_def used_def k_def)
  have s2: "st2 a = st a" "st2 b = st b" "bi_num_words (st2 r) = bi_num_words (st a)"
    "length (bi_words (st2 r)) = 64" "\<forall>m. m \<noteq> r \<longrightarrow> st2 m = st m"
    using ne by (simp_all add: st2_def zero_bigint_def)
  then have u: "used st2 a = k" "used st2 b = used st b" "dig st2 a = dig st a" "dig st2 b = dig st b"
    using dig_eq [of st2 a st] dig_eq [of st2 b st] by (simp_all add: used_def k_def)
  have "dig_sum (dig st b) k = big_val (st b)"
  proof -
    have "big_val (st b) < 4294967296 ^ k" using le big_val_less [of "st a"] by (simp add: k_def used_def)
    then show ?thesis
      using dig_sum_mod [of k "dig st b" "max k (used st b)"] dig_less dig_sum_dig [of st b "max k (used st b)"] by simp
  qed
  moreover have "dig_sum (dig st a) k = big_val (st a)" by (rule dig_sum_dig) (simp add: k_def)
  ultimately have vs: "dig_sum (dig st b) k = big_val (st b)" "dig_sum (dig st a) k = big_val (st a)" by blast+
  obtain bo st' where f: "fold (sub_word r a b) [0..<k] (0, st2) = (bo, st')" and bo: "bo = 0 \<or> bo = 1"
    and fr: "\<forall>m. m \<noteq> r \<longrightarrow> st' m = st2 m" and nw: "bi_num_words (st' r) = bi_num_words (st2 r)"
    and len: "length (bi_words (st' r)) = 64"
    and v: "int (dig_sum (\<lambda>i. unat (bi_words (st' r) ! i)) k) + int (big_val (st b)) = int (big_val (st a)) + bo * 4294967296 ^ k"
    using sub_loop [where st=st2 and r=r and k=k and a=a and b=b, unfolded u vs, OF s2(4) order_refl k ne] by (elim exE conjE) (rule that)
  have sub: "bigint_sub r a b st = bigint_trim r st'"
    using f u(1) ne unfolding bigint_sub_def Let_def by (simp add: st2_def [symmetric])
  have "dig_sum (\<lambda>i. unat (bi_words (st' r) ! i)) k < 4294967296 ^ k" by (rule dig_sum_less) (rule unat_u32_bound)
  then have "int (dig_sum (\<lambda>i. unat (bi_words (st' r) ! i)) k) < int (4294967296 ^ k)"
    by (simp only: of_nat_less_iff)
  then have "int (dig_sum (\<lambda>i. unat (bi_words (st' r) ! i)) k) < 4294967296 ^ k"
    by (simp only: of_nat_power of_nat_numeral)
  moreover have "int (big_val (st b)) \<le> int (big_val (st a))" using le by simp
  moreover have "int (dig_sum (\<lambda>i. unat (bi_words (st' r) ! i)) k) + int (big_val (st b))
      = int (big_val (st a)) + 4294967296 ^ k" if "bo = 1" using v that by simp
  ultimately have "bo \<noteq> 1" by linarith
  with bo have "bo = 0" by blast
  with v le have "big_val (st' r) = big_val (st a) - big_val (st b)"
    using nw s2(3) by (simp add: big_val_def k_def used_def)
  moreover have "big_ok (st' r)" using len nw s2(3) ok by (simp add: big_ok_def)
  ultimately show "big_val (bigint_sub r a b st r) = big_val (st a) - big_val (st b)" "big_ok (bigint_sub r a b st r)"
    "big_trimmed (bigint_sub r a b st r)"
    unfolding sub using trim_same [of st' r] by simp_all
  show "m \<noteq> r \<Longrightarrow> bigint_sub r a b st m = st m" unfolding sub using fr s2(5) by simp
qed

text \<open>On one object for result and minuend, the initialisation loses the minuend.\<close>

lemma bigint_sub_alias: "bigint_sub r r b st r = zero_bigint"
  by (simp add: bigint_sub_def bigint_trim_def put_used_def used_def zero_bigint_def bigint_init_def)


section \<open>Multiplication\<close>

definition limbs :: "'a::len word list \<Rightarrow> nat" where
  "limbs ws = dig_sum (\<lambda>i. unat (ws ! i)) (length ws)"

lemma limbs_update:
  assumes "k < length ws"
  shows "limbs (ws[k := w]) + unat (ws ! k) * 4294967296 ^ k = limbs ws + unat w * 4294967296 ^ k"
proof -
  have "(\<Sum>i<n. unat (ws[k := w] ! i) * 4294967296 ^ i) + (if k < n then unat (ws ! k) * 4294967296 ^ k else 0)
      = (\<Sum>i<n. unat (ws ! i) * 4294967296 ^ i) + (if k < n then unat w * 4294967296 ^ k else 0)" if "n \<le> length ws" for n
    using that by (induction n) (auto simp: nth_list_update less_Suc_eq)
  from this [of "length ws"] show ?thesis using assms by (simp add: limbs_def dig_sum_def)
qed

lemma mul_carry:
  fixes aw bw :: u32 and x c :: u64
  assumes "unat x < 4294967296" and "unat c < 4294967296"
  defines "p \<equiv> ucast aw * ucast bw + x + c"
  shows "unat (p AND 0xFFFFFFFF) + unat (drop_bit 32 p) * 4294967296 = unat aw * unat bw + unat x + unat c"
    and "unat (p AND 0xFFFFFFFF) < 4294967296" and "unat (drop_bit 32 p) < 4294967296"
proof -
  have "unat aw * unat bw \<le> 4294967295 * 4294967295"
    using unat_u32_bound [of aw] unat_u32_bound [of bw] by (intro mult_le_mono) auto
  moreover have m: "unat (ucast aw * ucast bw :: u64) = unat aw * unat bw"
    using calculation by (simp add: unat_word_ariths(2))
  ultimately have p: "unat p = unat aw * unat bw + unat x + unat c"
    using assms(1,2) unfolding p_def by (simp add: unat_word_ariths(1))
  have d: "unat (drop_bit 32 p) = unat p div 4294967296"
    by (subst unat_drop_bit_eq) (simp add: drop_bit_eq_div)
  have "p AND 0xFFFFFFFF = take_bit 32 p" by (simp add: take_bit_eq_mask mask_eq_exp_minus_1)
  then have t: "unat (p AND 0xFFFFFFFF) = unat p mod 4294967296"
    by (simp add: take_bit_eq_mod unat_mod)
  show "unat (p AND 0xFFFFFFFF) + unat (drop_bit 32 p) * 4294967296 = unat aw * unat bw + unat x + unat c"
    unfolding d t p [symmetric] by simp
  show "unat (p AND 0xFFFFFFFF) < 4294967296" unfolding t by simp
  show "unat (drop_bit 32 p) < 4294967296" unfolding d using unat_u64_bound [of p] by simp
qed

lemma mul_inner:
  assumes "i + j \<le> length acc" and "\<forall>k < length acc. unat (acc ! k) < 4294967296"
  shows "\<exists>c acc'. fold (mul_word aw b i) [0..<j] (0, acc) = (c, acc') \<and> length acc' = length acc
    \<and> unat c < 4294967296 \<and> (\<forall>k < length acc. unat (acc' ! k) < 4294967296)
    \<and> (\<forall>k \<ge> i + j. acc' ! k = acc ! k)
    \<and> limbs acc' + unat c * 4294967296 ^ (i + j)
      = limbs acc + unat aw * dig_sum (\<lambda>i. unat (bi_words b ! i)) j * 4294967296 ^ i"
  using assms(1)
proof (induction j)
  case 0
  then show ?case using assms(2) by simp
next
  case (Suc j)
  then obtain c acc' where IH: "fold (mul_word aw b i) [0..<j] (0, acc) = (c, acc')" "length acc' = length acc"
    "unat c < 4294967296" "\<forall>k < length acc. unat (acc' ! k) < 4294967296"
    "\<forall>k \<ge> i + j. acc' ! k = acc ! k"
    "limbs acc' + unat c * 4294967296 ^ (i + j)
      = limbs acc + unat aw * dig_sum (\<lambda>i. unat (bi_words b ! i)) j * 4294967296 ^ i"
    by (auto simp del: dig_sum_simps)
  define p where "p = ucast aw * ucast (bi_words b ! j) + acc' ! (i + j) + c"
  have f: "fold (mul_word aw b i) [0..<Suc j] (0, acc) = (drop_bit 32 p, acc'[i + j := p AND 0xFFFFFFFF])"
    using IH(1) by (simp add: mul_word_def p_def Let_def)
  have ij: "i + j < length acc'" using Suc.prems IH(2) by simp
  have x: "unat (acc' ! (i + j)) < 4294967296" using IH(4) ij IH(2) by simp
  note mc = mul_carry [OF x IH(3), of aw "bi_words b ! j", folded p_def]
  have "limbs (acc'[i + j := p AND 0xFFFFFFFF]) + unat (acc' ! (i + j)) * 4294967296 ^ (i + j)
      = limbs acc' + unat (p AND 0xFFFFFFFF) * 4294967296 ^ (i + j)"
    by (rule limbs_update [OF ij])
  moreover have "unat (p AND 0xFFFFFFFF) * 4294967296 ^ (i + j) + unat (drop_bit 32 p) * 4294967296 ^ (i + Suc j)
      = unat aw * (unat (bi_words b ! j) * 4294967296 ^ j) * 4294967296 ^ i
        + unat (acc' ! (i + j)) * 4294967296 ^ (i + j) + unat c * 4294967296 ^ (i + j)"
    using arg_cong [OF mc(1), of "\<lambda>x. x * 4294967296 ^ (i + j)"] by (simp add: algebra_simps power_add)
  moreover have "unat aw * dig_sum (\<lambda>i. unat (bi_words b ! i)) (Suc j) * 4294967296 ^ i
      = unat aw * dig_sum (\<lambda>i. unat (bi_words b ! i)) j * 4294967296 ^ i
        + unat aw * (unat (bi_words b ! j) * 4294967296 ^ j) * 4294967296 ^ i"
    by (simp add: distrib_left distrib_right)
  ultimately have "limbs (acc'[i + j := p AND 0xFFFFFFFF]) + unat (drop_bit 32 p) * 4294967296 ^ (i + Suc j)
      = limbs acc + unat aw * dig_sum (\<lambda>i. unat (bi_words b ! i)) (Suc j) * 4294967296 ^ i"
    using IH(6) by linarith
  moreover have "\<forall>k < length acc. unat (acc'[i + j := p AND 0xFFFFFFFF] ! k) < 4294967296"
    using IH(4) mc(2) IH(2) ij by (auto simp: nth_list_update)
  ultimately show ?case using f IH(2,5) mc(3) by (auto simp del: dig_sum_simps)
qed


lemma mul_row_correct:
  assumes "big_ok b" and "length acc = 128" and "i < 64" and "\<forall>k < 128. unat (acc ! k) < 4294967296"
    and "\<forall>k \<ge> i + unat (bi_num_words b). k < 128 \<longrightarrow> acc ! k = 0"
  shows "length (mul_row a b i acc) = 128" and "\<forall>k < 128. unat (mul_row a b i acc ! k) < 4294967296"
    and "\<forall>k \<ge> Suc i + unat (bi_num_words b). k < 128 \<longrightarrow> mul_row a b i acc ! k = 0"
    and "limbs (mul_row a b i acc) = limbs acc + unat (bi_words a ! i) * 4294967296 ^ i * big_val b"
proof -
  let ?n = "unat (bi_num_words b)"
  have n: "i + ?n < 128" using assms(1,3) by (simp add: big_ok_def)
  obtain c acc' where f: "fold (mul_word (bi_words a ! i) b i) [0..<?n] (0, acc) = (c, acc')"
    and len: "length acc' = 128" and c: "unat c < 4294967296" and sm: "\<forall>k < 128. unat (acc' ! k) < 4294967296"
    and hi: "\<forall>k \<ge> i + ?n. acc' ! k = acc ! k"
    and v: "limbs acc' + unat c * 4294967296 ^ (i + ?n) = limbs acc + unat (bi_words a ! i) * big_val b * 4294967296 ^ i"
    using mul_inner [of i ?n acc "bi_words a ! i" b, folded big_val_def] assms(2,4) n by auto
  have r: "mul_row a b i acc = acc'[i + ?n := c]" using f by (simp add: mul_row_def)
  show "length (mul_row a b i acc) = 128" using r len by simp
  show "\<forall>k < 128. unat (mul_row a b i acc ! k) < 4294967296"
    using r len sm c n by (auto simp: nth_list_update)
  show "\<forall>k \<ge> Suc i + ?n. k < 128 \<longrightarrow> mul_row a b i acc ! k = 0"
    using r hi assms(5) by auto
  have "acc' ! (i + ?n) = 0" using hi assms(5) n by simp
  then have "limbs (acc'[i + ?n := c]) = limbs acc' + unat c * 4294967296 ^ (i + ?n)"
    using limbs_update [of "i + ?n" acc' c] n len by simp
  with v r show "limbs (mul_row a b i acc) = limbs acc + unat (bi_words a ! i) * 4294967296 ^ i * big_val b"
    by (simp add: algebra_simps)
qed

lemma mul_outer:
  fixes a b :: BigInt and k :: nat
  assumes "big_ok b" and "k \<le> 64"
  defines "acc \<equiv> fold (mul_row a b) [0..<k] (replicate 128 0)"
  shows "length acc = 128 \<and> (\<forall>j < 128. unat (acc ! j) < 4294967296)
    \<and> (\<forall>j \<ge> k + unat (bi_num_words b). j < 128 \<longrightarrow> acc ! j = 0)
    \<and> limbs acc = dig_sum (\<lambda>i. unat (bi_words a ! i)) k * big_val b"
  using assms(2) unfolding acc_def
proof (induction k)
  case 0
  then show ?case by (simp add: limbs_def dig_sum_eq_0 [THEN iffD2])
next
  case (Suc k)
  let ?acc = "fold (mul_row a b) [0..<k] (replicate 128 0)"
  have IH: "length ?acc = 128" "\<forall>j < 128. unat (?acc ! j) < 4294967296"
    "\<forall>j \<ge> k + unat (bi_num_words b). j < 128 \<longrightarrow> ?acc ! j = 0"
    "limbs ?acc = dig_sum (\<lambda>i. unat (bi_words a ! i)) k * big_val b" using Suc by simp_all
  have "fold (mul_row a b) [0..<Suc k] (replicate 128 0) = mul_row a b k ?acc" by simp
  then show ?case
    using mul_row_correct [OF assms(1) IH(1) _ IH(2,3), of a] Suc.prems IH(4)
    by (simp only:) (simp add: algebra_simps)
qed

lemma put_words:
  assumes "length (bi_words (st r)) = 64" and "k \<le> 64"
  shows "(fold (\<lambda>i. put_word r i (f i)) [0..<k] st) m =
    (if m = r then (st r)\<lparr>bi_words := map (\<lambda>i. if i < k then f i else bi_words (st r) ! i) [0..<64]\<rparr> else st m)"
  using assms(2)
proof (induction k arbitrary: m)
  case 0
  have "map (\<lambda>i. bi_words (st r) ! i) [0..<64] = bi_words (st r)" using assms(1) map_nth [of "bi_words (st r)"] by simp
  then show ?case by simp
next
  case (Suc k)
  define s where "s = fold (\<lambda>i. put_word r i (f i)) [0..<k] st"
  have r: "s r = (st r)\<lparr>bi_words := map (\<lambda>i. if i < k then f i else bi_words (st r) ! i) [0..<64]\<rparr>"
    and o: "m \<noteq> r \<Longrightarrow> s m = st m" using Suc by (simp_all add: s_def)
  have "(map (\<lambda>i. if i < k then f i else bi_words (st r) ! i) [0..<64])[k := f k]
      = map (\<lambda>i. if i < Suc k then f i else bi_words (st r) ! i) [0..<64]"
    using Suc.prems by (intro nth_equalityI) (auto simp: nth_list_update)
  moreover have e: "fold (\<lambda>i. put_word r i (f i)) [0..<Suc k] st = put_word r k (f k) s" by (simp add: s_def)
  ultimately show ?case using r o unfolding e by (simp add: put_word_def)
qed


text \<open>Whatever the lengths, the product is cut to 64 words.\<close>

lemma bigint_mul_mod:
  assumes l: "length (bi_words (st r)) = 64" and ok: "big_ok (st a)" "big_ok (st b)"
  shows "big_val (bigint_mul r a b st r) = big_val (st a) * big_val (st b) mod 4294967296 ^ 64"
    and "big_ok (bigint_mul r a b st r)"
    and "big_trimmed (bigint_mul r a b st r)"
    and "m \<noteq> r \<Longrightarrow> bigint_mul r a b st m = st m"
proof -
  define acc where "acc = fold (mul_row (st a) (st b)) [0..<used st a] (replicate 128 0)"
  define t where "t = min (used st a + used st b) 64"
  define ws where "ws = map (\<lambda>i. if i < t then ucast (acc ! i) else bi_words (st r) ! i :: u32) [0..<64]"
  have a64: "used st a \<le> 64" using ok(1) by (simp add: big_ok_def used_def)
  have acc: "length acc = 128" "\<forall>j < 128. unat (acc ! j) < 4294967296"
    "\<forall>j \<ge> used st a + used st b. j < 128 \<longrightarrow> acc ! j = 0" "limbs acc = big_val (st a) * big_val (st b)"
    using mul_outer [OF ok(2) a64, of "st a"] unfolding acc_def big_val_def used_def by simp_all
  have t: "t \<le> 64" by (simp add: t_def)
  then have t: "t \<le> 64" "unat (of_nat t :: u32) = t" by (simp_all add: unat_of_nat_u32)
  define s1 where "s1 = put_used r (of_nat t) (fold (\<lambda>i. put_word r i (ucast (acc ! i))) [0..<t] st)"
  have cut: "(if used st a + used st b > 64 then 64 else used st a + used st b) = t" by (simp add: t_def)
  have mul: "bigint_mul r a b st = bigint_trim r s1"
    unfolding bigint_mul_def SIGBIG_MAX_WORDS_def Let_def s1_def acc_def cut by simp
  have s1: "bi_words (s1 r) = ws" "bi_num_words (s1 r) = of_nat t" "m \<noteq> r \<Longrightarrow> s1 m = st m" for m
    using put_words [of st r t "\<lambda>i. ucast (acc ! i)"] l t(1) unfolding s1_def ws_def by (simp_all add: put_used_def)
  have "dig_sum (\<lambda>i. unat (ws ! i)) t = dig_sum (\<lambda>i. unat (acc ! i)) t"
  proof (rule dig_sum_cong)
    fix i assume i: "i < t"
    then have "unat (ucast (acc ! i) :: u32) = unat (acc ! i)"
      using acc(2) t(1) by (simp add: unsigned_ucast_eq take_bit_eq_mod)
    then show "unat (ws ! i) = unat (acc ! i)" using i t(1) by (simp add: ws_def)
  qed
  also have "\<dots> = dig_sum (\<lambda>i. unat (acc ! i)) 64"
    using t(1) acc(3) by (intro dig_sum_extend [symmetric]) (auto simp: t_def)
  also have "\<dots> = limbs acc mod 4294967296 ^ 64"
    unfolding limbs_def acc(1) using acc(2) by (intro dig_sum_mod) simp_all
  finally have v: "big_val (s1 r) = big_val (st a) * big_val (st b) mod 4294967296 ^ 64"
    using s1(1,2) t(2) acc(4) by (simp add: big_val_def)
  have "big_ok (s1 r)" using s1(1,2) t by (simp add: big_ok_def ws_def)
  with v show "big_val (bigint_mul r a b st r) = big_val (st a) * big_val (st b) mod 4294967296 ^ 64"
    "big_ok (bigint_mul r a b st r)" "big_trimmed (bigint_mul r a b st r)"
    unfolding mul using trim_same [of s1 r] by simp_all
  show "m \<noteq> r \<Longrightarrow> bigint_mul r a b st m = st m" unfolding mul using s1(3) by simp
qed

lemma bigint_mul_correct:
  assumes l: "length (bi_words (st r)) = 64" and ok: "big_ok (st a)" "big_ok (st b)" and fits: "used st a + used st b \<le> 64"
  shows "big_val (bigint_mul r a b st r) = big_val (st a) * big_val (st b)"
    and "big_ok (bigint_mul r a b st r)"
    and "big_trimmed (bigint_mul r a b st r)"
    and "m \<noteq> r \<Longrightarrow> bigint_mul r a b st m = st m"
proof -
  have "big_val (st a) * big_val (st b) < 4294967296 ^ used st a * 4294967296 ^ used st b"
    unfolding used_def by (intro mult_strict_mono big_val_less) simp_all
  also have "\<dots> \<le> 4294967296 ^ 64" unfolding power_add [symmetric] using fits by (intro power_increasing) simp_all
  finally show "big_val (bigint_mul r a b st r) = big_val (st a) * big_val (st b)"
    using bigint_mul_mod(1) [OF l ok] by (simp only: mod_less)
qed (use bigint_mul_mod [OF l ok] in simp_all)

end
