(* ===== verification/Sig_Modexp.thy ===== *)
theory Sig_Modexp
  imports Sig_Bigint
begin

text \<open>
  The big integers of \<open>signature_verify.c\<close> and the outside: reading and writing them as bytes is
  a round trip, and what \<open>bigint_mod_exp\<close> computes.  It returns for every exponent, but its first
  reduction clears the base, so that its result is zero, or one for an exponent whose lowest
  word is zero.
\<close>

section \<open>Bytes\<close>

definition byte_of :: "u32 list \<Rightarrow> nat \<Rightarrow> u8" where
  "byte_of ws p = ucast (drop_bit (p mod 4 * 8) (ws ! (p div 4)))"

lemma byte_or:
  assumes "q < 4" and "m < 4"
  shows "(ucast (drop_bit (m * 8) (w OR push_bit (q * 8) (ucast (b :: u8)))) :: u8)
    = (if m = q then ucast (drop_bit (m * 8) (w :: u32)) OR b else ucast (drop_bit (m * 8) w))"
proof -
  have "q \<in> {0,1,2,3}" "m \<in> {0,1,2,3}" using assms by auto
  then show ?thesis by (intro bit_word_eqI) (auto simp: bit_simps dest: bit_imp_le_length)
qed

lemma word_of_bytes:
  "unat (w :: u32) = unat (ucast w :: u8) + 256 * unat (ucast (drop_bit 8 w) :: u8)
     + 65536 * unat (ucast (drop_bit 16 w) :: u8) + 16777216 * unat (ucast (drop_bit 24 w) :: u8)"
proof -
  have d: "unat (ucast (drop_bit n w) :: u8) = unat w div 2 ^ n mod 256" for n
    by (simp only: unsigned_ucast_eq unat_drop_bit_eq) (simp add: take_bit_eq_mod drop_bit_eq_div)
  define x where "x = unat w"
  have "x = 256 * (x div 256) + x mod 256" "x div 256 = 256 * (x div 65536) + x div 256 mod 256"
    "x div 65536 = 256 * (x div 16777216) + x div 65536 mod 256"
    using div_mult2_eq [of x 256 256] div_mult2_eq [of x 65536 256] by simp_all
  moreover have "x div 16777216 mod 256 = x div 16777216" using unat_u32_bound [of w] by (simp add: x_def)
  moreover have "unat (ucast w :: u8) = x mod 256" "unat (ucast (drop_bit 8 w) :: u8) = x div 256 mod 256"
    "unat (ucast (drop_bit 16 w) :: u8) = x div 65536 mod 256" "unat (ucast (drop_bit 24 w) :: u8) = x div 16777216 mod 256"
    using d [of 0] d [of 8] d [of 16] d [of 24] by (simp_all add: x_def)
  ultimately show ?thesis unfolding x_def [symmetric] by linarith
qed

lemma byte_of_word: "m < 4 \<Longrightarrow> byte_of ws (4 * n + m) = ucast (drop_bit (m * 8) (ws ! n))"
  by (simp add: byte_of_def)

lemma sum_four:
  "sum g {..<4 * Suc n} = sum g {..<4 * n} + (g (4 * n) + g (4 * n + 1) + g (4 * n + 2) + (g (4 * n + 3) :: nat))"
proof -
  have e: "4 * Suc n = Suc (Suc (Suc (Suc (4 * n))))" by simp
  show ?thesis unfolding e sum.lessThan_Suc by (simp add: numeral_3_eq_3)
qed

lemma dig_sum_bytes:
  "dig_sum (\<lambda>i. unat (ws ! i)) n = (\<Sum>p<4 * n. unat (byte_of ws p) * 256 ^ p)"
proof (induction n)
  case (Suc n)
  let ?g = "\<lambda>p. unat (byte_of ws p) * 256 ^ p"
  have p: "(4294967296 :: nat) ^ n = 256 ^ (4 * n)" by (simp add: power_mult)
  have "sum ?g {..<4 * Suc n} = sum ?g {..<4 * n} + (?g (4 * n) + ?g (4 * n + 1) + ?g (4 * n + 2) + ?g (4 * n + 3))"
    by (rule sum_four)
  also have "?g (4 * n) + ?g (4 * n + 1) + ?g (4 * n + 2) + ?g (4 * n + 3) = unat (ws ! n) * 4294967296 ^ n"
    using byte_of_word [of 0 ws n] byte_of_word [of 1 ws n] byte_of_word [of 2 ws n] byte_of_word [of 3 ws n]
    unfolding word_of_bytes [of "ws ! n"] p power_add by (simp add: distrib_right)
  finally show ?case using Suc by simp
qed simp

lemma byte_of_put:
  assumes "length ws = 64" and "i < 256" and "p < 256" and "byte_of ws i = 0"
  shows "byte_of (ws[i div 4 := ws ! (i div 4) OR push_bit (i mod 4 * 8) (ucast b)]) p
    = (if p = i then b else byte_of ws p)"
proof (cases "p div 4 = i div 4")
  case True
  have "p = i \<longleftrightarrow> p mod 4 = i mod 4" using True by (metis div_mult_mod_eq)
  then show ?thesis
    using assms True byte_or [of "i mod 4" "p mod 4" "ws ! (i div 4)" b] by (simp add: byte_of_def)
next
  case False
  then show ?thesis using assms by (auto simp: byte_of_def)
qed

lemma from_bytes_loop:
  fixes f :: "nat \<Rightarrow> u8" and st :: big_store and n :: big_obj and k :: nat
  assumes "length (bi_words (st n)) = 64" and "\<forall>p < 256. byte_of (bi_words (st n)) p = 0" and "k \<le> 256"
  defines "st' \<equiv> fold (\<lambda>i s. put_word n (i div 4)
      (word_at s n (i div 4) OR push_bit (i mod 4 * 8) (ucast (f i :: u8))) s) [0..<k] st"
  shows "length (bi_words (st' n)) = 64 \<and> bi_num_words (st' n) = bi_num_words (st n)
    \<and> (\<forall>p < 256. byte_of (bi_words (st' n)) p = (if p < k then f p else 0)) \<and> (\<forall>m. m \<noteq> n \<longrightarrow> st' m = st m)"
  using assms(3) unfolding st'_def
proof (induction k)
  case 0
  then show ?case using assms(1,2) by simp
next
  case (Suc k)
  define s where "s = fold (\<lambda>i s. put_word n (i div 4)
      (word_at s n (i div 4) OR push_bit (i mod 4 * 8) (ucast (f i))) s) [0..<k] st"
  have IH: "length (bi_words (s n)) = 64" "bi_num_words (s n) = bi_num_words (st n)"
    "\<forall>p < 256. byte_of (bi_words (s n)) p = (if p < k then f p else 0)" "\<forall>m. m \<noteq> n \<longrightarrow> s m = st m"
    using Suc by (simp_all add: s_def)
  have e: "fold (\<lambda>i s. put_word n (i div 4)
      (word_at s n (i div 4) OR push_bit (i mod 4 * 8) (ucast (f i))) s) [0..<Suc k] st
      = put_word n (k div 4) (word_at s n (k div 4) OR push_bit (k mod 4 * 8) (ucast (f k))) s"
    by (simp add: s_def)
  have "byte_of (bi_words (s n)) k = 0" using IH(3) Suc.prems by simp
  then show ?case
    using IH byte_of_put [OF IH(1), of k _ "f k"] Suc.prems unfolding e by (auto simp: word_at_def)
qed

text \<open>A big-endian number.\<close>

definition be_value :: "bytes \<Rightarrow> nat" where
  "be_value bs = (\<Sum>p<length bs. unat (rev bs ! p) * 256 ^ p)"

lemma bigint_from_bytes_bytes:
  fixes bs :: bytes and n :: big_obj and st :: big_store
  assumes "length bs \<le> 256"
  defines "r \<equiv> bigint_from_bytes n bs (length bs) st n"
  shows "length (bi_words r) = 64" and "p < 256 \<Longrightarrow> byte_of (bi_words r) p = (if p < length bs then rev bs ! p else 0)"
    and "unat (bi_num_words r) = trim_words (bi_words r) ((length bs + 3) div 4)"
    and "m \<noteq> n \<Longrightarrow> bigint_from_bytes n bs (length bs) st m = st m"
    and "big_ok r" and "big_val r = be_value bs" and "big_trimmed r"
proof -
  let ?l = "length bs" and ?nw = "(length bs + 3) div 4"
  define s0 where "s0 = put_used n (of_nat ?nw) (bigint_init n st)"
  define s1 where "s1 = fold (\<lambda>i s. put_word n (i div 4)
      (word_at s n (i div 4) OR push_bit (i mod 4 * 8) (ucast (bs ! (?l - 1 - i)))) s) [0..<?l] s0"
  have r: "bigint_from_bytes n bs ?l st = bigint_trim n s1"
    using assms(1) unfolding bigint_from_bytes_def Let_def s1_def s0_def by (simp add: SIGBIG_MAX_WORDS_def)
  have w0: "bi_words (s0 n) = replicate 64 0" by (simp add: s0_def zero_bigint_def)
  have z: "\<forall>p < 256. byte_of (bi_words (s0 n)) p = 0" unfolding w0 by (simp add: byte_of_def)
  have s1: "length (bi_words (s1 n)) = 64" "bi_num_words (s1 n) = of_nat ?nw"
    "\<forall>p < 256. byte_of (bi_words (s1 n)) p = (if p < ?l then bs ! (?l - 1 - p) else 0)" "\<forall>m. m \<noteq> n \<longrightarrow> s1 m = st m"
    using from_bytes_loop [of s0 n ?l "\<lambda>i. bs ! (?l - 1 - i)"] z assms(1) w0 unfolding s1_def [symmetric]
    by (simp_all add: s0_def)
  have nw: "?nw \<le> 64" "unat (of_nat ?nw :: u32) = ?nw" using assms(1) by (simp, intro unat_of_nat_u32, simp)
  have ok: "big_ok (s1 n)" using s1(1,2) nw by (simp add: big_ok_def)
  have ws: "bi_words r = bi_words (s1 n)" by (simp add: r_def r bigint_trim_def)
  show "length (bi_words r) = 64" using s1(1) ws by simp
  show b: "byte_of (bi_words r) p = (if p < length bs then rev bs ! p else 0)" if "p < 256" for p
    using s1(3) that unfolding ws by (auto simp: rev_nth)
  show "unat (bi_num_words r) = trim_words (bi_words r) ?nw"
    using trim_same [of s1 n, OF ok] s1(2) nw(2) unfolding r_def r by (simp add: used_def bigint_trim_def)
  show "m \<noteq> n \<Longrightarrow> bigint_from_bytes n bs ?l st m = st m" using s1(4) unfolding r by simp
  show "big_ok r" "big_trimmed r" using trim_same [of s1 n, OF ok] unfolding r_def r by simp_all
  have "big_val r = (\<Sum>p<4 * ?nw. unat (byte_of (bi_words (s1 n)) p) * 256 ^ p)"
  proof -
    have "big_val r = big_val (s1 n)" using trim_same [of s1 n, OF ok] by (simp add: r_def r)
    then show ?thesis using s1(2) nw(2) by (simp add: big_val_def dig_sum_bytes)
  qed
  also have "\<dots> = (\<Sum>p<4 * ?nw. if p < ?l then unat (rev bs ! p) * 256 ^ p else 0)"
    using b nw(1) unfolding ws by (intro sum.cong) auto
  also have "\<dots> = be_value bs"
  proof -
    have "{..<4 * ?nw} \<inter> {p. p < ?l} = {..<?l}" by auto
    then show ?thesis unfolding be_value_def by (simp add: sum.If_cases)
  qed
  finally show "big_val r = be_value bs" .
qed


text \<open>The bytes a number is written as, from the end of the buffer.\<close>

lemma to_bytes_inner:
  fixes bs :: bytes and g :: "nat \<Rightarrow> u8" and i k len L q :: nat
  assumes "length bs = L" and "len \<le> L"
  defines "r \<equiv> fold (\<lambda>j bs. if i * 4 + j < len then bs[len - 1 - (i * 4 + j) := g j] else bs) [0..<k] bs"
  shows "length r = L" and "q < L \<Longrightarrow> r ! q = (if q < len \<and> i * 4 \<le> len - 1 - q \<and> len - 1 - q < i * 4 + k
      then g (len - 1 - q - i * 4) else bs ! q)"
proof -
  have "length r = L \<and> (\<forall>q < L. r ! q = (if q < len \<and> i * 4 \<le> len - 1 - q \<and> len - 1 - q < i * 4 + k
      then g (len - 1 - q - i * 4) else bs ! q))"
    unfolding r_def
  proof (induction k)
    case 0
    then show ?case using assms(1) by auto
  next
    case (Suc k)
    define r where "r = fold (\<lambda>j bs. if i * 4 + j < len then bs[len - 1 - (i * 4 + j) := g j] else bs) [0..<k] bs"
    define r' where "r' = (if i * 4 + k < len then r[len - 1 - (i * 4 + k) := g k] else r)"
    have len: "length r = L" using Suc by (simp add: r_def)
    have "r' ! q = (if q < len \<and> i * 4 \<le> len - 1 - q \<and> len - 1 - q < i * 4 + Suc k
      then g (len - 1 - q - i * 4) else bs ! q)" if q: "q < L" for q
    proof (cases "q < len \<and> len - 1 - q = i * 4 + k")
      case True
      then have "i * 4 + k < len" "q = len - 1 - (i * 4 + k)" "len - 1 - q - i * 4 = k" by auto
      then show ?thesis using True len q by (simp add: r'_def)
    next
      case False
      then have "r' ! q = r ! q" by (auto simp: r'_def nth_list_update)
      moreover have "(q < len \<and> i * 4 \<le> len - 1 - q \<and> len - 1 - q < i * 4 + Suc k)
          = (q < len \<and> i * 4 \<le> len - 1 - q \<and> len - 1 - q < i * 4 + k)" using False by auto
      ultimately show ?thesis using Suc q by (simp add: r_def)
    qed
    moreover have "fold (\<lambda>j bs. if i * 4 + j < len then bs[len - 1 - (i * 4 + j) := g j] else bs) [0..<Suc k] bs = r'"
      by (simp add: r_def r'_def)
    moreover have "length r' = L" using len by (simp add: r'_def)
    ultimately show ?case by simp
  qed
  then show "length r = L" and "q < L \<Longrightarrow> r ! q = (if q < len \<and> i * 4 \<le> len - 1 - q \<and> len - 1 - q < i * 4 + k
      then g (len - 1 - q - i * 4) else bs ! q)" by blast+
qed


lemma bigint_to_bytes_props:
  assumes "len \<le> length buf"
  shows "length (bigint_to_bytes n len buf) = length buf"
    and "q < length buf \<Longrightarrow> bigint_to_bytes n len buf ! q = (if q < len
      then (if len - 1 - q < 4 * unat (bi_num_words n) then byte_of (bi_words n) (len - 1 - q) else 0) else buf ! q)"
proof -
  let ?in = "\<lambda>i bs. fold (\<lambda>j bs. if i * 4 + j < len
      then bs[len - 1 - (i * 4 + j) := ucast (drop_bit (j * 8) (bi_words n ! i))] else bs) [0..<4] bs"
  let ?out = "\<lambda>k. fold (\<lambda>i bs. if i * 4 < len then ?in i bs else bs) [0..<k] (blit buf 0 (zeros len))"
  have "length (?out k) = length buf \<and> (\<forall>q < length buf. ?out k ! q = (if q < len
      then (if len - 1 - q < 4 * k then byte_of (bi_words n) (len - 1 - q) else 0) else buf ! q))" for k
  proof (induction k)
    case 0
    then show ?case using assms by (auto simp: nth_blit)
  next
    case (Suc k)
    note inner = to_bytes_inner [where bs="?out k" and L="length buf" and len=len and i=k and k=4
        and g="\<lambda>j. ucast (drop_bit (j * 8) (bi_words n ! k))"]
    have "byte_of (bi_words n) p = ucast (drop_bit ((p - k * 4) * 8) (bi_words n ! k))"
      if "k * 4 \<le> p" "p < k * 4 + 4" for p
      using byte_of_word [of "p - k * 4" "bi_words n" k] that by (simp add: mult.commute)
    then show ?case using Suc inner assms by (auto simp: mult.commute)
  qed
  from this [of "unat (bi_num_words n)"] show "length (bigint_to_bytes n len buf) = length buf"
    and "q < length buf \<Longrightarrow> bigint_to_bytes n len buf ! q = (if q < len
      then (if len - 1 - q < 4 * unat (bi_num_words n) then byte_of (bi_words n) (len - 1 - q) else 0) else buf ! q)"
    unfolding bigint_to_bytes_def by auto
qed

lemma trim_words_zero: "trim_words ws n \<le> i \<Longrightarrow> i < n \<Longrightarrow> ws ! i = 0"
  by (induction n) (auto simp: less_Suc_eq split: if_splits)

lemma bigint_bytes_roundtrip:
  assumes "length bs \<le> 256" and "length bs \<le> length buf"
  shows "bigint_to_bytes (bigint_from_bytes n bs (length bs) st n) (length bs) buf = bs @ drop (length bs) buf"
proof (rule nth_equalityI)
  let ?r = "bigint_from_bytes n bs (length bs) st n"
  note fb = bigint_from_bytes_bytes [OF assms(1), where n=n and st=st] and tb = bigint_to_bytes_props [OF assms(2), where n="?r"]
  show "length (bigint_to_bytes ?r (length bs) buf) = length (bs @ drop (length bs) buf)"
    using tb(1) assms(2) by simp
  fix q assume "q < length (bigint_to_bytes ?r (length bs) buf)"
  then have q: "q < length buf" using tb(1) by simp
  show "bigint_to_bytes ?r (length bs) buf ! q = (bs @ drop (length bs) buf) ! q"
  proof (cases "q < length bs")
    case True
    define p where "p = length bs - 1 - q"
    have p: "p < length bs" "rev bs ! p = bs ! q" using True by (auto simp: p_def rev_nth)
    have b: "byte_of (bi_words ?r) p = bs ! q" using fb(2) [where p=p] p assms(1) by simp
    have "byte_of (bi_words ?r) p = 0" if "\<not> p < 4 * unat (bi_num_words ?r)"
    proof -
      have "bi_words ?r ! (p div 4) = 0"
        using trim_words_zero [of "bi_words ?r" "(length bs + 3) div 4" "p div 4"] fb(3) that p(1) by auto
      then show ?thesis by (simp add: byte_of_def)
    qed
    then show ?thesis using tb(2) [OF q] True b by (auto simp: p_def nth_append)
  next
    case False
    then show ?thesis using tb(2) [OF q] assms(2) by (simp add: nth_append)
  qed
qed

section \<open>Modular exponentiation\<close>

text \<open>
  The remainder is computed in the object that also holds the dividend, and the first thing
  the division does is to clear it.
\<close>

lemma big_val_zero: "bigint_is_zero n \<Longrightarrow> big_val n = 0"
  by (auto simp: bigint_is_zero_def big_val_def)

lemma zero_bigint_facts [simp]: "bigint_is_zero zero_bigint" "bi_num_words zero_bigint = 0"
  by (simp_all add: bigint_is_zero_def zero_bigint_def)

lemma compare_zero:
  assumes "bigint_is_zero a" and "\<not> bigint_is_zero b"
  shows "bigint_compare a b < 0"
proof (cases "bi_num_words a = bi_num_words b")
  case True
  then have "bi_num_words a = 1" "bi_words a ! 0 = 0" "bi_words b ! 0 \<noteq> 0" "bi_num_words b = 1"
    using assms by (auto simp: bigint_is_zero_def)
  moreover have "unat (1 :: u32) = Suc 0" by simp
  ultimately show ?thesis by (simp add: bigint_compare_def word_neq_0_conv)
next
  case False
  have "bi_num_words a < bi_num_words b"
  proof -
    have "bi_num_words a = 0 \<or> bi_num_words a = 1" "bi_num_words b \<noteq> 0" using assms by (auto simp: bigint_is_zero_def)
    then have "unat (bi_num_words a) \<le> 1" "0 < unat (bi_num_words b)" by (auto simp: unat_gt_0)
    moreover have "unat (bi_num_words a) \<noteq> unat (bi_num_words b)" using False by (simp add: word_unat_eq_iff)
    moreover have "unat (bi_num_words a) = 0 \<or> unat (bi_num_words a) = 1" using calculation(1) by linarith
    ultimately show ?thesis unfolding word_less_nat_alt by linarith
  qed
  then show ?thesis by (simp add: bigint_compare_def)
qed

lemma bigint_mod_alias:
  assumes "x \<noteq> Mod_q" and "m \<noteq> x" and "m \<noteq> Mod_q"
  shows "bigint_mod x x m st x = zero_bigint"
proof (cases "bigint_is_zero (st m)")
  case True
  then show ?thesis using assms by (simp add: bigint_mod_def bigint_divmod_def Let_def)
next
  case False
  with compare_zero [of zero_bigint] show ?thesis
    using assms by (simp add: bigint_mod_def bigint_divmod_def Let_def)
qed

text \<open>The remainder of zero, into another object.\<close>

lemma bigint_mod_zero:
  assumes "bigint_is_zero (st a)" and "r \<notin> {a, m, Mod_q}" and "Mod_q \<notin> {a, m}"
  shows "bigint_is_zero (bigint_mod r a m st r)"
    and "big_ok (st a) \<Longrightarrow> big_ok (bigint_mod r a m st r)"
    and "x \<notin> {r, Mod_q} \<Longrightarrow> bigint_mod r a m st x = st x"
  using compare_zero [OF assms(1), of "st m"] assms
  by (auto simp: bigint_mod_def bigint_divmod_def Let_def)


lemma unat_1_0: "unat (w :: u32) = 1 \<Longrightarrow> w = 1"
  by (metis unat_1 word_unat_eq_iff)

lemma trimmed_zero:
  assumes "big_ok n" and "big_trimmed n" and "big_val n = 0"
  shows "bigint_is_zero n"
proof -
  have z: "bi_words n ! i = 0" if "i < unat (bi_num_words n)" for i
    using that assms(3) by (simp add: big_val_def dig_sum_eq_0 unat_eq_zero)
  then have "unat (bi_num_words n) \<le> 1" using assms(2) unfolding big_trimmed_def by (metis One_nat_def diff_less less_numeral_extra(1) linorder_not_le order_less_trans)
  then have "bi_num_words n = 0 \<or> bi_num_words n = 1"
    by (metis le_neq_implies_less less_one unat_1 unat_eq_zero word_unat_eq_iff)
  then show ?thesis using z [of 0] by (auto simp: bigint_is_zero_def)
qed

lemma bigint_mul_zero:
  assumes "length (bi_words (st r)) = 64" and "big_ok (st a)" "big_ok (st b)" and "used st a \<le> 1" and "bigint_is_zero (st b)"
  shows "bigint_is_zero (bigint_mul r a b st r)" and "big_ok (bigint_mul r a b st r)"
    and "m \<noteq> r \<Longrightarrow> bigint_mul r a b st m = st m"
proof -
  have "used st b \<le> 1" using assms(5) by (auto simp: bigint_is_zero_def used_def)
  then have fits: "used st a + used st b \<le> 64" using assms(4) by simp
  note mul = bigint_mul_correct [OF assms(1-3) fits]
  show "bigint_is_zero (bigint_mul r a b st r)"
    using mul(1-3) big_val_zero [OF assms(5)] by (intro trimmed_zero) simp_all
  show "big_ok (bigint_mul r a b st r)" "m \<noteq> r \<Longrightarrow> bigint_mul r a b st m = st m" using mul(2,4) by simp_all
qed

subsection \<open>The exponent\<close>

text \<open>
  The shift moves the lowest bit of a word to the top of the next higher one, so it halves the
  number whose most significant word is word 0; it ends, but is not the shift of the exponent.
\<close>

fun rev_value :: "u32 list \<Rightarrow> nat \<Rightarrow> nat" where
  "rev_value ws 0 = 0"
| "rev_value ws (Suc n) = rev_value ws n * 4294967296 + unat (ws ! n)"

lemma rev_value_cong: "(\<And>i. i < n \<Longrightarrow> ws ! i = vs ! i) \<Longrightarrow> rev_value ws n = rev_value vs n"
  by (induction n) auto

lemma rev_value_mono: "m \<le> n \<Longrightarrow> rev_value ws m \<le> rev_value ws n"
proof (induction n)
  case (Suc n)
  then show ?case by (cases "m = Suc n") auto
qed simp

lemma rev_value_0: "rev_value ws n = 0 \<longleftrightarrow> (\<forall>i < n. ws ! i = 0)"
  by (induction n) (auto simp: less_Suc_eq unat_eq_zero)

lemma shift_word_at:
  assumes "i < length (bi_words (st Exp_e))"
  shows "shift_word i st = put_word Exp_e i (drop_bit 1 (word_at st Exp_e i) OR
    (if 0 < i \<and> word_at st Exp_e (i - 1) AND 1 \<noteq> 0 then 0x80000000 else 0)) st"
  using assms by (auto simp: shift_word_def Let_def word_at_def put_word_def)

lemma shift_loop:
  assumes "n \<le> length (bi_words (st Exp_e))"
  shows "\<exists>ws. fold shift_word (rev [0..<n]) st = st(Exp_e := (st Exp_e)\<lparr>bi_words := ws\<rparr>)
    \<and> length ws = length (bi_words (st Exp_e))
    \<and> (\<forall>i < n. ws ! i = drop_bit 1 (bi_words (st Exp_e) ! i) OR
         (if 0 < i \<and> bi_words (st Exp_e) ! (i - 1) AND 1 \<noteq> 0 then 0x80000000 else 0))
    \<and> (\<forall>i \<ge> n. ws ! i = bi_words (st Exp_e) ! i)"
  using assms
proof (induction n arbitrary: st)
  case 0
  show ?case by (rule exI [of _ "bi_words (st Exp_e)"]) simp
next
  case (Suc n)
  define st1 where "st1 = shift_word n st"
  have st1: "st1 = put_word Exp_e n (drop_bit 1 (word_at st Exp_e n) OR
      (if 0 < n \<and> word_at st Exp_e (n - 1) AND 1 \<noteq> 0 then 0x80000000 else 0)) st"
    unfolding st1_def using Suc.prems by (intro shift_word_at) simp
  have "n \<le> length (bi_words (st1 Exp_e))" using Suc.prems by (simp add: st1)
  from Suc.IH [of st1, OF this] obtain ws where ws: "fold shift_word (rev [0..<n]) st1 = st1(Exp_e := (st1 Exp_e)\<lparr>bi_words := ws\<rparr>)"
    "length ws = length (bi_words (st1 Exp_e))"
    "\<forall>i < n. ws ! i = drop_bit 1 (bi_words (st1 Exp_e) ! i) OR
         (if 0 < i \<and> bi_words (st1 Exp_e) ! (i - 1) AND 1 \<noteq> 0 then 0x80000000 else 0)"
    "\<forall>i \<ge> n. ws ! i = bi_words (st1 Exp_e) ! i"
    by (elim exE conjE) (rule that)
  show ?case
  proof (rule exI [of _ ws], intro conjI)
    show "fold shift_word (rev [0..<Suc n]) st = st(Exp_e := (st Exp_e)\<lparr>bi_words := ws\<rparr>)"
      using ws(1) by (simp add: st1_def [symmetric]) (simp add: st1 put_word_def)
    show "length ws = length (bi_words (st Exp_e))" using ws(2) by (simp add: st1)
    show "\<forall>i < Suc n. ws ! i = drop_bit 1 (bi_words (st Exp_e) ! i) OR
         (if 0 < i \<and> bi_words (st Exp_e) ! (i - 1) AND 1 \<noteq> 0 then 0x80000000 else 0)"
    proof (intro allI impI)
      fix i assume "i < Suc n"
      then show "ws ! i = drop_bit 1 (bi_words (st Exp_e) ! i) OR
         (if 0 < i \<and> bi_words (st Exp_e) ! (i - 1) AND 1 \<noteq> 0 then 0x80000000 else 0)"
        using ws(3,4) Suc.prems by (cases "i = n") (simp_all add: st1 word_at_def)
    qed
    show "\<forall>i \<ge> Suc n. ws ! i = bi_words (st Exp_e) ! i" using ws(4) by (simp add: st1)
  qed
qed


lemma word_half: "unat (drop_bit 1 w :: u32) = unat w div 2"
  by (simp only: unat_drop_bit_eq) (simp add: drop_bit_eq_div)

lemma word_low: "(w :: u32) AND 1 \<noteq> 0 \<longleftrightarrow> unat w mod 2 = 1"
  by (simp add: and_one_eq unat_mod odd_iff_mod_2_eq_one flip: unat_eq_zero)

lemma word_shifted:
  "unat (drop_bit 1 w OR (if c then 0x80000000 else 0) :: u32) = unat w div 2 + (if c then 2147483648 else 0)"
proof (cases c)
  case True
  have "\<not> bit (drop_bit 1 w) 31" using bit_imp_le_length [of w 32] by (auto simp: bit_drop_bit_eq)
  then have "drop_bit 1 w AND 2 ^ 31 = 0" by (rule and_exp_eq_0_iff_not_bit [THEN iffD2])
  then have "drop_bit 1 w OR 0x80000000 = drop_bit 1 w + 0x80000000"
    by (subst disjunctive_add_eq_or) simp_all
  moreover have "unat w div 2 < 2147483648" using unat_u32_bound [of w] by simp
  ultimately show ?thesis using True word_half [of w] by (simp add: unat_word_ariths(1))
qed (use word_half [of w] in simp)

lemma rev_value_shift:
  assumes "\<forall>i < n. vs ! i = drop_bit 1 (ws ! i) OR (if 0 < i \<and> ws ! (i - 1) AND 1 \<noteq> 0 then 0x80000000 else 0)"
  shows "2 * rev_value vs n + (if n = 0 then 0 else unat (ws ! (n - 1)) mod 2) = rev_value ws n"
  using assms
proof (induction n)
  case (Suc n)
  have "unat (vs ! n) = unat (ws ! n) div 2 + (if 0 < n \<and> ws ! (n - 1) AND 1 \<noteq> 0 then 2147483648 else 0)"
    using Suc.prems word_shifted by auto
  moreover have "2 * rev_value vs n + (if n = 0 then 0 else unat (ws ! (n - 1)) mod 2) = rev_value ws n"
    using Suc by simp
  moreover have "(if 0 < n \<and> ws ! (n - 1) AND 1 \<noteq> 0 then 4294967296 else 0)
      = (if n = 0 then 0 else unat (ws ! (n - 1)) mod 2) * 4294967296"
    using word_low [of "ws ! (n - 1)"] by (auto simp: mod_2_eq_odd split: if_splits)
  ultimately show ?case by (auto simp: algebra_simps)
qed simp


subsection \<open>The loop\<close>

definition one_bigint :: BigInt where
  "one_bigint = \<lparr>bi_words = 1 # replicate 63 0, bi_num_words = 1\<rparr>"

text \<open>The invariant: the base is zero; the result is zero, or still one.\<close>

definition exp_inv :: "bool \<Rightarrow> big_store \<Rightarrow> bool" where
  "exp_inv k st \<longleftrightarrow> big_ok (st Exp_e) \<and> big_ok (st Exp_b) \<and> bigint_is_zero (st Exp_b)
     \<and> length (bi_words (st Exp_tmp)) = 64 \<and> big_ok (st Exp_r)
     \<and> (bigint_is_zero (st Exp_r) \<or> (st Exp_r = one_bigint
          \<and> (k \<longrightarrow> word_at st Exp_e 0 \<noteq> 0 \<and> bi_num_words (st Exp_e) \<noteq> 0)))"

definition exp_measure :: "big_store \<Rightarrow> nat" where
  "exp_measure st = rev_value (bi_words (st Exp_e)) (used st Exp_e) + used st Exp_e"

definition shift_exponent :: "big_store \<Rightarrow> big_store" where
  "shift_exponent st = bigint_trim Exp_e (fold shift_word (rev [0..<used st Exp_e]) st)"

lemma shift_exponent_props:
  assumes ok: "big_ok (st Exp_e)" and nz: "\<not> bigint_is_zero (st Exp_e)"
  shows "big_ok (shift_exponent st Exp_e)" and "m \<noteq> Exp_e \<Longrightarrow> shift_exponent st m = st m"
    and "exp_measure (shift_exponent st) < exp_measure st"
    and "word_at (shift_exponent st) Exp_e 0 = drop_bit 1 (word_at st Exp_e 0)"
    and "bi_num_words (shift_exponent st Exp_e) \<noteq> 0"
proof -
  let ?n = "used st Exp_e" and ?w = "bi_words (st Exp_e)"
  have len: "length ?w = 64" and n64: "?n \<le> 64" using ok by (simp_all add: big_ok_def used_def)
  have n0: "0 < ?n" and n1: "?n = 1 \<Longrightarrow> ?w ! 0 \<noteq> 0"
    using nz unat_1_0 [of "bi_num_words (st Exp_e)"] by (auto simp: bigint_is_zero_def used_def unat_gt_0)
  obtain ws where f: "fold shift_word (rev [0..<?n]) st = st(Exp_e := (st Exp_e)\<lparr>bi_words := ws\<rparr>)"
    and wl: "length ws = 64"
    and ws: "\<forall>i < ?n. ws ! i = drop_bit 1 (?w ! i) OR (if 0 < i \<and> ?w ! (i - 1) AND 1 \<noteq> 0 then 0x80000000 else 0)"
    using shift_loop [of ?n st] len n64 by auto
  define s where "s = st(Exp_e := (st Exp_e)\<lparr>bi_words := ws\<rparr>)"
  have e: "shift_exponent st = bigint_trim Exp_e s" by (simp add: shift_exponent_def f s_def)
  have sok: "big_ok (s Exp_e)" and us: "used s Exp_e = ?n" and wse: "bi_words (s Exp_e) = ws"
    using ok wl by (simp_all add: s_def big_ok_def used_def)
  note t = trim_same [of s Exp_e, OF sok]
  show "big_ok (shift_exponent st Exp_e)" using t e by simp
  show "m \<noteq> Exp_e \<Longrightarrow> shift_exponent st m = st m" by (simp add: e s_def)
  have w: "bi_words (shift_exponent st Exp_e) = ws" by (simp add: e bigint_trim_def wse)
  have u: "used (shift_exponent st) Exp_e = trim_words ws ?n" using t e us wse by (simp add: used_def)
  show "word_at (shift_exponent st) Exp_e 0 = drop_bit 1 (word_at st Exp_e 0)"
    using ws n0 by (simp add: word_at_def w)
  have "trim_words ws ?n \<noteq> 0" using n0 trim_words_props(4) [of ws ?n] by simp
  then show "bi_num_words (shift_exponent st Exp_e) \<noteq> 0" using u by (auto simp: used_def)
  have sh: "2 * rev_value ws ?n \<le> rev_value ?w ?n" using rev_value_shift [OF ws] by linarith
  have le: "trim_words ws ?n \<le> ?n" by (rule trim_words_props)
  have m: "rev_value ws (trim_words ws ?n) \<le> rev_value ws ?n" by (rule rev_value_mono [OF le])
  show "exp_measure (shift_exponent st) < exp_measure st"
  proof (cases "rev_value ?w ?n = 0")
    case True
    then have "?w ! 0 = 0" using n0 by (simp add: rev_value_0)
    with n0 n1 have n2: "1 < ?n" by linarith
    have z: "\<forall>i < ?n. ws ! i = 0" using True sh by (simp flip: rev_value_0)
    have "trim_words ws ?n \<le> 1"
      using trim_words_props(3) [of ws ?n] z le by (metis One_nat_def diff_less le_less_trans less_or_eq_imp_le linorder_not_le not_less_eq zero_less_Suc less_le_trans)
    then show ?thesis using n2 True sh m u w by (simp add: exp_measure_def)
  next
    case False
    then show ?thesis using sh m le u w by (simp add: exp_measure_def)
  qed
qed


lemma one_bigint_facts: "big_ok one_bigint" "unat (bi_num_words one_bigint) = 1" "\<not> bigint_is_zero one_bigint"
  by (simp_all add: one_bigint_def big_ok_def bigint_is_zero_def)

lemma zero_used: "bigint_is_zero n \<Longrightarrow> unat (bi_num_words n) \<le> 1"
  by (auto simp: bigint_is_zero_def)

lemma exp_step_props:
  assumes inv: "exp_inv k st" and nz: "\<not> bigint_is_zero (st Exp_e)"
  shows "exp_inv k (exp_step st)" and "exp_measure (exp_step st) < exp_measure st"
proof -
  have e: "big_ok (st Exp_e)" and b: "big_ok (st Exp_b)" "bigint_is_zero (st Exp_b)"
    and t: "length (bi_words (st Exp_tmp)) = 64" and r: "big_ok (st Exp_r)"
    and r1: "bigint_is_zero (st Exp_r) \<or> (st Exp_r = one_bigint
          \<and> (k \<longrightarrow> word_at st Exp_e 0 \<noteq> 0 \<and> bi_num_words (st Exp_e) \<noteq> 0))"
    using inv by (simp_all add: exp_inv_def)
  let ?odd = "word_at st Exp_e 0 AND 1 \<noteq> 0"
  define s0 where "s0 = bigint_mul Exp_tmp Exp_r Exp_b st"
  have ru: "used st Exp_r \<le> 1" using r1 zero_used one_bigint_facts by (auto simp: used_def)
  note m0 = bigint_mul_zero [of st Exp_tmp Exp_r Exp_b, OF t r b(1) ru b(2), folded s0_def]
  define s1 where "s1 = (if ?odd then bigint_mod Exp_r Exp_tmp Exp_m s0 else st)"
  note d0 = bigint_mod_zero [of s0 Exp_tmp Exp_r Exp_m, OF m0(1)]
  have s1: "s1 Exp_e = st Exp_e" "s1 Exp_b = st Exp_b" "length (bi_words (s1 Exp_tmp)) = 64"
    "big_ok (s1 Exp_r)" "?odd \<Longrightarrow> bigint_is_zero (s1 Exp_r)" "\<not> ?odd \<Longrightarrow> s1 Exp_r = st Exp_r"
    using m0 d0 t r by (simp_all add: s1_def big_ok_def)
  define s2 where "s2 = bigint_mul Exp_tmp Exp_b Exp_b s1"
  have bu: "used s1 Exp_b \<le> 1" using zero_used [OF b(2)] s1(2) by (simp add: used_def)
  have b1: "big_ok (s1 Exp_b)" "bigint_is_zero (s1 Exp_b)" using b s1(2) by simp_all
  note m2 = bigint_mul_zero [of s1 Exp_tmp Exp_b Exp_b, OF s1(3) b1(1) b1(1) bu b1(2), folded s2_def]
  define s3 where "s3 = bigint_mod Exp_b Exp_tmp Exp_m s2"
  note d2 = bigint_mod_zero [of s2 Exp_tmp Exp_b Exp_m, OF m2(1), folded s3_def]
  have s3: "s3 Exp_e = st Exp_e" "bigint_is_zero (s3 Exp_b)" "big_ok (s3 Exp_b)"
    "length (bi_words (s3 Exp_tmp)) = 64" "s3 Exp_r = s1 Exp_r"
    using m2 d2 s1(1) by (simp_all add: big_ok_def)
  have st: "exp_step st = shift_exponent s3"
    unfolding exp_step_def Let_def s3_def s2_def s1_def s0_def shift_exponent_def ..
  have e3: "big_ok (s3 Exp_e)" "\<not> bigint_is_zero (s3 Exp_e)" using e nz s3(1) by simp_all
  note sh = shift_exponent_props [of s3, OF e3]
  show "exp_measure (exp_step st) < exp_measure st"
    using sh(3) s3(1) by (simp add: st exp_measure_def used_def)
  have "bigint_is_zero (s3 Exp_r) \<or> (s3 Exp_r = one_bigint
      \<and> (k \<longrightarrow> word_at (shift_exponent s3) Exp_e 0 \<noteq> 0))"
  proof (cases ?odd)
    case True
    then show ?thesis using s1(5) s3(5) by simp
  next
    case False
    have "drop_bit 1 (word_at st Exp_e 0) \<noteq> 0" if "word_at st Exp_e 0 \<noteq> 0"
    proof -
      have "unat (word_at st Exp_e 0) mod 2 \<noteq> 1" "unat (word_at st Exp_e 0) \<noteq> 0"
        using False that word_low [of "word_at st Exp_e 0"] by (simp_all add: unat_eq_zero)
      moreover have "x mod 2 \<noteq> 1 \<Longrightarrow> x \<noteq> 0 \<Longrightarrow> x div 2 \<noteq> 0" for x :: nat by presburger
      ultimately have "unat (word_at st Exp_e 0) div 2 \<noteq> 0" by blast
      then show ?thesis using word_half [of "word_at st Exp_e 0"] by (metis unat_eq_zero)
    qed
    then show ?thesis using r1 s1(6) [OF False] s3(1,5) sh(4) by (auto simp: word_at_def)
  qed
  then show "exp_inv k (exp_step st)"
    using sh s3 s1(4) by (simp add: st exp_inv_def)
qed

text \<open>
  The power is always zero or one: one only when the lowest word of the exponent is zero.
\<close>

lemma bigint_mod_exp_result:
  assumes ok: "big_ok (st ex)" "length (bi_words (st Exp_tmp)) = 64" and args: "ex \<in> range Arg" "base \<in> range Arg" "md \<in> range Arg"
  shows "\<exists>st'. bigint_mod_exp result base ex md st = Returned st'
    \<and> (bigint_is_zero (st' result) \<or> st' result = one_bigint)
    \<and> (word_at st ex 0 \<noteq> 0 \<and> bi_num_words (st ex) \<noteq> 0 \<longrightarrow> bigint_is_zero (st' result))
    \<and> big_ok (st' result)"
proof -
  define k where "k \<longleftrightarrow> word_at st ex 0 \<noteq> 0 \<and> bi_num_words (st ex) \<noteq> 0"
  define s1 where "s1 = put_used Exp_r 1 (put_word Exp_r 0 1 (bigint_init Exp_r st))"
  define s4 where "s4 = s1(Exp_b := s1 base, Exp_e := (s1(Exp_b := s1 base)) ex,
    Exp_m := (s1(Exp_b := s1 base, Exp_e := (s1(Exp_b := s1 base)) ex)) md)"
  define s5 where "s5 = bigint_mod Exp_b Exp_b Exp_m s4"
  have "s1 Exp_r = one_bigint"
    by (simp add: s1_def put_used_def put_word_def zero_bigint_def one_bigint_def)
       (simp add: numeral_eq_Suc)
  then have s4: "s4 Exp_r = one_bigint" "s4 Exp_e = st ex" "s4 Exp_tmp = st Exp_tmp"
    using args by (auto simp: s4_def s1_def)
  have s5: "s5 Exp_b = zero_bigint" "m \<notin> {Exp_b, Mod_q} \<Longrightarrow> s5 m = s4 m" for m
  proof -
    show "s5 Exp_b = zero_bigint" unfolding s5_def by (rule bigint_mod_alias) simp_all
    have z: "bigint_compare zero_bigint (s4 Exp_m) < 0" if "\<not> bigint_is_zero (s4 Exp_m)"
      using that by (intro compare_zero) simp_all
    show "m \<notin> {Exp_b, Mod_q} \<Longrightarrow> s5 m = s4 m"
      using z by (auto simp: s5_def bigint_mod_def bigint_divmod_def Let_def)
  qed
  have inv: "exp_inv k s5"
    using s4 s5 ok one_bigint_facts by (simp add: exp_inv_def k_def word_at_def)
  obtain s6 where w: "while_option (\<lambda>s. \<not> bigint_is_zero (s Exp_e)) exp_step s5 = Some s6"
    using measure_while_option_Some [of "exp_inv k" "\<lambda>s. \<not> bigint_is_zero (s Exp_e)" exp_step exp_measure s5]
      exp_step_props inv by blast
  have inv6: "exp_inv k s6"
    using while_option_rule [of "exp_inv k" "\<lambda>s. \<not> bigint_is_zero (s Exp_e)" exp_step s5 s6] exp_step_props(1) w inv by blast
  have z6: "bigint_is_zero (s6 Exp_e)" using while_option_stop [OF w] by simp
  have "bigint_mod_exp result base ex md st = Returned (s6(result := s6 Exp_r))"
    using w unfolding bigint_mod_exp_def Let_def s5_def s4_def s1_def by simp
  moreover have "k \<longrightarrow> bigint_is_zero (s6 Exp_r)"
    using inv6 z6 by (auto simp: exp_inv_def bigint_is_zero_def word_at_def)
  ultimately show ?thesis using inv6 by (auto simp: k_def exp_inv_def)
qed

end
