(* ===== verification/Sig_Verify.thy ===== *)
theory Sig_Verify
  imports Sig_Modexp Boot_Block
begin

text \<open>
  Signature verification of \<open>mini-secure-boot/src/signature_verify.c\<close>: the fourth SHA-256 of the
  repository, RSA with PKCS#1 padding on the big integers of \<open>Sig_Bigint\<close>, the certificate
  functions, and the extraction of a signature from a PE image.  What a function finds in its
  uninitialised locals is a parameter: a store of big integers, and bytes.  \<open>NULL\<close> is \<open>None\<close>.
\<close>

section \<open>SHA-256\<close>

record SV_SHA256_CTX =
  vctx_state :: "u32 list"
  vctx_count :: u64
  vctx_buffer :: bytes

definition sv_rotr32 :: "u32 \<Rightarrow> nat \<Rightarrow> u32" where
  "sv_rotr32 x n = drop_bit n x OR push_bit (32 - n) x"

definition ch32 :: "u32 \<Rightarrow> u32 \<Rightarrow> u32 \<Rightarrow> u32" where
  "ch32 x y z = (x AND y) XOR (NOT x AND z)"

definition maj32 :: "u32 \<Rightarrow> u32 \<Rightarrow> u32 \<Rightarrow> u32" where
  "maj32 x y z = (x AND y) XOR (x AND z) XOR (y AND z)"

definition bsig0 :: "u32 \<Rightarrow> u32" where "bsig0 x = sv_rotr32 x 2 XOR sv_rotr32 x 13 XOR sv_rotr32 x 22"
definition bsig1 :: "u32 \<Rightarrow> u32" where "bsig1 x = sv_rotr32 x 6 XOR sv_rotr32 x 11 XOR sv_rotr32 x 25"
definition ssig0 :: "u32 \<Rightarrow> u32" where "ssig0 x = sv_rotr32 x 7 XOR sv_rotr32 x 18 XOR drop_bit 3 x"
definition ssig1 :: "u32 \<Rightarrow> u32" where "ssig1 x = sv_rotr32 x 17 XOR sv_rotr32 x 19 XOR drop_bit 10 x"

definition sv_sha256_load :: "bytes \<Rightarrow> u32 list" where
  "sv_sha256_load d =
     map (\<lambda>i. be32 (d ! (i * 4)) (d ! (i * 4 + 1)) (d ! (i * 4 + 2)) (d ! (i * 4 + 3))) [0..<16]"

definition sv_sha256_extend :: "nat \<Rightarrow> u32 list \<Rightarrow> u32 list" where
  "sv_sha256_extend i w = w @ [ssig1 (w ! (i - 2)) + w ! (i - 7) + ssig0 (w ! (i - 15)) + w ! (i - 16)]"

text \<open>The table \<open>k\<close> has the values of the one in \<open>pcr_bank.c\<close>.\<close>

fun sv_sha256_round :: "u32 list \<Rightarrow> nat \<Rightarrow> sha_vars \<Rightarrow> sha_vars" where
  "sv_sha256_round w i (a, b, c, d, e, f, g, h) =
     (let t1 = h + bsig1 e + ch32 e f g + sha256_k ! i + w ! i;
          t2 = bsig0 a + maj32 a b c
      in (t1 + t2, a, b, c, d + t1, e, f, g))"

definition sv_sha256_transform :: "SV_SHA256_CTX \<Rightarrow> bytes \<Rightarrow> SV_SHA256_CTX" where
  "sv_sha256_transform ctx data =
     (let w = fold sv_sha256_extend [16..<64] (sv_sha256_load data);
          st = vctx_state ctx;
          (a, b, c, d, e, f, g, h) =
            fold (sv_sha256_round w) [0..<64]
              (st ! 0, st ! 1, st ! 2, st ! 3, st ! 4, st ! 5, st ! 6, st ! 7)
      in ctx\<lparr>vctx_state := [st ! 0 + a, st ! 1 + b, st ! 2 + c, st ! 3 + d,
                            st ! 4 + e, st ! 5 + f, st ! 6 + g, st ! 7 + h]\<rparr>)"

definition sv_sha256_init :: "SV_SHA256_CTX \<Rightarrow> SV_SHA256_CTX" where
  "sv_sha256_init ctx = ctx\<lparr>vctx_state := [0x6a09e667, 0xbb67ae85, 0x3c6ef372, 0xa54ff53a,
     0x510e527f, 0x9b05688c, 0x1f83d9ab, 0x5be0cd19], vctx_count := 0\<rparr>"

definition sv_sha256_byte :: "u8 \<Rightarrow> nat \<times> SV_SHA256_CTX \<Rightarrow> nat \<times> SV_SHA256_CTX" where
  "sv_sha256_byte b = (\<lambda>(idx, ctx).
     let ctx1 = ctx\<lparr>vctx_buffer := (vctx_buffer ctx)[idx := b]\<rparr>; idx1 = idx + 1
     in if idx1 = 64 then (0, sv_sha256_transform ctx1 (vctx_buffer ctx1)) else (idx1, ctx1))"

definition sv_sha256_update :: "SV_SHA256_CTX \<Rightarrow> bytes \<Rightarrow> SV_SHA256_CTX" where
  "sv_sha256_update ctx data =
     (let idx = unat (vctx_count ctx mod 64);
          ctx1 = ctx\<lparr>vctx_count := vctx_count ctx + of_nat (length data)\<rparr>
      in snd (fold sv_sha256_byte data (idx, ctx1)))"

definition sv_sha256_final :: "SV_SHA256_CTX \<Rightarrow> bytes" where
  "sv_sha256_final ctx =
     (let idx = unat (vctx_count ctx mod 64);
          total_bits = vctx_count ctx * 8;
          ctx1 = ctx\<lparr>vctx_buffer := (vctx_buffer ctx)[idx := 0x80]\<rparr>; idx1 = idx + 1;
          (ctx2, idx2) =
            (if idx1 > 56
             then (let c = ctx1\<lparr>vctx_buffer := blit (vctx_buffer ctx1) idx1 (zeros (64 - idx1))\<rparr>
                   in (sv_sha256_transform c (vctx_buffer c), 0))
             else (ctx1, idx1));
          ctx3 = ctx2\<lparr>vctx_buffer := blit (vctx_buffer ctx2) idx2 (zeros (56 - idx2))\<rparr>;
          ctx4 = ctx3\<lparr>vctx_buffer := blit (vctx_buffer ctx3) 56 (be64_bytes total_bits)\<rparr>
      in sha256_serialize (vctx_state (sv_sha256_transform ctx4 (vctx_buffer ctx4))))"

text \<open>The context is a local of \<open>sha256_hash\<close>; only its buffer keeps what it held before.\<close>

definition sv_sha256_hash_from :: "SV_SHA256_CTX \<Rightarrow> bytes \<Rightarrow> bytes" where
  "sv_sha256_hash_from ctx data = sv_sha256_final (sv_sha256_update (sv_sha256_init ctx) data)"

definition sv_sha256_hash :: "bytes \<Rightarrow> bytes" where
  "sv_sha256_hash data = sv_sha256_hash_from \<lparr>vctx_state = [], vctx_count = 0, vctx_buffer = zeros 64\<rparr> data"

subsection \<open>Correctness\<close>

lemma sv_rotr32_eq: "sv_rotr32 x n = rot_right x n"
  by (simp add: sv_rotr32_def rot_right_def)

lemma sv_sha256_extend_eq: "sv_sha256_extend t w = sha256_extend_step t w"
  by (simp add: sv_sha256_extend_def sha256_extend_step_def sv_rotr32_eq ssig0_def ssig1_def sig0_def sig1_def
      Let_def algebra_simps)

lemma sv_sha256_round_eq: "sv_sha256_round w t v = sha256_round w t v"
  by (cases "(w, t, v)" rule: sha256_round.cases)
    (simp add: Let_def sv_rotr32_eq ep0_def ep1_def ch_def maj_def bsig0_def bsig1_def ch32_def maj32_def)

lemma sv_sha256_transform_eq:
  "sv_sha256_transform ctx d = ctx\<lparr>vctx_state := vb_sha256_transform (vctx_state ctx) d\<rparr>"
proof -
  have "sv_sha256_load d = sha256_load d" by (simp add: sv_sha256_load_def sha256_load_def mult.commute)
  moreover have "sv_sha256_extend = sha256_extend_step" and "sv_sha256_round = sha256_round"
    by (intro ext, simp add: sv_sha256_extend_eq, intro ext, simp only: sv_sha256_round_eq)
  ultimately show ?thesis
    by (simp add: sv_sha256_transform_def vb_sha256_transform_eq sha256_compress_def sha256_schedule_def Let_def
        split: prod.splits)
qed

text \<open>The loop is the one of the boot block, with the state kept in the context.\<close>

lemma sv_sha256_byte_eq:
  "sv_sha256_byte b (idx, ctx) =
     (case vb_sha256_byte b (vctx_state ctx, vctx_buffer ctx, idx) of
        (st, blk, i) \<Rightarrow> (i, ctx\<lparr>vctx_state := st, vctx_buffer := blk\<rparr>))"
  by (simp add: sv_sha256_byte_def Let_def sv_sha256_transform_eq)

lemma sv_sha256_loop:
  "fold sv_sha256_byte data (idx, ctx) =
     (case fold vb_sha256_byte data (vctx_state ctx, vctx_buffer ctx, idx) of
        (st, blk, i) \<Rightarrow> (i, ctx\<lparr>vctx_state := st, vctx_buffer := blk\<rparr>))"
proof (induction data arbitrary: idx ctx)
  case (Cons b data)
  show ?case
    by (cases "vb_sha256_byte b (vctx_state ctx, vctx_buffer ctx, idx)") (simp add: sv_sha256_byte_eq Cons)
qed simp

lemma sv_sha256_hash_from_correct:
  assumes "length (vctx_buffer ctx) = 64" and "length data < 2 ^ 32"
  shows "sv_sha256_hash_from ctx data = sha256_spec data"
proof -
  let ?n = "of_nat (length data) :: u64"
  obtain st blk i where f: "fold vb_sha256_byte data (sha256_h0, vctx_buffer ctx, 0) = (st, blk, i)"
    by (rule prod_cases3)
  have "vb_sha256_repr (sha256_h0, vctx_buffer ctx, 0) []" using assms by (simp add: block_tail_def)
  from vb_sha256_repr_loop [OF this, of data] have r: "vb_sha256_repr (st, blk, i) data" by (simp only: f append_Nil)
  have n: "unat ?n = length data" using assms(2) by (simp add: unat_of_nat)
  then have i: "unat (?n mod 64) = i" using r by (simp add: unat_mod)
  have "unat (of_nat (length data) :: u32) = length data" using assms(2) by (simp add: unat_of_nat)
  then have bits: "ucast (of_nat (length data) :: u32) = ?n" by (metis of_nat_unat)
  have "sv_sha256_hash_from ctx data = vb_sha256_finish (of_nat (length data)) (st, blk, i)"
    using f i bits
    by (simp add: sv_sha256_hash_from_def sv_sha256_update_def sv_sha256_init_def sv_sha256_final_def
        sv_sha256_loop sv_sha256_transform_eq sha256_h0_def Let_def)
  then show ?thesis using vb_sha256_finish_correct [OF r assms(2)] by simp
qed

lemma sv_sha256_hash_correct: "length data < 2 ^ 32 \<Longrightarrow> sv_sha256_hash data = sha256_spec data"
  by (simp add: sv_sha256_hash_def sv_sha256_hash_from_correct)


lemma length_sv_sha256_hash [simp]: "length (sv_sha256_hash d) = 32"
proof -
  have "length (vctx_state (sv_sha256_transform c d)) = 8" for c d
    by (simp add: sv_sha256_transform_eq vb_sha256_transform_eq)
  then show ?thesis by (simp add: sv_sha256_hash_def sv_sha256_hash_from_def sv_sha256_final_def Let_def split: prod.split)
qed

section \<open>RSA signatures\<close>

definition RSA_MAX_MODULUS_BYTES :: nat where "RSA_MAX_MODULUS_BYTES = 256"

record RSAKey =
  rk_modulus :: bytes
  rk_exponent :: bytes
  rk_mod_len :: u32
  rk_exp_len :: u32

definition sha256_prefix :: bytes where
  "sha256_prefix = [48, 49, 48, 13, 6, 9, 96, 134, 72, 1, 101, 3, 4, 2, 1, 5, 0, 4, 32]"

text \<open>Where the run of \<open>0xFF\<close> that starts at \<open>i\<close> ends, at most at \<open>n\<close>.\<close>

function pad_end :: "bytes \<Rightarrow> nat \<Rightarrow> nat \<Rightarrow> nat" where
  "pad_end dec n i = (if i < n \<and> dec ! i = 0xFF then pad_end dec n (i + 1) else i)"
  by pat_completeness auto
termination
  by (relation "measure (\<lambda>(dec, n, i). n - i)") auto

declare pad_end.simps [simp del]

definition pkcs1_check :: "bytes \<Rightarrow> nat \<Rightarrow> bytes \<Rightarrow> bool" where
  "pkcs1_check dec dec_len hash =
     (if dec ! 0 \<noteq> 0 \<or> dec ! 1 \<noteq> 1 then False
      else let pe = pad_end dec dec_len 2
           in if pe \<ge> dec_len \<or> dec ! pe \<noteq> 0 then False
              else let p = pe + 1
                   in if p + length sha256_prefix + 32 > dec_len then False
                      else if sub_range dec p (length sha256_prefix) \<noteq> sha256_prefix then False
                      else sub_range dec (p + length sha256_prefix) 32 = take 32 hash)"

text \<open>
  The locals \<open>n\<close>, \<open>e\<close>, \<open>m\<close> and \<open>decrypted\<close> are the objects \<open>Arg 0\<close> to \<open>Arg 3\<close>; \<open>st\<close> and \<open>junk\<close>
  are what the locals hold before.  A signature shorter than its stated length is read beyond
  its end, and a modulus length above 256 makes \<open>bigint_to_bytes\<close> write beyond \<open>dec_bytes\<close>.
\<close>

definition rsa_sha256_verify ::
  "big_store \<Rightarrow> bytes \<Rightarrow> RSAKey option \<Rightarrow> bytes option \<Rightarrow> bytes option \<Rightarrow> u32 \<Rightarrow> bool c_result" where
  "rsa_sha256_verify st junk pub hash sig sig_len =
     (case (pub, hash, sig) of
        (Some pub, Some hash, Some sig) \<Rightarrow>
          if sig_len = 0 then Returned False
          else if min (unat sig_len) 256 > length sig then Undefined
          else (let st1 = bigint_from_bytes (Arg 0) (rk_modulus pub) (unat (rk_mod_len pub)) st;
                    st2 = bigint_from_bytes (Arg 1) (rk_exponent pub) (unat (rk_exp_len pub)) st1;
                    st3 = bigint_from_bytes (Arg 2) sig (unat sig_len) st2
                in case bigint_mod_exp (Arg 3) (Arg 2) (Arg 1) (Arg 0) st3 of
                     Returned st4 \<Rightarrow>
                       if unat (rk_mod_len pub) > RSA_MAX_MODULUS_BYTES then Undefined
                       else let dec_len = unat (rk_mod_len pub);
                                dec_bytes = bigint_to_bytes (st4 (Arg 3)) dec_len junk
                            in Returned (pkcs1_check dec_bytes dec_len hash)
                   | Undefined \<Rightarrow> Undefined | Diverges \<Rightarrow> Diverges)
      | _ \<Rightarrow> Returned False)"

text \<open>
  The signer returns the padded encoding itself; the private exponent is not used.  A modulus
  of more than 256 bytes is written beyond \<open>em\<close>.
\<close>

definition rsa_sha256_sign :: "RSAKey option \<Rightarrow> bytes option \<Rightarrow> bytes option c_result" where
  "rsa_sha256_sign priv hash =
     (case (priv, hash) of
        (Some priv, Some hash) \<Rightarrow>
          (let k = unat (rk_mod_len priv)
           in if k < 19 + 32 + 11 then Returned None
              else if k > RSA_MAX_MODULUS_BYTES then Undefined
              else (let em = replicate k 0xFF;
                        em1 = em[0 := 0, 1 := 1];
                        t_len = 19 + 32;
                        sep_pos = k - t_len - 1;
                        em2 = em1[sep_pos := 0];
                        em3 = blit em2 (sep_pos + 1) sha256_prefix;
                        em4 = blit em3 (sep_pos + 1 + 19) (take 32 hash)
                    in Returned (Some em4)))
      | _ \<Rightarrow> Returned None)"

text \<open>The demo key pair; the exponent keeps what it held beyond its three bytes.\<close>

definition rsa_generate_simple_keypair :: "RSAKey \<Rightarrow> RSAKey \<times> RSAKey" where
  "rsa_generate_simple_keypair pub =
     (let pub1 = pub\<lparr>rk_modulus := str_bytes ''DEMO_MODULUS_256_BYTES_PAD'' @ zeros 230,
                     rk_mod_len := 256, rk_exp_len := 3,
                     rk_exponent := (rk_exponent pub)[0 := 1, 1 := 0, 2 := 1]\<rparr>
      in (pub1, pub1))"

section \<open>Certificates\<close>

definition X509_MAX_CERT_CHAIN :: nat where "X509_MAX_CERT_CHAIN = 8"

record X509Cert =
  xc_issuer :: bytes
  xc_subject :: bytes
  xc_public_key :: RSAKey
  xc_signature :: bytes
  xc_sig_len :: u32
  xc_not_before :: u64
  xc_not_after :: u64
  xc_serial_number :: u32
  xc_is_ca :: bool
  xc_parsed :: bool

record X509Chain =
  xh_certs :: "X509Cert list"
  xh_count :: u32

text \<open>The parser does not look at the data.\<close>

definition x509_parse_cert :: "bytes \<Rightarrow> u32 \<Rightarrow> X509Cert \<times> bool" where
  "x509_parse_cert der_data der_len =
     (\<lparr>xc_issuer = str_bytes ''CN=DemoRootCA'' @ zeros 115, xc_subject = str_bytes ''CN=DemoLeaf'' @ zeros 117,
       xc_public_key = \<lparr>rk_modulus = zeros 256, rk_exponent = zeros 256, rk_mod_len = 0, rk_exp_len = 0\<rparr>,
       xc_signature = zeros 256, xc_sig_len = 0, xc_not_before = 0, xc_not_after = 0x7FFFFFFFFFFFFFFF,
       xc_serial_number = 1, xc_is_ca = False, xc_parsed = True\<rparr>, True)"

text \<open>A count above the eight certificates of the array reads beyond it, unless one before fails.\<close>

fun parsed_upto :: "X509Cert list \<Rightarrow> nat \<Rightarrow> bool c_result" where
  "parsed_upto cs 0 = Returned True"
| "parsed_upto [] (Suc n) = Undefined"
| "parsed_upto (c # cs) (Suc n) = (if \<not> xc_parsed c then Returned False else parsed_upto cs n)"

definition x509_verify_chain :: "X509Chain option \<Rightarrow> RSAKey option \<Rightarrow> bool c_result" where
  "x509_verify_chain xh root_key =
     (case (xh, root_key) of
        (Some c, Some root) \<Rightarrow>
          if xh_count c = 0 then Returned False else parsed_upto (xh_certs c) (unat (xh_count c))
      | _ \<Rightarrow> Returned False)"

definition x509_is_cert_valid :: "X509Cert option \<Rightarrow> u64 \<Rightarrow> bool" where
  "x509_is_cert_valid cert current_time =
     (case cert of None \<Rightarrow> False
      | Some c \<Rightarrow> xc_parsed c \<and> current_time \<ge> xc_not_before c \<and> current_time \<le> xc_not_after c)"

section \<open>PE images\<close>

text \<open>
  The offsets are 32-bit sums, which wrap: the guards can be passed with an offset beyond the
  image.  A read outside the image is \<open>Undefined\<close>.  \<open>None\<close> is the result \<open>false\<close>.
\<close>

definition rd16 :: "bytes \<Rightarrow> u32 \<Rightarrow> u16 option" where
  "rd16 img a = (if unat a + 2 \<le> length img then Some (le16 (img ! unat a) (img ! (unat a + 1))) else None)"

definition rd32 :: "bytes \<Rightarrow> u32 \<Rightarrow> u32 option" where
  "rd32 img a = (if unat a + 4 \<le> length img then Some (le32_at img (unat a)) else None)"

text \<open>Address and size of the certificate table, by the magic number of the optional header.\<close>

definition cert_dir :: "bytes \<Rightarrow> u32 \<Rightarrow> (u32 \<times> u32) c_result" where
  "cert_dir img oh_offset =
     (case rd16 img oh_offset of None \<Rightarrow> Undefined
      | Some magic \<Rightarrow>
          if magic = 0x010B
          then (case (rd32 img (oh_offset + 104), rd32 img (oh_offset + 108)) of
                  (Some rva, Some sz) \<Rightarrow> Returned (rva, sz) | _ \<Rightarrow> Undefined)
          else if magic = 0x020B
          then (case (rd32 img (oh_offset + 120), rd32 img (oh_offset + 124)) of
                  (Some rva, Some sz) \<Rightarrow> Returned (rva, sz) | _ \<Rightarrow> Undefined)
          else Returned (0, 0))"

definition sig_extract_auth_data :: "bytes \<Rightarrow> u32 \<Rightarrow> bytes option c_result" where
  "sig_extract_auth_data img image_size =
     (if image_size < 64 then Returned None
      else if img ! 0 \<noteq> 77 \<or> img ! 1 \<noteq> 90 then Returned None
      else let pe_offset = le32_at img 0x3C
           in if pe_offset + 4 > image_size then Returned None
              else if unat pe_offset + 2 > length img then Undefined
              else if img ! unat pe_offset \<noteq> 80 \<or> img ! (unat pe_offset + 1) \<noteq> 69 then Returned None
              else let oh_offset = pe_offset + 24
                   in if oh_offset + 128 > image_size then Returned None
                      else (case cert_dir img oh_offset of
                              Undefined \<Rightarrow> Undefined | Diverges \<Rightarrow> Diverges
                            | Returned (rva, sz) \<Rightarrow>
                                if rva = 0 \<or> sz = 0 \<or> sz > 4096 then Returned None
                                else if rva > image_size \<or> rva + sz > image_size then Returned None
                                else if unat rva + unat sz > length img then Undefined
                                else Returned (Some (sub_range img (unat rva) (unat sz)))))"

text \<open>\<open>sig_data\<close> is a buffer of 4096 bytes whose first bytes are the signature.\<close>

definition sig_verify_efi_image ::
  "big_store \<Rightarrow> bytes \<Rightarrow> bytes \<Rightarrow> bytes \<Rightarrow> u32 \<Rightarrow> RSAKey option \<Rightarrow> bool c_result" where
  "sig_verify_efi_image st junk buf img image_size trusted_key =
     (case sig_extract_auth_data img image_size of
        Undefined \<Rightarrow> Undefined | Diverges \<Rightarrow> Diverges
      | Returned None \<Rightarrow> Returned False
      | Returned (Some sig) \<Rightarrow>
          rsa_sha256_verify st junk trusted_key (Some (sv_sha256_hash (take (unat image_size) img)))
            (Some (blit buf 0 sig)) (of_nat (length sig)))"

section \<open>Hex dump\<close>

definition hex_digit :: "nat \<Rightarrow> u8" where
  "hex_digit n = of_nat (if n < 10 then 48 + n else 55 + n)"

text \<open>\<open>snprintf\<close> of a byte in hex and a blank, into \<open>room\<close> bytes, with its terminator.\<close>

definition hex_text :: "u8 \<Rightarrow> nat \<Rightarrow> bytes" where
  "hex_text b room = (if room = 0 then []
     else take (room - 1) [hex_digit (unat b div 16), hex_digit (unat b mod 16), 32] @ [0])"

function hexdump_loop :: "bytes \<Rightarrow> u32 \<Rightarrow> nat \<Rightarrow> u32 \<Rightarrow> bytes \<Rightarrow> u32 \<times> bytes" where
  "hexdump_loop data out_max i pos out =
     (if i < length data \<and> pos + 3 \<le> out_max
      then let out1 = blit out (unat pos) (hex_text (data ! i) (unat (out_max - pos)));
               pos1 = pos + 3
           in if (i + 1) mod 16 = 0 \<and> pos1 + 2 \<le> out_max
              then hexdump_loop data out_max (i + 1) (pos1 + 1) (out1[unat pos1 := 10])
              else hexdump_loop data out_max (i + 1) pos1 out1
      else (pos, out))"
  by pat_completeness auto
termination
  by (relation "measure (\<lambda>(data, m, i, pos, out). length data - i)") auto

declare hexdump_loop.simps [simp del]

definition sig_hexdump :: "bytes \<Rightarrow> bytes \<Rightarrow> u32 \<Rightarrow> bytes" where
  "sig_hexdump data out out_max =
     (let (pos, out1) = hexdump_loop data out_max 0 0 out
      in if pos < out_max then out1[unat pos := 0] else out1)"

section \<open>What is verified\<close>

lemma from_bytes_cap:
  "bigint_from_bytes n bs len st
    = bigint_from_bytes n (map (\<lambda>i. bs ! i) [0..<min len 256]) (min len 256) st"
proof -
  let ?l = "min len 256" and ?bs = "map (\<lambda>i. bs ! i) [0..<min len 256]"
  have y: "?bs ! y = bs ! y" if "y < ?l" for y using that by simp
  have n: "?bs ! (L - 1 - x) = bs ! (L - 1 - x)" if "x < L" "L \<le> ?l" for x L
    using that by (intro y) linarith
  have "fold (\<lambda>i s. put_word n (i div 4)
          (word_at s n (i div 4) OR push_bit (i mod 4 * 8) (ucast (bs ! (L - 1 - i)))) s) [0..<L] s
      = fold (\<lambda>i s. put_word n (i div 4)
          (word_at s n (i div 4) OR push_bit (i mod 4 * 8) (ucast (?bs ! (L - 1 - i)))) s) [0..<L] s"
    if "L \<le> ?l" for s L
    using n that by (intro fold_cong refl) simp
  moreover have "(if len > SIGBIG_MAX_WORDS * 4 then SIGBIG_MAX_WORDS * 4 else len) = ?l"
    "(if ?l > SIGBIG_MAX_WORDS * 4 then SIGBIG_MAX_WORDS * 4 else ?l) = ?l"
    by (auto simp: SIGBIG_MAX_WORDS_def)
  ultimately show ?thesis unfolding bigint_from_bytes_def by (simp only: Let_def order_refl)
qed

lemma from_bytes_ok:
  "big_ok (bigint_from_bytes n bs len st n)" "m \<noteq> n \<Longrightarrow> bigint_from_bytes n bs len st m = st m"
proof -
  let ?bs = "map (\<lambda>i. bs ! i) [0..<min len 256]"
  have "length ?bs \<le> 256" by simp
  note fb = bigint_from_bytes_bytes(4,5) [OF this, where n=n and st=st]
  show "big_ok (bigint_from_bytes n bs len st n)" "m \<noteq> n \<Longrightarrow> bigint_from_bytes n bs len st m = st m"
    using fb unfolding from_bytes_cap [of n bs len st] by simp_all
qed

text \<open>A number that is zero or one is no encoding of a digest.\<close>

lemma pkcs1_check_small:
  assumes "length buf = 256" and "L \<le> 256" and "bigint_is_zero n \<or> n = one_bigint"
  shows "\<not> pkcs1_check (bigint_to_bytes n L buf) L hash"
proof
  assume "pkcs1_check (bigint_to_bytes n L buf) L hash"
  then have c: "bigint_to_bytes n L buf ! 1 = 1" "pad_end (bigint_to_bytes n L buf) L 2 < L"
    by (auto simp: pkcs1_check_def Let_def split: if_splits)
  have "2 \<le> pad_end dec k i" if "2 \<le> i" for dec k i
    using that by (induction dec k i rule: pad_end.induct) (simp add: pad_end.simps)
  then have "2 < L" using c(2) by (meson le_less_trans order_refl)
  define d where "d = L - 1 - 1"
  have "bigint_to_bytes n L buf ! 1 = (if d < 4 * unat (bi_num_words n) then byte_of (bi_words n) d else 0)"
    using bigint_to_bytes_props(2) [of L buf 1 n] assms(1,2) \<open>2 < L\<close> unfolding d_def by simp
  then have b: "byte_of (bi_words n) d = 1" "d < 4 * unat (bi_num_words n)" using c(1) by (auto split: if_splits)
  have "unat (bi_num_words n) \<le> 1" using assms(3) zero_used one_bigint_facts(2) by auto
  then have "d < 4" using b(2) by simp
  then have d: "d div 4 = 0" "d \<in> {1, 2, 3}" using \<open>2 < L\<close> by (auto simp: d_def)
  have "bi_words n ! 0 = 0 \<or> bi_words n ! 0 = 1"
    using assms(3) b(2) by (auto simp: bigint_is_zero_def one_bigint_def)
  then show False using b(1) d by (auto simp: byte_of_def)
qed

lemma rsa_verify_False:
  assumes "length (bi_words (st Exp_tmp)) = 64" and "length junk = 256"
  shows "rsa_sha256_verify st junk pub hash sig sig_len \<noteq> Returned True"
    and "unat (rk_mod_len (the pub)) \<le> 256 \<Longrightarrow> min (unat sig_len) 256 \<le> length (the sig) \<Longrightarrow>
      rsa_sha256_verify st junk pub hash sig sig_len = Returned False"
proof -
  have S: "rsa_sha256_verify st junk (Some k) (Some h) (Some s) sig_len =
      (if sig_len = 0 then Returned False
       else if min (unat sig_len) 256 > length s \<or> unat (rk_mod_len k) > 256 then Undefined else Returned False)" for k h s
  proof -
    define st3 where "st3 = bigint_from_bytes (Arg 2) s (unat sig_len) (bigint_from_bytes (Arg 1) (rk_exponent k)
      (unat (rk_exp_len k)) (bigint_from_bytes (Arg 0) (rk_modulus k) (unat (rk_mod_len k)) st))"
    have "big_ok (st3 (Arg 1))" "st3 Exp_tmp = st Exp_tmp" by (simp_all add: st3_def from_bytes_ok)
    then obtain st4 where m: "bigint_mod_exp (Arg 3) (Arg 2) (Arg 1) (Arg 0) st3 = Returned st4"
      and z: "bigint_is_zero (st4 (Arg 3)) \<or> st4 (Arg 3) = one_bigint"
      using bigint_mod_exp_result [of st3 "Arg 1" "Arg 2" "Arg 0" "Arg 3"] assms(1) by auto
    then show ?thesis
      using pkcs1_check_small [OF assms(2) _ z]
      unfolding rsa_sha256_verify_def Let_def prod.case option.case st3_def [symmetric] m c_result.case
      by (simp add: RSA_MAX_MODULUS_BYTES_def)
  qed
  have N: "rsa_sha256_verify st junk pub hash sig sig_len = Returned False" if "pub = None \<or> hash = None \<or> sig = None"
    using that by (auto simp: rsa_sha256_verify_def split: option.splits)
  have C: "(pub = None \<or> hash = None \<or> sig = None) \<or> (\<exists>k h s. pub = Some k \<and> hash = Some h \<and> sig = Some s)"
    by auto
  show "rsa_sha256_verify st junk pub hash sig sig_len \<noteq> Returned True"
    using C N by (elim disjE exE conjE) (simp_all only: S, simp_all)
  show "rsa_sha256_verify st junk pub hash sig sig_len = Returned False"
    if "unat (rk_mod_len (the pub)) \<le> 256" and "min (unat sig_len) 256 \<le> length (the sig)"
    using C N that by (elim disjE exE conjE) (simp_all only: S, auto)
qed

text \<open>Reading and writing at a known place.\<close>

lemma blit_at: "length xs = n \<Longrightarrow> blit (xs @ ys) n zs = xs @ zs @ drop (length zs) ys"
  by (simp add: blit_def)

lemma sub_range_at: "length xs = n \<Longrightarrow> length ys = m \<Longrightarrow> sub_range (xs @ ys @ zs) n m = ys"
  by (simp add: sub_range_def)

text \<open>The check accepts what the signer encodes.\<close>

lemma pad_end_run:
  assumes "i + k \<le> n" and "\<forall>j < k. dec ! (i + j) = 0xFF" and "i + k < n \<longrightarrow> dec ! (i + k) \<noteq> 0xFF"
  shows "pad_end dec n i = i + k"
  using assms
proof (induction k arbitrary: i)
  case 0
  then show ?case by (subst pad_end.simps) auto
next
  case (Suc k)
  have "pad_end dec n (Suc i) = Suc i + k"
    using Suc.prems by (intro Suc.IH) (auto dest: spec [of _ "Suc j" for j])
  then show ?case using Suc.prems spec [OF Suc.prems(2), of 0] by (subst pad_end.simps) simp
qed

lemma sha256_prefix_len [simp]: "length sha256_prefix = 19"
  by (simp add: sha256_prefix_def)

lemma rsa_sign_encoding:
  assumes "8 \<le> j" and "j \<le> 202" and "unat (rk_mod_len key) = 54 + j" and "length hash = 32"
  shows "rsa_sha256_sign (Some key) (Some hash)
    = Returned (Some ([0, 1] @ replicate j 0xFF @ [0] @ sha256_prefix @ hash))"
proof -
  have "replicate (54 + j) (0xFF :: u8) = [0xFF, 0xFF] @ replicate j 0xFF @ [0xFF] @ replicate 51 0xFF"
    unfolding replicate_add [symmetric] by (simp add: replicate_add [symmetric] numeral_eq_Suc replicate_app_Cons_same)
  then have em: "(replicate (54 + j) 0xFF)[0 := 0, 1 := 1, j + 2 := (0 :: u8)]
      = [0, 1] @ replicate j 0xFF @ [0] @ replicate 51 0xFF"
    by (simp add: list_update_append)
  have "blit (([0, 1] @ replicate j 0xFF @ [0]) @ replicate 51 0xFF) (j + 3) sha256_prefix
      = ([0, 1] @ replicate j 0xFF @ [0]) @ sha256_prefix @ replicate 32 0xFF"
    by (subst blit_at) simp_all
  moreover have "blit (([0, 1] @ replicate j 0xFF @ [0] @ sha256_prefix) @ replicate 32 0xFF) (j + 22) hash
      = ([0, 1] @ replicate j 0xFF @ [0] @ sha256_prefix) @ hash"
    using assms(4) by (subst blit_at) simp_all
  ultimately have "blit (blit ([0, 1] @ replicate j 0xFF @ [0] @ replicate 51 0xFF) (Suc (Suc (Suc j))) sha256_prefix) (22 + j) hash
      = [0, 1] @ replicate j 0xFF @ [0] @ sha256_prefix @ hash" by (simp add: add.commute eval_nat_numeral)
  then show ?thesis using assms em by (simp add: rsa_sha256_sign_def Let_def RSA_MAX_MODULUS_BYTES_def)
qed

lemma rsa_sign_check:
  assumes "length hash = 32"
  shows "pkcs1_check ([0, 1] @ replicate j 0xFF @ [0] @ sha256_prefix @ hash @ rest) (54 + j + length rest) hash"
proof -
  let ?em = "[0, 1] @ replicate j 0xFF @ [0] @ sha256_prefix @ hash @ rest"
  have "pad_end ?em (54 + j + length rest) 2 = 2 + j"
    by (intro pad_end_run) (auto simp: nth_append)
  moreover have "?em ! (2 + j) = 0" by (simp add: nth_append)
  moreover have "sub_range ?em (j + 3) 19 = sha256_prefix"
    using sub_range_at [of "[0, 1] @ replicate j 0xFF @ [0]" "j + 3" sha256_prefix 19 "hash @ rest"] by simp
  moreover have "sub_range ?em (j + 22) 32 = hash"
    using sub_range_at [of "[0, 1] @ replicate j 0xFF @ [0] @ sha256_prefix" "j + 22" hash 32 rest] assms by simp
  ultimately show ?thesis using assms by (simp add: pkcs1_check_def Let_def eval_nat_numeral add.commute)
qed

lemma sig_verify_efi_never:
  assumes "length (bi_words (st Exp_tmp)) = 64" and "length junk = 256"
  shows "sig_verify_efi_image st junk buf img sz key \<noteq> Returned True"
  using rsa_verify_False(1) [of st junk] assms
  by (auto simp: sig_verify_efi_image_def split: c_result.splits option.splits)

text \<open>The signature lies in the image, and fits the buffer of 4096 bytes.\<close>

lemma sig_extract_bounds:
  assumes "sig_extract_auth_data img n = Returned (Some sig)"
  shows "0 < length sig \<and> length sig \<le> 4096 \<and> (\<exists>a. a + length sig \<le> length img \<and> sig = sub_range img a (length sig))"
proof -
  have "\<exists>(rva :: u32) (sz :: u32). 0 < unat sz \<and> unat sz \<le> 4096 \<and> unat rva + unat sz \<le> length img \<and> sig = sub_range img (unat rva) (unat sz)"
    using assms by (auto simp: sig_extract_auth_data_def Let_def word_le_nat_alt word_less_nat_alt not_less unat_gt_0
        split: if_splits c_result.splits) blast
  then obtain rva sz where c: "0 < unat (sz :: u32)" "unat (sz :: u32) \<le> 4096" "unat (rva :: u32) + unat sz \<le> length img"
    "sig = sub_range img (unat rva) (unat sz)" by blast
  then have "length sig = unat sz" by simp
  with c show ?thesis by (intro conjI exI [of _ "unat rva"]) simp_all
qed

end
