(* ===== verification/Trust_Chain.thy ===== *)
theory Trust_Chain
  imports Sig_Verify
begin

text \<open>
  The boot chain and the FIT images of \<open>mini-secure-boot/src/trust_chain.c\<close>.  A chain is an
  array of 16 components with a count; a component keeps its data in an array of 64 KiB.  A FIT
  image is parsed from a blob; its check uses the hash and the signatures of \<open>Sig_Verify\<close>.
  \<open>NULL\<close> is \<open>None\<close>; a C string is its bytes without the terminator.
\<close>

section \<open>Boot chain\<close>

definition TC_MAX_COMPONENTS :: nat where "TC_MAX_COMPONENTS = 16"
definition TC_MAX_NAME_LEN :: nat where "TC_MAX_NAME_LEN = 64"
definition TC_MAX_COMPONENT_DATA :: nat where "TC_MAX_COMPONENT_DATA = 65536"

datatype BootComponent = BOOT_COMP_SPL | BOOT_COMP_TPL | BOOT_COMP_U_BOOT | BOOT_COMP_LINUX_KERNEL
  | BOOT_COMP_INITRD | BOOT_COMP_DT_FIT | BOOT_COMP_FDT | BOOT_COMP_UNKNOWN | BOOT_COMP_COUNT

datatype VerificationStatus = TC_STATUS_UNVERIFIED | TC_STATUS_VERIFIED | TC_STATUS_REVOKED
  | TC_STATUS_MISSING | TC_STATUS_FAILED

record ChainComponent =
  cc_type :: BootComponent
  cc_name :: bytes
  cc_hash :: bytes
  cc_data :: bytes
  cc_data_size :: nat
  cc_present :: bool
  cc_status :: VerificationStatus

record BootChain =
  ch_components :: "ChainComponent list"
  ch_component_count :: nat
  ch_verified_bitmap :: u32
  ch_boot_allowed :: bool
  ch_error_message :: bytes

definition zero_component :: ChainComponent where
  "zero_component = \<lparr>cc_type = BOOT_COMP_SPL, cc_name = [], cc_hash = zeros 32, cc_data = zeros TC_MAX_COMPONENT_DATA,
     cc_data_size = 0, cc_present = False, cc_status = TC_STATUS_UNVERIFIED\<rparr>"

definition trust_chain_init :: BootChain where
  "trust_chain_init = \<lparr>ch_components = replicate TC_MAX_COMPONENTS zero_component, ch_component_count = 0,
     ch_verified_bitmap = 0, ch_boot_allowed = False, ch_error_message = []\<rparr>"

definition trust_chain_add_component ::
  "BootChain \<Rightarrow> BootComponent \<Rightarrow> bytes option \<Rightarrow> bytes option \<Rightarrow> BootChain \<times> bool" where
  "trust_chain_add_component bc ty name data =
     (case (name, data) of
        (Some nm, Some d) \<Rightarrow>
          if ch_component_count bc \<ge> TC_MAX_COMPONENTS then (bc, False)
          else if length d > TC_MAX_COMPONENT_DATA then (bc, False)
          else let c = ch_components bc ! ch_component_count bc;
                   c1 = c\<lparr>cc_type := ty, cc_name := take (TC_MAX_NAME_LEN - 1) nm, cc_data := blit (cc_data c) 0 d,
                          cc_data_size := length d, cc_present := True, cc_status := TC_STATUS_UNVERIFIED\<rparr>
               in (bc\<lparr>ch_components := (ch_components bc)[ch_component_count bc := c1],
                      ch_component_count := ch_component_count bc + 1\<rparr>, True)
      | _ \<Rightarrow> (bc, False))"

definition set_status :: "nat \<Rightarrow> VerificationStatus \<Rightarrow> BootChain \<Rightarrow> BootChain" where
  "set_status i s bc = bc\<lparr>ch_components := (ch_components bc)[i := (ch_components bc ! i)\<lparr>cc_status := s\<rparr>]\<rparr>"

definition set_verified_bit :: "nat \<Rightarrow> BootChain \<Rightarrow> BootChain" where
  "set_verified_bit i bc = bc\<lparr>ch_verified_bitmap := ch_verified_bitmap bc OR push_bit i 1\<rparr>"

definition trust_chain_verify_component :: "BootChain \<Rightarrow> nat \<Rightarrow> bytes option \<Rightarrow> BootChain \<times> bool" where
  "trust_chain_verify_component bc idx expected_hash =
     (case expected_hash of None \<Rightarrow> (bc, False)
      | Some expected \<Rightarrow>
          if idx \<ge> ch_component_count bc then (bc, False)
          else let c = ch_components bc ! idx
               in if \<not> cc_present c then (set_status idx TC_STATUS_MISSING bc, False)
                  else if sv_sha256_hash (take (cc_data_size c) (cc_data c)) = take 32 expected
                  then (set_verified_bit idx (set_status idx TC_STATUS_VERIFIED bc), True)
                  else (set_status idx TC_STATUS_FAILED bc, False))"

text \<open>The first loop of \<open>trust_chain_verify_all\<close> marks what is missing, the second one verifies.\<close>

definition mark_present :: "nat \<Rightarrow> BootChain \<times> bool \<Rightarrow> BootChain \<times> bool" where
  "mark_present i = (\<lambda>(bc, ok).
     if \<not> cc_present (ch_components bc ! i) then (set_status i TC_STATUS_MISSING bc, False)
     else (set_verified_bit i bc, ok))"

definition verify_next :: "bytes list \<Rightarrow> nat \<Rightarrow> BootChain \<times> bool \<Rightarrow> BootChain \<times> bool" where
  "verify_next expected i = (\<lambda>(bc, ok).
     case trust_chain_verify_component bc i (Some (expected ! i)) of (b1, r) \<Rightarrow> (b1, ok \<and> r))"

definition trust_chain_verify_all :: "BootChain \<Rightarrow> bytes list option \<Rightarrow> (BootChain \<times> bool) c_result" where
  "trust_chain_verify_all bc expected_hashes =
     (case expected_hashes of None \<Rightarrow> Returned (bc, False)
      | Some expected \<Rightarrow>
          if length expected < ch_component_count bc then Undefined
          else let (b1, ok1) = fold mark_present [0..<ch_component_count bc] (bc, True);
                   (b2, ok2) = fold (verify_next expected) [0..<ch_component_count bc] (b1, ok1)
               in Returned (b2\<lparr>ch_boot_allowed := ok2\<rparr>, ok2))"

definition trust_chain_boot_authorized :: "BootChain option \<Rightarrow> bool" where
  "trust_chain_boot_authorized bc = (case bc of None \<Rightarrow> False | Some c \<Rightarrow> ch_boot_allowed c)"

section \<open>FIT images\<close>

definition FIT_MAGIC :: u32 where "FIT_MAGIC = 0xD00DFEED"
definition FIT_MAX_DESC_LEN :: nat where "FIT_MAX_DESC_LEN = 128"
definition TC_MAX_FIT_IMAGES :: u32 where "TC_MAX_FIT_IMAGES = 32"
definition TC_MAX_FIT_CONFIGS :: u32 where "TC_MAX_FIT_CONFIGS = 8"

record FITImageHeader =
  fh_description :: bytes
  fh_timestamp :: u64
  fh_image_count :: u32
  fh_config_count :: u32

record FITSubImage =
  fi_name :: bytes
  fi_type :: bytes
  fi_data :: bytes
  fi_data_size :: nat
  fi_load_address :: u32
  fi_entry_point :: u32
  fi_compression :: bytes
  fi_hash_value :: bytes
  fi_has_hash :: bool

record FITConfiguration =
  fc_description :: bytes
  fc_kernel_idx :: u32
  fc_fdt_idx :: u32
  fc_initrd_idx :: u32
  fc_signature_type :: bytes
  fc_signature_data :: bytes
  fc_sig_len :: u32
  fc_verified :: bool

record FITImage =
  fit_t_header :: FITImageHeader
  fit_t_images :: "FITSubImage list"
  fit_t_configs :: "FITConfiguration list"
  fit_t_total_size :: nat
  fit_t_parsed :: bool

definition zero_subimage :: FITSubImage where
  "zero_subimage = \<lparr>fi_name = [], fi_type = [], fi_data = zeros TC_MAX_COMPONENT_DATA, fi_data_size = 0,
     fi_load_address = 0, fi_entry_point = 0, fi_compression = [], fi_hash_value = zeros 32, fi_has_hash = False\<rparr>"

definition zero_config :: FITConfiguration where
  "zero_config = \<lparr>fc_description = [], fc_kernel_idx = 0, fc_fdt_idx = 0, fc_initrd_idx = 0,
     fc_signature_type = [], fc_signature_data = zeros 256, fc_sig_len = 0, fc_verified = False\<rparr>"

definition zero_fit :: FITImage where
  "zero_fit = \<lparr>fit_t_header = \<lparr>fh_description = [], fh_timestamp = 0, fh_image_count = 0, fh_config_count = 0\<rparr>,
     fit_t_images = replicate 32 zero_subimage, fit_t_configs = replicate 8 zero_config, fit_t_total_size = 0, fit_t_parsed = False\<rparr>"

definition read_be32 :: "bytes \<Rightarrow> nat \<Rightarrow> u32" where
  "read_be32 p i = be32 (p ! i) (p ! (i + 1)) (p ! (i + 2)) (p ! (i + 3))"

definition fit_subimage :: "bytes \<Rightarrow> nat \<Rightarrow> FITSubImage \<Rightarrow> FITSubImage" where
  "fit_subimage data i img =
     img\<lparr>fi_name := str_bytes ''image_'' @ dec_string i, fi_type := str_bytes ''kernel'', fi_data_size := 1024,
         fi_load_address := 0x80000000 + of_nat i * 0x1000000, fi_entry_point := 0x80000000 + of_nat i * 0x1000000,
         fi_compression := str_bytes ''none'', fi_hash_value := sv_sha256_hash (take 1024 data), fi_has_hash := True\<rparr>"

definition fit_config :: "u32 \<Rightarrow> nat \<Rightarrow> FITConfiguration \<Rightarrow> FITConfiguration" where
  "fit_config image_count i cfg =
     cfg\<lparr>fc_description := str_bytes ''config_'' @ dec_string i, fc_kernel_idx := 0,
         fc_fdt_idx := (if image_count > 1 then 1 else 0), fc_initrd_idx := (if image_count > 2 then 2 else 0),
         fc_signature_type := str_bytes ''rsa2048'', fc_sig_len := 0, fc_verified := False\<rparr>"

text \<open>
  Each return carries what the caller's structure then holds.  The description is read up to
  its terminator, which need not be inside the blob.
\<close>

definition fit_parse :: "FITImage \<Rightarrow> bytes option \<Rightarrow> (FITImage \<times> bool) c_result" where
  "fit_parse fit data =
     (case data of None \<Rightarrow> Returned (fit, False)
      | Some d \<Rightarrow>
          if length d < 40 then Returned (fit, False)
          else if read_be32 d 0 \<noteq> FIT_MAGIC then Returned (zero_fit, False)
          else let h = (fit_t_header zero_fit)\<lparr>
                     fh_timestamp := push_bit 32 (ucast (read_be32 d 4)) OR ucast (read_be32 d 16),
                     fh_image_count := read_be32 d 8, fh_config_count := read_be32 d 12\<rparr>;
                   desc_offset = unat (read_be32 d 20)
               in if desc_offset < 40 \<or> desc_offset \<ge> length d then Returned (zero_fit\<lparr>fit_t_header := h\<rparr>, False)
                  else if 0 \<notin> set (drop desc_offset d) then Undefined
                  else let desc = takeWhile (\<lambda>b. b \<noteq> 0) (drop desc_offset d);
                           ic = min (fh_image_count h) TC_MAX_FIT_IMAGES;
                           fc = min (fh_config_count h) TC_MAX_FIT_CONFIGS
                       in Returned (zero_fit\<lparr>
                            fit_t_header := h\<lparr>fh_description := take (FIT_MAX_DESC_LEN - 1) desc,
                                           fh_image_count := ic, fh_config_count := fc\<rparr>,
                            fit_t_images := map (\<lambda>i. (if i < unat ic then fit_subimage d i else id) (fit_t_images zero_fit ! i)) [0..<32],
                            fit_t_configs := map (\<lambda>i. (if i < unat fc then fit_config ic i else id) (fit_t_configs zero_fit ! i)) [0..<8],
                            fit_t_total_size := length d, fit_t_parsed := True\<rparr>, True))"

definition fit_get_subimage :: "FITImage \<Rightarrow> u32 \<Rightarrow> FITSubImage option" where
  "fit_get_subimage fit idx =
     (if \<not> fit_t_parsed fit then None
      else if idx \<ge> fh_image_count (fit_t_header fit) then None else Some (fit_t_images fit ! unat idx))"

definition fit_get_config :: "FITImage \<Rightarrow> u32 \<Rightarrow> FITConfiguration option" where
  "fit_get_config fit idx =
     (if \<not> fit_t_parsed fit then None
      else if idx \<ge> fh_config_count (fit_t_header fit) then None else Some (fit_t_configs fit ! unat idx))"

definition fit_verify_config :: "big_store \<Rightarrow> bytes \<Rightarrow> FITImage \<Rightarrow> u32 \<Rightarrow> RSAKey option \<Rightarrow> bool c_result" where
  "fit_verify_config st junk fit config_idx pub_key =
     (if pub_key = None \<or> \<not> fit_t_parsed fit \<or> config_idx \<ge> fh_config_count (fit_t_header fit) then Returned False
      else let cfg = fit_t_configs fit ! unat config_idx
           in if fc_kernel_idx cfg \<ge> fh_image_count (fit_t_header fit) then Returned False
              else let kernel = fit_t_images fit ! unat (fc_kernel_idx cfg)
                   in if \<not> fi_has_hash kernel then Returned False
                      else let computed = sv_sha256_hash (take (fi_data_size kernel) (fi_data kernel))
                           in if fc_sig_len cfg > 0
                              then rsa_sha256_verify st junk pub_key (Some computed)
                                     (Some (fc_signature_data cfg)) (fc_sig_len cfg)
                              else Returned (computed = fi_hash_value kernel))"

fun all_configs :: "(nat \<Rightarrow> bool c_result) \<Rightarrow> nat list \<Rightarrow> bool c_result" where
  "all_configs f [] = Returned True"
| "all_configs f (i # is) =
     (case f i of Returned True \<Rightarrow> all_configs f is | Returned False \<Rightarrow> Returned False
      | Undefined \<Rightarrow> Undefined | Diverges \<Rightarrow> Diverges)"

definition fit_verify_all :: "big_store \<Rightarrow> bytes \<Rightarrow> FITImage \<Rightarrow> RSAKey option \<Rightarrow> bool c_result" where
  "fit_verify_all st junk fit pub_key =
     (if pub_key = None \<or> \<not> fit_t_parsed fit then Returned False
      else all_configs (\<lambda>i. fit_verify_config st junk fit (of_nat i) pub_key)
             [0..<unat (fh_config_count (fit_t_header fit))])"

section \<open>Verification of a chain\<close>

definition chain_wf :: "BootChain \<Rightarrow> bool" where
  "chain_wf bc \<longleftrightarrow> length (ch_components bc) = 16 \<and> ch_component_count bc \<le> 16
     \<and> (\<forall>c \<in> set (ch_components bc). length (cc_data c) = TC_MAX_COMPONENT_DATA)"

text \<open>A component whose data has the expected digest.\<close>

definition comp_good :: "bytes list \<Rightarrow> BootChain \<Rightarrow> nat \<Rightarrow> bool" where
  "comp_good expected bc i \<longleftrightarrow> (let c = ch_components bc ! i in
     cc_present c \<and> sv_sha256_hash (take (cc_data_size c) (cc_data c)) = take 32 (expected ! i))"

definition comp_verdict :: "bytes list \<Rightarrow> BootChain \<Rightarrow> nat \<Rightarrow> VerificationStatus" where
  "comp_verdict expected bc i = (if \<not> cc_present (ch_components bc ! i) then TC_STATUS_MISSING
     else if comp_good expected bc i then TC_STATUS_VERIFIED else TC_STATUS_FAILED)"

text \<open>What the loops leave unchanged: everything but the statuses and the bitmap.\<close>

definition comp_core :: "ChainComponent \<Rightarrow> ChainComponent" where
  "comp_core c = c\<lparr>cc_status := TC_STATUS_UNVERIFIED\<rparr>"

lemma comp_core_simps [simp]:
  "cc_present (comp_core c) = cc_present c" "cc_data (comp_core c) = cc_data c"
  "cc_data_size (comp_core c) = cc_data_size c" "comp_core (c\<lparr>cc_status := s\<rparr>) = comp_core c"
  by (simp_all add: comp_core_def)

definition same_data :: "BootChain \<Rightarrow> BootChain \<Rightarrow> bool" where
  "same_data bc bd \<longleftrightarrow> map comp_core (ch_components bd) = map comp_core (ch_components bc)
     \<and> ch_component_count bd = ch_component_count bc \<and> ch_boot_allowed bd = ch_boot_allowed bc"

lemma same_data_refl: "same_data bc bc"
  by (simp add: same_data_def)

lemma same_data_set [simp]:
  "same_data bc (set_status i s bd) = same_data bc bd" "same_data bc (set_verified_bit i bd) = same_data bc bd"
proof -
  have "map comp_core (xs[i := (xs ! i)\<lparr>cc_status := s\<rparr>]) = map comp_core xs" for xs
    by (cases "i < length xs") (simp_all add: map_update list_update_same_conv list_update_beyond)
  then show "same_data bc (set_status i s bd) = same_data bc bd" by (simp add: same_data_def set_status_def)
  show "same_data bc (set_verified_bit i bd) = same_data bc bd" by (simp add: same_data_def set_verified_bit_def)
qed

lemma same_data_good:
  assumes "same_data bc bd" and "i < length (ch_components bc)"
  shows "comp_good expected bd i = comp_good expected bc i"
    and "cc_present (ch_components bd ! i) = cc_present (ch_components bc ! i)"
    and "length (ch_components bd) = length (ch_components bc)"
proof -
  have m: "map comp_core (ch_components bd) = map comp_core (ch_components bc)" using assms(1) by (simp add: same_data_def)
  show len: "length (ch_components bd) = length (ch_components bc)" using map_eq_imp_length_eq [OF m] .
  let ?c = "ch_components bc ! i" and ?d = "ch_components bd ! i"
  have "comp_core ?d = comp_core ?c" using m assms(2) len nth_map [of i _ comp_core] by metis
  then have "cc_present ?d = cc_present ?c" "cc_data ?d = cc_data ?c" "cc_data_size ?d = cc_data_size ?c"
    by (metis comp_core_simps(1), metis comp_core_simps(2), metis comp_core_simps(3))
  then show "comp_good expected bd i = comp_good expected bc i"
    and "cc_present (ch_components bd ! i) = cc_present (ch_components bc ! i)"
    by (simp_all add: comp_good_def Let_def)
qed

lemma mark_loop:
  assumes "k \<le> length (ch_components bc)"
  defines "r \<equiv> fold mark_present [0..<k] (bc, True)"
  shows "same_data bc (fst r) \<and> (snd r \<longleftrightarrow> (\<forall>i < k. cc_present (ch_components bc ! i)))"
  using assms(1) unfolding r_def
proof (induction k)
  case (Suc k)
  obtain be ok where f: "fold mark_present [0..<k] (bc, True) = (be, ok)" by (cases "fold mark_present [0..<k] (bc, True)")
  have IH: "same_data bc be" "ok \<longleftrightarrow> (\<forall>i < k. cc_present (ch_components bc ! i))" using Suc f by simp_all
  have e: "fold mark_present [0..<Suc k] (bc, True) = mark_present k (be, ok)" by (simp add: f)
  have "cc_present (ch_components be ! k) = cc_present (ch_components bc ! k)"
    using same_data_good(2) [OF IH(1), of k] Suc.prems by simp
  then show ?case using IH unfolding e by (auto simp: mark_present_def less_Suc_eq)
qed (simp add: same_data_refl)

lemma verify_component_eq:
  assumes "i < ch_component_count bc" and "i < length (ch_components bc)"
  shows "snd (trust_chain_verify_component bc i (Some (expected ! i))) = comp_good expected bc i"
    and "same_data bd (fst (trust_chain_verify_component bc i (Some (expected ! i)))) = same_data bd bc"
    and "j < length (ch_components bc) \<Longrightarrow>
      cc_status (ch_components (fst (trust_chain_verify_component bc i (Some (expected ! i)))) ! j)
      = (if j = i then comp_verdict expected bc i else cc_status (ch_components bc ! j))"
proof -
  let ?c = "ch_components bc ! i"
  have v: "trust_chain_verify_component bc i (Some (expected ! i)) =
      (if comp_good expected bc i then (set_verified_bit i (set_status i TC_STATUS_VERIFIED bc), True)
       else (set_status i (comp_verdict expected bc i) bc, False))"
    using assms(1) by (auto simp: trust_chain_verify_component_def comp_good_def comp_verdict_def Let_def)
  show "snd (trust_chain_verify_component bc i (Some (expected ! i))) = comp_good expected bc i"
    and "same_data bd (fst (trust_chain_verify_component bc i (Some (expected ! i)))) = same_data bd bc"
    by (simp_all add: v)
  have "comp_good expected bc i \<Longrightarrow> comp_verdict expected bc i = TC_STATUS_VERIFIED"
    by (auto simp: comp_verdict_def comp_good_def Let_def)
  then show "j < length (ch_components bc) \<Longrightarrow>
      cc_status (ch_components (fst (trust_chain_verify_component bc i (Some (expected ! i)))) ! j)
      = (if j = i then comp_verdict expected bc i else cc_status (ch_components bc ! j))"
    using assms(2) by (simp add: v set_status_def set_verified_bit_def nth_list_update)
qed

lemma verify_loop:
  fixes bc bd :: BootChain and expected :: "bytes list" and ok :: bool and k :: nat
  assumes "same_data bc bd" and "k \<le> length (ch_components bc)" and "k \<le> ch_component_count bc"
  defines "r \<equiv> fold (verify_next expected) [0..<k] (bd, ok)"
  shows "same_data bc (fst r) \<and> (snd r \<longleftrightarrow> ok \<and> (\<forall>i < k. comp_good expected bc i))
    \<and> (\<forall>i < k. cc_status (ch_components (fst r) ! i) = comp_verdict expected bc i)"
  using assms(2,3) unfolding r_def
proof (induction k)
  case (Suc k)
  obtain be ok' where f: "fold (verify_next expected) [0..<k] (bd, ok) = (be, ok')" by (cases "fold (verify_next expected) [0..<k] (bd, ok)")
  have IH: "same_data bc be" "ok' \<longleftrightarrow> ok \<and> (\<forall>i < k. comp_good expected bc i)"
    "\<forall>i < k. cc_status (ch_components be ! i) = comp_verdict expected bc i" using Suc f by simp_all
  have k: "k < ch_component_count be" "k < length (ch_components be)" "k < length (ch_components bc)"
    using Suc.prems IH(1) same_data_good(3) [OF IH(1), of k] by (simp_all add: same_data_def)
  note vc = verify_component_eq [OF k(1,2)]
  have cv: "comp_verdict expected be k = comp_verdict expected bc k" and cg: "comp_good expected be k = comp_good expected bc k"
    using same_data_good [OF IH(1) k(3)] by (simp_all add: comp_verdict_def)
  have e: "fold (verify_next expected) [0..<Suc k] (bd, ok)
      = (fst (trust_chain_verify_component be k (Some (expected ! k))), ok' \<and> comp_good expected bc k)"
    using vc(1) [of expected] cg by (simp add: f verify_next_def case_prod_unfold)
  have "cc_status (ch_components (fst (trust_chain_verify_component be k (Some (expected ! k)))) ! i) = comp_verdict expected bc i"
    if "i < Suc k" for i
    using vc(3) [of i expected] IH(3) cv that k(2) by (cases "i = k") auto
  then show ?case using IH(1,2) vc(2) [of bc expected] unfolding e by (auto simp: less_Suc_eq)
qed (simp add: assms(1))

lemma trust_chain_verify_all_props:
  assumes "chain_wf bc" and "ch_component_count bc \<le> length expected"
  shows "\<exists>bd. trust_chain_verify_all bc (Some expected) = Returned (bd, \<forall>i < ch_component_count bc. comp_good expected bc i)
    \<and> ch_boot_allowed bd = (\<forall>i < ch_component_count bc. comp_good expected bc i)
    \<and> (\<forall>i < ch_component_count bc. cc_status (ch_components bd ! i) = comp_verdict expected bc i)
    \<and> map comp_core (ch_components bd) = map comp_core (ch_components bc)
    \<and> ch_component_count bd = ch_component_count bc"
proof -
  let ?n = "ch_component_count bc"
  have n: "?n \<le> length (ch_components bc)" using assms(1) by (simp add: chain_wf_def)
  obtain b1 ok1 where m: "fold mark_present [0..<?n] (bc, True) = (b1, ok1)" by (cases "fold mark_present [0..<?n] (bc, True)")
  then have s1: "same_data bc b1" "ok1 \<longleftrightarrow> (\<forall>i < ?n. cc_present (ch_components bc ! i))"
    using mark_loop [OF n] by simp_all
  obtain b2 ok2 where v: "fold (verify_next expected) [0..<?n] (b1, ok1) = (b2, ok2)" by (cases "fold (verify_next expected) [0..<?n] (b1, ok1)")
  have "\<forall>i < ?n. comp_good expected bc i \<longrightarrow> cc_present (ch_components bc ! i)" by (simp add: comp_good_def Let_def)
  then have "same_data bc b2" "ok2 \<longleftrightarrow> (\<forall>i < ?n. comp_good expected bc i)"
    "\<forall>i < ?n. cc_status (ch_components b2 ! i) = comp_verdict expected bc i"
    using verify_loop [OF s1(1) n order_refl, of expected ok1] v s1(2) by auto
  then show ?thesis using m v assms(2) by (simp add: trust_chain_verify_all_def same_data_def)
qed

section \<open>What a parsed FIT image verifies\<close>

text \<open>
  The data of the images is never filled in, so what is hashed are zeros; and the description of
  an image starts with the magic number.
\<close>



text \<open>Adding a component after a verdict does not withdraw the permission to boot.\<close>

lemma add_component_props:
  assumes "chain_wf bc" and "trust_chain_add_component bc ty (Some nm) (Some d) = (bd, True)"
  shows "chain_wf bd" and "ch_component_count bd = Suc (ch_component_count bc)"
    and "ch_boot_allowed bd = ch_boot_allowed bc"
    and "cc_status (ch_components bd ! ch_component_count bc) = TC_STATUS_UNVERIFIED"
    and "take (length d) (cc_data (ch_components bd ! ch_component_count bc)) = d"
    and "cc_data_size (ch_components bd ! ch_component_count bc) = length d"
    and "cc_present (ch_components bd ! ch_component_count bc)"
    and "i < ch_component_count bc \<Longrightarrow> ch_components bd ! i = ch_components bc ! i"
proof -
  let ?n = "ch_component_count bc" and ?c = "ch_components bc ! ch_component_count bc"
  define c1 where "c1 = ?c\<lparr>cc_type := ty, cc_name := take 63 nm, cc_data := blit (cc_data ?c) 0 d,
     cc_data_size := length d, cc_present := True, cc_status := TC_STATUS_UNVERIFIED\<rparr>"
  have n: "?n < 16" "length d \<le> 65536"
    and bd: "bd = bc\<lparr>ch_components := (ch_components bc)[?n := c1], ch_component_count := Suc ?n\<rparr>"
    using assms(2) by (auto simp: trust_chain_add_component_def TC_MAX_COMPONENTS_def TC_MAX_COMPONENT_DATA_def
        TC_MAX_NAME_LEN_def c1_def Let_def split: if_splits)
  have l: "length (ch_components bc) = 16" "length (cc_data ?c) = 65536"
    using assms(1) n(1) by (auto simp: chain_wf_def TC_MAX_COMPONENT_DATA_def)
  have "set ((ch_components bc)[?n := c1]) \<subseteq> insert c1 (set (ch_components bc))" by (rule set_update_subset_insert)
  moreover have "length (cc_data c1) = 65536" using l n by (simp add: c1_def)
  ultimately show "chain_wf bd" using assms(1) n by (auto simp: chain_wf_def bd TC_MAX_COMPONENT_DATA_def)
  have "ch_components bd ! ?n = c1" using l n by (simp add: bd)
  then show "cc_status (ch_components bd ! ?n) = TC_STATUS_UNVERIFIED" "take (length d) (cc_data (ch_components bd ! ?n)) = d"
    "cc_data_size (ch_components bd ! ?n) = length d" "cc_present (ch_components bd ! ?n)"
    using l n by (simp_all add: c1_def)
  show "ch_component_count bd = Suc ?n" "ch_boot_allowed bd = ch_boot_allowed bc"
    "i < ?n \<Longrightarrow> ch_components bd ! i = ch_components bc ! i" by (simp_all add: bd)
qed

section \<open>What a parsed FIT image verifies\<close>

text \<open>
  The data of the images is never filled in, so what is hashed are zeros, while the recorded
  hash is that of the blob, which starts with the magic number.
\<close>

lemma all_configs_const:
  "(\<And>i. i \<in> set is \<Longrightarrow> f i = Returned b) \<Longrightarrow> all_configs f is = Returned (is = [] \<or> b)"
  by (induction "is") (auto split: bool.split)

lemma fit_parse_facts:
  assumes "fit_parse fit (Some d) = Returned (f, True)"
  shows "fit_t_parsed f" and "unat (fh_config_count (fit_t_header f)) \<le> 8" and "unat (fh_image_count (fit_t_header f)) \<le> 32"
    and "i < unat (fh_config_count (fit_t_header f)) \<Longrightarrow> fc_kernel_idx (fit_t_configs f ! i) = 0 \<and> fc_sig_len (fit_t_configs f ! i) = 0"
    and "0 < unat (fh_image_count (fit_t_header f)) \<Longrightarrow> fit_t_images f ! 0 = fit_subimage d 0 zero_subimage"
    and "read_be32 d 0 = FIT_MAGIC"
proof -
  define ic where "ic = min (read_be32 d 8) TC_MAX_FIT_IMAGES"
  define fc where "fc = min (read_be32 d 12) TC_MAX_FIT_CONFIGS"
  have h: "read_be32 d 0 = FIT_MAGIC" and f: "fit_t_parsed f" "fh_image_count (fit_t_header f) = ic" "fh_config_count (fit_t_header f) = fc"
    "fit_t_images f = map (\<lambda>i. (if i < unat ic then fit_subimage d i else id) (fit_t_images zero_fit ! i)) [0..<32]"
    "fit_t_configs f = map (\<lambda>i. (if i < unat fc then fit_config ic i else id) (fit_t_configs zero_fit ! i)) [0..<8]"
    using assms by (auto simp: fit_parse_def Let_def ic_def fc_def zero_fit_def split: if_splits)
  have le: "unat ic \<le> 32" "unat fc \<le> 8"
    by (auto simp: ic_def fc_def TC_MAX_FIT_IMAGES_def TC_MAX_FIT_CONFIGS_def min_def word_le_nat_alt)
  show "fit_t_parsed f" "read_be32 d 0 = FIT_MAGIC" using f h by simp_all
  show "unat (fh_config_count (fit_t_header f)) \<le> 8" "unat (fh_image_count (fit_t_header f)) \<le> 32" using le f by simp_all
  show "fc_kernel_idx (fit_t_configs f ! i) = 0 \<and> fc_sig_len (fit_t_configs f ! i) = 0"
    if "i < unat (fh_config_count (fit_t_header f))" using that le by (simp add: f fit_config_def)
  show "fit_t_images f ! 0 = fit_subimage d 0 zero_subimage" if "0 < unat (fh_image_count (fit_t_header f))"
    using that by (simp add: f zero_fit_def)
qed

lemma fit_parse_verdict:
  assumes "fit_parse fit (Some d) = Returned (f, True)" and "key \<noteq> None"
  shows "fit_verify_all st junk f key = Returned (fh_config_count (fit_t_header f) = 0
    \<or> fh_image_count (fit_t_header f) \<noteq> 0 \<and> sv_sha256_hash (zeros 1024) = sv_sha256_hash (take 1024 d))"
proof -
  note fp = fit_parse_facts [OF assms(1)]
  obtain k where k: "key = Some k" using assms(2) by blast
  let ?ic = "fh_image_count (fit_t_header f)" and ?fc = "fh_config_count (fit_t_header f)"
  have "fit_verify_config st junk f (of_nat i) key
      = Returned (?ic \<noteq> 0 \<and> sv_sha256_hash (zeros 1024) = sv_sha256_hash (take 1024 d))" if "i < unat ?fc" for i
  proof -
    have u: "unat (of_nat i :: u32) = i" using that fp(2) by (intro unat_of_nat_u32) simp
    have i: "\<not> (of_nat i :: u32) \<ge> ?fc" using that u by (simp add: word_le_nat_alt)
    show ?thesis
    proof (cases "?ic = 0")
      case True
      then show ?thesis using fp(1) fp(4) [OF that] i u k by (simp add: fit_verify_config_def)
    next
      case False
      then have "0 < unat ?ic" by (simp add: unat_gt_0)
      then show ?thesis using fp(1) fp(4) [OF that] fp(5) i u k False
        by (simp add: fit_verify_config_def fit_subimage_def zero_subimage_def TC_MAX_COMPONENT_DATA_def)
    qed
  qed
  then have "all_configs (\<lambda>i. fit_verify_config st junk f (of_nat i) key) [0..<unat ?fc]
      = Returned ([0..<unat ?fc] = [] \<or> ?ic \<noteq> 0 \<and> sv_sha256_hash (zeros 1024) = sv_sha256_hash (take 1024 d))"
    by (intro all_configs_const) simp
  then show ?thesis using fp(1) k by (simp add: fit_verify_all_def unat_eq_zero)
qed

lemma fit_magic_not_zeros: "read_be32 d 0 = FIT_MAGIC \<Longrightarrow> 4 \<le> length d \<Longrightarrow> take 1024 d \<noteq> zeros 1024"
proof
  assume "read_be32 d 0 = FIT_MAGIC" and "4 \<le> length d" and z: "take 1024 d = zeros 1024"
  have "d ! i = 0" if "i < 4" for i using arg_cong [OF z, of "\<lambda>xs. xs ! i"] that by simp
  then have "read_be32 d 0 = 0" by (simp add: read_be32_def be32_def)
  then show False using \<open>read_be32 d 0 = FIT_MAGIC\<close> by (simp add: FIT_MAGIC_def)
qed

end
