(* ===== verification/Key_Mgmt.thy ===== *)
theory Key_Mgmt
  imports Sig_Verify
begin

text \<open>
  The key store of \<open>mini-secure-boot/src/key_mgmt.c\<close>: key life cycle, rotation, HMAC and HKDF on
  the hash of \<open>Sig_Verify\<close>, keys held by a TPM.  The readings of \<open>time(NULL)\<close> are a parameter,
  numbered in the order of the calls.  C strings are their bytes without the terminator, \<open>NULL\<close>
  is \<open>None\<close> where a caller may pass it with an effect.
\<close>

section \<open>Data\<close>

definition KM_MAX_KEYS :: nat where "KM_MAX_KEYS = 64"
definition KM_MAX_KEY_NAME :: nat where "KM_MAX_KEY_NAME = 64"
definition KM_MAX_KEY_DATA :: nat where "KM_MAX_KEY_DATA = 512"
definition KM_MAX_KEY_ID :: nat where "KM_MAX_KEY_ID = 64"
definition KM_MAX_PUBLIC_KEY :: nat where "KM_MAX_PUBLIC_KEY = 256"
definition KM_HKDF_INFO_MAX :: nat where "KM_HKDF_INFO_MAX = 64"
definition KM_USAGE_SIGN :: u32 where "KM_USAGE_SIGN = 1"
definition KM_USAGE_VERIFY :: u32 where "KM_USAGE_VERIFY = 2"

datatype KMKeyState = KM_STATE_PRE_ACTIVATION | KM_STATE_ACTIVE | KM_STATE_DEACTIVATED | KM_STATE_COMPROMISED
  | KM_STATE_DESTROYED | KM_STATE_DESTROYED_COMPROMISED | KM_STATE_REVOKED | KM_STATE_COUNT

datatype KMKeyType = KM_KEY_TYPE_RSA_2048 | KM_KEY_TYPE_RSA_4096 | KM_KEY_TYPE_ECDSA_P256
  | KM_KEY_TYPE_ECDSA_P384 | KM_KEY_TYPE_AES_256 | KM_KEY_TYPE_HMAC_SHA256 | KM_KEY_TYPE_COUNT

fun key_type_code :: "KMKeyType \<Rightarrow> nat" where
  "key_type_code KM_KEY_TYPE_RSA_2048 = 0"
| "key_type_code KM_KEY_TYPE_RSA_4096 = 1"
| "key_type_code KM_KEY_TYPE_ECDSA_P256 = 2"
| "key_type_code KM_KEY_TYPE_ECDSA_P384 = 3"
| "key_type_code KM_KEY_TYPE_AES_256 = 4"
| "key_type_code KM_KEY_TYPE_HMAC_SHA256 = 5"
| "key_type_code KM_KEY_TYPE_COUNT = 6"

record KMKeyEntry =
  ke_key_id :: bytes
  ke_key_name :: bytes
  ke_key_type :: KMKeyType
  ke_usage_mask :: u32
  ke_state :: KMKeyState
  ke_public_key :: bytes
  ke_public_key_len :: nat
  ke_private_key :: bytes
  ke_private_key_len :: nat
  ke_not_before :: u64
  ke_not_after :: u64
  ke_created_at :: u64
  ke_revoked_at :: u64
  ke_key_strength_bits :: u32
  ke_version :: u32
  ke_is_tpm_protected :: bool
  ke_tpm_handle :: u32

record KMKeyStore =
  ks_keys :: "KMKeyEntry list"
  ks_key_count :: nat
  ks_next_handle :: u32
  ks_locked :: bool

datatype KMRotationPolicy = KM_ROTATION_NONE | KM_ROTATION_TIME_BASED | KM_ROTATION_COUNT_BASED | KM_ROTATION_EVENT_BASED

record KMRotationConfig =
  rc_policy :: KMRotationPolicy
  rc_rotation_period_sec :: u64
  rc_rotation_count :: u32
  rc_current_count :: u32
  rc_next_rotation_at :: u64

definition zero_managed_key :: KMKeyEntry where
  "zero_managed_key = \<lparr>ke_key_id = [], ke_key_name = [], ke_key_type = KM_KEY_TYPE_RSA_2048, ke_usage_mask = 0,
     ke_state = KM_STATE_PRE_ACTIVATION, ke_public_key = zeros 256, ke_public_key_len = 0,
     ke_private_key = zeros 512, ke_private_key_len = 0, ke_not_before = 0, ke_not_after = 0, ke_created_at = 0,
     ke_revoked_at = 0, ke_key_strength_bits = 0, ke_version = 0, ke_is_tpm_protected = False, ke_tpm_handle = 0\<rparr>"

section \<open>The store\<close>

definition km_store_init :: KMKeyStore where
  "km_store_init = \<lparr>ks_keys = replicate KM_MAX_KEYS zero_managed_key, ks_key_count = 0, ks_next_handle = 1, ks_locked = False\<rparr>"

definition km_store_lock :: "KMKeyStore \<Rightarrow> KMKeyStore" where
  "km_store_lock ks = ks\<lparr>ks_locked := True\<rparr>"

definition km_store_unlock :: "KMKeyStore \<Rightarrow> KMKeyStore" where
  "km_store_unlock ks = ks\<lparr>ks_locked := False\<rparr>"

definition km_keys :: "KMKeyStore \<Rightarrow> KMKeyEntry list" where
  "km_keys ks = take (ks_key_count ks) (ks_keys ks)"

definition find_key :: "KMKeyStore \<Rightarrow> bytes \<Rightarrow> nat option" where
  "find_key ks key_id = find_index (\<lambda>k. ke_key_id k = key_id) (km_keys ks)"

definition km_key_find :: "KMKeyStore \<Rightarrow> bytes \<Rightarrow> nat option" where
  "km_key_find ks key_id = find_index (\<lambda>k. ke_key_id k = key_id
     \<and> ke_state k \<noteq> KM_STATE_DESTROYED \<and> ke_state k \<noteq> KM_STATE_DESTROYED_COMPROMISED) (km_keys ks)"

definition km_key_find_active :: "KMKeyStore \<Rightarrow> KMKeyType \<Rightarrow> nat option" where
  "km_key_find_active ks ty = find_index (\<lambda>k. ke_state k = KM_STATE_ACTIVE \<and> ke_key_type k = ty) (km_keys ks)"

definition km_key_is_valid :: "KMKeyEntry option \<Rightarrow> u64 \<Rightarrow> bool" where
  "km_key_is_valid key current_time =
     (case key of None \<Rightarrow> False
      | Some k \<Rightarrow> ke_state k = KM_STATE_ACTIVE \<and> current_time \<ge> ke_not_before k \<and> current_time \<le> ke_not_after k)"

definition km_key_list_by_state :: "KMKeyStore \<Rightarrow> KMKeyState \<Rightarrow> nat \<Rightarrow> KMKeyEntry list" where
  "km_key_list_by_state ks st max_results = take max_results (filter (\<lambda>k. ke_state k = st) (km_keys ks))"

section \<open>Generation\<close>

text \<open>Bytes \<open>(i * m + c) & 0xFF\<close> for \<open>i\<close> from \<open>a\<close> below \<open>b\<close>.\<close>

definition demo_bytes :: "u32 \<Rightarrow> u32 \<Rightarrow> nat \<Rightarrow> nat \<Rightarrow> bytes" where
  "demo_bytes m c a b = map (\<lambda>i. ucast ((of_nat i * m + c) AND 0xFF)) [a..<b]"

definition rsa_material :: "u32 \<Rightarrow> KMKeyEntry \<Rightarrow> KMKeyEntry" where
  "rsa_material bits key =
     (let mod_size = (if bits \<ge> 4096 then 512 else 256);
          mod_size = (if mod_size > KM_MAX_PUBLIC_KEY then KM_MAX_PUBLIC_KEY else mod_size)
      in key\<lparr>ke_public_key := blit (ke_public_key key) 0 (demo_bytes 73 bits 0 mod_size),
             ke_public_key_len := mod_size,
             ke_private_key := blit (ke_private_key key) 0 (demo_bytes 37 (bits + 1) 0 mod_size),
             ke_private_key_len := mod_size\<rparr>)"

definition ecdsa_material :: "nat \<Rightarrow> u32 \<times> u32 \<Rightarrow> nat \<Rightarrow> u32 \<times> u32 \<Rightarrow> KMKeyEntry \<Rightarrow> KMKeyEntry" where
  "ecdsa_material priv_len pr pub_len pb key =
     key\<lparr>ke_private_key := blit (ke_private_key key) 0 (demo_bytes (fst pr) (snd pr) 0 priv_len),
         ke_private_key_len := priv_len,
         ke_public_key := blit (ke_public_key key) 0 (4 # demo_bytes (fst pb) (snd pb) 1 pub_len),
         ke_public_key_len := pub_len\<rparr>"

definition symmetric_material :: "u32 \<times> u32 \<Rightarrow> KMKeyEntry \<Rightarrow> KMKeyEntry" where
  "symmetric_material pr key =
     key\<lparr>ke_private_key := blit (ke_private_key key) 0 (demo_bytes (fst pr) (snd pr) 0 32),
         ke_private_key_len := 32, ke_public_key_len := 0\<rparr>"

definition key_material :: "KMKeyType \<Rightarrow> u32 \<Rightarrow> KMKeyEntry \<Rightarrow> KMKeyEntry" where
  "key_material ty bits =
     (case ty of
        KM_KEY_TYPE_RSA_2048 \<Rightarrow> rsa_material bits
      | KM_KEY_TYPE_RSA_4096 \<Rightarrow> rsa_material bits
      | KM_KEY_TYPE_ECDSA_P256 \<Rightarrow> ecdsa_material 32 (61, 19) 65 (31, 7)
      | KM_KEY_TYPE_ECDSA_P384 \<Rightarrow> ecdsa_material 48 (53, 23) 97 (29, 13)
      | KM_KEY_TYPE_AES_256 \<Rightarrow> symmetric_material (127, 59)
      | _ \<Rightarrow> symmetric_material (89, 41))"

definition km_key_generate ::
  "(nat \<Rightarrow> u64) \<Rightarrow> KMKeyStore \<Rightarrow> bytes \<Rightarrow> bytes \<Rightarrow> KMKeyType \<Rightarrow> u32 \<Rightarrow> u32 \<Rightarrow> u64 \<Rightarrow> KMKeyStore \<times> bool" where
  "km_key_generate clock ks key_id name ty usage bits valid_days =
     (if ks_locked ks then (ks, False)
      else if ks_key_count ks \<ge> KM_MAX_KEYS then (ks, False)
      else if find_key ks key_id \<noteq> None then (ks, False)
      else let now = clock 0;
               key = zero_managed_key\<lparr>ke_key_id := take (KM_MAX_KEY_ID - 1) key_id, ke_key_name := take (KM_MAX_KEY_NAME - 1) name,
                       ke_key_type := ty, ke_usage_mask := usage, ke_state := KM_STATE_PRE_ACTIVATION,
                       ke_key_strength_bits := bits, ke_version := 1, ke_created_at := now, ke_not_before := now,
                       ke_not_after := now + valid_days * 86400, ke_is_tpm_protected := False\<rparr>
           in (ks\<lparr>ks_keys := (ks_keys ks)[ks_key_count ks := key_material ty bits key],
                  ks_key_count := ks_key_count ks + 1\<rparr>, True))"

section \<open>Life cycle\<close>

definition put_key :: "KMKeyStore \<Rightarrow> nat \<Rightarrow> KMKeyEntry \<Rightarrow> KMKeyStore" where
  "put_key ks i key = ks\<lparr>ks_keys := (ks_keys ks)[i := key]\<rparr>"

definition km_key_activate :: "KMKeyStore \<Rightarrow> bytes \<Rightarrow> KMKeyStore \<times> bool" where
  "km_key_activate ks key_id =
     (case find_key ks key_id of None \<Rightarrow> (ks, False)
      | Some i \<Rightarrow> let key = ks_keys ks ! i
                  in if ke_state key \<noteq> KM_STATE_PRE_ACTIVATION \<and> ke_state key \<noteq> KM_STATE_DEACTIVATED then (ks, False)
                     else (put_key ks i (key\<lparr>ke_state := KM_STATE_ACTIVE\<rparr>), True))"

definition km_key_deactivate :: "KMKeyStore \<Rightarrow> bytes \<Rightarrow> KMKeyStore \<times> bool" where
  "km_key_deactivate ks key_id =
     (case find_key ks key_id of None \<Rightarrow> (ks, False)
      | Some i \<Rightarrow> let key = ks_keys ks ! i
                  in if ke_state key \<noteq> KM_STATE_ACTIVE then (ks, False)
                     else (put_key ks i (key\<lparr>ke_state := KM_STATE_DEACTIVATED\<rparr>), True))"

definition km_key_reactivate :: "KMKeyStore \<Rightarrow> bytes \<Rightarrow> KMKeyStore \<times> bool" where
  "km_key_reactivate ks key_id =
     (case find_key ks key_id of None \<Rightarrow> (ks, False)
      | Some i \<Rightarrow> let key = ks_keys ks ! i
                  in if ke_state key \<noteq> KM_STATE_DEACTIVATED then (ks, False)
                     else (put_key ks i (key\<lparr>ke_state := KM_STATE_ACTIVE\<rparr>), True))"

definition km_key_revoke :: "(nat \<Rightarrow> u64) \<Rightarrow> KMKeyStore \<Rightarrow> bytes \<Rightarrow> KMKeyStore \<times> bool" where
  "km_key_revoke clock ks key_id =
     (case find_key ks key_id of None \<Rightarrow> (ks, False)
      | Some i \<Rightarrow> let key = ks_keys ks ! i
                  in if ke_state key \<noteq> KM_STATE_ACTIVE \<and> ke_state key \<noteq> KM_STATE_DEACTIVATED
                        \<and> ke_state key \<noteq> KM_STATE_COMPROMISED then (ks, False)
                     else (put_key ks i (key\<lparr>ke_state := KM_STATE_REVOKED, ke_revoked_at := clock 0\<rparr>), True))"

definition km_key_destroy :: "KMKeyStore \<Rightarrow> bytes \<Rightarrow> KMKeyStore \<times> bool" where
  "km_key_destroy ks key_id =
     (case find_key ks key_id of None \<Rightarrow> (ks, False)
      | Some i \<Rightarrow> let key = (ks_keys ks ! i)\<lparr>ke_private_key := zeros KM_MAX_KEY_DATA, ke_private_key_len := 0\<rparr>
                  in (put_key ks i (key\<lparr>ke_state := (if ke_state key = KM_STATE_COMPROMISED
                        then KM_STATE_DESTROYED_COMPROMISED else KM_STATE_DESTROYED)\<rparr>), True))"

definition km_key_compromise :: "KMKeyStore \<Rightarrow> bytes \<Rightarrow> KMKeyStore \<times> bool" where
  "km_key_compromise ks key_id =
     (case find_key ks key_id of None \<Rightarrow> (ks, False)
      | Some i \<Rightarrow> let key = ks_keys ks ! i
                  in if ke_state key = KM_STATE_DESTROYED \<or> ke_state key = KM_STATE_DESTROYED_COMPROMISED then (ks, False)
                     else (put_key ks i (key\<lparr>ke_state := KM_STATE_COMPROMISED\<rparr>), True))"

section \<open>Rotation\<close>

definition should_rotate :: "u64 \<Rightarrow> KMRotationConfig \<Rightarrow> bool" where
  "should_rotate now config =
     (case rc_policy config of
        KM_ROTATION_TIME_BASED \<Rightarrow> now \<ge> rc_next_rotation_at config
      | KM_ROTATION_COUNT_BASED \<Rightarrow> rc_current_count config \<ge> rc_rotation_count config
      | KM_ROTATION_EVENT_BASED \<Rightarrow> True
      | KM_ROTATION_NONE \<Rightarrow> False)"

text \<open>
  The new version: generated, numbered, activated, and the old key deactivated.  The hash of the
  new public key is computed and dropped.
\<close>

definition km_install_version ::
  "(nat \<Rightarrow> u64) \<Rightarrow> KMKeyStore \<Rightarrow> bytes \<Rightarrow> nat \<Rightarrow> bytes \<Rightarrow> u64 \<Rightarrow> KMKeyStore \<times> bool" where
  "km_install_version clock ks key_id i new_id remaining_days =
     (let old_key = ks_keys ks ! i;
          (ks1, ok) = km_key_generate clock ks new_id (ke_key_name old_key) (ke_key_type old_key)
            (ke_usage_mask old_key) (ke_key_strength_bits old_key) remaining_days
      in if \<not> ok then (ks1, False)
         else (case find_key ks1 new_id of None \<Rightarrow> (ks1, False)
               | Some j \<Rightarrow>
                   let ks2 = put_key ks1 j ((ks_keys ks1 ! j)\<lparr>ke_version := ke_version (ks_keys ks1 ! i) + 1\<rparr>);
                       ks3 = fst (km_key_activate ks2 new_id);
                       ks4 = fst (km_key_deactivate ks3 key_id)
                   in (ks4, True)))"

text \<open>The clock is read for the policy, twice for the remaining days, and by the generation.\<close>

definition km_key_rotate ::
  "(nat \<Rightarrow> u64) \<Rightarrow> KMKeyStore \<Rightarrow> bytes \<Rightarrow> KMRotationConfig \<Rightarrow> KMKeyStore \<times> bool" where
  "km_key_rotate clock ks key_id config =
     (case find_key ks key_id of None \<Rightarrow> (ks, False)
      | Some i \<Rightarrow>
          let old_key = ks_keys ks ! i
          in if ke_state old_key \<noteq> KM_STATE_ACTIVE then (ks, False)
             else if \<not> should_rotate (clock 0) config then (ks, False)
             else let new_id = take (KM_MAX_KEY_ID - 1) (key_id @ str_bytes ''-v'' @ dec_string (unat (ke_version old_key + 1)));
                      remaining_days = (if ke_not_after old_key > clock 1 then (ke_not_after old_key - clock 2) div 86400 else 365)
                  in km_install_version (\<lambda>n. clock (n + 3)) ks key_id i new_id remaining_days)"

section \<open>HMAC and HKDF\<close>

text \<open>
  \<open>inner\<close> has room for 256 bytes of data; more are written beyond it.
\<close>

definition hmac_sha256 :: "bytes \<Rightarrow> bytes \<Rightarrow> bytes c_result" where
  "hmac_sha256 key data =
     (let key_block = (if length key > 64 then blit (zeros 64) 0 (sv_sha256_hash key) else blit (zeros 64) 0 key)
      in if length data > 256 then Undefined
         else let inner = map (\<lambda>b. b XOR 0x36) key_block @ data;
                  outer = map (\<lambda>b. b XOR 0x5C) key_block @ sv_sha256_hash inner
              in Returned (sv_sha256_hash outer))"

text \<open>The key, its recorded length being the smaller of the room and 32.\<close>

definition km_hkdf_extract :: "bytes option \<Rightarrow> bytes option \<Rightarrow> nat \<Rightarrow> (bytes \<times> nat) option c_result" where
  "km_hkdf_extract salt ikm prk_len =
     (case ikm of None \<Rightarrow> Returned None
      | Some d \<Rightarrow>
          let use_salt = (case salt of Some s \<Rightarrow> if s \<noteq> [] then s else zeros 32 | None \<Rightarrow> zeros 32);
              output_len = (if prk_len < 32 then prk_len else 32)
          in (case hmac_sha256 use_salt d of
                Returned prk \<Rightarrow> Returned (Some (prk, output_len)) | Undefined \<Rightarrow> Undefined | Diverges \<Rightarrow> Diverges))"

text \<open>
  The loop counter is a \<open>uint8_t\<close>.  The state: counter, previous block, total, output, and
  whether the input buffer has held so far.
\<close>

record hkdf_state =
  hk_i :: u8
  hk_prev :: bytes
  hk_total :: nat
  hk_okm :: bytes
  hk_ok :: bool

definition hkdf_step :: "bytes \<Rightarrow> bytes \<Rightarrow> nat \<Rightarrow> hkdf_state \<Rightarrow> hkdf_state" where
  "hkdf_step prk info okm_len s =
     (let input = hk_prev s @ info @ [hk_i s]
      in if length input > KM_HKDF_INFO_MAX + 32 + 1 then s\<lparr>hk_ok := False\<rparr>
         else (case hmac_sha256 prk input of
                 Returned t \<Rightarrow>
                   let to_copy = (if okm_len - hk_total s > 32 then 32 else okm_len - hk_total s)
                   in s\<lparr>hk_prev := t, hk_okm := blit (hk_okm s) (hk_total s) (take to_copy t),
                        hk_total := hk_total s + to_copy, hk_i := hk_i s + 1\<rparr>
               | _ \<Rightarrow> s\<lparr>hk_ok := False\<rparr>))"

definition km_hkdf_expand :: "bytes option \<Rightarrow> bytes option \<Rightarrow> bytes \<Rightarrow> bytes option c_result" where
  "km_hkdf_expand prk info okm =
     (case prk of None \<Rightarrow> Returned None
      | Some p \<Rightarrow>
          if okm = [] then Returned None
          else let n_blocks = (of_nat (length okm) + 32 - 1) div 32 :: u32;
                   inf = (case info of None \<Rightarrow> [] | Some x \<Rightarrow> x)
               in (case while_option (\<lambda>s. hk_ok s \<and> unat (hk_i s) \<le> unat n_blocks) (hkdf_step p inf (length okm))
                        \<lparr>hk_i = 1, hk_prev = [], hk_total = 0, hk_okm = okm, hk_ok = True\<rparr> of
                     None \<Rightarrow> Diverges
                   | Some s \<Rightarrow> if hk_ok s then Returned (Some (hk_okm s)) else Undefined))"

definition km_hkdf_derive :: "bytes option \<Rightarrow> bytes option \<Rightarrow> bytes option \<Rightarrow> bytes \<Rightarrow> bytes option c_result" where
  "km_hkdf_derive ikm salt info okm =
     (case km_hkdf_extract salt ikm 32 of
        Undefined \<Rightarrow> Undefined | Diverges \<Rightarrow> Diverges
      | Returned None \<Rightarrow> Returned None
      | Returned (Some (prk, prk_len)) \<Rightarrow> km_hkdf_expand (Some (take prk_len prk)) info okm)"

section \<open>Keys in a TPM\<close>

text \<open>\<open>%08X\<close>.\<close>

definition hex8 :: "u32 \<Rightarrow> bytes" where
  "hex8 w = map (\<lambda>i. hex_digit (unat w div 16 ^ i mod 16)) (rev [0..<8])"

definition km_key_import_from_tpm ::
  "(nat \<Rightarrow> u64) \<Rightarrow> KMKeyStore \<Rightarrow> bytes \<Rightarrow> u32 \<Rightarrow> KMKeyType \<Rightarrow> bytes option \<Rightarrow> KMKeyStore \<times> bool" where
  "km_key_import_from_tpm clock ks key_id tpm_handle ty public_key =
     (case public_key of None \<Rightarrow> (ks, False)
      | Some pub \<Rightarrow>
          if ks_locked ks \<or> ks_key_count ks \<ge> KM_MAX_KEYS then (ks, False)
          else if length pub > KM_MAX_PUBLIC_KEY then (ks, False)
          else let now = clock 0;
                   key = zero_managed_key\<lparr>ke_key_id := take (KM_MAX_KEY_ID - 1) key_id,
                           ke_key_name := str_bytes ''TPM-Key-0x'' @ hex8 tpm_handle, ke_key_type := ty,
                           ke_usage_mask := KM_USAGE_SIGN OR KM_USAGE_VERIFY, ke_state := KM_STATE_ACTIVE,
                           ke_is_tpm_protected := True, ke_tpm_handle := tpm_handle, ke_key_strength_bits := 2048,
                           ke_version := 1, ke_created_at := now, ke_not_before := now,
                           ke_not_after := now + 365 * 86400, ke_public_key_len := length pub,
                           ke_public_key := blit (zeros 256) 0 pub, ke_private_key_len := 0\<rparr>
               in (ks\<lparr>ks_keys := (ks_keys ks)[ks_key_count ks := key], ks_key_count := ks_key_count ks + 1\<rparr>, True))"

text \<open>The blob, and whether it is at most 512 bytes; the caller's buffer is large enough.\<close>

definition km_key_seal_to_tpm :: "KMKeyEntry option \<Rightarrow> u32 \<Rightarrow> (bytes \<times> bool) option c_result" where
  "km_key_seal_to_tpm key pcr_selection =
     (case key of None \<Rightarrow> Returned None
      | Some k \<Rightarrow>
          if \<not> ke_is_tpm_protected k then Returned None
          else let kd_size = ke_private_key_len k;
                   blob = [0x54, 0x50, 0x4D, 0x53, 1, 0,
                           ucast (pcr_selection AND 0xFF), ucast (drop_bit 8 pcr_selection AND 0xFF),
                           ucast (drop_bit 16 pcr_selection AND 0xFF), ucast (drop_bit 24 pcr_selection AND 0xFF),
                           of_nat (key_type_code (ke_key_type k)), of_nat (kd_size div 256), of_nat kd_size]
                          @ take kd_size (ke_private_key k)
               in (case hmac_sha256 (take (ke_public_key_len k) (ke_public_key k)) blob of
                     Returned mac \<Rightarrow> Returned (Some (blob @ mac, length blob + 32 \<le> KM_MAX_KEY_DATA))
                   | Undefined \<Rightarrow> Undefined | Diverges \<Rightarrow> Diverges))"

section \<open>Names\<close>

fun km_state_str :: "KMKeyState \<Rightarrow> string" where
  "km_state_str KM_STATE_PRE_ACTIVATION = ''PRE_ACTIVATION''"
| "km_state_str KM_STATE_ACTIVE = ''ACTIVE''"
| "km_state_str KM_STATE_DEACTIVATED = ''DEACTIVATED''"
| "km_state_str KM_STATE_COMPROMISED = ''COMPROMISED''"
| "km_state_str KM_STATE_DESTROYED = ''DESTROYED''"
| "km_state_str KM_STATE_DESTROYED_COMPROMISED = ''DESTROYED_COMPROMISED''"
| "km_state_str KM_STATE_REVOKED = ''REVOKED''"
| "km_state_str KM_STATE_COUNT = ''UNKNOWN''"

fun km_key_type_str :: "KMKeyType \<Rightarrow> string" where
  "km_key_type_str KM_KEY_TYPE_RSA_2048 = ''RSA-2048''"
| "km_key_type_str KM_KEY_TYPE_RSA_4096 = ''RSA-4096''"
| "km_key_type_str KM_KEY_TYPE_ECDSA_P256 = ''ECDSA-P256''"
| "km_key_type_str KM_KEY_TYPE_ECDSA_P384 = ''ECDSA-P384''"
| "km_key_type_str KM_KEY_TYPE_AES_256 = ''AES-256''"
| "km_key_type_str KM_KEY_TYPE_HMAC_SHA256 = ''HMAC-SHA256''"
| "km_key_type_str KM_KEY_TYPE_COUNT = ''UNKNOWN''"

section \<open>HKDF is RFC 5869\<close>

text \<open>HMAC as RFC 2104 has it, and the blocks \<open>T(i)\<close> of the expansion.\<close>

definition hmac_spec :: "bytes \<Rightarrow> bytes \<Rightarrow> bytes" where
  "hmac_spec key text =
     (let k = (if length key > 64 then sv_sha256_hash key else key);
          k0 = k @ zeros (64 - length k)
      in sv_sha256_hash (map (\<lambda>b. b XOR 0x5C) k0 @ sv_sha256_hash (map (\<lambda>b. b XOR 0x36) k0 @ text)))"

fun hkdf_block :: "bytes \<Rightarrow> bytes \<Rightarrow> nat \<Rightarrow> bytes" where
  "hkdf_block prk info 0 = []"
| "hkdf_block prk info (Suc n) = hmac_spec prk (hkdf_block prk info n @ info @ [of_nat (Suc n)])"

definition hkdf_spec :: "bytes \<Rightarrow> bytes \<Rightarrow> bytes \<Rightarrow> nat \<Rightarrow> bytes" where
  "hkdf_spec salt ikm info len =
     (let prk = hmac_spec salt ikm
      in take len (concat (map (hkdf_block prk info) [1..<Suc ((len + 31) div 32)])))"

lemma length_hmac_spec [simp]: "length (hmac_spec k m) = 32"
  by (simp add: hmac_spec_def Let_def)

lemma hmac_sha256_eq: "hmac_sha256 key d = (if length d > 256 then Undefined else Returned (hmac_spec key d))"
proof -
  have "blit (zeros 64) 0 k = k @ zeros (64 - length k)" if "length k \<le> 64" for k
    using that by (simp add: blit_def)
  then show ?thesis by (auto simp: hmac_sha256_def hmac_spec_def Let_def)
qed

lemma length_hkdf_block [simp]: "length (hkdf_block prk info n) = (if n = 0 then 0 else 32)"
  by (cases n) simp_all

definition hkdf_out :: "bytes \<Rightarrow> bytes \<Rightarrow> nat \<Rightarrow> bytes" where
  "hkdf_out prk info n = concat (map (hkdf_block prk info) [1..<Suc n])"

lemma hkdf_out_simps: "hkdf_out prk info 0 = []" "hkdf_out prk info (Suc n) = hkdf_out prk info n @ hkdf_block prk info (Suc n)"
  by (simp_all add: hkdf_out_def)

lemma length_hkdf_out [simp]: "length (hkdf_out prk info n) = 32 * n"
  by (induction n) (simp_all add: hkdf_out_simps)

text \<open>The state before the block \<open>k + 1\<close>.\<close>

definition hkdf_at :: "bytes \<Rightarrow> bytes \<Rightarrow> bytes \<Rightarrow> nat \<Rightarrow> hkdf_state" where
  "hkdf_at prk info okm k = \<lparr>hk_i = of_nat (Suc k), hk_prev = hkdf_block prk info k, hk_total = min (32 * k) (length okm),
     hk_okm = take (length okm) (hkdf_out prk info k) @ drop (32 * k) okm, hk_ok = True\<rparr>"

lemma hkdf_step_at:
  assumes "length info \<le> 64" 
  shows "hkdf_step prk info (length okm) (hkdf_at prk info okm k) = hkdf_at prk info okm (Suc k)"
proof -
  let ?L = "length okm" and ?t = "hkdf_block prk info (Suc k)"
  let ?c = "if ?L - min (32 * k) ?L > 32 then 32 else ?L - min (32 * k) ?L"
  have t: "hmac_sha256 prk (hkdf_block prk info k @ info @ [of_nat (Suc k)]) = Returned ?t"
    using assms by (simp add: hmac_sha256_eq)
  have l: "\<not> length (hkdf_block prk info k @ info @ [of_nat (Suc k) :: u8]) > KM_HKDF_INFO_MAX + 32 + 1"
    using assms by (simp add: KM_HKDF_INFO_MAX_def)
  have "blit (take ?L (hkdf_out prk info k) @ drop (32 * k) okm) (min (32 * k) ?L) (take ?c ?t)
      = take ?L (hkdf_out prk info (Suc k)) @ drop (32 * Suc k) okm"
  proof (cases "32 * k \<le> ?L")
    case True
    have "blit (hkdf_out prk info k @ drop (32 * k) okm) (32 * k) (take ?c ?t)
        = hkdf_out prk info k @ take ?c ?t @ drop (length (take ?c ?t)) (drop (32 * k) okm)"
      by (rule blit_at) simp
    moreover have "take ?L (hkdf_out prk info (Suc k)) = hkdf_out prk info k @ take (?L - 32 * k) ?t"
      using True by (simp add: hkdf_out_simps del: hkdf_block.simps)
    moreover have "take ?c ?t = take (?L - 32 * k) ?t" using True by (simp del: hkdf_block.simps)
    moreover have "drop (length (take ?c ?t)) (drop (32 * k) okm) = drop (32 * Suc k) okm"
      using True by (auto simp: min_def add.commute simp del: hkdf_block.simps)
    ultimately show ?thesis using True by (simp add: min_def del: hkdf_block.simps)
  next
    case False
    then show ?thesis by (simp add: hkdf_out_simps blit_def del: hkdf_block.simps)
  qed
  moreover have "min (32 * k) ?L + ?c = min (32 * Suc k) ?L" by auto
  moreover have "hkdf_step prk info ?L (hkdf_at prk info okm k) = (hkdf_at prk info okm k)\<lparr>hk_prev := ?t,
      hk_okm := blit (take ?L (hkdf_out prk info k) @ drop (32 * k) okm) (min (32 * k) ?L) (take ?c ?t),
      hk_total := min (32 * k) ?L + ?c, hk_i := of_nat (Suc k) + 1\<rparr>"
    using l unfolding hkdf_step_def Let_def hkdf_at_def hkdf_state.select_convs t
    by (simp only: if_False c_result.case)
  ultimately show ?thesis by (simp only: hkdf_at_def) simp
qed

text \<open>With fewer than 255 blocks the counter passes the bound; else it wraps and never does.\<close>

lemma hkdf_loop:
  assumes "length info \<le> 64" and "unat n < 255" and "k \<le> unat n"
  shows "while_option (\<lambda>s. hk_ok s \<and> unat (hk_i s) \<le> unat n) (hkdf_step prk info (length okm)) (hkdf_at prk info okm k)
    = Some (hkdf_at prk info okm (unat (n :: u32)))"
  using assms(3)
proof (induction "unat n - k" arbitrary: k)
  case 0
  then have "k = unat n" by simp
  then have "\<not> unat (hk_i (hkdf_at prk info okm k)) \<le> unat n"
    using assms(2) unat_of_nat_u8 [of "Suc k"] by (simp add: hkdf_at_def del: of_nat_Suc)
  then show ?case using \<open>k = unat n\<close> by (simp add: while_option_unfold)
next
  case (Suc d)
  then have k: "k < unat n" "d = unat n - Suc k" by simp_all
  have "hk_ok (hkdf_at prk info okm k) \<and> unat (hk_i (hkdf_at prk info okm k)) \<le> unat n"
    using assms(2) k unat_of_nat_u8 [of "Suc k"] by (simp add: hkdf_at_def del: of_nat_Suc)
  then show ?case
    using Suc.hyps(1) [OF k(2)] k hkdf_step_at [OF assms(1)] by (subst while_option_unfold) simp
qed

lemma hkdf_diverges:
  assumes "length info \<le> 64" and "255 \<le> unat (n :: u32)"
  shows "while_option (\<lambda>s. hk_ok s \<and> unat (hk_i s) \<le> unat n) (hkdf_step prk info (length okm)) (hkdf_at prk info okm 0) = None"
proof (rule ccontr)
  let ?b = "\<lambda>s. hk_ok s \<and> unat (hk_i s) \<le> unat n" and ?P = "\<lambda>s. \<exists>k. s = hkdf_at prk info okm k"
  assume "\<not> ?thesis"
  then obtain t where t: "while_option ?b (hkdf_step prk info (length okm)) (hkdf_at prk info okm 0) = Some t" by auto
  have "?P t"
    using while_option_rule [of ?P ?b "hkdf_step prk info (length okm)" "hkdf_at prk info okm 0" t]
      hkdf_step_at [OF assms(1)] t by blast
  then have "?b t" using assms(2) unat_u8_bound [of "hk_i t"] by (auto simp: hkdf_at_def)
  with while_option_stop [OF t] show False by blast
qed

lemma hkdf_blocks:
  assumes "l < 4294967265"
  shows "unat ((of_nat l + 32 - 1) div 32 :: u32) = (l + 31) div 32"
proof -
  have e: "of_nat l + 32 - 1 = (of_nat (l + 31) :: u32)" by simp
  have "unat (of_nat (l + 31) :: u32) = l + 31" using assms by (intro unat_of_nat_u32) simp
  then show ?thesis unfolding e unat_div by simp
qed

lemma hkdf_start: "\<lparr>hk_i = 1, hk_prev = [], hk_total = 0, hk_okm = okm, hk_ok = True\<rparr> = hkdf_at prk info okm 0"
  by (simp add: hkdf_at_def hkdf_out_simps)

lemma hkdf_expand_correct:
  assumes "length info \<le> 64" and "okm \<noteq> []" and "length okm \<le> 8128"
  shows "km_hkdf_expand (Some prk) (Some info) okm
    = Returned (Some (take (length okm) (hkdf_out prk info ((length okm + 31) div 32))))"
proof -
  let ?L = "length okm" and ?N = "(length okm + 31) div 32"
  define n where "n = ((of_nat ?L + 32 - 1) div 32 :: u32)"
  have n: "unat n = ?N" using hkdf_blocks [of ?L] assms(3) by (simp add: n_def)
  have "?N < 255" "?L \<le> 32 * ?N" using assms(3) by simp_all
  then have w: "while_option (\<lambda>s. hk_ok s \<and> unat (hk_i s) \<le> unat n) (hkdf_step prk info ?L) (hkdf_at prk info okm 0)
      = Some (hkdf_at prk info okm (unat n))"
    using hkdf_loop [of info n 0 prk okm] assms(1) n by simp
  have "hk_ok (hkdf_at prk info okm (unat n))" by (simp add: hkdf_at_def)
  then have "km_hkdf_expand (Some prk) (Some info) okm = Returned (Some (hk_okm (hkdf_at prk info okm (unat n))))"
    using assms(2) unfolding km_hkdf_expand_def option.case hkdf_start [of okm prk info] Let_def n_def [symmetric] w by (simp only: if_False if_True)
  then have "km_hkdf_expand (Some prk) (Some info) okm = Returned (Some (hk_okm (hkdf_at prk info okm ?N)))"
    unfolding n .
  with \<open>?L \<le> 32 * ?N\<close> show ?thesis by (simp add: hkdf_at_def)
qed

lemma hkdf_expand_diverges:
  assumes "length info \<le> 64" and "8128 < length okm" and "length okm < 4294967265"
  shows "km_hkdf_expand (Some prk) (Some info) okm = Diverges"
proof -
  have "255 \<le> (length okm + 31) div 32" using div_le_mono [of 8160 "length okm + 31" 32] assms(2) by simp
  then have "255 \<le> unat ((of_nat (length okm) + 32 - 1) div 32 :: u32)" unfolding hkdf_blocks [OF assms(3)] .
  note w = hkdf_diverges [OF assms(1) this, of prk okm]
  have "okm \<noteq> []" using assms(2) by auto
  then show ?thesis unfolding km_hkdf_expand_def option.case hkdf_start [of okm prk info] Let_def w by simp
qed

lemma hkdf_derive_eq:
  assumes "length ikm \<le> 256"
  shows "km_hkdf_derive (Some ikm) salt info okm
    = km_hkdf_expand (Some (hmac_spec (if salt = None \<or> salt = Some [] then zeros 32 else the salt) ikm)) info okm"
proof -
  let ?salt = "if salt = None \<or> salt = Some [] then zeros 32 else the salt"
  have e: "km_hkdf_extract salt (Some ikm) 32 = Returned (Some (hmac_spec ?salt ikm, 32))"
    using assms by (cases salt) (simp_all add: km_hkdf_extract_def hmac_sha256_eq)
  have t: "take 32 (hmac_spec ?salt ikm) = hmac_spec ?salt ikm" by (rule take_all) (simp only: length_hmac_spec)
  show ?thesis unfolding km_hkdf_derive_def e c_result.case option.case prod.case t ..
qed

lemma hkdf_derive_correct:
  assumes "length info \<le> 64" and "okm \<noteq> []" and "length okm \<le> 8128" and "length ikm \<le> 256"
  shows "km_hkdf_derive (Some ikm) salt (Some info) okm = Returned (Some
    (hkdf_spec (if salt = None \<or> salt = Some [] then zeros 32 else the salt) ikm info (length okm)))"
  unfolding hkdf_derive_eq [OF assms(4)] hkdf_expand_correct [OF assms(1-3)] hkdf_spec_def Let_def hkdf_out_def [symmetric] ..

section \<open>The life cycle of a key\<close>

text \<open>The transitions between the states of one key.\<close>

inductive km_trans :: "KMKeyState \<Rightarrow> KMKeyState \<Rightarrow> bool" where
  activate: "s = KM_STATE_PRE_ACTIVATION \<or> s = KM_STATE_DEACTIVATED \<Longrightarrow> km_trans s KM_STATE_ACTIVE"
| deactivate: "km_trans KM_STATE_ACTIVE KM_STATE_DEACTIVATED"
| revoke: "s = KM_STATE_ACTIVE \<or> s = KM_STATE_DEACTIVATED \<or> s = KM_STATE_COMPROMISED \<Longrightarrow> km_trans s KM_STATE_REVOKED"
| compromise: "s \<noteq> KM_STATE_DESTROYED \<Longrightarrow> s \<noteq> KM_STATE_DESTROYED_COMPROMISED \<Longrightarrow> km_trans s KM_STATE_COMPROMISED"
| destroy_compromised: "km_trans KM_STATE_COMPROMISED KM_STATE_DESTROYED_COMPROMISED"
| destroy: "s \<noteq> KM_STATE_COMPROMISED \<Longrightarrow> km_trans s KM_STATE_DESTROYED"

inductive_cases km_trans_from: "km_trans s t"

definition km_destroyed :: "KMKeyState \<Rightarrow> bool" where
  "km_destroyed s \<longleftrightarrow> s = KM_STATE_DESTROYED \<or> s = KM_STATE_DESTROYED_COMPROMISED"

text \<open>No longer to be used, and never again.\<close>

definition km_retired :: "KMKeyState \<Rightarrow> bool" where
  "km_retired s \<longleftrightarrow> s = KM_STATE_COMPROMISED \<or> s = KM_STATE_REVOKED \<or> km_destroyed s"

lemma km_trans_retired: "km_trans s t \<Longrightarrow> km_retired s \<Longrightarrow> km_retired t"
  and km_trans_destroyed: "km_trans s t \<Longrightarrow> km_destroyed s \<Longrightarrow> km_destroyed t"
  by (auto elim!: km_trans_from simp: km_retired_def km_destroyed_def)

lemma km_trans_star:
  assumes "km_trans\<^sup>*\<^sup>* s t"
  shows "(km_retired s \<longrightarrow> km_retired t) \<and> (km_destroyed s \<longrightarrow> km_destroyed t)"
  using assms by (induction rule: rtranclp_induct) (auto dest: km_trans_retired km_trans_destroyed)

text \<open>One store follows another: the keys are still there, each further along its life cycle.\<close>

definition km_follows :: "KMKeyStore \<Rightarrow> KMKeyStore \<Rightarrow> bool" where
  "km_follows ks kt \<longleftrightarrow> ks_key_count ks \<le> ks_key_count kt \<and> length (ks_keys kt) = length (ks_keys ks)
     \<and> (\<forall>i < ks_key_count ks. ke_key_id (ks_keys kt ! i) = ke_key_id (ks_keys ks ! i)
          \<and> km_trans\<^sup>*\<^sup>* (ke_state (ks_keys ks ! i)) (ke_state (ks_keys kt ! i)))"

lemma km_follows_refl [simp]: "km_follows ks ks"
  by (simp add: km_follows_def)

lemma km_follows_trans:
  assumes "km_follows ks kt" and "km_follows kt ku"
  shows "km_follows ks ku"
proof -
  have "ke_key_id (ks_keys ku ! i) = ke_key_id (ks_keys ks ! i)
      \<and> km_trans\<^sup>*\<^sup>* (ke_state (ks_keys ks ! i)) (ke_state (ks_keys ku ! i))" if "i < ks_key_count ks" for i
  proof -
    have "i < ks_key_count kt" using assms(1) that by (simp add: km_follows_def)
    then show ?thesis using assms that
        rtranclp_trans [of km_trans "ke_state (ks_keys ks ! i)" "ke_state (ks_keys kt ! i)" "ke_state (ks_keys ku ! i)"]
      by (simp add: km_follows_def)
  qed
  then show ?thesis using assms by (simp add: km_follows_def)
qed

text \<open>The invariant: destroyed keys have no key material left.\<close>

definition key_ok :: "KMKeyEntry \<Rightarrow> bool" where
  "key_ok k \<longleftrightarrow> length (ke_public_key k) = 256 \<and> length (ke_private_key k) = 512
     \<and> ke_public_key_len k \<le> 256 \<and> ke_private_key_len k \<le> 512 \<and> length (ke_key_id k) \<le> 63 \<and> length (ke_key_name k) \<le> 63
     \<and> (km_destroyed (ke_state k) \<longrightarrow> ke_private_key k = zeros 512 \<and> ke_private_key_len k = 0)
     \<and> (ke_is_tpm_protected k \<longrightarrow> ke_private_key_len k = 0)"

definition km_inv :: "KMKeyStore \<Rightarrow> bool" where
  "km_inv ks \<longleftrightarrow> length (ks_keys ks) = 64 \<and> ks_key_count ks \<le> 64 \<and> (\<forall>k \<in> set (ks_keys ks). key_ok k)"

lemma km_inv_init: "km_inv km_store_init"
  by (simp add: km_inv_def km_store_init_def KM_MAX_KEYS_def zero_managed_key_def key_ok_def)

lemma find_key_SomeD:
  "find_key ks key_id = Some i \<Longrightarrow> i < ks_key_count ks \<and> i < length (ks_keys ks) \<and> ke_key_id (ks_keys ks ! i) = key_id"
  by (auto simp: find_key_def km_keys_def dest!: find_index_SomeD)

lemma put_key_follows:
  assumes "i < length (ks_keys ks)" and "ke_key_id key = ke_key_id (ks_keys ks ! i)"
    and "km_trans\<^sup>*\<^sup>* (ke_state (ks_keys ks ! i)) (ke_state key)"
  shows "km_follows ks (put_key ks i key)"
  using assms by (simp add: km_follows_def put_key_def nth_list_update)

lemma put_key_inv:
  assumes "km_inv ks" and "key_ok key"
  shows "km_inv (put_key ks i key)"
  using assms set_update_subset_insert [of "ks_keys ks" i key] by (auto simp: km_inv_def put_key_def)

lemma key_ok_nth: "km_inv ks \<Longrightarrow> i < length (ks_keys ks) \<Longrightarrow> key_ok (ks_keys ks ! i)"
  by (simp add: km_inv_def)

text \<open>The operations that change one key: nothing, or one transition of one key.\<close>

definition km_change :: "KMKeyStore \<Rightarrow> KMKeyStore \<Rightarrow> bool" where
  "km_change ks kt \<longleftrightarrow> kt = ks \<or> (\<exists>i key. i < length (ks_keys ks) \<and> kt = put_key ks i key
     \<and> ke_key_id key = ke_key_id (ks_keys ks ! i) \<and> km_trans (ke_state (ks_keys ks ! i)) (ke_state key)
     \<and> (key_ok (ks_keys ks ! i) \<longrightarrow> key_ok key))"

lemma km_changeI:
  "i < length (ks_keys ks) \<Longrightarrow> ke_key_id key = ke_key_id (ks_keys ks ! i) \<Longrightarrow>
    km_trans (ke_state (ks_keys ks ! i)) (ke_state key) \<Longrightarrow> (key_ok (ks_keys ks ! i) \<Longrightarrow> key_ok key) \<Longrightarrow>
    km_change ks (put_key ks i key)"
  by (auto simp: km_change_def)

lemma km_change_refl [simp]: "km_change ks ks"
  by (simp add: km_change_def)

lemma key_ok_state: "key_ok k \<Longrightarrow> \<not> km_destroyed s \<Longrightarrow> key_ok (k\<lparr>ke_state := s\<rparr>)"
  by (simp add: key_ok_def)

lemma km_key_changes:
  "km_change ks (fst (km_key_activate ks kid))" "km_change ks (fst (km_key_deactivate ks kid))"
  "km_change ks (fst (km_key_reactivate ks kid))" "km_change ks (fst (km_key_revoke clock ks kid))"
  "km_change ks (fst (km_key_compromise ks kid))" "km_change ks (fst (km_key_destroy ks kid))"
proof -
  note i = find_key_SomeD [of ks kid]
  show "km_change ks (fst (km_key_activate ks kid))"
    by (cases "find_key ks kid") (auto simp: km_key_activate_def Let_def km_destroyed_def
        intro!: km_changeI km_trans.activate key_ok_state dest!: i)
  show "km_change ks (fst (km_key_deactivate ks kid))"
    by (cases "find_key ks kid") (auto simp: km_key_deactivate_def Let_def km_destroyed_def
        intro!: km_changeI km_trans.deactivate key_ok_state dest!: i)
  show "km_change ks (fst (km_key_reactivate ks kid))"
    by (cases "find_key ks kid") (auto simp: km_key_reactivate_def Let_def km_destroyed_def
        intro!: km_changeI km_trans.activate key_ok_state dest!: i)
  show "km_change ks (fst (km_key_compromise ks kid))"
    by (cases "find_key ks kid") (auto simp: km_key_compromise_def Let_def km_destroyed_def
        intro!: km_changeI km_trans.compromise key_ok_state dest!: i)
  show "km_change ks (fst (km_key_revoke clock ks kid))"
    by (cases "find_key ks kid") (auto simp: km_key_revoke_def Let_def km_destroyed_def key_ok_def
        intro!: km_changeI km_trans.revoke dest!: i)
  show "km_change ks (fst (km_key_destroy ks kid))"
    by (cases "find_key ks kid") (auto simp: km_key_destroy_def Let_def key_ok_def KM_MAX_KEY_DATA_def
        intro!: km_changeI km_trans.destroy km_trans.destroy_compromised dest!: i)
qed

lemma km_change_step:
  assumes "km_inv ks" and "km_change ks kt"
  shows "km_follows ks kt \<and> km_inv kt \<and> ks_key_count kt = ks_key_count ks \<and> ks_locked kt = ks_locked ks"
proof (cases "kt = ks")
  case False
  then obtain i key where c: "i < length (ks_keys ks)" "kt = put_key ks i key" "ke_key_id key = ke_key_id (ks_keys ks ! i)"
    "km_trans (ke_state (ks_keys ks ! i)) (ke_state key)" "key_ok (ks_keys ks ! i) \<longrightarrow> key_ok key"
    using assms(2) unfolding km_change_def by blast
  then have "key_ok key" using key_ok_nth [OF assms(1)] by blast
  then show ?thesis
    using put_key_follows [OF c(1,3) r_into_rtranclp [of km_trans, OF c(4)]] put_key_inv [OF assms(1)] c(2)
    by (simp add: put_key_def)
qed (use assms in simp)


subsection \<open>New keys\<close>

lemma length_demo_bytes [simp]: "length (demo_bytes m c a b) = b - a"
  by (simp add: demo_bytes_def)

lemma key_material_ok:
  assumes "key_ok k" and "\<not> km_destroyed (ke_state k)" and "\<not> ke_is_tpm_protected k"
  shows "key_ok (key_material ty bits k)" and "ke_key_id (key_material ty bits k) = ke_key_id k"
    and "ke_state (key_material ty bits k) = ke_state k"
  using assms
  by (cases ty; simp add: key_material_def rsa_material_def ecdsa_material_def symmetric_material_def key_ok_def Let_def
      KM_MAX_PUBLIC_KEY_def)+

text \<open>What an entry appended by generation or import does to the store.\<close>

definition km_append :: "KMKeyStore \<Rightarrow> KMKeyEntry \<Rightarrow> KMKeyStore" where
  "km_append ks key = ks\<lparr>ks_keys := (ks_keys ks)[ks_key_count ks := key], ks_key_count := ks_key_count ks + 1\<rparr>"

lemma km_append_step:
  assumes "km_inv ks" and "ks_key_count ks < 64" and "key_ok key"
  shows "km_follows ks (km_append ks key) \<and> km_inv (km_append ks key)"
  using assms set_update_subset_insert [of "ks_keys ks" "ks_key_count ks" key]
  by (auto simp: km_follows_def km_inv_def km_append_def)

text \<open>The entry that \<open>km_key_generate\<close> appends.\<close>

definition new_key :: "u64 \<Rightarrow> bytes \<Rightarrow> bytes \<Rightarrow> KMKeyType \<Rightarrow> u32 \<Rightarrow> u32 \<Rightarrow> u64 \<Rightarrow> KMKeyEntry" where
  "new_key now key_id name ty usage bits valid_days = key_material ty bits
     (zero_managed_key\<lparr>ke_key_id := take 63 key_id, ke_key_name := take 63 name,
        ke_key_type := ty, ke_usage_mask := usage, ke_state := KM_STATE_PRE_ACTIVATION,
        ke_key_strength_bits := bits, ke_version := 1, ke_created_at := now, ke_not_before := now,
        ke_not_after := now + valid_days * 86400, ke_is_tpm_protected := False\<rparr>)"

lemma new_key_ok: "key_ok (new_key now key_id name ty usage bits days)"
  "ke_key_id (new_key now key_id name ty usage bits days) = take 63 key_id"
  "ke_state (new_key now key_id name ty usage bits days) = KM_STATE_PRE_ACTIVATION"
proof -
  let ?k = "zero_managed_key\<lparr>ke_key_id := take 63 key_id, ke_key_name := take 63 name,
        ke_key_type := ty, ke_usage_mask := usage, ke_state := KM_STATE_PRE_ACTIVATION,
        ke_key_strength_bits := bits, ke_version := 1, ke_created_at := now, ke_not_before := now,
        ke_not_after := now + days * 86400, ke_is_tpm_protected := False\<rparr>"
  have k: "key_ok ?k" "\<not> km_destroyed (ke_state ?k)" "\<not> ke_is_tpm_protected ?k"
    by (simp_all add: key_ok_def km_destroyed_def zero_managed_key_def)
  show "key_ok (new_key now key_id name ty usage bits days)"
    "ke_key_id (new_key now key_id name ty usage bits days) = take 63 key_id"
    "ke_state (new_key now key_id name ty usage bits days) = KM_STATE_PRE_ACTIVATION"
    using key_material_ok [OF k, of ty bits] by (simp_all add: new_key_def)
qed

lemma km_key_generate_eq:
  "km_key_generate clock ks key_id name ty usage bits days =
    (if ks_locked ks \<or> 64 \<le> ks_key_count ks \<or> find_key ks key_id \<noteq> None then (ks, False)
     else (km_append ks (new_key (clock 0) key_id name ty usage bits days), True))"
  by (simp add: km_key_generate_def km_append_def new_key_def Let_def KM_MAX_KEYS_def KM_MAX_KEY_ID_def KM_MAX_KEY_NAME_def)

lemma km_generate_step:
  assumes "km_inv ks"
  shows "km_follows ks (fst (km_key_generate clock ks key_id name ty usage bits days))
    \<and> km_inv (fst (km_key_generate clock ks key_id name ty usage bits days))"
  using assms km_append_step [OF assms _ new_key_ok(1)] by (simp add: km_key_generate_eq)

lemma km_import_step:
  assumes "km_inv ks"
  shows "km_follows ks (fst (km_key_import_from_tpm clock ks key_id handle ty pub))
    \<and> km_inv (fst (km_key_import_from_tpm clock ks key_id handle ty pub))"
proof (cases "snd (km_key_import_from_tpm clock ks key_id handle ty pub)")
  case False
  then have "fst (km_key_import_from_tpm clock ks key_id handle ty pub) = ks"
    by (auto simp: km_key_import_from_tpm_def Let_def split: option.splits if_splits)
  then show ?thesis using assms by simp
next
  case True
  then obtain key where "fst (km_key_import_from_tpm clock ks key_id handle ty pub) = km_append ks key" "key_ok key" "ks_key_count ks < 64"
    by (auto simp: km_key_import_from_tpm_def Let_def km_append_def key_ok_def zero_managed_key_def km_destroyed_def hex8_def
        KM_MAX_KEYS_def KM_MAX_PUBLIC_KEY_def KM_MAX_KEY_ID_def split: option.splits if_splits)
  then show ?thesis using km_append_step [OF assms] by simp
qed

lemma put_version_step:
  assumes "km_inv ks" and "i < length (ks_keys ks)"
  shows "km_follows ks (put_key ks i ((ks_keys ks ! i)\<lparr>ke_version := v\<rparr>)) \<and> km_inv (put_key ks i ((ks_keys ks ! i)\<lparr>ke_version := v\<rparr>))"
  using put_key_follows [OF assms(2), of "(ks_keys ks ! i)\<lparr>ke_version := v\<rparr>"]
    put_key_inv [OF assms(1), of "(ks_keys ks ! i)\<lparr>ke_version := v\<rparr>"] key_ok_nth [OF assms] by (simp add: key_ok_def)

lemma km_install_step:
  assumes "km_inv ks"
  shows "km_follows ks (fst (km_install_version clock ks key_id i new_id days))
    \<and> km_inv (fst (km_install_version clock ks key_id i new_id days))"
proof -
  let ?o = "ks_keys ks ! i"
  define g where "g = km_key_generate clock ks new_id (ke_key_name ?o) (ke_key_type ?o) (ke_usage_mask ?o)
    (ke_key_strength_bits ?o) days"
  have s1: "km_follows ks (fst g)" "km_inv (fst g)" using km_generate_step [OF assms] by (simp_all add: g_def)
  have r: "km_install_version clock ks key_id i new_id days = (if \<not> snd g then (fst g, False)
      else case find_key (fst g) new_id of None \<Rightarrow> (fst g, False)
        | Some j \<Rightarrow> (fst (km_key_deactivate (fst (km_key_activate (put_key (fst g) j
            ((ks_keys (fst g) ! j)\<lparr>ke_version := ke_version (ks_keys (fst g) ! i) + 1\<rparr>)) new_id)) key_id), True))"
    unfolding km_install_version_def Let_def g_def [symmetric] by (simp add: case_prod_unfold)
  show ?thesis
  proof (cases "\<not> snd g \<or> find_key (fst g) new_id = None")
    case True
    then have "fst (km_install_version clock ks key_id i new_id days) = fst g" unfolding r by auto
    then show ?thesis using s1 by simp
  next
    case False
    then obtain j where j: "snd g" "find_key (fst g) new_id = Some j" by auto
    define ks2 where "ks2 = put_key (fst g) j ((ks_keys (fst g) ! j)\<lparr>ke_version := ke_version (ks_keys (fst g) ! i) + 1\<rparr>)"
    define ks3 where "ks3 = fst (km_key_activate ks2 new_id)"
    have s2: "km_follows (fst g) ks2 \<and> km_inv ks2"
      unfolding ks2_def using find_key_SomeD [OF j(2)] by (intro put_version_step s1) simp
    have s3: "km_follows ks2 ks3 \<and> km_inv ks3"
      using km_change_step [OF _ km_key_changes(1)] s2 by (simp add: ks3_def)
    have s4: "km_follows ks3 (fst (km_key_deactivate ks3 key_id)) \<and> km_inv (fst (km_key_deactivate ks3 key_id))"
      using km_change_step [OF _ km_key_changes(2)] s3 by simp
    have "fst (km_install_version clock ks key_id i new_id days) = fst (km_key_deactivate ks3 key_id)"
      using j unfolding r ks3_def ks2_def by simp
    then show ?thesis using s1(1) s2 s3 s4 by (metis km_follows_trans)
  qed
qed

lemma km_rotate_step:
  "km_inv ks \<Longrightarrow> km_follows ks (fst (km_key_rotate clock ks key_id config)) \<and> km_inv (fst (km_key_rotate clock ks key_id config))"
  using km_install_step [of ks] by (auto simp: km_key_rotate_def Let_def split: option.splits)

subsection \<open>Runs\<close>

datatype km_op = KmLock | KmUnlock
  | KmGenerate "nat \<Rightarrow> u64" bytes bytes KMKeyType u32 u32 u64
  | KmActivate bytes | KmDeactivate bytes | KmReactivate bytes | KmRevoke "nat \<Rightarrow> u64" bytes
  | KmDestroy bytes | KmCompromise bytes
  | KmRotate "nat \<Rightarrow> u64" bytes KMRotationConfig
  | KmImport "nat \<Rightarrow> u64" bytes u32 KMKeyType "bytes option"

fun km_step :: "km_op \<Rightarrow> KMKeyStore \<Rightarrow> KMKeyStore" where
  "km_step KmLock ks = km_store_lock ks"
| "km_step KmUnlock ks = km_store_unlock ks"
| "km_step (KmGenerate clock kid nm ty us bits days) ks = fst (km_key_generate clock ks kid nm ty us bits days)"
| "km_step (KmActivate kid) ks = fst (km_key_activate ks kid)"
| "km_step (KmDeactivate kid) ks = fst (km_key_deactivate ks kid)"
| "km_step (KmReactivate kid) ks = fst (km_key_reactivate ks kid)"
| "km_step (KmRevoke clock kid) ks = fst (km_key_revoke clock ks kid)"
| "km_step (KmDestroy kid) ks = fst (km_key_destroy ks kid)"
| "km_step (KmCompromise kid) ks = fst (km_key_compromise ks kid)"
| "km_step (KmRotate clock kid config) ks = fst (km_key_rotate clock ks kid config)"
| "km_step (KmImport clock kid handle ty pub) ks = fst (km_key_import_from_tpm clock ks kid handle ty pub)"

definition km_run :: "km_op list \<Rightarrow> KMKeyStore \<Rightarrow> KMKeyStore" where
  "km_run ps ks = fold km_step ps ks"

lemma km_step_follows:
  assumes "km_inv ks"
  shows "km_follows ks (km_step p ks) \<and> km_inv (km_step p ks)"
  using assms km_change_step [OF assms km_key_changes(1)] km_change_step [OF assms km_key_changes(2)]
    km_change_step [OF assms km_key_changes(3)] km_change_step [OF assms km_key_changes(4)]
    km_change_step [OF assms km_key_changes(5)] km_change_step [OF assms km_key_changes(6)]
    km_generate_step [OF assms] km_import_step [OF assms] km_rotate_step [OF assms]
  by (cases p) (simp_all add: km_follows_def km_inv_def km_store_lock_def km_store_unlock_def)

lemma km_run_follows:
  "km_inv ks \<Longrightarrow> km_follows ks (km_run ps ks) \<and> km_inv (km_run ps ks)"
proof (induction ps arbitrary: ks)
  case (Cons p ps)
  have s: "km_follows ks (km_step p ks)" "km_inv (km_step p ks)" using km_step_follows [OF Cons.prems] by simp_all
  then show ?case using Cons.IH [OF s(2)] km_follows_trans [OF s(1)] by (simp add: km_run_def)
qed (simp add: km_run_def)

end
