(* ===== verification/Boot_Policy.thy ===== *)
theory Boot_Policy
  imports Prelude "HOL-Library.Multiset"
begin

text \<open>
  The policy engine of \<open>mini-secure-boot/src/boot_policy.c\<close>.  The union of a condition is its 64
  bytes, read through the member the condition's type asks for.  A policy holds the rules in
  use; \<open>qsort\<close> is the parameter \<open>srt\<close>, of which only the contract \<open>policy_sort\<close> is used: a
  permutation ordered by falling priority, in any order among equals.  C strings are their
  bytes without the terminator.
\<close>

section \<open>Data\<close>

definition BP_MAX_RULES :: nat where "BP_MAX_RULES = 32"
definition BP_MAX_NAME_LEN :: nat where "BP_MAX_NAME_LEN = 64"
definition BP_MAX_DESCRIPTION_LEN :: nat where "BP_MAX_DESCRIPTION_LEN = 256"
definition BP_MAX_POLICY_NAME :: nat where "BP_MAX_POLICY_NAME = 64"
definition BP_MAX_SIGNERS :: nat where "BP_MAX_SIGNERS = 8"

datatype BPRuleOp = BP_OP_ALL_OF | BP_OP_ANY_OF | BP_OP_N_OF_M | BP_OP_NOT | BP_OP_ALWAYS_TRUE | BP_OP_ALWAYS_FALSE

datatype BPConditionType = BP_COND_SIGNER | BP_COND_HASH | BP_COND_VERSION_GE | BP_COND_VERSION_RANGE
  | BP_COND_TIME_BEFORE | BP_COND_TIME_AFTER | BP_COND_VENDOR_ID | BP_COND_DEVICE_CLASS
  | BP_COND_SECURE_BOOT_ENABLED | BP_COND_RECOVERY_MODE | BP_COND_SETUP_MODE | BP_COND_PCR_MATCH | BP_COND_COUNT

record BPCondition =
  bco_cond_type :: BPConditionType
  bco_value :: bytes
  bco_pcr_index :: u32
  bco_negated :: bool

text \<open>The members of the union.\<close>

record BPVersionRange =
  vr_min_version :: u32
  vr_max_version :: u32
  vr_min_inclusive :: bool
  vr_max_inclusive :: bool

definition value_string :: "bytes \<Rightarrow> bytes" where
  "value_string v = takeWhile (\<lambda>b. b \<noteq> 0) (take BP_MAX_NAME_LEN v)"

definition value_u32 :: "bytes \<Rightarrow> u32" where
  "value_u32 v = le32_at v 0"

definition value_u64 :: "bytes \<Rightarrow> u64" where
  "value_u64 v = le64 v"

definition value_range :: "bytes \<Rightarrow> BPVersionRange" where
  "value_range v = \<lparr>vr_min_version = le32_at v 0, vr_max_version = le32_at v 4,
     vr_min_inclusive = (v ! 8 \<noteq> 0), vr_max_inclusive = (v ! 9 \<noteq> 0)\<rparr>"

record BPRule =
  bru_rule_name :: bytes
  bru_description :: bytes
  bru_operator :: BPRuleOp
  bru_n_required :: u32
  bru_conditions :: "BPCondition list"
  bru_condition_count :: u32
  bru_enabled :: bool
  bru_rule_id :: u32
  bru_priority :: u32

record BPPolicy =
  bpo_policy_name :: bytes
  bpo_rules :: "BPRule list"
  bpo_default_allow :: bool
  bpo_audit_mode :: bool
  bpo_policy_version :: u32
  bpo_last_updated :: u64

record BPEvalContext =
  bec_signer_name :: "bytes option"
  bec_image_hash :: "bytes option"
  bec_image_version :: u32
  bec_current_time :: u64
  bec_vendor_id :: "bytes option"
  bec_device_class :: u32
  bec_secure_boot_enabled :: bool
  bec_recovery_mode :: bool
  bec_setup_mode :: bool
  bec_pcr_values :: "bytes option list"

datatype BPEvalResult = BP_RESULT_ALLOW | BP_RESULT_DENY | BP_RESULT_DENY_PERMANENT | BP_RESULT_NEED_MORE_INFO | BP_RESULT_ERROR

record BPEvalOutput =
  beo_result :: BPEvalResult
  beo_matched_rule :: bytes
  beo_reason :: bytes
  beo_rule_id_matched :: u32

section \<open>Conditions and rules\<close>

text \<open>\<open>strncmp\<close> of a 64-byte array and a string, over 64 bytes.\<close>

definition name_equal :: "bytes \<Rightarrow> bytes \<Rightarrow> bool" where
  "name_equal v s \<longleftrightarrow> value_string v = take BP_MAX_NAME_LEN s"

definition in_version_range :: "BPVersionRange \<Rightarrow> u32 \<Rightarrow> bool" where
  "in_version_range r version =
     (let above_min = (if vr_min_inclusive r then version \<ge> vr_min_version r else version > vr_min_version r);
          below_max = (if vr_max_inclusive r then version \<le> vr_max_version r else version < vr_max_version r)
      in above_min \<and> below_max)"

text \<open>Values of registers are 32 bytes; a hash of another length is no hash.\<close>

definition condition_value :: "BPCondition \<Rightarrow> BPEvalContext \<Rightarrow> bool" where
  "condition_value c ctx =
     (let v = bco_value c in
      case bco_cond_type c of
        BP_COND_SIGNER \<Rightarrow> (case bec_signer_name ctx of Some s \<Rightarrow> name_equal v s | None \<Rightarrow> False)
      | BP_COND_HASH \<Rightarrow>
          (case bec_image_hash ctx of Some h \<Rightarrow> length h = 32 \<and> take 32 v = h | None \<Rightarrow> False)
      | BP_COND_VERSION_GE \<Rightarrow> bec_image_version ctx \<ge> value_u32 v
      | BP_COND_VERSION_RANGE \<Rightarrow> in_version_range (value_range v) (bec_image_version ctx)
      | BP_COND_TIME_BEFORE \<Rightarrow> bec_current_time ctx < value_u64 v
      | BP_COND_TIME_AFTER \<Rightarrow> bec_current_time ctx > value_u64 v
      | BP_COND_VENDOR_ID \<Rightarrow> (case bec_vendor_id ctx of Some s \<Rightarrow> name_equal v s | None \<Rightarrow> False)
      | BP_COND_DEVICE_CLASS \<Rightarrow> bec_device_class ctx = value_u32 v
      | BP_COND_SECURE_BOOT_ENABLED \<Rightarrow> bec_secure_boot_enabled ctx
      | BP_COND_RECOVERY_MODE \<Rightarrow> bec_recovery_mode ctx
      | BP_COND_SETUP_MODE \<Rightarrow> bec_setup_mode ctx
      | BP_COND_PCR_MATCH \<Rightarrow>
          bco_pcr_index c < 24
          \<and> (case bec_pcr_values ctx ! unat (bco_pcr_index c) of Some p \<Rightarrow> take 32 v = p | None \<Rightarrow> False)
      | BP_COND_COUNT \<Rightarrow> False)"

definition evaluate_condition :: "BPCondition \<Rightarrow> BPEvalContext \<Rightarrow> bool" where
  "evaluate_condition c ctx = (if bco_negated c then \<not> condition_value c ctx else condition_value c ctx)"

text \<open>The loops over the conditions; a count above their number reads beyond the array.\<close>

fun all_conditions :: "BPEvalContext \<Rightarrow> BPCondition list \<Rightarrow> nat \<Rightarrow> bool c_result" where
  "all_conditions ctx cs 0 = Returned True"
| "all_conditions ctx [] (Suc n) = Undefined"
| "all_conditions ctx (c # cs) (Suc n) =
     (if \<not> evaluate_condition c ctx then Returned False else all_conditions ctx cs n)"

fun any_condition :: "BPEvalContext \<Rightarrow> BPCondition list \<Rightarrow> nat \<Rightarrow> bool c_result" where
  "any_condition ctx cs 0 = Returned False"
| "any_condition ctx [] (Suc n) = Undefined"
| "any_condition ctx (c # cs) (Suc n) =
     (if evaluate_condition c ctx then Returned True else any_condition ctx cs n)"

fun count_conditions :: "BPEvalContext \<Rightarrow> BPCondition list \<Rightarrow> nat \<Rightarrow> u32 \<Rightarrow> u32 c_result" where
  "count_conditions ctx cs 0 matched = Returned matched"
| "count_conditions ctx [] (Suc n) matched = Undefined"
| "count_conditions ctx (c # cs) (Suc n) matched =
     count_conditions ctx cs n (if evaluate_condition c ctx then matched + 1 else matched)"

definition rule_holds :: "BPRule \<Rightarrow> BPEvalContext \<Rightarrow> bool c_result" where
  "rule_holds rule ctx =
     (let cs = bru_conditions rule; n = unat (bru_condition_count rule) in
      case bru_operator rule of
        BP_OP_ALWAYS_TRUE \<Rightarrow> Returned True
      | BP_OP_ALWAYS_FALSE \<Rightarrow> Returned False
      | BP_OP_ALL_OF \<Rightarrow> all_conditions ctx cs n
      | BP_OP_ANY_OF \<Rightarrow> any_condition ctx cs n
      | BP_OP_N_OF_M \<Rightarrow>
          (case count_conditions ctx cs n 0 of
             Returned matched \<Rightarrow> Returned (matched \<ge> bru_n_required rule)
           | Undefined \<Rightarrow> Undefined | Diverges \<Rightarrow> Diverges)
      | BP_OP_NOT \<Rightarrow> Returned (if bru_condition_count rule > 0 then \<not> evaluate_condition (cs ! 0) ctx else False))"

definition rule_verdict :: "BPRule \<Rightarrow> BPEvalResult \<times> bytes" where
  "rule_verdict rule =
     (let text = (\<lambda>s. take (BP_MAX_DESCRIPTION_LEN - 1)
                    (str_bytes s @ bru_rule_name rule @ str_bytes '']: '' @ bru_description rule))
      in if bru_operator rule = BP_OP_NOT \<or> bru_operator rule = BP_OP_ALWAYS_FALSE
         then (BP_RESULT_DENY, text ''Blocked by deny-rule ['')
         else (BP_RESULT_ALLOW, text ''Allowed by rule [''))"

definition evaluate_rule :: "BPRule \<Rightarrow> BPEvalContext \<Rightarrow> BPEvalOutput \<Rightarrow> (BPEvalResult \<times> BPEvalOutput) c_result" where
  "evaluate_rule rule ctx out =
     (if \<not> bru_enabled rule then Returned (BP_RESULT_NEED_MORE_INFO, out)
      else case rule_holds rule ctx of
             Undefined \<Rightarrow> Undefined | Diverges \<Rightarrow> Diverges
           | Returned False \<Rightarrow> Returned (BP_RESULT_NEED_MORE_INFO, out)
           | Returned True \<Rightarrow>
               (case rule_verdict rule of (res, reason) \<Rightarrow>
                  Returned (res, out\<lparr>beo_result := res, beo_reason := reason,
                                     beo_matched_rule := take (BP_MAX_NAME_LEN - 1) (bru_rule_name rule),
                                     beo_rule_id_matched := bru_rule_id rule\<rparr>)))"

section \<open>Policies\<close>

type_synonym rule_sort = "BPRule list \<Rightarrow> BPRule list"

definition sort_rules_by_priority :: "rule_sort \<Rightarrow> BPRule list \<Rightarrow> BPRule list" where
  "sort_rules_by_priority srt rules = (if length rules > 1 then srt rules else rules)"

definition bp_policy_init :: "u64 \<Rightarrow> BPPolicy \<Rightarrow> bytes option \<Rightarrow> bool \<Rightarrow> BPPolicy \<times> bool" where
  "bp_policy_init now policy name default_allow =
     (case name of None \<Rightarrow> (policy, False)
      | Some nm \<Rightarrow>
          (\<lparr>bpo_policy_name = take (BP_MAX_POLICY_NAME - 1) nm, bpo_rules = [], bpo_default_allow = default_allow,
            bpo_audit_mode = False, bpo_policy_version = 1, bpo_last_updated = now\<rparr>, True))"

definition bp_policy_add_rule :: "rule_sort \<Rightarrow> u64 \<Rightarrow> BPPolicy \<Rightarrow> BPRule option \<Rightarrow> BPPolicy \<times> bool" where
  "bp_policy_add_rule srt now policy rule =
     (case rule of None \<Rightarrow> (policy, False)
      | Some r \<Rightarrow>
          if length (bpo_rules policy) \<ge> BP_MAX_RULES then (policy, False)
          else if \<exists>x \<in> set (bpo_rules policy). bru_rule_id x = bru_rule_id r then (policy, False)
          else (policy\<lparr>bpo_rules := sort_rules_by_priority srt (bpo_rules policy @ [r]),
                       bpo_policy_version := bpo_policy_version policy + 1, bpo_last_updated := now\<rparr>, True))"

definition rule_index :: "BPPolicy \<Rightarrow> u32 \<Rightarrow> nat option" where
  "rule_index policy rule_id = find_index (\<lambda>r. bru_rule_id r = rule_id) (bpo_rules policy)"

definition bp_policy_remove_rule :: "u64 \<Rightarrow> BPPolicy \<Rightarrow> u32 \<Rightarrow> BPPolicy \<times> bool" where
  "bp_policy_remove_rule now policy rule_id =
     (case rule_index policy rule_id of None \<Rightarrow> (policy, False)
      | Some i \<Rightarrow> (policy\<lparr>bpo_rules := take i (bpo_rules policy) @ drop (i + 1) (bpo_rules policy),
                          bpo_policy_version := bpo_policy_version policy + 1, bpo_last_updated := now\<rparr>, True))"

definition bp_policy_enable_rule :: "BPPolicy \<Rightarrow> u32 \<Rightarrow> bool \<Rightarrow> BPPolicy \<times> bool" where
  "bp_policy_enable_rule policy rule_id enable =
     (case rule_index policy rule_id of None \<Rightarrow> (policy, False)
      | Some i \<Rightarrow> (policy\<lparr>bpo_rules := (bpo_rules policy)[i := (bpo_rules policy ! i)\<lparr>bru_enabled := enable\<rparr>]\<rparr>, True))"

definition bp_policy_find_rule :: "BPPolicy \<Rightarrow> u32 \<Rightarrow> BPRule option" where
  "bp_policy_find_rule policy rule_id = map_option (\<lambda>i. bpo_rules policy ! i) (rule_index policy rule_id)"

text \<open>The loop over the rules: whether one decided, and the output.\<close>

fun evaluate_rules :: "BPEvalContext \<Rightarrow> BPRule list \<Rightarrow> BPEvalOutput \<Rightarrow> (bool \<times> BPEvalOutput) c_result" where
  "evaluate_rules ctx [] out = Returned (False, out)"
| "evaluate_rules ctx (r # rs) out =
     (if \<not> bru_enabled r then evaluate_rules ctx rs out
      else case evaluate_rule r ctx out of
             Returned (res, out1) \<Rightarrow>
               if res = BP_RESULT_ALLOW \<or> res = BP_RESULT_DENY then Returned (True, out1)
               else evaluate_rules ctx rs out1
           | Undefined \<Rightarrow> Undefined | Diverges \<Rightarrow> Diverges)"

definition bp_policy_evaluate :: "BPPolicy option \<Rightarrow> BPEvalContext option \<Rightarrow> BPEvalOutput c_result" where
  "bp_policy_evaluate policy ctx =
     (let allow = (case policy of Some p \<Rightarrow> bpo_default_allow p | None \<Rightarrow> False);
          res = (if allow then BP_RESULT_ALLOW else BP_RESULT_DENY);
          out = \<lparr>beo_result = res, beo_matched_rule = [],
                 beo_reason = str_bytes (if res = BP_RESULT_ALLOW then ''Default policy: ALLOW'' else ''Default policy: DENY''),
                 beo_rule_id_matched = 0\<rparr>
      in case (policy, ctx) of
           (Some p, Some c) \<Rightarrow>
             (case evaluate_rules c (bpo_rules p) out of
                Undefined \<Rightarrow> Undefined | Diverges \<Rightarrow> Diverges
              | Returned (True, out1) \<Rightarrow> Returned out1
              | Returned (False, out1) \<Rightarrow>
                  Returned (if bpo_default_allow p
                    then out1\<lparr>beo_result := BP_RESULT_ALLOW,
                              beo_reason := str_bytes ''No rule matched ? default ALLOW (audit_mode=''
                                @ str_bytes (if bpo_audit_mode p then ''ON'' else ''OFF'') @ str_bytes '')''\<rparr>
                    else out1\<lparr>beo_result := BP_RESULT_DENY,
                              beo_reason := str_bytes ''No rule matched ? default DENY (policy: '' @ bpo_policy_name p @ str_bytes '')''\<rparr>))
         | _ \<Rightarrow> Returned out)"

section \<open>Templates\<close>

definition zero_condition :: BPCondition where
  "zero_condition = \<lparr>bco_cond_type = BP_COND_SIGNER, bco_value = zeros 64, bco_pcr_index = 0, bco_negated = False\<rparr>"

definition zero_policy_rule :: BPRule where
  "zero_policy_rule = \<lparr>bru_rule_name = [], bru_description = [], bru_operator = BP_OP_ALL_OF, bru_n_required = 0,
     bru_conditions = replicate BP_MAX_SIGNERS zero_condition, bru_condition_count = 0, bru_enabled = False,
     bru_rule_id = 0, bru_priority = 0\<rparr>"

text \<open>Writes to the union of a cleared condition.\<close>

definition signer_condition :: "bytes \<Rightarrow> BPCondition" where
  "signer_condition s = zero_condition\<lparr>bco_cond_type := BP_COND_SIGNER,
     bco_value := blit (zeros 64) 0 (take (BP_MAX_NAME_LEN - 1) s @ [0])\<rparr>"

definition version_condition :: "u32 \<Rightarrow> BPCondition" where
  "version_condition v = zero_condition\<lparr>bco_cond_type := BP_COND_VERSION_GE, bco_value := blit (zeros 64) 0 (rev (be32_bytes v))\<rparr>"

text \<open>The common part of the templates' rules: a cleared rule with its first conditions set.\<close>

definition template_rule ::
  "string \<Rightarrow> string \<Rightarrow> BPRuleOp \<Rightarrow> u32 \<Rightarrow> u32 \<Rightarrow> BPCondition list \<Rightarrow> BPRule" where
  "template_rule name descr op prio rule_id cs = zero_policy_rule\<lparr>bru_rule_name := str_bytes name,
     bru_description := str_bytes descr, bru_operator := op, bru_priority := prio, bru_enabled := True,
     bru_rule_id := rule_id, bru_condition_count := of_nat (length cs),
     bru_conditions := cs @ drop (length cs) (bru_conditions zero_policy_rule)\<rparr>"

definition add_template :: "rule_sort \<Rightarrow> u64 \<Rightarrow> BPRule \<Rightarrow> BPPolicy \<Rightarrow> BPPolicy" where
  "add_template srt now rule policy = fst (bp_policy_add_rule srt now policy (Some rule))"

definition bp_create_standard_sb_policy :: "rule_sort \<Rightarrow> (nat \<Rightarrow> u64) \<Rightarrow> BPPolicy \<Rightarrow> BPPolicy \<times> bool" where
  "bp_create_standard_sb_policy srt clock policy =
     (let p0 = fst (bp_policy_init (clock 0) policy (Some (str_bytes ''Standard-SecureBoot'')) False);
          p1 = add_template srt (clock 1)
            (template_rule ''db-whitelist'' ''Allow if signed by trusted signer OR hash whitelisted'' BP_OP_ANY_OF 100 1
               [signer_condition (str_bytes ''OEM-SecureBoot-Signer''), zero_condition\<lparr>bco_cond_type := BP_COND_HASH\<rparr>]) p0;
          p2 = add_template srt (clock 2)
            (template_rule ''dbx-blacklist'' ''Deny if image hash is in forbidden signature database'' BP_OP_NOT 90 2
               [zero_condition\<lparr>bco_cond_type := BP_COND_HASH\<rparr>]) p1;
          p3 = add_template srt (clock 3)
            (template_rule ''anti-rollback'' ''Deny if image version is below minimum allowed'' BP_OP_NOT 80 3
               [version_condition 1]) p2
      in (p3, True))"

definition bp_create_recovery_policy :: "rule_sort \<Rightarrow> (nat \<Rightarrow> u64) \<Rightarrow> BPPolicy \<Rightarrow> BPPolicy \<times> bool" where
  "bp_create_recovery_policy srt clock policy =
     (let p0 = fst (bp_policy_init (clock 0) policy (Some (str_bytes ''Recovery-Policy'')) True);
          p1 = add_template srt (clock 1)
            (template_rule ''recovery-access'' ''Allow recovery-signed images or setup-mode operations'' BP_OP_ANY_OF 100 1
               [signer_condition (str_bytes ''OEM-Recovery-Signer''), zero_condition\<lparr>bco_cond_type := BP_COND_SETUP_MODE\<rparr>]) p0;
          p2 = add_template srt (clock 2)
            (template_rule ''recovery-oem'' ''Allow OEM-signed images in recovery mode'' BP_OP_ALL_OF 50 2
               [zero_condition\<lparr>bco_cond_type := BP_COND_RECOVERY_MODE\<rparr>, signer_condition (str_bytes ''OEM-SecureBoot-Signer'')]) p1
      in (p2, True))"

definition bp_create_enterprise_policy ::
  "rule_sort \<Rightarrow> (nat \<Rightarrow> u64) \<Rightarrow> BPPolicy \<Rightarrow> bytes option \<Rightarrow> u32 \<Rightarrow> BPPolicy \<times> bool" where
  "bp_create_enterprise_policy srt clock policy enterprise_signer min_version =
     (case enterprise_signer of None \<Rightarrow> (policy, False)
      | Some ent \<Rightarrow>
          (let pol_name = take (BP_MAX_POLICY_NAME - 1) (str_bytes ''Enterprise-'' @ ent);
               p0 = fst (bp_policy_init (clock 0) policy (Some pol_name) False);
               p1 = add_template srt (clock 1)
                 (template_rule ''enterprise-primary'' ''Allow enterprise-signed images meeting minimum version'' BP_OP_ALL_OF 100 1
                    [signer_condition ent, version_condition min_version]) p0;
               p2 = add_template srt (clock 2)
                 (template_rule ''oem-fallback'' ''Fallback: allow OEM-signed images if SB is enabled'' BP_OP_ALL_OF 50 2
                    [signer_condition (str_bytes ''OEM-SecureBoot-Signer''),
                     zero_condition\<lparr>bco_cond_type := BP_COND_SECURE_BOOT_ENABLED\<rparr>]) p1
           in (p2, True)))"

section \<open>Names\<close>

fun bp_rule_op_str :: "BPRuleOp \<Rightarrow> string" where
  "bp_rule_op_str BP_OP_ALL_OF = ''ALL_OF (AND)''"
| "bp_rule_op_str BP_OP_ANY_OF = ''ANY_OF (OR)''"
| "bp_rule_op_str BP_OP_N_OF_M = ''N_OF_M''"
| "bp_rule_op_str BP_OP_NOT = ''NOT''"
| "bp_rule_op_str BP_OP_ALWAYS_TRUE = ''ALWAYS_TRUE''"
| "bp_rule_op_str BP_OP_ALWAYS_FALSE = ''ALWAYS_FALSE''"

fun bp_cond_type_str :: "BPConditionType \<Rightarrow> string" where
  "bp_cond_type_str BP_COND_SIGNER = ''SIGNER''"
| "bp_cond_type_str BP_COND_HASH = ''HASH''"
| "bp_cond_type_str BP_COND_VERSION_GE = ''VERSION_GE''"
| "bp_cond_type_str BP_COND_VERSION_RANGE = ''VERSION_RANGE''"
| "bp_cond_type_str BP_COND_TIME_BEFORE = ''TIME_BEFORE''"
| "bp_cond_type_str BP_COND_TIME_AFTER = ''TIME_AFTER''"
| "bp_cond_type_str BP_COND_VENDOR_ID = ''VENDOR_ID''"
| "bp_cond_type_str BP_COND_DEVICE_CLASS = ''DEVICE_CLASS''"
| "bp_cond_type_str BP_COND_SECURE_BOOT_ENABLED = ''SB_ENABLED''"
| "bp_cond_type_str BP_COND_RECOVERY_MODE = ''RECOVERY_MODE''"
| "bp_cond_type_str BP_COND_SETUP_MODE = ''SETUP_MODE''"
| "bp_cond_type_str BP_COND_PCR_MATCH = ''PCR_MATCH''"
| "bp_cond_type_str BP_COND_COUNT = ''UNKNOWN''"

fun bp_result_str :: "BPEvalResult \<Rightarrow> string" where
  "bp_result_str BP_RESULT_ALLOW = ''ALLOW''"
| "bp_result_str BP_RESULT_DENY = ''DENY''"
| "bp_result_str BP_RESULT_DENY_PERMANENT = ''DENY_PERMANENT''"
| "bp_result_str BP_RESULT_NEED_MORE_INFO = ''NEED_MORE_INFO''"
| "bp_result_str BP_RESULT_ERROR = ''ERROR''"

section \<open>First match decides\<close>

text \<open>Rules as the callers build them: eight conditions, and a count within them.\<close>

definition rule_wf :: "BPRule \<Rightarrow> bool" where
  "rule_wf r \<longleftrightarrow> length (bru_conditions r) = 8 \<and> unat (bru_condition_count r) \<le> 8"

text \<open>What a rule's operator says of its conditions.\<close>

definition rule_sat :: "BPRule \<Rightarrow> BPEvalContext \<Rightarrow> bool" where
  "rule_sat r ctx =
     (let vs = map (\<lambda>c. evaluate_condition c ctx) (take (unat (bru_condition_count r)) (bru_conditions r)) in
      case bru_operator r of
        BP_OP_ALL_OF \<Rightarrow> (\<forall>v \<in> set vs. v)
      | BP_OP_ANY_OF \<Rightarrow> (\<exists>v \<in> set vs. v)
      | BP_OP_N_OF_M \<Rightarrow> unat (bru_n_required r) \<le> count_list vs True
      | BP_OP_NOT \<Rightarrow> vs \<noteq> [] \<and> \<not> hd vs
      | BP_OP_ALWAYS_TRUE \<Rightarrow> True
      | BP_OP_ALWAYS_FALSE \<Rightarrow> False)"

lemma all_conditions_eq:
  "n \<le> length cs \<Longrightarrow> all_conditions ctx cs n = Returned (\<forall>c \<in> set (take n cs). evaluate_condition c ctx)"
  by (induction ctx cs n rule: all_conditions.induct) auto

lemma any_condition_eq:
  "n \<le> length cs \<Longrightarrow> any_condition ctx cs n = Returned (\<exists>c \<in> set (take n cs). evaluate_condition c ctx)"
  by (induction ctx cs n rule: any_condition.induct) auto

lemma count_conditions_eq:
  "n \<le> length cs \<Longrightarrow> count_conditions ctx cs n m
    = Returned (m + of_nat (count_list (map (\<lambda>c. evaluate_condition c ctx) (take n cs)) True))"
  by (induction ctx cs n m rule: count_conditions.induct) (auto simp: algebra_simps)

lemma rule_holds_eq:
  assumes "rule_wf r"
  shows "rule_holds r ctx = Returned (rule_sat r ctx)"
proof -
  let ?n = "unat (bru_condition_count r)" and ?cs = "bru_conditions r"
  have l: "?n \<le> length ?cs" "?n \<le> 8" using assms by (simp_all add: rule_wf_def)
  let ?vs = "map (\<lambda>c. evaluate_condition c ctx) (take ?n ?cs)"
  have "count_list ?vs True \<le> 8" using count_le_length [of ?vs True] l by simp
  then have c: "unat (of_nat (count_list ?vs True) :: u32) = count_list ?vs True" by (intro unat_of_nat_u32) simp
  have h: "0 < ?n \<Longrightarrow> ?vs \<noteq> [] \<and> hd ?vs = evaluate_condition (?cs ! 0) ctx"
    using l(1) by (cases ?cs) (auto simp: take_Cons split: nat.splits)
  show ?thesis
    using all_conditions_eq [OF l(1), of ctx] any_condition_eq [OF l(1), of ctx] count_conditions_eq [OF l(1), of ctx 0] c h
    by (auto simp: rule_holds_def rule_sat_def Let_def word_le_nat_alt word_less_nat_alt split: BPRuleOp.split)
qed

text \<open>The verdict: the first enabled rule that is satisfied decides, else the default.\<close>

definition deciding_rule :: "BPRule list \<Rightarrow> BPEvalContext \<Rightarrow> BPRule option" where
  "deciding_rule rs ctx = find (\<lambda>r. bru_enabled r \<and> rule_sat r ctx) rs"

definition denies :: "BPRule \<Rightarrow> bool" where
  "denies r \<longleftrightarrow> bru_operator r = BP_OP_NOT"

lemma evaluate_rule_eq:
  assumes "rule_wf r"
  shows "evaluate_rule r ctx out = Returned
    (if bru_enabled r \<and> rule_sat r ctx
     then (fst (rule_verdict r), out\<lparr>beo_result := fst (rule_verdict r), beo_reason := snd (rule_verdict r),
             beo_matched_rule := take 63 (bru_rule_name r), beo_rule_id_matched := bru_rule_id r\<rparr>)
     else (BP_RESULT_NEED_MORE_INFO, out))"
  by (simp add: evaluate_rule_def rule_holds_eq [OF assms] BP_MAX_NAME_LEN_def split: prod.split)

lemma fst_rule_verdict: "rule_sat r ctx \<Longrightarrow> fst (rule_verdict r) = (if denies r then BP_RESULT_DENY else BP_RESULT_ALLOW)"
  by (auto simp: rule_verdict_def denies_def rule_sat_def Let_def)

lemma evaluate_rules_eq:
  assumes "\<forall>r \<in> set rs. rule_wf r"
  shows "\<exists>out'. evaluate_rules ctx rs out = Returned (deciding_rule rs ctx \<noteq> None, out')
    \<and> (case deciding_rule rs ctx of None \<Rightarrow> out' = out
       | Some r \<Rightarrow> beo_result out' = (if denies r then BP_RESULT_DENY else BP_RESULT_ALLOW) \<and> beo_rule_id_matched out' = bru_rule_id r)"
  using assms
proof (induction rs)
  case (Cons r rs)
  show ?case
  proof (cases "bru_enabled r \<and> rule_sat r ctx")
    case True
    then show ?thesis
      using Cons.prems evaluate_rule_eq [of r ctx out] fst_rule_verdict [of r ctx]
      by (simp add: deciding_rule_def)
  next
    case False
    then have "evaluate_rules ctx (r # rs) out = evaluate_rules ctx rs out"
      using Cons.prems evaluate_rule_eq [of r ctx out] by simp
    moreover have "deciding_rule (r # rs) ctx = deciding_rule rs ctx" using False by (auto simp: deciding_rule_def)
    ultimately show ?thesis using Cons by simp
  qed
qed (simp add: deciding_rule_def)

lemma policy_verdict:
  assumes "\<forall>r \<in> set (bpo_rules p). rule_wf r"
  shows "\<exists>out. bp_policy_evaluate (Some p) (Some ctx) = Returned out
    \<and> beo_result out = (case deciding_rule (bpo_rules p) ctx of
        None \<Rightarrow> if bpo_default_allow p then BP_RESULT_ALLOW else BP_RESULT_DENY
      | Some r \<Rightarrow> if denies r then BP_RESULT_DENY else BP_RESULT_ALLOW)
    \<and> beo_rule_id_matched out = (case deciding_rule (bpo_rules p) ctx of None \<Rightarrow> 0 | Some r \<Rightarrow> bru_rule_id r)"
proof -
  define o1 where "o1 = \<lparr>beo_result = if bpo_default_allow p then BP_RESULT_ALLOW else BP_RESULT_DENY, beo_matched_rule = [],
    beo_reason = str_bytes (if bpo_default_allow p then ''Default policy: ALLOW'' else ''Default policy: DENY''),
    beo_rule_id_matched = 0 :: u32\<rparr>"
  have e: "bp_policy_evaluate (Some p) (Some ctx) =
      (case evaluate_rules ctx (bpo_rules p) o1 of
         Undefined \<Rightarrow> Undefined | Diverges \<Rightarrow> Diverges
       | Returned (True, out1) \<Rightarrow> Returned out1
       | Returned (False, out1) \<Rightarrow> Returned (if bpo_default_allow p
            then out1\<lparr>beo_result := BP_RESULT_ALLOW, beo_reason := str_bytes ''No rule matched ? default ALLOW (audit_mode=''
                        @ str_bytes (if bpo_audit_mode p then ''ON'' else ''OFF'') @ str_bytes '')''\<rparr>
            else out1\<lparr>beo_result := BP_RESULT_DENY,
                      beo_reason := str_bytes ''No rule matched ? default DENY (policy: '' @ bpo_policy_name p @ str_bytes '')''\<rparr>))"
    by (cases "bpo_default_allow p") (simp_all add: bp_policy_evaluate_def o1_def)
  show ?thesis
    using evaluate_rules_eq [OF assms, of ctx o1]
    by (cases "deciding_rule (bpo_rules p) ctx") (auto simp: e o1_def)
qed

section \<open>The rules stay in order\<close>

locale policy_sort =
  fixes srt :: rule_sort
  assumes mset_srt: "mset (srt rs) = mset rs"
    and sorted_srt: "sorted_wrt (\<lambda>r s. bru_priority r \<ge> bru_priority s) (srt rs)"

definition policy_inv :: "BPPolicy \<Rightarrow> bool" where
  "policy_inv p \<longleftrightarrow> length (bpo_rules p) \<le> 32 \<and> distinct (map bru_rule_id (bpo_rules p))
     \<and> sorted_wrt (\<lambda>r s. bru_priority r \<ge> bru_priority s) (bpo_rules p) \<and> (\<forall>r \<in> set (bpo_rules p). rule_wf r)"

datatype policy_op = PolInit u64 "bytes option" bool | PolAdd u64 BPRule | PolRemove u64 u32 | PolEnable u32 bool

fun policy_step :: "rule_sort \<Rightarrow> policy_op \<Rightarrow> BPPolicy \<Rightarrow> BPPolicy" where
  "policy_step srt (PolInit now name allow) p = fst (bp_policy_init now p name allow)"
| "policy_step srt (PolAdd now r) p = fst (bp_policy_add_rule srt now p (Some r))"
| "policy_step srt (PolRemove now rid) p = fst (bp_policy_remove_rule now p rid)"
| "policy_step srt (PolEnable rid en) p = fst (bp_policy_enable_rule p rid en)"

definition policy_op_ok :: "policy_op \<Rightarrow> bool" where
  "policy_op_ok q = (case q of PolAdd now r \<Rightarrow> rule_wf r | _ \<Rightarrow> True)"

definition policy_run :: "rule_sort \<Rightarrow> policy_op list \<Rightarrow> BPPolicy \<Rightarrow> BPPolicy" where
  "policy_run srt qs p = fold (policy_step srt) qs p"

lemma distinct_mset_map: "mset xs = mset ys \<Longrightarrow> distinct (map f xs) = distinct (map f ys)"
  by (metis mset_eq_imp_distinct_iff mset_map)

lemma policy_inv_enable:
  assumes "policy_inv p"
  shows "policy_inv (fst (bp_policy_enable_rule p rid en))"
proof (cases "rule_index p rid")
  case (Some i)
  let ?rs = "bpo_rules p"
  have i: "i < length ?rs" using Some find_index_SomeD unfolding rule_index_def by blast
  let ?r = "(?rs ! i)\<lparr>bru_enabled := en\<rparr>"
  have "map bru_rule_id (?rs[i := ?r]) = map bru_rule_id ?rs" using i by (simp add: map_update list_update_same_conv)
  moreover have pr: "map bru_priority (?rs[i := ?r]) = map bru_priority ?rs" using i by (simp add: map_update list_update_same_conv)
  moreover have "sorted_wrt (\<lambda>r s. bru_priority r \<ge> bru_priority s) xs = sorted_wrt (\<ge>) (map bru_priority xs)" for xs :: "BPRule list"
    by (simp add: sorted_wrt_map)
  moreover have "\<forall>r \<in> set (?rs[i := ?r]). rule_wf r"
    using assms i set_update_subset_insert [of ?rs i ?r] by (auto simp: policy_inv_def rule_wf_def)
  ultimately show ?thesis using assms Some by (simp add: policy_inv_def bp_policy_enable_rule_def)
qed (simp add: bp_policy_enable_rule_def assms)

lemma policy_inv_remove:
  assumes "policy_inv p"
  shows "policy_inv (fst (bp_policy_remove_rule now p rid))"
proof (cases "rule_index p rid")
  case (Some i)
  then have i: "i < length (bpo_rules p)" using find_index_SomeD unfolding rule_index_def by blast
  obtain xs y zs where s: "bpo_rules p = xs @ y # zs" "take i (bpo_rules p) = xs" "drop (Suc i) (bpo_rules p) = zs"
    using split_at_nth [OF i] by metis
  note s(1)
  moreover have "bpo_rules (fst (bp_policy_remove_rule now p rid)) = xs @ zs"
    using Some s(2,3) by (simp add: bp_policy_remove_rule_def)
  ultimately show ?thesis using assms by (auto simp: policy_inv_def sorted_wrt_append)
qed (simp add: bp_policy_remove_rule_def assms)

context policy_sort
begin

lemma policy_inv_add:
  assumes "policy_inv p" and "rule_wf r"
  shows "policy_inv (fst (bp_policy_add_rule srt now p (Some r)))"
proof (cases "length (bpo_rules p) \<ge> 32 \<or> (\<exists>x \<in> set (bpo_rules p). bru_rule_id x = bru_rule_id r)")
  case True
  then show ?thesis using assms by (auto simp: bp_policy_add_rule_def BP_MAX_RULES_def)
next
  case False
  let ?xs = "bpo_rules p @ [r]" and ?ys = "sort_rules_by_priority srt (bpo_rules p @ [r])"
  have m: "mset ?ys = mset ?xs" by (simp add: sort_rules_by_priority_def mset_srt)
  have "distinct (map bru_rule_id ?xs)" using assms(1) False by (auto simp: policy_inv_def)
  then have "distinct (map bru_rule_id ?ys)" using distinct_mset_map [OF m] by blast
  moreover have "sorted_wrt (\<lambda>r s. bru_priority r \<ge> bru_priority s) ?ys"
  proof (cases "1 < length ?xs")
    case True
    then show ?thesis by (simp add: sort_rules_by_priority_def sorted_srt)
  next
    case False
    then show ?thesis by (cases "bpo_rules p") (simp_all add: sort_rules_by_priority_def)
  qed
  moreover have "length ?ys = length ?xs" using m by (rule mset_eq_length)
  moreover have "set ?ys = set ?xs" using m by (rule mset_eq_setD)
  ultimately show ?thesis using assms False by (simp add: policy_inv_def bp_policy_add_rule_def BP_MAX_RULES_def)
qed

lemma policy_run_inv:
  "policy_inv p \<Longrightarrow> \<forall>q \<in> set qs. policy_op_ok q \<Longrightarrow> policy_inv (policy_run srt qs p)"
proof (induction qs arbitrary: p)
  case (Cons q qs)
  have "policy_inv (policy_step srt q p)"
  proof (cases q)
    case (PolInit now name allow)
    then show ?thesis using Cons.prems by (cases name) (simp_all add: bp_policy_init_def policy_inv_def)
  qed (use Cons.prems policy_inv_add policy_inv_remove policy_inv_enable in \<open>simp_all add: policy_op_ok_def\<close>)
  then show ?case using Cons by (simp add: policy_run_def)
qed (simp add: policy_run_def)

end

text \<open>A stable sort meets the contract.\<close>

definition rules_qsort :: rule_sort where
  "rules_qsort rs = sort_key (\<lambda>r. - int (unat (bru_priority r))) rs"

interpretation rq: policy_sort rules_qsort
proof
  fix rs
  show "mset (rules_qsort rs) = mset rs" by (simp add: rules_qsort_def)
  have "sorted (map (\<lambda>r. - int (unat (bru_priority r))) (rules_qsort rs))" by (simp add: rules_qsort_def)
  then show "sorted_wrt (\<lambda>r s. bru_priority r \<ge> bru_priority s) (rules_qsort rs)"
    by (simp add: sorted_wrt_map word_le_def)
qed

section \<open>What the templates decide\<close>

lemma value_string_signer:
  assumes "0 \<notin> set s"
  shows "value_string (bco_value (signer_condition s)) = take 63 s"
proof -
  have n: "\<forall>b \<in> set (take 63 s). b \<noteq> 0" using assms set_take_subset [of 63 s] by auto
  have "takeWhile (\<lambda>b. b \<noteq> 0) (take 63 s @ 0 # r) = take 63 s" for r using n by (simp add: takeWhile_append2)
  then show ?thesis by (simp add: value_string_def signer_condition_def BP_MAX_NAME_LEN_def blit_def)
qed

lemma signer_condition_eq:
  assumes "0 \<notin> set s"
  shows "evaluate_condition (signer_condition s) ctx
    \<longleftrightarrow> (case bec_signer_name ctx of Some n \<Rightarrow> take 63 s = take 64 n | None \<Rightarrow> False)"
  using value_string_signer [OF assms]
  by (simp add: evaluate_condition_def condition_value_def name_equal_def BP_MAX_NAME_LEN_def signer_condition_def zero_condition_def
      split: option.splits)

lemma le32_at_rev: "le32_at (blit (zeros 64) 0 (rev (be32_bytes v))) 0 = v"
  by (simp add: le32_at_def blit_def be32_bytes_def)

lemma version_condition_eq: "evaluate_condition (version_condition v) ctx \<longleftrightarrow> bec_image_version ctx \<ge> v"
  by (simp add: evaluate_condition_def condition_value_def version_condition_def zero_condition_def value_u32_def le32_at_rev)

lemma hash_condition_eq:
  "evaluate_condition (zero_condition\<lparr>bco_cond_type := BP_COND_HASH\<rparr>) ctx \<longleftrightarrow> bec_image_hash ctx = Some (zeros 32)"
  by (auto simp: evaluate_condition_def condition_value_def zero_condition_def split: option.splits)

lemma template_rule_simps [simp]:
  "bru_operator (template_rule nm ds op pr rid cs) = op" "bru_rule_id (template_rule nm ds op pr rid cs) = rid"
  "bru_priority (template_rule nm ds op pr rid cs) = pr" "bru_enabled (template_rule nm ds op pr rid cs)"
  by (simp_all add: template_rule_def)

lemma template_rule_conditions:
  "length cs \<le> 8 \<Longrightarrow> take (unat (bru_condition_count (template_rule nm ds op pr rid cs)))
     (bru_conditions (template_rule nm ds op pr rid cs)) = cs"
  "length cs \<le> 8 \<Longrightarrow> rule_wf (template_rule nm ds op pr rid cs)"
  using unat_of_nat_u32 [of "length cs"] by (simp_all add: template_rule_def zero_policy_rule_def rule_wf_def BP_MAX_SIGNERS_def)

context policy_sort
begin

text \<open>Rules in strictly falling priority stay as they are.\<close>

lemma srt_falling:
  assumes "sorted_wrt (\<lambda>r s. bru_priority r > bru_priority s) rs"
  shows "srt rs = rs"
proof -
  let ?f = "\<lambda>r. - uint (bru_priority r)"
  have f: "sorted (map ?f rs) \<and> distinct (map ?f rs)"
  proof -
    have "sorted_wrt (<) (map ?f rs)" using assms by (simp add: sorted_wrt_map word_less_def)
    then show ?thesis by (simp add: strict_sorted_iff)
  qed
  have s: "sorted (map ?f (srt rs))" using sorted_srt [of rs] by (simp add: sorted_wrt_map word_le_def)
  have e: "set (srt rs) = set rs" using mset_srt by (metis set_mset_mset)
  have d: "distinct (map ?f (srt rs))" using f distinct_mset_map [OF mset_srt, of ?f rs] by simp
  have "inj_on ?f (set rs)" using f by (simp add: distinct_map)
  then show ?thesis using map_sorted_distinct_set_unique [of ?f "srt rs" rs] f s e d by simp
qed

lemma add_template_falling:
  assumes "sorted_wrt (\<lambda>r s. bru_priority r > bru_priority s) (bpo_rules p @ [r])"
    and "length (bpo_rules p) < 32" and "\<forall>x \<in> set (bpo_rules p). bru_rule_id x \<noteq> bru_rule_id r"
  shows "bpo_rules (add_template srt now r p) = bpo_rules p @ [r]"
    and "bpo_default_allow (add_template srt now r p) = bpo_default_allow p"
proof -
  have n: "\<not> (\<exists>x \<in> set (bpo_rules p). bru_rule_id x = bru_rule_id r)" using assms(3) by blast
  show "bpo_rules (add_template srt now r p) = bpo_rules p @ [r]"
    and "bpo_default_allow (add_template srt now r p) = bpo_default_allow p"
    using assms(2) n srt_falling [OF assms(1)]
    by (simp_all add: add_template_def bp_policy_add_rule_def BP_MAX_RULES_def sort_rules_by_priority_def)
qed

lemma standard_policy_rules:
  "bpo_rules (fst (bp_create_standard_sb_policy srt clock p)) =
     [template_rule ''db-whitelist'' ''Allow if signed by trusted signer OR hash whitelisted'' BP_OP_ANY_OF 100 1
        [signer_condition (str_bytes ''OEM-SecureBoot-Signer''), zero_condition\<lparr>bco_cond_type := BP_COND_HASH\<rparr>],
      template_rule ''dbx-blacklist'' ''Deny if image hash is in forbidden signature database'' BP_OP_NOT 90 2
        [zero_condition\<lparr>bco_cond_type := BP_COND_HASH\<rparr>],
      template_rule ''anti-rollback'' ''Deny if image version is below minimum allowed'' BP_OP_NOT 80 3 [version_condition 1]]"
  "\<not> bpo_default_allow (fst (bp_create_standard_sb_policy srt clock p))"
  by (simp_all add: bp_create_standard_sb_policy_def bp_policy_init_def Let_def add_template_falling)

lemma recovery_policy_rules:
  "bpo_rules (fst (bp_create_recovery_policy srt clock p)) =
     [template_rule ''recovery-access'' ''Allow recovery-signed images or setup-mode operations'' BP_OP_ANY_OF 100 1
        [signer_condition (str_bytes ''OEM-Recovery-Signer''), zero_condition\<lparr>bco_cond_type := BP_COND_SETUP_MODE\<rparr>],
      template_rule ''recovery-oem'' ''Allow OEM-signed images in recovery mode'' BP_OP_ALL_OF 50 2
        [zero_condition\<lparr>bco_cond_type := BP_COND_RECOVERY_MODE\<rparr>, signer_condition (str_bytes ''OEM-SecureBoot-Signer'')]]"
  "bpo_default_allow (fst (bp_create_recovery_policy srt clock p))"
  by (simp_all add: bp_create_recovery_policy_def bp_policy_init_def Let_def add_template_falling)

lemma enterprise_policy_rules:
  "bpo_rules (fst (bp_create_enterprise_policy srt clock p (Some ent) v)) =
     [template_rule ''enterprise-primary'' ''Allow enterprise-signed images meeting minimum version'' BP_OP_ALL_OF 100 1
        [signer_condition ent, version_condition v],
      template_rule ''oem-fallback'' ''Fallback: allow OEM-signed images if SB is enabled'' BP_OP_ALL_OF 50 2
        [signer_condition (str_bytes ''OEM-SecureBoot-Signer''),
         zero_condition\<lparr>bco_cond_type := BP_COND_SECURE_BOOT_ENABLED\<rparr>]]"
  "\<not> bpo_default_allow (fst (bp_create_enterprise_policy srt clock p (Some ent) v))"
  by (simp_all add: bp_create_enterprise_policy_def bp_policy_init_def Let_def add_template_falling)

end

lemma template_sat:
  assumes "length cs \<le> 8"
  shows "rule_sat (template_rule nm ds BP_OP_ANY_OF pr rid cs) ctx \<longleftrightarrow> (\<exists>c \<in> set cs. evaluate_condition c ctx)"
    and "rule_sat (template_rule nm ds BP_OP_ALL_OF pr rid cs) ctx \<longleftrightarrow> (\<forall>c \<in> set cs. evaluate_condition c ctx)"
    and "rule_sat (template_rule nm ds BP_OP_NOT pr rid cs) ctx \<longleftrightarrow> cs \<noteq> [] \<and> \<not> evaluate_condition (hd cs) ctx"
  using template_rule_conditions(1) [OF assms] by (auto simp: rule_sat_def Let_def hd_map)

lemma signer_condition_short:
  assumes "0 \<notin> set s" and "length s < 63"
  shows "evaluate_condition (signer_condition s) ctx \<longleftrightarrow> bec_signer_name ctx = Some s"
proof -
  have "s = take 64 n \<longleftrightarrow> s = n" for n using assms(2) by (cases "length n \<le> 64") auto
  then show ?thesis using signer_condition_eq [OF assms(1), of ctx] assms(2) by (auto split: option.splits)
qed

lemma flag_conditions [simp]:
  "evaluate_condition (zero_condition\<lparr>bco_cond_type := BP_COND_SETUP_MODE\<rparr>) ctx = bec_setup_mode ctx"
  "evaluate_condition (zero_condition\<lparr>bco_cond_type := BP_COND_RECOVERY_MODE\<rparr>) ctx = bec_recovery_mode ctx"
  "evaluate_condition (zero_condition\<lparr>bco_cond_type := BP_COND_SECURE_BOOT_ENABLED\<rparr>) ctx = bec_secure_boot_enabled ctx"
  by (simp_all add: evaluate_condition_def condition_value_def zero_condition_def)

definition oem_signer :: bytes where
  "oem_signer = str_bytes ''OEM-SecureBoot-Signer''"

lemma oem_condition: "evaluate_condition (signer_condition (str_bytes ''OEM-SecureBoot-Signer'')) ctx \<longleftrightarrow> bec_signer_name ctx = Some oem_signer"
  unfolding oem_signer_def by (rule signer_condition_short) (simp_all add: str_bytes_def)

context policy_sort
begin

lemma standard_policy_verdict:
  "\<exists>out. bp_policy_evaluate (Some (fst (bp_create_standard_sb_policy srt clock p))) (Some ctx) = Returned out
    \<and> beo_result out = (if bec_signer_name ctx = Some oem_signer \<or> bec_image_hash ctx = Some (zeros 32)
        then BP_RESULT_ALLOW else BP_RESULT_DENY)"
proof -
  let ?p = "fst (bp_create_standard_sb_policy srt clock p)"
  have w: "\<forall>r \<in> set (bpo_rules ?p). rule_wf r" by (simp add: standard_policy_rules template_rule_conditions)
  show ?thesis
    using policy_verdict [OF w, of ctx]
    by (auto simp: standard_policy_rules deciding_rule_def template_sat oem_condition hash_condition_eq denies_def)
qed

lemma recovery_policy_verdict:
  "\<exists>out. bp_policy_evaluate (Some (fst (bp_create_recovery_policy srt clock p))) (Some ctx) = Returned out
    \<and> beo_result out = BP_RESULT_ALLOW"
proof -
  let ?p = "fst (bp_create_recovery_policy srt clock p)"
  have w: "\<forall>r \<in> set (bpo_rules ?p). rule_wf r" by (simp add: recovery_policy_rules template_rule_conditions)
  show ?thesis
    using policy_verdict [OF w, of ctx] by (auto simp: recovery_policy_rules deciding_rule_def denies_def)
qed

lemma enterprise_policy_verdict:
  assumes "0 \<notin> set ent" and "length ent < 63"
  shows "\<exists>out. bp_policy_evaluate (Some (fst (bp_create_enterprise_policy srt clock p (Some ent) v))) (Some ctx) = Returned out
    \<and> beo_result out = (if bec_signer_name ctx = Some ent \<and> bec_image_version ctx \<ge> v
          \<or> bec_signer_name ctx = Some oem_signer \<and> bec_secure_boot_enabled ctx
        then BP_RESULT_ALLOW else BP_RESULT_DENY)"
proof -
  let ?p = "fst (bp_create_enterprise_policy srt clock p (Some ent) v)"
  have w: "\<forall>r \<in> set (bpo_rules ?p). rule_wf r" by (simp add: enterprise_policy_rules template_rule_conditions)
  show ?thesis
    using policy_verdict [OF w, of ctx] signer_condition_short [OF assms, of ctx]
    by (auto simp: enterprise_policy_rules deciding_rule_def template_sat oem_condition version_condition_eq denies_def)
qed

end

end
