(* ===== verification/Measured_Boot.thy ===== *)
theory Measured_Boot
  imports Sig_Verify Digest
begin

text \<open>
  The measured boot of \<open>mini-secure-boot/src/measured_boot.c\<close>: registers, event log and its
  validation.  The log holds the events in use.  Event types are the 32-bit values of their
  enumeration; C strings are their bytes without the terminator.
\<close>

section \<open>State\<close>

definition MB_MAX_EVENTS :: nat where "MB_MAX_EVENTS = 256"
definition MB_MAX_EVENT_DATA :: nat where "MB_MAX_EVENT_DATA = 1024"
definition MB_MAX_DIGEST_SIZE :: nat where "MB_MAX_DIGEST_SIZE = 48"
definition MB_PCR_COUNT :: nat where "MB_PCR_COUNT = 24"
definition MB_EVENT_LOG_MAGIC :: u32 where "MB_EVENT_LOG_MAGIC = 0x454C4F47"

definition MB_EV_SEPARATOR :: u32 where "MB_EV_SEPARATOR = 4"
definition MB_EV_ACTION :: u32 where "MB_EV_ACTION = 5"
definition MB_EV_S_CRTM_CONTENTS :: u32 where "MB_EV_S_CRTM_CONTENTS = 7"
definition MB_EV_S_CRTM_VERSION :: u32 where "MB_EV_S_CRTM_VERSION = 8"
definition MB_EV_NONHOST_CODE :: u32 where "MB_EV_NONHOST_CODE = 0xF"
definition MB_EV_EFI_VARIABLE_BOOT :: u32 where "MB_EV_EFI_VARIABLE_BOOT = 0x80000002"
definition TCG_ALG_SHA256 :: u32 where "TCG_ALG_SHA256 = 0xB"

record TCGDigest =
  tcd_algorithm_id :: u32
  tcd_digest :: bytes

record MBEvent =
  mev_pcr_index :: u32
  mev_event_type :: u32
  mev_digests :: "TCGDigest list"
  mev_digest_count :: u32
  mev_event_data :: bytes
  mev_event_size :: u32
  mev_event_number :: u32

record MBEventLog =
  mlog_events :: "MBEvent list"
  mlog_magic :: u32
  mlog_finalized :: bool
  mlog_hash_log_extended :: bool

record SRTMContext =
  srtm_current_pcrs :: "bytes list"
  srtm_event_log :: MBEventLog
  srtm_active_pcr_count :: u32
  srtm_complete :: bool

datatype MBState = MB_STATE_PRE_INIT | MB_STATE_CRTM_ACTIVE | MB_STATE_MEASURING | MB_STATE_OS_PRESENT | MB_STATE_ERROR

record MeasuredBoot =
  mbt_srtm :: SRTMContext
  mbt_state :: MBState
  mbt_crtm_version :: bytes
  mbt_drtm_supported :: bool
  mbt_locality_3_available :: bool

definition zero_digest :: TCGDigest where
  "zero_digest = \<lparr>tcd_algorithm_id = 0, tcd_digest = zeros MB_MAX_DIGEST_SIZE\<rparr>"

definition zero_mb_event :: MBEvent where
  "zero_mb_event = \<lparr>mev_pcr_index = 0, mev_event_type = 0, mev_digests = replicate 4 zero_digest, mev_digest_count = 0,
     mev_event_data = zeros MB_MAX_EVENT_DATA, mev_event_size = 0, mev_event_number = 0\<rparr>"

section \<open>Registers and log\<close>

definition pcr_extend_sha256 :: "bytes \<Rightarrow> bytes \<Rightarrow> bytes" where
  "pcr_extend_sha256 pcr_value event_digest = sv_sha256_hash (take 32 pcr_value @ take 32 event_digest)"

definition mb_event_log_append :: "MBEventLog \<Rightarrow> MBEvent option \<Rightarrow> MBEventLog \<times> bool" where
  "mb_event_log_append log event =
     (case event of None \<Rightarrow> (log, False)
      | Some e \<Rightarrow>
          if mlog_finalized log then (log, False)
          else if length (mlog_events log) \<ge> MB_MAX_EVENTS then (log, False)
          else (log\<lparr>mlog_events := mlog_events log @ [e\<lparr>mev_event_number := of_nat (length (mlog_events log))\<rparr>]\<rparr>, True))"

definition mb_event_log_get :: "MBEventLog \<Rightarrow> u32 \<Rightarrow> MBEvent option" where
  "mb_event_log_get log event_number =
     (if unat event_number \<ge> length (mlog_events log) then None else Some (mlog_events log ! unat event_number))"

text \<open>The event every measurement builds: one SHA-256 digest and the data that describes it.\<close>

definition one_digest_event :: "u32 \<Rightarrow> u32 \<Rightarrow> bytes \<Rightarrow> bytes \<Rightarrow> u32 \<Rightarrow> MBEvent" where
  "one_digest_event pcr_index event_type digest data n =
     (let d0 = zero_digest\<lparr>tcd_algorithm_id := TCG_ALG_SHA256, tcd_digest := blit (tcd_digest zero_digest) 0 digest\<rparr>
      in zero_mb_event\<lparr>mev_pcr_index := pcr_index, mev_event_type := event_type, mev_digest_count := 1,
                    mev_digests := (mev_digests zero_mb_event)[0 := d0],
                    mev_event_data := blit (mev_event_data zero_mb_event) 0 data,
                    mev_event_size := of_nat (length data), mev_event_number := n\<rparr>)"

text \<open>Extend a register, then append the event; the register keeps its new value when the log is full.\<close>

definition extend_register :: "MeasuredBoot \<Rightarrow> u32 \<Rightarrow> bytes \<Rightarrow> MeasuredBoot" where
  "extend_register mb i digest =
     (let s = mbt_srtm mb; v = srtm_current_pcrs s ! unat i
      in mb\<lparr>mbt_srtm := s\<lparr>srtm_current_pcrs := (srtm_current_pcrs s)[unat i := pcr_extend_sha256 v digest]\<rparr>\<rparr>)"

definition append_event :: "MeasuredBoot \<Rightarrow> MBEvent \<Rightarrow> MeasuredBoot \<times> bool" where
  "append_event mb e =
     (let s = mbt_srtm mb; (log, ok) = mb_event_log_append (srtm_event_log s) (Some e)
      in (mb\<lparr>mbt_srtm := s\<lparr>srtm_event_log := log\<rparr>\<rparr>, ok))"

definition event_count :: "MeasuredBoot \<Rightarrow> u32" where
  "event_count mb = of_nat (length (mlog_events (srtm_event_log (mbt_srtm mb))))"

section \<open>Measurements\<close>

text \<open>
  The version is 16 bytes; when its stated length is above that, the event data is read beyond
  it.  The second message is measured with its terminator.
\<close>

definition mb_init :: "bytes option \<Rightarrow> u32 \<Rightarrow> MeasuredBoot c_result" where
  "mb_init crtm_version crtm_version_len =
     (let ver = (case crtm_version of
                   Some v \<Rightarrow> if 0 < crtm_version_len \<and> crtm_version_len < 16 then take (unat crtm_version_len) v
                             else str_bytes ''CRTM-v1.0''
                 | None \<Rightarrow> str_bytes ''CRTM-v1.0'');
          mb0 = \<lparr>mbt_srtm = \<lparr>srtm_current_pcrs = replicate MB_PCR_COUNT (zeros 32),
                   srtm_event_log = \<lparr>mlog_events = [], mlog_magic = MB_EVENT_LOG_MAGIC, mlog_finalized = False,
                                     mlog_hash_log_extended = False\<rparr>,
                   srtm_active_pcr_count = of_nat MB_PCR_COUNT, srtm_complete = False\<rparr>,
                 mbt_state = MB_STATE_PRE_INIT, mbt_crtm_version = blit (zeros 16) 0 ver,
                 mbt_drtm_supported = False, mbt_locality_3_available = False\<rparr>;
          event_size = (if unat crtm_version_len < MB_MAX_EVENT_DATA then unat crtm_version_len else MB_MAX_EVENT_DATA)
      in if event_size > 16 then Undefined
         else let data1 = take event_size (mbt_crtm_version mb0);
                  d1 = sv_sha256_hash data1;
                  mb1 = fst (append_event (extend_register mb0 0 d1) (one_digest_event 0 MB_EV_S_CRTM_VERSION d1 data1 0));
                  data2 = str_bytes ''CRTM Boot Block V1.0 (Immutable)'' @ [0];
                  d2 = sv_sha256_hash data2;
                  mb2 = fst (append_event (extend_register mb1 0 d2) (one_digest_event 0 MB_EV_S_CRTM_CONTENTS d2 data2 1))
              in Returned (mb2\<lparr>mbt_state := MB_STATE_CRTM_ACTIVE\<rparr>))"

definition mb_measure_firmware ::
  "MeasuredBoot \<Rightarrow> u32 \<Rightarrow> u32 \<Rightarrow> bytes option \<Rightarrow> bytes option \<Rightarrow> MeasuredBoot \<times> bool" where
  "mb_measure_firmware mb pcr_index event_type firmware_data description =
     (case (firmware_data, description) of
        (Some d, Some desc) \<Rightarrow>
          if unat pcr_index \<ge> MB_PCR_COUNT then (mb, False)
          else if mbt_state mb = MB_STATE_PRE_INIT then (mb, False)
          else let digest = sv_sha256_hash d;
                   desc_len = (if length desc \<ge> MB_MAX_EVENT_DATA then MB_MAX_EVENT_DATA - 1 else length desc);
                   event = one_digest_event pcr_index event_type digest (take desc_len desc) (event_count mb);
                   (mb1, ok) = append_event (extend_register mb pcr_index digest) event
               in if \<not> ok then (mb1, False) else (mb1\<lparr>mbt_state := MB_STATE_MEASURING\<rparr>, True)
      | _ \<Rightarrow> (mb, False))"

definition mb_measure_boot_variable :: "MeasuredBoot \<Rightarrow> bytes option \<Rightarrow> bytes option \<Rightarrow> MeasuredBoot \<times> bool" where
  "mb_measure_boot_variable mb var_data var_name =
     (if var_data = None \<or> var_name = None then (mb, False)
      else mb_measure_firmware mb 1 MB_EV_EFI_VARIABLE_BOOT var_data var_name)"

definition mb_extend_pcr_with_event :: "MeasuredBoot \<Rightarrow> u32 \<Rightarrow> u32 \<Rightarrow> bytes option \<Rightarrow> MeasuredBoot \<times> bool" where
  "mb_extend_pcr_with_event mb pcr_index event_type digest =
     (case digest of None \<Rightarrow> (mb, False)
      | Some d \<Rightarrow>
          if d = [] then (mb, False)
          else if unat pcr_index \<ge> MB_PCR_COUNT then (mb, False)
          else let hash = (if length d = 32 then d else sv_sha256_hash d);
                   event_size = (if length d < MB_MAX_EVENT_DATA then length d else MB_MAX_EVENT_DATA);
                   event = one_digest_event pcr_index event_type hash (take event_size d) (event_count mb)
               in append_event (extend_register mb pcr_index hash) event)"

section \<open>Validation\<close>

text \<open>The replay: the registers, the last event number and whether an event was seen; \<open>None\<close> for a gap.\<close>

definition replay_event :: "MBEvent \<Rightarrow> (bytes list \<times> u32 \<times> bool) option \<Rightarrow> (bytes list \<times> u32 \<times> bool) option" where
  "replay_event e st =
     (case st of None \<Rightarrow> None
      | Some (pcrs, last_event_number, first_event) \<Rightarrow>
          if \<not> first_event \<and> mev_event_number e \<noteq> last_event_number + 1 then None
          else let pcrs1 = (if unat (mev_pcr_index e) < MB_PCR_COUNT \<and> mev_digest_count e > 0
                            then pcrs[unat (mev_pcr_index e) :=
                                   pcr_extend_sha256 (pcrs ! unat (mev_pcr_index e)) (tcd_digest (mev_digests e ! 0))]
                            else pcrs)
               in Some (pcrs1, mev_event_number e, False))"

definition mb_event_log_validate :: "MBEventLog \<Rightarrow> bytes list option \<Rightarrow> bool" where
  "mb_event_log_validate log expected_pcrs =
     (case expected_pcrs of None \<Rightarrow> False
      | Some expected \<Rightarrow>
          if mlog_magic log \<noteq> MB_EVENT_LOG_MAGIC then False
          else (case fold replay_event (mlog_events log) (Some (replicate MB_PCR_COUNT (zeros 32), 0, True)) of
                  None \<Rightarrow> False
                | Some (pcrs, _, _) \<Rightarrow>
                    (\<forall>i < min (length expected) MB_PCR_COUNT. pcrs ! i = take 32 (expected ! i))))"

definition mb_pcr_validate :: "SRTMContext option \<Rightarrow> bytes list option \<Rightarrow> bool" where
  "mb_pcr_validate srtm golden_pcrs =
     (case srtm of None \<Rightarrow> False
      | Some s \<Rightarrow> if golden_pcrs = None then False else mb_event_log_validate (srtm_event_log s) golden_pcrs)"

definition mb_check_separators :: "MBEventLog option \<Rightarrow> bool" where
  "mb_check_separators log =
     (case log of None \<Rightarrow> False
      | Some l \<Rightarrow> length (filter (\<lambda>e. mev_event_type e = MB_EV_SEPARATOR) (mlog_events l)) \<ge> 2)"

definition mb_get_pcr_value :: "SRTMContext option \<Rightarrow> u32 \<Rightarrow> bytes option" where
  "mb_get_pcr_value srtm pcr_index =
     (case srtm of None \<Rightarrow> None
      | Some s \<Rightarrow> if unat pcr_index \<ge> MB_PCR_COUNT then None else Some (srtm_current_pcrs s ! unat pcr_index))"

section \<open>Late launch\<close>

definition reset_registers :: "nat list \<Rightarrow> MeasuredBoot \<Rightarrow> MeasuredBoot" where
  "reset_registers is mb = mb\<lparr>mbt_srtm := (mbt_srtm mb)\<lparr>srtm_current_pcrs :=
     fold (\<lambda>i pcrs. pcrs[i := zeros 32]) is (srtm_current_pcrs (mbt_srtm mb))\<rparr>\<rparr>"

definition mb_drtm_launch :: "MeasuredBoot \<Rightarrow> MeasuredBoot \<times> bool" where
  "mb_drtm_launch mb =
     (if \<not> mbt_drtm_supported mb then (mb, False)
      else let mb1 = reset_registers [17..<23] mb;
               data = str_bytes ''DRTM Late Launch (GETSEC/SENTER)'' @ [0];
               digest = sv_sha256_hash data;
               event = one_digest_event 17 MB_EV_ACTION digest data (event_count mb1)
           in (fst (append_event (extend_register mb1 17 digest) event), True))"

definition mb_drtm_measure :: "MeasuredBoot \<Rightarrow> bytes option \<Rightarrow> MeasuredBoot \<times> bool" where
  "mb_drtm_measure mb mle_data =
     (case mle_data of None \<Rightarrow> (mb, False)
      | Some d \<Rightarrow> if d = [] then (mb, False)
                 else mb_measure_firmware mb 18 MB_EV_NONHOST_CODE mle_data
                        (Some (str_bytes ''DRTM Measured Launch Environment (MLE)'')))"

section \<open>Names\<close>

definition mb_event_names :: "(u32 \<times> string) list" where
  "mb_event_names =
     [(0x0, ''PREBOOT_CERT''),
      (0x1, ''POST_CODE''),
      (0x3, ''NO_ACTION''),
      (0x4, ''SEPARATOR''),
      (0x5, ''ACTION''),
      (0x7, ''S_CRTM_CONTENTS''),
      (0x8, ''S_CRTM_VERSION''),
      (0x9, ''CPU_MICROCODE''),
      (0xA, ''PLATFORM_CONFIG_FLAGS''),
      (0xB, ''TABLE_OF_DEVICES''),
      (0xC, ''COMPACT_HASH''),
      (0xD, ''IPL''),
      (0xF, ''NONHOST_CODE''),
      (0x10, ''NONHOST_CONFIG''),
      (0x11, ''NONHOST_INFO''),
      (0x80000001, ''EFI_VARIABLE_DRIVER_CONFIG''),
      (0x80000002, ''EFI_VARIABLE_BOOT''),
      (0x80000003, ''EFI_BOOT_SERVICES_APP''),
      (0x80000004, ''EFI_BOOT_SERVICES_DRIVER''),
      (0x80000005, ''EFI_RUNTIME_SERVICES_DRIVER''),
      (0x80000006, ''EFI_GPT_EVENT''),
      (0x80000007, ''EFI_ACTION''),
      (0x80000008, ''EFI_PLATFORM_FIRMWARE_BLOB''),
      (0x80000009, ''EFI_HANDOFF_TABLES''),
      (0x8000000A, ''EFI_PLATFORM_FW_BLOB2''),
      (0x8000000B, ''EFI_HANDOFF_TABLES2''),
      (0x8000000C, ''EFI_VARIABLE_BOOT2''),
      (0x80000000, ''EFI_EVENT_BASE'')]"

definition mb_event_type_str :: "u32 \<Rightarrow> string" where
  "mb_event_type_str t = (case map_of mb_event_names t of None \<Rightarrow> ''UNKNOWN'' | Some s \<Rightarrow> s)"

section \<open>The log explains the registers\<close>

definition mb_pcr_put :: "bytes list \<Rightarrow> nat \<Rightarrow> bytes \<Rightarrow> bytes list" where
  "mb_pcr_put vs i d = (if i < 24 then vs[i := pcr_extend_sha256 (vs ! i) d] else vs)"

definition mb_pcrs_wf :: "bytes list \<Rightarrow> bool" where
  "mb_pcrs_wf vs \<longleftrightarrow> length vs = 24 \<and> (\<forall>v \<in> set vs. length v = 32)"

interpretation mbpcrs: registers sv_sha256_hash mb_pcr_put "(!)" mb_pcrs_wf "take 32" "\<lambda>d. 32 \<le> length d"
  by unfold_locales
    (auto simp: mb_pcr_put_def mb_pcrs_wf_def pcr_extend_sha256_def length_sv_sha256_hash
          dest: set_update_subset_insert [THEN subsetD])

lemma mb_pcrs_wf_init [simp]: "mb_pcrs_wf (replicate MB_PCR_COUNT (zeros 32))"
  by (simp add: mb_pcrs_wf_def MB_PCR_COUNT_def)

definition mb_entries :: "MBEventLog \<Rightarrow> (nat \<times> bytes) list" where
  "mb_entries log = map (\<lambda>e. (unat (mev_pcr_index e), tcd_digest (mev_digests e ! 0))) (mlog_events log)"

definition mb_replay :: "MBEventLog \<Rightarrow> bytes list" where
  "mb_replay log = fold (\<lambda>(i, d) vs. mb_pcr_put vs i d) (mb_entries log) (replicate MB_PCR_COUNT (zeros 32))"

definition mb_event_wf :: "MBEvent \<Rightarrow> bool" where
  "mb_event_wf e \<longleftrightarrow> unat (mev_pcr_index e) < 24 \<and> mev_digest_count e > 0 \<and> 32 \<le> length (tcd_digest (mev_digests e ! 0))"

definition mb_log_wf :: "MBEventLog \<Rightarrow> bool" where
  "mb_log_wf log \<longleftrightarrow> mlog_magic log = MB_EVENT_LOG_MAGIC \<and> length (mlog_events log) \<le> 256
     \<and> (\<forall>i < length (mlog_events log). mev_event_number (mlog_events log ! i) = of_nat i \<and> mb_event_wf (mlog_events log ! i))"

lemma replay_events:
  assumes "\<forall>i < length es. mev_event_number (es ! i) = of_nat i \<and> mb_event_wf (es ! i)"
  shows "fold replay_event es (Some (vs, 0, True)) = Some
    (fold (\<lambda>(i, d) vs. mb_pcr_put vs i d) (map (\<lambda>e. (unat (mev_pcr_index e), tcd_digest (mev_digests e ! 0))) es) vs,
     of_nat (length es - 1), es = [])"
  using assms
proof (induction es rule: rev_induct)
  case (snoc e es)
  have "\<forall>i < length es. mev_event_number (es ! i) = of_nat i \<and> mb_event_wf (es ! i)"
    using snoc.prems by (auto simp: nth_append split: if_splits)
  note IH = snoc.IH [OF this]
  have e: "mev_event_number e = of_nat (length es)" "mb_event_wf e" using snoc.prems by (auto simp: nth_append)
  have n: "es \<noteq> [] \<Longrightarrow> of_nat (length es) = (of_nat (length es - 1) + 1 :: u32)"
    by (cases es) (simp_all add: add.commute)
  show ?case
    using IH e n by (cases "es = []") (auto simp: replay_event_def mb_pcr_put_def mb_event_wf_def MB_PCR_COUNT_def)
qed simp

lemma mb_validate_eq:
  assumes "mb_log_wf log"
  shows "mb_event_log_validate log (Some expected)
    \<longleftrightarrow> (\<forall>i < min (length expected) 24. mb_replay log ! i = take 32 (expected ! i))"
proof -
  have a: "\<forall>i < length (mlog_events log). mev_event_number (mlog_events log ! i) = of_nat i \<and> mb_event_wf (mlog_events log ! i)"
    and m: "mlog_magic log = MB_EVENT_LOG_MAGIC"
    using assms by (simp_all add: mb_log_wf_def)
  show ?thesis
    unfolding mb_event_log_validate_def option.case m replay_events [OF a] mb_replay_def mb_entries_def MB_PCR_COUNT_def
    by simp
qed

lemma mb_replay_reg:
  assumes "mb_log_wf log" and "j < 24"
  shows "mb_replay log ! j = chain sv_sha256_hash (zeros 32) (map (take 32 \<circ> snd) (filter (\<lambda>(i, d). i = j) (mb_entries log)))"
proof -
  have "\<forall>(i, d) \<in> set (mb_entries log). 32 \<le> length d"
    using assms(1) by (auto simp: mb_entries_def mb_log_wf_def mb_event_wf_def in_set_conv_nth)
  then show ?thesis
    using mbpcrs.reg_replay [OF mb_pcrs_wf_init assms(2), of "mb_entries log"] assms(2)
    by (simp add: mb_replay_def MB_PCR_COUNT_def)
qed

section \<open>Runs\<close>

text \<open>The log and the registers agree, and there has been no late launch.\<close>

definition mb_inv :: "MeasuredBoot \<Rightarrow> bool" where
  "mb_inv mb \<longleftrightarrow> (let s = mbt_srtm mb; log = srtm_event_log s in
     mb_log_wf log \<and> \<not> mlog_finalized log \<and> srtm_current_pcrs s = mb_replay log
     \<and> \<not> mbt_drtm_supported mb)"

abbreviation mb_count :: "MeasuredBoot \<Rightarrow> nat" where
  "mb_count mb \<equiv> length (mlog_events (srtm_event_log (mbt_srtm mb)))"

lemma one_digest_event_wf:
  assumes "unat i < 24" and "length d = 32"
  shows "mb_event_wf (one_digest_event i ty d data n)"
    and "mev_pcr_index (one_digest_event i ty d data n) = i"
    and "take 32 (tcd_digest (mev_digests (one_digest_event i ty d data n) ! 0)) = d"
  using assms
  by (simp_all add: mb_event_wf_def one_digest_event_def Let_def zero_mb_event_def zero_digest_def MB_MAX_DIGEST_SIZE_def blit_def)

lemma mb_extend_append:
  fixes mb :: MeasuredBoot and i ty n :: u32 and d data :: bytes
  assumes "mb_inv mb" and "mb_count mb < 256" and "unat i < 24" and "length d = 32"
  defines "r \<equiv> append_event (extend_register mb i d) (one_digest_event i ty d data n)"
  shows "mb_inv (fst r)" and "snd r" and "mb_count (fst r) = Suc (mb_count mb)" and "mbt_state (fst r) = mbt_state mb"
proof -
  let ?log = "srtm_event_log (mbt_srtm mb)"
  let ?e = "(one_digest_event i ty d data n)\<lparr>mev_event_number := of_nat (length (mlog_events ?log))\<rparr>"
  let ?log' = "?log\<lparr>mlog_events := mlog_events ?log @ [?e]\<rparr>"
  have wf: "mb_log_wf ?log" "\<not> mlog_finalized ?log" "srtm_current_pcrs (mbt_srtm mb) = mb_replay ?log"
    using assms(1) by (simp_all add: mb_inv_def Let_def)
  have e: "mb_event_wf ?e" "take 32 (tcd_digest (mev_digests ?e ! 0)) = d" "mev_pcr_index ?e = i"
    using one_digest_event_wf [OF assms(3,4)] by (simp_all add: mb_event_wf_def)
  have a: "mb_event_log_append ?log (Some (one_digest_event i ty d data n)) = (?log', True)"
    using wf(2) assms(2) by (simp add: mb_event_log_append_def MB_MAX_EVENTS_def)
  have w': "mb_log_wf ?log'" using wf(1) assms(2) e(1) by (auto simp: mb_log_wf_def nth_append less_Suc_eq)
  have "mb_replay ?log' = mb_pcr_put (mb_replay ?log) (unat i) (tcd_digest (mev_digests ?e ! 0))"
    by (simp add: mb_replay_def mb_entries_def e(3))
  then have p: "mb_replay ?log' = (mb_replay ?log)[unat i := pcr_extend_sha256 (mb_replay ?log ! unat i) d]"
    using assms(3,4) e(2) by (simp add: mb_pcr_put_def pcr_extend_sha256_def)
  show "mb_inv (fst r)" "snd r" "mb_count (fst r) = Suc (mb_count mb)" "mbt_state (fst r) = mbt_state mb"
    using assms(1) wf a w' p by (simp_all add: r_def append_event_def extend_register_def Let_def mb_inv_def)
qed

datatype mb_op = MbMeasure u32 u32 "bytes option" "bytes option" | MbVariable "bytes option" "bytes option"
  | MbExtend u32 u32 "bytes option" | MbLaunch | MbDrtmMeasure "bytes option"

fun mb_step :: "mb_op \<Rightarrow> MeasuredBoot \<Rightarrow> MeasuredBoot" where
  "mb_step (MbMeasure i ty d desc) mb = fst (mb_measure_firmware mb i ty d desc)"
| "mb_step (MbVariable d nm) mb = fst (mb_measure_boot_variable mb d nm)"
| "mb_step (MbExtend i ty d) mb = fst (mb_extend_pcr_with_event mb i ty d)"
| "mb_step MbLaunch mb = fst (mb_drtm_launch mb)"
| "mb_step (MbDrtmMeasure d) mb = fst (mb_drtm_measure mb d)"

definition mb_run :: "mb_op list \<Rightarrow> MeasuredBoot \<Rightarrow> MeasuredBoot" where
  "mb_run ps mb = fold mb_step ps mb"

lemma mb_measure_inv:
  assumes "mb_inv mb" and "mb_count mb < 256"
  shows "mb_inv (fst (mb_measure_firmware mb i ty d desc)) \<and> mb_count (fst (mb_measure_firmware mb i ty d desc)) \<le> Suc (mb_count mb)"
proof (cases "d = None \<or> desc = None \<or> unat i \<ge> 24 \<or> mbt_state mb = MB_STATE_PRE_INIT")
  case True
  then show ?thesis using assms by (auto simp: mb_measure_firmware_def MB_PCR_COUNT_def split: option.splits)
next
  case False
  then obtain dd de where d: "d = Some dd" "desc = Some de" and i: "unat i < 24" by auto
  let ?n = "if length de \<ge> MB_MAX_EVENT_DATA then MB_MAX_EVENT_DATA - 1 else length de"
  note x = mb_extend_append [OF assms i length_sv_sha256_hash [of dd], where ty=ty and data="take ?n de" and n="event_count mb"]
  obtain mb1 where r: "append_event (extend_register mb i (sv_sha256_hash dd))
      (one_digest_event i ty (sv_sha256_hash dd) (take ?n de) (event_count mb)) = (mb1, True)"
    using x(2) by (metis prod.collapse)
  have "fst (mb_measure_firmware mb i ty d desc) = mb1\<lparr>mbt_state := MB_STATE_MEASURING\<rparr>"
    using False d i r by (simp add: mb_measure_firmware_def MB_PCR_COUNT_def)
  then show ?thesis using x r by (simp add: mb_inv_def)
qed

lemma mb_step_inv:
  assumes "mb_inv mb" and "mb_count mb < 256"
  shows "mb_inv (mb_step p mb) \<and> mb_count (mb_step p mb) \<le> Suc (mb_count mb)"
proof (cases p)
  case (MbExtend i ty d)
  show ?thesis
  proof (cases "d = None \<or> d = Some [] \<or> unat i \<ge> 24")
    case True
    then show ?thesis using assms MbExtend by (auto simp: mb_extend_pcr_with_event_def MB_PCR_COUNT_def split: option.splits)
  next
    case False
    then obtain dd where d: "d = Some dd" "dd \<noteq> []" and i: "unat i < 24" by auto
    define hh where "hh = (if length dd = 32 then dd else sv_sha256_hash dd)"
    define ed where "ed = take (if length dd < MB_MAX_EVENT_DATA then length dd else MB_MAX_EVENT_DATA) dd"
    have "mb_extend_pcr_with_event mb i ty d = append_event (extend_register mb i hh) (one_digest_event i ty hh ed (event_count mb))"
      unfolding hh_def ed_def using d i by (simp add: mb_extend_pcr_with_event_def MB_PCR_COUNT_def Let_def)
    moreover have "length hh = 32" by (simp add: hh_def length_sv_sha256_hash)
    ultimately show ?thesis
      using mb_extend_append [OF assms i, where d=hh and ty=ty and data=ed and n="event_count mb"] MbExtend by simp
  qed
next
  case MbLaunch
  then show ?thesis using assms by (simp add: mb_drtm_launch_def mb_inv_def Let_def)
qed (use assms mb_measure_inv [OF assms] in \<open>auto simp: mb_measure_boot_variable_def mb_drtm_measure_def split: option.splits\<close>)

lemma mb_run_inv:
  "mb_inv mb \<Longrightarrow> mb_count mb + length ps \<le> 256 \<Longrightarrow> mb_inv (mb_run ps mb)"
proof (induction ps arbitrary: mb)
  case (Cons p ps)
  then have s: "mb_inv (mb_step p mb)" "mb_count (mb_step p mb) \<le> Suc (mb_count mb)" using mb_step_inv [of mb p] by simp_all
  then show ?case using Cons.IH [of "mb_step p mb"] Cons.prems(2) by (simp add: mb_run_def)
qed (simp add: mb_run_def)

lemma mb_init_inv:
  assumes "unat n \<le> 16"
  shows "\<exists>mb. mb_init v n = Returned mb \<and> mb_inv mb \<and> mb_count mb = 2 \<and> mbt_state mb = MB_STATE_CRTM_ACTIVE"
proof -
  define ver where "ver = (case v of
      Some v \<Rightarrow> if 0 < n \<and> n < 16 then take (unat n) v else str_bytes ''CRTM-v1.0'' | None \<Rightarrow> str_bytes ''CRTM-v1.0'')"
  define mb0 where "mb0 = \<lparr>mbt_srtm = \<lparr>srtm_current_pcrs = replicate MB_PCR_COUNT (zeros 32),
      srtm_event_log = \<lparr>mlog_events = [], mlog_magic = MB_EVENT_LOG_MAGIC, mlog_finalized = False, mlog_hash_log_extended = False\<rparr>,
      srtm_active_pcr_count = of_nat MB_PCR_COUNT, srtm_complete = False\<rparr>,
    mbt_state = MB_STATE_PRE_INIT, mbt_crtm_version = blit (zeros 16) 0 ver, mbt_drtm_supported = False, mbt_locality_3_available = False\<rparr>"
  have i0: "mb_inv mb0" "mb_count mb0 = 0"
    by (simp_all add: mb0_def mb_inv_def mb_log_wf_def mb_replay_def mb_entries_def)
  define d1 where "d1 = take (unat n) (mbt_crtm_version mb0)"
  define mb1 where "mb1 = fst (append_event (extend_register mb0 0 (sv_sha256_hash d1))
      (one_digest_event 0 MB_EV_S_CRTM_VERSION (sv_sha256_hash d1) d1 0))"
  have i1: "mb_inv mb1" "mb_count mb1 = 1"
    using mb_extend_append [OF i0(1) _ _ length_sv_sha256_hash [of d1], where i=0 and ty=MB_EV_S_CRTM_VERSION and data=d1 and n=0] i0(2) by (simp_all add: mb1_def)
  define d2 where "d2 = str_bytes ''CRTM Boot Block V1.0 (Immutable)'' @ [0]"
  define mb2 where "mb2 = fst (append_event (extend_register mb1 0 (sv_sha256_hash d2))
      (one_digest_event 0 MB_EV_S_CRTM_CONTENTS (sv_sha256_hash d2) d2 1))"
  have i2: "mb_inv mb2" "mb_count mb2 = 2"
    using mb_extend_append [OF i1(1) _ _ length_sv_sha256_hash [of d2], where i=0 and ty=MB_EV_S_CRTM_CONTENTS and data=d2 and n=1] i1(2) by (simp_all add: mb2_def)
  have "mb_init v n = Returned (mb2\<lparr>mbt_state := MB_STATE_CRTM_ACTIVE\<rparr>)"
    using assms unfolding mb_init_def Let_def ver_def [symmetric] mb0_def [symmetric]
    by (simp add: MB_MAX_EVENT_DATA_def mb2_def mb1_def d1_def d2_def)
  then show ?thesis using i2 by (simp add: mb_inv_def)
qed

text \<open>With a full log a measurement is refused, but its register has changed.\<close>

lemma mb_full_log:
  assumes "mb_inv mb" and "mb_count mb = 256" and "unat i < 24" and "mbt_state mb \<noteq> MB_STATE_PRE_INIT"
  shows "\<exists>mb'. mb_measure_firmware mb i ty (Some d) (Some desc) = (mb', False)
    \<and> srtm_event_log (mbt_srtm mb') = srtm_event_log (mbt_srtm mb)
    \<and> srtm_current_pcrs (mbt_srtm mb') ! unat i = sv_sha256_hash (srtm_current_pcrs (mbt_srtm mb) ! unat i @ sv_sha256_hash d)"
proof -
  have "mb_pcrs_wf (mb_replay (srtm_event_log (mbt_srtm mb)))"
    unfolding mb_replay_def by (rule mbpcrs.wf_replay) simp
  then have p: "length (srtm_current_pcrs (mbt_srtm mb)) = 24" "length (srtm_current_pcrs (mbt_srtm mb) ! unat i) = 32"
    using assms(1,3) by (auto simp: mb_inv_def Let_def mb_pcrs_wf_def)
  show ?thesis
    using assms p
    by (simp add: mb_measure_firmware_def MB_PCR_COUNT_def append_event_def extend_register_def mb_event_log_append_def Let_def
        MB_MAX_EVENTS_def mb_inv_def pcr_extend_sha256_def length_sv_sha256_hash)
qed

end
