(* ===== verification/Tpm_Core.thy ===== *)
theory Tpm_Core
  imports Sig_Verify Digest
begin

text \<open>
  The software TPM of \<open>mini-secure-boot/src/tpm.c\<close>: registers, quotes, NV indices, sessions and
  the lockout counter.  NV indices and sessions are the slots in use; algorithms are the 32-bit
  values of their enumeration.
\<close>

section \<open>State\<close>

definition SBT_MAX_PCRS :: nat where "SBT_MAX_PCRS = 24"
definition SBT_MAX_NV_INDICES :: nat where "SBT_MAX_NV_INDICES = 32"
definition SBT_MAX_NV_DATA_SIZE :: nat where "SBT_MAX_NV_DATA_SIZE = 1024"
definition SBT_MAX_SESSIONS :: nat where "SBT_MAX_SESSIONS = 3"
definition SBT_NONCE_SIZE :: nat where "SBT_NONCE_SIZE = 32"
definition SBT_ALG_SHA256 :: u32 where "SBT_ALG_SHA256 = 0xB"
definition SBT_ALG_RSASSA :: u32 where "SBT_ALG_RSASSA = 0x14"
definition SBT_NV_READLOCKED :: u32 where "SBT_NV_READLOCKED = 0x00400000"
definition SBT_NV_WRITEDEFINE :: u32 where "SBT_NV_WRITEDEFINE = 0x01000000"
definition SBT_NV_WRITTEN :: u32 where "SBT_NV_WRITTEN = 0x02000000"

record SBTPcr =
  spc_digest :: bytes
  spc_hash_alg :: u32
  spc_pcr_index :: u32
  spc_extend_count :: u32
  spc_allocated :: bool

record SBTBank =
  sbk_pcrs :: "SBTPcr list"
  sbk_active_pcrs :: u32
  sbk_active_banks :: "u32 list"
  sbk_bank_count :: u32

datatype SBTNVType = SBT_NV_TYPE_ORDINARY | SBT_NV_TYPE_COUNTER | SBT_NV_TYPE_BITFIELD | SBT_NV_TYPE_EXTEND

record SBTNVIndex =
  snv_nv_index :: u32
  snv_nv_type :: SBTNVType
  snv_nv_attributes :: u32
  snv_nv_data :: bytes
  snv_nv_data_size :: u32
  snv_nv_auth_handle :: u32
  snv_written :: bool

datatype SBTSessionType = SBT_SE_HMAC | SBT_SE_POLICY | SBT_SE_TRIAL

record SBTSession =
  sse_session_handle :: u32
  sse_session_type :: SBTSessionType
  sse_session_key :: bytes
  sse_nonce_tpm :: bytes
  sse_nonce_caller :: bytes
  sse_is_bound :: bool
  sse_bound_handle :: u32

record SBTQuoteInfo =
  sqi_magic :: u32
  sqi_type :: u32
  sqi_qualified_signer :: bytes
  sqi_extra_data :: bytes
  sqi_clock_info :: u64
  sqi_firmware_version :: u64
  sqi_pcr_select :: bytes
  sqi_pcr_digest :: bytes

record SBTPCRSelection =
  ssl_pcr_mask :: bytes
  ssl_pcr_count :: u32

record SBTQuote =
  sqt_quote_info :: SBTQuoteInfo
  sqt_sig_alg :: u32
  sqt_signature :: bytes
  sqt_sig_size :: u32
  sqt_pcr_select :: SBTPCRSelection

datatype TPMAttestResult = TPM_ATTEST_OK | TPM_ATTEST_QUOTE_INVALID | TPM_ATTEST_SIGNATURE_INVALID
  | TPM_ATTEST_PCR_MISMATCH | TPM_ATTEST_NONCE_MISMATCH | TPM_ATTEST_CLOCK_REPLAY

record TPMContext =
  tpc_pcr_bank :: SBTBank
  tpc_nv_store :: "SBTNVIndex list"
  tpc_sessions :: "SBTSession list"
  tpc_tpm_clock :: u64
  tpc_tpm_reset_count :: u64
  tpc_owner_auth :: u32
  tpc_lockout_auth :: u32
  tpc_is_initialized :: bool
  tpc_in_lockout :: bool
  tpc_lockout_counter :: u32
  tpc_max_lockout_attempts :: u32

definition zero_pcr :: SBTPcr where
  "zero_pcr = \<lparr>spc_digest = zeros 32, spc_hash_alg = 0, spc_pcr_index = 0, spc_extend_count = 0, spc_allocated = False\<rparr>"

section \<open>Registers\<close>

definition put_pcr :: "nat \<Rightarrow> SBTPcr \<Rightarrow> TPMContext \<Rightarrow> TPMContext" where
  "put_pcr i p tpm = tpm\<lparr>tpc_pcr_bank := (tpc_pcr_bank tpm)\<lparr>sbk_pcrs := (sbk_pcrs (tpc_pcr_bank tpm))[i := p]\<rparr>\<rparr>"

definition get_pcr :: "TPMContext \<Rightarrow> nat \<Rightarrow> SBTPcr" where
  "get_pcr tpm i = sbk_pcrs (tpc_pcr_bank tpm) ! i"

definition tpm_pcr_allocate :: "TPMContext \<Rightarrow> u32 \<Rightarrow> u32 \<Rightarrow> TPMContext \<times> bool" where
  "tpm_pcr_allocate tpm pcr_index hash_alg =
     (if unat pcr_index \<ge> SBT_MAX_PCRS then (tpm, False)
      else let i = unat pcr_index;
               p = (get_pcr tpm i)\<lparr>spc_digest := zeros 32, spc_hash_alg := hash_alg, spc_pcr_index := pcr_index,
                                   spc_extend_count := 0, spc_allocated := True\<rparr>;
               t1 = put_pcr i p tpm
           in (if pcr_index \<ge> sbk_active_pcrs (tpc_pcr_bank t1)
               then t1\<lparr>tpc_pcr_bank := (tpc_pcr_bank t1)\<lparr>sbk_active_pcrs := pcr_index + 1\<rparr>\<rparr> else t1, True))"

definition normalize_digest :: "u32 \<Rightarrow> u32 \<Rightarrow> bytes \<Rightarrow> bytes" where
  "normalize_digest hash_alg bank_alg d =
     (if hash_alg \<noteq> bank_alg then sv_sha256_hash d
      else if length d > 32 then take 32 d
      else blit (zeros 32) 0 d)"

definition tpm_pcr_extend :: "TPMContext \<Rightarrow> u32 \<Rightarrow> bytes option \<Rightarrow> u32 \<Rightarrow> TPMContext \<times> bool" where
  "tpm_pcr_extend tpm pcr_index digest hash_alg =
     (case digest of None \<Rightarrow> (tpm, False)
      | Some d \<Rightarrow>
          if d = [] then (tpm, False)
          else if unat pcr_index \<ge> SBT_MAX_PCRS then (tpm, False)
          else let pcr = get_pcr tpm (unat pcr_index)
               in if \<not> spc_allocated pcr then (tpm, False)
                  else (put_pcr (unat pcr_index)
                          (pcr\<lparr>spc_digest := sv_sha256_hash (spc_digest pcr @ normalize_digest hash_alg (spc_hash_alg pcr) d),
                               spc_extend_count := spc_extend_count pcr + 1\<rparr>) tpm, True))"

text \<open>The bytes copied to a buffer that has room for so many.\<close>

definition tpm_pcr_read :: "TPMContext \<Rightarrow> u32 \<Rightarrow> u32 \<Rightarrow> bytes option" where
  "tpm_pcr_read tpm pcr_index digest_size =
     (if unat pcr_index \<ge> SBT_MAX_PCRS then None
      else let pcr = get_pcr tpm (unat pcr_index)
           in if \<not> spc_allocated pcr then None
              else Some (take (if unat digest_size < 32 then unat digest_size else 32) (spc_digest pcr)))"

definition tpm_pcr_reset :: "TPMContext \<Rightarrow> u32 \<Rightarrow> TPMContext \<times> bool" where
  "tpm_pcr_reset tpm pcr_index =
     (if unat pcr_index \<ge> SBT_MAX_PCRS then (tpm, False)
      else let pcr = get_pcr tpm (unat pcr_index)
           in if \<not> spc_allocated pcr then (tpm, False)
              else if pcr_index \<le> 16 \<or> pcr_index = 23
              then (put_pcr (unat pcr_index) (pcr\<lparr>spc_digest := zeros 32, spc_extend_count := 0\<rparr>) tpm, True)
              else (tpm, False))"

definition tpm_pcr_get_extend_count :: "TPMContext \<Rightarrow> u32 \<Rightarrow> u32" where
  "tpm_pcr_get_extend_count tpm pcr_index =
     (if unat pcr_index \<ge> SBT_MAX_PCRS then 0
      else let pcr = get_pcr tpm (unat pcr_index) in if \<not> spc_allocated pcr then 0 else spc_extend_count pcr)"

section \<open>Life cycle\<close>

definition tpm_init :: TPMContext where
  "tpm_init = fold (\<lambda>i t. fst (tpm_pcr_allocate t (of_nat i) SBT_ALG_SHA256)) [0..<SBT_MAX_PCRS]
     \<lparr>tpc_pcr_bank = \<lparr>sbk_pcrs = replicate SBT_MAX_PCRS zero_pcr, sbk_active_pcrs = 0,
        sbk_active_banks = [SBT_ALG_SHA256, 0, 0, 0, 0], sbk_bank_count = 1\<rparr>,
      tpc_nv_store = [], tpc_sessions = [], tpc_tpm_clock = 0, tpc_tpm_reset_count = 1, tpc_owner_auth = 0,
      tpc_lockout_auth = 0, tpc_is_initialized = True, tpc_in_lockout = False, tpc_lockout_counter = 0,
      tpc_max_lockout_attempts = 32\<rparr>"

definition reset_pcrs :: "nat list \<Rightarrow> TPMContext \<Rightarrow> TPMContext" where
  "reset_pcrs is tpm = fold (\<lambda>i t. fst (tpm_pcr_reset t (of_nat i))) is tpm"

definition tpm_startup :: "TPMContext \<Rightarrow> bool \<Rightarrow> TPMContext \<times> bool" where
  "tpm_startup tpm is_resume =
     (if \<not> tpc_is_initialized tpm then (tpm, False)
      else let t1 = (if \<not> is_resume then (reset_pcrs [0..<17] tpm)\<lparr>tpc_tpm_clock := 0\<rparr> else tpm)
           in (t1\<lparr>tpc_tpm_reset_count := tpc_tpm_reset_count t1 + 1\<rparr>, True))"

definition alg_active :: "TPMContext \<Rightarrow> SBTPcr \<Rightarrow> bool" where
  "alg_active tpm pcr \<longleftrightarrow>
     spc_hash_alg pcr \<in> set (take (unat (sbk_bank_count (tpc_pcr_bank tpm))) (sbk_active_banks (tpc_pcr_bank tpm)))"

text \<open>One register of the full self test: extended with the test pattern, counted, reset.\<close>

definition selftest_pcr :: "nat \<Rightarrow> TPMContext \<times> bool \<Rightarrow> TPMContext \<times> bool" where
  "selftest_pcr i = (\<lambda>(t, ok).
     if \<not> ok then (t, False)
     else if \<not> spc_allocated (get_pcr t i) then (t, True)
     else let count_before = spc_extend_count (get_pcr t i);
              (t1, r) = tpm_pcr_extend t (of_nat i) (Some (replicate 32 0xA5)) SBT_ALG_SHA256
          in if \<not> r then (t1, False)
             else if spc_extend_count (get_pcr t1 i) \<noteq> count_before + 1 then (t1, False)
             else (fst (tpm_pcr_reset t1 (of_nat i)), True))"

definition tpm_selftest :: "TPMContext \<Rightarrow> bool \<Rightarrow> TPMContext \<times> bool" where
  "tpm_selftest tpm full_test =
     (if \<not> tpc_is_initialized tpm then (tpm, False)
      else if \<exists>p \<in> set (sbk_pcrs (tpc_pcr_bank tpm)). spc_allocated p \<and> \<not> alg_active tpm p then (tpm, False)
      else if full_test then fold selftest_pcr [0..<SBT_MAX_PCRS] (tpm, True)
      else (tpm, True))"

definition tpm_clear :: "TPMContext \<Rightarrow> TPMContext \<times> bool" where
  "tpm_clear tpm =
     (if \<not> tpc_is_initialized tpm then (tpm, False)
      else ((reset_pcrs [0..<SBT_MAX_PCRS] (tpm\<lparr>tpc_nv_store := []\<rparr>))
              \<lparr>tpc_sessions := [], tpc_owner_auth := 0, tpc_tpm_clock := 0\<rparr>, True))"

section \<open>Quotes\<close>

definition composite_input :: "TPMContext \<Rightarrow> bytes \<Rightarrow> bytes" where
  "composite_input tpm msk = concat (map (\<lambda>i. spc_digest (get_pcr tpm i))
     (filter (\<lambda>i. msk ! i \<noteq> 0 \<and> spc_allocated (get_pcr tpm i)) [0..<SBT_MAX_PCRS]))"

text \<open>The signature is the composite digest; no key is involved.\<close>

definition tpm_quote :: "TPMContext \<Rightarrow> SBTPCRSelection option \<Rightarrow> bytes option \<Rightarrow> SBTQuote option" where
  "tpm_quote tpm pcr_select nonce =
     (case pcr_select of None \<Rightarrow> None
      | Some sel \<Rightarrow>
          let n = (case nonce of None \<Rightarrow> [] | Some x \<Rightarrow> x)
          in if length n > SBT_NONCE_SIZE then None
             else let d = sv_sha256_hash (composite_input tpm (ssl_pcr_mask sel))
                  in Some \<lparr>sqt_quote_info = \<lparr>sqi_magic = 0xFF544347, sqi_type = 0x8018, sqi_qualified_signer = zeros 32,
                             sqi_extra_data = blit (zeros 32) 0 n, sqi_clock_info = tpc_tpm_clock tpm,
                             sqi_firmware_version = tpc_tpm_reset_count tpm, sqi_pcr_select = ssl_pcr_mask sel,
                             sqi_pcr_digest = d\<rparr>,
                           sqt_sig_alg = SBT_ALG_RSASSA, sqt_signature = blit (zeros 256) 0 d, sqt_sig_size = 32,
                           sqt_pcr_select = sel\<rparr>)"

text \<open>A nonce of more than 32 bytes is compared beyond the field of the quote.\<close>

definition tpm_verify_quote :: "SBTQuote option \<Rightarrow> bytes list option \<Rightarrow> bytes option \<Rightarrow> TPMAttestResult c_result" where
  "tpm_verify_quote quote expected_pcrs expected_nonce =
     (case (quote, expected_pcrs, expected_nonce) of
        (Some q, Some pcrs, Some nonce) \<Rightarrow>
          (let qi = sqt_quote_info q; msk = ssl_pcr_mask (sqt_pcr_select q) in
           if sqi_magic qi \<noteq> 0xFF544347 then Returned TPM_ATTEST_QUOTE_INVALID
           else if sqi_type qi \<noteq> 0x8018 then Returned TPM_ATTEST_QUOTE_INVALID
           else if length nonce > 32 then Undefined
           else if take (length nonce) (sqi_extra_data qi) \<noteq> nonce then Returned TPM_ATTEST_NONCE_MISMATCH
           else let composite = concat (map (\<lambda>i. take 32 (pcrs ! i))
                      (filter (\<lambda>i. msk ! i \<noteq> 0) [0..<min (length pcrs) SBT_MAX_PCRS]))
                in if sqi_pcr_digest qi \<noteq> sv_sha256_hash composite then Returned TPM_ATTEST_PCR_MISMATCH
                   else if sqt_sig_size q = 0 then Returned TPM_ATTEST_SIGNATURE_INVALID
                   else Returned TPM_ATTEST_OK)
      | _ \<Rightarrow> Returned TPM_ATTEST_QUOTE_INVALID)"

section \<open>NV indices\<close>

definition nv_find :: "TPMContext \<Rightarrow> u32 \<Rightarrow> nat option" where
  "nv_find tpm nv_index = find_index (\<lambda>x. snv_nv_index x = nv_index) (tpc_nv_store tpm)"

definition put_nv :: "nat \<Rightarrow> SBTNVIndex \<Rightarrow> TPMContext \<Rightarrow> TPMContext" where
  "put_nv i x tpm = tpm\<lparr>tpc_nv_store := (tpc_nv_store tpm)[i := x]\<rparr>"

definition tpm_nv_define_space :: "TPMContext \<Rightarrow> u32 \<Rightarrow> SBTNVType \<Rightarrow> u32 \<Rightarrow> u32 \<Rightarrow> u32 \<Rightarrow> TPMContext \<times> bool" where
  "tpm_nv_define_space tpm nv_index nv_type attributes data_size auth_handle =
     (if unat data_size > SBT_MAX_NV_DATA_SIZE then (tpm, False)
      else if length (tpc_nv_store tpm) \<ge> SBT_MAX_NV_INDICES then (tpm, False)
      else if nv_find tpm nv_index \<noteq> None then (tpm, False)
      else (tpm\<lparr>tpc_nv_store := tpc_nv_store tpm @
              [\<lparr>snv_nv_index = nv_index, snv_nv_type = nv_type, snv_nv_attributes = attributes,
                snv_nv_data = zeros SBT_MAX_NV_DATA_SIZE, snv_nv_data_size = data_size,
                snv_nv_auth_handle = auth_handle, snv_written = False\<rparr>]\<rparr>, True))"

text \<open>The sum of offset and size is 32 bits and can wrap; the copy then starts beyond the data.\<close>

definition tpm_nv_write :: "TPMContext \<Rightarrow> u32 \<Rightarrow> bytes option \<Rightarrow> u32 \<Rightarrow> (TPMContext \<times> bool) c_result" where
  "tpm_nv_write tpm nv_index data offset =
     (case data of None \<Rightarrow> Returned (tpm, False)
      | Some d \<Rightarrow>
          (case nv_find tpm nv_index of None \<Rightarrow> Returned (tpm, False)
           | Some i \<Rightarrow>
               let idx = tpc_nv_store tpm ! i
               in if snv_nv_attributes idx AND SBT_NV_WRITTEN \<noteq> 0 \<and> snv_nv_attributes idx AND SBT_NV_WRITEDEFINE = 0
                  then Returned (tpm, False)
                  else if offset + of_nat (length d) > snv_nv_data_size idx then Returned (tpm, False)
                  else if unat offset + length d > SBT_MAX_NV_DATA_SIZE then Undefined
                  else Returned (put_nv i (idx\<lparr>snv_nv_data := blit (snv_nv_data idx) (unat offset) d, snv_written := True\<rparr>) tpm, True)))"

definition tpm_nv_read :: "TPMContext \<Rightarrow> u32 \<Rightarrow> u32 \<Rightarrow> u32 \<Rightarrow> bytes option" where
  "tpm_nv_read tpm nv_index data_size offset =
     (case nv_find tpm nv_index of None \<Rightarrow> None
      | Some i \<Rightarrow>
          let idx = tpc_nv_store tpm ! i
          in if snv_nv_attributes idx AND SBT_NV_READLOCKED \<noteq> 0 then None
             else let available = snv_nv_data_size idx - offset
                  in if available > snv_nv_data_size idx then None
                     else let copy_size = (if data_size < available then data_size else available)
                          in Some (sub_range (snv_nv_data idx) (unat offset) (unat copy_size)))"

definition be64_of :: "bytes \<Rightarrow> u64" where
  "be64_of bs = fold (\<lambda>b v. push_bit 8 v OR ucast b) (take 8 bs) 0"

definition tpm_nv_increment :: "TPMContext \<Rightarrow> u32 \<Rightarrow> TPMContext \<times> bool" where
  "tpm_nv_increment tpm nv_index =
     (case nv_find tpm nv_index of None \<Rightarrow> (tpm, False)
      | Some i \<Rightarrow>
          let idx = tpc_nv_store tpm ! i
          in if snv_nv_type idx \<noteq> SBT_NV_TYPE_COUNTER then (tpm, False)
             else (put_nv i (idx\<lparr>snv_nv_data := blit (snv_nv_data idx) 0 (be64_bytes (be64_of (snv_nv_data idx) + 1))\<rparr>) tpm, True))"

definition tpm_nv_read_lock :: "TPMContext \<Rightarrow> u32 \<Rightarrow> TPMContext \<times> bool" where
  "tpm_nv_read_lock tpm nv_index =
     (case nv_find tpm nv_index of None \<Rightarrow> (tpm, False)
      | Some i \<Rightarrow> let idx = tpc_nv_store tpm ! i
                  in (put_nv i (idx\<lparr>snv_nv_attributes := snv_nv_attributes idx OR SBT_NV_READLOCKED\<rparr>) tpm, True))"

definition tpm_nv_write_lock :: "TPMContext \<Rightarrow> u32 \<Rightarrow> TPMContext \<times> bool" where
  "tpm_nv_write_lock tpm nv_index =
     (case nv_find tpm nv_index of None \<Rightarrow> (tpm, False)
      | Some i \<Rightarrow> let idx = tpc_nv_store tpm ! i
                  in (put_nv i (idx\<lparr>snv_nv_attributes := snv_nv_attributes idx OR SBT_NV_WRITTEN\<rparr>) tpm, True))"

definition tpm_nv_undefine_space :: "TPMContext \<Rightarrow> u32 \<Rightarrow> TPMContext \<times> bool" where
  "tpm_nv_undefine_space tpm nv_index =
     (case nv_find tpm nv_index of None \<Rightarrow> (tpm, False)
      | Some i \<Rightarrow> (tpm\<lparr>tpc_nv_store := take i (tpc_nv_store tpm) @ drop (i + 1) (tpc_nv_store tpm)\<rparr>, True))"

section \<open>Sessions and lockout\<close>

definition le64_bytes :: "u64 \<Rightarrow> bytes" where
  "le64_bytes w = rev (be64_bytes w)"

definition sb_tpm_start_auth_session :: "TPMContext \<Rightarrow> SBTSessionType \<Rightarrow> TPMContext \<times> u32 option" where
  "sb_tpm_start_auth_session tpm session_type =
     (if length (tpc_sessions tpm) \<ge> SBT_MAX_SESSIONS then (tpm, None)
      else let handle = 0x02000000 + of_nat (length (tpc_sessions tpm));
               s = \<lparr>sse_session_handle = handle, sse_session_type = session_type, sse_session_key = zeros 32,
                    sse_nonce_tpm = sv_sha256_hash (le64_bytes (tpc_tpm_clock tpm) @ le64_bytes (tpc_tpm_reset_count tpm)),
                    sse_nonce_caller = zeros 32, sse_is_bound = False, sse_bound_handle = 0\<rparr>
           in (tpm\<lparr>tpc_sessions := tpc_sessions tpm @ [s]\<rparr>, Some handle))"

definition sb_tpm_flush_context :: "TPMContext \<Rightarrow> u32 \<Rightarrow> TPMContext \<times> bool" where
  "sb_tpm_flush_context tpm handle =
     (case find_index (\<lambda>s. sse_session_handle s = handle) (tpc_sessions tpm) of None \<Rightarrow> (tpm, False)
      | Some i \<Rightarrow> (tpm\<lparr>tpc_sessions := take i (tpc_sessions tpm) @ drop (i + 1) (tpc_sessions tpm)\<rparr>, True))"

definition tpm_dictionary_attack_lock_reset :: "TPMContext \<Rightarrow> TPMContext \<times> bool" where
  "tpm_dictionary_attack_lock_reset tpm =
     (if \<not> tpc_in_lockout tpm then (tpm, False)
      else (tpm\<lparr>tpc_in_lockout := False, tpc_lockout_counter := 0\<rparr>, True))"

definition tpm_dictionary_attack_increment :: "TPMContext \<Rightarrow> TPMContext \<times> bool" where
  "tpm_dictionary_attack_increment tpm =
     (let t1 = tpm\<lparr>tpc_lockout_counter := tpc_lockout_counter tpm + 1\<rparr>
      in (if tpc_lockout_counter t1 \<ge> tpc_max_lockout_attempts t1 then t1\<lparr>tpc_in_lockout := True\<rparr> else t1, True))"

definition tpm_is_in_lockout :: "TPMContext option \<Rightarrow> bool" where
  "tpm_is_in_lockout tpm = (case tpm of None \<Rightarrow> False | Some t \<Rightarrow> tpc_in_lockout t)"

section \<open>Names\<close>

definition tpm_alg_names :: "(u32 \<times> string) list" where
  "tpm_alg_names = [(0x0004, ''SHA-1''), (0x000B, ''SHA-256''), (0x000C, ''SHA-384''), (0x000D, ''SHA-512''),
     (0x0014, ''RSASSA''), (0x0016, ''RSAPSS''), (0x0018, ''ECDSA''), (0x0019, ''ECDH''), (0x001A, ''ECDAA''),
     (0x0008, ''KeyedHash''), (0x0010, ''NULL'')]"

definition tpm_alg_id_str :: "u32 \<Rightarrow> string" where
  "tpm_alg_id_str a = (case map_of tpm_alg_names a of None \<Rightarrow> ''UNKNOWN'' | Some s \<Rightarrow> s)"

fun tpm_attest_result_str :: "TPMAttestResult \<Rightarrow> string" where
  "tpm_attest_result_str TPM_ATTEST_OK = ''ATTESTATION_OK''"
| "tpm_attest_result_str TPM_ATTEST_QUOTE_INVALID = ''QUOTE_STRUCT_INVALID''"
| "tpm_attest_result_str TPM_ATTEST_SIGNATURE_INVALID = ''SIGNATURE_VERIFICATION_FAILED''"
| "tpm_attest_result_str TPM_ATTEST_PCR_MISMATCH = ''PCR_COMPOSITE_MISMATCH''"
| "tpm_attest_result_str TPM_ATTEST_NONCE_MISMATCH = ''NONCE_REPLAY_DETECTED''"
| "tpm_attest_result_str TPM_ATTEST_CLOCK_REPLAY = ''CLOCK_REPLAY_DETECTED''"

section \<open>Registers are hash chains\<close>

definition tpm_pcr_wf :: "TPMContext \<Rightarrow> bool" where
  "tpm_pcr_wf tpm \<longleftrightarrow> length (sbk_pcrs (tpc_pcr_bank tpm)) = 24
     \<and> (\<forall>p \<in> set (sbk_pcrs (tpc_pcr_bank tpm)). length (spc_digest p) = 32 \<and> spc_allocated p)"

lemma get_put_pcr [simp]:
  "i < length (sbk_pcrs (tpc_pcr_bank tpm)) \<Longrightarrow> get_pcr (put_pcr j p tpm) i = (if i = j then p else get_pcr tpm i)"
  by (simp add: get_pcr_def put_pcr_def)

lemma tpm_pcr_wf_put:
  "tpm_pcr_wf tpm \<Longrightarrow> length (spc_digest p) = 32 \<Longrightarrow> spc_allocated p \<Longrightarrow> tpm_pcr_wf (put_pcr i p tpm)"
  by (auto simp: tpm_pcr_wf_def put_pcr_def dest: set_update_subset_insert [THEN subsetD])

lemma tpm_pcr_wf_get:
  "tpm_pcr_wf tpm \<Longrightarrow> i < 24 \<Longrightarrow> length (spc_digest (get_pcr tpm i)) = 32 \<and> spc_allocated (get_pcr tpm i)"
  by (simp add: tpm_pcr_wf_def get_pcr_def)

lemma tpm_pcr_reset_wf:
  assumes "tpm_pcr_wf tpm"
  shows "tpm_pcr_wf (fst (tpm_pcr_reset tpm k))"
proof (cases "unat k < 24")
  case True
  then show ?thesis using assms tpm_pcr_wf_get [OF assms True] tpm_pcr_wf_put [OF assms]
    by (simp add: tpm_pcr_reset_def Let_def SBT_MAX_PCRS_def)
qed (simp add: tpm_pcr_reset_def SBT_MAX_PCRS_def assms)

text \<open>The interface of a bank, for digests of 32 bytes of the register's own algorithm.\<close>

definition tpm_extend_put :: "TPMContext \<Rightarrow> nat \<Rightarrow> bytes \<Rightarrow> TPMContext" where
  "tpm_extend_put tpm i d =
     (if i < 24 then fst (tpm_pcr_extend tpm (of_nat i) (Some d) (spc_hash_alg (get_pcr tpm i))) else tpm)"

lemma tpm_extend_put_eq:
  assumes "tpm_pcr_wf tpm" and "i < 24" and "d \<noteq> []"
  shows "tpm_extend_put tpm i d = put_pcr i ((get_pcr tpm i)\<lparr>
      spc_digest := sv_sha256_hash (spc_digest (get_pcr tpm i) @ take 32 (d @ zeros 32)),
      spc_extend_count := spc_extend_count (get_pcr tpm i) + 1\<rparr>) tpm"
proof -
  have "unat (of_nat i :: u32) = i" using assms(2) by (intro unat_of_nat_u32) simp
  moreover have "normalize_digest a a d = take 32 (d @ zeros 32)" for a
    by (simp add: normalize_digest_def blit_def min_def)
  ultimately show ?thesis
    using assms tpm_pcr_wf_get [OF assms(1,2)] by (simp add: tpm_extend_put_def tpm_pcr_extend_def SBT_MAX_PCRS_def Let_def)
qed

interpretation tpmregs: registers sv_sha256_hash tpm_extend_put "\<lambda>t i. spc_digest (get_pcr t i)" tpm_pcr_wf
    "\<lambda>d. take 32 (d @ zeros 32)" "\<lambda>d. d \<noteq> []"
proof
  show "length (sv_sha256_hash m) = 32" for m by simp
  show "length (spc_digest (get_pcr b i)) = 32" if "tpm_pcr_wf b" "i < 24" for b i using tpm_pcr_wf_get [OF that] by simp
  show w: "tpm_pcr_wf (tpm_extend_put b i x)" if "tpm_pcr_wf b" for b i x
  proof (cases "i < 24 \<and> x \<noteq> []")
    case True
    then show ?thesis using tpm_extend_put_eq [OF that] tpm_pcr_wf_put [OF that] tpm_pcr_wf_get [OF that] by (simp add: length_sv_sha256_hash)
  next
    case False
    then show ?thesis using that by (auto simp: tpm_extend_put_def tpm_pcr_extend_def)
  qed
  show "spc_digest (get_pcr (tpm_extend_put b i x) i) = sv_sha256_hash (spc_digest (get_pcr b i) @ take 32 (x @ zeros 32))"
    if "tpm_pcr_wf b" "i < 24" "x \<noteq> []" for b i x
    using that tpm_extend_put_eq [OF that] by (simp add: tpm_pcr_wf_def)
  show "spc_digest (get_pcr (tpm_extend_put b i x) j) = spc_digest (get_pcr b j)" if "tpm_pcr_wf b" "j < 24" "i \<noteq> j" for b i j x
  proof (cases "i < 24 \<and> x \<noteq> []")
    case True
    then show ?thesis using that tpm_extend_put_eq [OF that(1), of i x] by (simp add: tpm_pcr_wf_def)
  next
    case False
    then show ?thesis by (auto simp: tpm_extend_put_def tpm_pcr_extend_def)
  qed
  show "length (take 32 (x @ zeros 32)) = 32" for x by simp
qed

section \<open>Quotes\<close>

definition selected :: "bytes \<Rightarrow> nat list" where
  "selected msk = filter (\<lambda>i. msk ! i \<noteq> 0) [0..<24]"

definition composite_of :: "bytes list \<Rightarrow> bytes \<Rightarrow> bytes" where
  "composite_of vs msk = concat (map (\<lambda>i. vs ! i) (selected msk))"

definition tpm_values :: "TPMContext \<Rightarrow> bytes list" where
  "tpm_values tpm = map spc_digest (sbk_pcrs (tpc_pcr_bank tpm))"

lemma composite_input_eq:
  assumes "tpm_pcr_wf tpm"
  shows "composite_input tpm msk = composite_of (tpm_values tpm) msk"
proof -
  have f: "filter (\<lambda>i. msk ! i \<noteq> 0 \<and> spc_allocated (get_pcr tpm i)) [0..<24] = selected msk"
    using tpm_pcr_wf_get [OF assms] unfolding selected_def by (intro filter_cong) auto
  have "map (\<lambda>i. spc_digest (get_pcr tpm i)) (selected msk) = map (\<lambda>i. tpm_values tpm ! i) (selected msk)"
    using assms by (intro map_cong) (auto simp: selected_def tpm_values_def get_pcr_def tpm_pcr_wf_def)
  then show ?thesis unfolding composite_input_def SBT_MAX_PCRS_def f composite_of_def by (rule arg_cong)
qed

lemma verify_quote_eq:
  assumes "length pcrs = 24" and "\<forall>v \<in> set pcrs. length v = 32" and "length nonce \<le> 32"
  shows "tpm_verify_quote (Some q) (Some pcrs) (Some nonce) = Returned TPM_ATTEST_OK \<longleftrightarrow>
    sqi_magic (sqt_quote_info q) = 0xFF544347 \<and> sqi_type (sqt_quote_info q) = 0x8018
    \<and> take (length nonce) (sqi_extra_data (sqt_quote_info q)) = nonce
    \<and> sqi_pcr_digest (sqt_quote_info q) = sv_sha256_hash (composite_of pcrs (ssl_pcr_mask (sqt_pcr_select q)))
    \<and> sqt_sig_size q \<noteq> 0"
proof -
  have e: "map (\<lambda>i. take 32 (pcrs ! i)) (selected m) = map (\<lambda>i. pcrs ! i) (selected m)" for m
    using assms(1,2) by (intro map_cong) (auto simp: selected_def)
  from arg_cong [OF this, of concat]
  have "concat (map (\<lambda>i. take 32 (pcrs ! i)) (filter (\<lambda>i. m ! i \<noteq> 0) [0..<min (length pcrs) SBT_MAX_PCRS])) = composite_of pcrs m" for m
    unfolding composite_of_def SBT_MAX_PCRS_def assms(1) min.idem selected_def [symmetric] .
  then show ?thesis using assms(3) by (auto simp: tpm_verify_quote_def Let_def)
qed

lemma concat_map_eq:
  assumes "\<forall>i \<in> set is. length (f i) = n \<and> length (g i) = (n :: nat)" and "concat (map f is) = concat (map g is)"
  shows "\<forall>i \<in> set is. f i = g i"
  using assms by (induction "is") auto

text \<open>A genuine quote verifies against the values it was made from; if it verifies against others, the hash collides.\<close>

lemma quote_verifies:
  assumes "tpm_pcr_wf tpm" and "length nonce \<le> 32" and "tpm_quote tpm (Some sel) (Some nonce) = Some q"
  shows "tpm_verify_quote (Some q) (Some (tpm_values tpm)) (Some nonce) = Returned TPM_ATTEST_OK"
proof -
  have v: "length (tpm_values tpm) = 24" "\<forall>v \<in> set (tpm_values tpm). length v = 32"
    using assms(1) by (auto simp: tpm_values_def tpm_pcr_wf_def)
  have q: "q = \<lparr>sqt_quote_info = \<lparr>sqi_magic = 0xFF544347, sqi_type = 0x8018, sqi_qualified_signer = zeros 32,
        sqi_extra_data = blit (zeros 32) 0 nonce, sqi_clock_info = tpc_tpm_clock tpm,
        sqi_firmware_version = tpc_tpm_reset_count tpm, sqi_pcr_select = ssl_pcr_mask sel,
        sqi_pcr_digest = sv_sha256_hash (composite_of (tpm_values tpm) (ssl_pcr_mask sel))\<rparr>,
      sqt_sig_alg = SBT_ALG_RSASSA,
      sqt_signature = blit (zeros 256) 0 (sv_sha256_hash (composite_of (tpm_values tpm) (ssl_pcr_mask sel))),
      sqt_sig_size = 32, sqt_pcr_select = sel\<rparr>"
    using assms(2,3) composite_input_eq [OF assms(1)] by (simp add: tpm_quote_def Let_def SBT_NONCE_SIZE_def)
  show ?thesis using assms(2) by (simp add: verify_quote_eq [OF v assms(2)] q)
qed

lemma quote_binding:
  assumes "tpm_pcr_wf tpm" and "length nonce \<le> 32" and "tpm_quote tpm (Some sel) (Some nonce) = Some q"
    and "length pcrs = 24" and "\<forall>v \<in> set pcrs. length v = 32" and "length nonce' \<le> 32"
    and "tpm_verify_quote (Some q) (Some pcrs) (Some nonce') = Returned TPM_ATTEST_OK"
  shows "(\<forall>i \<in> set (selected (ssl_pcr_mask sel)). pcrs ! i = tpm_values tpm ! i)
    \<or> composite_of pcrs (ssl_pcr_mask sel) \<noteq> composite_of (tpm_values tpm) (ssl_pcr_mask sel)
      \<and> sv_sha256_hash (composite_of pcrs (ssl_pcr_mask sel)) = sv_sha256_hash (composite_of (tpm_values tpm) (ssl_pcr_mask sel))"
proof -
  have e: "sqi_pcr_digest (sqt_quote_info q) = sv_sha256_hash (composite_of (tpm_values tpm) (ssl_pcr_mask sel))"
    "sqt_pcr_select q = sel"
    using assms(2,3) composite_input_eq [OF assms(1)] by (auto simp: tpm_quote_def Let_def SBT_NONCE_SIZE_def)
  have h: "sv_sha256_hash (composite_of pcrs (ssl_pcr_mask sel)) = sv_sha256_hash (composite_of (tpm_values tpm) (ssl_pcr_mask sel))"
    using assms(7) e unfolding verify_quote_eq [OF assms(4-6)] by simp
  have l: "\<forall>i \<in> set (selected (ssl_pcr_mask sel)). length (pcrs ! i) = 32 \<and> length (tpm_values tpm ! i) = 32"
    using assms(1,4,5) by (auto simp: selected_def tpm_values_def tpm_pcr_wf_def)
  show ?thesis
  proof (cases "composite_of pcrs (ssl_pcr_mask sel) = composite_of (tpm_values tpm) (ssl_pcr_mask sel)")
    case True
    then show ?thesis using concat_map_eq [OF l] unfolding composite_of_def by blast
  qed (use h in blast)
qed

section \<open>The self test\<close>

text \<open>The full self test leaves every register changed: reset, or extended with the pattern.\<close>

definition after_selftest :: "nat \<Rightarrow> bytes \<Rightarrow> bytes" where
  "after_selftest i v = (if i \<le> 16 \<or> i = 23 then zeros 32 else sv_sha256_hash (v @ replicate 32 0xA5))"

lemma selftest_pcr_eq:
  assumes "tpm_pcr_wf t" and "i < 24" and "spc_hash_alg (get_pcr t i) = SBT_ALG_SHA256"
  shows "\<exists>t'. selftest_pcr i (t, True) = (t', True) \<and> tpm_pcr_wf t'
    \<and> (\<forall>j < 24. spc_digest (get_pcr t' j) = (if j = i then after_selftest i (spc_digest (get_pcr t i)) else spc_digest (get_pcr t j))
          \<and> spc_hash_alg (get_pcr t' j) = spc_hash_alg (get_pcr t j))"
proof -
  have u: "unat (of_nat i :: u32) = i" using assms(2) by (intro unat_of_nat_u32) simp
  have l: "length (sbk_pcrs (tpc_pcr_bank t)) = 24" using assms(1) by (simp add: tpm_pcr_wf_def)
  have g: "length (spc_digest (get_pcr t i)) = 32" "spc_allocated (get_pcr t i)" using tpm_pcr_wf_get [OF assms(1,2)] by simp_all
  let ?p1 = "(get_pcr t i)\<lparr>spc_digest := sv_sha256_hash (spc_digest (get_pcr t i) @ replicate 32 0xA5),
      spc_extend_count := spc_extend_count (get_pcr t i) + 1\<rparr>"
  let ?t1 = "put_pcr i ?p1 t"
  have n: "normalize_digest SBT_ALG_SHA256 SBT_ALG_SHA256 (replicate 32 0xA5) = replicate 32 0xA5"
    by (simp add: normalize_digest_def blit_def)
  have e: "tpm_pcr_extend t (of_nat i) (Some (replicate 32 0xA5)) SBT_ALG_SHA256 = (?t1, True)"
    using assms(2,3) u g n by (simp add: tpm_pcr_extend_def SBT_MAX_PCRS_def Let_def)
  have w1: "tpm_pcr_wf ?t1" using tpm_pcr_wf_put [OF assms(1), of ?p1 i] g by (simp add: length_sv_sha256_hash)
  have l1: "length (sbk_pcrs (tpc_pcr_bank ?t1)) = 24" using w1 by (simp add: tpm_pcr_wf_def)
  have g1: "get_pcr ?t1 i = ?p1" using l assms(2) by simp
  have c: "(of_nat i :: u32) \<le> 16 \<or> (of_nat i :: u32) = 23 \<longleftrightarrow> i \<le> 16 \<or> i = 23"
    using u by (auto simp: word_le_nat_alt word_unat_eq_iff)
  let ?t2 = "fst (tpm_pcr_reset ?t1 (of_nat i))"
  have "selftest_pcr i (t, True) = (?t2, True)" using e g g1 by (simp add: selftest_pcr_def)
  moreover have "tpm_pcr_wf ?t2" by (rule tpm_pcr_reset_wf [OF w1])
  moreover have "spc_digest (get_pcr ?t2 j) = (if j = i then after_selftest i (spc_digest (get_pcr t i)) else spc_digest (get_pcr t j))
      \<and> spc_hash_alg (get_pcr ?t2 j) = spc_hash_alg (get_pcr t j)" if "j < 24" for j
    using that assms(2) u g1 l l1 g c by (auto simp: tpm_pcr_reset_def SBT_MAX_PCRS_def Let_def after_selftest_def)
  ultimately show ?thesis by blast
qed

lemma selftest_fold:
  assumes "tpm_pcr_wf t" and "\<forall>i < 24. spc_hash_alg (get_pcr t i) = SBT_ALG_SHA256" and "n \<le> 24"
  shows "\<exists>t'. fold selftest_pcr [0..<n] (t, True) = (t', True) \<and> tpm_pcr_wf t'
    \<and> (\<forall>j < 24. spc_digest (get_pcr t' j) = (if j < n then after_selftest j (spc_digest (get_pcr t j)) else spc_digest (get_pcr t j))
          \<and> spc_hash_alg (get_pcr t' j) = SBT_ALG_SHA256)"
  using assms(3)
proof (induction n)
  case 0
  then show ?case using assms(1,2) by simp
next
  case (Suc n)
  then obtain t' where t': "fold selftest_pcr [0..<n] (t, True) = (t', True)" "tpm_pcr_wf t'"
    "\<And>j. j < 24 \<Longrightarrow> spc_digest (get_pcr t' j) = (if j < n then after_selftest j (spc_digest (get_pcr t j)) else spc_digest (get_pcr t j))"
    "\<And>j. j < 24 \<Longrightarrow> spc_hash_alg (get_pcr t' j) = SBT_ALG_SHA256"
    by auto
  have n: "n < 24" using Suc.prems by simp
  from selftest_pcr_eq [OF t'(2) n t'(4) [OF n]] obtain t2 where
    t2: "selftest_pcr n (t', True) = (t2, True)" "tpm_pcr_wf t2"
      "\<And>j. j < 24 \<Longrightarrow> spc_digest (get_pcr t2 j) = (if j = n then after_selftest n (spc_digest (get_pcr t' n)) else spc_digest (get_pcr t' j))"
      "\<And>j. j < 24 \<Longrightarrow> spc_hash_alg (get_pcr t2 j) = spc_hash_alg (get_pcr t' j)"
    by blast
  have "fold selftest_pcr [0..<Suc n] (t, True) = (t2, True)" using t'(1) t2(1) by simp
  then show ?case using t2(2-4) t'(3,4) n by auto
qed

section \<open>NV indices over runs\<close>

definition sb_nv_wf :: "TPMContext \<Rightarrow> bool" where
  "sb_nv_wf tpm \<longleftrightarrow> length (tpc_nv_store tpm) \<le> 32 \<and> distinct (map snv_nv_index (tpc_nv_store tpm))
     \<and> (\<forall>x \<in> set (tpc_nv_store tpm). length (snv_nv_data x) = 1024 \<and> unat (snv_nv_data_size x) \<le> 1024)
     \<and> length (tpc_sessions tpm) \<le> 3"

lemma nv_find_SomeD: "nv_find tpm k = Some i \<Longrightarrow> i < length (tpc_nv_store tpm) \<and> snv_nv_index (tpc_nv_store tpm ! i) = k"
  unfolding nv_find_def by (drule find_index_SomeD) simp

lemma sb_nv_wf_put:
  assumes "sb_nv_wf tpm" and "i < length (tpc_nv_store tpm)" and "snv_nv_index x = snv_nv_index (tpc_nv_store tpm ! i)"
    and "length (snv_nv_data x) = 1024" and "snv_nv_data_size x = snv_nv_data_size (tpc_nv_store tpm ! i)"
  shows "sb_nv_wf (put_nv i x tpm)"
proof -
  have "map snv_nv_index ((tpc_nv_store tpm)[i := x]) = map snv_nv_index (tpc_nv_store tpm)"
    using assms(2,3) by (simp add: map_update list_update_same_conv)
  moreover have "unat (snv_nv_data_size x) \<le> 1024" using assms(1,2,5) by (simp add: sb_nv_wf_def)
  ultimately show ?thesis using assms
    by (auto simp: sb_nv_wf_def put_nv_def dest!: set_update_subset_insert [THEN subsetD])
qed

lemma sb_nv_wf_nth:
  "sb_nv_wf tpm \<Longrightarrow> i < length (tpc_nv_store tpm) \<Longrightarrow> length (snv_nv_data (tpc_nv_store tpm ! i)) = 1024
    \<and> unat (snv_nv_data_size (tpc_nv_store tpm ! i)) \<le> 1024"
  by (simp add: sb_nv_wf_def)

text \<open>A write that does not wrap stays inside the data.\<close>

lemma tpm_nv_write_cases:
  assumes "sb_nv_wf tpm" and "unat off + length d < 4294967296"
  shows "\<exists>r. tpm_nv_write tpm k (Some d) off = Returned r \<and> sb_nv_wf (fst r) \<and> tpc_pcr_bank (fst r) = tpc_pcr_bank tpm
    \<and> (snd r \<longrightarrow> (\<exists>i. nv_find tpm k = Some i \<and> unat off + length d \<le> 1024
          \<and> fst r = put_nv i ((tpc_nv_store tpm ! i)\<lparr>snv_nv_data := blit (snv_nv_data (tpc_nv_store tpm ! i)) (unat off) d,
                snv_written := True\<rparr>) tpm))
    \<and> (\<not> snd r \<longrightarrow> fst r = tpm)"
proof (cases "nv_find tpm k")
  case (Some i)
  let ?x = "tpc_nv_store tpm ! i"
  have i: "i < length (tpc_nv_store tpm)" using nv_find_SomeD [OF Some] by simp
  have l: "length (snv_nv_data ?x) = 1024" "unat (snv_nv_data_size ?x) \<le> 1024" using sb_nv_wf_nth [OF assms(1) i] by simp_all
  have u: "unat (off + of_nat (length d)) = unat off + length d"
    using assms(2) u32_add [of off "of_nat (length d)"] unat_of_nat_u32 [of "length d"] by simp
  show ?thesis
  proof (cases "off + of_nat (length d) > snv_nv_data_size ?x")
    case True
    then show ?thesis using Some assms(1) by (auto simp: tpm_nv_write_def Let_def)
  next
    case False
    then have b: "unat off + length d \<le> 1024" using u l(2) by (simp add: word_less_nat_alt)
    have "sb_nv_wf (put_nv i (?x\<lparr>snv_nv_data := blit (snv_nv_data ?x) (unat off) d, snv_written := True\<rparr>) tpm)"
      using sb_nv_wf_put [OF assms(1) i, of "?x\<lparr>snv_nv_data := blit (snv_nv_data ?x) (unat off) d, snv_written := True\<rparr>"] b l by simp
    then show ?thesis using Some False b assms(1) by (auto simp: tpm_nv_write_def SBT_MAX_NV_DATA_SIZE_def Let_def put_nv_def)
  qed
qed (simp add: tpm_nv_write_def assms)

text \<open>Handles are numbered by the sessions in use, so a flushed one makes the next collide.\<close>

lemma session_handles_collide:
  assumes "tpc_sessions tpm = []"
  shows "let t1 = fst (sb_tpm_start_auth_session tpm a); t2 = fst (sb_tpm_start_auth_session t1 b);
       t3 = fst (sb_tpm_flush_context t2 0x02000000); t4 = fst (sb_tpm_start_auth_session t3 c)
   in map sse_session_handle (tpc_sessions t4) = [0x02000001, 0x02000001]"
  by (simp add: sb_tpm_start_auth_session_def sb_tpm_flush_context_def SBT_MAX_SESSIONS_def assms Let_def)

section \<open>Runs\<close>

datatype tpm_op = TpmStartup bool | TpmSelftest bool | TpmClear | TpmAllocate u32 u32 | TpmExtend u32 "bytes option" u32
  | TpmReset u32 | TpmDefine u32 SBTNVType u32 u32 u32 | TpmWrite u32 "bytes option" u32 | TpmIncrement u32
  | TpmReadLock u32 | TpmWriteLock u32 | TpmUndefine u32 | TpmStartSession SBTSessionType | TpmFlush u32
  | TpmLockReset | TpmAttack

fun tpm_step :: "tpm_op \<Rightarrow> TPMContext \<Rightarrow> TPMContext c_result" where
  "tpm_step (TpmStartup r) t = Returned (fst (tpm_startup t r))"
| "tpm_step (TpmSelftest f) t = Returned (fst (tpm_selftest t f))"
| "tpm_step TpmClear t = Returned (fst (tpm_clear t))"
| "tpm_step (TpmAllocate i a) t = Returned (fst (tpm_pcr_allocate t i a))"
| "tpm_step (TpmExtend i d a) t = Returned (fst (tpm_pcr_extend t i d a))"
| "tpm_step (TpmReset i) t = Returned (fst (tpm_pcr_reset t i))"
| "tpm_step (TpmDefine k ty at sz ah) t = Returned (fst (tpm_nv_define_space t k ty at sz ah))"
| "tpm_step (TpmWrite k d off) t =
     (case tpm_nv_write t k d off of Returned r \<Rightarrow> Returned (fst r) | Undefined \<Rightarrow> Undefined | Diverges \<Rightarrow> Diverges)"
| "tpm_step (TpmIncrement k) t = Returned (fst (tpm_nv_increment t k))"
| "tpm_step (TpmReadLock k) t = Returned (fst (tpm_nv_read_lock t k))"
| "tpm_step (TpmWriteLock k) t = Returned (fst (tpm_nv_write_lock t k))"
| "tpm_step (TpmUndefine k) t = Returned (fst (tpm_nv_undefine_space t k))"
| "tpm_step (TpmStartSession ty) t = Returned (fst (sb_tpm_start_auth_session t ty))"
| "tpm_step (TpmFlush h) t = Returned (fst (sb_tpm_flush_context t h))"
| "tpm_step TpmLockReset t = Returned (fst (tpm_dictionary_attack_lock_reset t))"
| "tpm_step TpmAttack t = Returned (fst (tpm_dictionary_attack_increment t))"

fun tpm_run :: "tpm_op list \<Rightarrow> TPMContext \<Rightarrow> TPMContext c_result" where
  "tpm_run [] t = Returned t"
| "tpm_run (p # ps) t =
     (case tpm_step p t of Returned t1 \<Rightarrow> tpm_run ps t1 | Undefined \<Rightarrow> Undefined | Diverges \<Rightarrow> Diverges)"

definition tpm_op_ok :: "tpm_op \<Rightarrow> bool" where
  "tpm_op_ok p = (case p of TpmWrite k (Some d) off \<Rightarrow> unat off + length d < 4294967296 | _ \<Rightarrow> True)"

lemma put_pcr_nv [simp]:
  "tpc_nv_store (put_pcr i p t) = tpc_nv_store t" "tpc_sessions (put_pcr i p t) = tpc_sessions t"
  "tpc_pcr_bank (put_nv j x t) = tpc_pcr_bank t"
  by (simp_all add: put_pcr_def put_nv_def)

lemma pcr_ops_nv [simp]:
  "tpc_nv_store (fst (tpm_pcr_reset t i)) = tpc_nv_store t" "tpc_sessions (fst (tpm_pcr_reset t i)) = tpc_sessions t"
  "tpc_nv_store (fst (tpm_pcr_extend t i d a)) = tpc_nv_store t" "tpc_sessions (fst (tpm_pcr_extend t i d a)) = tpc_sessions t"
  "tpc_nv_store (fst (tpm_pcr_allocate t i a)) = tpc_nv_store t" "tpc_sessions (fst (tpm_pcr_allocate t i a)) = tpc_sessions t"
  by (auto simp: tpm_pcr_reset_def tpm_pcr_extend_def tpm_pcr_allocate_def Let_def split: option.splits)

lemma reset_pcrs_nv [simp]:
  "tpc_nv_store (reset_pcrs is t) = tpc_nv_store t" "tpc_sessions (reset_pcrs is t) = tpc_sessions t"
  by (induction "is" arbitrary: t) (simp_all add: reset_pcrs_def)

lemma selftest_fold_nv:
  "tpc_nv_store (fst (fold selftest_pcr is st)) = tpc_nv_store (fst st)
    \<and> tpc_sessions (fst (fold selftest_pcr is st)) = tpc_sessions (fst st)"
proof (induction "is" arbitrary: st)
  case (Cons i "is")
  obtain t ok where st: "st = (t, ok)" by (cases st)
  obtain t1 r where e: "tpm_pcr_extend t (of_nat i) (Some (replicate 32 0xA5)) SBT_ALG_SHA256 = (t1, r)" by fastforce
  have "tpc_nv_store t1 = tpc_nv_store t" "tpc_sessions t1 = tpc_sessions t"
    using pcr_ops_nv(3,4) [of t "of_nat i" "Some (replicate 32 0xA5)" SBT_ALG_SHA256] by (simp_all add: e)
  then have "tpc_nv_store (fst (selftest_pcr i st)) = tpc_nv_store t \<and> tpc_sessions (fst (selftest_pcr i st)) = tpc_sessions t"
    by (simp add: st selftest_pcr_def Let_def e)
  then show ?case using Cons.IH [of "selftest_pcr i st"] by (simp add: st)
qed simp

lemma tpm_pcr_extend_wf:
  assumes "tpm_pcr_wf t"
  shows "tpm_pcr_wf (fst (tpm_pcr_extend t i d a))"
proof (cases "unat i < 24")
  case True
  then show ?thesis
    using assms tpm_pcr_wf_get [OF assms True] tpm_pcr_wf_put [OF assms]
    by (auto simp: tpm_pcr_extend_def SBT_MAX_PCRS_def Let_def length_sv_sha256_hash split: option.splits)
qed (auto simp: tpm_pcr_extend_def SBT_MAX_PCRS_def assms split: option.splits)

lemma tpm_pcr_allocate_wf:
  assumes "tpm_pcr_wf t"
  shows "tpm_pcr_wf (fst (tpm_pcr_allocate t i a))"
proof (cases "unat i < 24")
  case True
  let ?t1 = "put_pcr (unat i) ((get_pcr t (unat i))\<lparr>spc_digest := zeros 32, spc_hash_alg := a, spc_pcr_index := i,
      spc_extend_count := 0, spc_allocated := True\<rparr>) t"
  have "tpm_pcr_wf ?t1" using tpm_pcr_wf_put [OF assms] by simp
  then show ?thesis using True by (simp add: tpm_pcr_allocate_def SBT_MAX_PCRS_def Let_def tpm_pcr_wf_def)
qed (simp add: tpm_pcr_allocate_def SBT_MAX_PCRS_def assms)

lemma reset_pcrs_wf: "tpm_pcr_wf t \<Longrightarrow> tpm_pcr_wf (reset_pcrs is t)"
  by (induction "is" arbitrary: t) (simp_all add: reset_pcrs_def tpm_pcr_reset_wf)

lemma selftest_fold_wf: "tpm_pcr_wf (fst st) \<Longrightarrow> tpm_pcr_wf (fst (fold selftest_pcr is st))"
proof (induction "is" arbitrary: st)
  case (Cons i "is")
  obtain t ok where st: "st = (t, ok)" by (cases st)
  obtain t1 r where e: "tpm_pcr_extend t (of_nat i) (Some (replicate 32 0xA5)) SBT_ALG_SHA256 = (t1, r)" by fastforce
  have "tpm_pcr_wf t1"
    using tpm_pcr_extend_wf [of t "of_nat i" "Some (replicate 32 0xA5)" SBT_ALG_SHA256] Cons.prems by (simp add: e st)
  then have "tpm_pcr_wf (fst (selftest_pcr i st))"
    using Cons.prems by (simp add: st selftest_pcr_def Let_def e tpm_pcr_reset_wf)
  then show ?case using Cons.IH by simp
qed simp

lemma tpm_step_inv:
  assumes "tpm_pcr_wf t" and "sb_nv_wf t" and "tpm_op_ok p"
  shows "\<exists>t'. tpm_step p t = Returned t' \<and> tpm_pcr_wf t' \<and> sb_nv_wf t'"
proof -
  have bank: "tpm_pcr_wf t'" if "tpc_pcr_bank t' = tpc_pcr_bank t" for t'
    using that assms(1) by (simp add: tpm_pcr_wf_def)
  show ?thesis
  proof (cases p)
    case (TpmStartup r)
    then show ?thesis using assms reset_pcrs_wf [OF assms(1)] by (auto simp: tpm_startup_def Let_def tpm_pcr_wf_def sb_nv_wf_def)
  next
    case (TpmSelftest f)
    then show ?thesis using assms selftest_fold_wf [of "(t, True)"] selftest_fold_nv [of _ "(t, True)"]
      by (simp add: tpm_selftest_def sb_nv_wf_def)
  next
    case TpmClear
    have "tpm_pcr_wf (t\<lparr>tpc_nv_store := []\<rparr>)" using assms(1) by (simp add: tpm_pcr_wf_def)
    then show ?thesis using TpmClear assms reset_pcrs_wf [of "t\<lparr>tpc_nv_store := []\<rparr>" "[0..<SBT_MAX_PCRS]"]
      by (auto simp: tpm_clear_def tpm_pcr_wf_def sb_nv_wf_def)
  next
    case (TpmDefine k ty at sz ah)
    then show ?thesis using assms find_index_None_iff [of "\<lambda>x. snv_nv_index x = k" "tpc_nv_store t"]
      by (auto simp: tpm_nv_define_space_def SBT_MAX_NV_INDICES_def SBT_MAX_NV_DATA_SIZE_def nv_find_def sb_nv_wf_def tpm_pcr_wf_def)
  next
    case (TpmWrite k d off)
    show ?thesis
    proof (cases d)
      case None
      then show ?thesis using TpmWrite assms by (simp add: tpm_nv_write_def)
    next
      case (Some dd)
      then show ?thesis using tpm_nv_write_cases [OF assms(2), of off dd k] assms TpmWrite bank by (auto simp: tpm_op_ok_def)
    qed
  next
    case (TpmIncrement k)
    then show ?thesis
      using assms nv_find_SomeD [of t k] sb_nv_wf_put [OF assms(2)] sb_nv_wf_nth [OF assms(2)] bank
      by (auto simp: tpm_nv_increment_def Let_def split: option.splits)
  next
    case (TpmUndefine k)
    show ?thesis
    proof (cases "nv_find t k")
      case (Some i)
      have i: "i < length (tpc_nv_store t)" using nv_find_SomeD [OF Some] by simp
      obtain xs y zs where s: "tpc_nv_store t = xs @ y # zs" "take i (tpc_nv_store t) = xs" "drop (Suc i) (tpc_nv_store t) = zs"
        using split_at_nth [OF i] by metis
      note s(1)
      moreover have "tpm_step p t = Returned (t\<lparr>tpc_nv_store := xs @ zs\<rparr>)"
        using Some TpmUndefine s(2,3) by (simp add: tpm_nv_undefine_space_def)
      ultimately show ?thesis using assms bank by (auto simp: sb_nv_wf_def)
    qed (use assms TpmUndefine in \<open>simp add: tpm_nv_undefine_space_def\<close>)
  next
    case (TpmStartSession ty)
    then show ?thesis using assms
      by (auto simp: sb_tpm_start_auth_session_def SBT_MAX_SESSIONS_def Let_def sb_nv_wf_def tpm_pcr_wf_def)
  next
    case (TpmFlush h)
    then show ?thesis using assms
      by (auto simp: sb_tpm_flush_context_def sb_nv_wf_def tpm_pcr_wf_def split: option.splits)
  next
    case (TpmReadLock k)
    then show ?thesis
      using assms nv_find_SomeD [of t k] sb_nv_wf_put [OF assms(2)] sb_nv_wf_nth [OF assms(2)] bank
      by (auto simp: tpm_nv_read_lock_def Let_def split: option.splits)
  next
    case (TpmWriteLock k)
    then show ?thesis
      using assms nv_find_SomeD [of t k] sb_nv_wf_put [OF assms(2)] sb_nv_wf_nth [OF assms(2)] bank
      by (auto simp: tpm_nv_write_lock_def Let_def split: option.splits)
  next
    case (TpmAllocate i a)
    then show ?thesis using assms tpm_pcr_allocate_wf by (simp add: sb_nv_wf_def)
  next
    case (TpmExtend i d a)
    then show ?thesis using assms tpm_pcr_extend_wf by (simp add: sb_nv_wf_def)
  next
    case (TpmReset i)
    then show ?thesis using assms tpm_pcr_reset_wf by (simp add: sb_nv_wf_def)
  next
    case TpmLockReset
    then show ?thesis using assms by (simp add: tpm_dictionary_attack_lock_reset_def sb_nv_wf_def tpm_pcr_wf_def)
  next
    case TpmAttack
    then show ?thesis using assms by (simp add: tpm_dictionary_attack_increment_def Let_def sb_nv_wf_def tpm_pcr_wf_def)
  qed
qed

lemma tpm_run_inv:
  "tpm_pcr_wf t \<Longrightarrow> sb_nv_wf t \<Longrightarrow> \<forall>p \<in> set ps. tpm_op_ok p \<Longrightarrow>
    \<exists>t'. tpm_run ps t = Returned t' \<and> tpm_pcr_wf t' \<and> sb_nv_wf t'"
proof (induction ps arbitrary: t)
  case (Cons p ps)
  obtain t1 where "tpm_step p t = Returned t1" "tpm_pcr_wf t1" "sb_nv_wf t1" using tpm_step_inv Cons.prems by fastforce
  then show ?case using Cons by simp
qed simp

lemma tpm_init_wf: "tpm_pcr_wf tpm_init" "sb_nv_wf tpm_init"
  by code_simp+

end
