(* ===== verification/Root_Of_Trust.thy ===== *)
theory Root_Of_Trust
  imports Key_Mgmt
begin

text \<open>
  The root of trust of \<open>mini-secure-boot/src/root_of_trust.c\<close>.  A buffer with its length is one
  list; the address of the structure, which the device identifier shows, is a parameter.
\<close>

section \<open>State\<close>

definition ROT_MAX_KEY_HASH :: nat where "ROT_MAX_KEY_HASH = 32"
definition ROT_MAX_DEVICE_ID :: nat where "ROT_MAX_DEVICE_ID = 32"
definition ROT_ANTI_ROLLBACK_MAX :: u32 where "ROT_ANTI_ROLLBACK_MAX = 0xFFFFFFFF"

datatype RoTType = ROT_TYPE_ROM_BASED | ROT_TYPE_EFUSE | ROT_TYPE_PUF_BASED | ROT_TYPE_COUNT

datatype RoTBootPolicy = ROT_POLICY_LOCKED | ROT_POLICY_UNLOCKED | ROT_POLICY_TAMPERED

datatype RoTVerifyResult = ROT_VERIFY_OK | ROT_VERIFY_SIG_MISMATCH | ROT_VERIFY_ROLLBACK_BLOCKED
  | ROT_VERIFY_HASH_MISMATCH | ROT_VERIFY_DEVICE_LOCKED | ROT_VERIFY_IMAGE_CORRUPT

record RootOfTrust =
  rot_public_key_hash :: bytes
  rot_boot_policy :: RoTBootPolicy
  rot_anti_rollback_counter :: u32
  rot_device_secret :: bytes
  rot_device_id :: bytes
  rot_type :: RoTType
  rot_initialized :: bool

section \<open>Operations\<close>

fun rot_type_prefix :: "RoTType \<Rightarrow> string" where
  "rot_type_prefix ROT_TYPE_ROM_BASED = ''ROM''"
| "rot_type_prefix ROT_TYPE_EFUSE = ''FUSE''"
| "rot_type_prefix ROT_TYPE_PUF_BASED = ''PUF''"
| "rot_type_prefix ROT_TYPE_COUNT = ''UNK''"

definition rot_init :: "u32 \<Rightarrow> RoTType \<Rightarrow> RootOfTrust" where
  "rot_init addr ty = \<lparr>rot_public_key_hash = zeros 32, rot_boot_policy = ROT_POLICY_UNLOCKED, rot_anti_rollback_counter = 0,
     rot_device_secret = zeros 32,
     rot_device_id = take (ROT_MAX_DEVICE_ID - 1) (str_bytes (rot_type_prefix ty) @ str_bytes ''-DEV-'' @ hex8 addr),
     rot_type = ty, rot_initialized = True\<rparr>"

definition rot_check_counter :: "RootOfTrust option \<Rightarrow> u32 \<Rightarrow> bool" where
  "rot_check_counter rot min_required = (case rot of None \<Rightarrow> False | Some r \<Rightarrow> min_required \<ge> rot_anti_rollback_counter r)"

text \<open>The signature is only asked to be there.\<close>

definition rot_verify_first_stage ::
  "RootOfTrust option \<Rightarrow> bytes option \<Rightarrow> bytes option \<Rightarrow> u32 \<Rightarrow> RoTVerifyResult" where
  "rot_verify_first_stage rot stage_data sig version =
     (case rot of None \<Rightarrow> ROT_VERIFY_IMAGE_CORRUPT
      | Some r \<Rightarrow>
          if \<not> rot_initialized r then ROT_VERIFY_IMAGE_CORRUPT
          else (case (stage_data, sig) of
                  (Some d, Some s) \<Rightarrow>
                    if d = [] \<or> s = [] then ROT_VERIFY_IMAGE_CORRUPT
                    else if \<not> rot_check_counter (Some r) version then ROT_VERIFY_ROLLBACK_BLOCKED
                    else if sv_sha256_hash d = rot_public_key_hash r then ROT_VERIFY_OK
                    else ROT_VERIFY_SIG_MISMATCH
                | _ \<Rightarrow> ROT_VERIFY_IMAGE_CORRUPT))"

definition rot_lock_device :: "RootOfTrust \<Rightarrow> bytes option \<Rightarrow> RootOfTrust \<times> bool" where
  "rot_lock_device rot pk_hash =
     (case pk_hash of None \<Rightarrow> (rot, False)
      | Some h \<Rightarrow>
          if rot_boot_policy rot = ROT_POLICY_LOCKED then (rot, False)
          else (rot\<lparr>rot_public_key_hash := take ROT_MAX_KEY_HASH h, rot_boot_policy := ROT_POLICY_LOCKED\<rparr>, True))"

definition rot_is_locked :: "RootOfTrust option \<Rightarrow> bool" where
  "rot_is_locked rot = (case rot of None \<Rightarrow> False | Some r \<Rightarrow> rot_boot_policy r = ROT_POLICY_LOCKED)"

text \<open>What the caller's buffer of \<open>max_len\<close> bytes then starts with.\<close>

definition rot_get_device_id :: "RootOfTrust \<Rightarrow> nat \<Rightarrow> bytes option" where
  "rot_get_device_id rot max_len = (if max_len = 0 then None else Some (take (max_len - 1) (rot_device_id rot) @ [0]))"

definition rot_increment_counter :: "RootOfTrust \<Rightarrow> RootOfTrust \<times> bool" where
  "rot_increment_counter rot =
     (if rot_anti_rollback_counter rot \<ge> ROT_ANTI_ROLLBACK_MAX then (rot, False)
      else (rot\<lparr>rot_anti_rollback_counter := rot_anti_rollback_counter rot + 1\<rparr>, True))"

fun rot_verify_result_str :: "RoTVerifyResult \<Rightarrow> string" where
  "rot_verify_result_str ROT_VERIFY_OK = ''OK''"
| "rot_verify_result_str ROT_VERIFY_SIG_MISMATCH = ''SIGNATURE_MISMATCH''"
| "rot_verify_result_str ROT_VERIFY_ROLLBACK_BLOCKED = ''ROLLBACK_BLOCKED''"
| "rot_verify_result_str ROT_VERIFY_HASH_MISMATCH = ''HASH_MISMATCH''"
| "rot_verify_result_str ROT_VERIFY_DEVICE_LOCKED = ''DEVICE_LOCKED''"
| "rot_verify_result_str ROT_VERIFY_IMAGE_CORRUPT = ''IMAGE_CORRUPT''"

definition rot_derive_device_secret :: "RootOfTrust \<Rightarrow> bytes option \<Rightarrow> RootOfTrust \<times> bool" where
  "rot_derive_device_secret rot seed =
     (case seed of None \<Rightarrow> (rot, False)
      | Some s \<Rightarrow>
          if s = [] then (rot, False)
          else if rot_boot_policy rot = ROT_POLICY_TAMPERED then (rot, False)
          else let s1 = (if length s > 64 then take 64 s else s)
               in (rot\<lparr>rot_device_secret := sv_sha256_hash (s1 @ rot_public_key_hash rot)\<rparr>, True))"

text \<open>The digests of the stages are compared, and the comparison is not used.\<close>

fun stages_present :: "bytes option list \<Rightarrow> bool" where
  "stages_present [] = True"
| "stages_present (st # sts) = (case st of None \<Rightarrow> False | Some d \<Rightarrow> if d = [] then False else stages_present sts)"

definition rot_verify_chained :: "RootOfTrust option \<Rightarrow> bytes option list option \<Rightarrow> bool" where
  "rot_verify_chained rot stages =
     (case stages of None \<Rightarrow> False
      | Some sts \<Rightarrow> if rot = None \<or> sts = [] then False
                   else if \<not> rot_is_locked rot then False else stages_present sts)"

section \<open>Runs\<close>

datatype rot_op = RotLock "bytes option" | RotIncrement | RotDerive "bytes option"

fun rot_step :: "rot_op \<Rightarrow> RootOfTrust \<Rightarrow> RootOfTrust" where
  "rot_step (RotLock h) r = fst (rot_lock_device r h)"
| "rot_step RotIncrement r = fst (rot_increment_counter r)"
| "rot_step (RotDerive s) r = fst (rot_derive_device_secret r s)"

definition rot_run :: "rot_op list \<Rightarrow> RootOfTrust \<Rightarrow> RootOfTrust" where
  "rot_run ps r = fold rot_step ps r"

text \<open>One state follows another: locked stays locked on the same key, the counter only rises.\<close>

definition rot_follows :: "RootOfTrust \<Rightarrow> RootOfTrust \<Rightarrow> bool" where
  "rot_follows r r' \<longleftrightarrow> rot_anti_rollback_counter r \<le> rot_anti_rollback_counter r' \<and> rot_initialized r' = rot_initialized r
     \<and> rot_device_id r' = rot_device_id r
     \<and> (rot_boot_policy r = ROT_POLICY_LOCKED \<longrightarrow>
          rot_boot_policy r' = ROT_POLICY_LOCKED \<and> rot_public_key_hash r' = rot_public_key_hash r)"

lemma rot_increment_le:
  "rot_anti_rollback_counter r \<le> rot_anti_rollback_counter (fst (rot_increment_counter r))"
proof (cases "rot_anti_rollback_counter r \<ge> ROT_ANTI_ROLLBACK_MAX")
  case False
  then have "unat (rot_anti_rollback_counter r) + 1 < 4294967296"
    by (simp add: ROT_ANTI_ROLLBACK_MAX_def word_le_nat_alt)
  then have "unat (rot_anti_rollback_counter r + 1) = unat (rot_anti_rollback_counter r) + 1"
    using u32_add [of "rot_anti_rollback_counter r" 1] by simp
  then show ?thesis using False by (simp add: rot_increment_counter_def word_le_nat_alt)
qed (simp add: rot_increment_counter_def)

lemma rot_step_follows: "rot_follows r (rot_step p r)"
proof (cases p)
  case RotIncrement
  then show ?thesis using rot_increment_le [of r]
    by (auto simp: rot_follows_def rot_increment_counter_def)
qed (auto simp: rot_follows_def rot_lock_device_def rot_derive_device_secret_def Let_def split: option.splits)

lemma rot_run_follows: "rot_follows r (rot_run ps r)"
proof (induction ps arbitrary: r)
  case (Cons p ps)
  have "rot_follows r (rot_step p r)" "rot_follows (rot_step p r) (rot_run ps (rot_step p r))"
    using rot_step_follows Cons by blast+
  then have "rot_follows r (rot_run ps (rot_step p r))" unfolding rot_follows_def by (auto intro: order_trans)
  then show ?case by (simp add: rot_run_def)
qed (simp add: rot_run_def rot_follows_def)

lemma rot_chained_accepts:
  "rot_verify_chained (Some r) (Some sts) \<longleftrightarrow> sts \<noteq> [] \<and> rot_boot_policy r = ROT_POLICY_LOCKED
    \<and> (\<forall>st \<in> set sts. \<exists>d. st = Some d \<and> d \<noteq> [])"
proof -
  have "stages_present xs \<longleftrightarrow> (\<forall>st \<in> set xs. \<exists>d. st = Some d \<and> d \<noteq> [])" for xs
    by (induction xs) (auto split: option.splits)
  then show ?thesis by (auto simp: rot_verify_chained_def rot_is_locked_def)
qed

end
