(* ===== verification/Fw_Capsule.thy ===== *)
theory Fw_Capsule
  imports Sig_Verify
begin

text \<open>
  Capsule updates of \<open>mini-secure-boot/src/firmware_update.c\<close>.  The staging area is the bytes of
  the array; the capsule header takes its first 28 bytes, the image header the 52 after them,
  both little endian without padding.
\<close>

section \<open>State\<close>

definition FW_UPDATE_MODE_NORMAL :: u32 where "FW_UPDATE_MODE_NORMAL = 0"
definition FW_UPDATE_MODE_STAGING :: u32 where "FW_UPDATE_MODE_STAGING = 1"
definition FW_UPDATE_MODE_COMMIT :: u32 where "FW_UPDATE_MODE_COMMIT = 2"
definition FW_MAX_CAPSULE_SIZE :: nat where "FW_MAX_CAPSULE_SIZE = 4 * 1024 * 1024"

record RSAKey_256 =
  rk256_modulus :: bytes
  rk256_exponent :: bytes
  rk256_mod_len :: u32
  rk256_exp_len :: u32

record FWGUID =
  fwg_data1 :: u32
  fwg_data2 :: u16
  fwg_data3 :: u16
  fwg_data4 :: bytes

record FWCapsule =
  fwc_capsule_guid :: FWGUID
  fwc_header_size :: u32
  fwc_flags :: u32
  fwc_capsule_image_size :: u32

record FWImageHeader =
  fwi_version :: u32
  fwi_lowest_supported_version :: u32
  fwi_update_image_size :: u32
  fwi_update_image_offset :: u32
  fwi_vendor_code :: bytes
  fwi_checksum :: u32

datatype FWVerifyResult = FW_VERIFY_OK | FW_VERIFY_SIG_FAIL | FW_VERIFY_ROLLBACK | FW_VERIFY_CORRUPT
  | FW_VERIFY_INCOMPATIBLE | FW_VERIFY_SIZE_LIMIT

record FWUpdateContext =
  fwu_staging_area :: bytes
  fwu_staging_size :: u32
  fwu_update_mode :: u32
  fwu_current_version :: u32
  fwu_lowest_supported_version :: u32
  fwu_update_pending :: bool

definition sizeof_FWCapsule :: nat where "sizeof_FWCapsule = 28"
definition sizeof_FWImageHeader :: nat where "sizeof_FWImageHeader = 52"

definition FW_CAPSULE_GUID_DATA :: FWGUID where
  "FW_CAPSULE_GUID_DATA = \<lparr>fwg_data1 = 0x6DCBD5BA, fwg_data2 = 0xE82A, fwg_data3 = 0x4C44,
     fwg_data4 = [0xBF, 0xD6, 0x3F, 0x63, 0xD8, 0x2C, 0x5A, 0x33]\<rparr>"

text \<open>The structures in memory.\<close>

definition le16_bytes_of :: "u16 \<Rightarrow> bytes" where
  "le16_bytes_of h = [ucast h, ucast (drop_bit 8 h)]"

definition capsule_bytes :: "FWCapsule \<Rightarrow> bytes" where
  "capsule_bytes c = (let g = fwc_capsule_guid c in
     rev (be32_bytes (fwg_data1 g)) @ le16_bytes_of (fwg_data2 g) @ le16_bytes_of (fwg_data3 g) @ fwg_data4 g
       @ rev (be32_bytes (fwc_header_size c)) @ rev (be32_bytes (fwc_flags c)) @ rev (be32_bytes (fwc_capsule_image_size c)))"

definition read_capsule :: "bytes \<Rightarrow> FWCapsule" where
  "read_capsule a = \<lparr>fwc_capsule_guid = \<lparr>fwg_data1 = le32_at a 0, fwg_data2 = le16 (a ! 4) (a ! 5),
       fwg_data3 = le16 (a ! 6) (a ! 7), fwg_data4 = sub_range a 8 8\<rparr>,
     fwc_header_size = le32_at a 16, fwc_flags = le32_at a 20, fwc_capsule_image_size = le32_at a 24\<rparr>"

definition read_image_header :: "bytes \<Rightarrow> FWImageHeader" where
  "read_image_header a = \<lparr>fwi_version = le32_at a 28, fwi_lowest_supported_version = le32_at a 32,
     fwi_update_image_size = le32_at a 36, fwi_update_image_offset = le32_at a 40,
     fwi_vendor_code = sub_range a 44 32, fwi_checksum = le32_at a 76\<rparr>"

section \<open>Operations\<close>

definition fw_compute_checksum :: "bytes \<Rightarrow> u32" where
  "fw_compute_checksum data = fold (\<lambda>b sum. sum + ucast b) data 0"

definition fw_capsule_init :: FWUpdateContext where
  "fw_capsule_init = \<lparr>fwu_staging_area = zeros FW_MAX_CAPSULE_SIZE, fwu_staging_size = 0,
     fwu_update_mode = FW_UPDATE_MODE_NORMAL, fwu_current_version = 1, fwu_lowest_supported_version = 1,
     fwu_update_pending = False\<rparr>"

definition fw_capsule_set_image ::
  "FWUpdateContext \<Rightarrow> FWCapsule option \<Rightarrow> bytes option \<Rightarrow> FWUpdateContext \<times> bool" where
  "fw_capsule_set_image ctx capsule payload =
     (case (capsule, payload) of
        (Some c, Some p) \<Rightarrow>
          if length p > FW_MAX_CAPSULE_SIZE - sizeof_FWCapsule then (ctx, False)
          else (ctx\<lparr>fwu_staging_area := blit (blit (fwu_staging_area ctx) 0 (capsule_bytes c)) sizeof_FWCapsule p,
                    fwu_staging_size := of_nat (sizeof_FWCapsule + length p),
                    fwu_update_mode := FW_UPDATE_MODE_STAGING\<rparr>, True)
      | _ \<Rightarrow> (ctx, False))"

text \<open>
  The signature block computes a digest and copies the key, and uses neither; all it can do is
  read beyond the staging area.
\<close>

definition fw_capsule_validate :: "FWUpdateContext option \<Rightarrow> RSAKey_256 option \<Rightarrow> FWVerifyResult c_result" where
  "fw_capsule_validate ctx trusted_key =
     (case (ctx, trusted_key) of
        (Some ctx, Some key) \<Rightarrow>
          if fwu_update_mode ctx \<noteq> FW_UPDATE_MODE_STAGING then Returned FW_VERIFY_CORRUPT
          else if unat (fwu_staging_size ctx) < sizeof_FWCapsule + sizeof_FWImageHeader then Returned FW_VERIFY_CORRUPT
          else (let capsule = read_capsule (fwu_staging_area ctx);
                    payload_size = unat (fwu_staging_size ctx) - sizeof_FWCapsule;
                    payload = drop sizeof_FWCapsule (fwu_staging_area ctx);
                    img = read_image_header (fwu_staging_area ctx)
                in if fwc_capsule_guid capsule \<noteq> FW_CAPSULE_GUID_DATA then Returned FW_VERIFY_CORRUPT
                   else if fwc_capsule_image_size capsule + fwc_header_size capsule > of_nat FW_MAX_CAPSULE_SIZE
                   then Returned FW_VERIFY_SIZE_LIMIT
                   else if payload_size < sizeof_FWImageHeader then Returned FW_VERIFY_CORRUPT
                   else if fwi_version img < fwu_lowest_supported_version ctx then Returned FW_VERIFY_ROLLBACK
                   else if fwi_lowest_supported_version img > fwu_current_version ctx then Returned FW_VERIFY_INCOMPATIBLE
                   else if fwi_checksum img \<noteq> 0
                        \<and> fw_compute_checksum (take (sizeof_FWImageHeader - 4) payload) \<noteq> fwi_checksum img
                   then Returned FW_VERIFY_CORRUPT
                   else if fwi_update_image_offset img > 0 \<and> fwi_update_image_offset img < fwi_update_image_size img
                        \<and> unat (fwi_update_image_offset img) + unat (fwi_update_image_size img) > length payload
                   then Undefined
                   else Returned FW_VERIFY_OK)
      | _ \<Rightarrow> Returned FW_VERIFY_CORRUPT)"

definition fw_capsule_process :: "FWUpdateContext \<Rightarrow> FWUpdateContext \<times> bool" where
  "fw_capsule_process ctx =
     (if fwu_update_mode ctx \<noteq> FW_UPDATE_MODE_STAGING then (ctx, False)
      else if unat (fwu_staging_size ctx) < sizeof_FWCapsule + sizeof_FWImageHeader then (ctx, False)
      else let img = read_image_header (fwu_staging_area ctx);
               c1 = ctx\<lparr>fwu_current_version := fwi_version img\<rparr>;
               c2 = (if fwi_lowest_supported_version img > fwu_lowest_supported_version c1
                     then c1\<lparr>fwu_lowest_supported_version := fwi_lowest_supported_version img\<rparr> else c1)
           in (c2\<lparr>fwu_update_mode := FW_UPDATE_MODE_COMMIT, fwu_update_pending := True\<rparr>, True))"

definition fw_capsule_commit :: "FWUpdateContext \<Rightarrow> FWUpdateContext \<times> bool" where
  "fw_capsule_commit ctx =
     (if \<not> fwu_update_pending ctx then (ctx, False)
      else (ctx\<lparr>fwu_update_pending := False, fwu_update_mode := FW_UPDATE_MODE_NORMAL\<rparr>, True))"

definition fw_capsule_rollback :: "FWUpdateContext \<Rightarrow> FWUpdateContext \<times> bool" where
  "fw_capsule_rollback ctx =
     (ctx\<lparr>fwu_update_pending := False, fwu_update_mode := FW_UPDATE_MODE_NORMAL,
          fwu_staging_area := zeros FW_MAX_CAPSULE_SIZE, fwu_staging_size := 0\<rparr>, True)"

definition fw_capsule_get_version :: "FWUpdateContext option \<Rightarrow> u32" where
  "fw_capsule_get_version ctx = (case ctx of None \<Rightarrow> 0 | Some c \<Rightarrow> fwu_current_version c)"

fun fw_verify_result_str :: "FWVerifyResult \<Rightarrow> string" where
  "fw_verify_result_str FW_VERIFY_OK = ''OK''"
| "fw_verify_result_str FW_VERIFY_SIG_FAIL = ''SIGNATURE_VERIFICATION_FAILED''"
| "fw_verify_result_str FW_VERIFY_ROLLBACK = ''ROLLBACK_BLOCKED''"
| "fw_verify_result_str FW_VERIFY_CORRUPT = ''CORRUPT_CAPSULE''"
| "fw_verify_result_str FW_VERIFY_INCOMPATIBLE = ''INCOMPATIBLE_VERSION''"
| "fw_verify_result_str FW_VERIFY_SIZE_LIMIT = ''CAPSULE_SIZE_EXCEEDED''"

section \<open>Staging\<close>

text \<open>What is staged is read back, header and payload.\<close>

lemma le32_at_rev_be32: "n = length xs \<Longrightarrow> le32_at (xs @ rev (be32_bytes v) @ ys) n = v"
  by (simp add: le32_at_def be32_bytes_def nth_append)

lemma length_capsule_bytes [simp]: "length (fwg_data4 (fwc_capsule_guid c)) = 8 \<Longrightarrow> length (capsule_bytes c) = 28"
  by (simp add: capsule_bytes_def le16_bytes_of_def Let_def)

lemma read_capsule_bytes:
  assumes "length (fwg_data4 (fwc_capsule_guid c)) = 8"
  shows "read_capsule (capsule_bytes c @ ys) = c"
proof -
  obtain g hs fl sz where c: "c = \<lparr>fwc_capsule_guid = g, fwc_header_size = hs, fwc_flags = fl, fwc_capsule_image_size = sz\<rparr>"
    by (cases c) auto
  obtain d1 d2 d3 d4 where g: "g = \<lparr>fwg_data1 = d1, fwg_data2 = d2, fwg_data3 = d3, fwg_data4 = d4\<rparr>" by (cases g) auto
  have l: "length d4 = 8" using assms by (simp add: c g)
  let ?h = "le16_bytes_of d2 @ le16_bytes_of d3 @ d4"
  have b: "capsule_bytes c = rev (be32_bytes d1) @ ?h @ rev (be32_bytes hs) @ rev (be32_bytes fl) @ rev (be32_bytes sz)"
    by (simp add: capsule_bytes_def c g)
  have "le32_at (capsule_bytes c @ ys) 0 = d1" "le32_at (capsule_bytes c @ ys) 16 = hs"
    "le32_at (capsule_bytes c @ ys) 20 = fl" "le32_at (capsule_bytes c @ ys) 24 = sz"
    using le32_at_rev_be32 [of 0 "[]" d1] le32_at_rev_be32 [of 16 "rev (be32_bytes d1) @ ?h" hs]
      le32_at_rev_be32 [of 20 "rev (be32_bytes d1) @ ?h @ rev (be32_bytes hs)" fl]
      le32_at_rev_be32 [of 24 "rev (be32_bytes d1) @ ?h @ rev (be32_bytes hs) @ rev (be32_bytes fl)" sz] l
    by (simp_all add: b le16_bytes_of_def)
  moreover have "le16 ((capsule_bytes c @ ys) ! 4) ((capsule_bytes c @ ys) ! 5) = d2"
    "le16 ((capsule_bytes c @ ys) ! 6) ((capsule_bytes c @ ys) ! 7) = d3"
    using le16_split [of d2] le16_split [of d3]
    by (simp_all add: b nth_append be32_bytes_def le16_bytes_of_def)
  moreover have "sub_range (capsule_bytes c @ ys) 8 8 = d4"
    using l by (simp add: b sub_range_def be32_bytes_def le16_bytes_of_def)
  ultimately show ?thesis by (simp add: read_capsule_def c g)
qed

text \<open>The staging area has its 4 MiB and what is staged fits it; the modes are the three named ones.\<close>

definition fwu_inv :: "FWUpdateContext \<Rightarrow> bool" where
  "fwu_inv c \<longleftrightarrow> length (fwu_staging_area c) = FW_MAX_CAPSULE_SIZE \<and> unat (fwu_staging_size c) \<le> FW_MAX_CAPSULE_SIZE
     \<and> fwu_update_mode c \<in> {FW_UPDATE_MODE_NORMAL, FW_UPDATE_MODE_STAGING, FW_UPDATE_MODE_COMMIT}
     \<and> (fwu_update_mode c = FW_UPDATE_MODE_COMMIT \<longrightarrow> fwu_update_pending c)
     \<and> (fwu_update_pending c \<longrightarrow> fwu_update_mode c \<noteq> FW_UPDATE_MODE_NORMAL)"

lemma fw_modes [simp]:
  "FW_UPDATE_MODE_NORMAL \<noteq> FW_UPDATE_MODE_STAGING" "FW_UPDATE_MODE_NORMAL \<noteq> FW_UPDATE_MODE_COMMIT"
  "FW_UPDATE_MODE_STAGING \<noteq> FW_UPDATE_MODE_COMMIT" "FW_UPDATE_MODE_STAGING \<noteq> FW_UPDATE_MODE_NORMAL"
  "FW_UPDATE_MODE_COMMIT \<noteq> FW_UPDATE_MODE_NORMAL" "FW_UPDATE_MODE_COMMIT \<noteq> FW_UPDATE_MODE_STAGING"
  by (simp_all add: FW_UPDATE_MODE_NORMAL_def FW_UPDATE_MODE_STAGING_def FW_UPDATE_MODE_COMMIT_def)

lemma fw_set_image_staged:
  assumes "length (fwu_staging_area ctx) = FW_MAX_CAPSULE_SIZE" and "length (fwg_data4 (fwc_capsule_guid c)) = 8"
    and "fw_capsule_set_image ctx (Some c) (Some p) = (ctx', True)"
  shows "fwu_staging_area ctx' = capsule_bytes c @ p @ drop (28 + length p) (fwu_staging_area ctx)"
    and "length (fwu_staging_area ctx') = FW_MAX_CAPSULE_SIZE" and "unat (fwu_staging_size ctx') = 28 + length p"
    and "28 + length p \<le> FW_MAX_CAPSULE_SIZE"
proof -
  have p: "length p \<le> FW_MAX_CAPSULE_SIZE - 28" and e: "ctx' = ctx\<lparr>
      fwu_staging_area := blit (blit (fwu_staging_area ctx) 0 (capsule_bytes c)) sizeof_FWCapsule p,
      fwu_staging_size := of_nat (sizeof_FWCapsule + length p), fwu_update_mode := FW_UPDATE_MODE_STAGING\<rparr>"
    using assms(3) by (auto simp: fw_capsule_set_image_def sizeof_FWCapsule_def split: if_splits)
  have m: "FW_MAX_CAPSULE_SIZE = 4194304" by (simp add: FW_MAX_CAPSULE_SIZE_def)
  have c: "length (capsule_bytes c) = 28" using assms(2) by simp
  have b: "blit (fwu_staging_area ctx) 0 (capsule_bytes c) = capsule_bytes c @ drop 28 (fwu_staging_area ctx)"
    by (simp add: blit_def c)
  show a: "fwu_staging_area ctx' = capsule_bytes c @ p @ drop (28 + length p) (fwu_staging_area ctx)"
    by (simp add: e b) (simp add: blit_def c sizeof_FWCapsule_def add.commute)
  show "length (fwu_staging_area ctx') = FW_MAX_CAPSULE_SIZE" using p by (simp add: a c assms(1) m)
  show "unat (fwu_staging_size ctx') = 28 + length p"
    using unat_of_nat_u32 [of "28 + length p"] p by (simp add: e sizeof_FWCapsule_def m)
  show "28 + length p \<le> FW_MAX_CAPSULE_SIZE" using p m by simp
qed

datatype fwu_op = FwuSet FWCapsule bytes | FwuProcess | FwuCommit | FwuRollback

fun fwu_step :: "fwu_op \<Rightarrow> FWUpdateContext \<Rightarrow> FWUpdateContext" where
  "fwu_step (FwuSet c p) ctx = fst (fw_capsule_set_image ctx (Some c) (Some p))"
| "fwu_step FwuProcess ctx = fst (fw_capsule_process ctx)"
| "fwu_step FwuCommit ctx = fst (fw_capsule_commit ctx)"
| "fwu_step FwuRollback ctx = fst (fw_capsule_rollback ctx)"

definition fwu_run :: "fwu_op list \<Rightarrow> FWUpdateContext \<Rightarrow> FWUpdateContext" where
  "fwu_run qs ctx = fold fwu_step qs ctx"

definition fwu_op_ok :: "fwu_op \<Rightarrow> bool" where
  "fwu_op_ok q = (case q of FwuSet c p \<Rightarrow> length (fwg_data4 (fwc_capsule_guid c)) = 8 | _ \<Rightarrow> True)"

lemma fwu_step_inv:
  assumes "fwu_inv ctx" and "fwu_op_ok q"
  shows "fwu_inv (fwu_step q ctx) \<and> fwu_lowest_supported_version ctx \<le> fwu_lowest_supported_version (fwu_step q ctx)"
proof (cases q)
  case (FwuSet c p)
  show ?thesis
  proof (cases "snd (fw_capsule_set_image ctx (Some c) (Some p))")
    case True
    then have s: "fw_capsule_set_image ctx (Some c) (Some p) = (fwu_step q ctx, True)" by (simp add: FwuSet prod_eq_iff)
    have m: "fwu_update_mode (fwu_step q ctx) = FW_UPDATE_MODE_STAGING"
      "fwu_lowest_supported_version (fwu_step q ctx) = fwu_lowest_supported_version ctx"
      using True by (auto simp: FwuSet fw_capsule_set_image_def)
    show ?thesis using fw_set_image_staged(2-4) [OF _ _ s] assms m by (simp add: fwu_inv_def fwu_op_ok_def FwuSet)
  next
    case False
    then show ?thesis using assms by (simp add: FwuSet fw_capsule_set_image_def split: if_splits)
  qed
next
  case FwuProcess
  then show ?thesis using assms by (auto simp: fw_capsule_process_def fwu_inv_def Let_def)
qed (use assms in \<open>auto simp: fw_capsule_commit_def fw_capsule_rollback_def fwu_inv_def\<close>)

lemma fwu_run_inv:
  "fwu_inv ctx \<Longrightarrow> \<forall>q \<in> set qs. fwu_op_ok q \<Longrightarrow>
    fwu_inv (fwu_run qs ctx) \<and> fwu_lowest_supported_version ctx \<le> fwu_lowest_supported_version (fwu_run qs ctx)"
proof (induction qs arbitrary: ctx)
  case (Cons q qs)
  have s: "fwu_inv (fwu_step q ctx)" "fwu_lowest_supported_version ctx \<le> fwu_lowest_supported_version (fwu_step q ctx)"
    using fwu_step_inv [of ctx q] Cons.prems by simp_all
  then show ?case using Cons.IH [OF s(1)] Cons.prems(2) by (auto simp: fwu_run_def intro: order_trans)
qed (simp add: fwu_run_def)

lemma fwu_inv_init: "fwu_inv fw_capsule_init"
  by (simp add: fwu_inv_def fw_capsule_init_def)

text \<open>What a capsule that is accepted and then applied guarantees, and what it does not.\<close>

lemma fw_validated_process:
  assumes "fw_capsule_validate (Some ctx) (Some key) = Returned FW_VERIFY_OK" and "fwu_inv ctx"
  defines "img \<equiv> read_image_header (fwu_staging_area ctx)"
  shows "\<exists>ctx'. fw_capsule_process ctx = (ctx', True) \<and> fwu_current_version ctx' = fwi_version img
    \<and> fwu_lowest_supported_version ctx \<le> fwu_current_version ctx'
    \<and> fwu_lowest_supported_version ctx' = max (fwu_lowest_supported_version ctx) (fwi_lowest_supported_version img)
    \<and> fwi_lowest_supported_version img \<le> fwu_current_version ctx"
  using assms(1)
  by (auto simp: fw_capsule_validate_def fw_capsule_process_def Let_def max_def img_def not_less split: if_splits)

text \<open>
  A capsule in its order and an image it may carry: the version is at or above the floor, the one
  it asks for is at most the running one, and its checksum is right or left out.
\<close>

definition image_header_bytes :: "FWImageHeader \<Rightarrow> bytes" where
  "image_header_bytes i = rev (be32_bytes (fwi_version i)) @ rev (be32_bytes (fwi_lowest_supported_version i))
     @ rev (be32_bytes (fwi_update_image_size i)) @ rev (be32_bytes (fwi_update_image_offset i)) @ fwi_vendor_code i
     @ rev (be32_bytes (fwi_checksum i))"

definition capsule_acceptable :: "FWUpdateContext \<Rightarrow> FWCapsule \<Rightarrow> FWImageHeader \<Rightarrow> bytes \<Rightarrow> bool" where
  "capsule_acceptable ctx c i body \<longleftrightarrow> fwc_capsule_guid c = FW_CAPSULE_GUID_DATA
     \<and> fwc_capsule_image_size c + fwc_header_size c \<le> of_nat FW_MAX_CAPSULE_SIZE
     \<and> length (fwi_vendor_code i) = 32 \<and> 80 + length body \<le> FW_MAX_CAPSULE_SIZE
     \<and> fwu_lowest_supported_version ctx \<le> fwi_version i \<and> fwi_lowest_supported_version i \<le> fwu_current_version ctx
     \<and> fwi_checksum i \<in> {0, fw_compute_checksum (take 48 (image_header_bytes i))} \<and> fwi_update_image_offset i = 0"

lemma length_image_header_bytes: "length (fwi_vendor_code i) = 32 \<Longrightarrow> length (image_header_bytes i) = 52"
  by (simp add: image_header_bytes_def)

lemma read_image_header_bytes:
  assumes "length (fwi_vendor_code i) = 32" and "length xs = 28"
  shows "read_image_header (xs @ image_header_bytes i @ ys) = i"
proof -
  obtain v l sz off vc cs where i: "i = \<lparr>fwi_version = v, fwi_lowest_supported_version = l, fwi_update_image_size = sz,
      fwi_update_image_offset = off, fwi_vendor_code = vc, fwi_checksum = cs\<rparr>" by (cases i) auto
  have vc: "length vc = 32" using assms(1) by (simp add: i)
  let ?b = "\<lambda>v. rev (be32_bytes v)"
  let ?a = "xs @ image_header_bytes i @ ys"
  have "le32_at ?a 28 = v" "le32_at ?a 32 = l" "le32_at ?a 36 = sz" "le32_at ?a 40 = off" "le32_at ?a 76 = cs"
    using le32_at_rev_be32 [of 28 xs v "?b l @ ?b sz @ ?b off @ vc @ ?b cs @ ys"]
      le32_at_rev_be32 [of 32 "xs @ ?b v" l "?b sz @ ?b off @ vc @ ?b cs @ ys"]
      le32_at_rev_be32 [of 36 "xs @ ?b v @ ?b l" sz "?b off @ vc @ ?b cs @ ys"]
      le32_at_rev_be32 [of 40 "xs @ ?b v @ ?b l @ ?b sz" off "vc @ ?b cs @ ys"]
      le32_at_rev_be32 [of 76 "xs @ ?b v @ ?b l @ ?b sz @ ?b off @ vc" cs ys] vc assms(2)
    by (simp_all add: image_header_bytes_def i)
  moreover have "sub_range ?a 44 32 = vc"
    using vc assms(2) by (simp add: image_header_bytes_def i sub_range_def)
  ultimately show ?thesis by (simp add: read_image_header_def i)
qed

lemma fw_acceptable_validates:
  assumes "length (fwu_staging_area ctx) = FW_MAX_CAPSULE_SIZE" and ok: "capsule_acceptable ctx c i body"
  shows "\<exists>ctx'. fw_capsule_set_image ctx (Some c) (Some (image_header_bytes i @ body)) = (ctx', True)
    \<and> fw_capsule_validate (Some ctx') (Some key) = Returned FW_VERIFY_OK
    \<and> read_image_header (fwu_staging_area ctx') = i \<and> fwu_update_mode ctx' = FW_UPDATE_MODE_STAGING
    \<and> fwu_lowest_supported_version ctx' = fwu_lowest_supported_version ctx \<and> fwu_current_version ctx' = fwu_current_version ctx"
proof -
  let ?p = "image_header_bytes i @ body"
  define ctx' where "ctx' = fst (fw_capsule_set_image ctx (Some c) (Some ?p))"
  have vc: "length (fwi_vendor_code i) = 32" using ok by (simp add: capsule_acceptable_def)
  note li = length_image_header_bytes [OF vc]
  have fits: "length ?p \<le> FW_MAX_CAPSULE_SIZE - sizeof_FWCapsule"
    using ok li by (simp add: capsule_acceptable_def sizeof_FWCapsule_def FW_MAX_CAPSULE_SIZE_def)
  have s: "fw_capsule_set_image ctx (Some c) (Some ?p) = (ctx', True)"
    using fits by (simp add: ctx'_def fw_capsule_set_image_def)
  have m: "fwu_update_mode ctx' = FW_UPDATE_MODE_STAGING" "fwu_current_version ctx' = fwu_current_version ctx"
    "fwu_lowest_supported_version ctx' = fwu_lowest_supported_version ctx"
    using fits by (simp_all add: ctx'_def fw_capsule_set_image_def)
  have g: "length (fwg_data4 (fwc_capsule_guid c)) = 8"
    using ok by (simp add: capsule_acceptable_def FW_CAPSULE_GUID_DATA_def)
  note st = fw_set_image_staged [OF assms(1) g s]
  have a: "fwu_staging_area ctx' = capsule_bytes c @ image_header_bytes i @ body @ drop (28 + length ?p) (fwu_staging_area ctx)"
    using st(1) by simp
  have r: "read_image_header (fwu_staging_area ctx') = i" "read_capsule (fwu_staging_area ctx') = c"
    unfolding a using read_image_header_bytes [OF vc] read_capsule_bytes [OF g] g by simp_all
  have t: "take 48 (drop 28 (fwu_staging_area ctx')) = take 48 (image_header_bytes i)"
    unfolding a using g li by simp
  have "fw_capsule_validate (Some ctx') (Some key) = Returned FW_VERIFY_OK"
    using ok st(3) li r t m
    by (auto simp: fw_capsule_validate_def capsule_acceptable_def Let_def sizeof_FWCapsule_def sizeof_FWImageHeader_def not_less)
  with s r m show ?thesis by blast
qed

end
