(* ===== verification/Tpm_Keys.thy ===== *)
theory Tpm_Keys
  imports Pcr_Bank
begin

text \<open>
  Keys of the measured-boot library, \<open>mini-measured-boot/src/tpm_keys.c\<close> with \<open>tpm_keys.h\<close> and
  \<open>hmac_tpm.h\<close>, and the names of \<open>tpm2_structs.c\<close>.  The used slots of the key table are one
  list.  Whether \<open>malloc\<close> of a number of bytes succeeds is a parameter, and so are the
  uninitialised contents of the hash contexts; key types and hierarchies are the codes the
  callers pass.
\<close>

section \<open>Names\<close>

definition tpm2_alg_names :: "(u16 \<times> string) list" where
  "tpm2_alg_names =
     [(0x0001, ''RSA''), (0x0004, ''SHA1''), (0x0005, ''HMAC''), (0x0006, ''AES''), (0x0007, ''MGF1''),
      (0x0008, ''KEYEDHASH''), (0x000A, ''XOR''), (0x000B, ''SHA256''), (0x000C, ''SHA384''), (0x000D, ''SHA512''),
      (0x0010, ''NULL''), (0x0014, ''RSASSA''), (0x0016, ''RSAPSS''), (0x0017, ''OAEP''), (0x0018, ''ECDSA''),
      (0x0019, ''ECDH''), (0x001A, ''ECDAA''), (0x0023, ''ECC'')]"

definition tpm2_alg_id_to_string :: "u16 \<Rightarrow> string" where
  "tpm2_alg_id_to_string alg = (case map_of tpm2_alg_names alg of None \<Rightarrow> ''UNKNOWN'' | Some s \<Rightarrow> s)"

definition tpm2_st_to_string :: "u16 \<Rightarrow> string" where
  "tpm2_st_to_string st =
     (if st = 0x8018 then ''ATTEST_QUOTE'' else if st = 0x8012 then ''ATTEST_CREATION''
      else if st = 0x8014 then ''ATTEST_NV'' else if st = 0x8016 then ''ATTEST_TIME'' else ''UNKNOWN'')"

definition tpm2_rc_names :: "(u16 \<times> string) list" where
  "tpm2_rc_names =
     [(0x000, ''SUCCESS''), (0x01E, ''BAD_TAG''), (0x100, ''INITIALIZE''), (0x101, ''FAILURE''),
      (0x103, ''SEQUENCE_ERROR''), (0x084, ''VALUE_ERROR''), (0x128, ''PCR_CHANGED''), (0x12F, ''BAD_AUTH''),
      (0x138, ''LOCKOUT''), (0x152, ''PCR_ERROR'')]"

definition tpm2_rc_to_string :: "u16 \<Rightarrow> string" where
  "tpm2_rc_to_string rc = (case map_of tpm2_rc_names rc of None \<Rightarrow> ''UNKNOWN_RC'' | Some s \<Rightarrow> s)"

definition tpm2_hash_size :: "u16 \<Rightarrow> u16" where
  "tpm2_hash_size alg =
     (if alg = 0x0004 then 20 else if alg = 0x000B then 32 else if alg = 0x000C then 48 else if alg = 0x000D then 64 else 0)"

section \<open>State\<close>

definition TPM_MAX_LOADED_KEYS :: nat where "TPM_MAX_LOADED_KEYS = 16"
definition KDFA_MAX_OUTPUT :: nat where "KDFA_MAX_OUTPUT = 64"

definition TPM_KEYTYPE_RSA_2048 :: u32 where "TPM_KEYTYPE_RSA_2048 = 0x0001"
definition TPM_KEYTYPE_RSA_3072 :: u32 where "TPM_KEYTYPE_RSA_3072 = 0x0002"
definition TPM_KEYTYPE_ECC_NIST256 :: u32 where "TPM_KEYTYPE_ECC_NIST256 = 0x0010"
definition TPM_KEYTYPE_ECC_NIST384 :: u32 where "TPM_KEYTYPE_ECC_NIST384 = 0x0011"
definition TPM_KEYTYPE_SYMCIPHER :: u32 where "TPM_KEYTYPE_SYMCIPHER = 0x0020"
definition TPM_KEYTYPE_KEYEDHASH :: u32 where "TPM_KEYTYPE_KEYEDHASH = 0x0021"

definition TPM_KEYATTR_SIGN :: u32 where "TPM_KEYATTR_SIGN = 0x0001"
definition TPM_KEYATTR_DECRYPT :: u32 where "TPM_KEYATTR_DECRYPT = 0x0002"
definition TPM_KEYATTR_RESTRICTED :: u32 where "TPM_KEYATTR_RESTRICTED = 0x0010"
definition TPM_KEYATTR_FIXEDTPM :: u32 where "TPM_KEYATTR_FIXEDTPM = 0x0020"
definition TPM_KEYATTR_FIXEDPARENT :: u32 where "TPM_KEYATTR_FIXEDPARENT = 0x0040"
definition TPM_KEYATTR_SENSITIVEDATAORIGIN :: u32 where "TPM_KEYATTR_SENSITIVEDATAORIGIN = 0x0080"

definition TPM_HIERARCHY_NULL :: u32 where "TPM_HIERARCHY_NULL = 0x40000007"
definition TPM_HIERARCHY_OWNER :: u32 where "TPM_HIERARCHY_OWNER = 0x40000001"
definition TPM_HIERARCHY_ENDORSEMENT :: u32 where "TPM_HIERARCHY_ENDORSEMENT = 0x4000000B"
definition TPM_HIERARCHY_PLATFORM :: u32 where "TPM_HIERARCHY_PLATFORM = 0x4000000C"

record TPMKeyPublic =
  kp_key_type :: u32
  kp_attributes :: u32
  kp_name_hash :: bytes
  kp_public_data :: bytes
  kp_public_data_size :: u16
  kp_auth_policy :: bytes
  kp_auth_policy_set :: bool
  kp_hash_alg :: u16
  kp_unique :: bytes

record TPMKeySensitive =
  kse_auth_value :: bytes
  kse_auth_value_size :: u16
  kse_seed_value :: bytes
  kse_private_data :: bytes
  kse_private_data_size :: u16

record TPMKeyObject =
  ko_handle :: u32
  ko_parent_handle :: u32
  ko_public_part :: TPMKeyPublic
  ko_sensitive :: TPMKeySensitive
  ko_hierarchy :: u32
  ko_loaded :: bool
  ko_is_primary :: bool
  ko_name :: bytes

record TPMKeyManager =
  tkm_keys :: "TPMKeyObject list"
  tkm_primary_seed_storage :: bytes
  tkm_primary_seed_endorsement :: bytes
  tkm_primary_seed_platform :: bytes
  tkm_seeds_generated :: bool

record KDFaParams =
  kdp_key :: "bytes option"
  kdp_label :: "bytes option"
  kdp_context_u :: "bytes option"
  kdp_context_v :: "bytes option"
  kdp_hash_alg :: u16
  kdp_bits :: u32

definition tpm_key_type_to_string :: "u32 \<Rightarrow> string" where
  "tpm_key_type_to_string t =
     (if t = TPM_KEYTYPE_RSA_2048 then ''RSA-2048'' else if t = TPM_KEYTYPE_RSA_3072 then ''RSA-3072''
      else if t = TPM_KEYTYPE_ECC_NIST256 then ''ECC-NIST-P256'' else if t = TPM_KEYTYPE_ECC_NIST384 then ''ECC-NIST-P384''
      else if t = TPM_KEYTYPE_SYMCIPHER then ''SYMMETRIC-CIPHER'' else if t = TPM_KEYTYPE_KEYEDHASH then ''KEYED-HASH''
      else ''UNKNOWN'')"

definition tpm_hierarchy_to_string :: "u32 \<Rightarrow> string" where
  "tpm_hierarchy_to_string h =
     (if h = TPM_HIERARCHY_NULL then ''NULL'' else if h = TPM_HIERARCHY_OWNER then ''OWNER (Storage)''
      else if h = TPM_HIERARCHY_ENDORSEMENT then ''ENDORSEMENT'' else if h = TPM_HIERARCHY_PLATFORM then ''PLATFORM''
      else ''UNKNOWN'')"

section \<open>HMAC and KDFa\<close>

text \<open>Both hashes run on one context, which \<open>sha256_init\<close> starts again.\<close>

definition tpm_hmac_sha256_from :: "SHA256_CTX \<Rightarrow> bytes \<Rightarrow> bytes \<Rightarrow> bytes" where
  "tpm_hmac_sha256_from ctx key data =
     (let key1 = (if length key > 64 then sha256_hash key else key);
          k_ipad = map (\<lambda>b. 0x36 XOR b) key1 @ replicate (64 - length key1) 0x36;
          k_opad = map (\<lambda>b. 0x5c XOR b) key1 @ replicate (64 - length key1) 0x5c;
          (ctx1, inner_hash) = sha256_final (sha256_update (sha256_update (sha256_init ctx) k_ipad) data)
      in snd (sha256_final (sha256_update (sha256_update (sha256_init ctx1) k_opad) inner_hash)))"

definition tpm_hmac_sha256 :: "bytes \<Rightarrow> bytes \<Rightarrow> bytes" where
  "tpm_hmac_sha256 key data =
     tpm_hmac_sha256_from \<lparr>ctx_data = zeros 64, ctx_datalen = 0, ctx_bitlen = 0, ctx_state = []\<rparr> key data"

text \<open>RFC 2104.\<close>

definition hmac_of :: "(bytes \<Rightarrow> bytes) \<Rightarrow> bytes \<Rightarrow> bytes \<Rightarrow> bytes" where
  "hmac_of h key text =
     (let k = (if length key > 64 then h key else key); k0 = k @ zeros (64 - length k)
      in h (map (\<lambda>b. b XOR 0x5c) k0 @ h (map (\<lambda>b. b XOR 0x36) k0 @ text)))"

lemma sha256_final_data:
  assumes "sha256_repr c m"
  shows "length (ctx_data (fst (sha256_final c))) = 64"
proof -
  have d: "length (ctx_data c) = 64" "unat (ctx_datalen c) < 64" using assms by (auto simp: sha256_repr_def)
  have "length (ctx_data (sha256_pad_buffer c)) = 64"
    using d by (auto simp: sha256_pad_buffer_def sha256_transform_def Let_def)
  then show ?thesis by (simp add: sha256_final_def Let_def sha256_transform_def)
qed

lemma tpm_hmac_sha256_from_correct:
  assumes "length (ctx_data ctx) = 64"
  shows "tpm_hmac_sha256_from ctx key data = hmac_of sha256_hash key data"
proof -
  let ?k = "if length key > 64 then sha256_hash key else key"
  have pad: "map (\<lambda>b. x XOR b) ?k @ replicate (64 - length ?k) x = map (\<lambda>b. b XOR x) (?k @ zeros (64 - length ?k))" for x :: u8
    by (simp add: zeros_def xor.commute)
  have h: "sha256_repr (sha256_update (sha256_update (sha256_init c) a) b) (a @ b)" if "length (ctx_data c) = 64" for c a b
    using sha256_repr_update [OF sha256_repr_update [OF sha256_repr_init [OF that]]] by simp
  have f: "snd (sha256_final (sha256_update (sha256_update (sha256_init c) a) b)) = sha256_hash (a @ b)"
    if "length (ctx_data c) = 64" for c a b
    using sha256_final_correct [OF h [OF that]] by (simp add: sha256_hash_correct)
  obtain c1 ih where s: "sha256_final (sha256_update (sha256_update (sha256_init ctx)
      (map (\<lambda>b. b XOR 0x36) (?k @ zeros (64 - length ?k)))) data) = (c1, ih)" by fastforce
  have i: "ih = sha256_hash (map (\<lambda>b. b XOR 0x36) (?k @ zeros (64 - length ?k)) @ data)"
    using f [OF assms] s by (metis snd_conv)
  have "length (ctx_data c1) = 64" using sha256_final_data [OF h [OF assms]] s by (metis fst_conv)
  then show ?thesis
    unfolding tpm_hmac_sha256_from_def hmac_of_def Let_def pad s prod.case i by (rule f)
qed

lemma tpm_hmac_sha256_eq: "tpm_hmac_sha256 key data = hmac_of sha256_hash key data"
  by (simp add: tpm_hmac_sha256_def tpm_hmac_sha256_from_correct)

lemma length_tpm_hmac_sha256 [simp]: "length (tpm_hmac_sha256 key data) = 32"
  by (simp add: tpm_hmac_sha256_eq hmac_of_def Let_def)

text \<open>The loop: counter and output so far; the counter is big-endian in front of the fixed input.\<close>

function kdfa_loop :: "bytes \<Rightarrow> bytes \<Rightarrow> nat \<Rightarrow> u32 \<Rightarrow> bytes \<Rightarrow> bytes" where
  "kdfa_loop key fixed_input output_len counter out =
     (if length out < output_len
      then let hash_output = tpm_hmac_sha256 key (be32_bytes counter @ fixed_input)
           in kdfa_loop key fixed_input output_len (counter + 1) (out @ take (output_len - length out) hash_output)
      else out)"
  by pat_completeness auto
termination
  by (relation "measure (\<lambda>(key, fi, n, c, out). n - length out)") (auto simp: min_def)

declare kdfa_loop.simps [simp del]

definition kdfa_fixed_input :: "KDFaParams \<Rightarrow> bytes" where
  "kdfa_fixed_input params =
     (case kdp_label params of None \<Rightarrow> [] | Some l \<Rightarrow> l) @ [0]
     @ (case kdp_context_u params of None \<Rightarrow> [] | Some u \<Rightarrow> u)
     @ (case kdp_context_v params of None \<Rightarrow> [] | Some v \<Rightarrow> v) @ be32_bytes (kdp_bits params)"

text \<open>
  The 32-bit length of the input buffer wraps for labels and contexts of 4 GB; the copies would
  run beyond it.
\<close>

definition tpm_kdfa :: "(u32 \<Rightarrow> bool) \<Rightarrow> KDFaParams option \<Rightarrow> nat \<Rightarrow> bytes option c_result" where
  "tpm_kdfa mem params output_len =
     (case params of None \<Rightarrow> Returned None
      | Some p \<Rightarrow>
          if output_len = 0 then Returned None
          else (case kdp_key p of None \<Rightarrow> Returned None
                | Some key \<Rightarrow>
                    if key = [] then Returned None
                    else if output_len > KDFA_MAX_OUTPUT then Returned None
                    else let input_len = 4 + length (kdfa_fixed_input p)
                         in if \<not> mem (of_nat input_len) then Returned None
                            else if input_len \<ge> 2 ^ 32 then Undefined
                            else Returned (Some (kdfa_loop key (kdfa_fixed_input p) output_len 1 []))))"

text \<open>SP 800-108 in counter mode.\<close>

definition kdfa_spec :: "bytes \<Rightarrow> bytes \<Rightarrow> nat \<Rightarrow> bytes" where
  "kdfa_spec key fixed_input n =
     take n (concat (map (\<lambda>i. hmac_of sha256_hash key (be32_bytes (of_nat i) @ fixed_input)) [1..<Suc ((n + 31) div 32)]))"

lemma kdfa_loop_two:
  assumes "0 < n" and "n \<le> 64"
  shows "kdfa_loop key fi n 1 [] = kdfa_spec key fi n"
proof (cases "n \<le> 32")
  case True
  then have "(n + 31) div 32 = 1" using assms(1) by (intro div_nat_eqI) auto
  moreover have "kdfa_loop key fi n 1 [] = take n (tpm_hmac_sha256 key (be32_bytes 1 @ fi))"
    using True assms(1) by (subst kdfa_loop.simps, simp, subst kdfa_loop.simps) simp
  ultimately show ?thesis by (simp add: kdfa_spec_def tpm_hmac_sha256_eq)
next
  case False
  then have "(n + 31) div 32 = 2" using assms(2) by (intro div_nat_eqI) auto
  moreover have "kdfa_loop key fi n 1 [] = tpm_hmac_sha256 key (be32_bytes 1 @ fi)
      @ take (n - 32) (tpm_hmac_sha256 key (be32_bytes 2 @ fi))"
    using False assms(2) by (subst kdfa_loop.simps, simp, subst kdfa_loop.simps, simp, subst kdfa_loop.simps) simp
  ultimately show ?thesis using False length_tpm_hmac_sha256 [of key "be32_bytes 1 @ fi"]
    by (simp add: kdfa_spec_def tpm_hmac_sha256_eq upt_rec numeral_2_eq_2)
qed

lemma tpm_kdfa_eq:
  assumes "kdp_key p = Some key" and "key \<noteq> []" and "0 < n" and "n \<le> 64" and "length (kdfa_fixed_input p) < 2 ^ 32 - 4"
  shows "tpm_kdfa mem (Some p) n = Returned (if mem (of_nat (4 + length (kdfa_fixed_input p)))
    then Some (kdfa_spec key (kdfa_fixed_input p) n) else None)"
  using assms by (simp add: tpm_kdfa_def kdfa_loop_two KDFA_MAX_OUTPUT_def Let_def)

lemma length_kdfa_spec [simp]:
  assumes "n \<le> 32"
  shows "length (kdfa_spec key fi n) = n"
proof (cases "n = 0")
  case False
  then have "(n + 31) div 32 = 1" using assms by (intro div_nat_eqI) auto
  then show ?thesis using assms by (simp add: kdfa_spec_def hmac_of_def Let_def)
qed (simp add: kdfa_spec_def)

section \<open>Keys\<close>

definition tpm_key_manager_init :: TPMKeyManager where
  "tpm_key_manager_init = \<lparr>tkm_keys = [], tkm_primary_seed_storage = zeros 32, tkm_primary_seed_endorsement = zeros 32,
     tkm_primary_seed_platform = zeros 32, tkm_seeds_generated = False\<rparr>"

definition tpm_generate_primary_seeds :: "TPMKeyManager \<Rightarrow> TPMKeyManager \<times> bool" where
  "tpm_generate_primary_seeds mgr =
     (let base = sha256_hash (str_bytes ''TPM_SEED_BASE_KEY_2024'')
      in (mgr\<lparr>tkm_primary_seed_storage := tpm_hmac_sha256 base (str_bytes ''STORAGE''),
              tkm_primary_seed_endorsement := tpm_hmac_sha256 base (str_bytes ''ENDORSEMENT''),
              tkm_primary_seed_platform := tpm_hmac_sha256 base (str_bytes ''PLATFORM''),
              tkm_seeds_generated := True\<rparr>, True))"

definition tpm_validate_key_attrs :: "u32 \<Rightarrow> u32 \<Rightarrow> bool" where
  "tpm_validate_key_attrs attributes key_type =
     (if attributes AND TPM_KEYATTR_FIXEDTPM \<noteq> 0 \<and> attributes AND TPM_KEYATTR_FIXEDPARENT = 0 then False
      else if attributes AND TPM_KEYATTR_SENSITIVEDATAORIGIN \<noteq> 0 \<and> attributes AND TPM_KEYATTR_FIXEDTPM = 0 then False
      else if attributes AND TPM_KEYATTR_SIGN \<noteq> 0 \<and> attributes AND TPM_KEYATTR_DECRYPT \<noteq> 0
           \<and> attributes AND TPM_KEYATTR_RESTRICTED \<noteq> 0 \<and> key_type \<noteq> TPM_KEYTYPE_KEYEDHASH then False
      else True)"

definition le32_word_bytes :: "u32 \<Rightarrow> bytes" where
  "le32_word_bytes w = [ucast w, ucast (drop_bit 8 w), ucast (drop_bit 16 w), ucast (drop_bit 24 w)]"

definition zero_key_public :: TPMKeyPublic where
  "zero_key_public = \<lparr>kp_key_type = 0, kp_attributes = 0, kp_name_hash = zeros 32, kp_public_data = zeros 256,
     kp_public_data_size = 0, kp_auth_policy = zeros 32, kp_auth_policy_set = False, kp_hash_alg = 0, kp_unique = zeros 32\<rparr>"

definition zero_key_sensitive :: TPMKeySensitive where
  "zero_key_sensitive = \<lparr>kse_auth_value = zeros 32, kse_auth_value_size = 0, kse_seed_value = zeros 32,
     kse_private_data = zeros 256, kse_private_data_size = 0\<rparr>"

text \<open>The digest of the template and the name: \<open>nameAlg\<close> big-endian in front of it, hashed.\<close>

definition primary_template :: "u32 \<Rightarrow> u32 \<Rightarrow> bytes" where
  "primary_template key_type attributes =
     sha256_hash ([ucast key_type, ucast (drop_bit 8 key_type)] @ le32_word_bytes attributes)"

definition key_name_of :: "bytes \<Rightarrow> bytes" where
  "key_name_of template_hash =
     sha256_hash ([ucast (drop_bit 8 TPM_ALG_SHA256), ucast TPM_ALG_SHA256] @ template_hash)"

definition hierarchy_seed :: "TPMKeyManager \<Rightarrow> u32 \<Rightarrow> (bytes \<times> u32) option" where
  "hierarchy_seed mgr hierarchy =
     (if hierarchy = TPM_HIERARCHY_OWNER then Some (tkm_primary_seed_storage mgr, 0x81000000)
      else if hierarchy = TPM_HIERARCHY_ENDORSEMENT then Some (tkm_primary_seed_endorsement mgr, 0x81010000)
      else if hierarchy = TPM_HIERARCHY_PLATFORM then Some (tkm_primary_seed_platform mgr, 0x81020000)
      else None)"

definition kdfa_params :: "bytes \<Rightarrow> bytes \<Rightarrow> bytes \<Rightarrow> KDFaParams" where
  "kdfa_params key label context_u =
     \<lparr>kdp_key = Some key, kdp_label = Some label, kdp_context_u = Some context_u, kdp_context_v = None,
      kdp_hash_alg = TPM_ALG_SHA256, kdp_bits = 256\<rparr>"

definition tpm_create_primary ::
  "(u32 \<Rightarrow> bool) \<Rightarrow> TPMKeyManager \<Rightarrow> u32 \<Rightarrow> u32 \<Rightarrow> u32 \<Rightarrow> bytes option \<Rightarrow> bytes option \<Rightarrow> (TPMKeyManager \<times> u32 option) c_result" where
  "tpm_create_primary mem mgr hierarchy key_type attributes auth_value policy =
     (if \<not> tkm_seeds_generated mgr then Returned (mgr, None)
      else if length (tkm_keys mgr) \<ge> TPM_MAX_LOADED_KEYS then Returned (mgr, None)
      else if \<not> tpm_validate_key_attrs attributes key_type then Returned (mgr, None)
      else (case hierarchy_seed mgr hierarchy of None \<Rightarrow> Returned (mgr, None)
        | Some (seed, handle0) \<Rightarrow>
            let handle = handle0 + (of_nat (length (tkm_keys mgr)) AND 0xFFFF);
                template_hash = primary_template key_type attributes
            in (case tpm_kdfa mem (Some (kdfa_params seed (str_bytes ''PRIMARY'') template_hash)) 32 of
                  Undefined \<Rightarrow> Undefined | Diverges \<Rightarrow> Diverges
                | Returned None \<Rightarrow> Returned (mgr, None)
                | Returned (Some derived_key) \<Rightarrow>
                    let pub = zero_key_public\<lparr>kp_key_type := key_type, kp_attributes := attributes,
                                kp_hash_alg := TPM_ALG_SHA256, kp_unique := derived_key\<rparr>;
                        pub1 = (case policy of None \<Rightarrow> pub
                                | Some p \<Rightarrow> pub\<lparr>kp_auth_policy := take 32 p, kp_auth_policy_set := True\<rparr>);
                        sens = (case auth_value of None \<Rightarrow> zero_key_sensitive
                                | Some a \<Rightarrow> if a = [] then zero_key_sensitive
                                            else zero_key_sensitive\<lparr>kse_auth_value_size := of_nat (min (length a) 32),
                                                   kse_auth_value := blit (zeros 32) 0 (take 32 a)\<rparr>);
                        key = \<lparr>ko_handle = handle, ko_parent_handle = hierarchy, ko_public_part = pub1,
                               ko_sensitive = sens\<lparr>kse_seed_value := seed\<rparr>, ko_hierarchy = hierarchy, ko_loaded = True,
                               ko_is_primary = True, ko_name = key_name_of template_hash\<rparr>
                    in Returned (mgr\<lparr>tkm_keys := tkm_keys mgr @ [key]\<rparr>, Some handle))))"

definition tpm_load_key :: "TPMKeyManager \<Rightarrow> u32 \<Rightarrow> TPMKeyPublic option \<Rightarrow> TPMKeySensitive option \<Rightarrow> TPMKeyManager \<times> u32 option" where
  "tpm_load_key mgr parent_handle public_part sensitive =
     (case (public_part, sensitive) of
        (Some pub, Some sens) \<Rightarrow>
          if length (tkm_keys mgr) \<ge> TPM_MAX_LOADED_KEYS then (mgr, None)
          else let handle = 0x81000000 + (of_nat (length (tkm_keys mgr)) + 1) * 256;
                   key = \<lparr>ko_handle = handle, ko_parent_handle = parent_handle, ko_public_part = pub, ko_sensitive = sens,
                          ko_hierarchy = 0, ko_loaded = True, ko_is_primary = False,
                          ko_name = key_name_of (sha256_hash (le32_word_bytes (kp_attributes pub)))\<rparr>
               in (mgr\<lparr>tkm_keys := tkm_keys mgr @ [key]\<rparr>, Some handle)
      | _ \<Rightarrow> (mgr, None))"

definition tpm_flush_key :: "TPMKeyManager \<Rightarrow> u32 \<Rightarrow> TPMKeyManager \<times> bool" where
  "tpm_flush_key mgr handle =
     (case find_index (\<lambda>k. ko_loaded k \<and> ko_handle k = handle) (tkm_keys mgr) of
        None \<Rightarrow> (mgr, False)
      | Some pos \<Rightarrow> (mgr\<lparr>tkm_keys := take pos (tkm_keys mgr) @ drop (Suc pos) (tkm_keys mgr)\<rparr>, True))"

section \<open>Sealing\<close>

definition parent_key :: "TPMKeyManager \<Rightarrow> u32 \<Rightarrow> TPMKeyObject option" where
  "parent_key mgr parent_handle =
     map_option (\<lambda>i. tkm_keys mgr ! i) (find_index (\<lambda>k. ko_handle k = parent_handle) (tkm_keys mgr))"

text \<open>The number of bytes hashed is a 32-bit product; \<open>None\<close> when the values do not hold as many.\<close>

definition pcr_composite_of :: "bytes \<Rightarrow> u32 \<Rightarrow> bytes option" where
  "pcr_composite_of pcr_values pcr_count =
     (if unat (pcr_count * 32) > length pcr_values then None else Some (sha256_hash (take (unat (pcr_count * 32)) pcr_values)))"

definition xor_stream :: "bytes \<Rightarrow> bytes \<Rightarrow> bytes" where
  "xor_stream key data = map (\<lambda>i. data ! i XOR key ! (i mod 32)) [0..<length data]"

text \<open>The caller's buffer has room for the blob, of 38 bytes more than the data.\<close>

definition tpm_seal ::
  "(u32 \<Rightarrow> bool) \<Rightarrow> TPMKeyManager \<Rightarrow> u32 \<Rightarrow> bytes option \<Rightarrow> bytes option \<Rightarrow> u32 \<Rightarrow> bytes option c_result" where
  "tpm_seal mem mgr parent_handle data pcr_values pcr_count =
     (case (data, pcr_values) of
        (Some d, Some pcrs) \<Rightarrow>
          (case parent_key mgr parent_handle of None \<Rightarrow> Returned None
           | Some key \<Rightarrow>
               (case pcr_composite_of pcrs pcr_count of None \<Rightarrow> Undefined
                | Some composite \<Rightarrow>
                    (case tpm_kdfa mem (Some (kdfa_params (kp_unique (ko_public_part key)) (str_bytes ''SEAL'') composite)) 32 of
                       Undefined \<Rightarrow> Undefined | Diverges \<Rightarrow> Diverges | Returned None \<Rightarrow> Returned None
                     | Returned (Some wrapping_key) \<Rightarrow>
                         Returned (Some (be32_bytes pcr_count @ [ucast (drop_bit 8 pcr_count), ucast pcr_count]
                           @ composite @ xor_stream wrapping_key d)))))
      | _ \<Rightarrow> Returned None)"

text \<open>The data and their 16-bit length.\<close>

definition tpm_unseal ::
  "(u32 \<Rightarrow> bool) \<Rightarrow> TPMKeyManager \<Rightarrow> u32 \<Rightarrow> bytes option \<Rightarrow> bytes option \<Rightarrow> u32 \<Rightarrow> (bytes \<times> u16) option c_result" where
  "tpm_unseal mem mgr parent_handle sealed_blob current_pcrs pcr_count =
     (case (sealed_blob, current_pcrs) of
        (Some blob, Some pcrs) \<Rightarrow>
          (case parent_key mgr parent_handle of None \<Rightarrow> Returned None
           | Some key \<Rightarrow>
               if length blob < 38 then Returned None
               else (case pcr_composite_of pcrs pcr_count of None \<Rightarrow> Undefined
                | Some current_composite \<Rightarrow>
                    if current_composite \<noteq> take 32 (drop 6 blob) then Returned None
                    else (case tpm_kdfa mem (Some (kdfa_params (kp_unique (ko_public_part key)) (str_bytes ''SEAL'') current_composite)) 32 of
                       Undefined \<Rightarrow> Undefined | Diverges \<Rightarrow> Diverges | Returned None \<Rightarrow> Returned None
                     | Returned (Some wrapping_key) \<Rightarrow>
                         Returned (Some (xor_stream wrapping_key (drop 38 blob), of_nat (length blob - 38))))))
      | _ \<Rightarrow> Returned None)"

section \<open>Facts\<close>

lemma length_kdfa_fixed [simp]:
  "length (kdfa_fixed_input (kdfa_params key label u)) = length label + length u + 5"
  by (simp add: kdfa_fixed_input_def kdfa_params_def)

lemma kdfa_params_eq:
  assumes "length key = 32" and "length label + length u < 1000"
  shows "tpm_kdfa mem (Some (kdfa_params key label u)) 32 = Returned (if mem (of_nat (9 + length label + length u))
    then Some (kdfa_spec key (label @ 0 # u @ be32_bytes 256) 32) else None)"
proof -
  have k: "kdp_key (kdfa_params key label u) = Some key" "key \<noteq> []" using assms(1) by (auto simp: kdfa_params_def)
  have f: "kdfa_fixed_input (kdfa_params key label u) = label @ 0 # u @ be32_bytes 256"
    by (simp add: kdfa_fixed_input_def kdfa_params_def)
  show ?thesis
    using tpm_kdfa_eq [OF k, of 32 mem] assms(2) by (simp add: f add.commute add.left_commute)
qed

lemma length_xor_stream [simp]: "length (xor_stream k d) = length d"
  by (simp add: xor_stream_def)

lemma xor_stream_twice [simp]: "xor_stream k (xor_stream k d) = d"
  by (intro nth_equalityI) (simp_all add: xor_stream_def xor.assoc)

lemma length_pcr_composite: "pcr_composite_of v n = Some c \<Longrightarrow> length c = 32"
  by (auto simp: pcr_composite_of_def split: if_splits)

definition seal_key :: "TPMKeyObject \<Rightarrow> bytes \<Rightarrow> bytes" where
  "seal_key key composite = kdfa_spec (kp_unique (ko_public_part key)) (str_bytes ''SEAL'' @ 0 # composite @ be32_bytes 256) 32"

lemma tpm_seal_eq:
  assumes "parent_key mgr h = Some key" and "length (kp_unique (ko_public_part key)) = 32"
    and "pcr_composite_of pcrs n = Some c" and "mem 45"
  shows "tpm_seal mem mgr h (Some d) (Some pcrs) n = Returned (Some (be32_bytes n @ [ucast (drop_bit 8 n), ucast n]
    @ c @ xor_stream (seal_key key c) d))"
  using kdfa_params_eq [OF assms(2), of "str_bytes ''SEAL''" c mem] assms length_pcr_composite [OF assms(3)]
  by (simp add: tpm_seal_def seal_key_def)

lemma tpm_unseal_eq:
  assumes "parent_key mgr h = Some key" and "length (kp_unique (ko_public_part key)) = 32"
    and "pcr_composite_of pcrs n = Some c" and "mem 45" and "38 \<le> length blob"
  shows "tpm_unseal mem mgr h (Some blob) (Some pcrs) n = Returned (if c = take 32 (drop 6 blob)
    then Some (xor_stream (seal_key key c) (drop 38 blob), of_nat (length blob - 38)) else None)"
proof -
  note k = kdfa_params_eq [OF assms(2), of "str_bytes ''SEAL''" c mem]
  show ?thesis
  proof (cases "c = take 32 (drop 6 blob)")
    case True
    show ?thesis unfolding True [symmetric]
      using k assms length_pcr_composite [OF assms(3)] by (simp add: tpm_unseal_def seal_key_def True [symmetric])
  qed (use assms in \<open>simp add: tpm_unseal_def\<close>)
qed

text \<open>
  A primary key is determined by its hierarchy and template; the seeds are constants.  The
  invariant: the table has at most 16 keys, all loaded, and every primary key is the one of its
  hierarchy and template, with valid attributes.
\<close>

definition seed_of :: "string \<Rightarrow> bytes" where
  "seed_of label = tpm_hmac_sha256 (sha256_hash (str_bytes ''TPM_SEED_BASE_KEY_2024'')) (str_bytes label)"

definition hierarchy_label :: "u32 \<Rightarrow> string option" where
  "hierarchy_label h = (if h = TPM_HIERARCHY_OWNER then Some ''STORAGE'' else if h = TPM_HIERARCHY_ENDORSEMENT then Some ''ENDORSEMENT''
     else if h = TPM_HIERARCHY_PLATFORM then Some ''PLATFORM'' else None)"

definition primary_unique :: "u32 \<Rightarrow> u32 \<Rightarrow> u32 \<Rightarrow> bytes" where
  "primary_unique h key_type attributes = kdfa_spec (seed_of (the (hierarchy_label h)))
     (str_bytes ''PRIMARY'' @ 0 # primary_template key_type attributes @ be32_bytes 256) 32"

definition primary_key_of :: "u32 \<Rightarrow> u32 \<Rightarrow> u32 \<Rightarrow> TPMKeyObject \<Rightarrow> bool" where
  "primary_key_of h key_type attributes k \<longleftrightarrow>
     ko_loaded k \<and> ko_is_primary k \<and> ko_hierarchy k = h \<and> hierarchy_label h \<noteq> None
     \<and> kp_key_type (ko_public_part k) = key_type \<and> kp_attributes (ko_public_part k) = attributes
     \<and> kse_seed_value (ko_sensitive k) = seed_of (the (hierarchy_label h))
     \<and> kp_unique (ko_public_part k) = primary_unique h key_type attributes
     \<and> ko_name k = key_name_of (primary_template key_type attributes)
     \<and> tpm_validate_key_attrs attributes key_type"

definition tkm_wf :: "TPMKeyManager \<Rightarrow> bool" where
  "tkm_wf mgr \<longleftrightarrow> length (tkm_keys mgr) \<le> 16
     \<and> (\<forall>k \<in> set (tkm_keys mgr). ko_loaded k \<and> (ko_is_primary k \<longrightarrow>
          primary_key_of (ko_hierarchy k) (kp_key_type (ko_public_part k)) (kp_attributes (ko_public_part k)) k))
     \<and> (tkm_seeds_generated mgr \<longrightarrow> tkm_primary_seed_storage mgr = seed_of ''STORAGE''
          \<and> tkm_primary_seed_endorsement mgr = seed_of ''ENDORSEMENT'' \<and> tkm_primary_seed_platform mgr = seed_of ''PLATFORM'')"

lemma length_seed_of [simp]: "length (seed_of s) = 32"
  by (simp add: seed_of_def)

lemma length_primary_template [simp]: "length (primary_template t a) = 32"
  by (simp add: primary_template_def)

lemma length_primary_unique [simp]: "length (primary_unique h t a) = 32"
  by (simp add: primary_unique_def)

definition hierarchy_base :: "u32 \<Rightarrow> u32" where
  "hierarchy_base h = (if h = TPM_HIERARCHY_OWNER then 0x81000000 else if h = TPM_HIERARCHY_ENDORSEMENT then 0x81010000 else 0x81020000)"

lemma hierarchy_seed_eq:
  assumes "tkm_wf mgr" and "tkm_seeds_generated mgr"
  shows "hierarchy_seed mgr h = map_option (\<lambda>l. (seed_of l, hierarchy_base h)) (hierarchy_label h)"
  using assms by (simp add: hierarchy_seed_def hierarchy_label_def hierarchy_base_def tkm_wf_def)

text \<open>Exactly when a primary key is created, and what it is.\<close>

lemma tpm_create_primary_cases:
  assumes "tkm_wf mgr"
  shows "(\<exists>k. tpm_create_primary mem mgr h t at auth pol = Returned (mgr\<lparr>tkm_keys := tkm_keys mgr @ [k]\<rparr>, Some (ko_handle k))
      \<and> ko_handle k = hierarchy_base h + (of_nat (length (tkm_keys mgr)) AND 0xFFFF) \<and> primary_key_of h t at k
      \<and> tkm_seeds_generated mgr \<and> length (tkm_keys mgr) < 16 \<and> mem 48)
    \<or> tpm_create_primary mem mgr h t at auth pol = Returned (mgr, None)
      \<and> (\<not> tkm_seeds_generated mgr \<or> length (tkm_keys mgr) = 16 \<or> \<not> tpm_validate_key_attrs at t
          \<or> hierarchy_label h = None \<or> \<not> mem 48)"
proof (cases "tkm_seeds_generated mgr \<and> hierarchy_label h \<noteq> None")
  case True
  then obtain l where l: "hierarchy_label h = Some l" by blast
  have sh: "hierarchy_seed mgr h = Some (seed_of l, hierarchy_base h)" using hierarchy_seed_eq [OF assms] True l by simp
  have "tpm_kdfa mem (Some (kdfa_params (seed_of l) (str_bytes ''PRIMARY'') (primary_template t at))) 32 = Returned (if mem 48
      then Some (primary_unique h t at) else None)"
    using kdfa_params_eq [of "seed_of l" "str_bytes ''PRIMARY''" "primary_template t at" mem] by (simp add: primary_unique_def l)
  moreover have "length (tkm_keys mgr) \<le> 16" using assms by (simp add: tkm_wf_def)
  ultimately show ?thesis
    using sh l True by (auto simp: tpm_create_primary_def TPM_MAX_LOADED_KEYS_def Let_def primary_key_of_def split: option.splits)
next
  case False
  then show ?thesis using hierarchy_seed_eq [OF assms, of h] by (auto simp: tpm_create_primary_def)
qed

datatype tkm_op = TkSeeds | TkCreate u32 u32 u32 "bytes option" "bytes option" | TkLoad u32 "TPMKeyPublic option" "TPMKeySensitive option"
  | TkFlush u32

fun tkm_step :: "(u32 \<Rightarrow> bool) \<Rightarrow> tkm_op \<Rightarrow> TPMKeyManager \<Rightarrow> TPMKeyManager c_result" where
  "tkm_step mem TkSeeds mgr = Returned (fst (tpm_generate_primary_seeds mgr))"
| "tkm_step mem (TkCreate h t at auth pol) mgr =
     (case tpm_create_primary mem mgr h t at auth pol of
        Returned r \<Rightarrow> Returned (fst r) | Undefined \<Rightarrow> Undefined | Diverges \<Rightarrow> Diverges)"
| "tkm_step mem (TkLoad p pub sens) mgr = Returned (fst (tpm_load_key mgr p pub sens))"
| "tkm_step mem (TkFlush h) mgr = Returned (fst (tpm_flush_key mgr h))"

fun tkm_run :: "(u32 \<Rightarrow> bool) \<Rightarrow> tkm_op list \<Rightarrow> TPMKeyManager \<Rightarrow> TPMKeyManager c_result" where
  "tkm_run mem [] mgr = Returned mgr"
| "tkm_run mem (p # ps) mgr =
     (case tkm_step mem p mgr of Returned m \<Rightarrow> tkm_run mem ps m | Undefined \<Rightarrow> Undefined | Diverges \<Rightarrow> Diverges)"

lemma tkm_step_inv:
  assumes "tkm_wf mgr"
  shows "\<exists>m. tkm_step mem p mgr = Returned m \<and> tkm_wf m \<and> (tkm_seeds_generated mgr \<longrightarrow> tkm_seeds_generated m)"
proof (cases p)
  case TkSeeds
  then show ?thesis using assms by (simp add: tpm_generate_primary_seeds_def tkm_wf_def seed_of_def Let_def)
next
  case (TkCreate h t at auth pol)
  from tpm_create_primary_cases [OF assms, of mem h t at auth pol] show ?thesis
  proof (elim disjE exE conjE)
    fix k
    assume "tpm_create_primary mem mgr h t at auth pol = Returned (mgr\<lparr>tkm_keys := tkm_keys mgr @ [k]\<rparr>, Some (ko_handle k))"
      and k: "primary_key_of h t at k" "length (tkm_keys mgr) < 16"
    moreover have "tkm_wf (mgr\<lparr>tkm_keys := tkm_keys mgr @ [k]\<rparr>)"
      using assms k by (auto simp: tkm_wf_def primary_key_of_def)
    ultimately show ?thesis by (simp add: TkCreate)
  qed (use assms in \<open>simp_all add: TkCreate\<close>)
next
  case (TkLoad parent pub sens)
  then show ?thesis using assms
    by (auto simp: tpm_load_key_def tkm_wf_def TPM_MAX_LOADED_KEYS_def Let_def split: option.splits)
next
  case (TkFlush h)
  have "set (take i xs @ drop (Suc i) xs) \<subseteq> set xs" for i and xs :: "TPMKeyObject list"
    by (auto dest: in_set_takeD in_set_dropD)
  then show ?thesis using assms TkFlush
    by (fastforce simp: tpm_flush_key_def tkm_wf_def split: option.splits)
qed

lemma tkm_run_inv:
  "tkm_wf mgr \<Longrightarrow> \<exists>m. tkm_run mem ps mgr = Returned m \<and> tkm_wf m \<and> (tkm_seeds_generated mgr \<longrightarrow> tkm_seeds_generated m)"
proof (induction ps arbitrary: mgr)
  case (Cons p ps)
  obtain m where "tkm_step mem p mgr = Returned m" "tkm_wf m" "tkm_seeds_generated mgr \<longrightarrow> tkm_seeds_generated m"
    using tkm_step_inv [OF Cons.prems] by blast
  then show ?case using Cons.IH [of m] by auto
qed simp

lemma tkm_wf_init: "tkm_wf tpm_key_manager_init"
  by (simp add: tkm_wf_def tpm_key_manager_init_def)

text \<open>Handles count the loaded keys, so a flush makes the next handle the one of a key still loaded.\<close>

lemma key_handles_collide:
  assumes "mem 48"
  shows "\<exists>m k l. tkm_run mem [TkSeeds, TkCreate TPM_HIERARCHY_OWNER 1 0 None None, TkCreate TPM_HIERARCHY_OWNER 2 0 None None,
      TkFlush 0x81000000, TkCreate TPM_HIERARCHY_OWNER 3 0 None None] tpm_key_manager_init = Returned m
    \<and> tkm_keys m = [k, l] \<and> ko_handle k = ko_handle l \<and> kp_key_type (ko_public_part k) = 2 \<and> kp_key_type (ko_public_part l) = 3"
proof -
  let ?h = TPM_HIERARCHY_OWNER
  have v: "tpm_validate_key_attrs 0 t" for t by (simp add: tpm_validate_key_attrs_def)
  have l: "hierarchy_label ?h \<noteq> None" "hierarchy_base ?h = 0x81000000" by (simp_all add: hierarchy_label_def hierarchy_base_def)
  have create: "\<exists>k. tkm_step mem (TkCreate ?h t 0 None None) m = Returned (m\<lparr>tkm_keys := tkm_keys m @ [k]\<rparr>)
      \<and> ko_handle k = 0x81000000 + (of_nat (length (tkm_keys m)) AND 0xFFFF) \<and> primary_key_of ?h t 0 k
      \<and> tkm_wf (m\<lparr>tkm_keys := tkm_keys m @ [k]\<rparr>)"
    if "tkm_wf m" "tkm_seeds_generated m" "length (tkm_keys m) < 16" for t m
    using tpm_create_primary_cases [OF that(1), of mem ?h t 0 None None] tkm_step_inv [OF that(1), of mem "TkCreate ?h t 0 None None"]
      that(2,3) assms v l by fastforce
  let ?m0 = "fst (tpm_generate_primary_seeds tpm_key_manager_init)"
  have m0: "tkm_wf ?m0" "tkm_seeds_generated ?m0" "tkm_keys ?m0 = []"
    using tkm_step_inv [OF tkm_wf_init, of mem TkSeeds]
    by (simp_all add: tpm_generate_primary_seeds_def tpm_key_manager_init_def Let_def)
  obtain a where a: "tkm_step mem (TkCreate ?h 1 0 None None) ?m0 = Returned (?m0\<lparr>tkm_keys := [a]\<rparr>)"
      "ko_handle a = 0x81000000" "tkm_wf (?m0\<lparr>tkm_keys := [a]\<rparr>)" "ko_loaded a"
    using create [OF m0(1,2), of 1] m0(3) by (auto simp: primary_key_of_def)
  obtain b where b: "tkm_step mem (TkCreate ?h 2 0 None None) (?m0\<lparr>tkm_keys := [a]\<rparr>) = Returned (?m0\<lparr>tkm_keys := [a, b]\<rparr>)"
      "ko_handle b = 0x81000001" "primary_key_of ?h 2 0 b" "tkm_wf (?m0\<lparr>tkm_keys := [a, b]\<rparr>)"
    using create [OF a(3), of 2] m0(2) by auto
  have f: "tkm_step mem (TkFlush 0x81000000) (?m0\<lparr>tkm_keys := [a, b]\<rparr>) = Returned (?m0\<lparr>tkm_keys := [b]\<rparr>)"
    using a(2,4) by (simp add: tpm_flush_key_def)
  have "tkm_wf (?m0\<lparr>tkm_keys := [b]\<rparr>)" using tkm_step_inv [OF b(4), of mem "TkFlush 0x81000000"] f by simp
  then obtain c where c: "tkm_step mem (TkCreate ?h 3 0 None None) (?m0\<lparr>tkm_keys := [b]\<rparr>) = Returned (?m0\<lparr>tkm_keys := [b, c]\<rparr>)"
      "ko_handle c = 0x81000001" "primary_key_of ?h 3 0 c"
    using create [of "?m0\<lparr>tkm_keys := [b]\<rparr>" 3] m0(2) by auto
  have "tkm_step mem TkSeeds tpm_key_manager_init = Returned ?m0" by simp
  then show ?thesis using a(1) b c f
    by (intro exI [of _ "?m0\<lparr>tkm_keys := [b, c]\<rparr>"] exI [of _ b] exI [of _ c])
       (simp del: tkm_step.simps add: primary_key_of_def)
qed

end
