(* ===== verification/Attestation.thy ===== *)
theory Attestation
  imports Tpm_Keys
begin

text \<open>
  Remote attestation of the measured-boot library, \<open>mini-measured-boot/src/attestation.c\<close>: a
  verifier's challenge, the prover's quote over its PCR bank, and the checks of the verifier.
  The challenge identifier has 16 bytes and is given a digest of 32; the other 16 go into the
  nonce behind it, which is written next, so nothing else changes.
\<close>

section \<open>State\<close>

definition ATT_NONCE_SIZE :: nat where "ATT_NONCE_SIZE = 32"
definition ATT_MAX_PCR_COUNT :: nat where "ATT_MAX_PCR_COUNT = 8"
definition ATT_SIGNATURE_SIZE :: nat where "ATT_SIGNATURE_SIZE = 64"
definition ATT_CHALLENGE_ID_SIZE :: nat where "ATT_CHALLENGE_ID_SIZE = 16"
definition ATT_PROP_FRESHNESS :: u32 where "ATT_PROP_FRESHNESS = 0x01"
definition ATT_PROP_BINDING :: u32 where "ATT_PROP_BINDING = 0x02"
definition ATT_PROP_TRUST :: u32 where "ATT_PROP_TRUST = 0x04"

record AttestChallenge =
  atc_challenge_id :: bytes
  atc_nonce :: bytes
  atc_pcr_indices :: "u32 list"
  atc_pcr_count :: u32
  atc_timestamp :: u32

record AttestPCRComposite =
  apc_pcr_indices :: "u32 list"
  apc_pcr_count :: u32
  apc_pcr_values :: "bytes list"
  apc_pcr_composite :: bytes

record AttestQuote =
  atq_quote_nonce :: bytes
  atq_pcr_comp :: AttestPCRComposite
  atq_signing_key_handle :: u32
  atq_signature :: bytes
  atq_signature_len :: u32
  atq_qualifying_data :: bytes
  atq_qualifying_data_len :: u16
  atq_sig_verified :: bool

record AttestResponse =
  atr_quote :: AttestQuote
  atr_aik_public :: TPMKeyPublic
  atr_aik_name :: bytes
  atr_verified :: bool

record AttestVerifier =
  atv_last_challenge :: AttestChallenge
  atv_last_response :: AttestResponse
  atv_challenge_sent :: bool
  atv_response_received :: bool
  atv_expected_nonce :: bytes
  atv_expected_pcr_indices :: "u32 list"
  atv_expected_pcr_count :: u32
  atv_golden_pcrs :: "bytes list"
  atv_golden_defined :: "bool list"

section \<open>Challenge\<close>

definition challenge_nonce :: bytes where
  "challenge_nonce = sha256_hash [1, 2, 3, 4, 5, 6, 7, 8, 9, 10, 11, 12, 13, 14, 15, 16]"

definition attest_generate_challenge :: "AttestVerifier \<Rightarrow> u32 list option \<Rightarrow> AttestVerifier" where
  "attest_generate_challenge verifier pcr_indices =
     (case pcr_indices of None \<Rightarrow> verifier
      | Some idx \<Rightarrow>
          if length idx > ATT_MAX_PCR_COUNT then verifier
          else verifier\<lparr>
             atv_last_challenge := \<lparr>atc_challenge_id = take ATT_CHALLENGE_ID_SIZE (sha256_hash (zeros 4)),
               atc_nonce = challenge_nonce, atc_pcr_indices = blit (replicate ATT_MAX_PCR_COUNT 0) 0 idx,
               atc_pcr_count = of_nat (length idx), atc_timestamp = 0\<rparr>,
             atv_expected_nonce := challenge_nonce,
             atv_expected_pcr_count := of_nat (length idx),
             atv_expected_pcr_indices := blit (atv_expected_pcr_indices verifier) 0 idx,
             atv_challenge_sent := True, atv_response_received := False\<rparr>)"

section \<open>Quote\<close>

definition find_signing_key :: "TPMKeyManager \<Rightarrow> u32 \<Rightarrow> TPMKeyObject option" where
  "find_signing_key key_mgr signing_key_handle =
     map_option (\<lambda>i. tkm_keys key_mgr ! i)
       (find_index (\<lambda>k. ko_handle k = signing_key_handle \<and> ko_loaded k) (tkm_keys key_mgr))"

definition zero_quote :: AttestQuote where
  "zero_quote = \<lparr>atq_quote_nonce = zeros 32, atq_pcr_comp = \<lparr>apc_pcr_indices = replicate 8 0, apc_pcr_count = 0,
     apc_pcr_values = replicate 8 (zeros 32), apc_pcr_composite = zeros 32\<rparr>, atq_signing_key_handle = 0,
     atq_signature = zeros 64, atq_signature_len = 0, atq_qualifying_data = zeros 64, atq_qualifying_data_len = 0,
     atq_sig_verified = False\<rparr>"

definition quoted_value :: "PCRBank \<Rightarrow> u32 \<Rightarrow> bytes" where
  "quoted_value bank idx = (if unat idx < PCR_COUNT then (case pcr_read bank idx of None \<Rightarrow> zeros 32 | Some v \<Rightarrow> v) else zeros 32)"

definition hashed_values :: "nat \<Rightarrow> bytes list \<Rightarrow> bytes" where
  "hashed_values n values = sha256_hash (concat (map (\<lambda>i. sha256_hash (values ! i)) [0..<n]))"

text \<open>What is signed: nonce, composite and the qualifying data the quote names.\<close>

definition signed_data :: "bytes \<Rightarrow> AttestQuote \<Rightarrow> bytes" where
  "signed_data nonce q = nonce @ apc_pcr_composite (atq_pcr_comp q)
     @ (if atq_qualifying_data_len q > 0 then take (unat (atq_qualifying_data_len q)) (atq_qualifying_data q) else [])"

definition attest_create_quote ::
  "PCRBank option \<Rightarrow> AttestChallenge option \<Rightarrow> TPMKeyManager option \<Rightarrow> u32 \<Rightarrow> AttestQuote option c_result" where
  "attest_create_quote pcr_bank challenge key_mgr signing_key_handle =
     (case (pcr_bank, challenge, key_mgr) of
        (Some bank, Some chal, Some mgr) \<Rightarrow>
          (case find_signing_key mgr signing_key_handle of None \<Rightarrow> Returned None
           | Some signing_key \<Rightarrow>
               let n = unat (atc_pcr_count chal) in
               if n > ATT_MAX_PCR_COUNT then Undefined
               else let idx = map (\<lambda>i. atc_pcr_indices chal ! i) [0..<n];
                        values = blit (replicate 8 (zeros 32)) 0 (map (quoted_value bank) idx);
                        pcomp = \<lparr>apc_pcr_indices = blit (replicate 8 0) 0 idx, apc_pcr_count = atc_pcr_count chal,
                                apc_pcr_values = values, apc_pcr_composite = hashed_values n values\<rparr>;
                        q = zero_quote\<lparr>atq_quote_nonce := atc_nonce chal, atq_pcr_comp := pcomp\<rparr>;
                        sig = tpm_hmac_sha256 (kp_unique (ko_public_part signing_key)) (signed_data (atc_nonce chal) q)
                    in Returned (Some (q\<lparr>atq_signature := blit (zeros ATT_SIGNATURE_SIZE) 0 sig, atq_signature_len := 32,
                                        atq_signing_key_handle := signing_key_handle\<rparr>)))
      | _ \<Rightarrow> Returned None)"

section \<open>Verification\<close>

text \<open>
  The lengths come from the quote: a signature length of more than 32 compares beyond the
  recomputed one, a qualifying length of more than 64 copies beyond the data.
\<close>

definition attest_verify_quote :: "AttestVerifier option \<Rightarrow> AttestQuote option \<Rightarrow> TPMKeyPublic option \<Rightarrow> bool c_result" where
  "attest_verify_quote verifier quote aik_public =
     (case (verifier, quote, aik_public) of
        (Some v, Some q, Some aik) \<Rightarrow>
          let pcomp = atq_pcr_comp q; n = unat (atv_expected_pcr_count v) in
          if atq_quote_nonce q \<noteq> atv_expected_nonce v then Returned False
          else if apc_pcr_count pcomp \<noteq> atv_expected_pcr_count v then Returned False
          else if n > ATT_MAX_PCR_COUNT then Undefined
          else if \<exists>i \<in> {0..<n}. apc_pcr_indices pcomp ! i \<noteq> atv_expected_pcr_indices v ! i then Returned False
          else if hashed_values n (apc_pcr_values pcomp) \<noteq> apc_pcr_composite pcomp then Returned False
          else if unat (atq_qualifying_data_len q) > 64 then Undefined
          else let expected_sig = tpm_hmac_sha256 (kp_unique aik) (signed_data (atv_expected_nonce v) q)
               in if unat (atq_signature_len q) > 32 then Undefined
                  else Returned (take (unat (atq_signature_len q)) expected_sig
                    = take (unat (atq_signature_len q)) (atq_signature q))
      | _ \<Rightarrow> Returned False)"

fun golden_check :: "AttestVerifier \<Rightarrow> (u32 \<times> bytes) list \<Rightarrow> bool" where
  "golden_check v [] = True"
| "golden_check v ((pcr_idx, val) # ivs) =
     (if unat pcr_idx \<ge> PCR_COUNT then False
      else if \<not> atv_golden_defined v ! unat pcr_idx then golden_check v ivs
      else if val \<noteq> atv_golden_pcrs v ! unat pcr_idx then False
      else golden_check v ivs)"

definition quoted_pairs :: "AttestPCRComposite \<Rightarrow> (u32 \<times> bytes) list" where
  "quoted_pairs pcomp = map (\<lambda>i. (apc_pcr_indices pcomp ! i, apc_pcr_values pcomp ! i)) [0..<unat (apc_pcr_count pcomp)]"

definition attest_verify_integrity :: "AttestVerifier option \<Rightarrow> AttestResponse option \<Rightarrow> bool c_result" where
  "attest_verify_integrity verifier response =
     (case (verifier, response) of
        (Some v, Some r) \<Rightarrow>
          if \<not> atv_challenge_sent v then Returned False
          else (case attest_verify_quote (Some v) (Some (atr_quote r)) (Some (atr_aik_public r)) of
                  Returned ok \<Rightarrow> if \<not> ok then Returned False else Returned (golden_check v (quoted_pairs (atq_pcr_comp (atr_quote r))))
                | Undefined \<Rightarrow> Undefined | Diverges \<Rightarrow> Diverges)
      | _ \<Rightarrow> Returned False)"

text \<open>Here no check bounds the register number.\<close>

fun trust_check :: "AttestVerifier \<Rightarrow> (u32 \<times> bytes) list \<Rightarrow> bool c_result" where
  "trust_check v [] = Returned True"
| "trust_check v ((pcr_idx, val) # ivs) =
     (if unat pcr_idx \<ge> PCR_COUNT then Undefined
      else if atv_golden_defined v ! unat pcr_idx \<and> val \<noteq> atv_golden_pcrs v ! unat pcr_idx then Returned False
      else trust_check v ivs)"

definition attest_check_properties :: "AttestVerifier option \<Rightarrow> AttestResponse option \<Rightarrow> u32 c_result" where
  "attest_check_properties verifier response =
     (case (verifier, response) of
        (Some v, Some r) \<Rightarrow>
          (let q = atr_quote r;
               r1 = (if atq_quote_nonce q = atv_expected_nonce v then ATT_PROP_FRESHNESS else 0)
           in case attest_verify_quote (Some v) (Some q) (Some (atr_aik_public r)) of
                Undefined \<Rightarrow> Undefined | Diverges \<Rightarrow> Diverges
              | Returned ok \<Rightarrow>
                  let r2 = (if ok then r1 OR ATT_PROP_BINDING else r1)
                  in if unat (apc_pcr_count (atq_pcr_comp q)) > ATT_MAX_PCR_COUNT then Undefined
                     else (case trust_check v (quoted_pairs (atq_pcr_comp q)) of
                             Undefined \<Rightarrow> Undefined | Diverges \<Rightarrow> Diverges
                           | Returned all_pcr_match \<Rightarrow> Returned (if all_pcr_match then r2 OR ATT_PROP_TRUST else r2)))
      | _ \<Rightarrow> Returned 0)"

definition attest_set_golden_pcr :: "AttestVerifier \<Rightarrow> u32 \<Rightarrow> bytes option \<Rightarrow> AttestVerifier" where
  "attest_set_golden_pcr verifier pcr_index golden_value =
     (case golden_value of None \<Rightarrow> verifier
      | Some g \<Rightarrow>
          if unat pcr_index \<ge> PCR_COUNT then verifier
          else verifier\<lparr>atv_golden_pcrs := (atv_golden_pcrs verifier)[unat pcr_index := take 32 g],
                        atv_golden_defined := (atv_golden_defined verifier)[unat pcr_index := True]\<rparr>)"

section \<open>Facts\<close>

definition atv_wf :: "AttestVerifier \<Rightarrow> bool" where
  "atv_wf v \<longleftrightarrow> length (atv_expected_pcr_indices v) = 8 \<and> length (atv_golden_pcrs v) = 24 \<and> length (atv_golden_defined v) = 24"

text \<open>The quote of a challenged prover, and that it passes.\<close>

definition the_quote :: "PCRBank \<Rightarrow> u32 list \<Rightarrow> TPMKeyObject \<Rightarrow> AttestQuote" where
  "the_quote bank idx key =
     (let values = blit (replicate 8 (zeros 32)) 0 (map (quoted_value bank) idx);
          q = zero_quote\<lparr>atq_quote_nonce := challenge_nonce, atq_pcr_comp :=
                \<lparr>apc_pcr_indices = blit (replicate 8 0) 0 idx, apc_pcr_count = of_nat (length idx),
                 apc_pcr_values = values, apc_pcr_composite = hashed_values (length idx) values\<rparr>\<rparr>
      in q\<lparr>atq_signature := blit (zeros 64) 0 (tpm_hmac_sha256 (kp_unique (ko_public_part key)) (signed_data challenge_nonce q)),
           atq_signature_len := 32, atq_signing_key_handle := ko_handle key\<rparr>)"

lemma find_signing_key_handle: "find_signing_key mgr h = Some k \<Longrightarrow> ko_handle k = h"
  by (auto simp: find_signing_key_def dest: find_index_SomeD)

lemma blit_prefix: "length idx \<le> length xs \<Longrightarrow> i < length idx \<Longrightarrow> blit xs 0 idx ! i = idx ! i"
  by (simp add: blit_def nth_append)

lemma create_quote_eq:
  assumes "length idx \<le> 8" and "find_signing_key mgr h = Some k"
  shows "attest_create_quote (Some bank) (Some (atv_last_challenge (attest_generate_challenge v (Some idx)))) (Some mgr) h
    = Returned (Some (the_quote bank idx k))"
proof -
  have n: "unat (of_nat (length idx) :: u32) = length idx" using assms(1) by (intro unat_of_nat_u32) simp
  have i: "map (\<lambda>i. blit (replicate 8 0) 0 idx ! i) [0..<length idx] = idx"
    using assms(1) by (intro nth_equalityI) (simp_all add: blit_prefix)
  show ?thesis
    using assms find_signing_key_handle [OF assms(2)]
    by (simp add: attest_create_quote_def attest_generate_challenge_def ATT_MAX_PCR_COUNT_def ATT_SIGNATURE_SIZE_def Let_def n i the_quote_def)
qed

lemma the_quote_simps [simp]:
  "atq_quote_nonce (the_quote bank idx k) = challenge_nonce"
  "atq_pcr_comp (the_quote bank idx k) = \<lparr>apc_pcr_indices = blit (replicate 8 0) 0 idx, apc_pcr_count = of_nat (length idx),
     apc_pcr_values = blit (replicate 8 (zeros 32)) 0 (map (quoted_value bank) idx),
     apc_pcr_composite = hashed_values (length idx) (blit (replicate 8 (zeros 32)) 0 (map (quoted_value bank) idx))\<rparr>"
  "atq_signature_len (the_quote bank idx k) = 32" "atq_qualifying_data_len (the_quote bank idx k) = 0"
  "take 32 (atq_signature (the_quote bank idx k)) = tpm_hmac_sha256 (kp_unique (ko_public_part k)) (signed_data challenge_nonce (the_quote bank idx k))"
  by (simp_all add: the_quote_def Let_def zero_quote_def signed_data_def blit_def)

lemma challenge_simps:
  assumes "length idx \<le> 8"
  shows "atv_expected_nonce (attest_generate_challenge v (Some idx)) = challenge_nonce"
    "atv_expected_pcr_count (attest_generate_challenge v (Some idx)) = of_nat (length idx)"
    "atv_expected_pcr_indices (attest_generate_challenge v (Some idx)) = blit (atv_expected_pcr_indices v) 0 idx"
    "atv_challenge_sent (attest_generate_challenge v (Some idx))"
    "atv_golden_pcrs (attest_generate_challenge v (Some idx)) = atv_golden_pcrs v"
    "atv_golden_defined (attest_generate_challenge v (Some idx)) = atv_golden_defined v"
  using assms by (simp_all add: attest_generate_challenge_def ATT_MAX_PCR_COUNT_def)

text \<open>What a quote must satisfy to pass: the signature counts only as far as the quote says.\<close>

lemma verify_quote_iff:
  assumes "atv_wf v" and "length idx \<le> 8"
  shows "attest_verify_quote (Some (attest_generate_challenge v (Some idx))) (Some q) (Some aik) = Returned True \<longleftrightarrow>
    atq_quote_nonce q = challenge_nonce \<and> apc_pcr_count (atq_pcr_comp q) = of_nat (length idx)
    \<and> (\<forall>i < length idx. apc_pcr_indices (atq_pcr_comp q) ! i = idx ! i)
    \<and> apc_pcr_composite (atq_pcr_comp q) = hashed_values (length idx) (apc_pcr_values (atq_pcr_comp q))
    \<and> unat (atq_qualifying_data_len q) \<le> 64 \<and> unat (atq_signature_len q) \<le> 32
    \<and> take (unat (atq_signature_len q)) (atq_signature q)
      = take (unat (atq_signature_len q)) (tpm_hmac_sha256 (kp_unique aik) (signed_data challenge_nonce q))"
proof -
  have n: "unat (of_nat (length idx) :: u32) = length idx" using assms(2) by (intro unat_of_nat_u32) simp
  have i: "blit (atv_expected_pcr_indices v) 0 idx ! i = idx ! i" if "i < length idx" for i
    using assms that by (intro blit_prefix) (simp_all add: atv_wf_def)
  show ?thesis
    using assms(2) i by (auto simp: attest_verify_quote_def challenge_simps [OF assms(2)] n ATT_MAX_PCR_COUNT_def Let_def)
qed

lemma the_quote_verifies:
  assumes "atv_wf v" and "length idx \<le> 8"
  shows "attest_verify_quote (Some (attest_generate_challenge v (Some idx))) (Some (the_quote bank idx k))
    (Some (ko_public_part k)) = Returned True"
  unfolding verify_quote_iff [OF assms] using assms(2) by (simp add: blit_prefix)

lemma golden_check_iff:
  "golden_check v ivs \<longleftrightarrow> (\<forall>(i, x) \<in> set ivs. unat i < 24 \<and> (atv_golden_defined v ! unat i \<longrightarrow> x = atv_golden_pcrs v ! unat i))"
  by (induction v ivs rule: golden_check.induct) (auto simp: PCR_COUNT_def)

text \<open>The forged quote: any values for the requested registers, the nonce, no signature.\<close>

definition forged_quote :: "u32 list \<Rightarrow> bytes list \<Rightarrow> AttestQuote" where
  "forged_quote idx values = zero_quote\<lparr>atq_quote_nonce := challenge_nonce, atq_pcr_comp :=
     \<lparr>apc_pcr_indices = blit (replicate 8 0) 0 idx, apc_pcr_count = of_nat (length idx), apc_pcr_values = values,
      apc_pcr_composite = hashed_values (length idx) values\<rparr>\<rparr>"

lemma forged_quote_verifies:
  assumes "atv_wf v" and "length idx \<le> 8"
  shows "attest_verify_quote (Some (attest_generate_challenge v (Some idx))) (Some (forged_quote idx values)) (Some aik) = Returned True"
  unfolding verify_quote_iff [OF assms] using assms(2) by (simp add: forged_quote_def zero_quote_def blit_prefix)

lemma quoted_pairs_of_quote:
  assumes "length idx \<le> 8" and "apc_pcr_count pcomp = of_nat (length idx)" and "\<forall>i < length idx. apc_pcr_indices pcomp ! i = idx ! i"
  shows "quoted_pairs pcomp = zip idx (map (\<lambda>i. apc_pcr_values pcomp ! i) [0..<length idx])"
proof -
  have n: "unat (of_nat (length idx) :: u32) = length idx" using assms(1) by (intro unat_of_nat_u32) simp
  show ?thesis unfolding quoted_pairs_def assms(2) n using assms(3) by (intro nth_equalityI) simp_all
qed

end
