(* ===== verification/Boot_Config.thy ===== *)
theory Boot_Config
  imports Prelude
begin

text \<open>
  The boot menu of \<open>mini-bootloader/src/boot_config.c\<close>.  C strings are lists of bytes without
  their terminator; the used slots of an array with a count are one list.  The contents of the
  file and whether \<open>strdup\<close> succeeds are parameters.
\<close>

section \<open>State\<close>

definition BOOTCFG_MAX_ENTRIES :: nat where "BOOTCFG_MAX_ENTRIES = 32"
definition BOOTCFG_MAX_KEY :: nat where "BOOTCFG_MAX_KEY = 64"
definition BOOTCFG_MAX_VALUE :: nat where "BOOTCFG_MAX_VALUE = 256"
definition BOOTCFG_MAX_ARGS :: nat where "BOOTCFG_MAX_ARGS = 16"
definition BOOTCFG_MAX_ARG_LEN :: nat where "BOOTCFG_MAX_ARG_LEN = 128"

record BootMenuEntry =
  bme_title :: bytes
  bme_kernel :: bytes
  bme_initrd :: bytes
  bme_args :: "bytes list"
  bme_index :: u32
  bme_is_default :: bool

record BootConfig =
  bcf_entries :: "BootMenuEntry list"
  bcf_default_index :: u32
  bcf_timeout_seconds :: u32
  bcf_theme :: bytes
  bcf_globals :: "(bytes \<times> bytes) list"

definition bootcfg_init :: BootConfig where
  "bootcfg_init = \<lparr>bcf_entries = [], bcf_default_index = 0, bcf_timeout_seconds = 10, bcf_theme = [], bcf_globals = []\<rparr>"

definition zero_menu_entry :: BootMenuEntry where
  "zero_menu_entry = \<lparr>bme_title = [], bme_kernel = [], bme_initrd = [], bme_args = [], bme_index = 0, bme_is_default = False\<rparr>"

definition is_space :: "u8 \<Rightarrow> bool" where
  "is_space c \<longleftrightarrow> c = 32 \<or> 9 \<le> c \<and> c \<le> 13"

section \<open>Tokens\<close>

text \<open>
  A quoted token: escapes \<open>n\<close> and \<open>t\<close>, any other escaped character for itself, at most as many
  characters as there is room for; what is left starts with the closing quote, if there is one.
\<close>

fun read_quoted :: "u8 \<Rightarrow> nat \<Rightarrow> bytes \<Rightarrow> bytes \<times> bytes" where
  "read_quoted q room [] = ([], [])"
| "read_quoted q room (c # p) =
     (if c = q \<or> room = 0 then ([], c # p)
      else (case p of
              d # p1 \<Rightarrow>
                if c = 92
                then let e = (if d = 110 then 10 else if d = 116 then 9 else d); (tok, rest) = read_quoted q (room - 1) p1
                     in (e # tok, rest)
                else let (tok, rest) = read_quoted q (room - 1) p in (c # tok, rest)
            | [] \<Rightarrow> let (tok, rest) = read_quoted q (room - 1) p in (c # tok, rest)))"

fun read_plain :: "nat \<Rightarrow> bytes \<Rightarrow> bytes \<times> bytes" where
  "read_plain room [] = ([], [])"
| "read_plain room (c # p) =
     (if is_space c \<or> room = 0 then ([], c # p)
      else let (tok, rest) = read_plain (room - 1) p in (c # tok, rest))"

definition read_token :: "bytes \<Rightarrow> bytes \<times> bytes" where
  "read_token p =
     (if p = [] then ([], [])
      else if hd p = 34 \<or> hd p = 39
      then let q = hd p; (tok, rest) = read_quoted q (BOOTCFG_MAX_ARG_LEN - 1) (tl p)
           in (tok, if rest \<noteq> [] \<and> hd rest = q then tl rest else rest)
      else read_plain (BOOTCFG_MAX_ARG_LEN - 1) p)"

lemma read_quoted_length: "length (snd (read_quoted q room p)) \<le> length p"
proof (induction p arbitrary: room rule: length_induct)
  case (1 p)
  show ?case
  proof (cases p)
    case (Cons c p1)
    have r: "length (snd (read_quoted q (room - 1) p2)) \<le> length p1" if "length p2 \<le> length p1" for p2
      using 1 [rule_format, of p2 "room - 1"] that Cons by simp
    have e: "length (snd (read_quoted q room (c # p1))) \<le> length (c # p1)"
    proof (cases p1)
      case Nil
      then show ?thesis by simp
    next
      case (Cons d p2)
      show ?thesis
        using r [of "d # p2"] r [of p2] unfolding Cons
        by (subst read_quoted.simps) (simp del: read_quoted.simps add: Let_def case_prod_unfold)
    qed
    then show ?thesis using Cons by simp
  qed simp
qed

lemma read_plain_length: "length (snd (read_plain room p)) \<le> length p"
proof (induction p arbitrary: room)
  case (Cons c p)
  then show ?case by (simp add: Let_def case_prod_unfold le_SucI)
qed simp

lemma read_token_shorter:
  assumes "p \<noteq> []" and "\<not> is_space (hd p)"
  shows "length (snd (read_token p)) < length p"
proof -
  obtain c p1 where p: "p = c # p1" using assms(1) by (cases p) auto
  show ?thesis
  proof (cases "c = 34 \<or> c = 39")
    case True
    have "length (snd (read_quoted c 127 p1)) \<le> length p1" by (rule read_quoted_length)
    then show ?thesis using True by (auto simp: p read_token_def BOOTCFG_MAX_ARG_LEN_def Let_def split: prod.splits)
  next
    case False
    have "length (snd (read_plain 126 p1)) \<le> length p1" by (rule read_plain_length)
    then show ?thesis using False assms(2) by (auto simp: p read_token_def BOOTCFG_MAX_ARG_LEN_def Let_def split: prod.splits)
  qed
qed

function tokens_from :: "nat \<Rightarrow> bytes \<Rightarrow> bytes list" where
  "tokens_from max_tokens p =
     (let p1 = dropWhile is_space p
      in if max_tokens = 0 \<or> p1 = [] then []
         else let (tok, rest) = read_token p1
              in if tok = [] then tokens_from max_tokens rest else tok # tokens_from (max_tokens - 1) rest)"
  by pat_completeness auto
termination
proof (relation "measure (\<lambda>(m, p). length p)")
  fix m :: nat and p p1 tok rest :: bytes and x
  assume a: "p1 = dropWhile is_space p" "\<not> (m = 0 \<or> p1 = [])" "x = read_token p1" "(tok, rest) = x"
  have "\<not> is_space (hd p1)" using a hd_dropWhile [of is_space p] by simp
  then have "length rest < length p1" using read_token_shorter [of p1] a by (metis snd_conv)
  then have "length rest < length p" using length_dropWhile_le [of is_space p] by (simp add: a(1))
  then show "((m, rest), m, p) \<in> measure (\<lambda>(m, p). length p)" "((m - 1, rest), m, p) \<in> measure (\<lambda>(m, p). length p)"
    by simp_all
qed simp

declare tokens_from.simps [simp del]

definition bootcfg_tokenize :: "bytes option \<Rightarrow> int \<Rightarrow> bytes list" where
  "bootcfg_tokenize line max_tokens =
     (case line of None \<Rightarrow> [] | Some p \<Rightarrow> if max_tokens \<le> 0 then [] else tokens_from (nat max_tokens) p)"

section \<open>Global settings and entries\<close>

definition bootcfg_get_global :: "BootConfig option \<Rightarrow> bytes option \<Rightarrow> bytes option" where
  "bootcfg_get_global cfg key =
     (case (cfg, key) of (Some c, Some k) \<Rightarrow> map_of (bcf_globals c) k | _ \<Rightarrow> None)"

text \<open>The key is compared in full and stored with 63 characters.\<close>

definition bootcfg_set_global :: "BootConfig \<Rightarrow> bytes option \<Rightarrow> bytes option \<Rightarrow> BootConfig \<times> bool" where
  "bootcfg_set_global cfg key val =
     (case (key, val) of
        (Some k, Some v) \<Rightarrow>
          (case find_index (\<lambda>kv. fst kv = k) (bcf_globals cfg) of
             Some i \<Rightarrow> (cfg\<lparr>bcf_globals := (bcf_globals cfg)[i := (fst (bcf_globals cfg ! i), take (BOOTCFG_MAX_VALUE - 1) v)]\<rparr>, True)
           | None \<Rightarrow>
               if length (bcf_globals cfg) \<ge> 32 then (cfg, False)
               else (cfg\<lparr>bcf_globals := bcf_globals cfg @ [(take (BOOTCFG_MAX_KEY - 1) k, take (BOOTCFG_MAX_VALUE - 1) v)]\<rparr>, True))
      | _ \<Rightarrow> (cfg, False))"

definition bootcfg_set_timeout :: "BootConfig \<Rightarrow> u32 \<Rightarrow> BootConfig \<times> bool" where
  "bootcfg_set_timeout cfg seconds = (cfg\<lparr>bcf_timeout_seconds := seconds\<rparr>, True)"

definition bootcfg_set_default :: "BootConfig \<Rightarrow> u32 \<Rightarrow> BootConfig \<times> bool" where
  "bootcfg_set_default cfg index =
     (if unat index \<ge> BOOTCFG_MAX_ENTRIES then (cfg, False) else (cfg\<lparr>bcf_default_index := index\<rparr>, True))"

definition bootcfg_get_entry :: "BootConfig option \<Rightarrow> u32 \<Rightarrow> BootMenuEntry option" where
  "bootcfg_get_entry cfg index =
     (case cfg of None \<Rightarrow> None
      | Some c \<Rightarrow> if unat index \<ge> length (bcf_entries c) then None else Some (bcf_entries c ! unat index))"

definition bootcfg_get_default :: "BootConfig option \<Rightarrow> BootMenuEntry option" where
  "bootcfg_get_default cfg =
     (case cfg of None \<Rightarrow> None
      | Some c \<Rightarrow>
          if unat (bcf_default_index c) < length (bcf_entries c) then Some (bcf_entries c ! unat (bcf_default_index c))
          else if length (bcf_entries c) > 0 then Some (bcf_entries c ! 0) else None)"

text \<open>The words of an argument string, cut to 127 characters, at most as many as there is room for.\<close>

function split_args :: "nat \<Rightarrow> bytes \<Rightarrow> bytes list" where
  "split_args room p =
     (let p1 = dropWhile is_space p
      in if room = 0 \<or> p1 = [] then []
         else take (BOOTCFG_MAX_ARG_LEN - 1) (takeWhile (\<lambda>c. \<not> is_space c) p1)
              # split_args (room - 1) (dropWhile (\<lambda>c. \<not> is_space c) p1))"
  by pat_completeness auto
termination by (relation "measure fst") auto

declare split_args.simps [simp del]

definition bootcfg_add_entry ::
  "BootConfig \<Rightarrow> bytes option \<Rightarrow> bytes option \<Rightarrow> bytes option \<Rightarrow> bytes option \<Rightarrow> BootConfig \<times> bool" where
  "bootcfg_add_entry cfg title kern initrd args =
     (case title of None \<Rightarrow> (cfg, False)
      | Some t \<Rightarrow>
          if length (bcf_entries cfg) \<ge> BOOTCFG_MAX_ENTRIES then (cfg, False)
          else let cut = take (BOOTCFG_MAX_VALUE - 1);
                   e = zero_menu_entry\<lparr>bme_index := of_nat (length (bcf_entries cfg)), bme_title := cut t,
                         bme_kernel := (case kern of None \<Rightarrow> [] | Some k \<Rightarrow> cut k),
                         bme_initrd := (case initrd of None \<Rightarrow> [] | Some i \<Rightarrow> cut i),
                         bme_args := (case args of None \<Rightarrow> [] | Some a \<Rightarrow> split_args BOOTCFG_MAX_ARGS a)\<rparr>
               in (cfg\<lparr>bcf_entries := bcf_entries cfg @ [e]\<rparr>, True))"

section \<open>The parser\<close>

text \<open>\<open>strtok_r\<close> with a newline: empty lines are skipped.\<close>

function strtok_lines :: "bytes \<Rightarrow> bytes list" where
  "strtok_lines s =
     (let s1 = dropWhile (\<lambda>c. c = 10) s
      in if s1 = [] then [] else takeWhile (\<lambda>c. c \<noteq> 10) s1 # strtok_lines (dropWhile (\<lambda>c. c \<noteq> 10) s1))"
  by pat_completeness auto
termination
proof (relation "measure length")
  fix s s1 :: bytes
  assume a: "s1 = dropWhile (\<lambda>c. c = 10) s" "s1 \<noteq> []"
  then have "hd s1 \<noteq> 10" using hd_dropWhile [of "\<lambda>c. c = 10" s] by simp
  then have "length (dropWhile (\<lambda>c. c \<noteq> 10) s1) < length s1"
    using a(2) length_dropWhile_le [of "\<lambda>c. c \<noteq> 10" "tl s1"] by (cases s1) auto
  then show "(dropWhile (\<lambda>c. c \<noteq> 10) s1, s) \<in> measure length"
    using a(1) length_dropWhile_le [of "\<lambda>c. c = 10" s] by simp
qed simp

declare strtok_lines.simps [simp del]

definition trim :: "bytes \<Rightarrow> bytes" where
  "trim line = rev (dropWhile is_space (rev (dropWhile is_space line)))"

definition starts_with :: "bytes \<Rightarrow> bytes \<Rightarrow> bool" where
  "starts_with line s \<longleftrightarrow> take (length s) line = s"

text \<open>\<open>atoi\<close>: white space, a sign, digits; a value beyond \<open>int\<close> is undefined behaviour.\<close>

definition is_digit_byte :: "u8 \<Rightarrow> bool" where "is_digit_byte c \<longleftrightarrow> 48 \<le> c \<and> c \<le> 57"

definition digits_value :: "bytes \<Rightarrow> int" where
  "digits_value ds = fold (\<lambda>c acc. 10 * acc + int (unat (c - 48))) ds 0"

definition atoi :: "bytes \<Rightarrow> int c_result" where
  "atoi s =
     (let p = dropWhile is_space s;
          neg = (p \<noteq> [] \<and> hd p = 45);
          p1 = (if p \<noteq> [] \<and> (hd p = 45 \<or> hd p = 43) then tl p else p);
          v = digits_value (takeWhile is_digit_byte p1);
          r = (if neg then - v else v)
      in if r < - (2 ^ 31) \<or> r \<ge> 2 ^ 31 then Undefined else Returned r)"

record cfg_state =
  cps_cfg :: BootConfig
  cps_in_menuentry :: bool
  cps_current_entry :: "nat option"

definition put_entry :: "nat \<Rightarrow> (BootMenuEntry \<Rightarrow> BootMenuEntry) \<Rightarrow> BootConfig \<Rightarrow> BootConfig" where
  "put_entry i f cfg = cfg\<lparr>bcf_entries := (bcf_entries cfg)[i := f (bcf_entries cfg ! i)]\<rparr>"

text \<open>A line inside a block.\<close>

definition entry_line :: "bytes \<Rightarrow> cfg_state \<Rightarrow> cfg_state" where
  "entry_line line s =
     (if line = str_bytes ''}'' then s\<lparr>cps_in_menuentry := False, cps_current_entry := None\<rparr>
      else (case cps_current_entry s of None \<Rightarrow> s
        | Some i \<Rightarrow>
            let tokens = bootcfg_tokenize (Some line) (int BOOTCFG_MAX_ARGS) in
            if length tokens \<ge> 2
            then if tokens ! 0 = str_bytes ''linux'' \<or> tokens ! 0 = str_bytes ''kernel''
                 then s\<lparr>cps_cfg := put_entry i (\<lambda>e. e\<lparr>bme_kernel := take (BOOTCFG_MAX_VALUE - 1) (tokens ! 1),
                          bme_args := map (take (BOOTCFG_MAX_ARG_LEN - 1)) (drop 2 tokens)\<rparr>) (cps_cfg s)\<rparr>
                 else if tokens ! 0 = str_bytes ''initrd''
                 then s\<lparr>cps_cfg := put_entry i (\<lambda>e. e\<lparr>bme_initrd := take (BOOTCFG_MAX_VALUE - 1) (tokens ! 1)\<rparr>) (cps_cfg s)\<rparr>
                 else s
            else s))"

text \<open>The title between the first two double quotes; one of 256 characters or more overflows its field.\<close>

definition title_of :: "bytes \<Rightarrow> bytes option" where
  "title_of line =
     (let after = dropWhile (\<lambda>c. c \<noteq> 34) line in
      if after = [] then None
      else let t = takeWhile (\<lambda>c. c \<noteq> 34) (tl after)
           in if length t = length (tl after) \<or> t = [] then None else Some t)"

definition global_line :: "bytes \<Rightarrow> cfg_state \<Rightarrow> cfg_state c_result" where
  "global_line line s =
     (let cfg = cps_cfg s in
      if starts_with line (str_bytes ''menuentry'')
      then if length (bcf_entries cfg) \<ge> BOOTCFG_MAX_ENTRIES then Returned s
           else (case title_of line of None \<Rightarrow> Returned s
             | Some t \<Rightarrow>
                 if length t \<ge> BOOTCFG_MAX_VALUE then Undefined
                 else Returned (s\<lparr>cps_cfg := cfg\<lparr>bcf_entries := bcf_entries cfg @
                                    [zero_menu_entry\<lparr>bme_index := of_nat (length (bcf_entries cfg)), bme_title := t\<rparr>]\<rparr>,
                                  cps_current_entry := Some (length (bcf_entries cfg)), cps_in_menuentry := True\<rparr>))
      else if starts_with line (str_bytes ''set '')
      then let kv = drop 4 line; k = takeWhile (\<lambda>c. c \<noteq> 61) kv
           in if length k = length kv then Returned s
              else Returned (s\<lparr>cps_cfg := fst (bootcfg_set_global cfg (Some k) (Some (drop (Suc (length k)) kv)))\<rparr>)
      else if starts_with line (str_bytes ''timeout='')
      then (case atoi (drop 8 line) of
              Returned v \<Rightarrow> Returned (s\<lparr>cps_cfg := cfg\<lparr>bcf_timeout_seconds := word_of_int v\<rparr>\<rparr>)
            | Undefined \<Rightarrow> Undefined | Diverges \<Rightarrow> Diverges)
      else if starts_with line (str_bytes ''default='')
      then (case atoi (drop 8 line) of
              Returned v \<Rightarrow> Returned (s\<lparr>cps_cfg := cfg\<lparr>bcf_default_index := word_of_int v\<rparr>\<rparr>)
            | Undefined \<Rightarrow> Undefined | Diverges \<Rightarrow> Diverges)
      else Returned s)"

definition config_line :: "bytes \<Rightarrow> cfg_state \<Rightarrow> cfg_state c_result" where
  "config_line line0 s =
     (let line1 = dropWhile is_space line0 in
      if line1 = [] \<or> hd line1 = 35 then Returned s
      else let line = trim line1
           in if cps_in_menuentry s then Returned (entry_line line s) else global_line line s)"

fun config_lines :: "bytes list \<Rightarrow> cfg_state \<Rightarrow> cfg_state c_result" where
  "config_lines [] s = Returned s"
| "config_lines (l # ls) s =
     (case config_line l s of Returned s1 \<Rightarrow> config_lines ls s1 | Undefined \<Rightarrow> Undefined | Diverges \<Rightarrow> Diverges)"

definition bootcfg_parse :: "bool \<Rightarrow> BootConfig \<Rightarrow> bytes option \<Rightarrow> (BootConfig \<times> bool) c_result" where
  "bootcfg_parse mem cfg config_text =
     (case config_text of None \<Rightarrow> Returned (cfg, False)
      | Some text \<Rightarrow>
          if \<not> mem then Returned (cfg, False)
          else (case config_lines (strtok_lines text) \<lparr>cps_cfg = cfg, cps_in_menuentry = False, cps_current_entry = None\<rparr> of
                  Returned s \<Rightarrow> Returned (cps_cfg s, True) | Undefined \<Rightarrow> Undefined | Diverges \<Rightarrow> Diverges))"

text \<open>\<open>None\<close> for a file that cannot be opened; a NUL in it ends the text.\<close>

definition bootcfg_parse_file :: "bool \<Rightarrow> bytes option \<Rightarrow> BootConfig \<Rightarrow> bytes option \<Rightarrow> (BootConfig \<times> bool) c_result" where
  "bootcfg_parse_file mem file cfg filepath =
     (case filepath of None \<Rightarrow> Returned (cfg, False)
      | Some _ \<Rightarrow>
          (case file of None \<Rightarrow> Returned (cfg, False)
           | Some contents \<Rightarrow>
               if contents = [] \<or> \<not> mem then Returned (cfg, False)
               else bootcfg_parse mem cfg (Some (takeWhile (\<lambda>c. c \<noteq> 0) contents))))"

section \<open>Bounds\<close>

text \<open>The invariant: what the fixed arrays of the structures hold, and that an entry knows its place.\<close>

definition entry_wf :: "BootMenuEntry \<Rightarrow> bool" where
  "entry_wf e \<longleftrightarrow> length (bme_title e) \<le> 255 \<and> length (bme_kernel e) \<le> 255 \<and> length (bme_initrd e) \<le> 255
     \<and> length (bme_args e) \<le> 16 \<and> (\<forall>a \<in> set (bme_args e). length a \<le> 127)"

definition cfg_wf :: "BootConfig \<Rightarrow> bool" where
  "cfg_wf c \<longleftrightarrow> length (bcf_entries c) \<le> 32 \<and> length (bcf_globals c) \<le> 32
     \<and> (\<forall>i < length (bcf_entries c). bme_index (bcf_entries c ! i) = of_nat i \<and> entry_wf (bcf_entries c ! i))
     \<and> (\<forall>(k, v) \<in> set (bcf_globals c). length k \<le> 63 \<and> length v \<le> 255)"

lemma tokens_bounds: "length (tokens_from n p) \<le> n"
proof (induction n p rule: tokens_from.induct)
  case (1 n p)
  obtain tok rest where t: "read_token (dropWhile is_space p) = (tok, rest)" by fastforce
  show ?case
  proof (cases "n = 0 \<or> dropWhile is_space p = []")
    case False
    note ih = 1 [OF refl False t [symmetric] refl]
    show ?thesis
    proof (cases "tok = []")
      case True
      then show ?thesis using ih(1) False t by (subst tokens_from.simps) simp
    next
      case tok: False
      have "length (tokens_from (n - 1) rest) \<le> n - 1" using ih(2) tok by blast
      then show ?thesis using False t tok by (subst tokens_from.simps) (simp add: Let_def, linarith)
    qed
  qed (subst tokens_from.simps, auto)
qed

lemma split_args_bounds: "length (split_args n p) \<le> n \<and> (\<forall>a \<in> set (split_args n p). length a \<le> 127)"
proof (induction n arbitrary: p)
  case 0
  show ?case by (simp add: split_args.simps)
next
  case (Suc n)
  then show ?case by (subst (1 2) split_args.simps) (auto simp: Let_def BOOTCFG_MAX_ARG_LEN_def)
qed

lemma cfg_wf_init: "cfg_wf bootcfg_init"
  by (simp add: cfg_wf_def bootcfg_init_def)

lemma cfg_wf_append:
  assumes "cfg_wf c" and "length (bcf_entries c) < 32" and "entry_wf e" and "bme_index e = of_nat (length (bcf_entries c))"
  shows "cfg_wf (c\<lparr>bcf_entries := bcf_entries c @ [e]\<rparr>)"
  using assms by (auto simp: cfg_wf_def nth_append less_Suc_eq)

lemma cfg_wf_add_entry: "cfg_wf c \<Longrightarrow> cfg_wf (fst (bootcfg_add_entry c t k i a))"
  using split_args_bounds [of 16]
  by (auto simp: bootcfg_add_entry_def Let_def zero_menu_entry_def entry_wf_def BOOTCFG_MAX_VALUE_def BOOTCFG_MAX_ARGS_def
      BOOTCFG_MAX_ENTRIES_def intro!: cfg_wf_append split: option.splits)

lemma cfg_wf_set_global: "cfg_wf c \<Longrightarrow> cfg_wf (fst (bootcfg_set_global c k v))"
proof (cases "k = None \<or> v = None")
  case False
  assume c: "cfg_wf c"
  obtain key val where kv: "k = Some key" "v = Some val" using False by auto
  show ?thesis
  proof (cases "find_index (\<lambda>kv. fst kv = key) (bcf_globals c)")
    case None
    then show ?thesis using c by (auto simp: kv bootcfg_set_global_def cfg_wf_def BOOTCFG_MAX_KEY_def BOOTCFG_MAX_VALUE_def)
  next
    case (Some i)
    then have i: "i < length (bcf_globals c)" by (auto dest: find_index_SomeD)
    then have "length (fst (bcf_globals c ! i)) \<le> 63"
      using c unfolding cfg_wf_def by (metis (mono_tags, lifting) case_prod_beta nth_mem)
    then show ?thesis using c Some
      by (auto simp: kv bootcfg_set_global_def cfg_wf_def BOOTCFG_MAX_VALUE_def dest!: set_update_subset_insert [THEN subsetD])
  qed
qed (auto simp: bootcfg_set_global_def split: option.splits)

lemma cfg_wf_put:
  assumes "cfg_wf c" and "i < length (bcf_entries c)" and "entry_wf (f (bcf_entries c ! i))"
    and "bme_index (f (bcf_entries c ! i)) = bme_index (bcf_entries c ! i)"
  shows "cfg_wf (put_entry i f c)"
  using assms by (auto simp: cfg_wf_def put_entry_def nth_list_update)

definition cps_wf :: "cfg_state \<Rightarrow> bool" where
  "cps_wf s \<longleftrightarrow> cfg_wf (cps_cfg s) \<and> (\<forall>i. cps_current_entry s = Some i \<longrightarrow> i < length (bcf_entries (cps_cfg s)))"

lemma length_globals_entries [simp]: "bcf_entries (fst (bootcfg_set_global c k v)) = bcf_entries c"
  by (auto simp: bootcfg_set_global_def split: option.splits)

lemma entry_line_wf:
  assumes "cps_wf s"
  shows "cps_wf (entry_line line s)"
proof (cases "cps_current_entry s")
  case (Some i)
  let ?ts = "bootcfg_tokenize (Some line) (int BOOTCFG_MAX_ARGS)"
  have i: "cfg_wf (cps_cfg s)" "i < length (bcf_entries (cps_cfg s))" using assms Some by (auto simp: cps_wf_def)
  then have e: "entry_wf (bcf_entries (cps_cfg s) ! i)" by (auto simp: cfg_wf_def)
  have "length ?ts \<le> 16" using tokens_bounds [of 16 line] by (simp add: bootcfg_tokenize_def BOOTCFG_MAX_ARGS_def)
  then have "entry_wf ((bcf_entries (cps_cfg s) ! i)\<lparr>bme_kernel := take 255 (?ts ! 1), bme_args := map (take 127) (drop 2 ?ts)\<rparr>)"
    "entry_wf ((bcf_entries (cps_cfg s) ! i)\<lparr>bme_initrd := take 255 (?ts ! 1)\<rparr>)"
    using e by (auto simp: entry_wf_def)
  then have k: "cfg_wf (put_entry i (\<lambda>e. e\<lparr>bme_kernel := take 255 (?ts ! 1), bme_args := map (take 127) (drop 2 ?ts)\<rparr>) (cps_cfg s))"
    "cfg_wf (put_entry i (\<lambda>e. e\<lparr>bme_initrd := take 255 (?ts ! 1)\<rparr>) (cps_cfg s))"
    using i by (auto intro!: cfg_wf_put)
  have l: "length (bcf_entries (put_entry i f (cps_cfg s))) = length (bcf_entries (cps_cfg s))" for f
    by (simp add: put_entry_def)
  show ?thesis using assms k l Some
    by (auto simp: entry_line_def Let_def BOOTCFG_MAX_VALUE_def BOOTCFG_MAX_ARG_LEN_def cps_wf_def)
qed (use assms in \<open>simp add: entry_line_def cps_wf_def\<close>)

lemma global_line_wf:
  assumes "cps_wf s"
  shows "global_line line s = Undefined \<or> (\<exists>s'. global_line line s = Returned s' \<and> cps_wf s')"
proof -
  have t: "atoi x = Undefined \<or> (\<exists>v. atoi x = Returned v)" for x by (simp add: atoi_def Let_def)
  have c: "cfg_wf (cps_cfg s)" using assms by (simp add: cps_wf_def)
  have n: "cps_wf (s\<lparr>cps_cfg := (cps_cfg s)\<lparr>bcf_entries := bcf_entries (cps_cfg s) @
        [zero_menu_entry\<lparr>bme_index := of_nat (length (bcf_entries (cps_cfg s))), bme_title := x\<rparr>]\<rparr>,
      cps_current_entry := Some (length (bcf_entries (cps_cfg s))), cps_in_menuentry := True\<rparr>)"
    if "length x < 256" "length (bcf_entries (cps_cfg s)) < 32" for x
    using cfg_wf_append [OF c that(2)] that(1) by (simp add: cps_wf_def zero_menu_entry_def entry_wf_def)
  have g: "cps_wf (s\<lparr>cps_cfg := fst (bootcfg_set_global (cps_cfg s) k v)\<rparr>)" for k v
    using assms cfg_wf_set_global [OF c] by (simp add: cps_wf_def)
  have u: "cps_wf (s\<lparr>cps_cfg := (cps_cfg s)\<lparr>bcf_timeout_seconds := w\<rparr>\<rparr>)" "cps_wf (s\<lparr>cps_cfg := (cps_cfg s)\<lparr>bcf_default_index := w\<rparr>\<rparr>)" for w
    using assms by (simp_all add: cps_wf_def cfg_wf_def)
  show ?thesis
    using t [of "drop 8 line"] n g u assms
    by (auto simp: global_line_def Let_def BOOTCFG_MAX_VALUE_def BOOTCFG_MAX_ENTRIES_def not_le split: option.splits)
qed

lemma config_lines_wf:
  "cps_wf s \<Longrightarrow> config_lines ls s = Undefined \<or> (\<exists>s'. config_lines ls s = Returned s' \<and> cps_wf s')"
proof (induction ls arbitrary: s)
  case (Cons l ls)
  have "config_line l s = Undefined \<or> (\<exists>s'. config_line l s = Returned s' \<and> cps_wf s')"
    using global_line_wf [OF Cons.prems] entry_line_wf [OF Cons.prems] Cons.prems
    by (auto simp: config_line_def Let_def)
  then show ?case
  proof (elim disjE exE conjE)
    fix s'
    assume "config_line l s = Returned s'" "cps_wf s'"
    then show ?thesis using Cons.IH [of s'] by simp
  qed simp
qed simp

lemma bootcfg_parse_wf:
  assumes "cfg_wf c"
  shows "bootcfg_parse mem c text = Undefined \<or> (\<exists>c' b. bootcfg_parse mem c text = Returned (c', b) \<and> cfg_wf c')"
proof -
  have "cps_wf \<lparr>cps_cfg = c, cps_in_menuentry = False, cps_current_entry = None\<rparr>" using assms by (simp add: cps_wf_def)
  note w = config_lines_wf [OF this]
  show ?thesis
  proof (cases "text = None \<or> \<not> mem")
    case True
    then show ?thesis using assms by (auto simp: bootcfg_parse_def split: option.split)
  next
    case False
    then obtain t where t: "text = Some t" "mem" by auto
    show ?thesis using w [of "strtok_lines t"]
      by (elim disjE exE conjE) (auto simp: bootcfg_parse_def t cps_wf_def intro: exI [of _ True])
  qed
qed


section \<open>Round trip\<close>

text \<open>The text of an entry, for words and titles that need no quoting.\<close>

definition clean_word :: "bytes \<Rightarrow> bool" where
  "clean_word w \<longleftrightarrow> w \<noteq> [] \<and> length w \<le> 127 \<and> (\<forall>c \<in> set w. \<not> is_space c) \<and> hd w \<noteq> 34 \<and> hd w \<noteq> 39"

definition clean_title :: "bytes \<Rightarrow> bool" where
  "clean_title t \<longleftrightarrow> t \<noteq> [] \<and> length t \<le> 255 \<and> 34 \<notin> set t \<and> 10 \<notin> set t"

definition clean_entry :: "BootMenuEntry \<Rightarrow> bool" where
  "clean_entry e \<longleftrightarrow> clean_title (bme_title e) \<and> clean_word (bme_kernel e) \<and> (bme_initrd e = [] \<or> clean_word (bme_initrd e))
     \<and> length (bme_args e) \<le> 14 \<and> (\<forall>a \<in> set (bme_args e). clean_word a) \<and> \<not> bme_is_default e"

definition words_text :: "bytes list \<Rightarrow> bytes" where
  "words_text ws = concat (map (\<lambda>w. 32 # w) ws)"

definition menu_line :: "BootMenuEntry \<Rightarrow> bytes" where
  "menu_line e = str_bytes ''menuentry '' @ [34] @ bme_title e @ [34] @ str_bytes '' {''"

definition linux_line :: "BootMenuEntry \<Rightarrow> bytes" where
  "linux_line e = str_bytes ''linux'' @ words_text (bme_kernel e # bme_args e)"

definition initrd_line :: "BootMenuEntry \<Rightarrow> bytes" where
  "initrd_line e = str_bytes ''initrd'' @ words_text [bme_initrd e]"

definition entry_lines :: "BootMenuEntry \<Rightarrow> bytes list" where
  "entry_lines e = [menu_line e, linux_line e] @ (if bme_initrd e = [] then [] else [initrd_line e]) @ [str_bytes ''}'']"

definition config_text_of :: "BootMenuEntry list \<Rightarrow> bytes" where
  "config_text_of es = concat (map (\<lambda>l. l @ [10]) (concat (map entry_lines es)))"

lemma is_space_simps [simp]:
  "is_space 32" "is_space 10" "\<not> is_space 34" "\<not> is_space 123" "\<not> is_space 125" "\<not> is_space 105" "\<not> is_space 108" "\<not> is_space 109"
  by (simp_all add: is_space_def)

lemma str_bytes_words [simp]:
  "str_bytes ''}'' = [125]" "str_bytes ''linux'' = [108, 105, 110, 117, 120]" "str_bytes ''initrd'' = [105, 110, 105, 116, 114, 100]"
  "str_bytes ''menuentry'' = [109, 101, 110, 117, 101, 110, 116, 114, 121]" "str_bytes '' {'' = [32, 123]"
  "str_bytes ''menuentry '' = [109, 101, 110, 117, 101, 110, 116, 114, 121, 32]" "str_bytes ''kernel'' = [107, 101, 114, 110, 101, 108]"
  by (simp_all add: str_bytes_def)

lemma strtok_lines_line:
  assumes "l \<noteq> []" and "10 \<notin> set l"
  shows "strtok_lines (l @ 10 # s) = l # strtok_lines s"
proof -
  have d: "dropWhile (\<lambda>c. c = 10) (l @ 10 # s) = l @ 10 # s" using assms by (cases l) auto
  have t: "takeWhile (\<lambda>c. c \<noteq> 10) (l @ 10 # s) = l" "dropWhile (\<lambda>c. c \<noteq> 10) (l @ 10 # s) = 10 # s"
    using assms(2) by (auto simp: takeWhile_append dropWhile_append takeWhile_eq_all_conv dropWhile_eq_Nil_conv)
  have "strtok_lines (10 # s) = strtok_lines s" by (subst (1 2) strtok_lines.simps) simp
  then show ?thesis by (subst strtok_lines.simps) (simp add: d t Let_def)
qed

lemma strtok_lines_concat:
  "\<forall>l \<in> set ls. l \<noteq> [] \<and> 10 \<notin> set l \<Longrightarrow> strtok_lines (concat (map (\<lambda>l. l @ [10]) ls)) = ls"
  by (induction ls) (simp_all add: strtok_lines_line strtok_lines.simps [of "[]"])

lemma read_plain_word:
  "\<forall>c \<in> set w. \<not> is_space c \<Longrightarrow> length w \<le> room \<Longrightarrow> p = [] \<or> is_space (hd p) \<Longrightarrow> read_plain room (w @ p) = (w, p)"
proof (induction w arbitrary: room)
  case Nil
  then show ?case by (cases p) auto
qed auto

lemma read_token_word:
  assumes "clean_word w" and "p = [] \<or> is_space (hd p)"
  shows "read_token (w @ p) = (w, p)"
  using assms read_plain_word [of w 127 p] by (simp add: read_token_def clean_word_def BOOTCFG_MAX_ARG_LEN_def)

lemma clean_word_hd: "clean_word w \<Longrightarrow> \<not> is_space (hd w)"
  by (simp add: clean_word_def)

lemma tokens_from_word:
  assumes "clean_word w" and "p = [] \<or> is_space (hd p)" and "n > 0"
  shows "tokens_from n (w @ p) = w # tokens_from (n - 1) p"
proof -
  have "w \<noteq> []" using assms(1) by (simp add: clean_word_def)
  then have "dropWhile is_space (w @ p) = w @ p" using clean_word_hd [OF assms(1)] by (cases w) auto
  then show ?thesis using assms \<open>w \<noteq> []\<close> read_token_word [OF assms(1,2)] by (subst tokens_from.simps) (simp add: Let_def)
qed

lemma tokens_from_words:
  "\<forall>w \<in> set ws. clean_word w \<Longrightarrow> length ws \<le> n \<Longrightarrow> tokens_from n (words_text ws) = ws"
proof (induction ws arbitrary: n)
  case Nil
  then show ?case by (simp add: words_text_def tokens_from.simps)
next
  case (Cons w ws)
  have "tokens_from n (32 # w @ words_text ws) = tokens_from n (w @ words_text ws)"
    by (subst (1 2) tokens_from.simps) simp
  moreover have "words_text ws = [] \<or> is_space (hd (words_text ws))" by (cases ws) (simp_all add: words_text_def)
  ultimately show ?case
    using tokens_from_word [of w "words_text ws" n] Cons by (simp add: words_text_def)
qed

lemma tokens_from_line:
  assumes "clean_word w" and "\<forall>v \<in> set ws. clean_word v" and "length ws < 16"
  shows "bootcfg_tokenize (Some (w @ words_text ws)) (int BOOTCFG_MAX_ARGS) = w # ws"
proof -
  have "words_text ws = [] \<or> is_space (hd (words_text ws))" by (cases ws) (simp_all add: words_text_def)
  then show ?thesis
    using tokens_from_word [OF assms(1), of "words_text ws" 16] tokens_from_words [OF assms(2), of 15] assms(3)
    by (simp add: bootcfg_tokenize_def BOOTCFG_MAX_ARGS_def)
qed

lemma trim_id: "l \<noteq> [] \<Longrightarrow> \<not> is_space (hd l) \<Longrightarrow> \<not> is_space (last l) \<Longrightarrow> trim l = l \<and> dropWhile is_space l = l"
proof -
  assume a: "l \<noteq> []" "\<not> is_space (hd l)" "\<not> is_space (last l)"
  have "dropWhile is_space l = l" using a by (cases l) auto
  moreover have "dropWhile is_space (rev l) = rev l" using a by (cases l rule: rev_cases) auto
  ultimately show ?thesis by (simp add: trim_def)
qed

lemma config_line_clean:
  assumes "l \<noteq> []" and "\<not> is_space (hd l)" and "\<not> is_space (last l)" and "hd l \<noteq> 35"
  shows "config_line l s = (if cps_in_menuentry s then Returned (entry_line l s) else global_line l s)"
  using trim_id [OF assms(1-3)] assms by (simp add: config_line_def)

lemma last_words: "clean_word w \<Longrightarrow> \<forall>v \<in> set ws. clean_word v \<Longrightarrow> \<not> is_space (last (w @ words_text ws))"
proof (induction ws arbitrary: w)
  case Nil
  then show ?case by (simp add: words_text_def clean_word_def)
next
  case (Cons v ws)
  then show ?case using Cons.IH [of v] by (auto simp: words_text_def clean_word_def)
qed

lemma clean_word_newline: "clean_word w \<Longrightarrow> 10 \<notin> set w"
  by (auto simp: clean_word_def dest: bspec [of _ _ 10])

lemma newline_words:
  assumes "clean_word w" and "\<forall>v \<in> set ws. clean_word v"
  shows "10 \<notin> set (w @ words_text ws)"
  using clean_word_newline [OF assms(1)] clean_word_newline assms(2) by (auto simp: words_text_def)

lemma clean_keywords: "clean_word (str_bytes ''linux'')" "clean_word (str_bytes ''initrd'')"
  by (simp_all add: clean_word_def is_space_def)

lemma title_of_menu:
  assumes "clean_title t"
  shows "title_of (str_bytes ''menuentry '' @ [34] @ t @ [34] @ str_bytes '' {'') = Some t"
proof -
  have "takeWhile (\<lambda>c. c \<noteq> 34) (t @ 34 # 32 # 123 # []) = t"
    using assms by (auto simp: clean_title_def takeWhile_append takeWhile_eq_all_conv)
  then show ?thesis using assms by (simp add: title_of_def Let_def clean_title_def)
qed

definition placed :: "nat \<Rightarrow> BootMenuEntry \<Rightarrow> BootMenuEntry" where
  "placed i e = e\<lparr>bme_index := of_nat i\<rparr>"

lemma config_lines_entry:
  assumes "clean_entry e" and "length (bcf_entries c) < 32"
  shows "config_lines (entry_lines e @ ls) \<lparr>cps_cfg = c, cps_in_menuentry = False, cps_current_entry = None\<rparr>
    = config_lines ls \<lparr>cps_cfg = c\<lparr>bcf_entries := bcf_entries c @ [placed (length (bcf_entries c)) e]\<rparr>,
        cps_in_menuentry = False, cps_current_entry = None\<rparr>"
proof -
  let ?n = "length (bcf_entries c)"
  let ?st = "\<lambda>e b i. \<lparr>cps_cfg = c\<lparr>bcf_entries := bcf_entries c @ [e]\<rparr>, cps_in_menuentry = b, cps_current_entry = i\<rparr>"
  let ?e1 = "zero_menu_entry\<lparr>bme_index := of_nat ?n, bme_title := bme_title e\<rparr>"
  let ?e2 = "?e1\<lparr>bme_kernel := bme_kernel e, bme_args := bme_args e\<rparr>"
  have ce: "clean_title (bme_title e)" "clean_word (bme_kernel e)" "\<forall>a \<in> set (bme_args e). clean_word a"
    "length (bme_args e) \<le> 14" "bme_initrd e \<noteq> [] \<Longrightarrow> clean_word (bme_initrd e)" "\<not> bme_is_default e"
    using assms(1) by (auto simp: clean_entry_def)
  have tk: "map (take 127) (bme_args e) = bme_args e" "take 255 (bme_kernel e) = bme_kernel e" "take 255 (bme_initrd e) = bme_initrd e"
    using ce by (cases "bme_initrd e = []"; auto simp: clean_word_def intro!: map_idI)+
  have m: "config_line (menu_line e) \<lparr>cps_cfg = c, cps_in_menuentry = False, cps_current_entry = None\<rparr> = Returned (?st ?e1 True (Some ?n))"
  proof -
    have "length (bme_title e) < 256" using ce(1) by (simp add: clean_title_def)
    then have "global_line (menu_line e) \<lparr>cps_cfg = c, cps_in_menuentry = False, cps_current_entry = None\<rparr> = Returned (?st ?e1 True (Some ?n))"
      using title_of_menu [OF ce(1)] assms(2)
      by (simp add: global_line_def menu_line_def starts_with_def BOOTCFG_MAX_ENTRIES_def BOOTCFG_MAX_VALUE_def)
    then show ?thesis by (subst config_line_clean) (simp_all add: menu_line_def)
  qed
  have l: "config_line (linux_line e) (?st ?e1 True (Some ?n)) = Returned (?st ?e2 True (Some ?n))"
  proof -
    have "bootcfg_tokenize (Some (linux_line e)) (int BOOTCFG_MAX_ARGS) = str_bytes ''linux'' # bme_kernel e # bme_args e"
      unfolding linux_line_def using ce by (intro tokens_from_line clean_keywords) auto
    then have "entry_line (linux_line e) (?st ?e1 True (Some ?n)) = ?st ?e2 True (Some ?n)"
      by (simp add: entry_line_def Let_def put_entry_def tk BOOTCFG_MAX_VALUE_def BOOTCFG_MAX_ARG_LEN_def linux_line_def)
    moreover have "\<not> is_space (last (linux_line e))"
      unfolding linux_line_def using ce by (intro last_words clean_keywords) auto
    ultimately show ?thesis by (subst config_line_clean) (simp_all add: linux_line_def)
  qed
  have b: "config_line (str_bytes ''}'') (?st x True (Some ?n)) = Returned (?st x False None)" for x
    by (subst config_line_clean) (simp_all add: entry_line_def)
  show ?thesis
  proof (cases "bme_initrd e = []")
    case True
    then have "?e2 = placed ?n e" using ce(6) by (simp add: placed_def zero_menu_entry_def)
    then show ?thesis using m l b [of ?e2] by (simp add: entry_lines_def True)
  next
    case False
    have "bootcfg_tokenize (Some (initrd_line e)) (int BOOTCFG_MAX_ARGS) = [str_bytes ''initrd'', bme_initrd e]"
      unfolding initrd_line_def using ce False by (intro tokens_from_line clean_keywords) auto
    then have "entry_line (initrd_line e) (?st ?e2 True (Some ?n)) = ?st (placed ?n e) True (Some ?n)"
      using ce(6) by (simp add: entry_line_def Let_def put_entry_def tk BOOTCFG_MAX_VALUE_def initrd_line_def placed_def zero_menu_entry_def)
    moreover have "\<not> is_space (last (initrd_line e))"
      unfolding initrd_line_def using ce False by (intro last_words clean_keywords) auto
    ultimately have "config_line (initrd_line e) (?st ?e2 True (Some ?n)) = Returned (?st (placed ?n e) True (Some ?n))"
      by (subst config_line_clean) (simp_all add: initrd_line_def)
    then show ?thesis using m l b [of "placed ?n e"] False by (simp add: entry_lines_def)
  qed
qed

fun placed_from :: "nat \<Rightarrow> BootMenuEntry list \<Rightarrow> BootMenuEntry list" where
  "placed_from i [] = []"
| "placed_from i (e # es) = placed i e # placed_from (Suc i) es"

lemma config_lines_entries:
  "\<forall>e \<in> set es. clean_entry e \<Longrightarrow> length (bcf_entries c) + length es \<le> 32 \<Longrightarrow>
    config_lines (concat (map entry_lines es)) \<lparr>cps_cfg = c, cps_in_menuentry = False, cps_current_entry = None\<rparr>
    = Returned \<lparr>cps_cfg = c\<lparr>bcf_entries := bcf_entries c @ placed_from (length (bcf_entries c)) es\<rparr>,
        cps_in_menuentry = False, cps_current_entry = None\<rparr>"
proof (induction es arbitrary: c)
  case (Cons e es)
  let ?c = "c\<lparr>bcf_entries := bcf_entries c @ [placed (length (bcf_entries c)) e]\<rparr>"
  show ?case using config_lines_entry [of e c "concat (map entry_lines es)"] Cons.IH [of ?c] Cons.prems by simp
qed simp

lemma entry_lines_lines:
  assumes "clean_entry e" and "l \<in> set (entry_lines e)"
  shows "l \<noteq> [] \<and> 10 \<notin> set l"
proof -
  have "10 \<notin> set (str_bytes ''linux'' @ words_text (bme_kernel e # bme_args e))"
    using assms(1) by (intro newline_words clean_keywords) (auto simp: clean_entry_def)
  moreover have "10 \<notin> set (str_bytes ''initrd'' @ words_text [bme_initrd e])" if "bme_initrd e \<noteq> []"
    using assms(1) that by (intro newline_words clean_keywords) (auto simp: clean_entry_def)
  ultimately show ?thesis using assms
    by (auto simp: entry_lines_def menu_line_def linux_line_def initrd_line_def clean_entry_def clean_title_def split: if_splits)
qed

lemma bootcfg_parse_text:
  assumes "\<forall>e \<in> set es. clean_entry e" and "length (bcf_entries c) + length es \<le> 32"
  shows "bootcfg_parse True c (Some (config_text_of es))
    = Returned (c\<lparr>bcf_entries := bcf_entries c @ placed_from (length (bcf_entries c)) es\<rparr>, True)"
proof -
  have "strtok_lines (config_text_of es) = concat (map entry_lines es)"
    unfolding config_text_of_def using assms(1) entry_lines_lines by (intro strtok_lines_concat) auto
  then show ?thesis using config_lines_entries [OF assms] by (simp add: bootcfg_parse_def)
qed

end
