(* ===== verification/Boot_Elf.thy ===== *)
theory Boot_Elf
  imports Prelude
begin

text \<open>
  The ELF loader of \<open>mini-bootloader/src/boot_elf.c\<close>.  The union of the two file headers is its 64
  bytes, and the headers in the image are read from its bytes, in the layout of \<open>boot_elf.h\<close>.  The
  img is one list of fewer than \<open>2 ^ 32\<close> bytes; a pointer into it is an offset.  Sums of 32-bit
  values wrap as in the code; an access outside a buffer is \<open>Undefined\<close>.
\<close>

section \<open>State and layout\<close>

definition ELFCLASS32 :: u8 where "ELFCLASS32 = 1"
definition ELFCLASS64 :: u8 where "ELFCLASS64 = 2"
definition ELFDATA2LSB :: u8 where "ELFDATA2LSB = 1"
definition ELFDATA2MSB :: u8 where "ELFDATA2MSB = 2"
definition EV_CURRENT :: u8 where "EV_CURRENT = 1"
definition PT_LOAD :: u32 where "PT_LOAD = 1"

record BootElfContext =
  elf_image :: "bytes option"
  elf_class :: u8
  elf_data :: u8
  elf_ehdr :: bytes
  elf_load_base :: u32
  elf_entry_point :: u32
  elf_shstrtab :: "nat option"

definition boot_elf_init :: BootElfContext where
  "boot_elf_init = \<lparr>elf_image = None, elf_class = 0, elf_data = 0, elf_ehdr = zeros 64, elf_load_base = 0, elf_entry_point = 0,
     elf_shstrtab = None\<rparr>"

definition u16_at :: "bytes \<Rightarrow> nat \<Rightarrow> u16" where
  "u16_at b i = le16 (b ! i) (b ! (i + 1))"

text \<open>The low 32 bits of a 64-bit field are those of its first four bytes, which is all the code keeps.\<close>

definition wide_at :: "bool \<Rightarrow> bytes \<Rightarrow> nat \<Rightarrow> nat \<Rightarrow> u32" where
  "wide_at is32 b i32 i64 = (if is32 then le32_at b i32 else le32_at b i64)"

definition sizeof_ehdr :: "bool \<Rightarrow> nat" where "sizeof_ehdr is32 = (if is32 then 52 else 64)"
definition sizeof_phdr :: "bool \<Rightarrow> nat" where "sizeof_phdr is32 = (if is32 then 32 else 56)"
definition sizeof_shdr :: "bool \<Rightarrow> nat" where "sizeof_shdr is32 = (if is32 then 40 else 64)"
definition sizeof_sym :: "bool \<Rightarrow> nat" where "sizeof_sym is32 = (if is32 then 16 else 24)"
definition sizeof_rel :: nat where "sizeof_rel = 8"

record ElfPhdr =
  ph_type :: u32
  ph_offset :: u32
  ph_vaddr :: u32
  ph_filesz :: u32
  ph_memsz :: u32
  ph_flags :: u32

definition read_phdr :: "bool \<Rightarrow> bytes \<Rightarrow> nat \<Rightarrow> ElfPhdr" where
  "read_phdr is32 img off =
     \<lparr>ph_type = le32_at img off, ph_offset = wide_at is32 img (off + 4) (off + 8), ph_vaddr = wide_at is32 img (off + 8) (off + 16),
      ph_filesz = wide_at is32 img (off + 16) (off + 32), ph_memsz = wide_at is32 img (off + 20) (off + 40),
      ph_flags = wide_at is32 img (off + 24) (off + 4)\<rparr>"

record ElfShdr =
  sh_name :: u32
  sh_type :: u32
  sh_offset :: u32
  sh_size :: u32

definition read_shdr :: "bool \<Rightarrow> bytes \<Rightarrow> nat \<Rightarrow> ElfShdr" where
  "read_shdr is32 img off =
     \<lparr>sh_name = le32_at img off, sh_type = le32_at img (off + 4), sh_offset = wide_at is32 img (off + 16) (off + 24),
      sh_size = wide_at is32 img (off + 20) (off + 32)\<rparr>"

section \<open>Headers\<close>

definition elf_magic :: bytes where "elf_magic = [0x7F, 69, 76, 70]"

definition boot_elf_parse_header :: "BootElfContext \<Rightarrow> BootElfContext \<times> bool" where
  "boot_elf_parse_header ctx =
     (case elf_image ctx of None \<Rightarrow> (ctx, False)
      | Some p \<Rightarrow>
          if length p < 52 then (ctx, False)
          else if take 4 p \<noteq> elf_magic then (ctx, False)
          else let ctx1 = ctx\<lparr>elf_class := p ! 4, elf_data := p ! 5\<rparr> in
               if elf_class ctx1 \<noteq> ELFCLASS32 \<and> elf_class ctx1 \<noteq> ELFCLASS64 then (ctx1, False)
               else if elf_data ctx1 \<noteq> ELFDATA2LSB then (ctx1, False)
               else let n = sizeof_ehdr (elf_class ctx1 = ELFCLASS32)
                    in if length p < n then (ctx1, False)
                       else (ctx1\<lparr>elf_ehdr := blit (elf_ehdr ctx1) 0 (take n p)\<rparr>, True))"

text \<open>No length is checked before the identification is read.\<close>

definition boot_elf_validate :: "BootElfContext option \<Rightarrow> bool c_result" where
  "boot_elf_validate ctx =
     (case ctx of None \<Rightarrow> Returned False
      | Some c \<Rightarrow>
          (case elf_image c of None \<Rightarrow> Returned False
           | Some p \<Rightarrow>
               if length p < 7 then Undefined
               else if take 4 p \<noteq> elf_magic then Returned False
               else if p ! 4 \<noteq> ELFCLASS32 \<and> p ! 4 \<noteq> ELFCLASS64 then Returned False
               else if p ! 5 \<noteq> ELFDATA2LSB \<and> p ! 5 \<noteq> ELFDATA2MSB then Returned False
               else if p ! 6 \<noteq> EV_CURRENT \<and> p ! 6 \<noteq> 0 then Returned False
               else Returned True))"

section \<open>Segments\<close>

text \<open>
  One \<open>PT_LOAD\<close> header: the bytes of the file, cut at the end of the image, and the zeroed rest.
  The cut and the two range checks compare sums that wrap.
\<close>

definition load_file_part :: "bytes \<Rightarrow> u32 \<Rightarrow> ElfPhdr \<Rightarrow> bytes \<Rightarrow> bytes c_result" where
  "load_file_part img load_base ph dest =
     (if ph_filesz ph > 0 \<and> unat (ph_offset ph) < length img
      then let copy_sz = (if unat (ph_offset ph + ph_filesz ph) > length img
                          then of_nat (length img - unat (ph_offset ph)) else ph_filesz ph);
               dest_off = ph_vaddr ph + load_base
           in if unat (dest_off + copy_sz) \<le> length dest
              then if unat dest_off + unat copy_sz > length dest \<or> unat (ph_offset ph) + unat copy_sz > length img then Undefined
                   else Returned (blit dest (unat dest_off) (sub_range img (unat (ph_offset ph)) (unat copy_sz)))
              else Returned dest
      else Returned dest)"

definition load_bss_part :: "u32 \<Rightarrow> ElfPhdr \<Rightarrow> bytes \<Rightarrow> bytes c_result" where
  "load_bss_part load_base ph dest =
     (if ph_memsz ph > ph_filesz ph
      then let bss_off = ph_vaddr ph + ph_filesz ph + load_base; bss_sz = ph_memsz ph - ph_filesz ph
           in if unat (bss_off + bss_sz) \<le> length dest
              then if unat bss_off + unat bss_sz > length dest then Undefined
                   else Returned (blit dest (unat bss_off) (zeros (unat bss_sz)))
              else Returned dest
      else Returned dest)"

definition load_segment :: "bytes \<Rightarrow> u32 \<Rightarrow> ElfPhdr \<Rightarrow> bytes \<Rightarrow> bytes c_result" where
  "load_segment img load_base ph dest =
     (case load_file_part img load_base ph dest of
        Returned d \<Rightarrow> load_bss_part load_base ph d | Undefined \<Rightarrow> Undefined | Diverges \<Rightarrow> Diverges)"

text \<open>The program headers in reach: the loop ends at the first that is not in the image.  The offset is 32 bits wide for ELF32 only.\<close>

fun phdrs_from :: "bool \<Rightarrow> bytes \<Rightarrow> u32 \<Rightarrow> u32 \<Rightarrow> nat list \<Rightarrow> ElfPhdr list" where
  "phdrs_from is32 img phoff phentsize [] = []"
| "phdrs_from is32 img phoff phentsize (i # is) =
     (let hdr_off = (if is32 then unat (phoff + of_nat i * phentsize) else unat phoff + i * unat phentsize)
      in if hdr_off + sizeof_phdr is32 > length img then []
         else read_phdr is32 img hdr_off # phdrs_from is32 img phoff phentsize is)"

fun load_phdrs :: "bytes \<Rightarrow> u32 \<Rightarrow> ElfPhdr list \<Rightarrow> bytes \<Rightarrow> nat \<Rightarrow> (bytes \<times> nat) c_result" where
  "load_phdrs img load_base [] dest load_count = Returned (dest, load_count)"
| "load_phdrs img load_base (ph # phs) dest load_count =
     (if ph_type ph \<noteq> PT_LOAD then load_phdrs img load_base phs dest load_count
      else (case load_segment img load_base ph dest of
              Returned d \<Rightarrow> load_phdrs img load_base phs d (load_count + 1) | Undefined \<Rightarrow> Undefined | Diverges \<Rightarrow> Diverges))"

definition elf_phnum :: "BootElfContext \<Rightarrow> u16" where
  "elf_phnum ctx = (if elf_class ctx = ELFCLASS32 then u16_at (elf_ehdr ctx) 44 else u16_at (elf_ehdr ctx) 56)"

definition elf_phdrs :: "BootElfContext \<Rightarrow> bytes \<Rightarrow> ElfPhdr list" where
  "elf_phdrs ctx img =
     (let is32 = (elf_class ctx = ELFCLASS32); phoff = wide_at is32 (elf_ehdr ctx) 28 32;
          phentsize = ucast (if is32 then u16_at (elf_ehdr ctx) 42 else u16_at (elf_ehdr ctx) 54)
      in phdrs_from is32 img phoff phentsize [0..<unat (elf_phnum ctx)])"

text \<open>A context without an image has size 0, so no header is read.\<close>

definition boot_elf_load_segments :: "BootElfContext option \<Rightarrow> bytes option \<Rightarrow> (bytes option \<times> bool) c_result" where
  "boot_elf_load_segments ctx dest =
     (case (ctx, dest) of
        (Some c, Some d) \<Rightarrow>
          if elf_phnum c = 0 then Returned (dest, True)
          else let img = (case elf_image c of None \<Rightarrow> [] | Some p \<Rightarrow> p)
               in (case load_phdrs img (elf_load_base c) (elf_phdrs c img) d 0 of
                     Returned (d1, load_count) \<Rightarrow> Returned (Some d1, load_count > 0)
                   | Undefined \<Rightarrow> Undefined | Diverges \<Rightarrow> Diverges)
      | _ \<Rightarrow> Returned (dest, False))"

section \<open>Sections\<close>

text \<open>\<open>strncpy\<close> of at most 63 characters from an offset: \<open>None\<close> when it runs off the image.\<close>

definition section_string :: "bytes \<Rightarrow> nat \<Rightarrow> bytes option" where
  "section_string img off =
     (let s = takeWhile (\<lambda>c. c \<noteq> 0) (take 63 (drop off img))
      in if length s < 63 \<and> off + length s \<ge> length img then None else Some s)"

fun section_scan ::
  "bool \<Rightarrow> bytes \<Rightarrow> nat \<Rightarrow> u32 \<Rightarrow> u32 \<Rightarrow> bytes \<Rightarrow> nat list \<Rightarrow> (nat \<times> ElfShdr) option c_result" where
  "section_scan is32 img shstrtab shoff shentsize name [] = Returned None"
| "section_scan is32 img shstrtab shoff shentsize name (i # is) =
     (let hdr_off = unat (shoff + of_nat i * shentsize) in
      if hdr_off + sizeof_shdr is32 > length img then Returned None
      else let sh = read_shdr is32 img hdr_off
           in (case section_string img (shstrtab + unat (sh_name sh)) of
                 None \<Rightarrow> Undefined
               | Some sec_name \<Rightarrow>
                   if sec_name = name then Returned (Some (hdr_off, sh))
                   else section_scan is32 img shstrtab shoff shentsize name is))"

text \<open>
  The context with its string table, and the header's bytes, offset and size of the section found.
  The end of the string table is a sum that wraps.
\<close>

definition boot_elf_find_section ::
  "BootElfContext \<Rightarrow> bytes option \<Rightarrow> (BootElfContext \<times> (bytes \<times> u32 \<times> u32) option) c_result" where
  "boot_elf_find_section ctx name =
     (case name of None \<Rightarrow> Returned (ctx, None)
      | Some nm \<Rightarrow>
          let is32 = (elf_class ctx = ELFCLASS32); eh = elf_ehdr ctx; img = (case elf_image ctx of None \<Rightarrow> [] | Some p \<Rightarrow> p);
              shnum = (if is32 then u16_at eh 48 else u16_at eh 60);
              shoff = wide_at is32 eh 32 40;
              shentsize = ucast (if is32 then u16_at eh 46 else u16_at eh 58);
              shstrndx = ucast (if is32 then u16_at eh 50 else u16_at eh 62)
          in if shnum = 0 \<or> shoff = 0 then Returned (ctx, None)
             else let str_hdr_off = unat (shoff + shstrndx * shentsize) in
                  if str_hdr_off + sizeof_shdr is32 > length img then Returned (ctx, None)
                  else let st = read_shdr is32 img str_hdr_off in
                       if unat (sh_offset st + sh_size st) > length img then Returned (ctx, None)
                       else let ctx1 = ctx\<lparr>elf_shstrtab := Some (unat (sh_offset st))\<rparr>
                            in (case section_scan is32 img (unat (sh_offset st)) shoff shentsize nm [0..<unat shnum] of
                                  Undefined \<Rightarrow> Undefined | Diverges \<Rightarrow> Diverges
                                | Returned None \<Rightarrow> Returned (ctx1, None)
                                | Returned (Some (hdr_off, sh)) \<Rightarrow>
                                    Returned (ctx1, Some (sub_range img hdr_off (sizeof_shdr is32), sh_offset sh, sh_size sh))))"

section \<open>Symbols\<close>

text \<open>\<open>strcmp\<close> against the rest of the image: \<open>None\<close> when it runs off the end.\<close>

fun strcmp_at :: "bytes \<Rightarrow> bytes \<Rightarrow> bool option" where
  "strcmp_at [] name = None"
| "strcmp_at (c # cs) [] = Some (c = 0)"
| "strcmp_at (c # cs) (n # ns) = (if c = n then strcmp_at cs ns else Some False)"

definition le64_at :: "bytes \<Rightarrow> nat \<Rightarrow> u64" where
  "le64_at b i = le64 (sub_range b i 8)"

fun symbol_scan :: "bool \<Rightarrow> bytes \<Rightarrow> nat \<Rightarrow> nat \<Rightarrow> u32 \<Rightarrow> bytes \<Rightarrow> nat list \<Rightarrow> (u64 \<times> u64) option c_result" where
  "symbol_scan is32 img symtab_off strtab_off strtab_sz name [] = Returned None"
| "symbol_scan is32 img symtab_off strtab_off strtab_sz name (i # is) =
     (let off = symtab_off + i * sizeof_sym is32 in
      if off + sizeof_sym is32 > length img then Undefined
      else let st_name = le32_at img off;
               st_value = (if is32 then ucast (le32_at img (off + 4)) else le64_at img (off + 8));
               st_size = (if is32 then ucast (le32_at img (off + 8)) else le64_at img (off + 16))
           in if st_name \<ge> strtab_sz then symbol_scan is32 img symtab_off strtab_off strtab_sz name is
              else (case strcmp_at (drop (strtab_off + unat st_name) img) name of
                      None \<Rightarrow> Undefined
                    | Some True \<Rightarrow> Returned (Some (st_value, st_size))
                    | Some False \<Rightarrow> symbol_scan is32 img symtab_off strtab_off strtab_sz name is))"

definition boot_elf_find_symbol :: "BootElfContext \<Rightarrow> bytes option \<Rightarrow> (BootElfContext \<times> (u64 \<times> u64) option) c_result" where
  "boot_elf_find_symbol ctx name =
     (case name of None \<Rightarrow> Returned (ctx, None)
      | Some nm \<Rightarrow>
          (case boot_elf_find_section ctx (Some (str_bytes ''.symtab'')) of
             Undefined \<Rightarrow> Undefined | Diverges \<Rightarrow> Diverges
           | Returned (ctx1, None) \<Rightarrow> Returned (ctx1, None)
           | Returned (ctx1, Some (_, symtab_off, symtab_sz)) \<Rightarrow>
               (case boot_elf_find_section ctx1 (Some (str_bytes ''.strtab'')) of
                  Undefined \<Rightarrow> Undefined | Diverges \<Rightarrow> Diverges
                | Returned (ctx2, None) \<Rightarrow> Returned (ctx2, None)
                | Returned (ctx2, Some (_, strtab_off, strtab_sz)) \<Rightarrow>
                    let img = (case elf_image ctx of None \<Rightarrow> [] | Some p \<Rightarrow> p); is32 = (elf_class ctx = ELFCLASS32) in
                    if unat (symtab_off + symtab_sz) > length img \<or> unat (strtab_off + strtab_sz) > length img
                    then Returned (ctx2, None)
                    else (case symbol_scan is32 img (unat symtab_off) (unat strtab_off) strtab_sz nm
                                 [0..<unat symtab_sz div sizeof_sym is32] of
                            Returned r \<Rightarrow> Returned (ctx2, r) | Undefined \<Rightarrow> Undefined | Diverges \<Rightarrow> Diverges))))"

section \<open>Relocations\<close>

definition le32_word :: "u32 \<Rightarrow> bytes" where
  "le32_word w = [ucast w, ucast (drop_bit 8 w), ucast (drop_bit 16 w), ucast (drop_bit 24 w)]"

text \<open>
  One entry.  The range check is a sum that wraps, against the size of the image and not of the
  memory that is patched.  The addend stays 0 when it fails.
\<close>

definition apply_reloc :: "nat \<Rightarrow> u32 \<Rightarrow> u32 \<Rightarrow> u8 \<Rightarrow> bytes \<Rightarrow> bytes c_result" where
  "apply_reloc image_size base_offset r_offset r_type base =
     (let in_range = unat (r_offset + 4) \<le> image_size; fits = unat r_offset + 4 \<le> length base in
      if in_range \<and> \<not> fits then Undefined
      else let a = (if in_range then le32_at base (unat r_offset) else 0);
               patch_val = (if r_type = 1 then Some (base_offset + a)
                            else if r_type = 2 \<or> r_type = 10 \<or> r_type = 11 then Some (base_offset + a - r_offset) else None)
           in (case patch_val of None \<Rightarrow> Returned base
               | Some v \<Rightarrow> if in_range then Returned (blit base (unat r_offset) (le32_word v)) else Returned base))"

fun apply_relocs :: "bytes \<Rightarrow> nat \<Rightarrow> u32 \<Rightarrow> nat list \<Rightarrow> bytes \<Rightarrow> bytes c_result" where
  "apply_relocs img rel_off base_offset [] base = Returned base"
| "apply_relocs img rel_off base_offset (i # is) base =
     (let off = rel_off + i * sizeof_rel in
      if off + sizeof_rel > length img then Undefined
      else (case apply_reloc (length img) base_offset (le32_at img off) (ucast (le32_at img (off + 4))) base of
              Returned b \<Rightarrow> apply_relocs img rel_off base_offset is b | Undefined \<Rightarrow> Undefined | Diverges \<Rightarrow> Diverges))"

definition rel_secs :: "bytes list" where
  "rel_secs = [str_bytes ''.rel.dyn'', str_bytes ''.rel.text'', str_bytes ''.rela.dyn'', str_bytes ''.rela.text'']"

fun find_first_section :: "BootElfContext \<Rightarrow> bytes list \<Rightarrow> (BootElfContext \<times> (bytes \<times> u32 \<times> u32) option) c_result" where
  "find_first_section ctx [] = Returned (ctx, None)"
| "find_first_section ctx (s # ss) =
     (case boot_elf_find_section ctx (Some s) of
        Undefined \<Rightarrow> Undefined | Diverges \<Rightarrow> Diverges
      | Returned (ctx1, None) \<Rightarrow> find_first_section ctx1 ss
      | Returned (ctx1, Some r) \<Rightarrow> Returned (ctx1, Some r))"

definition boot_elf_apply_relocations ::
  "BootElfContext \<Rightarrow> bytes option \<Rightarrow> u32 \<Rightarrow> (BootElfContext \<times> bytes option \<times> bool) c_result" where
  "boot_elf_apply_relocations ctx base base_offset =
     (case base of None \<Rightarrow> Returned (ctx, None, False)
      | Some b \<Rightarrow>
          (case find_first_section ctx rel_secs of
             Undefined \<Rightarrow> Undefined | Diverges \<Rightarrow> Diverges
           | Returned (ctx1, None) \<Rightarrow> Returned (ctx1, base, True)
           | Returned (ctx1, Some (_, rel_off, rel_sz)) \<Rightarrow>
               let img = (case elf_image ctx of None \<Rightarrow> [] | Some p \<Rightarrow> p) in
               if unat (rel_off + rel_sz) > length img then Returned (ctx1, base, False)
               else (case apply_relocs img (unat rel_off) base_offset [0..<unat rel_sz div sizeof_rel] b of
                       Returned b1 \<Rightarrow> Returned (ctx1, Some b1, True) | Undefined \<Rightarrow> Undefined | Diverges \<Rightarrow> Diverges)))"

section \<open>What loading does\<close>

text \<open>The memory of a segment: the bytes of the file and zeros.  A segment fits when no sum wraps.\<close>

definition seg_addr :: "u32 \<Rightarrow> ElfPhdr \<Rightarrow> nat" where
  "seg_addr load_base ph = unat (ph_vaddr ph) + unat load_base"

definition seg_bytes :: "bytes \<Rightarrow> ElfPhdr \<Rightarrow> bytes" where
  "seg_bytes img ph = sub_range img (unat (ph_offset ph)) (unat (ph_filesz ph)) @ zeros (unat (ph_memsz ph) - unat (ph_filesz ph))"

definition seg_fits :: "bytes \<Rightarrow> u32 \<Rightarrow> nat \<Rightarrow> ElfPhdr \<Rightarrow> bool" where
  "seg_fits img load_base n ph \<longleftrightarrow> unat (ph_offset ph) + unat (ph_filesz ph) \<le> length img \<and> ph_filesz ph \<le> ph_memsz ph
     \<and> seg_addr load_base ph + unat (ph_memsz ph) \<le> n"

lemma length_seg_bytes: "seg_fits img load_base n ph \<Longrightarrow> length (seg_bytes img ph) = unat (ph_memsz ph)"
  by (auto simp: seg_fits_def seg_bytes_def word_le_nat_alt min_def)

lemma blit_blit_adjacent:
  assumes "off + length xs + length ys \<le> length d"
  shows "blit (blit d off xs) (off + length xs) ys = blit d off (xs @ ys)"
  using assms by (simp add: blit_def ac_simps)

lemma load_segment_fits:
  assumes "seg_fits img load_base (length dest) ph" and "length dest < 2 ^ 32" and "length img < 2 ^ 32"
  shows "load_segment img load_base ph dest = Returned (blit dest (seg_addr load_base ph) (seg_bytes img ph))"
proof -
  let ?a = "seg_addr load_base ph" and ?f = "unat (ph_filesz ph)" and ?m = "unat (ph_memsz ph)"
  have h: "unat (ph_offset ph) + ?f \<le> length img" "?f \<le> ?m" "?a + ?m \<le> length dest"
    using assms(1) by (simp_all add: seg_fits_def word_le_nat_alt)
  have a: "unat (ph_vaddr ph + load_base) = ?a" "unat (ph_vaddr ph + ph_filesz ph + load_base) = ?a + ?f"
    "unat (ph_memsz ph - ph_filesz ph) = ?m - ?f" "unat (ph_offset ph + ph_filesz ph) = unat (ph_offset ph) + ?f"
    "unat (ph_vaddr ph + load_base + ph_filesz ph) = ?a + ?f"
  proof -
    have u: "unat (ph_vaddr ph) + unat load_base + ?f < 4294967296" using h assms(2) by (simp add: seg_addr_def)
    show *: "unat (ph_vaddr ph + load_base) = ?a" using u by (simp add: u32_add seg_addr_def)
    show "unat (ph_vaddr ph + ph_filesz ph + load_base) = ?a + ?f" using u by (simp add: u32_add seg_addr_def)
    show "unat (ph_memsz ph - ph_filesz ph) = ?m - ?f" using h(2) by (simp add: unat_sub word_le_nat_alt)
    show "unat (ph_offset ph + ph_filesz ph) = unat (ph_offset ph) + ?f" using h(1) assms(3) by (simp add: u32_add)
    show "unat (ph_vaddr ph + load_base + ph_filesz ph) = ?a + ?f" using u * by (simp add: u32_add seg_addr_def)
  qed
  have f: "load_file_part img load_base ph dest
      = Returned (blit dest ?a (sub_range img (unat (ph_offset ph)) ?f))"
  proof (cases "ph_filesz ph = 0")
    case True
    then show ?thesis by (simp add: load_file_part_def sub_range_def)
  next
    case False
    then have "0 < ?f" by (simp add: unat_gt_0)
    then show ?thesis using h a by (simp add: load_file_part_def Let_def word_gt_0 False)
  qed
  let ?d = "blit dest ?a (sub_range img (unat (ph_offset ph)) ?f)"
  have l: "length (sub_range img (unat (ph_offset ph)) ?f) = ?f" using h(1) by simp
  have ld: "length ?d = length dest" using h l by (intro length_blit) simp
  have "load_bss_part load_base ph ?d = Returned (blit ?d (?a + ?f) (zeros (?m - ?f)))"
  proof (cases "ph_filesz ph < ph_memsz ph")
    case True
    have "unat (ph_vaddr ph + ph_filesz ph + load_base + (ph_memsz ph - ph_filesz ph)) = ?a + ?m"
      using u32_add [of "ph_vaddr ph + ph_filesz ph + load_base" "ph_memsz ph - ph_filesz ph"] a(2,3) h assms(2) by simp
    then show ?thesis using True a h ld by (simp add: load_bss_part_def Let_def)
  next
    case False
    then have "?m = ?f" using h(2) by (simp add: word_less_nat_alt)
    then show ?thesis using False by (simp add: load_bss_part_def)
  qed
  moreover have "blit ?d (?a + ?f) (zeros (?m - ?f)) = blit dest ?a (seg_bytes img ph)"
    using blit_blit_adjacent [of ?a "sub_range img (unat (ph_offset ph)) ?f" "zeros (?m - ?f)" dest] h l by (simp add: seg_bytes_def)
  ultimately show ?thesis by (simp add: load_segment_def f)
qed

text \<open>
  Segments that fit: the load is the sequence of their copies.  Bytes in no segment keep their
  value, and when the segments do not overlap each one's memory is what it should be.
\<close>

definition seg_disjoint :: "u32 \<Rightarrow> ElfPhdr \<Rightarrow> ElfPhdr \<Rightarrow> bool" where
  "seg_disjoint load_base p q \<longleftrightarrow> seg_addr load_base p + unat (ph_memsz p) \<le> seg_addr load_base q
     \<or> seg_addr load_base q + unat (ph_memsz q) \<le> seg_addr load_base p"

definition segs_loaded :: "bytes \<Rightarrow> u32 \<Rightarrow> ElfPhdr list \<Rightarrow> bytes \<Rightarrow> bytes \<Rightarrow> bool" where
  "segs_loaded img load_base segs dest d \<longleftrightarrow> length d = length dest
     \<and> (\<forall>j < length dest. (\<forall>p \<in> set segs. j < seg_addr load_base p \<or> seg_addr load_base p + unat (ph_memsz p) \<le> j) \<longrightarrow> d ! j = dest ! j)
     \<and> (sorted_wrt (seg_disjoint load_base) segs \<longrightarrow>
          (\<forall>p \<in> set segs. sub_range d (seg_addr load_base p) (unat (ph_memsz p)) = seg_bytes img p))"

lemma load_phdrs_fits:
  assumes "\<forall>p \<in> set phs. ph_type p = PT_LOAD \<longrightarrow> seg_fits img load_base (length dest) p"
    and "length dest < 2 ^ 32" and "length img < 2 ^ 32"
  defines "segs \<equiv> filter (\<lambda>p. ph_type p = PT_LOAD) phs"
  shows "\<exists>d. load_phdrs img load_base phs dest n = Returned (d, n + length segs) \<and> segs_loaded img load_base segs dest d"
  using assms(1,2) unfolding segs_def
proof (induction phs arbitrary: dest n)
  case Nil
  then show ?case by (simp add: segs_loaded_def)
next
  case (Cons p phs)
  show ?case
  proof (cases "ph_type p = PT_LOAD")
    case True
    let ?a = "seg_addr load_base p" and ?m = "unat (ph_memsz p)" and ?d1 = "blit dest (seg_addr load_base p) (seg_bytes img p)"
    let ?segs = "filter (\<lambda>p. ph_type p = PT_LOAD) phs"
    have fit: "seg_fits img load_base (length dest) p" using Cons.prems(1) True by simp
    then have b: "?a + ?m \<le> length dest" "length (seg_bytes img p) = ?m" using length_seg_bytes by (auto simp: seg_fits_def)
    have l1: "length ?d1 = length dest" using b by simp
    obtain d where d: "load_phdrs img load_base phs ?d1 (n + 1) = Returned (d, n + 1 + length ?segs)"
        "segs_loaded img load_base ?segs ?d1 d"
      using Cons.IH [of ?d1 "n + 1"] Cons.prems l1 by auto
    have s: "load_segment img load_base p dest = Returned ?d1" by (rule load_segment_fits [OF fit Cons.prems(2) assms(3)])
    have "segs_loaded img load_base (p # ?segs) dest d"
      unfolding segs_loaded_def
    proof (intro conjI allI impI ballI)
      show "length d = length dest" using d(2) l1 by (simp add: segs_loaded_def)
    next
      fix j
      assume j: "j < length dest" "\<forall>q \<in> set (p # ?segs). j < seg_addr load_base q \<or> seg_addr load_base q + unat (ph_memsz q) \<le> j"
      then have "d ! j = ?d1 ! j" using d(2) l1 by (simp add: segs_loaded_def)
      also have "\<dots> = dest ! j" using j b by (auto simp: nth_blit)
      finally show "d ! j = dest ! j" .
    next
      fix q
      assume o: "sorted_wrt (seg_disjoint load_base) (p # ?segs)" and q: "q \<in> set (p # ?segs)"
      show "sub_range d (seg_addr load_base q) (unat (ph_memsz q)) = seg_bytes img q"
      proof (cases "q \<in> set ?segs")
        case True
        then show ?thesis using d(2) o by (simp add: segs_loaded_def)
      next
        case False
        then have q: "q = p" using q by (metis set_ConsD)
        have "sub_range d ?a ?m = sub_range ?d1 ?a ?m"
        proof (intro nth_equalityI)
          show "length (sub_range d ?a ?m) = length (sub_range ?d1 ?a ?m)" using d(2) by (simp add: segs_loaded_def)
        next
          fix i
          assume "i < length (sub_range d ?a ?m)"
          then have i: "i < ?m" "?a + i < length d" by auto
          have "\<forall>r \<in> set ?segs. ?a + i < seg_addr load_base r \<or> seg_addr load_base r + unat (ph_memsz r) \<le> ?a + i"
            using o i by (auto simp: seg_disjoint_def)
          then have "d ! (?a + i) = ?d1 ! (?a + i)" using d(2) i by (simp add: segs_loaded_def)
          then show "sub_range d ?a ?m ! i = sub_range ?d1 ?a ?m ! i" using i d(2) by (simp add: sub_range_def segs_loaded_def)
        qed
        also have "\<dots> = seg_bytes img p" using sub_range_blit_same [of ?a "seg_bytes img p" dest] b by simp
        finally show ?thesis unfolding q .
      qed
    qed
    then show ?thesis using d(1) s True by (intro exI [of _ d]) simp
  next
    case False
    then show ?thesis using Cons by simp
  qed
qed

text \<open>The check that wraps: a segment near the top of the address space passes it and is written outside.\<close>

lemma load_segment_wraps:
  assumes "ph_filesz ph > 0" and "unat (ph_offset ph) + unat (ph_filesz ph) \<le> length img" and "length img < 2 ^ 32"
    and "2 ^ 32 \<le> unat (ph_vaddr ph + load_base) + unat (ph_filesz ph)"
    and "unat (ph_vaddr ph + load_base + ph_filesz ph) \<le> length dest" and "length dest < 2 ^ 32"
  shows "load_segment img load_base ph dest = Undefined"
proof -
  have f: "0 < unat (ph_filesz ph)" using assms(1) by (simp add: word_less_nat_alt)
  have "unat (ph_offset ph + ph_filesz ph) = unat (ph_offset ph) + unat (ph_filesz ph)" using assms(2,3) by (simp add: u32_add)
  then have "load_file_part img load_base ph dest = Undefined"
    using assms f by (simp add: load_file_part_def Let_def)
  then show ?thesis by (simp add: load_segment_def)
qed

text \<open>Parsing checks the identification and takes the file header; validation agrees with it on little-endian files.\<close>

lemma parse_header_validates:
  assumes "boot_elf_parse_header ctx = (ctx', True)"
  shows "\<exists>p. elf_image ctx = Some p \<and> elf_image ctx' = Some p \<and> elf_class ctx' = p ! 4 \<and> elf_data ctx' = ELFDATA2LSB
    \<and> take (sizeof_ehdr (p ! 4 = ELFCLASS32)) (elf_ehdr ctx') = take (sizeof_ehdr (p ! 4 = ELFCLASS32)) p
    \<and> boot_elf_validate (Some ctx') = Returned (p ! 6 = EV_CURRENT \<or> p ! 6 = 0)"
proof -
  obtain p where p: "elf_image ctx = Some p" using assms by (cases "elf_image ctx") (auto simp: boot_elf_parse_header_def)
  let ?n = "sizeof_ehdr (p ! 4 = ELFCLASS32)"
  have c: "52 \<le> length p" "take 4 p = elf_magic" "p ! 4 = ELFCLASS32 \<or> p ! 4 = ELFCLASS64" "p ! 5 = ELFDATA2LSB" "?n \<le> length p"
    and e: "ctx' = ctx\<lparr>elf_class := p ! 4, elf_data := p ! 5, elf_ehdr := blit (elf_ehdr ctx) 0 (take ?n p)\<rparr>"
  proof -
    let ?c = "ctx\<lparr>elf_class := p ! 4, elf_data := p ! 5\<rparr>"
    have h: "boot_elf_parse_header ctx = (if length p < 52 then (ctx, False) else if take 4 p \<noteq> elf_magic then (ctx, False)
        else if p ! 4 \<noteq> ELFCLASS32 \<and> p ! 4 \<noteq> ELFCLASS64 then (?c, False) else if p ! 5 \<noteq> ELFDATA2LSB then (?c, False)
        else if length p < ?n then (?c, False) else (?c\<lparr>elf_ehdr := blit (elf_ehdr ctx) 0 (take ?n p)\<rparr>, True))"
      by (simp add: boot_elf_parse_header_def p Let_def)
    note q = assms [unfolded h]
    show l: "52 \<le> length p" by (rule ccontr) (use q in simp)
    show m: "take 4 p = elf_magic" by (rule ccontr) (use q l in simp)
    show k: "p ! 4 = ELFCLASS32 \<or> p ! 4 = ELFCLASS64" by (rule ccontr) (use q l m in simp)
    show d: "p ! 5 = ELFDATA2LSB" by (rule ccontr) (use q l m k in auto)
    show n: "?n \<le> length p" by (rule ccontr) (use q l m k d in auto)
    have "(?c\<lparr>elf_ehdr := blit (elf_ehdr ctx) 0 (take ?n p)\<rparr>, True) = (ctx', True)"
      using q l m k d n by (simp only: if_False if_True not_less [symmetric] de_Morgan_disj [symmetric] not_not simp_thms)
    then show "ctx' = ctx\<lparr>elf_class := p ! 4, elf_data := p ! 5, elf_ehdr := blit (elf_ehdr ctx) 0 (take ?n p)\<rparr>" by simp
  qed
  have "take ?n (blit (elf_ehdr ctx) 0 (take ?n p)) = take ?n p" using c(5) by (simp add: blit_def min_def)
  moreover have "boot_elf_validate (Some ctx') = Returned (p ! 6 = EV_CURRENT \<or> p ! 6 = 0)"
    using c by (auto simp: boot_elf_validate_def e p)
  ultimately show ?thesis using c(4) by (simp add: e p)
qed

end
