(* ===== verification/Grub_Modules.thy ===== *)
theory Grub_Modules
  imports Prelude
begin

text \<open>
  The module list of \<open>mini-bootloader/src/grub_modules.c\<close> and its dependency order.  The used
  slots are one list; names are byte strings; the two function pointers, which nothing calls, are
  addresses.  Whether \<open>malloc\<close> and \<open>calloc\<close> succeed is a parameter.
\<close>

section \<open>State\<close>

definition GRUB_MODULE_MAX :: nat where "GRUB_MODULE_MAX = 32"
definition GRUB_MODULE_NAME_LEN :: nat where "GRUB_MODULE_NAME_LEN = 64"
definition GRUB_MODULE_DEP_MAX :: nat where "GRUB_MODULE_DEP_MAX = 8"
definition MODULE_TYPE_FILESYSTEM :: u32 where "MODULE_TYPE_FILESYSTEM = 1"
definition MODULE_FLAGS_NONE :: u32 where "MODULE_FLAGS_NONE = 0"
definition MODULE_FLAGS_LOADED :: u32 where "MODULE_FLAGS_LOADED = 2"

record GRUBModuleHeader =
  gmh_type :: u32
  gmh_size :: u32
  gmh_dependencies :: bytes
  gmh_dep_count :: u8
  gmh_seg_start :: u32
  gmh_seg_size :: u32
  gmh_seg_align :: u32

record GRUBModule =
  gm_name :: bytes
  gm_header :: GRUBModuleHeader
  gm_load_addr :: u32
  gm_entry_point :: u32
  gm_flags :: u32
  gm_init :: u64
  gm_fini :: u64

type_synonym GRUBModuleList = "GRUBModule list"

definition grub_module_list_init :: GRUBModuleList where
  "grub_module_list_init = []"

definition zero_module_header :: GRUBModuleHeader where
  "zero_module_header = \<lparr>gmh_type = 0, gmh_size = 0, gmh_dependencies = zeros GRUB_MODULE_DEP_MAX, gmh_dep_count = 0,
     gmh_seg_start = 0, gmh_seg_size = 0, gmh_seg_align = 0\<rparr>"

definition zero_module :: GRUBModule where
  "zero_module = \<lparr>gm_name = [], gm_header = zero_module_header, gm_load_addr = 0, gm_entry_point = 0, gm_flags = 0,
     gm_init = 0, gm_fini = 0\<rparr>"

text \<open>A slot of the array; the unused ones are zero since the initialisation.\<close>

definition module_at :: "GRUBModuleList \<Rightarrow> nat \<Rightarrow> GRUBModule" where
  "module_at list j = (if j < length list then list ! j else zero_module)"

definition grub_load_module ::
  "GRUBModuleList \<Rightarrow> bytes option \<Rightarrow> GRUBModuleHeader option \<Rightarrow> u64 \<Rightarrow> u64 \<Rightarrow> GRUBModuleList \<times> bool" where
  "grub_load_module list name header ini fini =
     (if length list \<ge> GRUB_MODULE_MAX then (list, False)
      else (case (name, header) of
              (Some nm, Some h) \<Rightarrow>
                (list @ [\<lparr>gm_name = take (GRUB_MODULE_NAME_LEN - 1) nm, gm_header = h, gm_load_addr = 0, gm_entry_point = 0,
                          gm_flags = MODULE_FLAGS_NONE, gm_init = ini, gm_fini = fini\<rparr>], True)
            | _ \<Rightarrow> (list, False)))"

definition sizeof_GRUBModuleHeader :: u32 where "sizeof_GRUBModuleHeader = 32"

definition grub_register_fs_driver :: "GRUBModuleList \<Rightarrow> bytes option \<Rightarrow> bytes \<Rightarrow> GRUBModuleList \<times> bool" where
  "grub_register_fs_driver list name fs_type =
     (let hdr = zero_module_header\<lparr>gmh_type := MODULE_TYPE_FILESYSTEM, gmh_size := sizeof_GRUBModuleHeader, gmh_dep_count := 0,
                  gmh_seg_start := 0, gmh_seg_size := 0, gmh_seg_align := 1\<rparr>;
          mod_name = take (GRUB_MODULE_NAME_LEN - 1) (fs_type @ str_bytes ''_fs'')
      in grub_load_module list (Some mod_name) (Some hdr) 0 0)"

definition grub_find_module :: "GRUBModuleList \<Rightarrow> bytes \<Rightarrow> GRUBModule option" where
  "grub_find_module list name = find (\<lambda>m. gm_name m = name) list"

definition grub_module_is_loaded :: "GRUBModule option \<Rightarrow> bool" where
  "grub_module_is_loaded m = (case m of None \<Rightarrow> False | Some md \<Rightarrow> gm_flags md AND MODULE_FLAGS_LOADED \<noteq> 0)"

section \<open>Dependency order\<close>

text \<open>
  The dependencies of one module: a number from \<open>node_count\<close> on is ignored, and a count above 8
  reads beyond the array.
\<close>

fun deps_met :: "nat \<Rightarrow> bool list \<Rightarrow> bytes \<Rightarrow> nat list \<Rightarrow> bool c_result" where
  "deps_met node_count built deps [] = Returned True"
| "deps_met node_count built deps (k # ks) =
     (if k \<ge> length deps then Undefined
      else let dep = deps ! k
           in if dep < of_nat node_count \<and> \<not> built ! unat dep then Returned False
              else deps_met node_count built deps ks)"

record topo_state =
  ts_built :: "bool list"
  ts_result :: "nat list"
  ts_count :: nat

definition topo_visit :: "GRUBModuleList \<Rightarrow> nat \<Rightarrow> nat \<Rightarrow> topo_state \<Rightarrow> topo_state c_result" where
  "topo_visit list node_count j s =
     (if ts_built s ! j then Returned s
      else let h = gm_header (module_at list j)
           in (case deps_met node_count (ts_built s) (gmh_dependencies h) [0..<unat (gmh_dep_count h)] of
                 Returned True \<Rightarrow> Returned (s\<lparr>ts_result := ts_result s @ [j], ts_built := (ts_built s)[j := True], ts_count := ts_count s + 1\<rparr>)
               | Returned False \<Rightarrow> Returned s
               | Undefined \<Rightarrow> Undefined | Diverges \<Rightarrow> Diverges))"

fun topo_pass :: "GRUBModuleList \<Rightarrow> nat \<Rightarrow> nat list \<Rightarrow> topo_state \<Rightarrow> topo_state c_result" where
  "topo_pass list node_count [] s = Returned s"
| "topo_pass list node_count (j # js) s =
     (case topo_visit list node_count j s of Returned s1 \<Rightarrow> topo_pass list node_count js s1 | Undefined \<Rightarrow> Undefined | Diverges \<Rightarrow> Diverges)"

text \<open>The passes end when the count, which they share, is still zero.\<close>

fun topo_passes :: "GRUBModuleList \<Rightarrow> nat \<Rightarrow> nat \<Rightarrow> topo_state \<Rightarrow> topo_state c_result" where
  "topo_passes list node_count 0 s = Returned s"
| "topo_passes list node_count (Suc p) s =
     (case topo_pass list node_count [0..<node_count] s of
        Returned s1 \<Rightarrow> if ts_count s1 = 0 then Returned s1 else topo_passes list node_count p s1
      | Undefined \<Rightarrow> Undefined | Diverges \<Rightarrow> Diverges)"

fun topo_rounds :: "GRUBModuleList \<Rightarrow> nat \<Rightarrow> nat \<Rightarrow> topo_state \<Rightarrow> topo_state c_result" where
  "topo_rounds list node_count 0 s = Returned s"
| "topo_rounds list node_count (Suc i) s =
     (case topo_passes list node_count node_count (s\<lparr>ts_count := 0\<rparr>) of
        Returned s1 \<Rightarrow> topo_rounds list node_count i s1 | Undefined \<Rightarrow> Undefined | Diverges \<Rightarrow> Diverges)"

text \<open>The order and the count that are written, and the verdict.\<close>

definition grub_topological_sort ::
  "bool \<Rightarrow> GRUBModuleList \<Rightarrow> nat \<Rightarrow> (nat list option \<times> nat option \<times> bool) c_result" where
  "grub_topological_sort mem list node_count =
     (if \<not> mem then Returned (None, None, False)
      else if node_count > GRUB_MODULE_MAX then Undefined
      else (case topo_rounds list node_count node_count
                   \<lparr>ts_built = replicate GRUB_MODULE_MAX False, ts_result = [], ts_count = 0\<rparr> of
              Returned s \<Rightarrow> if length (ts_result s) < node_count then Returned (None, Some 0, False)
                            else Returned (Some (ts_result s), Some node_count, True)
            | Undefined \<Rightarrow> Undefined | Diverges \<Rightarrow> Diverges))"

definition grub_dependency_resolve ::
  "bool \<Rightarrow> GRUBModuleList \<Rightarrow> (nat list option \<times> nat option \<times> bool) c_result" where
  "grub_dependency_resolve mem list =
     (if length list = 0 then Returned (None, Some 0, True)
      else if \<not> mem then Returned (None, None, False)
      else grub_topological_sort mem list (length list))"

section \<open>The order\<close>

text \<open>
  What an order of the modules is: every module once, each after the modules it depends on, as far
  as these are in the list.
\<close>

definition module_deps :: "GRUBModuleList \<Rightarrow> nat \<Rightarrow> nat \<Rightarrow> nat set" where
  "module_deps list n j =
     {unat d |d. d \<in> set (take (unat (gmh_dep_count (gm_header (module_at list j)))) (gmh_dependencies (gm_header (module_at list j))))
        \<and> unat d < n}"

definition deps_precede :: "GRUBModuleList \<Rightarrow> nat \<Rightarrow> nat list \<Rightarrow> bool" where
  "deps_precede list n xs \<longleftrightarrow> (\<forall>i < length xs. module_deps list n (xs ! i) \<subseteq> set (take i xs))"

definition load_order :: "GRUBModuleList \<Rightarrow> nat \<Rightarrow> nat list \<Rightarrow> bool" where
  "load_order list n xs \<longleftrightarrow> distinct xs \<and> set xs = {..<n} \<and> deps_precede list n xs"

definition module_ok :: "GRUBModule \<Rightarrow> bool" where
  "module_ok m \<longleftrightarrow> length (gmh_dependencies (gm_header m)) = GRUB_MODULE_DEP_MAX \<and> unat (gmh_dep_count (gm_header m)) \<le> GRUB_MODULE_DEP_MAX"

definition topo_inv :: "GRUBModuleList \<Rightarrow> nat \<Rightarrow> topo_state \<Rightarrow> bool" where
  "topo_inv list n s \<longleftrightarrow> length (ts_built s) = 32 \<and> (\<forall>j < n. ts_built s ! j \<longleftrightarrow> j \<in> set (ts_result s))
     \<and> distinct (ts_result s) \<and> set (ts_result s) \<subseteq> {..<n} \<and> deps_precede list n (ts_result s)"

lemma module_ok_at: "\<forall>m \<in> set list. module_ok m \<Longrightarrow> module_ok (module_at list j)"
  by (simp add: module_at_def module_ok_def zero_module_def zero_module_header_def)

lemma deps_precede_snoc: "deps_precede list n (xs @ [x]) \<longleftrightarrow> deps_precede list n xs \<and> module_deps list n x \<subseteq> set xs"
  by (auto simp: deps_precede_def less_Suc_eq nth_append)

lemma deps_met_iff:
  assumes "n \<le> 32" and "\<forall>k \<in> set ks. k < length deps"
  shows "deps_met n built deps ks = Returned (\<forall>k \<in> set ks. unat (deps ! k) < n \<longrightarrow> built ! unat (deps ! k))"
  using assms(2)
proof (induction ks)
  case (Cons k ks)
  have "deps ! k < of_nat n \<longleftrightarrow> unat (deps ! k) < n"
    using assms(1) by (simp add: word_less_nat_alt unat_of_nat)
  then show ?case using Cons by (auto simp: Let_def)
qed simp

lemma topo_visit_cases:
  assumes inv: "topo_inv list n s" and n: "n \<le> 32" and ok: "module_ok (module_at list j)" and j: "j < n"
  shows "topo_visit list n j s = Returned
    (if j \<notin> set (ts_result s) \<and> module_deps list n j \<subseteq> set (ts_result s)
     then s\<lparr>ts_result := ts_result s @ [j], ts_built := (ts_built s)[j := True], ts_count := ts_count s + 1\<rparr> else s)"
proof -
  let ?h = "gm_header (module_at list j)"
  let ?c = "unat (gmh_dep_count ?h)" and ?d = "gmh_dependencies ?h"
  have l: "length ?d = 8" "?c \<le> 8" using ok by (simp_all add: module_ok_def GRUB_MODULE_DEP_MAX_def)
  have "(\<forall>k \<in> set [0..<?c]. unat (?d ! k) < n \<longrightarrow> ts_built s ! unat (?d ! k)) \<longleftrightarrow> module_deps list n j \<subseteq> set (ts_result s)"
  proof -
    have "set (take ?c ?d) = (!) ?d ` set [0..<?c]" using nth_image [of ?c ?d] l by simp
    then have "(\<forall>k \<in> set [0..<?c]. unat (?d ! k) < n \<longrightarrow> ts_built s ! unat (?d ! k))
        \<longleftrightarrow> (\<forall>x \<in> set (take ?c ?d). unat x < n \<longrightarrow> ts_built s ! unat x)" by simp
    also have "\<dots> \<longleftrightarrow> module_deps list n j \<subseteq> set (ts_result s)" using inv by (auto simp: module_deps_def topo_inv_def)
    finally show ?thesis .
  qed
  then have "deps_met n (ts_built s) ?d [0..<?c] = Returned (module_deps list n j \<subseteq> set (ts_result s))"
    using deps_met_iff [OF n, of "[0..<?c]" ?d "ts_built s"] l by simp
  then show ?thesis using inv j by (auto simp: topo_visit_def Let_def topo_inv_def split: bool.split)
qed

lemma topo_inv_add:
  assumes "topo_inv list n s" and "j \<notin> set (ts_result s)" and "module_deps list n j \<subseteq> set (ts_result s)" and "j < n" and "n \<le> 32"
  shows "topo_inv list n (s\<lparr>ts_result := ts_result s @ [j], ts_built := (ts_built s)[j := True], ts_count := c\<rparr>)"
  using assms by (auto simp: topo_inv_def deps_precede_snoc nth_list_update)

definition topo_ext :: "topo_state \<Rightarrow> topo_state \<Rightarrow> bool" where
  "topo_ext s s' \<longleftrightarrow> set (ts_result s) \<subseteq> set (ts_result s') \<and> length (ts_result s) \<le> length (ts_result s')
     \<and> ts_count s' = ts_count s + (length (ts_result s') - length (ts_result s))"

lemma topo_ext_refl: "topo_ext s s"
  by (simp add: topo_ext_def)

lemma topo_ext_trans: "topo_ext s t \<Longrightarrow> topo_ext t u \<Longrightarrow> topo_ext s u"
  by (auto simp: topo_ext_def)

lemma topo_pass_progress:
  assumes n: "n \<le> 32" and ok: "\<forall>m \<in> set list. module_ok m" and "set js \<subseteq> {..<n}" and "topo_inv list n s"
  shows "\<exists>s'. topo_pass list n js s = Returned s' \<and> topo_inv list n s' \<and> topo_ext s s'
    \<and> (\<forall>j \<in> set js. j \<notin> set (ts_result s') \<longrightarrow> \<not> module_deps list n j \<subseteq> set (ts_result s))"
  using assms(3,4)
proof (induction js arbitrary: s)
  case Nil
  then show ?case by (simp add: topo_ext_refl)
next
  case (Cons j js)
  have j: "j < n" "set js \<subseteq> {..<n}" using Cons.prems by auto
  note v = topo_visit_cases [OF Cons.prems(2) n module_ok_at [OF ok, of j] j(1)]
  show ?case
  proof (cases "j \<notin> set (ts_result s) \<and> module_deps list n j \<subseteq> set (ts_result s)")
    case True
    let ?s = "s\<lparr>ts_result := ts_result s @ [j], ts_built := (ts_built s)[j := True], ts_count := ts_count s + 1\<rparr>"
    obtain s' where s': "topo_pass list n js ?s = Returned s'" "topo_inv list n s'" "topo_ext ?s s'"
        "\<forall>j \<in> set js. j \<notin> set (ts_result s') \<longrightarrow> \<not> module_deps list n j \<subseteq> set (ts_result ?s)"
      using Cons.IH [OF j(2) topo_inv_add [OF Cons.prems(2) _ _ j(1) n]] True by blast
    have "topo_ext s ?s" by (auto simp: topo_ext_def)
    then have "topo_ext s s'" using s'(3) by (rule topo_ext_trans)
    moreover have "j \<in> set (ts_result s')" using s'(3) by (auto simp: topo_ext_def)
    moreover have "topo_visit list n j s = Returned ?s" using v True by simp
    ultimately show ?thesis using s' by auto
  next
    case False
    have "topo_visit list n j s = Returned s" using v False by auto
    moreover obtain s' where "topo_pass list n js s = Returned s'" "topo_inv list n s'" "topo_ext s s'"
        "\<forall>j \<in> set js. j \<notin> set (ts_result s') \<longrightarrow> \<not> module_deps list n j \<subseteq> set (ts_result s)"
      using Cons.IH [OF j(2) Cons.prems(2)] by blast
    moreover have "\<not> module_deps list n j \<subseteq> set (ts_result s)" if "j \<notin> set (ts_result s')" "topo_ext s s'" for s'
      using that False by (auto simp: topo_ext_def)
    ultimately show ?thesis by fastforce
  qed
qed

text \<open>While there is an order at all and modules are left, one of them is ready.\<close>

lemma some_module_ready:
  assumes "load_order list n ys" and "set xs \<subset> {..<n}"
  shows "\<exists>j < n. j \<notin> set xs \<and> module_deps list n j \<subseteq> set xs"
proof -
  have "\<exists>y \<in> set ys. y \<notin> set xs" using assms by (auto simp: load_order_def)
  then obtain us y vs where y: "ys = us @ y # vs" "y \<notin> set xs" "\<forall>u \<in> set us. \<not> u \<notin> set xs"
    using split_list_first_prop [of ys "\<lambda>y. y \<notin> set xs"] by blast
  have "deps_precede list n ys" "length us < length ys" using assms(1) y(1) by (simp_all add: load_order_def)
  then have "module_deps list n (ys ! length us) \<subseteq> set (take (length us) ys)" unfolding deps_precede_def by blast
  then show ?thesis using y assms(1) by (intro exI [of _ y]) (auto simp: load_order_def)
qed

lemma topo_inv_length:
  assumes "topo_inv list n s"
  shows "length (ts_result s) \<le> n" and "length (ts_result s) = n \<longleftrightarrow> set (ts_result s) = {..<n}"
proof -
  have d: "length (ts_result s) = card (set (ts_result s))" "set (ts_result s) \<subseteq> {..<n}"
    using assms by (simp_all add: topo_inv_def distinct_card)
  show "length (ts_result s) \<le> n" using card_mono [OF _ d(2)] d(1) by simp
  show "length (ts_result s) = n \<longleftrightarrow> set (ts_result s) = {..<n}"
    using card_subset_eq [OF _ d(2)] d by auto
qed

lemma topo_passes_progress:
  assumes n: "n \<le> 32" and ok: "\<forall>m \<in> set list. module_ok m" and "topo_inv list n s"
  shows "\<exists>s'. topo_passes list n p s = Returned s' \<and> topo_inv list n s' \<and> topo_ext s s'
    \<and> ((\<exists>ys. load_order list n ys) \<longrightarrow> min n (length (ts_result s) + p) \<le> length (ts_result s'))"
  using assms(3)
proof (induction p arbitrary: s)
  case 0
  then show ?case by (simp add: topo_ext_refl)
next
  case (Suc p)
  obtain s1 where s1: "topo_pass list n [0..<n] s = Returned s1" "topo_inv list n s1" "topo_ext s s1"
      "\<forall>j \<in> set [0..<n]. j \<notin> set (ts_result s1) \<longrightarrow> \<not> module_deps list n j \<subseteq> set (ts_result s)"
    using topo_pass_progress [OF n ok _ Suc.prems, of "[0..<n]"] by (metis atLeast_upt order_refl)
  have prog: "length (ts_result s) < length (ts_result s1)"
    if ex: "\<exists>ys. load_order list n ys" and "length (ts_result s) < n"
  proof -
    have "set (ts_result s) \<noteq> {..<n}" using topo_inv_length(2) [OF Suc.prems] that(2) by simp
    then have sub: "set (ts_result s) \<subset> {..<n}" using Suc.prems unfolding topo_inv_def by blast
    obtain ys where ys: "load_order list n ys" using ex by blast
    obtain j where j: "j < n" "j \<notin> set (ts_result s)" "module_deps list n j \<subseteq> set (ts_result s)"
      using some_module_ready [OF ys sub] by blast
    have "j \<in> set [0..<n]" using j(1) by simp
    then have "j \<in> set (ts_result s1)" "j \<notin> set (ts_result s)" using s1(4) j by blast+
    then have "set (ts_result s) \<subset> set (ts_result s1)" using s1(3) unfolding topo_ext_def by blast
    then have "card (set (ts_result s)) < card (set (ts_result s1))" by (simp add: psubset_card_mono)
    then show ?thesis using Suc.prems s1(2) by (simp add: topo_inv_def distinct_card)
  qed
  show ?case
  proof (cases "ts_count s1 = 0")
    case True
    then have "length (ts_result s1) = length (ts_result s)" using s1(3) by (auto simp: topo_ext_def)
    then show ?thesis using s1 True prog by fastforce
  next
    case False
    obtain s2 where s2: "topo_passes list n p s1 = Returned s2" "topo_inv list n s2" "topo_ext s1 s2"
        "(\<exists>ys. load_order list n ys) \<longrightarrow> min n (length (ts_result s1) + p) \<le> length (ts_result s2)"
      using Suc.IH [OF s1(2)] by blast
    have "min n (length (ts_result s) + Suc p) \<le> length (ts_result s2)" if "\<exists>ys. load_order list n ys"
      using prog [OF that] s2(4) that s2(3) s1(3) topo_inv_length(1) [OF s1(2)] by (cases "length (ts_result s) < n") (auto simp: topo_ext_def)
    then show ?thesis using s1(1) s2 False topo_ext_trans [OF s1(3) s2(3)] by auto
  qed
qed

lemma topo_rounds_progress:
  assumes n: "n \<le> 32" and ok: "\<forall>m \<in> set list. module_ok m" and "topo_inv list n s"
  shows "\<exists>s'. topo_rounds list n r s = Returned s' \<and> topo_inv list n s' \<and> length (ts_result s) \<le> length (ts_result s')
    \<and> ((\<exists>ys. load_order list n ys) \<and> r > 0 \<longrightarrow> length (ts_result s') = n)"
  using assms(3)
proof (induction r arbitrary: s)
  case (Suc r)
  have "topo_inv list n (s\<lparr>ts_count := 0\<rparr>)" using Suc.prems by (simp add: topo_inv_def)
  then obtain s1 where s1: "topo_passes list n n (s\<lparr>ts_count := 0\<rparr>) = Returned s1" "topo_inv list n s1" "topo_ext (s\<lparr>ts_count := 0\<rparr>) s1"
      "(\<exists>ys. load_order list n ys) \<longrightarrow> min n (length (ts_result s) + n) \<le> length (ts_result s1)"
    using topo_passes_progress [OF n ok, of "s\<lparr>ts_count := 0\<rparr>" n] by auto
  obtain s2 where s2: "topo_rounds list n r s1 = Returned s2" "topo_inv list n s2" "length (ts_result s1) \<le> length (ts_result s2)"
    using Suc.IH [OF s1(2)] by blast
  have "length (ts_result s2) = n" if "\<exists>ys. load_order list n ys"
    using s1(4) that s2(3) topo_inv_length(1) [OF s2(2)] by simp
  then show ?case using s1 s2 by (auto simp: topo_ext_def)
qed simp

text \<open>The sort gives an order whenever there is one, and says so when there is none.\<close>

lemma topological_sort_complete:
  assumes "\<forall>m \<in> set list. module_ok m" and "n \<le> 32"
  shows "if \<exists>ys. load_order list n ys
    then \<exists>xs. grub_topological_sort True list n = Returned (Some xs, Some n, True) \<and> load_order list n xs
    else grub_topological_sort True list n = Returned (None, Some 0, False)"
proof -
  let ?s = "\<lparr>ts_built = replicate GRUB_MODULE_MAX False, ts_result = [], ts_count = 0\<rparr>"
  have i: "topo_inv list n ?s" using assms(2) by (simp add: topo_inv_def deps_precede_def GRUB_MODULE_MAX_def)
  obtain s where s: "topo_rounds list n n ?s = Returned s" "topo_inv list n s"
      "(\<exists>ys. load_order list n ys) \<and> n > 0 \<longrightarrow> length (ts_result s) = n"
    using topo_rounds_progress [OF assms(2,1) i] by blast
  have full: "load_order list n (ts_result s)" if "\<not> length (ts_result s) < n"
    using that topo_inv_length [OF s(2)] s(2) by (simp add: load_order_def topo_inv_def)
  have g: "grub_topological_sort True list n = (if length (ts_result s) < n then Returned (None, Some 0, False)
      else Returned (Some (ts_result s), Some n, True))"
    using assms(2) s(1) by (simp add: grub_topological_sort_def GRUB_MODULE_MAX_def)
  show ?thesis
  proof (cases "length (ts_result s) < n")
    case True
    then have "\<not> (\<exists>ys. load_order list n ys)" using s(3) by force
    then show ?thesis using g True by simp
  next
    case False
    then show ?thesis using g full by auto
  qed
qed

text \<open>Nothing ever marks a module as loaded, and a module that is loaded is found by the first 63 characters of its name.\<close>

lemma grub_never_loaded:
  assumes "\<forall>m \<in> set list. \<not> grub_module_is_loaded (Some m)"
  shows "\<forall>m \<in> set (fst (grub_load_module list name header ini fini)). \<not> grub_module_is_loaded (Some m)"
  using assms by (auto simp: grub_load_module_def grub_module_is_loaded_def MODULE_FLAGS_NONE_def split: option.splits)

lemma grub_find_loaded:
  assumes "grub_load_module list (Some name) (Some h) ini fini = (list', True)" and "length name \<le> 63"
    and "\<forall>m \<in> set list. gm_name m \<noteq> name"
  shows "\<exists>m. grub_find_module list' name = Some m \<and> gm_header m = h"
proof -
  have "find (\<lambda>m. gm_name m = name) list = None" using assms(3) by (simp add: find_None_iff)
  then have f: "find (\<lambda>m. gm_name m = name) (list @ [x]) = (if gm_name x = name then Some x else None)" for x
    using assms(3) by (induction list) auto
  have "length list < 32" using assms(1) by (simp add: grub_load_module_def GRUB_MODULE_MAX_def split: if_splits)
  then show ?thesis using assms(1,2) f
    by (auto simp: grub_load_module_def grub_find_module_def GRUB_MODULE_NAME_LEN_def GRUB_MODULE_MAX_def)
qed

end
