(* ===== verification/Boot_Stages.thy ===== *)
theory Boot_Stages
  imports Prelude
begin

text \<open>
  The two loader stages of \<open>mini-bootloader/src/stage1.c\<close> and \<open>stage2.c\<close>: the master boot record
  with its partition table, and the Multiboot structures handed to the kernel.  The address of the
  header, the contents of files and the memory at absolute addresses are parameters; the reports
  of the stages print only.
\<close>

section \<open>Stage 1\<close>

definition MBR_SIZE :: nat where "MBR_SIZE = 512"
definition MBR_SIGNATURE :: u16 where "MBR_SIGNATURE = 0xAA55"
definition PARTITION_ENTRIES :: nat where "PARTITION_ENTRIES = 4"
definition PARTITION_ENTRY_SIZE :: nat where "PARTITION_ENTRY_SIZE = 16"
definition BOOTABLE_MARK :: u8 where "BOOTABLE_MARK = 0x80"

record MBR =
  mbr_bootstrap_code :: bytes
  mbr_partition_table :: bytes
  mbr_signature :: u16

record PartitionEntry =
  pte_status :: u8
  pte_first_lba :: u32
  pte_sectors :: u32

definition read_partition :: "MBR \<Rightarrow> nat \<Rightarrow> PartitionEntry" where
  "read_partition mbr i =
     (let t = mbr_partition_table mbr; off = i * PARTITION_ENTRY_SIZE
      in \<lparr>pte_status = t ! off, pte_first_lba = le32_at t (off + 8), pte_sectors = le32_at t (off + 12)\<rparr>)"

definition mbr_bytes :: "MBR \<Rightarrow> bytes" where
  "mbr_bytes mbr = mbr_bootstrap_code mbr @ mbr_partition_table mbr @ [ucast (mbr_signature mbr), ucast (drop_bit 8 (mbr_signature mbr))]"

definition mbr_of_bytes :: "bytes \<Rightarrow> MBR" where
  "mbr_of_bytes b = \<lparr>mbr_bootstrap_code = take 446 b, mbr_partition_table = sub_range b 446 64, mbr_signature = le16 (b ! 510) (b ! 511)\<rparr>"

definition mbr_default_bootstrap :: bytes where
  "mbr_default_bootstrap =
     [0x31, 0xC0, 0x8E, 0xD8, 0x8E, 0xC0, 0x8E, 0xD0, 0xBC, 0x00, 0x7C, 0xFA, 0xFC, 0xE8, 0x08, 0x00,
      0xB4, 0x0E, 0xBB, 0x07, 0x00, 0xCD, 0x10, 0xEB, 0xFE, 0x00, 0x00, 0x00, 0x00, 0x00, 0x00, 0x00]"

definition mbr_init :: MBR where
  "mbr_init = \<lparr>mbr_bootstrap_code = blit (zeros 446) 0 mbr_default_bootstrap, mbr_partition_table = zeros 64,
     mbr_signature = MBR_SIGNATURE\<rparr>"

definition mbr_validate :: "MBR \<Rightarrow> bool" where
  "mbr_validate mbr \<longleftrightarrow> mbr_signature mbr = MBR_SIGNATURE"

text \<open>The file is \<open>disk_mbr.bin\<close>; a short one overwrites a part of the record.\<close>

definition mbr_load_from_disk :: "bytes option \<Rightarrow> MBR \<Rightarrow> MBR \<times> bool" where
  "mbr_load_from_disk file mbr =
     (case file of None \<Rightarrow> (mbr, False)
      | Some contents \<Rightarrow>
          let got = take MBR_SIZE contents; mbr1 = mbr_of_bytes (blit (mbr_bytes mbr) 0 got)
          in if length got \<noteq> MBR_SIZE then (mbr1, False)
             else if \<not> mbr_validate mbr1 then (mbr1, False)
             else (mbr1, True))"

definition mbr_find_active_partition :: "MBR \<Rightarrow> nat option" where
  "mbr_find_active_partition mbr =
     find (\<lambda>i. pte_status (read_partition mbr i) = BOOTABLE_MARK \<and> pte_first_lba (read_partition mbr i) > 0) [0..<PARTITION_ENTRIES]"

definition mbr_find_bootable :: "MBR \<Rightarrow> nat option" where
  "mbr_find_bootable mbr =
     (case mbr_find_active_partition mbr of Some i \<Rightarrow> Some i
      | None \<Rightarrow> find (\<lambda>i. pte_first_lba (read_partition mbr i) > 0 \<and> pte_sectors (read_partition mbr i) > 0) [0..<PARTITION_ENTRIES])"

section \<open>Stage 2\<close>

definition MULTIBOOT_MAGIC :: u32 where "MULTIBOOT_MAGIC = 0x1BADB002"
definition MULTIBOOT_FLAGS_PAGE :: u32 where "MULTIBOOT_FLAGS_PAGE = 1"
definition MULTIBOOT_FLAGS_MEM :: u32 where "MULTIBOOT_FLAGS_MEM = 2"
definition MULTIBOOT_FLAGS_VBE :: u32 where "MULTIBOOT_FLAGS_VBE = 4"
definition MULTIBOOT_INFO_MEM :: u32 where "MULTIBOOT_INFO_MEM = 1"
definition MULTIBOOT_INFO_BOOTDEV :: u32 where "MULTIBOOT_INFO_BOOTDEV = 2"
definition MULTIBOOT_INFO_CMDLINE :: u32 where "MULTIBOOT_INFO_CMDLINE = 4"
definition MULTIBOOT_INFO_MODS :: u32 where "MULTIBOOT_INFO_MODS = 8"
definition MULTIBOOT_INFO_MMAP :: u32 where "MULTIBOOT_INFO_MMAP = 0x40"
definition BOOT_DEVICE_BASE :: u32 where "BOOT_DEVICE_BASE = 0xE0"
definition MAX_MEMORY_MAP_ENTRIES :: u32 where "MAX_MEMORY_MAP_ENTRIES = 64"
definition MAX_CMDLINE_LEN :: nat where "MAX_CMDLINE_LEN = 256"

record MultibootHeader =
  mh_magic :: u32
  mh_flags :: u32
  mh_checksum :: u32
  mh_header_addr :: u32
  mh_load_addr :: u32
  mh_load_end_addr :: u32
  mh_bss_end_addr :: u32
  mh_entry_addr :: u32

record MultibootInfo =
  mbi_flags :: u32
  mbi_mem_lower :: u32
  mbi_mem_upper :: u32
  mbi_boot_device :: u32
  mbi_cmdline :: u32
  mbi_mods_count :: u32
  mbi_mods_addr :: u32
  mbi_syms :: "u32 list"
  mbi_mmap_length :: u32
  mbi_mmap_addr :: u32
  mbi_drives_length :: u32
  mbi_drives_addr :: u32
  mbi_config_table :: u32
  mbi_boot_loader_name :: u32
  mbi_apm_table :: u32
  mbi_vbe_control_info :: u32
  mbi_vbe_mode_info :: u32
  mbi_vbe_mode :: u16
  mbi_vbe_interface_seg :: u16
  mbi_vbe_interface_off :: u16
  mbi_vbe_interface_len :: u16

record MemoryMapEntry =
  mme_size :: u32
  mme_base_addr :: u64
  mme_length :: u64
  mme_type :: u32

definition sizeof_MemoryMapEntry :: u32 where "sizeof_MemoryMapEntry = 32"

definition zero_multiboot_info :: MultibootInfo where
  "zero_multiboot_info = \<lparr>mbi_flags = 0, mbi_mem_lower = 0, mbi_mem_upper = 0, mbi_boot_device = 0, mbi_cmdline = 0, mbi_mods_count = 0,
     mbi_mods_addr = 0, mbi_syms = replicate 4 0, mbi_mmap_length = 0, mbi_mmap_addr = 0, mbi_drives_length = 0, mbi_drives_addr = 0,
     mbi_config_table = 0, mbi_boot_loader_name = 0, mbi_apm_table = 0, mbi_vbe_control_info = 0, mbi_vbe_mode_info = 0,
     mbi_vbe_mode = 0, mbi_vbe_interface_seg = 0, mbi_vbe_interface_off = 0, mbi_vbe_interface_len = 0\<rparr>"

text \<open>The argument is the address of the header, cut to 32 bits.\<close>

definition stage2_init :: "u32 \<Rightarrow> MultibootHeader \<times> MultibootInfo" where
  "stage2_init header_ptr =
     (let h = \<lparr>mh_magic = MULTIBOOT_MAGIC, mh_flags = MULTIBOOT_FLAGS_PAGE OR MULTIBOOT_FLAGS_MEM, mh_checksum = 0,
               mh_header_addr = header_ptr, mh_load_addr = 0, mh_load_end_addr = 0, mh_bss_end_addr = 0, mh_entry_addr = 0\<rparr>;
          sum = mh_magic h + mh_flags h + mh_checksum h + mh_header_addr h + mh_load_addr h + mh_load_end_addr h
                + mh_bss_end_addr h + mh_entry_addr h
      in (h\<lparr>mh_checksum := - sum\<rparr>,
          zero_multiboot_info\<lparr>mbi_flags := MULTIBOOT_INFO_MEM OR MULTIBOOT_INFO_BOOTDEV, mbi_mem_lower := 640, mbi_mem_upper := 130048,
            mbi_boot_device := 0xE0\<rparr>))"

text \<open>The static buffer of 4096 bytes keeps the start of the file.\<close>

definition stage2_load_kernel :: "bytes option \<Rightarrow> bytes \<Rightarrow> bytes option \<Rightarrow> bytes \<times> bool" where
  "stage2_load_kernel file g_kernel_buffer kernel_path =
     (case kernel_path of None \<Rightarrow> (g_kernel_buffer, False)
      | Some _ \<Rightarrow>
          (case file of None \<Rightarrow> (g_kernel_buffer, False)
           | Some contents \<Rightarrow>
               let got = take 4096 contents in
               if contents = [] \<or> got = [] then (g_kernel_buffer, False)
               else (blit g_kernel_buffer 0 got, True)))"

definition stage2_parse_multiboot_header :: "MultibootHeader \<Rightarrow> bool" where
  "stage2_parse_multiboot_header header \<longleftrightarrow>
     mh_magic header = MULTIBOOT_MAGIC \<and> mh_magic header + mh_flags header + mh_checksum header = 0"

text \<open>The entries are an address and what is there; the printing of each reads them all.\<close>

definition stage2_setup_memory_map ::
  "MultibootInfo \<Rightarrow> (u32 \<times> MemoryMapEntry list) option \<Rightarrow> u32 \<Rightarrow> (MultibootInfo \<times> bool) c_result" where
  "stage2_setup_memory_map info entries n =
     (case entries of None \<Rightarrow> Returned (info, False)
      | Some (addr, es) \<Rightarrow>
          if n = 0 \<or> n > MAX_MEMORY_MAP_ENTRIES then Returned (info, False)
          else if unat n > length es then Undefined
          else Returned (info\<lparr>mbi_mmap_length := n * sizeof_MemoryMapEntry, mbi_mmap_addr := addr,
                              mbi_flags := mbi_flags info OR MULTIBOOT_INFO_MMAP\<rparr>, True))"

definition stage2_setup_vbe :: "MultibootInfo \<Rightarrow> MultibootInfo \<times> bool" where
  "stage2_setup_vbe info =
     (info\<lparr>mbi_flags := mbi_flags info OR MULTIBOOT_FLAGS_VBE, mbi_vbe_mode := 0x118, mbi_vbe_interface_seg := 0,
           mbi_vbe_interface_off := 0, mbi_vbe_interface_len := 0\<rparr>, True)"

definition stage2_set_boot_device :: "MultibootInfo \<Rightarrow> u8 \<Rightarrow> MultibootInfo" where
  "stage2_set_boot_device info drive = info\<lparr>mbi_boot_device := ucast drive OR push_bit 24 BOOT_DEVICE_BASE\<rparr>"

text \<open>Memory at absolute addresses, which the command line is written to without a check.\<close>

definition mem_store :: "(nat \<Rightarrow> u8) \<Rightarrow> nat \<Rightarrow> bytes \<Rightarrow> nat \<Rightarrow> u8" where
  "mem_store memory addr bs a = (if addr \<le> a \<and> a < addr + length bs then bs ! (a - addr) else memory a)"

definition stage2_set_cmdline ::
  "(nat \<Rightarrow> u8) \<Rightarrow> MultibootInfo \<Rightarrow> bytes option \<Rightarrow> u32 \<Rightarrow> (nat \<Rightarrow> u8) \<times> MultibootInfo" where
  "stage2_set_cmdline memory info cmdline addr =
     (case cmdline of None \<Rightarrow> (memory, info)
      | Some s \<Rightarrow>
          let len = (if length s > MAX_CMDLINE_LEN then MAX_CMDLINE_LEN else length s)
          in (mem_store (mem_store memory (unat addr) (take len s)) (unat addr + len) [0],
              info\<lparr>mbi_cmdline := addr, mbi_flags := mbi_flags info OR MULTIBOOT_INFO_CMDLINE\<rparr>))"

definition stage2_add_module :: "MultibootInfo \<Rightarrow> u32 \<Rightarrow> u32 \<Rightarrow> MultibootInfo" where
  "stage2_add_module info n addr =
     info\<lparr>mbi_mods_count := n, mbi_mods_addr := addr, mbi_flags := mbi_flags info OR MULTIBOOT_INFO_MODS\<rparr>"

section \<open>What the stages do\<close>

text \<open>
  The partition that boots: the first one that is marked and has a start, otherwise the first that
  has a start and a size.
\<close>

lemma mbr_find_bootable_cases:
  "case mbr_find_bootable mbr of
     Some i \<Rightarrow> i < 4 \<and> pte_first_lba (read_partition mbr i) > 0
       \<and> (pte_status (read_partition mbr i) = BOOTABLE_MARK
          \<or> pte_sectors (read_partition mbr i) > 0
            \<and> (\<forall>j < 4. pte_first_lba (read_partition mbr j) > 0 \<longrightarrow> pte_status (read_partition mbr j) \<noteq> BOOTABLE_MARK))
   | None \<Rightarrow> \<forall>i < 4. pte_first_lba (read_partition mbr i) = 0
       \<or> pte_status (read_partition mbr i) \<noteq> BOOTABLE_MARK \<and> pte_sectors (read_partition mbr i) = 0"
proof (cases "mbr_find_active_partition mbr")
  case None
  then have n: "\<forall>j < 4. pte_first_lba (read_partition mbr j) > 0 \<longrightarrow> pte_status (read_partition mbr j) \<noteq> BOOTABLE_MARK"
    by (auto simp: mbr_find_active_partition_def find_None_iff PARTITION_ENTRIES_def)
  then show ?thesis
    using None by (auto simp: mbr_find_bootable_def find_None_iff find_Some_iff PARTITION_ENTRIES_def word_gt_0 split: option.split)
next
  case (Some i)
  then have "mbr_find_bootable mbr = Some i" by (simp add: mbr_find_bootable_def)
  moreover have "i < 4 \<and> pte_status (read_partition mbr i) = BOOTABLE_MARK \<and> pte_first_lba (read_partition mbr i) > 0"
    using Some by (auto simp: mbr_find_active_partition_def find_Some_iff PARTITION_ENTRIES_def)
  ultimately show ?thesis by simp
qed

lemma mbr_bytes_roundtrip:
  assumes "length (mbr_bootstrap_code mbr) = 446" and "length (mbr_partition_table mbr) = 64"
  shows "length (mbr_bytes mbr) = 512 \<and> mbr_of_bytes (mbr_bytes mbr) = mbr"
  using assms le16_split [of "mbr_signature mbr"]
  by (simp add: mbr_bytes_def mbr_of_bytes_def sub_range_def nth_append)

text \<open>Writing a record to the disk and loading it gives the record back when its signature is right.\<close>

lemma mbr_disk_roundtrip:
  assumes "length (mbr_bootstrap_code mbr) = 446" and "length (mbr_partition_table mbr) = 64"
    and "length (mbr_bootstrap_code m0) = 446" and "length (mbr_partition_table m0) = 64"
  shows "mbr_load_from_disk (Some (mbr_bytes mbr)) m0 = (mbr, mbr_validate mbr)"
proof -
  have "blit (mbr_bytes m0) 0 (mbr_bytes mbr) = mbr_bytes mbr"
    using mbr_bytes_roundtrip [OF assms(1,2)] mbr_bytes_roundtrip [OF assms(3,4)] by (simp add: blit_def)
  then show ?thesis using mbr_bytes_roundtrip [OF assms(1,2)] by (simp add: mbr_load_from_disk_def MBR_SIZE_def Let_def)
qed

text \<open>
  The header that the stage makes does not pass its own check: its checksum covers the address
  field and the check does not, so the check passes only at address 0.
\<close>

lemma stage2_header_checksum:
  "stage2_parse_multiboot_header (fst (stage2_init a)) \<longleftrightarrow> a = 0"
proof -
  have "MULTIBOOT_MAGIC + f + - (MULTIBOOT_MAGIC + f + a) = - a" for f :: u32 by simp
  then show ?thesis by (simp add: stage2_parse_multiboot_header_def stage2_init_def Let_def)
qed

text \<open>The command line in memory: at most 256 characters and a terminator, nothing else changed.\<close>

lemma stage2_cmdline_stored:
  assumes "s \<noteq> []"
  defines "n \<equiv> min 256 (length s)"
  shows "map (fst (stage2_set_cmdline memory info (Some s) addr)) [unat addr..<Suc (unat addr + n)] = take n s @ [0]
    \<and> (\<forall>a. a < unat addr \<or> unat addr + n < a \<longrightarrow> fst (stage2_set_cmdline memory info (Some s) addr) a = memory a)"
proof -
  have l: "(if length s > MAX_CMDLINE_LEN then MAX_CMDLINE_LEN else length s) = n" by (simp add: n_def MAX_CMDLINE_LEN_def min_def)
  have e: "fst (stage2_set_cmdline memory info (Some s) addr) = mem_store (mem_store memory (unat addr) (take n s)) (unat addr + n) [0]"
    unfolding stage2_set_cmdline_def by (simp only: option.case Let_def l fst_conv)
  have "n \<le> length s" by (simp add: n_def)
  then show ?thesis unfolding e by (auto simp: mem_store_def nth_append intro!: nth_equalityI)
qed

end
