(* ===== verification/Linux_Boot.thy ===== *)
theory Linux_Boot
  imports Prelude
begin

text \<open>
  The Linux boot protocol of \<open>mini-bootloader/src/linux_boot.c\<close> and the boot file system of
  \<open>filesys_boot.c\<close>.  The contents of files and the success of \<open>malloc\<close> are parameters; the
  structures are laid out with natural alignment; reports print only.
\<close>

section \<open>Linux boot context\<close>

definition LINUX_BOOT_SIGNATURE :: u16 where "LINUX_BOOT_SIGNATURE = 0xAA55"
definition LINUX_HEADER_MAGIC :: u32 where "LINUX_HEADER_MAGIC = 0x53726448"
definition LINUX_SETUP_MAGIC :: bytes where "LINUX_SETUP_MAGIC = [72, 100, 114, 83]"
definition E820MAX :: u32 where "E820MAX = 128"
definition E820_RAM :: u32 where "E820_RAM = 1"
definition E820_RESERVED :: u32 where "E820_RESERVED = 2"
definition BOOT_FLAG_ADDR :: nat where "BOOT_FLAG_ADDR = 0x1FE"
definition SETUP_HEADER_OFFSET :: nat where "SETUP_HEADER_OFFSET = 0x1F1"
definition HEADER_MAGIC_OFFSET :: nat where "HEADER_MAGIC_OFFSET = 0x202"
definition KERNEL_BASE_ADDR :: u32 where "KERNEL_BASE_ADDR = 0x100000"
definition BZIMAGE_OFFSET :: u32 where "BZIMAGE_OFFSET = 0x200"
definition sizeof_SetupHeader :: nat where "sizeof_SetupHeader = 28"

record E820Entry =
  e820_base :: u32
  e820_length :: u32
  e820_type :: u32

text \<open>The fields of \<open>BootParams\<close> that the loader reads.\<close>

record BootParams =
  bop_setup_sects :: u8
  bop_syssize :: u32
  bop_boot_flag :: u16
  bop_header :: u32
  bop_loadflags :: u8
  bop_code32_start :: u32

record LinuxBootContext =
  lbc_setup_data :: "bytes option"
  lbc_setup_size :: u32
  lbc_kernel_size :: u32
  lbc_initrd_data :: "bytes option"
  lbc_initrd_size :: u32
  lbc_cmdline :: "bytes option"
  lbc_e820_map :: "E820Entry list"
  lbc_e820_count :: u32
  lbc_kernel_load_addr :: u32
  lbc_entry_point :: u32

definition linux_setup_e820 :: "LinuxBootContext \<Rightarrow> E820Entry list option \<Rightarrow> u32 \<Rightarrow> (LinuxBootContext \<times> bool) c_result" where
  "linux_setup_e820 ctx entries n =
     (case entries of None \<Rightarrow> Returned (ctx, False)
      | Some es \<Rightarrow>
          if n = 0 \<or> n > E820MAX then Returned (ctx, False)
          else if unat n > length es then Undefined
          else Returned (ctx\<lparr>lbc_e820_map := blit (lbc_e820_map ctx) 0 (take (unat n) es), lbc_e820_count := n\<rparr>, True))"

definition e820_initial_map :: "E820Entry list" where
  "e820_initial_map =
     [\<lparr>e820_base = 0x00000000, e820_length = 0x0009FC00, e820_type = E820_RAM\<rparr>,
      \<lparr>e820_base = 0x0009FC00, e820_length = 0x00000400, e820_type = E820_RESERVED\<rparr>,
      \<lparr>e820_base = 0x000F0000, e820_length = 0x00010000, e820_type = E820_RESERVED\<rparr>,
      \<lparr>e820_base = 0x00100000, e820_length = 0x0FEF0000, e820_type = E820_RAM\<rparr>,
      \<lparr>e820_base = 0x0FFF0000, e820_length = 0x00010000, e820_type = E820_RESERVED\<rparr>,
      \<lparr>e820_base = 0xFEC00000, e820_length = 0x00010000, e820_type = E820_RESERVED\<rparr>,
      \<lparr>e820_base = 0xFEE00000, e820_length = 0x00010000, e820_type = E820_RESERVED\<rparr>,
      \<lparr>e820_base = 0xFFFC0000, e820_length = 0x00010000, e820_type = E820_RESERVED\<rparr>]"

definition zero_e820 :: E820Entry where
  "zero_e820 = \<lparr>e820_base = 0, e820_length = 0, e820_type = 0\<rparr>"

definition linux_boot_init :: "(LinuxBootContext \<times> bool) c_result" where
  "linux_boot_init =
     linux_setup_e820
       \<lparr>lbc_setup_data = None, lbc_setup_size = 0, lbc_kernel_size = 0, lbc_initrd_data = None, lbc_initrd_size = 0, lbc_cmdline = None,
        lbc_e820_map = replicate (unat E820MAX) zero_e820, lbc_e820_count = 0, lbc_kernel_load_addr = KERNEL_BASE_ADDR,
        lbc_entry_point = KERNEL_BASE_ADDR + BZIMAGE_OFFSET\<rparr>
       (Some e820_initial_map) 8"

definition linux_parse_setup_header :: "LinuxBootContext \<Rightarrow> BootParams option \<Rightarrow> LinuxBootContext \<times> bool" where
  "linux_parse_setup_header ctx params =
     (case params of None \<Rightarrow> (ctx, False)
      | Some p \<Rightarrow>
          if bop_boot_flag p \<noteq> LINUX_BOOT_SIGNATURE then (ctx, False)
          else if bop_header p \<noteq> LINUX_HEADER_MAGIC then (ctx, False)
          else (ctx\<lparr>lbc_setup_size := ucast (bop_setup_sects p) * 512, lbc_kernel_size := bop_syssize p * 16,
                    lbc_entry_point := bop_code32_start p\<rparr>, True))"

text \<open>The first 28 bytes of the structure, copied from the image; the fields behind them are zero.\<close>

definition params_of_header :: "bytes \<Rightarrow> BootParams" where
  "params_of_header b = \<lparr>bop_setup_sects = b ! 0, bop_syssize = le32_at b 4, bop_boot_flag = le16 (b ! 14) (b ! 15),
     bop_header = le32_at b 20, bop_loadflags = 0, bop_code32_start = 0\<rparr>"

text \<open>The fixed offsets are read without a check of the file's size, and the verdict of the parser is dropped.\<close>

definition linux_load_kernel ::
  "bool \<Rightarrow> bytes option \<Rightarrow> LinuxBootContext \<Rightarrow> bytes option \<Rightarrow> (LinuxBootContext \<times> bool) c_result" where
  "linux_load_kernel mem file ctx kernel_path =
     (case kernel_path of None \<Rightarrow> Returned (ctx, False)
      | Some _ \<Rightarrow>
          (case file of None \<Rightarrow> Returned (ctx, False)
           | Some contents \<Rightarrow>
               if contents = [] then Returned (ctx, False)
               else if \<not> mem then Returned (ctx\<lparr>lbc_setup_data := None\<rparr>, False)
               else if length contents < SETUP_HEADER_OFFSET + sizeof_SetupHeader then Undefined
               else let ctx1 = ctx\<lparr>lbc_setup_data := Some contents, lbc_setup_size := of_nat (length contents),
                                   lbc_kernel_size := of_nat (length contents)\<rparr>
                    in if sub_range contents HEADER_MAGIC_OFFSET 4 = LINUX_SETUP_MAGIC
                       then Returned (fst (linux_parse_setup_header ctx1
                              (Some (params_of_header (sub_range contents SETUP_HEADER_OFFSET sizeof_SetupHeader)))), True)
                       else Returned (ctx1, True)))"

definition linux_set_cmdline :: "bool \<Rightarrow> LinuxBootContext \<Rightarrow> bytes option \<Rightarrow> LinuxBootContext \<times> bool" where
  "linux_set_cmdline mem ctx cmdline =
     (case cmdline of None \<Rightarrow> (ctx, False)
      | Some s \<Rightarrow> if \<not> mem then (ctx\<lparr>lbc_cmdline := None\<rparr>, False) else (ctx\<lparr>lbc_cmdline := Some s\<rparr>, True))"

definition linux_load_initrd :: "bool \<Rightarrow> bytes option \<Rightarrow> LinuxBootContext \<Rightarrow> bytes option \<Rightarrow> LinuxBootContext \<times> bool" where
  "linux_load_initrd mem file ctx initrd_path =
     (case initrd_path of None \<Rightarrow> (ctx, False)
      | Some _ \<Rightarrow>
          (case file of None \<Rightarrow> (ctx, False)
           | Some contents \<Rightarrow>
               if contents = [] then (ctx, False)
               else if \<not> mem then (ctx\<lparr>lbc_initrd_data := None\<rparr>, False)
               else (ctx\<lparr>lbc_initrd_data := Some contents, lbc_initrd_size := of_nat (length contents)\<rparr>, True)))"

text \<open>The address itself is only printed.\<close>

definition linux_set_initrd_addr :: "LinuxBootContext \<Rightarrow> u32 \<Rightarrow> LinuxBootContext" where
  "linux_set_initrd_addr ctx initrd_addr = ctx\<lparr>lbc_initrd_size := 0\<rparr>"

definition linux_boot_kernel :: "LinuxBootContext \<Rightarrow> bool" where
  "linux_boot_kernel ctx = True"

section \<open>Boot file system\<close>

definition BOOTFS_MAX_NAME :: nat where "BOOTFS_MAX_NAME = 256"
definition BOOTFS_MAX_DIRENTS :: int where "BOOTFS_MAX_DIRENTS = 128"
definition BOOTFS_CLUSTER_SIZE :: u32 where "BOOTFS_CLUSTER_SIZE = 4096"
definition BOOTFS_FAT32 :: u32 where "BOOTFS_FAT32 = 0"
definition BOOTFS_EXT2 :: u32 where "BOOTFS_EXT2 = 1"
definition BOOTFS_EXT4 :: u32 where "BOOTFS_EXT4 = 2"

record DirEntry =
  de_name :: bytes
  de_size :: u32
  de_first_cluster :: u32
  de_attributes :: u32
  de_is_directory :: bool
  de_inode :: u32

record FAT32BootSector =
  f32_bytes_per_sector :: u16
  f32_sectors_per_cluster :: u8
  f32_reserved_sectors :: u16
  f32_fat_count :: u8
  f32_total_sectors :: u32
  f32_fat_size :: u32
  f32_root_cluster :: u32
  f32_data_start_sector :: u32

record EXT2SuperBlock =
  ex2_inodes_count :: u32
  ex2_blocks_count :: u32
  ex2_block_size :: u32
  ex2_blocks_per_group :: u32
  ex2_inodes_per_group :: u32
  ex2_first_ino :: u32
  ex2_inode_size :: u16

text \<open>The member of the union that was written.\<close>

datatype BootFSSuper = SbNone | SbFat32 FAT32BootSector | SbExt2 EXT2SuperBlock

record BootFS =
  bfs_type :: u32
  bfs_sb :: BootFSSuper
  bfs_disk_image :: "bytes option"
  bfs_disk_size :: u32

definition read_fat32 :: "bytes \<Rightarrow> FAT32BootSector" where
  "read_fat32 b = \<lparr>f32_bytes_per_sector = le16 (b ! 0) (b ! 1), f32_sectors_per_cluster = b ! 2, f32_reserved_sectors = le16 (b ! 4) (b ! 5),
     f32_fat_count = b ! 6, f32_total_sectors = le32_at b 8, f32_fat_size = le32_at b 12, f32_root_cluster = le32_at b 16,
     f32_data_start_sector = le32_at b 20\<rparr>"

definition read_ext2 :: "bytes \<Rightarrow> EXT2SuperBlock" where
  "read_ext2 b = \<lparr>ex2_inodes_count = le32_at b 0, ex2_blocks_count = le32_at b 4, ex2_block_size = le32_at b 8,
     ex2_blocks_per_group = le32_at b 12, ex2_inodes_per_group = le32_at b 16, ex2_first_ino = le32_at b 20,
     ex2_inode_size = le16 (b ! 24) (b ! 25)\<rparr>"

definition default_fat32 :: "u32 \<Rightarrow> FAT32BootSector" where
  "default_fat32 disk_size = \<lparr>f32_bytes_per_sector = 512, f32_sectors_per_cluster = 8, f32_reserved_sectors = 32, f32_fat_count = 2,
     f32_total_sectors = disk_size div 512, f32_fat_size = 1024, f32_root_cluster = 2, f32_data_start_sector = 32 + 2 * 1024\<rparr>"

definition default_ext2 :: EXT2SuperBlock where
  "default_ext2 = \<lparr>ex2_inodes_count = 1024, ex2_blocks_count = 8192, ex2_block_size = 4096, ex2_blocks_per_group = 1024,
     ex2_inodes_per_group = 256, ex2_first_ino = 1, ex2_inode_size = 128\<rparr>"

definition bootfs_mount :: "bytes option \<Rightarrow> u32 \<Rightarrow> u32 \<Rightarrow> bytes option \<Rightarrow> BootFS c_result" where
  "bootfs_mount disk_image disk_size ty boot_sector =
     (let fs = (\<lambda>sb. \<lparr>bfs_type = ty, bfs_sb = sb, bfs_disk_image = disk_image, bfs_disk_size = disk_size\<rparr>) in
      if ty = BOOTFS_FAT32
      then (case boot_sector of None \<Rightarrow> Returned (fs (SbFat32 (default_fat32 disk_size)))
            | Some b \<Rightarrow> if length b < 24 then Undefined else Returned (fs (SbFat32 (read_fat32 b))))
      else if ty = BOOTFS_EXT2 \<or> ty = BOOTFS_EXT4
      then (case boot_sector of None \<Rightarrow> Returned (fs (SbExt2 default_ext2))
            | Some b \<Rightarrow> if length b < 1024 + 28 then Undefined else Returned (fs (SbExt2 (read_ext2 (drop 1024 b)))))
      else Returned (fs SbNone))"

definition bootfs_names :: "bytes list" where
  "bootfs_names = map str_bytes [''vmlinuz'', ''initrd.img'', ''grub.cfg'', ''System.map'', ''config'', ''boot.ini'']"

definition bootfs_sizes :: "u32 list" where
  "bootfs_sizes = [5242880, 16777216, 4096, 2097152, 32768, 1024]"

definition bootfs_entry :: "nat \<Rightarrow> DirEntry" where
  "bootfs_entry i = \<lparr>de_name = take (BOOTFS_MAX_NAME - 1) (bootfs_names ! i), de_size = bootfs_sizes ! i, de_first_cluster = of_nat (i + 3),
     de_attributes = 0, de_is_directory = False, de_inode = of_nat (i + 1)\<rparr>"

text \<open>The entries that are written; the path plays no part, nor does the disk.\<close>

definition bootfs_list_dir :: "BootFS option \<Rightarrow> bool \<Rightarrow> int \<Rightarrow> DirEntry list" where
  "bootfs_list_dir fs entries max_entries =
     (if fs = None \<or> \<not> entries \<or> max_entries \<le> 0 then []
      else let n = (if int (length bootfs_names) > max_entries then nat max_entries else length bootfs_names)
           in map bootfs_entry [0..<n])"

definition bootfs_find_file :: "BootFS option \<Rightarrow> bytes option \<Rightarrow> DirEntry option" where
  "bootfs_find_file fs path =
     (case (fs, path) of
        (Some _, Some p) \<Rightarrow>
          let filename = (if p \<noteq> [] \<and> hd p = 47 then tl p else p)
          in find (\<lambda>e. de_name e = filename) (bootfs_list_dir fs True BOOTFS_MAX_DIRENTS)
      | _ \<Rightarrow> None)"

text \<open>
  The buffer and the size written back.  Only the start of the file is compared with the size of
  the disk.
\<close>

definition bootfs_read_file ::
  "BootFS option \<Rightarrow> bytes option \<Rightarrow> bytes option \<Rightarrow> u32 option \<Rightarrow> (bytes option \<times> u32 option \<times> bool) c_result" where
  "bootfs_read_file fs path buffer sz =
     (case (fs, path, buffer, sz) of
        (Some f, Some p, Some b, Some s) \<Rightarrow>
          (case bootfs_find_file fs path of None \<Rightarrow> Returned (buffer, sz, False)
           | Some e \<Rightarrow>
               let bytes_to_read = (if de_size e > s then s else de_size e); offset = de_first_cluster e * BOOTFS_CLUSTER_SIZE;
                   n = unat bytes_to_read
               in if n > length b then Undefined
                  else (case bfs_disk_image f of
                          Some img \<Rightarrow>
                            if offset < bfs_disk_size f
                            then if unat offset + n > length img then Undefined
                                 else Returned (Some (blit b 0 (sub_range img (unat offset) n)), Some bytes_to_read, True)
                            else Returned (Some (blit b 0 (zeros n)), Some bytes_to_read, True)
                        | None \<Rightarrow> Returned (Some (blit b 0 (zeros n)), Some bytes_to_read, True)))
      | _ \<Rightarrow> Returned (buffer, sz, False))"

section \<open>What is read\<close>

lemma linux_boot_init_map:
  "\<exists>ctx. linux_boot_init = Returned (ctx, True) \<and> lbc_e820_count ctx = 8 \<and> take 8 (lbc_e820_map ctx) = e820_initial_map
    \<and> length (lbc_e820_map ctx) = 128"
proof -
  have "length e820_initial_map = 8" by (simp add: e820_initial_map_def)
  then show ?thesis by (simp add: linux_boot_init_def linux_setup_e820_def E820MAX_def blit_def)
qed

text \<open>
  The loader looks for the magic at its place in the file and the parser looks for it in a field
  that the copy filled from three bytes further on, so the parser accepts no image that reaches
  it, and the context keeps the sizes of the file and the default entry point.
\<close>

lemma linux_header_misread:
  assumes "519 \<le> length contents" and "sub_range contents HEADER_MAGIC_OFFSET 4 = LINUX_SETUP_MAGIC"
  shows "bop_header (params_of_header (sub_range contents SETUP_HEADER_OFFSET sizeof_SetupHeader)) \<noteq> LINUX_HEADER_MAGIC"
proof -
  have "sub_range contents HEADER_MAGIC_OFFSET 4 ! 3 = 83" by (simp add: assms(2) LINUX_SETUP_MAGIC_def)
  then have b: "contents ! 517 = 83" using assms(1) by (simp add: sub_range_def HEADER_MAGIC_OFFSET_def)
  have "le32 (contents ! 517) x y z \<noteq> LINUX_HEADER_MAGIC" for x y z
  proof
    assume "le32 (contents ! 517) x y z = LINUX_HEADER_MAGIC"
    then have "take_bit 8 (le32 83 x y z) = take_bit 8 LINUX_HEADER_MAGIC" by (simp add: b)
    moreover have "take_bit 8 (le32 83 x y z) = 83"
      by (simp add: le32_def take_bit_or take_bit_push_bit)
    ultimately show False by (simp add: LINUX_HEADER_MAGIC_def)
  qed
  then show ?thesis
    using assms(1) by (simp add: params_of_header_def le32_at_def sub_range_def SETUP_HEADER_OFFSET_def sizeof_SetupHeader_def)
qed

lemma linux_load_kernel_eq:
  assumes "525 \<le> length contents"
  shows "linux_load_kernel True (Some contents) ctx (Some p)
    = Returned (ctx\<lparr>lbc_setup_data := Some contents, lbc_setup_size := of_nat (length contents), lbc_kernel_size := of_nat (length contents)\<rparr>, True)"
proof -
  have "contents \<noteq> []" using assms by auto
  moreover have "fst (linux_parse_setup_header c (Some (params_of_header (sub_range contents SETUP_HEADER_OFFSET sizeof_SetupHeader)))) = c"
    if "sub_range contents HEADER_MAGIC_OFFSET 4 = LINUX_SETUP_MAGIC" for c
    using linux_header_misread [OF _ that] assms by (simp add: linux_parse_setup_header_def)
  ultimately show ?thesis
    using assms by (simp add: linux_load_kernel_def Let_def SETUP_HEADER_OFFSET_def sizeof_SetupHeader_def)
qed

text \<open>
  Reading a file of the listing: zeros without a disk, the bytes of the disk at the entry's
  cluster when they all are on it; a disk that ends inside them is read beyond its end.
\<close>

lemma bootfs_read_listed:
  assumes "i < 6" and "length b = unat s" and "bfs_disk_image f = Some img" and "length img = unat (bfs_disk_size f)"
  defines "n \<equiv> min (unat (bootfs_sizes ! i)) (unat s)" and "off \<equiv> 4096 * (i + 3)"
  shows "bootfs_read_file (Some f) (Some (47 # bootfs_names ! i)) (Some b) (Some s)
    = (if off < length img \<and> length img < off + n then Undefined
       else Returned (Some (blit b 0 (if off < length img then sub_range img off n else zeros n)), Some (of_nat n), True))"
proof -
  have i: "i \<in> {0, 1, 2, 3, 4, 5}" using assms(1) by auto
  have d: "bootfs_list_dir (Some f) True BOOTFS_MAX_DIRENTS = map bootfs_entry [0..<6]"
    by (simp add: bootfs_list_dir_def bootfs_names_def BOOTFS_MAX_DIRENTS_def upt_rec numeral_eq_Suc)
  have nm: "de_name (bootfs_entry j) = bootfs_names ! j" if "j < 6" for j
  proof -
    have "j \<in> {0, 1, 2, 3, 4, 5}" using that by auto
    then show ?thesis by (auto simp: bootfs_entry_def bootfs_names_def BOOTFS_MAX_NAME_def)
  qed
  have "distinct bootfs_names" by (simp add: bootfs_names_def str_bytes_def)
  then have inj: "bootfs_names ! j = bootfs_names ! i \<longleftrightarrow> j = i" if "j < 6" for j
    using that assms(1) by (simp add: nth_eq_iff_index_eq bootfs_names_def)
  have "find (\<lambda>e. de_name e = bootfs_names ! i) (map bootfs_entry [0..<6]) = Some (bootfs_entry i)"
  proof -
    have "(\<exists>k < length (map bootfs_entry [0..<6]). de_name (map bootfs_entry [0..<6] ! k) = bootfs_names ! i
      \<and> bootfs_entry i = map bootfs_entry [0..<6] ! k \<and> (\<forall>j < k. de_name (map bootfs_entry [0..<6] ! j) \<noteq> bootfs_names ! i))"
      using assms(1) nm inj by (intro exI [of _ i]) auto
    then show ?thesis by (simp only: find_Some_iff)
  qed
  then have f: "bootfs_find_file (Some f) (Some (47 # bootfs_names ! i)) = Some (bootfs_entry i)"
    by (simp add: bootfs_find_file_def d)
  have c: "unat (de_first_cluster (bootfs_entry i) * BOOTFS_CLUSTER_SIZE) = off"
    using i by (auto simp: bootfs_entry_def BOOTFS_CLUSTER_SIZE_def off_def)
  have m: "unat (if de_size (bootfs_entry i) > s then s else de_size (bootfs_entry i)) = n"
    "(if de_size (bootfs_entry i) > s then s else de_size (bootfs_entry i)) = of_nat n"
    by (auto simp: bootfs_entry_def n_def min_def word_less_nat_alt)
  have wn: "unat (of_nat n :: u32) = n" using m(1) unfolding m(2) .
  have "n \<le> length b" using assms(2) by (simp add: n_def)
  moreover have "de_first_cluster (bootfs_entry i) * BOOTFS_CLUSTER_SIZE < bfs_disk_size f \<longleftrightarrow> off < length img"
    using c assms(4) by (simp add: word_less_nat_alt)
  ultimately show ?thesis
    unfolding bootfs_read_file_def option.case prod.case f Let_def m c assms(3) by (auto simp: wn)
qed

end
