(* ===== verification/Fw_Crc.thy ===== *)
theory Fw_Crc
  imports Prelude
begin

text \<open>
  The CRC-32 of \<open>mini-firmware/src/firmware_layout.c\<close>.  The table is the code's, in decimal; one of
  its entries is not the remainder it should be.  The reference is the bit-serial register
  with the reversed polynomial.
\<close>

section \<open>The code\<close>

definition crc32_table :: "u32 list" where
  "crc32_table =
     [0, 1996959894, 3993919788, 2567524794, 124634137, 1886057615, 3915621685, 2657392035, 249268274, 2044508324,
      3772115230, 2547177864, 162941995, 2125561021, 3887607047, 2428444049, 498536548, 1789927666, 4089016648, 2227061214,
      450548861, 1843258603, 4107580753, 2211677639, 325883990, 1684777152, 4251122042, 2321926636, 335633487, 1661365465,
      4195302755, 2366115317, 997073096, 1281953886, 3579855332, 2724688242, 1006888145, 1258607687, 3524101629, 2768942443,
      901097722, 1119000684, 3686517206, 2898065728, 853044451, 1172266101, 3705015759, 2882616665, 651767980, 1373503546,
      3369554304, 3218104598, 565507253, 1454621731, 3485111705, 3099436303, 671266974, 1594198024, 3322730930, 2970347812,
      795835527, 1483230225, 3244367275, 3060149565, 1994146192, 31158534, 2563907772, 4023717930, 1907459465, 112637215,
      2680153253, 3904427059, 2013776290, 251722036, 2517215374, 3775830040, 2137656763, 141376813, 2439277719, 3865271297,
      1802195444, 476864866, 2238001368, 4066508878, 1812370925, 453092731, 2181625025, 4111451223, 1706088902, 314042704,
      2344532202, 4240017532, 1658658271, 366619977, 2362670323, 4224994405, 1303535960, 984961486, 2747007092, 3569037538,
      1256170817, 1037604311, 2765210733, 3554079995, 1131014506, 879679996, 2909243462, 3663771856, 1141124467, 855842277,
      2852801631, 3708648649, 1342533948, 654459306, 3188396048, 3373015174, 1466479909, 544179635, 3110523913, 3462522015,
      1591671054, 702138776, 2966460450, 3352799412, 1504918807, 783551873, 3082640443, 3233442989, 3988292384, 2596254646,
      62317068, 1957810842, 3939845945, 2647816111, 81470997, 1943803523, 3814918930, 2489596804, 225274430, 2053790376,
      3826175755, 2466906013, 167816743, 2097651377, 4027552580, 2265490386, 503444072, 1762050814, 4150417245, 2154129355,
      426522225, 1852507879, 4275313526, 2312317920, 282753626, 1742555852, 4189708143, 2394877945, 397917763, 1622183637,
      3604390888, 2714866558, 953729732, 1340076626, 3518719985, 2797360999, 1068828381, 1219638859, 3624741850, 2936675148,
      906185462, 1090812512, 3747672003, 2825379669, 829329135, 1181335161, 3412177804, 3160834842, 628085408, 1382605366,
      3423369109, 3138078467, 570562233, 1426400815, 3317316542, 2998733608, 733239954, 1555237380, 3268935591, 3050360625,
      752459403, 1541320221, 2607071920, 3965973030, 1969922972, 40735498, 2617837225, 3943577151, 1913087877, 83908371,
      2512341634, 3803740692, 2075208622, 213261112, 2463272603, 3855990285, 2094854071, 198958881, 2262029012, 4057260610,
      1759359992, 534414190, 2176718541, 4139329115, 1873836001, 414664567, 2282248934, 4279200368, 1711684554, 285281116,
      2405801727, 4167216745, 1634467795, 376229701, 2685067896, 3608007406, 1308918612, 956543938, 2808555105, 3495958263,
      1231636301, 1047427035, 2932959818, 3654703836, 1088359270, 936918000, 2847714899, 3736837829, 1202900863, 817233897,
      3183342108, 3401237130, 1404277552, 615818150, 3134207493, 3453421203, 1423857449, 601450431, 3009837614, 3294710456,
      1567103746, 711928724, 3020668471, 3272380065, 1510334235, 755167117]"

text \<open>One byte, as every table-driven loop of the repository has it.\<close>

definition crc_table_step :: "u32 list \<Rightarrow> u8 \<Rightarrow> u32 \<Rightarrow> u32" where
  "crc_table_step table b crc = table ! unat ((crc XOR ucast b) AND 0xFF) XOR drop_bit 8 crc"

definition crc32_compute :: "bytes option \<Rightarrow> u32" where
  "crc32_compute data =
     (case data of None \<Rightarrow> 0
      | Some bs \<Rightarrow> if bs = [] then 0 else fold (crc_table_step crc32_table) bs 0xFFFFFFFF XOR 0xFFFFFFFF)"

definition crc32_verify :: "bytes option \<Rightarrow> u32 \<Rightarrow> bool" where
  "crc32_verify data expected =
     (case data of None \<Rightarrow> False | Some bs \<Rightarrow> if bs = [] then False else crc32_compute data = expected)"

section \<open>The reference\<close>

definition CRC32_POLYNOMIAL :: u32 where "CRC32_POLYNOMIAL = 0xEDB88320"

definition crc_bit :: "u32 \<Rightarrow> u32" where
  "crc_bit c = drop_bit 1 c XOR (if bit c 0 then CRC32_POLYNOMIAL else 0)"

definition crc_byte :: "u32 \<Rightarrow> u32" where
  "crc_byte = crc_bit ^^ 8"

definition crc_spec :: "bytes \<Rightarrow> u32" where
  "crc_spec bs = fold (\<lambda>b crc. crc_byte (crc XOR ucast b)) bs 0xFFFFFFFF XOR 0xFFFFFFFF"

lemma crc_byte_unfold: "crc_byte c = crc_bit (crc_bit (crc_bit (crc_bit (crc_bit (crc_bit (crc_bit (crc_bit c)))))))"
  by (simp add: crc_byte_def eval_nat_numeral)

text \<open>The register is linear, and a bit at position 8 or above only moves.\<close>

lemma crc_bit_xor: "crc_bit (a XOR b) = crc_bit a XOR crc_bit b"
  by (auto simp: crc_bit_def bit_xor_iff drop_bit_xor ac_simps)

lemma crc_byte_xor: "crc_byte (a XOR b) = crc_byte a XOR crc_byte b"
  by (simp add: crc_byte_unfold crc_bit_xor)

lemma crc_byte_high:
  assumes "\<And>i. i < 8 \<Longrightarrow> \<not> bit c i"
  shows "crc_byte c = drop_bit 8 c"
proof -
  have "(crc_bit ^^ k) c = drop_bit k c" if "k \<le> 8" for k
    using that
  proof (induction k)
    case (Suc k)
    then have "\<not> bit (drop_bit k c) 0" using assms [of k] by (simp add: bit_drop_bit_eq)
    then show ?case using Suc by (simp add: crc_bit_def drop_bit_drop_bit)
  qed simp
  then show ?thesis by (simp add: crc_byte_def)
qed

lemma ff_mask: "(0xFF :: u32) = mask 8"
  by (simp add: mask_eq_exp_minus_1)

lemma crc_byte_split: "crc_byte c = crc_byte (c AND 0xFF) XOR drop_bit 8 c"
proof -
  have s: "c = (c AND mask 8) XOR (c AND NOT (mask 8))" by (rule bit_word_eqI) (auto simp: bit_simps)
  have "crc_byte (c AND NOT (mask 8)) = drop_bit 8 (c AND NOT (mask 8))" by (rule crc_byte_high) (simp add: bit_simps)
  also have "\<dots> = drop_bit 8 c" by (rule bit_word_eqI) (auto simp: bit_simps dest: bit_imp_le_length)
  finally show ?thesis using crc_byte_xor [of "c AND mask 8" "c AND NOT (mask 8)"] s by (simp add: ff_mask)
qed

section \<open>The table\<close>

definition crc_lows :: "u32 list" where
  "crc_lows = [0, 1996959894, 3993919788, 2567524794, 124634137, 1886057615, 3915621685, 2657392035, 249268274, 2044508324, 3772115230, 2547177864, 162941995, 2125561021, 3887607047, 2428444049]"

definition crc_highs :: "u32 list" where
  "crc_highs = [0, 498536548, 997073096, 651767980, 1994146192, 1802195444, 1303535960, 1342533948, 3988292384, 4027552580, 3604390888, 3412177804, 2607071920, 2262029012, 2685067896, 3183342108]"

lemma crc_lows_eq: "map crc_byte [0, 1, 2, 3, 4, 5, 6, 7, 8, 9, 10, 11, 12, 13, 14, 15] = crc_lows"
  by (simp add: crc_byte_unfold crc_bit_def CRC32_POLYNOMIAL_def crc_lows_def)

lemma crc_highs_eq: "map crc_byte [0, 16, 32, 48, 64, 80, 96, 112, 128, 144, 160, 176, 192, 208, 224, 240] = crc_highs"
  by (simp add: crc_byte_unfold crc_bit_def CRC32_POLYNOMIAL_def crc_highs_def)

text \<open>All entries but number 187 are what they should be, and that one differs in its middle bits only.\<close>

lemma crc_rows_eq: "concat (map (\<lambda>h. map (\<lambda>l. h XOR l) crc_lows) crc_highs) = crc32_table[187 := 1555261956]"
  by (simp add: crc_lows_def crc_highs_def crc32_table_def)

lemma concat_rows_nth:
  assumes "length ls = k" and "b < k" and "a < length hs"
  shows "concat (map (\<lambda>h. map (f h) ls) hs) ! (k * a + b) = f (hs ! a) (ls ! b)"
  using assms(3)
proof (induction hs arbitrary: a)
  case (Cons h hs)
  show ?case
  proof (cases a)
    case 0
    then show ?thesis using assms by (simp add: nth_append)
  next
    case (Suc a')
    then show ?thesis using Cons assms by (simp add: nth_append)
  qed
qed simp

lemma of_nat_row:
  assumes "b < 16" and "a < 16"
  shows "(of_nat (16 * a + b) :: u32) = of_nat (16 * a) XOR of_nat b"
proof -
  have b: "\<not> bit (of_nat b :: u32) n" if "4 \<le> n" for n
  proof -
    have "b div 2 ^ n = 0" using assms(1) power_increasing [OF that, of "2 :: nat"] by simp
    then have "\<not> bit b n" by (simp add: bit_iff_odd)
    then show ?thesis by (simp add: bit_of_nat_iff)
  qed
  have p: "(of_nat (16 * a) :: u32) = push_bit 4 (of_nat a)" by (simp add: push_bit_eq_mult)
  have d: "\<not> bit (push_bit 4 (of_nat a) :: u32) n \<or> \<not> bit (of_nat b :: u32) n" for n
    using b [of n] by (auto simp: bit_push_bit_iff)
  have "push_bit 4 (of_nat a) + (of_nat b :: u32) = push_bit 4 (of_nat a) OR of_nat b" by (rule disjunctive_add) (rule d)
  also have "\<dots> = push_bit 4 (of_nat a) XOR of_nat b" by (rule bit_word_eqI) (use d in \<open>auto simp: bit_or_iff bit_xor_iff\<close>)
  finally show ?thesis using p by simp
qed

lemma nat_split_16: "i < 256 \<Longrightarrow> i = 16 * (i div 16) + i mod 16 \<and> i div 16 < 16 \<and> i mod 16 < (16 :: nat)"
  by auto

lemma crc32_table_nth:
  assumes "i < 256"
  shows "crc32_table ! i = (if i = 187 then 0x5CB30A04 else crc_byte (of_nat i))"
proof (cases "i = 187")
  case True
  then show ?thesis by (simp add: crc32_table_def)
next
  case False
  let ?a = "i div 16" and ?b = "i mod 16"
  have ab: "i = 16 * ?a + ?b" "?a < 16" "?b < 16" using nat_split_16 [OF assms] by auto
  have l: "crc_lows ! b = crc_byte (of_nat b)" "crc_highs ! b = crc_byte (of_nat (16 * b))" if "b < 16" for b
  proof -
    have b: "b \<in> {0, 1, 2, 3, 4, 5, 6, 7, 8, 9, 10, 11, 12, 13, 14, 15}" using that by (simp only: insert_iff empty_iff) presburger
    show "crc_lows ! b = crc_byte (of_nat b)" unfolding crc_lows_eq [symmetric] using b by auto
    show "crc_highs ! b = crc_byte (of_nat (16 * b))" unfolding crc_highs_eq [symmetric] using b by auto
  qed
  have "crc32_table ! i = (crc32_table[187 := 0x5CB36A04]) ! i" using False by simp
  also have "\<dots> = concat (map (\<lambda>h. map (\<lambda>l. h XOR l) crc_lows) crc_highs) ! (16 * ?a + ?b)"
    using crc_rows_eq ab(1) by simp
  also have "\<dots> = crc_highs ! ?a XOR crc_lows ! ?b"
    using ab by (intro concat_rows_nth) (simp_all add: crc_lows_def crc_highs_def)
  also have "\<dots> = crc_byte (of_nat (16 * ?a) XOR of_nat ?b)" using l ab by (simp add: crc_byte_xor)
  also have "\<dots> = crc_byte (of_nat i)" using of_nat_row [OF ab(3,2)] ab(1) by simp
  finally show ?thesis using False by simp
qed

text \<open>The top byte of an entry tells the entry.\<close>

lemma crc_byte_top:
  assumes "i < 256" and "drop_bit 24 (crc_byte (of_nat i)) = 0"
  shows "i = 0"
proof -
  have t: "list_all (\<lambda>c. drop_bit 24 c \<noteq> 0) (tl crc32_table)" by (simp add: crc32_table_def)
  have e: "drop_bit 24 (crc32_table ! i) = drop_bit 24 (crc_byte (of_nat i))"
  proof (cases "i = 187")
    case True
    have "crc_byte 187 = 0x5CB36A04" by (simp add: crc_byte_unfold crc_bit_def CRC32_POLYNOMIAL_def)
    then show ?thesis using crc32_table_nth [of 187] True by simp
  qed (simp add: crc32_table_nth assms(1))
  have "length crc32_table = 256" by (simp add: crc32_table_def)
  then have "i \<noteq> 0 \<Longrightarrow> crc32_table ! i \<in> set (tl crc32_table)"
    using assms(1) nth_tl [of "i - 1" crc32_table] nth_mem [of "i - 1" "tl crc32_table"] by simp
  then show ?thesis using t assms(2) e by (auto simp: list_all_iff)
qed

lemma u32_xor_zero:
  assumes "a XOR b = (0 :: u32)"
  shows "a = b"
proof -
  have "(a XOR b) XOR b = b" using assms by simp
  then show ?thesis by (simp add: xor.assoc)
qed

lemma u32_xor_cancel: "a XOR x = a XOR y \<Longrightarrow> x = (y :: u32)"
  by (metis xor.assoc xor.left_neutral xor_self_eq)

lemma drop_ucast_byte [simp]: "drop_bit 8 (ucast (b :: u8) :: u32) = 0"
  by (rule bit_word_eqI) (auto simp: bit_simps dest: bit_imp_le_length)

lemma drop_high_zero: "drop_bit 24 (drop_bit 8 x) = (0 :: u32)"
  by (rule bit_word_eqI) (auto simp: bit_simps dest: bit_imp_le_length)

lemma crc32_table_top_inj:
  assumes "i < 256" and "j < 256" and "drop_bit 24 (crc32_table ! i) = drop_bit 24 (crc32_table ! j)"
  shows "i = j"
proof -
  have t: "drop_bit 24 (crc32_table ! k) = drop_bit 24 (crc_byte (of_nat k))" if "k < 256" for k
  proof (cases "k = 187")
    case True
    have "crc_byte 187 = 0x5CB36A04" by (simp add: crc_byte_unfold crc_bit_def CRC32_POLYNOMIAL_def)
    then show ?thesis using crc32_table_nth [of 187] True by simp
  qed (simp add: crc32_table_nth that)
  let ?x = "of_nat i XOR of_nat j :: u32"
  have "drop_bit 24 (crc_byte ?x) = 0" using t assms by (simp add: crc_byte_xor drop_bit_xor)
  moreover have "unat ?x < 256"
  proof -
    have "?x = take_bit 8 (of_nat i) XOR take_bit 8 (of_nat j)"
      using assms by (simp add: take_bit_of_nat take_bit_nat_eq_self)
    then have "?x = take_bit 8 ?x" by simp
    then have "unat ?x = take_bit 8 (unat ?x)" by (metis unsigned_take_bit_eq)
    then show ?thesis using take_bit_nat_less_exp [of 8 "unat ?x"] by simp
  qed
  ultimately have "unat ?x = 0" using crc_byte_top [of "unat ?x"] by simp
  then have "?x = 0" by (simp add: unat_eq_0)
  then have "of_nat i = (of_nat j :: u32)" by (rule u32_xor_zero)
  then have "unat (of_nat i :: u32) = unat (of_nat j :: u32)" by (rule arg_cong)
  moreover have "unat (of_nat k :: u32) = k" if "k < 256" for k using that by (intro unat_of_nat_u32) simp
  ultimately show ?thesis using assms(1,2) by metis
qed

section \<open>The code against the reference\<close>

text \<open>The entries a message reaches.\<close>

fun crc_entries :: "u32 \<Rightarrow> bytes \<Rightarrow> nat list" where
  "crc_entries crc [] = []"
| "crc_entries crc (b # bs) = unat ((crc XOR ucast b) AND 0xFF) # crc_entries (crc_table_step crc32_table b crc) bs"

lemma entry_bound: "unat (x AND 0xFF :: u32) < 256"
proof -
  have "unat (x AND 0xFF) = take_bit 8 (unat x)" by (simp only: ff_mask take_bit_eq_mask [symmetric] unsigned_take_bit_eq)
  then show ?thesis using take_bit_nat_less_exp [of 8 "unat x"] by simp
qed

lemma crc_step_reference:
  assumes "unat ((crc XOR ucast b) AND 0xFF :: u32) \<noteq> 187"
  shows "crc_table_step crc32_table b crc = crc_byte (crc XOR ucast b)"
  using assms crc_byte_split [of "crc XOR ucast b"] by (simp add: crc_table_step_def crc32_table_nth [OF entry_bound])

lemma crc_fold_reference:
  "187 \<notin> set (crc_entries crc bs) \<Longrightarrow>
    fold (crc_table_step crc32_table) bs crc = fold (\<lambda>b crc. crc_byte (crc XOR ucast b)) bs crc"
proof (induction bs arbitrary: crc)
  case (Cons b bs)
  have "crc_table_step crc32_table b crc = crc_byte (crc XOR ucast b)" using Cons.prems by (intro crc_step_reference) auto
  then show ?case using Cons by simp
qed simp

lemma crc32_compute_reference:
  "bs \<noteq> [] \<Longrightarrow> 187 \<notin> set (crc_entries 0xFFFFFFFF bs) \<Longrightarrow> crc32_compute (Some bs) = crc_spec bs"
  by (simp add: crc32_compute_def crc_spec_def crc_fold_reference)

text \<open>A message that reaches the wrong entry with its last byte gets a wrong sum.\<close>

lemma crc_byte_187: "crc_byte 187 = 0x5CB36A04"
  by (simp add: crc_byte_unfold crc_bit_def CRC32_POLYNOMIAL_def)

lemma crc_step_wrong:
  assumes "unat ((crc XOR ucast b) AND 0xFF :: u32) = 187"
  shows "crc_table_step crc32_table b crc = crc_byte (crc XOR ucast b) XOR 0x6000"
proof -
  have "(crc XOR ucast b) AND 0xFF = 187" unfolding word_unat_eq_iff using assms by (rule trans) simp
  then have "crc_byte (crc XOR ucast b) = 0x5CB36A04 XOR drop_bit 8 crc"
    using crc_byte_split [of "crc XOR ucast b"] by (simp only: crc_byte_187 drop_bit_xor drop_ucast_byte xor.right_neutral)
  moreover have "crc_table_step crc32_table b crc = 0x5CB30A04 XOR drop_bit 8 crc"
    unfolding crc_table_step_def assms using crc32_table_nth [of 187] by simp
  moreover have "(0x5CB36A04 XOR x) XOR 0x6000 = 0x5CB30A04 XOR x" for x :: u32
  proof -
    have "(0x5CB36A04 XOR x) XOR 0x6000 = (0x5CB36A04 XOR 0x6000) XOR x" by (simp only: xor.assoc xor.commute xor.left_commute)
    then show ?thesis by simp
  qed
  ultimately show ?thesis by (simp only:)
qed

lemma crc32_compute_wrong:
  assumes "187 \<notin> set (crc_entries 0xFFFFFFFF bs)"
    and "unat ((fold (crc_table_step crc32_table) bs 0xFFFFFFFF XOR ucast b) AND 0xFF) = 187"
  shows "crc32_compute (Some (bs @ [b])) \<noteq> crc_spec (bs @ [b])"
proof
  define c where "c = fold (\<lambda>b crc. crc_byte (crc XOR ucast b)) bs 0xFFFFFFFF"
  have f: "fold (crc_table_step crc32_table) bs 0xFFFFFFFF = c" using crc_fold_reference [OF assms(1)] by (simp only: c_def)
  assume "crc32_compute (Some (bs @ [b])) = crc_spec (bs @ [b])"
  then have "0xFFFFFFFF XOR crc_table_step crc32_table b c = 0xFFFFFFFF XOR crc_byte (c XOR ucast b)"
    by (simp add: crc32_compute_def crc_spec_def f c_def [symmetric] xor.commute)
  then have "crc_table_step crc32_table b c = crc_byte (c XOR ucast b)" by (rule u32_xor_cancel)
  then have "crc_byte (c XOR ucast b) XOR 0x6000 = crc_byte (c XOR ucast b) XOR 0"
    using crc_step_wrong [of c b] assms(2) f by (simp only: xor.right_neutral)
  then have "(0x6000 :: u32) = 0" by (rule u32_xor_cancel)
  then show False by simp
qed

section \<open>Errors that are detected\<close>

text \<open>Going back: what \<open>m\<close> more bytes leave of the register determines the entry of this one.\<close>

lemma crc_step_back:
  assumes "m \<le> 24" and "drop_bit m (crc_table_step crc32_table b c) = drop_bit m (crc_table_step crc32_table b' c')"
  shows "unat ((c XOR ucast b) AND 0xFF) = unat ((c' XOR ucast b') AND 0xFF) \<and> drop_bit (m + 8) c = drop_bit (m + 8) c'"
proof -
  let ?i = "unat ((c XOR ucast b) AND 0xFF)" and ?j = "unat ((c' XOR ucast b') AND 0xFF)"
  have dd: "drop_bit (24 - m) (drop_bit m x) = drop_bit 24 x" for x :: u32 using assms(1) by (simp add: drop_bit_drop_bit)
  have "drop_bit (24 - m) (drop_bit m (crc_table_step crc32_table b c)) = drop_bit (24 - m) (drop_bit m (crc_table_step crc32_table b' c'))"
    using assms(2) by simp
  then have "drop_bit 24 (crc32_table ! ?i) = drop_bit 24 (crc32_table ! ?j)"
    unfolding dd by (simp only: crc_table_step_def drop_bit_xor drop_high_zero xor.right_neutral)
  then have i: "?i = ?j" using crc32_table_top_inj entry_bound by blast
  moreover have "drop_bit m (drop_bit 8 c) = drop_bit m (drop_bit 8 c')"
  proof -
    have "drop_bit m (crc32_table ! ?i) XOR drop_bit m (drop_bit 8 c) = drop_bit m (crc32_table ! ?j) XOR drop_bit m (drop_bit 8 c')"
      using assms(2) by (simp only: crc_table_step_def drop_bit_xor)
    then show ?thesis unfolding i by (rule u32_xor_cancel)
  qed
  ultimately show ?thesis by (simp add: drop_bit_drop_bit)
qed

lemma crc_fold_back:
  assumes "length xs = length ys" and "length xs + k \<le> 4"
    and "drop_bit (8 * k) (fold (crc_table_step crc32_table) xs c) = drop_bit (8 * k) (fold (crc_table_step crc32_table) ys c')"
  shows "crc_entries c xs = crc_entries c' ys \<and> drop_bit (8 * (k + length xs)) c = drop_bit (8 * (k + length xs)) c'"
  using assms
proof (induction xs ys arbitrary: c c' rule: list_induct2)
  case (Cons x xs y ys)
  have ih: "crc_entries (crc_table_step crc32_table x c) xs = crc_entries (crc_table_step crc32_table y c') ys"
    "drop_bit (8 * (k + length xs)) (crc_table_step crc32_table x c) = drop_bit (8 * (k + length xs)) (crc_table_step crc32_table y c')"
    using Cons.IH [of "crc_table_step crc32_table x c" "crc_table_step crc32_table y c'"] Cons.prems by simp_all
  then show ?case using crc_step_back [OF _ ih(2)] Cons.prems(1) by (simp add: algebra_simps)
qed simp

lemma ucast_entry_inj:
  assumes "unat ((c XOR ucast x) AND 0xFF :: u32) = unat ((c XOR ucast y) AND 0xFF)"
  shows "x = (y :: u8)"
proof -
  have "(c XOR ucast x) AND mask 8 = (c XOR ucast y) AND (mask 8 :: u32)" using assms by (simp only: ff_mask word_unat_eq_iff)
  then have m: "bit ((c XOR ucast x) AND mask 8) n = bit ((c XOR ucast y) AND (mask 8 :: u32)) n" for n by simp
  show ?thesis
  proof (rule bit_word_eqI)
    fix n
    assume "n < LENGTH(8)"
    then show "bit x n = bit y n" using m [of n] by (auto simp: bit_simps)
  qed
qed

lemma crc_entries_inj: "length xs = length ys \<Longrightarrow> crc_entries c xs = crc_entries c ys \<Longrightarrow> xs = ys"
proof (induction xs ys arbitrary: c rule: list_induct2)
  case (Cons x xs y ys)
  have "x = y" using Cons.prems by (auto intro: ucast_entry_inj)
  then show ?case using Cons by simp
qed simp

text \<open>One step is injective in the register.\<close>

lemma crc_fold_inj: "fold (crc_table_step crc32_table) bs c = fold (crc_table_step crc32_table) bs c' \<Longrightarrow> c = c'"
proof (induction bs arbitrary: c c')
  case (Cons b bs)
  have "crc_table_step crc32_table b c = crc_table_step crc32_table b c'" using Cons by simp
  then have e: "unat ((c XOR ucast b) AND 0xFF) = unat ((c' XOR ucast b) AND 0xFF)" "drop_bit 8 c = drop_bit 8 c'"
    using crc_step_back [of 0 b c b c'] by simp_all
  show ?case
  proof (rule bit_word_eqI)
    fix n
    assume "n < LENGTH(32)"
    show "bit c n = bit c' n"
    proof (cases "n < 8")
      case True
      have "(c XOR ucast b) AND mask 8 = (c' XOR ucast b) AND (mask 8 :: u32)" using e(1) by (simp only: ff_mask word_unat_eq_iff)
      then have "bit ((c XOR ucast b) AND mask 8) n = bit ((c' XOR ucast b) AND mask 8) n" by simp
      then show ?thesis using True by (auto simp: bit_simps)
    next
      case False
      have "bit (drop_bit 8 c) (n - 8) = bit (drop_bit 8 c') (n - 8)" using e(2) by simp
      then show ?thesis using False by (simp add: bit_drop_bit_eq)
    qed
  qed
qed simp

text \<open>Two messages that differ within four consecutive bytes have different sums.\<close>

lemma crc32_detects_burst:
  assumes "length xs = length ys" and "length xs \<le> 4" and "xs \<noteq> ys"
  shows "crc32_compute (Some (as @ xs @ bs)) \<noteq> crc32_compute (Some (as @ ys @ bs))"
proof
  assume e: "crc32_compute (Some (as @ xs @ bs)) = crc32_compute (Some (as @ ys @ bs))"
  let ?c = "fold (crc_table_step crc32_table) as 0xFFFFFFFF"
  have n: "xs \<noteq> []" "ys \<noteq> []" using assms(1,3) by auto
  have "fold (crc_table_step crc32_table) bs (fold (crc_table_step crc32_table) xs ?c)
      = fold (crc_table_step crc32_table) bs (fold (crc_table_step crc32_table) ys ?c)"
    using e n by (simp add: crc32_compute_def) (metis u32_xor_cancel xor.commute)
  then have "fold (crc_table_step crc32_table) xs ?c = fold (crc_table_step crc32_table) ys ?c" by (rule crc_fold_inj)
  then have "crc_entries ?c xs = crc_entries ?c ys" using crc_fold_back [OF assms(1), of 0 ?c ?c] assms(2) by simp
  then show False using crc_entries_inj [OF assms(1)] assms(3) by blast
qed

end
