(* ===== verification/Flash_Layout.thy ===== *)
theory Flash_Layout
  imports Fw_Crc
begin

text \<open>
  Flash layout and firmware images of \<open>mini-firmware/src/firmware_layout.c\<close>: the region table, the
  sectors of a device with their wear, and the headers of images and volumes.  The used slots of
  the region table are one list.  Sums of 32-bit values wrap as in the code.  The device keeps
  no contents: a read gives zeros.
\<close>

section \<open>State\<close>

definition SECTOR_SIZE :: u32 where "SECTOR_SIZE = 4096"
definition FLASH_PAGE_SIZE :: u32 where "FLASH_PAGE_SIZE = 256"
definition MAX_SECTORS :: nat where "MAX_SECTORS = 128"
definition MAX_FLASH_REGIONS :: nat where "MAX_FLASH_REGIONS = 16"
definition FW_MAGIC :: u32 where "FW_MAGIC = 0x5F46574D"
definition FLASH_DESC_MAGIC :: u32 where "FLASH_DESC_MAGIC = 0x0FF0A55A"
definition FLASH_REGION_DESCRIPTOR :: u32 where "FLASH_REGION_DESCRIPTOR = 0"
definition UNUSED_SECTOR :: u32 where "UNUSED_SECTOR = 0xFFFFFFFF"

record FlashRegion =
  flr_offset :: u32
  flr_size :: u32
  flr_type :: u32
  flr_read_permissions :: u8
  flr_write_permissions :: u8
  flr_is_locked :: bool
  flr_crc32 :: u32
  flr_crc32_valid :: bool

record FlashDescriptor =
  fld_magic :: u32
  fld_flash_size :: u32
  fld_sector_size :: u32
  fld_regions :: "FlashRegion list"
  fld_descriptor_valid :: bool

record FlashDevice =
  fdv_size :: u32
  fdv_sector_size :: u32
  fdv_sectors :: "u32 list"
  fdv_erase_count :: "u32 list"
  fdv_write_count :: "u32 list"
  fdv_total_erase_count :: u32
  fdv_max_erase_cycles :: u32

record FirmwareSection =
  fse_offset :: u32
  fse_size :: u32

record FirmwareImage =
  fim_base_addr :: u32
  fim_entry_point :: u32
  fim_text :: FirmwareSection
  fim_rodata :: FirmwareSection
  fim_data :: FirmwareSection
  fim_bss :: FirmwareSection
  fim_fw_magic :: u32
  fim_crc32 :: u32
  fim_image_size :: u32
  fim_min_hardware_version :: u32

section \<open>Flash descriptor\<close>

definition flash_desc_init :: "u32 \<Rightarrow> FlashDescriptor option" where
  "flash_desc_init flash_size =
     (if flash_size = 0 then None
      else Some \<lparr>fld_magic = FLASH_DESC_MAGIC, fld_flash_size = flash_size, fld_sector_size = SECTOR_SIZE, fld_regions = [],
                 fld_descriptor_valid = True\<rparr>)"

definition flash_desc_add_region :: "FlashDescriptor \<Rightarrow> u32 \<Rightarrow> u32 \<Rightarrow> u32 \<Rightarrow> FlashDescriptor \<times> bool" where
  "flash_desc_add_region desc ty off sz =
     (if sz = 0 then (desc, False)
      else if length (fld_regions desc) \<ge> MAX_FLASH_REGIONS then (desc, False)
      else if off + sz > fld_flash_size desc then (desc, False)
      else (desc\<lparr>fld_regions := fld_regions desc @
                 [\<lparr>flr_offset = off, flr_size = sz, flr_type = ty, flr_read_permissions = 0xFF,
                   flr_write_permissions = (if ty = FLASH_REGION_DESCRIPTOR then 0 else 0xFF),
                   flr_is_locked = (ty = FLASH_REGION_DESCRIPTOR), flr_crc32 = 0, flr_crc32_valid = False\<rparr>]\<rparr>, True))"

definition flash_desc_find_region :: "FlashDescriptor option \<Rightarrow> u32 \<Rightarrow> FlashRegion option" where
  "flash_desc_find_region desc ty = (case desc of None \<Rightarrow> None | Some d \<Rightarrow> find (\<lambda>r. flr_type r = ty) (fld_regions d))"

definition flash_overlap :: "FlashRegion \<Rightarrow> FlashRegion \<Rightarrow> bool" where
  "flash_overlap a b \<longleftrightarrow> flr_offset a < flr_offset b + flr_size b \<and> flr_offset b < flr_offset a + flr_size a"

fun flash_regions_ok :: "u32 \<Rightarrow> FlashRegion list \<Rightarrow> bool" where
  "flash_regions_ok flash_size [] = True"
| "flash_regions_ok flash_size (a # rs) =
     (if flr_offset a + flr_size a > flash_size then False
      else if list_ex (flash_overlap a) rs then False
      else flash_regions_ok flash_size rs)"

definition flash_desc_validate :: "FlashDescriptor option \<Rightarrow> bool" where
  "flash_desc_validate desc =
     (case desc of None \<Rightarrow> False
      | Some d \<Rightarrow> if fld_magic d \<noteq> FLASH_DESC_MAGIC then False else flash_regions_ok (fld_flash_size d) (fld_regions d))"

section \<open>Flash device\<close>

definition flash_init :: "u32 \<Rightarrow> FlashDevice option" where
  "flash_init total_size =
     (if total_size = 0 then None
      else let n = (if unat (total_size div SECTOR_SIZE) > MAX_SECTORS then MAX_SECTORS else unat (total_size div SECTOR_SIZE))
           in Some \<lparr>fdv_size = total_size, fdv_sector_size = SECTOR_SIZE,
                    fdv_sectors = map of_nat [0..<n] @ replicate (MAX_SECTORS - n) UNUSED_SECTOR,
                    fdv_erase_count = replicate MAX_SECTORS 0, fdv_write_count = replicate MAX_SECTORS 0,
                    fdv_total_erase_count = 0, fdv_max_erase_cycles = 100000\<rparr>)"

definition sector_usable :: "FlashDevice \<Rightarrow> nat \<Rightarrow> bool" where
  "sector_usable dev i \<longleftrightarrow> i < MAX_SECTORS \<and> fdv_sectors dev ! i \<noteq> UNUSED_SECTOR"

text \<open>The chunks of a read: zeros up to the end of each sector, until the last of 128 sectors.\<close>

function flash_read_loop :: "nat \<Rightarrow> nat \<Rightarrow> nat \<Rightarrow> nat \<Rightarrow> nat \<Rightarrow> bytes \<Rightarrow> bytes" where
  "flash_read_loop sector_size sector sector_offset remaining pos buf =
     (if remaining = 0 \<or> sector_offset \<ge> sector_size then buf
      else let avail = sector_size - sector_offset; chunk = (if remaining < avail then remaining else avail);
               buf1 = blit buf pos (zeros chunk)
           in if sector + 1 \<ge> MAX_SECTORS then buf1
              else flash_read_loop sector_size (sector + 1) 0 (remaining - chunk) (pos + chunk) buf1)"
  by pat_completeness auto
termination
  by (relation "measure (\<lambda>(sector_size, sector, sector_offset, remaining, pos, buf). remaining)")
    (auto split: if_splits)

declare flash_read_loop.simps [simp del]

definition flash_read :: "FlashDevice \<Rightarrow> u32 \<Rightarrow> bytes option \<Rightarrow> u32 \<Rightarrow> (bytes option \<times> bool) c_result" where
  "flash_read dev off buf len =
     (case buf of None \<Rightarrow> Returned (buf, False)
      | Some b \<Rightarrow>
          if len = 0 then Returned (buf, False)
          else if off + len > fdv_size dev then Returned (buf, False)
          else if fdv_sector_size dev = 0 then Undefined
          else if \<not> sector_usable dev (unat (off div fdv_sector_size dev)) then Returned (buf, False)
          else if unat len > length b then Undefined
          else Returned (Some (flash_read_loop (unat (fdv_sector_size dev)) (unat (off div fdv_sector_size dev))
                 (unat (off mod fdv_sector_size dev)) (unat len) 0 b), True))"

definition flash_program_page :: "FlashDevice \<Rightarrow> u32 \<Rightarrow> bytes option \<Rightarrow> u32 \<Rightarrow> bool c_result" where
  "flash_program_page dev off buf len =
     (case buf of None \<Rightarrow> Returned False
      | Some _ \<Rightarrow>
          if len > FLASH_PAGE_SIZE then Returned False
          else if off + len > fdv_size dev then Returned False
          else if fdv_sector_size dev = 0 then Undefined
          else Returned (sector_usable dev (unat (off div fdv_sector_size dev))))"

definition flash_write :: "FlashDevice \<Rightarrow> u32 \<Rightarrow> bytes option \<Rightarrow> u32 \<Rightarrow> (FlashDevice \<times> bool) c_result" where
  "flash_write dev off buf len =
     (case buf of None \<Rightarrow> Returned (dev, False)
      | Some _ \<Rightarrow>
          if len = 0 then Returned (dev, False)
          else if off + len > fdv_size dev then Returned (dev, False)
          else if fdv_sector_size dev = 0 then Undefined
          else let sector = unat (off div fdv_sector_size dev) in
               if \<not> sector_usable dev sector then Returned (dev, False)
               else let dev1 = dev\<lparr>fdv_write_count := (fdv_write_count dev)[sector := fdv_write_count dev ! sector + 1]\<rparr>
                    in (case flash_program_page dev1 off buf len of
                          Returned ok \<Rightarrow> Returned (dev1, ok) | Undefined \<Rightarrow> Undefined | Diverges \<Rightarrow> Diverges))"

definition flash_erase_sector :: "FlashDevice \<Rightarrow> u32 \<Rightarrow> FlashDevice \<times> bool" where
  "flash_erase_sector dev sector_index =
     (let i = unat sector_index in
      if \<not> sector_usable dev i then (dev, False)
      else if fdv_erase_count dev ! i \<ge> fdv_max_erase_cycles dev then (dev, False)
      else (dev\<lparr>fdv_erase_count := (fdv_erase_count dev)[i := fdv_erase_count dev ! i + 1],
               fdv_total_erase_count := fdv_total_erase_count dev + 1,
               fdv_write_count := (fdv_write_count dev)[i := 0]\<rparr>, True))"

section \<open>Wear levelling\<close>

definition least_worn_step :: "FlashDevice \<Rightarrow> nat \<Rightarrow> u32 \<times> u32 \<Rightarrow> u32 \<times> u32" where
  "least_worn_step dev i s =
     (case s of (best_sector, min_erases) \<Rightarrow>
        if sector_usable dev i \<and> fdv_erase_count dev ! i < min_erases then (of_nat i, fdv_erase_count dev ! i) else s)"

definition flash_find_least_worn_sector :: "FlashDevice option \<Rightarrow> u32" where
  "flash_find_least_worn_sector dev =
     (case dev of None \<Rightarrow> UNUSED_SECTOR
      | Some d \<Rightarrow> fst (fold (least_worn_step d) [0..<MAX_SECTORS] (UNUSED_SECTOR, 0xFFFFFFFF)))"

definition flash_should_relocate :: "FlashDevice option \<Rightarrow> u32 \<Rightarrow> bool" where
  "flash_should_relocate dev sector =
     (case dev of None \<Rightarrow> False
      | Some d \<Rightarrow>
          if \<not> sector_usable d (unat sector) then False
          else if fdv_erase_count d ! unat sector > fdv_max_erase_cycles d * 80 div 100 then True
          else let used = filter (sector_usable d) [0..<MAX_SECTORS];
                   tot = sum_list (map (\<lambda>i. fdv_erase_count d ! i) used); n = of_nat (length used)
               in if n = 0 then False else fdv_erase_count d ! unat sector > tot div n * 2)"

section \<open>Images and volumes\<close>

definition fw_validate_header :: "FirmwareImage option \<Rightarrow> bool" where
  "fw_validate_header img =
     (case img of None \<Rightarrow> False
      | Some m \<Rightarrow>
          if fim_fw_magic m \<noteq> FW_MAGIC then False
          else if fim_base_addr m = 0 then False
          else if fim_entry_point m < fim_base_addr m then False
          else let text_end = fse_offset (fim_text m) + fse_size (fim_text m);
                   rodata_end = fse_offset (fim_rodata m) + fse_size (fim_rodata m);
                   data_end = fse_offset (fim_data m) + fse_size (fim_data m)
               in if rodata_end > 0 \<and> text_end > rodata_end then False
                  else if data_end > 0 \<and> rodata_end > data_end then False else True)"

definition fw_find_entry_point :: "FirmwareImage option \<Rightarrow> u32" where
  "fw_find_entry_point img = (case img of None \<Rightarrow> 0 | Some m \<Rightarrow> if \<not> fw_validate_header img then 0 else fim_entry_point m)"

definition fw_image_bytes :: "FirmwareImage \<Rightarrow> bytes" where
  "fw_image_bytes m = concat (map le32_list
     ([fim_base_addr m, fim_entry_point m] @ concat (map (\<lambda>s. [fse_offset s, fse_size s]) [fim_text m, fim_rodata m, fim_data m, fim_bss m])
      @ [fim_fw_magic m, fim_crc32 m, fim_image_size m, fim_min_hardware_version m]))"

text \<open>The sum is taken over everything but the last field, and so over its own field.\<close>

definition fw_verify_crc32 :: "FirmwareImage option \<Rightarrow> bool" where
  "fw_verify_crc32 img =
     (case img of None \<Rightarrow> False
      | Some m \<Rightarrow> crc32_compute (Some (take (length (fw_image_bytes m) - 4) (fw_image_bytes m))) = fim_crc32 m)"

text \<open>
  A volume header is the memory from its address on.  The length it names, at offset 44, decides
  how many bytes are summed, one by one.
\<close>

definition sizeof_FirmwareVolumeHeader :: nat where "sizeof_FirmwareVolumeHeader = 68"

definition fv_validate_header :: "bytes option \<Rightarrow> bool c_result" where
  "fv_validate_header hdr =
     (case hdr of None \<Rightarrow> Returned False
      | Some h \<Rightarrow>
          if length h < sizeof_FirmwareVolumeHeader then Undefined
          else if take 16 h \<noteq> zeros 16 then Returned False
          else if le32_at h 36 \<noteq> 0x4856465F then Returned False
          else let header_length = unat (le16 (h ! 44) (h ! 45))
               in if header_length < sizeof_FirmwareVolumeHeader then Returned False
                  else if header_length > length h then Undefined
                  else Returned (sum_list (map ucast (take header_length h)) = (0 :: u16)))"

section \<open>Regions\<close>

definition region_fits :: "u32 \<Rightarrow> FlashRegion \<Rightarrow> bool" where
  "region_fits flash_size r \<longleftrightarrow> unat (flr_offset r) + unat (flr_size r) \<le> unat flash_size"

definition regions_disjoint :: "FlashRegion \<Rightarrow> FlashRegion \<Rightarrow> bool" where
  "regions_disjoint a b \<longleftrightarrow> {unat (flr_offset a)..<unat (flr_offset a) + unat (flr_size a)}
     \<inter> {unat (flr_offset b)..<unat (flr_offset b) + unat (flr_size b)} = {}"

lemma flash_overlap_iff:
  assumes "unat (flr_offset a) + unat (flr_size a) < 2 ^ 32" and "unat (flr_offset b) + unat (flr_size b) < 2 ^ 32"
    and "flr_size a \<noteq> 0" and "flr_size b \<noteq> 0"
  shows "flash_overlap a b \<longleftrightarrow> \<not> regions_disjoint a b"
proof -
  have p: "0 < unat (flr_size a)" "0 < unat (flr_size b)" using assms(3,4) by (simp_all add: unat_gt_0)
  have "flash_overlap a b \<longleftrightarrow> unat (flr_offset a) < unat (flr_offset b) + unat (flr_size b)
      \<and> unat (flr_offset b) < unat (flr_offset a) + unat (flr_size a)"
    using assms(1,2) by (simp add: flash_overlap_def word_less_nat_alt u32_add)
  then show ?thesis using p by (auto simp: regions_disjoint_def)
qed

text \<open>Without wrap-around validation is what it says: regions inside the flash and pairwise disjoint.\<close>

lemma flash_regions_ok_iff:
  assumes "\<forall>r \<in> set rs. flr_size r \<noteq> 0 \<and> unat (flr_offset r) + unat (flr_size r) < 2 ^ 32"
  shows "flash_regions_ok n rs \<longleftrightarrow> (\<forall>r \<in> set rs. region_fits n r) \<and> sorted_wrt regions_disjoint rs"
  using assms
proof (induction rs)
  case (Cons a rs)
  have "flr_offset a + flr_size a > n \<longleftrightarrow> \<not> region_fits n a"
    using Cons.prems by (simp add: region_fits_def word_less_nat_alt u32_add not_le)
  moreover have "list_ex (flash_overlap a) rs \<longleftrightarrow> (\<exists>b \<in> set rs. \<not> regions_disjoint a b)"
    using Cons.prems flash_overlap_iff [of a] by (auto simp: list_ex_iff)
  ultimately show ?case using Cons by auto
qed simp

text \<open>A region that wraps around the address space is added to any descriptor with room, and validates alone.\<close>

lemma flash_region_wraps:
  assumes "off + sz \<le> n" and "2 ^ 32 \<le> unat off + unat sz" and "n \<noteq> 0"
  shows "\<exists>d d'. flash_desc_init n = Some d \<and> flash_desc_add_region d ty off sz = (d', True)
    \<and> flash_desc_validate (Some d') \<and> (\<exists>r \<in> set (fld_regions d'). \<not> region_fits n r)"
proof -
  have "sz \<noteq> 0" using assms(2) unat_u32_bound [of off] by auto
  moreover have "\<not> unat off + unat sz \<le> unat n" using assms(2) unat_u32_bound [of n] by simp
  ultimately show ?thesis
    using assms by (simp add: flash_desc_init_def flash_desc_add_region_def MAX_FLASH_REGIONS_def flash_desc_validate_def region_fits_def not_less)
qed

section \<open>Wear\<close>

text \<open>The invariant of a device: its tables, and erase counts within the endurance limit.\<close>

definition usable_sectors :: "FlashDevice \<Rightarrow> nat set" where
  "usable_sectors dev = {i. sector_usable dev i}"

definition flash_wf :: "FlashDevice \<Rightarrow> bool" where
  "flash_wf dev \<longleftrightarrow> length (fdv_sectors dev) = 128 \<and> length (fdv_erase_count dev) = 128 \<and> length (fdv_write_count dev) = 128
     \<and> fdv_max_erase_cycles dev = 100000
     \<and> (\<forall>i < 128. fdv_erase_count dev ! i \<le> fdv_max_erase_cycles dev)
     \<and> (\<forall>i < 128. \<not> sector_usable dev i \<longrightarrow> fdv_erase_count dev ! i = 0)"

lemma finite_usable [simp]: "finite (usable_sectors dev)"
  by (rule finite_subset [of _ "{..<128}"]) (auto simp: usable_sectors_def sector_usable_def MAX_SECTORS_def)

lemma flash_init_wf: "flash_init n = Some dev \<Longrightarrow> flash_wf dev"
  by (auto simp: flash_init_def flash_wf_def Let_def MAX_SECTORS_def split: if_splits)

lemma flash_init_usable:
  assumes "flash_init n = Some dev"
  shows "usable_sectors dev = {..<min 128 (unat n div 4096)}"
proof -
  define m where "m = min 128 (unat n div 4096)"
  have u: "of_nat i \<noteq> UNUSED_SECTOR" if "i < 128" for i
  proof
    assume "of_nat i = UNUSED_SECTOR"
    then have "unat (of_nat i :: u32) = unat UNUSED_SECTOR" by simp
    then show False using unat_of_nat_u32 [of i] that by (simp add: UNUSED_SECTOR_def)
  qed
  have "unat (n div SECTOR_SIZE) = unat n div 4096" by (simp add: unat_div SECTOR_SIZE_def)
  then have "fdv_sectors dev = map of_nat [0..<m] @ replicate (128 - m) UNUSED_SECTOR"
    using assms by (auto simp: flash_init_def MAX_SECTORS_def m_def min_def Let_def split: if_splits)
  moreover have m: "m \<le> 128" by (simp add: m_def)
  moreover have "replicate (128 - m) UNUSED_SECTOR ! (i - m) = UNUSED_SECTOR" if "m \<le> i" "i < 128" for i
    using that m by (intro nth_replicate) linarith
  ultimately show ?thesis using u
    by (auto simp: usable_sectors_def sector_usable_def MAX_SECTORS_def nth_append not_less m_def [symmetric] intro: ccontr)
qed

lemma least_worn_fold:
  assumes "\<forall>i < 128. fdv_erase_count dev ! i < 0xFFFFFFFF" and "n \<le> 128"
  defines "S \<equiv> {i. i < n \<and> sector_usable dev i}"
  shows "case fold (least_worn_step dev) [0..<n] (UNUSED_SECTOR, 0xFFFFFFFF) of (best, mn) \<Rightarrow>
    if S = {} then best = UNUSED_SECTOR \<and> mn = 0xFFFFFFFF
    else unat best \<in> S \<and> mn = fdv_erase_count dev ! unat best \<and> (\<forall>i \<in> S. mn \<le> fdv_erase_count dev ! i)"
  using assms(2) unfolding S_def
proof (induction n)
  case (Suc n)
  obtain best mn where f: "fold (least_worn_step dev) [0..<n] (UNUSED_SECTOR, 0xFFFFFFFF) = (best, mn)" by fastforce
  let ?S = "{i. i < n \<and> sector_usable dev i}"
  have ih: "if ?S = {} then best = UNUSED_SECTOR \<and> mn = 0xFFFFFFFF
    else unat best \<in> ?S \<and> mn = fdv_erase_count dev ! unat best \<and> (\<forall>i \<in> ?S. mn \<le> fdv_erase_count dev ! i)"
    using Suc f by simp
  have S: "{i. i < Suc n \<and> sector_usable dev i} = (if sector_usable dev n then insert n ?S else ?S)" by (auto simp: less_Suc_eq)
  have lt: "fdv_erase_count dev ! n < 0xFFFFFFFF" using assms(1) Suc.prems by simp
  have n: "unat (of_nat n :: u32) = n" using Suc.prems by (intro unat_of_nat_u32) simp
  have g: "fold (least_worn_step dev) [0..<Suc n] (UNUSED_SECTOR, 0xFFFFFFFF) = least_worn_step dev n (best, mn)"
    using f by simp
  show ?case
  proof (cases "sector_usable dev n \<and> fdv_erase_count dev ! n < mn")
    case True
    then have "\<forall>i \<in> ?S. fdv_erase_count dev ! n \<le> fdv_erase_count dev ! i" using ih by (auto split: if_splits)
    then show ?thesis unfolding g S using True n by (simp add: least_worn_step_def)
  next
    case False
    show ?thesis
    proof (cases "sector_usable dev n")
      case usable: True
      have "?S \<noteq> {}"
      proof
        assume "?S = {}"
        then have "mn = 0xFFFFFFFF" using ih by (simp only: if_True)
        then show False using False usable lt by simp
      qed
      then have "unat best \<in> ?S \<and> mn = fdv_erase_count dev ! unat best \<and> (\<forall>i \<in> ?S. mn \<le> fdv_erase_count dev ! i)"
        using ih by (metis (no_types, lifting))
      then show ?thesis unfolding g S using False usable by (auto simp: least_worn_step_def)
    next
      case False
      then have "least_worn_step dev n (best, mn) = (best, mn)" by (simp add: least_worn_step_def)
      then show ?thesis unfolding g S if_not_P [OF False] using ih by (simp only: prod.case)
    qed
  qed
qed simp

text \<open>The least worn sector: a usable one whose count is minimal, if there is one.\<close>

lemma least_worn_correct:
  assumes "flash_wf dev"
  shows "if usable_sectors dev = {} then flash_find_least_worn_sector (Some dev) = UNUSED_SECTOR
    else unat (flash_find_least_worn_sector (Some dev)) \<in> usable_sectors dev
      \<and> (\<forall>i \<in> usable_sectors dev. fdv_erase_count dev ! unat (flash_find_least_worn_sector (Some dev)) \<le> fdv_erase_count dev ! i)"
proof -
  have b: "\<forall>i < 128. fdv_erase_count dev ! i < 0xFFFFFFFF"
    using assms by (auto simp: flash_wf_def intro: order.strict_trans1)
  have s: "{i. i < 128 \<and> sector_usable dev i} = usable_sectors dev" by (auto simp: usable_sectors_def sector_usable_def MAX_SECTORS_def)
  show ?thesis
    using least_worn_fold [OF b, of 128] unfolding s
    by (auto simp: flash_find_least_worn_sector_def MAX_SECTORS_def split: prod.splits if_splits)
qed

text \<open>Erasing the least worn sector, again and again.\<close>

definition wear_step :: "FlashDevice \<Rightarrow> FlashDevice \<times> bool" where
  "wear_step dev = flash_erase_sector dev (flash_find_least_worn_sector (Some dev))"

fun wear_run :: "nat \<Rightarrow> FlashDevice \<Rightarrow> FlashDevice \<times> bool" where
  "wear_run 0 dev = (dev, True)"
| "wear_run (Suc k) dev = (let (d1, ok1) = wear_run k dev; (d2, ok2) = wear_step d1 in (d2, ok1 \<and> ok2))"

definition erases :: "FlashDevice \<Rightarrow> nat \<Rightarrow> nat" where
  "erases dev i = unat (fdv_erase_count dev ! i)"

definition wear_inv :: "nat set \<Rightarrow> nat \<Rightarrow> FlashDevice \<Rightarrow> bool" where
  "wear_inv S k dev \<longleftrightarrow> flash_wf dev \<and> usable_sectors dev = S \<and> sum (erases dev) S = k \<and> fdv_total_erase_count dev = of_nat k
     \<and> (\<forall>i \<in> S. \<forall>j \<in> S. erases dev i \<le> erases dev j + 1)"

lemma wear_step_inv:
  assumes "wear_inv S k dev" and "k < card S * 100000"
  shows "snd (wear_step dev) \<and> wear_inv S (Suc k) (fst (wear_step dev))"
proof -
  have w: "flash_wf dev" "usable_sectors dev = S" "sum (erases dev) S = k" "fdv_total_erase_count dev = of_nat k"
    "\<forall>i \<in> S. \<forall>j \<in> S. erases dev i \<le> erases dev j + 1" using assms(1) by (simp_all add: wear_inv_def)
  have fin: "finite S" using w(2) finite_usable by metis
  have "S \<noteq> {}" using assms(2) by auto
  define b where "b = unat (flash_find_least_worn_sector (Some dev))"
  have b: "b \<in> S" "\<And>i. i \<in> S \<Longrightarrow> erases dev b \<le> erases dev i"
    using least_worn_correct [OF w(1)] \<open>S \<noteq> {}\<close> unfolding w(2) b_def [symmetric] by (auto simp: erases_def word_le_nat_alt)
  have u: "sector_usable dev b" "b < 128" using b(1) w(2) by (auto simp: usable_sectors_def sector_usable_def MAX_SECTORS_def)
  have lt: "erases dev b < 100000"
  proof (rule ccontr)
    assume "\<not> erases dev b < 100000"
    then have "100000 \<le> erases dev i" if "i \<in> S" for i using b(2) [OF that] by linarith
    then have "of_nat (card S) * 100000 \<le> sum (erases dev) S" by (intro sum_bounded_below)
    then show False using w(3) assms(2) by simp
  qed
  have c: "fdv_erase_count dev ! b < fdv_max_erase_cycles dev" using lt w(1) by (simp add: erases_def flash_wf_def word_less_nat_alt)
  let ?d = "dev\<lparr>fdv_erase_count := (fdv_erase_count dev)[b := fdv_erase_count dev ! b + 1],
      fdv_total_erase_count := fdv_total_erase_count dev + 1, fdv_write_count := (fdv_write_count dev)[b := 0]\<rparr>"
  have step: "wear_step dev = (?d, True)"
    using u c unfolding wear_step_def flash_erase_sector_def b_def [symmetric] by (simp add: Let_def not_le)
  have us: "sector_usable ?d i \<longleftrightarrow> sector_usable dev i" for i by (simp add: sector_usable_def)
  have l: "length (fdv_erase_count dev) = 128" using w(1) by (simp add: flash_wf_def)
  have inc: "unat (fdv_erase_count dev ! b + 1) = erases dev b + 1" using lt by (simp add: erases_def u32_add)
  have e: "erases ?d i = (if i = b then erases dev b + 1 else erases dev i)" for i
    using l u(2) inc by (simp add: erases_def nth_list_update)
  have "sum (erases ?d) S = Suc (sum (erases dev) S)"
  proof -
    have "sum (erases ?d) (S - {b}) = sum (erases dev) (S - {b})" by (intro sum.cong) (simp_all add: e)
    then show ?thesis using b(1) fin by (simp add: sum.remove e)
  qed
  moreover have "fdv_erase_count ?d ! i \<le> 100000" if "i < 128" for i
  proof -
    have "erases ?d i \<le> 100000" using that w(1) lt e [of i] by (auto simp: flash_wf_def erases_def word_le_nat_alt)
    then show ?thesis by (simp add: erases_def word_le_nat_alt)
  qed
  then have "flash_wf ?d" using w(1) u us by (auto simp: flash_wf_def nth_list_update)
  moreover have "\<forall>i \<in> S. \<forall>j \<in> S. erases ?d i \<le> erases ?d j + 1"
  proof (intro ballI)
    fix i j
    assume ij: "i \<in> S" "j \<in> S"
    then have "erases dev i \<le> erases dev j + 1" "erases dev b \<le> erases dev j" "erases dev i \<le> erases dev b + 1" using w(5) b by auto
    then show "erases ?d i \<le> erases ?d j + 1" unfolding e by simp
  qed
  ultimately show ?thesis using w step us by (simp add: wear_inv_def usable_sectors_def)
qed

lemma wear_run_inv:
  assumes "wear_inv S 0 dev" and "k \<le> card S * 100000"
  shows "snd (wear_run k dev) \<and> wear_inv S k (fst (wear_run k dev))"
  using assms(2)
proof (induction k)
  case 0
  then show ?case using assms(1) by simp
next
  case (Suc k)
  then show ?case using wear_step_inv [of S k "fst (wear_run k dev)"] by (simp add: case_prod_beta)
qed

lemma flash_init_wear:
  assumes "flash_init n = Some dev"
  shows "wear_inv (usable_sectors dev) 0 dev"
proof -
  have "erases dev i = 0" if "i < 128" for i
    using assms that by (auto simp: flash_init_def erases_def MAX_SECTORS_def Let_def split: if_splits)
  then have "erases dev i = 0" if "i \<in> usable_sectors dev" for i
    using that by (auto simp: usable_sectors_def sector_usable_def MAX_SECTORS_def)
  moreover have "fdv_total_erase_count dev = 0" using assms by (auto simp: flash_init_def Let_def split: if_splits)
  ultimately show ?thesis using flash_init_wf [OF assms] by (simp add: wear_inv_def)
qed

text \<open>Whatever was written, a page that is read is zeros.\<close>

lemma flash_read_zeros:
  assumes "flash_wf dev" and "fdv_sector_size dev = 4096" and "length b = unat len" and "0 < unat len"
    and "unat (off mod 4096) + unat len \<le> 4096" and "flash_read dev off (Some b) len = Returned (r, True)"
  shows "r = Some (zeros (unat len))"
proof -
  have "flash_read_loop 4096 s (unat (off mod 4096)) (unat len) 0 b = zeros (unat len)" for s
  proof -
    have m: "min (unat len) (4096 - unat (off mod 4096)) = unat len" using assms(5) by linarith
    have "(if unat len < 4096 - unat (off mod 4096) then unat len else 4096 - unat (off mod 4096)) = unat len" using assms(5) by auto
    moreover have "blit b 0 (zeros (unat len)) = zeros (unat len)" using assms(3) by (simp add: blit_def)
    moreover have "unat (off mod 4096) < 4096" using assms(4,5) by linarith
    ultimately show ?thesis using assms(4) by (subst flash_read_loop.simps) (simp add: Let_def flash_read_loop.simps [of _ _ _ 0])
  qed
  then show ?thesis using assms(2,3,6) by (auto simp: flash_read_def split: if_splits)
qed

lemma fw_crc32_ignores_hardware: "fw_verify_crc32 (Some (m\<lparr>fim_min_hardware_version := v\<rparr>)) = fw_verify_crc32 (Some m)"
  by (simp add: fw_verify_crc32_def fw_image_bytes_def le32_list_def)

end
