(* ===== verification/Fit_Image.thy ===== *)
theory Fit_Image
  imports Boot_Block Fdt_Roundtrip
begin

text \<open>
  The FIT images of \<open>mini-firmware/src/fit_image.c\<close>: a walk over the structure block of a flattened
  device tree, and the tables of images and configurations.  The used slots of a table are one
  list, strings are byte lists, the header is its 40 bytes.  A position is an offset into the
  blob; reading outside it is \<open>Undefined\<close>.  Whether \<open>malloc\<close> succeeds is a parameter.
\<close>

section \<open>State\<close>

definition FIT_MAX_IMAGES :: nat where "FIT_MAX_IMAGES = 16"
definition FIT_MAX_CONFIGS :: nat where "FIT_MAX_CONFIGS = 8"
definition FIT_COMP_NONE :: u32 where "FIT_COMP_NONE = 0"
definition fit_header_size :: nat where "fit_header_size = 40"

record FITImageNode =
  fin_data_size :: u32
  fin_load_address :: u32
  fin_entry_point :: u32
  fin_type :: u32
  fin_compression :: u32
  fin_description :: bytes
  fin_hash_sha256 :: bytes
  fin_verified :: bool

record FITConfigNode =
  fcn_name :: bytes
  fcn_kernel_desc :: bytes
  fcn_fdt_desc :: bytes
  fcn_is_default :: bool

record FITBlob =
  fib_fdt_header :: bytes
  fib_images :: "FITImageNode list"
  fib_configs :: "FITConfigNode list"
  fib_raw_data :: "bytes option"
  fib_raw_size :: u32
  fib_parsed :: bool

definition zero_fit_blob :: FITBlob where
  "zero_fit_blob = \<lparr>fib_fdt_header = zeros 40, fib_images = [], fib_configs = [], fib_raw_data = None, fib_raw_size = 0, fib_parsed = False\<rparr>"

section \<open>The structure block\<close>

definition fdt32_to_cpu :: "bytes \<Rightarrow> nat \<Rightarrow> u32" where
  "fdt32_to_cpu b p = be32 (b ! p) (b ! (p + 1)) (b ! (p + 2)) (b ! (p + 3))"

text \<open>
  The walk from \<open>p\<close> to the end.  A token may be read across the end, and a name beyond it; a
  property length within three of \<open>2 ^ 32\<close> is rounded up to zero.
\<close>

function fdt_walk :: "bytes \<Rightarrow> nat \<Rightarrow> nat \<Rightarrow> int \<Rightarrow> bool c_result" where
  "fdt_walk blob e p depth =
     (if \<not> p < e then Returned True
      else if p + 4 > length blob then Undefined
      else let token = fdt32_to_cpu blob p; p1 = p + 4 in
           if token = FDT_BEGIN_NODE
           then (case cstring_at blob p1 of None \<Rightarrow> Undefined
                 | Some name \<Rightarrow>
                     fdt_walk blob e (p1 + unat ((of_nat (length name) + 1 + 3 :: u32) AND NOT 3)) (depth + 1))
           else if token = FDT_END_NODE
           then if depth - 1 < 0 then Returned False else fdt_walk blob e p1 (depth - 1)
           else if token = FDT_PROP
           then if p1 + 8 > e then Returned False
                else if p1 + 8 > length blob then Undefined
                else let val_aligned = unat ((fdt32_to_cpu blob p1 + 3) AND NOT 3); p2 = p1 + 8
                     in if p2 + val_aligned > e then Returned False else fdt_walk blob e (p2 + val_aligned) depth
           else if token = FDT_NOP then fdt_walk blob e p1 depth
           else if token = FDT_END then Returned True
           else Returned False)"
  by pat_completeness auto
termination by (relation "measure (\<lambda>(blob, e, p, depth). e - p)") (auto simp: Let_def)

declare fdt_walk.simps [simp del]

definition fdt_walk_structure :: "bytes option \<Rightarrow> nat \<Rightarrow> u32 \<Rightarrow> bool \<Rightarrow> bool c_result" where
  "fdt_walk_structure blob start struct_size strings_blk =
     (case blob of None \<Rightarrow> Returned False
      | Some b \<Rightarrow> if \<not> strings_blk \<or> struct_size < 4 then Returned False else fdt_walk b (start + unat struct_size) start 0)"

section \<open>Parsing\<close>

text \<open>The sum of offset and size wraps; the tables stay empty.\<close>

definition fw_fit_parse :: "bool \<Rightarrow> FITBlob \<Rightarrow> bytes option \<Rightarrow> (FITBlob \<times> bool) c_result" where
  "fw_fit_parse mem fit blob =
     (case blob of None \<Rightarrow> Returned (fit, False)
      | Some b \<Rightarrow>
          if length b < fit_header_size then Returned (fit, False)
          else let fit1 = zero_fit_blob\<lparr>fib_fdt_header := take fit_header_size b\<rparr>; hdr = fib_fdt_header fit1 in
               if fdt32_to_cpu hdr 0 \<noteq> FDT_MAGIC then Returned (fit1, False)
               else if \<not> mem then Returned (fit1, False)
               else let fit2 = fit1\<lparr>fib_raw_data := Some b, fib_raw_size := of_nat (length b)\<rparr>;
                        off_struct = fdt32_to_cpu hdr 8; size_struct = fdt32_to_cpu hdr 36 in
                    if unat (off_struct + size_struct) > length b then Returned (fit2\<lparr>fib_raw_data := None\<rparr>, False)
                    else (case fdt_walk_structure blob (unat off_struct) size_struct True of
                            Returned True \<Rightarrow> Returned (fit2\<lparr>fib_parsed := True\<rparr>, True)
                          | Returned False \<Rightarrow> Returned (fit2\<lparr>fib_raw_data := None\<rparr>, False)
                          | Undefined \<Rightarrow> Undefined | Diverges \<Rightarrow> Diverges))"

section \<open>Images and configurations\<close>

definition fit_find_image :: "FITBlob option \<Rightarrow> bytes option \<Rightarrow> FITImageNode option" where
  "fit_find_image fit desc =
     (case (fit, desc) of (Some f, Some d) \<Rightarrow> find (\<lambda>i. fin_description i = d) (fib_images f) | _ \<Rightarrow> None)"

definition fit_find_config :: "FITBlob option \<Rightarrow> bytes option \<Rightarrow> FITConfigNode option" where
  "fit_find_config fit name =
     (case (fit, name) of (Some f, Some n) \<Rightarrow> find (\<lambda>c. fcn_name c = n) (fib_configs f) | _ \<Rightarrow> None)"

definition fit_default_config :: "FITBlob option \<Rightarrow> FITConfigNode option" where
  "fit_default_config fit =
     (case fit of None \<Rightarrow> None
      | Some f \<Rightarrow>
          (case find fcn_is_default (fib_configs f) of
             Some c \<Rightarrow> Some c
           | None \<Rightarrow> if length (fib_configs f) > 0 then Some (fib_configs f ! 0) else None))"

definition fit_add_image ::
  "FITBlob \<Rightarrow> bytes option \<Rightarrow> u32 \<Rightarrow> u32 \<Rightarrow> u32 \<Rightarrow> bytes option \<Rightarrow> u32 \<Rightarrow> (FITBlob \<times> bool) c_result" where
  "fit_add_image fit description ty load_addr ep data sz =
     (case description of None \<Rightarrow> Returned (fit, False)
      | Some d \<Rightarrow>
          if length (fib_images fit) \<ge> FIT_MAX_IMAGES then Returned (fit, False)
          else let img = (\<lambda>h. \<lparr>fin_data_size = sz, fin_load_address = load_addr, fin_entry_point = ep, fin_type = ty,
                              fin_compression = FIT_COMP_NONE, fin_description = take 63 d, fin_hash_sha256 = h, fin_verified = False\<rparr>);
                   added = (\<lambda>h. Returned (fit\<lparr>fib_images := fib_images fit @ [img h]\<rparr>, True))
               in (case data of None \<Rightarrow> added (zeros 32)
                   | Some bs \<Rightarrow>
                       if sz = 0 then added (zeros 32)
                       else if unat sz > length bs then Undefined
                       else added (the (vb_compute_image_hash (Some (take (unat sz) bs))))))"

definition fit_add_config ::
  "FITBlob \<Rightarrow> bytes option \<Rightarrow> bytes option \<Rightarrow> bytes option \<Rightarrow> bool \<Rightarrow> FITBlob \<times> bool" where
  "fit_add_config fit name kernel_desc fdt_desc is_default =
     (case name of None \<Rightarrow> (fit, False)
      | Some n \<Rightarrow>
          if length (fib_configs fit) \<ge> FIT_MAX_CONFIGS then (fit, False)
          else (fit\<lparr>fib_configs := fib_configs fit @
                  [\<lparr>fcn_name = take 31 n, fcn_kernel_desc = (case kernel_desc of None \<Rightarrow> [] | Some k \<Rightarrow> take 63 k),
                    fcn_fdt_desc = (case fdt_desc of None \<Rightarrow> [] | Some k \<Rightarrow> take 63 k), fcn_is_default = is_default\<rparr>]\<rparr>, True))"

text \<open>No data is hashed and no hash compared.\<close>

definition fit_verify_hashes :: "FITBlob \<Rightarrow> FITBlob \<times> bool" where
  "fit_verify_hashes fit =
     (fit\<lparr>fib_images := map (\<lambda>img. if fin_data_size img = 0 then img else img\<lparr>fin_verified := True\<rparr>) (fib_images fit)\<rparr>, True)"

section \<open>Facts\<close>

lemma fdt32_at:
  assumes "drop p blob = be32_bytes w @ r"
  shows "fdt32_to_cpu blob p = w \<and> p + 4 \<le> length blob \<and> drop (p + 4) blob = r"
proof -
  have l: "p + 4 \<le> length blob" using arg_cong [OF assms, of length] by simp
  have "blob ! (p + i) = be32_bytes w ! i" if "i < 4" for i
    using that arg_cong [OF assms, of "\<lambda>xs. xs ! i"] l by (simp add: nth_append)
  from this [of 0] this [of 1] this [of 2] this [of 3] have "fdt32_to_cpu blob p = w" by (simp add: fdt32_to_cpu_def be32_bytes_def)
  then show ?thesis using l drop_prefix [OF assms] by simp
qed

lemma fdt_walk_begin:
  assumes "drop p blob = be32_bytes FDT_BEGIN_NODE @ cell_pad (name @ [0]) @ r" and "0 \<notin> set name" and "length name < 2 ^ 30" and "p < e"
  shows "fdt_walk blob e p depth = fdt_walk blob e (p + 4 + cell_align (length name + 1)) (depth + 1)"
proof -
  note t = fdt32_at [OF assms(1)]
  have "cstring_at blob (p + 4) = Some name"
    using t assms(2) by (intro cstring_at_at) (auto simp: cell_pad_def)
  moreover have "unat ((of_nat (length name) + 1 + 3 :: u32) AND NOT 3) = cell_align (length name + 1)"
    using padded_length [of "length name + 1"] assms(3) by (simp add: ac_simps)
  ultimately show ?thesis using t assms(4) by (subst fdt_walk.simps) (simp add: Let_def)
qed

lemma fdt_walk_end_node:
  assumes "drop p blob = be32_bytes FDT_END_NODE @ r" and "p < e" and "0 < depth"
  shows "fdt_walk blob e p depth = fdt_walk blob e (p + 4) (depth - 1)"
  using fdt32_at [OF assms(1)] assms(2,3) by (subst fdt_walk.simps) (simp add: Let_def FDT_BEGIN_NODE_def FDT_END_NODE_def)

lemma fdt_walk_prop:
  assumes "drop p blob = enc_prop pr @ r" and "length (snd pr) < 2 ^ 31" and "p + length (enc_prop pr) \<le> e"
  shows "fdt_walk blob e p depth = fdt_walk blob e (p + length (enc_prop pr)) depth"
proof -
  have d: "drop p blob = be32_bytes FDT_PROP @ be32_bytes (of_nat (length (snd pr))) @ be32_bytes (fst pr) @ cell_pad (snd pr) @ r"
    using assms(1) by (simp add: enc_prop_def)
  note t = fdt32_at [OF d]
  have d1: "drop (p + 4) blob = be32_bytes (of_nat (length (snd pr))) @ be32_bytes (fst pr) @ cell_pad (snd pr) @ r" using t by blast
  note u = fdt32_at [OF d1]
  have d2: "drop (p + 4 + 4) blob = be32_bytes (fst pr) @ cell_pad (snd pr) @ r" using u by blast
  have l: "p + 12 \<le> length blob" using fdt32_at [OF d2] by simp
  have "unat ((of_nat (length (snd pr)) + 3 :: u32) AND NOT 3) = cell_align (length (snd pr))" by (rule padded_length [OF assms(2)])
  then show ?thesis using t u l assms(3)
    by (subst fdt_walk.simps) (simp add: Let_def FDT_BEGIN_NODE_def FDT_END_NODE_def FDT_PROP_def ac_simps)
qed

lemma fdt_walk_props:
  assumes "drop p blob = concat (map enc_prop ps) @ r" and "\<forall>pr \<in> set ps. length (snd pr) < 2 ^ 31"
    and "p + length (concat (map enc_prop ps)) \<le> e"
  shows "fdt_walk blob e p depth = fdt_walk blob e (p + length (concat (map enc_prop ps))) depth"
  using assms
proof (induction ps arbitrary: p)
  case (Cons pr ps)
  have d: "drop p blob = enc_prop pr @ concat (map enc_prop ps) @ r" using Cons.prems(1) by simp
  have "fdt_walk blob e p depth = fdt_walk blob e (p + length (enc_prop pr)) depth"
    using Cons.prems by (intro fdt_walk_prop [OF d]) simp_all
  also have "\<dots> = fdt_walk blob e (p + length (enc_prop pr) + length (concat (map enc_prop ps))) depth"
    using Cons.prems by (intro Cons.IH) (simp_all add: drop_prefix [OF d] del: length_enc_prop)
  finally show ?case by (simp add: add.assoc)
qed simp

text \<open>What the walk needs of a tree: names without NUL and lengths that fit.\<close>

fun dt_walkable :: "dtree \<Rightarrow> bool" where
  "dt_walkable (Dtree name props kids) \<longleftrightarrow>
     0 \<notin> set name \<and> length name < 2 ^ 30 \<and> (\<forall>pr \<in> set props. length (snd pr) < 2 ^ 31) \<and> (\<forall>k \<in> set kids. dt_walkable k)"

lemma fdt_walk_tree:
  "drop p blob = enc_tree t @ r \<Longrightarrow> dt_walkable t \<Longrightarrow> p + length (enc_tree t) \<le> e \<Longrightarrow> 0 \<le> depth \<Longrightarrow>
    fdt_walk blob e p depth = fdt_walk blob e (p + length (enc_tree t)) depth"
proof (induction t arbitrary: p r depth)
  case (Dtree name props kids)
  let ?ps = "concat (map enc_prop props)" and ?a = "cell_align (length name + 1)"
  have kids: "fdt_walk blob e q dep = fdt_walk blob e (q + length (concat (map enc_tree ks))) dep"
    if "drop q blob = concat (map enc_tree ks) @ s" "set ks \<subseteq> set kids" "q + length (concat (map enc_tree ks)) \<le> e" "0 \<le> dep" for ks q s dep
    using that
  proof (induction ks arbitrary: q)
    case (Cons k ks)
    have d: "drop q blob = enc_tree k @ concat (map enc_tree ks) @ s" using Cons.prems(1) by simp
    have "fdt_walk blob e q dep = fdt_walk blob e (q + length (enc_tree k)) dep"
      using Cons.prems Dtree.prems(2) by (intro Dtree.IH [OF _ d]) auto
    also have "\<dots> = fdt_walk blob e (q + length (enc_tree k) + length (concat (map enc_tree ks))) dep"
      using Cons.prems by (intro Cons.IH) (simp_all add: drop_prefix [OF d])
    finally show ?case by (simp add: add.assoc)
  qed simp
  have d: "drop p blob = be32_bytes FDT_BEGIN_NODE @ cell_pad (name @ [0]) @ ?ps @ concat (map enc_tree kids) @ be32_bytes FDT_END_NODE @ r"
    using Dtree.prems(1) by simp
  have l: "length (enc_tree (Dtree name props kids)) = 4 + ?a + length ?ps + length (concat (map enc_tree kids)) + 4" by simp
  have "fdt_walk blob e p depth = fdt_walk blob e (p + 4 + ?a) (depth + 1)"
    using Dtree.prems(2,3) l by (intro fdt_walk_begin [OF d]) auto
  moreover have d1: "drop (p + 4 + ?a) blob = ?ps @ concat (map enc_tree kids) @ be32_bytes FDT_END_NODE @ r"
    using drop_prefix [of p blob "be32_bytes FDT_BEGIN_NODE @ cell_pad (name @ [0])"] d by (simp add: add.assoc)
  then have "fdt_walk blob e (p + 4 + ?a) (depth + 1) = fdt_walk blob e (p + 4 + ?a + length ?ps) (depth + 1)"
    using Dtree.prems(2,3) l by (intro fdt_walk_props [OF d1]) auto
  moreover have d2: "drop (p + 4 + ?a + length ?ps) blob = concat (map enc_tree kids) @ be32_bytes FDT_END_NODE @ r"
    by (rule drop_prefix [OF d1])
  then have "fdt_walk blob e (p + 4 + ?a + length ?ps) (depth + 1)
      = fdt_walk blob e (p + 4 + ?a + length ?ps + length (concat (map enc_tree kids))) (depth + 1)"
    using Dtree.prems(3,4) l by (intro kids [OF d2]) auto
  moreover have d3: "drop (p + 4 + ?a + length ?ps + length (concat (map enc_tree kids))) blob = be32_bytes FDT_END_NODE @ r"
    by (rule drop_prefix [OF d2])
  then have "fdt_walk blob e (p + 4 + ?a + length ?ps + length (concat (map enc_tree kids))) (depth + 1)
      = fdt_walk blob e (p + 4 + ?a + length ?ps + length (concat (map enc_tree kids)) + 4) depth"
    using fdt_walk_end_node [OF d3, of e "depth + 1"] Dtree.prems(3,4) l by simp
  ultimately show ?case unfolding l by (simp add: add.assoc)
qed

text \<open>A blob that encodes a tree is accepted, and nothing of it ends up in the tables.\<close>

lemma fit_parse_enc:
  assumes "dt_walkable t" and "length (enc_blob rsv t strings) < 2 ^ 32"
  shows "\<exists>fit'. fw_fit_parse True fit (Some (enc_blob rsv t strings)) = Returned (fit', True) \<and> fib_parsed fit'
    \<and> fib_raw_data fit' = Some (enc_blob rsv t strings) \<and> fib_images fit' = [] \<and> fib_configs fit' = []"
proof -
  let ?b = "enc_blob rsv t strings" and ?off = "40 + 16 * (length rsv + 1)" and ?f = "fdt_fields rsv t strings"
  let ?res = "concat (map enc_reserve rsv) @ zeros 16" and ?rest = "enc_tree t @ be32_bytes FDT_END @ strings"
  have lf: "length ?f = 10" by (simp add: fdt_fields_def Let_def)
  have lh: "length (concat (map be32_bytes ws)) = 4 * length ws" for ws by (induction ws) simp_all
  have lr: "length (concat (map enc_reserve rsv)) = 16 * length rsv" by (induction rsv) (simp_all add: enc_reserve_def)
  have fld: "fdt32_to_cpu ?b (4 * i) = ?f ! i" if "i < 10" for i
  proof -
    have "drop (4 * i) (concat (map be32_bytes ?f)) = be32_bytes (?f ! i) @ concat (map be32_bytes (drop (Suc i) ?f))"
    proof -
      have "?f = take i ?f @ ?f ! i # drop (Suc i) ?f" using that lf by (simp add: id_take_nth_drop)
      then have "concat (map be32_bytes ?f) = concat (map be32_bytes (take i ?f)) @ be32_bytes (?f ! i) @ concat (map be32_bytes (drop (Suc i) ?f))"
        by (metis concat.simps(2) concat_append list.simps(9) map_append)
      moreover have "length (concat (map be32_bytes (take i ?f))) = 4 * i" using that lf lh [of "take i ?f"] by simp
      ultimately show ?thesis by simp
    qed
    then have "drop (4 * i) ?b = be32_bytes (?f ! i) @ concat (map be32_bytes (drop (Suc i) ?f)) @ ?res @ ?rest"
      using that lf lh [of ?f] by (simp add: enc_blob_def)
    then show ?thesis using fdt32_at by blast
  qed
  have lb: "length ?b = ?off + length (enc_tree t) + 4 + length strings" using lh [of ?f] lr lf by (simp add: enc_blob_def)
  then have sm: "?off < 2 ^ 32" "length (enc_tree t) + 4 < 2 ^ 32" "?off + (length (enc_tree t) + 4) < 2 ^ 32" using assms(2) by simp_all
  have f: "?f ! 0 = FDT_MAGIC" "?f ! 2 = of_nat ?off" "?f ! 9 = of_nat (length (enc_tree t) + 4)"
    by (simp_all add: fdt_fields_def Let_def)
  have un: "unat (of_nat ?off :: u32) = ?off" "unat (of_nat (length (enc_tree t) + 4) :: u32) = length (enc_tree t) + 4"
    using sm by (intro unat_of_nat_u32; simp)+
  have hd: "fdt32_to_cpu (take 40 ?b) (4 * i) = ?f ! i" if "i < 10" for i
    using that fld [OF that] lb by (simp add: fdt32_to_cpu_def)
  have h: "fdt32_to_cpu (take 40 ?b) 0 = FDT_MAGIC" "fdt32_to_cpu (take 40 ?b) 8 = of_nat ?off"
    "fdt32_to_cpu (take 40 ?b) 36 = of_nat (length (enc_tree t) + 4)"
    using hd [of 0] hd [of 2] hd [of 9] f by simp_all
  have d: "drop ?off ?b = enc_tree t @ be32_bytes FDT_END @ strings"
  proof -
    have "?b = (concat (map be32_bytes ?f) @ ?res) @ ?rest" by (simp add: enc_blob_def)
    moreover have "length (concat (map be32_bytes ?f) @ ?res) = ?off" using lh [of ?f] lr lf by simp
    ultimately show ?thesis by (metis append_eq_conv_conj)
  qed
  have "fdt_walk ?b (?off + (length (enc_tree t) + 4)) ?off 0 = fdt_walk ?b (?off + (length (enc_tree t) + 4)) (?off + length (enc_tree t)) 0"
    by (rule fdt_walk_tree [OF d assms(1)]) simp_all
  also have "\<dots> = Returned True"
    using fdt32_at [OF drop_prefix [OF d]]
    by (subst fdt_walk.simps) (simp add: Let_def FDT_BEGIN_NODE_def FDT_END_NODE_def FDT_PROP_def FDT_NOP_def FDT_END_def)
  finally have w: "fdt_walk ?b (?off + (length (enc_tree t) + 4)) ?off 0 = Returned True" .
  have su: "unat (of_nat ?off + of_nat (length (enc_tree t) + 4) :: u32) = ?off + (length (enc_tree t) + 4)"
    using un sm by (subst u32_add) simp_all
  have "\<not> of_nat (length (enc_tree t) + 4) < (4 :: u32)" unfolding word_less_nat_alt un by simp
  then have "fdt_walk_structure (Some ?b) (unat (of_nat ?off :: u32)) (of_nat (length (enc_tree t) + 4)) True = Returned True"
    unfolding fdt_walk_structure_def un option.case using w by simp
  moreover define off sz where "off = (of_nat ?off :: u32)" and "sz = (of_nat (length (enc_tree t) + 4) :: u32)"
  ultimately have w': "fdt_walk_structure (Some ?b) (unat off) sz True = Returned True" by (simp only:)
  have h': "fdt32_to_cpu (take 40 ?b) 0 = FDT_MAGIC" "fdt32_to_cpu (take 40 ?b) 8 = off" "fdt32_to_cpu (take 40 ?b) 36 = sz"
    using h by (simp_all only: off_def sz_def)
  have "\<not> unat (off + sz) > length ?b" "\<not> length ?b < 40" using su lb by (simp_all only: off_def sz_def)
  then show ?thesis
    unfolding fw_fit_parse_def option.case Let_def fit_header_size_def by (simp add: h' w') (simp add: zero_fit_blob_def)
qed

lemma fit_verify_hashes_always:
  "snd (fit_verify_hashes fit) \<and> (\<forall>i < length (fib_images fit). fin_data_size (fib_images fit ! i) \<noteq> 0 \<longrightarrow>
     fin_verified (fib_images (fst (fit_verify_hashes fit)) ! i))"
  by (simp add: fit_verify_hashes_def)

end
