(* ===== verification/Fw_Mmio.thy ===== *)
theory Fw_Mmio
  imports Prelude
begin

text \<open>
  Memory-mapped I/O of the firmware (\<open>mmio.c\<close>): a table of regions with their backing bytes, and
  8- and 32-bit accesses.  The three device types have callbacks that copy the value and print;
  whether \<open>calloc\<close> succeeds is a parameter.  The table is shown to be a memory: a partial map from
  addresses to bytes, with byte accesses as lookup and update, and 32-bit accesses as four bytes
  of one region.
\<close>

section \<open>Regions\<close>

definition MMIO_MAX_REGIONS :: nat where "MMIO_MAX_REGIONS = 32"
definition MMIO_DEV_UART :: u32 where "MMIO_DEV_UART = 0"
definition MMIO_DEV_TIMER :: u32 where "MMIO_DEV_TIMER = 1"
definition MMIO_DEV_GPIO :: u32 where "MMIO_DEV_GPIO = 2"

datatype mmio_fn = Uart_fn | Timer_fn | Gpio_fn

record MMIORegion =
  mmr_base :: u32
  mmr_size :: u32
  mmr_name :: bytes
  mmr_dev_type :: u32
  mmr_read_func :: "mmio_fn option"
  mmr_write_func :: "mmio_fn option"
  mmr_backing :: bytes

type_synonym MMIOManager = "MMIORegion list"

definition mmio_init :: MMIOManager where
  "mmio_init = []"

definition region_holds :: "MMIORegion \<Rightarrow> u32 \<Rightarrow> bool" where
  "region_holds r addr \<longleftrightarrow> mmr_base r \<le> addr \<and> addr < mmr_base r + mmr_size r"

definition find_region :: "MMIOManager \<Rightarrow> u32 \<Rightarrow> nat option" where
  "find_region mgr addr = find_index (\<lambda>r. region_holds r addr) mgr"

definition dev_callback :: "u32 \<Rightarrow> mmio_fn option" where
  "dev_callback ty = (if ty = MMIO_DEV_UART then Some Uart_fn else if ty = MMIO_DEV_TIMER then Some Timer_fn
                      else if ty = MMIO_DEV_GPIO then Some Gpio_fn else None)"

text \<open>The name is a string without its NUL; what is longer than 31 characters is cut.\<close>

definition mmio_map :: "bool \<Rightarrow> MMIOManager \<Rightarrow> u32 \<Rightarrow> u32 \<Rightarrow> u32 \<Rightarrow> bytes option \<Rightarrow> MMIOManager \<times> bool" where
  "mmio_map alloc mgr base sz ty name =
     (case name of None \<Rightarrow> (mgr, False)
      | Some nm \<Rightarrow>
          if length mgr \<ge> MMIO_MAX_REGIONS then (mgr, False)
          else if \<not> alloc then (mgr, False)
          else (mgr @ [\<lparr>mmr_base = base, mmr_size = sz, mmr_name = (if length nm \<ge> 32 then take 31 nm else nm),
                        mmr_dev_type = ty, mmr_read_func = dev_callback ty, mmr_write_func = dev_callback ty,
                        mmr_backing = zeros (unat sz)\<rparr>], True))"

section \<open>Accesses\<close>

definition copy_out32 :: "MMIORegion \<Rightarrow> nat \<Rightarrow> u32 c_result" where
  "copy_out32 r off =
     (if off + 4 > length (mmr_backing r) then Undefined
      else Returned (le32 (mmr_backing r ! off) (mmr_backing r ! (off + 1)) (mmr_backing r ! (off + 2)) (mmr_backing r ! (off + 3))))"

definition copy_in32 :: "MMIORegion \<Rightarrow> nat \<Rightarrow> u32 \<Rightarrow> MMIORegion c_result" where
  "copy_in32 r off v =
     (if off + 4 > length (mmr_backing r) then Undefined
      else Returned (r\<lparr>mmr_backing := blit (mmr_backing r) off (le32_list v)\<rparr>))"

text \<open>The callbacks copy as the plain access does; what they print has no counterpart.\<close>

definition uart_read_callback :: "MMIORegion \<Rightarrow> u32 \<Rightarrow> u32 c_result" where
  "uart_read_callback r off = copy_out32 r (unat off)"

definition timer_read_callback :: "MMIORegion \<Rightarrow> u32 \<Rightarrow> u32 c_result" where
  "timer_read_callback r off = copy_out32 r (unat off)"

definition gpio_read_callback :: "MMIORegion \<Rightarrow> u32 \<Rightarrow> u32 c_result" where
  "gpio_read_callback r off = copy_out32 r (unat off)"

definition uart_write_callback :: "MMIORegion \<Rightarrow> u32 \<Rightarrow> u32 \<Rightarrow> MMIORegion c_result" where
  "uart_write_callback r off v = copy_in32 r (unat off) v"

definition timer_write_callback :: "MMIORegion \<Rightarrow> u32 \<Rightarrow> u32 \<Rightarrow> MMIORegion c_result" where
  "timer_write_callback r off v = copy_in32 r (unat off) v"

definition gpio_write_callback :: "MMIORegion \<Rightarrow> u32 \<Rightarrow> u32 \<Rightarrow> MMIORegion c_result" where
  "gpio_write_callback r off v = copy_in32 r (unat off) v"

definition read_callback :: "mmio_fn \<Rightarrow> MMIORegion \<Rightarrow> u32 \<Rightarrow> u32 c_result" where
  "read_callback f = (case f of Uart_fn \<Rightarrow> uart_read_callback | Timer_fn \<Rightarrow> timer_read_callback | Gpio_fn \<Rightarrow> gpio_read_callback)"

definition write_callback :: "mmio_fn \<Rightarrow> MMIORegion \<Rightarrow> u32 \<Rightarrow> u32 \<Rightarrow> MMIORegion c_result" where
  "write_callback f = (case f of Uart_fn \<Rightarrow> uart_write_callback | Timer_fn \<Rightarrow> timer_write_callback | Gpio_fn \<Rightarrow> gpio_write_callback)"

definition mmio_read32 :: "MMIOManager \<Rightarrow> u32 \<Rightarrow> u32 c_result" where
  "mmio_read32 mgr addr =
     (case find_region mgr addr of None \<Rightarrow> Returned 0
      | Some i \<Rightarrow> let r = mgr ! i; off = addr - mmr_base r in
          case mmr_read_func r of Some f \<Rightarrow> read_callback f r off | None \<Rightarrow> copy_out32 r (unat off))"

definition mmio_write32 :: "MMIOManager \<Rightarrow> u32 \<Rightarrow> u32 \<Rightarrow> MMIOManager c_result" where
  "mmio_write32 mgr addr v =
     (case find_region mgr addr of None \<Rightarrow> Returned mgr
      | Some i \<Rightarrow> let r = mgr ! i; off = addr - mmr_base r in
          case (case mmr_write_func r of Some f \<Rightarrow> write_callback f r off v | None \<Rightarrow> copy_in32 r (unat off) v) of
            Returned r' \<Rightarrow> Returned (mgr[i := r']) | Undefined \<Rightarrow> Undefined | Diverges \<Rightarrow> Diverges)"

definition mmio_read8 :: "MMIOManager \<Rightarrow> u32 \<Rightarrow> u8 c_result" where
  "mmio_read8 mgr addr =
     (case find_region mgr addr of None \<Rightarrow> Returned 0
      | Some i \<Rightarrow> let r = mgr ! i; off = unat (addr - mmr_base r) in
          if off < length (mmr_backing r) then Returned (mmr_backing r ! off) else Undefined)"

definition mmio_write8 :: "MMIOManager \<Rightarrow> u32 \<Rightarrow> u8 \<Rightarrow> MMIOManager c_result" where
  "mmio_write8 mgr addr v =
     (case find_region mgr addr of None \<Rightarrow> Returned mgr
      | Some i \<Rightarrow> let r = mgr ! i; off = unat (addr - mmr_base r) in
          if off < length (mmr_backing r) then Returned (mgr[i := r\<lparr>mmr_backing := (mmr_backing r)[off := v]\<rparr>]) else Undefined)"

section \<open>The invariant\<close>

definition mmio_wf :: "MMIOManager \<Rightarrow> bool" where
  "mmio_wf mgr \<longleftrightarrow> length mgr \<le> MMIO_MAX_REGIONS \<and> (\<forall>r \<in> set mgr. length (mmr_backing r) = unat (mmr_size r))"

lemma mmio_init_wf: "mmio_wf mmio_init"
  by (simp add: mmio_init_def mmio_wf_def)

text \<open>A region whose end wraps holds no address, so an offset is always inside the backing.\<close>

lemma region_holds_offset:
  assumes "region_holds r addr"
  shows "unat (addr - mmr_base r) < unat (mmr_size r)"
proof -
  have le: "unat (mmr_base r) \<le> unat addr" and lt: "unat addr < unat (mmr_base r + mmr_size r)"
    using assms by (simp_all add: region_holds_def word_le_nat_alt word_less_nat_alt)
  have "unat (mmr_base r + mmr_size r) \<le> unat (mmr_base r) + unat (mmr_size r)"
    by (simp add: unat_word_ariths mod_less_eq_dividend)
  moreover have "unat (addr - mmr_base r) = unat addr - unat (mmr_base r)"
    using le by (simp add: unat_sub word_le_nat_alt)
  ultimately show ?thesis using le lt by linarith
qed

lemma region_wrapped:
  assumes "2 ^ 32 \<le> unat (mmr_base r) + unat (mmr_size r)"
  shows "\<not> region_holds r addr"
proof
  have lt: "unat w < 2 ^ 32" for w :: u32 using unsigned_less [of w, where 'a = nat] by simp
  assume h: "region_holds r addr"
  then have "unat (mmr_base r) < unat (mmr_base r + mmr_size r)"
    by (simp add: region_holds_def word_le_nat_alt word_less_nat_alt)
  moreover have "unat (mmr_base r + mmr_size r) = unat (mmr_base r) + unat (mmr_size r) - 2 ^ 32"
    using assms lt [of "mmr_base r"] lt [of "mmr_size r"] by (simp add: unat_word_ariths mod_if)
  ultimately show False using lt [of "mmr_size r"] by linarith
qed

lemma find_region_SomeD:
  assumes "mmio_wf mgr" and "find_region mgr addr = Some i"
  shows "i < length mgr" "region_holds (mgr ! i) addr" "unat (addr - mmr_base (mgr ! i)) < length (mmr_backing (mgr ! i))"
proof -
  show i: "i < length mgr" and h: "region_holds (mgr ! i) addr"
    using find_index_SomeD [of "\<lambda>r. region_holds r addr" mgr i] assms(2) by (simp_all add: find_region_def)
  have "mgr ! i \<in> set mgr" using i by simp
  then show "unat (addr - mmr_base (mgr ! i)) < length (mmr_backing (mgr ! i))"
    using region_holds_offset [OF h] assms(1) by (simp add: mmio_wf_def)
qed

lemma find_region_update:
  assumes "i < length mgr"
  shows "find_region (mgr[i := (mgr ! i)\<lparr>mmr_backing := b\<rparr>]) addr = find_region mgr addr"
  unfolding find_region_def using assms by (intro find_index_update_keep) (simp_all add: region_holds_def)

lemma mmio_update_wf:
  assumes "mmio_wf mgr" and "i < length mgr" and "length b = length (mmr_backing (mgr ! i))"
  shows "mmio_wf (mgr[i := (mgr ! i)\<lparr>mmr_backing := b\<rparr>])"
proof -
  have "mgr ! i \<in> set mgr" using assms(2) by simp
  then have "length b = unat (mmr_size (mgr ! i))" using assms(1,3) by (simp add: mmio_wf_def)
  then show ?thesis using assms(1)
    by (auto simp: mmio_wf_def dest!: subsetD [OF set_update_subset_insert])
qed

section \<open>The memory\<close>

text \<open>What the processor sees: the bytes of the first region that holds an address.\<close>

definition mmio_view :: "MMIOManager \<Rightarrow> u32 \<rightharpoonup> u8" where
  "mmio_view mgr addr = (case find_region mgr addr of None \<Rightarrow> None
     | Some i \<Rightarrow> Some (mmr_backing (mgr ! i) ! unat (addr - mmr_base (mgr ! i))))"

lemma mmio_read8_view:
  assumes "mmio_wf mgr"
  shows "mmio_read8 mgr addr = Returned (case mmio_view mgr addr of None \<Rightarrow> 0 | Some v \<Rightarrow> v)"
  using find_region_SomeD [OF assms] by (auto simp: mmio_read8_def mmio_view_def Let_def split: option.splits)

text \<open>The bytes of one region after a range of them was replaced.\<close>

lemma mmio_view_update:
  assumes "mmio_wf mgr" and "i < length mgr" and "length b = length (mmr_backing (mgr ! i))"
  shows "mmio_view (mgr[i := (mgr ! i)\<lparr>mmr_backing := b\<rparr>]) addr =
    (if find_region mgr addr = Some i then Some (b ! unat (addr - mmr_base (mgr ! i))) else mmio_view mgr addr)"
  using assms(2) by (auto simp: mmio_view_def find_region_update split: option.splits)

lemma offset_eq_iff: "unat (a - c) = unat (b - c) \<longleftrightarrow> a = (b :: u32)"
  by (metis diff_add_cancel word_unat_eq_iff)

lemma mmio_write8_view:
  assumes "mmio_wf mgr"
  shows "\<exists>mgr'. mmio_write8 mgr addr v = Returned mgr' \<and> mmio_wf mgr'
    \<and> mmio_view mgr' = (if mmio_view mgr addr = None then mmio_view mgr else (mmio_view mgr)(addr \<mapsto> v))"
proof (cases "find_region mgr addr")
  case None
  then show ?thesis using assms by (simp add: mmio_write8_def mmio_view_def)
next
  case (Some i)
  note f = find_region_SomeD [OF assms Some]
  let ?r = "mgr ! i" and ?off = "unat (addr - mmr_base (mgr ! i))"
  let ?b = "(mmr_backing ?r)[?off := v]"
  have "mmio_view (mgr[i := ?r\<lparr>mmr_backing := ?b\<rparr>]) b = ((mmio_view mgr)(addr \<mapsto> v)) b" for b
  proof (cases "find_region mgr b = Some i")
    case True
    then show ?thesis using f(3) mmio_view_update [OF assms f(1), of ?b b]
      by (cases "b = addr") (auto simp: mmio_view_def offset_eq_iff)
  next
    case False
    then show ?thesis using mmio_view_update [OF assms f(1), of ?b b] Some by auto
  qed
  then have "mmio_view (mgr[i := ?r\<lparr>mmr_backing := ?b\<rparr>]) = (mmio_view mgr)(addr \<mapsto> v)" by blast
  moreover have "mmio_write8 mgr addr v = Returned (mgr[i := ?r\<lparr>mmr_backing := ?b\<rparr>])"
    using Some f(3) by (simp add: mmio_write8_def Let_def)
  moreover have "\<not> mmio_view mgr addr = None" using Some by (simp add: mmio_view_def)
  ultimately show ?thesis using mmio_update_wf [OF assms f(1), of ?b] by auto
qed

text \<open>Mapping a region adds its addresses, as zeros, where nothing was mapped.\<close>

lemma mmio_map_view:
  assumes "mmio_wf mgr" and "mmio_map alloc mgr base sz ty name = (mgr', True)"
  shows "mmio_wf mgr' \<and> mmio_view mgr' addr =
    (if mmio_view mgr addr \<noteq> None then mmio_view mgr addr
     else if base \<le> addr \<and> unat addr < unat base + unat sz \<and> unat base + unat sz < 2 ^ 32 then Some 0 else None)"
proof -
  obtain r where m: "mgr' = mgr @ [r]" "mmr_base r = base" "mmr_size r = sz" "mmr_backing r = zeros (unat sz)"
    "length mgr < MMIO_MAX_REGIONS"
    using assms(2) by (auto simp: mmio_map_def split: option.splits if_splits)
  have h: "region_holds r addr \<longleftrightarrow> base \<le> addr \<and> unat addr < unat base + unat sz \<and> unat base + unat sz < 2 ^ 32"
  proof (cases "unat base + unat sz < 2 ^ 32")
    case True
    then have "unat (base + sz) = unat base + unat sz" by (simp add: unat_word_ariths)
    then show ?thesis using True m(2,3) by (simp add: region_holds_def word_less_nat_alt)
  next
    case False
    then show ?thesis using region_wrapped [of r addr] m(2,3) by simp
  qed
  have "mmio_wf mgr'" using assms(1) m by (auto simp: mmio_wf_def)
  moreover have "zeros (unat sz) ! unat (addr - base) = 0" if "region_holds r addr"
    using region_holds_offset [OF that] m(2,3) by simp
  moreover have "find_region mgr' addr = (case find_region mgr addr of Some i \<Rightarrow> Some i
      | None \<Rightarrow> if region_holds r addr then Some (length mgr) else None)"
    using m(1) by (simp add: find_region_def find_index_append split: option.split)
  moreover have "i < length mgr" if "find_region mgr addr = Some i" for i using find_region_SomeD(1) [OF assms(1) that] .
  ultimately show ?thesis using m h by (cases "find_region mgr addr") (simp_all add: mmio_view_def nth_append)
qed

text \<open>A 32-bit access: four consecutive bytes of the region of its address, which must all be there.\<close>

lemma mmio_access32_defined:
  assumes "find_region mgr addr = Some i"
  shows "mmio_read32 mgr addr = copy_out32 (mgr ! i) (unat (addr - mmr_base (mgr ! i)))"
    and "mmio_write32 mgr addr v = (case copy_in32 (mgr ! i) (unat (addr - mmr_base (mgr ! i))) v of
      Returned r' \<Rightarrow> Returned (mgr[i := r']) | Undefined \<Rightarrow> Undefined | Diverges \<Rightarrow> Diverges)"
  using assms by (simp_all add: mmio_read32_def mmio_write32_def read_callback_def write_callback_def uart_read_callback_def
      timer_read_callback_def gpio_read_callback_def uart_write_callback_def timer_write_callback_def gpio_write_callback_def Let_def
      split: option.split mmio_fn.split)

lemma mmio_write_read32:
  assumes "mmio_wf mgr" and "find_region mgr addr \<noteq> None" and "mmio_write32 mgr addr v = Returned mgr'"
  shows "mmio_wf mgr' \<and> mmio_read32 mgr' addr = Returned v
    \<and> (\<forall>a. find_region mgr a \<noteq> find_region mgr addr \<or> 4 \<le> unat (a - addr) \<longrightarrow> mmio_view mgr' a = mmio_view mgr a)"
proof -
  obtain i where i: "find_region mgr addr = Some i" using assms(2) by blast
  note f = find_region_SomeD [OF assms(1) i]
  let ?r = "mgr ! i" and ?off = "unat (addr - mmr_base (mgr ! i))"
  let ?b = "blit (mmr_backing ?r) ?off (le32_list v)"
  have l: "length (le32_list v) = 4" by simp
  have fit: "?off + 4 \<le> length (mmr_backing ?r)" and m': "mgr' = mgr[i := ?r\<lparr>mmr_backing := ?b\<rparr>]"
    using assms(3) mmio_access32_defined(2) [OF i] by (auto simp: copy_in32_def split: if_splits)
  have lb: "length ?b = length (mmr_backing ?r)" using fit l by simp
  have v: "?b ! (?off + k) = le32_list v ! k" if "k < 4" for k
    using nth_blit [of ?off "le32_list v" "mmr_backing ?r" "?off + k"] fit l that by simp
  have "find_region mgr' addr = Some i" using m' find_region_update [OF f(1)] i by simp
  then have "mmio_read32 mgr' addr = copy_out32 (mgr' ! i) (unat (addr - mmr_base (mgr' ! i)))"
    by (rule mmio_access32_defined(1))
  also have "\<dots> = Returned v"
    using m' f(1) fit lb v [of 0] v [of 1] v [of 2] v [of 3] by (simp add: copy_out32_def le32_list_def)
  finally have rd: "mmio_read32 mgr' addr = Returned v" .
  moreover have "mmio_view mgr' a = mmio_view mgr a"
    if "find_region mgr a \<noteq> find_region mgr addr \<or> 4 \<le> unat (a - addr)" for a
  proof (cases "find_region mgr a = Some i")
    case True
    then have far: "4 \<le> unat (a - addr)" using that i by simp
    let ?oa = "unat (a - mmr_base ?r)"
    note fa = find_region_SomeD [OF assms(1) True]
    have "\<not> (?off \<le> ?oa \<and> ?oa < ?off + 4)"
    proof
      assume b: "?off \<le> ?oa \<and> ?oa < ?off + 4"
      have "a - addr = (a - mmr_base ?r) - (addr - mmr_base ?r)" by simp
      then have "unat (a - addr) = ?oa - ?off" using b by (simp only: unat_sub word_le_nat_alt)
      then show False using b far by linarith
    qed
    then have "?b ! ?oa = mmr_backing ?r ! ?oa"
      using nth_blit [of ?off "le32_list v" "mmr_backing ?r" ?oa] fit l fa(3) by auto
    then show ?thesis using mmio_view_update [OF assms(1) f(1) lb, of a] True m' by (simp add: mmio_view_def)
  next
    case False
    then show ?thesis using mmio_view_update [OF assms(1) f(1) lb, of a] m' by simp
  qed
  ultimately show ?thesis using mmio_update_wf [OF assms(1) f(1) lb] m' by blast
qed

text \<open>The last three bytes of a region cannot be accessed as words.\<close>

lemma mmio_word_at_end:
  assumes "mmio_wf mgr" and "find_region mgr addr = Some i"
  shows "mmio_read32 mgr addr = Undefined \<longleftrightarrow> unat (addr - mmr_base (mgr ! i)) + 4 > unat (mmr_size (mgr ! i))"
proof -
  have "mgr ! i \<in> set mgr" using find_region_SomeD(1) [OF assms] by simp
  then have "length (mmr_backing (mgr ! i)) = unat (mmr_size (mgr ! i))" using assms(1) by (simp add: mmio_wf_def)
  then show ?thesis using mmio_access32_defined(1) [OF assms(2)] by (simp add: copy_out32_def)
qed

end
