(* ===== verification/Fw_Devices.thy ===== *)
theory Fw_Devices
  imports Prelude
begin

text \<open>
  Three small modules of the firmware: the SPI NOR flash with its write-enable latch
  (\<open>spi_nor.c\<close>), the processor after reset with its modes (\<open>reset_vector.c\<close>), and the SMBIOS
  table set (\<open>smbios_fw.c\<close>).  Whether \<open>calloc\<close> succeeds is a parameter.
\<close>

section \<open>SPI NOR flash\<close>

definition SR_BIT_WEL :: u8 where "SR_BIT_WEL = 2"

record SPIFlash =
  spf_jedec_id :: u32
  spf_capacity :: u32
  spf_page_size :: u32
  spf_status_reg :: u8
  spf_data :: "bytes option"

definition spi_init :: "bool \<Rightarrow> SPIFlash \<Rightarrow> u32 \<Rightarrow> u32 \<Rightarrow> SPIFlash \<times> bool" where
  "spi_init alloc fl jedec cap =
     (if cap = 0 then (fl, False)
      else (\<lparr>spf_jedec_id = jedec, spf_capacity = cap, spf_page_size = 256, spf_status_reg = 0,
             spf_data = (if alloc then Some (zeros (unat cap)) else None)\<rparr>, alloc))"

definition spi_read_jedec_id :: "SPIFlash option \<Rightarrow> u32" where
  "spi_read_jedec_id fl = (case fl of None \<Rightarrow> 0 | Some f \<Rightarrow> spf_jedec_id f)"

text \<open>The bytes copied into the caller's buffer, or \<open>None\<close> when the call is refused.\<close>

definition spi_read :: "SPIFlash \<Rightarrow> u32 \<Rightarrow> bytes option \<Rightarrow> u32 \<Rightarrow> (bytes option \<times> bool) c_result" where
  "spi_read fl addr buf len =
     (case buf of None \<Rightarrow> Returned (buf, False)
      | Some b \<Rightarrow>
          if len = 0 then Returned (buf, False)
          else if addr + len > spf_capacity fl then Returned (buf, False)
          else case spf_data fl of None \<Rightarrow> Undefined
               | Some d \<Rightarrow> if unat addr + unat len > length d \<or> unat len > length b then Undefined
                           else Returned (Some (blit b 0 (sub_range d (unat addr) (unat len))), True))"

definition spi_write_enable :: "SPIFlash \<Rightarrow> SPIFlash \<times> bool" where
  "spi_write_enable fl = (fl\<lparr>spf_status_reg := spf_status_reg fl OR SR_BIT_WEL\<rparr>, True)"

definition spi_sector_erase :: "SPIFlash \<Rightarrow> u32 \<Rightarrow> (SPIFlash \<times> bool) c_result" where
  "spi_sector_erase fl addr =
     (if addr \<ge> spf_capacity fl then Returned (fl, False)
      else if spf_page_size fl = 0 then Undefined
      else let sector_addr = (addr div spf_page_size fl) * spf_page_size fl;
               erase_size = (if sector_addr + spf_page_size fl > spf_capacity fl then spf_capacity fl - sector_addr
                             else spf_page_size fl)
           in case spf_data fl of None \<Rightarrow> Undefined
              | Some d \<Rightarrow> if unat sector_addr + unat erase_size > length d then Undefined
                          else Returned (fl\<lparr>spf_data := Some (blit d (unat sector_addr) (replicate (unat erase_size) 0xFF)),
                                            spf_status_reg := spf_status_reg fl AND NOT SR_BIT_WEL\<rparr>, True))"

definition spi_page_program :: "SPIFlash \<Rightarrow> u32 \<Rightarrow> bytes option \<Rightarrow> u32 \<Rightarrow> (SPIFlash \<times> bool) c_result" where
  "spi_page_program fl addr buf len =
     (case buf of None \<Rightarrow> Returned (fl, False)
      | Some b \<Rightarrow>
          if len = 0 then Returned (fl, False)
          else if addr + len > spf_capacity fl then Returned (fl, False)
          else if len > spf_page_size fl then Returned (fl, False)
          else if spf_status_reg fl AND SR_BIT_WEL = 0 then Returned (fl, False)
          else case spf_data fl of None \<Rightarrow> Undefined
               | Some d \<Rightarrow> if unat addr + unat len > length d \<or> unat len > length b then Undefined
                           else Returned (fl\<lparr>spf_data := Some (blit d (unat addr) (take (unat len) b)),
                                             spf_status_reg := spf_status_reg fl AND NOT SR_BIT_WEL\<rparr>, True))"

definition spi_read_status :: "SPIFlash option \<Rightarrow> u8" where
  "spi_read_status fl = (case fl of None \<Rightarrow> 0 | Some f \<Rightarrow> spf_status_reg f)"

subsection \<open>The latch\<close>

definition wel :: "SPIFlash \<Rightarrow> bool" where
  "wel fl \<longleftrightarrow> spf_status_reg fl AND SR_BIT_WEL \<noteq> 0"

lemma wel_bit: "wel fl \<longleftrightarrow> bit (spf_status_reg fl) 1"
proof
  assume "wel fl"
  then have "spf_status_reg fl AND SR_BIT_WEL \<noteq> 0" by (simp only: wel_def not_False_eq_True)
  moreover have "x = 0" if "\<forall>n. \<not> bit x n" for x :: u8 using that by (intro bit_eqI) simp
  ultimately obtain n where "bit (spf_status_reg fl AND SR_BIT_WEL) n" by blast
  then show "bit (spf_status_reg fl) 1" by (auto simp: SR_BIT_WEL_def bit_and_iff bit_2_iff)
next
  assume b: "bit (spf_status_reg fl) 1"
  then have "bit (spf_status_reg fl AND SR_BIT_WEL) 1" by (simp add: SR_BIT_WEL_def bit_and_iff bit_2_iff)
  then show "wel fl" unfolding wel_def by (metis bit_0_eq bot_apply bot_bool_def)
qed

lemma wel_set [simp]: "wel (fl\<lparr>spf_status_reg := spf_status_reg fl OR SR_BIT_WEL\<rparr>)"
  by (simp add: wel_bit SR_BIT_WEL_def bit_simps)

lemma wel_cleared [simp]: "\<not> wel (fl\<lparr>spf_status_reg := spf_status_reg fl AND NOT SR_BIT_WEL\<rparr>)"
  "\<not> wel (fl\<lparr>spf_data := d, spf_status_reg := spf_status_reg fl AND NOT SR_BIT_WEL\<rparr>)"
  by (simp_all add: wel_bit SR_BIT_WEL_def bit_simps)

lemma wel_data [simp]: "wel (fl\<lparr>spf_data := d\<rparr>) = wel fl"
  by (simp add: wel_def)

definition spi_wf :: "SPIFlash \<Rightarrow> bool" where
  "spi_wf fl \<longleftrightarrow> spf_page_size fl = 256 \<and> (\<exists>d. spf_data fl = Some d \<and> length d = unat (spf_capacity fl))"

lemma spi_init_wf: "spi_init True fl0 jedec cap = (fl, True) \<Longrightarrow> spi_wf fl \<and> \<not> wel fl"
  by (auto simp: spi_init_def spi_wf_def wel_def split: if_splits)

text \<open>A run of commands; a command that is undefined ends it.\<close>

datatype spi_op = Spi_write_enable | Spi_erase u32 | Spi_program u32 "bytes" u32

fun spi_step :: "spi_op \<Rightarrow> SPIFlash \<Rightarrow> (SPIFlash \<times> bool) c_result" where
  "spi_step Spi_write_enable fl = Returned (spi_write_enable fl)"
| "spi_step (Spi_erase a) fl = spi_sector_erase fl a"
| "spi_step (Spi_program a b n) fl = spi_page_program fl a (Some b) n"

fun spi_run :: "spi_op list \<Rightarrow> SPIFlash \<Rightarrow> (SPIFlash \<times> bool list) c_result" where
  "spi_run [] fl = Returned (fl, [])"
| "spi_run (x # xs) fl =
     (case spi_step x fl of Returned (f1, ok) \<Rightarrow>
        (case spi_run xs f1 of Returned (f2, oks) \<Rightarrow> Returned (f2, ok # oks) | Undefined \<Rightarrow> Undefined | Diverges \<Rightarrow> Diverges)
      | Undefined \<Rightarrow> Undefined | Diverges \<Rightarrow> Diverges)"

text \<open>Programs that took effect, and enables, in a run with its results.\<close>

definition programs_done :: "spi_op list \<Rightarrow> bool list \<Rightarrow> nat" where
  "programs_done xs oks = length (filter (\<lambda>(x, ok). ok \<and> (case x of Spi_program a b n \<Rightarrow> True | _ \<Rightarrow> False)) (zip xs oks))"

definition enables_done :: "spi_op list \<Rightarrow> nat" where
  "enables_done xs = length (filter (\<lambda>x. x = Spi_write_enable) xs)"

lemma spi_step_wf:
  assumes "spi_wf fl" and "spi_step x fl = Returned (f1, ok)"
  shows "spi_wf f1 \<and> spf_capacity f1 = spf_capacity fl"
  using assms by (cases x)
    (auto simp: spi_wf_def spi_write_enable_def spi_sector_erase_def spi_page_program_def Let_def split: if_splits option.splits)

lemma spi_step_latch:
  assumes "spi_step x fl = Returned (f1, ok)"
  shows "(case x of Spi_program a b n \<Rightarrow> if ok then wel fl \<and> \<not> wel f1 else f1 = fl
          | Spi_erase a \<Rightarrow> if ok then \<not> wel f1 else f1 = fl | Spi_write_enable \<Rightarrow> wel f1)"
  using assms by (cases x)
    (auto simp: spi_write_enable_def spi_sector_erase_def spi_page_program_def Let_def wel_def [symmetric] split: if_splits option.splits)

lemma spi_run_latch:
  "spi_run xs fl = Returned (f2, oks) \<Longrightarrow>
    programs_done xs oks + of_bool (wel f2) \<le> enables_done xs + of_bool (wel fl)"
proof (induction xs arbitrary: fl oks)
  case Nil
  then show ?case by (simp add: programs_done_def)
next
  case (Cons x xs)
  obtain f1 ok oks' where s: "spi_step x fl = Returned (f1, ok)" and r: "spi_run xs f1 = Returned (f2, oks')" and o: "oks = ok # oks'"
    using Cons.prems by (auto split: c_result.splits prod.splits)
  have ih: "programs_done xs oks' + of_bool (wel f2) \<le> enables_done xs + of_bool (wel f1)" by (rule Cons.IH [OF r])
  show ?case
    using ih spi_step_latch [OF s] unfolding o
    by (cases x; cases ok; cases "wel fl"; cases "wel f1") (simp_all add: programs_done_def enables_done_def)
qed

text \<open>What was programmed is read back, and nothing else is changed.\<close>

lemma spi_program_read:
  assumes "spi_wf fl" and "spi_page_program fl addr (Some b) len = Returned (f1, True)" and "length buf = unat len"
  shows "spi_read f1 addr (Some buf) len = Returned (Some (take (unat len) b), True)
    \<and> (\<forall>i. i < unat addr \<or> unat addr + unat len \<le> i \<longrightarrow> i < length (the (spf_data fl)) \<longrightarrow>
        the (spf_data f1) ! i = the (spf_data fl) ! i)"
  using assms by (auto simp: spi_page_program_def spi_read_def spi_wf_def nth_blit blit_def [of buf] split: if_splits option.splits)

text \<open>An erase needs no enable; the whole page around the address becomes \<open>0xFF\<close>.\<close>

lemma spi_erase_unlatched:
  assumes "spi_wf fl" and "addr < spf_capacity fl" and "unat (spf_capacity fl) mod 256 = 0"
  shows "\<exists>d. spf_data fl = Some d \<and> spi_sector_erase fl addr =
    Returned (fl\<lparr>spf_data := Some (blit d (unat addr div 256 * 256) (replicate 256 0xFF)),
                 spf_status_reg := spf_status_reg fl AND NOT SR_BIT_WEL\<rparr>, True)"
proof -
  obtain d where d: "spf_data fl = Some d" "length d = unat (spf_capacity fl)" using assms(1) by (auto simp: spi_wf_def)
  obtain q where q: "unat (spf_capacity fl) = 256 * q" using assms(3) by auto
  have lt: "unat (spf_capacity fl) < 2 ^ 32" using unsigned_less [of "spf_capacity fl", where 'a = nat] by simp
  have a: "unat addr < 256 * q" using assms(2) q by (simp add: word_less_nat_alt)
  then have "unat addr div 256 < q" by (simp add: less_mult_imp_div_less mult.commute)
  then have e: "unat addr div 256 * 256 + 256 \<le> 256 * q" by linarith
  have s: "unat ((addr div 256) * 256) = unat addr div 256 * 256"
    using e q lt by (simp add: unat_word_ariths unat_div)
  have "unat ((addr div 256) * 256 + 256) = unat addr div 256 * 256 + 256"
    using e q lt s by (simp add: unat_word_ariths(1) [of "(addr div 256) * 256"])
  then have "\<not> (addr div 256) * 256 + 256 > spf_capacity fl" using e q by (simp add: word_less_nat_alt)
  then show ?thesis using assms d s e q by (simp add: spi_sector_erase_def spi_wf_def Let_def not_le [symmetric])
qed

section \<open>The processor after reset\<close>

datatype CPUMode = CPU_MODE_REAL | CPU_MODE_PROTECTED | CPU_MODE_LONG

record ResetVector =
  rsv_startup_ip :: u32
  rsv_gdt_ptr :: u32
  rsv_idt_ptr :: u32

record CPUContext =
  cpx_eax :: u32
  cpx_ebx :: u32
  cpx_ecx :: u32
  cpx_edx :: u32
  cpx_esi :: u32
  cpx_edi :: u32
  cpx_esp :: u32
  cpx_ebp :: u32
  cpx_eip :: u32
  cpx_eflags :: u32
  cpx_cr0 :: u32
  cpx_cr3 :: u32
  cpx_cr4 :: u32
  cpx_current_mode :: CPUMode

definition reset_vector_init :: "u32 \<Rightarrow> ResetVector" where
  "reset_vector_init entry_ip = \<lparr>rsv_startup_ip = entry_ip, rsv_gdt_ptr = 0, rsv_idt_ptr = 0\<rparr>"

definition cpu_reset :: "CPUContext \<Rightarrow> ResetVector option \<Rightarrow> CPUContext \<times> bool" where
  "cpu_reset ctx rv =
     (case rv of None \<Rightarrow> (ctx, False)
      | Some v \<Rightarrow>
          (\<lparr>cpx_eax = 0, cpx_ebx = 0, cpx_ecx = 0, cpx_edx = 0, cpx_esi = 0, cpx_edi = 0, cpx_esp = 0, cpx_ebp = 0,
            cpx_eip = rsv_startup_ip v AND 0xFFFF, cpx_eflags = 2, cpx_cr0 = 0x10, cpx_cr3 = 0, cpx_cr4 = 0,
            cpx_current_mode = CPU_MODE_REAL\<rparr>, True))"

definition cpu_init_gdt :: "CPUContext \<Rightarrow> bool" where
  "cpu_init_gdt ctx = (if cpx_current_mode ctx \<noteq> CPU_MODE_REAL then False else True)"

definition cpu_init_idt :: "CPUContext \<Rightarrow> bool" where
  "cpu_init_idt ctx =
     (if cpx_current_mode ctx \<noteq> CPU_MODE_PROTECTED \<and> cpx_current_mode ctx \<noteq> CPU_MODE_REAL then False else True)"

definition cpu_switch_mode :: "CPUContext \<Rightarrow> CPUMode \<Rightarrow> CPUContext \<times> bool" where
  "cpu_switch_mode ctx target =
     (if cpx_current_mode ctx = CPU_MODE_REAL \<and> target = CPU_MODE_PROTECTED then
        (ctx\<lparr>cpx_cr0 := cpx_cr0 ctx OR 1, cpx_current_mode := CPU_MODE_PROTECTED\<rparr>, True)
      else if cpx_current_mode ctx = CPU_MODE_PROTECTED \<and> target = CPU_MODE_LONG then
        (ctx\<lparr>cpx_cr0 := cpx_cr0 ctx OR 1, cpx_cr4 := cpx_cr4 ctx OR 0x20, cpx_current_mode := CPU_MODE_LONG\<rparr>, True)
      else if cpx_current_mode ctx = target then (ctx, True)
      else (ctx, False))"

text \<open>The contexts that can be reached from reset by switching modes.\<close>

inductive cpu_reach :: "ResetVector \<Rightarrow> CPUContext \<Rightarrow> bool" for rv where
  cpu_reach_reset: "cpu_reach rv (fst (cpu_reset ctx (Some rv)))"
| cpu_reach_switch: "cpu_reach rv ctx \<Longrightarrow> cpu_reach rv (fst (cpu_switch_mode ctx target))"

definition mode_rank :: "CPUMode \<Rightarrow> nat" where
  "mode_rank m = (case m of CPU_MODE_REAL \<Rightarrow> 0 | CPU_MODE_PROTECTED \<Rightarrow> 1 | CPU_MODE_LONG \<Rightarrow> 2)"

text \<open>
  The control registers tell the mode: protection is on outside real mode, physical address
  extension in long mode only, and paging is never turned on, long mode included.
\<close>

lemma cpu_reach_registers:
  "cpu_reach rv ctx \<Longrightarrow>
    cpx_cr0 ctx = (if cpx_current_mode ctx = CPU_MODE_REAL then 0x10 else 0x11)
    \<and> cpx_cr4 ctx = (if cpx_current_mode ctx = CPU_MODE_LONG then 0x20 else 0) \<and> cpx_cr3 ctx = 0
    \<and> cpx_eip ctx = rsv_startup_ip rv AND 0xFFFF"
  by (induction rule: cpu_reach.induct) (auto simp: cpu_reset_def cpu_switch_mode_def)

lemma cpu_switch_rank:
  "mode_rank (cpx_current_mode ctx) \<le> mode_rank (cpx_current_mode (fst (cpu_switch_mode ctx target)))
    \<and> mode_rank (cpx_current_mode (fst (cpu_switch_mode ctx target))) \<le> mode_rank (cpx_current_mode ctx) + 1
    \<and> (snd (cpu_switch_mode ctx target) \<longleftrightarrow> cpx_current_mode (fst (cpu_switch_mode ctx target)) = target)"
  by (cases "cpx_current_mode ctx"; cases target) (simp_all add: cpu_switch_mode_def mode_rank_def)

section \<open>SMBIOS table set\<close>

text \<open>
  \<open>fms_tables\<close> holds the pointers, which are rows of \<open>fms_table_data\<close>; its length is the number
  of tables.  The entry point is kept by its fields.
\<close>

definition SMBIOS_MAX_TABLES :: nat where "SMBIOS_MAX_TABLES = 64"

record SMBIOSEntryPoint =
  fme_string :: bytes
  fme_checksum :: u8
  fme_length :: u8
  fme_major_ver :: u8
  fme_minor_ver :: u8
  fme_max_structure_size :: u16
  fme_entry_point_revision :: u8

record SMBIOS =
  fms_entry_point :: SMBIOSEntryPoint
  fms_tables :: "nat list"
  fms_table_data :: "bytes list"

definition fw_smbios_init :: "u8 \<Rightarrow> u8 \<Rightarrow> SMBIOS" where
  "fw_smbios_init major minor =
     \<lparr>fms_entry_point = \<lparr>fme_string = str_bytes ''_SM_'', fme_checksum = 0, fme_length = 0x1F, fme_major_ver = major,
        fme_minor_ver = minor, fme_max_structure_size = 512, fme_entry_point_revision = 0\<rparr>,
      fms_tables = [], fms_table_data = replicate SMBIOS_MAX_TABLES (zeros 512)\<rparr>"

definition fw_smbios_add_table :: "SMBIOS \<Rightarrow> bytes option \<Rightarrow> u32 \<Rightarrow> (SMBIOS \<times> bool) c_result" where
  "fw_smbios_add_table sm table table_len =
     (case table of None \<Rightarrow> Returned (sm, False)
      | Some t \<Rightarrow>
          if length (fms_tables sm) \<ge> SMBIOS_MAX_TABLES then Returned (sm, False)
          else if table_len > 512 then Returned (sm, False)
          else if unat table_len > length t then Undefined
          else Returned (sm\<lparr>fms_table_data := (fms_table_data sm)[length (fms_tables sm) := blit (zeros 512) 0 (take (unat table_len) t)],
                            fms_tables := fms_tables sm @ [length (fms_tables sm)]\<rparr>, True))"

definition fw_smbios_find_by_type :: "SMBIOS \<Rightarrow> u32 \<Rightarrow> nat option" where
  "fw_smbios_find_by_type sm ty = find (\<lambda>i. fms_table_data sm ! i ! 0 = ucast ty) (fms_tables sm)"

definition fw_smbios_wf :: "SMBIOS \<Rightarrow> bool" where
  "fw_smbios_wf sm \<longleftrightarrow> length (fms_table_data sm) = 64 \<and> (\<forall>row \<in> set (fms_table_data sm). length row = 512)
     \<and> length (fms_tables sm) \<le> 64 \<and> fms_tables sm = [0..<length (fms_tables sm)]"

lemma fw_smbios_init_wf: "fw_smbios_wf (fw_smbios_init major minor)"
  by (simp add: fw_smbios_wf_def fw_smbios_init_def SMBIOS_MAX_TABLES_def)

lemma fw_smbios_add_wf:
  assumes "fw_smbios_wf sm" and "fw_smbios_add_table sm table len = Returned (sm', ok)"
  shows "fw_smbios_wf sm'"
proof (cases ok)
  case True
  obtain t where t: "table = Some t" "unat len \<le> length t" "unat len \<le> 512" "length (fms_tables sm) < 64"
    "sm' = sm\<lparr>fms_table_data := (fms_table_data sm)[length (fms_tables sm) := blit (zeros 512) 0 (take (unat len) t)],
              fms_tables := fms_tables sm @ [length (fms_tables sm)]\<rparr>"
    using assms(2) True
    by (auto simp: fw_smbios_add_table_def SMBIOS_MAX_TABLES_def word_less_nat_alt not_less split: option.splits if_splits)
  have "length (blit (zeros 512) 0 (take (unat len) t)) = 512" using t(2,3) by simp
  moreover have "fms_tables sm = [0..<length (fms_tables sm)]" using assms(1) by (simp add: fw_smbios_wf_def)
  then have "fms_tables sm @ [length (fms_tables sm)] = [0..<Suc (length (fms_tables sm))]" by simp
  ultimately show ?thesis using assms(1) t(4,5)
    by (auto simp: fw_smbios_wf_def dest!: subsetD [OF set_update_subset_insert])
next
  case False
  then show ?thesis using assms by (auto simp: fw_smbios_add_table_def split: option.splits if_splits)
qed

text \<open>A new table is found by its type exactly when no earlier one has it; what was found stays.\<close>

lemma fw_smbios_add_find:
  assumes "fw_smbios_wf sm" and "fw_smbios_add_table sm (Some t) len = Returned (sm', True)" and "0 < unat len"
  shows "fw_smbios_find_by_type sm' ty =
    (case fw_smbios_find_by_type sm ty of Some i \<Rightarrow> Some i
     | None \<Rightarrow> if t ! 0 = ucast ty then Some (length (fms_tables sm)) else None)"
proof -
  let ?n = "length (fms_tables sm)"
  have t: "unat len \<le> length t" "unat len \<le> 512" "?n < 64"
    "sm' = sm\<lparr>fms_table_data := (fms_table_data sm)[?n := blit (zeros 512) 0 (take (unat len) t)],
              fms_tables := fms_tables sm @ [?n]\<rparr>"
    using assms(2)
    by (auto simp: fw_smbios_add_table_def SMBIOS_MAX_TABLES_def word_less_nat_alt not_less split: option.splits if_splits)
  have l: "length (fms_table_data sm) = 64" and u: "fms_tables sm = [0..<?n]" using assms(1) by (simp_all add: fw_smbios_wf_def)
  have old: "fms_table_data sm' ! i ! 0 = fms_table_data sm ! i ! 0" if "i \<in> set (fms_tables sm)" for i
  proof -
    have "i < ?n" using that u by (metis atLeastLessThan_iff set_upt)
    then show ?thesis using t(4) by simp
  qed
  have new: "fms_table_data sm' ! ?n ! 0 = t ! 0"
    using t l assms(3) by (simp add: blit_def nth_append)
  have "find P (xs @ [x]) = (case find P xs of Some i \<Rightarrow> Some i | None \<Rightarrow> if P x then Some x else None)" for P and xs :: "nat list" and x
    by (induction xs) auto
  moreover have "find (\<lambda>i. fms_table_data sm' ! i ! 0 = ucast ty) (fms_tables sm) = find (\<lambda>i. fms_table_data sm ! i ! 0 = ucast ty) (fms_tables sm)"
    using old by (intro find_cong) simp_all
  ultimately show ?thesis using t(4) new by (simp add: fw_smbios_find_by_type_def)
qed

end
