(* ===== verification/Mem_Train.thy ===== *)
theory Mem_Train
  imports Prelude
begin

text \<open>
  Memory initialisation of the firmware (\<open>meminit.c\<close>): channels of the memory controller, SPD
  decoding, the training state machine and the latency formulas.  The quotient that gives the
  frequency is taken in double precision and cut; its operands are below \<open>2 ^ 21\<close>, where a
  rounded quotient is never lifted to the next integer, so it is the integer quotient.  The record
  of the SPD has the bytes that are decoded; the DIMM descriptions of a channel, which only
  printing reads, are left out.
\<close>

section \<open>Data\<close>

definition MAX_CHANNELS :: nat where "MAX_CHANNELS = 4"

record SPDData =
  spd_dram_device_type :: u8
  spd_density_banks :: u8
  spd_organization :: u8
  spd_bus_width :: u8
  spd_tck_min :: u8
  spd_twr_min :: u8
  spd_trcd_min :: u8
  spd_trp_min :: u8
  spd_tras_min_hi :: u8
  spd_tras_min_lo :: u8
  spd_trfc_min_hi :: u8
  spd_trfc_min_lo :: u8

record DDRTiming =
  ddt_frequency_mhz :: u32
  ddt_cas_latency :: u16
  ddt_trcd :: u16
  ddt_trp :: u16
  ddt_tras :: u16
  ddt_trc :: u16
  ddt_trfc :: u16
  ddt_twr :: u16
  ddt_trrd_s :: u16
  ddt_trrd_l :: u16
  ddt_tfaw :: u16
  ddt_cwl :: u16
  ddt_gear2 :: bool
  ddt_ecc_support :: bool

datatype MemInitState = MEM_INIT_RESET | MEM_INIT_DLL_LOCK | MEM_INIT_ZQCAL | MEM_INIT_MRS | MEM_INIT_READ_LEVEL
  | MEM_INIT_WRITE_LEVEL | MEM_INIT_DQS_GATING | MEM_INIT_VREF_TRAIN | MEM_INIT_MPR_READ | MEM_INIT_COMPLETE | MEM_INIT_FAILED

record MemoryChannel =
  mch_id :: u32
  mch_num_dimms :: u8
  mch_timing :: DDRTiming
  mch_state :: MemInitState
  mch_channel_base_addr :: u64
  mch_channel_size :: u64
  mch_interleaved :: bool
  mch_active :: bool

record MemoryController =
  mct_channels :: "MemoryChannel list"
  mct_total_memory :: u64
  mct_usable_memory :: u64
  mct_tseg_base :: u64
  mct_tseg_size :: u32
  mct_mmio_base :: u64
  mct_mmio_limit :: u64
  mct_top_of_low_memory :: u64
  mct_memory_trained :: bool
  mct_error_count :: u32

definition zero_timing :: DDRTiming where
  "zero_timing = \<lparr>ddt_frequency_mhz = 0, ddt_cas_latency = 0, ddt_trcd = 0, ddt_trp = 0, ddt_tras = 0, ddt_trc = 0,
     ddt_trfc = 0, ddt_twr = 0, ddt_trrd_s = 0, ddt_trrd_l = 0, ddt_tfaw = 0, ddt_cwl = 0, ddt_gear2 = False,
     ddt_ecc_support = False\<rparr>"

section \<open>Operations\<close>

definition memctrl_init :: MemoryController where
  "memctrl_init = \<lparr>mct_channels = [], mct_total_memory = 0, mct_usable_memory = 0, mct_tseg_base = 0, mct_tseg_size = 0,
     mct_mmio_base = 0, mct_mmio_limit = 0, mct_top_of_low_memory = 0xA0000, mct_memory_trained = False, mct_error_count = 0\<rparr>"

definition memctrl_add_channel :: "MemoryController \<Rightarrow> u32 \<Rightarrow> u64 \<Rightarrow> u64 \<Rightarrow> MemoryController \<times> bool" where
  "memctrl_add_channel mc i base sz =
     (if length (mct_channels mc) \<ge> MAX_CHANNELS then (mc, False)
      else (mc\<lparr>mct_channels := mct_channels mc @
                 [\<lparr>mch_id = i, mch_num_dimms = 0, mch_timing = zero_timing, mch_state = MEM_INIT_RESET,
                   mch_channel_base_addr = base, mch_channel_size = sz, mch_interleaved = False, mch_active = False\<rparr>],
               mct_total_memory := mct_total_memory mc + sz\<rparr>, True))"

definition die_gigabits :: "u8 \<Rightarrow> u32" where
  "die_gigabits density =
     (if density = 1 then 2 else if density = 2 then 4 else if density = 3 then 8 else if density = 4 then 12
      else if density = 5 then 16 else if density = 6 then 24 else if density = 7 then 32 else 0)"

definition spd_bus_bits :: "SPDData \<Rightarrow> u32" where
  "spd_bus_bits spd = (let w = push_bit (unat (spd_bus_width spd AND 7)) 8 in if w > 64 then 64 else w)"

definition spd_cycles :: "u8 \<Rightarrow> u16" where
  "spd_cycles t = of_nat (unat t * 1000 div 625 + 1)"

definition spd_pair :: "u8 \<Rightarrow> u8 \<Rightarrow> u16" where
  "spd_pair hi lo = push_bit 8 (ucast hi) OR ucast lo"

text \<open>
  \<open>Inl\<close> is a refusal, with the cleared timing; \<open>Inr\<close> the timing and the capacity.
\<close>

definition memctrl_parse_spd :: "SPDData \<Rightarrow> DDRTiming + (DDRTiming \<times> u64)" where
  "memctrl_parse_spd spd =
     (if spd_dram_device_type spd \<noteq> 0x0C then Inl zero_timing
      else let density = drop_bit 4 (spd_density_banks spd) AND 0x0F;
               bus = spd_bus_bits spd;
               ranks = (spd_organization spd AND 7) + 1;
               cap = ucast (die_gigabits density) * 1024 * 1024 * 1024 * ucast (bus div 8) * ucast ranks;
               tck_ps = unat (spd_tck_min spd) * 1250 div 256;
               freq = (if spd_tck_min spd > 0 then of_nat (2000000 div tck_ps) else 3200);
               cas = 22;
               tras = spd_pair (spd_tras_min_hi spd) (spd_tras_min_lo spd);
               trp = spd_cycles (spd_trp_min spd)
           in Inr (\<lparr>ddt_frequency_mhz = freq, ddt_cas_latency = cas, ddt_trcd = spd_cycles (spd_trcd_min spd), ddt_trp = trp,
                    ddt_tras = tras, ddt_trc = tras + trp, ddt_trfc = spd_pair (spd_trfc_min_hi spd) (spd_trfc_min_lo spd),
                    ddt_twr = spd_cycles (spd_twr_min spd), ddt_trrd_s = 4, ddt_trrd_l = 6, ddt_tfaw = 21,
                    ddt_cwl = (if cas > 2 then cas - 2 else 9), ddt_gear2 = False, ddt_ecc_support = (bus = 72)\<rparr>, cap))"

text \<open>The training loop: the states in the order of the enumeration.\<close>

definition train_states :: "MemInitState list" where
  "train_states = [MEM_INIT_RESET, MEM_INIT_DLL_LOCK, MEM_INIT_ZQCAL, MEM_INIT_MRS, MEM_INIT_READ_LEVEL, MEM_INIT_WRITE_LEVEL,
     MEM_INIT_DQS_GATING, MEM_INIT_VREF_TRAIN, MEM_INIT_MPR_READ, MEM_INIT_COMPLETE]"

definition train_step :: "MemInitState \<Rightarrow> MemoryChannel \<Rightarrow> MemoryChannel" where
  "train_step st chan = (if st = MEM_INIT_COMPLETE then chan\<lparr>mch_state := st, mch_active := True\<rparr> else chan\<lparr>mch_state := st\<rparr>)"

definition memctrl_train_channel :: "MemoryChannel \<Rightarrow> MemoryChannel \<times> bool" where
  "memctrl_train_channel chan = (let c = fold train_step train_states chan in (c, mch_active c))"

definition memctrl_train_all :: "MemoryController \<Rightarrow> MemoryController \<times> bool" where
  "memctrl_train_all mc =
     (let rs = map memctrl_train_channel (mct_channels mc);
          errors = of_nat (length (filter (\<lambda>(c, ok). \<not> ok) rs))
      in (mc\<lparr>mct_channels := map fst rs, mct_memory_trained := (errors = 0), mct_error_count := errors,
             mct_usable_memory := mct_total_memory mc\<rparr>, errors = 0))"

definition memctrl_calc_read_latency :: "DDRTiming option \<Rightarrow> u32" where
  "memctrl_calc_read_latency t =
     (case t of None \<Rightarrow> 0
      | Some d \<Rightarrow> if ddt_frequency_mhz d = 0 then 0
                  else 0 + ucast (ddt_cas_latency d) + (if ddt_ecc_support d \<and> ddt_frequency_mhz d \<ge> 2400 then 4 else 0))"

definition memctrl_calc_write_latency :: "DDRTiming option \<Rightarrow> u32" where
  "memctrl_calc_write_latency t =
     (case t of None \<Rightarrow> 0 | Some d \<Rightarrow> if ddt_frequency_mhz d = 0 then 0 else 0 + ucast (ddt_cwl d))"

section \<open>Facts\<close>

text \<open>Training ends in the last state, whatever the channel was, and cannot fail.\<close>

lemma train_channel_always:
  "memctrl_train_channel chan = (chan\<lparr>mch_state := MEM_INIT_COMPLETE, mch_active := True\<rparr>, True)"
  by (simp add: memctrl_train_channel_def train_states_def train_step_def)

lemma train_all_always:
  "memctrl_train_all mc =
     (mc\<lparr>mct_channels := map (\<lambda>c. c\<lparr>mch_state := MEM_INIT_COMPLETE, mch_active := True\<rparr>) (mct_channels mc),
         mct_memory_trained := True, mct_error_count := 0, mct_usable_memory := mct_total_memory mc\<rparr>, True)"
  by (simp add: memctrl_train_all_def train_channel_always o_def Let_def filter_empty_conv)

text \<open>The total is the sum of the channels, wrapped to 64 bits, over any additions.\<close>

fun add_channels :: "(u32 \<times> u64 \<times> u64) list \<Rightarrow> MemoryController \<Rightarrow> MemoryController" where
  "add_channels [] mc = mc"
| "add_channels ((i, base, sz) # xs) mc = add_channels xs (fst (memctrl_add_channel mc i base sz))"

lemma add_channels_total:
  assumes "mct_total_memory mc = sum_list (map mch_channel_size (mct_channels mc))" and "length (mct_channels mc) \<le> 4"
  shows "mct_total_memory (add_channels xs mc) = sum_list (map mch_channel_size (mct_channels (add_channels xs mc)))
    \<and> length (mct_channels (add_channels xs mc)) = min 4 (length (mct_channels mc) + length xs)"
  using assms
proof (induction xs arbitrary: mc)
  case Nil
  then show ?case by simp
next
  case (Cons x xs)
  obtain i base sz where x: "x = (i, base, sz)" using prod_cases3 by blast
  let ?m = "fst (memctrl_add_channel mc i base sz)"
  have "mct_total_memory ?m = sum_list (map mch_channel_size (mct_channels ?m))" "length (mct_channels ?m) = min 4 (length (mct_channels mc) + 1)"
    using Cons.prems by (auto simp: memctrl_add_channel_def MAX_CHANNELS_def)
  then show ?case using Cons.IH [of ?m] x by simp
qed

text \<open>No bus is 72 bits wide, so error correction is never reported and adds no latency.\<close>

lemma spd_bus_bits_bound: "spd_bus_bits spd \<le> 64"
  by (simp add: spd_bus_bits_def Let_def not_less)

lemma spd_no_ecc:
  assumes "memctrl_parse_spd spd = Inr (t, cap)"
  shows "\<not> ddt_ecc_support t \<and> ddt_cwl t = 20 \<and> memctrl_calc_read_latency (Some t) \<in> {0, 22} \<and> memctrl_calc_write_latency (Some t) \<in> {0, 20}"
proof -
  have "spd_bus_bits spd \<noteq> 72"
  proof
    assume "spd_bus_bits spd = 72"
    then show False using spd_bus_bits_bound [of spd] by simp
  qed
  then show ?thesis using assms
    by (auto simp: memctrl_parse_spd_def Let_def memctrl_calc_read_latency_def memctrl_calc_write_latency_def split: if_splits)
qed

text \<open>The cycle time decides the frequency; it is never 0.\<close>

lemma spd_frequency:
  assumes "memctrl_parse_spd spd = Inr (t, cap)" and "spd_tck_min spd \<noteq> 0"
  shows "unat (ddt_frequency_mhz t) = 2000000 div (unat (spd_tck_min spd) * 1250 div 256) \<and> ddt_frequency_mhz t \<noteq> 0"
proof -
  let ?t = "unat (spd_tck_min spd)"
  have t: "0 < ?t" "?t < 256" using assms(2) unsigned_less [of "spd_tck_min spd", where 'a = nat] by (simp_all add: unat_gt_0)
  have p: "4 \<le> ?t * 1250 div 256" "?t * 1250 div 256 \<le> 2000000"
    using t div_le_mono [of 1250 "?t * 1250" 256] div_le_mono [of "?t * 1250" "512000000" 256] by simp_all
  have f: "ddt_frequency_mhz t = of_nat (2000000 div (?t * 1250 div 256))"
    using assms t by (auto simp: memctrl_parse_spd_def Let_def word_gt_0 split: if_splits)
  have "2000000 div (?t * 1250 div 256) < 2 ^ 32"
    by (rule le_less_trans [OF div_le_dividend]) simp
  then have u: "unat (ddt_frequency_mhz t) = 2000000 div (?t * 1250 div 256)" unfolding f by (simp add: unat_of_nat)
  moreover have "0 < 2000000 div (?t * 1250 div 256)" using p by (simp add: div_greater_zero_iff)
  ultimately show ?thesis by auto
qed

end
