(* ===== verification/Acpi_Fw.thy ===== *)
theory Acpi_Fw
  imports Prelude
begin

text \<open>
  The ACPI tables that the firmware builds (\<open>acpi_fw.c\<close>).  A table is the list of its bytes; the
  manager points to tables it allocated, which live in a heap indexed by allocation, or to the
  fixed table (FADT) inside itself.  Structures have the layout of x86-64: they are not packed, so
  the FADT has 328 bytes with its padding and the root pointer 40.  Whether \<open>calloc\<close> succeeds is a
  parameter.
\<close>

section \<open>Layout\<close>

definition ACPI_MAX_TABLES :: nat where "ACPI_MAX_TABLES = 32"
definition ACPI_OEM_ID_LEN :: nat where "ACPI_OEM_ID_LEN = 6"
definition ACPI_OEM_TABLE_LEN :: nat where "ACPI_OEM_TABLE_LEN = 8"
definition MADT_TYPE_LAPIC :: u8 where "MADT_TYPE_LAPIC = 0"
definition MADT_TYPE_IOAPIC :: u8 where "MADT_TYPE_IOAPIC = 1"
definition MADT_TYPE_GICC :: u8 where "MADT_TYPE_GICC = 11"
definition MADT_TYPE_GICD :: u8 where "MADT_TYPE_GICD = 12"
definition MADT_TYPE_GICR :: u8 where "MADT_TYPE_GICR = 14"

text \<open>The common header: signature, length, revision, checksum, then 26 bytes that are zero at first.\<close>

definition sdt_header :: "bytes \<Rightarrow> u32 \<Rightarrow> u8 \<Rightarrow> bytes" where
  "sdt_header sig len rvn = sig @ le32_list len @ [rvn, 0] @ zeros 26"

definition table_length :: "bytes \<Rightarrow> u32" where
  "table_length t = le32 (t ! 4) (t ! 5) (t ! 6) (t ! 7)"

datatype acpi_ptr = Fadt_ptr | Heap_ptr nat

record ACPIManager =
  acm_rsdp :: bytes
  acm_xsdt_header :: bytes
  acm_xsdt_entries :: "acpi_ptr list"
  acm_table_ptrs :: "acpi_ptr list"
  acm_fadt :: bytes
  acm_oem_id :: bytes
  acm_oem_table_id :: bytes
  acm_heap :: "bytes list"

definition acpi_table :: "ACPIManager \<Rightarrow> acpi_ptr \<Rightarrow> bytes" where
  "acpi_table mgr p = (case p of Fadt_ptr \<Rightarrow> acm_fadt mgr | Heap_ptr i \<Rightarrow> acm_heap mgr ! i)"

definition put_table :: "ACPIManager \<Rightarrow> acpi_ptr \<Rightarrow> bytes \<Rightarrow> ACPIManager" where
  "put_table mgr p t = (case p of Fadt_ptr \<Rightarrow> mgr\<lparr>acm_fadt := t\<rparr> | Heap_ptr i \<Rightarrow> mgr\<lparr>acm_heap := (acm_heap mgr)[i := t]\<rparr>)"

section \<open>Operations\<close>

text \<open>The two names are strings without their NUL; \<open>acm_oem_id\<close> has room for one more byte.\<close>

definition acpi_init :: "bytes option \<Rightarrow> bytes option \<Rightarrow> ACPIManager option" where
  "acpi_init oem tbl =
     (case (oem, tbl) of
        (Some o1, Some t1) \<Rightarrow>
          let o2 = take ACPI_OEM_ID_LEN o1; t2 = take ACPI_OEM_TABLE_LEN t1;
              oid = o2 @ zeros (7 - length o2); tid = t2 @ zeros (9 - length t2)
          in Some \<lparr>acm_rsdp = str_bytes ''RSD PTR '' @ [0] @ take 6 oid @ [2] @ zeros 4 @ le32_list 40 @ zeros 16,
                   acm_xsdt_header = str_bytes ''XSDT'' @ le32_list 296 @ [1, 0] @ take 6 oid @ take 8 tid @ zeros 4
                                       @ le32_list 0x4D494E49 @ le32_list 1,
                   acm_xsdt_entries = [], acm_table_ptrs = [], acm_fadt = zeros 328,
                   acm_oem_id = oid, acm_oem_table_id = tid, acm_heap = []\<rparr>
      | _ \<Rightarrow> None)"

text \<open>\<open>256 - sum\<close> in 8 bits is the negated sum.\<close>

definition acpi_set_checksum :: "bytes \<Rightarrow> bytes c_result" where
  "acpi_set_checksum t =
     (let len = unat (table_length t); t0 = t[9 := 0] in
      if len > length t then Undefined
      else Returned (t0[9 := - sum_list (take len t0)]))"

definition acpi_add_table :: "ACPIManager \<Rightarrow> acpi_ptr \<Rightarrow> (ACPIManager \<times> bool) c_result" where
  "acpi_add_table mgr p =
     (if length (acm_table_ptrs mgr) \<ge> ACPI_MAX_TABLES then Returned (mgr, False)
      else let t = blit (blit (acpi_table mgr p) 10 (take 6 (acm_oem_id mgr))) 16 (take 8 (acm_oem_table_id mgr)) in
      if length (acpi_table mgr p) < 36 then Undefined
      else case acpi_set_checksum t of
        Returned t1 \<Rightarrow>
          let m1 = put_table mgr p t1; ptrs = acm_table_ptrs m1 @ [p] in
          Returned (m1\<lparr>acm_xsdt_entries := acm_xsdt_entries m1 @ [p], acm_table_ptrs := ptrs,
                       acm_xsdt_header := blit (acm_xsdt_header m1) 4 (le32_list (36 + of_nat (length ptrs) * 8))\<rparr>, True)
      | Undefined \<Rightarrow> Undefined | Diverges \<Rightarrow> Diverges)"

fun checksums_valid :: "ACPIManager \<Rightarrow> acpi_ptr list \<Rightarrow> bool c_result" where
  "checksums_valid mgr [] = Returned True"
| "checksums_valid mgr (p # ps) =
     (let t = acpi_table mgr p in
      if unat (table_length t) > length t then Undefined
      else if sum_list (take (unat (table_length t)) t) \<noteq> 0 then Returned False
      else checksums_valid mgr ps)"

definition acpi_validate_checksums :: "ACPIManager option \<Rightarrow> bool c_result" where
  "acpi_validate_checksums mgr = (case mgr of None \<Rightarrow> Returned False | Some m \<Rightarrow> checksums_valid m (acm_table_ptrs m))"

text \<open>The FADT, with one byte of padding before the boot flags and three before the flags.\<close>

definition fadt_bytes :: "u8 \<Rightarrow> u16 \<Rightarrow> u32 \<Rightarrow> bytes" where
  "fadt_bytes pm_profile sci_irq flags =
     sdt_header (str_bytes ''FACP'') 328 6 @ zeros 8 @ [0, pm_profile] @ le16_list sci_irq @ le32_list 0xB2
       @ [0xA0, 0xA1, 0, 0] @ le32_list 0x400 @ zeros 4 @ le32_list 0x404 @ zeros 8 @ le32_list 0x408 @ le32_list 0x420
       @ zeros 4 @ [4, 2, 0, 4, 8, 0, 0, 0] @ zeros 8 @ zeros 5 @ [0] @ le16_list 3 @ [0] @ zeros 3 @ le32_list flags
       @ [1, 8, 0, 0] @ zeros 4 @ le64_list 0xCF9 @ [6] @ zeros 191"

definition acpi_build_fadt :: "ACPIManager \<Rightarrow> u8 \<Rightarrow> u16 \<Rightarrow> u32 \<Rightarrow> (ACPIManager \<times> bool) c_result" where
  "acpi_build_fadt mgr pm_profile sci_irq flags = acpi_add_table (mgr\<lparr>acm_fadt := fadt_bytes pm_profile sci_irq flags\<rparr>) Fadt_ptr"

definition alloc_and_add :: "ACPIManager \<Rightarrow> bytes \<Rightarrow> (ACPIManager \<times> bool) c_result" where
  "alloc_and_add mgr t = acpi_add_table (mgr\<lparr>acm_heap := acm_heap mgr @ [t]\<rparr>) (Heap_ptr (length (acm_heap mgr)))"

definition lapic_entry :: "nat \<Rightarrow> u8 \<Rightarrow> bytes" where
  "lapic_entry i apic_id = [MADT_TYPE_LAPIC, 8, of_nat i, apic_id] @ le32_list 1"

definition madt_lapic_bytes :: "u32 \<Rightarrow> nat \<Rightarrow> bytes \<Rightarrow> bytes" where
  "madt_lapic_bytes base n ids =
     sdt_header (str_bytes ''APIC'') (of_nat (44 + (n * 8 + 12))) 4 @ le32_list base @ le32_list 1
       @ concat (map (\<lambda>i. lapic_entry i (ids ! i)) [0..<n])
       @ [MADT_TYPE_IOAPIC, 12, 0, 0] @ le32_list 0xFEC00000 @ le32_list 0"

definition acpi_build_madt_lapic ::
  "bool \<Rightarrow> ACPIManager \<Rightarrow> u32 \<Rightarrow> u8 \<Rightarrow> bytes option \<Rightarrow> (ACPIManager \<times> bool) c_result" where
  "acpi_build_madt_lapic alloc mgr base cpu_count apic_ids =
     (case apic_ids of None \<Rightarrow> Returned (mgr, False)
      | Some ids \<Rightarrow>
          if cpu_count = 0 \<or> cpu_count > 64 then Returned (mgr, False)
          else if \<not> alloc then Returned (mgr, False)
          else if length ids < unat cpu_count then Undefined
          else alloc_and_add mgr (madt_lapic_bytes base (unat cpu_count) ids))"

definition madt_gic_bytes :: "u64 \<Rightarrow> nat \<Rightarrow> bytes" where
  "madt_gic_bytes gicd n =
     sdt_header (str_bytes ''APIC'') (of_nat (44 + 16 + n * 78 + 18)) 5 @ le32_list 0 @ le32_list 0
       @ [MADT_TYPE_GICD, 16] @ zeros 6 @ le64_list gicd
       @ concat (replicate n ([MADT_TYPE_GICC, 78] @ zeros 76)) @ [MADT_TYPE_GICR, 18] @ zeros 16"

definition acpi_build_madt_gic :: "bool \<Rightarrow> ACPIManager \<Rightarrow> u64 \<Rightarrow> u64 \<Rightarrow> u8 \<Rightarrow> (ACPIManager \<times> bool) c_result" where
  "acpi_build_madt_gic alloc mgr gicd gicr cpu_count =
     (if cpu_count = 0 \<or> cpu_count > 64 then Returned (mgr, False)
      else if \<not> alloc then Returned (mgr, False)
      else alloc_and_add mgr (madt_gic_bytes gicd (unat cpu_count)))"

definition minimal_aml :: bytes where
  "minimal_aml = str_bytes ''DSDT'' @ [48, 0, 0, 0, 2, 0] @ str_bytes ''MINIFW'' @ str_bytes ''DSDTAML_'' @ [1, 0, 0, 0]
     @ str_bytes ''INTL'' @ [32, 36, 6, 0, 16, 76, 4, 91, 130, 44, 8, 95, 72, 73, 68, 0, 91, 130, 43, 8, 95, 72, 73, 68, 1]"

definition acpi_build_dsdt :: "bool \<Rightarrow> ACPIManager \<Rightarrow> (ACPIManager \<times> bool) c_result" where
  "acpi_build_dsdt alloc mgr =
     (if \<not> alloc then Returned (mgr, False)
      else alloc_and_add mgr (sdt_header (str_bytes ''DSDT'') (36 + of_nat (length minimal_aml)) 2 @ minimal_aml))"

text \<open>The signature is an array of at least four bytes.\<close>

definition acpi_find_table :: "ACPIManager option \<Rightarrow> bytes option \<Rightarrow> acpi_ptr option" where
  "acpi_find_table mgr sig =
     (case (mgr, sig) of (Some m, Some s) \<Rightarrow> find (\<lambda>p. take 4 (acpi_table m p) = take 4 s) (acm_table_ptrs m) | _ \<Rightarrow> None)"

section \<open>Checksums\<close>

lemma sum_list_set_byte:
  assumes "i < n" and "n \<le> length t"
  shows "sum_list (take n (t[i := v])) = sum_list (take n (t[i := 0])) + (v :: u8)"
proof -
  have "take n (t[i := w]) = take i t @ w # drop (Suc i) (take n t)" for w
    using assms by (simp add: take_update_swap [symmetric] upd_conv_take_nth_drop min_def take_Cons' drop_take)
  then show ?thesis by (simp add: ac_simps)
qed

definition sound_table :: "bytes \<Rightarrow> bool" where
  "sound_table t \<longleftrightarrow> 36 \<le> length t \<and> 10 \<le> unat (table_length t) \<and> unat (table_length t) \<le> length t"

lemma table_length_update: "8 \<le> i \<Longrightarrow> table_length (t[i := v]) = table_length t"
  by (simp add: table_length_def)

lemma table_length_blit:
  assumes "8 \<le> off" and "off + length ys \<le> length t"
  shows "table_length (blit t off ys) = table_length t"
  using assms by (simp add: table_length_def nth_blit)

lemma set_checksum_sums:
  assumes "sound_table t"
  shows "\<exists>t1. acpi_set_checksum t = Returned t1 \<and> sound_table t1 \<and> table_length t1 = table_length t
    \<and> length t1 = length t \<and> sum_list (take (unat (table_length t1)) t1) = 0 \<and> take 4 t1 = take 4 t"
proof -
  let ?n = "unat (table_length t)" and ?v = "- sum_list (take (unat (table_length t)) (t[9 := 0]))"
  have n: "9 < ?n" "?n \<le> length t" using assms by (simp_all add: sound_table_def)
  have "sum_list (take ?n (t[9 := ?v])) = 0" using sum_list_set_byte [OF n, of ?v] by simp
  moreover have "acpi_set_checksum t = Returned (t[9 := ?v])" using n by (simp add: acpi_set_checksum_def Let_def)
  ultimately show ?thesis using assms by (simp add: sound_table_def table_length_update)
qed

text \<open>The invariant: every table of the manager is there, has its length, and sums to 0.\<close>

definition table_sound :: "ACPIManager \<Rightarrow> acpi_ptr \<Rightarrow> bool" where
  "table_sound mgr p \<longleftrightarrow> (case p of Fadt_ptr \<Rightarrow> True | Heap_ptr i \<Rightarrow> i < length (acm_heap mgr)) \<and> sound_table (acpi_table mgr p)
     \<and> sum_list (take (unat (table_length (acpi_table mgr p))) (acpi_table mgr p)) = 0"

definition acpi_inv :: "ACPIManager \<Rightarrow> bool" where
  "acpi_inv mgr \<longleftrightarrow> length (acm_table_ptrs mgr) \<le> ACPI_MAX_TABLES \<and> acm_xsdt_entries mgr = acm_table_ptrs mgr
     \<and> length (acm_oem_id mgr) = 7 \<and> length (acm_oem_table_id mgr) = 9 \<and> length (acm_xsdt_header mgr) = 36
     \<and> list_all (table_sound mgr) (acm_table_ptrs mgr)"

lemma acpi_init_inv: "acpi_init oem tbl = Some mgr \<Longrightarrow> acpi_inv mgr"
  by (auto simp: acpi_init_def acpi_inv_def Let_def ACPI_OEM_ID_LEN_def ACPI_OEM_TABLE_LEN_def split: option.splits)

lemma checksums_valid_inv:
  "list_all (table_sound mgr) ps \<Longrightarrow> checksums_valid mgr ps = Returned True"
  by (induction ps) (auto simp: table_sound_def sound_table_def Let_def)

lemma acpi_inv_validates: "acpi_inv mgr \<Longrightarrow> acpi_validate_checksums (Some mgr) = Returned True"
  by (simp add: acpi_validate_checksums_def acpi_inv_def checksums_valid_inv)

lemma acpi_table_put:
  "(case p of Fadt_ptr \<Rightarrow> True | Heap_ptr i \<Rightarrow> i < length (acm_heap mgr)) \<Longrightarrow>
    acpi_table (put_table mgr p t) q = (if q = p then t else acpi_table mgr q)"
  by (auto simp: acpi_table_def put_table_def nth_list_update split: acpi_ptr.splits)

lemma put_table_frame [simp]:
  "acm_table_ptrs (put_table mgr p t) = acm_table_ptrs mgr" "acm_xsdt_entries (put_table mgr p t) = acm_xsdt_entries mgr"
  "acm_oem_id (put_table mgr p t) = acm_oem_id mgr" "acm_oem_table_id (put_table mgr p t) = acm_oem_table_id mgr"
  "acm_xsdt_header (put_table mgr p t) = acm_xsdt_header mgr" "length (acm_heap (put_table mgr p t)) = length (acm_heap mgr)"
  by (simp_all add: put_table_def split: acpi_ptr.split)

lemma acpi_table_frame [simp]:
  "acpi_table (mgr\<lparr>acm_xsdt_entries := e, acm_table_ptrs := ps, acm_xsdt_header := h\<rparr>) q = acpi_table mgr q"
  by (simp add: acpi_table_def split: acpi_ptr.split)

text \<open>What adding a table needs of the tables that are already there.\<close>

definition acpi_others :: "ACPIManager \<Rightarrow> acpi_ptr \<Rightarrow> bool" where
  "acpi_others mgr p \<longleftrightarrow> acm_xsdt_entries mgr = acm_table_ptrs mgr
     \<and> length (acm_oem_id mgr) = 7 \<and> length (acm_oem_table_id mgr) = 9 \<and> length (acm_xsdt_header mgr) = 36
     \<and> (case p of Fadt_ptr \<Rightarrow> True | Heap_ptr i \<Rightarrow> i < length (acm_heap mgr)) \<and> sound_table (acpi_table mgr p)
     \<and> list_all (\<lambda>q. q = p \<or> table_sound mgr q) (acm_table_ptrs mgr)"

lemma acpi_add_table_inv:
  assumes "acpi_others mgr p" and "length (acm_table_ptrs mgr) < ACPI_MAX_TABLES"
  shows "\<exists>mgr'. acpi_add_table mgr p = Returned (mgr', True) \<and> acpi_inv mgr' \<and> acm_table_ptrs mgr' = acm_table_ptrs mgr @ [p]
    \<and> (\<forall>q. take 4 (acpi_table mgr' q) = take 4 (acpi_table mgr q)) \<and> length (acm_heap mgr') = length (acm_heap mgr)"
proof -
  let ?t = "acpi_table mgr p"
  let ?b1 = "blit ?t 10 (take 6 (acm_oem_id mgr))"
  let ?b = "blit ?b1 16 (take 8 (acm_oem_table_id mgr))"
  have p: "case p of Fadt_ptr \<Rightarrow> True | Heap_ptr i \<Rightarrow> i < length (acm_heap mgr)" and s: "sound_table ?t"
    using assms(1) by (simp_all add: acpi_others_def)
  have l: "length ?b1 = length ?t" "length ?b = length ?t"
    using assms(1) s by (simp_all add: acpi_others_def sound_table_def)
  have n: "length (take 6 (acm_oem_id mgr)) = 6" "length (take 8 (acm_oem_table_id mgr)) = 8" "36 \<le> length ?t"
    using assms(1) s by (simp_all add: acpi_others_def sound_table_def)
  have tl: "table_length ?b = table_length ?t" using n l by (simp add: table_length_blit)
  have t4: "take 4 ?b = take 4 ?t" using n l by (simp add: blit_def)
  have "sound_table ?b" using s l tl by (simp add: sound_table_def)
  then obtain t1 where t1: "acpi_set_checksum ?b = Returned t1" "sound_table t1" "length t1 = length ?b"
    "sum_list (take (unat (table_length t1)) t1) = 0" "take 4 t1 = take 4 ?b" using set_checksum_sums [of ?b] by blast
  define m1 where "m1 = put_table mgr p t1"
  define m2 where "m2 = m1\<lparr>acm_xsdt_entries := acm_xsdt_entries mgr @ [p], acm_table_ptrs := acm_table_ptrs mgr @ [p],
      acm_xsdt_header := blit (acm_xsdt_header mgr) 4 (le32_list (36 + of_nat (length (acm_table_ptrs mgr @ [p])) * 8))\<rparr>"
  have tab: "acpi_table m2 q = (if q = p then t1 else acpi_table mgr q)" for q
    using acpi_table_put [OF p, of t1 q] by (simp add: m2_def m1_def)
  have hp: "length (acm_heap m2) = length (acm_heap mgr)" by (simp add: m2_def m1_def)
  have snd: "table_sound m2 q" if "q = p \<or> table_sound mgr q" for q
    using that p t1(2,4) hp by (cases "q = p") (simp_all add: table_sound_def tab split: acpi_ptr.splits)
  have "acpi_add_table mgr p = Returned (m2, True)"
    using assms(2) s t1(1) by (simp add: acpi_add_table_def sound_table_def Let_def m2_def m1_def not_less)
  moreover have "list_all (table_sound m2) (acm_table_ptrs mgr @ [p])"
    using assms(1) snd by (auto simp: acpi_others_def list_all_iff)
  then have "acpi_inv m2" using assms by (simp add: acpi_inv_def acpi_others_def m2_def m1_def)
  moreover have "take 4 (acpi_table m2 q) = take 4 (acpi_table mgr q)" for q using tab t1(5) t4 by simp
  ultimately show ?thesis using hp by (auto simp: m2_def m1_def)
qed

section \<open>Runs of the builders\<close>

lemma length_sdt_header: "length sig = 4 \<Longrightarrow> length (sdt_header sig len rvn) = 36"
  by (simp add: sdt_header_def)

lemma table_length_header: "length sig = 4 \<Longrightarrow> table_length (sdt_header sig len rvn @ rest) = len"
  by (simp add: table_length_def sdt_header_def nth_append le32_list_def)

lemma length_lapics: "length (concat (map (\<lambda>i. lapic_entry i (f i)) [0..<n])) = 8 * n"
  by (induction n) (simp_all add: lapic_entry_def)

lemma length_concat_replicate [simp]: "length (concat (replicate n xs)) = n * length xs"
  by (induction n) simp_all

lemma sound_header_table:
  assumes "length sig = 4" and "unat len = 36 + length rest"
  shows "sound_table (sdt_header sig len rvn @ rest)"
  using assms by (simp add: sound_table_def table_length_header length_sdt_header)

lemma sound_header_nat:
  assumes "length sig = 4" and "k = 36 + length rest" and "k < 2 ^ 32"
  shows "sound_table (sdt_header sig (of_nat k) rvn @ rest)"
proof -
  have "unat (of_nat k :: u32) = 36 + length rest" using assms(2,3) unat_of_nat_u32 [of k] by simp
  then show ?thesis by (rule sound_header_table [OF assms(1)])
qed

lemma fadt_sound: "sound_table (fadt_bytes pm sci flags) \<and> take 4 (fadt_bytes pm sci flags) = str_bytes ''FACP''"
  unfolding fadt_bytes_def by (intro conjI sound_header_table) (simp_all add: sdt_header_def)

lemma madt_lapic_sound:
  "n \<le> 64 \<Longrightarrow> sound_table (madt_lapic_bytes base n ids) \<and> take 4 (madt_lapic_bytes base n ids) = str_bytes ''APIC''"
  unfolding madt_lapic_bytes_def
  by (intro conjI sound_header_nat) (simp_all add: length_lapics sdt_header_def)

lemma madt_gic_sound:
  "n \<le> 64 \<Longrightarrow> sound_table (madt_gic_bytes d n) \<and> take 4 (madt_gic_bytes d n) = str_bytes ''APIC''"
  unfolding madt_gic_bytes_def
  by (intro conjI sound_header_nat) (simp_all add: sdt_header_def)

lemma dsdt_sound:
  "sound_table (sdt_header (str_bytes ''DSDT'') (36 + of_nat (length minimal_aml)) 2 @ minimal_aml)
    \<and> take 4 (sdt_header (str_bytes ''DSDT'') (36 + of_nat (length minimal_aml)) 2 @ minimal_aml) = str_bytes ''DSDT''"
  by (intro conjI sound_header_table) (simp_all add: minimal_aml_def sdt_header_def)

datatype acpi_op = Op_fadt u8 u16 u32 | Op_lapic u32 u8 bytes | Op_gic u64 u64 u8 | Op_dsdt | Op_table bytes

fun acpi_step :: "acpi_op \<Rightarrow> ACPIManager \<Rightarrow> (ACPIManager \<times> bool) c_result" where
  "acpi_step (Op_fadt pm sci flags) mgr = acpi_build_fadt mgr pm sci flags"
| "acpi_step (Op_lapic base n ids) mgr = acpi_build_madt_lapic True mgr base n (Some ids)"
| "acpi_step (Op_gic d r n) mgr = acpi_build_madt_gic True mgr d r n"
| "acpi_step Op_dsdt mgr = acpi_build_dsdt True mgr"
| "acpi_step (Op_table t) mgr = alloc_and_add mgr t"

text \<open>Calls that describe a machine: identifiers for all processors, tables with their length.\<close>

fun acpi_op_ok :: "acpi_op \<Rightarrow> bool" where
  "acpi_op_ok (Op_lapic base n ids) = (unat n \<le> length ids)"
| "acpi_op_ok (Op_table t) = sound_table t"
| "acpi_op_ok _ = True"

fun acpi_run :: "acpi_op list \<Rightarrow> ACPIManager \<Rightarrow> ACPIManager c_result" where
  "acpi_run [] mgr = Returned mgr"
| "acpi_run (x # xs) mgr = (case acpi_step x mgr of Returned (m, ok) \<Rightarrow> acpi_run xs m | Undefined \<Rightarrow> Undefined | Diverges \<Rightarrow> Diverges)"

lemma alloc_and_add_inv:
  assumes "acpi_inv mgr" and "length (acm_table_ptrs mgr) < ACPI_MAX_TABLES" and "sound_table t"
  shows "\<exists>mgr'. alloc_and_add mgr t = Returned (mgr', True) \<and> acpi_inv mgr'
    \<and> acm_table_ptrs mgr' = acm_table_ptrs mgr @ [Heap_ptr (length (acm_heap mgr))]"
proof -
  let ?m = "mgr\<lparr>acm_heap := acm_heap mgr @ [t]\<rparr>" and ?p = "Heap_ptr (length (acm_heap mgr))"
  have "table_sound ?m q" if "table_sound mgr q" for q
    using that by (cases q) (auto simp: table_sound_def acpi_table_def nth_append)
  then have "acpi_others ?m ?p" using assms by (auto simp: acpi_others_def acpi_inv_def acpi_table_def list_all_iff)
  then show ?thesis using acpi_add_table_inv [of ?m ?p] assms(2) by (auto simp: alloc_and_add_def)
qed

lemma build_fadt_inv:
  assumes "acpi_inv mgr" and "length (acm_table_ptrs mgr) < ACPI_MAX_TABLES"
  shows "\<exists>mgr'. acpi_build_fadt mgr pm sci flags = Returned (mgr', True) \<and> acpi_inv mgr'
    \<and> acm_table_ptrs mgr' = acm_table_ptrs mgr @ [Fadt_ptr]"
proof -
  let ?m = "mgr\<lparr>acm_fadt := fadt_bytes pm sci flags\<rparr>"
  have "q = Fadt_ptr \<or> table_sound ?m q" if "table_sound mgr q" for q
    using that by (cases q) (auto simp: table_sound_def acpi_table_def)
  then have "acpi_others ?m Fadt_ptr"
    using assms fadt_sound by (auto simp: acpi_others_def acpi_inv_def acpi_table_def list_all_iff)
  then show ?thesis using acpi_add_table_inv [of ?m Fadt_ptr] assms(2) by (auto simp: acpi_build_fadt_def)
qed

lemma acpi_step_inv:
  assumes "acpi_inv mgr" and "length (acm_table_ptrs mgr) < ACPI_MAX_TABLES" and "acpi_op_ok x"
  shows "\<exists>mgr' ok. acpi_step x mgr = Returned (mgr', ok) \<and> acpi_inv mgr'
    \<and> length (acm_table_ptrs mgr') = length (acm_table_ptrs mgr) + of_bool ok"
proof -
  have added: ?thesis if e: "acpi_step x mgr = alloc_and_add mgr t" and t: "sound_table t" for t
  proof -
    obtain m where "alloc_and_add mgr t = Returned (m, True)" "acpi_inv m" "length (acm_table_ptrs m) = length (acm_table_ptrs mgr) + 1"
      using alloc_and_add_inv [OF assms(1,2) t] by auto
    then show ?thesis unfolding e by (intro exI [of _ m] exI [of _ True]) simp
  qed
  have refused: ?thesis if "acpi_step x mgr = Returned (mgr, False)"
    unfolding that using assms(1) by (intro exI [of _ mgr] exI [of _ False]) simp
  show ?thesis
  proof (cases x)
    case (Op_fadt pm sci flags)
    obtain m where "acpi_build_fadt mgr pm sci flags = Returned (m, True)" "acpi_inv m"
      "acm_table_ptrs m = acm_table_ptrs mgr @ [Fadt_ptr]" using build_fadt_inv [OF assms(1,2)] by blast
    then show ?thesis using Op_fadt by (intro exI [of _ m] exI [of _ True]) simp
  next
    case (Op_lapic base n ids)
    show ?thesis
    proof (cases "n = 0 \<or> n > 64")
      case True
      then show ?thesis using Op_lapic by (intro refused) (simp add: acpi_build_madt_lapic_def)
    next
      case False
      then have "sound_table (madt_lapic_bytes base (unat n) ids)"
        using madt_lapic_sound by (simp add: word_le_nat_alt not_less)
      then show ?thesis using Op_lapic False assms(3) by (intro added) (simp_all add: acpi_build_madt_lapic_def)
    qed
  next
    case (Op_gic d r n)
    show ?thesis
    proof (cases "n = 0 \<or> n > 64")
      case True
      then show ?thesis using Op_gic by (intro refused) (simp add: acpi_build_madt_gic_def)
    next
      case False
      then have "sound_table (madt_gic_bytes d (unat n))" using madt_gic_sound by (simp add: word_le_nat_alt not_less)
      then show ?thesis using Op_gic False by (intro added) (simp_all add: acpi_build_madt_gic_def)
    qed
  next
    case Op_dsdt
    then show ?thesis by (intro added [OF _ conjunct1 [OF dsdt_sound]]) (simp add: acpi_build_dsdt_def)
  next
    case (Op_table t)
    then show ?thesis using assms(3) by (intro added [of t]) simp_all
  qed
qed

lemma acpi_run_inv:
  "acpi_inv mgr \<Longrightarrow> length (acm_table_ptrs mgr) + length xs \<le> ACPI_MAX_TABLES \<Longrightarrow> list_all acpi_op_ok xs \<Longrightarrow>
    \<exists>mgr'. acpi_run xs mgr = Returned mgr' \<and> acpi_inv mgr' \<and> length (acm_table_ptrs mgr') \<le> length (acm_table_ptrs mgr) + length xs"
proof (induction xs arbitrary: mgr)
  case (Cons x xs)
  have "length (acm_table_ptrs mgr) < ACPI_MAX_TABLES" using Cons.prems(2) by simp
  then obtain m ok where s: "acpi_step x mgr = Returned (m, ok)" "acpi_inv m"
    "length (acm_table_ptrs m) = length (acm_table_ptrs mgr) + of_bool ok"
    using acpi_step_inv [OF Cons.prems(1)] Cons.prems(3) by fastforce
  moreover have "length (acm_table_ptrs m) + length xs \<le> ACPI_MAX_TABLES" using s(3) Cons.prems(2) by (cases ok) simp_all
  ultimately obtain m' where "acpi_run xs m = Returned m'" "acpi_inv m'" "length (acm_table_ptrs m') \<le> length (acm_table_ptrs m) + length xs"
    using Cons.IH [of m] Cons.prems(3) by auto
  then show ?case using s by (cases ok) auto
qed auto

text \<open>Rebuilding the FADT when the table is full destroys its checksum: the bytes are replaced, the call fails.\<close>

lemma build_fadt_full:
  "ACPI_MAX_TABLES \<le> length (acm_table_ptrs mgr) \<Longrightarrow>
    acpi_build_fadt mgr pm sci flags = Returned (mgr\<lparr>acm_fadt := fadt_bytes pm sci flags\<rparr>, False)"
  by (simp add: acpi_build_fadt_def acpi_add_table_def)

end
