(* ===== verification/Tpm_Quote.thy ===== *)
theory Tpm_Quote
  imports Merkle_Pcr "HOL-Library.Multiset"
begin

text \<open>
  Quotes of the remote attestation library (\<open>tpm_quote.c\<close>): its stand-in for SHA-256, whose
  update exclusive-ors the digests of the pieces, the composite of registers, and quotes with
  their signature, made and checked with the public modulus.  The structure that is signed has
  the layout of x86-64 (136 bytes, its padding zero).
\<close>

section \<open>The hash\<close>

definition TPM_GENERATED_VALUE :: u32 where "TPM_GENERATED_VALUE = 0xFF544347"
definition TPM_ST_ATTEST_QUOTE :: u16 where "TPM_ST_ATTEST_QUOTE = 0x8018"
definition RA_ALG_SHA256 :: u16 where "RA_ALG_SHA256 = 0x000B"

text \<open>The mixing of a byte and the output bytes are those of the Merkle tree's node hash.\<close>

definition simulate_sha256 :: "bytes \<Rightarrow> bytes" where
  "simulate_sha256 data =
     node_hash_out 32 0 (fold (node_hash_mix data) [0..<length data] 0x6A09E667 XOR of_nat (length data))"

definition tpm_hash_init :: bytes where
  "tpm_hash_init = [0xDA, 0x39] @ zeros 30"

definition tpm_hash_update :: "bytes \<Rightarrow> bytes \<Rightarrow> bytes" where
  "tpm_hash_update h data = map (\<lambda>i. h ! i XOR simulate_sha256 data ! i) [0..<32]"

definition tpm_hash_final :: "bytes \<Rightarrow> bytes" where
  "tpm_hash_final h = h[31 := h ! 31 XOR 0xA5]"

section \<open>Composite of registers\<close>

definition zero_selection :: TPMPcrSelection where
  "zero_selection = \<lparr>sel_algorithm_id = 0, sel_size_of_select = 0, sel_pcr_select = zeros 4\<rparr>"

definition tpm_pcr_composite_init :: TPMPcrComposite where
  "tpm_pcr_composite_init = \<lparr>pcmp_count = 0, pcmp_pcr_count = 0, pcmp_pcr_selections = replicate 4 zero_selection,
     pcmp_pcr_digests = replicate TPM_MAX_PCRS (zeros 32)\<rparr>"

definition pcr_selected :: "TPMPcrComposite \<Rightarrow> nat \<Rightarrow> bool" where
  "pcr_selected pc i \<longleftrightarrow> sel_pcr_select (pcmp_pcr_selections pc ! 0) ! (i div 8) AND push_bit (i mod 8) 1 \<noteq> 0"

definition tpm_pcr_composite_add :: "TPMPcrComposite \<Rightarrow> u8 \<Rightarrow> bytes option \<Rightarrow> TPMPcrComposite \<times> int" where
  "tpm_pcr_composite_add pc idx val =
     (case val of None \<Rightarrow> (pc, -1)
      | Some v \<Rightarrow>
          if unat idx \<ge> TPM_MAX_PCRS then (pc, -2)
          else if unat (pcmp_pcr_count pc) \<ge> TPM_MAX_PCRS then (pc, -3)
          else let i = unat idx; s = pcmp_pcr_selections pc ! 0;
                   s1 = s\<lparr>sel_algorithm_id := RA_ALG_SHA256, sel_size_of_select := 4,
                          sel_pcr_select := (sel_pcr_select s)[i div 8 := sel_pcr_select s ! (i div 8) OR push_bit (i mod 8) 1]\<rparr>
               in (pc\<lparr>pcmp_pcr_selections := (pcmp_pcr_selections pc)[0 := s1],
                      pcmp_pcr_digests := (pcmp_pcr_digests pc)[i := v],
                      pcmp_pcr_count := pcmp_pcr_count pc + 1, pcmp_count := pcmp_count pc + 1\<rparr>, 0))"

text \<open>\<open>Inl\<close> is a return code other than 0.\<close>

definition tpm_pcr_composite_get :: "TPMPcrComposite option \<Rightarrow> u8 \<Rightarrow> int + bytes" where
  "tpm_pcr_composite_get pc idx =
     (case pc of None \<Rightarrow> Inl (-1)
      | Some p \<Rightarrow> if unat idx \<ge> TPM_MAX_PCRS then Inl (-2)
                  else if \<not> pcr_selected p (unat idx) then Inl (-3)
                  else Inr (pcmp_pcr_digests p ! unat idx))"

definition tpm_pcr_composite_hash :: "TPMPcrComposite \<Rightarrow> bytes" where
  "tpm_pcr_composite_hash pc =
     tpm_hash_final (fold (\<lambda>i h. if pcr_selected pc i then tpm_hash_update h (pcmp_pcr_digests pc ! i) else h)
                      [0..<TPM_MAX_PCRS] tpm_hash_init)"

section \<open>Quotes\<close>

record TPMAttest =
  tat_magic :: u32
  tat_type :: u16
  tat_qualified_signer :: bytes
  tat_extra_data :: bytes
  tat_clock_info :: bytes
  tat_firmware_version :: u64
  tat_pcr_select :: TPMPcrSelection
  tat_pcr_digest :: bytes

record TPMQuote =
  tqu_attest :: TPMAttest
  tqu_pcr_composite :: TPMPcrComposite
  tqu_signature :: bytes
  tqu_signature_size :: u16

record RAKey =
  rak_modulus :: bytes
  rak_exponent :: bytes
  rak_modulus_size :: u16

definition attest_bytes :: "TPMAttest \<Rightarrow> bytes" where
  "attest_bytes a =
     le32_list (tat_magic a) @ le16_list (tat_type a) @ tat_qualified_signer a @ tat_extra_data a @ tat_clock_info a @ zeros 2
       @ le64_list (tat_firmware_version a)
       @ le16_list (sel_algorithm_id (tat_pcr_select a)) @ [sel_size_of_select (tat_pcr_select a)] @ sel_pcr_select (tat_pcr_select a)
       @ [0] @ tat_pcr_digest a"

text \<open>The bytes of a signature, as many as the modulus has and at most 256.\<close>

definition rsa_temp :: "bytes \<Rightarrow> RAKey \<Rightarrow> bytes" where
  "rsa_temp h key =
     (let t = blit (zeros 256) 0 (take 256 h);
          n = (if unat (rak_modulus_size key) < 256 then unat (rak_modulus_size key) else 256)
      in (map (\<lambda>i. if i < n then t ! i XOR rak_modulus key ! i else t ! i) [0..<256])[0 := 0, 1 := 1])"

definition simulate_rsa_sign :: "bytes \<Rightarrow> RAKey \<Rightarrow> bytes \<Rightarrow> bytes \<times> u16" where
  "simulate_rsa_sign h key sig =
     (blit sig 0 (take (if unat (rak_modulus_size key) > 256 then 256 else unat (rak_modulus_size key)) (rsa_temp h key)),
      rak_modulus_size key)"

text \<open>The comparison covers the size that signing returns, which may exceed both buffers.\<close>

definition simulate_rsa_verify :: "bytes \<Rightarrow> RAKey \<Rightarrow> bytes \<Rightarrow> bool c_result" where
  "simulate_rsa_verify h key sig =
     (let n = unat (rak_modulus_size key) in
      if n > 256 then Undefined else Returned (take n sig = take n (rsa_temp h key)))"

definition zero_attest :: TPMAttest where
  "zero_attest = \<lparr>tat_magic = 0, tat_type = 0, tat_qualified_signer = zeros 32, tat_extra_data = zeros 32, tat_clock_info = zeros 16,
     tat_firmware_version = 0, tat_pcr_select = zero_selection, tat_pcr_digest = zeros 32\<rparr>"

definition copy_in :: "nat \<Rightarrow> bytes option \<Rightarrow> bytes" where
  "copy_in n src = (case src of None \<Rightarrow> zeros n | Some b \<Rightarrow> blit (zeros n) 0 (take n b))"

definition tpm_quote_create ::
  "TPMPcrComposite option \<Rightarrow> bytes option \<Rightarrow> bytes option \<Rightarrow> u64 \<Rightarrow> TPMQuote option" where
  "tpm_quote_create pcr_composite nonce qualifying fw =
     map_option (\<lambda>pc.
       \<lparr>tqu_attest = \<lparr>tat_magic = TPM_GENERATED_VALUE, tat_type = TPM_ST_ATTEST_QUOTE,
          tat_qualified_signer = copy_in 32 qualifying, tat_extra_data = copy_in 32 nonce,
          tat_clock_info = [ucast (drop_bit 24 fw), ucast (drop_bit 16 fw), ucast (drop_bit 8 fw), ucast fw] @ zeros 12,
          tat_firmware_version = fw, tat_pcr_select = pcmp_pcr_selections pc ! 0, tat_pcr_digest = tpm_pcr_composite_hash pc\<rparr>,
        tqu_pcr_composite = pc, tqu_signature = zeros 256, tqu_signature_size = 0\<rparr>) pcr_composite"

definition attest_digest :: "TPMAttest \<Rightarrow> bytes" where
  "attest_digest a = tpm_hash_final (tpm_hash_update tpm_hash_init (attest_bytes a))"

definition tpm_quote_sign :: "TPMQuote \<Rightarrow> RAKey option \<Rightarrow> TPMQuote \<times> int" where
  "tpm_quote_sign q aik =
     (case aik of None \<Rightarrow> (q, -1)
      | Some k \<Rightarrow> let (s, n) = simulate_rsa_sign (attest_digest (tqu_attest q)) k (tqu_signature q)
                  in (q\<lparr>tqu_signature := s, tqu_signature_size := n\<rparr>, 0))"

text \<open>The return code and the verdict.\<close>

definition tpm_quote_verify ::
  "TPMQuote option \<Rightarrow> RAKey option \<Rightarrow> TPMPcrComposite option \<Rightarrow> u64 \<Rightarrow> (int \<times> bool) c_result" where
  "tpm_quote_verify quote aik_pub expected fw =
     (case (quote, aik_pub, expected) of
        (Some q, Some k, Some e) \<Rightarrow>
          if tat_magic (tqu_attest q) \<noteq> TPM_GENERATED_VALUE then Returned (-2, False)
          else if tat_type (tqu_attest q) \<noteq> TPM_ST_ATTEST_QUOTE then Returned (-3, False)
          else case simulate_rsa_verify (attest_digest (tqu_attest q)) k (tqu_signature q) of
            Returned sig_valid \<Rightarrow>
              if \<not> sig_valid then Returned (0, False)
              else if tat_firmware_version (tqu_attest q) \<noteq> fw then Returned (0, False)
              else if tpm_pcr_composite_hash (tqu_pcr_composite q) \<noteq> tpm_pcr_composite_hash e then Returned (0, False)
              else Returned (0, True)
          | Undefined \<Rightarrow> Undefined | Diverges \<Rightarrow> Diverges
      | _ \<Rightarrow> Returned (-1, False))"

definition ra_tpm_certify :: "RAKey option \<Rightarrow> TPMAttest option \<Rightarrow> bytes \<Rightarrow> (bytes \<times> u16) option" where
  "ra_tpm_certify key attest sig_out =
     (case (key, attest) of (Some k, Some a) \<Rightarrow> Some (simulate_rsa_sign (attest_digest a) k sig_out) | _ \<Rightarrow> None)"

section \<open>What the hash does not bind\<close>

lemma length_node_out [simp]: "length (node_hash_out n i s) = n"
  by (induction n arbitrary: i s) simp_all

lemma length_simulate [simp]: "length (simulate_sha256 data) = 32"
  by (simp add: simulate_sha256_def)

lemma length_hash_ops [simp]:
  "length tpm_hash_init = 32" "length (tpm_hash_update h d) = 32" "length (tpm_hash_final h) = length h"
  by (simp_all add: tpm_hash_init_def tpm_hash_update_def tpm_hash_final_def)

lemma nth_hash_update: "i < 32 \<Longrightarrow> tpm_hash_update h d ! i = h ! i XOR simulate_sha256 d ! i"
  by (simp add: tpm_hash_update_def del: upt_rec_numeral)

lemma hash_update_commute: "tpm_hash_update (tpm_hash_update h a) b = tpm_hash_update (tpm_hash_update h b) a"
proof (rule nth_equalityI)
  fix i
  assume "i < length (tpm_hash_update (tpm_hash_update h a) b)"
  then have i: "i < 32" by (simp only: length_hash_ops)
  show "tpm_hash_update (tpm_hash_update h a) b ! i = tpm_hash_update (tpm_hash_update h b) a ! i"
    unfolding nth_hash_update [OF i] by (simp only: xor.assoc xor.commute [of "simulate_sha256 a ! i"])
qed (simp only: length_hash_ops)

lemma hash_update_cancel:
  assumes "length h = 32"
  shows "tpm_hash_update (tpm_hash_update h a) a = h"
proof (rule nth_equalityI)
  fix i
  assume "i < length (tpm_hash_update (tpm_hash_update h a) a)"
  then have i: "i < 32" by (simp only: length_hash_ops)
  show "tpm_hash_update (tpm_hash_update h a) a ! i = h ! i"
    unfolding nth_hash_update [OF i] by (simp only: xor.assoc xor_self_eq xor.right_neutral)
qed (simp only: length_hash_ops assms)

text \<open>
  The interface of an accumulator whose steps commute: its value depends on the multiset of what it
  absorbed.  The hash is one, and so is the integrity check of the event log.
\<close>

locale order_blind =
  fixes absorb :: "'a \<Rightarrow> 's \<Rightarrow> 's"
  assumes absorb_swap: "absorb a (absorb b s) = absorb b (absorb a s)"
begin

lemma absorb_past: "fold absorb xs (absorb a s) = absorb a (fold absorb xs s)"
proof (induction xs arbitrary: s)
  case (Cons x xs)
  have "absorb x (absorb a s) = absorb a (absorb x s)" by (rule absorb_swap)
  then show ?case using Cons by simp
qed simp

lemma absorb_mset: "mset xs = mset ys \<Longrightarrow> fold absorb xs s = fold absorb ys s"
  by (rule fold_permuted_eq [where P = "\<lambda>_. True"]) (auto intro: absorb_swap)

lemma absorb_pair:
  assumes "absorb a (absorb a s) = s" and "mset xs = mset ys + {#a, a#}"
  shows "fold absorb xs s = fold absorb ys s"
proof -
  have "fold absorb xs s = fold absorb (a # a # ys) s" using assms(2) by (intro absorb_mset) simp
  then show ?thesis using assms(1) by simp
qed

end

interpretation hblind: order_blind "\<lambda>d h. tpm_hash_update h d"
  by unfold_locales (rule hash_update_commute)

lemmas hash_updates_mset = hblind.absorb_mset

definition selected_digests :: "TPMPcrComposite \<Rightarrow> bytes list" where
  "selected_digests pc = map (\<lambda>i. pcmp_pcr_digests pc ! i) (filter (pcr_selected pc) [0..<TPM_MAX_PCRS])"

lemma fold_if_filter: "fold (\<lambda>i h. if P i then f h (g i) else h) xs h = fold (\<lambda>d h. f h d) (map g (filter P xs)) h"
  by (induction xs arbitrary: h) simp_all

lemma composite_hash_pieces:
  "tpm_pcr_composite_hash pc = tpm_hash_final (fold (\<lambda>d h. tpm_hash_update h d) (selected_digests pc) tpm_hash_init)"
  by (simp add: tpm_pcr_composite_hash_def selected_digests_def fold_if_filter)

lemma composite_hash_permuted:
  "mset (selected_digests pc) = mset (selected_digests pc') \<Longrightarrow> tpm_pcr_composite_hash pc = tpm_pcr_composite_hash pc'"
  unfolding composite_hash_pieces by (rule arg_cong [where f = tpm_hash_final]) (rule hash_updates_mset)

text \<open>Two registers with equal contents do not count at all.\<close>

lemma composite_hash_pair:
  assumes "mset (selected_digests pc) = mset (selected_digests pc') + {#d, d#}"
  shows "tpm_pcr_composite_hash pc = tpm_pcr_composite_hash pc'"
  unfolding composite_hash_pieces
  by (rule arg_cong [where f = tpm_hash_final]) (rule hblind.absorb_pair [OF hash_update_cancel assms], simp)

section \<open>Registers of a composite\<close>

definition composite_wf :: "TPMPcrComposite \<Rightarrow> bool" where
  "composite_wf pc \<longleftrightarrow> length (pcmp_pcr_selections pc) = 4 \<and> length (sel_pcr_select (pcmp_pcr_selections pc ! 0)) = 4
     \<and> length (pcmp_pcr_digests pc) = 24"

lemma composite_init_wf: "composite_wf tpm_pcr_composite_init"
  by (simp add: composite_wf_def tpm_pcr_composite_init_def zero_selection_def TPM_MAX_PCRS_def)

lemma composite_add_wf: "composite_wf pc \<Longrightarrow> composite_wf (fst (tpm_pcr_composite_add pc idx v))"
  by (auto simp: composite_wf_def tpm_pcr_composite_add_def Let_def split: option.split)

lemma bit_test_iff: "(w AND push_bit k 1 \<noteq> 0) = bit (w :: u8) k" if "k < 8"
proof
  assume "w AND push_bit k 1 \<noteq> 0"
  moreover have "x = 0" if "\<forall>n. \<not> bit x n" for x :: u8 using that by (intro bit_eqI) simp
  ultimately obtain n where "bit (w AND push_bit k 1) n" by blast
  then show "bit w k" by (auto simp: bit_simps)
next
  assume "bit w k"
  then have "bit (w AND push_bit k 1) k" using that by (simp add: bit_simps)
  then show "w AND push_bit k 1 \<noteq> 0" by (metis bit_0_eq bot_apply bot_bool_def)
qed

lemma pcr_selected_bit:
  "pcr_selected pc i = bit (sel_pcr_select (pcmp_pcr_selections pc ! 0) ! (i div 8)) (i mod 8)"
proof -
  have "i mod 8 < 8" by simp
  then show ?thesis unfolding pcr_selected_def by (rule bit_test_iff)
qed

lemma div_mod_8_eq: "(i :: nat) div 8 = j div 8 \<Longrightarrow> i mod 8 = j mod 8 \<Longrightarrow> i = j"
  by (metis div_mult_mod_eq)

lemma composite_add_selected:
  assumes "composite_wf pc" and "tpm_pcr_composite_add pc idx (Some v) = (pc', 0)" and "j < 24"
  shows "pcr_selected pc' j = (j = unat idx \<or> pcr_selected pc j)
    \<and> pcmp_pcr_digests pc' ! j = (if j = unat idx then v else pcmp_pcr_digests pc ! j)"
proof -
  let ?i = "unat idx" and ?s = "sel_pcr_select (pcmp_pcr_selections pc ! 0)"
  have i: "?i < 24" and s': "sel_pcr_select (pcmp_pcr_selections pc' ! 0) = ?s[?i div 8 := ?s ! (?i div 8) OR push_bit (?i mod 8) 1]"
    and d: "pcmp_pcr_digests pc' = (pcmp_pcr_digests pc)[?i := v]"
    using assms(1,2) by (auto simp: tpm_pcr_composite_add_def composite_wf_def TPM_MAX_PCRS_def Let_def split: if_splits)
  have l: "?i div 8 < length ?s" "j div 8 < length ?s" using i assms(1,3) by (auto simp: composite_wf_def)
  have "pcr_selected pc' j = bit (?s[?i div 8 := ?s ! (?i div 8) OR push_bit (?i mod 8) 1] ! (j div 8)) (j mod 8)"
    by (simp only: pcr_selected_bit s')
  also have "\<dots> = (j = ?i \<or> bit (?s ! (j div 8)) (j mod 8))"
  proof (cases "j div 8 = ?i div 8")
    case True
    then have "(j = ?i) = (j mod 8 = ?i mod 8)" using div_mod_8_eq [of j ?i] by auto
    moreover have "bit (push_bit (?i mod 8) 1 :: u8) (j mod 8) = (j mod 8 = ?i mod 8)" by (auto simp: bit_simps)
    ultimately show ?thesis using True l by (auto simp: bit_or_iff)
  next
    case False
    then show ?thesis using l by (auto simp: nth_list_update)
  qed
  also have "\<dots> = (j = ?i \<or> pcr_selected pc j)" by (simp only: pcr_selected_bit)
  finally show ?thesis using d assms(1,3) i by (simp add: nth_list_update composite_wf_def)
qed

lemma composite_add_get:
  assumes "composite_wf pc" and "tpm_pcr_composite_add pc idx (Some v) = (pc', 0)" and "unat j < 24"
  shows "tpm_pcr_composite_get (Some pc') j = (if j = idx then Inr v else tpm_pcr_composite_get (Some pc) j)"
  using composite_add_selected [OF assms(1,2,3)] assms(3)
  by (auto simp: tpm_pcr_composite_get_def TPM_MAX_PCRS_def word_unat_eq_iff)

section \<open>Signing and checking\<close>

lemma length_rsa_temp [simp]: "length (rsa_temp h key) = 256"
  by (simp add: rsa_temp_def Let_def)

lemma quote_verify_iff:
  assumes "unat (rak_modulus_size k) \<le> 256"
  shows "tpm_quote_verify (Some q) (Some k) (Some e) fw = Returned (0, True) \<longleftrightarrow>
    tat_magic (tqu_attest q) = TPM_GENERATED_VALUE \<and> tat_type (tqu_attest q) = TPM_ST_ATTEST_QUOTE
    \<and> take (unat (rak_modulus_size k)) (tqu_signature q) = take (unat (rak_modulus_size k)) (rsa_temp (attest_digest (tqu_attest q)) k)
    \<and> tat_firmware_version (tqu_attest q) = fw \<and> tpm_pcr_composite_hash (tqu_pcr_composite q) = tpm_pcr_composite_hash e"
  using assms by (auto simp: tpm_quote_verify_def simulate_rsa_verify_def Let_def)

lemma signature_accepted:
  assumes "unat (rak_modulus_size k) \<le> 256" and "length sig = 256"
  shows "take (unat (rak_modulus_size k)) (fst (simulate_rsa_sign h k sig)) = take (unat (rak_modulus_size k)) (rsa_temp h k)"
  using assms by (simp add: simulate_rsa_sign_def blit_def)

text \<open>A quote that was made and signed verifies, with the key, the registers and the version it was made for.\<close>

lemma quote_sign_verify:
  assumes "tpm_quote_create (Some pc) nonce qual fw = Some q" and "tpm_quote_sign q (Some k) = (q', 0)"
    and "unat (rak_modulus_size k) \<le> 256"
  shows "tpm_quote_verify (Some q') (Some k) (Some e) fw = Returned (0, tpm_pcr_composite_hash pc = tpm_pcr_composite_hash e)"
proof -
  have q: "tqu_attest q' = tqu_attest q" "tqu_pcr_composite q' = pc" "tat_magic (tqu_attest q) = TPM_GENERATED_VALUE"
    "tat_type (tqu_attest q) = TPM_ST_ATTEST_QUOTE" "tat_firmware_version (tqu_attest q) = fw" "length (tqu_signature q) = 256"
    "tqu_signature q' = fst (simulate_rsa_sign (attest_digest (tqu_attest q)) k (tqu_signature q))"
    using assms(1,2) by (auto simp: tpm_quote_create_def tpm_quote_sign_def split: prod.splits)
  then show ?thesis using assms(3) signature_accepted [OF assms(3) q(6)]
    by (simp add: tpm_quote_verify_def simulate_rsa_verify_def Let_def)
qed

text \<open>Without a modulus every signature is good.\<close>

lemma empty_key_accepts:
  assumes "rak_modulus_size k = 0"
  shows "tpm_quote_verify (Some q) (Some k) (Some (tqu_pcr_composite q)) (tat_firmware_version (tqu_attest q)) = Returned (0, True)
    \<longleftrightarrow> tat_magic (tqu_attest q) = TPM_GENERATED_VALUE \<and> tat_type (tqu_attest q) = TPM_ST_ATTEST_QUOTE"
  using quote_verify_iff [of k q] assms by simp

text \<open>The digest inside the quote is not compared with the registers beside it: they can be replaced.\<close>

lemma registers_not_bound:
  assumes "tpm_quote_verify (Some q) (Some k) (Some (tqu_pcr_composite q)) fw = Returned (0, True)"
  shows "tpm_quote_verify (Some (q\<lparr>tqu_pcr_composite := pc\<rparr>)) (Some k) (Some pc) fw = Returned (0, True)"
  using assms by (auto simp: tpm_quote_verify_def split: if_splits c_result.splits)

end
