(* ===== verification/Aik_Identity.thy ===== *)
theory Aik_Identity
  imports Tpm_Quote
begin

text \<open>
  Attestation identity keys (\<open>aik_identity.c\<close>): key generation from a linear congruential
  generator whose state is threaded, credentials with their encryption, and the checks.  A
  credential that is encrypted or activated is the 900 bytes of its structure on x86-64, with
  zero padding.  The clock is a parameter.
\<close>

section \<open>Data\<close>

definition AIK_KEY_SIZE :: nat where "AIK_KEY_SIZE = 256"
definition AIK_CREDENTIAL_SIZE :: nat where "AIK_CREDENTIAL_SIZE = 512"
definition AIK_CERT_SIZE :: nat where "AIK_CERT_SIZE = 1024"
definition TPM_KEY_HIERARCHY_EK :: u32 where "TPM_KEY_HIERARCHY_EK = 0"
definition TPM_KEY_HIERARCHY_SRK :: u32 where "TPM_KEY_HIERARCHY_SRK = 1"
definition TPM_KEY_HIERARCHY_AIK :: u32 where "TPM_KEY_HIERARCHY_AIK = 2"

record RAKeyPublic =
  tkp_modulus :: bytes
  tkp_exponent :: bytes
  tkp_modulus_size :: u16
  tkp_hierarchy :: u32

record TPMKeyAIK =
  tka_pub_modulus :: bytes
  tka_pub_modulus_size :: u16
  tka_priv_modulus :: bytes
  tka_pub_exponent :: bytes
  tka_priv_exponent :: bytes
  tka_name :: bytes
  tka_parent :: u32

record EKCertificate =
  ekc_modulus :: bytes
  ekc_exponent :: bytes
  ekc_modulus_size :: u16
  ekc_ek_pub_hash :: bytes
  ekc_manufacturer_ca_id :: bytes
  ekc_serial_number :: bytes
  ekc_signature :: bytes
  ekc_signature_size :: u16

record AIKCredential =
  akc_pub_modulus :: bytes
  akc_pub_modulus_size :: u16
  akc_pub_exponent :: bytes
  akc_privacy_ca_id :: bytes
  akc_aik_name :: bytes
  akc_issue_date :: u32
  akc_expiry_date :: u32
  akc_serial_number :: bytes
  akc_signature :: bytes
  akc_signature_size :: u16
  akc_active :: bool

record AIKEncryptedCredential =
  aec_data :: bytes
  aec_size :: u16

definition credential_bytes :: "AIKCredential \<Rightarrow> bytes" where
  "credential_bytes c =
     akc_pub_modulus c @ le16_list (akc_pub_modulus_size c) @ akc_pub_exponent c @ akc_privacy_ca_id c @ akc_aik_name c @ zeros 3
       @ le32_list (akc_issue_date c) @ le32_list (akc_expiry_date c) @ akc_serial_number c @ akc_signature c
       @ le16_list (akc_signature_size c) @ [of_bool (akc_active c)] @ zeros 1"

section \<open>Operations\<close>

fun simulate_rng :: "nat \<Rightarrow> u32 \<Rightarrow> bytes \<times> u32" where
  "simulate_rng 0 seed = ([], seed)"
| "simulate_rng (Suc n) seed =
     (let s = seed * 1103515245 + 12345; (bs, s') = simulate_rng n s in (ucast (drop_bit 16 s) # bs, s'))"

definition simulate_rsa_keygen :: "u32 \<Rightarrow> bytes \<times> u32" where
  "simulate_rsa_keygen seed =
     (let (m, s) = simulate_rng 256 seed in (m[0 := m ! 0 OR 0x80, 255 := m[0 := m ! 0 OR 0x80] ! 255 OR 1], s))"

definition key_exponent :: bytes where
  "key_exponent = [1, 0, 1]"

definition simulate_rsa_encrypt :: "bytes \<Rightarrow> RAKeyPublic \<Rightarrow> AIKEncryptedCredential c_result" where
  "simulate_rsa_encrypt plain pub =
     (if unat (tkp_modulus_size pub) > AIK_KEY_SIZE then Undefined
      else let c = blit (zeros AIK_CREDENTIAL_SIZE) 0 (take AIK_CREDENTIAL_SIZE plain);
               d = map (\<lambda>i. if i < unat (tkp_modulus_size pub) then c ! i XOR (tkp_modulus pub ! i XOR 0xA5) else c ! i)
                     [0..<AIK_CREDENTIAL_SIZE]
           in Returned \<lparr>aec_data = d[0 := 0, 1 := 2], aec_size = of_nat AIK_CREDENTIAL_SIZE\<rparr>)"

definition simulate_rsa_decrypt :: "AIKEncryptedCredential \<Rightarrow> TPMKeyAIK \<Rightarrow> (bytes \<times> nat) c_result" where
  "simulate_rsa_decrypt enc aik =
     (if unat (tka_pub_modulus_size aik) > AIK_KEY_SIZE then Undefined
      else let n = (if unat (aec_size enc) < AIK_CREDENTIAL_SIZE then unat (aec_size enc) else AIK_CREDENTIAL_SIZE);
               c = blit (zeros AIK_CREDENTIAL_SIZE) 0 (take n (aec_data enc))
           in Returned (map (\<lambda>i. if i < unat (tka_pub_modulus_size aik) then c ! i XOR (tka_pub_modulus aik ! i XOR 0xA5) else c ! i)
                          [0..<AIK_CREDENTIAL_SIZE], n))"

text \<open>The stand-in for a signature: as many random bytes as the data has, at most 512.\<close>

definition simulate_sign :: "nat \<Rightarrow> u32 \<Rightarrow> bytes \<times> u32" where
  "simulate_sign len seed =
     (let (bs, s) = simulate_rng (if len < AIK_CERT_SIZE div 2 then len else AIK_CERT_SIZE div 2) seed
      in (blit (zeros (AIK_CERT_SIZE div 2)) 0 bs, s))"

definition tpm_create_ek :: "u32 \<Rightarrow> RAKeyPublic \<times> u32" where
  "tpm_create_ek seed =
     (let (m, s) = simulate_rsa_keygen seed
      in (\<lparr>tkp_modulus = m, tkp_exponent = key_exponent, tkp_modulus_size = 256, tkp_hierarchy = TPM_KEY_HIERARCHY_EK\<rparr>, s))"

text \<open>The name is hashed into the field and then overwritten with the start of the modulus.\<close>

definition tpm_create_aik :: "u32 \<Rightarrow> RAKeyPublic option \<Rightarrow> RAKeyPublic option \<Rightarrow> (TPMKeyAIK \<times> u32) option" where
  "tpm_create_aik seed srk ek_pub =
     (case (srk, ek_pub) of
        (Some sk, Some ek) \<Rightarrow>
          let (m, s) = simulate_rsa_keygen seed; (e, s1) = simulate_rng AIK_KEY_SIZE s;
              name_input = m @ take 32 (tkp_modulus ek);
              name1 = blit (zeros 64) 0 (simulate_sha256 name_input)
          in Some (\<lparr>tka_pub_modulus = m, tka_pub_modulus_size = 256, tka_priv_modulus = m, tka_pub_exponent = key_exponent,
                    tka_priv_exponent = e, tka_name = blit name1 0 (take 64 name_input), tka_parent = TPM_KEY_HIERARCHY_SRK\<rparr>, s1)
      | _ \<Rightarrow> None)"

definition tpm_aik_certify ::
  "u64 \<Rightarrow> u32 \<Rightarrow> RAKeyPublic option \<Rightarrow> RAKeyPublic option \<Rightarrow> EKCertificate option \<Rightarrow> bytes option
     \<Rightarrow> (AIKCredential \<times> u32) option c_result" where
  "tpm_aik_certify now seed aik_pub ek_pub ek_cert ca_id =
     (case (aik_pub, ek_pub, ek_cert, ca_id) of
        (Some k, Some ek, Some ec, Some ca) \<Rightarrow>
          if unat (tkp_modulus_size k) > AIK_KEY_SIZE then Undefined
          else let n = unat (tkp_modulus_size k); m = take n (tkp_modulus k);
                   (serial, s1) = simulate_rng 16 seed;
                   name = simulate_sha256 (m @ take 32 ca @ serial);
                   (sig, s2) = simulate_sign (n + 64 + 32 + 4 + 4) s1
               in Returned (Some (\<lparr>akc_pub_modulus = blit (zeros 256) 0 m, akc_pub_modulus_size = tkp_modulus_size k,
                    akc_pub_exponent = tkp_exponent k, akc_privacy_ca_id = take 32 ca, akc_aik_name = name @ zeros 32,
                    akc_issue_date = ucast now, akc_expiry_date = ucast now + 365 * 24 * 3600, akc_serial_number = serial,
                    akc_signature = sig, akc_signature_size = 512, akc_active = True\<rparr>, s2))
      | _ \<Rightarrow> Returned None)"

definition tpm_make_credential :: "AIKCredential option \<Rightarrow> RAKeyPublic option \<Rightarrow> AIKEncryptedCredential option c_result" where
  "tpm_make_credential cred ek_pub =
     (case (cred, ek_pub) of
        (Some c, Some k) \<Rightarrow> (case simulate_rsa_encrypt (credential_bytes c) k of Returned e \<Rightarrow> Returned (Some e)
                            | Undefined \<Rightarrow> Undefined | Diverges \<Rightarrow> Diverges)
      | _ \<Rightarrow> Returned None)"

text \<open>The bytes of the credential the caller passes, after the call.\<close>

definition tpm_activate_credential ::
  "bytes \<Rightarrow> AIKEncryptedCredential option \<Rightarrow> TPMKeyAIK option \<Rightarrow> (bytes \<times> int) c_result" where
  "tpm_activate_credential out enc aik =
     (case (enc, aik) of
        (Some e, Some k) \<Rightarrow>
          (case simulate_rsa_decrypt e k of
             Returned (plain, n) \<Rightarrow> Returned (blit out 0 (take (if n \<ge> 900 then 900 else n) plain), 0)
           | Undefined \<Rightarrow> Undefined | Diverges \<Rightarrow> Diverges)
      | _ \<Rightarrow> Returned (out, -1))"

definition tpm_get_ek_pub_hash :: "RAKeyPublic \<Rightarrow> bytes c_result" where
  "tpm_get_ek_pub_hash ek =
     (if unat (tkp_modulus_size ek) > AIK_KEY_SIZE then Undefined
      else Returned (simulate_sha256 (take (unat (tkp_modulus_size ek)) (tkp_modulus ek))))"

definition tpm_verify_ek_certificate :: "EKCertificate \<Rightarrow> RAKeyPublic \<Rightarrow> bool c_result" where
  "tpm_verify_ek_certificate cert ek =
     (if unat (tkp_modulus_size ek) > AIK_KEY_SIZE then Undefined
      else Returned (simulate_sha256 (take (unat (tkp_modulus_size ek)) (tkp_modulus ek)) = ekc_ek_pub_hash cert))"

definition tpm_verify_aik_credential :: "u64 \<Rightarrow> AIKCredential \<Rightarrow> RAKeyPublic \<Rightarrow> bool c_result" where
  "tpm_verify_aik_credential now cred aik_pub =
     (if \<not> akc_active cred then Returned False
      else if unat (akc_pub_modulus_size cred) > AIK_KEY_SIZE then Undefined
      else if take (unat (akc_pub_modulus_size cred)) (akc_pub_modulus cred) \<noteq> take (unat (akc_pub_modulus_size cred)) (tkp_modulus aik_pub)
        then Returned False
      else if akc_expiry_date cred < ucast now then Returned False
      else Returned True)"

section \<open>Facts\<close>

lemma length_simulate_rng [simp]: "length (fst (simulate_rng n s)) = n"
  by (induction n arbitrary: s) (simp_all add: Let_def case_prod_beta)

lemma length_keygen [simp]: "length (fst (simulate_rsa_keygen s)) = 256"
  by (simp add: simulate_rsa_keygen_def Let_def case_prod_beta)

text \<open>The certificate check accepts exactly the key whose hash was put in.\<close>

lemma ek_certificate_check:
  "tpm_get_ek_pub_hash ek = Returned h \<Longrightarrow> tpm_verify_ek_certificate cert ek = Returned (ekc_ek_pub_hash cert = h)"
  by (auto simp: tpm_get_ek_pub_hash_def tpm_verify_ek_certificate_def split: if_splits)

text \<open>The name of a new key is the start of its modulus; the hash is lost.\<close>

lemma aik_name_is_modulus:
  assumes "tpm_create_aik seed (Some srk) (Some ek) = Some (aik, s)"
  shows "tka_name aik = take 64 (tka_pub_modulus aik) \<and> tka_priv_modulus aik = tka_pub_modulus aik"
proof -
  obtain m s1 e s2 where m: "simulate_rsa_keygen seed = (m, s1)" "simulate_rng AIK_KEY_SIZE s1 = (e, s2)" by fastforce
  have l: "length m = 256" using length_keygen [of seed] m(1) by simp
  have "length (blit (zeros 64) 0 (simulate_sha256 x)) = 64" for x by simp
  then show ?thesis using assms m l by (auto simp: tpm_create_aik_def Let_def blit_def)
qed

text \<open>A new credential is accepted for its key until it expires, whatever its signature says.\<close>

lemma credential_check_iff:
  assumes "tpm_aik_certify now seed (Some k) (Some ek) (Some ec) (Some ca) = Returned (Some (c, s))"
    and "length (tkp_modulus k) = 256"
  shows "tpm_verify_aik_credential later (c\<lparr>akc_signature := forged\<rparr>) k = Returned (ucast later \<le> akc_expiry_date c)"
proof -
  have n: "\<not> unat (tkp_modulus_size k) > 256" "akc_pub_modulus_size c = tkp_modulus_size k" "akc_active c"
    "akc_pub_modulus c = blit (zeros 256) 0 (take (unat (tkp_modulus_size k)) (tkp_modulus k))"
    using assms(1) by (auto simp: tpm_aik_certify_def AIK_KEY_SIZE_def Let_def split: if_splits prod.splits)
  then have "take (unat (tkp_modulus_size k)) (akc_pub_modulus c) = take (unat (tkp_modulus_size k)) (tkp_modulus k)"
    using assms(2) by (simp add: blit_def min_def)
  then show ?thesis using n by (auto simp: tpm_verify_aik_credential_def AIK_KEY_SIZE_def not_le not_less)
qed

text \<open>
  Activation gives back what was encrypted only if the identity key has the modulus of the
  endorsement key, and even then without the first two bytes and whatever lies beyond 512.
\<close>

lemma length_credential_bytes:
  "length (akc_pub_modulus c) = 256 \<Longrightarrow> length (akc_pub_exponent c) = 3 \<Longrightarrow> length (akc_privacy_ca_id c) = 32 \<Longrightarrow>
    length (akc_aik_name c) = 64 \<Longrightarrow> length (akc_serial_number c) = 16 \<Longrightarrow> length (akc_signature c) = 512 \<Longrightarrow>
    length (credential_bytes c) = 900"
  by (simp add: credential_bytes_def)

lemma activate_credential_byte:
  assumes "tpm_make_credential (Some c) (Some ek) = Returned (Some e)"
    and "tpm_activate_credential out (Some e) (Some aik) = Returned (out', 0)"
    and "length (credential_bytes c) = 900" and "length out = 900" and "unat (tkp_modulus_size ek) = 256" and "2 \<le> i" and "i < 900"
    and "unat (tka_pub_modulus_size aik) = 256"
  shows "out' ! i = (if i < 256 then credential_bytes c ! i XOR (tkp_modulus ek ! i XOR 0xA5) XOR (tka_pub_modulus aik ! i XOR 0xA5)
    else if i < 512 then credential_bytes c ! i else out ! i)"
proof -
  let ?b = "credential_bytes c"
  define d where "d = (map (\<lambda>i. if i < 256 then ?b ! i XOR (tkp_modulus ek ! i XOR 0xA5) else ?b ! i) [0..<512])[0 := 0, 1 := 2]"
  have c: "blit (zeros 512) 0 (take 512 ?b) = take 512 ?b" using assms(3) by (simp add: blit_def)
  have e: "aec_data e = d" "unat (aec_size e) = 512"
    using assms(1,5) c assms(3)
    by (auto simp: tpm_make_credential_def simulate_rsa_encrypt_def AIK_KEY_SIZE_def AIK_CREDENTIAL_SIZE_def Let_def d_def
        intro!: arg_cong [where f = "\<lambda>x. list_update x _ _"] simp del: upt_rec_numeral split: c_result.splits)
  have ld: "length d = 512" by (simp add: d_def)
  have dd: "blit (zeros 512) 0 d = d" using ld by (simp add: blit_def)
  define p where "p = map (\<lambda>i. if i < 256 then d ! i XOR (tka_pub_modulus aik ! i XOR 0xA5) else d ! i) [0..<512]"
  have p: "simulate_rsa_decrypt e aik = Returned (p, 512)"
    using e dd ld assms(8) by (simp add: simulate_rsa_decrypt_def AIK_KEY_SIZE_def AIK_CREDENTIAL_SIZE_def Let_def p_def)
  have lp: "length p = 512" by (simp add: p_def)
  have out: "out' = blit out 0 p" using assms(2) p lp by (simp add: tpm_activate_credential_def)
  have di: "d ! i = (if i < 256 then ?b ! i XOR (tkp_modulus ek ! i XOR 0xA5) else ?b ! i)" if "i < 512"
    using that assms(6) by (simp add: d_def del: upt_rec_numeral)
  show ?thesis
  proof (cases "i < 512")
    case True
    then have "out' ! i = p ! i" using out lp assms(4) by (simp add: nth_blit)
    also have "p ! i = (if i < 256 then d ! i XOR (tka_pub_modulus aik ! i XOR 0xA5) else d ! i)"
      using True by (simp add: p_def del: upt_rec_numeral)
    finally show ?thesis using True di by (simp add: xor.assoc)
  next
    case False
    then show ?thesis using out lp assms(4,7) by (simp add: nth_blit)
  qed
qed

end
