(* ===== verification/Attest_Protocol.thy ===== *)
theory Attest_Protocol
  imports Aik_Identity
begin

text \<open>
  The challenge-response protocol of the remote attestation library (\<open>attest_protocol.c\<close>):
  challenges with their nonces, responses, replay of event logs, and the verdict.  The clock and
  the challenge counter are threaded.  An event log is a buffer with the number of bytes in use,
  and may be read beyond them.
\<close>

section \<open>Data\<close>

definition ATTEST_NONCE_SIZE :: nat where "ATTEST_NONCE_SIZE = 32"
definition ATTEST_MAX_EXTRA_DATA :: nat where "ATTEST_MAX_EXTRA_DATA = 64"
definition ATTEST_EVENT_LOG_MAX :: nat where "ATTEST_EVENT_LOG_MAX = 256"
definition ATTEST_MAX_PCR_VALUES :: nat where "ATTEST_MAX_PCR_VALUES = 24"

datatype AttestPolicyResult = ATTEST_POLICY_ALLOW | ATTEST_POLICY_DENY | ATTEST_POLICY_UNKNOWN

record RAChallenge =
  rac_nonce :: bytes
  rac_pcr_selection_mask :: u16
  rac_extra_data :: bytes
  rac_extra_data_size :: u16
  rac_challenge_id :: u32
  rac_timestamp :: u64

record RAResponse =
  rar_quote :: TPMQuote
  rar_event_log :: bytes
  rar_event_log_size :: u16
  rar_aik_credential :: AIKCredential
  rar_aik_credential_provided :: bool
  rar_challenge_id :: u32

record RAVerifier =
  rav_known_good_pcr_values :: "bytes list"
  rav_known_good_pcr_count :: u16
  rav_accepted_aiks :: "RAKeyPublic list"
  rav_accepted_aik_count :: u16
  rav_check_firmware_version :: bool
  rav_min_firmware_version :: u64

record RAVerdict =
  rvd_result :: AttestPolicyResult
  rvd_detail :: bytes
  rvd_nonce_matched :: bool
  rvd_pcr_matched :: bool
  rvd_aik_verified :: bool
  rvd_quote_verified :: bool
  rvd_fw_ok :: bool
  rvd_clock_ok :: bool
  rvd_event_log_ok :: bool
  rvd_policy_pass :: bool

definition zero_verdict :: RAVerdict where
  "zero_verdict = \<lparr>rvd_result = ATTEST_POLICY_ALLOW, rvd_detail = [], rvd_nonce_matched = False, rvd_pcr_matched = False,
     rvd_aik_verified = False, rvd_quote_verified = False, rvd_fw_ok = False, rvd_clock_ok = False, rvd_event_log_ok = False,
     rvd_policy_pass = False\<rparr>"

section \<open>Challenges\<close>

definition nonce_seed :: "u64 \<Rightarrow> u32 \<Rightarrow> u32" where
  "nonce_seed now i = ucast now XOR push_bit 16 i"

definition attest_challenge_create :: "u64 \<Rightarrow> u32 \<Rightarrow> u16 \<Rightarrow> bytes option \<Rightarrow> RAChallenge \<times> u32" where
  "attest_challenge_create now counter msk extra =
     (let ed = (case extra of None \<Rightarrow> [] | Some b \<Rightarrow> take ATTEST_MAX_EXTRA_DATA b)
      in (\<lparr>rac_nonce = fst (simulate_rng ATTEST_NONCE_SIZE (nonce_seed now counter)), rac_pcr_selection_mask = msk,
           rac_extra_data = blit (zeros ATTEST_MAX_EXTRA_DATA) 0 ed, rac_extra_data_size = of_nat (length ed),
           rac_challenge_id = counter, rac_timestamp = now\<rparr>, counter + 1))"

definition attest_challenge_verify_freshness :: "u64 \<Rightarrow> RAChallenge \<Rightarrow> u64 \<Rightarrow> bool" where
  "attest_challenge_verify_freshness now chal max_age_ms = ((now - rac_timestamp chal) * 1000 \<le> max_age_ms)"

section \<open>Responses\<close>

definition zero_credential :: AIKCredential where
  "zero_credential = \<lparr>akc_pub_modulus = zeros 256, akc_pub_modulus_size = 0, akc_pub_exponent = zeros 3,
     akc_privacy_ca_id = zeros 32, akc_aik_name = zeros 64, akc_issue_date = 0, akc_expiry_date = 0, akc_serial_number = zeros 16,
     akc_signature = zeros 512, akc_signature_size = 0, akc_active = False\<rparr>"

definition aik_as_key :: "TPMKeyAIK \<Rightarrow> RAKey" where
  "aik_as_key aik = \<lparr>rak_modulus = tka_pub_modulus aik, rak_exponent = tka_pub_exponent aik, rak_modulus_size = tka_pub_modulus_size aik\<rparr>"

definition attest_response_create ::
  "TPMKeyAIK option \<Rightarrow> AIKCredential option \<Rightarrow> TPMPcrComposite option \<Rightarrow> RAChallenge option \<Rightarrow> u64 \<Rightarrow> bytes option
     \<Rightarrow> RAResponse option c_result" where
  "attest_response_create aik cred pcr_composite chal fw event_log =
     (case (aik, pcr_composite, chal) of
        (Some a, Some pc, Some ch0) \<Rightarrow>
          if unat (tka_pub_modulus_size a) > AIK_KEY_SIZE then Undefined
          else (case tpm_quote_create (Some pc) (Some (rac_nonce ch0)) None fw of
              None \<Rightarrow> Returned None
            | Some q \<Rightarrow>
                let el = (case event_log of None \<Rightarrow> [] | Some b \<Rightarrow> take ATTEST_EVENT_LOG_MAX b)
                in Returned (Some \<lparr>rar_quote = fst (tpm_quote_sign q (Some (aik_as_key a))),
                     rar_event_log = blit (zeros ATTEST_EVENT_LOG_MAX) 0 el, rar_event_log_size = of_nat (length el),
                     rar_aik_credential = (case cred of None \<Rightarrow> zero_credential | Some c \<Rightarrow> c),
                     rar_aik_credential_provided = (cred \<noteq> None), rar_challenge_id = rac_challenge_id ch0\<rparr>))
      | _ \<Rightarrow> Returned None)"

section \<open>Event log and policy\<close>

text \<open>
  One turn per event: an index byte and four bytes of size, the last of which may lie beyond the
  log.  The index is not checked.  Positions are 16 bits wide; with a sum below \<open>2 ^ 16\<close> every turn
  moves on, and the length of the log is fuel enough.
\<close>

fun ra_replay_events :: "nat \<Rightarrow> bytes \<Rightarrow> nat \<Rightarrow> u16 \<Rightarrow> bytes list \<Rightarrow> bytes list c_result" where
  "ra_replay_events 0 log el pos regs = Diverges"
| "ra_replay_events (Suc fuel) log el pos regs =
     (if unat pos + 4 > el then Returned regs
      else if unat pos + 4 \<ge> length log then Undefined
      else let i = unat (log ! unat pos);
               event_size = le32_at log (unat pos + 1); pos1 = pos + 5
           in if ucast pos1 + event_size > (of_nat el :: u32) then Returned regs
              else if i \<ge> TPM_MAX_PCRS \<or> unat pos1 + unat event_size > length log then Undefined
              else ra_replay_events fuel log el (pos1 + ucast event_size)
                     (regs[i := tpm_hash_update (regs ! i) (sub_range log (unat pos1) (unat event_size))]))"

definition final_composite :: "bytes list \<Rightarrow> TPMPcrComposite" where
  "final_composite regs =
     fold (\<lambda>i pc. fst (tpm_pcr_composite_add pc (of_nat i) (Some (tpm_hash_final (regs ! i))))) [0..<TPM_MAX_PCRS] tpm_pcr_composite_init"

definition attest_replay_event_log :: "bytes option \<Rightarrow> u16 \<Rightarrow> (int \<times> TPMPcrComposite \<times> bool) c_result" where
  "attest_replay_event_log event_log el_size =
     (case event_log of None \<Rightarrow> Returned (-1, tpm_pcr_composite_init, False)
      | Some log \<Rightarrow>
          if el_size = 0 then Returned (0, tpm_pcr_composite_init, True)
          else case ra_replay_events (length log + 1) log (unat el_size) 0 (replicate TPM_MAX_PCRS tpm_hash_init) of
            Returned regs \<Rightarrow> Returned (0, final_composite regs, True)
          | Undefined \<Rightarrow> Undefined | Diverges \<Rightarrow> Diverges)"

definition attest_verify_policy :: "TPMPcrComposite \<Rightarrow> RAVerifier \<Rightarrow> AttestPolicyResult" where
  "attest_verify_policy pc v =
     (if rav_known_good_pcr_count v = 0 then ATTEST_POLICY_ALLOW
      else if list_ex (\<lambda>i. i < unat (pcmp_pcr_count pc) \<and> pcmp_pcr_digests pc ! i \<noteq> rav_known_good_pcr_values v ! i)
                [0..<min (unat (rav_known_good_pcr_count v)) ATTEST_MAX_PCR_VALUES]
        then ATTEST_POLICY_DENY
      else ATTEST_POLICY_ALLOW)"

definition attest_pcr_compare :: "TPMPcrComposite \<Rightarrow> TPMPcrComposite \<Rightarrow> u16 \<Rightarrow> bool" where
  "attest_pcr_compare a b pcr_mask =
     list_all (\<lambda>i. (ucast pcr_mask :: u32) AND push_bit i 1 \<noteq> 0 \<longrightarrow> pcmp_pcr_digests a ! i = pcmp_pcr_digests b ! i) [0..<TPM_MAX_PCRS]"

section \<open>The verdict\<close>

definition response_credential_ok :: "u64 \<Rightarrow> RAResponse \<Rightarrow> RAVerifier \<Rightarrow> bool c_result" where
  "response_credential_ok now resp v =
     (if rar_aik_credential_provided resp \<and> rav_accepted_aik_count v > 0 then
        (let c = rar_aik_credential resp in
         if unat (akc_pub_modulus_size c) > AIK_KEY_SIZE then Undefined
         else tpm_verify_aik_credential now c
                \<lparr>tkp_modulus = blit (zeros 256) 0 (take (unat (akc_pub_modulus_size c)) (akc_pub_modulus c)),
                 tkp_exponent = akc_pub_exponent c, tkp_modulus_size = akc_pub_modulus_size c, tkp_hierarchy = 0\<rparr>)
      else Returned True)"

definition verifier_key :: "RAVerifier \<Rightarrow> RAKey c_result" where
  "verifier_key v =
     (if rav_accepted_aik_count v > 0 then
        (let k = rav_accepted_aiks v ! 0 in
         if unat (tkp_modulus_size k) > 256 then Undefined
         else Returned \<lparr>rak_modulus = blit (zeros 256) 0 (take (unat (tkp_modulus_size k)) (tkp_modulus k)),
                        rak_exponent = tkp_exponent k, rak_modulus_size = tkp_modulus_size k\<rparr>)
      else Returned \<lparr>rak_modulus = zeros 256, rak_exponent = zeros 3, rak_modulus_size = 0\<rparr>)"

definition event_log_verdict :: "RAResponse \<Rightarrow> bool c_result" where
  "event_log_verdict resp =
     (if rar_event_log_size resp > 0 then
        (case attest_replay_event_log (Some (rar_event_log resp)) (rar_event_log_size resp) of
           Returned (rc, pc, m) \<Rightarrow> Returned m | Undefined \<Rightarrow> Undefined | Diverges \<Rightarrow> Diverges)
      else Returned True)"

definition attest_verify :: "u64 \<Rightarrow> RAResponse \<Rightarrow> RAChallenge \<Rightarrow> RAVerifier \<Rightarrow> RAVerdict c_result" where
  "attest_verify now resp chal v =
     (let q = rar_quote resp; vd = zero_verdict in
      if tat_extra_data (tqu_attest q) \<noteq> rac_nonce chal then
        Returned (vd\<lparr>rvd_result := ATTEST_POLICY_DENY, rvd_detail := str_bytes ''Nonce mismatch: response does not match challenge''\<rparr>)
      else case response_credential_ok now resp v of
        Undefined \<Rightarrow> Undefined | Diverges \<Rightarrow> Diverges
      | Returned aik_ok \<Rightarrow>
          if \<not> aik_ok then
            Returned (vd\<lparr>rvd_nonce_matched := True, rvd_result := ATTEST_POLICY_DENY,
                         rvd_detail := str_bytes ''AIK credential verification failed''\<rparr>)
          else case verifier_key v of
            Undefined \<Rightarrow> Undefined | Diverges \<Rightarrow> Diverges
          | Returned k \<Rightarrow>
              (case tpm_quote_verify (Some q) (Some k) (Some (tqu_pcr_composite q)) (tat_firmware_version (tqu_attest q)) of
                 Undefined \<Rightarrow> Undefined | Diverges \<Rightarrow> Diverges
               | Returned (rc, quote_valid) \<Rightarrow>
                   (case event_log_verdict resp of
                      Undefined \<Rightarrow> Undefined | Diverges \<Rightarrow> Diverges
                    | Returned el_ok \<Rightarrow>
                        let fw = (if rav_check_firmware_version v then
                                    tat_firmware_version (tqu_attest q) \<ge> rav_min_firmware_version v else True);
                            pass = (attest_verify_policy (tqu_pcr_composite q) v = ATTEST_POLICY_ALLOW)
                        in Returned (vd\<lparr>rvd_nonce_matched := True, rvd_aik_verified := True, rvd_quote_verified := quote_valid,
                             rvd_fw_ok := fw, rvd_clock_ok := True, rvd_event_log_ok := el_ok, rvd_policy_pass := pass,
                             rvd_pcr_matched := pass,
                             rvd_result := (if quote_valid \<and> fw \<and> el_ok \<and> pass then ATTEST_POLICY_ALLOW
                                            else ATTEST_POLICY_DENY)\<rparr>))))"

section \<open>Facts\<close>

text \<open>The policy looks at no more registers than the response says it has.\<close>

lemma policy_no_registers: "pcmp_pcr_count pc = 0 \<Longrightarrow> attest_verify_policy pc v = ATTEST_POLICY_ALLOW"
  by (simp add: attest_verify_policy_def list_ex_iff)

lemma policy_exact:
  assumes "0 < unat (rav_known_good_pcr_count v)" and "unat (rav_known_good_pcr_count v) \<le> 24"
    and "unat (rav_known_good_pcr_count v) \<le> unat (pcmp_pcr_count pc)"
  shows "attest_verify_policy pc v = (if \<forall>i < unat (rav_known_good_pcr_count v).
      pcmp_pcr_digests pc ! i = rav_known_good_pcr_values v ! i then ATTEST_POLICY_ALLOW else ATTEST_POLICY_DENY)"
  using assms by (auto simp: attest_verify_policy_def ATTEST_MAX_PCR_VALUES_def list_ex_iff min_def Bex_def)

text \<open>Nonces repeat: two challenges of one second whose numbers agree in their low half have the same.\<close>

lemma nonce_repeats:
  assumes "i AND 0xFFFF = j AND 0xFFFF"
  shows "rac_nonce (fst (attest_challenge_create now i m1 e1)) = rac_nonce (fst (attest_challenge_create now j m2 e2))"
proof -
  have m: "(0xFFFF :: u32) = Bit_Operations.mask 16" by (simp add: mask_eq_exp_minus_1)
  have "push_bit 16 i = push_bit 16 j"
  proof (rule bit_word_eqI)
    fix n
    assume n: "n < LENGTH(32)"
    have "bit i k = bit j k" if "k < 16" for k
      using arg_cong [OF assms, of "\<lambda>w. bit w k"] that by (simp add: m bit_and_iff bit_mask_iff)
    then show "bit (push_bit 16 i) n = bit (push_bit 16 j) n" using n by (auto simp: bit_push_bit_iff)
  qed
  then show ?thesis by (simp add: attest_challenge_create_def nonce_seed_def Let_def)
qed

text \<open>Whatever the log holds, its replay never contradicts anything.\<close>

lemma event_log_never_rejected: "event_log_verdict resp = Returned ok \<Longrightarrow> ok"
  by (auto simp: event_log_verdict_def attest_replay_event_log_def split: if_splits c_result.splits)

lemma empty_log_ok: "rar_event_log_size resp = 0 \<Longrightarrow> event_log_verdict resp = Returned True"
  by (simp add: event_log_verdict_def)

text \<open>An honest response: the verdict depends on the version and the policy only.\<close>

lemma take_blit_take:
  "n \<le> 256 \<Longrightarrow> length m = 256 \<Longrightarrow> i < n \<Longrightarrow> blit (zeros 256) 0 (take n m) ! i = m ! i"
  by (simp add: blit_def nth_append)

lemma rsa_temp_cong:
  assumes "rak_modulus_size k = rak_modulus_size k'" and "\<And>i. i < unat (rak_modulus_size k) \<Longrightarrow> i < 256 \<Longrightarrow> rak_modulus k ! i = rak_modulus k' ! i"
  shows "rsa_temp h k = rsa_temp h k'"
proof -
  have "map (\<lambda>i. if i < (if unat (rak_modulus_size k') < 256 then unat (rak_modulus_size k') else 256)
          then t ! i XOR rak_modulus k ! i else t ! i) [0..<256]
      = map (\<lambda>i. if i < (if unat (rak_modulus_size k') < 256 then unat (rak_modulus_size k') else 256)
          then t ! i XOR rak_modulus k' ! i else t ! i) [0..<256]" for t
    using assms by (intro map_cong) (auto simp del: upt_rec_numeral)
  then show ?thesis unfolding rsa_temp_def Let_def assms(1) by (simp only:)
qed

lemma attest_honest:
  assumes "attest_response_create (Some aik) None (Some pc) (Some chal) fw None = Returned (Some resp)"
    and "length (rac_nonce chal) = 32" and "0 < rav_accepted_aik_count v"
    and "tkp_modulus (rav_accepted_aiks v ! 0) = tka_pub_modulus aik"
    and "tkp_modulus_size (rav_accepted_aiks v ! 0) = tka_pub_modulus_size aik" and "length (tka_pub_modulus aik) = 256"
  shows "\<exists>vd. attest_verify now resp chal v = Returned vd \<and> rvd_quote_verified vd
    \<and> (rvd_result vd = ATTEST_POLICY_ALLOW \<longleftrightarrow> (rav_check_firmware_version v \<longrightarrow> rav_min_firmware_version v \<le> fw)
        \<and> attest_verify_policy pc v = ATTEST_POLICY_ALLOW)"
proof -
  let ?k = "aik_as_key aik"
  have sz: "unat (rak_modulus_size ?k) \<le> 256"
    using assms(1) by (auto simp: attest_response_create_def aik_as_key_def AIK_KEY_SIZE_def split: if_splits)
  obtain q where q: "tpm_quote_create (Some pc) (Some (rac_nonce chal)) None fw = Some q" by (simp add: tpm_quote_create_def)
  define q' where "q' = fst (tpm_quote_sign q (Some ?k))"
  have r: "rar_quote resp = q'" "rar_aik_credential_provided resp = False" "rar_event_log_size resp = 0"
    using assms(1) q by (auto simp: attest_response_create_def q'_def split: if_splits)
  have s: "tpm_quote_sign q (Some ?k) = (q', 0)" by (simp add: q'_def tpm_quote_sign_def split: prod.split)
  have a: "tqu_attest q' = tqu_attest q" "tqu_pcr_composite q' = pc" "tat_firmware_version (tqu_attest q') = fw"
    "tat_extra_data (tqu_attest q') = rac_nonce chal"
    using q s assms(2) by (auto simp: tpm_quote_create_def tpm_quote_sign_def copy_in_def blit_def split: prod.splits)
  obtain k where k: "verifier_key v = Returned k" "rak_modulus_size k = rak_modulus_size ?k"
    "\<And>i. i < unat (rak_modulus_size k) \<Longrightarrow> rak_modulus k ! i = rak_modulus ?k ! i"
    using assms(3-6) sz take_blit_take by (auto simp: verifier_key_def aik_as_key_def Let_def)
  have "rsa_temp h k = rsa_temp h ?k" for h using k(2,3) by (intro rsa_temp_cong) simp_all
  then have "simulate_rsa_verify h k sig = simulate_rsa_verify h ?k sig" for h sig
    using k(2) by (simp add: simulate_rsa_verify_def Let_def)
  then have "tpm_quote_verify (Some q') (Some k) (Some pc) fw = tpm_quote_verify (Some q') (Some ?k) (Some pc) fw"
    by (simp add: tpm_quote_verify_def)
  then have v: "tpm_quote_verify (Some q') (Some k) (Some pc) fw = Returned (0, True)"
    using quote_sign_verify [OF q s sz, of pc] by simp
  have c: "response_credential_ok now resp v = Returned True" using r(2) by (simp add: response_credential_ok_def)
  show ?thesis using r a k(1) v c empty_log_ok [OF r(3)] by (simp add: attest_verify_def Let_def)
qed

text \<open>
  A verifier with no accepted key accepts a response that nobody signed: the attested structure with
  the nonce, a version that is high enough, and no registers.
\<close>

definition forged_response :: "RAChallenge \<Rightarrow> u64 \<Rightarrow> RAResponse" where
  "forged_response chal fw =
     \<lparr>rar_quote = \<lparr>tqu_attest = zero_attest\<lparr>tat_magic := TPM_GENERATED_VALUE, tat_type := TPM_ST_ATTEST_QUOTE,
                    tat_extra_data := rac_nonce chal, tat_firmware_version := fw\<rparr>,
                   tqu_pcr_composite = tpm_pcr_composite_init, tqu_signature = zeros 256, tqu_signature_size = 0\<rparr>,
      rar_event_log = zeros 256, rar_event_log_size = 0, rar_aik_credential = zero_credential,
      rar_aik_credential_provided = False, rar_challenge_id = rac_challenge_id chal\<rparr>"

lemma forged_response_accepted:
  assumes "rav_accepted_aik_count v = 0" and "rav_check_firmware_version v \<longrightarrow> rav_min_firmware_version v \<le> fw"
  shows "\<exists>vd. attest_verify now (forged_response chal fw) chal v = Returned vd \<and> rvd_result vd = ATTEST_POLICY_ALLOW"
proof -
  let ?r = "forged_response chal fw" and ?k = "\<lparr>rak_modulus = zeros 256, rak_exponent = zeros 3, rak_modulus_size = 0\<rparr>"
  have v: "tpm_quote_verify (Some (rar_quote ?r)) (Some ?k) (Some (tqu_pcr_composite (rar_quote ?r)))
      (tat_firmware_version (tqu_attest (rar_quote ?r))) = Returned (0, True)"
    by (subst empty_key_accepts) (simp_all add: forged_response_def)
  have p: "attest_verify_policy (tqu_pcr_composite (rar_quote ?r)) v = ATTEST_POLICY_ALLOW"
    by (rule policy_no_registers) (simp add: forged_response_def tpm_pcr_composite_init_def)
  have "verifier_key v = Returned ?k" using assms(1) by (simp add: verifier_key_def)
  moreover have "response_credential_ok now ?r v = Returned True" by (simp add: response_credential_ok_def forged_response_def)
  moreover have "event_log_verdict ?r = Returned True" by (rule empty_log_ok) (simp add: forged_response_def)
  moreover have "tat_extra_data (tqu_attest (rar_quote ?r)) = rac_nonce chal" "tat_firmware_version (tqu_attest (rar_quote ?r)) = fw"
    by (simp_all add: forged_response_def)
  ultimately show ?thesis using v p assms(2) by (simp add: attest_verify_def Let_def)
qed

end
