(* ===== verification/Verifier_Service.thy ===== *)
theory Verifier_Service
  imports Attest_Protocol
begin

text \<open>
  The verifier's device database (\<open>verifier_service.c\<close>).  Policy rules and firmware white lists are
  kept and never consulted.  The clock is a parameter.
\<close>

section \<open>Data\<close>

definition ATTEST_DB_MAX_DEVICES :: nat where "ATTEST_DB_MAX_DEVICES = 256"
definition ATTEST_DEVICE_ID_SIZE :: nat where "ATTEST_DEVICE_ID_SIZE = 64"
definition ATTEST_FW_WHITELIST_MAX :: nat where "ATTEST_FW_WHITELIST_MAX = 32"
definition ATTEST_POLICY_MAX_RULES :: nat where "ATTEST_POLICY_MAX_RULES = 16"

datatype AttestResult = ATTEST_RESULT_TRUSTED | ATTEST_RESULT_UNTRUSTED | ATTEST_RESULT_UNKNOWN

record AttestFirmwareRecord =
  afr_binary_hash :: bytes
  afr_version :: bytes
  afr_release_date :: u32

record AttestPolicyRule =
  apr_pcr_index :: u8
  apr_expected_value :: bytes
  apr_pcr_mask :: u16
  apr_default_action :: AttestPolicyResult
  apr_rule_name :: bytes

record AttestDeviceEntry =
  ade_device_id :: bytes
  ade_ek_pub_hash :: bytes
  ade_expected_pcr_values :: "bytes list"
  ade_expected_pcr_count :: u16
  ade_firmware_whitelist :: "AttestFirmwareRecord list"
  ade_policy_rules :: "AttestPolicyRule list"
  ade_last_attest_time :: u64
  ade_attest_fail_count :: u32
  ade_last_result :: AttestResult
  ade_registered :: bool
  ade_ownership_taken :: bool
  ade_locked :: bool

text \<open>The entries in use, the white lists and rules up to their counts; the signing key is never set.\<close>

record AttestDB =
  adb_device_entries :: "AttestDeviceEntry list"
  adb_verifier_id :: bytes
  adb_initialized :: bool

section \<open>Operations\<close>

definition attest_service_init :: "bytes \<Rightarrow> AttestDB" where
  "attest_service_init verifier_id =
     \<lparr>adb_device_entries = [], adb_verifier_id = take ATTEST_DEVICE_ID_SIZE verifier_id, adb_initialized = True\<rparr>"

definition put_values :: "bytes list \<Rightarrow> bytes list \<Rightarrow> bytes list" where
  "put_values old new = blit old 0 (take ATTEST_MAX_PCR_VALUES new)"

definition attest_service_register_device ::
  "AttestDB \<Rightarrow> bytes option \<Rightarrow> bytes option \<Rightarrow> bytes list option \<Rightarrow> AttestDB \<times> int" where
  "attest_service_register_device db device_id ek_hash pcrs =
     (case (device_id, ek_hash) of
        (Some i, Some h) \<Rightarrow>
          if length (adb_device_entries db) \<ge> ATTEST_DB_MAX_DEVICES then (db, -2)
          else let vs = (case pcrs of None \<Rightarrow> [] | Some ps \<Rightarrow> take ATTEST_MAX_PCR_VALUES ps)
               in (db\<lparr>adb_device_entries := adb_device_entries db @
                    [\<lparr>ade_device_id = i, ade_ek_pub_hash = h,
                      ade_expected_pcr_values = put_values (replicate ATTEST_MAX_PCR_VALUES (zeros 32)) vs,
                      ade_expected_pcr_count = of_nat (length vs), ade_firmware_whitelist = [], ade_policy_rules = [],
                      ade_last_attest_time = 0, ade_attest_fail_count = 0, ade_last_result = ATTEST_RESULT_UNKNOWN,
                      ade_registered = True, ade_ownership_taken = False, ade_locked = False\<rparr>]\<rparr>, 0)
      | _ \<Rightarrow> (db, -1))"

definition attest_service_find_device :: "AttestDB \<Rightarrow> bytes option \<Rightarrow> int + AttestDeviceEntry" where
  "attest_service_find_device db device_id =
     (case device_id of None \<Rightarrow> Inl (-1)
      | Some i \<Rightarrow>
          if \<not> adb_initialized db then Inl (-4)
          else (case find (\<lambda>e. ade_registered e \<and> ade_device_id e = i) (adb_device_entries db) of
                  None \<Rightarrow> Inl (-3) | Some e \<Rightarrow> Inr e))"

text \<open>The first entry with the identifier, changed; \<open>-2\<close> when there is none.\<close>

definition update_device :: "AttestDB \<Rightarrow> bytes \<Rightarrow> (AttestDeviceEntry \<Rightarrow> AttestDeviceEntry) \<Rightarrow> AttestDB \<times> int" where
  "update_device db i f =
     (case find_index (\<lambda>e. ade_device_id e = i) (adb_device_entries db) of
        None \<Rightarrow> (db, -2)
      | Some k \<Rightarrow> (db\<lparr>adb_device_entries := (adb_device_entries db)[k := f (adb_device_entries db ! k)]\<rparr>, 0))"

definition attest_service_take_ownership :: "AttestDB \<Rightarrow> bytes option \<Rightarrow> AttestDB \<times> int" where
  "attest_service_take_ownership db device_id =
     (case device_id of None \<Rightarrow> (db, -1)
      | Some i \<Rightarrow> (case attest_service_find_device db (Some i) of
          Inl rc \<Rightarrow> (db, rc)
        | Inr e \<Rightarrow> update_device db i (\<lambda>e. e\<lparr>ade_ownership_taken := True, ade_locked := False\<rparr>)))"

definition attest_service_clear_device :: "AttestDB \<Rightarrow> bytes option \<Rightarrow> AttestDB \<times> int" where
  "attest_service_clear_device db device_id =
     (case device_id of None \<Rightarrow> (db, -1)
      | Some i \<Rightarrow> update_device db i (\<lambda>e. e\<lparr>ade_attest_fail_count := 0, ade_last_result := ATTEST_RESULT_UNKNOWN,
                                          ade_last_attest_time := 0, ade_locked := False\<rparr>))"

definition attest_service_lock_device :: "AttestDB \<Rightarrow> bytes option \<Rightarrow> bool \<Rightarrow> AttestDB \<times> int" where
  "attest_service_lock_device db device_id lock_state =
     (case device_id of None \<Rightarrow> (db, -1) | Some i \<Rightarrow> update_device db i (\<lambda>e. e\<lparr>ade_locked := lock_state\<rparr>))"

definition service_verifier :: "AttestDeviceEntry \<Rightarrow> RAVerifier" where
  "service_verifier e =
     \<lparr>rav_known_good_pcr_values =
        blit (replicate ATTEST_MAX_PCR_VALUES (zeros 32)) 0
          (take (min (unat (ade_expected_pcr_count e)) ATTEST_MAX_PCR_VALUES) (ade_expected_pcr_values e)),
      rav_known_good_pcr_count = ade_expected_pcr_count e, rav_accepted_aiks = [], rav_accepted_aik_count = 0,
      rav_check_firmware_version = True, rav_min_firmware_version = 1\<rparr>"

definition attest_service_verify_quote ::
  "u64 \<Rightarrow> AttestDB \<Rightarrow> bytes option \<Rightarrow> RAResponse \<Rightarrow> RAChallenge \<Rightarrow> (AttestDB \<times> int \<times> AttestResult \<times> RAVerdict option) c_result" where
  "attest_service_verify_quote now db device_id resp chal =
     (case device_id of None \<Rightarrow> Returned (db, -1, ATTEST_RESULT_UNKNOWN, None)
      | Some i \<Rightarrow> (case attest_service_find_device db (Some i) of
          Inl rc \<Rightarrow> Returned (db, rc, ATTEST_RESULT_UNKNOWN, None)
        | Inr e \<Rightarrow>
            if ade_locked e then
              Returned (db, 0, ATTEST_RESULT_UNTRUSTED,
                Some (zero_verdict\<lparr>rvd_result := ATTEST_POLICY_DENY, rvd_detail := str_bytes ''Device is locked''\<rparr>))
            else (case attest_verify now resp chal (service_verifier e) of
                Undefined \<Rightarrow> Undefined | Diverges \<Rightarrow> Diverges
              | Returned vd \<Rightarrow>
                  let r = (if rvd_result vd = ATTEST_POLICY_ALLOW then ATTEST_RESULT_TRUSTED else ATTEST_RESULT_UNTRUSTED);
                      db1 = fst (update_device db i (\<lambda>e. e\<lparr>ade_last_attest_time := now, ade_last_result := r,
                              ade_attest_fail_count := (if r = ATTEST_RESULT_UNTRUSTED then ade_attest_fail_count e + 1 else 0)\<rparr>))
                  in Returned (db1, 0, r, Some vd))))"

definition attest_service_update_policy :: "AttestDB \<Rightarrow> bytes option \<Rightarrow> AttestPolicyRule list option \<Rightarrow> AttestDB \<times> int" where
  "attest_service_update_policy db device_id rules =
     (case (device_id, rules) of
        (Some i, Some rs) \<Rightarrow> (case attest_service_find_device db (Some i) of
          Inl rc \<Rightarrow> (db, rc)
        | Inr e \<Rightarrow> update_device db i (\<lambda>e. e\<lparr>ade_policy_rules := take ATTEST_POLICY_MAX_RULES rs\<rparr>))
      | _ \<Rightarrow> (db, -1))"

definition attest_service_add_firmware_whitelist ::
  "AttestDB \<Rightarrow> bytes option \<Rightarrow> AttestFirmwareRecord list option \<Rightarrow> AttestDB \<times> int" where
  "attest_service_add_firmware_whitelist db device_id fw =
     (case (device_id, fw) of
        (Some i, Some fs) \<Rightarrow> update_device db i (\<lambda>e. e\<lparr>ade_firmware_whitelist := take ATTEST_FW_WHITELIST_MAX fs\<rparr>)
      | _ \<Rightarrow> (db, -1))"

definition attest_service_update_pcr_expected :: "AttestDB \<Rightarrow> bytes option \<Rightarrow> bytes list option \<Rightarrow> AttestDB \<times> int" where
  "attest_service_update_pcr_expected db device_id pcrs =
     (case (device_id, pcrs) of
        (Some i, Some ps) \<Rightarrow> update_device db i (\<lambda>e. e\<lparr>ade_expected_pcr_values := put_values (ade_expected_pcr_values e) ps,
                              ade_expected_pcr_count := of_nat (length (take ATTEST_MAX_PCR_VALUES ps))\<rparr>)
      | _ \<Rightarrow> (db, -1))"

definition attest_service_get_attest_result :: "AttestDB \<Rightarrow> bytes option \<Rightarrow> int \<times> AttestResult" where
  "attest_service_get_attest_result db device_id =
     (case attest_service_find_device db device_id of Inl rc \<Rightarrow> (rc, ATTEST_RESULT_UNKNOWN) | Inr e \<Rightarrow> (0, ade_last_result e))"

definition attest_result_to_string :: "AttestResult \<Rightarrow> string" where
  "attest_result_to_string r =
     (case r of ATTEST_RESULT_TRUSTED \<Rightarrow> ''TRUSTED'' | ATTEST_RESULT_UNTRUSTED \<Rightarrow> ''UNTRUSTED'' | ATTEST_RESULT_UNKNOWN \<Rightarrow> ''UNKNOWN'')"

section \<open>The database as a map\<close>

definition service_wf :: "AttestDB \<Rightarrow> bool" where
  "service_wf db \<longleftrightarrow> adb_initialized db \<and> length (adb_device_entries db) \<le> ATTEST_DB_MAX_DEVICES
     \<and> (\<forall>e \<in> set (adb_device_entries db). ade_registered e)"

definition device :: "AttestDB \<Rightarrow> bytes \<rightharpoonup> AttestDeviceEntry" where
  "device db i = find (\<lambda>e. ade_device_id e = i) (adb_device_entries db)"

lemma service_init_wf: "service_wf (attest_service_init vid) \<and> device (attest_service_init vid) = Map.empty"
  by (simp add: service_wf_def device_def attest_service_init_def fun_eq_iff)

lemma find_device_map:
  assumes "service_wf db"
  shows "attest_service_find_device db (Some i) = (case device db i of None \<Rightarrow> Inl (-3) | Some e \<Rightarrow> Inr e)"
proof -
  have "find (\<lambda>e. ade_registered e \<and> ade_device_id e = i) es = find (\<lambda>e. ade_device_id e = i) es"
    if "\<forall>e \<in> set es. ade_registered e" for es
    using that by (induction es) auto
  from this [of "adb_device_entries db"] show ?thesis
    using assms by (simp add: service_wf_def device_def attest_service_find_device_def)
qed

lemma find_find_index: "find P xs = map_option ((!) xs) (find_index P xs)"
  by (induction xs) (auto simp: map_option_case split: option.splits)

lemma update_device_map:
  assumes "service_wf db" and "\<And>e. ade_device_id (f e) = ade_device_id e" and "\<And>e. ade_registered (f e) = ade_registered e"
    and "update_device db i f = (db', rc)"
  shows "service_wf db' \<and> device db' = (case device db i of None \<Rightarrow> device db | Some e \<Rightarrow> (device db)(i \<mapsto> f e))
    \<and> (rc = 0 \<longleftrightarrow> device db i \<noteq> None)"
proof (cases "find_index (\<lambda>e. ade_device_id e = i) (adb_device_entries db)")
  case None
  then show ?thesis using assms by (auto simp: update_device_def device_def find_find_index)
next
  case (Some k)
  let ?es = "adb_device_entries db"
  have k: "k < length ?es" "ade_device_id (?es ! k) = i" using find_index_SomeD [OF Some] by simp_all
  have db': "db' = db\<lparr>adb_device_entries := ?es[k := f (?es ! k)]\<rparr>" "rc = 0" using assms(4) Some by (simp_all add: update_device_def)
  have d: "device db i = Some (?es ! k)" using Some by (simp add: device_def find_find_index)
  have "?es ! k \<in> set ?es" using k(1) by simp
  then have w: "service_wf db'" using assms(1,3) db'(1) k(1)
    by (auto simp: service_wf_def dest!: subsetD [OF set_update_subset_insert])
  have "device db' j = ((device db)(i \<mapsto> f (?es ! k))) j" for j
  proof -
    have e: "find_index (\<lambda>e. ade_device_id e = j) (?es[k := f (?es ! k)]) = find_index (\<lambda>e. ade_device_id e = j) ?es"
      using k(1) assms(2) by (intro find_index_update_keep) simp_all
    show ?thesis
    proof (cases "j = i")
      case True
      then show ?thesis using e Some k(1) db'(1) by (simp add: device_def find_find_index)
    next
      case False
      have "l \<noteq> k" if "find_index (\<lambda>e. ade_device_id e = j) ?es = Some l" for l
        using find_index_SomeD [OF that] k(2) False by auto
      then show ?thesis using e db'(1) False
        by (cases "find_index (\<lambda>e. ade_device_id e = j) ?es") (simp_all add: device_def find_find_index)
    qed
  qed
  then show ?thesis using w d db'(2) by auto
qed

lemma register_map:
  assumes "service_wf db" and "attest_service_register_device db (Some i) (Some h) pcrs = (db', 0)"
  shows "service_wf db' \<and> (\<forall>j. j \<noteq> i \<longrightarrow> device db' j = device db j)
    \<and> (device db i \<noteq> None \<longrightarrow> device db' i = device db i)
    \<and> (device db i = None \<longrightarrow> (\<exists>e. device db' i = Some e \<and> ade_ek_pub_hash e = h \<and> \<not> ade_locked e
          \<and> ade_last_result e = ATTEST_RESULT_UNKNOWN \<and> ade_attest_fail_count e = 0))"
proof -
  have f: "find P (xs @ [x]) = (case find P xs of Some y \<Rightarrow> Some y | None \<Rightarrow> if P x then Some x else None)"
    for P and xs :: "AttestDeviceEntry list" and x
    by (induction xs) auto
  show ?thesis using assms
    by (auto simp: attest_service_register_device_def service_wf_def device_def f Let_def split: if_splits option.splits)
qed

text \<open>A locked device is untrusted, whatever it answers, and nothing is recorded.\<close>

lemma locked_untrusted:
  assumes "service_wf db" and "device db i = Some e" and "ade_locked e"
  shows "\<exists>vd. attest_service_verify_quote now db (Some i) resp chal = Returned (db, 0, ATTEST_RESULT_UNTRUSTED, Some vd)"
  using assms by (simp add: attest_service_verify_quote_def find_device_map)

text \<open>An unlocked device is trusted for a response that no device made.\<close>

lemma forged_trusted:
  assumes "service_wf db" and "device db i = Some e" and "\<not> ade_locked e" and "1 \<le> fw"
  shows "\<exists>db' vd. attest_service_verify_quote now db (Some i) (forged_response chal fw) chal
      = Returned (db', 0, ATTEST_RESULT_TRUSTED, Some vd)
    \<and> device db' = (device db)(i \<mapsto> e\<lparr>ade_last_attest_time := now, ade_last_result := ATTEST_RESULT_TRUSTED, ade_attest_fail_count := 0\<rparr>)"
proof -
  obtain vd where vd: "attest_verify now (forged_response chal fw) chal (service_verifier e) = Returned vd"
    "rvd_result vd = ATTEST_POLICY_ALLOW"
    using forged_response_accepted [of "service_verifier e" fw now chal] assms(4) by (auto simp: service_verifier_def)
  let ?f = "\<lambda>e. e\<lparr>ade_last_attest_time := now, ade_last_result := ATTEST_RESULT_TRUSTED, ade_attest_fail_count := 0\<rparr>"
  have "device (fst (update_device db i ?f)) = (device db)(i \<mapsto> ?f e)"
    using update_device_map [OF assms(1), of ?f i "fst (update_device db i ?f)" "snd (update_device db i ?f)"] assms(2) by simp
  then show ?thesis using assms(1-3) vd by (simp add: attest_service_verify_quote_def find_device_map Let_def)
qed

text \<open>Policy rules and white lists have no influence on the outcome of an attestation.\<close>

lemma rules_ignored:
  "service_verifier (e\<lparr>ade_policy_rules := rs, ade_firmware_whitelist := ws, ade_ek_pub_hash := h\<rparr>) = service_verifier e"
  by (simp add: service_verifier_def)

end
