(* ===== verification/Attest_Log.thy ===== *)
theory Attest_Log
  imports Attest_Protocol
begin

text \<open>
  The event logs of the remote attestation library (\<open>eventlog.c\<close>): extension of registers with the
  library's own hash, the crypto-agile and the SHA-256 log, replay, and the integrity check.  A
  digest is the 64 bytes of its union; a SHA-256 digest is its first 32.
\<close>

section \<open>Data\<close>

definition TCG_EVENT_LOG_MAX_ENTRIES :: nat where "TCG_EVENT_LOG_MAX_ENTRIES = 64"
definition TCG_MAX_DIGEST_COUNT :: nat where "TCG_MAX_DIGEST_COUNT = 4"
definition TCG_EVENT_DATA_MAX_SIZE :: nat where "TCG_EVENT_DATA_MAX_SIZE = 512"
definition AGILE_ALG_SHA256 :: u16 where "AGILE_ALG_SHA256 = 0x000B"

record AgileDigest =
  tdg_algorithm_id :: u16
  tdg_digest :: bytes

record TCGDigestList =
  tdl_count :: u32
  tdl_digests :: "AgileDigest list"

record AgileEvent =
  age_pcr_index :: u32
  age_event_type :: u32
  age_digests :: TCGDigestList
  age_event_data :: bytes
  age_event_data_size :: u32

text \<open>The entries in use.\<close>

record AgileLog =
  agl_entries :: "AgileEvent list"
  agl_log_hash_algorithm :: u32
  agl_boot_counter :: u64
  agl_finalized :: bool

record TCGEventSHA256 =
  tes_pcr_index :: u8
  tes_event_type :: u32
  tes_digest :: bytes
  tes_data :: bytes
  tes_data_size :: u32

record TCGEventLogSHA256 =
  tel_entries :: "TCGEventSHA256 list"
  tel_boot_cycle :: u32
  tel_sealed :: bool

record TCGHashSequence =
  ths_state :: bytes
  ths_started :: bool
  ths_data_hashed :: u32

section \<open>Extension\<close>

definition tcg_pcr_extend :: "bytes \<Rightarrow> bytes option \<Rightarrow> bytes \<times> int" where
  "tcg_pcr_extend pcr digest =
     (case digest of None \<Rightarrow> (pcr, -1)
      | Some d \<Rightarrow> if d = [] then (pcr, -1)
                  else (tpm_hash_final (tpm_hash_update (tpm_hash_update tpm_hash_init pcr) (take 32 d)), 0))"

definition tcg_pcr_extend_with_data :: "bytes \<Rightarrow> bytes option \<Rightarrow> bytes \<times> int" where
  "tcg_pcr_extend_with_data pcr data =
     (case data of None \<Rightarrow> (pcr, -1)
      | Some d \<Rightarrow> if d = [] then (pcr, -1)
                  else tcg_pcr_extend pcr (Some (tpm_hash_final (tpm_hash_update tpm_hash_init d))))"

definition extend_digest :: "AgileDigest \<Rightarrow> AgileDigest \<Rightarrow> AgileDigest" where
  "extend_digest p d =
     (if tdg_algorithm_id d = AGILE_ALG_SHA256 \<and> tdg_algorithm_id p = AGILE_ALG_SHA256
      then p\<lparr>tdg_digest := blit (tdg_digest p) 0 (fst (tcg_pcr_extend (take 32 (tdg_digest p)) (Some (take 32 (tdg_digest d)))))\<rparr>
      else p)"

definition tcg_pcr_extend_multi :: "TCGDigestList \<Rightarrow> u32 \<Rightarrow> TCGDigestList option \<Rightarrow> TCGDigestList \<times> int" where
  "tcg_pcr_extend_multi pcrs idx digests =
     (case digests of None \<Rightarrow> (pcrs, -1)
      | Some ds \<Rightarrow>
          if unat idx \<ge> TPM_MAX_PCRS then (pcrs, -2)
          else let n = min (min (unat (tdl_count ds)) (unat (tdl_count pcrs))) TCG_MAX_DIGEST_COUNT
               in (pcrs\<lparr>tdl_digests := fold (\<lambda>i ps. ps[i := extend_digest (ps ! i) (tdl_digests ds ! i)]) [0..<n] (tdl_digests pcrs)\<rparr>, 0))"

section \<open>The crypto-agile log\<close>

definition zero_agile_digest :: AgileDigest where
  "zero_agile_digest = \<lparr>tdg_algorithm_id = 0, tdg_digest = zeros 64\<rparr>"

definition tcg_eventlog_init :: "u32 \<Rightarrow> AgileLog" where
  "tcg_eventlog_init alg = \<lparr>agl_entries = [], agl_log_hash_algorithm = alg, agl_boot_counter = 0, agl_finalized = False\<rparr>"

definition tcg_eventlog_add ::
  "AgileLog \<Rightarrow> u32 \<Rightarrow> u32 \<Rightarrow> TCGDigestList option \<Rightarrow> bytes option \<Rightarrow> AgileLog \<times> int" where
  "tcg_eventlog_add log idx ty digests event_data =
     (case digests of None \<Rightarrow> (log, -1)
      | Some ds \<Rightarrow>
          if agl_finalized log then (log, -4)
          else if length (agl_entries log) \<ge> TCG_EVENT_LOG_MAX_ENTRIES then (log, -2)
          else if unat idx \<ge> TPM_MAX_PCRS then (log, -3)
          else let n = min (unat (tdl_count ds)) TCG_MAX_DIGEST_COUNT;
                   dat = (case event_data of None \<Rightarrow> [] | Some d \<Rightarrow> take TCG_EVENT_DATA_MAX_SIZE d)
               in (log\<lparr>agl_entries := agl_entries log @
                    [\<lparr>age_pcr_index = idx, age_event_type = ty,
                      age_digests = \<lparr>tdl_count = tdl_count ds, tdl_digests = blit (replicate 4 zero_agile_digest) 0 (take n (tdl_digests ds))\<rparr>,
                      age_event_data = blit (zeros TCG_EVENT_DATA_MAX_SIZE) 0 dat, age_event_data_size = of_nat (length dat)\<rparr>]\<rparr>, 0))"

definition tcg_eventlog_get :: "AgileLog \<Rightarrow> u32 \<Rightarrow> AgileEvent option" where
  "tcg_eventlog_get log idx = (if unat idx \<ge> length (agl_entries log) then None else Some (agl_entries log ! unat idx))"

definition tcg_eventlog_finalize :: "AgileLog \<Rightarrow> AgileLog" where
  "tcg_eventlog_finalize log = log\<lparr>agl_finalized := True\<rparr>"

section \<open>The SHA-256 log\<close>

definition tcg_eventlog_sha256_init :: TCGEventLogSHA256 where
  "tcg_eventlog_sha256_init = \<lparr>tel_entries = [], tel_boot_cycle = 0, tel_sealed = False\<rparr>"

definition tcg_eventlog_sha256_add :: "TCGEventLogSHA256 \<Rightarrow> u8 \<Rightarrow> u32 \<Rightarrow> bytes option \<Rightarrow> TCGEventLogSHA256 \<times> int" where
  "tcg_eventlog_sha256_add log idx ty data =
     (case data of None \<Rightarrow> (log, -1)
      | Some d \<Rightarrow>
          if tel_sealed log then (log, -4)
          else if length (tel_entries log) \<ge> TCG_EVENT_LOG_MAX_ENTRIES then (log, -2)
          else if unat idx \<ge> TPM_MAX_PCRS then (log, -3)
          else (log\<lparr>tel_entries := tel_entries log @
                  [\<lparr>tes_pcr_index = idx, tes_event_type = ty, tes_digest = tpm_hash_final (tpm_hash_update tpm_hash_init d),
                    tes_data = take TCG_EVENT_DATA_MAX_SIZE d,
                    tes_data_size = of_nat (length (take TCG_EVENT_DATA_MAX_SIZE d))\<rparr>]\<rparr>, 0))"

definition tcg_eventlog_sha256_seal :: "TCGEventLogSHA256 \<Rightarrow> TCGEventLogSHA256 \<times> int" where
  "tcg_eventlog_sha256_seal log = (if tel_sealed log then (log, -2) else (log\<lparr>tel_sealed := True\<rparr>, 0))"

definition replay_sha256_event :: "TCGEventSHA256 \<Rightarrow> bytes list \<Rightarrow> bytes list" where
  "replay_sha256_event e regs =
     (if unat (tes_pcr_index e) < TPM_MAX_PCRS
      then regs[unat (tes_pcr_index e) := fst (tcg_pcr_extend (regs ! unat (tes_pcr_index e)) (Some (tes_digest e)))]
      else regs)"

definition tcg_eventlog_replay_sha256 ::
  "TCGEventLogSHA256 \<Rightarrow> TPMPcrComposite \<Rightarrow> u16 \<Rightarrow> TPMPcrComposite \<times> bool" where
  "tcg_eventlog_replay_sha256 log expected pcr_mask =
     (let pc = final_composite (fold replay_sha256_event (tel_entries log) (replicate TPM_MAX_PCRS tpm_hash_init))
      in (pc, attest_pcr_compare pc expected pcr_mask))"

definition absorb_entry :: "TCGEventSHA256 \<Rightarrow> bytes \<Rightarrow> bytes" where
  "absorb_entry e acc =
     tpm_hash_update (tpm_hash_update (tpm_hash_update acc (tes_digest e)) (le32_list (tes_event_type e))) [tes_pcr_index e]"

definition tcg_eventlog_integrity_check :: "TCGEventLogSHA256 \<Rightarrow> bytes \<Rightarrow> bool" where
  "tcg_eventlog_integrity_check log expected = (tpm_hash_final (fold absorb_entry (tel_entries log) tpm_hash_init) = expected)"

definition tcg_pcr_bank_compare :: "TPMPcrComposite \<Rightarrow> TPMPcrComposite \<Rightarrow> u8 \<Rightarrow> int + bool" where
  "tcg_pcr_bank_compare a b idx =
     (if unat idx \<ge> TPM_MAX_PCRS then Inl (-2) else Inr (pcmp_pcr_digests a ! unat idx = pcmp_pcr_digests b ! unat idx))"

section \<open>Hash sequences\<close>

definition tcg_hash_sequence_start :: TCGHashSequence where
  "tcg_hash_sequence_start = \<lparr>ths_state = tpm_hash_init, ths_started = True, ths_data_hashed = 0\<rparr>"

definition tcg_hash_sequence_update :: "TCGHashSequence \<Rightarrow> bytes option \<Rightarrow> TCGHashSequence \<times> int" where
  "tcg_hash_sequence_update s data =
     (case data of None \<Rightarrow> (s, -1)
      | Some d \<Rightarrow> if \<not> ths_started s then (s, -2)
                  else (s\<lparr>ths_state := tpm_hash_update (ths_state s) d, ths_data_hashed := ths_data_hashed s + of_nat (length d)\<rparr>, 0))"

definition tcg_hash_sequence_end :: "TCGHashSequence \<Rightarrow> TCGHashSequence \<times> (int + bytes)" where
  "tcg_hash_sequence_end s =
     (if \<not> ths_started s then (s, Inl (-2))
      else (s\<lparr>ths_state := tpm_hash_final (ths_state s), ths_started := False\<rparr>, Inr (tpm_hash_final (ths_state s))))"

section \<open>The logs keep what they got\<close>

definition agile_wf :: "AgileLog \<Rightarrow> bool" where
  "agile_wf log \<longleftrightarrow> length (agl_entries log) \<le> TCG_EVENT_LOG_MAX_ENTRIES \<and> (\<forall>e \<in> set (agl_entries log).
     unat (age_pcr_index e) < TPM_MAX_PCRS \<and> unat (age_event_data_size e) \<le> TCG_EVENT_DATA_MAX_SIZE
     \<and> length (age_event_data e) = TCG_EVENT_DATA_MAX_SIZE)"

lemma agile_add_wf:
  assumes "agile_wf log" and "tcg_eventlog_add log idx ty digests event_data = (log', rc)"
  shows "agile_wf log' \<and> (agl_finalized log \<longrightarrow> log' = log) \<and> (\<exists>es. agl_entries log' = agl_entries log @ es)"
proof -
  have "unat (of_nat (length (take 512 d)) :: u32) \<le> 512" for d :: bytes
    by (subst unat_of_nat_u32) (simp_all add: min_less_iff_disj)
  moreover have "length (blit (zeros 512) 0 (take 512 d)) = 512" for d by simp
  ultimately show ?thesis using assms
    by (auto simp: tcg_eventlog_add_def agile_wf_def TCG_EVENT_DATA_MAX_SIZE_def Let_def split: option.splits if_splits)
qed

lemma sha256_log_sealed: "tel_sealed log \<Longrightarrow> fst (tcg_eventlog_sha256_add log idx ty data) = log"
  by (simp add: tcg_eventlog_sha256_add_def split: option.split)

section \<open>What the checks do not notice\<close>

lemma absorb_commute: "absorb_entry x (absorb_entry y acc) = absorb_entry y (absorb_entry x acc)"
proof -
  let ?u = "\<lambda>ds h. fold (\<lambda>d h. tpm_hash_update h d) ds h"
  have e: "absorb_entry e h = ?u [tes_digest e, le32_list (tes_event_type e), [tes_pcr_index e]] h" for e h
    by (simp add: absorb_entry_def)
  have "mset ([tes_digest y, le32_list (tes_event_type y), [tes_pcr_index y]] @ [tes_digest x, le32_list (tes_event_type x), [tes_pcr_index x]])
      = mset ([tes_digest x, le32_list (tes_event_type x), [tes_pcr_index x]] @ [tes_digest y, le32_list (tes_event_type y), [tes_pcr_index y]])"
    by simp
  from hash_updates_mset [OF this, of acc] show ?thesis by (simp only: e fold_append o_apply)
qed

interpretation ablind: order_blind absorb_entry
  by unfold_locales (rule absorb_commute)

text \<open>The integrity check accepts every reordering of a log, and a log with an event twice too many.\<close>

lemma integrity_check_permuted:
  "mset (tel_entries log) = mset (tel_entries log') \<Longrightarrow>
    tcg_eventlog_integrity_check log h = tcg_eventlog_integrity_check log' h"
  unfolding tcg_eventlog_integrity_check_def by (drule ablind.absorb_mset [of _ _ tpm_hash_init]) simp

lemma absorb_cancel:
  assumes "length acc = 32"
  shows "absorb_entry e (absorb_entry e acc) = acc"
proof -
  let ?a = "tes_digest e" and ?b = "le32_list (tes_event_type e)" and ?c = "[tes_pcr_index e]"
  let ?u = "\<lambda>ds h. fold (\<lambda>d h. tpm_hash_update h d) ds h"
  have "mset [?a, ?b, ?c, ?a, ?b, ?c] = mset [?a, ?a, ?b, ?b, ?c, ?c]" by simp
  then have "?u [?a, ?b, ?c, ?a, ?b, ?c] acc = ?u [?a, ?a, ?b, ?b, ?c, ?c] acc" by (rule hash_updates_mset)
  then show ?thesis using assms by (simp add: absorb_entry_def hash_update_cancel)
qed

lemma integrity_check_doubled:
  assumes "mset (tel_entries log) = mset (tel_entries log') + {#e, e#}"
  shows "tcg_eventlog_integrity_check log h = tcg_eventlog_integrity_check log' h"
proof -
  have "fold absorb_entry (tel_entries log) tpm_hash_init = fold absorb_entry (tel_entries log') tpm_hash_init"
    by (rule ablind.absorb_pair [OF absorb_cancel assms]) simp
  then show ?thesis by (simp add: tcg_eventlog_integrity_check_def)
qed

text \<open>The mask has 16 bits: registers 16 to 23 are never compared.\<close>

lemma compare_high_registers:
  assumes "\<forall>i < 16. pcmp_pcr_digests a ! i = pcmp_pcr_digests b ! i"
  shows "attest_pcr_compare a b m"
proof -
  have "(ucast m :: u32) AND push_bit i 1 = 0" if "16 \<le> i" for i
  proof (rule bit_word_eqI)
    fix n
    show "bit ((ucast m :: u32) AND push_bit i 1) n = bit (0 :: u32) n"
      using that bit_imp_le_length [of m n] by (auto simp: bit_simps)
  qed
  then show ?thesis using assms by (auto simp: attest_pcr_compare_def list_all_iff not_less [symmetric])
qed

text \<open>A register extended with its own value always gets the same constant.\<close>

lemma extend_with_itself:
  assumes "length pcr = 32"
  shows "fst (tcg_pcr_extend pcr (Some pcr)) = tpm_hash_final tpm_hash_init"
proof -
  have "pcr \<noteq> []" using assms by auto
  then show ?thesis using assms by (simp add: tcg_pcr_extend_def hash_update_cancel)
qed

text \<open>
  Replay finalises every register once more than extension does: a bank that was extended with the
  events of the log, from the start value on, does not match the replay of its own log.
\<close>

lemma final_composite_fold:
  fixes regs :: "bytes list"
  assumes "n \<le> 24"
  defines "pc \<equiv> fold (\<lambda>i pc. fst (tpm_pcr_composite_add pc (of_nat i) (Some (tpm_hash_final (regs ! i))))) [0..<n] tpm_pcr_composite_init"
  shows "composite_wf pc \<and> unat (pcmp_pcr_count pc) = n \<and> (\<forall>j < n. pcmp_pcr_digests pc ! j = tpm_hash_final (regs ! j))"
  using assms(1) unfolding pc_def
proof (induction n)
  case 0
  then show ?case using composite_init_wf by (simp add: tpm_pcr_composite_init_def)
next
  case (Suc n)
  let ?pc = "fold (\<lambda>i pc. fst (tpm_pcr_composite_add pc (of_nat i) (Some (tpm_hash_final (regs ! i))))) [0..<n] tpm_pcr_composite_init"
  let ?r = "tpm_pcr_composite_add ?pc (of_nat n) (Some (tpm_hash_final (regs ! n)))"
  have ih: "composite_wf ?pc" "unat (pcmp_pcr_count ?pc) = n" "\<forall>j < n. pcmp_pcr_digests ?pc ! j = tpm_hash_final (regs ! j)"
    using Suc by simp_all
  have n: "unat (of_nat n :: u8) = n" "n < 24" using Suc.prems by (simp_all add: unat_of_nat_u8)
  have ok: "?r = (fst ?r, 0)" using n ih(2) by (simp add: tpm_pcr_composite_add_def TPM_MAX_PCRS_def Let_def)
  have "unat (pcmp_pcr_count ?pc + 1) = Suc n" using ih(2) n(2) by (simp add: unat_word_ariths)
  then have "unat (pcmp_pcr_count (fst ?r)) = Suc n" using n ih(2) by (simp add: tpm_pcr_composite_add_def TPM_MAX_PCRS_def Let_def)
  moreover have "pcmp_pcr_digests (fst ?r) ! j = tpm_hash_final (regs ! j)" if "j < Suc n" for j
    using composite_add_selected [OF ih(1) ok, of j] ih(3) n that by auto
  ultimately show ?case using composite_add_wf [OF ih(1)] by simp
qed

lemma hash_final_differs: "length v = 32 \<Longrightarrow> tpm_hash_final v \<noteq> v"
proof
  assume l: "length v = 32" and e: "tpm_hash_final v = v"
  from l have "tpm_hash_final v ! 31 = v ! 31 XOR 0xA5" by (simp add: tpm_hash_final_def)
  then have "v ! 31 XOR 0xA5 = v ! 31" by (simp only: e)
  then have "v ! 31 XOR (v ! 31 XOR 0xA5) = v ! 31 XOR v ! 31" by (rule arg_cong)
  then show False by (simp add: xor.assoc [symmetric])
qed

lemma replay_registers_length:
  "\<forall>r \<in> set regs. length r = 32 \<Longrightarrow> \<forall>r \<in> set (fold replay_sha256_event es regs). length r = 32"
proof (induction es arbitrary: regs)
  case (Cons e es)
  have "length (fst (tcg_pcr_extend r d)) = 32" if "length r = 32" for r d
    using that by (simp add: tcg_pcr_extend_def split: option.split)
  then have "\<forall>r \<in> set (replay_sha256_event e regs). length r = 32"
    using Cons.prems by (cases "unat (tes_pcr_index e) < length regs")
      (auto simp: replay_sha256_event_def list_update_beyond dest!: subsetD [OF set_update_subset_insert])
  then show ?case using Cons.IH by simp
qed simp

lemma replay_never_matches:
  assumes "\<forall>i < 24. pcmp_pcr_digests expected ! i = fold replay_sha256_event (tel_entries log) (replicate TPM_MAX_PCRS tpm_hash_init) ! i"
    and "i < 16" and "bit m i"
  shows "\<not> snd (tcg_eventlog_replay_sha256 log expected m)"
proof -
  let ?regs = "fold replay_sha256_event (tel_entries log) (replicate TPM_MAX_PCRS tpm_hash_init)"
  have "length (fold replay_sha256_event es regs) = length regs" for es regs
    by (induction es arbitrary: regs) (simp_all add: replay_sha256_event_def)
  then have "length ?regs = 24" by (simp add: TPM_MAX_PCRS_def)
  then have "?regs ! i \<in> set ?regs" using assms(2) by simp
  then have "length (?regs ! i) = 32" using replay_registers_length [of "replicate TPM_MAX_PCRS tpm_hash_init"] by auto
  then have "pcmp_pcr_digests (final_composite ?regs) ! i \<noteq> pcmp_pcr_digests expected ! i"
    using final_composite_fold [of 24 ?regs] hash_final_differs assms(1,2) by (simp add: final_composite_def TPM_MAX_PCRS_def)
  moreover have "(ucast m :: u32) AND push_bit i 1 \<noteq> 0"
  proof
    assume z: "(ucast m :: u32) AND push_bit i 1 = 0"
    have "bit ((ucast m :: u32) AND push_bit i 1) i" using assms(2,3) by (simp add: bit_simps)
    then show False unfolding z by simp
  qed
  ultimately show ?thesis using assms(2)
    by (auto simp: tcg_eventlog_replay_sha256_def attest_pcr_compare_def list_all_iff TPM_MAX_PCRS_def Let_def intro!: bexI [of _ i] simp del: push_bit_of_1)
qed

end
