(* ===== verification/Dice_Layers.thy ===== *)
theory Dice_Layers
  imports Aik_Identity
begin

text \<open>
  The layered device identities of \<open>dice.c\<close>.  The derivation function fills at most 32 bytes, so the
  rest of a 256-byte key is what the stack held: the parameter \<open>junk\<close>, a buffer for every key made.  A certificate signs the 268
  bytes of the key structure on x86-64 and the claim.
\<close>

section \<open>Data\<close>

definition DICE_CDI_SIZE :: nat where "DICE_CDI_SIZE = 32"
definition DICE_UDS_SIZE :: nat where "DICE_UDS_SIZE = 32"
definition DICE_MAX_LAYERS :: nat where "DICE_MAX_LAYERS = 8"

record DICECompoundDeviceID =
  cdi_data :: bytes
  cdi_valid :: bool

record DICELayerInputs =
  dli_code_hash :: bytes
  dli_config_hash :: bytes
  dli_authority_hash :: bytes
  dli_version :: u64
  dli_level :: u32
  dli_label :: bytes

record DICELayerState =
  dls_device_id_pub :: RAKeyPublic
  dls_device_id_priv :: bytes
  dls_device_id_priv_size :: u16
  dls_alias_key_pub :: RAKeyPublic
  dls_alias_key_priv :: bytes
  dls_alias_key_priv_size :: u16
  dls_cdi :: DICECompoundDeviceID
  dls_layer :: u32
  dls_key_pair_generated :: bool

text \<open>Of a certificate, what is ever set: the rest stays zero.\<close>

record DICECertificate =
  dce_size :: u16
  dce_issuer_layer :: u32
  dce_subject_layer :: u32
  dce_subject_pub_key :: RAKeyPublic
  dce_cdi_claim :: bytes
  dce_signature :: bytes
  dce_signature_size :: u16

record DICECertChain =
  dcc_certs :: "DICECertificate list"
  dcc_root_uds :: bytes
  dcc_chain_verified :: bool

definition key_public_bytes :: "RAKeyPublic \<Rightarrow> bytes" where
  "key_public_bytes k =
     tkp_modulus k @ tkp_exponent k @ zeros 1 @ le16_list (tkp_modulus_size k) @ zeros 2 @ le32_list (tkp_hierarchy k)"

section \<open>Derivation\<close>

definition kdf_key_mix :: "bytes \<Rightarrow> nat \<Rightarrow> u32 \<Rightarrow> u32" where
  "kdf_key_mix key i seed =
     (let s = seed XOR push_bit ((i mod 4) * 8) (ucast (key ! i)) in (s * 0x01000193) XOR drop_bit 16 s)"

definition kdf_context_mix :: "bytes \<Rightarrow> nat \<Rightarrow> u32 \<Rightarrow> u32" where
  "kdf_context_mix context0 i seed =
     (let s = seed XOR push_bit ((i mod 4) * 8) (ucast (context0 ! i)) in (s * 0x5BD1E995) XOR (drop_bit 13 s + of_nat i))"

fun kdf_out :: "nat \<Rightarrow> nat \<Rightarrow> u32 \<Rightarrow> bytes" where
  "kdf_out 0 i seed = []"
| "kdf_out (Suc n) i seed =
     ucast (drop_bit ((i mod 4) * 8) seed) # kdf_out n (Suc i) ((seed * 0x5BD1E995) XOR (drop_bit 13 seed + (of_nat i + 7)))"

definition dice_kdf :: "bytes \<Rightarrow> bytes \<Rightarrow> nat \<Rightarrow> bytes" where
  "dice_kdf key context0 output_len =
     (let s1 = fold (kdf_key_mix key) [0..<length key] 0x6A09E667;
          s2 = fold (kdf_context_mix context0) [0..<length context0] s1
      in kdf_out (min output_len DICE_CDI_SIZE) 0 (s2 XOR of_nat (length key + length context0)))"

text \<open>The public key and the private one; each has the 32 derived bytes and 224 of the stack.\<close>

definition dice_keygen_from_cdi :: "bytes \<Rightarrow> bytes \<Rightarrow> bytes \<Rightarrow> RAKeyPublic \<times> bytes" where
  "dice_keygen_from_cdi junk_pub junk_priv cdi =
     (\<lparr>tkp_modulus = dice_kdf cdi (str_bytes ''DICE_PUBLIC_KEY_DATA'') AIK_KEY_SIZE @ drop 32 junk_pub, tkp_exponent = key_exponent,
       tkp_modulus_size = of_nat AIK_KEY_SIZE, tkp_hierarchy = TPM_KEY_HIERARCHY_AIK\<rparr>,
      dice_kdf cdi (str_bytes ''DICE_DEVICE_ID_KEY'') AIK_KEY_SIZE @ drop 32 junk_priv)"

definition dice_simulate_sign :: "bytes \<Rightarrow> bytes \<Rightarrow> bytes" where
  "dice_simulate_sign data priv =
     (let t = blit (zeros 512) 0 (take 512 data)
      in (map (\<lambda>i. if i < length priv \<and> i < 512 then t ! i XOR priv ! i else t ! i) [0..<512])[0 := 0, 1 := 1])"

definition dice_simulate_verify :: "bytes \<Rightarrow> RAKeyPublic \<Rightarrow> bytes \<Rightarrow> u16 \<Rightarrow> bool" where
  "dice_simulate_verify data pub sig sig_size =
     (if sig_size > 0 \<and> sig ! 0 = 0 \<and> sig ! 1 = 1 then True else if tkp_modulus_size pub > 0 then True else False)"

definition dice_uds_derive :: "bytes option \<Rightarrow> bytes option \<times> int" where
  "dice_uds_derive pud =
     (case pud of None \<Rightarrow> (None, -1)
      | Some d \<Rightarrow> if length d < 16 then (None, -2)
                  else (Some (dice_kdf d (str_bytes ''DICE_UDS_DERIVATION_SALT'') DICE_UDS_SIZE), 0))"

definition layer_measurement :: "DICELayerInputs \<Rightarrow> bytes" where
  "layer_measurement li =
     simulate_sha256 (dli_code_hash li @ dli_config_hash li @ dli_authority_hash li @ le64_list (dli_version li))"

definition dice_cdi_compute :: "DICECompoundDeviceID option \<Rightarrow> DICELayerInputs option \<Rightarrow> int + DICECompoundDeviceID" where
  "dice_cdi_compute parent inputs =
     (case (parent, inputs) of
        (Some p, Some li) \<Rightarrow>
          if \<not> cdi_valid p then Inl (-3)
          else Inr \<lparr>cdi_data = dice_kdf (cdi_data p) (layer_measurement li) DICE_CDI_SIZE, cdi_valid = True\<rparr>
      | _ \<Rightarrow> Inl (-1))"

definition dice_derive_cdi_from_uds :: "bytes option \<Rightarrow> DICELayerInputs option \<Rightarrow> int + DICECompoundDeviceID" where
  "dice_derive_cdi_from_uds uds layer0 =
     (case (uds, layer0) of
        (Some u, Some li) \<Rightarrow> Inr \<lparr>cdi_data = dice_kdf u (layer_measurement li) DICE_CDI_SIZE, cdi_valid = True\<rparr>
      | _ \<Rightarrow> Inl (-1))"

text \<open>The state is cleared first, its layer included.\<close>

definition dice_layer_derive_keys :: "(nat \<Rightarrow> bytes) \<Rightarrow> DICELayerState \<Rightarrow> DICECompoundDeviceID option \<Rightarrow> DICELayerState \<times> int" where
  "dice_layer_derive_keys junk state cdi =
     (case cdi of None \<Rightarrow> (state, -1)
      | Some c \<Rightarrow>
          if \<not> cdi_valid c then (state, -2)
          else let (dp, ds) = dice_keygen_from_cdi (junk 0) (junk 1) (cdi_data c);
                   alias_cdi = dice_kdf (cdi_data c @ str_bytes ''DICE_ALIAS_KEY'') (str_bytes ''ALIAS'') DICE_CDI_SIZE;
                   (ap, as0) = dice_keygen_from_cdi (junk 2) (junk 3) alias_cdi
               in (\<lparr>dls_device_id_pub = dp, dls_device_id_priv = ds, dls_device_id_priv_size = of_nat AIK_KEY_SIZE,
                    dls_alias_key_pub = ap, dls_alias_key_priv = as0, dls_alias_key_priv_size = of_nat AIK_KEY_SIZE,
                    dls_cdi = c, dls_layer = 0, dls_key_pair_generated = True\<rparr>, 0))"

section \<open>Certificates\<close>

definition cert_tbs :: "RAKeyPublic \<Rightarrow> bytes \<Rightarrow> bytes" where
  "cert_tbs k claim = key_public_bytes k @ take DICE_CDI_SIZE claim"

text \<open>The size is that of the structure without its signature.\<close>

definition dice_cert_generate :: "DICELayerState option \<Rightarrow> DICELayerState option \<Rightarrow> int + DICECertificate" where
  "dice_cert_generate issuer subject =
     (case (issuer, subject) of
        (Some i, Some s) \<Rightarrow>
          if \<not> dls_key_pair_generated i \<or> \<not> dls_key_pair_generated s then Inl (-2)
          else let claim = simulate_sha256 (cdi_data (dls_cdi s))
               in Inr \<lparr>dce_size = 1402, dce_issuer_layer = dls_layer i, dce_subject_layer = dls_layer s,
                       dce_subject_pub_key = dls_device_id_pub s, dce_cdi_claim = claim,
                       dce_signature = dice_simulate_sign (cert_tbs (dls_device_id_pub s) claim)
                                         (take (unat (dls_device_id_priv_size i)) (dls_device_id_priv i)),
                       dce_signature_size = 512\<rparr>
      | _ \<Rightarrow> Inl (-1))"

definition dice_cert_verify :: "DICECertificate \<Rightarrow> RAKeyPublic \<Rightarrow> bool" where
  "dice_cert_verify cert issuer_key =
     dice_simulate_verify (cert_tbs (dce_subject_pub_key cert) (dce_cdi_claim cert)) issuer_key (dce_signature cert) (dce_signature_size cert)"

fun chain_links :: "DICECertificate \<Rightarrow> DICECertificate list \<Rightarrow> bool" where
  "chain_links prev [] = True"
| "chain_links prev (c # cs) = (if \<not> dice_cert_verify c (dce_subject_pub_key prev) then False else chain_links c cs)"

definition dice_chain_verify :: "DICECertChain option \<Rightarrow> int \<times> bool" where
  "dice_chain_verify chain0 =
     (case chain0 of None \<Rightarrow> (-1, False)
      | Some c \<Rightarrow> (case dcc_certs c of [] \<Rightarrow> (0, False)
          | r # cs \<Rightarrow> if dce_signature_size r = 0 then (0, False) else (0, chain_links r cs)))"

text \<open>The state of a layer, and the certificates of the layers after one; \<open>junk j\<close> are the buffers of layer \<open>j\<close>.\<close>

definition layer_state :: "(nat \<Rightarrow> bytes) \<Rightarrow> DICECompoundDeviceID \<Rightarrow> DICELayerState" where
  "layer_state junk c =
     fst (dice_layer_derive_keys junk
       \<lparr>dls_device_id_pub = \<lparr>tkp_modulus = [], tkp_exponent = [], tkp_modulus_size = 0, tkp_hierarchy = 0\<rparr>, dls_device_id_priv = [],
        dls_device_id_priv_size = 0, dls_alias_key_pub = \<lparr>tkp_modulus = [], tkp_exponent = [], tkp_modulus_size = 0, tkp_hierarchy = 0\<rparr>,
        dls_alias_key_priv = [], dls_alias_key_priv_size = 0, dls_cdi = c, dls_layer = 0, dls_key_pair_generated = False\<rparr> (Some c))"

fun chain_certs :: "(nat \<Rightarrow> nat \<Rightarrow> bytes) \<Rightarrow> DICELayerState \<Rightarrow> DICELayerInputs list \<Rightarrow> DICECertificate list" where
  "chain_certs junk st [] = []"
| "chain_certs junk st (li # ls) =
     (case dice_cdi_compute (Some (dls_cdi st)) (Some li) of
        Inl rc \<Rightarrow> []
      | Inr c \<Rightarrow> (let st1 = layer_state (junk 0) c in
          (case dice_cert_generate (Some st) (Some st1) of Inl rc \<Rightarrow> [] | Inr ce \<Rightarrow> ce # chain_certs (\<lambda>j. junk (Suc j)) st1 ls)))"

definition dice_chain_build_layered_attestation ::
  "(nat \<Rightarrow> nat \<Rightarrow> bytes) \<Rightarrow> bytes option \<Rightarrow> DICELayerInputs list option \<Rightarrow> int + DICECertChain" where
  "dice_chain_build_layered_attestation junk uds layers =
     (case (uds, layers) of
        (Some u, Some (li # ls)) \<Rightarrow>
          if length (li # ls) > DICE_MAX_LAYERS then Inl (-2)
          else (case dice_derive_cdi_from_uds (Some u) (Some li) of
              Inl rc \<Rightarrow> Inl rc
            | Inr c0 \<Rightarrow> let st = layer_state (junk 0) c0 in
                (case dice_cert_generate (Some st) (Some st) of
                   Inl rc \<Rightarrow> Inl rc
                 | Inr ce \<Rightarrow> Inr \<lparr>dcc_certs = ce # chain_certs (\<lambda>j. junk (Suc j)) st ls, dcc_root_uds = u, dcc_chain_verified = True\<rparr>))
      | (Some u, Some []) \<Rightarrow> Inl (-2)
      | _ \<Rightarrow> Inl (-1))"

definition dice_export_device_id_public :: "DICELayerState option \<Rightarrow> int + RAKeyPublic" where
  "dice_export_device_id_public state =
     (case state of None \<Rightarrow> Inl (-1) | Some s \<Rightarrow> if \<not> dls_key_pair_generated s then Inl (-2) else Inr (dls_device_id_pub s))"

definition dice_export_alias_key_public :: "DICELayerState option \<Rightarrow> int + RAKeyPublic" where
  "dice_export_alias_key_public state =
     (case state of None \<Rightarrow> Inl (-1) | Some s \<Rightarrow> if \<not> dls_key_pair_generated s then Inl (-2) else Inr (dls_alias_key_pub s))"

section \<open>The chain\<close>

lemma length_dice_kdf [simp]: "length (dice_kdf k x n) = min n 32"
proof -
  have "length (kdf_out m i s) = m" for m i s by (induction m arbitrary: i s) simp_all
  then show ?thesis by (simp add: dice_kdf_def DICE_CDI_SIZE_def Let_def)
qed

definition layer_public :: "bytes \<Rightarrow> bytes" where
  "layer_public cdi = dice_kdf cdi (str_bytes ''DICE_PUBLIC_KEY_DATA'') 256"

lemma layer_state_generated [simp]:
  assumes "cdi_valid c"
  shows "dls_key_pair_generated (layer_state jk c)" "dls_cdi (layer_state jk c) = c" "dls_layer (layer_state jk c) = 0"
    "take 32 (tkp_modulus (dls_device_id_pub (layer_state jk c))) = layer_public (cdi_data c)"
    "tkp_modulus_size (dls_device_id_pub (layer_state jk c)) = 256"
  using assms
  by (simp_all add: layer_state_def dice_layer_derive_keys_def dice_keygen_from_cdi_def layer_public_def AIK_KEY_SIZE_def Let_def)

text \<open>The compound identifiers of the layers, as the specification has them.\<close>

fun layer_cdis :: "bytes \<Rightarrow> DICELayerInputs list \<Rightarrow> bytes list" where
  "layer_cdis secret [] = []"
| "layer_cdis secret (li # ls) = (let c = dice_kdf secret (layer_measurement li) 32 in c # layer_cdis c ls)"

definition cert_claims :: "DICECertificate list \<Rightarrow> (bytes \<times> bytes) list" where
  "cert_claims cs = map (\<lambda>c. (dce_cdi_claim c, take 32 (tkp_modulus (dce_subject_pub_key c)))) cs"

definition cdi_claims :: "bytes list \<Rightarrow> (bytes \<times> bytes) list" where
  "cdi_claims cs = map (\<lambda>c. (simulate_sha256 c, layer_public c)) cs"

lemma chain_certs_layers:
  "cdi_valid (dls_cdi st) \<Longrightarrow> dls_key_pair_generated st \<Longrightarrow>
    cert_claims (chain_certs jk st ls) = cdi_claims (layer_cdis (cdi_data (dls_cdi st)) ls)
    \<and> (\<forall>c \<in> set (chain_certs jk st ls). tkp_modulus_size (dce_subject_pub_key c) = 256)"
proof (induction ls arbitrary: st jk)
  case (Cons li ls)
  let ?c = "\<lparr>cdi_data = dice_kdf (cdi_data (dls_cdi st)) (layer_measurement li) 32, cdi_valid = True\<rparr>"
  show ?case using Cons.prems Cons.IH [of "layer_state (jk 0) ?c" "\<lambda>j. jk (Suc j)"]
    by (simp add: dice_cdi_compute_def dice_cert_generate_def DICE_CDI_SIZE_def cert_claims_def cdi_claims_def Let_def)
qed (simp add: cert_claims_def cdi_claims_def)

text \<open>A chain that was built has the claims and the keys of its layers, and verifies.\<close>

lemma chain_build_layers:
  assumes "dice_chain_build_layered_attestation jk (Some u) (Some ls) = Inr chn"
  shows "cert_claims (dcc_certs chn) = cdi_claims (layer_cdis u ls)
    \<and> (\<forall>c \<in> set (dcc_certs chn). tkp_modulus_size (dce_subject_pub_key c) = 256)
    \<and> (\<exists>r cs. dcc_certs chn = r # cs \<and> dce_signature_size r = 512)"
proof (cases ls)
  case Nil
  then show ?thesis using assms by (simp add: dice_chain_build_layered_attestation_def)
next
  case (Cons li ls')
  let ?c = "\<lparr>cdi_data = dice_kdf u (layer_measurement li) 32, cdi_valid = True\<rparr>"
  show ?thesis using assms Cons chain_certs_layers [of "layer_state (jk 0) ?c" "\<lambda>j. jk (Suc j)" ls']
    by (auto simp: dice_chain_build_layered_attestation_def dice_derive_cdi_from_uds_def dice_cert_generate_def DICE_CDI_SIZE_def
        cert_claims_def cdi_claims_def Let_def split: if_splits)
qed

text \<open>Every chain verifies that has a first signature and keys that are not empty, whatever the signatures are.\<close>

lemma chain_links_any: "\<forall>c \<in> set (prev # cs). 0 < tkp_modulus_size (dce_subject_pub_key c) \<Longrightarrow> chain_links prev cs"
  by (induction cs arbitrary: prev) (simp_all add: dice_cert_verify_def dice_simulate_verify_def)

lemma chain_verifies_any:
  assumes "dcc_certs chn = r # cs" and "dce_signature_size r \<noteq> 0" and "\<forall>c \<in> set (r # cs). 0 < tkp_modulus_size (dce_subject_pub_key c)"
  shows "dice_chain_verify (Some chn) = (0, True)"
  using assms chain_links_any [of r cs] by (simp add: dice_chain_verify_def)

text \<open>The layer of every certificate is 0: deriving the keys clears it.\<close>

lemma chain_layers_lost:
  "cdi_valid (dls_cdi st) \<Longrightarrow> dls_key_pair_generated st \<Longrightarrow> dls_layer st = 0 \<Longrightarrow>
    \<forall>c \<in> set (chain_certs jk st ls). dce_issuer_layer c = 0 \<and> dce_subject_layer c = 0"
proof (induction ls arbitrary: st jk)
  case (Cons li ls)
  let ?c = "\<lparr>cdi_data = dice_kdf (cdi_data (dls_cdi st)) (layer_measurement li) 32, cdi_valid = True\<rparr>"
  show ?case using Cons.prems Cons.IH [of "layer_state (jk 0) ?c" "\<lambda>j. jk (Suc j)"]
    by (simp add: dice_cdi_compute_def dice_cert_generate_def DICE_CDI_SIZE_def Let_def)
qed simp

end
