(* ===== verification/Rats_Appraisal.thy ===== *)
theory Rats_Appraisal
  imports Attest_Protocol
begin

text \<open>
  Appraisal of evidence after the RATS architecture (\<open>rats.c\<close>).  A claim has the bytes of its key and
  value that are set, with their lengths; the lengths in use are at most those of the arrays.  The
  clock is a parameter.
\<close>

section \<open>Data\<close>

definition RATS_MAX_CLAIMS :: nat where "RATS_MAX_CLAIMS = 16"
definition RATS_CLAIM_KEY_SIZE :: nat where "RATS_CLAIM_KEY_SIZE = 32"
definition RATS_CLAIM_VALUE_SIZE :: nat where "RATS_CLAIM_VALUE_SIZE = 64"
definition RATS_MAX_REFERENCE_VALUES :: nat where "RATS_MAX_REFERENCE_VALUES = 24"
definition RATS_EVIDENCE_SIGNATURE_SIZE :: nat where "RATS_EVIDENCE_SIGNATURE_SIZE = 256"

datatype RATSAppraisalResult = RATS_APPRAISAL_PASS | RATS_APPRAISAL_FAIL | RATS_APPRAISAL_ERROR

datatype RATSTrustTier = RATS_TRUST_TIER_ZERO | RATS_TRUST_TIER_ONE | RATS_TRUST_TIER_TWO | RATS_TRUST_TIER_THREE

record RATSClaim =
  rcl_key :: bytes
  rcl_value :: bytes
  rcl_key_len :: u16
  rcl_value_len :: u16

record RATSEvidence =
  rev_claims :: "RATSClaim list"
  rev_evidence_type :: u32
  rev_verifier_identity :: bytes
  rev_timestamp :: u64
  rev_pcr_values :: "bytes list"
  rev_pcr_count :: u16
  rev_signature :: bytes
  rev_signature_size :: u16

record RATSReferenceValues =
  rrv_reference_values :: "bytes list"
  rrv_reference_count :: u16
  rrv_reference_labels :: "bytes list"
  rrv_minimum_timestamp :: u64
  rrv_maximum_age_ms :: u64
  rrv_require_fresh_evidence :: bool

record RATSAppraisalPolicy =
  rap_description :: bytes
  rap_pcr_mask_required :: u16
  rap_check_timestamp :: bool
  rap_check_signature :: bool
  rap_check_chain_of_trust :: bool
  rap_require_pcr_match :: bool
  rap_minimum_trust_tier :: RATSTrustTier
  rap_claim_rules :: "RATSClaim list"

record RATSVerifier =
  rvf_verifier_id :: bytes
  rvf_reference_values :: RATSReferenceValues
  rvf_appraisal_policy :: RATSAppraisalPolicy
  rvf_initialized :: bool

record RATSRelyingPartyResult =
  rrp_rp_identity :: bytes
  rrp_attester_identity :: bytes
  rrp_attestation_result :: u8
  rrp_trust_tier :: RATSTrustTier
  rrp_timestamp :: u64
  rrp_verified :: bool
  rrp_supplementary_info :: bytes

section \<open>Evidence\<close>

definition text_claim :: "string \<Rightarrow> bytes \<Rightarrow> RATSClaim" where
  "text_claim key value0 = \<lparr>rcl_key = str_bytes key, rcl_value = value0, rcl_key_len = of_nat (length key), rcl_value_len = of_nat (length value0)\<rparr>"

definition hex_upper :: "nat \<Rightarrow> u8" where
  "hex_upper d = (if d < 10 then of_nat (48 + d) else of_nat (55 + d))"

text \<open>The eight digits of \<open>%08X\<close>.\<close>

definition hex_upper8 :: "u32 \<Rightarrow> bytes" where
  "hex_upper8 w = map (\<lambda>i. hex_upper (unat (drop_bit (28 - 4 * i) w AND 0xF))) [0..<8]"

definition quote_claims :: "TPMQuote \<Rightarrow> RATSClaim list" where
  "quote_claims q =
     [text_claim ''firmware_version'' (dec_string (unat (tat_firmware_version (tqu_attest q)))),
      text_claim ''tpms_generated_magic'' (str_bytes ''0x'' @ hex_upper8 (tat_magic (tqu_attest q))),
      text_claim ''attestation_type'' (str_bytes ''TPM2_Quote'')]"

definition rats_generate_evidence ::
  "u64 \<Rightarrow> TPMQuote option \<Rightarrow> bytes option \<Rightarrow> RATSClaim list option \<Rightarrow> RATSEvidence option" where
  "rats_generate_evidence now quote verifier_id extra =
     (case (quote, verifier_id) of
        (Some q, Some vid) \<Rightarrow>
          let pc = tqu_pcr_composite q; n = min (unat (pcmp_pcr_count pc)) TPM_MAX_PCRS;
              more = (case extra of None \<Rightarrow> [] | Some cs \<Rightarrow> take (RATS_MAX_CLAIMS - 3) cs)
          in Some \<lparr>rev_claims = quote_claims q @ more, rev_evidence_type = 0, rev_verifier_identity = take 32 vid, rev_timestamp = now,
               rev_pcr_values = blit (replicate TPM_MAX_PCRS (zeros 32)) 0 (take n (pcmp_pcr_digests pc)),
               rev_pcr_count = ucast (pcmp_pcr_count pc),
               rev_signature = blit (zeros RATS_EVIDENCE_SIGNATURE_SIZE) 0
                 (take (min (unat (tqu_signature_size q)) RATS_EVIDENCE_SIGNATURE_SIZE) (tqu_signature q)),
               rev_signature_size = tqu_signature_size q\<rparr>
      | _ \<Rightarrow> None)"

section \<open>Appraisal\<close>

definition rats_verify_reference_values :: "bytes list \<Rightarrow> u16 \<Rightarrow> RATSReferenceValues \<Rightarrow> bool" where
  "rats_verify_reference_values pcrs pcr_count refs =
     (if rrv_reference_count refs = 0 then True
      else list_all (\<lambda>i. pcrs ! i = rrv_reference_values refs ! i) [0..<min (unat (rrv_reference_count refs)) (unat pcr_count)])"

definition claim_matches :: "RATSClaim \<Rightarrow> RATSClaim \<Rightarrow> bool" where
  "claim_matches rule claim \<longleftrightarrow>
     rcl_key_len rule = rcl_key_len claim \<and> take (unat (rcl_key_len rule)) (rcl_key rule) = take (unat (rcl_key_len rule)) (rcl_key claim)
     \<and> rcl_value_len rule = rcl_value_len claim
     \<and> take (unat (rcl_value_len rule)) (rcl_value rule) = take (unat (rcl_value_len rule)) (rcl_value claim)"

definition rats_check_policy_compliance :: "RATSEvidence \<Rightarrow> RATSAppraisalPolicy \<Rightarrow> bool" where
  "rats_check_policy_compliance ev pol =
     (if rap_require_pcr_match pol \<and> rev_pcr_count ev = 0 then False
      else list_all (\<lambda>rule. list_ex (claim_matches rule) (rev_claims ev)) (take RATS_MAX_CLAIMS (rap_claim_rules pol)))"

text \<open>The return code and the result.\<close>

definition rats_appraise_evidence :: "u64 \<Rightarrow> RATSEvidence option \<Rightarrow> RATSVerifier option \<Rightarrow> int \<times> RATSAppraisalResult option" where
  "rats_appraise_evidence now evidence verifier =
     (case (evidence, verifier) of
        (Some ev, Some v) \<Rightarrow>
          let refs = rvf_reference_values v; pol = rvf_appraisal_policy v in
          if \<not> rvf_initialized v then (-2, Some RATS_APPRAISAL_ERROR)
          else if rrv_reference_count refs > 0 \<and> \<not> rats_verify_reference_values (rev_pcr_values ev) (rev_pcr_count ev) refs
            then (0, Some RATS_APPRAISAL_FAIL)
          else if \<not> rats_check_policy_compliance ev pol then (0, Some RATS_APPRAISAL_FAIL)
          else if rap_check_timestamp pol \<and> rev_timestamp ev < rrv_minimum_timestamp refs then (0, Some RATS_APPRAISAL_FAIL)
          else if rap_check_timestamp pol \<and> rrv_require_fresh_evidence refs
                    \<and> (now - rev_timestamp ev) * 1000 > rrv_maximum_age_ms refs then (0, Some RATS_APPRAISAL_FAIL)
          else (0, Some RATS_APPRAISAL_PASS)
      | _ \<Rightarrow> (-1, None))"

definition appraisal_code :: "RATSAppraisalResult \<Rightarrow> nat" where
  "appraisal_code r = (case r of RATS_APPRAISAL_PASS \<Rightarrow> 0 | RATS_APPRAISAL_FAIL \<Rightarrow> 1 | RATS_APPRAISAL_ERROR \<Rightarrow> 2)"

definition rats_relying_party_interface ::
  "RATSEvidence option \<Rightarrow> RATSAppraisalResult \<Rightarrow> RATSVerifier option \<Rightarrow> RATSRelyingPartyResult option" where
  "rats_relying_party_interface evidence appraisal verifier =
     (case (evidence, verifier) of
        (Some ev, Some v) \<Rightarrow>
          Some \<lparr>rrp_rp_identity = str_bytes ''relying-party-example'' @ zeros 11,
            rrp_attester_identity = blit (zeros 64) 0 (take 32 (rev_verifier_identity ev)),
            rrp_attestation_result = of_nat (appraisal_code appraisal),
            rrp_trust_tier = (if appraisal = RATS_APPRAISAL_PASS then RATS_TRUST_TIER_TWO else RATS_TRUST_TIER_ZERO),
            rrp_timestamp = rev_timestamp ev, rrp_verified = (appraisal = RATS_APPRAISAL_PASS),
            rrp_supplementary_info = str_bytes ''Appraisal: '' @ dec_string (appraisal_code appraisal)
              @ str_bytes '', PCRs: '' @ dec_string (unat (rev_pcr_count ev))
              @ str_bytes '', Claims: '' @ dec_string (length (rev_claims ev))\<rparr>
      | _ \<Rightarrow> None)"

definition rats_verifier_init :: "bytes \<Rightarrow> RATSVerifier" where
  "rats_verifier_init verifier_id =
     \<lparr>rvf_verifier_id = take 32 verifier_id,
      rvf_reference_values = \<lparr>rrv_reference_values = replicate RATS_MAX_REFERENCE_VALUES (zeros 32), rrv_reference_count = 0,
        rrv_reference_labels = replicate RATS_MAX_REFERENCE_VALUES [], rrv_minimum_timestamp = 0, rrv_maximum_age_ms = 0,
        rrv_require_fresh_evidence = False\<rparr>,
      rvf_appraisal_policy = \<lparr>rap_description = zeros 128, rap_pcr_mask_required = 0, rap_check_timestamp = True,
        rap_check_signature = True, rap_check_chain_of_trust = True, rap_require_pcr_match = True,
        rap_minimum_trust_tier = RATS_TRUST_TIER_ONE, rap_claim_rules = []\<rparr>, rvf_initialized = True\<rparr>"

definition rats_verifier_set_reference :: "u64 \<Rightarrow> RATSVerifier \<Rightarrow> bytes list option \<Rightarrow> RATSVerifier \<times> int" where
  "rats_verifier_set_reference now v refs =
     (case refs of None \<Rightarrow> (v, -1)
      | Some rs \<Rightarrow>
          if \<not> rvf_initialized v then (v, -2)
          else let vs = take RATS_MAX_REFERENCE_VALUES rs; old = rvf_reference_values v;
                   labels = map (\<lambda>i. str_bytes ''pcr_'' @ dec_string i) [0..<length vs]
               in (v\<lparr>rvf_reference_values := \<lparr>rrv_reference_values = blit (rrv_reference_values old) 0 vs,
                      rrv_reference_count = of_nat (length vs), rrv_reference_labels = blit (rrv_reference_labels old) 0 labels,
                      rrv_minimum_timestamp = now, rrv_maximum_age_ms = 300000, rrv_require_fresh_evidence = True\<rparr>\<rparr>, 0))"

definition rats_appraisal_result_to_string :: "RATSAppraisalResult \<Rightarrow> string" where
  "rats_appraisal_result_to_string r =
     (case r of RATS_APPRAISAL_PASS \<Rightarrow> ''PASS'' | RATS_APPRAISAL_FAIL \<Rightarrow> ''FAIL'' | RATS_APPRAISAL_ERROR \<Rightarrow> ''ERROR'')"

definition rats_trust_tier_to_string :: "RATSTrustTier \<Rightarrow> string" where
  "rats_trust_tier_to_string t =
     (case t of RATS_TRUST_TIER_ZERO \<Rightarrow> ''TIER_0'' | RATS_TRUST_TIER_ONE \<Rightarrow> ''TIER_1'' | RATS_TRUST_TIER_TWO \<Rightarrow> ''TIER_2''
      | RATS_TRUST_TIER_THREE \<Rightarrow> ''TIER_3'')"

section \<open>What an appraisal says\<close>

text \<open>The signature of the evidence, and three switches of the policy, play no part.\<close>

lemma appraisal_ignores_signature:
  "rats_appraise_evidence now (Some (ev\<lparr>rev_signature := s, rev_signature_size := n\<rparr>)) v = rats_appraise_evidence now (Some ev) v"
  by (simp add: rats_appraise_evidence_def rats_check_policy_compliance_def Let_def split: option.split)

lemma appraisal_ignores_switches:
  "rats_appraise_evidence now ev (Some (v\<lparr>rvf_appraisal_policy := (rvf_appraisal_policy v)\<lparr>rap_check_signature := b1,
      rap_check_chain_of_trust := b2, rap_minimum_trust_tier := t, rap_pcr_mask_required := m\<rparr>\<rparr>))
    = rats_appraise_evidence now ev (Some v)"
  by (simp add: rats_appraise_evidence_def rats_check_policy_compliance_def Let_def split: option.split)

text \<open>A claim in the evidence satisfies the rule that states it.\<close>

lemma claim_matches_refl: "claim_matches c c"
  by (simp add: claim_matches_def)

lemma quote_claims_comply:
  assumes "rats_generate_evidence now (Some q) (Some vid) extra = Some ev"
    and "set (rap_claim_rules pol) \<subseteq> set (quote_claims q)" and "rap_require_pcr_match pol \<longrightarrow> pcmp_pcr_count (tqu_pcr_composite q) \<noteq> 0"
  shows "rats_check_policy_compliance ev pol"
proof -
  have e: "set (quote_claims q) \<subseteq> set (rev_claims ev)" "rev_pcr_count ev = ucast (pcmp_pcr_count (tqu_pcr_composite q))"
    using assms(1) by (auto simp: rats_generate_evidence_def Let_def)
  have z: "rev_pcr_count ev = 0 \<longleftrightarrow> pcmp_pcr_count (tqu_pcr_composite q) = 0"
    unfolding e(2) by (simp add: word_unat_eq_iff)
  have "list_ex (claim_matches r) (rev_claims ev)" if "r \<in> set (take RATS_MAX_CLAIMS (rap_claim_rules pol))" for r
  proof -
    have "r \<in> set (rev_claims ev)" using that assms(2) e(1) in_set_takeD by fastforce
    then show ?thesis using claim_matches_refl [of r] by (auto simp: list_ex_iff)
  qed
  then show ?thesis using assms(3) z by (auto simp: rats_check_policy_compliance_def list_all_iff)
qed

text \<open>
  Fresh evidence of a quote passes the verifier whose references are the quote's registers, and
  evidence whose common registers differ from the references fails.
\<close>

lemma fresh_evidence_passes:
  assumes "rats_generate_evidence now (Some q) (Some vid) extra = Some ev"
    and "rats_verifier_set_reference t (rats_verifier_init vid) (Some refs) = (v, 0)"
    and "0 < unat (pcmp_pcr_count (tqu_pcr_composite q))" and "t \<le> now" and "unat (later - now) \<le> 300"
  shows "rats_appraise_evidence later (Some ev) (Some v) = (0, Some (if rats_verify_reference_values (rev_pcr_values ev) (rev_pcr_count ev)
      (rvf_reference_values v) then RATS_APPRAISAL_PASS else RATS_APPRAISAL_FAIL))"
proof -
  have v: "rvf_appraisal_policy v = rvf_appraisal_policy (rats_verifier_init vid)" "rvf_initialized v"
    "rrv_minimum_timestamp (rvf_reference_values v) = t" "rrv_maximum_age_ms (rvf_reference_values v) = 300000"
    using assms(2) by (auto simp: rats_verifier_set_reference_def rats_verifier_init_def Let_def)
  have c: "rats_check_policy_compliance ev (rvf_appraisal_policy v)"
    using assms(3) unfolding v(1) by (intro quote_claims_comply [OF assms(1)]) (auto simp: rats_verifier_init_def)
  have ts: "rev_timestamp ev = now" using assms(1) by (auto simp: rats_generate_evidence_def Let_def)
  have "unat ((later - now) * 1000) = unat (later - now) * 1000"
    using assms(5) by (subst unat_mult_lem [THEN iffD1]) simp_all
  then have "(later - now) * 1000 \<le> 300000" using assms(5) by (simp add: word_le_nat_alt)
  moreover have "rrv_reference_count (rvf_reference_values v) > 0
      \<or> rats_verify_reference_values (rev_pcr_values ev) (rev_pcr_count ev) (rvf_reference_values v)"
    by (auto simp: rats_verify_reference_values_def word_gt_0)
  ultimately show ?thesis using v c ts assms(4) by (auto simp: rats_appraise_evidence_def Let_def not_less)
qed

text \<open>Registers beyond those the evidence has are not compared: one register is enough.\<close>

lemma references_beyond_count:
  "rats_verify_reference_values pcrs 1 refs = (rrv_reference_count refs = 0 \<or> pcrs ! 0 = rrv_reference_values refs ! 0)"
proof (cases "rrv_reference_count refs = 0")
  case False
  then have "unat (rrv_reference_count refs) \<noteq> 0" by (simp add: unat_eq_0)
  then have "min (unat (rrv_reference_count refs)) (unat (1 :: u16)) = 1" by (simp add: min_def)
  then show ?thesis using False by (simp add: rats_verify_reference_values_def)
qed (simp add: rats_verify_reference_values_def)

end
