(* ===== verification/Spi_Guard.thy ===== *)
theory Spi_Guard
  imports Prelude
begin

text \<open>
  Protection of the flash (\<open>mini-firmware-security/src/spi_protection.c\<close>): regions with the
  permissions of four masters, protected ranges, and the lock bits.  A buffer is a list, so its
  length is far from \<open>2 ^ 64\<close> and the sum of address and length does not wrap.
\<close>

section \<open>State\<close>

definition SPI_MAX_PROTECTED_RANGES :: nat where "SPI_MAX_PROTECTED_RANGES = 5"
definition SPI_FLASH_SIZE :: nat where "SPI_FLASH_SIZE = 0x1000000"
definition SPI_MASTER_BIOS :: u8 where "SPI_MASTER_BIOS = 0"
definition SPI_MASTER_ME :: u8 where "SPI_MASTER_ME = 1"
definition SPI_MASTER_GBE :: u8 where "SPI_MASTER_GBE = 2"
definition SPI_MASTER_HOST :: u8 where "SPI_MASTER_HOST = 3"
definition SPI_ACCESS_READ :: u8 where "SPI_ACCESS_READ = 1"
definition SPI_ACCESS_WRITE :: u8 where "SPI_ACCESS_WRITE = 2"
definition SPI_ACCESS_READ_WRITE :: u8 where "SPI_ACCESS_READ_WRITE = 3"
definition SPI_LOCK_BIOS_WE :: u32 where "SPI_LOCK_BIOS_WE = 1"
definition SPI_LOCK_SMM_BWP :: u32 where "SPI_LOCK_SMM_BWP = 2"
definition SPI_LOCK_BLE :: u32 where "SPI_LOCK_BLE = 4"
definition SPI_LOCK_FLOCKDN :: u32 where "SPI_LOCK_FLOCKDN = 8"
definition SPI_DESC_MASTER_COUNT :: nat where "SPI_DESC_MASTER_COUNT = 4"
definition SPI_DESC_REGION_COUNT :: nat where "SPI_DESC_REGION_COUNT = 5"

record SPIProtectedRange =
  spr_base :: u32
  spr_limit :: u32
  spr_permissions :: u8
  spr_write_protect :: bool
  spr_read_protect :: bool

record SPIDescriptorRegion =
  sdr_base :: u32
  sdr_limit :: u32
  sdr_permissions_per_master :: bytes

record SPILock =
  slk_bios_we :: bool
  slk_smm_bwp :: bool
  slk_ble :: bool
  slk_flockdn :: bool

record SPIController =
  spc_flash_memory :: bytes
  spc_regions :: "SPIDescriptorRegion list"
  spc_ranges :: "SPIProtectedRange list"
  spc_lock_state :: SPILock
  spc_initialized :: bool

section \<open>Checks\<close>

text \<open>A master beyond the table reads past the permissions of the region.\<close>

definition spi_is_region_access_allowed :: "SPIController \<Rightarrow> u8 \<Rightarrow> u32 \<Rightarrow> bool c_result" where
  "spi_is_region_access_allowed ctrl master address =
     (case find (\<lambda>r. sdr_base r \<le> address \<and> address \<le> sdr_limit r) (spc_regions ctrl) of
        None \<Rightarrow> Returned False
      | Some r \<Rightarrow> if unat master < SPI_DESC_MASTER_COUNT
                  then Returned (sdr_permissions_per_master r ! unat master \<noteq> 0) else Undefined)"

definition spi_is_prx_protected :: "SPIController \<Rightarrow> u32 \<Rightarrow> bool \<Rightarrow> bool" where
  "spi_is_prx_protected ctrl address is_write =
     (case find (\<lambda>p. spr_base p \<le> address \<and> address \<le> spr_limit p) (spc_ranges ctrl) of
        None \<Rightarrow> False
      | Some p \<Rightarrow> if is_write \<and> spr_write_protect p then True
                  else if \<not> is_write \<and> spr_read_protect p then True else False)"

definition spi_is_locked_down :: "SPIController \<Rightarrow> bool" where
  "spi_is_locked_down ctrl = slk_flockdn (spc_lock_state ctrl)"

fun spi_check_bytes :: "SPIController \<Rightarrow> u8 \<Rightarrow> bool \<Rightarrow> u32 \<Rightarrow> nat \<Rightarrow> bool c_result" where
  "spi_check_bytes ctrl master is_write address 0 = Returned True"
| "spi_check_bytes ctrl master is_write address (Suc n) =
     (case spi_is_region_access_allowed ctrl master address of
        Undefined \<Rightarrow> Undefined | Diverges \<Rightarrow> Diverges
      | Returned ok \<Rightarrow>
          if \<not> ok then Returned False
          else if spi_is_prx_protected ctrl address is_write then Returned False
          else if master = SPI_MASTER_HOST \<and> is_write \<and> \<not> slk_bios_we (spc_lock_state ctrl) then Returned False
          else spi_check_bytes ctrl master is_write (address + 1) n)"

definition spi_check_access :: "SPIController \<Rightarrow> u8 \<Rightarrow> u32 \<Rightarrow> nat \<Rightarrow> bool \<Rightarrow> bool c_result" where
  "spi_check_access ctrl master address len is_write =
     (if \<not> spc_initialized ctrl then Returned False
      else if unat address + len > SPI_FLASH_SIZE then Returned False
      else spi_check_bytes ctrl master is_write address len)"

section \<open>Operations\<close>

definition empty_region :: SPIDescriptorRegion where
  "empty_region = \<lparr>sdr_base = 0, sdr_limit = 0, sdr_permissions_per_master = zeros SPI_DESC_MASTER_COUNT\<rparr>"

definition empty_range :: SPIProtectedRange where
  "empty_range = \<lparr>spr_base = 0xFFFFFFFF, spr_limit = 0, spr_permissions = 0, spr_write_protect = False, spr_read_protect = False\<rparr>"

definition owned_region :: "u32 \<Rightarrow> u32 \<Rightarrow> u8 \<Rightarrow> SPIDescriptorRegion" where
  "owned_region b l owner = \<lparr>sdr_base = b, sdr_limit = l,
     sdr_permissions_per_master = (zeros SPI_DESC_MASTER_COUNT)[unat owner := SPI_ACCESS_READ_WRITE, unat SPI_MASTER_HOST := SPI_ACCESS_READ]\<rparr>"

definition spi_protect_init :: SPIController where
  "spi_protect_init =
     \<lparr>spc_flash_memory = zeros SPI_FLASH_SIZE,
      spc_regions = [owned_region 0 0x005FFFFF SPI_MASTER_BIOS, owned_region 0x00600000 0x009FFFFF SPI_MASTER_ME,
                     owned_region 0x00A00000 0x00BFFFFF SPI_MASTER_GBE, empty_region, empty_region],
      spc_ranges = replicate SPI_MAX_PROTECTED_RANGES empty_range,
      spc_lock_state = \<lparr>slk_bios_we = True, slk_smm_bwp = False, slk_ble = False, slk_flockdn = False\<rparr>,
      spc_initialized = True\<rparr>"

definition spi_set_protected_range :: "SPIController \<Rightarrow> u8 \<Rightarrow> u32 \<Rightarrow> u32 \<Rightarrow> u8 \<Rightarrow> SPIController \<times> bool" where
  "spi_set_protected_range ctrl idx base limit permissions =
     (if \<not> spc_initialized ctrl then (ctrl, False)
      else if unat idx \<ge> SPI_MAX_PROTECTED_RANGES then (ctrl, False)
      else if base > limit \<or> unat limit \<ge> SPI_FLASH_SIZE then (ctrl, False)
      else if spi_is_locked_down ctrl then (ctrl, False)
      else (ctrl\<lparr>spc_ranges := (spc_ranges ctrl)[unat idx :=
              \<lparr>spr_base = base, spr_limit = limit, spr_permissions = permissions,
               spr_write_protect = (permissions AND SPI_ACCESS_WRITE = 0), spr_read_protect = (permissions AND SPI_ACCESS_READ = 0)\<rparr>]\<rparr>, True))"

definition spi_lock_config :: "SPIController \<Rightarrow> u32 \<Rightarrow> SPIController \<times> bool" where
  "spi_lock_config ctrl lock_flags =
     (if \<not> spc_initialized ctrl then (ctrl, False)
      else if spi_is_locked_down ctrl then (ctrl, False)
      else let l = spc_lock_state ctrl in
        (ctrl\<lparr>spc_lock_state :=
           \<lparr>slk_bios_we = (if lock_flags AND SPI_LOCK_BIOS_WE \<noteq> 0 then False else slk_bios_we l),
            slk_smm_bwp = (if lock_flags AND SPI_LOCK_SMM_BWP \<noteq> 0 then True else slk_smm_bwp l),
            slk_ble = (if lock_flags AND SPI_LOCK_BLE \<noteq> 0 then True else slk_ble l),
            slk_flockdn = (if lock_flags AND SPI_LOCK_FLOCKDN \<noteq> 0 then True else slk_flockdn l)\<rparr>\<rparr>, True))"

text \<open>The bytes read, if any.\<close>

definition spi_read_flash :: "SPIController \<Rightarrow> u8 \<Rightarrow> u32 \<Rightarrow> nat \<Rightarrow> bytes option c_result" where
  "spi_read_flash ctrl master address len =
     (if \<not> spc_initialized ctrl then Returned None
      else case spi_check_access ctrl master address len False of
        Undefined \<Rightarrow> Undefined | Diverges \<Rightarrow> Diverges
      | Returned ok \<Rightarrow> if \<not> ok then Returned None else Returned (Some (sub_range (spc_flash_memory ctrl) (unat address) len)))"

definition spi_write_flash :: "SPIController \<Rightarrow> u8 \<Rightarrow> u32 \<Rightarrow> bytes option \<Rightarrow> (SPIController \<times> bool) c_result" where
  "spi_write_flash ctrl master address buf =
     (case buf of None \<Rightarrow> Returned (ctrl, False)
      | Some b \<Rightarrow>
          if \<not> spc_initialized ctrl then Returned (ctrl, False)
          else case spi_check_access ctrl master address (length b) True of
            Undefined \<Rightarrow> Undefined | Diverges \<Rightarrow> Diverges
          | Returned ok \<Rightarrow>
              if \<not> ok then Returned (ctrl, False)
              else Returned (ctrl\<lparr>spc_flash_memory := blit (spc_flash_memory ctrl) (unat address) b\<rparr>, True))"

definition spi_attack_attempt :: "SPIController \<Rightarrow> u32 \<Rightarrow> bytes option \<Rightarrow> (SPIController \<times> bool) c_result" where
  "spi_attack_attempt ctrl address data =
     (case data of None \<Rightarrow> Returned (ctrl, False) | Some d \<Rightarrow> spi_write_flash ctrl SPI_MASTER_HOST address (Some d))"

section \<open>Which accesses are allowed\<close>

definition spc_wf :: "SPIController \<Rightarrow> bool" where
  "spc_wf ctrl \<longleftrightarrow> length (spc_flash_memory ctrl) = SPI_FLASH_SIZE \<and> length (spc_ranges ctrl) = SPI_MAX_PROTECTED_RANGES"

text \<open>One byte: its region gives the master some permission, and no range or lock stands against it.\<close>

definition byte_allowed :: "SPIController \<Rightarrow> u8 \<Rightarrow> bool \<Rightarrow> u32 \<Rightarrow> bool" where
  "byte_allowed ctrl master is_write address \<longleftrightarrow>
     spi_is_region_access_allowed ctrl master address = Returned True \<and> \<not> spi_is_prx_protected ctrl address is_write
     \<and> \<not> (master = SPI_MASTER_HOST \<and> is_write \<and> \<not> slk_bios_we (spc_lock_state ctrl))"

lemma region_access_defined:
  "unat master < SPI_DESC_MASTER_COUNT \<Longrightarrow> \<exists>ok. spi_is_region_access_allowed ctrl master address = Returned ok"
  by (auto simp: spi_is_region_access_allowed_def split: option.split)

lemma check_bytes_sound:
  "spi_check_bytes ctrl master is_write address n = Returned True \<Longrightarrow> i < n \<Longrightarrow> byte_allowed ctrl master is_write (address + of_nat i)"
proof (induction n arbitrary: address i)
  case (Suc n)
  have a: "byte_allowed ctrl master is_write address" and r: "spi_check_bytes ctrl master is_write (address + 1) n = Returned True"
    using Suc.prems(1) by (auto simp: byte_allowed_def split: c_result.splits if_splits)
  show ?case
  proof (cases i)
    case (Suc j)
    then have "byte_allowed ctrl master is_write (address + 1 + of_nat j)" using Suc.IH [OF r, of j] Suc.prems(2) by simp
    then show ?thesis using Suc by (simp add: ac_simps)
  qed (use a in simp)
qed simp

lemma check_bytes_complete:
  assumes "unat master < SPI_DESC_MASTER_COUNT"
  shows "spi_check_bytes ctrl master is_write address n = Returned (\<forall>i < n. byte_allowed ctrl master is_write (address + of_nat i))"
proof (induction n arbitrary: address)
  case (Suc n)
  have split: "(\<forall>i < Suc n. byte_allowed ctrl master is_write (address + of_nat i))
      = (byte_allowed ctrl master is_write address \<and> (\<forall>i < n. byte_allowed ctrl master is_write (address + 1 + of_nat i)))"
    by (simp add: All_less_Suc2 ac_simps)
  obtain ok where "spi_is_region_access_allowed ctrl master address = Returned ok" using region_access_defined [OF assms] by blast
  then show ?case unfolding split using Suc by (auto simp: byte_allowed_def)
qed simp

text \<open>The check accepts exactly the ranges inside the flash all of whose bytes are allowed.\<close>

lemma check_access_iff:
  assumes "unat master < SPI_DESC_MASTER_COUNT" and "spc_initialized ctrl"
  shows "spi_check_access ctrl master address len is_write
    = Returned (unat address + len \<le> SPI_FLASH_SIZE \<and> (\<forall>i < len. byte_allowed ctrl master is_write (address + of_nat i)))"
  using check_bytes_complete [OF assms(1)] assms(2) by (auto simp: spi_check_access_def)


section \<open>What a lock keeps\<close>

datatype spc_op = Set_range u8 u32 u32 u8 | Lock_config u32 | Flash_write u8 u32 "bytes option" | Attack u32 "bytes option"

inductive spi_step :: "SPIController \<Rightarrow> spc_op \<Rightarrow> SPIController \<Rightarrow> bool" where
  set_range: "spi_set_protected_range c idx b l p = (c', ok) \<Longrightarrow> spi_step c (Set_range idx b l p) c'"
| lock: "spi_lock_config c flags = (c', ok) \<Longrightarrow> spi_step c (Lock_config flags) c'"
| write_op: "spi_write_flash c m a buf = Returned (c', ok) \<Longrightarrow> spi_step c (Flash_write m a buf) c'"
| attack: "spi_attack_attempt c a buf = Returned (c', ok) \<Longrightarrow> spi_step c (Attack a buf) c'"

inductive spi_run :: "SPIController \<Rightarrow> spc_op list \<Rightarrow> SPIController \<Rightarrow> bool" where
  spi_nil: "spi_run c [] c"
| spi_cons: "spi_step c x c1 \<Longrightarrow> spi_run c1 xs c2 \<Longrightarrow> spi_run c (x # xs) c2"

text \<open>A write is all or nothing, and changes allowed bytes only.\<close>

lemma write_flash_cases:
  assumes "spi_write_flash c m a buf = Returned (c', ok)"
  obtains "c' = c"
  | b where "buf = Some b" "c' = c\<lparr>spc_flash_memory := blit (spc_flash_memory c) (unat a) b\<rparr>" "unat a + length b \<le> SPI_FLASH_SIZE"
      "\<And>i. i < length b \<Longrightarrow> byte_allowed c m True (a + of_nat i)"
proof (cases "c' = c")
  case False
  then obtain b where b: "buf = Some b" "c' = c\<lparr>spc_flash_memory := blit (spc_flash_memory c) (unat a) b\<rparr>"
    and ok: "spi_check_access c m a (length b) True = Returned True"
    using assms by (auto simp: spi_write_flash_def split: option.splits if_splits c_result.splits)
  have "unat a + length b \<le> SPI_FLASH_SIZE" and "spi_check_bytes c m True a (length b) = Returned True"
    using ok by (auto simp: spi_check_access_def split: if_splits)
  then show ?thesis using that(2) [OF b] check_bytes_sound by blast
qed (rule that(1))

lemma write_flash_byte:
  assumes "spi_write_flash c m a buf = Returned (c', ok)" and "spc_wf c" and "n < SPI_FLASH_SIZE"
  shows "spc_wf c' \<and> spc_regions c' = spc_regions c \<and> spc_ranges c' = spc_ranges c \<and> spc_lock_state c' = spc_lock_state c
    \<and> spc_initialized c' = spc_initialized c
    \<and> (byte_allowed c m True (of_nat n) \<or> spc_flash_memory c' ! n = spc_flash_memory c ! n)"
  using assms(1)
proof (cases rule: write_flash_cases)
  case 1
  then show ?thesis using assms(2) by simp
next
  case (2 b)
  have l: "length (spc_flash_memory c) = SPI_FLASH_SIZE" using assms(2) by (simp add: spc_wf_def)
  have "byte_allowed c m True (of_nat n)" if "unat a \<le> n" "n < unat a + length b"
  proof -
    have "a + of_nat (n - unat a) = of_nat n" using that(1) by (simp add: of_nat_diff)
    then show ?thesis using 2(4) [of "n - unat a"] that by auto
  qed
  then show ?thesis using 2(2,3) assms(2,3) l by (auto simp: spc_wf_def nth_blit)
qed

lemma attack_is_write: "spi_attack_attempt c a buf = spi_write_flash c SPI_MASTER_HOST a buf"
  by (simp add: spi_attack_attempt_def spi_write_flash_def split: option.split)

text \<open>The master that an operation acts for; configuring is left to any.\<close>

definition host_op :: "spc_op \<Rightarrow> bool" where
  "host_op x = (case x of Flash_write m a b \<Rightarrow> m = SPI_MASTER_HOST | _ \<Rightarrow> True)"

definition spi_frozen :: "SPIController \<Rightarrow> SPIController \<Rightarrow> bool" where
  "spi_frozen c c' \<longleftrightarrow> spc_wf c' \<and> spc_regions c' = spc_regions c \<and> spc_ranges c' = spc_ranges c
     \<and> spc_lock_state c' = spc_lock_state c \<and> spc_initialized c' = spc_initialized c
     \<and> (\<forall>n < SPI_FLASH_SIZE. spi_is_prx_protected c (of_nat n) True \<longrightarrow> spc_flash_memory c' ! n = spc_flash_memory c ! n)"

lemma prx_protected_cong: "spc_ranges c' = spc_ranges c \<Longrightarrow> spi_is_prx_protected c' a w = spi_is_prx_protected c a w"
  by (simp add: spi_is_prx_protected_def)

lemma spi_step_frozen:
  assumes "spi_step c x c'" and "spc_wf c" and "spi_is_locked_down c"
  shows "spi_frozen c c' \<and> (host_op x \<and> \<not> slk_bios_we (spc_lock_state c) \<longrightarrow> spc_flash_memory c' = spc_flash_memory c)"
  using assms(1)
proof cases
  case (write_op m a buf ok)
  have b: "byte_allowed c m True (of_nat n) \<or> spc_flash_memory c' ! n = spc_flash_memory c ! n" if "n < SPI_FLASH_SIZE" for n
    using write_flash_byte [OF write_op(2) assms(2) that] by blast
  have f: "spi_frozen c c'" unfolding spi_frozen_def
    using write_flash_byte [OF write_op(2) assms(2), of 0] b by (auto simp: byte_allowed_def SPI_FLASH_SIZE_def)
  moreover have "spc_flash_memory c' = spc_flash_memory c" if "m = SPI_MASTER_HOST" "\<not> slk_bios_we (spc_lock_state c)"
    using b f assms(2) that by (intro nth_equalityI) (auto simp: spi_frozen_def spc_wf_def byte_allowed_def)
  ultimately show ?thesis using write_op(1) by (simp add: host_op_def)
next
  case (attack a buf ok)
  have w: "spi_write_flash c SPI_MASTER_HOST a buf = Returned (c', ok)" using attack(2) by (simp add: attack_is_write)
  have b: "byte_allowed c SPI_MASTER_HOST True (of_nat n) \<or> spc_flash_memory c' ! n = spc_flash_memory c ! n" if "n < SPI_FLASH_SIZE" for n
    using write_flash_byte [OF w assms(2) that] by blast
  have f: "spi_frozen c c'" unfolding spi_frozen_def
    using write_flash_byte [OF w assms(2), of 0] b by (auto simp: byte_allowed_def SPI_FLASH_SIZE_def)
  moreover have "spc_flash_memory c' = spc_flash_memory c" if "\<not> slk_bios_we (spc_lock_state c)"
    using b f assms(2) that by (intro nth_equalityI) (auto simp: spi_frozen_def spc_wf_def byte_allowed_def)
  ultimately show ?thesis by blast
qed (use assms(2,3) in \<open>auto simp: spi_frozen_def spi_set_protected_range_def spi_lock_config_def split: if_splits\<close>)

lemma spi_run_frozen:
  assumes "spi_run c xs c'" and "spc_wf c" and "spi_is_locked_down c"
  shows "spi_frozen c c' \<and> ((\<forall>x \<in> set xs. host_op x) \<and> \<not> slk_bios_we (spc_lock_state c) \<longrightarrow> spc_flash_memory c' = spc_flash_memory c)"
  using assms
proof (induction rule: spi_run.induct)
  case (spi_cons c x c1 xs c2)
  have s: "spi_frozen c c1 \<and> (host_op x \<and> \<not> slk_bios_we (spc_lock_state c) \<longrightarrow> spc_flash_memory c1 = spc_flash_memory c)"
    using spi_step_frozen spi_cons by blast
  then have "spc_wf c1" "spi_is_locked_down c1" using spi_cons.prems by (simp_all add: spi_frozen_def spi_is_locked_down_def)
  then have i: "spi_frozen c1 c2 \<and> ((\<forall>x \<in> set xs. host_op x) \<and> \<not> slk_bios_we (spc_lock_state c1) \<longrightarrow> spc_flash_memory c2 = spc_flash_memory c1)"
    by (rule spi_cons.IH)
  have "spi_is_prx_protected c1 a True = spi_is_prx_protected c a True" for a
    using s by (intro prx_protected_cong) (simp add: spi_frozen_def)
  then have "spi_frozen c c2" using s i by (simp add: spi_frozen_def)
  moreover have "spc_lock_state c1 = spc_lock_state c" using s by (simp add: spi_frozen_def)
  ultimately show ?case using s i by (metis insert_iff list.simps(15))
qed (simp add: spi_frozen_def)

section \<open>What a lock does not keep\<close>

text \<open>A permission counts whatever it permits: the host may write what it may only read.\<close>

lemma host_permission: "unat SPI_MASTER_HOST < SPI_DESC_MASTER_COUNT" "sdr_permissions_per_master (owned_region b l m) ! unat SPI_MASTER_HOST = 1"
proof -
  have h: "unat SPI_MASTER_HOST = 3" by (simp add: SPI_MASTER_HOST_def)
  show "unat SPI_MASTER_HOST < SPI_DESC_MASTER_COUNT" by (simp add: h SPI_DESC_MASTER_COUNT_def)
  show "sdr_permissions_per_master (owned_region b l m) ! unat SPI_MASTER_HOST = 1"
    by (simp add: owned_region_def h SPI_DESC_MASTER_COUNT_def SPI_ACCESS_READ_def)
qed

lemma owned_bounds: "sdr_base (owned_region b l m) = b" "sdr_limit (owned_region b l m) = l"
  by (simp_all add: owned_region_def)

lemma init_region_allowed:
  assumes "unat a < 0xC00000"
  shows "byte_allowed spi_protect_init SPI_MASTER_HOST True a"
proof -
  have a: "a < 0xC00000" using assms by (simp add: word_less_nat_alt)
  let ?in = "\<lambda>r. sdr_base r \<le> a \<and> a \<le> sdr_limit r"
  have "a \<le> 0x005FFFFF \<or> (0x00600000 \<le> a \<and> a \<le> 0x009FFFFF) \<or> (0x00A00000 \<le> a \<and> a \<le> 0x00BFFFFF)"
    using a by (simp add: word_less_nat_alt word_le_nat_alt) linarith
  then obtain b l m where "find ?in (spc_regions spi_protect_init) = Some (owned_region b l m)"
    by (cases "a \<le> 0x005FFFFF"; cases "0x00600000 \<le> a \<and> a \<le> 0x009FFFFF") (auto simp: spi_protect_init_def owned_bounds)
  then have "spi_is_region_access_allowed spi_protect_init SPI_MASTER_HOST a = Returned True"
    by (simp add: spi_is_region_access_allowed_def host_permission)
  moreover have "find (\<lambda>p. spr_base p \<le> a \<and> a \<le> spr_limit p) (spc_ranges spi_protect_init) = None"
    by (auto simp: find_None_iff spi_protect_init_def empty_range_def)
  then have "\<not> spi_is_prx_protected spi_protect_init a True" by (simp add: spi_is_prx_protected_def)
  ultimately show ?thesis by (simp add: byte_allowed_def spi_protect_init_def)
qed

lemma unat_add_le: "unat ((a :: 'a::len word) + of_nat i) \<le> unat a + i"
proof -
  have "unat (a + of_nat i) \<le> unat a + unat (of_nat i :: 'a word)" by (simp add: unat_word_ariths)
  moreover have "unat (of_nat i :: 'a word) \<le> i" by (simp add: unat_of_nat)
  ultimately show ?thesis by linarith
qed

lemma host_writes_readonly:
  assumes "unat a + length b \<le> 0xC00000"
  shows "spi_write_flash spi_protect_init SPI_MASTER_HOST a (Some b)
    = Returned (spi_protect_init\<lparr>spc_flash_memory := blit (zeros SPI_FLASH_SIZE) (unat a) b\<rparr>, True)"
proof -
  have "byte_allowed spi_protect_init SPI_MASTER_HOST True (a + of_nat i)" if "i < length b" for i
    using unat_add_le [of a i] that assms by (intro init_region_allowed) linarith
  then have "spi_check_access spi_protect_init SPI_MASTER_HOST a (length b) True = Returned True"
    using assms check_access_iff [OF host_permission(1), of spi_protect_init a "length b" True]
    by (simp add: SPI_FLASH_SIZE_def) (simp add: spi_protect_init_def)
  then show ?thesis by (simp add: spi_write_flash_def spi_protect_init_def)
qed

text \<open>Two of the lock bits are never consulted, and an earlier range without protection lifts a later one.\<close>

lemma smm_locks_ignored:
  "byte_allowed (c\<lparr>spc_lock_state := (spc_lock_state c)\<lparr>slk_smm_bwp := x, slk_ble := y\<rparr>\<rparr>) m w a = byte_allowed c m w a"
  by (simp add: byte_allowed_def spi_is_region_access_allowed_def spi_is_prx_protected_def)

lemma range_shadowed:
  assumes "spc_ranges c = p # ps" and "spr_base p \<le> a" and "a \<le> spr_limit p" and "\<not> spr_write_protect p"
  shows "\<not> spi_is_prx_protected c a True"
  using assms by (simp add: spi_is_prx_protected_def)

end
