(* ===== verification/Iommu_Guard.thy ===== *)
theory Iommu_Guard
  imports Prelude
begin

text \<open>
  The IOMMU (\<open>mini-firmware-security/src/dma_attacks.c\<close>): a table of devices, domains with their
  page tables, translation, and the DMA of a device.  Whether \<open>malloc\<close> succeeds and the bytes of
  the physical memory are parameters.
\<close>

section \<open>State\<close>

definition IOMMU_MAX_DEVICES :: nat where "IOMMU_MAX_DEVICES = 256"
definition IOMMU_PAGE_TABLE_ENTRIES :: nat where "IOMMU_PAGE_TABLE_ENTRIES = 512"
definition IOMMU_PAGE_SIZE :: u64 where "IOMMU_PAGE_SIZE = 4096"
definition IOMMU_DOMAIN_MAX :: nat where "IOMMU_DOMAIN_MAX = 64"
definition IOMMU_FLAG_PRESENT :: u16 where "IOMMU_FLAG_PRESENT = 1"
definition DMA_REMAPPING_ENABLED :: u32 where "DMA_REMAPPING_ENABLED = 1"
definition DMA_INTERRUPT_REMAPPING :: u32 where "DMA_INTERRUPT_REMAPPING = 2"

record DMADevice =
  dmd_requester_id :: u16
  dmd_dma_buffer :: u64
  dmd_enabled :: bool
  dmd_ats_capable :: bool
  dmd_bus :: u8
  dmd_device :: u8
  dmd_function :: u8

record DeviceTableEntry =
  dte_valid :: bool
  dte_page_table_ptr :: u64
  dte_domain_id :: u16
  dte_present :: bool

record PageTableEntry =
  pte_phys_addr :: u64
  pte_virt_addr :: u64
  pte_length :: u64
  pte_flags :: u16

record DomainTable =
  dmt_domain_id :: u16
  dmt_entries :: "PageTableEntry list"
  dmt_entry_count :: nat

record IOMMU =
  iom_enabled :: bool
  iom_device_table :: "DeviceTableEntry list"
  iom_domains :: "DomainTable option list"
  iom_domain_count :: nat
  iom_capabilities :: u32

section \<open>Operations\<close>

definition iommu_pte_valid :: "PageTableEntry \<Rightarrow> bool" where
  "iommu_pte_valid pte \<longleftrightarrow> pte_flags pte AND IOMMU_FLAG_PRESENT \<noteq> 0"

definition iommu_pte_phys_addr :: "PageTableEntry \<Rightarrow> u64" where
  "iommu_pte_phys_addr pte = pte_phys_addr pte AND 0x0000FFFFFFFFF000"

definition empty_device :: DeviceTableEntry where
  "empty_device = \<lparr>dte_valid = False, dte_page_table_ptr = 0, dte_domain_id = 0, dte_present = False\<rparr>"

definition iommu_init :: IOMMU where
  "iommu_init = \<lparr>iom_enabled = True, iom_device_table = replicate IOMMU_MAX_DEVICES empty_device,
     iom_domains = replicate IOMMU_DOMAIN_MAX None, iom_domain_count = 0,
     iom_capabilities = DMA_REMAPPING_ENABLED OR DMA_INTERRUPT_REMAPPING\<rparr>"

definition iommu_map_device :: "IOMMU \<Rightarrow> u16 \<Rightarrow> u64 \<Rightarrow> u16 \<Rightarrow> IOMMU \<times> bool" where
  "iommu_map_device mmu rid ptr dom_id =
     (if unat rid \<ge> IOMMU_MAX_DEVICES then (mmu, False)
      else (mmu\<lparr>iom_device_table := (iom_device_table mmu)[unat rid :=
              \<lparr>dte_valid = True, dte_page_table_ptr = ptr, dte_domain_id = dom_id, dte_present = True\<rparr>]\<rparr>, True))"

definition iommu_protect :: "IOMMU \<Rightarrow> u16 \<Rightarrow> IOMMU \<times> bool" where
  "iommu_protect mmu rid =
     (if unat rid \<ge> IOMMU_MAX_DEVICES then (mmu, False)
      else (mmu\<lparr>iom_device_table := (iom_device_table mmu)[unat rid :=
              (iom_device_table mmu ! unat rid)\<lparr>dte_present := True, dte_valid := True\<rparr>]\<rparr>, True))"

definition iommu_unmap_device :: "IOMMU \<Rightarrow> u16 \<Rightarrow> IOMMU \<times> bool" where
  "iommu_unmap_device mmu rid =
     (if unat rid \<ge> IOMMU_MAX_DEVICES then (mmu, False)
      else (mmu\<lparr>iom_device_table := (iom_device_table mmu)[unat rid :=
              (iom_device_table mmu ! unat rid)\<lparr>dte_valid := False, dte_present := False\<rparr>]\<rparr>, True))"

definition has_domain_id :: "u16 \<Rightarrow> DomainTable option \<Rightarrow> bool" where
  "has_domain_id i d = (case d of None \<Rightarrow> False | Some t \<Rightarrow> dmt_domain_id t = i)"

definition empty_pte :: PageTableEntry where
  "empty_pte = \<lparr>pte_phys_addr = 0, pte_virt_addr = 0, pte_length = 0, pte_flags = 0\<rparr>"

definition domain_pages :: "u64 \<Rightarrow> nat" where
  "domain_pages len =
     (let n = unat ((len + IOMMU_PAGE_SIZE - 1) div IOMMU_PAGE_SIZE)
      in if n > IOMMU_PAGE_TABLE_ENTRIES then IOMMU_PAGE_TABLE_ENTRIES else n)"

definition new_domain :: "u16 \<Rightarrow> u64 \<Rightarrow> u64 \<Rightarrow> u64 \<Rightarrow> u16 \<Rightarrow> DomainTable" where
  "new_domain dom_id phys_base iova_base len perm_flags =
     \<lparr>dmt_domain_id = dom_id,
      dmt_entries = map (\<lambda>i. if i < domain_pages len
          then \<lparr>pte_phys_addr = phys_base + of_nat i * IOMMU_PAGE_SIZE, pte_virt_addr = iova_base + of_nat i * IOMMU_PAGE_SIZE,
                pte_length = IOMMU_PAGE_SIZE, pte_flags = IOMMU_FLAG_PRESENT OR perm_flags\<rparr>
          else empty_pte) [0..<IOMMU_PAGE_TABLE_ENTRIES],
      dmt_entry_count = domain_pages len\<rparr>"

definition iommu_create_domain :: "bool \<Rightarrow> IOMMU \<Rightarrow> u16 \<Rightarrow> u64 \<Rightarrow> u64 \<Rightarrow> u64 \<Rightarrow> u16 \<Rightarrow> IOMMU \<times> bool" where
  "iommu_create_domain malloc_ok mmu dom_id phys_base iova_base len perm_flags =
     (if len = 0 then (mmu, False)
      else if iom_domain_count mmu \<ge> IOMMU_DOMAIN_MAX then (mmu, False)
      else if list_ex (has_domain_id dom_id) (iom_domains mmu) then (mmu, False)
      else if \<not> malloc_ok then (mmu, False)
      else (mmu\<lparr>iom_domains := (iom_domains mmu)[iom_domain_count mmu := Some (new_domain dom_id phys_base iova_base len perm_flags)],
                iom_domain_count := iom_domain_count mmu + 1\<rparr>, True))"

definition iommu_page_fault :: "IOMMU \<Rightarrow> u16 \<Rightarrow> u64 \<Rightarrow> bool" where
  "iommu_page_fault mmu rid fault_addr =
     list_ex (\<lambda>i. dte_valid (iom_device_table mmu ! i) \<and> dte_present (iom_device_table mmu ! i) \<and> i = unat rid) [0..<IOMMU_MAX_DEVICES]"

text \<open>The answer to a fault does not matter to the translation.\<close>

definition iommu_translate :: "IOMMU \<Rightarrow> u16 \<Rightarrow> u64 \<Rightarrow> u64 option" where
  "iommu_translate mmu rid dma =
     (if \<not> iom_enabled mmu then Some dma
      else if unat rid \<ge> IOMMU_MAX_DEVICES then None
      else let e = iom_device_table mmu ! unat rid in
        if \<not> dte_valid e \<or> \<not> dte_present e then None
        else (case find (has_domain_id (dte_domain_id e)) (iom_domains mmu) of
                Some (Some d) \<Rightarrow>
                  let off = dma AND (IOMMU_PAGE_SIZE - 1); idx = unat (dma div IOMMU_PAGE_SIZE) in
                  if idx \<ge> dmt_entry_count d then None
                  else if \<not> iommu_pte_valid (dmt_entries d ! idx) then None
                  else Some (iommu_pte_phys_addr (dmt_entries d ! idx) + off)
              | _ \<Rightarrow> None))"

text \<open>The bytes stolen; one translation serves the whole range.\<close>

definition dma_attack_sim :: "(u64 \<Rightarrow> u8) \<Rightarrow> DMADevice option \<Rightarrow> u64 \<Rightarrow> nat \<Rightarrow> IOMMU option \<Rightarrow> bytes option" where
  "dma_attack_sim memory device target len iommu =
     (case (device, iommu) of
        (Some d, Some mmu) \<Rightarrow>
          if \<not> dmd_enabled d then None
          else (case (if iom_enabled mmu then iommu_translate mmu (dmd_requester_id d) target else Some target) of
                  None \<Rightarrow> None
                | Some p \<Rightarrow> if p = 0 then None else Some (map (\<lambda>i. memory (p + of_nat i)) [0..<len]))
      | _ \<Rightarrow> None)"

section \<open>Runs\<close>

datatype iommu_op = Map_device u16 u64 u16 | Protect u16 | Unmap_device u16 | Create_domain bool u16 u64 u64 u64 u16

definition iommu_step :: "iommu_op \<Rightarrow> IOMMU \<Rightarrow> IOMMU" where
  "iommu_step x mmu = (case x of
       Map_device r p d \<Rightarrow> fst (iommu_map_device mmu r p d)
     | Protect r \<Rightarrow> fst (iommu_protect mmu r)
     | Unmap_device r \<Rightarrow> fst (iommu_unmap_device mmu r)
     | Create_domain ok d p v n f \<Rightarrow> fst (iommu_create_domain ok mmu d p v n f))"

definition iommu_run :: "iommu_op list \<Rightarrow> IOMMU" where
  "iommu_run xs = fold iommu_step xs iommu_init"

lemma iommu_run_simps: "iommu_run [] = iommu_init" "iommu_run (xs @ [x]) = iommu_step x (iommu_run xs)"
  by (simp_all add: iommu_run_def)

text \<open>Everything in the tables comes from an operation of the run.\<close>

definition domain_traced :: "iommu_op set \<Rightarrow> DomainTable \<Rightarrow> bool" where
  "domain_traced ops d \<longleftrightarrow> (\<exists>dom_id p v n f. Create_domain True dom_id p v n f \<in> ops \<and> d = new_domain dom_id p v n f)"

definition device_traced :: "iommu_op set \<Rightarrow> u16 \<Rightarrow> DeviceTableEntry \<Rightarrow> bool" where
  "device_traced ops r e \<longleftrightarrow>
     (if \<exists>p d. Map_device r p d \<in> ops then \<exists>p. Map_device r p (dte_domain_id e) \<in> ops else dte_domain_id e = 0)
     \<and> (dte_valid e \<longrightarrow> Protect r \<in> ops \<or> (\<exists>p d. Map_device r p d \<in> ops))"

definition iommu_traced :: "iommu_op set \<Rightarrow> IOMMU \<Rightarrow> bool" where
  "iommu_traced ops mmu \<longleftrightarrow> iom_enabled mmu \<and> length (iom_device_table mmu) = IOMMU_MAX_DEVICES \<and> length (iom_domains mmu) = IOMMU_DOMAIN_MAX
     \<and> (\<forall>d. Some d \<in> set (iom_domains mmu) \<longrightarrow> domain_traced ops d)
     \<and> (\<forall>r. unat r < IOMMU_MAX_DEVICES \<longrightarrow> device_traced ops r (iom_device_table mmu ! unat r))"

lemma traced_mono: "domain_traced ops d \<Longrightarrow> domain_traced (insert x ops) d"
  unfolding domain_traced_def by blast

lemma device_keep:
  assumes "device_traced ops r e" and "dte_domain_id e' = dte_domain_id e" and "dte_valid e' \<longrightarrow> dte_valid e \<or> x = Protect r"
    and "\<And>p d. x \<noteq> Map_device r p d"
  shows "device_traced (insert x ops) r e'"
proof -
  have "Map_device r p d \<in> insert x ops \<longleftrightarrow> Map_device r p d \<in> ops" for p d using assms(4) [of p d] by auto
  then show ?thesis using assms(1-3) unfolding device_traced_def by (auto simp del: insert_iff simp: insertI1 insertI2)
qed

lemma device_mapped: "device_traced (insert (Map_device r p d) ops) r \<lparr>dte_valid = v, dte_page_table_ptr = q, dte_domain_id = d, dte_present = b\<rparr>"
  by (auto simp: device_traced_def)

lemma iommu_step_traced:
  assumes "iommu_traced ops mmu"
  shows "iommu_traced (insert x ops) (iommu_step x mmu)"
proof -
  have d: "domain_traced (insert x ops) d" if "Some d \<in> set (iom_domains mmu)" for d
    using assms that by (auto simp: iommu_traced_def intro: traced_mono)
  have t: "device_traced ops r (iom_device_table mmu ! unat r)" if "unat r < IOMMU_MAX_DEVICES" for r
    using assms that by (simp add: iommu_traced_def)
  show ?thesis
  proof (cases x)
    case (Map_device r p i)
    have "device_traced (insert x ops) s (iom_device_table (iommu_step x mmu) ! unat s)" if "unat s < IOMMU_MAX_DEVICES" for s
    proof (cases "s = r")
      case True
      then show ?thesis using assms that Map_device by (simp add: iommu_step_def iommu_map_device_def iommu_traced_def device_mapped)
    next
      case False
      then have "unat s \<noteq> unat r" by (simp add: word_unat_eq_iff)
      then have "iom_device_table (iommu_step x mmu) ! unat s = iom_device_table mmu ! unat s"
        using Map_device by (simp add: iommu_step_def iommu_map_device_def)
      then show ?thesis using device_keep [OF t [OF that], of _ x] Map_device False by auto
    qed
    then show ?thesis using assms d Map_device by (simp add: iommu_traced_def iommu_step_def iommu_map_device_def)
  next
    case (Protect r)
    have "device_traced (insert x ops) s (iom_device_table (iommu_step x mmu) ! unat s)" if "unat s < IOMMU_MAX_DEVICES" for s
      using assms Protect that
      by (intro device_keep [OF t [OF that]]) (auto simp: iommu_step_def iommu_protect_def iommu_traced_def nth_list_update dest!: iffD2 [OF word_unat_eq_iff])
    then show ?thesis using assms d Protect by (simp add: iommu_traced_def iommu_step_def iommu_protect_def)
  next
    case (Unmap_device r)
    have "device_traced (insert x ops) s (iom_device_table (iommu_step x mmu) ! unat s)" if "unat s < IOMMU_MAX_DEVICES" for s
      using assms Unmap_device that
      by (intro device_keep [OF t [OF that]]) (auto simp: iommu_step_def iommu_unmap_device_def iommu_traced_def nth_list_update dest!: iffD2 [OF word_unat_eq_iff])
    then show ?thesis using assms d Unmap_device by (simp add: iommu_traced_def iommu_step_def iommu_unmap_device_def)
  next
    case (Create_domain ok i p v n f)
    have "device_traced (insert x ops) s (iom_device_table mmu ! unat s)" if "unat s < IOMMU_MAX_DEVICES" for s
      using Create_domain by (intro device_keep [OF t [OF that]]) auto
    moreover have "domain_traced (insert x ops) (new_domain i p v n f)" if ok
    proof -
      have "Create_domain True i p v n f \<in> insert x ops" using that Create_domain by simp
      then show ?thesis unfolding domain_traced_def by blast
    qed
    ultimately show ?thesis using assms d Create_domain
      by (auto simp: iommu_traced_def iommu_step_def iommu_create_domain_def dest!: subsetD [OF set_update_subset_insert])
  qed
qed

lemma iommu_run_traced: "iommu_traced (set xs) (iommu_run xs)"
proof (induction xs rule: rev_induct)
  case Nil
  show ?case by (simp add: iommu_run_simps iommu_traced_def iommu_init_def device_traced_def empty_device_def)
next
  case (snoc x xs)
  then show ?case using iommu_step_traced [of "set xs" "iommu_run xs" x] by (simp add: iommu_run_simps)
qed

lemma translate_SomeD:
  assumes "iommu_translate mmu r dma = Some p" and "iom_enabled mmu"
  obtains d where "Some d \<in> set (iom_domains mmu)" "dmt_domain_id d = dte_domain_id (iom_device_table mmu ! unat r)"
    "unat r < IOMMU_MAX_DEVICES" "dte_valid (iom_device_table mmu ! unat r)" "unat (dma div IOMMU_PAGE_SIZE) < dmt_entry_count d"
    "p = iommu_pte_phys_addr (dmt_entries d ! unat (dma div IOMMU_PAGE_SIZE)) + (dma AND (IOMMU_PAGE_SIZE - 1))"
proof -
  obtain d where d: "find (has_domain_id (dte_domain_id (iom_device_table mmu ! unat r))) (iom_domains mmu) = Some (Some d)"
    and rest: "unat r < IOMMU_MAX_DEVICES" "dte_valid (iom_device_table mmu ! unat r)" "unat (dma div IOMMU_PAGE_SIZE) < dmt_entry_count d"
    "p = iommu_pte_phys_addr (dmt_entries d ! unat (dma div IOMMU_PAGE_SIZE)) + (dma AND (IOMMU_PAGE_SIZE - 1))"
    using assms by (auto simp: iommu_translate_def Let_def split: if_splits option.splits)
  have "Some d \<in> set (iom_domains mmu)" "dmt_domain_id d = dte_domain_id (iom_device_table mmu ! unat r)"
    using d by (auto simp: find_Some_iff has_domain_id_def split: option.splits dest: sym)
  then show ?thesis using that rest by blast
qed

lemma domain_pages_le: "domain_pages n \<le> IOMMU_PAGE_TABLE_ENTRIES"
  by (simp add: domain_pages_def Let_def)

lemma new_domain_entry:
  "i < domain_pages n \<Longrightarrow> dmt_entries (new_domain d p v n f) ! i
    = \<lparr>pte_phys_addr = p + of_nat i * IOMMU_PAGE_SIZE, pte_virt_addr = v + of_nat i * IOMMU_PAGE_SIZE,
       pte_length = IOMMU_PAGE_SIZE, pte_flags = IOMMU_FLAG_PRESENT OR f\<rparr>"
  using domain_pages_le [of n] by (simp add: new_domain_def del: upt_rec_numeral)

text \<open>
  What a device reaches lies in the pages of a domain that was created, and that the device was
  mapped to, or in domain 0 if it was only ever protected.
\<close>

lemma run_translate:
  assumes "iommu_translate (iommu_run xs) r dma = Some p"
  shows "\<exists>dom_id base iova n f i. Create_domain True dom_id base iova n f \<in> set xs \<and> i < domain_pages n \<and> i = unat (dma div IOMMU_PAGE_SIZE)
    \<and> p = ((base + of_nat i * IOMMU_PAGE_SIZE) AND 0x0000FFFFFFFFF000) + (dma AND (IOMMU_PAGE_SIZE - 1))
    \<and> ((\<exists>q. Map_device r q dom_id \<in> set xs) \<or> Protect r \<in> set xs \<and> dom_id = 0)"
proof -
  have tr: "iommu_traced (set xs) (iommu_run xs)" by (rule iommu_run_traced)
  then have "iom_enabled (iommu_run xs)" by (simp add: iommu_traced_def)
  then obtain d where d: "Some d \<in> set (iom_domains (iommu_run xs))" "dmt_domain_id d = dte_domain_id (iom_device_table (iommu_run xs) ! unat r)"
    "unat r < IOMMU_MAX_DEVICES" "dte_valid (iom_device_table (iommu_run xs) ! unat r)" "unat (dma div IOMMU_PAGE_SIZE) < dmt_entry_count d"
    "p = iommu_pte_phys_addr (dmt_entries d ! unat (dma div IOMMU_PAGE_SIZE)) + (dma AND (IOMMU_PAGE_SIZE - 1))"
    using translate_SomeD [OF assms] by blast
  obtain dom_id base iova n f where c: "Create_domain True dom_id base iova n f \<in> set xs" "d = new_domain dom_id base iova n f"
    using tr d(1) by (auto simp: iommu_traced_def domain_traced_def)
  have n: "unat (dma div IOMMU_PAGE_SIZE) < domain_pages n" using d(5) c(2) by (simp add: new_domain_def)
  have "device_traced (set xs) r (iom_device_table (iommu_run xs) ! unat r)" using tr d(3) by (simp add: iommu_traced_def)
  moreover have "dte_domain_id (iom_device_table (iommu_run xs) ! unat r) = dom_id" using d(2) c(2) by (simp add: new_domain_def)
  ultimately have "(\<exists>q. Map_device r q dom_id \<in> set xs) \<or> Protect r \<in> set xs \<and> dom_id = 0"
    using d(4) by (auto simp: device_traced_def split: if_splits)
  moreover have "p = ((base + of_nat (unat (dma div IOMMU_PAGE_SIZE)) * IOMMU_PAGE_SIZE) AND 0x0000FFFFFFFFF000) + (dma AND (IOMMU_PAGE_SIZE - 1))"
    using n d(6) c(2) by (simp add: new_domain_entry iommu_pte_phys_addr_def)
  ultimately show ?thesis using c(1) n by blast
qed

text \<open>The other way: a device mapped to a domain just created reaches every page of it.\<close>

lemma page_present: "iommu_pte_valid e" if "pte_flags e = IOMMU_FLAG_PRESENT OR f"
proof -
  have "bit (pte_flags e AND IOMMU_FLAG_PRESENT) 0" using that by (simp add: IOMMU_FLAG_PRESENT_def bit_simps)
  then show ?thesis unfolding iommu_pte_valid_def by (metis bit_0_eq bot_apply bot_bool_def)
qed

lemma mapped_reaches:
  assumes "iommu_create_domain True mmu dom_id base iova n f = (m1, True)" and "iommu_map_device m1 r ptr dom_id = (m2, True)"
    and "iom_enabled mmu" and "length (iom_device_table mmu) = IOMMU_MAX_DEVICES" and "iom_domain_count mmu < length (iom_domains mmu)"
    and "unat (dma div IOMMU_PAGE_SIZE) < domain_pages n"
  shows "iommu_translate m2 r dma = Some (((base + of_nat (unat (dma div IOMMU_PAGE_SIZE)) * IOMMU_PAGE_SIZE) AND 0x0000FFFFFFFFF000)
    + (dma AND (IOMMU_PAGE_SIZE - 1)))"
proof -
  let ?d = "new_domain dom_id base iova n f" and ?k = "iom_domain_count mmu"
  have m1: "m1 = mmu\<lparr>iom_domains := (iom_domains mmu)[?k := Some ?d], iom_domain_count := ?k + 1\<rparr>"
    and none: "\<not> list_ex (has_domain_id dom_id) (iom_domains mmu)"
    using assms(1) by (auto simp: iommu_create_domain_def split: if_splits)
  have r: "unat r < IOMMU_MAX_DEVICES" and m2: "m2 = m1\<lparr>iom_device_table := (iom_device_table m1)[unat r :=
      \<lparr>dte_valid = True, dte_page_table_ptr = ptr, dte_domain_id = dom_id, dte_present = True\<rparr>]\<rparr>"
    using assms(2) by (auto simp: iommu_map_device_def split: if_splits)
  have h: "has_domain_id dom_id (Some ?d)" by (simp add: has_domain_id_def new_domain_def)
  have "find (has_domain_id dom_id) ((iom_domains mmu)[?k := Some ?d]) = Some (Some ?d)"
    unfolding find_Some_iff using h none assms(5) by (intro exI [of _ ?k]) (auto simp: list_ex_length)
  then show ?thesis using assms(3,4,6) r
    by (simp add: m2 m1 iommu_translate_def Let_def new_domain_entry page_present iommu_pte_phys_addr_def)
      (simp add: new_domain_def)
qed

section \<open>What protection leaves open\<close>

text \<open>Protecting a device gives it its domain back.\<close>

lemma protect_undoes_unmap:
  assumes "iommu_unmap_device mmu r = (m1, True)" and "iommu_protect m1 r = (m2, True)"
    and "length (iom_device_table mmu) = IOMMU_MAX_DEVICES"
    and "dte_valid (iom_device_table mmu ! unat r)" and "dte_present (iom_device_table mmu ! unat r)"
  shows "m2 = mmu \<and> iommu_translate m1 r dma = (if iom_enabled mmu then None else Some dma)"
proof -
  have e: "(iom_device_table mmu ! unat r)\<lparr>dte_present := True, dte_valid := True\<rparr> = iom_device_table mmu ! unat r"
    using assms(4,5) by simp
  have "m2 = mmu\<lparr>iom_device_table := (iom_device_table mmu)[unat r := (iom_device_table mmu ! unat r)\<lparr>dte_present := True, dte_valid := True\<rparr>]\<rparr>"
    using assms(1-3) by (auto simp: iommu_unmap_device_def iommu_protect_def split: if_splits)
  then have "m2 = mmu" unfolding e by simp
  moreover have "iommu_translate m1 r dma = (if iom_enabled mmu then None else Some dma)"
    using assms(1,3) by (auto simp: iommu_unmap_device_def iommu_translate_def Let_def split: if_splits)
  ultimately show ?thesis by simp
qed

text \<open>A transfer is checked at its first byte only, and goes on in physical memory.\<close>

lemma dma_beyond_domain:
  assumes "dmd_enabled dev" and "iommu_translate mmu (dmd_requester_id dev) target = Some p" and "p \<noteq> 0"
  shows "dma_attack_sim memory (Some dev) target len (Some mmu) = Some (map (\<lambda>i. memory (p + of_nat i)) [0..<len])"
proof -
  have "iommu_translate mmu (dmd_requester_id dev) target = Some target" if "\<not> iom_enabled mmu" using that by (simp add: iommu_translate_def)
  then show ?thesis using assms by (auto simp: dma_attack_sim_def)
qed

text \<open>The permissions of a page and the addresses a domain was created for play no part.\<close>

lemma translate_ignores_iova:
  "iommu_translate (iommu_run [Create_domain True d b v n f, Map_device r q d]) r dma
    = iommu_translate (iommu_run [Create_domain True d b v' n f', Map_device r q d]) r dma"
proof -
  have e: "iommu_pte_valid (dmt_entries (new_domain d b v n f) ! i)" "iommu_pte_phys_addr (dmt_entries (new_domain d b v n f) ! i)
      = (b + of_nat i * IOMMU_PAGE_SIZE) AND 0x0000FFFFFFFFF000" if "i < domain_pages n" for i v f
    using that by (simp_all add: new_domain_entry page_present iommu_pte_phys_addr_def)
  have c: "dmt_entry_count (new_domain d b v n f) = domain_pages n" "dmt_domain_id (new_domain d b v n f) = d" for v f
    by (simp_all add: new_domain_def)
  have g: "replicate IOMMU_DOMAIN_MAX None = None # replicate 63 None"
    by (simp add: IOMMU_DOMAIN_MAX_def numeral_eq_Suc)
  show ?thesis
    by (simp add: iommu_run_def iommu_step_def iommu_init_def iommu_create_domain_def iommu_map_device_def iommu_translate_def Let_def
        IOMMU_DOMAIN_MAX_def [symmetric] g c e has_domain_id_def)
qed

end
