(* ===== verification/Fw_Resilience.thy ===== *)
theory Fw_Resilience
  imports Prelude
begin

text \<open>
  Firmware resiliency (\<open>mini-firmware-security/src/firmware_resiliency.c\<close>): the hashes of the
  active, the recovery and the golden image, detection of corruption, recovery, and the audit log.
  The codes of a corruption and of a boot result share one field and stay words.
\<close>

section \<open>State\<close>

definition RESILIENT_FW_HASH_SIZE :: nat where "RESILIENT_FW_HASH_SIZE = 32"
definition RESILIENT_FW_MAX_LOG_SIZE :: nat where "RESILIENT_FW_MAX_LOG_SIZE = 64"
definition RESILIENT_FW_GOLDEN_SLOT :: u8 where "RESILIENT_FW_GOLDEN_SLOT = 1"
definition RESILIENT_POLICY_AUTO :: u8 where "RESILIENT_POLICY_AUTO = 0"
definition RESILIENT_POLICY_MANUAL :: u8 where "RESILIENT_POLICY_MANUAL = 1"
definition FW_BOOT_OK :: u32 where "FW_BOOT_OK = 0"
definition FW_BOOT_RECOVERED :: u32 where "FW_BOOT_RECOVERED = 2"
definition RANDOM_BIT_FLIP :: u32 where "RANDOM_BIT_FLIP = 0"
definition MALICIOUS_MODIFICATION :: u32 where "MALICIOUS_MODIFICATION = 1"
definition INCOMPLETE_WRITE :: u32 where "INCOMPLETE_WRITE = 2"

record FWHash =
  fwh_hash :: bytes
  fwh_version :: u32
  fwh_valid :: bool

record ResilientFW =
  rfw_active_fw_slot :: u8
  rfw_recovery_fw_slot :: u8
  rfw_golden_fw_slot :: u8
  rfw_active_hash :: FWHash
  rfw_recovery_hash :: FWHash
  rfw_golden_hash :: FWHash
  rfw_recovery_policy :: u8
  rfw_auto_recovery :: bool
  rfw_boot_attempts :: u8
  rfw_max_boot_attempts :: u8
  rfw_fw_locked :: bool
  rfw_last_corruption_type :: u32

record FWAuditLog =
  fal_entries :: "bytes list"
  fal_entry_count :: nat
  fal_event_counter :: u32

section \<open>Operations\<close>

definition resilient_fw_init :: ResilientFW where
  "resilient_fw_init =
     \<lparr>rfw_active_fw_slot = 0, rfw_recovery_fw_slot = RESILIENT_FW_GOLDEN_SLOT, rfw_golden_fw_slot = RESILIENT_FW_GOLDEN_SLOT,
      rfw_active_hash = \<lparr>fwh_hash = zeros RESILIENT_FW_HASH_SIZE, fwh_version = 1, fwh_valid = False\<rparr>,
      rfw_recovery_hash = \<lparr>fwh_hash = replicate RESILIENT_FW_HASH_SIZE 0xFF, fwh_version = 0, fwh_valid = True\<rparr>,
      rfw_golden_hash = \<lparr>fwh_hash = replicate RESILIENT_FW_HASH_SIZE 0xAA, fwh_version = 0, fwh_valid = True\<rparr>,
      rfw_recovery_policy = RESILIENT_POLICY_AUTO, rfw_auto_recovery = True, rfw_boot_attempts = 0, rfw_max_boot_attempts = 3,
      rfw_fw_locked = False, rfw_last_corruption_type = FW_BOOT_OK\<rparr>"

definition one_bit :: "u8 \<Rightarrow> bool" where
  "one_bit diff \<longleftrightarrow> diff AND (diff - 1) = 0 \<and> diff \<noteq> 0"

text \<open>The state, the type of corruption, and whether there is one.\<close>

definition resilient_fw_detect_corruption :: "ResilientFW \<Rightarrow> bytes option \<Rightarrow> ResilientFW \<times> u32 option \<times> bool" where
  "resilient_fw_detect_corruption fw actual =
     (case actual of None \<Rightarrow> (fw, None, False)
      | Some h \<Rightarrow>
          if \<not> fwh_valid (rfw_active_hash fw) then (fw\<lparr>rfw_last_corruption_type := INCOMPLETE_WRITE\<rparr>, Some INCOMPLETE_WRITE, True)
          else (case find (\<lambda>i. h ! i \<noteq> fwh_hash (rfw_active_hash fw) ! i) [0..<RESILIENT_FW_HASH_SIZE] of
                  None \<Rightarrow> (fw, Some FW_BOOT_OK, False)
                | Some i \<Rightarrow>
                    let t = (if one_bit (h ! i XOR fwh_hash (rfw_active_hash fw) ! i) then RANDOM_BIT_FLIP else MALICIOUS_MODIFICATION)
                    in (fw\<lparr>rfw_last_corruption_type := t\<rparr>, Some t, True)))"

definition resilient_fw_recover_to_golden :: "ResilientFW \<Rightarrow> ResilientFW \<times> bool" where
  "resilient_fw_recover_to_golden fw =
     (if \<not> fwh_valid (rfw_golden_hash fw) then (fw, False)
      else (fw\<lparr>rfw_active_fw_slot := rfw_golden_fw_slot fw,
               rfw_active_hash := \<lparr>fwh_hash = blit (fwh_hash (rfw_active_hash fw)) 0 (take RESILIENT_FW_HASH_SIZE (fwh_hash (rfw_golden_hash fw))),
                                  fwh_version = fwh_version (rfw_golden_hash fw), fwh_valid = True\<rparr>,
               rfw_last_corruption_type := FW_BOOT_RECOVERED\<rparr>, True))"

text \<open>An entry has 64 bytes, the last of which ends the text at the latest.\<close>

definition resilient_fw_audit_log :: "FWAuditLog \<Rightarrow> u32 \<Rightarrow> bytes option \<Rightarrow> FWAuditLog \<times> bool" where
  "resilient_fw_audit_log log event_id description =
     (case description of None \<Rightarrow> (log, False)
      | Some d \<Rightarrow>
          if fal_entry_count log \<ge> RESILIENT_FW_MAX_LOG_SIZE then (log, False)
          else let k = fal_entry_count log; copy_len = (if length d < 60 then length d else 59);
                   e = blit (blit (fal_entries log ! k) 0 (le32_list event_id)) 4 (take copy_len d)
               in (log\<lparr>fal_entries := (fal_entries log)[k := e[4 + copy_len := 0]], fal_entry_count := k + 1,
                       fal_event_counter := fal_event_counter log + 1\<rparr>, True))"

definition resilient_fw_verify_active :: "ResilientFW \<Rightarrow> bytes option \<Rightarrow> ResilientFW \<times> bool" where
  "resilient_fw_verify_active fw computed =
     (case computed of None \<Rightarrow> (fw, False)
      | Some h \<Rightarrow> (case resilient_fw_detect_corruption fw (Some h) of (fw1, t, corrupted) \<Rightarrow>
          if corrupted then (if rfw_auto_recovery fw1 then resilient_fw_recover_to_golden fw1 else (fw1, False))
          else (fw1, True)))"

definition resilient_fw_set_recovery_policy :: "ResilientFW \<Rightarrow> u8 \<Rightarrow> ResilientFW \<times> bool" where
  "resilient_fw_set_recovery_policy fw policy =
     (if rfw_fw_locked fw then (fw, False)
      else if policy \<noteq> RESILIENT_POLICY_AUTO \<and> policy \<noteq> RESILIENT_POLICY_MANUAL then (fw, False)
      else (fw\<lparr>rfw_recovery_policy := policy, rfw_auto_recovery := (policy = RESILIENT_POLICY_AUTO)\<rparr>, True))"

definition update_hash :: "FWHash \<Rightarrow> bytes \<Rightarrow> FWHash" where
  "update_hash h new = \<lparr>fwh_hash = blit (fwh_hash h) 0 (take RESILIENT_FW_HASH_SIZE new), fwh_version = fwh_version h + 1, fwh_valid = True\<rparr>"

definition resilient_fw_secure_update :: "ResilientFW \<Rightarrow> bytes option \<Rightarrow> bool \<Rightarrow> ResilientFW \<times> bool" where
  "resilient_fw_secure_update fw new_hash is_active =
     (case new_hash of None \<Rightarrow> (fw, False)
      | Some h \<Rightarrow>
          if rfw_fw_locked fw then (fw, False)
          else if is_active then (fw\<lparr>rfw_active_hash := update_hash (rfw_active_hash fw) h\<rparr>, True)
          else (fw\<lparr>rfw_recovery_hash := update_hash (rfw_recovery_hash fw) h\<rparr>, True))"

fun resilient_out :: "nat \<Rightarrow> u32 \<Rightarrow> bytes" where
  "resilient_out 0 hash = []"
| "resilient_out (Suc n) hash = (let h = hash * 1103515245 + 12345 in ucast (drop_bit 16 h) # resilient_out n h)"

definition resilient_mix :: "u8 \<Rightarrow> u32 \<Rightarrow> u32" where
  "resilient_mix b hash = (let h = hash XOR ucast b in h + (push_bit 6 h + drop_bit 2 h))"

definition resilient_fw_compute_hash :: "bytes \<Rightarrow> bytes" where
  "resilient_fw_compute_hash data = resilient_out RESILIENT_FW_HASH_SIZE (fold resilient_mix data 0x9E3779B9)"

definition resilient_fw_validate_golden :: "ResilientFW \<Rightarrow> bool" where
  "resilient_fw_validate_golden fw \<longleftrightarrow> fold (\<lambda>b s. s OR b) (take RESILIENT_FW_HASH_SIZE (fwh_hash (rfw_golden_hash fw))) 0 \<noteq> 0"

definition resilient_fw_get_boot_count :: "ResilientFW \<Rightarrow> u32" where
  "resilient_fw_get_boot_count fw = ucast (rfw_boot_attempts fw)"

definition resilient_fw_rollback_protection :: "ResilientFW \<Rightarrow> u32 \<Rightarrow> bool" where
  "resilient_fw_rollback_protection fw min_version =
     (if fwh_version (rfw_active_hash fw) < min_version then False
      else if fwh_version (rfw_recovery_hash fw) < min_version then False
      else if fwh_version (rfw_golden_hash fw) < min_version then False else True)"

section \<open>Verification\<close>

definition resilient_wf :: "ResilientFW \<Rightarrow> bool" where
  "resilient_wf fw \<longleftrightarrow> length (fwh_hash (rfw_active_hash fw)) = 32 \<and> length (fwh_hash (rfw_recovery_hash fw)) = 32
     \<and> rfw_golden_hash fw = rfw_golden_hash resilient_fw_init \<and> rfw_golden_fw_slot fw = RESILIENT_FW_GOLDEN_SLOT
     \<and> \<not> rfw_fw_locked fw \<and> rfw_boot_attempts fw = 0"

lemma find_difference:
  assumes "length h = n" and "length g = n"
  shows "find (\<lambda>i. h ! i \<noteq> g ! i) [0..<n] = None \<longleftrightarrow> h = g"
  using assms by (auto simp: find_None_iff list_eq_iff_nth_eq)

lemma detect_None:
  assumes "length h = 32" and "length (fwh_hash (rfw_active_hash fw)) = 32" and "fwh_valid (rfw_active_hash fw)"
  shows "snd (snd (resilient_fw_detect_corruption fw (Some h))) \<longleftrightarrow> h \<noteq> fwh_hash (rfw_active_hash fw)"
proof -
  let ?f = "find (\<lambda>i. h ! i \<noteq> fwh_hash (rfw_active_hash fw) ! i) [0..<RESILIENT_FW_HASH_SIZE]"
  have "snd (snd (resilient_fw_detect_corruption fw (Some h))) \<longleftrightarrow> ?f \<noteq> None"
    using assms(3) by (cases ?f) (simp_all add: resilient_fw_detect_corruption_def Let_def)
  moreover have "?f = None \<longleftrightarrow> h = fwh_hash (rfw_active_hash fw)"
    unfolding RESILIENT_FW_HASH_SIZE_def using assms(1,2) by (rule find_difference)
  ultimately show ?thesis by (simp only: not_not)
qed

lemma detect_state: "fst (resilient_fw_detect_corruption fw a) = fw \<or> (\<exists>t. fst (resilient_fw_detect_corruption fw a) = fw\<lparr>rfw_last_corruption_type := t\<rparr>)"
  by (auto simp: resilient_fw_detect_corruption_def Let_def split: option.split)

lemma detect_clean: "\<not> snd (snd (resilient_fw_detect_corruption fw (Some h))) \<Longrightarrow> fst (resilient_fw_detect_corruption fw (Some h)) = fw"
  by (cases "fwh_valid (rfw_active_hash fw)"; cases "find (\<lambda>i. h ! i \<noteq> fwh_hash (rfw_active_hash fw) ! i) [0..<RESILIENT_FW_HASH_SIZE]")
    (simp_all add: resilient_fw_detect_corruption_def Let_def)

text \<open>
  With automatic recovery an image is always accepted: it is the recorded one, or the golden one
  takes its place; the caller is not told which.
\<close>

lemma verify_active_auto:
  assumes "resilient_wf fw" and "rfw_auto_recovery fw" and "length h = 32"
  shows "\<exists>fw'. resilient_fw_verify_active fw (Some h) = (fw', True) \<and>
    (if fwh_valid (rfw_active_hash fw) \<and> h = fwh_hash (rfw_active_hash fw) then fw' = fw
     else rfw_active_fw_slot fw' = RESILIENT_FW_GOLDEN_SLOT \<and> rfw_active_hash fw' = rfw_golden_hash fw)"
proof -
  obtain fw1 t b where d: "resilient_fw_detect_corruption fw (Some h) = (fw1, t, b)" by (cases "resilient_fw_detect_corruption fw (Some h)")
  have l: "length (fwh_hash (rfw_active_hash fw)) = 32" using assms(1) by (simp add: resilient_wf_def)
  have b: "b \<longleftrightarrow> \<not> (fwh_valid (rfw_active_hash fw) \<and> h = fwh_hash (rfw_active_hash fw))"
  proof (cases "fwh_valid (rfw_active_hash fw)")
    case True
    then show ?thesis using detect_None [OF assms(3) l] d by simp
  next
    case False
    then show ?thesis using d by (auto simp: resilient_fw_detect_corruption_def)
  qed
  have f: "fw1 = fw \<or> (\<exists>t. fw1 = fw\<lparr>rfw_last_corruption_type := t\<rparr>)" using detect_state [of fw "Some h"] d by simp
  have g: "rfw_golden_hash fw = \<lparr>fwh_hash = replicate 32 0xAA, fwh_version = 0, fwh_valid = True\<rparr>" "rfw_golden_fw_slot fw = RESILIENT_FW_GOLDEN_SLOT"
    using assms(1) by (simp_all add: resilient_wf_def resilient_fw_init_def RESILIENT_FW_HASH_SIZE_def)
  show ?thesis
  proof (cases b)
    case True
    then show ?thesis using b d f g l assms(2)
      by (auto simp: resilient_fw_verify_active_def resilient_fw_recover_to_golden_def RESILIENT_FW_HASH_SIZE_def blit_def)
  next
    case False
    then have "fw1 = fw" using detect_clean [of fw h] d by simp
    then show ?thesis using False b d by (simp add: resilient_fw_verify_active_def)
  qed
qed

text \<open>Without it, exactly the recorded image is.\<close>

lemma verify_active_manual:
  assumes "resilient_wf fw" and "\<not> rfw_auto_recovery fw" and "length h = 32"
  shows "snd (resilient_fw_verify_active fw (Some h)) \<longleftrightarrow> fwh_valid (rfw_active_hash fw) \<and> h = fwh_hash (rfw_active_hash fw)"
proof -
  have l: "length (fwh_hash (rfw_active_hash fw)) = 32" using assms(1) by (simp add: resilient_wf_def)
  obtain fw1 t b where d: "resilient_fw_detect_corruption fw (Some h) = (fw1, t, b)" by (cases "resilient_fw_detect_corruption fw (Some h)")
  have a: "\<not> rfw_auto_recovery fw1" using detect_state [of fw "Some h"] d assms(2) by auto
  show ?thesis
  proof (cases "fwh_valid (rfw_active_hash fw)")
    case True
    then show ?thesis using detect_None [OF assms(3) l] d a by (simp add: resilient_fw_verify_active_def)
  next
    case False
    then show ?thesis using d a by (auto simp: resilient_fw_detect_corruption_def resilient_fw_verify_active_def)
  qed
qed

datatype resilient_op = Verify_active "bytes option" | Recover_golden | Set_policy u8 | Secure_update "bytes option" bool

definition resilient_op_wf :: "resilient_op \<Rightarrow> bool" where
  "resilient_op_wf x = (case x of Verify_active (Some h) \<Rightarrow> length h = 32 | Secure_update (Some h) a \<Rightarrow> length h = 32 | _ \<Rightarrow> True)"

definition resilient_step :: "resilient_op \<Rightarrow> ResilientFW \<Rightarrow> ResilientFW" where
  "resilient_step x fw = (case x of Verify_active h \<Rightarrow> fst (resilient_fw_verify_active fw h)
     | Recover_golden \<Rightarrow> fst (resilient_fw_recover_to_golden fw) | Set_policy p \<Rightarrow> fst (resilient_fw_set_recovery_policy fw p)
     | Secure_update h a \<Rightarrow> fst (resilient_fw_secure_update fw h a))"

lemma recover_wf: "resilient_wf fw \<Longrightarrow> resilient_wf (fst (resilient_fw_recover_to_golden fw))"
  by (auto simp: resilient_wf_def resilient_fw_recover_to_golden_def resilient_fw_init_def RESILIENT_FW_HASH_SIZE_def)

lemma resilient_step_wf:
  assumes "resilient_wf fw" and "resilient_op_wf x"
  shows "resilient_wf (resilient_step x fw)"
proof (cases x)
  case (Verify_active h)
  have "resilient_wf (fst (resilient_fw_detect_corruption fw h))"
    using detect_state [of fw h] assms(1) by (auto simp: resilient_wf_def)
  then show ?thesis using Verify_active assms(1) recover_wf
    by (auto simp: resilient_step_def resilient_fw_verify_active_def split: option.split prod.split)
next
  case (Secure_update h a)
  then show ?thesis using assms
    by (auto simp: resilient_step_def resilient_op_wf_def resilient_fw_secure_update_def update_hash_def resilient_wf_def
        RESILIENT_FW_HASH_SIZE_def split: option.splits)
next
  case (Set_policy p)
  then show ?thesis using assms(1) by (simp add: resilient_step_def resilient_fw_set_recovery_policy_def resilient_wf_def)
qed (use assms(1) recover_wf in \<open>auto simp: resilient_step_def\<close>)

lemma resilient_run_wf:
  assumes "\<forall>x \<in> set xs. resilient_op_wf x"
  shows "resilient_wf (fold resilient_step xs resilient_fw_init)"
  using assms
proof (induction xs rule: rev_induct)
  case Nil
  show ?case by (simp add: resilient_wf_def resilient_fw_init_def RESILIENT_FW_HASH_SIZE_def)
next
  case (snoc x xs)
  then show ?case using resilient_step_wf by simp
qed

text \<open>An update is what verification then expects.\<close>

lemma update_then_verify:
  assumes "resilient_wf fw" and "length h = 32" and "length h' = 32"
  shows "\<exists>fw1. resilient_fw_secure_update fw (Some h) True = (fw1, True)
    \<and> (snd (snd (resilient_fw_detect_corruption fw1 (Some h'))) \<longleftrightarrow> h' \<noteq> h)"
proof -
  let ?fw = "fw\<lparr>rfw_active_hash := update_hash (rfw_active_hash fw) h\<rparr>"
  have "fwh_hash (rfw_active_hash ?fw) = h" "fwh_valid (rfw_active_hash ?fw)"
    using assms(1,2) by (simp_all add: update_hash_def RESILIENT_FW_HASH_SIZE_def resilient_wf_def blit_def)
  then have "snd (snd (resilient_fw_detect_corruption ?fw (Some h'))) \<longleftrightarrow> h' \<noteq> h"
    using detect_None [OF assms(3), of ?fw] assms(2) by simp
  then show ?thesis using assms(1) by (intro exI [of _ ?fw]) (simp add: resilient_fw_secure_update_def resilient_wf_def)
qed

section \<open>Findings\<close>

text \<open>The kind of corruption is that of the first byte that differs, whatever follows.\<close>

lemma first_byte_decides:
  assumes "fwh_valid (rfw_active_hash fw)" and "i < 32" and "h ! i \<noteq> fwh_hash (rfw_active_hash fw) ! i"
    and "\<forall>j < i. h ! j = fwh_hash (rfw_active_hash fw) ! j" and "one_bit (h ! i XOR fwh_hash (rfw_active_hash fw) ! i)"
  shows "snd (resilient_fw_detect_corruption fw (Some h)) = (Some RANDOM_BIT_FLIP, True)"
proof -
  have "find (\<lambda>i. h ! i \<noteq> fwh_hash (rfw_active_hash fw) ! i) [0..<32] = Some i"
    unfolding find_Some_iff using assms(2-4) by (intro exI [of _ i]) (simp del: upt_rec_numeral)
  then show ?thesis using assms(1,5) by (simp add: resilient_fw_detect_corruption_def RESILIENT_FW_HASH_SIZE_def del: upt_rec_numeral)
qed

text \<open>The codes of the one field coincide: a flipped bit reads as a good boot, a recovery as an unfinished write.\<close>

lemma codes_coincide: "RANDOM_BIT_FLIP = FW_BOOT_OK" "INCOMPLETE_WRITE = FW_BOOT_RECOVERED"
  by (simp_all add: RANDOM_BIT_FLIP_def FW_BOOT_OK_def INCOMPLETE_WRITE_def FW_BOOT_RECOVERED_def)

text \<open>A recovery takes the version of the golden image, which every floor above 0 rejects.\<close>

lemma recovery_rolls_back:
  assumes "resilient_wf fw" and "0 < floor"
  shows "\<not> resilient_fw_rollback_protection fw floor"
  using assms by (simp add: resilient_fw_rollback_protection_def resilient_wf_def resilient_fw_init_def word_neq_0_conv)

section \<open>The audit log\<close>

lemma audit_log_entry:
  assumes "resilient_fw_audit_log log event_id (Some d) = (log', True)" and "length (fal_entries log) = 64"
    and "\<forall>e \<in> set (fal_entries log). length e = 64"
  shows "fal_entry_count log' = fal_entry_count log + 1 \<and> take 4 (fal_entries log' ! fal_entry_count log) = le32_list event_id
    \<and> sub_range (fal_entries log' ! fal_entry_count log) 4 (min (length d) 59) = take 59 d
    \<and> length (fal_entries log') = 64 \<and> (\<forall>e \<in> set (fal_entries log'). length e = 64)"
proof -
  define c where "c = (if length d < 60 then length d else 59)"
  define k where "k = fal_entry_count log"
  define e where "e = blit (blit (fal_entries log ! k) 0 (le32_list event_id)) 4 (take c d)"
  have k: "k < 64" using assms(1) by (auto simp: resilient_fw_audit_log_def RESILIENT_FW_MAX_LOG_SIZE_def k_def split: if_splits)
  then have l: "length (fal_entries log ! k) = 64" using assms(2,3) by simp
  have c: "c \<le> 59" "c \<le> length d" "min (length d) 59 = c" "take c d = take 59 d" by (auto simp: c_def min_def)
  have le: "length e = 64" using l c by (simp add: e_def)
  have log': "log' = log\<lparr>fal_entries := (fal_entries log)[k := e[4 + c := 0]], fal_entry_count := k + 1, fal_event_counter := fal_event_counter log + 1\<rparr>"
    using assms(1) by (auto simp: resilient_fw_audit_log_def Let_def e_def c_def k_def split: if_splits)
  have "take 4 e = le32_list event_id" using l c by (simp add: e_def blit_def)
  moreover have "sub_range e 4 c = take c d" using l c by (simp add: e_def)
  ultimately have "take 4 (e[4 + c := 0]) = le32_list event_id" "sub_range (e[4 + c := 0]) 4 c = take c d"
    by (simp_all add: sub_range_def drop_update_swap)
  then show ?thesis using k le c assms(2,3)
    by (auto simp: log' k_def [symmetric] dest!: subsetD [OF set_update_subset_insert])
qed

end
