(* ===== verification/Smm_Guard.thy ===== *)
theory Smm_Guard
  imports Prelude
begin

text \<open>
  System management mode (\<open>mini-firmware-security/src/smm_attacks.c\<close>) and the management
  controllers (\<open>bmc_me.c\<close>).  The functions that handlers point to are a parameter; a null pointer
  is 0.
\<close>

section \<open>System management mode\<close>

definition SMM_SMRAM_BASE :: u32 where "SMM_SMRAM_BASE = 0x30000"
definition SMM_SMRAM_SIZE :: u32 where "SMM_SMRAM_SIZE = 0x10000"
definition SMM_MAX_HANDLERS :: nat where "SMM_MAX_HANDLERS = 16"
definition SMM_COMM_BUFFER_SIZE :: nat where "SMM_COMM_BUFFER_SIZE = 4096"
definition SW_SMI_CODE_COMM_BUFFER :: u8 where "SW_SMI_CODE_COMM_BUFFER = 0xEF"

record SMMHandler =
  smh_smbase :: u32
  smh_entry_point :: u32
  smh_handlers :: "u64 list"
  smh_comm_buffer :: bytes
  smh_smrr_enabled :: bool
  smh_smrr_base :: u32
  smh_smrr_mask :: u32
  smh_d_lock :: bool
  smh_d_open :: bool

record SMMCall =
  smc_sw_smi_code :: u8
  smc_comm_buffer :: "bytes option"
  smc_handler_index :: u32

record SMMContext =
  smx_smm_core :: SMMHandler
  smx_in_smm :: bool

definition default_smi_handler :: "SMMContext \<Rightarrow> SMMCall \<Rightarrow> SMMContext" where
  "default_smi_handler ctx call = ctx"

definition smm_init :: SMMContext where
  "smm_init =
     \<lparr>smx_smm_core = \<lparr>smh_smbase = SMM_SMRAM_BASE, smh_entry_point = SMM_SMRAM_BASE + 0x8000, smh_handlers = replicate SMM_MAX_HANDLERS 0,
        smh_comm_buffer = zeros SMM_COMM_BUFFER_SIZE, smh_smrr_enabled = False, smh_smrr_base = 0, smh_smrr_mask = 0,
        smh_d_lock = False, smh_d_open = True\<rparr>, smx_in_smm = False\<rparr>"

definition smm_handler_register :: "SMMContext \<Rightarrow> u8 \<Rightarrow> u64 \<Rightarrow> SMMContext \<times> bool" where
  "smm_handler_register ctx idx handler =
     (if unat idx \<ge> SMM_MAX_HANDLERS then (ctx, False)
      else if smh_d_lock (smx_smm_core ctx) then (ctx, False)
      else (ctx\<lparr>smx_smm_core := (smx_smm_core ctx)\<lparr>smh_handlers := (smh_handlers (smx_smm_core ctx))[unat idx := handler]\<rparr>\<rparr>, True))"

definition put_comm_buffer :: "SMMContext \<Rightarrow> bytes \<Rightarrow> SMMContext" where
  "put_comm_buffer ctx b = ctx\<lparr>smx_smm_core := (smx_smm_core ctx)\<lparr>smh_comm_buffer := blit (smh_comm_buffer (smx_smm_core ctx)) 0 b\<rparr>\<rparr>"

definition smm_handler_invoke ::
  "(u64 \<Rightarrow> SMMContext \<Rightarrow> SMMCall \<Rightarrow> SMMContext) \<Rightarrow> SMMContext \<Rightarrow> SMMCall \<Rightarrow> SMMContext \<times> bool" where
  "smm_handler_invoke run_handler ctx call =
     (if unat (smc_handler_index call) \<ge> SMM_MAX_HANDLERS then (ctx, False)
      else let h = smh_handlers (smx_smm_core ctx) ! unat (smc_handler_index call) in
        if h = 0 then (ctx, False)
        else case smc_comm_buffer call of
          Some b \<Rightarrow>
            if length b > SMM_COMM_BUFFER_SIZE then (ctx, False)
            else ((run_handler h ((put_comm_buffer ctx b)\<lparr>smx_in_smm := True\<rparr>) call)\<lparr>smx_in_smm := False\<rparr>, True)
        | None \<Rightarrow> ((run_handler h (ctx\<lparr>smx_in_smm := True\<rparr>) call)\<lparr>smx_in_smm := False\<rparr>, True))"

definition smrr_limit :: "SMMContext \<Rightarrow> u32" where
  "smrr_limit ctx = smh_smrr_base (smx_smm_core ctx) + (NOT (smh_smrr_mask (smx_smm_core ctx)) + 1)"

definition smm_validate_smrr_access :: "SMMContext \<Rightarrow> u32 \<Rightarrow> bool" where
  "smm_validate_smrr_access ctx address =
     (if \<not> smh_smrr_enabled (smx_smm_core ctx) then True
      else if smh_smrr_base (smx_smm_core ctx) \<le> address \<and> address < smrr_limit ctx then True else False)"

text \<open>The attack copies its buffer to a fixed address that belongs to no object.\<close>

definition smm_attack_confused_deputy ::
  "(u64 \<Rightarrow> SMMContext \<Rightarrow> SMMCall \<Rightarrow> SMMContext) \<Rightarrow> SMMContext \<Rightarrow> u8 \<Rightarrow> u64 \<Rightarrow> bytes \<Rightarrow> (SMMContext \<times> bool) c_result" where
  "smm_attack_confused_deputy run_handler ctx idx addr b =
     (if addr = 0 then Returned (ctx, False)
      else if length b > SMM_COMM_BUFFER_SIZE then Returned (ctx, False)
      else if \<not> smm_validate_smrr_access ctx (ucast addr) then Returned (ctx, False)
      else if b \<noteq> [] then Undefined
      else Returned (smm_handler_invoke run_handler ctx
             \<lparr>smc_sw_smi_code = SW_SMI_CODE_COMM_BUFFER, smc_comm_buffer = Some b, smc_handler_index = ucast idx\<rparr>))"

definition in_smram :: "SMMContext \<Rightarrow> u32 \<Rightarrow> bool" where
  "in_smram ctx address \<longleftrightarrow> smh_smbase (smx_smm_core ctx) \<le> address \<and> address < smh_smbase (smx_smm_core ctx) + SMM_SMRAM_SIZE"

definition in_smrr :: "SMMContext \<Rightarrow> u32 \<Rightarrow> bool" where
  "in_smrr ctx address \<longleftrightarrow> smh_smrr_enabled (smx_smm_core ctx) \<and> smh_smrr_base (smx_smm_core ctx) \<le> address \<and> address < smrr_limit ctx"

definition smm_smm_callout_check :: "SMMContext \<Rightarrow> u32 \<Rightarrow> bool" where
  "smm_smm_callout_check ctx target = (if in_smram ctx target then True else if in_smrr ctx target then True else False)"

definition smm_ring3_to_ring2_attack :: "SMMContext \<Rightarrow> u32 \<Rightarrow> bool" where
  "smm_ring3_to_ring2_attack ctx addr =
     (if in_smram ctx addr \<and> smh_d_open (smx_smm_core ctx) \<and> \<not> smh_d_lock (smx_smm_core ctx) then True
      else if in_smrr ctx addr then True else False)"

definition smm_set_smrr :: "SMMContext \<Rightarrow> u32 \<Rightarrow> u32 \<Rightarrow> SMMContext \<times> bool" where
  "smm_set_smrr ctx base mask0 =
     (if \<not> smx_in_smm ctx then (ctx, False)
      else (ctx\<lparr>smx_smm_core := (smx_smm_core ctx)\<lparr>smh_smrr_enabled := True, smh_smrr_base := base, smh_smrr_mask := mask0\<rparr>\<rparr>, True))"

section \<open>Nothing locks\<close>

datatype smm_op = RegisterSmi u8 u64 | Invoke SMMCall | Set_smrr u32 u32

definition smm_step :: "(u64 \<Rightarrow> SMMContext \<Rightarrow> SMMCall \<Rightarrow> SMMContext) \<Rightarrow> smm_op \<Rightarrow> SMMContext \<Rightarrow> SMMContext" where
  "smm_step run_handler x ctx = (case x of RegisterSmi i h \<Rightarrow> fst (smm_handler_register ctx i h)
     | Invoke c \<Rightarrow> fst (smm_handler_invoke run_handler ctx c) | Set_smrr b m \<Rightarrow> fst (smm_set_smrr ctx b m))"

definition smm_open :: "SMMContext \<Rightarrow> bool" where
  "smm_open ctx \<longleftrightarrow> smh_d_open (smx_smm_core ctx) \<and> \<not> smh_d_lock (smx_smm_core ctx) \<and> smh_smbase (smx_smm_core ctx) = SMM_SMRAM_BASE
     \<and> length (smh_handlers (smx_smm_core ctx)) = SMM_MAX_HANDLERS"

text \<open>
  Handlers as the interface of the rest: they change neither the lock nor the place of SMRAM.  The
  code has no operation that would, so handlers built from its operations are of this kind.
\<close>

locale smi_handlers =
  fixes run_handler :: "u64 \<Rightarrow> SMMContext \<Rightarrow> SMMCall \<Rightarrow> SMMContext"
  assumes keeps_open: "smm_open ctx \<Longrightarrow> smm_open (run_handler h ctx call)"
begin

lemma step_open:
  assumes "smm_open ctx"
  shows "smm_open (smm_step run_handler x ctx)"
proof (cases x)
  case (Invoke c)
  have in_smm: "smm_open (ctx\<lparr>smx_in_smm := b\<rparr>) \<longleftrightarrow> smm_open ctx" for ctx b by (simp add: smm_open_def)
  have put: "smm_open (put_comm_buffer ctx b)" for b using assms by (simp add: smm_open_def put_comm_buffer_def)
  have "smm_open ((run_handler h (ctx1\<lparr>smx_in_smm := True\<rparr>) c)\<lparr>smx_in_smm := False\<rparr>)" if "smm_open ctx1" for h ctx1
    using keeps_open [of "ctx1\<lparr>smx_in_smm := True\<rparr>" h c] that by (simp add: in_smm)
  then show ?thesis using Invoke assms put by (auto simp: smm_step_def smm_handler_invoke_def Let_def split: option.split)
qed (use assms in \<open>auto simp: smm_step_def smm_open_def smm_handler_register_def smm_set_smrr_def\<close>)

lemma run_open: "smm_open (fold (smm_step run_handler) xs smm_init)"
proof (induction xs rule: rev_induct)
  case Nil
  show ?case by (simp add: smm_open_def smm_init_def)
next
  case (snoc x xs)
  then show ?case using step_open by simp
qed

lemma run_attackable:
  assumes "SMM_SMRAM_BASE \<le> addr" and "addr < SMM_SMRAM_BASE + SMM_SMRAM_SIZE" and "unat i < SMM_MAX_HANDLERS"
  shows "smm_ring3_to_ring2_attack (fold (smm_step run_handler) xs smm_init) addr
    \<and> snd (smm_handler_register (fold (smm_step run_handler) xs smm_init) i h)"
  using run_open [of xs] assms by (simp add: smm_open_def smm_ring3_to_ring2_attack_def smm_handler_register_def in_smram_def)

end

interpretation idle: smi_handlers "\<lambda>h. default_smi_handler"
  by unfold_locales (simp add: default_smi_handler_def)

text \<open>A handler that sets the SMRR, as only a handler can.\<close>

interpretation setter: smi_handlers "\<lambda>h ctx call. fst (smm_set_smrr ctx 0x30000 0xFFFF0000)"
  by unfold_locales (auto simp: smm_set_smrr_def smm_open_def)

lemma smram_never_locked:
  assumes "SMM_SMRAM_BASE \<le> addr" and "addr < SMM_SMRAM_BASE + SMM_SMRAM_SIZE"
  shows "smm_ring3_to_ring2_attack (fold (smm_step (\<lambda>h ctx call. fst (smm_set_smrr ctx 0x30000 0xFFFF0000))) xs smm_init) addr"
  using setter.run_attackable [OF assms, of 0 xs 0] by (simp add: SMM_MAX_HANDLERS_def)

text \<open>Enabling the SMRR lets the attack in: an address inside counts as reached.\<close>

lemma smrr_opens:
  assumes "in_smrr ctx addr"
  shows "smm_ring3_to_ring2_attack ctx addr \<and> smm_validate_smrr_access ctx addr \<and> smm_smm_callout_check ctx addr"
  using assms by (simp add: smm_ring3_to_ring2_attack_def smm_validate_smrr_access_def smm_smm_callout_check_def in_smrr_def)

lemma smrr_limit_eq: "smrr_limit ctx = smh_smrr_base (smx_smm_core ctx) - smh_smrr_mask (smx_smm_core ctx)"
  by (simp add: smrr_limit_def not_eq_complement)

lemma smrr_outside: "smx_in_smm ctx = False \<Longrightarrow> smm_set_smrr ctx b m = (ctx, False)"
  by (simp add: smm_set_smrr_def)

text \<open>The buffer reaches the handler, and nothing longer than the communication buffer does.\<close>

lemma invoke_buffer:
  assumes "smm_handler_invoke run_handler ctx call = (ctx', True)" and "smc_comm_buffer call = Some b"
    and "length (smh_comm_buffer (smx_smm_core ctx)) = SMM_COMM_BUFFER_SIZE"
  obtains h ctx1 where "h \<noteq> 0" "ctx' = (run_handler h ctx1 call)\<lparr>smx_in_smm := False\<rparr>" "smx_in_smm ctx1"
    "take (length b) (smh_comm_buffer (smx_smm_core ctx1)) = b" "length (smh_comm_buffer (smx_smm_core ctx1)) = SMM_COMM_BUFFER_SIZE"
proof (rule that [of "smh_handlers (smx_smm_core ctx) ! unat (smc_handler_index call)" "(put_comm_buffer ctx b)\<lparr>smx_in_smm := True\<rparr>"])
qed (use assms in \<open>auto simp: smm_handler_invoke_def put_comm_buffer_def Let_def split: if_splits\<close>)

end
