(* ===== verification/Bmc_Me.thy ===== *)
theory Bmc_Me
  imports Prelude
begin

text \<open>
  The management controllers (\<open>mini-firmware-security/src/bmc_me.c\<close>): the BMC with its IPMI
  commands, the management engine, and the platform security processor.
\<close>

section \<open>BMC\<close>

definition BMC_IPMI_MAX_CMD_LEN :: nat where "BMC_IPMI_MAX_CMD_LEN = 256"
definition BMC_IPMI_NETFN_APP :: u8 where "BMC_IPMI_NETFN_APP = 6"
definition BMC_IPMI_NETFN_TRANSPORT :: u8 where "BMC_IPMI_NETFN_TRANSPORT = 12"
definition BMC_IPMI_CMD_GET_DEVICE_ID :: u8 where "BMC_IPMI_CMD_GET_DEVICE_ID = 1"
definition BMC_IPMI_CMD_COLD_RESET :: u8 where "BMC_IPMI_CMD_COLD_RESET = 2"
definition BMC_IPMI_CMD_ACTIVATE_SOL :: u8 where "BMC_IPMI_CMD_ACTIVATE_SOL = 32"
definition BMC_STATUS_NORMAL :: u8 where "BMC_STATUS_NORMAL = 0"
definition BMC_STATUS_BUSY :: u8 where "BMC_STATUS_BUSY = 1"
definition BMC_STATUS_ERROR :: u8 where "BMC_STATUS_ERROR = 2"

record BMCController =
  bmc_ipmi_interface :: bool
  bmc_kcs_data_port :: u16
  bmc_kcs_cmd_port :: u16
  bmc_kcs_status_port :: u16
  bmc_sol_enabled :: bool
  bmc_sol_port :: u16
  bmc_vmedia_mounted :: bool
  bmc_vmedia_encrypted :: bool
  bmc_last_status :: u8

definition bmc_init :: BMCController where
  "bmc_init = \<lparr>bmc_ipmi_interface = True, bmc_kcs_data_port = 0xCA2, bmc_kcs_cmd_port = 0xCA3, bmc_kcs_status_port = 0xCA4,
     bmc_sol_enabled = False, bmc_sol_port = 623, bmc_vmedia_mounted = False, bmc_vmedia_encrypted = False,
     bmc_last_status = BMC_STATUS_NORMAL\<rparr>"

text \<open>The response bytes written, none when the command is refused.\<close>

definition bmc_ipmi_command :: "BMCController \<Rightarrow> u8 \<Rightarrow> u8 \<Rightarrow> bytes \<Rightarrow> BMCController \<times> bytes option \<times> bool" where
  "bmc_ipmi_command bmc netfn command data =
     (if length data > BMC_IPMI_MAX_CMD_LEN then (bmc, None, False)
      else if bmc_last_status bmc = BMC_STATUS_ERROR then (bmc, None, False)
      else if netfn = BMC_IPMI_NETFN_APP \<and> command = BMC_IPMI_CMD_GET_DEVICE_ID then
        (bmc\<lparr>bmc_last_status := BMC_STATUS_NORMAL\<rparr>, Some [0x20, 1, 0x51, 0, 1], True)
      else if netfn = BMC_IPMI_NETFN_APP \<and> command = BMC_IPMI_CMD_COLD_RESET then
        (bmc\<lparr>bmc_last_status := BMC_STATUS_NORMAL\<rparr>, Some [0], True)
      else if netfn = BMC_IPMI_NETFN_TRANSPORT \<and> command = BMC_IPMI_CMD_ACTIVATE_SOL then
        ((if length data > 0 then bmc\<lparr>bmc_sol_enabled := (data ! 0 = 1)\<rparr> else bmc)\<lparr>bmc_last_status := BMC_STATUS_NORMAL\<rparr>, Some [0], True)
      else (bmc\<lparr>bmc_last_status := BMC_STATUS_ERROR\<rparr>, Some [0xC1], False))"

definition bmc_sol_redirect :: "BMCController \<Rightarrow> bool \<Rightarrow> BMCController \<times> bool" where
  "bmc_sol_redirect bmc enable = (bmc\<lparr>bmc_sol_enabled := enable\<rparr>, True)"

definition bmc_vmedia_mount :: "BMCController \<Rightarrow> bool \<Rightarrow> BMCController \<times> bool" where
  "bmc_vmedia_mount bmc encrypted =
     (if bmc_vmedia_mounted bmc then (bmc, False) else (bmc\<lparr>bmc_vmedia_mounted := True, bmc_vmedia_encrypted := encrypted\<rparr>, True))"

definition bmc_vmedia_unmount :: "BMCController \<Rightarrow> BMCController \<times> bool" where
  "bmc_vmedia_unmount bmc =
     (if \<not> bmc_vmedia_mounted bmc then (bmc, False) else (bmc\<lparr>bmc_vmedia_mounted := False, bmc_vmedia_encrypted := False\<rparr>, True))"

definition bmc_check_health :: "BMCController \<Rightarrow> bool" where
  "bmc_check_health bmc \<longleftrightarrow> bmc_last_status bmc = BMC_STATUS_NORMAL"

datatype bmc_op = Ipmi u8 u8 bytes | Sol_redirect bool | Vmedia_mount bool | Vmedia_unmount

definition bmc_step :: "bmc_op \<Rightarrow> BMCController \<Rightarrow> BMCController" where
  "bmc_step x bmc = (case x of Ipmi n c d \<Rightarrow> fst (bmc_ipmi_command bmc n c d) | Sol_redirect b \<Rightarrow> fst (bmc_sol_redirect bmc b)
     | Vmedia_mount e \<Rightarrow> fst (bmc_vmedia_mount bmc e) | Vmedia_unmount \<Rightarrow> fst (bmc_vmedia_unmount bmc))"

text \<open>The controller is never seen busy, and once in error stays there: not even a cold reset is accepted.\<close>

lemma bmc_run_status:
  "bmc_last_status (fold bmc_step xs bmc_init) \<in> {BMC_STATUS_NORMAL, BMC_STATUS_ERROR}
    \<and> (bmc_vmedia_encrypted (fold bmc_step xs bmc_init) \<longrightarrow> bmc_vmedia_mounted (fold bmc_step xs bmc_init))"
proof (induction xs rule: rev_induct)
  case Nil
  show ?case by (simp add: bmc_init_def)
next
  case (snoc x xs)
  then show ?case
    by (cases x) (auto simp: bmc_step_def bmc_ipmi_command_def bmc_sol_redirect_def bmc_vmedia_mount_def bmc_vmedia_unmount_def)
qed

lemma bmc_error_sticks:
  "bmc_last_status bmc = BMC_STATUS_ERROR \<Longrightarrow> bmc_last_status (fold bmc_step xs bmc) = BMC_STATUS_ERROR
    \<and> \<not> bmc_check_health (fold bmc_step xs bmc) \<and> snd (bmc_ipmi_command (fold bmc_step xs bmc) n c d) = (None, False)"
proof (induction xs arbitrary: bmc)
  case Nil
  then show ?case by (simp add: bmc_ipmi_command_def bmc_check_health_def BMC_STATUS_ERROR_def BMC_STATUS_NORMAL_def)
next
  case (Cons x xs)
  have "bmc_last_status (bmc_step x bmc) = BMC_STATUS_ERROR" using Cons.prems
    by (cases x) (simp_all add: bmc_step_def bmc_ipmi_command_def bmc_sol_redirect_def bmc_vmedia_mount_def bmc_vmedia_unmount_def)
  then show ?case using Cons.IH by simp
qed

section \<open>Management engine\<close>

definition ME_HFS_BIOS_BOOT_DONE :: u32 where "ME_HFS_BIOS_BOOT_DONE = 1"
definition ME_HFS_ERROR :: u32 where "ME_HFS_ERROR = 4"
definition ME_HFS_FW_INIT_COMPLETE :: u32 where "ME_HFS_FW_INIT_COMPLETE = 8"
definition ME_HFS_MFG_MODE :: u32 where "ME_HFS_MFG_MODE = 16"
definition ME_HFS_ALT_DISABLED :: u32 where "ME_HFS_ALT_DISABLED = 128"

record IntelME =
  me_firmware_version :: u16
  me_hfs :: u32
  me_manufacturing_mode :: bool
  me_alt_disable :: bool
  me_jtag_disable :: bool
  me_fw_init_complete :: bool
  me_error_code :: u8

definition me_init :: IntelME where
  "me_init = \<lparr>me_firmware_version = 0x0C00, me_hfs = ME_HFS_FW_INIT_COMPLETE OR ME_HFS_BIOS_BOOT_DONE, me_manufacturing_mode = False,
     me_alt_disable = False, me_jtag_disable = False, me_fw_init_complete = True, me_error_code = 0\<rparr>"

definition me_check_manufacturing_mode :: "IntelME \<Rightarrow> bool" where
  "me_check_manufacturing_mode me \<longleftrightarrow> me_hfs me AND ME_HFS_MFG_MODE \<noteq> 0"

definition me_lock_jtag :: "IntelME \<Rightarrow> IntelME \<times> bool" where
  "me_lock_jtag me = (if me_manufacturing_mode me then (me, False) else (me\<lparr>me_jtag_disable := True\<rparr>, True))"

definition me_hap_disable :: "IntelME \<Rightarrow> IntelME \<times> bool" where
  "me_hap_disable me = (me\<lparr>me_alt_disable := True, me_hfs := me_hfs me OR ME_HFS_ALT_DISABLED\<rparr>, True)"

definition me_mix :: "u8 \<Rightarrow> u32 \<Rightarrow> u32" where
  "me_mix b hash = (let h = hash XOR ucast b in h + (push_bit 6 h + drop_bit 2 h))"

fun me_out :: "nat \<Rightarrow> u32 \<Rightarrow> bytes" where
  "me_out 0 hash = []"
| "me_out (Suc n) hash = (let h = hash * 1103515245 + 12345 in ucast (drop_bit 16 h) # me_out n h)"

definition me_hash :: "IntelME \<Rightarrow> bytes" where
  "me_hash me =
     (let fv = [ucast (me_firmware_version me), ucast (drop_bit 8 (me_firmware_version me)), ucast (me_hfs me), ucast (drop_bit 8 (me_hfs me))];
          h1 = fold me_mix fv 0x9E3779B9;
          h2 = h1 XOR (me_hfs me AND 0xFFFF)
      in me_out 32 (h2 + (push_bit 5 h2 + drop_bit 3 h2)))"

definition me_verify_firmware :: "IntelME \<Rightarrow> bytes option \<Rightarrow> bool" where
  "me_verify_firmware me expected =
     (case expected of None \<Rightarrow> False
      | Some h \<Rightarrow> if \<not> me_fw_init_complete me then False else list_all (\<lambda>i. me_hash me ! i = h ! i) [0..<32])"

definition me_detect_supply_chain_risk :: "IntelME \<Rightarrow> bool" where
  "me_detect_supply_chain_risk me =
     (if me_check_manufacturing_mode me then True else if \<not> me_jtag_disable me then True
      else if \<not> me_alt_disable me then True else if \<not> me_fw_init_complete me then True else False)"

definition me_secure_boot_check :: "IntelME \<Rightarrow> bool" where
  "me_secure_boot_check me = (if me_check_manufacturing_mode me then False else if me_hfs me AND ME_HFS_ERROR \<noteq> 0 then False else True)"

lemma length_me_hash [simp]: "length (me_hash me) = 32"
proof -
  have "length (me_out n h) = n" for n h by (induction n arbitrary: h) (simp_all add: Let_def)
  then show ?thesis by (simp add: me_hash_def Let_def)
qed

lemma me_verify_iff:
  "length h = 32 \<Longrightarrow> me_verify_firmware me (Some h) \<longleftrightarrow> me_fw_init_complete me \<and> h = me_hash me"
  by (auto simp: me_verify_firmware_def list_all_iff list_eq_iff_nth_eq simp del: upt_rec_numeral)

text \<open>
  The hash is one of the version and the low half of the status: firmware that differs in anything
  else verifies, and a risk is no reason not to.
\<close>

lemma me_hash_cong:
  "me_firmware_version a = me_firmware_version b \<Longrightarrow> me_hfs a AND 0xFFFF = me_hfs b AND 0xFFFF \<Longrightarrow> me_hash a = me_hash b"
proof -
  assume v: "me_firmware_version a = me_firmware_version b" and h: "me_hfs a AND 0xFFFF = me_hfs b AND 0xFFFF"
  have m: "(0xFFFF :: u32) = mask 16" by (simp add: mask_eq_exp_minus_1)
  have b: "bit (me_hfs a) n = bit (me_hfs b) n" if "n < 16" for n
    using arg_cong [OF h, of "\<lambda>w. bit w n"] that by (simp add: m bit_simps)
  have "(ucast (me_hfs a) :: u8) = ucast (me_hfs b)" "(ucast (drop_bit 8 (me_hfs a)) :: u8) = ucast (drop_bit 8 (me_hfs b))"
    using b by (auto intro!: bit_word_eqI simp: bit_simps)
  then show ?thesis using v h by (simp add: me_hash_def Let_def)
qed

lemma me_risk_cleared:
  assumes "\<not> me_detect_supply_chain_risk (fst (me_hap_disable (fst (me_lock_jtag me))))"
  shows "\<not> me_check_manufacturing_mode me \<and> me_fw_init_complete me"
proof -
  have "(w OR 128) AND 16 = w AND (16 :: u32)" for w
    by (simp add: bit.conj_disj_distrib2)
  then show ?thesis using assms
    by (auto simp: me_detect_supply_chain_risk_def me_hap_disable_def me_lock_jtag_def me_check_manufacturing_mode_def
        ME_HFS_ALT_DISABLED_def ME_HFS_MFG_MODE_def split: if_splits)
qed

text \<open>Manufacturing mode is kept twice: the lock asks the field, the checks ask the status.\<close>

lemma manufacturing_disagree:
  "me_manufacturing_mode me \<Longrightarrow> \<not> me_check_manufacturing_mode me \<Longrightarrow> me_hfs me AND ME_HFS_ERROR = 0 \<Longrightarrow>
    snd (me_lock_jtag me) = False \<and> me_secure_boot_check me"
  by (simp add: me_lock_jtag_def me_secure_boot_check_def)

section \<open>Platform security processor\<close>

record PSP =
  psp_firmware_version :: u16
  psp_security_state :: u32
  psp_jtag_disabled :: bool
  psp_manufacturing_mode :: bool
  psp_secure_boot_enabled :: bool

definition psp_init :: PSP where
  "psp_init = \<lparr>psp_firmware_version = 0x0103, psp_security_state = 3, psp_jtag_disabled = True, psp_manufacturing_mode = False,
     psp_secure_boot_enabled = True\<rparr>"

definition psp_disable_jtag :: "PSP \<Rightarrow> PSP \<times> bool" where
  "psp_disable_jtag psp = (if psp_manufacturing_mode psp then (psp, False) else (psp\<lparr>psp_jtag_disabled := True\<rparr>, True))"

definition psp_exit_manufacturing_mode :: "PSP \<Rightarrow> PSP \<times> bool" where
  "psp_exit_manufacturing_mode psp =
     (if \<not> psp_manufacturing_mode psp then (psp, True)
      else (psp\<lparr>psp_manufacturing_mode := False, psp_security_state := psp_security_state psp AND NOT 2, psp_jtag_disabled := True\<rparr>, True))"

definition psp_check_security :: "PSP \<Rightarrow> bool" where
  "psp_check_security psp =
     (if psp_manufacturing_mode psp then False else if \<not> psp_jtag_disabled psp then False
      else if \<not> psp_secure_boot_enabled psp then False else True)"

lemma psp_leave_manufacturing:
  "psp_check_security (fst (psp_disable_jtag (fst (psp_exit_manufacturing_mode psp)))) \<longleftrightarrow> psp_secure_boot_enabled psp"
  by (simp add: psp_check_security_def psp_disable_jtag_def psp_exit_manufacturing_mode_def)

end
