(* ===== verification/Fs_Sha.thy ===== *)
theory Fs_Sha
  imports Boot_Sha256
begin

text \<open>
  The hash functions of \<open>mini-firmware-security/src/secure_boot.c\<close>, SHA-256 and SHA-384.  They
  store the length of the message in little-endian order, where FIPS 180-4 has it big-endian: the
  facts say which function of the message that is, and when the padding is that of SHA-256.
\<close>

section \<open>SHA-256\<close>

definition fs_rotr32 :: "u32 \<Rightarrow> nat \<Rightarrow> u32" where
  "fs_rotr32 x n = drop_bit n x OR push_bit (32 - n) x"

record SHA256Context =
  fsc_state :: "u32 list"
  fsc_bit_count :: u64
  fsc_buffer :: bytes
  fsc_buffer_index :: nat

definition fs_sha256_init :: SHA256Context where
  "fs_sha256_init =
     \<lparr>fsc_state = [0x6a09e667, 0xbb67ae85, 0x3c6ef372, 0xa54ff53a, 0x510e527f, 0x9b05688c, 0x1f83d9ab, 0x5be0cd19],
      fsc_bit_count = 0, fsc_buffer = zeros 64, fsc_buffer_index = 0\<rparr>"

definition fs_sha256_load :: "bytes \<Rightarrow> u32 list" where
  "fs_sha256_load blk = map (\<lambda>i. be32 (blk ! (i * 4)) (blk ! (i * 4 + 1)) (blk ! (i * 4 + 2)) (blk ! (i * 4 + 3))) [0..<16]"

definition fs_sha256_extend :: "nat \<Rightarrow> u32 list \<Rightarrow> u32 list" where
  "fs_sha256_extend i w =
     (let s0 = fs_rotr32 (w ! (i - 15)) 7 XOR fs_rotr32 (w ! (i - 15)) 18 XOR drop_bit 3 (w ! (i - 15));
          s1 = fs_rotr32 (w ! (i - 2)) 17 XOR fs_rotr32 (w ! (i - 2)) 19 XOR drop_bit 10 (w ! (i - 2))
      in w @ [w ! (i - 16) + s0 + w ! (i - 7) + s1])"

fun fs_sha256_round :: "u32 list \<Rightarrow> nat \<Rightarrow> sha_vars \<Rightarrow> sha_vars" where
  "fs_sha256_round w i (a, b, c, d, e, f, g, h) =
     (let S1 = fs_rotr32 e 6 XOR fs_rotr32 e 11 XOR fs_rotr32 e 25;
          chv = (e AND f) XOR (NOT e AND g);
          t1 = h + S1 + chv + sha256_k ! i + w ! i;
          S0 = fs_rotr32 a 2 XOR fs_rotr32 a 13 XOR fs_rotr32 a 22;
          majv = (a AND b) XOR (a AND c) XOR (b AND c);
          t2 = S0 + majv
      in (t1 + t2, a, b, c, d + t1, e, f, g))"

definition fs_sha256_transform :: "SHA256Context \<Rightarrow> SHA256Context" where
  "fs_sha256_transform ctx =
     (let st = fsc_state ctx; w = fold fs_sha256_extend [16..<64] (fs_sha256_load (fsc_buffer ctx));
          (a, b, c, d, e, f, g, h) = fold (fs_sha256_round w) [0..<64]
            (st ! 0, st ! 1, st ! 2, st ! 3, st ! 4, st ! 5, st ! 6, st ! 7)
      in ctx\<lparr>fsc_state := [st ! 0 + a, st ! 1 + b, st ! 2 + c, st ! 3 + d, st ! 4 + e, st ! 5 + f, st ! 6 + g, st ! 7 + h]\<rparr>)"

definition fs_sha256_byte :: "u8 \<Rightarrow> SHA256Context \<Rightarrow> SHA256Context" where
  "fs_sha256_byte b ctx =
     (let ctx1 = ctx\<lparr>fsc_buffer := (fsc_buffer ctx)[fsc_buffer_index ctx := b], fsc_buffer_index := fsc_buffer_index ctx + 1,
                     fsc_bit_count := fsc_bit_count ctx + 8\<rparr>
      in if fsc_buffer_index ctx1 = 64 then (fs_sha256_transform ctx1)\<lparr>fsc_buffer_index := 0\<rparr> else ctx1)"

definition fs_sha256_update :: "SHA256Context \<Rightarrow> bytes \<Rightarrow> SHA256Context" where
  "fs_sha256_update ctx data = fold fs_sha256_byte data ctx"

definition fs_sha256_final :: "SHA256Context \<Rightarrow> bytes" where
  "fs_sha256_final ctx =
     (let total_bits = fsc_bit_count ctx; idx = fsc_buffer_index ctx;
          ctx1 = ctx\<lparr>fsc_buffer := (fsc_buffer ctx)[idx := 0x80]\<rparr>; idx1 = idx + 1;
          (ctx2, idx2) =
            (if idx1 > 56
             then (fs_sha256_transform (ctx1\<lparr>fsc_buffer := blit (fsc_buffer ctx1) idx1 (zeros (64 - idx1))\<rparr>), 0)
             else (ctx1, idx1));
          ctx3 = ctx2\<lparr>fsc_buffer := blit (fsc_buffer ctx2) idx2 (zeros (56 - idx2))\<rparr>;
          ctx4 = ctx3\<lparr>fsc_buffer := blit (fsc_buffer ctx3) 56 (le64_list total_bits)\<rparr>
      in sha256_serialize (fsc_state (fs_sha256_transform ctx4)))"

definition fs_sha256_hash :: "bytes \<Rightarrow> bytes" where
  "fs_sha256_hash data = fs_sha256_final (fs_sha256_update fs_sha256_init data)"

section \<open>Which function it is\<close>

lemma fs_rotr32_eq: "fs_rotr32 x n = rot_right x n"
  by (simp add: fs_rotr32_def rot_right_def)

lemma fs_sha256_extend_eq: "fs_sha256_extend = sha256_extend_step"
  by (intro ext) (simp add: fs_sha256_extend_def sha256_extend_step_def fs_rotr32_eq sig0_def sig1_def Let_def algebra_simps)

lemma fs_sha256_round_eq: "fs_sha256_round = sha256_round"
proof (intro ext)
  fix w t v
  show "fs_sha256_round w t v = sha256_round w t v"
    by (cases "(w, t, v)" rule: sha256_round.cases) (simp add: Let_def fs_rotr32_eq ep0_def ep1_def ch_def maj_def)
qed

lemma fs_sha256_transform_eq:
  "fs_sha256_transform ctx = ctx\<lparr>fsc_state := sha256_compress (fsc_state ctx) (fsc_buffer ctx)\<rparr>"
proof -
  have "fs_sha256_load blk = sha256_load blk" for blk by (simp add: fs_sha256_load_def sha256_load_def mult.commute)
  then show ?thesis
    by (simp add: fs_sha256_transform_def sha256_compress_def sha256_schedule_def fs_sha256_extend_eq fs_sha256_round_eq Let_def
        split: prod.split)
qed

definition fs_padding :: "nat \<Rightarrow> bytes" where
  "fs_padding len = 0x80 # zeros ((119 - len mod 64) mod 64) @ le64_list (of_nat (8 * len))"

definition fs_sha256_spec :: "bytes \<Rightarrow> bytes" where
  "fs_sha256_spec m = sha256_serialize (blocks_fold sha256_compress sha256_h0 (m @ fs_padding (length m)))"

definition fs_repr :: "SHA256Context \<Rightarrow> bytes \<Rightarrow> bool" where
  "fs_repr ctx m \<longleftrightarrow> length (fsc_buffer ctx) = 64 \<and> fsc_buffer_index ctx = length m mod 64
     \<and> fsc_bit_count ctx = of_nat (8 * length m) \<and> fsc_state ctx = blocks_fold sha256_compress sha256_h0 m
     \<and> take (length m mod 64) (fsc_buffer ctx) = block_tail m"

lemma fs_repr_init: "fs_repr fs_sha256_init []"
  by (simp add: fs_repr_def fs_sha256_init_def sha256_h0_def block_tail_def)

lemma fs_repr_byte:
  assumes "fs_repr ctx m"
  shows "fs_repr (fs_sha256_byte b ctx) (m @ [b])"
proof -
  let ?n = "length m mod 64" and ?d = "(fsc_buffer ctx)[length m mod 64 := b]"
  have r: "length (fsc_buffer ctx) = 64" "fsc_buffer_index ctx = ?n" "fsc_state ctx = blocks_fold sha256_compress sha256_h0 m"
    "fsc_bit_count ctx = of_nat (8 * length m)" and tl: "take ?n (fsc_buffer ctx) = block_tail m"
    using assms by (simp_all add: fs_repr_def)
  have tl1: "take (Suc ?n) ?d = block_tail m @ [b]" using r(1) tl by (simp add: take_Suc_conv_app_nth)
  have f: "blocks_fold sha256_compress sha256_h0 (m @ [b])
      = blocks_fold sha256_compress (blocks_fold sha256_compress sha256_h0 m) (block_tail m @ [b])" by (rule blocks_fold_tail)
  show ?thesis
  proof (cases "?n = 63")
    case True
    then have full: "?d = block_tail m @ [b]" using tl1 r(1) by simp
    have "length (block_tail m @ [b]) = 64" using True by simp
    then have "blocks_fold sha256_compress sha256_h0 (m @ [b]) = sha256_compress (blocks_fold sha256_compress sha256_h0 m) ?d"
      unfolding full f by (rule blocks_fold_one)
    then show ?thesis using True r
      by (simp add: fs_repr_def fs_sha256_byte_def fs_sha256_transform_eq Let_def block_tail_snoc mod_Suc algebra_simps)
  next
    case False
    then have "blocks_fold sha256_compress sha256_h0 (m @ [b]) = blocks_fold sha256_compress sha256_h0 m"
      unfolding f by simp
    then show ?thesis using False r tl1
      by (simp add: fs_repr_def fs_sha256_byte_def Let_def block_tail_snoc mod_Suc algebra_simps)
  qed
qed

lemma fs_repr_update: "fs_repr ctx m \<Longrightarrow> fs_repr (fs_sha256_update ctx d) (m @ d)"
proof (induction d arbitrary: ctx m)
  case (Cons b d)
  from Cons.IH [OF fs_repr_byte [OF Cons.prems, of b]] show ?case by (simp add: fs_sha256_update_def)
qed (simp add: fs_sha256_update_def)

lemma fs_final_correct:
  assumes "fs_repr ctx m"
  shows "fs_sha256_final ctx = fs_sha256_spec m"
proof -
  let ?n = "length m mod 64" and ?st = "blocks_fold sha256_compress sha256_h0 m" and ?len = "le64_list (of_nat (8 * length m))"
  have r: "length (fsc_buffer ctx) = 64" "fsc_buffer_index ctx = ?n" "fsc_state ctx = ?st" "fsc_bit_count ctx = of_nat (8 * length m)"
    and tl: "take ?n (fsc_buffer ctx) = block_tail m"
    using assms by (simp_all add: fs_repr_def)
  have n: "?n < 64" by simp
  have spec: "fs_sha256_spec m = sha256_serialize (blocks_fold sha256_compress ?st (block_tail m @ fs_padding (length m)))"
    unfolding fs_sha256_spec_def by (subst blocks_fold_tail) (rule refl)
  have put: "(fsc_buffer ctx)[?n := 0x80] = block_tail m @ 0x80 # drop (Suc ?n) (fsc_buffer ctx)"
    using r(1) n tl by (simp add: upd_conv_take_nth_drop)
  show ?thesis
  proof (cases "?n < 56")
    case True
    have z: "(119 - ?n) mod 64 = 55 - ?n" by (rule pad_zeros_short) (rule True)
    have buf: "blit (blit ((fsc_buffer ctx)[?n := 0x80]) (Suc ?n) (zeros (56 - Suc ?n))) 56 ?len
        = block_tail m @ 0x80 # zeros (55 - ?n) @ ?len" (is "_ = ?blk")
      unfolding put using True r(1) by (simp add: blit_def Suc_diff_le [of ?n 55, simplified])
    have "length ?blk = 64" using True by simp
    then have "blocks_fold sha256_compress ?st ?blk = sha256_compress ?st ?blk" by (rule blocks_fold_one)
    then show ?thesis unfolding spec using True r buf
      by (simp add: fs_sha256_final_def fs_sha256_transform_eq fs_padding_def Let_def z)
  next
    case False
    have z: "(119 - ?n) mod 64 = (63 - ?n) + 56" using False n by (intro pad_zeros_long) auto
    have buf1: "blit ((fsc_buffer ctx)[?n := 0x80]) (Suc ?n) (zeros (64 - Suc ?n)) = block_tail m @ 0x80 # zeros (63 - ?n)" (is "_ = ?b1")
      unfolding put using False r(1) n by (simp add: blit_def)
    have l1: "length ?b1 = 64" using n by simp
    have buf2: "blit (blit ?b1 0 (zeros 56)) 56 ?len = zeros 56 @ ?len" (is "_ = ?b2") using l1 by (simp add: blit_def)
    have l2: "length ?b2 = 64" by simp
    have "block_tail m @ fs_padding (length m) = ?b1 @ ?b2" using zeros_add [of "63 - ?n" 56] unfolding fs_padding_def z by simp
    then have "blocks_fold sha256_compress ?st (block_tail m @ fs_padding (length m)) = sha256_compress (sha256_compress ?st ?b1) ?b2"
      using blocks_fold_two [OF l1 l2] by simp
    then show ?thesis unfolding spec using False r buf1 buf2
      by (simp add: fs_sha256_final_def fs_sha256_transform_eq Let_def)
  qed
qed

lemma fs_sha256_hash_eq: "fs_sha256_hash m = fs_sha256_spec m"
  unfolding fs_sha256_hash_def using fs_final_correct [OF fs_repr_update [OF fs_repr_init]] by simp

lemma length_fs_sha256_hash [simp]: "length (fs_sha256_hash m) = 32"
  by (simp add: fs_sha256_hash_eq fs_sha256_spec_def sha256_h0_def)

lemma fs_repr_updates: "fs_repr c m \<Longrightarrow> fs_repr (fold (\<lambda>chunk c. fs_sha256_update c chunk) chunks c) (m @ concat chunks)"
proof (induction chunks arbitrary: c m)
  case (Cons d ds)
  show ?case using Cons.IH [OF fs_repr_update [OF Cons.prems]] by simp
qed simp

text \<open>It is SHA-256 where the length reads the same in both orders, as for the empty message.\<close>

lemma fs_sha256_palindrome:
  "le64_list (of_nat (8 * length m)) = be64_bytes (of_nat (8 * length m)) \<Longrightarrow> fs_sha256_hash m = sha256_hash m"
  by (simp add: fs_sha256_hash_eq sha256_hash_correct fs_sha256_spec_def sha256_spec_def fs_padding_def sha256_padding_def)

lemma fs_sha256_empty: "fs_sha256_hash [] = sha256_hash []"
  by (rule fs_sha256_palindrome) (simp add: le64_list_def le32_list_def be64_bytes_def)

lemma fs_padding_iff: "fs_padding n = sha256_padding n \<longleftrightarrow> le64_list (of_nat (8 * n)) = be64_bytes (of_nat (8 * n))"
  by (simp add: fs_padding_def sha256_padding_def)

lemma fs_padding_short:
  assumes "0 < n" and "n < 32"
  shows "fs_padding n \<noteq> sha256_padding n"
proof -
  define w where "w = (of_nat (8 * n) :: u64)"
  have w: "unat w = 8 * n" unfolding w_def using assms(2) by (subst unat_of_nat) simp
  have "unat (ucast w :: u8) = 8 * n" using w assms(2) by (simp add: unsigned_ucast_eq take_bit_eq_mod)
  then have "(ucast w :: u8) \<noteq> 0" using assms(1) by auto
  moreover have "drop_bit 56 w = 0" using w assms(2) by (simp add: word_unat_eq_iff unat_div drop_bit_eq_div)
  moreover have "(ucast (ucast w :: u32) :: u8) = ucast w" by (rule bit_word_eqI) (simp add: bit_simps)
  ultimately show ?thesis unfolding fs_padding_iff w_def [symmetric] by (simp add: le64_list_def le32_list_def be64_bytes_def)
qed

section \<open>SHA-384\<close>

definition fs_rotr64 :: "u64 \<Rightarrow> nat \<Rightarrow> u64" where
  "fs_rotr64 x n = drop_bit n x OR push_bit (64 - n) x"

text \<open>The round constants, in decimal.\<close>

definition sha384_k :: "u64 list" where
  "sha384_k = [
    4794697086780616226, 8158064640168781261, 13096744586834688815, 16840607885511220156,
    4131703408338449720, 6480981068601479193, 10538285296894168987, 12329834152419229976,
    15566598209576043074, 1334009975649890238, 2608012711638119052, 6128411473006802146,
    8268148722764581231, 9286055187155687089, 11230858885718282805, 13951009754708518548,
    16472876342353939154, 17275323862435702243, 1135362057144423861, 2597628984639134821,
    3308224258029322869, 5365058923640841347, 6679025012923562964, 8573033837759648693,
    10970295158949994411, 12119686244451234320, 12683024718118986047, 13788192230050041572,
    14330467153632333762, 15395433587784984357, 489312712824947311, 1452737877330783856,
    2861767655752347644, 3322285676063803686, 5560940570517711597, 5996557281743188959,
    7280758554555802590, 8532644243296465576, 9350256976987008742, 10552545826968843579,
    11727347734174303076, 12113106623233404929, 14000437183269869457, 14369950271660146224,
    15101387698204529176, 15463397548674623760, 17586052441742319658, 1182934255886127544,
    1847814050463011016, 2177327727835720531, 2830643537854262169, 3796741975233480872,
    4115178125766777443, 5681478168544905931, 6601373596472566643, 7507060721942968483,
    8399075790359081724, 8693463985226723168, 9568029438360202098, 10144078919501101548,
    10430055236837252648, 11840083180663258601, 13761210420658862357, 14299343276471374635,
    14566680578165727644, 15097957966210449927, 16922976911328602910, 17689382322260857208,
    500013540394364858, 748580250866718886, 1242879168328830382, 1977374033974150939,
    2944078676154940804, 3659926193048069267, 4368137639120453308, 4836135668995329356,
    5532061633213252278, 6448918945643986474, 6902733635092675308, 7801388544844847127]"

record SHA384Context =
  fsd_state :: "u64 list"
  fsd_bit_count_high :: u64
  fsd_bit_count_low :: u64
  fsd_buffer :: bytes
  fsd_buffer_index :: nat

type_synonym sha512_vars = "u64 \<times> u64 \<times> u64 \<times> u64 \<times> u64 \<times> u64 \<times> u64 \<times> u64"

definition sha384_init :: SHA384Context where
  "sha384_init =
     \<lparr>fsd_state = [14680500436340154072, 7105036623409894663, 10473403895298186519, 1526699215303891257, 7436329637833083697, 10282925794625328401, 15784041429090275239, 5167115440072839076],
      fsd_bit_count_high = 0, fsd_bit_count_low = 0, fsd_buffer = zeros 128, fsd_buffer_index = 0\<rparr>"

definition be64_word :: "bytes \<Rightarrow> nat \<Rightarrow> u64" where
  "be64_word blk i = push_bit 56 (ucast (blk ! i)) OR push_bit 48 (ucast (blk ! (i + 1))) OR push_bit 40 (ucast (blk ! (i + 2)))
     OR push_bit 32 (ucast (blk ! (i + 3))) OR push_bit 24 (ucast (blk ! (i + 4))) OR push_bit 16 (ucast (blk ! (i + 5)))
     OR push_bit 8 (ucast (blk ! (i + 6))) OR ucast (blk ! (i + 7))"

definition sha384_extend :: "nat \<Rightarrow> u64 list \<Rightarrow> u64 list" where
  "sha384_extend i w =
     (let s0 = fs_rotr64 (w ! (i - 15)) 1 XOR fs_rotr64 (w ! (i - 15)) 8 XOR drop_bit 7 (w ! (i - 15));
          s1 = fs_rotr64 (w ! (i - 2)) 19 XOR fs_rotr64 (w ! (i - 2)) 61 XOR drop_bit 6 (w ! (i - 2))
      in w @ [w ! (i - 16) + s0 + w ! (i - 7) + s1])"

fun sha384_round :: "u64 list \<Rightarrow> nat \<Rightarrow> sha512_vars \<Rightarrow> sha512_vars" where
  "sha384_round w i (a, b, c, d, e, f, g, h) =
     (let S1 = fs_rotr64 e 14 XOR fs_rotr64 e 18 XOR fs_rotr64 e 41;
          chv = (e AND f) XOR (NOT e AND g);
          t1 = h + S1 + chv + sha384_k ! i + w ! i;
          S0 = fs_rotr64 a 28 XOR fs_rotr64 a 34 XOR fs_rotr64 a 39;
          majv = (a AND b) XOR (a AND c) XOR (b AND c);
          t2 = S0 + majv
      in (t1 + t2, a, b, c, d + t1, e, f, g))"

definition sha384_transform :: "SHA384Context \<Rightarrow> SHA384Context" where
  "sha384_transform ctx =
     (let st = fsd_state ctx; w = fold sha384_extend [16..<80] (map (\<lambda>i. be64_word (fsd_buffer ctx) (i * 8)) [0..<16]);
          (a, b, c, d, e, f, g, h) = fold (sha384_round w) [0..<80]
            (st ! 0, st ! 1, st ! 2, st ! 3, st ! 4, st ! 5, st ! 6, st ! 7)
      in ctx\<lparr>fsd_state := [st ! 0 + a, st ! 1 + b, st ! 2 + c, st ! 3 + d, st ! 4 + e, st ! 5 + f, st ! 6 + g, st ! 7 + h]\<rparr>)"

definition sha384_byte :: "u8 \<Rightarrow> SHA384Context \<Rightarrow> SHA384Context" where
  "sha384_byte b ctx =
     (let low = fsd_bit_count_low ctx + 8;
          ctx1 = ctx\<lparr>fsd_buffer := (fsd_buffer ctx)[fsd_buffer_index ctx := b], fsd_buffer_index := fsd_buffer_index ctx + 1,
                     fsd_bit_count_low := low, fsd_bit_count_high := (if low < 8 then fsd_bit_count_high ctx + 1 else fsd_bit_count_high ctx)\<rparr>
      in if fsd_buffer_index ctx1 = 128 then (sha384_transform ctx1)\<lparr>fsd_buffer_index := 0\<rparr> else ctx1)"

definition sha384_update :: "SHA384Context \<Rightarrow> bytes \<Rightarrow> SHA384Context" where
  "sha384_update ctx data = fold sha384_byte data ctx"

definition sha384_final :: "SHA384Context \<Rightarrow> bytes" where
  "sha384_final ctx =
     (let idx = fsd_buffer_index ctx;
          ctx1 = ctx\<lparr>fsd_buffer := (fsd_buffer ctx)[idx := 0x80]\<rparr>; idx1 = idx + 1;
          (ctx2, idx2) =
            (if idx1 > 112
             then (sha384_transform (ctx1\<lparr>fsd_buffer := blit (fsd_buffer ctx1) idx1 (zeros (128 - idx1))\<rparr>), 0)
             else (ctx1, idx1));
          ctx3 = ctx2\<lparr>fsd_buffer := blit (fsd_buffer ctx2) idx2 (zeros (112 - idx2))\<rparr>;
          ctx4 = ctx3\<lparr>fsd_buffer := blit (fsd_buffer ctx3) 112
                    (le64_list (fsd_bit_count_low ctx) @ le64_list (fsd_bit_count_high ctx))\<rparr>
      in concat (map be64_bytes (take 6 (fsd_state (sha384_transform ctx4)))))"

lemma length_sha384_final: "length (sha384_final ctx) = 48"
proof -
  have "length (fsd_state (sha384_transform c)) = 8" for c by (simp add: sha384_transform_def Let_def split: prod.split)
  then show ?thesis by (simp add: sha384_final_def Let_def length_concat comp_def sum_list_triv split: prod.split)
qed

text \<open>The context counts every bit, 128 of them, and an update may be cut anywhere.\<close>

lemma sha384_update_append: "sha384_update ctx (a @ b) = sha384_update (sha384_update ctx a) b"
  by (simp add: sha384_update_def)

lemma sha384_bit_count:
  "unat (fsd_bit_count_low ctx) + 2 ^ 64 * unat (fsd_bit_count_high ctx) + 8 < 2 ^ 128 \<Longrightarrow>
    unat (fsd_bit_count_low (sha384_byte b ctx)) + 2 ^ 64 * unat (fsd_bit_count_high (sha384_byte b ctx))
      = unat (fsd_bit_count_low ctx) + 2 ^ 64 * unat (fsd_bit_count_high ctx) + 8"
proof -
  let ?l = "fsd_bit_count_low ctx" and ?h = "fsd_bit_count_high ctx"
  assume a: "unat ?l + 2 ^ 64 * unat ?h + 8 < 2 ^ 128"
  have c: "fsd_bit_count_low (sha384_byte b ctx) = ?l + 8" "fsd_bit_count_high (sha384_byte b ctx) = (if ?l + 8 < 8 then ?h + 1 else ?h)"
    by (simp_all add: sha384_byte_def sha384_transform_def Let_def split: prod.split)
  have l: "unat ?l < 2 ^ 64" using unsigned_less [of ?l, where ?'a = nat] by simp
  show ?thesis
  proof (cases "unat ?l + 8 < 2 ^ 64")
    case True
    then have "unat (?l + 8) = unat ?l + 8" by (simp add: unat_word_ariths)
    then show ?thesis using c by (simp add: word_less_nat_alt)
  next
    case False
    then have w: "unat (?l + 8) = unat ?l + 8 - 2 ^ 64" using l by (simp add: unat_word_ariths mod_if)
    then have "?l + 8 < 8" using l by (simp add: word_less_nat_alt)
    moreover have "unat ?h + 1 < 2 ^ 64" using a False by simp
    then have "unat (?h + 1) = unat ?h + 1" by (simp add: unat_word_ariths)
    ultimately show ?thesis using c w False by simp
  qed
qed

end
