(* ===== verification/Fs_Rsa.thy ===== *)
theory Fs_Rsa
  imports Fs_Sha
begin

text \<open>
  RSA in \<open>mini-firmware-security/src/secure_boot.c\<close>: the exponentiation over byte buffers, and the
  checks of PKCS 1 and PSS signatures.  Whether an allocation succeeds is a parameter, by its number.
  The exponentiation clears its base before it multiplies, so that it computes 0, and the checks
  accept nothing.
\<close>

section \<open>Exponentiation\<close>

text \<open>One product of the schoolbook multiplication: the carry, and the buffer it is added to.\<close>

definition mul_step :: "bytes \<Rightarrow> nat \<Rightarrow> nat \<Rightarrow> nat \<Rightarrow> bytes \<times> u32 \<Rightarrow> bytes \<times> u32" where
  "mul_step tr n i j = (\<lambda>(tb, carry).
     let prod0 = ucast (tr ! j) * ucast (tb ! (n + j)) + ucast (tb ! (i + j)) + carry
     in (tb[i + j := ucast (prod0 AND 0xFF)], drop_bit 8 prod0))"

definition fs_mul_row :: "bytes \<Rightarrow> nat \<Rightarrow> nat \<Rightarrow> bytes \<Rightarrow> bytes" where
  "fs_mul_row tr n i tb =
     (let (tb1, carry) = fold (mul_step tr n i) [0..<n] (tb, 0) in tb1[i + n := tb1 ! (i + n) + ucast carry])"

definition sq_step :: "bytes \<Rightarrow> nat \<Rightarrow> nat \<Rightarrow> bytes \<times> u32 \<Rightarrow> bytes \<times> u32" where
  "sq_step tr i j = (\<lambda>(sq, carry).
     let sum0 = ucast (tr ! j) * ucast (tr ! i) + ucast (sq ! (i + j)) + carry
     in (sq[i + j := ucast (sum0 AND 0xFF)], drop_bit 8 sum0))"

definition sq_row :: "bytes \<Rightarrow> nat \<Rightarrow> nat \<Rightarrow> bytes \<Rightarrow> bytes" where
  "sq_row tr n i sq =
     (let (sq1, carry) = fold (sq_step tr i) [0..<n] (sq, 0) in sq1[i + n := sq1 ! (i + n) + ucast carry])"

text \<open>\<open>memcmp(xs, ys, n) >= 0\<close>.\<close>

fun memcmp_ge :: "bytes \<Rightarrow> bytes \<Rightarrow> bool" where
  "memcmp_ge (x # xs) (y # ys) = (if x = y then memcmp_ge xs ys else x > y)"
| "memcmp_ge xs ys = True"

definition sub_step :: "bytes \<Rightarrow> nat \<Rightarrow> bytes \<times> int \<Rightarrow> bytes \<times> int" where
  "sub_step tm j = (\<lambda>(buf, borrow).
     let diff = int (unat (buf ! j)) - int (unat (tm ! j)) - borrow
     in if diff < 0 then (buf[j := word_of_int (diff + 256)], 1) else (buf[j := word_of_int diff], 0))"

definition reduce_step :: "bytes \<Rightarrow> nat \<Rightarrow> nat \<Rightarrow> bytes \<Rightarrow> bytes" where
  "reduce_step tm n i buf =
     (if buf ! i \<noteq> 0 \<or> memcmp_ge (take n buf) tm then fst (fold (sub_step tm) [0..<n] (buf, 0)) else buf)"

definition reduce_all :: "bytes \<Rightarrow> nat \<Rightarrow> bytes \<Rightarrow> bytes" where
  "reduce_all tm n buf = fold (reduce_step tm n) (rev [1..<2 * n + 1]) buf"

definition mul_mod :: "bytes \<Rightarrow> nat \<Rightarrow> bytes \<Rightarrow> bytes \<Rightarrow> bytes" where
  "mul_mod tm n tr tb = reduce_all tm n (fold (fs_mul_row tr n) [0..<n] tb)"

definition square_mod :: "bytes \<Rightarrow> nat \<Rightarrow> bytes \<Rightarrow> bytes" where
  "square_mod tm n tr = take n (reduce_all tm n (fold (sq_row tr n) [0..<n] (zeros (2 * n + 1))))"

text \<open>The loop over the exponent, with the number of the next allocation.\<close>

function modexp_loop :: "(nat \<Rightarrow> bool) \<Rightarrow> nat \<Rightarrow> bytes \<Rightarrow> nat \<Rightarrow> nat \<Rightarrow> bytes \<Rightarrow> bytes \<Rightarrow> bytes option" where
  "modexp_loop heap k tm n e tb tr =
     (if e = 0 then Some tr
      else let (tb1, tr1) = (if odd e then (let b = mul_mod tm n tr (zeros (2 * n + 1)) in (b, blit tr 0 (take n b))) else (tb, tr))
           in if \<not> heap k then None
              else modexp_loop heap (k + 1) tm n (e div 2) tb1 (blit tr1 0 (square_mod tm n tr1)))"
  by pat_completeness auto
termination
  by (relation "measure (\<lambda>(heap, k, tm, n, e, tb, tr). e)") auto

declare modexp_loop.simps [simp del]

definition bigint_modexp :: "(nat \<Rightarrow> bool) \<Rightarrow> bytes \<Rightarrow> u32 \<Rightarrow> bytes \<Rightarrow> nat \<Rightarrow> bytes option" where
  "bigint_modexp heap base exponent modulus n =
     (if n = 0 \<or> length base > n then None
      else if \<not> heap 0 \<or> \<not> heap 1 \<or> \<not> heap 2 then None
      else map_option (take n)
        (modexp_loop heap 3 (take n modulus) n (unat exponent) (blit (zeros (2 * n + 1)) (n - length base) base) ((zeros (2 * n + 1))[0 := 1])))"

section \<open>Signatures\<close>

definition SB_HASH_SIZE_SHA256 :: nat where "SB_HASH_SIZE_SHA256 = 32"
definition SB_HASH_SIZE_SHA384 :: nat where "SB_HASH_SIZE_SHA384 = 48"
definition SB_KEY_SIZE_RSA3072 :: nat where "SB_KEY_SIZE_RSA3072 = 384"

record RSAPublicKey =
  rpk_modulus :: bytes
  rpk_modulus_size :: u32
  rpk_public_exponent :: u32

definition sha256pfx :: bytes where
  "sha256pfx = [48, 49, 48, 13, 6, 9, 96, 134, 72, 1, 101, 3, 4, 2, 1, 5, 0, 4, 32]"

definition sha384pfx :: bytes where
  "sha384pfx = [48, 65, 48, 13, 6, 9, 96, 134, 72, 1, 101, 3, 4, 2, 2, 5, 0, 4, 48]"

text \<open>Comparison with a range of the buffer, which may lie beyond its end.\<close>

definition mem_equal :: "bytes \<Rightarrow> nat \<Rightarrow> bytes \<Rightarrow> bool c_result" where
  "mem_equal em i xs = (if i + length xs > length em then Undefined else Returned (sub_range em i (length xs) = xs))"

text \<open>
  The encoded message from position 2: padding, separator, prefix, hash.  The position after the
  separator may be one beyond the buffer, where the difference of sizes wraps.
\<close>

definition check_encoded :: "bytes \<Rightarrow> bytes \<Rightarrow> bool c_result" where
  "check_encoded em hash =
     (let m = length em;
          stop = (case find (\<lambda>i. em ! i \<noteq> 0xFF) [2..<m] of None \<Rightarrow> m | Some i \<Rightarrow> i)
      in if stop < m \<and> em ! stop \<noteq> 0 then Returned False
         else if stop < 10 then Returned False
         else let i = stop + 1 in
           if i \<le> m \<and> m - i < length hash then Returned False
           else let pfx = (if length hash = SB_HASH_SIZE_SHA256 then sha256pfx
                           else if length hash = SB_HASH_SIZE_SHA384 then sha384pfx else []) in
             case mem_equal em i pfx of Undefined \<Rightarrow> Undefined | Diverges \<Rightarrow> Diverges
             | Returned ok \<Rightarrow> if \<not> ok then Returned False else mem_equal em (i + length pfx) hash)"

definition sb_rsa_verify_pkcs1_v15 ::
  "bool \<Rightarrow> (nat \<Rightarrow> bool) \<Rightarrow> RSAPublicKey option \<Rightarrow> bytes option \<Rightarrow> bytes option \<Rightarrow> bool c_result" where
  "sb_rsa_verify_pkcs1_v15 em_ok heap key hash signature =
     (case (key, hash, signature) of
        (Some k, Some h, Some sg) \<Rightarrow>
          let n = unat (rpk_modulus_size k) in
          if n = 0 \<or> length sg \<noteq> n then Returned False
          else if \<not> em_ok then Returned False
          else if n > SB_KEY_SIZE_RSA3072 \<and> heap 0 \<and> heap 1 \<and> heap 2 then Undefined
          else (case bigint_modexp heap sg (rpk_public_exponent k) (rpk_modulus k) n of
              None \<Rightarrow> Returned False
            | Some em \<Rightarrow>
                if em ! 0 \<noteq> 0 then Returned False
                else if n < 2 then Undefined
                else if em ! 1 \<noteq> 1 then Returned False
                else check_encoded em h)
      | _ \<Rightarrow> Returned False)"

text \<open>The mask generated from the hash in the message; the seed has room for 36 bytes.\<close>

definition mgf_mask :: "bytes \<Rightarrow> nat \<Rightarrow> bytes" where
  "mgf_mask seed n = take n (concat (map (\<lambda>c. fs_sha256_hash (seed @ be32_bytes (of_nat c))) [0..<(n + 31) div 32]))"

definition sb_rsa_verify_pss ::
  "bool \<Rightarrow> (nat \<Rightarrow> bool) \<Rightarrow> bool \<Rightarrow> RSAPublicKey option \<Rightarrow> bytes option \<Rightarrow> bytes option \<Rightarrow> bool c_result" where
  "sb_rsa_verify_pss em_ok heap rest_ok key hash signature =
     (case (key, hash, signature) of
        (Some k, Some h, Some sg) \<Rightarrow>
          let n = unat (rpk_modulus_size k); hs = length h in
          if n < hs + 2 then Returned False
          else if \<not> em_ok then Returned False
          else if n > SB_KEY_SIZE_RSA3072 \<and> length sg \<le> n \<and> heap 0 \<and> heap 1 \<and> heap 2 then Undefined
          else (case bigint_modexp heap sg (rpk_public_exponent k) (rpk_modulus k) n of
              None \<Rightarrow> Returned False
            | Some em \<Rightarrow>
                if em ! (n - 1) \<noteq> 0xBC then Returned False
                else if \<not> rest_ok then Returned False
                else if hs > 32 \<or> n < 2 * hs + 2 then Undefined
                else let ml = n - hs - 1; hm = sub_range em ml hs; mk = mgf_mask hm ml;
                         db = map (\<lambda>i. em ! i XOR mk ! i) [0..<ml]; ps = ml - hs - 1;
                         salt = drop (ps + 1) db
                     in Returned (list_all (\<lambda>i. db ! i = 0) [0..<ps] \<and> db ! ps = 1
                          \<and> take hs (fs_sha256_hash (zeros 8 @ h @ salt)) = hm))
      | _ \<Rightarrow> Returned False)"

section \<open>The exponentiation computes nothing\<close>

lemma zeros_update [simp]: "(zeros n)[i := 0] = zeros n"
  by (metis list_update_beyond list_update_id length_zeros not_less nth_zeros)

lemma mul_row_zeros:
  assumes "i < n"
  shows "fs_mul_row tr n i (zeros (2 * n + 1)) = zeros (2 * n + 1)"
proof -
  have "fold (mul_step tr n i) js (zeros (2 * n + 1), 0) = (zeros (2 * n + 1), 0)" if "\<forall>j \<in> set js. j < n" for js
    using that assms by (induction js) (simp_all add: mul_step_def)
  from this [of "[0..<n]"] show ?thesis using assms by (simp add: fs_mul_row_def)
qed

lemma sq_row_zeros:
  assumes "i < n" and "n \<le> length tr" and "\<forall>j < n. tr ! j = 0"
  shows "sq_row tr n i (zeros (2 * n + 1)) = zeros (2 * n + 1)"
proof -
  have "fold (sq_step tr i) js (zeros (2 * n + 1), 0) = (zeros (2 * n + 1), 0)" if "\<forall>j \<in> set js. j < n" for js
    using that assms by (induction js) (simp_all add: sq_step_def)
  from this [of "[0..<n]"] show ?thesis using assms by (simp add: sq_row_def)
qed

lemma fold_fixed: "(\<And>x. x \<in> set xs \<Longrightarrow> f x s = s) \<Longrightarrow> fold f xs s = s"
  by (induction xs) simp_all

lemma memcmp_zeros: "memcmp_ge (zeros n) tm \<Longrightarrow> length tm = n \<Longrightarrow> tm = zeros n"
proof (induction n arbitrary: tm)
  case (Suc n)
  then obtain y ys where "tm = y # ys" by (cases tm) auto
  then show ?case using Suc by (auto simp: zeros_def split: if_splits)
qed simp

lemma reduce_zeros:
  assumes "length tm = n"
  shows "reduce_all tm n (zeros (2 * n + 1)) = zeros (2 * n + 1)"
proof -
  have "reduce_step tm n i (zeros (2 * n + 1)) = zeros (2 * n + 1)" if i: "i < 2 * n + 1" for i
  proof (cases "memcmp_ge (zeros n) tm")
    case True
    then have tm: "tm = zeros n" using assms by (rule memcmp_zeros)
    have "fold (sub_step tm) js (zeros (2 * n + 1), 0) = (zeros (2 * n + 1), 0)" if "\<forall>j \<in> set js. j < n" for js
      using that unfolding tm by (induction js) (simp_all add: sub_step_def)
    from this [of "[0..<n]"] show ?thesis using i by (simp add: reduce_step_def)
  next
    case False
    then show ?thesis using i by (simp add: reduce_step_def)
  qed
  then show ?thesis unfolding reduce_all_def by (intro fold_fixed) auto
qed

lemma mul_mod_zeros:
  assumes "length tm = n"
  shows "mul_mod tm n tr (zeros (2 * n + 1)) = zeros (2 * n + 1)"
proof -
  have "fold (fs_mul_row tr n) [0..<n] (zeros (2 * n + 1)) = zeros (2 * n + 1)"
    by (rule fold_fixed) (use mul_row_zeros [of _ n tr] in auto)
  then show ?thesis by (simp only: mul_mod_def reduce_zeros [OF assms])
qed

lemma square_mod_zeros:
  assumes "length tm = n" and "n \<le> length tr" and "\<forall>j < n. tr ! j = 0"
  shows "square_mod tm n tr = zeros n"
proof -
  have "fold (sq_row tr n) [0..<n] (zeros (2 * n + 1)) = zeros (2 * n + 1)"
    by (rule fold_fixed) (use sq_row_zeros [OF _ assms(2,3)] in auto)
  then show ?thesis by (simp only: square_mod_def reduce_zeros [OF assms(1)]) simp
qed

text \<open>Whatever the accumulator holds, the last odd step of the exponent clears it.\<close>

lemma length_reduce: "length (reduce_all tm n buf) = length buf"
proof -
  have s: "length (fst (fold (sub_step tm) js s)) = length (fst s)" for js s
    by (induction js arbitrary: s) (simp_all add: sub_step_def case_prod_beta Let_def)
  have r: "length (reduce_step tm n i b) = length b" for i b using s [of _ "(b, 0)"] by (simp add: reduce_step_def)
  have "length (fold (reduce_step tm n) js b) = length b" for js b by (induction js arbitrary: b) (simp_all add: r)
  then show ?thesis by (simp add: reduce_all_def)
qed

lemma length_square: "length (square_mod tm n tr) = n"
proof -
  have s: "length (fst (fold (sq_step tr i) js s)) = length (fst s)" for js s i
    by (induction js arbitrary: s) (simp_all add: sq_step_def case_prod_beta Let_def)
  have r: "length (sq_row tr n i b) = length b" for i b using s [of i _ "(b, 0)"] by (simp add: sq_row_def case_prod_beta)
  have "length (fold (sq_row tr n) js b) = length b" for js b by (induction js arbitrary: b) (simp_all add: r)
  then show ?thesis by (simp add: square_mod_def length_reduce)
qed

lemma modexp_loop_clears:
  assumes "modexp_loop heap k tm n e tb tr = Some r" and "0 < e" and "length tm = n" and "length tr = 2 * n + 1"
  shows "take n r = zeros n"
  using assms
proof (induction heap k tm n e tb tr rule: modexp_loop.induct)
  case (1 heap k tm n e tb tr)
  define tr1 where "tr1 = (if odd e then blit tr 0 (zeros n) else tr)"
  define tr2 where "tr2 = blit tr1 0 (square_mod tm n tr1)"
  define tb1 where "tb1 = (if odd e then zeros (2 * n + 1) else tb)"
  have l: "length tr1 = 2 * n + 1" "length tr2 = 2 * n + 1" using 1(5) by (simp_all add: tr1_def tr2_def length_square)
  have p: "(if odd e then (let b = mul_mod tm n tr (zeros (2 * n + 1)) in (b, blit tr 0 (take n b))) else (tb, tr)) = (tb1, tr1)"
    unfolding mul_mod_zeros [OF 1(4)] by (simp add: tb1_def tr1_def)
  have u: "modexp_loop heap k tm n e tb tr = (if \<not> heap k then None else modexp_loop heap (k + 1) tm n (e div 2) tb1 tr2)"
    unfolding modexp_loop.simps [of heap k tm n e tb tr] p tr2_def using 1(3) by simp
  then have h: "heap k" and loop: "modexp_loop heap (k + 1) tm n (e div 2) tb1 tr2 = Some r"
    using 1(2) by (simp_all split: if_splits)
  show ?case
  proof (cases "e div 2 = 0")
    case True
    then have "e = 1" using 1(3) by (simp add: div_eq_0_iff)
    then have "odd e" by simp
    then have "\<forall>j < n. tr1 ! j = 0" using 1(5) by (simp add: tr1_def nth_blit)
    then have "square_mod tm n tr1 = zeros n" using 1(4) l by (intro square_mod_zeros) simp_all
    moreover have "r = tr2" using loop True by (simp add: modexp_loop.simps)
    ultimately show ?thesis by (simp add: tr2_def blit_def)
  next
    case False
    show ?thesis
      by (rule 1(1) [OF _ p [symmetric] refl]) (use 1(3,4) h loop False l in \<open>simp_all add: tr2_def\<close>)
  qed
qed

lemma modexp_zero:
  assumes "bigint_modexp heap base exponent modulus n = Some em" and "n \<le> length modulus"
  shows "em = (if exponent = 0 then (zeros n)[0 := 1] else zeros n)"
proof -
  have n: "0 < n" using assms(1) by (auto simp: bigint_modexp_def split: if_splits)
  obtain r where r: "modexp_loop heap 3 (take n modulus) n (unat exponent) (blit (zeros (2 * n + 1)) (n - length base) base) ((zeros (2 * n + 1))[0 := 1]) = Some r"
    and em: "em = take n r" using assms(1) by (auto simp: bigint_modexp_def split: if_splits)
  show ?thesis
  proof (cases "exponent = 0")
    case True
    then have "r = (zeros (2 * n + 1))[0 := 1]" using r by (simp add: modexp_loop.simps)
    then show ?thesis using True em n by (simp add: take_update_swap)
  next
    case False
    then have "0 < unat exponent" by (simp add: unat_gt_0)
    then show ?thesis using False em modexp_loop_clears [OF r] assms(2) by simp
  qed
qed

section \<open>The checks accept nothing\<close>

lemma pkcs1_rejects:
  assumes "sb_rsa_verify_pkcs1_v15 em_ok heap key hash signature = Returned ok" and "\<And>k. key = Some k \<Longrightarrow> length (rpk_modulus k) = SB_KEY_SIZE_RSA3072"
  shows "\<not> ok"
proof
  have heap: "heap 0 \<and> heap 1 \<and> heap 2" if "bigint_modexp heap b e m n = Some em" for b e m n em
    using that by (auto simp: bigint_modexp_def split: if_splits)
  assume ok
  then obtain k h sg where k: "key = Some k" "hash = Some h" "signature = Some sg" using assms(1)
    by (auto simp: sb_rsa_verify_pkcs1_v15_def split: option.splits)
  let ?n = "unat (rpk_modulus_size k)"
  obtain em where em: "bigint_modexp heap sg (rpk_public_exponent k) (rpk_modulus k) ?n = Some em" "2 \<le> ?n" "?n \<le> SB_KEY_SIZE_RSA3072"
    "em ! 0 = 0" "em ! 1 = 1"
    using assms(1) \<open>ok\<close> k by (auto simp: sb_rsa_verify_pkcs1_v15_def Let_def not_less split: if_splits option.splits dest: heap)
  have "em = (if rpk_public_exponent k = 0 then (zeros ?n)[0 := 1] else zeros ?n)"
    using modexp_zero [OF em(1)] em(3) assms(2) [OF k(1)] by simp
  then show False using em(2,4,5) by (auto split: if_splits)
qed

text \<open>For every key of two bytes or more the answer is no, not only never yes.\<close>

lemma pkcs1_returns:
  assumes "2 \<le> unat (rpk_modulus_size k)" and "unat (rpk_modulus_size k) \<le> SB_KEY_SIZE_RSA3072" and "length (rpk_modulus k) = SB_KEY_SIZE_RSA3072"
  shows "sb_rsa_verify_pkcs1_v15 em_ok heap (Some k) hash signature = Returned False"
proof -
  let ?n = "unat (rpk_modulus_size k)"
  have "em ! 0 = 0 \<Longrightarrow> em ! 1 \<noteq> 1" if "bigint_modexp heap sg (rpk_public_exponent k) (rpk_modulus k) ?n = Some em" for em sg
    using modexp_zero [OF that] assms by (auto split: if_splits)
  then show ?thesis using assms(1,2) by (auto simp: sb_rsa_verify_pkcs1_v15_def Let_def split: option.split)
qed

lemma pss_rejects:
  assumes "unat (rpk_modulus_size k) \<le> SB_KEY_SIZE_RSA3072" and "length (rpk_modulus k) = SB_KEY_SIZE_RSA3072"
  shows "sb_rsa_verify_pss em_ok heap rest_ok (Some k) hash signature = Returned False"
proof -
  let ?n = "unat (rpk_modulus_size k)"
  have "em ! (?n - 1) \<noteq> 0xBC" if "bigint_modexp heap sg (rpk_public_exponent k) (rpk_modulus k) ?n = Some em" "2 \<le> ?n" for em sg
    using modexp_zero [OF that(1)] assms that(2) by (auto simp: nth_list_update split: if_splits)
  then show ?thesis using assms(1) by (auto simp: sb_rsa_verify_pss_def Let_def split: option.split)
qed

end
