(* ===== verification/Fs_Secure_Boot.thy ===== *)
theory Fs_Secure_Boot
  imports Fs_Rsa
begin

text \<open>
  The Secure Boot policy of \<open>mini-firmware-security/src/secure_boot.c\<close>: keys and signature
  databases, modes, the search for a key in a certificate, and the verdict on an image.
  Certificates are read through their buffers: a position beyond one is outside C's behaviour.
\<close>

section \<open>State\<close>

definition SB_MAX_CERTIFICATES :: nat where "SB_MAX_CERTIFICATES = 8"
definition SB_MAX_SIGNATURES :: nat where "SB_MAX_SIGNATURES = 16"
definition SB_CERT_DATA_SIZE :: nat where "SB_CERT_DATA_SIZE = 512"
definition SB_MODE_SETUP :: u8 where "SB_MODE_SETUP = 0"
definition SB_MODE_USER :: u8 where "SB_MODE_USER = 1"
definition SB_MODE_DEPLOYED :: u8 where "SB_MODE_DEPLOYED = 3"
definition SB_DB_TYPE_PK :: u8 where "SB_DB_TYPE_PK = 0"
definition SB_DB_TYPE_KEK :: u8 where "SB_DB_TYPE_KEK = 1"
definition SB_DB_TYPE_DB :: u8 where "SB_DB_TYPE_DB = 2"
definition SB_DB_TYPE_DBX :: u8 where "SB_DB_TYPE_DBX = 3"
definition WIN_CERT_TYPE_EFI_GUID :: u8 where "WIN_CERT_TYPE_EFI_GUID = 0xF1"
definition SB_SIGNATURE_TYPE_SHA256 :: u8 where "SB_SIGNATURE_TYPE_SHA256 = 1"

record SignatureDBEntry =
  sde_db_type :: u8
  sde_owner_guid :: bytes
  sde_signature_owner_guid :: bytes
  sde_cert_data :: bytes
  sde_cert_size :: u32
  sde_cert_type :: u8
  sde_revoked :: bool
  sde_revocation_time :: u32

record SecureBootPolicy =
  fsp_pk :: SignatureDBEntry
  fsp_kek :: "SignatureDBEntry list"
  fsp_db :: "SignatureDBEntry list"
  fsp_dbx :: "SignatureDBEntry list"
  fsp_dbt :: "SignatureDBEntry list"
  fsp_kek_count :: u8
  fsp_db_count :: u8
  fsp_dbx_count :: u8
  fsp_dbt_count :: u8
  fsp_operating_mode :: u8
  fsp_secure_boot_enabled :: bool
  fsp_setup_mode :: bool
  fsp_audit_mode :: bool
  fsp_deployed_mode :: bool

record SBImageContext =
  sic_image_hash :: bytes
  sic_image_hash_algorithm :: u8
  sic_image_signature :: bytes
  sic_image_signature_size :: u32
  sic_verified :: bool
  sic_revoked :: bool
  sic_deferred_exec :: bool

definition zero_db_entry :: SignatureDBEntry where
  "zero_db_entry = \<lparr>sde_db_type = 0, sde_owner_guid = zeros 16, sde_signature_owner_guid = zeros 16, sde_cert_data = zeros SB_CERT_DATA_SIZE, sde_cert_size = 0,
     sde_cert_type = 0, sde_revoked = False, sde_revocation_time = 0\<rparr>"

definition fs_sb_init :: SecureBootPolicy where
  "fs_sb_init = \<lparr>fsp_pk = zero_db_entry, fsp_kek = replicate SB_MAX_CERTIFICATES zero_db_entry, fsp_db = replicate SB_MAX_SIGNATURES zero_db_entry,
     fsp_dbx = replicate SB_MAX_SIGNATURES zero_db_entry, fsp_dbt = replicate SB_MAX_SIGNATURES zero_db_entry, fsp_kek_count = 0, fsp_db_count = 0, fsp_dbx_count = 0, fsp_dbt_count = 0,
     fsp_operating_mode = SB_MODE_SETUP, fsp_secure_boot_enabled = False, fsp_setup_mode = True, fsp_audit_mode = False,
     fsp_deployed_mode = False\<rparr>"

definition sb_check_setup_mode :: "SecureBootPolicy option \<Rightarrow> bool" where
  "sb_check_setup_mode sb = (case sb of None \<Rightarrow> False | Some p \<Rightarrow> fsp_setup_mode p)"

definition sb_check_deployed_mode :: "SecureBootPolicy option \<Rightarrow> bool" where
  "sb_check_deployed_mode sb = (case sb of None \<Rightarrow> False | Some p \<Rightarrow> fsp_deployed_mode p)"

section \<open>Enrolment\<close>

text \<open>Bytes beyond a new certificate and the type of the entry stay what they were.\<close>

definition store_entry :: "u8 \<Rightarrow> bool \<Rightarrow> bytes \<Rightarrow> bytes \<Rightarrow> SignatureDBEntry \<Rightarrow> SignatureDBEntry" where
  "store_entry ty revoked owner cert e =
     e\<lparr>sde_owner_guid := owner, sde_cert_data := blit (sde_cert_data e) 0 cert, sde_cert_size := of_nat (length cert),
       sde_db_type := ty, sde_revoked := revoked\<rparr>"

definition bad_args :: "bytes option \<Rightarrow> bytes option \<Rightarrow> bool" where
  "bad_args owner cert \<longleftrightarrow> owner = None \<or> cert = None \<or> cert = Some []"

definition fs_sb_enroll_pk :: "SecureBootPolicy \<Rightarrow> bytes option \<Rightarrow> bytes option \<Rightarrow> SecureBootPolicy \<times> bool" where
  "fs_sb_enroll_pk sb owner cert =
     (if bad_args owner cert then (sb, False)
      else if \<not> fsp_setup_mode sb then (sb, False)
      else if length (the cert) > SB_CERT_DATA_SIZE then (sb, False)
      else (sb\<lparr>fsp_pk := (store_entry SB_DB_TYPE_PK False (the owner) (the cert) (fsp_pk sb))\<lparr>sde_cert_type := WIN_CERT_TYPE_EFI_GUID\<rparr>,
               fsp_setup_mode := False, fsp_operating_mode := SB_MODE_USER, fsp_secure_boot_enabled := True\<rparr>, True))"

definition fs_sb_enroll_kek :: "SecureBootPolicy \<Rightarrow> bytes option \<Rightarrow> bytes option \<Rightarrow> SecureBootPolicy \<times> bool" where
  "fs_sb_enroll_kek sb owner cert =
     (if bad_args owner cert then (sb, False)
      else if fsp_setup_mode sb then (sb, False)
      else if unat (fsp_kek_count sb) \<ge> SB_MAX_CERTIFICATES then (sb, False)
      else if length (the cert) > SB_CERT_DATA_SIZE then (sb, False)
      else let i = unat (fsp_kek_count sb) in
        (sb\<lparr>fsp_kek := (fsp_kek sb)[i := store_entry SB_DB_TYPE_KEK False (the owner) (the cert) (fsp_kek sb ! i)],
            fsp_kek_count := fsp_kek_count sb + 1\<rparr>, True))"

definition fs_sb_enroll_db :: "SecureBootPolicy \<Rightarrow> bytes option \<Rightarrow> bytes option \<Rightarrow> SecureBootPolicy \<times> bool" where
  "fs_sb_enroll_db sb owner signature =
     (if bad_args owner signature then (sb, False)
      else if fsp_kek_count sb = 0 then (sb, False)
      else if unat (fsp_db_count sb) \<ge> SB_MAX_SIGNATURES then (sb, False)
      else if length (the signature) > SB_CERT_DATA_SIZE then (sb, False)
      else let i = unat (fsp_db_count sb) in
        (sb\<lparr>fsp_db := (fsp_db sb)[i := store_entry SB_DB_TYPE_DB False (the owner) (the signature) (fsp_db sb ! i)],
            fsp_db_count := fsp_db_count sb + 1\<rparr>, True))"

definition fs_sb_enroll_dbx :: "SecureBootPolicy \<Rightarrow> bytes option \<Rightarrow> bytes option \<Rightarrow> SecureBootPolicy \<times> bool" where
  "fs_sb_enroll_dbx sb owner digest =
     (if bad_args owner digest then (sb, False)
      else if fsp_kek_count sb = 0 then (sb, False)
      else if unat (fsp_dbx_count sb) \<ge> SB_MAX_SIGNATURES then (sb, False)
      else if length (the digest) > SB_CERT_DATA_SIZE then (sb, False)
      else let i = unat (fsp_dbx_count sb) in
        (sb\<lparr>fsp_dbx := (fsp_dbx sb)[i := store_entry SB_DB_TYPE_DBX True (the owner) (the digest) (fsp_dbx sb ! i)],
            fsp_dbx_count := fsp_dbx_count sb + 1\<rparr>, True))"

definition fs_sb_delete_pk :: "SecureBootPolicy \<Rightarrow> SecureBootPolicy \<times> bool" where
  "fs_sb_delete_pk sb =
     (if fsp_deployed_mode sb then (sb, False)
      else (sb\<lparr>fsp_pk := zero_db_entry, fsp_setup_mode := True, fsp_operating_mode := SB_MODE_SETUP, fsp_secure_boot_enabled := False\<rparr>, True))"

definition sb_delete_kek :: "SecureBootPolicy \<Rightarrow> u8 \<Rightarrow> SecureBootPolicy \<times> bool" where
  "sb_delete_kek sb idx =
     (if idx \<ge> fsp_kek_count sb then (sb, False)
      else if fsp_deployed_mode sb then (sb, False)
      else let i = unat idx; n = unat (fsp_kek_count sb) in
        (sb\<lparr>fsp_kek := blit (fsp_kek sb) i (sub_range (fsp_kek sb) (i + 1) (n - i - 1)), fsp_kek_count := fsp_kek_count sb - 1\<rparr>, True))"

definition sb_clear_secure_boot_keys :: "SecureBootPolicy \<Rightarrow> SecureBootPolicy" where
  "sb_clear_secure_boot_keys sb =
     sb\<lparr>fsp_pk := zero_db_entry, fsp_kek := replicate SB_MAX_CERTIFICATES zero_db_entry, fsp_db := replicate SB_MAX_SIGNATURES zero_db_entry,
        fsp_dbx := replicate SB_MAX_SIGNATURES zero_db_entry, fsp_dbt := replicate SB_MAX_SIGNATURES zero_db_entry, fsp_kek_count := 0, fsp_db_count := 0, fsp_dbx_count := 0, fsp_dbt_count := 0,
        fsp_setup_mode := True, fsp_operating_mode := SB_MODE_SETUP, fsp_secure_boot_enabled := False\<rparr>"

definition sb_transition_to_user_mode :: "SecureBootPolicy \<Rightarrow> SecureBootPolicy \<times> bool" where
  "sb_transition_to_user_mode sb =
     (if sde_cert_size (fsp_pk sb) = 0 then (sb, False)
      else (sb\<lparr>fsp_operating_mode := SB_MODE_USER, fsp_setup_mode := False, fsp_secure_boot_enabled := True,
               fsp_deployed_mode := False, fsp_audit_mode := False\<rparr>, True))"

definition sb_transition_to_deployed_mode :: "SecureBootPolicy \<Rightarrow> SecureBootPolicy \<times> bool" where
  "sb_transition_to_deployed_mode sb =
     (if sde_cert_size (fsp_pk sb) = 0 then (sb, False)
      else if fsp_kek_count sb = 0 then (sb, False)
      else (sb\<lparr>fsp_operating_mode := SB_MODE_DEPLOYED, fsp_setup_mode := False, fsp_deployed_mode := True,
               fsp_audit_mode := False, fsp_secure_boot_enabled := True\<rparr>, True))"

section \<open>Queries\<close>

definition holds_data :: "SignatureDBEntry \<Rightarrow> bytes \<Rightarrow> bool" where
  "holds_data e d \<longleftrightarrow> unat (sde_cert_size e) = length d \<and> take (length d) (sde_cert_data e) = d"

definition sb_query_db :: "SecureBootPolicy \<Rightarrow> bytes option \<Rightarrow> bool" where
  "sb_query_db sb signature =
     (case signature of None \<Rightarrow> False | Some s \<Rightarrow> list_ex (\<lambda>e. holds_data e s) (take (unat (fsp_db_count sb)) (fsp_db sb)))"

definition sb_query_dbx :: "SecureBootPolicy \<Rightarrow> bytes option \<Rightarrow> bool" where
  "sb_query_dbx sb digest =
     (case digest of None \<Rightarrow> False | Some d \<Rightarrow> list_ex (\<lambda>e. holds_data e d) (take (unat (fsp_dbx_count sb)) (fsp_dbx sb)))"

section \<open>Keys in certificates\<close>

definition with_byte :: "bytes \<Rightarrow> nat \<Rightarrow> (u8 \<Rightarrow> 'a c_result) \<Rightarrow> 'a c_result" where
  "with_byte buf p f = (if p < length buf then f (buf ! p) else Undefined)"

definition c_then :: "'a c_result \<Rightarrow> ('a \<Rightarrow> 'b c_result) \<Rightarrow> 'b c_result" where
  "c_then r f = (case r of Returned x \<Rightarrow> f x | Undefined \<Rightarrow> Undefined | Diverges \<Rightarrow> Diverges)"

text \<open>The length at a tag, and the size of tag and length.\<close>

definition der_header :: "bytes \<Rightarrow> nat \<Rightarrow> (u32 \<times> nat) c_result" where
  "der_header buf p = with_byte buf (p + 1) (\<lambda>b.
     if b < 0x80 then Returned (ucast b, 2)
     else let lb = unat (b AND 0x7F) in
       if p + 2 + lb > length buf then Undefined
       else Returned (fold (\<lambda>x l. push_bit 8 l OR ucast x) (sub_range buf (p + 2) lb) 0, 2 + lb))"

definition der_skip :: "bytes \<Rightarrow> nat \<Rightarrow> nat c_result" where
  "der_skip buf p = with_byte buf (p + 1) (\<lambda>b. Returned (if b < 0x80 then 2 else 2 + unat (b AND 0x7F)))"

definition rsa_oid :: bytes where
  "rsa_oid = [0x2A, 0x86, 0x48, 0x86, 0xF7, 0x0D, 0x01, 0x01, 0x01]"

text \<open>From the modulus on: its length, a leading zero, the exponent.\<close>

definition der_key :: "bytes \<Rightarrow> nat \<Rightarrow> RSAPublicKey option c_result" where
  "der_key buf p = c_then (der_header buf p) (\<lambda>(len0, h).
     c_then (if len0 > 0 then with_byte buf (p + h) (\<lambda>z. Returned (z = 0)) else Returned False) (\<lambda>strip.
       let m = (if strip then p + h + 1 else p + h); ml = (if strip then len0 - 1 else len0) in
       if unat ml > SB_KEY_SIZE_RSA3072 then Returned None
       else let q = m + unat ml in
         with_byte buf q (\<lambda>t. if t \<noteq> 2 then Returned None else
           c_then (der_header buf q) (\<lambda>(el, h2).
             let k = min (unat el) 4 in
             if q + h2 + k > length buf then Undefined
             else Returned (Some \<lparr>rpk_modulus = blit (zeros SB_KEY_SIZE_RSA3072) 0 (sub_range buf m (unat ml)), rpk_modulus_size = ml,
                    rpk_public_exponent = fold (\<lambda>x v. push_bit 8 v OR ucast x) (sub_range buf (q + h2) k) 0\<rparr>)))))"

definition sb_x509_extract_public_key :: "bytes \<Rightarrow> nat \<Rightarrow> RSAPublicKey option c_result" where
  "sb_x509_extract_public_key cert size0 =
     (if size0 < 128 then Returned None
      else case find (\<lambda>i. sub_range cert i 9 = rsa_oid) [0..<size0 - 8] of
        None \<Rightarrow> Returned None
      | Some i \<Rightarrow> let p = i + 9 in
          if p + 2 > size0 then Returned None
          else with_byte cert p (\<lambda>b0. with_byte cert (p + 1) (\<lambda>b1.
            let p1 = (if b0 = 5 \<and> b1 = 0 then p + 2 else p) in
            with_byte cert p1 (\<lambda>t. if t \<noteq> 3 then Returned None else
              c_then (der_header cert p1) (\<lambda>(_, h).
                with_byte cert (p1 + h) (\<lambda>z. if z \<noteq> 0 then Returned None else
                  let p3 = p1 + h + 1 in
                  with_byte cert p3 (\<lambda>t. if t \<noteq> 0x30 then Returned None else
                    c_then (der_skip cert p3) (\<lambda>off.
                      with_byte cert (p3 + off) (\<lambda>t. if t \<noteq> 2 then Returned None else der_key cert (p3 + off))))))))))"

text \<open>The entries in turn; each check has its allocations.\<close>

fun try_keys :: "(nat \<Rightarrow> nat \<Rightarrow> bool) \<Rightarrow> nat \<Rightarrow> bytes \<Rightarrow> (SignatureDBEntry \<Rightarrow> bytes) \<Rightarrow> SignatureDBEntry list \<Rightarrow> bool c_result" where
  "try_keys heap k hash sig [] = Returned False"
| "try_keys heap k hash sig (e # es) =
     (case sb_x509_extract_public_key (sde_cert_data e) (unat (sde_cert_size e)) of
        Undefined \<Rightarrow> Undefined | Diverges \<Rightarrow> Diverges
      | Returned None \<Rightarrow> try_keys heap (k + 1) hash sig es
      | Returned (Some key) \<Rightarrow>
          (case sb_rsa_verify_pkcs1_v15 (heap k 0) (\<lambda>j. heap k (j + 1)) (Some key) (Some hash) (Some (sig e)) of
             Undefined \<Rightarrow> Undefined | Diverges \<Rightarrow> Diverges
           | Returned ok \<Rightarrow> if ok then Returned True else try_keys heap (k + 1) hash sig es))"

section \<open>Images\<close>

definition fs_sb_verify_image ::
  "(nat \<Rightarrow> nat \<Rightarrow> bool) \<Rightarrow> SecureBootPolicy \<Rightarrow> bytes \<Rightarrow> bytes option \<Rightarrow> (SBImageContext \<times> bool) c_result" where
  "fs_sb_verify_image heap sb image0 signature =
     (let ctx = \<lparr>sic_image_hash = zeros 32, sic_image_hash_algorithm = 0, sic_image_signature = zeros 384, sic_image_signature_size = 0,
                 sic_verified = False, sic_revoked = False, sic_deferred_exec = False\<rparr> in
      if \<not> fsp_secure_boot_enabled sb then Returned (ctx\<lparr>sic_verified := True\<rparr>, True)
      else let h = fs_sha256_hash image0; ctx1 = ctx\<lparr>sic_image_hash := h, sic_image_hash_algorithm := SB_SIGNATURE_TYPE_SHA256\<rparr> in
        if sb_query_dbx sb (Some h) then Returned (ctx1\<lparr>sic_verified := False, sic_revoked := True\<rparr>, False)
        else if sb_query_db sb (Some h) then Returned (ctx1\<lparr>sic_verified := True\<rparr>, True)
        else let last = (\<lambda>ctx2. if fsp_audit_mode sb then (ctx2\<lparr>sic_verified := True, sic_deferred_exec := True\<rparr>, True)
                                else (ctx2\<lparr>sic_verified := False\<rparr>, False)) in
          (case signature of None \<Rightarrow> Returned (last ctx1)
           | Some sg \<Rightarrow>
               if sg = [] then Returned (last ctx1)
               else let ctx2 = ctx1\<lparr>sic_image_signature := blit (zeros 384) 0 (take 384 sg), sic_image_signature_size := of_nat (length sg)\<rparr> in
                 (case try_keys heap 0 h (\<lambda>e. sg) (take (unat (fsp_db_count sb)) (fsp_db sb) @ take (unat (fsp_kek_count sb)) (fsp_kek sb)) of
                    Undefined \<Rightarrow> Undefined | Diverges \<Rightarrow> Diverges
                  | Returned ok \<Rightarrow> if ok then Returned (ctx2\<lparr>sic_verified := True\<rparr>, True) else Returned (last ctx2))))"

definition sb_verify_with_authenticode :: "(nat \<Rightarrow> nat \<Rightarrow> bool) \<Rightarrow> SecureBootPolicy \<Rightarrow> bytes \<Rightarrow> bool c_result" where
  "sb_verify_with_authenticode heap sb pe_image =
     (if length pe_image < 64 then Returned False
      else let h = fs_sha256_hash pe_image in
        if sb_query_dbx sb (Some h) then Returned False
        else try_keys heap 0 h (\<lambda>e. take (unat (sde_cert_size e)) (sde_cert_data e)) (take (unat (fsp_db_count sb)) (fsp_db sb)))"

fun chain_signed :: "(nat \<Rightarrow> nat \<Rightarrow> bool) \<Rightarrow> nat \<Rightarrow> bytes \<Rightarrow> bytes list \<Rightarrow> bool c_result" where
  "chain_signed heap k cert [] = Returned True"
| "chain_signed heap k cert (issuer # cs) =
     (case sb_x509_extract_public_key issuer (length issuer) of
        Undefined \<Rightarrow> Undefined | Diverges \<Rightarrow> Diverges
      | Returned None \<Rightarrow> Returned False
      | Returned (Some key) \<Rightarrow>
          if length cert < 256 then Returned False
          else (case sb_rsa_verify_pkcs1_v15 (heap k 0) (\<lambda>j. heap k (j + 1)) (Some key) (Some (fs_sha256_hash cert))
                       (Some (drop (length cert - 256) cert)) of
             Undefined \<Rightarrow> Undefined | Diverges \<Rightarrow> Diverges
           | Returned ok \<Rightarrow> if \<not> ok then Returned False else chain_signed heap (k + 1) issuer cs))"

definition sb_x509_validate_chain :: "(nat \<Rightarrow> nat \<Rightarrow> bool) \<Rightarrow> bytes list \<Rightarrow> bool c_result" where
  "sb_x509_validate_chain heap certs =
     (case certs of c # c2 # cs \<Rightarrow> chain_signed heap 0 c (c2 # cs) | _ \<Rightarrow> Returned False)"

definition sb_export_public_key :: "RSAPublicKey \<Rightarrow> (bytes \<times> u32 \<times> u32) c_result" where
  "sb_export_public_key key =
     (if unat (rpk_modulus_size key) > length (rpk_modulus key) then Undefined
      else Returned (take (unat (rpk_modulus_size key)) (rpk_modulus key), rpk_modulus_size key, rpk_public_exponent key))"

section \<open>No key accepts anything\<close>

lemma extracted_modulus:
  assumes "sb_x509_extract_public_key cert n = Returned (Some key)"
  shows "length (rpk_modulus key) = SB_KEY_SIZE_RSA3072 \<and> unat (rpk_modulus_size key) \<le> SB_KEY_SIZE_RSA3072"
proof -
  have k: "length (rpk_modulus key) = SB_KEY_SIZE_RSA3072 \<and> unat (rpk_modulus_size key) \<le> SB_KEY_SIZE_RSA3072"
    if "der_key buf p = Returned (Some key)" for buf p
    using that unfolding der_key_def c_then_def with_byte_def Let_def
    by (auto split: c_result.splits if_splits prod.splits)
  show ?thesis using assms k unfolding sb_x509_extract_public_key_def c_then_def with_byte_def Let_def
    by (auto split: c_result.splits if_splits prod.splits option.splits)
qed

lemma try_keys_rejects: "try_keys heap k hash sig es = Returned ok \<Longrightarrow> \<not> ok"
proof (induction es arbitrary: k)
  case (Cons e es)
  show ?case
  proof (cases "sb_x509_extract_public_key (sde_cert_data e) (unat (sde_cert_size e))")
    case (Returned r)
    show ?thesis
    proof (cases r)
      case (Some key)
      have m: "length (rpk_modulus key) = SB_KEY_SIZE_RSA3072" using extracted_modulus Returned Some by blast
      obtain v where v: "sb_rsa_verify_pkcs1_v15 (heap k 0) (\<lambda>j. heap k (j + 1)) (Some key) (Some hash) (Some (sig e)) = Returned v"
        using Cons.prems Returned Some by (auto split: c_result.splits)
      then have "\<not> v" using pkcs1_rejects [OF v] m by simp
      then show ?thesis using Cons Returned Some v by simp
    qed (use Cons Returned in simp)
  qed (use Cons.prems in simp_all)
qed simp

lemma authenticode_rejects:
  assumes "sb_verify_with_authenticode heap sb image0 = Returned ok"
  shows "\<not> ok"
proof (cases "length image0 < 64 \<or> sb_query_dbx sb (Some (fs_sha256_hash image0))")
  case False
  then have "try_keys heap 0 (fs_sha256_hash image0) (\<lambda>e. take (unat (sde_cert_size e)) (sde_cert_data e))
      (take (unat (fsp_db_count sb)) (fsp_db sb)) = Returned ok"
    using assms by (simp add: sb_verify_with_authenticode_def Let_def)
  then show ?thesis by (rule try_keys_rejects)
qed (use assms in \<open>auto simp: sb_verify_with_authenticode_def Let_def split: if_splits\<close>)

lemma chain_signed_rejects:
  assumes r: "chain_signed heap k cert (issuer # cs) = Returned ok"
  shows "\<not> ok"
proof (cases "\<exists>key. sb_x509_extract_public_key issuer (length issuer) = Returned (Some key)")
  case True
  then obtain key where x: "sb_x509_extract_public_key issuer (length issuer) = Returned (Some key)" by blast
  let ?v = "sb_rsa_verify_pkcs1_v15 (heap k 0) (\<lambda>j. heap k (j + 1)) (Some key) (Some (fs_sha256_hash cert))
              (Some (drop (length cert - 256) cert))"
  have m: "length (rpk_modulus key) = SB_KEY_SIZE_RSA3072" using extracted_modulus [OF x] by simp
  show ?thesis
  proof (cases "\<exists>v. ?v = Returned v")
    case True
    then obtain v where v: "?v = Returned v" by blast
    then have "\<not> v" using pkcs1_rejects [OF v] m by simp
    then show ?thesis using r x v by (simp split: if_splits)
  qed (use r x in \<open>auto split: c_result.splits if_splits\<close>)
qed (use r in \<open>auto split: c_result.splits option.splits\<close>)

lemma validate_chain_rejects: "sb_x509_validate_chain heap certs = Returned ok \<Longrightarrow> \<not> ok"
  unfolding sb_x509_validate_chain_def
  by (cases certs rule: list.exhaust; cases "tl certs" rule: list.exhaust) (use chain_signed_rejects in \<open>simp_all del: chain_signed.simps\<close>)

section \<open>The verdict\<close>

definition image_allowed :: "SecureBootPolicy \<Rightarrow> bytes \<Rightarrow> bool" where
  "image_allowed sb image0 \<longleftrightarrow> \<not> fsp_secure_boot_enabled sb
     \<or> (\<not> sb_query_dbx sb (Some (fs_sha256_hash image0)) \<and> (sb_query_db sb (Some (fs_sha256_hash image0)) \<or> fsp_audit_mode sb))"

lemma verify_image_verdict:
  assumes "fs_sb_verify_image heap sb image0 signature = Returned (ctx, ok)"
  shows "ok = image_allowed sb image0 \<and> sic_verified ctx = ok"
proof -
  consider "\<not> fsp_secure_boot_enabled sb" | "fsp_secure_boot_enabled sb" "sb_query_dbx sb (Some (fs_sha256_hash image0))"
    | "fsp_secure_boot_enabled sb" "\<not> sb_query_dbx sb (Some (fs_sha256_hash image0))" "sb_query_db sb (Some (fs_sha256_hash image0))"
    | "fsp_secure_boot_enabled sb" "\<not> sb_query_dbx sb (Some (fs_sha256_hash image0))" "\<not> sb_query_db sb (Some (fs_sha256_hash image0))"
    by blast
  then show ?thesis
  proof cases
    case 4
    then show ?thesis using assms try_keys_rejects [of heap 0]
      by (auto simp: fs_sb_verify_image_def image_allowed_def Let_def split: option.splits if_splits c_result.splits)
  qed (use assms in \<open>auto simp: fs_sb_verify_image_def image_allowed_def Let_def\<close>)
qed

lemma verify_image_unsigned: "\<exists>ctx. fs_sb_verify_image heap sb image0 None = Returned (ctx, image_allowed sb image0)"
  by (simp add: fs_sb_verify_image_def image_allowed_def Let_def)

section \<open>Runs\<close>

datatype fs_sb_op = Enroll_pk "bytes option" "bytes option" | Enroll_kek "bytes option" "bytes option"
  | Enroll_db "bytes option" "bytes option" | Enroll_dbx "bytes option" "bytes option"
  | Delete_pk | Delete_kek u8 | Clear_keys | To_user | To_deployed

definition fs_sb_step :: "fs_sb_op \<Rightarrow> SecureBootPolicy \<Rightarrow> SecureBootPolicy" where
  "fs_sb_step x sb = (case x of Enroll_pk u c \<Rightarrow> fst (fs_sb_enroll_pk sb u c) | Enroll_kek u c \<Rightarrow> fst (fs_sb_enroll_kek sb u c)
     | Enroll_db u c \<Rightarrow> fst (fs_sb_enroll_db sb u c) | Enroll_dbx u c \<Rightarrow> fst (fs_sb_enroll_dbx sb u c)
     | Delete_pk \<Rightarrow> fst (fs_sb_delete_pk sb) | Delete_kek i \<Rightarrow> fst (sb_delete_kek sb i) | Clear_keys \<Rightarrow> sb_clear_secure_boot_keys sb
     | To_user \<Rightarrow> fst (sb_transition_to_user_mode sb) | To_deployed \<Rightarrow> fst (sb_transition_to_deployed_mode sb))"

definition fs_sb_run :: "fs_sb_op list \<Rightarrow> SecureBootPolicy" where
  "fs_sb_run xs = fold fs_sb_step xs fs_sb_init"

definition fs_sb_inv :: "SecureBootPolicy \<Rightarrow> bool" where
  "fs_sb_inv sb \<longleftrightarrow> (fsp_secure_boot_enabled sb \<longleftrightarrow> sde_cert_size (fsp_pk sb) \<noteq> 0) \<and> (fsp_setup_mode sb \<longleftrightarrow> \<not> fsp_secure_boot_enabled sb)
     \<and> \<not> fsp_audit_mode sb \<and> unat (fsp_kek_count sb) \<le> SB_MAX_CERTIFICATES \<and> unat (fsp_db_count sb) \<le> SB_MAX_SIGNATURES
     \<and> unat (fsp_dbx_count sb) \<le> SB_MAX_SIGNATURES \<and> length (fsp_kek sb) = SB_MAX_CERTIFICATES
     \<and> length (fsp_db sb) = SB_MAX_SIGNATURES \<and> length (fsp_dbx sb) = SB_MAX_SIGNATURES"

lemma cert_size_nonzero: "c \<noteq> [] \<Longrightarrow> length c \<le> SB_CERT_DATA_SIZE \<Longrightarrow> (of_nat (length c) :: u32) \<noteq> 0"
proof -
  assume c: "c \<noteq> []" "length c \<le> SB_CERT_DATA_SIZE"
  then have "unat (of_nat (length c) :: u32) = length c" by (simp add: unat_of_nat SB_CERT_DATA_SIZE_def)
  then show ?thesis using c(1) by (metis length_0_conv unat_0)
qed

lemma count_suc: "unat (n :: u8) < 16 \<Longrightarrow> unat (n + 1) = Suc (unat n)"
  by (rule unat_suc) simp

lemma fs_sb_step_inv:
  assumes "fs_sb_inv sb"
  shows "fs_sb_inv (fs_sb_step x sb)"
proof (cases x)
  case (Enroll_pk u c)
  then show ?thesis using assms cert_size_nonzero [of "the c"]
    by (auto simp: fs_sb_step_def fs_sb_enroll_pk_def bad_args_def store_entry_def fs_sb_inv_def not_less)
next
  case (Enroll_kek u c)
  then show ?thesis using assms
    by (auto simp: fs_sb_step_def fs_sb_enroll_kek_def fs_sb_inv_def Let_def not_le count_suc SB_MAX_CERTIFICATES_def)
next
  case (Enroll_db u c)
  then show ?thesis using assms
    by (auto simp: fs_sb_step_def fs_sb_enroll_db_def fs_sb_inv_def Let_def not_le count_suc SB_MAX_SIGNATURES_def)
next
  case (Enroll_dbx u c)
  then show ?thesis using assms
    by (auto simp: fs_sb_step_def fs_sb_enroll_dbx_def fs_sb_inv_def Let_def not_le count_suc SB_MAX_SIGNATURES_def)
next
  case (Delete_kek i)
  have "unat (fsp_kek_count sb - 1) = unat (fsp_kek_count sb) - 1" if "\<not> fsp_kek_count sb \<le> i"
    by (rule unat_minus_one) (use that in auto)
  then show ?thesis using assms Delete_kek
    by (auto simp: fs_sb_step_def sb_delete_kek_def fs_sb_inv_def Let_def not_le word_less_nat_alt)
qed (use assms in \<open>auto simp: fs_sb_step_def fs_sb_delete_pk_def sb_clear_secure_boot_keys_def sb_transition_to_user_mode_def
    sb_transition_to_deployed_mode_def fs_sb_inv_def zero_db_entry_def\<close>)

lemma fs_sb_run_inv: "fs_sb_inv (fs_sb_run xs)"
proof (induction xs rule: rev_induct)
  case Nil
  show ?case by (simp add: fs_sb_run_def fs_sb_init_def fs_sb_inv_def zero_db_entry_def)
next
  case (snoc x xs)
  then show ?case using fs_sb_step_inv by (simp add: fs_sb_run_def)
qed

text \<open>Clearing the keys of a deployed platform leaves it deployed, in setup mode, where it takes any key.\<close>

lemma clear_keeps_deployed:
  "fsp_deployed_mode sb \<Longrightarrow> fsp_deployed_mode (sb_clear_secure_boot_keys sb) \<and> fsp_setup_mode (sb_clear_secure_boot_keys sb)
    \<and> \<not> snd (fs_sb_delete_pk (fst (fs_sb_enroll_pk (sb_clear_secure_boot_keys sb) u c)))"
  by (simp add: sb_clear_secure_boot_keys_def fs_sb_enroll_pk_def fs_sb_delete_pk_def)

text \<open>Enrolling asks for no signature of the keys above.\<close>

lemma enroll_db_unchecked:
  assumes "fsp_kek_count sb \<noteq> 0" and "unat (fsp_db_count sb) < SB_MAX_SIGNATURES" and "c \<noteq> []" and "length c \<le> SB_CERT_DATA_SIZE"
  shows "snd (fs_sb_enroll_db sb (Some u) (Some c))"
  using assms by (simp add: fs_sb_enroll_db_def bad_args_def Let_def not_le not_less)

end
