(* ===== verification/Spec2Isabelle.thy ===== *)
theory Spec2Isabelle
  imports Boot_Sha256 Event_Log Crtm_Drtm Nv_Facts Tpm_Locality Boot_Memory Boot_Alloc Boot_Secure
    Boot_Compress Boot_Chain Psci Fw_Update Merkle_Pcr Fdt_Lookup Uefi_Sb Trust_Chain Key_Mgmt
    Boot_Policy Measured_Boot Tpm_Core Root_Of_Trust Fw_Capsule Attestation Boot_Config Boot_Elf Grub_Modules
    Boot_Stages Linux_Boot Flash_Layout Fit_Image Fw_Mmio Fw_Devices Mem_Train Acpi_Fw
    Verifier_Service Attest_Log Dice_Layers Rats_Appraisal
    Spi_Guard Iommu_Guard Fw_Resilience Smm_Guard Bmc_Me Fs_Secure_Boot
begin

text \<open>
  \<^bold>\<open>Verification of a teaching firmware and boot stack.\<close>

  The repository is a set of C libraries that imitate the parts of a boot chain.  This
  development models five of them as a whole, two more in part, and the promises between their
  modules:

  \<^item> the measured-boot library \<open>mini-measured-boot/src\<close>: SHA-256, the PCR bank, the TCG event
    log, the SRTM and DRTM flows that feed both, NV storage, sessions and authorization,
    keys with sealing, and attestation;
  \<^item> the bootloader \<open>mini-bootloader/src\<close>: memory map and page allocator, measurement log and
    certificates with a second SHA-256, decompression, disk access and chain loading, the boot
    menu, ELF images, loader modules, and the stages with the Linux boot protocol;
  \<^item> the firmware \<open>mini-firmware/src\<close>: the verified boot block with a third SHA-256, the A/B
    firmware update manager that relies on its signature check, the PSCI power calls, flash
    layout with its checksum, FIT images, MMIO, SPI flash, reset, memory training and the ACPI
    and SMBIOS builders;
  \<^item> the secure-boot library \<open>mini-secure-boot/src\<close>: RSA signatures over big integers, the UEFI
    Secure Boot variables, the boot chain of trust with FIT images, the key store, the policy
    engine, measured boot, a software TPM, the root of trust and capsule updates;
  \<^item> the remote attestation library \<open>mini-boot-attestation/src\<close>: quotes, identity keys with their
    credentials, challenges and verdicts, event logs, the Merkle tree over PCR values, DICE
    layers, RATS appraisal and the attestation service with its devices;
  \<^item> of the firmware security library \<open>mini-firmware-security/src\<close> the protection of the SPI flash,
    the IOMMU, firmware recovery, system management mode, the management controllers, and its
    own Secure Boot policy with the cryptography it brings;
  \<^item> of the hardware description library \<open>mini-hardware-desc/src\<close> the flattened
    device tree: parser, serialiser, lookups and bus address translation.

  \<^bold>\<open>Theories.\<close>

  \<^item> \<open>Prelude\<close>: machine words, buffers (\<open>blit\<close> is \<open>memcpy\<close>), byte orders, search for the first
    slot of a table, block processing; the type \<open>c_result\<close> of operations that may leave C's
    defined behaviour or not return.
  \<^item> \<open>Digest\<close>: the interfaces.  \<open>digest_fn\<close> is a hash with 32-byte results, \<open>registers\<close> a bank
    that only ever replaces a value \<open>v\<close> by \<open>hash (v @ d)\<close>; replay and binding of logs are
    proved once there.  Interpretations: \<open>sha\<close> and \<open>pcrs\<close> (\<open>Pcr_Bank\<close>), \<open>bsha\<close> and \<open>bpcrs\<close>
    (\<open>Boot_Secure\<close>), \<open>vbpcrs\<close> and \<open>vbchain\<close> (\<open>Boot_Block\<close>).
  \<^item> \<open>Sha256\<close>, \<open>Pcr_Bank\<close> (\<open>pcr_bank.c\<close>), \<open>Event_Log\<close> (\<open>event_log.c\<close>), \<open>Crtm_Drtm\<close>
    (\<open>crtm_drtm.c\<close>), \<open>Nv_Storage\<close> with its facts in \<open>Nv_Facts\<close> (\<open>nv_storage.c\<close>),
    \<open>Tpm_Locality\<close> (\<open>tpm_locality.c\<close>), \<open>Tpm_Keys\<close> (\<open>tpm_keys.c\<close>, \<open>tpm2_structs.c\<close>),
    \<open>Attestation\<close> (\<open>attestation.c\<close>).
  \<^item> \<open>Boot_Sha256\<close>, \<open>Boot_Secure\<close> (\<open>boot_secure.c\<close>), \<open>Boot_Memory\<close> and \<open>Boot_Alloc\<close>
    (\<open>boot_memory.c\<close>; interfaces \<open>qsort_contract\<close> and \<open>bitmap\<close>), \<open>Boot_Compress\<close>
    (\<open>boot_compress.c\<close>), \<open>Boot_Chain\<close> (\<open>boot_chain.c\<close>; interface \<open>block_device\<close>),
    \<open>Boot_Config\<close> (\<open>boot_config.c\<close>), \<open>Boot_Elf\<close> (\<open>boot_elf.c\<close>), \<open>Grub_Modules\<close> (\<open>grub_modules.c\<close>),
    \<open>Boot_Stages\<close> (\<open>stage1.c\<close>, \<open>stage2.c\<close>), \<open>Linux_Boot\<close> (\<open>linux_boot.c\<close>, \<open>filesys_boot.c\<close>).
  \<^item> \<open>Boot_Block\<close> (\<open>bootblock.c\<close>), \<open>Fw_Update\<close> (\<open>firmware_update.c\<close>), \<open>Psci\<close> (\<open>psci_fw.c\<close>),
    \<open>Fw_Crc\<close> and \<open>Flash_Layout\<close> (\<open>firmware_layout.c\<close>), \<open>Fit_Image\<close> (\<open>fit_image.c\<close>), \<open>Fw_Mmio\<close> (\<open>mmio.c\<close>),
    \<open>Fw_Devices\<close> (\<open>spi_nor.c\<close>, \<open>reset_vector.c\<close>, \<open>smbios_fw.c\<close>), \<open>Mem_Train\<close> (\<open>meminit.c\<close>),
    \<open>Acpi_Fw\<close> (\<open>acpi_fw.c\<close>; a table is its bytes).
  \<^item> \<open>Tpm_Quote\<close> (\<open>tpm_quote.c\<close>; interface \<open>order_blind\<close>, an accumulator whose steps commute),
    \<open>Aik_Identity\<close> (\<open>aik_identity.c\<close>), \<open>Attest_Protocol\<close> (\<open>attest_protocol.c\<close>), \<open>Verifier_Service\<close>
    (\<open>verifier_service.c\<close>, the entries as a map from devices), \<open>Attest_Log\<close> (\<open>eventlog.c\<close>, the second
    accumulator), \<open>Dice_Layers\<close> (\<open>dice.c\<close>; what the stack leaves in a key is a parameter),
    \<open>Rats_Appraisal\<close> (\<open>rats.c\<close>).
  \<^item> \<open>Merkle_Pcr\<close> (\<open>merkle_pcr.c\<close>): trees, inclusion proofs and their check, over the code's own
    node hash, which is not collision resistant.  \<open>Device_Tree\<close> (\<open>device_tree.c\<close>): nodes live in a
    heap indexed by allocation order; \<open>Fdt_Shape\<close> has the invariant of that heap (a child is
    allocated after its parent), \<open>Fdt_Roundtrip\<close> the serialiser against the parser,
    \<open>Fdt_Lookup\<close> paths, searches and ranges.
  \<^item> \<open>Sig_Bigint\<close>, \<open>Sig_Modexp\<close> and \<open>Sig_Verify\<close> (\<open>signature_verify.c\<close>): the big integers live in
    a store indexed by object, so that an operation whose result is one of its operands is the
    code's; \<open>Uefi_Sb\<close> (\<open>uefi_sb.c\<close>), \<open>Trust_Chain\<close> (\<open>trust_chain.c\<close>), \<open>Key_Mgmt\<close> (\<open>key_mgmt.c\<close>).
    \<open>Boot_Policy\<close> (\<open>boot_policy.c\<close>; interface \<open>policy_sort\<close>), \<open>Measured_Boot\<close>
    (\<open>measured_boot.c\<close>, registers \<open>mbpcrs\<close>), \<open>Tpm_Core\<close> (\<open>tpm.c\<close>, registers \<open>tpmregs\<close>),
    \<open>Root_Of_Trust\<close> (\<open>root_of_trust.c\<close>), \<open>Fw_Capsule\<close> (that library's \<open>firmware_update.c\<close>).

  \<^item> \<open>Spi_Guard\<close> (\<open>spi_protection.c\<close>, operations as an inductive step relation), \<open>Iommu_Guard\<close>
    (\<open>dma_attacks.c\<close>), \<open>Fw_Resilience\<close> (\<open>firmware_resiliency.c\<close>), \<open>Smm_Guard\<close> (\<open>smm_attacks.c\<close>;
    interface \<open>smi_handlers\<close>, what a handler may not change), \<open>Bmc_Me\<close> (\<open>bmc_me.c\<close>), \<open>Fs_Sha\<close>, \<open>Fs_Rsa\<close>
    and \<open>Fs_Secure_Boot\<close> (that library's \<open>secure_boot.c\<close>: hashes, signatures, policy).

  Each theory declares the records and datatypes of its headers, one definition per function
  with the source's name (a prefix where two files declare the same name), then the
  invariant of the state, the facts about each operation and, where there are several
  operations on one state, a datatype of operations and their runs.

  \<^bold>\<open>Conventions.\<close>  A struct is a record, an array of fixed length a list of that length, a
  buffer with its length one list, a C string a HOL string, an unsigned integer a word of its
  width.  A pointer the callers may pass as \<open>NULL\<close> is an option; the object an operation works
  on is always there, so the guard against its absence has no counterpart.  Codes read from
  memory that need not be enumerators stay words.  Printing has no counterpart.  What the code
  takes from outside is a parameter: the bytes of \<open>rand\<close>, whether \<open>calloc\<close> succeeds, the
  contents of a file, and \<open>qsort\<close>, of which only its contract is used (a sorted permutation;
  an insertion sort shows that it can be met).

  \<^bold>\<open>What is shown.\<close>  The four SHA-256 implementations compute one function, for messages cut
  into any chunks, and any state of their buffers before.  Registers are hash chains over
  accepted measurements, and the logs explain them: a log that verifies was recorded so, or a
  collision can be named.  The verified-boot chain gives its verdict by policy alone once its
  composites are its own, and binds its stage digests.  The update manager installs what it
  validated, keeps its tables, and fails over in a fixed order.  NV storage refines a partial
  map and honours locks, counters and round trips; authorization locks out.  The memory map
  keeps every address once with ordered regions, the allocator is first fit over its bitmap
  and gives pages back.  Decoders agree with reference semantics, stored gzip members round
  trip, the disk layer is a block device.  PSCI calls keep their table consistent.  The Merkle
  proofs the code makes verify, and one that verifies shows its leaf or names a collision.
  The device tree parser answers on every blob and keeps the shape of its heap, reads back what
  the serialiser writes, and the lookups and the address translation agree with their
  definitions on trees.  The arithmetic on big integers is exact modulo 2048 bits, where operands and
  result may share storage as the code says, the RSA check accepts nothing because its exponentiation
  does not keep to that, the Secure Boot variables never enforce anything, a chain is
  authorised by the digests of its components, keys only move along their life cycle, and key
  derivation is RFC 5869 for up to 254 blocks.  A policy is decided by its first satisfied
  rule, its templates allow what is listed; measurements explain the registers while the log
  has room; a quote binds the registers it selects and nobody who made it; a locked root of
  trust stays locked; the version floor of capsules never falls.  Key derivation is the counter
  mode of SP 800-108, sealed data come back under the same registers, an honest quote verifies and
  so do forged and replayed ones.  The boot menu stays in its tables and reads back what is
  written, ELF segments land where they belong, and modules are ordered whenever they can be.
  The firmware's checksum is the bitwise CRC-32 but for one entry of its table, and notices every
  change within four bytes; wear is spread evenly; MMIO is a memory; the ACPI builders keep
  every checksum valid.  The attestation service is a map of devices and trusts what nobody
  signed; the hashes of that library see neither order nor pairs; a DICE chain certifies the
  keys derived layer by layer, and verifies whatever its signatures are.  A locked flash keeps its
  protected bytes, whoever writes, and all of them against a host that lost its write enable; a
  device reaches the pages of the domain it was mapped to, at its first byte; recovery ends in the
  recorded or the golden image; SMRAM is never locked.  The hashes of the firmware security library
  are not those of FIPS 180-4, its signature checks accept nothing, and its verdict on an image
  is one of digests alone.
  Lemmas stated beside the properties record where the code does less than it says: a
  reserved region that becomes free, a double free that underflows a counter, a Huffman block
  that is accepted without output, sector offsets that wrap, a recovery that overlooks a
  bootable slot, a phandle of a node that its children overwrite.

  \<^bold>\<open>Bounds and fuel.\<close>  Loops are structural recursion or have a measure, with fuel in two
  places; running out of it would be \<open>Diverges\<close>.  The exponentiation of \<open>Sig_Bigint\<close> and the
  block loop of \<open>Key_Mgmt\<close>, whose counter may wrap for ever, are \<open>while_option\<close>, with no result
  when the loop does not end.  \<open>deflate_loop\<close> of \<open>Boot_Compress\<close> consumes
  at least one input byte in every iteration, so the input length plus one is enough.
  \<open>fdt_parse_struct\<close> of \<open>Device_Tree\<close> moves its position with every token, so the blob length
  plus one is enough; the searches and the walks to the root take the number of nodes, which
  bounds the depth of a node because a parent has a smaller index.  \<open>next_power_of_two\<close> of
  \<open>Merkle_Pcr\<close> does not return above 128, which its callers exclude.  The 32-bit loop
  indices of the update functions restrict their buffers to fewer than \<open>2 ^ 32\<close> bytes.

  \<^bold>\<open>Not modelled.\<close>  In the other libraries (BIOS and UEFI,
  boot process, hardware description, and of firmware security the TPM attestation and the
  integration layer) everything but
  the modules named above: they are independent of each other and of what is modelled.  The
  AML interpreter (\<open>acpi_aml.c\<close>) reads unions through members that were not written, which no
  faithful definition can follow.
\<close>

section \<open>SHA-256\<close>

text \<open>
  C1.  Streaming SHA-256 is SHA-256: whatever a caller's context held before, initialising it,
  feeding a message in any number of chunks of any sizes through \<open>sha256_update\<close> and
  finalising returns the FIPS 180-4 digest of the concatenation.
\<close>

theorem sha256_streaming_correct:
  assumes "length (ctx_data ctx) = 64"
  shows "snd (sha256_final (fold (\<lambda>chunk c. sha256_update c chunk) chunks (sha256_init ctx)))
    = sha256_spec (concat chunks)"
  using sha256_final_correct [OF sha256_repr_updates [OF sha256_repr_init [OF assms]]] by simp

theorem sha256_streaming_correct_witness:
  "snd (sha256_final (fold (\<lambda>chunk c. sha256_update c chunk) [[1, 2], [], [3]]
      (sha256_init \<lparr>ctx_data = replicate 64 0xAA, ctx_datalen = 7, ctx_bitlen = 9, ctx_state = []\<rparr>)))
    = sha256_spec [1, 2, 3]"
  by (subst sha256_streaming_correct) simp_all

text \<open>
  C2.  The other three SHA-256 implementations compute the same function.  The bootloader's, with
  another buffering scheme (whole blocks hashed straight from the input, a byte count instead of
  a bit count), agrees with the measured-boot library however the message is cut into chunks;
  the one-shot functions of the boot block and of the secure-boot library do for every buffer a
  32-bit length can describe, whatever their uninitialised block buffers held.
\<close>

theorem sha256_implementations_agree:
  "snd (boot_sha256_final (fold (\<lambda>chunk c. boot_sha256_update c chunk) chunks boot_sha256_init))
      = sha256_hash (concat chunks)
    \<and> (length junk = 64 \<and> length data < 2 ^ 32 \<longrightarrow> vb_sha256_hash_from junk data = sha256_hash data)
    \<and> (length (vctx_buffer ctx) = 64 \<and> length data < 2 ^ 32 \<longrightarrow> sv_sha256_hash_from ctx data = sha256_hash data)"
  using boot_sha256_final_correct [OF boot_sha256_repr_updates [OF boot_sha256_repr_init]]
  by (simp add: sha256_hash_correct vb_sha256_hash_from_correct sv_sha256_hash_from_correct)

theorem sha256_implementations_agree_witness:
  "vb_sha256_hash_from (replicate 64 0xCC) (replicate 100 7) = sha256_hash (replicate 100 7)"
  using sha256_implementations_agree [of "[]" "replicate 64 0xCC" "replicate 100 7"] by simp

section \<open>PCR bank\<close>

text \<open>
  What \<open>pcr_extend\<close> does on every branch.  It accepts exactly an index below 24 with
  non-empty data in a SHA-256 bank; then the register reads as the hash of its old value and
  the hash of the data, and no other register changes; a refused extend changes nothing.
\<close>

lemma pcr_extend_functional:
  assumes "pcr_bank_wf bank"
  shows "(snd (pcr_extend bank i d) \<longleftrightarrow>
            unat i < 24 \<and> (\<exists>x. d = Some x \<and> x \<noteq> []) \<and> pb_hash_alg bank = TPM_ALG_SHA256)
    \<and> pcr_read (fst (pcr_extend bank i d)) j =
        (if snd (pcr_extend bank i d) \<and> j = i
         then map_option (\<lambda>old. sha256_hash (old @ sha256_hash (the d))) (pcr_read bank i)
         else pcr_read bank j)"
proof (cases "snd (pcr_extend bank i d)")
  case True
  then obtain x where "d = Some x" by (auto simp: pcr_extend_accepts)
  then show ?thesis using pcr_extend_accepts pcr_extend_read [OF assms] True by auto
next
  case False
  then show ?thesis using pcr_extend_accepts pcr_extend_rejected by metis
qed

text \<open>
  A static register is append-only: after any run of extends and resets of the bank,
  registers 0 to 16 and 23 hold the hash chain, from their old value, over exactly the data the
  accepted extends put into them, in order; no reset reaches them.
\<close>

lemma pcr_static_append_only:
  assumes "pcr_bank_ready bank" and "j < 24" and "j < 17 \<or> 22 < j"
  shows "pcr_value (fold pcr_exec ops bank) j
    = chain sha256_hash (pcr_value bank j) (map sha256_hash (concat (map (pcr_extended j) ops)))"
  using assms by (rule pcr_run_value)

text \<open>
  \<open>pcr_reset\<close> succeeds exactly for the dynamic registers 17 to 22, zeroes the register it
  is given and leaves every other one, and changes nothing when it is refused.
\<close>

lemma pcr_reset_functional:
  assumes "pcr_bank_wf bank"
  shows "(snd (pcr_reset bank i) \<longleftrightarrow> 17 \<le> unat i \<and> unat i \<le> 22)
    \<and> pcr_read (fst (pcr_reset bank i)) j =
        (if snd (pcr_reset bank i) \<and> j = i then Some (zeros 32) else pcr_read bank j)"
proof -
  have acc: "snd (pcr_reset bank i) \<longleftrightarrow> 17 \<le> unat i \<and> unat i \<le> 22"
    by (simp add: pcr_reset_def word_less_nat_alt not_less)
  have "unat j < 24" if "17 \<le> unat j \<and> unat j \<le> 22" using that by simp
  then show ?thesis
    using assms unfolding acc
    by (auto simp: pcr_reset_def pcr_read_def pcr_bank_wf_def PCR_COUNT_def word_less_nat_alt word_le_nat_alt
        nth_list_update word_unat_eq_iff)
qed

section \<open>Event log\<close>

text \<open>
  Verification of a register against a log succeeds exactly when the expected value is
  the hash chain over the digests recorded for that register, from zeros.
\<close>

lemma event_log_verify_correct:
  assumes "event_log_wf log"
  shows "event_log_verify_pcr log i expected TPM_ALG_SHA256 \<longleftrightarrow>
    unat i < 24 \<and> take 32 expected = chain sha256_hash (zeros 32) (map sha256_hash (log_digests log (unat i)))"
  by (rule event_log_verify_iff [OF assms])

text \<open>
  C3.  Tamper evidence: if two logs with the same number of events for a register both verify
  against the same value, then they record digests with the same hashes in the same order, or
  the two replays contain a SHA-256 collision at the same step.
\<close>

theorem event_log_tamper_evident:
  assumes "event_log_wf log" and "event_log_wf log'"
    and "event_log_verify_pcr log i expected TPM_ALG_SHA256"
    and "event_log_verify_pcr log' i expected TPM_ALG_SHA256"
    and "length (log_digests log (unat i)) = length (log_digests log' (unat i))"
  shows "map sha256_hash (log_digests log (unat i)) = map sha256_hash (log_digests log' (unat i))
    \<or> collides sha256_hash
        (chain_inputs sha256_hash (zeros 32) (map sha256_hash (log_digests log (unat i))))
        (chain_inputs sha256_hash (zeros 32) (map sha256_hash (log_digests log' (unat i))))"
proof -
  have "chain sha256_hash (zeros 32) (map sha256_hash (log_digests log (unat i)))
      = chain sha256_hash (zeros 32) (map sha256_hash (log_digests log' (unat i)))"
    using assms(3,4) event_log_verify_iff [OF assms(1)] event_log_verify_iff [OF assms(2)] by simp
  then show ?thesis
    using sha.chain_binding [of "zeros 32" "zeros 32" "map sha256_hash (log_digests log (unat i))"
        "map sha256_hash (log_digests log' (unat i))"] assms(5)
    by (auto simp: zeros_def)
qed

text \<open>Two logs with one event each, of the same digest but different type and log version.\<close>

definition example_log :: "u16 \<Rightarrow> u32 \<Rightarrow> TCGEventLog" where
  "example_log v t = fst (event_log_add (event_log_init v) 0 t (zeros 32) None 0)"

lemma example_log_digests: "event_log_wf (example_log v t)" "log_digests (example_log v t) 0 = [zeros 32]"
proof -
  show "event_log_wf (example_log v t)" unfolding example_log_def by (rule event_log_wf_add [OF event_log_wf_init]) (simp add: zeros_def)
  show "log_digests (example_log v t) 0 = [zeros 32]"
    by (simp add: example_log_def event_log_add_def event_log_init_def log_digests_def log_entries_def recorded_events_def
        MAX_EVENTS_def MAX_EVENT_DATA_SIZE_def Let_def take_Suc_conv_app_nth zeros_def)
qed

theorem event_log_tamper_evident_witness:
  "let v = sha256_hash (zeros 32 @ sha256_hash (zeros 32)) in
     event_log_verify_pcr (example_log 2 1) 0 v TPM_ALG_SHA256 \<and> event_log_verify_pcr (example_log 1 3) 0 v TPM_ALG_SHA256
     \<and> (map sha256_hash (log_digests (example_log 2 1) 0) = map sha256_hash (log_digests (example_log 1 3) 0)
        \<or> collides sha256_hash
            (chain_inputs sha256_hash (zeros 32) (map sha256_hash (log_digests (example_log 2 1) 0)))
            (chain_inputs sha256_hash (zeros 32) (map sha256_hash (log_digests (example_log 1 3) 0))))"
proof -
  let ?v = "sha256_hash (zeros 32 @ sha256_hash (zeros 32))"
  have v: "event_log_verify_pcr (example_log v t) 0 ?v TPM_ALG_SHA256" for v t
    unfolding event_log_verify_iff [OF example_log_digests(1)] by (simp add: example_log_digests(2))
  show ?thesis
    using event_log_tamper_evident [OF example_log_digests(1) example_log_digests(1) v [of 2 1] v [of 1 3]] v
    by (simp add: example_log_digests(2) Let_def)
qed

section \<open>Measured boot flows\<close>

text \<open>
  C4.  After any sequence of at most 128 SRTM measurements from a fresh bank and log, the log
  verifies against the bank in every register except PCR 8.
\<close>

theorem srtm_boot_log_verifies:
  assumes "length ss \<le> 128" and "\<forall>s \<in> set ss. length (srtm_payload s) = 32" and "unat i < 24" and "i \<noteq> 8"
  shows "event_log_verify_pcr (sf_log (srtm_boot v ss)) i (pcr_value (sf_bank (srtm_boot v ss)) (unat i)) TPM_ALG_SHA256"
  using assms by (rule srtm_boot_verifies)

theorem srtm_boot_log_verifies_witness:
  "event_log_verify_pcr (sf_log (srtm_boot 2 [Bios (zeros 32), Mbr (zeros 32), Os (zeros 32)])) 4
     (pcr_value (sf_bank (srtm_boot 2 [Bios (zeros 32), Mbr (zeros 32), Os (zeros 32)])) (unat (4 :: u32))) TPM_ALG_SHA256"
  by (rule srtm_boot_log_verifies) (simp_all add: zeros_def)

text \<open>
  PCR 8 is the exception: \<open>srtm_measure_mbr\<close> extends the MBR into PCR 8 without logging it
  there, so a correct boot fails verification of PCR 8, unless SHA-256 returns zeros on it.
\<close>

lemma srtm_mbr_pcr8_unlogged:
  assumes "length m = 32"
  shows "event_log_verify_pcr (sf_log (srtm_boot v [Mbr m])) 8 (pcr_value (sf_bank (srtm_boot v [Mbr m])) 8) TPM_ALG_SHA256
    \<longleftrightarrow> sha256_hash (zeros 32 @ sha256_hash m) = zeros 32"
  unfolding event_log_verify_iff [OF srtm_mbr_gap(2) [OF assms]] srtm_mbr_gap(1) [OF assms]
  using srtm_mbr_gap(3) [OF assms] by simp

text \<open>
  A dynamic launch: after any sequence of at most 128 DRTM measurements the log verifies
  against the bank in every register, and \<open>txt_verify_launch\<close> reports success exactly when
  the MLE was measured at some point.
\<close>

lemma drtm_boot_log_verifies:
  assumes "length ss \<le> 128" and "\<forall>s \<in> set ss. length (drtm_payload s) = 32" and "unat i < 24"
  shows "event_log_verify_pcr (df_log (drtm_boot v ss)) i (pcr_value (df_bank (drtm_boot v ss)) (unat i)) TPM_ALG_SHA256
    \<and> (txt_verify_launch (drtm_boot v ss) \<longleftrightarrow> (\<exists>m. Mle m \<in> set ss))"
  using drtm_boot_verifies [OF assms] txt_verify_launch_iff_mle
  by (simp add: drtm_boot_def txt_verify_launch_def drtm_flow_init_def)

section \<open>Verified boot\<close>

text \<open>
  C5.  The verdict on a boot chain: from an initialised chain, after any run of rule, key, chain,
  PCR and verification operations, every composite is the hash chain over the stage digests
  from the root of trust, so that verification succeeds exactly when the policy allows every
  recorded stage (its version, the anti-rollback and the status rules); it records its
  verdict.
\<close>

theorem vb_chain_verdict:
  assumes "length rot = 32" and "\<forall>op \<in> set ops. vb_op_ok op"
  shows "let vc = vb_run ops (fst (vb_init_chain vc0 (Some rot))) in
    (\<forall>i < length (vb_stages vc). hc_composite (vb_stages vc ! i)
        = chain vb_composite rot (map hc_hash (take (Suc i) (vb_stages vc)))) \<and>
    (snd (vb_verify_chain vc) \<longleftrightarrow> (\<forall>e \<in> set (vb_stages vc). policy_allows (vc_policy vc) e)) \<and>
    vc_chain_valid (fst (vb_verify_chain vc)) = snd (vb_verify_chain vc)"
proof -
  define vc where "vc = vb_run ops (fst (vb_init_chain vc0 (Some rot)))"
  have inv: "vb_wf vc" "vb_composites_ok vc"
    unfolding vc_def using vb_run_inv [OF vb_init_chain_inv [OF assms(1)] assms(2), of vc0] by auto
  have "vc_root_of_trust_hash vc = rot"
    by (simp add: vc_def vb_run_root vb_init_chain_def)
  then show ?thesis
    using inv vb_verify_chain_iff [OF inv(1)]
    unfolding vc_def [symmetric] Let_def by (simp add: vb_composites_ok_def vb_verify_chain_frame)
qed

definition example_chain :: "u32 \<Rightarrow> VerificationChain" where
  "example_chain v =
     vb_run [Vb_Extend BOOT_STAGE_RESET (Some (zeros 32)) v,
             Vb_Add_Rule (Some \<lparr>br_type = BOOT_RULE_ANTI_ROLLBACK, br_applies_to = BOOT_STAGE_RESET,
                                br_config = 3 # zeros 31\<rparr>)]
       (fst (vb_init_chain undefined (Some (zeros 32))))"

text \<open>The example: one stage of version \<open>v\<close>, under a rule that demands version 3.\<close>

lemma example_chain_facts:
  "vb_wf (example_chain v)" "vb_composites_ok (example_chain v)"
  "vc_root_of_trust_hash (example_chain v) = zeros 32"
  "\<exists>x. vb_stages (example_chain v) = [x] \<and> hc_composite x = vb_sha256_hash (zeros 32 @ zeros 32) \<and>
     (policy_allows (vc_policy (example_chain v)) x \<longleftrightarrow> 3 \<le> v)"
proof -
  let ?ini = "fst (vb_init_chain undefined (Some (zeros 32)))"
  let ?r = "\<lparr>br_type = BOOT_RULE_ANTI_ROLLBACK, br_applies_to = BOOT_STAGE_RESET, br_config = 3 # zeros 31\<rparr>"
  have cfg: "le32_at (3 # zeros 31) 0 = 3" by (simp add: le32_at_def le32_def)
  have ini: "vc_chain_length ?ini = 0" "vc_policy ?ini = vb_init_policy True True" "length (vc_chain ?ini) = 8"
    "vc_root_of_trust_hash ?ini = zeros 32"
    by (simp_all add: vb_init_chain_def BOOTBLOCK_MAX_STAGES_def)
  have chn: "example_chain v = (fst (vb_extend_chain ?ini BOOT_STAGE_RESET (Some (zeros 32)) v))
      \<lparr>vc_policy := fst (vb_add_policy_rule (vb_init_policy True True) (Some ?r))\<rparr>"
    by (simp add: example_chain_def vb_run_def vb_extend_chain_eq Let_def ini)
  show "vb_wf (example_chain v)" "vb_composites_ok (example_chain v)"
    using vb_run_inv [OF vb_init_chain_inv [of "zeros 32"]] by (simp_all add: example_chain_def)
  show "vc_root_of_trust_hash (example_chain v) = zeros 32"
    using ini by (simp add: example_chain_def vb_run_root)
  show "\<exists>x. vb_stages (example_chain v) = [x] \<and> hc_composite x = vb_sha256_hash (zeros 32 @ zeros 32) \<and>
     (policy_allows (vc_policy (example_chain v)) x \<longleftrightarrow> 3 \<le> v)"
    using ini
    by (auto simp: chn vb_stages_def vb_extend_chain_eq Let_def take_Suc_conv_app_nth policy_allows_def rule_allows_def
        vb_add_policy_rule_rules vb_init_policy_rules cfg zero_rule_def
        BOOT_RULE_ANTI_ROLLBACK_def BOOT_RULE_REQUIRE_SIGNATURE_def)
qed

theorem vb_chain_verdict_witness:
  "snd (vb_verify_chain (example_chain 4)) \<and> \<not> snd (vb_verify_chain (example_chain 2))"
proof -
  have "snd (vb_verify_chain (example_chain v)) \<longleftrightarrow>
      (\<forall>e \<in> set (vb_stages (example_chain v)). policy_allows (vc_policy (example_chain v)) e)" for v
    using vb_chain_verdict [of "zeros 32"
        "[Vb_Extend BOOT_STAGE_RESET (Some (zeros 32)) v,
          Vb_Add_Rule (Some \<lparr>br_type = BOOT_RULE_ANTI_ROLLBACK, br_applies_to = BOOT_STAGE_RESET,
                             br_config = 3 # zeros 31\<rparr>)]" undefined]
    unfolding Let_def example_chain_def [symmetric] by simp
  then show ?thesis using example_chain_facts(4) [of 4] example_chain_facts(4) [of 2] by auto
qed

text \<open>
  The chain binds its stages: two chains with the same root of trust and as many stages that
  both verify and end in the same composite recorded the same stage digests, or at one of
  the stages there are two different 64-byte inputs with the same SHA-256.
\<close>

lemma vb_chain_tamper_evident:
  assumes "vb_wf vc" and "vb_wf vc'" and "snd (vb_verify_chain vc)" and "snd (vb_verify_chain vc')"
    and "vc_root_of_trust_hash vc = vc_root_of_trust_hash vc'"
    and "length (vb_stages vc) = length (vb_stages vc')" and "vb_stages vc \<noteq> []"
    and "hc_composite (last (vb_stages vc)) = hc_composite (last (vb_stages vc'))"
  shows "map hc_hash (vb_stages vc) = map hc_hash (vb_stages vc') \<or>
    (\<exists>i < length (vb_stages vc). vb_hash_input vc i \<noteq> vb_hash_input vc' i \<and>
       vb_sha256_hash (vb_hash_input vc i) = vb_sha256_hash (vb_hash_input vc' i))"
  using vb_chain_binding [OF assms(1,2) _ _ assms(5-8)] assms(3,4)
  by (simp add: vb_verify_chain_iff assms(1,2))

text \<open>
  The PCR log explains the registers: the first 24 measurements of a run that name a
  register below 24 are logged, in order, and every register is the hash chain from zero over
  its logged measurements; everything else leaves registers and log alone.
\<close>

lemma vb_pcr_log_correct:
  assumes "length rot = 32" and "\<forall>op \<in> set ops. vb_op_ok op" and "j < 24"
  shows "let log = vc_pcr_log (vb_run ops (fst (vb_init_chain vc0 (Some rot)))) in
    vb_log_entries log = take 24 (vb_measurements ops) \<and>
    pl_pcr_values log ! j
      = chain vb_sha256_hash (zeros 32) (map snd (filter (\<lambda>(i, m). i = j) (take 24 (vb_measurements ops))))"
proof -
  define vc where "vc = vb_run ops (fst (vb_init_chain vc0 (Some rot)))"
  note init = vb_init_chain_inv [OF assms(1), of vc0]
  have log: "vb_log_wf (vc_pcr_log vc)"
    using vb_run_inv [OF init assms(2)] by (simp add: vc_def vb_wf_def)
  have "vb_log_entries (vc_pcr_log (fst (vb_init_chain vc0 (Some rot)))) = []"
    by (simp add: vb_init_chain_def vb_init_pcr_log_def vb_log_entries_def)
  then have "vb_log_entries (vc_pcr_log vc) = take 24 (vb_measurements ops)"
    using vb_run_entries [OF init assms(2)] by (simp add: vc_def)
  then show ?thesis
    using vb_log_value [OF log assms(3)] unfolding vc_def [symmetric] Let_def by (simp add: vb_log_digests_def)
qed

text \<open>
  The life of a signing key: a key registered under a new fingerprint of at most 32 bytes
  can be revoked by it, and from then on every signature checked against its record is
  refused.  A longer fingerprint is truncated on registration but not on revocation, so the
  revocation of such a key is refused and the key stays valid.
\<close>

lemma vb_key_lifecycle:
  assumes "vb_wf vc" and "fp \<noteq> []" and "unat (vc_num_trusted_keys vc) < 8" and "length fp < 2 ^ 32"
    and "\<forall>k \<in> set (vb_keys vc). \<not> key_matches fp k"
  shows "let vc1 = fst (vb_register_key vc (Some fp)); r = vb_revoke_key vc1 (Some fp) in
    length (vb_keys (fst r)) = Suc (length (vb_keys vc)) \<and>
    (if length fp \<le> 32
     then snd r \<and> vb_verify_signature (Some d) (Some s) (Some (last (vb_keys (fst r)))) = VERIFY_ERR_KEY_REVOKED
     else \<not> snd r \<and> fst r = vc1 \<and> \<not> pk_revoked (last (vb_keys (fst r))))"
proof -
  let ?vc1 = "fst (vb_register_key vc (Some fp))" and ?n = "length (vb_keys vc)"
  note reg = vb_register_key_keys [OF assms(1-3)]
  obtain k where k: "vb_keys ?vc1 = vb_keys vc @ [k]" "pk_fingerprint_len k = of_nat (min (length fp) 32)"
    "take (min (length fp) 32) (pk_fingerprint k) = take 32 fp" "\<not> pk_revoked k"
    using reg(2) by blast
  have none: "find_index (key_matches fp) (vb_keys vc) = None"
    using assms(5) by (simp add: find_index_None_iff)
  show ?thesis
  proof (cases "length fp \<le> 32")
    case True
    then have "key_matches fp k" using k by (simp add: key_matches_def min_def)
    then have f: "find_index (key_matches fp) (vb_keys ?vc1) = Some ?n"
      using none by (simp add: k(1) find_index_append)
    have ok: "vb_revoke_key ?vc1 (Some fp) = (fst (vb_revoke_key ?vc1 (Some fp)), True)"
      using vb_revoke_key_keys(1) [OF reg(3), of fp] by (simp add: f)
    have "vb_keys (fst (vb_revoke_key ?vc1 (Some fp)))
        = vb_keys vc @ [k\<lparr>pk_revoked := True, pk_revocation_count := pk_revocation_count k + 1\<rparr>]"
      unfolding vb_revoke_key_keys(2) [OF reg(3) f] k(1) by simp
    then show ?thesis
      using True arg_cong [OF ok, of snd] by (simp add: Let_def vb_verify_signature_def)
  next
    case False
    then have "(of_nat 32 :: u32) \<noteq> of_nat (length fp)"
      using assms(4) by (subst word_unat_eq_iff) (simp add: unat_of_nat)
    then have "\<not> key_matches fp k" using False k(2) by (simp add: key_matches_def min_def)
    then have "find_index (key_matches fp) (vb_keys ?vc1) = None"
      using none by (simp add: k(1) find_index_append)
    then have "vb_revoke_key ?vc1 (Some fp) = (?vc1, False)"
      using vb_revoke_key_keys(1) [OF reg(3), of fp] by simp
    then show ?thesis using False k by simp
  qed
qed

section \<open>Firmware update\<close>

text \<open>
  The update manager never leaves its tables: after set-up, every run of set-up, capsule,
  boot report and recovery operations returns, and keeps three slots under their own
  identifiers, unbootable marks only on slots that are not bootable, at most eight history
  records, and a pending capsule only for slot A or B.
\<close>

lemma fw_update_run_invariant:
  "\<exists>m. fw_run (Fw_Setup ao as bo bs ro rs # ops) fw_update_init = Returned m \<and> fw_inv m"
  using fw_run_inv [OF fw_inv_setup [of fw_update_init ao as bo bs ro rs], of ops] by simp

text \<open>
  C6.  A capsule that validates bears the mark the key puts on the digest of its payload, in the
  first byte of its signature, the only one the code looks at; the key is not revoked, the
  capsule is not older than the active firmware and fits its slot, A or B; applying it then makes exactly that slot active,
  with the capsule's version and hash, fresh counters and bootable; the images, versions and
  counters of the other slots stay, and if only the active slot was marked active before,
  only the new one is.
\<close>

theorem fw_update_capsule_installs:
  assumes inv: "fw_inv mgr" and v: "fw_update_validate_capsule mgr (Some c) (Some k) = (m1, True)"
  shows "\<exists>m2 t. fw_update_apply_capsule m1 = Returned (m2, True) \<and> slot_of (fc_target_slot c) = Some t \<and>
    t \<in> {FW_SLOT_A, FW_SLOT_B} \<and> \<not> pk_revoked k \<and>
    fc_signature c ! 0 = fc_payload_hash c ! 0 XOR pk_fingerprint k ! 0 XOR 0x55 \<and>
    0 < fc_payload_size c \<and> fc_payload_size c \<le> FW_UPDATE_MAX_PAYLOAD \<and>
    unat (fc_payload_size c) \<le> unat (fs_size (get_slot mgr t)) \<and>
    active_slot m2 = t \<and> fs_status (get_slot m2 t) = SLOT_STATUS_ACTIVE \<and> fs_bootable (get_slot m2 t) \<and>
    fs_version (get_slot m2 t) = fc_fw_version c \<and> fs_fw_hash (get_slot m2 t) = fc_payload_hash c \<and>
    fs_boot_attempts (get_slot m2 t) = 0 \<and>
    fs_version (get_slot mgr (active_slot mgr)) \<le> fs_version (get_slot m2 (active_slot m2)) \<and>
    (\<forall>s. s \<noteq> t \<longrightarrow> (get_slot m2 s)\<lparr>fs_status := st\<rparr> = (get_slot mgr s)\<lparr>fs_status := st\<rparr>) \<and>
    ((\<forall>s. fs_status (get_slot mgr s) = SLOT_STATUS_ACTIVE \<longrightarrow> s = active_slot mgr) \<longrightarrow>
      (\<forall>s. fs_status (get_slot m2 s) = SLOT_STATUS_ACTIVE \<longrightarrow> s = t))"
proof -
  note acc = fw_validate_accepts [OF v]
  obtain t where t: "slot_of (fc_target_slot c) = Some t" "t \<in> {FW_SLOT_A, FW_SLOT_B}"
    "unat (fc_payload_size c) \<le> unat (fs_size (get_slot mgr t))"
    using acc(6) by blast
  have key: "\<not> pk_revoked k" "fc_signature c ! 0 = fc_payload_hash c ! 0 XOR pk_fingerprint k ! 0 XOR 0x55"
    using acc(2) by (auto simp: vb_verify_signature_def Let_def split: if_splits)
  have size: "0 < fc_payload_size c" "fc_payload_size c \<le> FW_UPDATE_MAX_PAYLOAD" using acc(4,5) by (simp_all add: word_gt_0)
  have g: "get_slot m1 s = get_slot mgr s" for s by (simp add: acc(1))
  have inv1: "fw_inv m1" using fw_inv_validate [OF inv, of "Some c" "Some k"] by (simp add: v)
  have p: "fu_update_in_progress m1" and cap: "fu_current_capsule m1 = c" by (simp_all add: acc(1))
  have t1: "slot_of (fc_target_slot (fu_current_capsule m1)) = Some t" by (simp add: cap t)
  obtain m2 d where m2: "fw_update_apply_capsule m1 = Returned (m2, True)" "active_slot m2 = t"
    and gt: "get_slot m2 t = (get_slot m1 t)\<lparr>fs_version := fc_fw_version c,
        fs_fw_hash := fc_payload_hash c, fs_status := SLOT_STATUS_ACTIVE,
        fs_boot_attempts := 0, fs_successful_boots := 0, fs_bootable := True\<rparr>"
    and gs: "\<forall>s. s \<noteq> t \<longrightarrow> get_slot m2 s =
        (if d = Some s then (get_slot m1 s)\<lparr>fs_status := SLOT_STATUS_STANDBY\<rparr> else get_slot m1 s)"
    and d: "\<forall>x. d = Some x \<longrightarrow> fs_status (get_slot m1 x) = SLOT_STATUS_ACTIVE"
      "d = None \<longrightarrow> (\<forall>x. x \<noteq> t \<longrightarrow> fs_status (get_slot m1 x) \<noteq> SLOT_STATUS_ACTIVE)"
    using fw_update_apply_slots [OF inv1 p t1] unfolding cap by blast
  have "s = t" if one: "\<forall>s. fs_status (get_slot mgr s) = SLOT_STATUS_ACTIVE \<longrightarrow> s = active_slot mgr"
      and a: "fs_status (get_slot m2 s) = SLOT_STATUS_ACTIVE" for s
    using a gs d one by (cases d; cases "s = t") (auto simp: g split: if_splits)
  moreover have "\<forall>s. s \<noteq> t \<longrightarrow> (get_slot m2 s)\<lparr>fs_status := st\<rparr> = (get_slot mgr s)\<lparr>fs_status := st\<rparr>"
    using gs by (simp add: g)
  ultimately show ?thesis
    using m2 gt t acc(3) key size by (intro exI [of _ m2] exI [of _ t]) auto
qed

definition example_setup :: FwUpdateManager where
  "example_setup = fst (fw_update_setup_slots fw_update_init 0x400000 0x600000 0xA00000 0x600000 0 0x100000)"

definition example_capsule :: FirmwareCapsule where
  "example_capsule = zero_capsule\<lparr>fc_header := \<lparr>ch_guid = zeros 16, ch_header_size = 28, ch_flags = 0,
      ch_capsule_image_size = 332\<rparr>, fc_payload_size := 1000, fc_target_slot := 1, fc_fw_version := 5,
     fc_signature := 0x55 # zeros 255\<rparr>"

theorem fw_update_capsule_installs_witness:
  "\<exists>m2. fw_update_apply_capsule (fst (fw_update_validate_capsule example_setup (Some example_capsule) (Some zero_key)))
      = Returned (m2, True) \<and> fs_version (get_slot m2 FW_SLOT_B) = 5 \<and> active_slot m2 = FW_SLOT_B"
proof -
  have inv: "fw_inv example_setup" unfolding example_setup_def by (rule fw_inv_setup) simp
  have "fs_version (get_slot example_setup FW_SLOT_A) = 1" "fs_size (get_slot example_setup FW_SLOT_B) = 0x600000"
    "active_slot example_setup = FW_SLOT_A"
    by (simp_all add: example_setup_def fw_update_setup_slots_def fw_init_slot Let_def)
  then have "snd (fw_update_validate_capsule example_setup (Some example_capsule) (Some zero_key))"
    by (simp add: fw_update_validate_capsule_def example_capsule_def zero_capsule_def sizeof_CapsuleHeader_def
        sizeof_FirmwareCapsule_def FW_UPDATE_MAX_PAYLOAD_def vb_verify_signature_def zero_key_def slot_of_def)
  then have v: "fw_update_validate_capsule example_setup (Some example_capsule) (Some zero_key)
      = (fst (fw_update_validate_capsule example_setup (Some example_capsule) (Some zero_key)), True)"
    by (metis prod.collapse)
  obtain m2 t where m2: "fw_update_apply_capsule (fst (fw_update_validate_capsule example_setup (Some example_capsule)
        (Some zero_key))) = Returned (m2, True)" "slot_of (fc_target_slot example_capsule) = Some t"
      "active_slot m2 = t" "fs_version (get_slot m2 t) = fc_fw_version example_capsule"
    using fw_update_capsule_installs [OF inv v, of SLOT_STATUS_ACTIVE] by blast
  then have "t = FW_SLOT_B" by (simp add: example_capsule_def slot_of_def)
  then show ?thesis using m2 by (simp add: example_capsule_def)
qed

text \<open>
  C7.  Failover: with all three slots bootable and untried and slot A or B active, a series of
  \<open>n\<close> failed boots keeps the slot for fewer than the allowed number of attempts, then uses the
  other one for as many, then recovery, and gives up on slot A after that.
\<close>

theorem fw_update_failover:
  assumes "fw_phase M a 0 {other_slot a, FW_SLOT_RECOVERY} mgr"
  shows "active_slot (fw_fails n mgr) =
    (if n < M then a else if n < 2 * M then other_slot a else if n < 3 * M then FW_SLOT_RECOVERY else FW_SLOT_A)"
  by (rule fw_failover [OF assms])

theorem fw_update_failover_witness:
  "active_slot (fw_fails 6 example_setup) = FW_SLOT_A \<and> active_slot (fw_fails 13 example_setup) = FW_SLOT_B \<and>
   active_slot (fw_fails 20 example_setup) = FW_SLOT_RECOVERY"
  using fw_update_failover [OF fw_setup_phase] by (simp add: example_setup_def other_slot_def)

text \<open>
  Slot selection prefers the active slot, then the other main slot (slot A when recovery is
  active), then recovery; unless recovery is the active slot, it finds a bootable slot
  whenever there is one.
\<close>

lemma fw_update_select_correct:
  assumes "fw_inv mgr"
  shows "fw_update_select_boot_slot mgr =
      (if fs_bootable (get_slot mgr (active_slot mgr)) then active_slot mgr
       else if fs_bootable (get_slot mgr (other_slot (active_slot mgr))) then other_slot (active_slot mgr)
       else if fs_bootable (get_slot mgr FW_SLOT_RECOVERY) then FW_SLOT_RECOVERY
       else FW_SLOT_A)
    \<and> (active_slot mgr \<noteq> FW_SLOT_RECOVERY \<and> (\<exists>s. fs_bootable (get_slot mgr s)) \<longrightarrow>
        fs_bootable (get_slot mgr (fw_update_select_boot_slot mgr)))"
  using fw_select_eq [OF assms] fw_select_bootable [OF assms] by blast

text \<open>
  The exception is reachable: slot A fails out, recovery is entered by hand and fails out too;
  then the unbootable slot A is selected although slot B still boots.
\<close>

lemma fw_recovery_skips_slot_b:
  "let m = fw_fails 7 (fw_update_enter_recovery (fw_fails 7 example_setup))
   in active_slot m = FW_SLOT_A \<and> \<not> fs_bootable (get_slot m FW_SLOT_A) \<and> fs_bootable (get_slot m FW_SLOT_B)"
proof -
  have "fw_phase 7 FW_SLOT_B 0 {FW_SLOT_RECOVERY} (fw_fails 7 example_setup)"
    unfolding example_setup_def
    using fw_phase_fails_next [OF fw_setup_phase, of FW_SLOT_B] by (simp add: other_slot_def insert_Diff_if)
  from fw_phase_fails [OF fw_phase_recovery [OF this], of 6]
  have p: "fw_phase 7 FW_SLOT_RECOVERY 6 {FW_SLOT_B} (fw_fails 6 (fw_update_enter_recovery (fw_fails 7 example_setup)))"
    by simp
  note l = fw_phase_last [OF p]
  show ?thesis
    using p l(3) [of FW_SLOT_A] l(3) [of FW_SLOT_B] l(5) fw_fails_Suc [of 6]
    by (simp add: fw_phase_def other_slot_def Let_def)
qed

section \<open>NV storage\<close>

text \<open>
  C8.  Every run of NV commands keeps the storage well formed: at most 32 indices packed at
  the front of the array with distinct handles of the NV range, data and authorization values
  inside their buffers, cleared slots behind them.
\<close>

theorem nv_run_invariant: "nv_wf (fold nv_exec ops nv_storage_init)"
  by (rule nv_run_wf [OF nv_wf_init])

text \<open>
  C9.  The array of indices implements a partial map from handles: defining a space adds one
  entry for a new handle or changes nothing, undefining removes one entry or changes nothing.
\<close>

theorem nv_define_undefine_refine_map:
  assumes "nv_wf nv"
  shows "(case nv_define_space nv h t a ds av as pol of
      (nv', None) \<Rightarrow> nv' = nv
    | (nv', Some slot) \<Rightarrow> nv_map nv h = None \<and>
        (\<exists>idx. nv_map nv' = (nv_map nv)(h \<mapsto> idx) \<and> nvi_type idx = t \<and> nvi_attributes idx = a
           \<and> nvi_data_size idx = ds \<and> nvi_data_len idx = 0))
    \<and> (case nv_undefine_space nv h auth of
      (nv', False) \<Rightarrow> nv' = nv
    | (nv', True) \<Rightarrow> nv_map nv h \<noteq> None \<and> nv_map nv' = (nv_map nv)(h := None))"
proof
  show "case nv_define_space nv h t a ds av as pol of
      (nv', None) \<Rightarrow> nv' = nv
    | (nv', Some slot) \<Rightarrow> nv_map nv h = None \<and>
        (\<exists>idx. nv_map nv' = (nv_map nv)(h \<mapsto> idx) \<and> nvi_type idx = t \<and> nvi_attributes idx = a
           \<and> nvi_data_size idx = ds \<and> nvi_data_len idx = 0)"
    using nv_define_cases [OF assms, of h t a ds av as pol]
  proof (elim disjE exE conjE)
    fix idx
    assume "nv_index_ok idx" "nvi_handle idx = h" "unat (nv_index_count nv) < NV_MAX_INDICES" "nv_map nv h = None"
      "nvi_type idx = t" "nvi_attributes idx = a" "nvi_data_size idx = ds" "nvi_data_len idx = 0"
      and "nv_define_space nv h t a ds av as pol =
        (nv\<lparr>nv_indices := (nv_indices nv)[unat (nv_index_count nv) := idx], nv_index_count := nv_index_count nv + 1\<rparr>,
         Some (nv_index_count nv))"
    then show ?thesis using nv_add_slot(2) [OF assms] by (simp, blast)
  qed simp
  show "case nv_undefine_space nv h auth of
      (nv', False) \<Rightarrow> nv' = nv
    | (nv', True) \<Rightarrow> nv_map nv h \<noteq> None \<and> nv_map nv' = (nv_map nv)(h := None)"
    using nv_undefine_cases [of nv h auth] nv_removed_facts(2) [OF assms] nv_find_map by fastforce
qed

theorem nv_define_undefine_refine_map_witness:
  "nv_map (fst (nv_undefine_space (nv_first 0x01000001 NV_TYPE_ORDINARY 0 8) 0x01000001 NV_AUTH_OWNER)) = Map.empty"
proof -
  note f = nv_first_facts [of 8 "0x01000001" NV_TYPE_ORDINARY 0]
  have "snd (nv_undefine_space (nv_first 0x01000001 NV_TYPE_ORDINARY 0 8) 0x01000001 NV_AUTH_OWNER)"
    using f(4,5) by (simp add: nv_undefine_space_def Let_def nv_attr_def nv_first_index_def)
  then show ?thesis
    using nv_define_undefine_refine_map [OF f(1), of "0x01000001" NV_TYPE_ORDINARY 0 0 None 0 None NV_AUTH_OWNER]
      f(2) by (auto split: prod.splits bool.splits)
qed

text \<open>
  C10.  A write-locked index is frozen: whatever commands run, as long as the index is not
  undefined, it stays locked and its data and length do not change.
\<close>

theorem nv_write_lock_freezes:
  assumes "nv_wf nv" and "nv_map nv h \<noteq> None" and "\<forall>op \<in> set ops. \<not> nv_undefines op h"
    and "nv_write_lock nv h = (nv', ok)"
  shows "\<exists>idx idx'. nv_map nv h = Some idx \<and> nv_map (fold nv_exec ops nv') h = Some idx'
    \<and> nvi_write_locked idx' \<and> nvi_data idx' = nvi_data idx \<and> nvi_data_len idx' = nvi_data_len idx"
proof -
  obtain idx where m: "nv_map nv h = Some idx" using assms(2) by auto
  obtain p where p: "nv_find_index nv h = Some p" "idx = nv_indices nv ! p" "nv_index_ok idx" "nvi_handle idx = h"
    using nv_map_SomeE [OF assms(1) m] by metis
  let ?i = "idx\<lparr>nvi_write_locked := True, nvi_attributes := nvi_attributes idx OR NV_ATTR_WRITELOCKED\<rparr>"
  have n: "nv' = nv_put nv p ?i" using assms(4) p by (simp add: nv_write_lock_def Let_def)
  have ok: "nv_index_ok ?i" "nvi_handle ?i = h" using p(3,4) by (simp_all add: nv_index_ok_def)
  obtain idx' where "nv_map (fold nv_exec ops nv') h = Some idx'" "nv_change\<^sup>*\<^sup>* ?i idx'"
    using nv_run_index [of nv' h ?i ops] nv_put_wf [OF assms(1) p(1) ok] nv_put_map [OF assms(1) p(1) ok] assms(3) n
    by auto
  then show ?thesis using m nv_changes_locked [of ?i idx'] by auto
qed

theorem nv_write_lock_freezes_witness:
  "\<exists>idx'. nv_map (fold nv_exec [Write 0x01000001 (Some [1]) NV_AUTH_OWNER None]
        (fst (nv_write_lock (nv_first 0x01000001 NV_TYPE_ORDINARY NV_ATTR_OWNERWRITE 8) 0x01000001))) 0x01000001 = Some idx'
    \<and> nvi_data idx' = zeros 1024"
  using nv_write_lock_freezes [of "nv_first 0x01000001 NV_TYPE_ORDINARY NV_ATTR_OWNERWRITE 8" "0x01000001"
      "[Write 0x01000001 (Some [1]) NV_AUTH_OWNER None]"
      "fst (nv_write_lock (nv_first 0x01000001 NV_TYPE_ORDINARY NV_ATTR_OWNERWRITE 8) 0x01000001)"
      "snd (nv_write_lock (nv_first 0x01000001 NV_TYPE_ORDINARY NV_ATTR_OWNERWRITE 8) 0x01000001)"]
    nv_first_facts(1,2) [of 8 "0x01000001" NV_TYPE_ORDINARY NV_ATTR_OWNERWRITE]
  by (auto simp: nv_first_index_def nv_empty_index_def)

text \<open>
  Counters are monotone: over any run of commands that does not undefine the index, a
  counter index stays a counter and its value does not go down.
\<close>

lemma nv_counter_monotone:
  assumes "nv_wf nv" and "nv_map nv h = Some idx" and "nvi_type idx = NV_TYPE_COUNTER"
    and "\<forall>op \<in> set ops. \<not> nv_undefines op h"
  shows "\<exists>idx'. nv_map (fold nv_exec ops nv) h = Some idx' \<and> nvi_type idx' = NV_TYPE_COUNTER
    \<and> nv_counter_value idx \<le> nv_counter_value idx'"
proof -
  obtain idx' where "nv_map (fold nv_exec ops nv) h = Some idx'" "nv_change\<^sup>*\<^sup>* idx idx'"
    using nv_run_index [OF assms(1,2,4)] by blast
  moreover have "nv_index_ok idx" using nv_map_SomeE [OF assms(1,2)] by blast
  ultimately show ?thesis using nv_changes_counter assms(3) by blast
qed

text \<open>
  What a successful write stores, an authorized read returns: the bytes written, in
  full, whatever the index held before.
\<close>

lemma nv_write_read_roundtrip:
  assumes "nv_wf nv" and "nv_write nv h (Some d) auth av = (nv', True)"
    and "nv_map nv' h = Some idx" and "nv_check_read_access idx auth' av'"
  shows "snd (nv_read nv' h auth' av') = Some d"
proof -
  obtain idx0 where i: "nv_map nv' = (nv_map nv)(h \<mapsto> nv_store idx0 d)" "nv_index_ok idx0"
      "length d \<le> unat (nvi_data_size idx0)" "nv_wf nv'"
    using nv_write_map [OF assms(1,2)] by metis
  have "idx = nv_store idx0 d" using assms(3) i(1) by simp
  moreover have "length d \<le> 1024" using i(2,3) by (simp add: nv_index_ok_def)
  ultimately show ?thesis
    using nv_read_map [OF i(4) assms(3)] assms(4) i(2)
    by (simp add: small_length_word nv_index_ok_def take_blit_0)
qed

text \<open>
  A counter can be incremented without any authorization: the increment succeeds exactly
  when the index is a counter, is not write-locked and is below its maximum; neither the
  access attributes nor the global lock are consulted, and the result is the old value plus one.
\<close>

lemma nv_increment_functional:
  assumes "nv_wf nv" and "nv_map nv h = Some idx"
  shows "snd (nv_counter_increment nv h) =
    (if nvi_type idx = NV_TYPE_COUNTER \<and> \<not> nvi_write_locked idx \<and> nv_counter_value idx < 0xFFFFFFFF
     then Some (nv_counter_value idx + 1) else None)"
  using assms by (rule nv_increment_map)

section \<open>Authorization\<close>

text \<open>
  Every run of session and authorization commands keeps the manager consistent: the
  session count is the number of active slots, an active slot has the handle of its position,
  and the locality is one of 0 to 4.
\<close>

lemma auth_run_invariant: "auth_wf (fold auth_exec ops tpm_auth_manager_init)"
  by (rule auth_run_wf [OF auth_wf_init])

text \<open>
  Lockout: from a manager with \<open>k\<close> failures on record, a sequence of wrong attempts
  that does not pass the maximum locks exactly when it reaches the maximum, and from then on
  every command, with the right authorization too, is refused, whatever else runs.
\<close>

lemma auth_lockout:
  assumes "\<not> am_lockout_active mgr" and "\<forall>(c, r) \<in> set crs. wrong_attempt c r"
    and "unat (am_lockout_counter mgr) + length crs \<le> unat (am_max_auth_fail mgr)" and "crs \<noteq> []"
  shows "(am_lockout_active (fold attempt crs mgr) \<longleftrightarrow>
      unat (am_lockout_counter mgr) + length crs = unat (am_max_auth_fail mgr))
    \<and> (am_lockout_active (fold attempt crs mgr) \<longrightarrow>
         \<not> snd (tpm_authorize_command (fold auth_exec ops (fold attempt crs mgr)) (Some c) (Some r)))"
  using wrong_attempts_count [OF assms(2,1,3)] assms(4) auth_run_locked [of "fold attempt crs mgr" ops]
  by (simp add: tpm_authorize_cases)

definition wrong_password :: "TPMAuthCommand \<times> bytes" where
  "wrong_password = (\<lparr>tc_session_handle = 0, tc_nonce = zeros 32, tc_session_attributes = 0,
     tc_auth_value = zeros 32, tc_auth_value_size = 1\<rparr>, [7])"

text \<open>
  \<open>tpm_policy_or\<close> accepts a count of eight, one more than its buffer of eight digests
  can take beside the session's own: on an existing session the copy then overruns the buffer
  exactly for that count, and with one to seven digests the policy becomes the hash of the old
  policy and the digests.
\<close>

lemma tpm_policy_or_bounds:
  assumes "tpm_find_session mgr h = Some i"
  shows "(snd (tpm_policy_or mgr h (Some d) cnt) = Overrun \<longleftrightarrow> cnt = 8)
    \<and> (snd (tpm_policy_or mgr h (Some d) cnt) = Accepted \<longleftrightarrow> 1 \<le> cnt \<and> cnt \<le> 7)
    \<and> (snd (tpm_policy_or mgr h (Some d) cnt) = Accepted \<longrightarrow>
         ts_policy_digest (am_sessions (fst (tpm_policy_or mgr h (Some d) cnt)) ! i)
           = sha256_hash (ts_policy_digest (am_sessions mgr ! i) @ take (32 * unat cnt) d))"
proof -
  have n: "unat (cnt * 32) = 32 * unat cnt" if "cnt \<le> 8"
    using that by (simp add: unat_word_ariths word_le_nat_alt)
  have z: "cnt = 0 \<longleftrightarrow> unat cnt = 0" and e: "cnt = 8 \<longleftrightarrow> unat cnt = 8"
    by (simp_all add: word_unat_eq_iff)
  have i: "i < length (am_sessions mgr)" using tpm_find_sessionD [OF assms] by simp
  show ?thesis
  proof (cases "cnt \<le> 8")
    case True
    then show ?thesis using assms i n [OF True] z e
      by (auto simp: tpm_policy_or_def tpm_set_session_def Let_def word_le_nat_alt word_less_nat_alt)
  next
    case False
    then show ?thesis using z e by (auto simp: tpm_policy_or_def word_le_nat_alt word_less_nat_alt)
  qed
qed

text \<open>
  A session that starts gets a handle no active session had, and can be found under it.
\<close>

lemma tpm_session_handles_fresh:
  assumes "auth_wf mgr" and "tpm_start_auth_session mgr a t r1 r2 = (mgr', Some h)"
  shows "tpm_find_session mgr h = None \<and> tpm_find_session mgr' h \<noteq> None"
  using tpm_start_find [OF assms] by simp

section \<open>Memory map\<close>

text \<open>
  C11.  Sanitising a memory map of non-wrapping regions leaves non-empty, ordered, disjoint
  regions that cover exactly the addresses the regions covered before, for every sort that
  \<open>qsort\<close> may be.
\<close>

theorem bootmem_sanitize_correct:
  assumes "qsort_contract srt" and "\<forall>r \<in> set (bm_regions mm). region_ok r"
  shows "laid_out (bm_regions (fst (bootmem_sanitize srt mm)))
    \<and> covers (bm_regions (fst (bootmem_sanitize srt mm))) = covers (bm_regions mm)"
  using qsort_contract.bootmem_sanitize_regions [OF assms] by simp

definition example_map :: BootMemoryMap where
  "example_map = bootmem_init\<lparr>bm_regions :=
     [\<lparr>mr_base = 0x9000, mr_length = 0x1000, mr_type = 2\<rparr>, \<lparr>mr_base = 0, mr_length = 0xA000, mr_type = 1\<rparr>]\<rparr>"

theorem bootmem_sanitize_correct_witness:
  "covers (bm_regions (fst (bootmem_sanitize memregion_qsort example_map))) = {0..<0xA000}"
proof -
  have "\<forall>r \<in> set (bm_regions example_map). region_ok r" by (simp add: example_map_def region_ok_def)
  from bootmem_sanitize_correct [OF mq.qsort_contract_axioms this] show ?thesis
    by (auto simp: example_map_def region_end_def)
qed

text \<open>
  The statistics after sanitising are exact: the total is the number of addresses
  covered, the free memory the number of addresses in free regions, and free and reserved
  memory add up to the total.
\<close>

lemma bootmem_sanitize_statistics:
  assumes "qsort_contract srt" and "\<forall>r \<in> set (bm_regions mm). region_ok r" and "bm_regions mm \<noteq> []"
  shows "unat (bm_total_memory (fst (bootmem_sanitize srt mm))) = card (covers (bm_regions mm))
    \<and> unat (bm_free_memory (fst (bootmem_sanitize srt mm)))
        = card (covers_as MEMTYPE_FREE (bm_regions (fst (bootmem_sanitize srt mm))))
    \<and> bm_free_memory (fst (bootmem_sanitize srt mm)) + bm_reserved_memory (fst (bootmem_sanitize srt mm))
        = bm_total_memory (fst (bootmem_sanitize srt mm))"
  using qsort_contract.bootmem_sanitize_stats [OF assms] qsort_contract.bootmem_sanitize_regions(2) [OF assms(1,2)]
  by simp

text \<open>
  Overlaps are resolved by address, not by type: a reserved region inside a free one
  disappears, so the sanitised map reports reserved addresses as free.
\<close>

lemma bootmem_sanitize_frees_reserved:
  "covers_as MEMTYPE_FREE (bm_regions (fst (bootmem_sanitize memregion_qsort example_map))) = {0..<0xA000}
   \<and> bm_regions (fst (bootmem_sanitize memregion_qsort example_map)) = [\<lparr>mr_base = 0, mr_length = 0xA000, mr_type = 1\<rparr>]"
  by (simp add: bootmem_sanitize_def bootmem_sort_def memregion_qsort_def example_map_def Let_def sanitize_step_def
      stat_step_def bootmem_init_def MEMTYPE_FREE_def region_end_def)

text \<open>
  Merging keeps, for every type, the set of addresses of that type, keeps the regions
  non-wrapping, and leaves no two neighbouring regions of one type that touch.
\<close>

lemma bootmem_merge_correct:
  assumes "qsort_contract srt" and "\<forall>r \<in> set (bm_regions mm). region_ok r"
  shows "covers_as t (bm_regions (fst (bootmem_merge_adjacent srt mm))) = covers_as t (bm_regions mm)
    \<and> successively (\<lambda>a b. \<not> touching a b) (bm_regions (fst (bootmem_merge_adjacent srt mm)))
    \<and> (\<forall>r \<in> set (bm_regions (fst (bootmem_merge_adjacent srt mm))). region_ok r)"
  using qsort_contract.bootmem_merge_regions [OF assms] by simp

text \<open>
  An available range is free: when \<open>bootmem_is_available\<close> says yes, the range does not
  wrap and every address in it lies in a free region.
\<close>

lemma bootmem_available_sound:
  assumes "\<forall>r \<in> set (bm_regions mm). region_ok r" and "bootmem_is_available mm addr n"
  shows "{unat addr ..< unat addr + unat n} \<subseteq> covers_as MEMTYPE_FREE (bm_regions mm)"
  using assms by (rule bootmem_is_available_sound)

section \<open>Page allocator\<close>

text \<open>
  First fit: on a consistent allocator with enough free pages, \<open>bootmem_alloc_pages\<close>
  returns the address of the lowest run of unused pages of the size asked for and marks
  exactly that run, or returns 0 and changes nothing when there is no such run; it always
  returns and never reads outside the bitmap, and the allocator stays consistent.
\<close>

lemma bootmem_alloc_first_fit:
  assumes "pages_wf st" and "0 < unat n" and "unat n \<le> unat (bp_free_pages st)"
  shows "pages_wf (fst (bootmem_alloc_pages st n)) \<and>
    ((\<exists>i. i + unat n \<le> unat (bp_total_pages st) \<and> {i..<i + unat n} \<inter> used_pages st = {}
        \<and> (\<forall>m < i. {m..<m + unat n} \<inter> used_pages st \<noteq> {})
        \<and> snd (bootmem_alloc_pages st n) = Returned (page_addr st i)
        \<and> used_pages (fst (bootmem_alloc_pages st n)) = used_pages st \<union> {i..<i + unat n})
      \<or> (\<forall>m. m + unat n \<le> unat (bp_total_pages st) \<longrightarrow> {m..<m + unat n} \<inter> used_pages st \<noteq> {})
        \<and> bootmem_alloc_pages st n = (st, Returned 0))"
  using pages_wf_alloc [OF assms(1)] alloc_pages_facts [OF assms] by blast

text \<open>
  Freeing what was allocated gives the pages back: the used pages and the number of free
  pages are again what they were before the allocation, and the allocator is consistent.
\<close>

lemma bootmem_alloc_free_roundtrip:
  assumes "pages_wf st" and "0 < unat n" and "unat n \<le> unat (bp_free_pages st)"
    and "unat (bp_heap_base st) + 4096 * unat (bp_total_pages st) < 2 ^ 64"
    and "bootmem_alloc_pages st n = (st', Returned a)" and "st' \<noteq> st"
  shows "snd (bootmem_free_pages st' a n) = Returned True
    \<and> used_pages (fst (bootmem_free_pages st' a n)) = used_pages st
    \<and> bp_free_pages (fst (bootmem_free_pages st' a n)) = bp_free_pages st
    \<and> pages_wf (fst (bootmem_free_pages st' a n))"
proof -
  obtain i where i: "i + unat n \<le> unat (bp_total_pages st)" "{i..<i + unat n} \<inter> used_pages st = {}"
      "a = page_addr st i" "used_pages st' = used_pages st \<union> {i..<i + unat n}"
    using alloc_pages_facts [OF assms(1-3)] assms(5,6) by auto
  have st: "bp_total_pages st' = bp_total_pages st" "bp_heap_base st' = bp_heap_base st"
    using alloc_pages_static [of st n] assms(5) by simp_all
  have wf: "pages_wf st'" using pages_wf_alloc [OF assms(1), of n] assms(5) by simp
  have fr: "bp_free_pages st' = bp_free_pages st - n"
    using alloc_pages_free_count [OF assms(1-3), of i] i(2,4) assms(5) by simp
  have a: "a = page_addr st' i" using i(3) st by (simp add: page_addr_def)
  have fits: "unat (bp_heap_base st') + 4096 * unat (bp_total_pages st') < 2 ^ 64" using assms(4) st by simp
  have "i + unat n \<le> unat (bp_total_pages st')" using i(1) st by simp
  note f = free_pages_facts [OF wf fits assms(2) this]
  show ?thesis using f i(2,4) fr by (auto simp: a)
qed

text \<open>
  \<open>bootmem_free_pages\<close> does not look at the bitmap: freeing pages that are not in use
  is accepted and raises the free count past the truth, so the allocator is inconsistent.
\<close>

lemma bootmem_double_free:
  assumes "pages_wf st" and "unat (bp_heap_base st) + 4096 * unat (bp_total_pages st) < 2 ^ 64"
    and "0 < unat n" and "i + unat n \<le> unat (bp_total_pages st)" and "{i..<i + unat n} \<inter> used_pages st = {}"
  shows "snd (bootmem_free_pages st (page_addr st i) n) = Returned True
    \<and> used_pages (fst (bootmem_free_pages st (page_addr st i) n)) = used_pages st
    \<and> bp_free_pages (fst (bootmem_free_pages st (page_addr st i) n)) = bp_free_pages st + n"
  using free_pages_facts [OF assms(1-4)] assms(5) by auto

section \<open>Boot measurements and certificates\<close>

text \<open>
  The bootloader's measurement log explains its PCR bank: after any sequence of
  measurements, failed ones included, a register verifies against a value exactly when at
  least one event was recorded for it and the value is the hash chain over the recorded digests.
\<close>

lemma boot_measure_log_correct:
  "boot_measure_verify (measure_all evs boot_measure_init) i (Some e) \<longleftrightarrow>
     unat i < 24 \<and> boot_log_digests (measure_all evs boot_measure_init) (unat i) \<noteq> []
     \<and> take 32 e = chain boot_sha256_hash (zeros 32) (boot_log_digests (measure_all evs boot_measure_init) (unat i))"
  by (rule boot_measure_verify_iff [OF boot_log_wf_run [OF boot_log_wf_init]])

text \<open>
  A certificate chain is accepted exactly when it is not empty, every certificate in it
  is trusted and each one's issuer is the next one's subject.
\<close>

lemma boot_cert_chain_correct:
  "boot_cert_check_chain (Some cs) \<longleftrightarrow>
     cs \<noteq> [] \<and> (\<forall>c \<in> set cs. bc_trusted c) \<and> successively (\<lambda>a b. bc_issuer a = bc_subject b) cs"
  by (rule boot_cert_check_chain_iff)

section \<open>Decompression\<close>

text \<open>
  C12.  LZ77 decoding succeeds exactly when every back reference points into what has been
  decoded before it and the result fits the buffer; then the output is the expansion of the
  tokens one after the other, overlapping copies repeating their window.
\<close>

theorem lz77_decompress_correct:
  "snd (lz77_decompress (Some ts) max_out) =
     (if lz77_refs_ok 0 ts \<and> sum_list (map lz77_token_len ts) \<le> unat max_out
      then Some (of_nat (length (fold lz77_expand ts []))) else None)
   \<and> length (fst (lz77_decompress (Some ts) max_out)) \<le> unat max_out
   \<and> (snd (lz77_decompress (Some ts) max_out) \<noteq> None \<longrightarrow>
        fst (lz77_decompress (Some ts) max_out) = fold lz77_expand ts [])"
  using lz77_loop_correct [of "[]" "unat max_out" ts] lz77_loop_bounded [of "[]" "unat max_out" ts]
  by (cases "lz77_loop (unat max_out) ts []") (auto simp: lz77_decompress_def)

theorem lz77_decompress_correct_witness:
  "fst (lz77_decompress (Some [\<lparr>lz_length = 0, lz_distance = 0, lz_literal = 7, lz_is_literal = True\<rparr>,
      \<lparr>lz_length = 4, lz_distance = 1, lz_literal = 0, lz_is_literal = False\<rparr>]) 100) = [7, 7, 7, 7, 7]"
proof -
  let ?ts = "[\<lparr>lz_length = 0, lz_distance = 0, lz_literal = 7, lz_is_literal = True\<rparr>,
      \<lparr>lz_length = 4, lz_distance = 1, lz_literal = 0, lz_is_literal = False\<rparr>]"
  have ok: "lz77_refs_ok 0 ?ts \<and> sum_list (map lz77_token_len ?ts) \<le> unat (100 :: u32)" by simp
  have out: "fold lz77_expand ?ts [] = [7, 7, 7, 7, 7]" by (simp add: lz77_expand_def repeat_tail_def upt_rec)
  show ?thesis using lz77_decompress_correct [of ?ts 100] unfolding if_P [OF ok] out by blast
qed

text \<open>
  Run-length decoding of pairs with non-zero counts, whatever ends them (the end of the
  input, an odd byte, or a zero count followed by anything), writes each value as often as its
  count says, when that fits, and fails with a full buffer when it does not.
\<close>

lemma rle_decompress_correct:
  assumes "\<forall>(n, v) \<in> set ps. n \<noteq> 0" and "rle_end rest"
  shows "rle_decompress (Some (rle_pairs ps @ rest)) max_out =
    (if length (rle_meaning ps) \<le> unat max_out
     then (rle_meaning ps, Some (of_nat (length (rle_meaning ps))))
     else (take (unat max_out) (rle_meaning ps), None))"
  using rle_loop_correct [OF assms, of "[]" "unat max_out"] by (simp add: rle_decompress_def)

text \<open>
  Round trip of the bzImage path: a gzip member around any non-empty sequence of stored
  blocks of at most 65535 bytes, with any trailer, decompresses to the concatenation of the
  blocks at the start of the output buffer, and reports its length; the loop ends.
\<close>

lemma decompress_bzimage_roundtrip:
  assumes "cs \<noteq> []" and "\<forall>d \<in> set cs. length d < 65536"
    and "length (gzip_member mtime (stored_stream cs) trailer) < 2 ^ 31"
    and "length (concat cs) \<le> unat output_size" and "unat output_size \<le> length outp" and "unat output_size < 2 ^ 31"
  shows "decompress_bzimage (Some (gzip_member mtime (stored_stream cs) trailer)) (Some outp) output_size
    = (Some (blit outp 0 (concat cs)), Returned (Some (of_nat (length (concat cs)))))"
  using assms by (rule decompress_bzimage_stored)

text \<open>
  A payload compressed with Huffman codes is not decompressed, and the caller is not
  told: when the first block is of such a type, \<open>decompress_bzimage\<close> returns success and size 0.
\<close>

lemma decompress_bzimage_huffman_silent:
  assumes "b AND 0x06 = 2 \<or> b AND 0x06 = (4 :: u8)" and "length (gzip_member mtime (b # s) trailer) < 2 ^ 31"
  shows "decompress_bzimage (Some (gzip_member mtime (b # s) trailer)) (Some outp) output_size
    = (Some outp, Returned (Some 0))"
  using assms by (rule decompress_bzimage_huffman)

text \<open>
  Decompression of a payload returns, with success or failure, for every compressed buffer
  that leaves the positions room below \<open>2 ^ 32\<close>: each stored block moves the input position.
\<close>

lemma decompress_bzimage_returns:
  assumes "length c + 65536 \<le> 2 ^ 32"
  shows "\<exists>r. snd (decompress_bzimage (Some c) out n) = Returned r"
  by (rule decompress_bzimage_returns_aux [OF assms])

section \<open>Disk access\<close>

text \<open>
  CHS and LBA addresses translate back and forth: every LBA whose cylinder fits 16 bits,
  and every CHS address of the geometry, survives the round trip.
\<close>

lemma chs_lba_inverse:
  assumes "heads \<noteq> 0" and "spt \<noteq> 0"
  shows "(unat lba div (unat heads * unat spt) < 65536 \<longrightarrow> lba_from_chs (chs_from_lba lba heads spt) heads spt = lba)
    \<and> (chs_head c < heads \<longrightarrow> 1 \<le> chs_sector c \<longrightarrow> chs_sector c \<le> spt \<longrightarrow>
         chs_from_lba (lba_from_chs c heads spt) heads spt = c)"
  using lba_chs_roundtrip [OF assms] chs_lba_roundtrip by blast

text \<open>
  Sector I/O is a block device: after any sequence of writes to sectors of the disk, a
  sector reads as the last data written to it, or as before when none was.
\<close>

lemma sector_io_block_device:
  assumes "disk_wf io" and "\<forall>(k, b) \<in> set ws. on_disk io k \<and> length b = 512" and "on_disk io lba"
  shows "sector_data (fold (\<lambda>(k, b) d. sector_put d k b) ws io) lba
    = (case map_of (rev ws) lba of Some b \<Rightarrow> Some b | None \<Rightarrow> sector_data io lba)"
  using assms by (rule sectors.read_writes)

text \<open>
  The byte offset of a sector is computed in 32 bits: reading LBA \<open>2 ^ 23 + n\<close> returns
  what reading LBA \<open>n\<close> returns, where a read past the end of the disk should be refused.
\<close>

lemma sector_read_wraps: "snd (sector_read io (lba + 0x800000)) = snd (sector_read io lba)"
  by (rule sector_read_alias)

text \<open>
  Chain loading accepts a boot sector on the disk exactly when its last two bytes are
  0x55 and 0xAA.
\<close>

lemma chain_load_signature:
  assumes "disk_wf io" and "on_disk io (ucast (ct_start_lba t))"
    and "sector_data io (ucast (ct_start_lba t)) = Some s"
  shows "snd (chain_load_boot_sector io (Some t)) = Returned (s ! 510 = 0x55 \<and> s ! 511 = 0xAA)"
  using assms by (rule chain_load_on_disk)

section \<open>PSCI\<close>

text \<open>
  Every run of PSCI calls keeps the firmware consistent: at most 256 CPUs, each powered
  on or off between calls; and, as long as no system call intervenes, the number of CPUs that
  are on is the number of successful CPU_ON calls less that of CPU_OFF calls.
\<close>

lemma psci_run_invariant:
  "psci_wf (fold psci_exec ops (psci_init major minor))
   \<and> ((\<forall>op \<in> set ops. \<not> psci_op_system op) \<longrightarrow> psci_balanced (fold psci_exec ops (psci_init major minor)))"
proof -
  have "psci_balanced (psci_init major minor)" by (simp add: psci_balanced_def cpus_on_def psci_live_def psci_init_def)
  then show ?thesis using psci_run_wf [OF psci_wf_init] psci_run_balanced [OF psci_wf_init] by blast
qed

text \<open>
  CPU_ON on every branch: an unknown MPIDR, a CPU that is on already and a zero entry
  point are refused with their codes and change nothing; otherwise the CPU is on afterwards,
  and no CPU found by another MPIDR changes its power state.
\<close>

lemma psci_cpu_on_correct:
  assumes "psci_wf psci" and "psci_call_cpu_on psci m e c = (psci', r)"
  shows "case psci_state psci m of
       None \<Rightarrow> r = PSCI_INVALID_PARAMS \<and> psci' = psci
     | Some s \<Rightarrow>
         if s = AFFINITY_STATE_ON then r = PSCI_ALREADY_ON \<and> psci' = psci
         else if e = 0 then r = PSCI_INVALID_ADDRESS \<and> psci' = psci
         else r = PSCI_SUCCESS \<and> psci_state psci' = (psci_state psci)(m \<mapsto> AFFINITY_STATE_ON)"
  using assms by (rule psci_cpu_on_functional)

section \<open>Merkle tree over PCR values\<close>

text \<open>
  C13.  Completeness of the inclusion proofs over PCR values: for any list of 1 to 32 leaves the
  tree is built, and for every leaf a proof is generated, which carries that leaf and the root
  of the tree and which the verifier accepts.
\<close>

theorem merkle_proofs_verify:
  assumes "length leaves \<le> 32" and "i < length leaves"
  shows "\<exists>t p. merkle_tree_build tree (Some leaves) = Returned (t, 0)
    \<and> merkle_generate_proof t (of_nat i) = Returned (Some p, 0)
    \<and> merkle_verify_proof p = Returned True
    \<and> mp_leaf_value p = leaves ! i
    \<and> merkle_tree_get_root t = (Some (mp_expected_root p), 0)"
proof -
  obtain d t where t: "merkle_tree_build tree (Some leaves) = Returned (t, 0)" "unat (mt_leaf_count t) = length leaves"
    "merkle_wf d (leaves @ replicate (2 ^ d - length leaves) (zeros 32)) t"
    using merkle_tree_build_wf [of leaves tree] assms by fastforce
  have i: "unat (of_nat i :: u8) = i" using assms by (intro unat_of_nat_u8) simp
  show ?thesis using t merkle_proof_complete [OF t(3), of "of_nat i"] assms(2) i
    by (auto simp: nth_append merkle_tree_get_root_def merkle_wf_def)
qed

theorem merkle_proofs_verify_witness:
  "\<exists>t p. merkle_tree_build merkle_tree_init (Some [zeros 32, replicate 32 1, replicate 32 2]) = Returned (t, 0)
    \<and> merkle_generate_proof t 2 = Returned (Some p, 0) \<and> merkle_verify_proof p = Returned True
    \<and> mp_leaf_value p = replicate 32 2"
  using merkle_proofs_verify [of "[zeros 32, replicate 32 1, replicate 32 2]" 2 merkle_tree_init] by auto

text \<open>
  C14.  Soundness of the inclusion proofs: a proof of full depth that the verifier accepts
  against the root of a tree shows the leaf at the position its flags stand for (the padding
  beyond the leaves), unless a level of the proof hashes another pair than the tree's node at
  that place to the same digest.
\<close>

theorem merkle_proof_binding:
  assumes "merkle_tree_build tree (Some leaves) = Returned (t, 0)"
    and "merkle_verify_proof p = Returned True"
    and "merkle_tree_get_root t = (Some (mp_expected_root p), 0)"
    and "mp_sibling_count p = mt_depth t"
  shows "let sibs = take (unat (mt_depth t)) (mp_siblings p);
        i = 2 * 2 ^ unat (mt_depth t) - 2 - merkle_path_pos sibs
    in mp_leaf_value p = (if i < length leaves then leaves ! i else zeros 32)
       \<or> (\<exists>k < unat (mt_depth t). merkle_collision t (mp_leaf_value p) sibs k)"
proof -
  define sibs where "sibs = take (unat (mt_depth t)) (mp_siblings p)"
  have "0 < length leaves" "length leaves \<le> 32"
    using assms(1) by (auto simp: merkle_tree_build_def MERKLE_MAX_LEAVES_def split: if_splits)
  from merkle_tree_build_wf [OF this, of tree] obtain d where
    wf: "merkle_wf d (leaves @ replicate (2 ^ d - length leaves) (zeros 32)) t"
    using assms(1) by auto
  have d: "unat (mt_depth t) = d" "unat (mp_sibling_count p) = d" using wf assms(4) by (simp_all add: merkle_wf_def)
  have len: "length sibs = d"
    using assms(2) d by (auto simp: sibs_def merkle_verify_proof_def split: if_splits)
  have w: "merkle_walk (mp_leaf_value p) sibs = mt_nodes t ! 0"
    using assms(2,3) by (auto simp: merkle_verify_proof_def merkle_tree_get_root_def sibs_def assms(4) split: if_splits)
  define i where "i = 2 * 2 ^ d - 2 - merkle_path_pos sibs"
  have "mt_nodes t ! merkle_path_pos sibs = (if i < length leaves then leaves ! i else zeros 32)"
    using merkle_leaf_at [OF wf len] nth_padded [of i "2 ^ d" leaves "zeros 32"] unfolding i_def [symmetric] by simp
  then show ?thesis
    using merkle_walk_binding [OF wf _ w] len unfolding Let_def sibs_def [symmetric] unfolding d i_def [symmetric] by simp
qed

theorem merkle_proof_binding_witness:
  "\<exists>t p. merkle_tree_build merkle_tree_init (Some [replicate 32 1, replicate 32 2, replicate 32 3]) = Returned (t, 0)
    \<and> merkle_generate_proof t 1 = Returned (Some p, 0)
    \<and> (let sibs = take (unat (mt_depth t)) (mp_siblings p);
          i = 2 * 2 ^ unat (mt_depth t) - 2 - merkle_path_pos sibs
      in mp_leaf_value p = (if i < length [replicate 32 1, replicate 32 2, replicate 32 (3 :: u8)]
            then [replicate 32 1, replicate 32 2, replicate 32 3] ! i else zeros 32)
       \<or> (\<exists>k < unat (mt_depth t). merkle_collision t (mp_leaf_value p) sibs k))"
proof -
  let ?ls = "[replicate 32 1, replicate 32 2, replicate 32 3] :: bytes list"
  obtain d t where t: "merkle_tree_build merkle_tree_init (Some ?ls) = Returned (t, 0)" "unat (mt_leaf_count t) = length ?ls"
    "merkle_wf d (?ls @ replicate (2 ^ d - length ?ls) (zeros 32)) t"
    using merkle_tree_build_wf [of ?ls merkle_tree_init] by auto
  have "unat (1 :: u8) < unat (mt_leaf_count t)" by (simp add: t(2))
  from merkle_proof_complete [OF t(3) this] obtain p where
    p: "merkle_generate_proof t 1 = Returned (Some p, 0)" "merkle_verify_proof p = Returned True"
      "mp_expected_root p = mt_nodes t ! 0" "unat (mp_sibling_count p) = d" by auto
  have r: "merkle_tree_get_root t = (Some (mp_expected_root p), 0)"
    using t(3) p(3) by (simp add: merkle_tree_get_root_def merkle_wf_def)
  have c: "mp_sibling_count p = mt_depth t"
    using t(3) p(4) by (simp add: merkle_wf_def word_unat_eq_iff)
  show ?thesis
    using merkle_proof_binding [OF t(1) p(2) r c] t(1) p(1) by blast
qed

text \<open>
  The root computed from a PCR bank is the hash of a perfect tree of depth at most five
  over the selected registers, padded with zeros to a power of two and read from the last to
  the first.
\<close>

lemma merkle_root_functional:
  assumes "merkle_selected bank \<noteq> []"
  shows "\<exists>d \<le> 5. length (merkle_selected bank) \<le> 2 ^ d
    \<and> merkle_root_from_pcr_bank (Some bank)
      = Returned (Some (merkle_spec d (replicate (2 ^ d - length (merkle_selected bank)) (zeros 32)
          @ rev (merkle_selected bank))), 0)"
proof -
  let ?ls = "merkle_selected bank"
  have "length ?ls \<le> 32"
    unfolding merkle_selected_def TPM_MAX_PCRS_def length_map by (rule order_trans [OF length_filter_le]) simp
  then obtain d t where t: "merkle_tree_build merkle_tree_init (Some ?ls) = Returned (t, 0)" "length ?ls \<le> 2 ^ d"
    "merkle_wf d (?ls @ replicate (2 ^ d - length ?ls) (zeros 32)) t"
    using merkle_tree_build_wf [of ?ls merkle_tree_init] assms by fastforce
  then show ?thesis using merkle_root_spec [OF t(3)] assms
    by (intro exI [of _ d]) (simp add: merkle_root_from_pcr_bank_def merkle_tree_get_root_def merkle_wf_def Let_def)
qed

section \<open>Device trees\<close>

text \<open>
  C15.  Parsing is total and keeps the shape of the heap: on every blob, whichever allocations
  fail, \<open>fdt_parse\<close> returns or reads outside the blob, and the tree it returns has its links
  in allocation order, children that name their parent, and tables within their bounds.
\<close>

theorem fdt_parse_total:
  assumes "fdt_wf tree"
  shows "fdt_parse ok tree dtb \<noteq> Diverges \<and> (fdt_parse ok tree dtb = Returned (tree', b) \<longrightarrow> fdt_wf tree')"
  using assms by (rule fdt_parse_shape)

text \<open>
  C16.  Round trip of the device tree format: a blob with a reservation block, the structure block
  of a tree and its strings parses to exactly that tree: the nodes in preorder with their names,
  properties, values and links, the reservations, and the root.  The map of phandles is what
  the code collects, not what the tree says: see below.
\<close>

theorem fdt_parse_roundtrip:
  assumes "\<forall>k. ok k" and "dt_fits (name_table strings) t"
    and "length (dt_phandles (name_table strings) 0 t) \<le> FDT_MAX_PHANDLE_MAP"
    and "length rsv \<le> FDT_MAX_RESERVE_ENTRIES" and "\<forall>e \<in> set rsv. re_address e \<noteq> 0 \<or> re_size e \<noteq> 0"
    and "length (enc_blob rsv t strings) < 2 ^ 32"
  shows "\<exists>a. fdt_parse ok tree (Some (enc_blob rsv t strings)) = Returned (fdt_result rsv t strings a, True)"
  using assms by (rule fdt_parse_enc)

definition example_dtree :: dtree where
  "example_dtree =
     Dtree [] [(0, [0, 0, 0, 2])]
       [Dtree (str_bytes ''bus'') [(15, [0, 0, 0, 7])]
          [Dtree (str_bytes ''uart'') [(23, str_bytes ''ns16550'' @ [0]), (15, [0, 0, 0, 9])] []],
        Dtree (str_bytes ''cpu'') [] []]"

definition example_strings :: bytes where
  "example_strings = str_bytes ''#address-cells'' @ [0] @ str_bytes ''phandle'' @ [0] @ str_bytes ''compatible'' @ [0]"

lemma example_names:
  "name_table example_strings 0 = Some (str_bytes ''#address-cells'')" "name_table example_strings 15 = Some (str_bytes ''phandle'')"
  "name_table example_strings 23 = Some (str_bytes ''compatible'')"
  by code_simp+

lemma example_fits: "dt_fits (name_table example_strings) example_dtree"
  by (simp add: example_dtree_def example_names FDT_MAX_NAME_LEN_def FDT_MAX_PROPS_def FDT_MAX_CHILDREN_def) code_simp

lemma example_phandles:
  "dt_phandles (name_table example_strings) 0 example_dtree = [\<lparr>ph_phandle = 9, ph_node = 2\<rparr>, \<lparr>ph_phandle = 9, ph_node = 2\<rparr>]"
  by code_simp

lemma example_blob_length: "length (enc_blob [\<lparr>re_address = 0x80000000, re_size = 4096\<rparr>] example_dtree example_strings) = 230"
  "length (enc_blob [] example_dtree example_strings) = 214"
  by code_simp+

theorem fdt_parse_roundtrip_witness:
  "\<exists>a. fdt_parse (\<lambda>k. True) (empty_tree (fdt_header [])) (Some (enc_blob [\<lparr>re_address = 0x80000000, re_size = 4096\<rparr>] example_dtree example_strings))
    = Returned (fdt_result [\<lparr>re_address = 0x80000000, re_size = 4096\<rparr>] example_dtree example_strings a, True)"
  by (rule fdt_parse_roundtrip)
    (simp_all add: example_fits example_phandles example_blob_length FDT_MAX_PHANDLE_MAP_def FDT_MAX_RESERVE_ENTRIES_def)

theorem fdt_parse_total_witness:
  "\<exists>tree. fdt_parse (\<lambda>k. True) (empty_tree (fdt_header [])) (Some (enc_blob [] example_dtree example_strings)) = Returned (tree, True)
     \<and> fdt_wf tree \<and> fdt_parse (\<lambda>k. k < 3) (empty_tree (fdt_header [])) (Some (enc_blob [] example_dtree example_strings)) \<noteq> Diverges"
proof -
  have wf: "fdt_wf (empty_tree (fdt_header []))" by (simp add: fdt_wf_def empty_tree_def heap_ok_def)
  obtain tree where "fdt_parse (\<lambda>k. True) (empty_tree (fdt_header [])) (Some (enc_blob [] example_dtree example_strings)) = Returned (tree, True)"
    using fdt_parse_enc [of "\<lambda>k. True" example_strings example_dtree "[]" "empty_tree (fdt_header [])"]
    by (auto simp: example_fits example_phandles example_blob_length FDT_MAX_PHANDLE_MAP_def)
  then show ?thesis using fdt_parse_total [OF wf] by blast
qed

text \<open>
  Paths: in the tree that parsing returns, \<open>fdt_find_node_by_path\<close> finds the node that the
  same pieces of the path lead to in the abstract tree, with its name and properties, and
  none when there is none.
\<close>

lemma fdt_path_lookup:
  "case dt_lookup t (path_tokens [] (take (FDT_MAX_PATH_LEN - 1) path)) of
     None \<Rightarrow> fdt_find_node_by_path (fdt_result rsv t strings a) (Some path) = None
   | Some s \<Rightarrow> \<exists>i. fdt_find_node_by_path (fdt_result rsv t strings a) (Some path) = Some i
        \<and> nd_name (ft_nodes (fdt_result rsv t strings a) ! i) = dt_name s
        \<and> nd_properties (ft_nodes (fdt_result rsv t strings a) ! i) = map (mk_prop (name_table strings)) (dt_props s)
        \<and> length (nd_children (ft_nodes (fdt_result rsv t strings a) ! i)) = length (dt_kids s)"
proof -
  let ?T = "fdt_result rsv t strings a" and ?toks = "path_tokens [] (take (FDT_MAX_PATH_LEN - 1) path)"
  have "holds (name_table strings) (ft_nodes ?T) 0 t"
    using dt_heap_holds(1) [of "[]" 0 "name_table strings" None t] by (simp add: fdt_result_def)
  note w = walk_path_lookup [OF this, of ?toks]
  have f: "fdt_find_node_by_path ?T (Some path) = walk_path ?T 0 ?toks"
    by (simp add: fdt_find_node_by_path_def fdt_result_def)
  show ?thesis
  proof (cases "dt_lookup t ?toks")
    case (Some s)
    then show ?thesis using w unfolding f by (cases s) (auto simp: kid_index_length)
  qed (use w f in simp)
qed

text \<open>
  The search by compatible string is a search of the whole subtree: it returns, it finds a
  node below the given one whose \<open>compatible\<close> property lists the string, and it finds none only
  when there is none.
\<close>

lemma fdt_compatible_search:
  assumes "fdt_wf tree" and "n < length (ft_nodes tree)"
  shows "\<exists>r. fdt_find_compatible tree (Some n) (Some name) = Returned r \<and>
    (case r of None \<Rightarrow> \<forall>m. below (ft_nodes tree) n m \<longrightarrow> \<not> is_compatible (ft_nodes tree ! m) name
     | Some m \<Rightarrow> below (ft_nodes tree) n m \<and> is_compatible (ft_nodes tree ! m) name)"
  using search_compatible_spec(1) [of tree n "length (ft_nodes tree)" name] assms
  by (simp add: fdt_wf_def fdt_find_compatible_def)

text \<open>
  The code caches the phandle of the node it allocated last at that level, so a node with
  children is only found when it is a last child: in the example the phandle 7 of the bus is
  not found, and the entry of its child is there twice.
\<close>

lemma fdt_phandle_of_parent_lost:
  "fdt_find_node_by_phandle (fdt_result rsv example_dtree example_strings a) 7 = None
   \<and> fdt_find_node_by_phandle (fdt_result rsv example_dtree example_strings a) 9 = Some 2"
  by (simp add: fdt_find_node_by_phandle_def fdt_result_def example_phandles)

text \<open>
  Address translation through a bus: a node whose \<open>ranges\<close> list child base, parent base and
  size in one or two cells each sends an address to its parent's bus by the first range that
  holds it, unchanged when none does, and the translation goes on from there; an empty list
  leaves it unchanged.  Ranges that reach the end of the 64-bit space are excepted: their
  end wraps to zero in the code and they never match.
\<close>

lemma fdt_translate_bus:
  assumes "fdt_wf tree" and "n < length (ft_nodes tree)" and "nd_parent (ft_nodes tree ! n) = Some p"
    and "fdt_get_address_cells tree (Some n) = Returned cc" and "fdt_get_address_cells tree (Some p) = Returned pc"
    and "fdt_get_size_cells tree (Some n) = Returned sc" and "{cc, pc, sc} \<subseteq> {1, 2}"
    and "fdt_get_prop_value tree (Some n) (Some (str_bytes ''ranges''))
      = (Some (concat (map (enc_range (unat cc) (unat pc) (unat sc)) rs) @ [0]),
         length (concat (map (enc_range (unat cc) (unat pc) (unat sc)) rs)))"
    and "\<forall>r \<in> set rs. range_fits (unat cc) (unat pc) (unat sc) r"
  shows "fdt_translate_address tree (Some n) a = fdt_translate_address tree (Some p) (bus_address rs a)"
  using assms by (intro translate_hop) (simp_all add: fdt_wf_def)

definition example_bus :: FDTTree where
  "example_bus = (empty_tree (fdt_header []))\<lparr>ft_root := Some 0, ft_nodes :=
     [\<lparr>nd_name = [], nd_properties = [], nd_children = [1], nd_parent = None, nd_phandle = 0\<rparr>,
      \<lparr>nd_name = str_bytes ''soc'', nd_properties =
         [\<lparr>pr_name = str_bytes ''ranges'', pr_value = Some (enc_range 2 2 1 (0x1000, 0x40001000, 0x100) @ [0]), pr_value_len = 20\<rparr>],
       nd_children = [], nd_parent = Some 0, nd_phandle = 0\<rparr>]\<rparr>"

section \<open>Secure boot: signatures, variables, trust chain and keys\<close>

text \<open>
  C17.  Addition and multiplication of big integers are exact modulo 2048 bits, hence exact when
  the result has at most 2048, also when operands and result are the same object; subtraction of
  a number from one that is not smaller is exact when the result has an object of its own, and
  gives zero when it is stored over its minuend.
\<close>
theorem bigint_arithmetic_exact:
  assumes ok: "big_ok (st r)" "big_ok (st a)" "big_ok (st b)"
  shows "big_val (bigint_add r a b st r) = (big_val (st a) + big_val (st b)) mod 2 ^ 2048
    \<and> big_val (bigint_mul r a b st r) = big_val (st a) * big_val (st b) mod 2 ^ 2048
    \<and> (r \<noteq> a \<and> r \<noteq> b \<and> big_val (st b) \<le> big_val (st a)
      \<longrightarrow> big_val (bigint_sub r a b st r) = big_val (st a) - big_val (st b))
    \<and> big_val (bigint_sub a a b st a) = 0"
proof -
  have e: "(2 :: nat) ^ 2048 = 4294967296 ^ 64" by simp
  have l: "length (bi_words (st r)) = 64" using ok(1) by (simp add: big_ok_def)
  have z: "big_val (bigint_sub a a b st a) = 0" unfolding bigint_sub_alias by (simp add: big_val_def zero_bigint_def)
  show ?thesis unfolding e
    using bigint_add_correct(1) [OF ok] bigint_mul_mod(1) [OF l ok(2,3)] bigint_sub_correct(1) [where st = st and a = a and b = b and r = r] ok(2) z
    by blast
qed

theorem bigint_arithmetic_exact_witness:
  "let st = (\<lambda>n. if n = Arg 1 then zero_bigint\<lparr>bi_words := (bi_words zero_bigint)[0 := 7], bi_num_words := 1\<rparr> else zero_bigint)
   in big_val (bigint_add (Arg 1) (Arg 1) (Arg 1) st (Arg 1)) = 14
     \<and> big_val (bigint_mul (Arg 0) (Arg 1) (Arg 1) st (Arg 0)) = 49
     \<and> big_val (bigint_sub (Arg 0) (Arg 1) (Arg 2) st (Arg 0)) = 7
     \<and> big_val (bigint_sub (Arg 1) (Arg 1) (Arg 2) st (Arg 1)) = 0"
proof -
  define st where "st = (\<lambda>n. if n = Arg 1 then zero_bigint\<lparr>bi_words := (bi_words zero_bigint)[0 := 7], bi_num_words := 1\<rparr> else zero_bigint)"
  have v: "big_val (st (Arg 1)) = 7" "big_val (st (Arg 2)) = 0" "big_ok (st n)" for n
    by (simp_all add: st_def big_val_def big_ok_def zero_bigint_def dig_sum_def)
  show ?thesis
    using bigint_arithmetic_exact [of st "Arg 1" "Arg 1" "Arg 1"] bigint_arithmetic_exact [of st "Arg 0" "Arg 1" "Arg 1"]
      bigint_arithmetic_exact [of st "Arg 0" "Arg 1" "Arg 2"] v
    unfolding st_def [symmetric] Let_def by simp
qed

text \<open>
  Reading at most 256 bytes as a big integer gives their big-endian value in the fewest
  words, and writing it back at the same length gives the same bytes.
\<close>
lemma bigint_bytes_exact:
  assumes "length bs \<le> 256" and "length bs \<le> length buf"
  shows "big_val (bigint_from_bytes n bs (length bs) st n) = be_value bs
    \<and> big_trimmed (bigint_from_bytes n bs (length bs) st n)
    \<and> bigint_to_bytes (bigint_from_bytes n bs (length bs) st n) (length bs) buf = bs @ drop (length bs) buf"
  using bigint_from_bytes_bytes(6,7) [OF assms(1)] bigint_bytes_roundtrip [OF assms] by simp

text \<open>
  C18.  The RSA check accepts no signature: reducing the base stores the remainder over it, which
  clears it first, so what is decrypted is zero or one and never has the padding of a signature.
  This holds for the encoding the signer itself produces, which the padding check alone accepts,
  also with bytes appended.
\<close>
theorem rsa_verify_rejects_all:
  assumes "length (bi_words (st Exp_tmp)) = 64" and "length junk = 256"
    and "unat (rk_mod_len key) = 54 + j" and "8 \<le> j" and "j \<le> 202" and "length hash = 32"
    and "min (unat sig_len) 256 \<le> length sig"
  shows "rsa_sha256_verify st junk (Some key) (Some hash) (Some sig) sig_len = Returned False
    \<and> (\<exists>em. rsa_sha256_sign (Some key) (Some hash) = Returned (Some em)
        \<and> pkcs1_check (em @ rest) (length em + length rest) hash)"
  using rsa_verify_False(2) [of st junk "Some key" sig_len "Some sig" "Some hash"] rsa_sign_encoding [OF assms(4,5,3,6)]
    rsa_sign_check [OF assms(6), of j rest] assms
  by (simp add: sha256_prefix_def)

theorem rsa_verify_rejects_all_witness:
  "\<exists>key. rsa_sha256_verify (\<lambda>n. zero_bigint) (zeros 256) (Some key) (Some (zeros 32)) (Some [1]) 1 = Returned False"
proof -
  let ?key = "\<lparr>rk_modulus = zeros 256, rk_exponent = zeros 256, rk_mod_len = 64, rk_exp_len = 3\<rparr>"
  show ?thesis
    using rsa_verify_rejects_all [of "\<lambda>n. zero_bigint" "zeros 256" ?key 10 "zeros 32" 1 "[1]"]
    by (intro exI [of _ ?key]) (simp add: zero_bigint_def)
qed

text \<open>
  The signature taken out of a PE image is a part of the image and fits the caller's buffer
  of 4096 bytes.
\<close>
lemma sig_extract_in_bounds:
  assumes "sig_extract_auth_data img n = Returned (Some sig)"
  shows "0 < length sig \<and> length sig \<le> 4096 \<and> (\<exists>a. a + length sig \<le> length img \<and> sig = sub_range img a (length sig))"
  using sig_extract_bounds [OF assms] .

text \<open>
  Under secure boot, outside setup mode, an image is accepted exactly when neither its hash
  nor its signature is revoked and its hash is in \<open>db\<close> or \<open>dbt\<close>; a revocation counts only when it
  is listed with type \<open>NONE\<close>.  Otherwise every image is accepted.
\<close>
lemma sb_image_verdict:
  assumes "unat hn \<le> 512" "unat hn \<le> length h" "unat sn \<le> 512" "unat sn \<le> length s"
  shows "sb_verify_image sb (Some h) hn (Some s) sn = Returned
    (sb_setup_mode sb \<or> \<not> sb_secure_boot sb
     \<or> \<not> sb_blacklisted sb h (unat hn) \<and> \<not> sb_blacklisted sb s (unat sn)
       \<and> (listed SB_SIG_TYPE_SHA256_HASH (unat hn) h (sb_db sb) \<or> listed SB_SIG_TYPE_SHA256_HASH (unat hn) h (sb_dbt sb)))"
  using sb_verify_image_verdict [OF assms] .

text \<open>
  In every state the enrolment, removal and deletion calls reach, the databases are well
  formed, the platform key is enrolled exactly outside setup mode, and every image is accepted:
  no call turns secure boot on.
\<close>
lemma sb_run_accepts_all:
  assumes "\<forall>p \<in> set ps. sb_op_ok p"
  shows "\<exists>sb. sb_run ps sb_init = Returned sb
    \<and> db_wf (sb_db sb) \<and> db_wf (sb_dbx sb) \<and> length (db_list (sb_pk sb)) \<le> 1
    \<and> (\<not> sb_setup_mode sb \<longrightarrow> length (db_list (sb_pk sb)) = 1)
    \<and> (\<forall>h hn s sn. sb_verify_image sb (Some h) hn (Some s) sn = Returned True)"
proof -
  obtain sb where "sb_run ps sb_init = Returned sb" "sb_inv sb" using sb_run_inv [OF sb_inv_init assms] by blast
  then show ?thesis by (intro exI [of _ sb]) (simp add: sb_inv_def sb_verify_image_def)
qed

text \<open>
  C19.  Verifying a boot chain authorises it exactly when every component is present and has the
  expected digest, and leaves each with its verdict; a component added afterwards, unverified,
  does not take the authorisation back.
\<close>
theorem trust_chain_verdict:
  assumes "chain_wf bc" and "ch_component_count bc \<le> length expected"
  shows "\<exists>bd. trust_chain_verify_all bc (Some expected) = Returned (bd, \<forall>i < ch_component_count bc. comp_good expected bc i)
    \<and> trust_chain_boot_authorized (Some bd) = (\<forall>i < ch_component_count bc. comp_good expected bc i)
    \<and> (\<forall>i < ch_component_count bc. cc_status (ch_components bd ! i) = comp_verdict expected bc i)
    \<and> (\<forall>ty nm d be. trust_chain_add_component bd ty (Some nm) (Some d) = (be, True)
        \<longrightarrow> trust_chain_boot_authorized (Some be) = trust_chain_boot_authorized (Some bd)
          \<and> cc_status (ch_components be ! ch_component_count bc) = TC_STATUS_UNVERIFIED)"
proof -
  obtain bd where b: "trust_chain_verify_all bc (Some expected) = Returned (bd, \<forall>i < ch_component_count bc. comp_good expected bc i)"
    "ch_boot_allowed bd = (\<forall>i < ch_component_count bc. comp_good expected bc i)"
    "\<forall>i < ch_component_count bc. cc_status (ch_components bd ! i) = comp_verdict expected bc i"
    "map comp_core (ch_components bd) = map comp_core (ch_components bc)"
    "ch_component_count bd = ch_component_count bc"
    using trust_chain_verify_all_props [OF assms] by blast
  have "length (ch_components bd) = 16" using assms(1) arg_cong [OF b(4), of length] by (simp add: chain_wf_def)
  with b show ?thesis
    by (intro exI [of _ bd])
      (auto simp: trust_chain_boot_authorized_def trust_chain_add_component_def Let_def TC_MAX_COMPONENTS_def split: if_splits)
qed

theorem trust_chain_verdict_witness:
  "let bc = fst (trust_chain_add_component trust_chain_init BOOT_COMP_SPL (Some [65]) (Some [1, 2, 3])) in
     \<exists>bd. trust_chain_verify_all bc (Some [sv_sha256_hash [1, 2, 3]]) = Returned (bd, True)
       \<and> trust_chain_boot_authorized (Some bd) \<and> cc_status (ch_components bd ! 0) = TC_STATUS_VERIFIED"
proof -
  define bc where "bc = fst (trust_chain_add_component trust_chain_init BOOT_COMP_SPL (Some [65]) (Some [1, 2, 3]))"
  have n: "ch_component_count bc = 1" and c: "cc_present (ch_components bc ! 0)" "take (cc_data_size (ch_components bc ! 0)) (cc_data (ch_components bc ! 0)) = [1, 2, 3]"
    and l: "length (ch_components bc) = 16"
    by (simp_all add: bc_def trust_chain_add_component_def trust_chain_init_def zero_component_def blit_def
        TC_MAX_COMPONENTS_def TC_MAX_COMPONENT_DATA_def zeros_def Let_def)
  have "\<forall>c \<in> set (ch_components bc). length (cc_data c) = TC_MAX_COMPONENT_DATA"
    by (auto simp: bc_def trust_chain_add_component_def trust_chain_init_def zero_component_def TC_MAX_COMPONENTS_def
        TC_MAX_COMPONENT_DATA_def Let_def dest!: subsetD [OF set_update_subset_insert])
  then have wf: "chain_wf bc" using n l by (simp add: chain_wf_def)
  have g: "comp_good [sv_sha256_hash [1, 2, 3]] bc 0" using c by (simp add: comp_good_def length_sv_sha256_hash)
  show ?thesis
    using trust_chain_verdict [OF wf, of "[sv_sha256_hash [1, 2, 3]]"] n g c(1) unfolding bc_def [symmetric] Let_def
    by (auto simp: comp_verdict_def)
qed

text \<open>
  A parsed FIT image verifies, with any key, exactly when it has no configuration, or has an
  image and 1024 zeros have the digest of the head of the blob: the image data the digest is
  compared with is never filled in, and the head is not all zeros.
\<close>
lemma fit_image_verdict:
  assumes "fit_parse fit (Some d) = Returned (f, True)" and "key \<noteq> None"
  shows "fit_verify_all st junk f key = Returned (fh_config_count (fit_t_header f) = 0
      \<or> fh_image_count (fit_t_header f) \<noteq> 0 \<and> sv_sha256_hash (zeros 1024) = sv_sha256_hash (take 1024 d))
    \<and> take 1024 d \<noteq> zeros 1024"
proof -
  have "4 \<le> length d" using assms(1) by (auto simp: fit_parse_def split: if_splits)
  then show ?thesis using fit_parse_verdict [OF assms] fit_parse_facts(6) [OF assms(1)] fit_magic_not_zeros by blast
qed

text \<open>
  C20.  Over any run of the key store's calls no key is lost or renamed, every key moves along its
  life cycle, one that is compromised, revoked or destroyed is never used again, and a destroyed
  key has no key material left.
\<close>
theorem km_lifecycle:
  assumes "i < ks_key_count (km_run qs km_store_init)"
  shows "let k = ks_keys (km_run qs km_store_init) ! i; k' = ks_keys (km_run (qs @ ps) km_store_init) ! i
    in ke_key_id k' = ke_key_id k \<and> km_trans\<^sup>*\<^sup>* (ke_state k) (ke_state k')
      \<and> (km_retired (ke_state k) \<longrightarrow> km_retired (ke_state k') \<and> \<not> km_key_is_valid (Some k') now)
      \<and> (km_destroyed (ke_state k) \<longrightarrow> ke_private_key k' = zeros 512 \<and> ke_private_key_len k' = 0)"
proof -
  have "km_run (qs @ ps) km_store_init = km_run ps (km_run qs km_store_init)" by (simp add: km_run_def)
  with km_run_follows [OF km_inv_init, of qs] km_run_follows [of "km_run qs km_store_init" ps]
  have f: "km_follows (km_run qs km_store_init) (km_run (qs @ ps) km_store_init)"
    "km_inv (km_run (qs @ ps) km_store_init)" by auto
  let ?k = "ks_keys (km_run qs km_store_init) ! i" and ?k' = "ks_keys (km_run (qs @ ps) km_store_init) ! i"
  have t: "ke_key_id ?k' = ke_key_id ?k" "km_trans\<^sup>*\<^sup>* (ke_state ?k) (ke_state ?k')"
    using f(1) assms by (auto simp: km_follows_def)
  have "i < ks_key_count (km_run (qs @ ps) km_store_init)" using f(1) assms by (simp add: km_follows_def)
  then have "key_ok ?k'" using f(2) by (simp add: km_inv_def)
  then have "km_destroyed (ke_state ?k') \<longrightarrow> ke_private_key ?k' = zeros 512 \<and> ke_private_key_len ?k' = 0"
    by (simp add: key_ok_def)
  moreover have "km_retired (ke_state ?k') \<longrightarrow> \<not> km_key_is_valid (Some ?k') now"
    by (auto simp: km_key_is_valid_def km_retired_def km_destroyed_def)
  ultimately show ?thesis unfolding Let_def using t km_trans_star [OF t(2)] by blast
qed

theorem km_lifecycle_witness:
  "let ks = km_run [KmGenerate (\<lambda>n. 0) [65] [66] KM_KEY_TYPE_AES_256 0 256 1, KmActivate [65], KmDestroy [65]] km_store_init;
       kt = km_run ([KmGenerate (\<lambda>n. 0) [65] [66] KM_KEY_TYPE_AES_256 0 256 1, KmActivate [65], KmDestroy [65]]
              @ [KmUnlock, KmReactivate [65], KmActivate [65]]) km_store_init
   in ks_key_count ks = 1 \<and> ke_key_id (ks_keys ks ! 0) = [65] \<and> ke_state (ks_keys ks ! 0) = KM_STATE_DESTROYED
     \<and> ke_key_id (ks_keys kt ! 0) = [65] \<and> km_retired (ke_state (ks_keys kt ! 0))
     \<and> \<not> km_key_is_valid (Some (ks_keys kt ! 0)) 0
     \<and> ke_private_key (ks_keys kt ! 0) = zeros 512 \<and> ke_private_key_len (ks_keys kt ! 0) = 0"
proof -
  let ?qs = "[KmGenerate (\<lambda>n. 0) [65] [66] KM_KEY_TYPE_AES_256 0 256 1, KmActivate [65], KmDestroy [65]]"
  have c: "ks_key_count (km_run ?qs km_store_init) = 1"
    "ke_key_id (ks_keys (km_run ?qs km_store_init) ! 0) = [65]"
    "ke_state (ks_keys (km_run ?qs km_store_init) ! 0) = KM_STATE_DESTROYED"
    by code_simp+
  have d: "km_destroyed KM_STATE_DESTROYED" "km_retired KM_STATE_DESTROYED" by (simp_all add: km_destroyed_def km_retired_def)
  have i: "0 < ks_key_count (km_run ?qs km_store_init)" unfolding c(1) by simp
  show ?thesis
    using km_lifecycle [OF i, of "[KmUnlock, KmReactivate [65], KmActivate [65]]" 0] d unfolding Let_def c by simp
qed

text \<open>
  C21.  Key derivation is HKDF of RFC 5869 for an output of at most 254 blocks, \<open>info\<close> of at most
  64 bytes and input keying material of at most 256 bytes; with 255 blocks or more, which the
  standard allows for 255, the one-byte block counter never passes the bound and the loop runs
  forever.
\<close>
theorem hkdf_is_rfc5869:
  assumes "length info \<le> 64" and "okm \<noteq> []" and "length ikm \<le> 256" and "length okm < 4294967264"
  shows "km_hkdf_derive (Some ikm) salt (Some info) okm
    = (if length okm \<le> 8128
       then Returned (Some (hkdf_spec (if salt = None \<or> salt = Some [] then zeros 32 else the salt) ikm info (length okm)))
       else Diverges)"
proof (cases "length okm \<le> 8128")
  case True
  then show ?thesis using hkdf_derive_correct [OF assms(1,2) _ assms(3)] by simp
next
  case False
  then show ?thesis unfolding hkdf_derive_eq [OF assms(3)] using hkdf_expand_diverges [OF assms(1)] assms(4) by simp
qed

theorem hkdf_is_rfc5869_witness:
  "km_hkdf_derive (Some [1]) None (Some [2]) (zeros 40) = Returned (Some (hkdf_spec (zeros 32) [1] [2] 40))
    \<and> km_hkdf_derive (Some [1]) None (Some [2]) (zeros 8160) = Diverges"
  using hkdf_is_rfc5869 [of "[2]" "zeros 40" "[1]" None] hkdf_is_rfc5869 [of "[2]" "zeros 8160" "[1]" None]
  by (simp flip: length_0_conv)

section \<open>Policies and measurements of the secure-boot library\<close>

text \<open>
  C22.  Over any run of the policy calls, with any \<open>qsort\<close> that sorts, the rules stay ordered by
  falling priority with distinct identifiers, and an evaluation is decided by the first enabled
  rule whose operator is satisfied, or by the default; no rule of operator \<open>ALWAYS_FALSE\<close> ever
  decides.
\<close>
theorem policy_run_verdict:
  assumes "policy_sort srt" and "policy_inv p" and "\<forall>q \<in> set qs. policy_op_ok q"
  shows "let p' = policy_run srt qs p; d = deciding_rule (bpo_rules p') ctx
    in sorted_wrt (\<lambda>r s. bru_priority r \<ge> bru_priority s) (bpo_rules p') \<and> distinct (map bru_rule_id (bpo_rules p'))
      \<and> (\<exists>out. bp_policy_evaluate (Some p') (Some ctx) = Returned out
          \<and> beo_result out = (case d of None \<Rightarrow> if bpo_default_allow p' then BP_RESULT_ALLOW else BP_RESULT_DENY
             | Some r \<Rightarrow> if denies r then BP_RESULT_DENY else BP_RESULT_ALLOW))
      \<and> (\<forall>r. d = Some r \<longrightarrow> bru_operator r \<noteq> BP_OP_ALWAYS_FALSE)"
proof -
  let ?p = "policy_run srt qs p"
  have i: "policy_inv ?p" by (rule policy_sort.policy_run_inv [OF assms])
  then have "\<forall>r \<in> set (bpo_rules ?p). rule_wf r" by (simp add: policy_inv_def)
  note policy_verdict [OF this, of ctx]
  moreover have "bru_operator r \<noteq> BP_OP_ALWAYS_FALSE" if "deciding_rule (bpo_rules ?p) ctx = Some r" for r
    using that by (auto simp: deciding_rule_def find_Some_iff rule_sat_def Let_def)
  ultimately show ?thesis using i unfolding Let_def policy_inv_def by blast
qed

theorem policy_run_verdict_witness:
  "\<exists>out. bp_policy_evaluate (Some (policy_run rules_qsort
       [PolInit 0 (Some []) False, PolAdd 0 (zero_policy_rule\<lparr>bru_operator := BP_OP_ALWAYS_TRUE, bru_enabled := True\<rparr>)]
       \<lparr>bpo_policy_name = [], bpo_rules = [], bpo_default_allow = True, bpo_audit_mode = False, bpo_policy_version = 0, bpo_last_updated = 0\<rparr>))
     (Some \<lparr>bec_signer_name = None, bec_image_hash = None, bec_image_version = 0, bec_current_time = 0, bec_vendor_id = None,
        bec_device_class = 0, bec_secure_boot_enabled = False, bec_recovery_mode = False, bec_setup_mode = False,
        bec_pcr_values = []\<rparr>) = Returned out \<and> beo_result out = BP_RESULT_ALLOW"
proof -
  let ?p = "\<lparr>bpo_policy_name = [], bpo_rules = [], bpo_default_allow = True, bpo_audit_mode = False, bpo_policy_version = 0, bpo_last_updated = 0\<rparr>"
  let ?r = "zero_policy_rule\<lparr>bru_operator := BP_OP_ALWAYS_TRUE, bru_enabled := True\<rparr>"
  let ?qs = "[PolInit 0 (Some []) False, PolAdd 0 ?r]"
  have o: "policy_inv ?p" "\<forall>q \<in> set ?qs. policy_op_ok q"
    by (simp_all add: policy_inv_def policy_op_ok_def rule_wf_def zero_policy_rule_def BP_MAX_SIGNERS_def)
  have r: "bpo_rules (policy_run rules_qsort ?qs ?p) = [?r]"
    by (simp add: policy_run_def bp_policy_init_def bp_policy_add_rule_def BP_MAX_RULES_def sort_rules_by_priority_def)
  show ?thesis
    using policy_run_verdict [OF rq.policy_sort_axioms o] unfolding Let_def r
    by (fastforce simp: deciding_rule_def rule_sat_def denies_def zero_policy_rule_def)
qed

text \<open>
  The standard policy allows exactly the images that name the OEM signer or have the all-zero
  hash, whatever their version and the blacklist; the recovery policy allows everything; the
  enterprise policy allows its signer from the minimum version on, and the OEM signer under
  secure boot.
\<close>
lemma policy_templates:
  assumes "policy_sort srt" and "0 \<notin> set ent" and "length ent < 63"
  shows "(\<exists>out. bp_policy_evaluate (Some (fst (bp_create_standard_sb_policy srt clock p))) (Some ctx) = Returned out
      \<and> beo_result out = (if bec_signer_name ctx = Some oem_signer \<or> bec_image_hash ctx = Some (zeros 32)
          then BP_RESULT_ALLOW else BP_RESULT_DENY))
    \<and> (\<exists>out. bp_policy_evaluate (Some (fst (bp_create_recovery_policy srt clock p))) (Some ctx) = Returned out
      \<and> beo_result out = BP_RESULT_ALLOW)
    \<and> (\<exists>out. bp_policy_evaluate (Some (fst (bp_create_enterprise_policy srt clock p (Some ent) v))) (Some ctx) = Returned out
      \<and> beo_result out = (if bec_signer_name ctx = Some ent \<and> bec_image_version ctx \<ge> v
            \<or> bec_signer_name ctx = Some oem_signer \<and> bec_secure_boot_enabled ctx
          then BP_RESULT_ALLOW else BP_RESULT_DENY))"
  using policy_sort.standard_policy_verdict [OF assms(1)] policy_sort.recovery_policy_verdict [OF assms(1)]
    policy_sort.enterprise_policy_verdict [OF assms] by blast

text \<open>
  C23.  As long as the log has room, every run of measurements after the start leaves a log that
  validates against the registers; once it is full, a measurement is refused but its register
  has changed and its event is lost.
\<close>
theorem mb_run_validates:
  assumes "unat n \<le> 16"
  shows "\<exists>mb. mb_init v n = Returned mb
    \<and> (\<forall>ps. length ps \<le> 254 \<longrightarrow> (let s = mbt_srtm (mb_run ps mb)
         in mb_pcr_validate (Some s) (Some (srtm_current_pcrs s))))
    \<and> (\<forall>ps i d. length ps \<le> 254 \<and> length (mlog_events (srtm_event_log (mbt_srtm (mb_run ps mb)))) = 256
          \<and> mbt_state (mb_run ps mb) \<noteq> MB_STATE_PRE_INIT \<and> unat i < 24
        \<longrightarrow> (\<exists>mb'. mb_measure_firmware (mb_run ps mb) i ty (Some d) (Some desc) = (mb', False)
              \<and> srtm_event_log (mbt_srtm mb') = srtm_event_log (mbt_srtm (mb_run ps mb))
              \<and> srtm_current_pcrs (mbt_srtm mb') ! unat i
                = sv_sha256_hash (srtm_current_pcrs (mbt_srtm (mb_run ps mb)) ! unat i @ sv_sha256_hash d)))"
proof -
  obtain mb where m: "mb_init v n = Returned mb" "mb_inv mb" "mb_count mb = 2" using mb_init_inv [OF assms] by blast
  have r: "mb_inv (mb_run ps mb)" if "length ps \<le> 254" for ps using mb_run_inv [OF m(2), of ps] m(3) that by simp
  have val: "mb_pcr_validate (Some s) (Some (srtm_current_pcrs s))" if "mb_inv x" "s = mbt_srtm x" for x s
  proof -
    have i: "mb_log_wf (srtm_event_log s)" "srtm_current_pcrs s = mb_replay (srtm_event_log s)"
      using that by (simp_all add: mb_inv_def Let_def)
    have "mb_pcrs_wf (mb_replay (srtm_event_log s))" unfolding mb_replay_def by (rule mbpcrs.wf_replay) simp
    then show ?thesis using i mb_validate_eq [OF i(1)] by (simp add: mb_pcr_validate_def mb_pcrs_wf_def)
  qed
  show ?thesis
    using m(1) val [OF r refl] mb_full_log [OF r, of _ _ ty _ desc] unfolding Let_def by blast
qed

theorem mb_run_validates_witness:
  "\<exists>mb. mb_init None 9 = Returned mb
    \<and> (let s = mbt_srtm (mb_run [MbMeasure 4 1 (Some [1]) (Some [2])] mb) in mb_pcr_validate (Some s) (Some (srtm_current_pcrs s)))"
  using mb_run_validates [of 9 None] by fastforce

text \<open>
  Two logs with as many events for a register that both validate against the same values
  record the same digests for it, or the hash collides on two inputs that can be read off them.
\<close>
lemma mb_log_tamper_evident:
  assumes "mb_log_wf log" and "mb_log_wf log'" and "j < 24" and "j < length vs"
    and "mb_event_log_validate log (Some vs)" and "mb_event_log_validate log' (Some vs)"
    and "length (filter (\<lambda>(i, d). i = j) (mb_entries log)) = length (filter (\<lambda>(i, d). i = j) (mb_entries log'))"
  defines "ds \<equiv> \<lambda>l. map (take 32 \<circ> snd) (filter (\<lambda>(i, d). i = j) (mb_entries l))"
  shows "ds log = ds log' \<or> collides sv_sha256_hash (chain_inputs sv_sha256_hash (zeros 32) (ds log))
    (chain_inputs sv_sha256_hash (zeros 32) (ds log'))"
proof -
  have "chain sv_sha256_hash (zeros 32) (ds log) = chain sv_sha256_hash (zeros 32) (ds log')"
    using assms(5,6) mb_validate_eq [OF assms(1)] mb_validate_eq [OF assms(2)] mb_replay_reg [OF assms(1,3)]
      mb_replay_reg [OF assms(2,3)] assms(3,4) by (simp add: ds_def)
  moreover have "\<forall>d \<in> set (ds l). length d = 32" if "mb_log_wf l" for l
    using that by (fastforce simp: ds_def mb_entries_def mb_log_wf_def mb_event_wf_def in_set_conv_nth)
  moreover have "length (ds log) = length (ds log')" using assms(7) by (simp add: ds_def)
  ultimately show ?thesis
    using mbpcrs.chain_binding [of "zeros 32" "zeros 32" "ds log" "ds log'"] assms(1,2) by auto
qed

section \<open>The software TPM, the root of trust and capsules\<close>

text \<open>
  C24.  Every run of the software TPM's commands from its initialisation returns, and keeps the
  state well typed: 24 allocated registers of 32 bytes, at most 32 indices with distinct handles
  and 1024 bytes each, at most 3 sessions; the one condition is that no write makes the 32-bit sum
  of offset and size wrap around.
\<close>
theorem tpm_commands_keep_types:
  assumes "\<forall>p \<in> set ps. tpm_op_ok p"
  shows "\<exists>t. tpm_run ps tpm_init = Returned t
    \<and> length (sbk_pcrs (tpc_pcr_bank t)) = 24
    \<and> (\<forall>p \<in> set (sbk_pcrs (tpc_pcr_bank t)). length (spc_digest p) = 32 \<and> spc_allocated p)
    \<and> length (tpc_nv_store t) \<le> 32 \<and> distinct (map snv_nv_index (tpc_nv_store t))
    \<and> (\<forall>x \<in> set (tpc_nv_store t). length (snv_nv_data x) = 1024 \<and> unat (snv_nv_data_size x) \<le> 1024)
    \<and> length (tpc_sessions t) \<le> 3"
  using tpm_run_inv [OF tpm_init_wf assms] unfolding tpm_pcr_wf_def sb_nv_wf_def by blast

theorem tpm_commands_keep_types_witness:
  "\<exists>t. tpm_run [TpmDefine 1 SBT_NV_TYPE_ORDINARY 0 8 0, TpmWrite 1 (Some [7]) 1023, TpmExtend 3 (Some [1]) SBT_ALG_SHA256,
      TpmClear] tpm_init = Returned t
    \<and> length (tpc_nv_store t) \<le> 32 \<and> length (tpc_sessions t) \<le> 3"
proof -
  have "\<forall>p \<in> set [TpmDefine 1 SBT_NV_TYPE_ORDINARY 0 8 0, TpmWrite 1 (Some [7]) 1023,
      TpmExtend 3 (Some [1]) SBT_ALG_SHA256, TpmClear]. tpm_op_ok p"
    by (simp add: tpm_op_ok_def)
  from tpm_commands_keep_types [OF this] show ?thesis by blast
qed

text \<open>
  C25.  A quote verifies against the registers it was made from and its own nonce; and one that
  verifies against other values for the selected registers shows a collision of the hash, on the
  two concatenations.  Its signature plays no part: it is the digest itself, and any non-empty
  one passes.
\<close>
theorem tpm_quote_binds_registers:
  assumes "tpm_pcr_wf tpm" and "length nonce \<le> 32" and "tpm_quote tpm (Some sel) (Some nonce) = Some q"
  shows "tpm_verify_quote (Some q) (Some (tpm_values tpm)) (Some nonce) = Returned TPM_ATTEST_OK
    \<and> (\<forall>pcrs nonce' sig. length pcrs = 24 \<and> (\<forall>v \<in> set pcrs. length v = 32) \<and> length nonce' \<le> 32
        \<and> tpm_verify_quote (Some q) (Some pcrs) (Some nonce') = Returned TPM_ATTEST_OK \<longrightarrow>
      nonce' = take (length nonce') (nonce @ zeros (32 - length nonce))
      \<and> ((\<forall>i \<in> set (selected (ssl_pcr_mask sel)). pcrs ! i = tpm_values tpm ! i)
        \<or> composite_of pcrs (ssl_pcr_mask sel) \<noteq> composite_of (tpm_values tpm) (ssl_pcr_mask sel)
          \<and> sv_sha256_hash (composite_of pcrs (ssl_pcr_mask sel)) = sv_sha256_hash (composite_of (tpm_values tpm) (ssl_pcr_mask sel)))
      \<and> tpm_verify_quote (Some (q\<lparr>sqt_signature := sig, sqt_sig_size := 1\<rparr>)) (Some pcrs) (Some nonce') = Returned TPM_ATTEST_OK)"
proof (intro conjI allI impI; (elim conjE)?)
  show "tpm_verify_quote (Some q) (Some (tpm_values tpm)) (Some nonce) = Returned TPM_ATTEST_OK"
    by (rule quote_verifies [OF assms])
next
  fix pcrs nonce' sig
  assume a: "length pcrs = 24" "\<forall>v \<in> set pcrs. length v = 32" "length nonce' \<le> 32"
    "tpm_verify_quote (Some q) (Some pcrs) (Some nonce') = Returned TPM_ATTEST_OK"
  note v = verify_quote_eq [OF a(1-3)]
  have "sqi_extra_data (sqt_quote_info q) = blit (zeros 32) 0 nonce"
    using assms(2,3) by (auto simp: tpm_quote_def SBT_NONCE_SIZE_def Let_def)
  moreover have "take (length nonce') (sqi_extra_data (sqt_quote_info q)) = nonce'" using a(4) unfolding v by blast
  ultimately show "nonce' = take (length nonce') (nonce @ zeros (32 - length nonce))" by (simp add: blit_def)
  show "tpm_verify_quote (Some (q\<lparr>sqt_signature := sig, sqt_sig_size := 1\<rparr>)) (Some pcrs) (Some nonce') = Returned TPM_ATTEST_OK"
    using a(4) unfolding v by simp
qed (rule quote_binding [OF assms])

theorem tpm_quote_binds_registers_witness:
  "\<exists>q. tpm_quote tpm_init (Some \<lparr>ssl_pcr_mask = replicate 24 1, ssl_pcr_count = 24\<rparr>) (Some [1]) = Some q
    \<and> tpm_verify_quote (Some q) (Some (tpm_values tpm_init)) (Some [1]) = Returned TPM_ATTEST_OK"
proof -
  let ?s = "\<lparr>ssl_pcr_mask = replicate 24 1, ssl_pcr_count = 24\<rparr>"
  obtain q where "tpm_quote tpm_init (Some ?s) (Some [1]) = Some q" by (simp add: tpm_quote_def SBT_NONCE_SIZE_def Let_def)
  then show ?thesis using tpm_quote_binds_registers [OF tpm_init_wf(1), of "[1]" ?s q] by simp
qed

text \<open>
  The full self test succeeds on a SHA-256 bank and leaves none of its measurements: registers
  0 to 16 and 23 are zero afterwards and every other one is extended with the test pattern, so no
  quote made before verifies against them unless the hash collides.
\<close>
lemma tpm_selftest_destroys_registers:
  assumes "tpm_pcr_wf t" and "tpc_is_initialized t" and "\<forall>i < 24. spc_hash_alg (get_pcr t i) = SBT_ALG_SHA256"
    and "\<forall>p \<in> set (sbk_pcrs (tpc_pcr_bank t)). alg_active t p"
  shows "\<exists>t'. tpm_selftest t True = (t', True)
    \<and> (\<forall>i < 24. spc_digest (get_pcr t' i)
          = (if i \<le> 16 \<or> i = 23 then zeros 32 else sv_sha256_hash (spc_digest (get_pcr t i) @ replicate 32 0xA5)))"
proof -
  obtain t' where "fold selftest_pcr [0..<24] (t, True) = (t', True)"
    and "\<forall>j < 24. spc_digest (get_pcr t' j) = (if j < 24 then after_selftest j (spc_digest (get_pcr t j)) else spc_digest (get_pcr t j))"
    using selftest_fold [OF assms(1,3), of 24] by auto
  moreover have "tpm_selftest t True = fold selftest_pcr [0..<24] (t, True)"
    using assms(2,4) by (auto simp: tpm_selftest_def SBT_MAX_PCRS_def)
  ultimately show ?thesis by (simp add: after_selftest_def)
qed

text \<open>
  Over any run of the root of trust's operations the rollback counter never falls and a locked
  device stays locked on its key; it then accepts a first stage exactly when its digest is the key
  hash itself, with any signature, and accepts any chain of non-empty stages.
\<close>
lemma rot_lock_is_permanent:
  assumes "rot_boot_policy r = ROT_POLICY_LOCKED" and "rot_initialized r"
  shows "let r' = rot_run ps r in rot_is_locked (Some r') \<and> rot_public_key_hash r' = rot_public_key_hash r
      \<and> rot_anti_rollback_counter r \<le> rot_anti_rollback_counter r'
      \<and> (rot_verify_first_stage (Some r') (Some d) (Some s) v = ROT_VERIFY_OK \<longleftrightarrow>
          d \<noteq> [] \<and> s \<noteq> [] \<and> rot_anti_rollback_counter r' \<le> v \<and> sv_sha256_hash d = rot_public_key_hash r)
      \<and> (rot_verify_chained (Some r') (Some sts) \<longleftrightarrow> sts \<noteq> [] \<and> (\<forall>st \<in> set sts. \<exists>d. st = Some d \<and> d \<noteq> []))"
  using rot_run_follows [of r ps] assms
  by (auto simp: Let_def rot_follows_def rot_is_locked_def rot_chained_accepts rot_verify_first_stage_def rot_check_counter_def)

text \<open>
  C26.  Over any run of capsule operations the staging area keeps its size, a commit is only pending
  while an update is, and the version floor never falls; a staged capsule that validates and is
  then processed installs its own version, at or above the floor it was validated against, and
  raises the floor to its own, never above the version that was running; and every well-formed
  capsule whose image is at or above the floor and asks for no more than the running version is
  staged and validates, whatever ran before.
\<close>
theorem fw_capsule_run_floor:
  assumes "\<forall>q \<in> set qs. fwu_op_ok q"
  shows "let ctx = fwu_run qs fw_capsule_init; img = read_image_header (fwu_staging_area ctx) in
     length (fwu_staging_area ctx) = FW_MAX_CAPSULE_SIZE
     \<and> (fwu_update_mode ctx = FW_UPDATE_MODE_COMMIT \<longrightarrow> fwu_update_pending ctx)
     \<and> (\<forall>qs'. (\<forall>q \<in> set qs'. fwu_op_ok q) \<longrightarrow>
          fwu_lowest_supported_version ctx \<le> fwu_lowest_supported_version (fwu_run qs' ctx))
     \<and> (fw_capsule_validate (Some ctx) (Some key) = Returned FW_VERIFY_OK \<longrightarrow>
          (\<exists>ctx'. fw_capsule_process ctx = (ctx', True) \<and> fwu_current_version ctx' = fwi_version img
             \<and> fwu_lowest_supported_version ctx \<le> fwu_current_version ctx'
             \<and> fwu_lowest_supported_version ctx' = max (fwu_lowest_supported_version ctx) (fwi_lowest_supported_version img)
             \<and> fwi_lowest_supported_version img \<le> fwu_current_version ctx))
     \<and> (\<forall>c i body. capsule_acceptable ctx c i body \<longrightarrow>
          fw_capsule_validate (Some (fwu_run (qs @ [FwuSet c (image_header_bytes i @ body)]) fw_capsule_init)) (Some key)
            = Returned FW_VERIFY_OK)"
proof -
  have i: "fwu_inv (fwu_run qs fw_capsule_init)" using fwu_run_inv [OF fwu_inv_init assms] by blast
  have "length (fwu_staging_area (fwu_run qs fw_capsule_init)) = FW_MAX_CAPSULE_SIZE"
    "fwu_update_mode (fwu_run qs fw_capsule_init) = FW_UPDATE_MODE_COMMIT \<longrightarrow> fwu_update_pending (fwu_run qs fw_capsule_init)"
    using i unfolding fwu_inv_def by blast+
  moreover have "fw_capsule_validate (Some (fwu_run (qs @ [FwuSet c (image_header_bytes i @ body)]) fw_capsule_init)) (Some key)
      = Returned FW_VERIFY_OK" if "capsule_acceptable (fwu_run qs fw_capsule_init) c i body" for c i body
    using fw_acceptable_validates [OF calculation(1) that, of key] by (auto simp: fwu_run_def)
  ultimately show ?thesis using fwu_run_inv [OF i] fw_validated_process [OF _ i, of key] unfolding Let_def by blast
qed

definition example_image :: "u32 \<Rightarrow> u32 \<Rightarrow> FWImageHeader" where
  "example_image v l = \<lparr>fwi_version = v, fwi_lowest_supported_version = l, fwi_update_image_size = 0,
     fwi_update_image_offset = 0, fwi_vendor_code = zeros 32, fwi_checksum = 0\<rparr>"

definition example_capsule_header :: FWCapsule where
  "example_capsule_header = \<lparr>fwc_capsule_guid = FW_CAPSULE_GUID_DATA, fwc_header_size = 28, fwc_flags = 0, fwc_capsule_image_size = 80\<rparr>"

definition example_staging :: "u32 \<Rightarrow> u32 \<Rightarrow> fwu_op" where
  "example_staging v l = FwuSet example_capsule_header (image_header_bytes (example_image v l) @ [1, 2, 3])"

lemma example_acceptable:
  "fwu_lowest_supported_version ctx \<le> v \<Longrightarrow> l \<le> fwu_current_version ctx \<Longrightarrow>
    capsule_acceptable ctx example_capsule_header (example_image v l) [1, 2, 3]"
  by (simp add: capsule_acceptable_def example_image_def example_capsule_header_def FW_MAX_CAPSULE_SIZE_def)

lemma example_staged:
  assumes "length (fwu_staging_area ctx) = FW_MAX_CAPSULE_SIZE" and "fwu_lowest_supported_version ctx \<le> v"
    and "l \<le> fwu_current_version ctx"
  shows "read_image_header (fwu_staging_area (fwu_step (example_staging v l) ctx)) = example_image v l
    \<and> fwu_lowest_supported_version (fwu_step (example_staging v l) ctx) = fwu_lowest_supported_version ctx
    \<and> fwu_current_version (fwu_step (example_staging v l) ctx) = fwu_current_version ctx"
  using fw_acceptable_validates [OF assms(1) example_acceptable [OF assms(2,3)], of "\<lparr>rk256_modulus = [], rk256_exponent = [],
    rk256_mod_len = 0, rk256_exp_len = 0\<rparr>"] by (auto simp: example_staging_def)

lemma example_ops_ok: "fwu_op_ok (example_staging v l)" "fwu_op_ok FwuProcess" "fwu_op_ok FwuCommit" "fwu_op_ok FwuRollback"
  by (simp_all add: fwu_op_ok_def example_staging_def example_capsule_header_def FW_CAPSULE_GUID_DATA_def)

text \<open>Version 5 is installed; version 7 is staged, validates and raises the floor to 5, and rolling back keeps it there.\<close>

theorem fw_capsule_run_floor_witness:
  "let ctx = fwu_run [example_staging 5 1, FwuProcess, FwuCommit, example_staging 7 5] fw_capsule_init
   in fwu_current_version ctx = 5
     \<and> fw_capsule_validate (Some ctx) (Some \<lparr>rk256_modulus = zeros 256, rk256_exponent = zeros 256, rk256_mod_len = 256,
          rk256_exp_len = 3\<rparr>) = Returned FW_VERIFY_OK
     \<and> (\<exists>ctx'. fw_capsule_process ctx = (ctx', True) \<and> fwu_current_version ctx' = 7 \<and> fwu_lowest_supported_version ctx' = 5)
     \<and> 5 \<le> fwu_lowest_supported_version (fwu_run [FwuProcess, FwuRollback] ctx)"
proof -
  let ?key = "\<lparr>rk256_modulus = zeros 256, rk256_exponent = zeros 256, rk256_mod_len = 256, rk256_exp_len = 3\<rparr>"
  note ok = example_ops_ok
  note floor = fw_capsule_run_floor [where key = ?key, unfolded Let_def]
  have accept: "fw_capsule_validate (Some (fwu_run (qs @ [example_staging v l]) fw_capsule_init)) (Some ?key) = Returned FW_VERIFY_OK"
    if "\<forall>q \<in> set qs. fwu_op_ok q" and "capsule_acceptable (fwu_run qs fw_capsule_init) example_capsule_header (example_image v l) [1, 2, 3]" for qs v l
    using floor [OF that(1)] that(2) unfolding example_staging_def by blast
  define c5 where "c5 = fwu_step (example_staging 5 1) fw_capsule_init"
  have i5: "capsule_acceptable (fwu_run [] fw_capsule_init) example_capsule_header (example_image 5 1) [1, 2, 3]"
    "read_image_header (fwu_staging_area c5) = example_image 5 1" "fwu_lowest_supported_version c5 = 1"
    using example_acceptable [of fw_capsule_init 5 1] example_staged [of fw_capsule_init 5 1] by (simp_all add: fwu_run_def fw_capsule_init_def c5_def)
  have r5: "fwu_run [example_staging 5 1] fw_capsule_init = c5" by (simp add: fwu_run_def c5_def)
  have "fw_capsule_validate (Some c5) (Some ?key) = Returned FW_VERIFY_OK"
    using accept [OF _ i5(1)] r5 by simp
  then obtain d where "fw_capsule_process c5 = (d, True)" "fwu_current_version d = 5" "fwu_lowest_supported_version d = 1"
    using floor [of "[example_staging 5 1]"] i5(2,3) ok unfolding r5 by (auto simp: example_image_def)
  moreover define c7 where "c7 = fst (fw_capsule_commit d)"
  ultimately have r7: "fwu_run [example_staging 5 1, FwuProcess, FwuCommit] fw_capsule_init = c7"
    and v7: "fwu_current_version c7 = 5" "fwu_lowest_supported_version c7 = 1"
    using r5 by (simp_all add: fwu_run_def fw_capsule_commit_def)
  define e where "e = fwu_step (example_staging 7 5) c7"
  have re: "fwu_run ([example_staging 5 1, FwuProcess, FwuCommit] @ [example_staging 7 5]) fw_capsule_init = e"
    using r7 by (simp add: fwu_run_def e_def)
  have o7: "\<forall>q \<in> set [example_staging 5 1, FwuProcess, FwuCommit]. fwu_op_ok q" using ok by simp
  have f7: "length (fwu_staging_area c7) = FW_MAX_CAPSULE_SIZE" "fw_capsule_validate (Some e) (Some ?key) = Returned FW_VERIFY_OK"
    using floor [OF o7] accept [OF o7, of 7 5] example_acceptable [of c7 7 5] v7 re unfolding r7 by simp_all
  have se: "read_image_header (fwu_staging_area e) = example_image 7 5" "fwu_lowest_supported_version e = 1" "fwu_current_version e = 5"
    using example_staged [OF f7(1), of 7 5] v7 by (simp_all add: e_def)
  obtain g where g: "fw_capsule_process e = (g, True)" "fwu_current_version g = 7" "fwu_lowest_supported_version g = 5"
    using floor [of "[example_staging 5 1, FwuProcess, FwuCommit] @ [example_staging 7 5]"] f7(2) se ok unfolding re
    by (auto simp: example_image_def)
  have rg: "fwu_run [example_staging 5 1, FwuProcess, FwuCommit, example_staging 7 5, FwuProcess] fw_capsule_init = g"
    using re g(1) by (simp add: fwu_run_def)
  have "5 \<le> fwu_lowest_supported_version (fwu_run [FwuRollback] g)"
    using floor [of "[example_staging 5 1, FwuProcess, FwuCommit, example_staging 7 5, FwuProcess]"] ok g(3) unfolding rg by simp
  then have "5 \<le> fwu_lowest_supported_version (fwu_run [FwuProcess, FwuRollback] e)" using g(1) by (simp add: fwu_run_def)
  then show ?thesis using re f7(2) se(3) g by (simp add: Let_def)
qed

section \<open>TPM keys and attestation\<close>

text \<open>
  \<open>tpm_hmac_sha256\<close> is RFC 2104 over SHA-256 whatever its context held, and \<open>tpm_kdfa\<close> is
  the counter mode of SP 800-108: for a key, an output of 1 to 64 bytes and a fixed input that
  fits a 32-bit length it returns the blocks of the counters 1, 2 cut to the output length, or
  nothing when there is no memory.
\<close>
lemma kdfa_is_sp800_108:
  assumes "length (ctx_data ctx) = 64" and "kdp_key p = Some key" and "key \<noteq> []" and "0 < n" and "n \<le> 64"
    and "length (kdfa_fixed_input p) < 2 ^ 32 - 4"
  shows "tpm_hmac_sha256_from ctx key text = hmac_of sha256_spec key text
    \<and> tpm_kdfa mem (Some p) n = Returned (if mem (of_nat (4 + length (kdfa_fixed_input p)))
        then Some (take n (concat (map (\<lambda>i. hmac_of sha256_spec key (be32_bytes (of_nat i) @ kdfa_fixed_input p))
               [1..<Suc ((n + 31) div 32)])))
        else None)"
proof -
  have "sha256_spec = sha256_hash" by (simp add: fun_eq_iff sha256_hash_correct)
  then show ?thesis
    using tpm_hmac_sha256_from_correct [OF assms(1)] tpm_kdfa_eq [OF assms(2-6)] by (simp add: kdfa_spec_def)
qed

text \<open>
  C27.  Sealed data survive a restart and are bound to the registers.  Whatever ran before on
  both sides, data sealed under a primary key are returned by an unseal under a primary key of
  the same hierarchy and template, created again from the constant seeds, when the register
  values are the same; with other values, of the same number, the unseal refuses or SHA-256
  collides on the two.  But the blob and the public area of the key are enough to read the data.
\<close>
theorem seal_unseal_roundtrip:
  assumes "tkm_run mem ops tpm_key_manager_init = Returned mgr" and "tkm_run mem ops' tpm_key_manager_init = Returned mgr'"
    and "parent_key mgr h = Some k" and "ko_is_primary k" and "parent_key mgr' h' = Some k'" and "ko_is_primary k'"
    and "ko_hierarchy k' = ko_hierarchy k" and "kp_key_type (ko_public_part k') = kp_key_type (ko_public_part k)"
    and "kp_attributes (ko_public_part k') = kp_attributes (ko_public_part k)"
    and "length d < 65536" and "unat n * 32 = length pcrs" and "length pcrs < 2 ^ 32" and "mem 45"
  shows "\<exists>blob. tpm_seal mem mgr h (Some d) (Some pcrs) n = Returned (Some blob)
    \<and> tpm_unseal mem mgr' h' (Some blob) (Some pcrs) n = Returned (Some (d, of_nat (length d)))
    \<and> (\<forall>pcrs'. length pcrs' = length pcrs \<and> pcrs' \<noteq> pcrs \<longrightarrow>
        tpm_unseal mem mgr' h' (Some blob) (Some pcrs') n = Returned None \<or> sha256_hash pcrs' = sha256_hash pcrs)
    \<and> d = xor_stream (kdfa_spec (kp_unique (ko_public_part k)) (str_bytes ''SEAL'' @ 0 # take 32 (drop 6 blob) @ be32_bytes 256) 32) (drop 38 blob)"
proof -
  have in_set: "k \<in> set (tkm_keys m)" if "parent_key m h = Some k" for m h k
    using that by (auto simp: parent_key_def dest: find_index_SomeD)
  have "tkm_wf mgr" "tkm_wf mgr'"
    using tkm_run_inv [OF tkm_wf_init, of mem ops] tkm_run_inv [OF tkm_wf_init, of mem ops'] assms(1,2) by simp_all
  then have u: "kp_unique (ko_public_part k') = kp_unique (ko_public_part k)" "length (kp_unique (ko_public_part k)) = 32"
    using in_set [OF assms(3)] in_set [OF assms(5)] assms(4,6-9) unfolding tkm_wf_def primary_key_of_def by auto
  have c: "pcr_composite_of p n = Some (sha256_hash p)" if "length p = length pcrs" for p
  proof -
    have "unat (n * 32) = length pcrs" using u32_mult [of n 32] assms(11,12) by simp
    then show ?thesis using that by (simp add: pcr_composite_of_def)
  qed
  let ?b = "be32_bytes n @ [ucast (drop_bit 8 n), ucast n] @ sha256_hash pcrs @ xor_stream (seal_key k (sha256_hash pcrs)) d"
  have s: "tpm_seal mem mgr h (Some d) (Some pcrs) n = Returned (Some ?b)"
    by (rule tpm_seal_eq [where mem = mem, OF assms(3) u(2) c [OF refl] assms(13)])
  have dr: "take 32 (drop 6 ?b) = sha256_hash pcrs" "drop 38 ?b = xor_stream (seal_key k (sha256_hash pcrs)) d" "length ?b = 38 + length d"
    by simp_all
  have un: "tpm_unseal mem mgr' h' (Some ?b) (Some p) n = Returned (if sha256_hash p = sha256_hash pcrs
      then Some (xor_stream (seal_key k' (sha256_hash p)) (drop 38 ?b), of_nat (length ?b - 38)) else None)"
    if "length p = length pcrs" for p
    using tpm_unseal_eq [where mem = mem, OF assms(5) _ c [OF that] assms(13), of ?b] u dr by simp
  have "seal_key k' = seal_key k" by (simp add: seal_key_def u fun_eq_iff)
  then show ?thesis
    using s un [OF refl] un dr by (intro exI [of _ ?b]) (simp add: seal_key_def)
qed

theorem seal_unseal_roundtrip_witness:
  "\<exists>mgr blob. tkm_run (\<lambda>_. True) [TkSeeds, TkCreate TPM_HIERARCHY_OWNER 1 0 None None] tpm_key_manager_init = Returned mgr
    \<and> tpm_seal (\<lambda>_. True) mgr 0x81000000 (Some [1, 2]) (Some (zeros 32)) 1 = Returned (Some blob)
    \<and> tpm_unseal (\<lambda>_. True) mgr 0x81000000 (Some blob) (Some (zeros 32)) 1 = Returned (Some ([1, 2], 2))"
proof -
  let ?h = TPM_HIERARCHY_OWNER
  let ?m0 = "fst (tpm_generate_primary_seeds tpm_key_manager_init)"
  have m0: "tkm_wf ?m0" "tkm_seeds_generated ?m0" "tkm_keys ?m0 = []"
    using tkm_step_inv [OF tkm_wf_init, of "\<lambda>_. True" TkSeeds]
    by (simp_all add: tpm_generate_primary_seeds_def tpm_key_manager_init_def Let_def)
  obtain k where k: "tpm_create_primary (\<lambda>_. True) ?m0 ?h 1 0 None None = Returned (?m0\<lparr>tkm_keys := [k]\<rparr>, Some (ko_handle k))"
      "ko_handle k = 0x81000000" "ko_is_primary k"
    using tpm_create_primary_cases [OF m0(1), of "\<lambda>_. True" ?h 1 0 None None] m0(2,3)
    by (auto simp: primary_key_of_def hierarchy_label_def hierarchy_base_def tpm_validate_key_attrs_def)
  have r: "tkm_run (\<lambda>_. True) [TkSeeds, TkCreate ?h 1 0 None None] tpm_key_manager_init = Returned (?m0\<lparr>tkm_keys := [k]\<rparr>)"
    using k(1) by simp
  have "parent_key (?m0\<lparr>tkm_keys := [k]\<rparr>) 0x81000000 = Some k" by (simp add: parent_key_def k(2))
  from seal_unseal_roundtrip [OF r r this k(3) this k(3), of "[1, 2]" 1 "zeros 32"] show ?thesis using r by force
qed

text \<open>
  C28.  The attestation protocol: the quote of a prover who holds the key verifies, for any bank
  and any choice of at most eight registers, and the integrity check then passes exactly when
  every requested register exists and equals its golden value where one is set.
\<close>
theorem attestation_complete:
  assumes "atv_wf v" and "length idx \<le> 8" and "find_signing_key mgr h = Some k"
  defines "v' \<equiv> attest_generate_challenge v (Some idx)"
  shows "\<exists>q. attest_create_quote (Some bank) (Some (atv_last_challenge v')) (Some mgr) h = Returned (Some q)
    \<and> attest_verify_quote (Some v') (Some q) (Some (ko_public_part k)) = Returned True
    \<and> attest_verify_integrity (Some v') (Some \<lparr>atr_quote = q, atr_aik_public = ko_public_part k, atr_aik_name = nm, atr_verified = b\<rparr>)
      = Returned (\<forall>i \<in> set idx. unat i < 24 \<and> (atv_golden_defined v ! unat i \<longrightarrow> pcr_read bank i = Some (atv_golden_pcrs v ! unat i)))"
proof -
  let ?q = "the_quote bank idx k"
  have c: "attest_create_quote (Some bank) (Some (atv_last_challenge v')) (Some mgr) h = Returned (Some ?q)"
    unfolding v'_def using create_quote_eq [OF assms(2,3)] .
  have vq: "attest_verify_quote (Some v') (Some ?q) (Some (ko_public_part k)) = Returned True"
    unfolding v'_def by (rule the_quote_verifies [OF assms(1,2)])
  have p: "quoted_pairs (atq_pcr_comp ?q) = zip idx (map (quoted_value bank) idx)"
    using quoted_pairs_of_quote [OF assms(2), of "atq_pcr_comp ?q"] assms(2)
    by (intro nth_equalityI) (simp_all add: blit_prefix)
  have z: "zip idx (map (quoted_value bank) idx) = map (\<lambda>i. (i, quoted_value bank i)) idx"
    by (simp add: zip_map2 zip_same_conv_map)
  have "golden_check v' (quoted_pairs (atq_pcr_comp ?q))
      \<longleftrightarrow> (\<forall>i \<in> set idx. unat i < 24 \<and> (atv_golden_defined v ! unat i \<longrightarrow> quoted_value bank i = atv_golden_pcrs v ! unat i))"
    unfolding golden_check_iff p z v'_def challenge_simps [OF assms(2)] by simp
  also have "\<dots> \<longleftrightarrow> (\<forall>i \<in> set idx. unat i < 24 \<and> (atv_golden_defined v ! unat i \<longrightarrow> pcr_read bank i = Some (atv_golden_pcrs v ! unat i)))"
    by (auto simp: quoted_value_def pcr_read_def PCR_COUNT_def word_le_nat_alt)
  finally show ?thesis
    using c vq challenge_simps(4) [OF assms(2)] by (auto simp: attest_verify_integrity_def v'_def)
qed

theorem attestation_complete_witness:
  "\<exists>mgr q k. find_signing_key mgr 5 = Some k
    \<and> attest_create_quote (Some (pcr_bank_init TPM_ALG_SHA256)) (Some (atv_last_challenge (attest_generate_challenge
        \<lparr>atv_last_challenge = \<lparr>atc_challenge_id = [], atc_nonce = [], atc_pcr_indices = [], atc_pcr_count = 0, atc_timestamp = 0\<rparr>,
         atv_last_response = \<lparr>atr_quote = zero_quote, atr_aik_public = zero_key_public, atr_aik_name = [], atr_verified = False\<rparr>,
         atv_challenge_sent = False, atv_response_received = False, atv_expected_nonce = [], atv_expected_pcr_indices = replicate 8 0,
         atv_expected_pcr_count = 0, atv_golden_pcrs = replicate 24 [], atv_golden_defined = replicate 24 False\<rparr> (Some [0, 7]))))
       (Some mgr) 5 = Returned (Some q)"
proof -
  let ?k = "\<lparr>ko_handle = 5, ko_parent_handle = 0, ko_public_part = zero_key_public, ko_sensitive = zero_key_sensitive, ko_hierarchy = 0,
     ko_loaded = True, ko_is_primary = False, ko_name = []\<rparr>"
  let ?m = "tpm_key_manager_init\<lparr>tkm_keys := [?k]\<rparr>"
  have k: "find_signing_key ?m 5 = Some ?k" by (simp add: find_signing_key_def)
  have w: "atv_wf \<lparr>atv_last_challenge = \<lparr>atc_challenge_id = [], atc_nonce = [], atc_pcr_indices = [], atc_pcr_count = 0, atc_timestamp = 0\<rparr>,
         atv_last_response = \<lparr>atr_quote = zero_quote, atr_aik_public = zero_key_public, atr_aik_name = [], atr_verified = False\<rparr>,
         atv_challenge_sent = False, atv_response_received = False, atv_expected_nonce = [], atv_expected_pcr_indices = replicate 8 0,
         atv_expected_pcr_count = 0, atv_golden_pcrs = replicate 24 [], atv_golden_defined = replicate 24 False\<rparr>" by (simp add: atv_wf_def)
  show ?thesis
    using attestation_complete [OF w _ k, of "[0, 7]" "pcr_bank_init TPM_ALG_SHA256" "[]" False] k by auto
qed

text \<open>
  C29.  The verifier can be fooled.  For every choice of register values there is a quote, made
  without any key, that verifies against every public key: one whose signature has length zero.
  And every challenge carries the same nonce, so a quote that verified once verifies for every
  later challenge of the same registers, by whichever verifier.
\<close>
theorem attestation_forgeable:
  assumes "atv_wf v" and "atv_wf w" and "length idx \<le> 8"
  shows "(\<exists>q. apc_pcr_values (atq_pcr_comp q) = values
      \<and> (\<forall>aik. attest_verify_quote (Some (attest_generate_challenge v (Some idx))) (Some q) (Some aik) = Returned True))
    \<and> (attest_verify_quote (Some (attest_generate_challenge v (Some idx))) (Some q0) (Some aik) = Returned True \<longrightarrow>
       attest_verify_quote (Some (attest_generate_challenge w (Some idx))) (Some q0) (Some aik) = Returned True)"
proof
  show "\<exists>q. apc_pcr_values (atq_pcr_comp q) = values
      \<and> (\<forall>aik. attest_verify_quote (Some (attest_generate_challenge v (Some idx))) (Some q) (Some aik) = Returned True)"
    using forged_quote_verifies [OF assms(1,3)] by (intro exI [of _ "forged_quote idx values"]) (simp add: forged_quote_def)
qed (simp add: verify_quote_iff [OF assms(1,3)] verify_quote_iff [OF assms(2,3)])

theorem attestation_forgeable_witness:
  "\<exists>v q. atv_wf v \<and> apc_pcr_values (atq_pcr_comp q) = [zeros 32]
    \<and> attest_verify_quote (Some (attest_generate_challenge v (Some [0]))) (Some q) (Some zero_key_public) = Returned True"
proof -
  let ?v = "\<lparr>atv_last_challenge = \<lparr>atc_challenge_id = [], atc_nonce = [], atc_pcr_indices = [], atc_pcr_count = 0, atc_timestamp = 0\<rparr>,
         atv_last_response = \<lparr>atr_quote = zero_quote, atr_aik_public = zero_key_public, atr_aik_name = [], atr_verified = False\<rparr>,
         atv_challenge_sent = False, atv_response_received = False, atv_expected_nonce = [], atv_expected_pcr_indices = replicate 8 0,
         atv_expected_pcr_count = 0, atv_golden_pcrs = replicate 24 [], atv_golden_defined = replicate 24 False\<rparr>"
  have w: "atv_wf ?v" by (simp add: atv_wf_def)
  from attestation_forgeable [OF w w, of "[0]" "[zeros 32]"] w show ?thesis by fastforce
qed

section \<open>Boot configuration and ELF images\<close>

text \<open>The operations on a boot configuration; only the parser can leave C's defined behaviour.\<close>

datatype cfg_op = CfgParse "bytes option" bool | CfgFile "bytes option" "bytes option" bool
  | CfgAdd "bytes option" "bytes option" "bytes option" "bytes option"
  | CfgGlobal "bytes option" "bytes option" | CfgTimeout u32 | CfgDefault u32

fun cfg_step :: "cfg_op \<Rightarrow> BootConfig \<Rightarrow> BootConfig c_result" where
  "cfg_step (CfgParse t mem) c = (case bootcfg_parse mem c t of Returned r \<Rightarrow> Returned (fst r) | Undefined \<Rightarrow> Undefined | Diverges \<Rightarrow> Diverges)"
| "cfg_step (CfgFile p f mem) c =
     (case bootcfg_parse_file mem f c p of Returned r \<Rightarrow> Returned (fst r) | Undefined \<Rightarrow> Undefined | Diverges \<Rightarrow> Diverges)"
| "cfg_step (CfgAdd t k i a) c = Returned (fst (bootcfg_add_entry c t k i a))"
| "cfg_step (CfgGlobal k v) c = Returned (fst (bootcfg_set_global c k v))"
| "cfg_step (CfgTimeout s) c = Returned (fst (bootcfg_set_timeout c s))"
| "cfg_step (CfgDefault i) c = Returned (fst (bootcfg_set_default c i))"

fun cfg_run :: "cfg_op list \<Rightarrow> BootConfig \<Rightarrow> BootConfig c_result" where
  "cfg_run [] c = Returned c"
| "cfg_run (op # ops) c = (case cfg_step op c of Returned c' \<Rightarrow> cfg_run ops c' | Undefined \<Rightarrow> Undefined | Diverges \<Rightarrow> Diverges)"

lemma cfg_parse_steps:
  assumes "x = Undefined \<or> (\<exists>c' b. x = Returned (c', b :: bool) \<and> cfg_wf c')"
  shows "(case x of Returned r \<Rightarrow> Returned (fst r) | Undefined \<Rightarrow> Undefined | Diverges \<Rightarrow> Diverges) = Undefined
    \<or> (\<exists>c'. (case x of Returned r \<Rightarrow> Returned (fst r) | Undefined \<Rightarrow> Undefined | Diverges \<Rightarrow> Diverges) = Returned c' \<and> cfg_wf c')"
  using assms by auto

lemma bootcfg_parse_file_wf:
  assumes "cfg_wf c"
  shows "bootcfg_parse_file mem f c p = Undefined \<or> (\<exists>c' b. bootcfg_parse_file mem f c p = Returned (c', b) \<and> cfg_wf c')"
proof -
  have "\<exists>b. \<not> b" by (rule exI [of _ False]) simp
  then show ?thesis using assms bootcfg_parse_wf [OF assms, of mem] by (simp add: bootcfg_parse_file_def split: option.split) (metis (full_types))
qed

lemma cfg_step_wf:
  assumes "cfg_wf c"
  shows "cfg_step op c = Undefined \<or> (\<exists>c'. cfg_step op c = Returned c' \<and> cfg_wf c')"
proof (cases op)
  case (CfgParse t mem)
  then show ?thesis using cfg_parse_steps [OF bootcfg_parse_wf [OF assms, of mem t]] by simp
next
  case (CfgFile p f mem)
  then show ?thesis using cfg_parse_steps [OF bootcfg_parse_file_wf [OF assms, of mem f p]] by simp
next
  case (CfgAdd t k i a)
  then show ?thesis using cfg_wf_add_entry [OF assms] by simp
next
  case (CfgGlobal k v)
  then show ?thesis using cfg_wf_set_global [OF assms] by simp
next
  case (CfgTimeout s)
  then show ?thesis using assms by (simp add: bootcfg_set_timeout_def cfg_wf_def)
next
  case (CfgDefault i)
  then show ?thesis using assms by (simp add: bootcfg_set_default_def cfg_wf_def)
qed

lemma cfg_run_wf: "cfg_wf c \<Longrightarrow> cfg_run ops c = Undefined \<or> (\<exists>c'. cfg_run ops c = Returned c' \<and> cfg_wf c')"
proof (induction ops arbitrary: c)
  case (Cons op ops)
  from cfg_step_wf [OF Cons.prems, of op] show ?case
  proof (elim disjE exE conjE)
    fix c'
    assume "cfg_step op c = Returned c'" "cfg_wf c'"
    then show ?thesis using Cons.IH [of c'] by simp
  qed simp
qed simp

text \<open>
  C30.  A boot configuration stays inside its arrays: any run of parses, of any texts, and of the
  other operations ends in the undefined behaviour of an over-long title or number, or keeps at
  most 32 entries and 32 settings, each entry numbered by its place, every string within its
  field.  The default is then the entry it names, or the first one, if there is any.
\<close>
theorem bootcfg_run_bounds:
  "cfg_run ops bootcfg_init = Undefined \<or>
    (\<exists>c. cfg_run ops bootcfg_init = Returned c \<and> cfg_wf c \<and>
      (case bootcfg_get_default (Some c) of
         None \<Rightarrow> bcf_entries c = []
       | Some e \<Rightarrow> e \<in> set (bcf_entries c) \<and> entry_wf e \<and>
           (unat (bcf_default_index c) < length (bcf_entries c) \<longrightarrow> bme_index e = bcf_default_index c)))"
proof -
  have d: "case bootcfg_get_default (Some c) of
         None \<Rightarrow> bcf_entries c = []
       | Some e \<Rightarrow> e \<in> set (bcf_entries c) \<and> entry_wf e \<and>
           (unat (bcf_default_index c) < length (bcf_entries c) \<longrightarrow> bme_index e = bcf_default_index c)"
    if "cfg_wf c" for c
    using that by (auto simp: bootcfg_get_default_def cfg_wf_def)
  show ?thesis using cfg_run_wf [OF cfg_wf_init, of ops] d by blast
qed

theorem bootcfg_run_bounds_witness:
  "\<exists>c. cfg_run [CfgAdd (Some [65]) None None None, CfgDefault 0] bootcfg_init = Returned c \<and> length (bcf_entries c) = 1
    \<and> cfg_wf c"
proof -
  have r: "\<exists>c. cfg_run [CfgAdd (Some [65]) None None None, CfgDefault 0] bootcfg_init = Returned c \<and> length (bcf_entries c) = 1"
    by (simp add: bootcfg_add_entry_def bootcfg_init_def bootcfg_set_default_def BOOTCFG_MAX_ENTRIES_def Let_def)
  then show ?thesis using bootcfg_run_bounds [of "[CfgAdd (Some [65]) None None None, CfgDefault 0]"] by auto
qed

text \<open>
  C31.  Round trip of the menu file: parsing the text of at most 32 entries, whose titles and words
  need no quoting, into a fresh configuration succeeds and gives exactly these entries, numbered
  in order.
\<close>
theorem bootcfg_text_roundtrip:
  assumes "\<forall>e \<in> set es. clean_entry e" and "length es \<le> 32"
  shows "bootcfg_parse True bootcfg_init (Some (config_text_of es))
    = Returned (bootcfg_init\<lparr>bcf_entries := map (\<lambda>i. placed i (es ! i)) [0..<length es]\<rparr>, True)"
proof -
  have p: "placed_from k xs = map (\<lambda>i. placed (k + i) (xs ! i)) [0..<length xs]" for k xs
  proof (induction xs arbitrary: k)
    case (Cons x xs)
    show ?case unfolding list.size(4) One_nat_def add_Suc_right add_0_right upt_conv_Cons [OF zero_less_Suc] map_Suc_upt [symmetric]
      by (simp add: Cons.IH)
  qed simp
  show ?thesis using bootcfg_parse_text [OF assms(1), of bootcfg_init] assms(2) p [of 0] by (simp add: bootcfg_init_def)
qed

theorem bootcfg_text_roundtrip_witness:
  "bootcfg_parse True bootcfg_init (Some (config_text_of [zero_menu_entry\<lparr>bme_title := [76], bme_kernel := [47, 107], bme_args := [[114, 119]]\<rparr>]))
    = Returned (bootcfg_init\<lparr>bcf_entries := [zero_menu_entry\<lparr>bme_title := [76], bme_kernel := [47, 107], bme_args := [[114, 119]]\<rparr>]\<rparr>, True)"
  by (subst bootcfg_text_roundtrip)
    (simp_all add: clean_entry_def clean_title_def clean_word_def zero_menu_entry_def is_space_def placed_def)

text \<open>
  C32.  Loading an ELF image places its segments: when every loadable segment lies in the image and
  in memory, the load succeeds (unless there is none), bytes outside all segments keep their
  value, and every segment of a set without overlaps holds its file bytes followed by zeros.
\<close>
theorem elf_load_places_segments:
  assumes "elf_image c = Some img" and "length img < 2 ^ 32" and "length dest < 2 ^ 32" and "elf_phnum c \<noteq> 0"
    and "\<forall>p \<in> set (elf_phdrs c img). ph_type p = PT_LOAD \<longrightarrow> seg_fits img (elf_load_base c) (length dest) p"
  shows "\<exists>d. boot_elf_load_segments (Some c) (Some dest)
      = Returned (Some d, filter (\<lambda>p. ph_type p = PT_LOAD) (elf_phdrs c img) \<noteq> [])
    \<and> segs_loaded img (elf_load_base c) (filter (\<lambda>p. ph_type p = PT_LOAD) (elf_phdrs c img)) dest d"
  using load_phdrs_fits [OF assms(5,3,2), of 0] assms(1,4) by (force simp: boot_elf_load_segments_def)

theorem elf_load_places_segments_witness:
  "\<exists>d. boot_elf_load_segments
      (Some (boot_elf_init\<lparr>elf_image := Some ([1, 0, 0, 0, 32, 0, 0, 0, 1, 0, 0, 0, 0, 0, 0, 0, 2, 0, 0, 0, 3, 0, 0, 0, 0, 0, 0, 0, 0, 0, 0, 0, 7, 8]),
         elf_class := 1, elf_ehdr := (zeros 64)[42 := 32, 44 := 1]\<rparr>)) (Some (replicate 5 9)) = Returned (Some d, True)
    \<and> sub_range d 1 3 = [7, 8, 0]"
proof -
  define img where "img = ([1, 0, 0, 0, 32, 0, 0, 0, 1, 0, 0, 0, 0, 0, 0, 0, 2, 0, 0, 0, 3, 0, 0, 0, 0, 0, 0, 0, 0, 0, 0, 0, 7, 8] :: bytes)"
  define c where "c = boot_elf_init\<lparr>elf_image := Some img, elf_class := 1, elf_ehdr := (zeros 64)[42 := 32, 44 := 1]\<rparr>"
  let ?p = "\<lparr>ph_type = 1, ph_offset = 32, ph_vaddr = 1, ph_filesz = 2, ph_memsz = 3, ph_flags = 0\<rparr>"
  have n: "elf_phnum c = 1" "elf_load_base c = 0" "elf_image c = Some img" "length img = 34"
    by (simp_all add: c_def img_def elf_phnum_def u16_at_def ELFCLASS32_def boot_elf_init_def zeros_def le16_def)
  have "elf_phdrs c img = phdrs_from True img 0 32 [0]"
    using n(1) by (simp add: elf_phdrs_def Let_def wide_at_def u16_at_def zeros_def le16_def c_def ELFCLASS32_def boot_elf_init_def le32_at_def le32_def)
  also have "\<dots> = [?p]" by (simp add: img_def wide_at_def sizeof_phdr_def read_phdr_def le32_at_def le32_def)
  finally have h: "elf_phdrs c img = [?p]" .
  have "\<forall>p \<in> set (elf_phdrs c img). ph_type p = PT_LOAD \<longrightarrow> seg_fits img (elf_load_base c) (length (replicate 5 (9 :: u8))) p"
    by (simp add: h n seg_fits_def seg_addr_def)
  moreover have "seg_bytes img ?p = [7, 8, 0]" by (simp add: seg_bytes_def img_def sub_range_def zeros_def)
  ultimately show ?thesis
    using elf_load_places_segments [OF n(3), of "replicate 5 9"] unfolding img_def [symmetric] c_def [symmetric]
    by (auto simp: n h PT_LOAD_def segs_loaded_def seg_addr_def)
qed

section \<open>Loader modules\<close>

text \<open>
  C33.  The modules are put in an order whenever there is one: for at most 32 modules, each with at
  most eight dependencies, resolving succeeds exactly when the modules can be ordered so that
  each comes after those it depends on, and gives such an order of all of them.
\<close>
theorem module_order_complete:
  assumes "\<forall>m \<in> set list. module_ok m" and "list \<noteq> []" and "length list \<le> 32"
  shows "if \<exists>ys. load_order list (length list) ys
    then \<exists>xs. grub_dependency_resolve True list = Returned (Some xs, Some (length list), True) \<and> load_order list (length list) xs
    else grub_dependency_resolve True list = Returned (None, Some 0, False)"
  using topological_sort_complete [OF assms(1,3)] assms(2) by (simp add: grub_dependency_resolve_def)

theorem module_order_complete_witness:
  "\<exists>xs. grub_dependency_resolve True
      [zero_module\<lparr>gm_header := zero_module_header\<lparr>gmh_dependencies := [1, 0, 0, 0, 0, 0, 0, 0], gmh_dep_count := 1\<rparr>\<rparr>, zero_module]
    = Returned (Some xs, Some 2, True) \<and> xs ! 0 = 1"
proof -
  let ?m = "zero_module\<lparr>gm_header := zero_module_header\<lparr>gmh_dependencies := [1, 0, 0, 0, 0, 0, 0, 0], gmh_dep_count := 1\<rparr>\<rparr>"
  let ?l = "[?m, zero_module]"
  have ok: "\<forall>m \<in> set ?l. module_ok m" by (simp add: module_ok_def zero_module_def zero_module_header_def GRUB_MODULE_DEP_MAX_def)
  have d: "module_deps ?l 2 0 = {1}" "module_deps ?l 2 1 = {}"
    by (auto simp: module_deps_def module_at_def zero_module_def zero_module_header_def)
  have "deps_precede ?l 2 [1, 0]" using d by (auto simp: deps_precede_def less_Suc_eq)
  then have ex: "\<exists>ys. load_order ?l 2 ys" by (intro exI [of _ "[1, 0]"]) (auto simp: load_order_def)
  have "length ?l = 2" by simp
  from module_order_complete [OF ok, unfolded this] ex obtain xs
    where xs: "grub_dependency_resolve True ?l = Returned (Some xs, Some 2, True)" "load_order ?l 2 xs" by auto
  then have p: "set xs = {..<2}" "deps_precede ?l 2 xs" unfolding load_order_def by blast+
  have "0 \<in> set xs" using p(1) by simp
  then have l: "0 < length xs" by (cases xs) auto
  then have "module_deps ?l 2 (xs ! 0) \<subseteq> set (take 0 xs)" using p(2) unfolding deps_precede_def by blast
  moreover have "xs ! 0 < 2" using p(1) nth_mem [OF l] by simp
  ultimately have "xs ! 0 = 1" using d(1) by (cases "xs ! 0 = 0") (simp_all del: One_nat_def)
  then show ?thesis using xs(1) by blast
qed

section \<open>Flash, devices and tables of the firmware\<close>

lemma fold_entries_last: "crc_entries c (bs @ [b]) = crc_entries c bs @ [unat ((fold (crc_table_step crc32_table) bs c XOR ucast b) AND 0xFF)]"
  by (induction bs arbitrary: c) simp_all

text \<open>
  C34.  The firmware's CRC-32 is the bitwise CRC with the reflected polynomial, except for one
  entry of its table: a message that does not reach entry 187 before its last byte has the right
  sum exactly when its last byte does not reach that entry either; the comparison with an
  expected sum goes wrong with it.
\<close>

theorem crc32_is_reference:
  assumes "187 \<notin> set (crc_entries 0xFFFFFFFF bs)"
  shows "(crc32_compute (Some (bs @ [b])) = crc_spec (bs @ [b])) = (last (crc_entries 0xFFFFFFFF (bs @ [b])) \<noteq> 187)
    \<and> crc32_verify (Some (bs @ [b])) (crc_spec (bs @ [b])) = (last (crc_entries 0xFFFFFFFF (bs @ [b])) \<noteq> 187)"
proof -
  have "crc32_compute (Some (bs @ [b])) = crc_spec (bs @ [b])" if "last (crc_entries 0xFFFFFFFF (bs @ [b])) \<noteq> 187"
    using assms that by (intro crc32_compute_reference) (simp_all add: fold_entries_last)
  moreover have "crc32_compute (Some (bs @ [b])) \<noteq> crc_spec (bs @ [b])" if "last (crc_entries 0xFFFFFFFF (bs @ [b])) = 187"
    using assms that by (intro crc32_compute_wrong) (simp_all add: fold_entries_last)
  ultimately show ?thesis by (auto simp: crc32_verify_def)
qed


theorem crc32_is_reference_witness:
  "crc32_compute (Some [0x44]) \<noteq> crc_spec [0x44] \<and> crc32_compute (Some [0x45]) = crc_spec [0x45]"
  using crc32_is_reference [where bs = "[]" and b = "0x44"] crc32_is_reference [where bs = "[]" and b = "0x45"] by simp

text \<open>
  C35.  Wear levelling: from the initial flash device on, erasing the least worn sector succeeds
  as long as some usable sector has not reached its 100000 cycles, the erase counts of the usable
  sectors never differ by more than one, and they add up to the number of erases done.
\<close>

theorem flash_wear_levelled:
  assumes "flash_init n = Some dev" and "k \<le> card (usable_sectors dev) * 100000"
  shows "snd (wear_run k dev)
    \<and> (\<forall>i \<in> usable_sectors dev. \<forall>j \<in> usable_sectors dev. erases (fst (wear_run k dev)) i \<le> erases (fst (wear_run k dev)) j + 1)
    \<and> sum (erases (fst (wear_run k dev))) (usable_sectors dev) = k
    \<and> fdv_total_erase_count (fst (wear_run k dev)) = of_nat k"
  using wear_run_inv [OF flash_init_wear [OF assms(1)] assms(2)] by (simp add: wear_inv_def)

theorem flash_wear_levelled_witness:
  "\<exists>dev. flash_init 8192 = Some dev \<and> snd (wear_run 5 dev) \<and> sum (erases (fst (wear_run 5 dev))) (usable_sectors dev) = 5"
proof -
  have i: "flash_init 8192 = Some (the (flash_init 8192))" by (simp add: flash_init_def Let_def)
  have u: "usable_sectors (the (flash_init 8192)) = {..<2}" using flash_init_usable [OF i] by simp
  show ?thesis using i flash_wear_levelled [OF i, of 5] u by (intro exI [of _ "the (flash_init 8192)"]) simp
qed



text \<open>
  C36.  The MMIO table is a memory: the bytes the processor sees form a partial map, mapping a
  region adds its addresses as zeros where nothing was mapped (none, when the region ends beyond
  the address space), a byte write is an update of a mapped address and is dropped elsewhere, and
  a byte read is a lookup that gives 0 elsewhere.
\<close>

theorem mmio_is_memory:
  assumes "mmio_wf mgr"
  shows "(\<forall>alloc base sz ty name mgr'. mmio_map alloc mgr base sz ty name = (mgr', True) \<longrightarrow> mmio_wf mgr'
        \<and> mmio_view mgr' = (\<lambda>addr. if mmio_view mgr addr \<noteq> None then mmio_view mgr addr
            else if base \<le> addr \<and> unat addr < unat base + unat sz \<and> unat base + unat sz < 2 ^ 32 then Some 0 else None))
    \<and> (\<forall>addr v. \<exists>mgr'. mmio_write8 mgr addr v = Returned mgr' \<and> mmio_wf mgr'
        \<and> mmio_view mgr' = (if mmio_view mgr addr = None then mmio_view mgr else (mmio_view mgr)(addr \<mapsto> v)))
    \<and> (\<forall>addr. mmio_read8 mgr addr = Returned (case mmio_view mgr addr of None \<Rightarrow> 0 | Some v \<Rightarrow> v))"
  using mmio_map_view [OF assms] mmio_write8_view [OF assms] mmio_read8_view [OF assms] by (auto simp: fun_eq_iff)

theorem mmio_is_memory_witness:
  "\<exists>m1 m2. mmio_map True mmio_init 0x1000 0x100 0 (Some []) = (m1, True) \<and> mmio_write8 m1 0x1004 9 = Returned m2
    \<and> mmio_read8 m2 0x1004 = Returned 9 \<and> mmio_read8 m2 0x1005 = Returned 0 \<and> mmio_read8 m2 0x2000 = Returned 0"
proof -
  obtain m1 where m1: "mmio_map True mmio_init 0x1000 0x100 0 (Some []) = (m1, True)"
    by (simp add: mmio_map_def mmio_init_def MMIO_MAX_REGIONS_def)
  have e: "mmio_view mmio_init = (\<lambda>addr. None)" by (simp add: fun_eq_iff mmio_view_def find_region_def mmio_init_def)
  have v1: "mmio_wf m1" "mmio_view m1 0x1004 = Some 0" "mmio_view m1 0x1005 = Some 0" "mmio_view m1 0x2000 = None"
    using mmio_is_memory [OF mmio_init_wf] m1 by (simp_all add: e)
  have "\<exists>m2. mmio_write8 m1 0x1004 9 = Returned m2 \<and> mmio_wf m2
      \<and> mmio_view m2 = (if mmio_view m1 0x1004 = None then mmio_view m1 else (mmio_view m1)(0x1004 \<mapsto> 9))"
    using mmio_is_memory [OF v1(1)] by blast
  then obtain m2 where m2: "mmio_write8 m1 0x1004 9 = Returned m2" "mmio_wf m2" "mmio_view m2 = (mmio_view m1)(0x1004 \<mapsto> 9)"
    using v1(2) by auto
  have rd: "mmio_read8 m2 a = Returned (case mmio_view m2 a of None \<Rightarrow> 0 | Some v \<Rightarrow> v)" for a
    using mmio_is_memory [OF m2(2)] by blast
  show ?thesis using m1 m2(1) by (intro exI [of _ m1] exI [of _ m2]) (simp add: rd m2(3) v1)
qed

text \<open>
  C37.  From the initial state, any run of at most 32 calls that build or add ACPI tables (with an
  identifier for every processor, and with tables as long as they say) returns, and all checksums
  of the resulting table set are valid, a rebuilt FADT included.
\<close>

theorem acpi_run_checksums:
  assumes "acpi_init oem tbl = Some mgr" and "length ops \<le> 32" and "list_all acpi_op_ok ops"
  shows "\<exists>mgr'. acpi_run ops mgr = Returned mgr' \<and> acpi_validate_checksums (Some mgr') = Returned True
    \<and> length (acm_table_ptrs mgr') \<le> length ops"
proof -
  have "acm_table_ptrs mgr = []" using assms(1) by (auto simp: acpi_init_def Let_def split: option.splits)
  then show ?thesis
    using acpi_run_inv [OF acpi_init_inv [OF assms(1)] _ assms(3)] assms(2) acpi_inv_validates by (auto simp: ACPI_MAX_TABLES_def)
qed

theorem acpi_run_checksums_witness:
  "\<exists>mgr mgr'. acpi_init (Some (str_bytes ''MINI'')) (Some (str_bytes ''FW'')) = Some mgr
    \<and> acpi_run [Op_fadt 1 9 0, Op_lapic 0xFEE00000 2 [0, 1], Op_dsdt] mgr = Returned mgr'
    \<and> acpi_validate_checksums (Some mgr') = Returned True"
proof -
  obtain mgr where "acpi_init (Some (str_bytes ''MINI'')) (Some (str_bytes ''FW'')) = Some mgr" by (simp add: acpi_init_def Let_def)
  then show ?thesis using acpi_run_checksums [of _ _ mgr "[Op_fadt 1 9 0, Op_lapic 0xFEE00000 2 [0, 1], Op_dsdt]"] by auto
qed

section \<open>Remote attestation\<close>

text \<open>
  C38.  The attestation service trusts what nobody signed: for every registered device that is not
  locked, and every challenge, there is a response made of the challenge's nonce alone, with no
  register and no key, that the service accepts and records as a success; a locked device is
  untrusted whatever it answers, and nothing is recorded.
\<close>

theorem ra_service_trusts_forgery:
  assumes "service_wf db" and "device db i = Some e" and "1 \<le> fw"
  shows "if ade_locked e
    then \<forall>resp. \<exists>vd. attest_service_verify_quote now db (Some i) resp chal = Returned (db, 0, ATTEST_RESULT_UNTRUSTED, Some vd)
    else \<exists>db' vd. attest_service_verify_quote now db (Some i) (forged_response chal fw) chal
        = Returned (db', 0, ATTEST_RESULT_TRUSTED, Some vd)
      \<and> device db' = (device db)(i \<mapsto> e\<lparr>ade_last_attest_time := now, ade_last_result := ATTEST_RESULT_TRUSTED,
          ade_attest_fail_count := 0\<rparr>)"
  using locked_untrusted [OF assms(1,2)] forged_trusted [OF assms(1,2) _ assms(3)] by auto

theorem ra_service_trusts_forgery_witness:
  "\<exists>db' vd. attest_service_verify_quote 100 (fst (attest_service_register_device (attest_service_init [7]) (Some [1]) (Some [2]) None))
      (Some [1]) (forged_response (fst (attest_challenge_create 99 0 1 None)) 5) (fst (attest_challenge_create 99 0 1 None))
    = Returned (db', 0, ATTEST_RESULT_TRUSTED, Some vd)"
proof -
  let ?db = "fst (attest_service_register_device (attest_service_init [7]) (Some [1]) (Some [2]) None)"
  have r: "attest_service_register_device (attest_service_init [7]) (Some [1]) (Some [2]) None = (?db, 0)"
    by (simp add: attest_service_register_device_def attest_service_init_def ATTEST_DB_MAX_DEVICES_def Let_def)
  have w: "service_wf ?db" using register_map [OF _ r] service_init_wf by blast
  obtain e where e: "device ?db [1] = Some e" "\<not> ade_locked e" using register_map [OF _ r] service_init_wf by auto
  show ?thesis using ra_service_trusts_forgery [OF w e(1), of 5 100 "fst (attest_challenge_create 99 0 1 None)"] e(2) by auto
qed

text \<open>
  C39.  The checks of the remote attestation library are blind to order: reordering the events of a
  log, or adding an event twice, leaves its integrity check as it was, and exchanging the contents
  of selected registers leaves the hash of the composite that a quote carries.
\<close>

theorem ra_checks_blind_to_order:
  "(\<forall>log log' e h. mset (tel_entries log) = mset (tel_entries log') \<or> mset (tel_entries log) = mset (tel_entries log') + {#e, e#} \<longrightarrow>
      tcg_eventlog_integrity_check log h = tcg_eventlog_integrity_check log' h)
    \<and> (\<forall>pc pc' d. mset (selected_digests pc) = mset (selected_digests pc') \<or> mset (selected_digests pc) = mset (selected_digests pc') + {#d, d#} \<longrightarrow>
      tpm_pcr_composite_hash pc = tpm_pcr_composite_hash pc')"
  using integrity_check_permuted integrity_check_doubled composite_hash_permuted composite_hash_pair by metis

theorem ra_checks_blind_to_order_witness:
  "tcg_eventlog_integrity_check \<lparr>tel_entries = [\<lparr>tes_pcr_index = 1, tes_event_type = 2, tes_digest = zeros 32, tes_data = [], tes_data_size = 0\<rparr>,
       \<lparr>tes_pcr_index = 3, tes_event_type = 4, tes_digest = zeros 32, tes_data = [], tes_data_size = 0\<rparr>], tel_boot_cycle = 0, tel_sealed = False\<rparr> (zeros 32)
    = tcg_eventlog_integrity_check \<lparr>tel_entries = [\<lparr>tes_pcr_index = 3, tes_event_type = 4, tes_digest = zeros 32, tes_data = [], tes_data_size = 0\<rparr>,
       \<lparr>tes_pcr_index = 1, tes_event_type = 2, tes_digest = zeros 32, tes_data = [], tes_data_size = 0\<rparr>], tel_boot_cycle = 0, tel_sealed = False\<rparr> (zeros 32)"
  by (rule ra_checks_blind_to_order [THEN conjunct1, rule_format]) simp

text \<open>
  C40.  A device identity chain certifies its layers: certificate by certificate it carries the
  digest of the layer's compound identifier and the key derived from it, where each identifier is
  derived from the one before and the measurement of the layer, and the chain verifies; but it
  verifies with every other signature and measurement as well.
\<close>

theorem dice_chain_certifies_layers:
  assumes "dice_chain_build_layered_attestation junk (Some uds) (Some layers) = Inr chn"
  shows "cert_claims (dcc_certs chn) = cdi_claims (layer_cdis uds layers) \<and> dice_chain_verify (Some chn) = (0, True)
    \<and> (\<forall>claim sig. dice_chain_verify (Some (chn\<lparr>dcc_certs := map (\<lambda>c. c\<lparr>dce_cdi_claim := claim, dce_signature := sig\<rparr>) (dcc_certs chn)\<rparr>)) = (0, True))"
proof -
  obtain r cs where c: "dcc_certs chn = r # cs" "dce_signature_size r = 512"
    and k: "\<forall>c \<in> set (r # cs). 0 < tkp_modulus_size (dce_subject_pub_key c)"
    using chain_build_layers [OF assms] by fastforce
  have "dice_chain_verify (Some chn) = (0, True)" using c k by (intro chain_verifies_any [of _ r cs]) simp_all
  moreover have "dice_chain_verify (Some (chn\<lparr>dcc_certs := map (\<lambda>c. c\<lparr>dce_cdi_claim := claim, dce_signature := sig\<rparr>) (dcc_certs chn)\<rparr>)) = (0, True)"
    for claim sig
    using c k by (intro chain_verifies_any [of _ "r\<lparr>dce_cdi_claim := claim, dce_signature := sig\<rparr>"
      "map (\<lambda>c. c\<lparr>dce_cdi_claim := claim, dce_signature := sig\<rparr>) cs"]) auto
  ultimately show ?thesis using chain_build_layers [OF assms] by blast
qed

theorem dice_chain_certifies_layers_witness:
  "\<exists>chn. dice_chain_build_layered_attestation (\<lambda>i j. zeros 256) (Some (zeros 32))
      (Some [\<lparr>dli_code_hash = zeros 32, dli_config_hash = zeros 32, dli_authority_hash = zeros 32, dli_version = 1, dli_level = 0, dli_label = zeros 48\<rparr>])
    = Inr chn \<and> dice_chain_verify (Some chn) = (0, True)"
proof -
  obtain chn where "dice_chain_build_layered_attestation (\<lambda>i j. zeros 256) (Some (zeros 32))
      (Some [\<lparr>dli_code_hash = zeros 32, dli_config_hash = zeros 32, dli_authority_hash = zeros 32, dli_version = 1, dli_level = 0, dli_label = zeros 48\<rparr>]) = Inr chn"
    by (simp add: dice_chain_build_layered_attestation_def dice_derive_cdi_from_uds_def dice_cert_generate_def DICE_MAX_LAYERS_def Let_def)
  then show ?thesis using dice_chain_certifies_layers by blast
qed

end
